(* ===== verification/Prelude.thy ===== *)
theory Prelude
  imports Main "HOL-Library.Word" "HOL-Library.Multiset"
begin

text \<open>
  Shared vocabulary of the development: the machine integers of the C sources, the ways in which
  a C operation can fail, bounds-checked array access, and the generic facts on words and lists
  that the component theories rewrite with.

  A C array is a list; reading or writing outside it is the fault \<open>Out_of_bounds\<close>, a zero
  divisor of \<open>/\<close> or \<open>%\<close> is the fault \<open>Div_by_zero\<close>, a call of
  \<open>exit(EXIT_FAILURE)\<close> is the fault \<open>Exit_failure\<close>, and a driver's early return after a
  failed \<open>pread\<close> or a failed trace generation is the fault \<open>Pread_failed\<close> or
  \<open>Workload_failed\<close>; a loop that never ends is \<open>Diverges\<close>. An operation that can fail returns
  \<open>Inl fault\<close>; a safety theorem says that under the invariant it returns \<open>Inr\<close>.
\<close>

section \<open>Machine integers\<close>

type_synonym size_t = "64 word"
type_synonym u64 = "64 word"
type_synonym u32 = "32 word"
type_synonym u16 = "16 word"
type_synonym u8 = "8 word"

named_theorems unat_simps \<open>natural-number readings of word operations that do not wrap\<close>
named_theorems res_simps \<open>evaluation of fallible operations\<close>

lemma size_t_bound: "unat (x :: size_t) < 2 ^ 64"
  using unsigned_less [where ?'a = nat, of x] by simp

lemma u32_bound: "unat (x :: u32) < 2 ^ 32"
  using unsigned_less [where ?'a = nat, of x] by simp

lemma unat_ucast_32_64 [simp]: "unat (ucast (x :: u32) :: u64) = unat x"
  using u32_bound [of x] by (simp add: unsigned_ucast_eq take_bit_nat_eq_self)

lemma unat_ucast_64_32: "unat (x :: u64) < 2 ^ 32 \<Longrightarrow> unat (ucast x :: u32) = unat x"
  by (simp add: unsigned_ucast_eq take_bit_nat_eq_self)

lemma unat_plus_64 [unat_simps]:
  "unat (a :: size_t) + unat b < 2 ^ 64 \<Longrightarrow> unat (a + b) = unat a + unat b"
  using unat_add_lem [of a b] by simp

lemma unat_plus_32 [unat_simps]:
  "unat (a :: u32) + unat b < 2 ^ 32 \<Longrightarrow> unat (a + b) = unat a + unat b"
  using unat_add_lem [of a b] by simp

lemma unat_Suc_less:
  fixes i n :: "'a::len word"
  assumes "i < n"
  shows "unat (i + 1) = Suc (unat i)"
proof -
  have "unat i < unat n" using assms by (simp add: word_less_nat_alt)
  moreover have "unat n < 2 ^ LENGTH('a)" by (rule unsigned_less)
  ultimately have "Suc (unat i) < 2 ^ LENGTH('a)" by linarith
  then show ?thesis by (simp add: unat_word_ariths)
qed

lemma unat_mult_64 [unat_simps]:
  "unat (a :: size_t) * unat b < 2 ^ 64 \<Longrightarrow> unat (a * b) = unat a * unat b"
  using unat_mult_lem [of a b] by simp

lemma unat_less_63: "unat (x :: size_t) < 2 ^ 63 \<longleftrightarrow> uint x < 2 ^ 63"
  using nat_less_iff [of "uint x" "2 ^ 63"] by simp

lemma sint_small: "uint (x :: size_t) < 2 ^ 63 \<Longrightarrow> sint x = uint x"
  using signed_take_bit_int_eq_self [of 63 "uint x"] order_trans [OF _ uint_ge_0, of "- (2 ^ 63)" x]
  by (simp add: sint_uint)

lemma sint_big:
  assumes "2 ^ 63 \<le> uint (x :: size_t)"
  shows "sint x = uint x - 2 ^ 64"
proof -
  have "(uint x + 2 ^ 63) mod 2 ^ 64 = (uint x + 2 ^ 63 - 2 ^ 64) mod 2 ^ 64"
    by (rule minus_mod_self2 [symmetric])
  also have "\<dots> = uint x + 2 ^ 63 - 2 ^ 64"
    using assms uint_lt2p [of x] by (intro mod_pos_pos_trivial) simp_all
  finally show ?thesis
    by (simp add: sint_uint signed_take_bit_eq_take_bit_shift take_bit_eq_mod)
qed

section \<open>Faults\<close>

datatype fault = Exit_failure | Out_of_bounds | Div_by_zero | Pread_failed | Workload_failed | Diverges

type_synonym 'a res = "fault + 'a"

fun bindR :: "'a res \<Rightarrow> ('a \<Rightarrow> 'b res) \<Rightarrow> 'b res" where
  "bindR (Inl e) f = Inl e"
| "bindR (Inr x) f = f x"

lemma bindR_Inr_iff: "bindR m f = Inr y \<longleftrightarrow> (\<exists>x. m = Inr x \<and> f x = Inr y)"
  by (cases m) auto

lemma bindR_cong [fundef_cong]:
  "m = m' \<Longrightarrow> (\<And>x. m' = Inr x \<Longrightarrow> f x = f' x) \<Longrightarrow> bindR m f = bindR m' f'"
  by (cases m') auto

lemma bindR_assoc: "bindR (bindR m f) g = bindR m (\<lambda>x. bindR (f x) g)"
  by (cases m) auto

lemma bindR_Inr_right [simp]: "bindR m Inr = m"
  by (cases m) auto

section \<open>Arrays\<close>

definition arr_get :: "'a list \<Rightarrow> size_t \<Rightarrow> 'a res" where
  "arr_get xs i = (if unat i < length xs then Inr (xs ! unat i) else Inl Out_of_bounds)"

definition arr_set :: "'a list \<Rightarrow> size_t \<Rightarrow> 'a \<Rightarrow> 'a list res" where
  "arr_set xs i v = (if unat i < length xs then Inr (xs[unat i := v]) else Inl Out_of_bounds)"

definition mod_c :: "size_t \<Rightarrow> size_t \<Rightarrow> size_t res" where
  "mod_c a b = (if b = 0 then Inl Div_by_zero else Inr (a mod b))"

definition div_c :: "size_t \<Rightarrow> size_t \<Rightarrow> size_t res" where
  "div_c a b = (if b = 0 then Inl Div_by_zero else Inr (a div b))"

lemma arr_get_in [res_simps]: "unat i < length xs \<Longrightarrow> arr_get xs i = Inr (xs ! unat i)"
  by (simp add: arr_get_def)

lemma arr_set_in [res_simps]: "unat i < length xs \<Longrightarrow> arr_set xs i v = Inr (xs[unat i := v])"
  by (simp add: arr_set_def)

lemma mod_c_nonzero [res_simps]: "b \<noteq> 0 \<Longrightarrow> mod_c a b = Inr (a mod b)"
  by (simp add: mod_c_def)

lemma div_c_nonzero [res_simps]: "b \<noteq> 0 \<Longrightarrow> div_c a b = Inr (a div b)"
  by (simp add: div_c_def)

section \<open>Loops\<close>

text \<open>
  \<open>for_c body n i s\<close> is \<open>for (; i < n; i++) body\<close> on a state \<open>s\<close>; \<open>foldR\<close>
  is its list form, by which loops are reasoned about.
\<close>

function for_c :: "(size_t \<Rightarrow> 's \<Rightarrow> 's res) \<Rightarrow> size_t \<Rightarrow> size_t \<Rightarrow> 's \<Rightarrow> 's res" where
  "for_c body n i s = (if i < n then bindR (body i s) (for_c body n (i + 1)) else Inr s)"
  by pat_completeness auto
termination
  by (relation "measure (\<lambda>(body, n, i, s). unat n - unat i)")
    (auto simp: unat_Suc_less word_less_nat_alt)

declare for_c.simps [simp del]

fun foldR :: "('a \<Rightarrow> 's \<Rightarrow> 's res) \<Rightarrow> 'a list \<Rightarrow> 's \<Rightarrow> 's res" where
  "foldR f [] s = Inr s"
| "foldR f (x # xs) s = bindR (f x s) (foldR f xs)"

lemma for_c_foldR:
  "for_c body n i s = foldR body (map of_nat [unat i..<unat n]) s"
proof (induction body n i s rule: for_c.induct)
  case (1 body n i s)
  show ?case
  proof (cases "i < n")
    case True
    then have lt: "unat i < unat n" by (simp add: word_less_nat_alt)
    have "for_c body n i s = bindR (body i s) (for_c body n (i + 1))"
      using True by (simp add: for_c.simps)
    also have "\<dots> = bindR (body i s) (foldR body (map of_nat [Suc (unat i)..<unat n]))"
      using "1"[OF True] True by (intro bindR_cong) (simp_all add: unat_Suc_less [OF True])
    also have "\<dots> = foldR body (map of_nat [unat i..<unat n]) s"
      using lt by (simp add: upt_conv_Cons)
    finally show ?thesis .
  next
    case False
    then show ?thesis by (simp add: for_c.simps word_less_nat_alt)
  qed
qed

lemma foldR_single [simp]: "foldR f [x] = f x"
proof
  fix s
  have "foldR f [] = Inr" by (rule ext) simp
  then show "foldR f [x] s = f x s" by simp
qed

lemma foldR_append: "foldR f (xs @ ys) s = bindR (foldR f xs s) (foldR f ys)"
  by (induction xs arbitrary: s) (auto simp: bindR_assoc intro: bindR_cong)

lemma foldR_prefix_invariant:
  assumes "P [] s"
    and "\<And>ys x zs s. xs = ys @ x # zs \<Longrightarrow> P ys s \<Longrightarrow> \<exists>s'. f x s = Inr s' \<and> P (ys @ [x]) s'"
  shows "\<exists>s'. foldR f xs s = Inr s' \<and> P xs s'"
proof -
  have "\<exists>s'. foldR f ys s = Inr s' \<and> P ys s'" if "xs = ys @ zs" for ys zs
    using that
  proof (induction ys arbitrary: zs rule: rev_induct)
    case Nil
    then show ?case using assms(1) by simp
  next
    case (snoc x ys)
    then obtain s' where "foldR f ys s = Inr s'" "P ys s'" by auto
    with assms(2) [of ys x zs s'] snoc.prems show ?case by (auto simp: foldR_append)
  qed
  from this [of xs "[]"] show ?thesis by simp
qed

lemma foldR_invariant:
  assumes "P [] s"
    and "\<And>ys x s. set (ys @ [x]) \<subseteq> set xs \<Longrightarrow> P ys s \<Longrightarrow> \<exists>s'. f x s = Inr s' \<and> P (ys @ [x]) s'"
  shows "\<exists>s'. foldR f xs s = Inr s' \<and> P xs s'"
  using assms by (intro foldR_prefix_invariant) auto

text \<open>A counted loop keeps an invariant of the counter and ends with it at the bound.\<close>

lemma for_c_invariant:
  assumes init: "P 0 s"
    and step: "\<And>i s. i < n \<Longrightarrow> P (unat i) s \<Longrightarrow> \<exists>s'. body i s = Inr s' \<and> P (Suc (unat i)) s'"
  shows "\<exists>s'. for_c body n 0 s = Inr s' \<and> P (unat n) s'"
proof -
  have "\<exists>s'. foldR body (map of_nat [0..<k]) s = Inr s' \<and> P k s'" if "k \<le> unat n" for k
    using that
  proof (induction k)
    case 0
    then show ?case using init by simp
  next
    case (Suc k)
    then obtain s' where s': "foldR body (map of_nat [0..<k]) s = Inr s'" "P k s'" by auto
    have k: "unat (of_nat k :: size_t) = k"
      using Suc.prems size_t_bound [of n] by (simp add: unat_of_nat)
    with s' Suc.prems step [of "of_nat k" s'] show ?case
      by (simp add: foldR_append word_less_nat_alt)
  qed
  then show ?thesis by (simp add: for_c_foldR)
qed

text \<open>The search loop \<open>for (i = 0; i < n; i++) if (xs[i] == b) ...\<close>: the first index, if any.\<close>

function arr_find :: "size_t list \<Rightarrow> size_t \<Rightarrow> size_t \<Rightarrow> size_t \<Rightarrow> size_t option res" where
  "arr_find xs n b i =
     (if i < n
      then bindR (arr_get xs i) (\<lambda>x. if x = b then Inr (Some i) else arr_find xs n b (i + 1))
      else Inr None)"
  by pat_completeness auto
termination
  by (relation "measure (\<lambda>(xs, n, b, i). unat n - unat i)")
    (auto simp: unat_Suc_less word_less_nat_alt)

declare arr_find.simps [simp del]

lemma arr_find_from:
  assumes "unat n \<le> length xs"
  shows "\<exists>r. arr_find xs n b i = Inr r \<and>
    (case r of
       None \<Rightarrow> \<forall>k. unat i \<le> k \<and> k < unat n \<longrightarrow> xs ! k \<noteq> b
     | Some j \<Rightarrow> j < n \<and> xs ! unat j = b \<and> (\<forall>k. unat i \<le> k \<and> k < unat j \<longrightarrow> xs ! k \<noteq> b))"
  using assms
proof (induction xs n b i rule: arr_find.induct)
  case (1 xs n b i)
  show ?case
  proof (cases "i < n")
    case False
    then show ?thesis by (auto simp: arr_find.simps [of xs n b i] word_less_nat_alt)
  next
    case True
    then have get: "arr_get xs i = Inr (xs ! unat i)"
      using "1.prems" by (intro arr_get_in) (simp add: word_less_nat_alt)
    show ?thesis
    proof (cases "xs ! unat i = b")
      case eq: True
      with True get show ?thesis by (auto simp: arr_find.simps [of xs n b i])
    next
      case neq: False
      from "1.IH" [OF True get neq "1.prems"] obtain r
        where r: "arr_find xs n b (i + 1) = Inr r"
          "case r of
             None \<Rightarrow> \<forall>k. unat (i + 1) \<le> k \<and> k < unat n \<longrightarrow> xs ! k \<noteq> b
           | Some j \<Rightarrow> j < n \<and> xs ! unat j = b \<and>
               (\<forall>k. unat (i + 1) \<le> k \<and> k < unat j \<longrightarrow> xs ! k \<noteq> b)"
        by blast
      have "arr_find xs n b i = Inr r"
        using True get neq r(1) by (simp add: arr_find.simps [of xs n b i])
      moreover have "unat i \<le> k \<longleftrightarrow> k = unat i \<or> unat (i + 1) \<le> k" for k
        by (auto simp: unat_Suc_less [OF True])
      ultimately show ?thesis using r(2) neq by (cases r) auto
    qed
  qed
qed

lemma arr_find_absent [res_simps]:
  assumes "unat n \<le> length xs" and "b \<notin> set (take (unat n) xs)"
  shows "arr_find xs n b 0 = Inr None"
proof -
  obtain r where r: "arr_find xs n b 0 = Inr r"
    "case r of
       None \<Rightarrow> \<forall>k. unat (0 :: size_t) \<le> k \<and> k < unat n \<longrightarrow> xs ! k \<noteq> b
     | Some j \<Rightarrow> j < n \<and> xs ! unat j = b \<and>
         (\<forall>k. unat (0 :: size_t) \<le> k \<and> k < unat j \<longrightarrow> xs ! k \<noteq> b)"
    using arr_find_from [OF assms(1)] by blast
  show ?thesis
  proof (cases r)
    case None
    with r show ?thesis by simp
  next
    case (Some j)
    with r(2) have "unat j < unat n" "xs ! unat j = b" by (auto simp: word_less_nat_alt)
    with assms have "b \<in> set (take (unat n) xs)"
      by (auto simp: in_set_conv_nth intro!: exI [of _ "unat j"])
    with assms(2) show ?thesis by contradiction
  qed
qed

lemma arr_find_present:
  assumes "unat n \<le> length xs" and "b \<in> set (take (unat n) xs)"
  shows "\<exists>j. arr_find xs n b 0 = Inr (Some j) \<and> unat j < unat n \<and> xs ! unat j = b"
proof -
  obtain r where r: "arr_find xs n b 0 = Inr r"
    "case r of
       None \<Rightarrow> \<forall>k. unat (0 :: size_t) \<le> k \<and> k < unat n \<longrightarrow> xs ! k \<noteq> b
     | Some j \<Rightarrow> j < n \<and> xs ! unat j = b \<and>
         (\<forall>k. unat (0 :: size_t) \<le> k \<and> k < unat j \<longrightarrow> xs ! k \<noteq> b)"
    using arr_find_from [OF assms(1)] by blast
  from assms obtain k where "k < unat n" "xs ! k = b"
    by (auto simp: in_set_conv_nth)
  with r show ?thesis by (cases r) (auto simp: word_less_nat_alt)
qed

section \<open>Lists\<close>

lemma take_update_in: "i < n \<Longrightarrow> (take n xs)[i := v] = take n (xs[i := v])"
  by (simp add: take_update_swap)

lemma take_Suc_update: "n < length xs \<Longrightarrow> take (Suc n) (xs[n := v]) = take n xs @ [v]"
  by (simp add: take_Suc_conv_app_nth)

lemma distinct_update_fresh:
  "distinct xs \<Longrightarrow> v \<notin> set xs \<Longrightarrow> distinct (xs[i := v])"
  by (simp add: distinct_list_update)

lemma nth_index_unique:
  "distinct xs \<Longrightarrow> i < length xs \<Longrightarrow> j < length xs \<Longrightarrow> xs ! i = xs ! j \<Longrightarrow> i = j"
  by (simp add: nth_eq_iff_index_eq)

end
