(* ===== verification/BlockCache.thy ===== *)
theory BlockCache
  imports Prelude
begin

text \<open>
  The interface between a block cache and the programs that drive it, and the driver loop of the
  simulator. \<open>access_loop\<close> is the measured loop of \<open>prefetch-sim/src/main.c\<close> (and of
  each benchmark), parameterised by the cache's lookup and insertion, the prefetch policy's
  \<open>on_access\<close> and the operating system's \<open>pread\<close>. The locale \<open>block_cache\<close> states
  what a cache promises; \<open>prefetch_driver\<close> adds a policy that respects the cache. Their
  lemmas are proved once and reach each program through the interpretations in
  \<open>BufferPool\<close>, \<open>LruBufferPool\<close> and the policy theories.
\<close>

section \<open>The driver loop\<close>

text \<open>
  One iteration: look the block up; on a miss read it (\<open>pread\<close> is a function of the world
  and the offset; a negative result ends the run) and insert it; then tell the policy.
\<close>

definition access_step ::
  "('p \<Rightarrow> size_t \<Rightarrow> (bool \<times> 'p) res) \<Rightarrow> ('p \<Rightarrow> size_t \<Rightarrow> 'p res) \<Rightarrow>
   ('r \<Rightarrow> 'p \<Rightarrow> size_t \<Rightarrow> ('r \<times> 'p) res) \<Rightarrow> ('w \<Rightarrow> size_t \<Rightarrow> int \<times> 'w) \<Rightarrow>
   size_t \<Rightarrow> size_t \<Rightarrow> 'p \<times> 'r \<times> 'w \<Rightarrow> ('p \<times> 'r \<times> 'w) res" where
  "access_step lookup ins on_access pread block_size block_num = (\<lambda>(pool, ra, w).
     bindR (lookup pool block_num) (\<lambda>(hit, pool1).
     bindR
       (if hit then Inr (pool1, w)
        else (case pread w (block_num * block_size) of (n, w1) \<Rightarrow>
               if n < 0 then Inl Pread_failed
               else bindR (ins pool1 block_num) (\<lambda>pool2. Inr (pool2, w1))))
       (\<lambda>(pool2, w2).
     bindR (on_access ra pool2 block_num) (\<lambda>(ra', pool3). Inr (pool3, ra', w2)))))"

definition access_loop ::
  "('p \<Rightarrow> size_t \<Rightarrow> (bool \<times> 'p) res) \<Rightarrow> ('p \<Rightarrow> size_t \<Rightarrow> 'p res) \<Rightarrow>
   ('r \<Rightarrow> 'p \<Rightarrow> size_t \<Rightarrow> ('r \<times> 'p) res) \<Rightarrow> ('w \<Rightarrow> size_t \<Rightarrow> int \<times> 'w) \<Rightarrow>
   size_t \<Rightarrow> size_t list \<Rightarrow> size_t \<Rightarrow> 'p \<times> 'r \<times> 'w \<Rightarrow> ('p \<times> 'r \<times> 'w) res" where
  "access_loop lookup ins on_access pread block_size blocks num_accesses =
     for_c (\<lambda>i st. bindR (arr_get blocks i)
              (\<lambda>block_num. access_step lookup ins on_access pread block_size block_num st))
       num_accesses 0"

text \<open>A disk on which every read succeeds.\<close>

definition reads_succeed :: "('w \<Rightarrow> size_t \<Rightarrow> int \<times> 'w) \<Rightarrow> bool" where
  "reads_succeed pread \<longleftrightarrow> (\<forall>w off. 0 \<le> fst (pread w off))"

lemma reads_succeedD: "reads_succeed pread \<Longrightarrow> pread w off = (n, w') \<Longrightarrow> 0 \<le> n"
  by (metis fst_conv reads_succeed_def)

text \<open>The loop over an array that holds the trace is the fold of the step over the trace.\<close>

lemma access_loop_foldR:
  assumes "unat n \<le> length blocks"
  shows "access_loop lookup ins on_access pread bs blocks n st =
    foldR (access_step lookup ins on_access pread bs) (take (unat n) blocks) st"
proof -
  let ?step = "access_step lookup ins on_access pread bs"
  let ?body = "\<lambda>i st. bindR (arr_get blocks i) (\<lambda>b. ?step b st)"
  have "foldR ?body (map of_nat [0..<k]) st = foldR ?step (take k blocks) st"
    if "k \<le> unat n" for k
    using that
  proof (induction k arbitrary: )
    case 0
    then show ?case by simp
  next
    case (Suc k)
    have "k < 2 ^ 64" using Suc.prems size_t_bound [of n] by simp
    then have "unat (of_nat k :: size_t) = k" by (simp add: unat_of_nat)
    moreover have "k < length blocks" using Suc.prems assms by simp
    ultimately show ?case
      using Suc by (simp add: foldR_append take_Suc_conv_app_nth arr_get_def)
  qed
  then show ?thesis by (simp add: access_loop_def for_c_foldR)
qed

section \<open>What a cache promises\<close>

locale block_cache =
  fixes lookup :: "'p \<Rightarrow> size_t \<Rightarrow> (bool \<times> 'p) res"
    and ins :: "'p \<Rightarrow> size_t \<Rightarrow> 'p res"
    and view :: "'p \<Rightarrow> size_t list"
    and cap :: "'p \<Rightarrow> nat"
    and hit_count :: "'p \<Rightarrow> size_t"
    and miss_count :: "'p \<Rightarrow> size_t"
    and invar :: "'p \<Rightarrow> bool"
  assumes view_distinct: "invar p \<Longrightarrow> distinct (view p)"
    and view_bound: "invar p \<Longrightarrow> length (view p) \<le> cap p"
    and ins_law: "invar p \<Longrightarrow>
      \<exists>p'. ins p b = Inr p' \<and> invar p' \<and> cap p' = cap p \<and> b \<in> set (view p') \<and>
           set (view p') \<subseteq> insert b (set (view p)) \<and>
           hit_count p' = hit_count p \<and> miss_count p' = miss_count p"
    and lookup_law: "invar p \<Longrightarrow>
      \<exists>p'. lookup p b = Inr (b \<in> set (view p), p') \<and> invar p' \<and> cap p' = cap p \<and>
           set (view p') = set (view p) \<and>
           hit_count p' = (if b \<in> set (view p) then hit_count p + 1 else hit_count p) \<and>
           miss_count p' = (if b \<in> set (view p) then miss_count p else miss_count p + 1)"
begin

lemma card_view: "invar p \<Longrightarrow> card (set (view p)) \<le> cap p"
  using view_distinct [of p] view_bound [of p] by (simp add: distinct_card)

text \<open>A prefetch loop: it never faults, leaves the statistics alone and only adds the range.\<close>

lemma prefetch_loop:
  assumes "invar p"
  shows "\<exists>p'. for_c (\<lambda>i q. ins q (start + i)) n 0 p = Inr p' \<and> invar p' \<and> cap p' = cap p \<and>
    hit_count p' = hit_count p \<and> miss_count p' = miss_count p \<and>
    set (view p') \<subseteq> set (view p) \<union> (\<lambda>i. start + i) ` set (map of_nat [0..<unat n]) \<and>
    (n \<noteq> 0 \<longrightarrow> start + (n - 1) \<in> set (view p'))"
proof -
  let ?P = "\<lambda>ys p'. invar p' \<and> cap p' = cap p \<and>
    hit_count p' = hit_count p \<and> miss_count p' = miss_count p \<and>
    set (view p') \<subseteq> set (view p) \<union> (\<lambda>i. start + i) ` set ys \<and>
    (ys \<noteq> [] \<longrightarrow> start + last ys \<in> set (view p'))"
  let ?xs = "map of_nat [0..<unat n] :: size_t list"
  have "\<exists>p'. foldR (\<lambda>i q. ins q (start + i)) ?xs p = Inr p' \<and> ?P ?xs p'"
  proof (rule foldR_invariant)
    show "?P [] p" using assms by simp
  next
    fix ys x q
    assume P: "?P ys q"
    then obtain q' where "ins q (start + x) = Inr q'" "invar q'" "cap q' = cap q"
      "start + x \<in> set (view q')" "set (view q') \<subseteq> insert (start + x) (set (view q))"
      "hit_count q' = hit_count q" "miss_count q' = miss_count q"
      using ins_law [of q "start + x"] by blast
    with P show "\<exists>q'. ins q (start + x) = Inr q' \<and> ?P (ys @ [x]) q'"
      by fastforce
  qed
  moreover have "last ?xs = n - 1" if "n \<noteq> 0"
    using that by (simp add: last_map unat_gt_0 [symmetric] flip: unat_minus_one)
  moreover have "?xs \<noteq> []" if "n \<noteq> 0"
    using that by (simp add: unat_gt_0)
  ultimately show ?thesis
    by (auto simp: for_c_foldR)
qed

end

section \<open>A cache with a policy\<close>

locale prefetch_driver = block_cache lookup ins view cap hit_count miss_count invar
  for lookup :: "'p \<Rightarrow> size_t \<Rightarrow> (bool \<times> 'p) res" and ins :: "'p \<Rightarrow> size_t \<Rightarrow> 'p res"
    and view :: "'p \<Rightarrow> size_t list" and cap :: "'p \<Rightarrow> nat"
    and hit_count :: "'p \<Rightarrow> size_t" and miss_count :: "'p \<Rightarrow> size_t" and invar :: "'p \<Rightarrow> bool" +
  fixes on_access :: "'r \<Rightarrow> 'p \<Rightarrow> size_t \<Rightarrow> ('r \<times> 'p) res"
  assumes on_access_law: "invar p \<Longrightarrow>
      \<exists>r' p'. on_access r p b = Inr (r', p') \<and> invar p' \<and> cap p' = cap p \<and>
              hit_count p' = hit_count p \<and> miss_count p' = miss_count p"
begin

lemma access_step_safe:
  assumes "invar p" and "reads_succeed pread"
  shows "\<exists>p' r' w'. access_step lookup ins on_access pread bs b (p, r, w) = Inr (p', r', w') \<and>
    invar p' \<and> cap p' = cap p \<and>
    hit_count p' = (if b \<in> set (view p) then hit_count p + 1 else hit_count p) \<and>
    miss_count p' = (if b \<in> set (view p) then miss_count p else miss_count p + 1)"
proof -
  obtain p1 where p1: "lookup p b = Inr (b \<in> set (view p), p1)" "invar p1" "cap p1 = cap p"
    "hit_count p1 = (if b \<in> set (view p) then hit_count p + 1 else hit_count p)"
    "miss_count p1 = (if b \<in> set (view p) then miss_count p else miss_count p + 1)"
    using lookup_law [OF assms(1), of b] by blast
  obtain n w1 where rd: "pread w (b * bs) = (n, w1)" by fastforce
  then have "\<not> n < 0" using reads_succeedD [OF assms(2) rd] by simp
  with ins_law [OF p1(2), of b] rd obtain p2 w2 where p2:
    "(if b \<in> set (view p) then Inr (p1, w)
      else (case pread w (b * bs) of (n, w1) \<Rightarrow>
             if n < 0 then Inl Pread_failed else bindR (ins p1 b) (\<lambda>pool2. Inr (pool2, w1))))
     = Inr (p2, w2)" "invar p2" "cap p2 = cap p1" "hit_count p2 = hit_count p1"
    "miss_count p2 = miss_count p1"
    using p1(2) by (cases "b \<in> set (view p)") auto
  obtain r' p3 where "on_access r p2 b = Inr (r', p3)" "invar p3" "cap p3 = cap p2"
    "hit_count p3 = hit_count p2" "miss_count p3 = miss_count p2"
    using on_access_law [OF p2(2), of r b] by blast
  with p1 p2 show ?thesis by (simp add: access_step_def)
qed

text \<open>
  A run over a trace never faults and counts every access exactly once, as a hit or as a miss.
\<close>

lemma access_trace_counts:
  fixes pread :: "'w \<Rightarrow> size_t \<Rightarrow> int \<times> 'w"
  assumes "invar p" and "reads_succeed pread"
  shows "\<exists>p' r' w'. foldR (access_step lookup ins on_access pread bs) bl (p, r, w) =
      Inr (p', r', w') \<and> invar p' \<and> cap p' = cap p \<and>
    hit_count p' + miss_count p' = hit_count p + miss_count p + of_nat (length bl)"
proof -
  let ?P = "\<lambda>ys (p', r' :: 'r, w' :: 'w). invar p' \<and> cap p' = cap p \<and>
    hit_count p' + miss_count p' = hit_count p + miss_count p + of_nat (length ys)"
  have "\<exists>st. foldR (access_step lookup ins on_access pread bs) bl (p, r, w) = Inr st \<and> ?P bl st"
  proof (rule foldR_invariant)
    show "?P [] (p, r, w)" using assms by simp
  next
    fix ys :: "size_t list" and b and st :: "'p \<times> 'r \<times> 'w"
    assume "?P ys st"
    moreover obtain q r1 w1 where "st = (q, r1, w1)" by (cases st)
    ultimately show "\<exists>st'. access_step lookup ins on_access pread bs b st = Inr st' \<and>
        ?P (ys @ [b]) st'"
      using access_step_safe [OF _ assms(2), of q bs b r1 w1] by (auto simp: algebra_simps)
  qed
  then show ?thesis by auto
qed

lemma access_loop_counts:
  assumes "invar p" and "reads_succeed pread" and "unat n \<le> length blocks"
    and "hit_count p = 0" and "miss_count p = 0"
  shows "\<exists>p' r' w'. access_loop lookup ins on_access pread bs blocks n (p, r, w) =
      Inr (p', r', w') \<and> hit_count p' + miss_count p' = n"
  using access_trace_counts [OF assms(1,2), of bs "take (unat n) blocks" r w] assms(3-5)
  by (auto simp: access_loop_foldR min_absorb2)

end

end
