(* ===== verification/BufferPool.thy ===== *)
theory BufferPool
  imports BlockCache
begin

text \<open>
  The FIFO block cache of \<open>prefetch-sim/src/buffer_pool.c\<close>: a fixed array of block numbers
  with a rotating eviction position and hit/miss counters. The record has the fields of the C
  struct; the array behind \<open>slots\<close> is a list (empty for the pointer \<open>NULL\<close>). The
  operations are specified against an abstract FIFO queue (\<open>fifo_insert\<close>): the refinement
  \<open>buffer_pool_insert_refines\<close> is what every client of the cache rests on.
\<close>

section \<open>State and operations\<close>

record BufferPool =
  bp_capacity :: size_t
  bp_block_size :: size_t
  bp_slots :: "size_t list"
  bp_count :: size_t
  bp_evict_pos :: size_t
  bp_hits :: size_t
  bp_misses :: size_t

text \<open>
  \<open>malloc\<close> is a parameter: given a number of bytes it fails or returns an array of that many
  bytes, as 8-byte elements with arbitrary contents.
\<close>

definition malloc_spec :: "(size_t \<Rightarrow> size_t list option) \<Rightarrow> bool" where
  "malloc_spec malloc \<longleftrightarrow> (\<forall>n xs. malloc n = Some xs \<longrightarrow> length xs = unat n div 8)"

definition buffer_pool_init ::
  "(size_t \<Rightarrow> size_t list option) \<Rightarrow> size_t \<Rightarrow> size_t \<Rightarrow> BufferPool res" where
  "buffer_pool_init malloc capacity block_size =
     (case malloc (capacity * 8) of
        None \<Rightarrow> Inl Exit_failure
      | Some arr \<Rightarrow>
          Inr \<lparr>bp_capacity = capacity, bp_block_size = block_size, bp_slots = arr,
               bp_count = 0, bp_evict_pos = 0, bp_hits = 0, bp_misses = 0\<rparr>)"

definition buffer_pool_destroy :: "BufferPool \<Rightarrow> BufferPool" where
  "buffer_pool_destroy p = p\<lparr>bp_slots := []\<rparr>"

definition buffer_pool_lookup :: "BufferPool \<Rightarrow> size_t \<Rightarrow> (bool \<times> BufferPool) res" where
  "buffer_pool_lookup p block_num =
     bindR (arr_find (bp_slots p) (bp_count p) block_num 0)
       (\<lambda>r. case r of
          Some i \<Rightarrow> Inr (True, p\<lparr>bp_hits := bp_hits p + 1\<rparr>)
        | None \<Rightarrow> Inr (False, p\<lparr>bp_misses := bp_misses p + 1\<rparr>))"

definition buffer_pool_insert :: "BufferPool \<Rightarrow> size_t \<Rightarrow> BufferPool res" where
  "buffer_pool_insert p block_num =
     bindR (arr_find (bp_slots p) (bp_count p) block_num 0)
       (\<lambda>r. case r of
          Some i \<Rightarrow> Inr p
        | None \<Rightarrow>
            if bp_count p < bp_capacity p
            then bindR (arr_set (bp_slots p) (bp_count p) block_num)
                   (\<lambda>s. Inr (p\<lparr>bp_slots := s, bp_count := bp_count p + 1\<rparr>))
            else bindR (arr_set (bp_slots p) (bp_evict_pos p) block_num)
                   (\<lambda>s. bindR (mod_c (bp_evict_pos p + 1) (bp_capacity p))
                     (\<lambda>e. Inr (p\<lparr>bp_slots := s, bp_evict_pos := e\<rparr>))))"

definition buffer_pool_prefetch_range ::
  "BufferPool \<Rightarrow> size_t \<Rightarrow> size_t \<Rightarrow> BufferPool res" where
  "buffer_pool_prefetch_range p start_block cnt =
     for_c (\<lambda>i q. buffer_pool_insert q (start_block + i)) cnt 0 p"

definition buffer_pool_hits :: "BufferPool \<Rightarrow> size_t" where
  "buffer_pool_hits p = bp_hits p"

definition buffer_pool_misses :: "BufferPool \<Rightarrow> size_t" where
  "buffer_pool_misses p = bp_misses p"

section \<open>Invariant and abstract queue\<close>

definition bp_contents :: "BufferPool \<Rightarrow> size_t list" where
  "bp_contents p = take (unat (bp_count p)) (bp_slots p)"

definition bp_wf :: "BufferPool \<Rightarrow> bool" where
  "bp_wf p \<longleftrightarrow>
     bp_capacity p \<noteq> 0 \<and> length (bp_slots p) = unat (bp_capacity p) \<and>
     bp_count p \<le> bp_capacity p \<and> bp_evict_pos p < bp_capacity p \<and>
     (bp_count p < bp_capacity p \<longrightarrow> bp_evict_pos p = 0) \<and>
     distinct (bp_contents p)"

text \<open>The cached blocks, oldest insertion first.\<close>

definition bp_queue :: "BufferPool \<Rightarrow> size_t list" where
  "bp_queue p = rotate (unat (bp_evict_pos p)) (bp_contents p)"

definition fifo_insert :: "nat \<Rightarrow> 'a \<Rightarrow> 'a list \<Rightarrow> 'a list" where
  "fifo_insert cap b q =
     (if b \<in> set q then q else if length q < cap then q @ [b] else tl q @ [b])"

lemma length_bp_contents:
  "bp_wf p \<Longrightarrow> length (bp_contents p) = unat (bp_count p)"
  by (simp add: bp_wf_def bp_contents_def word_le_nat_alt)

lemma set_bp_queue [simp]: "set (bp_queue p) = set (bp_contents p)"
  by (simp add: bp_queue_def)

lemma bp_queue_length: "bp_wf p \<Longrightarrow> length (bp_queue p) = unat (bp_count p)"
  by (simp add: bp_queue_def length_bp_contents)

lemma bp_queue_distinct: "bp_wf p \<Longrightarrow> distinct (bp_queue p)"
  by (simp add: bp_queue_def bp_wf_def)

lemma bp_count_le: "bp_wf p \<Longrightarrow> unat (bp_count p) \<le> unat (bp_capacity p)"
  by (simp add: bp_wf_def word_le_nat_alt)

lemma bp_cap_pos: "bp_wf p \<Longrightarrow> 0 < unat (bp_capacity p)"
  by (simp add: bp_wf_def unat_gt_0)

lemma bp_find_absent:
  "bp_wf p \<Longrightarrow> b \<notin> set (bp_queue p) \<Longrightarrow> arr_find (bp_slots p) (bp_count p) b 0 = Inr None"
  by (rule arr_find_absent) (auto simp: bp_wf_def bp_contents_def word_le_nat_alt)

lemma bp_find_present:
  "bp_wf p \<Longrightarrow> b \<in> set (bp_queue p) \<Longrightarrow>
   \<exists>i. arr_find (bp_slots p) (bp_count p) b 0 = Inr (Some i)"
  using arr_find_present [of "bp_count p" "bp_slots p" b]
  by (auto simp: bp_wf_def bp_contents_def word_le_nat_alt)

lemma rotate_overwrite:
  assumes "e < length xs"
  shows "rotate (Suc e mod length xs) (xs[e := b]) = tl (rotate e xs) @ [b]"
proof (cases "Suc e = length xs")
  case True
  then have "drop e xs = [xs ! e]"
    using assms by (simp add: Cons_nth_drop_Suc [symmetric])
  then have "tl (rotate e xs) = take e xs"
    using assms by (simp add: rotate_drop_take)
  moreover have "xs[e := b] = take e xs @ [b]"
    using True assms by (simp add: upd_conv_take_nth_drop)
  ultimately show ?thesis using True by simp
next
  case False
  then have lt: "Suc e < length xs" using assms by simp
  then have "rotate (Suc e mod length xs) (xs[e := b]) = drop (Suc e) xs @ take e xs @ [b]"
    by (simp add: rotate_drop_take take_Suc_update)
  moreover have "tl (rotate e xs) = drop (Suc e) xs @ take e xs"
    using assms by (simp add: rotate_drop_take Cons_nth_drop_Suc [symmetric])
  ultimately show ?thesis by simp
qed

section \<open>Insertion refines the abstract queue\<close>

lemma bp_insert_present:
  "bp_wf p \<Longrightarrow> b \<in> set (bp_queue p) \<Longrightarrow> buffer_pool_insert p b = Inr p"
  using bp_find_present [of p b] by (auto simp: buffer_pool_insert_def)

lemma bp_insert_room:
  assumes wf: "bp_wf p" and new: "b \<notin> set (bp_queue p)" and room: "bp_count p < bp_capacity p"
  defines "p' \<equiv> p\<lparr>bp_slots := (bp_slots p)[unat (bp_count p) := b], bp_count := bp_count p + 1\<rparr>"
  shows "buffer_pool_insert p b = Inr p'" and "bp_wf p'" and "bp_queue p' = bp_queue p @ [b]"
proof -
  have len: "unat (bp_count p) < length (bp_slots p)"
    using wf room by (simp add: bp_wf_def word_less_nat_alt)
  show "buffer_pool_insert p b = Inr p'"
    using bp_find_absent [OF wf new] room len
    by (simp add: buffer_pool_insert_def p'_def res_simps)
  have contents: "bp_contents p' = bp_contents p @ [b]"
    using len by (simp add: bp_contents_def p'_def unat_Suc_less [OF room] take_Suc_update)
  have "bp_evict_pos p = 0" using wf room by (simp add: bp_wf_def)
  then show "bp_queue p' = bp_queue p @ [b]"
    by (simp add: bp_queue_def contents) (simp add: p'_def)
  show "bp_wf p'"
    using wf new room contents len
    by (auto simp: bp_wf_def p'_def word_le_nat_alt word_less_nat_alt unat_Suc_less [OF room])
qed

lemma bp_insert_full:
  assumes wf: "bp_wf p" and new: "b \<notin> set (bp_queue p)" and full: "\<not> bp_count p < bp_capacity p"
  defines "p' \<equiv> p\<lparr>bp_slots := (bp_slots p)[unat (bp_evict_pos p) := b],
                   bp_evict_pos := (bp_evict_pos p + 1) mod bp_capacity p\<rparr>"
  shows "buffer_pool_insert p b = Inr p'" and "bp_wf p'" and "bp_queue p' = tl (bp_queue p) @ [b]"
proof -
  let ?e = "unat (bp_evict_pos p)" and ?n = "unat (bp_capacity p)"
  from wf full have cnt: "bp_count p = bp_capacity p"
    by (simp add: bp_wf_def)
  from wf have e: "?e < ?n" and lenS: "length (bp_slots p) = ?n" and nz: "bp_capacity p \<noteq> 0"
    by (auto simp: bp_wf_def word_less_nat_alt)
  have e': "unat (bp_evict_pos p + 1) = Suc ?e"
    using wf by (intro unat_Suc_less) (auto simp: bp_wf_def)
  show ins: "buffer_pool_insert p b = Inr p'"
    using bp_find_absent [OF wf new] full e lenS nz
    by (simp add: buffer_pool_insert_def p'_def res_simps)
  have contents: "bp_contents p = bp_slots p" "bp_contents p' = (bp_slots p)[?e := b]"
    using lenS by (simp_all add: bp_contents_def p'_def cnt)
  have "unat (bp_evict_pos p') = Suc ?e mod ?n"
    using e' by (simp add: p'_def unat_mod)
  then show "bp_queue p' = tl (bp_queue p) @ [b]"
    using rotate_overwrite [of ?e "bp_slots p" b] e lenS
    by (simp add: bp_queue_def contents)
  have "distinct (bp_contents p')"
    using wf new by (simp add: contents distinct_list_update bp_wf_def)
  moreover have "(bp_evict_pos p + 1) mod bp_capacity p < bp_capacity p"
    using nz e' by (simp add: word_less_nat_alt unat_mod unat_gt_0)
  ultimately show "bp_wf p'"
    using lenS nz cnt by (simp add: bp_wf_def p'_def)
qed

text \<open>One statement for the three branches, with the fields that no branch writes.\<close>

lemma bp_insert_step:
  assumes "bp_wf p"
  shows "\<exists>p'. buffer_pool_insert p b = Inr p' \<and> bp_wf p' \<and>
    bp_queue p' = fifo_insert (unat (bp_capacity p)) b (bp_queue p) \<and>
    bp_capacity p' = bp_capacity p \<and> bp_hits p' = bp_hits p \<and> bp_misses p' = bp_misses p"
proof (cases "b \<in> set (bp_queue p)")
  case True
  then show ?thesis
    using assms bp_insert_present [OF assms True] by (simp add: fifo_insert_def)
next
  case new: False
  show ?thesis
  proof (cases "bp_count p < bp_capacity p")
    case True
    then have "length (bp_queue p) < unat (bp_capacity p)"
      using assms by (simp add: bp_queue_length word_less_nat_alt)
    with bp_insert_room [OF assms new True] new show ?thesis
      by (simp add: fifo_insert_def)
  next
    case False
    then have "\<not> length (bp_queue p) < unat (bp_capacity p)"
      using assms by (simp add: bp_queue_length word_less_nat_alt)
    with bp_insert_full [OF assms new False] new show ?thesis
      by (simp add: fifo_insert_def)
  qed
qed

lemma bp_lookup_step:
  assumes "bp_wf p"
  shows "buffer_pool_lookup p b =
    (if b \<in> set (bp_queue p) then Inr (True, p\<lparr>bp_hits := bp_hits p + 1\<rparr>)
     else Inr (False, p\<lparr>bp_misses := bp_misses p + 1\<rparr>))"
  using bp_find_present [OF assms, of b] bp_find_absent [OF assms, of b]
  by (auto simp: buffer_pool_lookup_def)

lemma bp_wf_stats [simp]:
  "bp_wf (p\<lparr>bp_hits := h\<rparr>) = bp_wf p" "bp_wf (p\<lparr>bp_misses := m\<rparr>) = bp_wf p"
  by (simp_all add: bp_wf_def bp_contents_def)

lemma bp_contents_stats [simp]:
  "bp_contents (p\<lparr>bp_hits := h\<rparr>) = bp_contents p"
  "bp_contents (p\<lparr>bp_misses := m\<rparr>) = bp_contents p"
  by (simp_all add: bp_contents_def)

lemma bp_queue_stats [simp]:
  "bp_queue (p\<lparr>bp_hits := h\<rparr>) = bp_queue p" "bp_queue (p\<lparr>bp_misses := m\<rparr>) = bp_queue p"
  by (simp_all add: bp_queue_def bp_contents_def)

section \<open>The cache interface\<close>

lemma fifo_insert_member [simp]: "b \<in> set (fifo_insert cap b q)"
  by (simp add: fifo_insert_def)

lemma fifo_insert_subset: "set (fifo_insert cap b q) \<subseteq> insert b (set q)"
  by (cases q) (auto simp: fifo_insert_def)

lemma fifo_insert_length: "0 < cap \<Longrightarrow> length q \<le> cap \<Longrightarrow> length (fifo_insert cap b q) \<le> cap"
  by (auto simp: fifo_insert_def)

interpretation fifo: block_cache buffer_pool_lookup buffer_pool_insert bp_queue
  "\<lambda>p. unat (bp_capacity p)" bp_hits bp_misses bp_wf
proof
  fix p b
  assume wf: "bp_wf p"
  show "distinct (bp_queue p)" by (rule bp_queue_distinct [OF wf])
  show "length (bp_queue p) \<le> unat (bp_capacity p)"
    using wf by (simp add: bp_queue_length bp_count_le)
  show "\<exists>p'. buffer_pool_insert p b = Inr p' \<and> bp_wf p' \<and>
      unat (bp_capacity p') = unat (bp_capacity p) \<and> b \<in> set (bp_queue p') \<and>
      set (bp_queue p') \<subseteq> insert b (set (bp_queue p)) \<and>
      bp_hits p' = bp_hits p \<and> bp_misses p' = bp_misses p"
    using bp_insert_step [OF wf, of b] fifo_insert_subset fifo_insert_member by metis
  show "\<exists>p'. buffer_pool_lookup p b = Inr (b \<in> set (bp_queue p), p') \<and> bp_wf p' \<and>
      unat (bp_capacity p') = unat (bp_capacity p) \<and> set (bp_queue p') = set (bp_queue p) \<and>
      bp_hits p' = (if b \<in> set (bp_queue p) then bp_hits p + 1 else bp_hits p) \<and>
      bp_misses p' = (if b \<in> set (bp_queue p) then bp_misses p else bp_misses p + 1)"
    using bp_lookup_step [OF wf, of b] wf by simp
qed

section \<open>Prefetching a range\<close>

definition blocks_from :: "size_t \<Rightarrow> nat \<Rightarrow> size_t list" where
  "blocks_from start n = map (\<lambda>i. start + of_nat i) [0..<n]"

lemma length_blocks_from [simp]: "length (blocks_from s n) = n"
  by (simp add: blocks_from_def)

lemma blocks_from_Suc: "blocks_from s (Suc n) = blocks_from s n @ [s + of_nat n]"
  by (simp add: blocks_from_def)

lemma unat_blocks_from:
  fixes s :: size_t
  assumes "unat s + n \<le> 2 ^ 64" and "i < n"
  shows "unat (s + of_nat i) = unat s + i"
proof -
  have "unat (of_nat i :: size_t) = i"
    using assms by (simp add: unat_of_nat)
  then show ?thesis
    using assms unat_plus_64 [of s "of_nat i"] by simp
qed

lemma set_blocks_from:
  assumes "unat s + n \<le> 2 ^ 64"
  shows "set (blocks_from s n) = {b. unat s \<le> unat b \<and> unat b < unat s + n}"
proof
  show "set (blocks_from s n) \<subseteq> {b. unat s \<le> unat b \<and> unat b < unat s + n}"
    using unat_blocks_from [OF assms] by (auto simp: blocks_from_def)
  show "{b. unat s \<le> unat b \<and> unat b < unat s + n} \<subseteq> set (blocks_from s n)"
  proof
    fix b :: size_t
    assume b: "b \<in> {b. unat s \<le> unat b \<and> unat b < unat s + n}"
    let ?i = "unat b - unat s"
    from b have "?i < n" by auto
    moreover have "unat (s + of_nat ?i) = unat b"
      using b unat_blocks_from [OF assms, of ?i] by auto
    then have "s + of_nat ?i = b" by (simp add: word_unat_eq_iff)
    ultimately show "b \<in> set (blocks_from s n)"
      unfolding blocks_from_def by (auto intro!: image_eqI [of b _ ?i])
  qed
qed

lemma distinct_blocks_from:
  assumes "unat s + n \<le> 2 ^ 64"
  shows "distinct (blocks_from s n)"
proof -
  have "inj_on (\<lambda>i. s + of_nat i) {0..<n}"
  proof (rule inj_onI)
    fix i j
    assume "i \<in> {0..<n}" "j \<in> {0..<n}" "s + of_nat i = s + of_nat j"
    then have "unat s + i = unat s + j"
      using unat_blocks_from [OF assms] by (metis atLeastLessThan_iff)
    then show "i = j" by simp
  qed
  then show ?thesis by (simp add: blocks_from_def distinct_map)
qed

text \<open>The prefetch loop is the fold of the abstract insertion over the blocks of the range.\<close>

lemma bp_insert_fold:
  assumes "bp_wf p"
  shows "\<exists>p'. foldR (\<lambda>b q. buffer_pool_insert q b) bl p = Inr p' \<and> bp_wf p' \<and>
    bp_queue p' = fold (fifo_insert (unat (bp_capacity p))) bl (bp_queue p) \<and>
    bp_capacity p' = bp_capacity p \<and> bp_hits p' = bp_hits p \<and> bp_misses p' = bp_misses p"
proof (rule foldR_invariant [where P = "\<lambda>ys q. bp_wf q \<and>
    bp_queue q = fold (fifo_insert (unat (bp_capacity p))) ys (bp_queue p) \<and>
    bp_capacity q = bp_capacity p \<and> bp_hits q = bp_hits p \<and> bp_misses q = bp_misses p"])
  fix ys x q
  assume q: "bp_wf q \<and> bp_queue q = fold (fifo_insert (unat (bp_capacity p))) ys (bp_queue p) \<and>
    bp_capacity q = bp_capacity p \<and> bp_hits q = bp_hits p \<and> bp_misses q = bp_misses p"
  with bp_insert_step [of q x]
  show "\<exists>q'. buffer_pool_insert q x = Inr q' \<and> bp_wf q' \<and>
      bp_queue q' = fold (fifo_insert (unat (bp_capacity p))) (ys @ [x]) (bp_queue p) \<and>
      bp_capacity q' = bp_capacity p \<and> bp_hits q' = bp_hits p \<and> bp_misses q' = bp_misses p"
    by auto
qed (use assms in auto)

lemma foldR_map: "foldR f (map g xs) s = foldR (\<lambda>x. f (g x)) xs s"
  by (induction xs arbitrary: s) (auto intro: bindR_cong)

lemma bp_prefetch_foldR:
  "buffer_pool_prefetch_range p s n =
     foldR (\<lambda>b q. buffer_pool_insert q b) (blocks_from s (unat n)) p"
  by (simp add: buffer_pool_prefetch_range_def for_c_foldR blocks_from_def foldR_map)

text \<open>Inserting blocks that are all new and fit: the queue ends with them, in order.\<close>

lemma fifo_insert_fresh:
  assumes "distinct bl" and "set bl \<inter> set q = {}" and "length bl \<le> cap" and "length q \<le> cap"
  shows "fold (fifo_insert cap) bl q = drop (length q + length bl - cap) q @ bl"
  using assms
proof (induction bl rule: rev_induct)
  case Nil
  then show ?case by simp
next
  case (snoc b bl)
  let ?d = "length q + length bl - cap"
  have IH: "fold (fifo_insert cap) bl q = drop ?d q @ bl"
    using snoc by auto
  have new: "b \<notin> set (drop ?d q @ bl)"
    using snoc.prems(1,2) by (auto dest: in_set_dropD)
  have len: "length (drop ?d q @ bl) = min (length q + length bl) cap"
    using snoc.prems(3,4) by auto
  show ?case
  proof (cases "length q + length bl < cap")
    case True
    then show ?thesis using IH new len by (simp add: fifo_insert_def [of cap b])
  next
    case False
    then have "drop ?d q \<noteq> []" using snoc.prems(3,4) by auto
    then have "tl (drop ?d q @ bl) = drop (Suc ?d) q @ bl"
      by (simp add: tl_drop [symmetric] drop_Suc)
    moreover have "Suc ?d = length q + length (bl @ [b]) - cap" using False by simp
    ultimately show ?thesis using IH new len False by (simp add: fifo_insert_def [of cap b])
  qed
qed

lemma bp_prefetch_fresh:
  assumes wf: "bp_wf p" and fit: "unat n \<le> unat (bp_capacity p)"
    and rng: "unat s + unat n \<le> 2 ^ 64"
    and fresh: "\<forall>b \<in> set (bp_queue p). unat b < unat s"
  shows "\<exists>p'. buffer_pool_prefetch_range p s n = Inr p' \<and> bp_wf p' \<and>
    bp_queue p' = drop (length (bp_queue p) + unat n - unat (bp_capacity p)) (bp_queue p)
                  @ blocks_from s (unat n) \<and>
    bp_capacity p' = bp_capacity p \<and> bp_hits p' = bp_hits p \<and> bp_misses p' = bp_misses p"
proof -
  have "fold (fifo_insert (unat (bp_capacity p))) (blocks_from s (unat n)) (bp_queue p) =
      drop (length (bp_queue p) + length (blocks_from s (unat n)) - unat (bp_capacity p))
        (bp_queue p) @ blocks_from s (unat n)"
  proof (rule fifo_insert_fresh)
    show "distinct (blocks_from s (unat n))" by (rule distinct_blocks_from [OF rng])
    show "set (blocks_from s (unat n)) \<inter> set (bp_queue p) = {}"
      using fresh by (fastforce simp: set_blocks_from [OF rng])
    show "length (bp_queue p) \<le> unat (bp_capacity p)" by (rule fifo.view_bound [OF wf])
  qed (use fit in simp)
  with bp_insert_fold [OF wf, of "blocks_from s (unat n)"] show ?thesis
    by (simp add: bp_prefetch_foldR)
qed

section \<open>One access of a driver\<close>

lemma fifo_access_hit:
  assumes "bp_wf p" and "b \<in> set (bp_queue p)"
  shows "access_step buffer_pool_lookup buffer_pool_insert on_access pread bs b (p, r, w) =
    bindR (on_access r (p\<lparr>bp_hits := bp_hits p + 1\<rparr>) b) (\<lambda>(r', p'). Inr (p', r', w))"
  using bp_lookup_step [OF assms(1), of b] assms(2) by (simp add: access_step_def)

lemma fifo_access_miss:
  assumes wf: "bp_wf p" and miss: "b \<notin> set (bp_queue p)" and disk: "reads_succeed pread"
  shows "\<exists>p2 w2. bp_wf p2 \<and> bp_capacity p2 = bp_capacity p \<and> bp_hits p2 = bp_hits p \<and>
    bp_misses p2 = bp_misses p + 1 \<and>
    bp_queue p2 = fifo_insert (unat (bp_capacity p)) b (bp_queue p) \<and>
    access_step buffer_pool_lookup buffer_pool_insert on_access pread bs b (p, r, w) =
      bindR (on_access r p2 b) (\<lambda>(r', p'). Inr (p', r', w2))"
proof -
  let ?p1 = "p\<lparr>bp_misses := bp_misses p + 1\<rparr>"
  obtain n w2 where rd: "pread w (b * bs) = (n, w2)" by fastforce
  obtain p2 where p2: "buffer_pool_insert ?p1 b = Inr p2" "bp_wf p2"
    "bp_queue p2 = fifo_insert (unat (bp_capacity p)) b (bp_queue p)"
    "bp_capacity p2 = bp_capacity p" "bp_hits p2 = bp_hits p" "bp_misses p2 = bp_misses p + 1"
    using bp_insert_step [of ?p1 b] wf by auto
  have "access_step buffer_pool_lookup buffer_pool_insert on_access pread bs b (p, r, w) =
      bindR (on_access r p2 b) (\<lambda>(r', p'). Inr (p', r', w2))"
    using bp_lookup_step [OF wf, of b] miss rd p2(1) reads_succeedD [OF disk rd]
    by (simp add: access_step_def)
  with p2 show ?thesis by blast
qed

section \<open>Properties\<close>

text \<open>
  C25: Insertion refines the FIFO queue. On a well-formed pool \<open>buffer_pool_insert\<close> never
  faults, keeps the pool well formed and the statistics unchanged, and acts on the queue of cached
  blocks as \<open>fifo_insert\<close>: a cached block changes nothing, a new one is appended, and when the
  pool is full the oldest block leaves.
\<close>

theorem buffer_pool_insert_refines:
  assumes "bp_wf p"
  shows "\<exists>p'. buffer_pool_insert p b = Inr p' \<and> bp_wf p' \<and>
    bp_queue p' = fifo_insert (unat (bp_capacity p)) b (bp_queue p) \<and>
    bp_capacity p' = bp_capacity p \<and> bp_hits p' = bp_hits p \<and> bp_misses p' = bp_misses p"
  by (rule bp_insert_step [OF assms])

text \<open>
  A lookup after an insertion. In a well-formed pool the block just inserted is found and
  counted as one hit, whatever was evicted for it.
\<close>

theorem insert_then_lookup:
  assumes "bp_wf p" and "buffer_pool_insert p b = Inr p'"
  shows "buffer_pool_lookup p' b = Inr (True, p'\<lparr>bp_hits := bp_hits p + 1\<rparr>)"
  using bp_insert_step [OF assms(1), of b] assms(2) bp_lookup_step [of p' b]
    fifo_insert_member [of b "unat (bp_capacity p)" "bp_queue p"]
  by (auto simp del: fifo_insert_member)

text \<open>
  Initialisation. When the requested array fits the address space and \<open>malloc\<close> delivers
  it, the pool is well formed, empty and its counters are 0; when \<open>malloc\<close> fails the program
  exits.
\<close>

theorem buffer_pool_init_wf:
  assumes "malloc_spec malloc" and "capacity \<noteq> 0" and "unat capacity * 8 < 2 ^ 64"
  shows "(malloc (capacity * 8) = None \<longrightarrow> buffer_pool_init malloc capacity block_size = Inl Exit_failure) \<and>
    (malloc (capacity * 8) \<noteq> None \<longrightarrow>
      (\<exists>p. buffer_pool_init malloc capacity block_size = Inr p \<and> bp_wf p \<and> bp_queue p = [] \<and>
           bp_capacity p = capacity \<and> bp_hits p = 0 \<and> bp_misses p = 0))"
proof -
  have "unat (capacity * 8) = unat capacity * 8" using assms(3) by (simp add: unat_mult_64)
  then have "length arr = unat capacity" if "malloc (capacity * 8) = Some arr" for arr
    using assms(1) that unfolding malloc_spec_def by fastforce
  then show ?thesis
    using assms(2)
    by (auto simp: buffer_pool_init_def bp_wf_def bp_contents_def bp_queue_def word_gt_0)
qed

text \<open>
  Prefetching a range that fits the pool, does not wrap and lies above every cached block
  caches the whole range, in order, as the youngest blocks.
\<close>

theorem prefetch_fresh_range:
  assumes "bp_wf p" and "unat n \<le> unat (bp_capacity p)" and "unat s + unat n \<le> 2 ^ 64"
    and "\<forall>b \<in> set (bp_queue p). unat b < unat s"
  shows "\<exists>p'. buffer_pool_prefetch_range p s n = Inr p' \<and> bp_wf p' \<and>
    bp_queue p' = drop (length (bp_queue p) + unat n - unat (bp_capacity p)) (bp_queue p)
                  @ blocks_from s (unat n)"
  using bp_prefetch_fresh [OF assms] by blast

definition sample_pool :: BufferPool where
  "sample_pool = \<lparr>bp_capacity = 3, bp_block_size = 8, bp_slots = [11, 1, 2], bp_count = 3,
     bp_evict_pos = 0, bp_hits = 0, bp_misses = 0\<rparr>"

lemma sample_pool_wf: "bp_wf sample_pool"
  by (simp add: bp_wf_def sample_pool_def bp_contents_def)

lemma sample_pool_queue: "bp_queue sample_pool = [11, 1, 2]"
  by (simp add: bp_queue_def sample_pool_def bp_contents_def)

text \<open>
  A range that is partly cached already need not be cached as a whole afterwards: prefetching
  the blocks 11 and 12 into a full pool whose oldest block is 11 evicts 11, because an insertion of
  a cached block does not renew it.
\<close>

theorem prefetch_evicts_own_range:
  "\<exists>p'. buffer_pool_prefetch_range sample_pool 11 2 = Inr p' \<and> bp_queue p' = [1, 2, 12]"
proof -
  have "blocks_from 11 2 = [11, 12]" by (simp add: blocks_from_def upt_rec)
  then show ?thesis
    using bp_insert_fold [OF sample_pool_wf, of "[11, 12]"]
    by (auto simp: bp_prefetch_foldR sample_pool_queue fifo_insert_def)
      (simp add: sample_pool_def)
qed

section \<open>Concrete pools\<close>

theorem buffer_pool_insert_refines_witness:
  "\<exists>p'. buffer_pool_insert sample_pool 7 = Inr p' \<and> bp_wf p' \<and>
    bp_queue p' = fifo_insert (unat (bp_capacity sample_pool)) 7 (bp_queue sample_pool) \<and>
    bp_capacity p' = bp_capacity sample_pool \<and> bp_hits p' = bp_hits sample_pool \<and>
    bp_misses p' = bp_misses sample_pool"
  by (rule buffer_pool_insert_refines [OF sample_pool_wf])

theorem insert_then_lookup_witness:
  "\<exists>p'. buffer_pool_insert sample_pool 7 = Inr p' \<and>
     buffer_pool_lookup p' 7 = Inr (True, p'\<lparr>bp_hits := bp_hits sample_pool + 1\<rparr>)"
  using bp_insert_step [OF sample_pool_wf, of 7] insert_then_lookup [OF sample_pool_wf, of 7] by blast

lemma zero_malloc_spec: "malloc_spec (\<lambda>n. Some (replicate (unat n div 8) 0))"
  by (simp add: malloc_spec_def)

theorem buffer_pool_init_wf_witness:
  "\<exists>p. buffer_pool_init (\<lambda>n. Some (replicate (unat n div 8) 0)) 4 512 = Inr p \<and> bp_wf p \<and>
     bp_queue p = [] \<and> bp_capacity p = 4 \<and> bp_hits p = 0 \<and> bp_misses p = 0"
  using buffer_pool_init_wf [OF zero_malloc_spec, of 4 512] by simp

theorem prefetch_fresh_range_witness:
  "\<exists>p'. buffer_pool_prefetch_range sample_pool 12 2 = Inr p' \<and> bp_wf p' \<and>
     bp_queue p' = drop (length (bp_queue sample_pool) + unat (2 :: size_t) -
       unat (bp_capacity sample_pool)) (bp_queue sample_pool) @ blocks_from 12 (unat (2 :: size_t))"
proof (rule prefetch_fresh_range [OF sample_pool_wf])
  show "\<forall>b \<in> set (bp_queue sample_pool). unat b < unat (12 :: size_t)"
    by (simp only: sample_pool_queue) simp
qed (simp_all add: sample_pool_def)

end
