(* ===== verification/WorkloadGen.thy ===== *)
theory WorkloadGen
  imports BufferPool
begin

text \<open>
  The trace generator of \<open>prefetch-sim/src/workload_gen.c\<close>. The C library is modelled by
  what the source uses of it: \<open>rand\<close> is a parameter, a function of the generator's state
  returning a value and the next state; \<open>qsort\<close> sorts by the comparison function it is
  given; \<open>malloc\<close> is the parameter of theory \<open>BufferPool\<close>. The function's static
  variable \<open>seeded\<close> and the generator's state are passed along explicitly.
\<close>

section \<open>Definitions\<close>

datatype AccessPattern = PATTERN_SEQUENTIAL | PATTERN_RANDOM

definition WORKLOAD_OK :: nat where "WORKLOAD_OK = 0"
definition WORKLOAD_ERR_INVALID_ARGS :: nat where "WORKLOAD_ERR_INVALID_ARGS = 1"
definition WORKLOAD_ERR_NUM_BLOCKS_TOO_LARGE :: nat where "WORKLOAD_ERR_NUM_BLOCKS_TOO_LARGE = 2"

lemmas workload_codes = WORKLOAD_OK_def WORKLOAD_ERR_INVALID_ARGS_def
  WORKLOAD_ERR_NUM_BLOCKS_TOO_LARGE_def

definition compare_size_t :: "size_t \<Rightarrow> size_t \<Rightarrow> int" where
  "compare_size_t x y = (if x < y then -1 else if x > y then 1 else 0)"

fun insert_by :: "('a \<Rightarrow> 'a \<Rightarrow> int) \<Rightarrow> 'a \<Rightarrow> 'a list \<Rightarrow> 'a list" where
  "insert_by cmp x [] = [x]"
| "insert_by cmp x (y # ys) = (if cmp x y \<le> 0 then x # y # ys else y # insert_by cmp x ys)"

fun qsort_c :: "('a \<Rightarrow> 'a \<Rightarrow> int) \<Rightarrow> 'a list \<Rightarrow> 'a list" where
  "qsort_c cmp [] = []"
| "qsort_c cmp (x # xs) = insert_by cmp x (qsort_c cmp xs)"

text \<open>The range that is not settled yet is \<open>[i, n-1]\<close>; one of its elements is swapped to \<open>i\<close>.\<close>

definition shuffle_step ::
  "('g \<Rightarrow> int \<times> 'g) \<Rightarrow> size_t \<Rightarrow> size_t \<Rightarrow> size_t list \<times> 'g \<Rightarrow> (size_t list \<times> 'g) res" where
  "shuffle_step rand n i = (\<lambda>(arr, g).
     case rand g of (v, g') \<Rightarrow>
       bindR (mod_c (word_of_int v) (n - i)) (\<lambda>m.
       bindR (arr_get arr i) (\<lambda>tmp.
       bindR (arr_get arr (i + m)) (\<lambda>x.
       bindR (arr_set arr i x) (\<lambda>arr1.
       bindR (arr_set arr1 (i + m) tmp) (\<lambda>arr2. Inr (arr2, g')))))))"

definition partial_shuffle ::
  "('g \<Rightarrow> int \<times> 'g) \<Rightarrow> size_t list \<Rightarrow> size_t \<Rightarrow> size_t \<Rightarrow> 'g \<Rightarrow> (size_t list \<times> 'g) res" where
  "partial_shuffle rand arr n k g = for_c (shuffle_step rand n) k 0 (arr, g)"

text \<open>
  \<open>srand_now g\<close> is the generator after \<open>srand((unsigned)time(NULL))\<close>; \<open>out\<close> is
  \<open>None\<close> for a null pointer. The result is the return code, the output array and the state
  of the generator (with its \<open>seeded\<close> flag).
\<close>

definition generate_offsets ::
  "('g \<Rightarrow> int \<times> 'g) \<Rightarrow> ('g \<Rightarrow> 'g) \<Rightarrow> (size_t \<Rightarrow> size_t list option) \<Rightarrow>
   AccessPattern \<Rightarrow> size_t \<Rightarrow> size_t \<Rightarrow> size_t \<Rightarrow> size_t list option \<Rightarrow> bool \<times> 'g \<Rightarrow>
   (nat \<times> size_t list option \<times> bool \<times> 'g) res" where
  "generate_offsets rand srand_now malloc pattern file_size block_size num_blocks out = (\<lambda>(seeded, g).
     case out of
       None \<Rightarrow> Inr (WORKLOAD_ERR_INVALID_ARGS, out, seeded, g)
     | Some out_offsets \<Rightarrow>
         if block_size = 0 then Inr (WORKLOAD_ERR_INVALID_ARGS, out, seeded, g)
         else bindR (div_c file_size block_size) (\<lambda>total_blocks.
           if num_blocks > total_blocks
           then Inr (WORKLOAD_ERR_NUM_BLOCKS_TOO_LARGE, out, seeded, g)
           else let g1 = (if seeded then g else srand_now g) in
             case malloc (total_blocks * 8) of
               None \<Rightarrow> Inr (WORKLOAD_ERR_INVALID_ARGS, out, True, g1)
             | Some candidates \<Rightarrow>
                 bindR (for_c (\<lambda>i c. arr_set c i i) total_blocks 0 candidates) (\<lambda>c1.
                 bindR (partial_shuffle rand c1 total_blocks num_blocks g1) (\<lambda>(c2, g2).
                 let c3 = (if pattern = PATTERN_SEQUENTIAL
                           then qsort_c compare_size_t (take (unat num_blocks) c2)
                                @ drop (unat num_blocks) c2
                           else c2)
                 in bindR (for_c (\<lambda>i o'. bindR (arr_get c3 i) (\<lambda>x. arr_set o' i (x * block_size)))
                            num_blocks 0 out_offsets)
                      (\<lambda>o'. Inr (WORKLOAD_OK, Some o', True, g2))))))"

section \<open>Sorting\<close>

lemma insert_by_compare: "insert_by compare_size_t x ys = insort x ys"
  by (induction ys) (auto simp: compare_size_t_def)

lemma qsort_compare: "qsort_c compare_size_t xs = sort xs"
  by (induction xs) (simp_all add: insert_by_compare)

section \<open>Shuffling\<close>

lemma mset_swap:
  assumes "i < length xs" and "j < length xs"
  shows "mset (xs[i := xs ! j, j := xs ! i]) = mset xs"
  using assms by (auto simp: mset_update nth_list_update)

lemma shuffle_step_ok:
  assumes "i < n" and "length arr = unat n"
  shows "\<exists>arr' g'. shuffle_step rand n i (arr, g) = Inr (arr', g') \<and> mset arr' = mset arr \<and>
    length arr' = unat n"
proof -
  obtain v g' where v: "rand g = (v, g')" by fastforce
  let ?m = "(word_of_int v :: size_t) mod (n - i)"
  have i: "unat i < unat n" using assms(1) by (simp add: word_less_nat_alt)
  have ni: "unat (n - i) = unat n - unat i"
    using unat_sub [of i n] assms(1) by (simp add: less_imp_le)
  then have nz: "n - i \<noteq> 0" using i by (metis unat_0 less_numeral_extra(3) zero_less_diff)
  have "unat ?m < unat n - unat i"
    using nz ni i by (simp add: unat_mod)
  then have "unat (i + ?m) = unat i + unat ?m"
    using size_t_bound [of n] by (intro unat_plus_64) linarith
  then have j: "unat (i + ?m) < unat n"
    using \<open>unat ?m < unat n - unat i\<close> by linarith
  have "shuffle_step rand n i (arr, g) =
      Inr (arr[unat i := arr ! unat (i + ?m), unat (i + ?m) := arr ! unat i], g')"
    using v i j nz assms(2) by (simp add: shuffle_step_def res_simps)
  with mset_swap [of "unat i" arr "unat (i + ?m)"] i j assms(2) show ?thesis by simp
qed

lemma partial_shuffle_ok:
  assumes "k \<le> n" and "length arr = unat n"
  shows "\<exists>arr' g'. partial_shuffle rand arr n k g = Inr (arr', g') \<and> mset arr' = mset arr \<and>
    length arr' = unat n"
proof -
  let ?xs = "map of_nat [0..<unat k] :: size_t list"
  let ?P = "\<lambda>ys :: size_t list. \<lambda>(arr', g' :: 'a). mset arr' = mset arr \<and> length arr' = unat n"
  have "\<exists>st. foldR (shuffle_step rand n) ?xs (arr, g) = Inr st \<and> ?P ?xs st"
  proof (rule foldR_invariant)
    fix ys x and st :: "size_t list \<times> 'a"
    assume sub: "set (ys @ [x]) \<subseteq> set ?xs" and P: "?P ys st"
    obtain a g1 where st: "st = (a, g1)" by (cases st)
    from sub obtain m where m: "x = of_nat m" "m < unat k" by auto
    then have "unat x = m" using size_t_bound [of k] by (simp add: unat_of_nat)
    with m assms(1) have "x < n" by (simp add: word_less_nat_alt word_le_nat_alt)
    then show "\<exists>st'. shuffle_step rand n x st = Inr st' \<and> ?P (ys @ [x]) st'"
      using shuffle_step_ok [of x n a rand g1] P st by fastforce
  qed (simp add: assms(2))
  then show ?thesis by (auto simp: partial_shuffle_def for_c_foldR)
qed

section \<open>Array initialisation loops\<close>

text \<open>A loop that writes \<open>f i\<close> to element \<open>i\<close> for \<open>i < n\<close> writes a prefix.\<close>

lemma fill_loop:
  fixes n :: size_t
  assumes len: "unat n \<le> length a"
    and body: "\<And>i o'. i < n \<Longrightarrow> length o' = length a \<Longrightarrow> f i o' = arr_set o' i (h (unat i))"
  shows "for_c f n 0 a = Inr (map h [0..<unat n] @ drop (unat n) a)"
proof -
  have "foldR f (map of_nat [0..<k]) a = Inr (map h [0..<k] @ drop k a)" if "k \<le> unat n" for k
    using that
  proof (induction k)
    case 0
    then show ?case by simp
  next
    case (Suc k)
    let ?o = "map h [0..<k] @ drop k a"
    have k: "unat (of_nat k :: size_t) = k"
      using Suc.prems size_t_bound [of n] by (simp add: unat_of_nat)
    have "f (of_nat k) ?o = arr_set ?o (of_nat k) (h k)"
      using Suc.prems len k body [of "of_nat k" ?o] by (simp add: word_less_nat_alt)
    also have "\<dots> = Inr (?o[k := h k])"
      using Suc.prems len k by (simp add: arr_set_def)
    also have "?o[k := h k] = map h [0..<Suc k] @ drop (Suc k) a"
      using Suc.prems len
      by (simp add: list_update_append Cons_nth_drop_Suc [symmetric])
    finally show ?case using Suc by (simp add: foldR_append)
  qed
  then show ?thesis by (simp add: for_c_foldR)
qed

section \<open>The generated trace\<close>

definition block_indices :: "size_t \<Rightarrow> size_t list" where
  "block_indices n = map of_nat [0..<unat n]"

lemma set_block_indices: "x \<in> set (block_indices n) \<longleftrightarrow> x < n"
proof
  assume "x \<in> set (block_indices n)"
  then show "x < n"
    using size_t_bound [of n] by (auto simp: block_indices_def word_less_nat_alt unat_of_nat)
next
  assume "x < n"
  then have "unat x \<in> {0..<unat n}" by (simp add: word_less_nat_alt)
  then show "x \<in> set (block_indices n)"
    by (auto simp: block_indices_def intro!: image_eqI [of x _ "unat x"])
qed

lemma block_indices_blocks: "block_indices n = blocks_from 0 (unat n)"
  by (simp add: block_indices_def blocks_from_def)

lemma distinct_block_indices: "distinct (block_indices n)"
  using distinct_blocks_from [of 0 "unat n"] size_t_bound [of n]
  by (simp add: block_indices_blocks)

lemma sorted_block_indices: "sorted (block_indices n)"
proof (rule sorted_wrt_mono_rel [of _ "\<lambda>a b. unat a \<le> unat b"])
  have "unat (of_nat i :: size_t) = i" if "i < unat n" for i
    using that size_t_bound [of n] by (simp add: unat_of_nat)
  then show "sorted_wrt (\<lambda>a b. unat a \<le> unat b) (block_indices n)"
    by (simp add: block_indices_def sorted_wrt_map sorted_wrt_iff_nth_less)
qed (simp add: word_le_nat_alt)

text \<open>The block numbers chosen from the shuffled candidates.\<close>

definition chosen :: "AccessPattern \<Rightarrow> size_t \<Rightarrow> size_t list \<Rightarrow> size_t list" where
  "chosen pattern k c =
     (if pattern = PATTERN_SEQUENTIAL then sort (take (unat k) c) else take (unat k) c)"

lemma chosen_ok:
  assumes "mset c = mset (block_indices n)" and "k \<le> n"
  shows "length (chosen pattern k c) = unat k" and "distinct (chosen pattern k c)"
    and "\<forall>x \<in> set (chosen pattern k c). x < n"
    and "pattern = PATTERN_SEQUENTIAL \<Longrightarrow> sorted (chosen pattern k c)"
    and "pattern = PATTERN_SEQUENTIAL \<Longrightarrow> k = n \<Longrightarrow> chosen pattern k c = block_indices n"
proof -
  have len: "length c = unat n"
    using mset_eq_length [OF assms(1)] by (simp add: block_indices_def)
  have dist: "distinct c"
    using mset_eq_imp_distinct_iff [OF assms(1)] distinct_block_indices by simp
  have "set c = set (block_indices n)" by (rule mset_eq_setD [OF assms(1)])
  then have "\<forall>x \<in> set c. x < n" using set_block_indices by blast
  with len dist assms(2)
  show "length (chosen pattern k c) = unat k" "distinct (chosen pattern k c)"
    "\<forall>x \<in> set (chosen pattern k c). x < n"
    by (auto simp: chosen_def word_le_nat_alt dest: in_set_takeD)
  show "sorted (chosen pattern k c)" if "pattern = PATTERN_SEQUENTIAL"
    using that by (simp add: chosen_def)
  show "chosen pattern k c = block_indices n" if "pattern = PATTERN_SEQUENTIAL" "k = n"
    using that len assms(1) sorted_block_indices
    by (simp add: chosen_def properties_for_sort)
qed

lemma generate_offsets_run:
  fixes file_size block_size num_blocks :: size_t
  defines "nb \<equiv> file_size div block_size"
  assumes mal: "malloc_spec malloc" "malloc (nb * 8) = Some cand"
    and fit: "unat nb * 8 < 2 ^ 64"
    and bs: "block_size \<noteq> 0" and num: "num_blocks \<le> nb" and out: "unat num_blocks \<le> length o'"
  shows "\<exists>c g'. mset c = mset (block_indices nb) \<and>
    generate_offsets rand srand_now malloc pattern file_size block_size num_blocks (Some o') (seeded, g) =
      Inr (WORKLOAD_OK,
           Some (map (\<lambda>b. b * block_size) (chosen pattern num_blocks c) @ drop (unat num_blocks) o'),
           True, g')"
proof -
  let ?g1 = "if seeded then g else srand_now g" and ?k = "unat num_blocks"
  have "unat (nb * 8) = unat nb * 8" using fit by (simp add: unat_mult_64)
  then have lenc: "length cand = unat nb"
    using mal unfolding malloc_spec_def by fastforce
  have init: "for_c (\<lambda>i c. arr_set c i i) nb 0 cand = Inr (block_indices nb)"
    using fill_loop [of nb cand "\<lambda>i c. arr_set c i i" of_nat] lenc
    by (simp add: block_indices_def)
  obtain c g' where c: "partial_shuffle rand (block_indices nb) nb num_blocks ?g1 = Inr (c, g')"
    "mset c = mset (block_indices nb)" "length c = unat nb"
    using partial_shuffle_ok [OF num, of "block_indices nb" rand ?g1]
    by (auto simp: block_indices_def)
  define c3 where "c3 = (if pattern = PATTERN_SEQUENTIAL
    then qsort_c compare_size_t (take ?k c) @ drop ?k c else c)"
  have pick: "take ?k c3 = chosen pattern num_blocks c" "?k \<le> length c3"
    using c(3) num by (auto simp: c3_def chosen_def qsort_compare word_le_nat_alt)
  have "for_c (\<lambda>i o'. bindR (arr_get c3 i) (\<lambda>x. arr_set o' i (x * block_size))) num_blocks 0 o' =
      Inr (map (\<lambda>i. c3 ! i * block_size) [0..<?k] @ drop ?k o')"
    using pick(2) out by (intro fill_loop) (auto simp: arr_get_def word_less_nat_alt)
  also have "map (\<lambda>i. c3 ! i * block_size) [0..<?k] = map (\<lambda>b. b * block_size) (take ?k c3)"
    using pick(2) by (intro nth_equalityI) auto
  finally have copy: "for_c (\<lambda>i o'. bindR (arr_get c3 i) (\<lambda>x. arr_set o' i (x * block_size)))
      num_blocks 0 o' = Inr (map (\<lambda>b. b * block_size) (chosen pattern num_blocks c) @ drop ?k o')"
    using pick(1) by simp
  have "generate_offsets rand srand_now malloc pattern file_size block_size num_blocks (Some o')
      (seeded, g) =
    Inr (WORKLOAD_OK, Some (map (\<lambda>b. b * block_size) (chosen pattern num_blocks c) @ drop ?k o'),
         True, g')"
    using bs num mal(2) init c(1) copy
    by (simp add: generate_offsets_def div_c_def Let_def nb_def [symmetric] c3_def [symmetric]
        leD)
  with c(2) show ?thesis by blast
qed

text \<open>A block number below the number of whole blocks: its offset does not wrap.\<close>

lemma offset_unat:
  fixes b file_size block_size :: size_t
  assumes "b < file_size div block_size"
  shows "unat (b * block_size) = unat b * unat block_size"
    and "unat b * unat block_size + unat block_size \<le> unat file_size"
    and "b * block_size div block_size = b"
proof -
  have b: "unat b < unat file_size div unat block_size"
    using assms by (simp add: word_less_nat_alt unat_div)
  then have nz: "unat block_size \<noteq> 0" by (metis div_by_0 not_less_zero)
  have "Suc (unat b) * unat block_size \<le> unat file_size"
    using b nz by (metis Suc_le_eq less_eq_div_iff_mult_less_eq neq0_conv)
  then show le: "unat b * unat block_size + unat block_size \<le> unat file_size" by simp
  then show m: "unat (b * block_size) = unat b * unat block_size"
    using size_t_bound [of file_size] by (intro unat_mult_64) linarith
  have "unat (b * block_size div block_size) = unat b"
    using m nz by (simp add: unat_div)
  then show "b * block_size div block_size = b" by (simp add: word_unat_eq_iff)
qed

section \<open>Properties\<close>

text \<open>
  The offsets of a trace. When there is room for the request and \<open>malloc\<close> delivers,
  \<open>generate_offsets\<close> returns \<open>WORKLOAD_OK\<close> for every sequence of random numbers and writes
  \<open>num_blocks\<close> offsets that are pairwise different, multiples of the block size and of blocks
  that lie wholly inside the file, in ascending order for the sequential pattern; the rest of the
  output array is left alone.
\<close>

theorem generate_offsets_ok:
  assumes "malloc_spec malloc" and "malloc (file_size div block_size * 8) \<noteq> None"
    and "unat (file_size div block_size) * 8 < 2 ^ 64" and "block_size \<noteq> 0"
    and "num_blocks \<le> file_size div block_size" and "unat num_blocks \<le> length o'"
  shows "\<exists>offs g'. generate_offsets rand srand_now malloc pattern file_size block_size num_blocks
      (Some o') (seeded, g) =
      Inr (WORKLOAD_OK, Some (offs @ drop (unat num_blocks) o'), True, g') \<and>
    length offs = unat num_blocks \<and> distinct offs \<and>
    (\<forall>x \<in> set offs. unat block_size dvd unat x \<and> unat x + unat block_size \<le> unat file_size) \<and>
    (pattern = PATTERN_SEQUENTIAL \<longrightarrow> sorted offs)"
proof -
  let ?nb = "file_size div block_size"
  obtain cand where "malloc (?nb * 8) = Some cand" using assms(2) by blast
  from generate_offsets_run [OF assms(1) this assms(3-6), of rand srand_now pattern seeded g]
  obtain c g' where c: "mset c = mset (block_indices ?nb)" and
    gen: "generate_offsets rand srand_now malloc pattern file_size block_size num_blocks (Some o')
        (seeded, g) = Inr (WORKLOAD_OK, Some (map (\<lambda>b. b * block_size) (chosen pattern num_blocks c)
          @ drop (unat num_blocks) o'), True, g')" by blast
  note ch = chosen_ok [OF c assms(5), of pattern]
  have u: "unat (x * block_size) = unat x * unat block_size" "x * block_size div block_size = x"
    "unat x * unat block_size + unat block_size \<le> unat file_size"
    if "x \<in> set (chosen pattern num_blocks c)" for x
    using that ch(3) offset_unat [of x file_size block_size] by auto
  then have "inj_on (\<lambda>b. b * block_size) (set (chosen pattern num_blocks c))"
    by (intro inj_onI) metis
  then have dist: "distinct (map (\<lambda>b. b * block_size) (chosen pattern num_blocks c))"
    using ch(2) by (simp add: distinct_map)
  have "x * block_size \<le> y * block_size"
    if "x \<in> set (chosen pattern num_blocks c)" "y \<in> set (chosen pattern num_blocks c)" "x \<le> y" for x y
    using that u(1) by (simp add: word_le_nat_alt)
  then have "sorted (map (\<lambda>b. b * block_size) (chosen pattern num_blocks c))"
    if "pattern = PATTERN_SEQUENTIAL"
    using ch(4) [OF that] by (auto simp: sorted_map intro: sorted_wrt_mono_rel)
  with gen ch(1) dist u show ?thesis
    by (intro exI [of _ "map (\<lambda>b. b * block_size) (chosen pattern num_blocks c)"] exI [of _ g']) auto
qed

text \<open>
  The errors of \<open>generate_offsets\<close>: a null output array, a block size of 0 and a failed
  allocation are \<open>WORKLOAD_ERR_INVALID_ARGS\<close>, more blocks than the file has are
  \<open>WORKLOAD_ERR_NUM_BLOCKS_TOO_LARGE\<close>; in none of them is the output array written, and the two
  argument errors do not touch the random generator either.
\<close>

theorem generate_offsets_errors:
  "generate_offsets rand srand_now malloc pattern file_size block_size num_blocks None (seeded, g) =
     Inr (WORKLOAD_ERR_INVALID_ARGS, None, seeded, g) \<and>
   generate_offsets rand srand_now malloc pattern file_size 0 num_blocks (Some o') (seeded, g) =
     Inr (WORKLOAD_ERR_INVALID_ARGS, Some o', seeded, g) \<and>
   (block_size \<noteq> 0 \<and> file_size div block_size < num_blocks \<longrightarrow>
     generate_offsets rand srand_now malloc pattern file_size block_size num_blocks (Some o') (seeded, g) =
       Inr (WORKLOAD_ERR_NUM_BLOCKS_TOO_LARGE, Some o', seeded, g)) \<and>
   (block_size \<noteq> 0 \<and> num_blocks \<le> file_size div block_size \<and>
     malloc (file_size div block_size * 8) = None \<longrightarrow>
     generate_offsets rand srand_now malloc pattern file_size block_size num_blocks (Some o') (seeded, g) =
       Inr (WORKLOAD_ERR_INVALID_ARGS, Some o', True, if seeded then g else srand_now g))"
  by (auto simp: generate_offsets_def div_c_def Let_def leD)

text \<open>
  The partial Fisher-Yates shuffle permutes its array: for every sequence of random numbers it
  ends without a fault and the array holds the same elements as before.
\<close>

theorem partial_shuffle_permutes:
  assumes "k \<le> n" and "length arr = unat n"
  shows "\<exists>arr' g'. partial_shuffle rand arr n k g = Inr (arr', g') \<and> mset arr' = mset arr"
  using partial_shuffle_ok [OF assms, of rand g] by blast

section \<open>Concrete traces\<close>

theorem generate_offsets_ok_witness:
  "\<exists>offs g'. generate_offsets (\<lambda>g. (int g, g + 1)) (\<lambda>g. 5) (\<lambda>n. Some (replicate (unat n div 8) 0))
      PATTERN_SEQUENTIAL 64 8 4 (Some (replicate 4 0)) (False, 0 :: nat) =
      Inr (WORKLOAD_OK, Some (offs @ drop (unat (4 :: size_t)) (replicate 4 0)), True, g') \<and>
    length offs = unat (4 :: size_t) \<and> distinct offs \<and>
    (\<forall>x \<in> set offs. unat (8 :: size_t) dvd unat x \<and> unat x + unat (8 :: size_t) \<le> unat (64 :: size_t)) \<and>
    (PATTERN_SEQUENTIAL = PATTERN_SEQUENTIAL \<longrightarrow> sorted offs)"
  by (rule generate_offsets_ok [OF zero_malloc_spec]) simp_all

theorem generate_offsets_errors_witness:
  "generate_offsets (\<lambda>g. (int g, g + 1)) (\<lambda>g. 5) (\<lambda>n. None) PATTERN_RANDOM 64 8 9
     (Some [0]) (False, 0 :: nat) = Inr (WORKLOAD_ERR_NUM_BLOCKS_TOO_LARGE, Some [0], False, 0) \<and>
   generate_offsets (\<lambda>g. (int g, g + 1)) (\<lambda>g. 5) (\<lambda>n. None) PATTERN_RANDOM 64 8 4
     (Some [0]) (False, 0 :: nat) = Inr (WORKLOAD_ERR_INVALID_ARGS, Some [0], True, 5)"
  using generate_offsets_errors [of "\<lambda>g. (int g, g + 1)" "\<lambda>g. 5" "\<lambda>n. None" PATTERN_RANDOM 64 8 9 False 0 "[0]"]
    generate_offsets_errors [of "\<lambda>g. (int g, g + 1)" "\<lambda>g. 5" "\<lambda>n. None" PATTERN_RANDOM 64 8 4 False 0 "[0]"]
  by simp

theorem partial_shuffle_permutes_witness:
  "\<exists>arr' g'. partial_shuffle (\<lambda>g. (int g, g + 1)) [7, 8, 9] 3 2 (4 :: nat) = Inr (arr', g') \<and>
     mset arr' = mset [7, 8, 9]"
  by (rule partial_shuffle_permutes) simp_all

end
