(* ===== verification/SeqPrefetch.thy ===== *)
theory SeqPrefetch
  imports BufferPool
begin

text \<open>
  What the fixed-window and the adaptive read-ahead have in common, as a locale: a policy that
  recognises the next block of a sequential stream, prefetches the following blocks when the
  stream starts or reaches the edge of what was prefetched, and otherwise leaves the cache alone.
  The scan theorem (a sequential stream costs two misses) is proved here once.
\<close>

locale sequential_prefetcher =
  fixes on_access :: "'r \<Rightarrow> BufferPool \<Rightarrow> size_t \<Rightarrow> ('r \<times> BufferPool) res"
    and last_of :: "'r \<Rightarrow> size_t option"
    and edge_of :: "'r \<Rightarrow> size_t option"
    and wmax :: "'r \<Rightarrow> nat"
    and rok :: "'r \<Rightarrow> bool"
  assumes jump: "rok r \<Longrightarrow> last_of r \<noteq> Some (b - 1) \<Longrightarrow>
      \<exists>r'. on_access r p b = Inr (r', p) \<and> rok r' \<and> wmax r' = wmax r \<and>
           last_of r' = Some b \<and> edge_of r' = None"
    and refill: "rok r \<Longrightarrow> last_of r = Some (b - 1) \<Longrightarrow>
      edge_of r = None \<or> edge_of r = Some (b + 1) \<Longrightarrow>
      \<exists>w r'. 0 < unat w \<and> unat w \<le> wmax r \<and> rok r' \<and> wmax r' = wmax r \<and>
           on_access r p b = bindR (buffer_pool_prefetch_range p (b + 1) w) (\<lambda>p'. Inr (r', p')) \<and>
           last_of r' = Some b \<and> edge_of r' = Some (b + 1 + w)"
    and inside: "rok r \<Longrightarrow> last_of r = Some (b - 1) \<Longrightarrow>
      edge_of r = Some e \<Longrightarrow> e \<noteq> b + 1 \<Longrightarrow>
      \<exists>r'. on_access r p b = Inr (r', p) \<and> rok r' \<and> wmax r' = wmax r \<and>
           last_of r' = Some b \<and> edge_of r' = Some e"
begin

abbreviation step where
  "step pread bs \<equiv> access_step buffer_pool_lookup buffer_pool_insert on_access pread bs"

text \<open>
  The state while a stream runs: \<open>b\<close> is the next block of the stream; everything from
  \<open>b\<close> up to the edge is cached and nothing at or beyond the edge is.
\<close>

definition streaming :: "BufferPool \<Rightarrow> 'r \<Rightarrow> size_t \<Rightarrow> bool" where
  "streaming p r b \<longleftrightarrow> bp_wf p \<and> rok r \<and> last_of r = Some (b - 1) \<and>
     (\<exists>e. edge_of r = Some e \<and> unat b < unat e \<and> unat e \<le> unat b + wmax r \<and>
          (\<forall>x \<in> set (bp_queue p). unat x < unat e) \<and>
          (\<forall>x. unat b \<le> unat x \<and> unat x < unat e \<longrightarrow> x \<in> set (bp_queue p)))"

text \<open>Prefetching at \<open>b + 1\<close> when nothing from there on is cached starts (or continues) a stream.\<close>

lemma refill_streams:
  assumes wf: "bp_wf p" and r: "rok r" "last_of r = Some (b - 1)"
      "edge_of r = None \<or> edge_of r = Some (b + 1)"
    and cap: "wmax r \<le> unat (bp_capacity p)"
    and rng: "unat b + 1 + wmax r < 2 ^ 64"
    and fresh: "\<forall>x \<in> set (bp_queue p). unat x < unat b + 1"
  shows "\<exists>r' p'. on_access r p b = Inr (r', p') \<and> streaming p' r' (b + 1) \<and> wmax r' = wmax r \<and>
    bp_capacity p' = bp_capacity p \<and> bp_hits p' = bp_hits p \<and> bp_misses p' = bp_misses p"
proof -
  obtain w r' where w: "0 < unat w" "unat w \<le> wmax r" "rok r'" "wmax r' = wmax r"
    "on_access r p b = bindR (buffer_pool_prefetch_range p (b + 1) w) (\<lambda>p'. Inr (r', p'))"
    "last_of r' = Some b" "edge_of r' = Some (b + 1 + w)"
    using refill [OF r, of p] by blast
  have b1: "unat (b + 1) = unat b + 1" using rng by (simp add: unat_plus_64)
  then have e: "unat (b + 1 + w) = unat b + 1 + unat w"
    using rng w(2) unat_plus_64 [of "b + 1" w] by simp
  have rng': "unat (b + 1) + unat w \<le> 2 ^ 64" using b1 rng w(2) by simp
  obtain p' where p': "buffer_pool_prefetch_range p (b + 1) w = Inr p'" "bp_wf p'"
    "bp_queue p' = drop (length (bp_queue p) + unat w - unat (bp_capacity p)) (bp_queue p)
                   @ blocks_from (b + 1) (unat w)"
    "bp_capacity p' = bp_capacity p" "bp_hits p' = bp_hits p" "bp_misses p' = bp_misses p"
    using bp_prefetch_fresh [OF wf _ rng'] fresh w(2) cap b1 by auto
  have "set (bp_queue p') \<subseteq> set (bp_queue p) \<union> set (blocks_from (b + 1) (unat w))"
    unfolding p'(3) by (auto dest: in_set_dropD)
  then have below: "\<forall>x \<in> set (bp_queue p'). unat x < unat (b + 1 + w)"
    using fresh set_blocks_from [OF rng'] b1 e w(1) by fastforce
  have above: "\<forall>x. unat (b + 1) \<le> unat x \<and> unat x < unat (b + 1 + w) \<longrightarrow> x \<in> set (bp_queue p')"
    using set_blocks_from [OF rng'] b1 e unfolding p'(3) by auto
  have "streaming p' r' (b + 1)"
    using p'(2) w b1 e below above by (auto simp: streaming_def)
  with w p' show ?thesis by auto
qed

text \<open>A block of the stream is a hit, and the stream goes on.\<close>

lemma stream_step:
  assumes st: "streaming p r b" and cap: "wmax r \<le> unat (bp_capacity p)"
    and rng: "unat b + 1 + wmax r < 2 ^ 64"
  shows "\<exists>p' r'. step pread bs b (p, r, w) = Inr (p', r', w) \<and> streaming p' r' (b + 1) \<and>
    wmax r' = wmax r \<and> bp_capacity p' = bp_capacity p \<and>
    bp_hits p' = bp_hits p + 1 \<and> bp_misses p' = bp_misses p"
proof -
  let ?q = "p\<lparr>bp_hits := bp_hits p + 1\<rparr>"
  obtain e where e: "edge_of r = Some e" "unat b < unat e" "unat e \<le> unat b + wmax r"
    "\<forall>x \<in> set (bp_queue p). unat x < unat e"
    "\<forall>x. unat b \<le> unat x \<and> unat x < unat e \<longrightarrow> x \<in> set (bp_queue p)"
    using st by (auto simp: streaming_def)
  have wf: "bp_wf p" "rok r" "last_of r = Some (b - 1)" using st by (auto simp: streaming_def)
  have b1: "unat (b + 1) = unat b + 1" using rng by (simp add: unat_plus_64)
  have hit: "step pread bs b (p, r, w) =
      bindR (on_access r ?q b) (\<lambda>(r', p'). Inr (p', r', w))"
    using e(2,5) wf(1) by (intro fifo_access_hit) auto
  show ?thesis
  proof (cases "e = b + 1")
    case True
    then have "\<exists>r' p'. on_access r ?q b = Inr (r', p') \<and> streaming p' r' (b + 1) \<and>
        wmax r' = wmax r \<and> bp_capacity p' = bp_capacity ?q \<and> bp_hits p' = bp_hits ?q \<and>
        bp_misses p' = bp_misses ?q"
      using wf e cap rng b1 by (intro refill_streams) auto
    then show ?thesis using hit by auto
  next
    case False
    then obtain r' where r': "on_access r ?q b = Inr (r', ?q)" "rok r'" "wmax r' = wmax r"
      "last_of r' = Some b" "edge_of r' = Some e"
      using inside [OF wf(2,3) e(1)] by blast
    have "unat b + 1 < unat e"
      using e(2) False b1 by (metis Suc_eq_plus1 Suc_lessI word_unat_eq_iff)
    then have "streaming ?q r' (b + 1)"
      using wf(1) r' e b1 by (auto simp: streaming_def)
    with hit r' show ?thesis by auto
  qed
qed

lemma stream_run:
  assumes "streaming p r b" and "wmax r \<le> unat (bp_capacity p)"
    and "unat b + n + wmax r < 2 ^ 64"
  shows "\<exists>p' r'. foldR (step pread bs) (blocks_from b n) (p, r, w) = Inr (p', r', w) \<and>
    streaming p' r' (b + of_nat n) \<and> wmax r' = wmax r \<and> bp_capacity p' = bp_capacity p \<and>
    bp_hits p' = bp_hits p + of_nat n \<and> bp_misses p' = bp_misses p"
  using assms(3)
proof (induction n)
  case 0
  then show ?case using assms by (simp add: blocks_from_def)
next
  case (Suc n)
  then obtain p1 r1 where IH: "foldR (step pread bs) (blocks_from b n) (p, r, w) = Inr (p1, r1, w)"
    "streaming p1 r1 (b + of_nat n)" "wmax r1 = wmax r" "bp_capacity p1 = bp_capacity p"
    "bp_hits p1 = bp_hits p + of_nat n" "bp_misses p1 = bp_misses p" by auto
  have "unat (b + of_nat n) = unat b + n"
    using Suc.prems by (intro unat_blocks_from [of b "Suc n"]) auto
  then have "\<exists>p' r'. step pread bs (b + of_nat n) (p1, r1, w) = Inr (p', r', w) \<and>
      streaming p' r' (b + of_nat n + 1) \<and> wmax r' = wmax r1 \<and> bp_capacity p' = bp_capacity p1 \<and>
      bp_hits p' = bp_hits p1 + 1 \<and> bp_misses p' = bp_misses p1"
    using IH assms(2) Suc.prems by (intro stream_step) auto
  then show ?case using IH by (auto simp: blocks_from_Suc foldR_append algebra_simps)
qed

text \<open>
  The first two blocks of a stream miss: the first is a jump, the second starts the prefetching.
\<close>

lemma stream_start:
  assumes wf: "bp_wf p" and r: "rok r" "last_of r \<noteq> Some (s - 1)" and disk: "reads_succeed pread"
    and cap: "wmax r \<le> unat (bp_capacity p)" and rng: "unat s + 2 + wmax r < 2 ^ 64"
    and cold: "\<forall>x \<in> set (bp_queue p). unat x < unat s"
  shows "\<exists>p' r' w'. foldR (step pread bs) [s, s + 1] (p, r, w) = Inr (p', r', w') \<and>
    streaming p' r' (s + 1 + 1) \<and> wmax r' = wmax r \<and> bp_capacity p' = bp_capacity p \<and>
    bp_hits p' = bp_hits p \<and> bp_misses p' = bp_misses p + 2"
proof -
  have s1: "unat (s + 1) = unat s + 1" using rng by (simp add: unat_plus_64)
  have m1: "s \<notin> set (bp_queue p)" using cold by blast
  obtain p1 w1 where p1: "bp_wf p1" "bp_capacity p1 = bp_capacity p" "bp_hits p1 = bp_hits p"
    "bp_misses p1 = bp_misses p + 1"
    "bp_queue p1 = fifo_insert (unat (bp_capacity p)) s (bp_queue p)"
    "step pread bs s (p, r, w) = bindR (on_access r p1 s) (\<lambda>(r', p'). Inr (p', r', w1))"
    using fifo_access_miss [OF wf m1 disk, of on_access bs r w] by blast
  obtain r1 where r1: "on_access r p1 s = Inr (r1, p1)" "rok r1" "wmax r1 = wmax r"
    "last_of r1 = Some s" "edge_of r1 = None"
    using jump [OF r, of p1] by blast
  have q1: "\<forall>x \<in> set (bp_queue p1). unat x < unat (s + 1)"
    using cold fifo_insert_subset [of _ s "bp_queue p"] s1 unfolding p1(5) by fastforce
  then have m2: "s + 1 \<notin> set (bp_queue p1)" by blast
  obtain p2 w2 where p2: "bp_wf p2" "bp_capacity p2 = bp_capacity p1" "bp_hits p2 = bp_hits p1"
    "bp_misses p2 = bp_misses p1 + 1"
    "bp_queue p2 = fifo_insert (unat (bp_capacity p1)) (s + 1) (bp_queue p1)"
    "step pread bs (s + 1) (p1, r1, w1) =
       bindR (on_access r1 p2 (s + 1)) (\<lambda>(r', p'). Inr (p', r', w2))"
    using fifo_access_miss [OF p1(1) m2 disk, of on_access bs r1 w1] by blast
  have q2: "\<forall>x \<in> set (bp_queue p2). unat x < unat (s + 1) + 1"
    using q1 fifo_insert_subset [of _ "s + 1" "bp_queue p1"] unfolding p2(5) by fastforce
  have "\<exists>r2 p3. on_access r1 p2 (s + 1) = Inr (r2, p3) \<and> streaming p3 r2 (s + 1 + 1) \<and>
      wmax r2 = wmax r1 \<and> bp_capacity p3 = bp_capacity p2 \<and> bp_hits p3 = bp_hits p2 \<and>
      bp_misses p3 = bp_misses p2"
    using p2(1,2) p1(2) r1 cap rng s1 q2 by (intro refill_streams) auto
  with p1 p2 r1 show ?thesis by auto
qed

text \<open>A sequential scan of at least two blocks: two misses, and every other access is a hit.\<close>

lemma sequential_scan:
  assumes "bp_wf p" and "rok r" and "last_of r \<noteq> Some (s - 1)" and "reads_succeed pread"
    and "wmax r \<le> unat (bp_capacity p)" and "unat s + n + wmax r < 2 ^ 64" and "2 \<le> n"
    and "\<forall>x \<in> set (bp_queue p). unat x < unat s"
  shows "\<exists>p' r' w'. foldR (step pread bs) (blocks_from s n) (p, r, w) = Inr (p', r', w') \<and>
    bp_wf p' \<and> bp_capacity p' = bp_capacity p \<and>
    bp_hits p' = bp_hits p + of_nat (n - 2) \<and> bp_misses p' = bp_misses p + 2"
proof -
  obtain m where n: "n = 2 + m" using assms(7) le_Suc_ex by blast
  have rng2: "unat s + 2 + wmax r < 2 ^ 64" using assms(6) n by simp
  have bl: "blocks_from s n = [s, s + 1] @ blocks_from (s + 1 + 1) m"
    by (simp add: n blocks_from_def upt_conv_Cons map_Suc_upt [symmetric] o_def algebra_simps
        del: map_Suc_upt upt_Suc)
  obtain p1 r1 w1 where p1: "foldR (step pread bs) [s, s + 1] (p, r, w) = Inr (p1, r1, w1)"
    "streaming p1 r1 (s + 1 + 1)" "wmax r1 = wmax r" "bp_capacity p1 = bp_capacity p"
    "bp_hits p1 = bp_hits p" "bp_misses p1 = bp_misses p + 2"
    using stream_start [OF assms(1-5) _ assms(8), of bs w] rng2 by blast
  have "unat (s + 1 + 1) = unat s + 2"
    using assms(6) n by (simp add: unat_plus_64)
  then obtain p2 r2 where "foldR (step pread bs) (blocks_from (s + 1 + 1) m) (p1, r1, w1) =
      Inr (p2, r2, w1)" "streaming p2 r2 (s + 1 + 1 + of_nat m)" "bp_capacity p2 = bp_capacity p1"
    "bp_hits p2 = bp_hits p1 + of_nat m" "bp_misses p2 = bp_misses p1"
    using stream_run [OF p1(2)] p1 assms(5,6) n by fastforce
  with p1 n show ?thesis
    unfolding bl foldR_append by (auto simp: streaming_def)
qed

end

end
