(* ===== verification/Readahead.thy ===== *)
theory Readahead
  imports SeqPrefetch
begin

text \<open>
  The fixed-window read-ahead policy of \<open>prefetch-sim/src/readahead.c\<close>. The C struct holds a
  pointer to the pool it prefetches into; the model passes that pool along and returns it, so a
  call is a function of the policy's record and the pool. Flags of type \<open>int\<close> are booleans.
\<close>

record Readahead =
  ra_window :: size_t
  ra_last_block :: size_t
  ra_have_last :: bool
  ra_edge :: size_t
  ra_have_edge :: bool

definition readahead_init :: "size_t \<Rightarrow> Readahead" where
  "readahead_init window =
     \<lparr>ra_window = window, ra_last_block = 0, ra_have_last = False, ra_edge = 0,
      ra_have_edge = False\<rparr>"

definition readahead_on_access ::
  "Readahead \<Rightarrow> BufferPool \<Rightarrow> size_t \<Rightarrow> (Readahead \<times> BufferPool) res" where
  "readahead_on_access ra pool block_num =
     (let sequential = (ra_have_last ra \<and> block_num = ra_last_block ra + 1) in
      bindR
        (if sequential \<and> ra_window ra > 0
         then if \<not> ra_have_edge ra
              then bindR (buffer_pool_prefetch_range pool (block_num + 1) (ra_window ra))
                     (\<lambda>pool'. Inr (ra\<lparr>ra_edge := block_num + 1 + ra_window ra,
                                     ra_have_edge := True\<rparr>, pool'))
              else if block_num + 1 = ra_edge ra
              then bindR (buffer_pool_prefetch_range pool (ra_edge ra) (ra_window ra))
                     (\<lambda>pool'. Inr (ra\<lparr>ra_edge := ra_edge ra + ra_window ra\<rparr>, pool'))
              else Inr (ra, pool)
         else Inr (ra\<lparr>ra_have_edge := False\<rparr>, pool))
        (\<lambda>(ra', pool'). Inr (ra'\<lparr>ra_last_block := block_num, ra_have_last := True\<rparr>, pool')))"

section \<open>The policy as a prefetcher\<close>

definition ra_last :: "Readahead \<Rightarrow> size_t option" where
  "ra_last ra = (if ra_have_last ra then Some (ra_last_block ra) else None)"

definition ra_edge_of :: "Readahead \<Rightarrow> size_t option" where
  "ra_edge_of ra = (if ra_have_edge ra then Some (ra_edge ra) else None)"

definition ra_ok :: "Readahead \<Rightarrow> bool" where
  "ra_ok ra \<longleftrightarrow> 0 < ra_window ra"

lemmas ra_view_defs = ra_last_def ra_edge_of_def ra_ok_def

lemma ra_sequential_iff:
  "ra_last ra = Some (b - 1) \<longleftrightarrow> ra_have_last ra \<and> b = ra_last_block ra + 1"
  by (auto simp: ra_last_def)

lemma ra_not_sequential:
  assumes "ra_last ra \<noteq> Some (b - 1)"
  shows "readahead_on_access ra pool b =
    Inr (ra\<lparr>ra_have_edge := False, ra_last_block := b, ra_have_last := True\<rparr>, pool)"
proof -
  have "\<not> (ra_have_last ra \<and> b = ra_last_block ra + 1)"
    using assms by (simp add: ra_sequential_iff)
  then show ?thesis unfolding readahead_on_access_def Let_def by (simp only: if_False simp_thms) simp
qed

lemma ra_disabled:
  "ra_window ra = 0 \<Longrightarrow> readahead_on_access ra pool b =
    Inr (ra\<lparr>ra_have_edge := False, ra_last_block := b, ra_have_last := True\<rparr>, pool)"
  by (simp add: readahead_on_access_def)

lemma ra_refill:
  assumes "ra_last ra = Some (b - 1)" and "0 < ra_window ra"
    and "ra_edge_of ra = None \<or> ra_edge_of ra = Some (b + 1)"
  shows "readahead_on_access ra pool b =
    bindR (buffer_pool_prefetch_range pool (b + 1) (ra_window ra))
      (\<lambda>pool'. Inr (ra\<lparr>ra_edge := b + 1 + ra_window ra, ra_have_edge := True,
                      ra_last_block := b, ra_have_last := True\<rparr>, pool'))"
proof (cases "ra_have_edge ra")
  case True
  have eq: "ra\<lparr>ra_edge := e, ra_have_edge := True, ra_last_block := l, ra_have_last := True\<rparr> =
      ra\<lparr>ra_edge := e, ra_last_block := l, ra_have_last := True\<rparr>" for e l
    using True by (cases ra) simp
  from True assms have "ra_edge ra = b + 1" by (simp add: ra_edge_of_def)
  then have "readahead_on_access ra pool b =
      bindR (buffer_pool_prefetch_range pool (b + 1) (ra_window ra))
        (\<lambda>pool'. Inr (ra\<lparr>ra_edge := b + 1 + ra_window ra, ra_last_block := b,
                        ra_have_last := True\<rparr>, pool'))"
    using assms(1,2) True
    by (simp add: readahead_on_access_def ra_sequential_iff bindR_assoc algebra_simps)
  then show ?thesis by (simp only: eq)
next
  case False
  with assms(1,2) show ?thesis
    by (simp add: readahead_on_access_def ra_sequential_iff bindR_assoc)
qed

interpretation ra: sequential_prefetcher readahead_on_access ra_last ra_edge_of
  "\<lambda>ra. unat (ra_window ra)" ra_ok
proof
  fix ra p b
  assume "ra_ok ra" "ra_last ra \<noteq> Some (b - 1)"
  then show "\<exists>ra'. readahead_on_access ra p b = Inr (ra', p) \<and> ra_ok ra' \<and>
      unat (ra_window ra') = unat (ra_window ra) \<and> ra_last ra' = Some b \<and> ra_edge_of ra' = None"
    using ra_not_sequential [of ra b p] by (simp add: ra_view_defs)
next
  fix ra p b
  assume "ra_ok ra" "ra_last ra = Some (b - 1)" "ra_edge_of ra = None \<or> ra_edge_of ra = Some (b + 1)"
  then show "\<exists>w ra'. 0 < unat w \<and> unat w \<le> unat (ra_window ra) \<and> ra_ok ra' \<and>
      unat (ra_window ra') = unat (ra_window ra) \<and>
      readahead_on_access ra p b =
        bindR (buffer_pool_prefetch_range p (b + 1) w) (\<lambda>p'. Inr (ra', p')) \<and>
      ra_last ra' = Some b \<and> ra_edge_of ra' = Some (b + 1 + w)"
    using ra_refill [of ra b p]
    by (intro exI [of _ "ra_window ra"] exI [of _ "ra\<lparr>ra_edge := b + 1 + ra_window ra,
          ra_have_edge := True, ra_last_block := b, ra_have_last := True\<rparr>"])
      (simp add: ra_view_defs unat_gt_0 word_gt_0)
next
  fix ra p b e
  assume "ra_ok ra" "ra_last ra = Some (b - 1)" "ra_edge_of ra = Some e" "e \<noteq> b + 1"
  then show "\<exists>ra'. readahead_on_access ra p b = Inr (ra', p) \<and> ra_ok ra' \<and>
      unat (ra_window ra') = unat (ra_window ra) \<and> ra_last ra' = Some b \<and> ra_edge_of ra' = Some e"
    by (auto simp: readahead_on_access_def ra_view_defs add.commute [of 1] split: if_splits)
qed

section \<open>The policy as a driver\<close>

text \<open>Whatever its state, a call keeps the pool well formed and the statistics unchanged.\<close>

lemma ra_on_access_safe:
  assumes "bp_wf p"
  shows "\<exists>ra' p'. readahead_on_access ra p b = Inr (ra', p') \<and> bp_wf p' \<and>
    unat (bp_capacity p') = unat (bp_capacity p) \<and>
    bp_hits p' = bp_hits p \<and> bp_misses p' = bp_misses p"
proof -
  note pf = fifo.prefetch_loop [OF assms, folded buffer_pool_prefetch_range_def]
  consider (jump) "ra_last ra \<noteq> Some (b - 1) \<or> ra_window ra = 0"
    | (refill) "ra_last ra = Some (b - 1)" "0 < ra_window ra"
        "ra_edge_of ra = None \<or> ra_edge_of ra = Some (b + 1)"
    | (inside) e where "ra_last ra = Some (b - 1)" "0 < ra_window ra"
        "ra_edge_of ra = Some e" "e \<noteq> b + 1"
    by (cases "ra_edge_of ra") (auto simp: word_gt_0)
  then show ?thesis
  proof cases
    case jump
    then show ?thesis using assms ra_not_sequential [of ra b p] ra_disabled [of ra p b] by auto
  next
    case refill
    then show ?thesis using pf [of "b + 1" "ra_window ra"] ra_refill [OF refill] by auto
  next
    case inside
    then show ?thesis using ra.inside [of ra b e p] assms by (auto simp: ra_ok_def)
  qed
qed

interpretation ra_driver: prefetch_driver buffer_pool_lookup buffer_pool_insert bp_queue
  "\<lambda>p. unat (bp_capacity p)" bp_hits bp_misses bp_wf readahead_on_access
  by unfold_locales (rule ra_on_access_safe)

section \<open>Properties\<close>

text \<open>
  A sequential stream costs two misses. With a window between 1 and the capacity, scanning
  \<open>n \<ge> 2\<close> blocks upwards from a jump, past everything cached, misses on the first two
  accesses (which establish that the stream is sequential) and hits on all others.
\<close>

theorem readahead_sequential_scan:
  assumes "bp_wf p" and "0 < ra_window ra" and "ra_window ra \<le> bp_capacity p"
    and "\<not> (ra_have_last ra \<and> s = ra_last_block ra + 1)" and "reads_succeed pread"
    and "unat s + n + unat (ra_window ra) < 2 ^ 64" and "2 \<le> n"
    and "\<forall>x \<in> set (bp_queue p). x < s"
  shows "\<exists>p' ra' w'. foldR (access_step buffer_pool_lookup buffer_pool_insert readahead_on_access
      pread bs) (blocks_from s n) (p, ra, w) = Inr (p', ra', w') \<and> bp_wf p' \<and>
    bp_hits p' = bp_hits p + of_nat (n - 2) \<and> bp_misses p' = bp_misses p + 2"
  using ra.sequential_scan [OF assms(1) _ _ assms(5) _ assms(6,7), of bs w] assms(2-4,8)
  by (auto simp: ra_ok_def ra_sequential_iff word_le_nat_alt word_less_nat_alt)

text \<open>
  Whatever the state of the policy, on every access the fixed-window read-ahead is safe: no
  fault, the pool stays well formed, the statistics are those of the accesses alone, and so a run
  over any trace counts every access once.
\<close>

theorem readahead_trace_counts:
  assumes "bp_wf p" and "reads_succeed pread"
  shows "\<exists>p' r' w'. foldR (access_step buffer_pool_lookup buffer_pool_insert readahead_on_access
      pread bs) bl (p, r, w) = Inr (p', r', w') \<and> bp_wf p' \<and>
    bp_hits p' + bp_misses p' = bp_hits p + bp_misses p + of_nat (length bl)"
  using ra_driver.access_trace_counts [OF assms, of bs bl r w] by blast

section \<open>Concrete runs\<close>

lemma pread_ok: "reads_succeed (\<lambda>w off. (0, w))"
  by (simp add: reads_succeed_def)

theorem readahead_sequential_scan_witness:
  "\<exists>p' ra' w'. foldR (access_step buffer_pool_lookup buffer_pool_insert readahead_on_access
      (\<lambda>w off. (0, w)) 8) (blocks_from 20 5) (sample_pool, readahead_init 2, ()) = Inr (p', ra', w') \<and>
    bp_wf p' \<and> bp_hits p' = bp_hits sample_pool + of_nat (5 - 2) \<and> bp_misses p' = bp_misses sample_pool + 2"
proof (rule readahead_sequential_scan [OF sample_pool_wf])
  show "\<forall>x \<in> set (bp_queue sample_pool). x < 20"
    by (simp only: sample_pool_queue) simp
qed (simp_all add: sample_pool_def readahead_init_def reads_succeed_def)

theorem readahead_trace_counts_witness:
  "\<exists>p' r' w'. foldR (access_step buffer_pool_lookup buffer_pool_insert readahead_on_access
      (\<lambda>w off. (0, w)) 8) [3, 4, 9] (sample_pool, readahead_init 2, ()) = Inr (p', r', w') \<and> bp_wf p' \<and>
    bp_hits p' + bp_misses p' = bp_hits sample_pool + bp_misses sample_pool + of_nat (length [3, 4, 9 :: size_t])"
  by (rule readahead_trace_counts [OF sample_pool_wf pread_ok])

end
