(* ===== verification/Simulator.thy ===== *)
theory Simulator
  imports WorkloadGen Readahead
begin

text \<open>
  The program \<open>prefetch-sim/src/main.c\<close>: preparation of the test file, argument checks and
  the repeated, measured run. The operating system and the C library's \<open>rand\<close> are a record
  of functions on a world of type \<open>'w\<close>; \<open>malloc\<close> answers per call site. A call of the
  program is \<open>None\<close> when the loop that writes the test file never ends, and otherwise a fault
  or the exit code with the hit and miss counts of each repeat. Timer readings, the floating-point
  statistics derived from the counts, \<open>free\<close>, \<open>close\<close> and the text printed are not
  part of the result.
\<close>

section \<open>The operating system\<close>

datatype alloc_site =
  Write_buffer | Trace_array | Elapsed_samples | Hit_rate_samples
| Adaptive_elapsed | Adaptive_hit_rate
| Candidates size_t | Pool_slots size_t | Pool_stamps size_t | Adaptive_slots size_t

record 'w os =
  os_malloc :: "alloc_site \<Rightarrow> size_t \<Rightarrow> size_t list option"
  os_open_write :: "string \<Rightarrow> 'w \<Rightarrow> int \<times> 'w"
  os_open_read :: "bool \<Rightarrow> string \<Rightarrow> 'w \<Rightarrow> int \<times> 'w"
  os_fstat :: "int \<Rightarrow> 'w \<Rightarrow> size_t option"
  os_write :: "int \<Rightarrow> size_t \<Rightarrow> 'w \<Rightarrow> int \<times> 'w"
  os_fsync :: "int \<Rightarrow> 'w \<Rightarrow> 'w"
  os_memalign :: "size_t \<Rightarrow> size_t \<Rightarrow> 'w \<Rightarrow> int"
  os_pread :: "int \<Rightarrow> size_t \<Rightarrow> 'w \<Rightarrow> size_t \<Rightarrow> int \<times> 'w"
  os_rand :: "'w \<Rightarrow> int \<times> 'w"
  os_srand_now :: "'w \<Rightarrow> 'w"

definition ALIGNMENT :: size_t where "ALIGNMENT = 4096"

section \<open>Decimal arguments\<close>

text \<open>
  \<open>strtoull(s, NULL, 10)\<close>: white space, an optional sign, the longest run of digits; the
  largest value on overflow, and the negation modulo \<open>2^64\<close> after a minus sign.
\<close>

definition isspace :: "char \<Rightarrow> bool" where
  "isspace c \<longleftrightarrow> of_char c \<in> {32 :: nat, 9, 10, 11, 12, 13}"

definition isdigit :: "char \<Rightarrow> bool" where
  "isdigit c \<longleftrightarrow> 48 \<le> (of_char c :: nat) \<and> (of_char c :: nat) \<le> 57"

definition digits_value :: "string \<Rightarrow> nat" where
  "digits_value s = foldl (\<lambda>v c. v * 10 + (of_char c - 48)) 0 (takeWhile isdigit s)"

definition saturate :: "nat \<Rightarrow> size_t" where
  "saturate v = (if v < 2 ^ 64 then of_nat v else - 1)"

definition strtoull :: "string \<Rightarrow> size_t" where
  "strtoull s =
     (case dropWhile isspace s of
        [] \<Rightarrow> 0
      | c # cs \<Rightarrow>
          if c = CHR ''-'' then (if digits_value cs < 2 ^ 64 then - of_nat (digits_value cs) else - 1)
          else if c = CHR ''+'' then saturate (digits_value cs)
          else saturate (digits_value (c # cs)))"

section \<open>Preparing the test file\<close>

text \<open>The loop of \<open>write\<close> calls; the result is the return code, before \<open>fsync\<close>.\<close>

partial_function (option) write_loop ::
  "(size_t \<Rightarrow> 'w \<Rightarrow> int \<times> 'w) \<Rightarrow> size_t \<Rightarrow> size_t \<Rightarrow> 'w \<Rightarrow> (int \<times> 'w) option" where
  "write_loop wr file_size written w =
     (if written < file_size
      then let chunk = (if file_size - written < ALIGNMENT then file_size - written else ALIGNMENT)
           in (if fst (wr chunk w) \<le> 0 then Some (- 1, snd (wr chunk w))
               else write_loop wr file_size (written + word_of_int (fst (wr chunk w)))
                      (snd (wr chunk w)))
      else Some (0, w))"

definition prepare_test_file :: "'w os \<Rightarrow> string \<Rightarrow> size_t \<Rightarrow> 'w \<Rightarrow> (int \<times> 'w) option" where
  "prepare_test_file os path file_size w =
     (case os_open_write os path w of (fd, w1) \<Rightarrow>
       if fd < 0 then Some (- 1, w1)
       else if os_fstat os fd w1 = Some file_size then Some (0, w1)
       else case os_malloc os Write_buffer ALIGNMENT of
              None \<Rightarrow> Some (- 1, w1)
            | Some buf \<Rightarrow>
                (case write_loop (os_write os fd) file_size 0 w1 of
                   None \<Rightarrow> None
                 | Some (rc, w2) \<Rightarrow> if rc \<noteq> 0 then Some (rc, w2) else Some (0, os_fsync os fd w2)))"

section \<open>The measured run\<close>

definition offset_loop ::
  "('w \<Rightarrow> size_t \<Rightarrow> int \<times> 'w) \<Rightarrow> size_t \<Rightarrow> size_t list \<Rightarrow> size_t \<Rightarrow>
   BufferPool \<times> Readahead \<times> 'w \<Rightarrow> (BufferPool \<times> Readahead \<times> 'w) res" where
  "offset_loop pread block_size offsets num_blocks =
     for_c (\<lambda>i st. bindR (arr_get offsets i) (\<lambda>off. bindR (div_c off block_size) (\<lambda>block_num.
              access_step buffer_pool_lookup buffer_pool_insert readahead_on_access
                pread block_size block_num st)))
       num_blocks 0"

text \<open>
  The state of the loop over the repeats: the generator's \<open>seeded\<close> flag, the world, the array
  of offsets and the two sample arrays; an element of the second is the pair of hits and misses.
\<close>

type_synonym 'w sim_state =
  "bool \<times> 'w \<times> size_t list \<times> unit list \<times> (size_t \<times> size_t) option list"

definition sim_repeat ::
  "'w os \<Rightarrow> int \<Rightarrow> AccessPattern \<Rightarrow> size_t \<Rightarrow> size_t \<Rightarrow> size_t \<Rightarrow> size_t \<Rightarrow> size_t \<Rightarrow>
   size_t \<Rightarrow> 'w sim_state \<Rightarrow> 'w sim_state res" where
  "sim_repeat os fd pattern file_size block_size num_blocks capacity_blocks window r =
     (\<lambda>(seeded, w, offsets, elapsed, samples).
     bindR (generate_offsets (os_rand os) (os_srand_now os) (os_malloc os (Candidates r))
              pattern file_size block_size num_blocks (Some offsets) (seeded, w))
       (\<lambda>(rc, out, seeded1, w1).
     if rc \<noteq> WORKLOAD_OK then Inl Workload_failed
     else let offsets1 = (case out of Some o' \<Rightarrow> o' | None \<Rightarrow> offsets) in
     bindR (buffer_pool_init (os_malloc os (Pool_slots r)) capacity_blocks block_size) (\<lambda>pool.
     bindR (offset_loop (os_pread os fd block_size) block_size offsets1 num_blocks
              (pool, readahead_init window, w1)) (\<lambda>(pool1, ra1, w2).
     bindR (arr_set elapsed r ()) (\<lambda>elapsed1.
     bindR (arr_set samples r (Some (buffer_pool_hits pool1, buffer_pool_misses pool1)))
       (\<lambda>samples1. Inr (seeded1, w2, offsets1, elapsed1, samples1)))))))"

text \<open>From the parsed arguments on. A failed run (\<open>return 1\<close>) has no samples.\<close>

type_synonym outcome = "(nat \<times> (size_t \<times> size_t) option list) res"

definition finish_run :: "'w sim_state res \<Rightarrow> outcome" where
  "finish_run res =
     (case res of
        Inr (seeded, w, offsets, elapsed, samples) \<Rightarrow> Inr (0, samples)
      | Inl Pread_failed \<Rightarrow> Inr (1, [])
      | Inl Workload_failed \<Rightarrow> Inr (1, [])
      | Inl e \<Rightarrow> Inl e)"

definition sim_run ::
  "'w os \<Rightarrow> string \<Rightarrow> size_t \<Rightarrow> size_t \<Rightarrow> AccessPattern \<Rightarrow> size_t \<Rightarrow> size_t \<Rightarrow> size_t \<Rightarrow>
   'w \<Rightarrow> outcome" where
  "sim_run os file_path file_size block_size pattern capacity_blocks window repeats w =
     bindR (div_c file_size block_size) (\<lambda>num_blocks.
     case os_malloc os Trace_array (num_blocks * 8) of
       None \<Rightarrow> Inr (1, [])
     | Some offsets \<Rightarrow>
     (case os_open_read os True file_path w of (fd, w1) \<Rightarrow>
       if fd < 0 then Inr (1, [])
       else if os_memalign os ALIGNMENT block_size w1 \<noteq> 0 then Inr (1, [])
       else case (os_malloc os Elapsed_samples (repeats * 8),
                  os_malloc os Hit_rate_samples (repeats * 8)) of
              (Some elapsed, Some hit_rate) \<Rightarrow>
                finish_run
                  (for_c (sim_repeat os fd pattern file_size block_size num_blocks
                            capacity_blocks window)
                     repeats 0
                     (False, w1, offsets, replicate (length elapsed) (),
                      replicate (length hit_rate) None))
            | _ \<Rightarrow> Inr (1, [])))"

definition sim_main :: "'w os \<Rightarrow> string list \<Rightarrow> 'w \<Rightarrow> outcome option" where
  "sim_main os argv w =
     (if length argv \<noteq> 8 then Some (Inr (1, []))
      else let file_path = argv ! 1;
               file_size = strtoull (argv ! 2);
               block_size = strtoull (argv ! 3);
               pattern_str = argv ! 4;
               capacity_blocks = strtoull (argv ! 5);
               window = strtoull (argv ! 6);
               repeats = strtoull (argv ! 7)
      in if repeats = 0 then Some (Inr (1, []))
         else if capacity_blocks = 0 \<or> capacity_blocks < window then Some (Inr (1, []))
         else if pattern_str \<noteq> ''sequential'' \<and> pattern_str \<noteq> ''random'' then Some (Inr (1, []))
         else case prepare_test_file os file_path file_size w of
                None \<Rightarrow> None
              | Some (rc, w1) \<Rightarrow>
                  Some (if rc \<noteq> 0 then Inr (1, [])
                        else sim_run os file_path file_size block_size
                               (if pattern_str = ''sequential'' then PATTERN_SEQUENTIAL
                                else PATTERN_RANDOM)
                               capacity_blocks window repeats w1))"

section \<open>The test file\<close>

text \<open>What POSIX says of \<open>write\<close>: it never reports more bytes than it was asked to write.\<close>

definition write_spec :: "(size_t \<Rightarrow> 'w \<Rightarrow> int \<times> 'w) \<Rightarrow> bool" where
  "write_spec wr \<longleftrightarrow> (\<forall>chunk w. fst (wr chunk w) \<le> uint chunk)"

lemma write_progress:
  fixes n :: int and file_size written chunk :: size_t
  assumes "written < file_size" and "chunk \<le> file_size - written" and "0 < n" and "n \<le> uint chunk"
  shows "unat (file_size - (written + word_of_int n)) < unat (file_size - written)"
proof -
  have lt: "uint written < uint file_size" using assms(1) by (simp add: word_less_def)
  have d: "uint (file_size - written) = uint file_size - uint written"
    using assms(1) by (simp add: uint_sub_if' word_less_def)
  have n: "n \<le> uint file_size - uint written"
    using assms(2,4) d by (simp add: word_le_def)
  have fs: "uint file_size < 2 ^ 64" using uint_lt2p [of file_size] by simp
  have "n < 2 ^ 64" using n fs uint_ge_0 [of written] by linarith
  then have wn: "uint (word_of_int n :: size_t) = n"
    using assms(3) by (simp add: uint_word_of_int)
  have s: "uint (written + word_of_int n) = uint written + n"
    using n fs by (simp add: uint_add_lem [THEN iffD1] wn)
  then have "uint (file_size - (written + word_of_int n)) = uint file_size - (uint written + n)"
    using n by (simp add: uint_sub_if')
  then show ?thesis
    using d assms(3) by (simp add: unat_eq_nat_uint) (use n lt in linarith)
qed

lemma write_loop_returns:
  assumes "write_spec wr"
  shows "\<exists>rc w'. write_loop wr file_size written w = Some (rc, w') \<and> (rc = 0 \<or> rc = - 1)"
proof (induction "unat (file_size - written)" arbitrary: written w rule: less_induct)
  case less
  define chunk where "chunk = (if file_size - written < ALIGNMENT then file_size - written else ALIGNMENT)"
  show ?case
  proof (cases "written < file_size \<and> 0 < fst (wr chunk w)")
    case True
    have "chunk \<le> file_size - written" by (auto simp: chunk_def)
    moreover have "fst (wr chunk w) \<le> uint chunk" using assms by (simp add: write_spec_def)
    ultimately have "unat (file_size - (written + word_of_int (fst (wr chunk w)))) <
        unat (file_size - written)"
      using True by (intro write_progress) auto
    from less [OF this, of "snd (wr chunk w)"] True show ?thesis
      by (simp add: write_loop.simps [of wr file_size written w] chunk_def [symmetric] Let_def)
  next
    case False
    then show ?thesis
      by (auto simp: write_loop.simps [of wr file_size written w] chunk_def [symmetric] Let_def)
  qed
qed

lemma write_loop_writes:
  assumes "write_spec wr" and "\<forall>chunk w. chunk \<noteq> 0 \<longrightarrow> 0 < fst (wr chunk w)"
  shows "\<exists>w'. write_loop wr file_size written w = Some (0, w')"
proof (induction "unat (file_size - written)" arbitrary: written w rule: less_induct)
  case less
  define chunk where "chunk = (if file_size - written < ALIGNMENT then file_size - written else ALIGNMENT)"
  show ?case
  proof (cases "written < file_size")
    case True
    then have "chunk \<noteq> 0" by (auto simp: chunk_def ALIGNMENT_def)
    then have pos: "0 < fst (wr chunk w)" using assms(2) by simp
    have "chunk \<le> file_size - written" by (auto simp: chunk_def)
    moreover have "fst (wr chunk w) \<le> uint chunk" using assms(1) by (simp add: write_spec_def)
    ultimately have "unat (file_size - (written + word_of_int (fst (wr chunk w)))) <
        unat (file_size - written)"
      using True pos by (intro write_progress) auto
    from less [OF this, of "snd (wr chunk w)"] True pos show ?thesis
      by (simp add: write_loop.simps [of wr file_size written w] chunk_def [symmetric] Let_def)
  next
    case False
    then show ?thesis by (simp add: write_loop.simps [of wr file_size written w])
  qed
qed

section \<open>Runs that succeed\<close>

text \<open>
  What the program needs of its environment: memory is available at every call site, the files
  open, writes make progress and reads succeed.
\<close>

definition os_ok :: "'w os \<Rightarrow> bool" where
  "os_ok os \<longleftrightarrow>
     (\<forall>site. malloc_spec (os_malloc os site)) \<and> (\<forall>site n. os_malloc os site n \<noteq> None) \<and>
     (\<forall>path w. 0 \<le> fst (os_open_write os path w)) \<and>
     (\<forall>direct path w. 0 \<le> fst (os_open_read os direct path w)) \<and>
     (\<forall>fd. write_spec (os_write os fd) \<and>
           (\<forall>chunk w. chunk \<noteq> 0 \<longrightarrow> 0 < fst (os_write os fd chunk w))) \<and>
     (\<forall>align n w. os_memalign os align n w = 0) \<and>
     (\<forall>fd n. reads_succeed (os_pread os fd n))"

lemma os_okD:
  assumes "os_ok os"
  shows "malloc_spec (os_malloc os site)" and "os_malloc os site n \<noteq> None"
    and "0 \<le> fst (os_open_write os path w)" and "0 \<le> fst (os_open_read os direct path w)"
    and "write_spec (os_write os fd)"
    and "\<forall>chunk w. chunk \<noteq> 0 \<longrightarrow> 0 < fst (os_write os fd chunk w)"
    and "os_memalign os align n w = 0" and "reads_succeed (os_pread os fd n)"
  using assms by (auto simp: os_ok_def)

lemma os_malloc_array:
  assumes "os_ok os" and "unat n * 8 < 2 ^ 64"
  shows "\<exists>xs. os_malloc os site (n * 8) = Some xs \<and> length xs = unat n"
proof -
  obtain xs where "os_malloc os site (n * 8) = Some xs" using os_okD(2) [OF assms(1)] by fastforce
  moreover have "unat (n * 8) = unat n * 8" using assms(2) by (simp add: unat_mult_64)
  ultimately show ?thesis
    using os_okD(1) [OF assms(1), of site] unfolding malloc_spec_def by fastforce
qed

lemma prepare_ok:
  assumes "os_ok os"
  shows "\<exists>w'. prepare_test_file os path file_size w = Some (0, w')"
proof -
  obtain fd w1 where fd: "os_open_write os path w = (fd, w1)" by fastforce
  have "\<not> fd < 0" using os_okD(3) [OF assms, of path w] fd by simp
  moreover obtain buf where "os_malloc os Write_buffer ALIGNMENT = Some buf"
    using os_okD(2) [OF assms, of Write_buffer ALIGNMENT] by fastforce
  moreover obtain w2 where "write_loop (os_write os fd) file_size 0 w1 = Some (0, w2)"
    using write_loop_writes [OF os_okD(5,6) [OF assms], of fd file_size 0 w1] by blast
  ultimately show ?thesis using fd by (simp add: prepare_test_file_def)
qed

lemma offset_loop_foldR:
  assumes "unat n \<le> length offsets" and "block_size \<noteq> 0"
  shows "offset_loop pread block_size offsets n st =
    foldR (access_step buffer_pool_lookup buffer_pool_insert readahead_on_access pread block_size)
      (map (\<lambda>off. off div block_size) (take (unat n) offsets)) st"
proof -
  let ?blocks = "map (\<lambda>off. off div block_size) offsets"
  have "offset_loop pread block_size offsets n st =
      access_loop buffer_pool_lookup buffer_pool_insert readahead_on_access pread block_size
        ?blocks n st"
    unfolding offset_loop_def access_loop_def
    using assms by (auto simp: arr_get_def div_c_def intro!: arg_cong [of _ _ "\<lambda>f. for_c f n 0 st"])
  then show ?thesis
    using assms(1) by (simp add: access_loop_foldR take_map)
qed

definition empty_pool :: "size_t \<Rightarrow> size_t \<Rightarrow> size_t list \<Rightarrow> BufferPool" where
  "empty_pool capacity block_size arr =
     \<lparr>bp_capacity = capacity, bp_block_size = block_size, bp_slots = arr,
      bp_count = 0, bp_evict_pos = 0, bp_hits = 0, bp_misses = 0\<rparr>"

lemma empty_pool_wf:
  assumes "capacity \<noteq> 0" and "length arr = unat capacity"
  shows "bp_wf (empty_pool capacity block_size arr)"
    and "bp_queue (empty_pool capacity block_size arr) = []"
  using assms by (auto simp: bp_wf_def empty_pool_def bp_contents_def bp_queue_def word_gt_0)

text \<open>One repeat, given that every trace the generator can produce satisfies \<open>Q\<close>.\<close>

lemma sim_repeat_ok:
  fixes os :: "'w os"
  assumes os: "os_ok os" and bs: "block_size \<noteq> 0" and num: "num = file_size div block_size"
    and fit: "unat num * 8 < 2 ^ 64" "unat capacity * 8 < 2 ^ 64"
    and runs: "\<And>c arr w. mset c = mset (block_indices num) \<Longrightarrow> length arr = unat capacity \<Longrightarrow>
      \<exists>p' ra' w' :: 'w. foldR (access_step buffer_pool_lookup buffer_pool_insert readahead_on_access
          (os_pread os fd block_size) block_size) (chosen pattern num c)
          (empty_pool capacity block_size arr, readahead_init window, w) = Inr (p', ra', w') \<and>
        Q (bp_hits p') (bp_misses p')"
    and offs: "length offsets = unat num" and r: "unat r < length elapsed" "unat r < length samples"
  shows "\<exists>w' off' h m. sim_repeat os fd pattern file_size block_size num capacity window r
      (seeded, w, offsets, elapsed, samples) =
      Inr (True, w', off', elapsed, samples[unat r := Some (h, m)]) \<and>
    length off' = unat num \<and> Q h m"
proof -
  obtain cand where cand: "os_malloc os (Candidates r) (num * 8) = Some cand"
    using os_malloc_array [OF os fit(1)] by blast
  obtain c w1 where c: "mset c = mset (block_indices num)" and
    gen: "generate_offsets (os_rand os) (os_srand_now os) (os_malloc os (Candidates r)) pattern
        file_size block_size num (Some offsets) (seeded, w) =
      Inr (WORKLOAD_OK, Some (map (\<lambda>b. b * block_size) (chosen pattern num c)), True, w1)"
    using generate_offsets_run [OF os_okD(1) [OF os], of "Candidates r" file_size block_size cand num
        offsets "os_rand os" "os_srand_now os" pattern seeded w] cand fit bs offs
    by (auto simp: num)
  obtain arr where arr: "os_malloc os (Pool_slots r) (capacity * 8) = Some arr"
      "length arr = unat capacity"
    using os_malloc_array [OF os fit(2)] by blast
  note ch = chosen_ok [OF c order_refl, of pattern]
  have idx: "map (\<lambda>off. off div block_size) (map (\<lambda>b. b * block_size) (chosen pattern num c)) =
      chosen pattern num c"
    using ch(3) offset_unat(3) by (fastforce simp: num o_def intro: map_idI)
  obtain p' ra' w' where run: "foldR (access_step buffer_pool_lookup buffer_pool_insert
      readahead_on_access (os_pread os fd block_size) block_size) (chosen pattern num c)
      (empty_pool capacity block_size arr, readahead_init window, w1) = Inr (p', ra', w')"
    "Q (bp_hits p') (bp_misses p')"
    using runs [OF c arr(2), of w1] by blast
  have "offset_loop (os_pread os fd block_size) block_size
      (map (\<lambda>b. b * block_size) (chosen pattern num c)) num
      (empty_pool capacity block_size arr, readahead_init window, w1) = Inr (p', ra', w')"
    using run(1) ch(1) bs idx by (simp add: offset_loop_foldR)
  moreover have "elapsed[unat r := ()] = elapsed" by (metis list_update_id old.unit.exhaust)
  ultimately show ?thesis
    using gen arr(1) r ch(1) run(2)
    by (auto simp: sim_repeat_def buffer_pool_init_def empty_pool_def [symmetric] arr_set_def
        buffer_pool_hits_def buffer_pool_misses_def)
qed

text \<open>All repeats: the program exits with 0 and every sample satisfies \<open>Q\<close>.\<close>

lemma sim_run_ok:
  fixes os :: "'w os"
  assumes os: "os_ok os" and bs: "block_size \<noteq> 0" and num: "num = file_size div block_size"
    and fit: "unat num * 8 < 2 ^ 64" "unat capacity * 8 < 2 ^ 64" "unat repeats * 8 < 2 ^ 64"
    and runs: "\<And>fd c arr w. mset c = mset (block_indices num) \<Longrightarrow> length arr = unat capacity \<Longrightarrow>
      \<exists>p' ra' w' :: 'w. foldR (access_step buffer_pool_lookup buffer_pool_insert readahead_on_access
          (os_pread os fd block_size) block_size) (chosen pattern num c)
          (empty_pool capacity block_size arr, readahead_init window, w) = Inr (p', ra', w') \<and>
        Q (bp_hits p') (bp_misses p')"
  shows "\<exists>samples. sim_run os path file_size block_size pattern capacity window repeats w =
      Inr (0, samples) \<and> length samples = unat repeats \<and>
    (\<forall>s \<in> set samples. \<exists>h m. s = Some (h, m) \<and> Q h m)"
proof -
  obtain offsets elapsed rates where mal:
    "os_malloc os Trace_array (num * 8) = Some offsets" "length offsets = unat num"
    "os_malloc os Elapsed_samples (repeats * 8) = Some elapsed" "length elapsed = unat repeats"
    "os_malloc os Hit_rate_samples (repeats * 8) = Some rates" "length rates = unat repeats"
    using os_malloc_array [OF os fit(1)] os_malloc_array [OF os fit(3)] by metis
  obtain fd w1 where fd: "os_open_read os True path w = (fd, w1)" by fastforce
  then have fd0: "\<not> fd < 0" using os_okD(4) [OF os, of True path w] by simp
  let ?P = "\<lambda>k (sd :: bool, w :: 'w, off, el :: unit list, sm).
    length off = unat num \<and> length el = unat repeats \<and> length sm = unat repeats \<and>
    (\<forall>j < k. \<exists>h m. sm ! j = Some (h, m) \<and> Q h m)"
  have "\<exists>st. for_c (sim_repeat os fd pattern file_size block_size num capacity window) repeats 0
      (False, w1, offsets, replicate (length elapsed) (), replicate (length rates) None) = Inr st \<and>
    ?P (unat repeats) st"
  proof (rule for_c_invariant [where P = ?P])
    fix i :: size_t and st :: "'w sim_state"
    assume i: "i < repeats" and P: "?P (unat i) st"
    obtain sd w off el sm where st: "st = (sd, w, off, el, sm)" by (cases st)
    have "unat i < unat repeats" using i by (simp add: word_less_nat_alt)
    then have "\<exists>w' off' h m. sim_repeat os fd pattern file_size block_size num capacity window i
        (sd, w, off, el, sm) = Inr (True, w', off', el, sm[unat i := Some (h, m)]) \<and>
      length off' = unat num \<and> Q h m"
      using P st by (intro sim_repeat_ok [OF os bs num fit(1,2) runs]) auto
    then obtain w' off' h m where
      "sim_repeat os fd pattern file_size block_size num capacity window i st =
        Inr (True, w', off', el, sm[unat i := Some (h, m)])" "length off' = unat num" "Q h m"
      using st by blast
    with P st \<open>unat i < unat repeats\<close>
    show "\<exists>st'. sim_repeat os fd pattern file_size block_size num capacity window i st = Inr st' \<and>
        ?P (Suc (unat i)) st'"
      by (auto simp: less_Suc_eq nth_list_update)
  qed (simp add: mal)
  then obtain sd w2 off el sm where
    "for_c (sim_repeat os fd pattern file_size block_size num capacity window) repeats 0
      (False, w1, offsets, replicate (length elapsed) (), replicate (length rates) None) =
      Inr (sd, w2, off, el, sm)"
    "length sm = unat repeats" "\<forall>j < unat repeats. \<exists>h m. sm ! j = Some (h, m) \<and> Q h m"
    by auto
  then show ?thesis
    using bs mal fd fd0 os_okD(7) [OF os]
    by (auto simp: sim_run_def div_c_def num [symmetric] finish_run_def in_set_conv_nth)
qed

lemma sim_main_run:
  assumes "os_ok os" and "length argv = 8" and "strtoull (argv ! 7) \<noteq> 0"
    and "strtoull (argv ! 5) \<noteq> 0" and "strtoull (argv ! 6) \<le> strtoull (argv ! 5)"
    and "argv ! 4 = ''sequential'' \<or> argv ! 4 = ''random''"
  shows "\<exists>w1. sim_main os argv w = Some (sim_run os (argv ! 1) (strtoull (argv ! 2))
    (strtoull (argv ! 3)) (if argv ! 4 = ''sequential'' then PATTERN_SEQUENTIAL else PATTERN_RANDOM)
    (strtoull (argv ! 5)) (strtoull (argv ! 6)) (strtoull (argv ! 7)) w1)"
proof -
  obtain w1 where "prepare_test_file os (argv ! 1) (strtoull (argv ! 2)) w = Some (0, w1)"
    using prepare_ok [OF assms(1)] by blast
  with assms(2-6) show ?thesis
    by (intro exI [of _ w1]) (auto simp: sim_main_def Let_def leD)
qed

section \<open>Hits and misses\<close>

lemma init_ra_view [simp]:
  "ra_last (readahead_init window) = None" "ra_window (readahead_init window) = window"
  by (simp_all add: readahead_init_def ra_last_def)

text \<open>With read-ahead switched off every access of a trace without repetitions misses.\<close>

lemma no_window_run:
  fixes pread :: "'w \<Rightarrow> size_t \<Rightarrow> int \<times> 'w"
  assumes "bp_wf p" and "bp_queue p = []" and "bp_hits p = 0" and "bp_misses p = 0"
    and "ra_window ra = 0" and "reads_succeed pread" and "distinct bl"
  shows "\<exists>p' ra' w'. foldR (access_step buffer_pool_lookup buffer_pool_insert readahead_on_access
      pread bs) bl (p, ra, w) = Inr (p', ra', w') \<and>
    bp_hits p' = 0 \<and> bp_misses p' = of_nat (length bl)"
proof -
  let ?P = "\<lambda>ys (p, ra, w :: 'w). bp_wf p \<and> set (bp_queue p) \<subseteq> set ys \<and> ra_window ra = 0 \<and>
    bp_hits p = 0 \<and> bp_misses p = of_nat (length ys)"
  have "\<exists>st. foldR (access_step buffer_pool_lookup buffer_pool_insert readahead_on_access
      pread bs) bl (p, ra, w) = Inr st \<and> ?P bl st"
  proof (rule foldR_prefix_invariant [where P = ?P])
    fix ys b zs and st :: "BufferPool \<times> Readahead \<times> 'w"
    assume bl: "bl = ys @ b # zs" and P: "?P ys st"
    obtain q r w where st: "st = (q, r, w)" by (cases st)
    have "b \<notin> set (bp_queue q)" using bl P st assms(7) by auto
    then obtain p2 w2 where "bp_wf p2" "bp_hits p2 = bp_hits q" "bp_misses p2 = bp_misses q + 1"
      "bp_queue p2 = fifo_insert (unat (bp_capacity q)) b (bp_queue q)"
      "access_step buffer_pool_lookup buffer_pool_insert readahead_on_access pread bs b (q, r, w) =
        bindR (readahead_on_access r p2 b) (\<lambda>(r', p'). Inr (p', r', w2))"
      using fifo_access_miss [of q b pread readahead_on_access bs r w] P st assms(6) by auto
    then show "\<exists>st'. access_step buffer_pool_lookup buffer_pool_insert readahead_on_access pread bs
        b st = Inr st' \<and> ?P (ys @ [b]) st'"
      using P st fifo_insert_subset [of "unat (bp_capacity q)" b "bp_queue q"]
      by (auto simp: ra_disabled simp del: set_bp_queue)
  qed (use assms in \<open>auto simp del: set_bp_queue\<close>)
  then show ?thesis by auto
qed

lemma sequential_run:
  assumes "capacity \<noteq> 0" and "length arr = unat capacity" and "reads_succeed pread"
    and "window \<noteq> 0" and "window \<le> capacity" and "2 \<le> unat num"
    and "unat num + unat window < 2 ^ 64"
  shows "\<exists>p' ra' w'. foldR (access_step buffer_pool_lookup buffer_pool_insert readahead_on_access
      pread block_size) (block_indices num)
      (empty_pool capacity block_size arr, readahead_init window, w) = Inr (p', ra', w') \<and>
    bp_hits p' = num - 2 \<and> bp_misses p' = 2"
proof -
  note pool = empty_pool_wf [OF assms(1,2), of block_size]
  have n: "of_nat (unat num - 2) = num - 2" using assms(6) by (simp add: of_nat_diff)
  show ?thesis
    using ra.sequential_scan [OF pool(1) _ _ assms(3), of "readahead_init window" 0 "unat num"
        block_size w] assms(4-7) pool(2) n
    by (simp add: block_indices_blocks ra_ok_def word_gt_0 word_le_nat_alt empty_pool_def
        del: set_bp_queue)
      blast
qed

lemma any_run:
  assumes "capacity \<noteq> 0" and "length arr = unat capacity" and "reads_succeed pread"
  shows "\<exists>p' ra' w'. foldR (access_step buffer_pool_lookup buffer_pool_insert readahead_on_access
      pread block_size) bl (empty_pool capacity block_size arr, readahead_init window, w) =
      Inr (p', ra', w') \<and> bp_hits p' + bp_misses p' = of_nat (length bl)"
  using ra_driver.access_trace_counts [OF empty_pool_wf(1) [OF assms(1,2), of block_size] assms(3),
      where bs = block_size and bl = bl and r = "readahead_init window" and w = w]
  by (auto simp: empty_pool_def)

section \<open>Properties\<close>

text \<open>
  C2: A successful sequential run of the simulator, from its command line to its samples. With a
  working operating system, at least two blocks and \<open>1 \<le> window \<le> capacity_blocks\<close>, the
  program exits with 0 and each of its repeats counts exactly two misses, whatever the random
  numbers, the window and the capacity; every other access is served by the read-ahead.
\<close>

theorem sim_main_sequential:
  assumes "os_ok os" and "length argv = 8" and "argv ! 4 = ''sequential''"
    and "file_size = strtoull (argv ! 2)" and "block_size = strtoull (argv ! 3)"
    and "capacity = strtoull (argv ! 5)" and "window = strtoull (argv ! 6)"
    and "repeats = strtoull (argv ! 7)" and "num = file_size div block_size"
    and "block_size \<noteq> 0" and "repeats \<noteq> 0" and "window \<noteq> 0" and "window \<le> capacity"
    and "2 \<le> num" and "unat num * 8 < 2 ^ 64" and "unat capacity * 8 < 2 ^ 64"
    and "unat repeats * 8 < 2 ^ 64"
  shows "sim_main os argv w = Some (Inr (0, replicate (unat repeats) (Some (num - 2, 2))))"
proof -
  have cap: "capacity \<noteq> 0" using assms(12,13) by auto
  have num: "2 \<le> unat num" "unat num + unat window < 2 ^ 64"
    using assms(13-16) by (auto simp: word_le_nat_alt)
  obtain w1 where "sim_main os argv w = Some (sim_run os (argv ! 1) file_size block_size
      PATTERN_SEQUENTIAL capacity window repeats w1)"
    using sim_main_run [OF assms(1,2), of w] assms(3-8,11,13) cap by auto
  moreover have "\<exists>samples. sim_run os (argv ! 1) file_size block_size PATTERN_SEQUENTIAL capacity
      window repeats w1 = Inr (0, samples) \<and> length samples = unat repeats \<and>
    (\<forall>s \<in> set samples. \<exists>h m. s = Some (h, m) \<and> h = num - 2 \<and> m = 2)"
    using sequential_run [OF cap _ os_okD(8) [OF assms(1)] assms(12,13) num] chosen_ok(5)
    by (intro sim_run_ok [OF assms(1,10,9,15,16,17)]) auto
  ultimately show ?thesis
    by (auto intro!: replicate_eqI)
qed

text \<open>
  On every trace, sequential or random, each access of each repeat is counted once: a run that
  passes the argument checks exits with 0 and its samples' hits and misses add up to the number of
  blocks of the file.
\<close>

theorem sim_main_counts:
  assumes "os_ok os" and "length argv = 8" and "argv ! 4 = ''sequential'' \<or> argv ! 4 = ''random''"
    and "block_size = strtoull (argv ! 3)" and "num = strtoull (argv ! 2) div block_size"
    and "capacity = strtoull (argv ! 5)" and "repeats = strtoull (argv ! 7)"
    and "block_size \<noteq> 0" and "repeats \<noteq> 0" and "capacity \<noteq> 0"
    and "strtoull (argv ! 6) \<le> capacity" and "unat num * 8 < 2 ^ 64"
    and "unat capacity * 8 < 2 ^ 64" and "unat repeats * 8 < 2 ^ 64"
  shows "\<exists>samples. sim_main os argv w = Some (Inr (0, samples)) \<and> length samples = unat repeats \<and>
    (\<forall>s \<in> set samples. \<exists>h m. s = Some (h, m) \<and> h + m = num)"
proof -
  let ?pat = "if argv ! 4 = ''sequential'' then PATTERN_SEQUENTIAL else PATTERN_RANDOM"
  obtain w1 where "sim_main os argv w = Some (sim_run os (argv ! 1) (strtoull (argv ! 2))
      block_size ?pat capacity (strtoull (argv ! 6)) repeats w1)"
    using sim_main_run [OF assms(1,2), of w] assms(3-11) by auto
  moreover have "\<exists>samples. sim_run os (argv ! 1) (strtoull (argv ! 2)) block_size ?pat capacity
      (strtoull (argv ! 6)) repeats w1 = Inr (0, samples) \<and> length samples = unat repeats \<and>
    (\<forall>s \<in> set samples. \<exists>h m. s = Some (h, m) \<and> h + m = num)"
    using any_run [OF assms(10) _ os_okD(8) [OF assms(1)]] chosen_ok(1) order_refl
    by (intro sim_run_ok [OF assms(1,8,5,12,13,14)]) fastforce
  ultimately show ?thesis by auto
qed

text \<open>
  With the window 0 the read-ahead is off and the simulator measures the bare cache: on either
  pattern no access hits, since a trace visits no block twice.
\<close>

theorem sim_main_no_window:
  assumes "os_ok os" and "length argv = 8" and "argv ! 4 = ''sequential'' \<or> argv ! 4 = ''random''"
    and "block_size = strtoull (argv ! 3)" and "num = strtoull (argv ! 2) div block_size"
    and "capacity = strtoull (argv ! 5)" and "repeats = strtoull (argv ! 7)"
    and "block_size \<noteq> 0" and "repeats \<noteq> 0" and "capacity \<noteq> 0"
    and "strtoull (argv ! 6) = 0" and "unat num * 8 < 2 ^ 64"
    and "unat capacity * 8 < 2 ^ 64" and "unat repeats * 8 < 2 ^ 64"
  shows "sim_main os argv w = Some (Inr (0, replicate (unat repeats) (Some (0, num))))"
proof -
  let ?pat = "if argv ! 4 = ''sequential'' then PATTERN_SEQUENTIAL else PATTERN_RANDOM"
  obtain w1 where "sim_main os argv w = Some (sim_run os (argv ! 1) (strtoull (argv ! 2))
      block_size ?pat capacity 0 repeats w1)"
    using sim_main_run [OF assms(1,2), of w] assms(3-11) by auto
  moreover have "\<exists>samples. sim_run os (argv ! 1) (strtoull (argv ! 2)) block_size ?pat capacity
      0 repeats w1 = Inr (0, samples) \<and> length samples = unat repeats \<and>
    (\<forall>s \<in> set samples. \<exists>h m. s = Some (h, m) \<and> h = 0 \<and> m = num)"
  proof (rule sim_run_ok [OF assms(1,8,5,12,13,14)])
    fix fd c and arr :: "size_t list" and w
    assume c: "mset c = mset (block_indices num)" and arr: "length arr = unat capacity"
    note ch = chosen_ok(1,2) [OF c order_refl, of ?pat]
    show "\<exists>p' ra' w'. foldR (access_step buffer_pool_lookup buffer_pool_insert readahead_on_access
        (os_pread os fd block_size) block_size) (chosen ?pat num c)
        (empty_pool capacity block_size arr, readahead_init 0, w) = Inr (p', ra', w') \<and>
      bp_hits p' = 0 \<and> bp_misses p' = num"
      using no_window_run [OF empty_pool_wf [OF assms(10) arr, of block_size], of "readahead_init 0"
          "os_pread os fd block_size" "chosen ?pat num c" block_size w] ch os_okD(8) [OF assms(1)]
      by (simp add: empty_pool_def)
  qed
  ultimately show ?thesis by (auto intro!: replicate_eqI)
qed

text \<open>
  The argument checks. The program exits with 1, touching no file, when an argument is missing,
  the number of repeats is 0, the capacity is 0 or smaller than the window, or the pattern is
  unknown.
\<close>

theorem sim_main_rejects:
  assumes "length argv \<noteq> 8 \<or> strtoull (argv ! 7) = 0 \<or> strtoull (argv ! 5) = 0 \<or>
    strtoull (argv ! 5) < strtoull (argv ! 6) \<or> argv ! 4 \<notin> {''sequential'', ''random''}"
  shows "sim_main os argv w = Some (Inr (1, []))"
  using assms by (auto simp: sim_main_def Let_def)

text \<open>
  The check that is missing: a block size of 0 passes all the checks above, and the program
  then divides by zero.
\<close>

theorem sim_main_zero_block:
  assumes "os_ok os" and "length argv = 8" and "strtoull (argv ! 7) \<noteq> 0"
    and "strtoull (argv ! 5) \<noteq> 0" and "strtoull (argv ! 6) \<le> strtoull (argv ! 5)"
    and "argv ! 4 = ''sequential'' \<or> argv ! 4 = ''random''" and "strtoull (argv ! 3) = 0"
  shows "sim_main os argv w = Some (Inl Div_by_zero)"
  using sim_main_run [OF assms(1-6), of w] assms(7) by (auto simp: sim_run_def div_c_def)

section \<open>Concrete runs\<close>

text \<open>A small operating system on which everything succeeds, and decimal arguments for it.\<close>

definition calm_os :: "nat os" where
  "calm_os = \<lparr>
     os_malloc = \<lambda>site n. Some (replicate (unat n div 8) 0),
     os_open_write = \<lambda>path w. (3, w),
     os_open_read = \<lambda>direct path w. (4, w),
     os_fstat = \<lambda>fd w. None,
     os_write = \<lambda>fd chunk w. (uint chunk, w + unat chunk),
     os_fsync = \<lambda>fd w. w,
     os_memalign = \<lambda>align n w. 0,
     os_pread = \<lambda>fd n w off. (uint n, w),
     os_rand = \<lambda>w. (int (w * 7 mod 11), w + 1),
     os_srand_now = \<lambda>w. 0\<rparr>"

lemma calm_os_ok: "os_ok calm_os"
  by (auto simp: os_ok_def calm_os_def malloc_spec_def write_spec_def reads_succeed_def
      uint_0_iff less_le)

lemma decimal_values:
  "strtoull ''0'' = 0" "strtoull ''1'' = 1" "strtoull ''2'' = 2" "strtoull ''3'' = 3"
  "strtoull ''4'' = 4" "strtoull ''5'' = 5" "strtoull ''8'' = 8" "strtoull ''10'' = 10"
  "strtoull ''64'' = 64" "strtoull ''300'' = 300"
  by (simp_all add: strtoull_def digits_value_def isspace_def isdigit_def saturate_def)

lemma replicate_2: "replicate 2 x = [x, x]"
  by (simp add: numeral_2_eq_2)

theorem sim_main_sequential_witness:
  "sim_main calm_os [''sim'', ''f'', ''64'', ''8'', ''sequential'', ''3'', ''2'', ''1''] 0 =
     Some (Inr (0, [Some (6, 2)]))"
  using sim_main_sequential [OF calm_os_ok, of
      "[''sim'', ''f'', ''64'', ''8'', ''sequential'', ''3'', ''2'', ''1'']" 64 8 3 2 1 8 0]
  by (simp add: decimal_values)

theorem sim_main_counts_witness:
  "\<exists>samples. sim_main calm_os [''sim'', ''f'', ''64'', ''8'', ''random'', ''3'', ''2'', ''2''] 0 =
     Some (Inr (0, samples)) \<and> length samples = 2 \<and>
     (\<forall>s \<in> set samples. \<exists>h m. s = Some (h, m) \<and> h + m = 8)"
  using sim_main_counts [OF calm_os_ok, of
      "[''sim'', ''f'', ''64'', ''8'', ''random'', ''3'', ''2'', ''2'']" 8 8 3 2 0]
  by (simp add: decimal_values)

theorem sim_main_no_window_witness:
  "sim_main calm_os [''sim'', ''f'', ''64'', ''8'', ''random'', ''3'', ''0'', ''2''] 0 =
     Some (Inr (0, [Some (0, 8), Some (0, 8)]))"
  using sim_main_no_window [OF calm_os_ok, of
      "[''sim'', ''f'', ''64'', ''8'', ''random'', ''3'', ''0'', ''2'']" 8 8 3 2 0]
  by (simp add: decimal_values replicate_2)

theorem sim_main_rejects_witness:
  "sim_main calm_os [''sim'', ''f'', ''64'', ''8'', ''random'', ''2'', ''3'', ''1''] 0 =
     Some (Inr (1, []))"
  using sim_main_rejects [of "[''sim'', ''f'', ''64'', ''8'', ''random'', ''2'', ''3'', ''1'']" calm_os 0]
  by (simp add: decimal_values)

theorem sim_main_zero_block_witness:
  "sim_main calm_os [''sim'', ''f'', ''64'', ''0'', ''random'', ''3'', ''2'', ''1''] 0 =
     Some (Inl Div_by_zero)"
  using sim_main_zero_block [OF calm_os_ok, of
      "[''sim'', ''f'', ''64'', ''0'', ''random'', ''3'', ''2'', ''1'']" 0]
  by (simp add: decimal_values)

end
