(* ===== verification/Traces.thy ===== *)
theory Traces
  imports WorkloadGen
begin

text \<open>
  The trace generators of the benchmarks: bursts of sequential blocks
  (\<open>interrupted_bench.c\<close>, and its copy in \<open>adaptive_bench.c\<close>), bursts of mixed lengths
  (\<open>mixed_bench.c\<close>) and a bounded random walk (\<open>read_around_bench.c\<close>). The
  \<open>while\<close> loops are partial functions; a loop that never ends is the fault \<open>Diverges\<close>.
  \<open>rand\<close> is the parameter of theory \<open>WorkloadGen\<close>.
\<close>

section \<open>Definitions\<close>

text \<open>The inner loop \<open>for (j = 0; j < run; j++) out_blocks[i++] = start + j\<close>.\<close>

definition burst_fill ::
  "size_t \<Rightarrow> size_t \<Rightarrow> size_t \<times> size_t list \<Rightarrow> (size_t \<times> size_t list) res" where
  "burst_fill start run =
     for_c (\<lambda>j (i, out). bindR (arr_set out i (start + j)) (\<lambda>out'. Inr (i + 1, out'))) run 0"

partial_function (option) interrupted_loop ::
  "('g \<Rightarrow> int \<times> 'g) \<Rightarrow> size_t \<Rightarrow> size_t \<Rightarrow> size_t \<Rightarrow> size_t \<Rightarrow> size_t list \<Rightarrow> 'g \<Rightarrow>
   (size_t list \<times> 'g) res option" where
  "interrupted_loop rand num_accesses total_blocks burst_len i out g =
     (if i < num_accesses
      then (case rand g of (v, g1) \<Rightarrow>
            (case mod_c (word_of_int v) (total_blocks - burst_len) of
               Inl e \<Rightarrow> Some (Inl e)
             | Inr start \<Rightarrow>
                 (case burst_fill start
                    (if i + burst_len > num_accesses then num_accesses - i else burst_len) (i, out) of
                    Inl e \<Rightarrow> Some (Inl e)
                  | Inr (i', out') \<Rightarrow>
                      interrupted_loop rand num_accesses total_blocks burst_len i' out' g1)))
      else Some (Inr (out, g)))"

definition returned :: "'a res option \<Rightarrow> 'a res" where
  "returned r = (case r of None \<Rightarrow> Inl Diverges | Some r' \<Rightarrow> r')"

definition generate_interrupted_sequence ::
  "('g \<Rightarrow> int \<times> 'g) \<Rightarrow> size_t list \<Rightarrow> size_t \<Rightarrow> size_t \<Rightarrow> size_t \<Rightarrow> 'g \<Rightarrow>
   (size_t list \<times> 'g) res" where
  "generate_interrupted_sequence rand out_blocks num_accesses total_blocks burst_len g =
     returned (interrupted_loop rand num_accesses total_blocks burst_len 0 out_blocks g)"

definition kBurstLens :: "size_t list" where
  "kBurstLens = [4, 16, 64, 256]"

definition kNumBurstLens :: size_t where
  "kNumBurstLens = of_nat (length kBurstLens)"

partial_function (option) mixed_loop ::
  "('g \<Rightarrow> int \<times> 'g) \<Rightarrow> size_t \<Rightarrow> size_t \<Rightarrow> size_t \<Rightarrow> size_t \<Rightarrow> size_t list \<Rightarrow> 'g \<Rightarrow>
   (size_t list \<times> 'g) res option" where
  "mixed_loop rand num_accesses total_blocks max_burst i out g =
     (if i < num_accesses
      then (case rand g of (v, g1) \<Rightarrow>
            (case bindR (mod_c (word_of_int v) kNumBurstLens) (arr_get kBurstLens) of
               Inl e \<Rightarrow> Some (Inl e)
             | Inr burst_len \<Rightarrow>
            (case rand g1 of (u, g2) \<Rightarrow>
            (case mod_c (word_of_int u) (total_blocks - max_burst) of
               Inl e \<Rightarrow> Some (Inl e)
             | Inr start \<Rightarrow>
                 (case burst_fill start
                    (if i + burst_len > num_accesses then num_accesses - i else burst_len) (i, out) of
                    Inl e \<Rightarrow> Some (Inl e)
                  | Inr (i', out') \<Rightarrow>
                      mixed_loop rand num_accesses total_blocks max_burst i' out' g2)))))
      else Some (Inr (out, g)))"

definition generate_mixed_sequence ::
  "('g \<Rightarrow> int \<times> 'g) \<Rightarrow> size_t list \<Rightarrow> size_t \<Rightarrow> size_t \<Rightarrow> 'g \<Rightarrow> (size_t list \<times> 'g) res" where
  "generate_mixed_sequence rand out_blocks num_accesses total_blocks g =
     bindR (arr_get kBurstLens (kNumBurstLens - 1)) (\<lambda>max_burst.
     returned (mixed_loop rand num_accesses total_blocks max_burst 0 out_blocks g))"

text \<open>\<open>long\<close> values are integers: \<open>(long)x\<close> reads the word \<open>x\<close> as signed.\<close>

definition walk_next ::
  "size_t \<Rightarrow> size_t \<Rightarrow> size_t \<Rightarrow> int \<Rightarrow> size_t" where
  "walk_next region_start region_end pos step =
     (let next = sint pos + step in
      word_of_int
        (if next < sint region_start then sint region_start
         else if next > sint region_end then sint region_end
         else next))"

definition walk_step ::
  "('g \<Rightarrow> int \<times> 'g) \<Rightarrow> size_t \<Rightarrow> size_t \<Rightarrow> size_t \<Rightarrow> size_t \<Rightarrow>
   size_t \<times> size_t list \<times> 'g \<Rightarrow> (size_t \<times> size_t list \<times> 'g) res" where
  "walk_step rand region_start region_end jitter i = (\<lambda>(pos, out, g).
     bindR (arr_set out i pos) (\<lambda>out'.
     if jitter = 0 then Inr (walk_next region_start region_end pos 0, out', g)
     else (case rand g of (v, g1) \<Rightarrow>
            bindR (mod_c (word_of_int v) (2 * jitter + 1)) (\<lambda>m.
            Inr (walk_next region_start region_end pos (sint m - sint jitter), out', g1)))))"

definition generate_locality_walk ::
  "('g \<Rightarrow> int \<times> 'g) \<Rightarrow> size_t list \<Rightarrow> size_t \<Rightarrow> size_t \<Rightarrow> size_t \<Rightarrow> size_t \<Rightarrow> 'g \<Rightarrow>
   (size_t list \<times> 'g) res" where
  "generate_locality_walk rand out_blocks num_accesses total_blocks region_width jitter g =
     (case rand g of (v, g1) \<Rightarrow>
      bindR (mod_c (word_of_int v) (total_blocks - region_width + 1)) (\<lambda>region_start.
      let region_end = region_start + region_width - 1 in
      case rand g1 of (u, g2) \<Rightarrow>
      bindR (mod_c (word_of_int u) region_width) (\<lambda>m.
      bindR (for_c (walk_step rand region_start region_end jitter) num_accesses 0
               (region_start + m, out_blocks, g2))
        (\<lambda>(pos, out, g3). Inr (out, g3)))))"

section \<open>Bursts\<close>

lemma burst_fill_writes:
  assumes "unat i + unat run \<le> length out" and "unat i + unat run < 2 ^ 64"
  shows "burst_fill start run (i, out) =
    Inr (i + run, take (unat i) out @ blocks_from start (unat run) @ drop (unat i + unat run) out)"
proof -
  let ?f = "\<lambda>j (i, out). bindR (arr_set out i (start + j)) (\<lambda>out'. Inr (i + 1, out'))"
  have "foldR ?f (map of_nat [0..<k]) (i, out) =
      Inr (i + of_nat k, take (unat i) out @ blocks_from start k @ drop (unat i + k) out)"
    if "k \<le> unat run" for k
    using that
  proof (induction k)
    case 0
    then show ?case by (simp add: blocks_from_def)
  next
    case (Suc k)
    let ?o = "take (unat i) out @ blocks_from start k @ drop (unat i + k) out"
    have ik: "unat (i + of_nat k) = unat i + k"
      using Suc.prems assms(2) by (intro unat_blocks_from [of _ "Suc k"]) auto
    have len: "unat i + k < length out" using Suc.prems assms(1) by simp
    have "arr_set ?o (i + of_nat k) (start + of_nat k) =
        Inr (take (unat i) out @ blocks_from start (Suc k) @ drop (unat i + Suc k) out)"
      using ik len by (simp add: arr_set_def list_update_append blocks_from_Suc
          Cons_nth_drop_Suc [symmetric])
    with Suc show ?case by (simp add: foldR_append algebra_simps)
  qed
  from this [of "unat run"] show ?thesis by (simp add: burst_fill_def for_c_foldR)
qed

text \<open>One iteration of the outer loop: a run from \<open>start\<close>, cut off at the end of the trace.\<close>

lemma burst_round:
  fixes i num len total_blocks max_burst start :: size_t
  defines "run \<equiv> if i + len > num then num - i else len"
  assumes i: "i < num" and len: "len \<le> max_burst"
    and start: "start < total_blocks - max_burst" and mb: "max_burst \<le> total_blocks"
    and out: "unat num \<le> length out" and wrap: "unat num + unat len < 2 ^ 64"
  shows "\<exists>i' out'. burst_fill start run (i, out) = Inr (i', out') \<and>
    unat i' = min (unat i + unat len) (unat num) \<and> length out' = length out \<and>
    take (unat i) out' = take (unat i) out \<and> drop (unat num) out' = drop (unat num) out \<and>
    (\<forall>k. unat i \<le> k \<and> k < unat i' \<longrightarrow>
       out' ! k = start + of_nat (k - unat i) \<and> out' ! k < total_blocks)"
proof -
  have lt: "unat i < unat num" using i by (simp add: word_less_nat_alt)
  have "unat (i + len) = unat i + unat len" using lt wrap by (intro unat_plus_64) linarith
  then have run: "unat run = min (unat len) (unat num - unat i)"
    using lt by (auto simp: run_def word_less_nat_alt unat_sub word_le_nat_alt)
  have "unat (total_blocks - max_burst) = unat total_blocks - unat max_burst"
    using mb by (simp add: unat_sub word_le_nat_alt)
  then have st: "unat start + unat max_burst < unat total_blocks"
    using start by (simp add: word_less_nat_alt)
  let ?out = "take (unat i) out @ blocks_from start (unat run) @ drop (unat i + unat run) out"
  have fill: "burst_fill start run (i, out) = Inr (i + run, ?out)"
    using run lt out size_t_bound [of num] by (intro burst_fill_writes) auto
  have i': "unat (i + run) = min (unat i + unat len) (unat num)"
    using unat_plus_64 [of i run] run lt size_t_bound [of num] by simp
  have vals: "?out ! k = start + of_nat (k - unat i) \<and> ?out ! k < total_blocks"
    if "unat i \<le> k" "k < unat (i + run)" for k
  proof -
    have j: "k - unat i < unat run" using that i' run by auto
    then have v: "?out ! k = start + of_nat (k - unat i)"
      using that out lt by (simp add: nth_append blocks_from_def min_def)
    have "unat start + unat run \<le> 2 ^ 64"
      using st run len size_t_bound [of total_blocks] by (simp add: word_le_nat_alt)
    then have "unat (start + of_nat (k - unat i)) = unat start + (k - unat i)"
      using j by (rule unat_blocks_from)
    then show ?thesis using v j run st len by (simp add: word_less_nat_alt word_le_nat_alt)
  qed
  have "length ?out = length out" "take (unat i) ?out = take (unat i) out"
    "drop (unat num) ?out = drop (unat num) out"
    using run lt out by (auto simp: min_def)
  with fill i' vals show ?thesis by blast
qed

lemma mod_c_less: "b \<noteq> 0 \<Longrightarrow> mod_c a b = Inr (a mod b) \<and> a mod b < b"
  by (simp add: mod_c_def word_mod_less_divisor word_gt_0)

text \<open>
  The shape of the trace from \<open>lo\<close> on: blocks of the file, each one the successor of the one
  before it except at the multiples of \<open>b\<close>, where a burst starts.
\<close>

definition bursts :: "nat \<Rightarrow> size_t \<Rightarrow> size_t list \<Rightarrow> nat \<Rightarrow> nat \<Rightarrow> bool" where
  "bursts b total_blocks out lo hi \<longleftrightarrow>
     (\<forall>k. lo \<le> k \<and> k < hi \<longrightarrow> out ! k < total_blocks \<and>
        (\<not> b dvd k \<longrightarrow> out ! k = out ! (k - 1) + 1))"

lemma bursts_join:
  assumes dvd: "b dvd i" and rest: "bursts b total_blocks out' i' n"
    and same: "take i' out' = take i' out1"
    and first: "\<forall>k. i \<le> k \<and> k < i' \<longrightarrow> out1 ! k = start + of_nat (k - i) \<and> out1 ! k < total_blocks"
  shows "bursts b total_blocks out' i n"
proof -
  have eq: "out' ! k = out1 ! k" if "k < i'" for k
    using that same by (metis nth_take)
  have "out' ! k = out' ! (k - 1) + 1" if "i \<le> k" "k < i'" "\<not> b dvd k" for k
  proof -
    have "i < k" using that dvd by (metis le_neq_implies_less)
    then obtain j where "k = Suc (i + j)" using less_imp_Suc_add by blast
    with first that eq show ?thesis by (simp add: Suc_diff_le)
  qed
  note low = this
  have "out' ! k < total_blocks \<and> (\<not> b dvd k \<longrightarrow> out' ! k = out' ! (k - 1) + 1)"
    if "i \<le> k" "k < n" for k
  proof (cases "k < i'")
    case True
    then show ?thesis using low [of k] first eq that by auto
  next
    case False
    then show ?thesis using rest that by (simp add: bursts_def)
  qed
  then show ?thesis by (simp add: bursts_def)
qed

lemma interrupted_loop_ok:
  assumes b: "0 < unat burst" "burst < total_blocks" and wrap: "unat num + unat burst < 2 ^ 64"
    and out: "unat num \<le> length out" and i: "unat burst dvd unat i \<or> \<not> i < num"
  shows "\<exists>out' g'. interrupted_loop rand num total_blocks burst i out g = Some (Inr (out', g')) \<and>
    length out' = length out \<and> take (unat i) out' = take (unat i) out \<and>
    bursts (unat burst) total_blocks out' (unat i) (unat num)"
  using out i
proof (induction "unat num - unat i" arbitrary: i out g rule: less_induct)
  case less
  show ?case
  proof (cases "i < num")
    case False
    then show ?thesis
      by (subst interrupted_loop.simps) (auto simp: word_less_nat_alt bursts_def)
  next
    case True
    obtain v g1 where v: "rand g = (v, g1)" by fastforce
    let ?start = "(word_of_int v :: size_t) mod (total_blocks - burst)"
    have "total_blocks - burst \<noteq> 0" using b(2) by auto
    from mod_c_less [OF this, of "word_of_int v"]
    have start: "mod_c (word_of_int v) (total_blocks - burst) = Inr ?start"
      "?start < total_blocks - burst" by auto
    obtain i' out1 where round: "burst_fill ?start (if i + burst > num then num - i else burst) (i, out) =
        Inr (i', out1)" "unat i' = min (unat i + unat burst) (unat num)"
      "length out1 = length out" "take (unat i) out1 = take (unat i) out"
      "\<forall>k. unat i \<le> k \<and> k < unat i' \<longrightarrow>
         out1 ! k = ?start + of_nat (k - unat i) \<and> out1 ! k < total_blocks"
      using burst_round [OF True order_refl start(2) less_imp_le [OF b(2)] less.prems(1) wrap] by blast
    have dvd: "unat burst dvd unat i" using less.prems(2) True by blast
    have lt: "unat i < unat num" using True by (simp add: word_less_nat_alt)
    then have le: "unat i \<le> unat i'" using round(2) by simp
    have dec: "unat num - unat i' < unat num - unat i" using round(2) lt b(1) by simp
    have "unat burst dvd unat i' \<or> \<not> i' < num"
      using round(2) dvd by (cases "unat i + unat burst \<le> unat num") (simp_all add: word_less_nat_alt)
    with less.hyps [OF dec, of out1 g1] less.prems(1) round(3) obtain out' g' where rest: "interrupted_loop rand num total_blocks burst i' out1 g1 =
        Some (Inr (out', g'))" "length out' = length out1" "take (unat i') out' = take (unat i') out1"
      "bursts (unat burst) total_blocks out' (unat i') (unat num)" by auto
    have "take (unat i) out' = take (unat i) (take (unat i') out')"
      using le by (simp add: min_absorb1)
    then have "take (unat i) out' = take (unat i) out"
      using le round(4) by (simp add: rest(3) min_absorb1)
    moreover have "interrupted_loop rand num total_blocks burst i out g = Some (Inr (out', g'))"
      using True v start(1) round(1) rest(1) by (subst interrupted_loop.simps) simp
    ultimately show ?thesis
      using rest(2) round(3) bursts_join [OF dvd rest(4,3) round(5)] by auto
  qed
qed

lemma interrupted_ok:
  assumes "burst \<noteq> 0" and "burst < total_blocks" and "unat num + unat burst < 2 ^ 64"
    and "unat num \<le> length out"
  shows "\<exists>out' g'. generate_interrupted_sequence rand out num total_blocks burst g = Inr (out', g') \<and>
    length out' = length out \<and> bursts (unat burst) total_blocks out' 0 (unat num)"
  using interrupted_loop_ok [of burst total_blocks num out 0 rand g] assms
  by (auto simp: generate_interrupted_sequence_def returned_def unat_gt_0)

section \<open>Mixed bursts\<close>

lemma burst_len_pick:
  "\<exists>len. bindR (mod_c (word_of_int v) kNumBurstLens) (arr_get kBurstLens) = Inr len \<and>
     len \<noteq> 0 \<and> len \<le> 256"
proof -
  have "(word_of_int v :: size_t) mod 4 < 4" by (simp add: word_mod_less_divisor word_gt_0)
  then have "unat ((word_of_int v :: size_t) mod 4) < 4"
    by (simp add: word_less_nat_alt)
  then consider "unat ((word_of_int v :: size_t) mod 4) = 0" | "unat ((word_of_int v :: size_t) mod 4) = 1"
    | "unat ((word_of_int v :: size_t) mod 4) = 2" | "unat ((word_of_int v :: size_t) mod 4) = 3"
    by linarith
  then show ?thesis
    by cases (simp_all add: kNumBurstLens_def kBurstLens_def mod_c_def arr_get_def)
qed

lemma mixed_loop_ok:
  assumes tot: "256 < total_blocks" and wrap: "unat num + 256 < 2 ^ 64"
    and out: "unat num \<le> length out"
  shows "\<exists>out' g'. mixed_loop rand num total_blocks 256 i out g = Some (Inr (out', g')) \<and>
    length out' = length out \<and> take (unat i) out' = take (unat i) out \<and>
    (\<forall>k. unat i \<le> k \<and> k < unat num \<longrightarrow> out' ! k < total_blocks)"
  using out
proof (induction "unat num - unat i" arbitrary: i out g rule: less_induct)
  case less
  show ?case
  proof (cases "i < num")
    case False
    then show ?thesis by (subst mixed_loop.simps) (auto simp: word_less_nat_alt)
  next
    case True
    obtain v g1 u g2 where v: "rand g = (v, g1)" "rand g1 = (u, g2)" by fastforce
    obtain len where len: "bindR (mod_c (word_of_int v) kNumBurstLens) (arr_get kBurstLens) = Inr len"
      "len \<noteq> 0" "len \<le> 256" using burst_len_pick by blast
    then have len_n: "0 < unat len" "unat len \<le> 256" by (auto simp: unat_gt_0 word_le_nat_alt)
    have wrap': "unat num + unat len < 2 ^ 64" using wrap len_n by linarith
    let ?start = "(word_of_int u :: size_t) mod (total_blocks - 256)"
    have "total_blocks - 256 \<noteq> 0" using tot by auto
    from mod_c_less [OF this, of "word_of_int u"]
    have start: "mod_c (word_of_int u) (total_blocks - 256) = Inr ?start"
      "?start < total_blocks - 256" by auto
    obtain i' out1 where round: "burst_fill ?start (if i + len > num then num - i else len) (i, out) =
        Inr (i', out1)" "unat i' = min (unat i + unat len) (unat num)"
      "length out1 = length out" "take (unat i) out1 = take (unat i) out"
      "\<forall>k. unat i \<le> k \<and> k < unat i' \<longrightarrow>
         out1 ! k = ?start + of_nat (k - unat i) \<and> out1 ! k < total_blocks"
      using burst_round [OF True len(3) start(2) less_imp_le [OF tot] less.prems(1) wrap'] by blast
    have lt: "unat i < unat num" using True by (simp add: word_less_nat_alt)
    have dec: "unat num - unat i' < unat num - unat i" and le: "unat i \<le> unat i'"
      using round(2) lt len_n by auto
    from less.hyps [OF dec, of out1 g2] less.prems(1) round(3) obtain out' g' where
      rest: "mixed_loop rand num total_blocks 256 i' out1 g2 = Some (Inr (out', g'))"
        "length out' = length out1" "take (unat i') out' = take (unat i') out1"
        "\<forall>k. unat i' \<le> k \<and> k < unat num \<longrightarrow> out' ! k < total_blocks" by auto
    have "take (unat i) out' = take (unat i) (take (unat i') out')"
      using le by (simp add: min_absorb1)
    then have "take (unat i) out' = take (unat i) out"
      using le round(4) by (simp add: rest(3) min_absorb1)
    moreover have "out' ! k < total_blocks" if "unat i \<le> k" "k < unat num" for k
    proof (cases "k < unat i'")
      case True
      then have "out' ! k = out1 ! k" using rest(3) by (metis nth_take)
      moreover have "out1 ! k < total_blocks" using True round(5) that by blast
      ultimately show ?thesis by (simp only:)
    qed (use rest(4) that in simp)
    moreover have "mixed_loop rand num total_blocks 256 i out g = Some (Inr (out', g'))"
      using True v len(1) start(1) round(1) rest(1) by (subst mixed_loop.simps) simp
    ultimately show ?thesis using rest(2) round(3) by auto
  qed
qed

lemma mixed_ok:
  assumes "256 < total_blocks" and "unat num + 256 < 2 ^ 64" and "unat num \<le> length out"
  shows "\<exists>out' g'. generate_mixed_sequence rand out num total_blocks g = Inr (out', g') \<and>
    length out' = length out \<and> (\<forall>k < unat num. out' ! k < total_blocks)"
proof -
  have "arr_get kBurstLens (kNumBurstLens - 1) = Inr 256"
    by (simp add: kBurstLens_def kNumBurstLens_def arr_get_def)
  then show ?thesis
    using mixed_loop_ok [OF assms, of rand 0 g]
    by (auto simp: generate_mixed_sequence_def returned_def)
qed

section \<open>The random walk\<close>

text \<open>The next position: inside the region, and no farther away than the step.\<close>

lemma walk_next_ok:
  assumes "rs \<le> pos" and "pos \<le> re" and "uint re < 2 ^ 63" and "\<bar>step\<bar> \<le> j"
  shows "rs \<le> walk_next rs re pos step" and "walk_next rs re pos step \<le> re"
    and "\<bar>uint (walk_next rs re pos step) - uint pos\<bar> \<le> j"
proof -
  have le: "uint rs \<le> uint pos" "uint pos \<le> uint re" using assms(1,2) by (simp_all add: word_le_def)
  then have s: "sint rs = uint rs" "sint pos = uint pos" "sint re = uint re"
    using assms(3) by (auto intro!: sint_small)
  define nxt where "nxt = (if uint pos + step < uint rs then uint rs
    else if uint pos + step > uint re then uint re else uint pos + step)"
  have n: "uint rs \<le> nxt" "nxt \<le> uint re" "\<bar>nxt - uint pos\<bar> \<le> j"
    using le assms(4) by (auto simp: nxt_def)
  have "walk_next rs re pos step = word_of_int nxt"
    by (simp add: walk_next_def s nxt_def Let_def)
  moreover have "nxt < 2 ^ 64" using n(2) assms(3) by simp
  moreover have "0 \<le> nxt" using n(1) uint_ge_0 [of rs] by linarith
  ultimately have "uint (walk_next rs re pos step) = nxt" by (simp add: uint_word_of_int)
  with n show "rs \<le> walk_next rs re pos step" "walk_next rs re pos step \<le> re"
    "\<bar>uint (walk_next rs re pos step) - uint pos\<bar> \<le> j"
    by (simp_all add: word_le_def)
qed

lemma walk_jitter:
  fixes m jitter :: size_t
  assumes "m < 2 * jitter + 1" and "uint jitter < 2 ^ 62"
  shows "\<bar>sint m - sint jitter\<bar> \<le> uint jitter"
proof -
  have "uint (2 * jitter + 1) = 2 * uint jitter + 1"
    using assms(2) by (simp add: uint_word_ariths)
  then have "uint m \<le> 2 * uint jitter" using assms(1) by (simp add: word_less_def)
  then have "sint m = uint m" "sint jitter = uint jitter" "uint m \<le> 2 * uint jitter"
    using assms(2) by (auto intro!: sint_small)
  then show ?thesis using uint_ge_0 [of m] by linarith
qed

definition near :: "size_t \<Rightarrow> size_t \<Rightarrow> size_t \<Rightarrow> bool" where
  "near jitter x y \<longleftrightarrow> \<bar>uint y - uint x\<bar> \<le> uint jitter"

lemma walk_step_ok:
  assumes "rs \<le> pos" and "pos \<le> re" and "uint re < 2 ^ 63" and "uint jitter < 2 ^ 62"
    and "unat i < length out"
  shows "\<exists>pos' g'. walk_step rand rs re jitter i (pos, out, g) = Inr (pos', out[unat i := pos], g') \<and>
    rs \<le> pos' \<and> pos' \<le> re \<and> near jitter pos pos'"
proof (cases "jitter = 0")
  case True
  then show ?thesis
    using walk_next_ok [OF assms(1-3), of 0 0] assms(5)
    by (simp add: walk_step_def arr_set_def near_def)
next
  case False
  obtain v g1 where v: "rand g = (v, g1)" by fastforce
  let ?m = "(word_of_int v :: size_t) mod (2 * jitter + 1)"
  have "uint (2 * jitter + 1) = 2 * uint jitter + 1"
    using assms(4) by (simp add: uint_word_ariths)
  then have "uint (2 * jitter + 1) \<noteq> 0" using uint_ge_0 [of jitter] by linarith
  then have "2 * jitter + 1 \<noteq> 0" by (metis unsigned_0)
  from mod_c_less [OF this, of "word_of_int v"] walk_jitter [OF _ assms(4), of ?m]
    walk_next_ok [OF assms(1-3), of "sint ?m - sint jitter" "uint jitter"]
  show ?thesis using v assms(5) False by (simp add: walk_step_def arr_set_def near_def)
qed

definition walked :: "size_t \<Rightarrow> size_t \<Rightarrow> size_t \<Rightarrow> size_t list \<Rightarrow> nat \<Rightarrow> bool" where
  "walked rs re jitter out n \<longleftrightarrow>
     (\<forall>k < n. rs \<le> out ! k \<and> out ! k \<le> re) \<and>
     (\<forall>k. Suc k < n \<longrightarrow> near jitter (out ! k) (out ! Suc k))"

lemma walk_loop_ok:
  fixes g :: 'g
  assumes re63: "uint re < 2 ^ 63" and j: "uint jitter < 2 ^ 62" and len: "unat num \<le> length out"
    and pos: "rs \<le> pos" "pos \<le> re"
  shows "\<exists>pos' out' g'. for_c (walk_step rand rs re jitter) num 0 (pos, out, g) = Inr (pos', out', g') \<and>
    length out' = length out \<and> walked rs re jitter out' (unat num)"
proof -
  let ?P = "\<lambda>k (pos, o', g :: 'g). length o' = length out \<and> rs \<le> pos \<and> pos \<le> re \<and>
    walked rs re jitter o' k \<and> (\<forall>j. k = Suc j \<longrightarrow> near jitter (o' ! j) pos)"
  have "\<exists>st. for_c (walk_step rand rs re jitter) num 0 (pos, out, g) = Inr st \<and> ?P (unat num) st"
  proof (rule for_c_invariant [where P = ?P])
    fix i :: size_t and st :: "size_t \<times> size_t list \<times> 'g"
    assume i: "i < num" and P: "?P (unat i) st"
    obtain p o' g' where st: "st = (p, o', g')" by (cases st)
    have lt: "unat i < length o'" using i P st len by (simp add: word_less_nat_alt)
    obtain p' g'' where step: "walk_step rand rs re jitter i (p, o', g') =
        Inr (p', o'[unat i := p], g'')" "rs \<le> p'" "p' \<le> re" "near jitter p p'"
      using walk_step_ok [OF _ _ re63 j lt, of rs p rand g'] P st by auto
    have "walked rs re jitter (o'[unat i := p]) (Suc (unat i))"
      using P st lt by (auto simp: walked_def less_Suc_eq nth_list_update)
    with step P st lt
    show "\<exists>st'. walk_step rand rs re jitter i st = Inr st' \<and> ?P (Suc (unat i)) st'" by simp
  qed (use pos in \<open>auto simp: walked_def\<close>)
  then show ?thesis by auto
qed

lemma walk_ok:
  assumes "region_width \<noteq> 0" and "region_width \<le> total_blocks" and "uint total_blocks < 2 ^ 63"
    and "uint jitter < 2 ^ 62" and "unat num \<le> length out"
  shows "\<exists>out' g' rs re. generate_locality_walk rand out num total_blocks region_width jitter g =
      Inr (out', g') \<and> length out' = length out \<and> walked rs re jitter out' (unat num) \<and>
    unat re + 1 = unat rs + unat region_width \<and> re < total_blocks"
proof -
  obtain v g1 u g2 where v: "rand g = (v, g1)" "rand g1 = (u, g2)" by fastforce
  let ?w = "unat region_width" and ?t = "unat total_blocks"
  have wt: "0 < ?w" "?w \<le> ?t" "?t < 2 ^ 63"
    using assms(1,2) assms(3) [folded unat_less_63] by (simp_all add: unat_gt_0 word_le_nat_alt)
  have "unat (total_blocks - region_width) = ?t - ?w" using assms(2) by (simp add: unat_sub)
  then have span: "unat (total_blocks - region_width + 1) = ?t - ?w + 1"
    using wt unat_plus_64 [of "total_blocks - region_width" 1] by simp
  then have "0 < unat (total_blocks - region_width + 1)" by simp
  then have "total_blocks - region_width + 1 \<noteq> 0" using unat_gt_0 by blast
  from mod_c_less [OF this, of "word_of_int v"] obtain rs where
    rs: "mod_c (word_of_int v) (total_blocks - region_width + 1) = Inr rs"
      "rs < total_blocks - region_width + 1" by blast
  from mod_c_less [OF assms(1), of "word_of_int u"] obtain m where
    m: "mod_c (word_of_int u) region_width = Inr m" "m < region_width" by blast
  have rs_n: "unat rs + ?w \<le> ?t" using rs(2) span wt by (simp add: word_less_nat_alt)
  define re where "re = rs + region_width - 1"
  have s: "unat (rs + region_width) = unat rs + ?w" using rs_n wt by (intro unat_plus_64) simp
  then have "0 < unat (rs + region_width)" using wt by simp
  then have "rs + region_width \<noteq> 0" using unat_gt_0 by blast
  then have re: "unat re + 1 = unat rs + ?w"
    using wt s by (simp add: re_def unat_minus_one)
  then have "unat re < 2 ^ 63" using rs_n wt by linarith
  then have re63: "uint re < 2 ^ 63" by (simp only: unat_less_63)
  have "unat m < ?w" using m(2) by (simp add: word_less_nat_alt)
  then have "unat (rs + m) = unat rs + unat m"
    using rs_n wt by (intro unat_plus_64) simp
  then have "rs \<le> rs + m" "rs + m \<le> re"
    using \<open>unat m < ?w\<close> re by (auto simp: word_le_nat_alt)
  from walk_loop_ok [OF re63 assms(4,5) this, of rand g2] obtain pos out' g' where
    "for_c (walk_step rand rs re jitter) num 0 (rs + m, out, g2) = Inr (pos, out', g')"
    "length out' = length out" "walked rs re jitter out' (unat num)" by blast
  moreover have "re < total_blocks" using re rs_n by (simp add: word_less_nat_alt)
  ultimately show ?thesis
    using v rs(1) m(1) re
    by (intro exI [of _ out'] exI [of _ g'] exI [of _ rs] exI [of _ re])
      (simp add: generate_locality_walk_def re_def [symmetric])
qed

section \<open>Properties\<close>

text \<open>
  The burst generator ends for every sequence of random numbers, stays inside its array, and
  what it writes are blocks of the file in sequential runs: every block that does not start a burst
  is the successor of the block before it.
\<close>

theorem interrupted_sequence_bursts:
  assumes "burst_len \<noteq> 0" and "burst_len < total_blocks"
    and "unat num_accesses + unat burst_len < 2 ^ 64" and "unat num_accesses \<le> length out"
  shows "\<exists>out' g'. generate_interrupted_sequence rand out num_accesses total_blocks burst_len g =
      Inr (out', g') \<and> length out' = length out \<and>
    (\<forall>k < unat num_accesses. out' ! k < total_blocks \<and>
       (\<not> unat burst_len dvd k \<longrightarrow> out' ! k = out' ! (k - 1) + 1))"
  using interrupted_ok [OF assms, of rand g] by (auto simp: bursts_def)

text \<open>
  The locality walk ends, stays inside one region of \<open>region_width\<close> blocks of the file, and
  moves by at most \<open>jitter\<close> blocks per step.
\<close>

theorem locality_walk_region:
  assumes "region_width \<noteq> 0" and "region_width \<le> total_blocks" and "uint total_blocks < 2 ^ 63"
    and "uint jitter < 2 ^ 62" and "unat num_accesses \<le> length out"
  shows "\<exists>out' g' (start :: size_t). generate_locality_walk rand out num_accesses total_blocks region_width
      jitter g = Inr (out', g') \<and> length out' = length out \<and>
    unat start + unat region_width \<le> unat total_blocks \<and>
    (\<forall>k < unat num_accesses.
       unat start \<le> unat (out' ! k) \<and> unat (out' ! k) < unat start + unat region_width) \<and>
    (\<forall>k. Suc k < unat num_accesses \<longrightarrow> \<bar>uint (out' ! Suc k) - uint (out' ! k)\<bar> \<le> uint jitter)"
proof -
  obtain out' g' rs re where "generate_locality_walk rand out num_accesses total_blocks region_width
      jitter g = Inr (out', g')" "length out' = length out" "walked rs re jitter out' (unat num_accesses)"
      "unat re + 1 = unat rs + unat region_width" "re < total_blocks"
    using walk_ok [OF assms, of rand g] by blast
  then show ?thesis
    by (intro exI [of _ out'] exI [of _ g'] exI [of _ rs])
      (auto simp: walked_def near_def word_le_nat_alt word_less_nat_alt)
qed

section \<open>Concrete traces\<close>

theorem interrupted_sequence_bursts_witness:
  "\<exists>out' g'. generate_interrupted_sequence (\<lambda>g. (int g, g + 1)) (replicate 7 0) 7 100 3 (4 :: nat) =
      Inr (out', g') \<and> length out' = length (replicate 7 (0 :: size_t)) \<and>
    (\<forall>k < unat (7 :: size_t). out' ! k < 100 \<and>
       (\<not> unat (3 :: size_t) dvd k \<longrightarrow> out' ! k = out' ! (k - 1) + 1))"
  by (rule interrupted_sequence_bursts) simp_all

theorem locality_walk_region_witness:
  "\<exists>out' g' (start :: size_t). generate_locality_walk (\<lambda>g. (int g, g + 1)) (replicate 7 0) 7 100 20 2 (4 :: nat) =
      Inr (out', g') \<and> length out' = length (replicate 7 (0 :: size_t)) \<and>
    unat start + unat (20 :: size_t) \<le> unat (100 :: size_t) \<and>
    (\<forall>k < unat (7 :: size_t).
       unat start \<le> unat (out' ! k) \<and> unat (out' ! k) < unat start + unat (20 :: size_t)) \<and>
    (\<forall>k. Suc k < unat (7 :: size_t) \<longrightarrow> \<bar>uint (out' ! Suc k) - uint (out' ! k)\<bar> \<le> uint (2 :: size_t))"
  by (rule locality_walk_region) simp_all

end
