(* ===== verification/AdaptiveReadahead.thy ===== *)
theory AdaptiveReadahead
  imports SeqPrefetch
begin

text \<open>
  The adaptive read-ahead policy of \<open>prefetch-sim/src/adaptive_readahead.c\<close>: the window
  doubles each time a stream reaches the edge of what was prefetched, up to \<open>max_window\<close>,
  and falls back to \<open>min_window\<close> when the stream breaks.
\<close>

record AdaptiveReadahead =
  ar_window :: size_t
  ar_min_window :: size_t
  ar_max_window :: size_t
  ar_last_block :: size_t
  ar_have_last :: bool
  ar_edge :: size_t
  ar_have_edge :: bool

definition adaptive_readahead_init :: "size_t \<Rightarrow> size_t \<Rightarrow> AdaptiveReadahead" where
  "adaptive_readahead_init min_window max_window =
     \<lparr>ar_window = min_window, ar_min_window = min_window, ar_max_window = max_window,
      ar_last_block = 0, ar_have_last = False, ar_edge = 0, ar_have_edge = False\<rparr>"

definition adaptive_readahead_on_access ::
  "AdaptiveReadahead \<Rightarrow> BufferPool \<Rightarrow> size_t \<Rightarrow> (AdaptiveReadahead \<times> BufferPool) res" where
  "adaptive_readahead_on_access ra pool block_num =
     (let sequential = (ar_have_last ra \<and> block_num = ar_last_block ra + 1) in
      bindR
        (if sequential \<and> ar_max_window ra > 0
         then if \<not> ar_have_edge ra
              then bindR (buffer_pool_prefetch_range pool (block_num + 1) (ar_window ra))
                     (\<lambda>pool'. Inr (ra\<lparr>ar_edge := block_num + 1 + ar_window ra,
                                     ar_have_edge := True\<rparr>, pool'))
              else if block_num + 1 = ar_edge ra
              then (let doubled = ar_window ra * 2;
                        window = (if doubled > ar_max_window ra then ar_max_window ra else doubled)
                    in bindR (buffer_pool_prefetch_range pool (ar_edge ra) window)
                         (\<lambda>pool'. Inr (ra\<lparr>ar_window := window,
                                         ar_edge := ar_edge ra + window\<rparr>, pool')))
              else Inr (ra, pool)
         else Inr (ra\<lparr>ar_have_edge := False, ar_window := ar_min_window ra\<rparr>, pool))
        (\<lambda>(ra', pool'). Inr (ra'\<lparr>ar_last_block := block_num, ar_have_last := True\<rparr>, pool')))"

section \<open>Windows\<close>

definition ar_grow :: "AdaptiveReadahead \<Rightarrow> size_t" where
  "ar_grow ra = (if ar_window ra * 2 > ar_max_window ra then ar_max_window ra else ar_window ra * 2)"

text \<open>
  The window stays between its bounds. Doubling must not wrap, which holds when the upper bound
  is below \<open>2^63\<close>.
\<close>

definition ar_ok :: "AdaptiveReadahead \<Rightarrow> bool" where
  "ar_ok ra \<longleftrightarrow> 0 < ar_min_window ra \<and> ar_min_window ra \<le> ar_window ra \<and>
     ar_window ra \<le> ar_max_window ra \<and> unat (ar_max_window ra) < 2 ^ 63"

lemma ar_grow_unat:
  assumes "ar_ok ra"
  shows "unat (ar_grow ra) = min (2 * unat (ar_window ra)) (unat (ar_max_window ra))"
proof -
  have "unat (ar_window ra) < 2 ^ 63"
    using assms by (auto simp: ar_ok_def word_le_nat_alt)
  then have "unat (ar_window ra * 2) = 2 * unat (ar_window ra)"
    using unat_mult_64 [of "ar_window ra" 2] by simp
  then show ?thesis by (auto simp: ar_grow_def word_less_nat_alt)
qed

lemma ar_grow_bounds:
  assumes "ar_ok ra"
  shows "ar_window ra \<le> ar_grow ra" and "ar_grow ra \<le> ar_max_window ra" and "0 < unat (ar_grow ra)"
  using assms ar_grow_unat [OF assms] by (auto simp: ar_ok_def word_le_nat_alt word_less_nat_alt)

section \<open>The policy as a prefetcher\<close>

definition ar_last :: "AdaptiveReadahead \<Rightarrow> size_t option" where
  "ar_last ra = (if ar_have_last ra then Some (ar_last_block ra) else None)"

definition ar_edge_of :: "AdaptiveReadahead \<Rightarrow> size_t option" where
  "ar_edge_of ra = (if ar_have_edge ra then Some (ar_edge ra) else None)"

lemmas ar_view_defs = ar_last_def ar_edge_of_def ar_ok_def

lemma ar_sequential_iff:
  "ar_last ra = Some (b - 1) \<longleftrightarrow> ar_have_last ra \<and> b = ar_last_block ra + 1"
  by (auto simp: ar_last_def)

lemma ar_jump:
  assumes "ar_last ra \<noteq> Some (b - 1) \<or> ar_max_window ra = 0"
  shows "adaptive_readahead_on_access ra pool b =
    Inr (ra\<lparr>ar_have_edge := False, ar_window := ar_min_window ra,
            ar_last_block := b, ar_have_last := True\<rparr>, pool)"
proof -
  have "\<not> ((ar_have_last ra \<and> b = ar_last_block ra + 1) \<and> ar_max_window ra > 0)"
    using assms by (auto simp: ar_sequential_iff)
  then show ?thesis
    unfolding adaptive_readahead_on_access_def Let_def by (simp only: if_False simp_thms) simp
qed

text \<open>The window a refill uses: the current one at the start of a stream, a larger one later.\<close>

definition ar_refill_window :: "AdaptiveReadahead \<Rightarrow> size_t" where
  "ar_refill_window ra = (if ar_have_edge ra then ar_grow ra else ar_window ra)"

lemma ar_refill:
  assumes "ar_last ra = Some (b - 1)" and "0 < ar_max_window ra"
    and "ar_edge_of ra = None \<or> ar_edge_of ra = Some (b + 1)"
  shows "adaptive_readahead_on_access ra pool b =
    bindR (buffer_pool_prefetch_range pool (b + 1) (ar_refill_window ra))
      (\<lambda>pool'. Inr (ra\<lparr>ar_window := ar_refill_window ra, ar_edge := b + 1 + ar_refill_window ra,
                      ar_have_edge := True, ar_last_block := b, ar_have_last := True\<rparr>, pool'))"
proof (cases "ar_have_edge ra")
  case True
  have eq: "ra\<lparr>ar_window := x, ar_edge := e, ar_have_edge := True, ar_last_block := l,
      ar_have_last := True\<rparr> = ra\<lparr>ar_window := x, ar_edge := e, ar_last_block := l,
      ar_have_last := True\<rparr>" for x e l
    using True by (cases ra) simp
  from True assms have "ar_edge ra = b + 1" by (simp add: ar_edge_of_def)
  then have "adaptive_readahead_on_access ra pool b =
      bindR (buffer_pool_prefetch_range pool (b + 1) (ar_refill_window ra))
        (\<lambda>pool'. Inr (ra\<lparr>ar_window := ar_refill_window ra, ar_edge := b + 1 + ar_refill_window ra,
                        ar_last_block := b, ar_have_last := True\<rparr>, pool'))"
    using assms(1,2) True
    by (simp add: adaptive_readahead_on_access_def ar_sequential_iff bindR_assoc algebra_simps
        ar_refill_window_def ar_grow_def Let_def)
  then show ?thesis by (simp only: eq)
next
  case False
  have eq: "ra\<lparr>ar_window := ar_window ra, ar_edge := e, ar_have_edge := True, ar_last_block := l,
      ar_have_last := True\<rparr> = ra\<lparr>ar_edge := e, ar_have_edge := True, ar_last_block := l,
      ar_have_last := True\<rparr>" for e l
    by (cases ra) simp
  show ?thesis
    using False assms(1,2)
    by (simp add: adaptive_readahead_on_access_def ar_sequential_iff bindR_assoc
        ar_refill_window_def eq)
qed

lemma ar_refill_window_bounds:
  assumes "ar_ok ra"
  shows "ar_min_window ra \<le> ar_refill_window ra" "ar_refill_window ra \<le> ar_max_window ra"
    "0 < unat (ar_refill_window ra)"
  using assms ar_grow_bounds [OF assms]
  by (auto simp: ar_refill_window_def ar_ok_def word_less_nat_alt word_le_nat_alt)

lemma ar_ok_max_pos: "ar_ok ra \<Longrightarrow> 0 < ar_max_window ra"
  by (auto simp: ar_ok_def word_less_nat_alt word_le_nat_alt)

interpretation ar: sequential_prefetcher adaptive_readahead_on_access ar_last ar_edge_of
  "\<lambda>ra. unat (ar_max_window ra)" ar_ok
proof
  fix ra p b
  assume "ar_ok ra" "ar_last ra \<noteq> Some (b - 1)"
  then show "\<exists>ra'. adaptive_readahead_on_access ra p b = Inr (ra', p) \<and> ar_ok ra' \<and>
      unat (ar_max_window ra') = unat (ar_max_window ra) \<and> ar_last ra' = Some b \<and>
      ar_edge_of ra' = None"
    using ar_jump [of ra b p] by (auto simp: ar_view_defs)
next
  fix ra p b
  assume ok: "ar_ok ra" and seq: "ar_last ra = Some (b - 1)"
    and edge: "ar_edge_of ra = None \<or> ar_edge_of ra = Some (b + 1)"
  let ?ra = "ra\<lparr>ar_window := ar_refill_window ra, ar_edge := b + 1 + ar_refill_window ra,
                 ar_have_edge := True, ar_last_block := b, ar_have_last := True\<rparr>"
  have "ar_ok ?ra" using ok ar_refill_window_bounds [OF ok] by (simp add: ar_ok_def)
  moreover note ar_refill [OF seq ar_ok_max_pos [OF ok] edge, of p] ar_refill_window_bounds [OF ok]
  ultimately show "\<exists>w ra'. 0 < unat w \<and> unat w \<le> unat (ar_max_window ra) \<and> ar_ok ra' \<and>
      unat (ar_max_window ra') = unat (ar_max_window ra) \<and>
      adaptive_readahead_on_access ra p b =
        bindR (buffer_pool_prefetch_range p (b + 1) w) (\<lambda>p'. Inr (ra', p')) \<and>
      ar_last ra' = Some b \<and> ar_edge_of ra' = Some (b + 1 + w)"
    by (intro exI [of _ "ar_refill_window ra"] exI [of _ ?ra])
      (simp add: ar_last_def ar_edge_of_def word_le_nat_alt)
next
  fix ra p b e
  assume "ar_ok ra" "ar_last ra = Some (b - 1)" "ar_edge_of ra = Some e" "e \<noteq> b + 1"
  then show "\<exists>ra'. adaptive_readahead_on_access ra p b = Inr (ra', p) \<and> ar_ok ra' \<and>
      unat (ar_max_window ra') = unat (ar_max_window ra) \<and> ar_last ra' = Some b \<and>
      ar_edge_of ra' = Some e"
    using ar_ok_max_pos [of ra]
    by (auto simp: adaptive_readahead_on_access_def ar_view_defs add.commute [of 1]
        split: if_splits)
qed

section \<open>The policy as a driver\<close>

lemma ar_inside:
  assumes "ar_last ra = Some (b - 1)" and "0 < ar_max_window ra"
    and "ar_edge_of ra = Some e" and "e \<noteq> b + 1"
  shows "adaptive_readahead_on_access ra p b =
    Inr (ra\<lparr>ar_last_block := b, ar_have_last := True\<rparr>, p)"
  using assms
  by (auto simp: adaptive_readahead_on_access_def ar_view_defs add.commute [of 1] split: if_splits)

lemma ar_on_access_safe:
  assumes "bp_wf p"
  shows "\<exists>ra' p'. adaptive_readahead_on_access ra p b = Inr (ra', p') \<and> bp_wf p' \<and>
    unat (bp_capacity p') = unat (bp_capacity p) \<and>
    bp_hits p' = bp_hits p \<and> bp_misses p' = bp_misses p"
proof -
  note pf = fifo.prefetch_loop [OF assms, folded buffer_pool_prefetch_range_def]
  consider (jump) "ar_last ra \<noteq> Some (b - 1) \<or> ar_max_window ra = 0"
    | (refill) "ar_last ra = Some (b - 1)" "0 < ar_max_window ra"
        "ar_edge_of ra = None \<or> ar_edge_of ra = Some (b + 1)"
    | (inside) e where "ar_last ra = Some (b - 1)" "0 < ar_max_window ra"
        "ar_edge_of ra = Some e" "e \<noteq> b + 1"
    by (cases "ar_edge_of ra") (auto simp: word_gt_0)
  then show ?thesis
  proof cases
    case jump
    then show ?thesis using assms ar_jump [of ra b p] by auto
  next
    case refill
    then show ?thesis using pf [of "b + 1" "ar_refill_window ra"] ar_refill [OF refill] by auto
  next
    case inside
    then show ?thesis using ar_inside [OF inside] assms by auto
  qed
qed

interpretation ar_driver: prefetch_driver buffer_pool_lookup buffer_pool_insert bp_queue
  "\<lambda>p. unat (bp_capacity p)" bp_hits bp_misses bp_wf adaptive_readahead_on_access
  by unfold_locales (rule ar_on_access_safe)

section \<open>Properties\<close>

text \<open>
  The adaptive window stays between its bounds and grows only when the stream consumes what was
  prefetched: a call keeps \<open>min_window \<le> window \<le> max_window\<close> (for bounds below
  \<open>2^63\<close>, where doubling does not wrap), a jump resets the window to its minimum, and
  otherwise it stays or doubles up to its maximum.
\<close>

theorem adaptive_window_bounds:
  assumes "ar_ok ra" and "bp_wf p"
  shows "\<exists>ra' p'. adaptive_readahead_on_access ra p b = Inr (ra', p') \<and> ar_ok ra' \<and>
    ar_min_window ra' = ar_min_window ra \<and> ar_max_window ra' = ar_max_window ra \<and>
    (if ar_have_last ra \<and> b = ar_last_block ra + 1
     then unat (ar_window ra') = unat (ar_window ra) \<or>
          unat (ar_window ra') = min (2 * unat (ar_window ra)) (unat (ar_max_window ra))
     else ar_window ra' = ar_min_window ra)"
proof -
  note pf = fifo.prefetch_loop [OF assms(2), folded buffer_pool_prefetch_range_def]
  obtain p1 p2 where
    "buffer_pool_prefetch_range p (b + 1) (ar_window ra) = Inr p1"
    "buffer_pool_prefetch_range p (ar_edge ra) (ar_grow ra) = Inr p2"
    using pf [of "b + 1" "ar_window ra"] pf [of "ar_edge ra" "ar_grow ra"] by blast
  then show ?thesis
    using assms(1) ar_ok_max_pos [OF assms(1)] ar_grow_bounds [OF assms(1)] ar_grow_unat [OF assms(1)]
    by (auto simp: adaptive_readahead_on_access_def Let_def ar_grow_def [symmetric] ar_ok_def)
qed

text \<open>
  The adaptive read-ahead also serves a sequential stream with two misses, for every pair of
  bounds up to the capacity: growing the window never lets the stream run past it.
\<close>

theorem adaptive_sequential_scan:
  assumes "bp_wf p" and "ar_ok ra" and "ar_max_window ra \<le> bp_capacity p"
    and "\<not> (ar_have_last ra \<and> s = ar_last_block ra + 1)" and "reads_succeed pread"
    and "unat s + n + unat (ar_max_window ra) < 2 ^ 64" and "2 \<le> n"
    and "\<forall>x \<in> set (bp_queue p). x < s"
  shows "\<exists>p' ra' w'. foldR (access_step buffer_pool_lookup buffer_pool_insert
      adaptive_readahead_on_access pread bs) (blocks_from s n) (p, ra, w) = Inr (p', ra', w') \<and>
    bp_wf p' \<and> bp_hits p' = bp_hits p + of_nat (n - 2) \<and> bp_misses p' = bp_misses p + 2"
  using ar.sequential_scan [OF assms(1,2) _ assms(5) _ assms(6,7), of bs w] assms(3,4,8)
  by (auto simp: ar_sequential_iff word_le_nat_alt word_less_nat_alt)

section \<open>Concrete runs\<close>

lemma sample_ar_ok: "ar_ok (adaptive_readahead_init 1 3)"
  by (simp add: ar_ok_def adaptive_readahead_init_def)

theorem adaptive_window_bounds_witness:
  "\<exists>ra' p'. adaptive_readahead_on_access (adaptive_readahead_init 1 3) sample_pool 4 = Inr (ra', p') \<and>
     ar_ok ra' \<and> ar_window ra' = 1"
  using adaptive_window_bounds [OF sample_ar_ok sample_pool_wf, of 4]
  by (auto simp: adaptive_readahead_init_def)

theorem adaptive_sequential_scan_witness:
  "\<exists>p' ra' w'. foldR (access_step buffer_pool_lookup buffer_pool_insert adaptive_readahead_on_access
      (\<lambda>w off. (0, w)) 8) (blocks_from 20 9) (sample_pool, adaptive_readahead_init 1 3, ()) =
      Inr (p', ra', w') \<and>
    bp_wf p' \<and> bp_hits p' = bp_hits sample_pool + of_nat (9 - 2) \<and> bp_misses p' = bp_misses sample_pool + 2"
proof (rule adaptive_sequential_scan [OF sample_pool_wf sample_ar_ok])
  show "\<forall>x \<in> set (bp_queue sample_pool). x < 20"
    by (simp only: sample_pool_queue) simp
qed (simp_all add: sample_pool_def adaptive_readahead_init_def reads_succeed_def)

end
