(* ===== verification/LruBufferPool.thy ===== *)
theory LruBufferPool
  imports BufferPool
begin

text \<open>
  The LRU block cache of \<open>prefetch-sim/src/lru_buffer_pool.c\<close>: the array of the FIFO cache
  with a logical clock and a last-use stamp per slot. Memory safety (\<open>lru_wf\<close>) holds for
  every value of the clock; the eviction order is least-recently-used as long as the 64-bit clock
  does not wrap, and is specified by the recency queue \<open>lru_queue\<close> and \<open>lru_touch\<close>.
\<close>

section \<open>State and operations\<close>

record LruBufferPool =
  lru_capacity :: size_t
  lru_block_size :: size_t
  lru_slots :: "size_t list"
  lru_last_used :: "size_t list"
  lru_count :: size_t
  lru_clock :: size_t
  lru_hits :: size_t
  lru_misses :: size_t

text \<open>The two calls of \<open>malloc\<close> may answer differently, so each is a parameter.\<close>

definition lru_buffer_pool_init ::
  "(size_t \<Rightarrow> size_t list option) \<Rightarrow> (size_t \<Rightarrow> size_t list option) \<Rightarrow>
   size_t \<Rightarrow> size_t \<Rightarrow> LruBufferPool res" where
  "lru_buffer_pool_init malloc1 malloc2 capacity block_size =
     (case (malloc1 (capacity * 8), malloc2 (capacity * 8)) of
        (Some a, Some b) \<Rightarrow>
          Inr \<lparr>lru_capacity = capacity, lru_block_size = block_size, lru_slots = a,
               lru_last_used = b, lru_count = 0, lru_clock = 0, lru_hits = 0, lru_misses = 0\<rparr>
      | _ \<Rightarrow> Inl Exit_failure)"

definition lru_buffer_pool_destroy :: "LruBufferPool \<Rightarrow> LruBufferPool" where
  "lru_buffer_pool_destroy p = p\<lparr>lru_slots := [], lru_last_used := []\<rparr>"

definition lru_buffer_pool_lookup ::
  "LruBufferPool \<Rightarrow> size_t \<Rightarrow> (bool \<times> LruBufferPool) res" where
  "lru_buffer_pool_lookup p block_num =
     bindR (arr_find (lru_slots p) (lru_count p) block_num 0)
       (\<lambda>r. case r of
          Some i \<Rightarrow>
            bindR (arr_set (lru_last_used p) i (lru_clock p + 1))
              (\<lambda>u. Inr (True, p\<lparr>lru_hits := lru_hits p + 1, lru_clock := lru_clock p + 1,
                                lru_last_used := u\<rparr>))
        | None \<Rightarrow> Inr (False, p\<lparr>lru_misses := lru_misses p + 1\<rparr>))"

text \<open>The linear search for the slot with the smallest stamp.\<close>

definition lru_victim :: "size_t list \<Rightarrow> size_t \<Rightarrow> size_t res" where
  "lru_victim last_used n =
     for_c (\<lambda>i victim.
        bindR (arr_get last_used i) (\<lambda>a.
        bindR (arr_get last_used victim) (\<lambda>m. Inr (if a < m then i else victim)))) n 1 0"

definition lru_buffer_pool_insert :: "LruBufferPool \<Rightarrow> size_t \<Rightarrow> LruBufferPool res" where
  "lru_buffer_pool_insert p block_num =
     bindR (arr_find (lru_slots p) (lru_count p) block_num 0)
       (\<lambda>r. case r of
          Some i \<Rightarrow>
            bindR (arr_set (lru_last_used p) i (lru_clock p + 1))
              (\<lambda>u. Inr (p\<lparr>lru_clock := lru_clock p + 1, lru_last_used := u\<rparr>))
        | None \<Rightarrow>
            if lru_count p < lru_capacity p
            then bindR (arr_set (lru_slots p) (lru_count p) block_num) (\<lambda>s.
                 bindR (arr_set (lru_last_used p) (lru_count p) (lru_clock p + 1)) (\<lambda>u.
                 Inr (p\<lparr>lru_clock := lru_clock p + 1, lru_slots := s, lru_last_used := u,
                        lru_count := lru_count p + 1\<rparr>)))
            else bindR (lru_victim (lru_last_used p) (lru_count p)) (\<lambda>victim.
                 bindR (arr_set (lru_slots p) victim block_num) (\<lambda>s.
                 bindR (arr_set (lru_last_used p) victim (lru_clock p + 1)) (\<lambda>u.
                 Inr (p\<lparr>lru_clock := lru_clock p + 1, lru_slots := s, lru_last_used := u\<rparr>)))))"

definition lru_buffer_pool_prefetch_range ::
  "LruBufferPool \<Rightarrow> size_t \<Rightarrow> size_t \<Rightarrow> LruBufferPool res" where
  "lru_buffer_pool_prefetch_range p start_block cnt =
     for_c (\<lambda>i q. lru_buffer_pool_insert q (start_block + i)) cnt 0 p"

definition lru_buffer_pool_hits :: "LruBufferPool \<Rightarrow> size_t" where
  "lru_buffer_pool_hits p = lru_hits p"

definition lru_buffer_pool_misses :: "LruBufferPool \<Rightarrow> size_t" where
  "lru_buffer_pool_misses p = lru_misses p"

section \<open>Invariant and recency queue\<close>

definition lru_contents :: "LruBufferPool \<Rightarrow> size_t list" where
  "lru_contents p = take (unat (lru_count p)) (lru_slots p)"

definition lru_stamps :: "LruBufferPool \<Rightarrow> size_t list" where
  "lru_stamps p = take (unat (lru_count p)) (lru_last_used p)"

definition lru_wf :: "LruBufferPool \<Rightarrow> bool" where
  "lru_wf p \<longleftrightarrow>
     lru_capacity p \<noteq> 0 \<and> length (lru_slots p) = unat (lru_capacity p) \<and>
     length (lru_last_used p) = unat (lru_capacity p) \<and> lru_count p \<le> lru_capacity p \<and>
     distinct (lru_contents p)"

text \<open>The stamps tell the slots apart and are not in the future.\<close>

definition lru_timed :: "LruBufferPool \<Rightarrow> bool" where
  "lru_timed p \<longleftrightarrow> distinct (lru_stamps p) \<and> (\<forall>u \<in> set (lru_stamps p). u \<le> lru_clock p)"

definition recency :: "(size_t \<times> size_t) list \<Rightarrow> size_t list" where
  "recency ps = map fst (sort_key snd ps)"

text \<open>The cached blocks, least recently used first.\<close>

definition lru_queue :: "LruBufferPool \<Rightarrow> size_t list" where
  "lru_queue p = recency (zip (lru_contents p) (lru_stamps p))"

definition lru_touch :: "nat \<Rightarrow> 'a \<Rightarrow> 'a list \<Rightarrow> 'a list" where
  "lru_touch cap b q =
     (if b \<in> set q then remove1 b q @ [b]
      else if length q < cap then q @ [b] else tl q @ [b])"

lemma map_remove1_inj:
  "inj_on f (insert x (set xs)) \<Longrightarrow> map f (remove1 x xs) = remove1 (f x) (map f xs)"
  by (induction xs) (auto simp: inj_on_def)

lemma recency_snoc:
  assumes "distinct (map snd ps)" and "\<forall>x \<in> set ps. snd x < c"
  shows "recency (ps @ [(b, c)]) = recency ps @ [b]"
proof -
  have "sort_key snd (ps @ [(b, c)]) = sort_key snd ps @ [(b, c)]"
  proof (rule sort_key_inj_key_eq)
    show "inj_on snd (set (ps @ [(b, c)]))"
      using assms by (auto simp: distinct_map)
    show "sorted (map snd (sort_key snd ps @ [(b, c)]))"
      using assms(2) by (auto simp: sorted_append intro: less_imp_le)
  qed simp
  then show ?thesis by (simp add: recency_def)
qed

text \<open>Overwriting slot \<open>i\<close> with a newer stamp moves it to the recent end of the order.\<close>

lemma sort_key_overwrite:
  assumes d: "distinct (map snd ps)" and newer: "\<forall>x \<in> set ps. snd x < c" and i: "i < length ps"
  shows "sort_key snd (ps[i := (b, c)]) = remove1 (ps ! i) (sort_key snd ps) @ [(b, c)]"
proof (rule sort_key_inj_key_eq)
  have mem: "x \<in> set ps" if "x \<in> set (remove1 (ps ! i) (sort_key snd ps))" for x
    using that notin_set_remove1 by fastforce
  have set_upd: "set (ps[i := (b, c)]) \<subseteq> insert (b, c) (set ps)"
    by (rule set_update_subset_insert)
  show "mset (ps[i := (b, c)]) = mset (remove1 (ps ! i) (sort_key snd ps) @ [(b, c)])"
    using i by (simp add: mset_update)
  have "inj_on snd (insert (b, c) (set ps))"
    using d newer by (auto simp: distinct_map)
  then show "inj_on snd (set (ps[i := (b, c)]))"
    using set_upd by (rule inj_on_subset)
  show "sorted (map snd (remove1 (ps ! i) (sort_key snd ps) @ [(b, c)]))"
    using newer mem by (auto simp: sorted_append sorted_map_remove1 intro: less_imp_le)
qed

lemma recency_overwrite:
  assumes "distinct (map fst ps)" and "distinct (map snd ps)"
    and "\<forall>x \<in> set ps. snd x < c" and "i < length ps"
  shows "recency (ps[i := (b, c)]) = remove1 (fst (ps ! i)) (recency ps) @ [b]"
proof -
  have "inj_on fst (insert (ps ! i) (set (sort_key snd ps)))"
    using assms(1,4) by (auto simp: distinct_map insert_absorb)
  then show ?thesis
    using sort_key_overwrite [OF assms(2-4)] by (simp add: recency_def map_remove1_inj)
qed

text \<open>The slot with the smallest stamp holds the head of the queue.\<close>

lemma recency_hd:
  assumes "distinct (map snd ps)" and i: "i < length ps" and least: "\<forall>x \<in> set ps. snd (ps ! i) \<le> snd x"
  shows "remove1 (fst (ps ! i)) (recency ps) = tl (recency ps)"
proof -
  obtain y ys where ys: "sort_key snd ps = y # ys"
    using i by (metis length_0_conv length_sort list.exhaust not_less_zero)
  have "set (y # ys) = set ps" using ys by (metis set_sort)
  then have y: "y \<in> set ps" and in_i: "ps ! i \<in> set (y # ys)" using i by auto
  have "sorted (map snd (y # ys))" using ys by (metis sorted_sort_key)
  then have "snd y \<le> snd (ps ! i)" using in_i by auto
  with least y have "snd y = snd (ps ! i)" by force
  with assms(1) y i have "y = ps ! i"
    by (auto simp: distinct_map inj_on_def)
  with ys show ?thesis by (simp add: recency_def)
qed

section \<open>Insertion refines the recency queue\<close>

lemma lru_victim_least:
  assumes "unat n \<le> length u" and "n \<noteq> 0"
  shows "\<exists>v. lru_victim u n = Inr v \<and> unat v < unat n \<and> (\<forall>k < unat n. u ! unat v \<le> u ! k)"
proof -
  let ?f = "\<lambda>i victim. bindR (arr_get u i) (\<lambda>a.
        bindR (arr_get u victim) (\<lambda>m. Inr (if a < m then i else victim)))"
  let ?xs = "map of_nat [1..<unat n] :: size_t list"
  let ?P = "\<lambda>ys v. v \<in> insert 0 (set ys) \<and> (\<forall>j \<in> insert 0 (set ys). u ! unat v \<le> u ! unat j)"
  have small: "unat (of_nat k :: size_t) = k" if "k < unat n" for k
    using that size_t_bound [of n] by (simp add: unat_of_nat)
  have idx: "unat j < unat n" if "j \<in> insert 0 (set ?xs)" for j
    using that small assms(2) by (auto simp: unat_gt_0)
  have "\<exists>v. foldR ?f ?xs 0 = Inr v \<and> ?P ?xs v"
  proof (rule foldR_invariant)
    fix ys x v
    assume sub: "set (ys @ [x]) \<subseteq> set ?xs" and P: "?P ys v"
    then have "unat x < unat n" "unat v < unat n" by (auto intro!: idx)
    with assms(1) have "?f x v = Inr (if u ! unat x < u ! unat v then x else v)"
      by (simp add: res_simps)
    moreover have "?P (ys @ [x]) (if u ! unat x < u ! unat v then x else v)"
      using P by force
    ultimately show "\<exists>v'. ?f x v = Inr v' \<and> ?P (ys @ [x]) v'" by blast
  qed simp
  then obtain v where v: "lru_victim u n = Inr v" "v \<in> insert 0 (set ?xs)"
    "\<forall>j \<in> insert 0 (set ?xs). u ! unat v \<le> u ! unat j"
    by (auto simp: lru_victim_def for_c_foldR)
  have "u ! unat v \<le> u ! k" if "k < unat n" for k
  proof -
    have "of_nat k \<in> insert (0 :: size_t) (set ?xs)"
      using that by (cases "k = 0") auto
    with v(3) have "u ! unat v \<le> u ! unat (of_nat k :: size_t)" by blast
    then show ?thesis by (simp only: small [OF that])
  qed
  then show ?thesis using v(1) idx [OF v(2)] by blast
qed

text \<open>All three branches stamp one slot; the two that reuse a slot are the same update.\<close>

definition lru_put :: "LruBufferPool \<Rightarrow> nat \<Rightarrow> size_t \<Rightarrow> LruBufferPool" where
  "lru_put p i b = p\<lparr>lru_clock := lru_clock p + 1, lru_slots := (lru_slots p)[i := b],
                      lru_last_used := (lru_last_used p)[i := lru_clock p + 1]\<rparr>"

lemma lru_put_fields [simp]:
  "lru_capacity (lru_put p i b) = lru_capacity p" "lru_count (lru_put p i b) = lru_count p"
  "lru_clock (lru_put p i b) = lru_clock p + 1" "lru_hits (lru_put p i b) = lru_hits p"
  "lru_misses (lru_put p i b) = lru_misses p"
  "lru_slots (lru_put p i b) = (lru_slots p)[i := b]"
  "lru_last_used (lru_put p i b) = (lru_last_used p)[i := lru_clock p + 1]"
  by (simp_all add: lru_put_def)

lemma lru_lengths:
  assumes "lru_wf p"
  shows "length (lru_contents p) = unat (lru_count p)" "length (lru_stamps p) = unat (lru_count p)"
    "unat (lru_count p) \<le> unat (lru_capacity p)" "0 < unat (lru_capacity p)"
    "unat (lru_count p) \<le> length (lru_slots p)" "unat (lru_count p) \<le> length (lru_last_used p)"
  using assms by (simp_all add: lru_wf_def lru_contents_def lru_stamps_def word_le_nat_alt unat_gt_0)

lemma set_lru_queue:
  assumes "lru_wf p"
  shows "set (lru_queue p) = set (lru_contents p)"
proof -
  have "set (lru_queue p) = set (map fst (zip (lru_contents p) (lru_stamps p)))"
    by (simp add: lru_queue_def recency_def)
  also have "map fst (zip (lru_contents p) (lru_stamps p)) = lru_contents p"
    using assms by (simp add: lru_lengths)
  finally show ?thesis .
qed

lemma length_lru_queue: "lru_wf p \<Longrightarrow> length (lru_queue p) = unat (lru_count p)"
  by (simp add: lru_queue_def recency_def lru_lengths)

lemma lru_queue_distinct:
  assumes "lru_wf p"
  shows "distinct (lru_queue p)"
proof (rule card_distinct)
  have "card (set (lru_contents p)) = length (lru_contents p)"
    using assms by (intro distinct_card) (simp add: lru_wf_def)
  with assms show "card (set (lru_queue p)) = length (lru_queue p)"
    by (simp add: set_lru_queue length_lru_queue lru_lengths)
qed

lemma lru_put_contents:
  assumes "i < unat (lru_count p)"
  shows "lru_contents (lru_put p i b) = (lru_contents p)[i := b]"
    and "lru_stamps (lru_put p i b) = (lru_stamps p)[i := lru_clock p + 1]"
  using assms by (simp_all add: lru_contents_def lru_stamps_def take_update_in)

lemma lru_put_wf:
  assumes "lru_wf p" and "i < unat (lru_count p)"
    and "b \<notin> set (lru_contents p) \<or> lru_contents p ! i = b"
  shows "lru_wf (lru_put p i b)"
proof -
  have "distinct ((lru_contents p)[i := b])"
    using assms(1,3) by (auto simp: lru_wf_def intro: distinct_update_fresh)
  with assms(1,2) show ?thesis by (simp add: lru_wf_def lru_put_contents)
qed

text \<open>With room on the clock, an older stamp is strictly below the next one.\<close>

lemma lru_stamps_older:
  assumes "lru_timed p" and "unat (lru_clock p) + 1 < 2 ^ 64"
  shows "\<forall>u \<in> set (lru_stamps p). u < lru_clock p + 1"
proof -
  have "unat (lru_clock p + 1) = unat (lru_clock p) + 1"
    using assms(2) by (simp add: unat_plus_64)
  then show ?thesis
    using assms(1) by (auto simp: lru_timed_def word_less_nat_alt word_le_nat_alt le_imp_less_Suc)
qed

lemma lru_put_order:
  assumes wf: "lru_wf p" and tm: "lru_timed p" and clk: "unat (lru_clock p) + 1 < 2 ^ 64"
    and i: "i < unat (lru_count p)"
  shows "lru_timed (lru_put p i b)"
    and "lru_queue (lru_put p i b) = remove1 (lru_contents p ! i) (lru_queue p) @ [b]"
proof -
  note older = lru_stamps_older [OF tm clk]
  let ?ps = "zip (lru_contents p) (lru_stamps p)"
  have len: "length (lru_contents p) = length (lru_stamps p)" using wf by (simp add: lru_lengths)
  show "lru_timed (lru_put p i b)"
    unfolding lru_timed_def lru_put_contents [OF i]
  proof
    show "distinct ((lru_stamps p)[i := lru_clock p + 1])"
      using tm older by (auto simp: lru_timed_def intro!: distinct_update_fresh)
    show "\<forall>u \<in> set ((lru_stamps p)[i := lru_clock p + 1]). u \<le> lru_clock (lru_put p i b)"
      using older set_update_subset_insert [of "lru_stamps p" i "lru_clock p + 1"]
      by (auto intro: less_imp_le)
  qed
  have "recency (?ps[i := (b, lru_clock p + 1)]) = remove1 (fst (?ps ! i)) (recency ?ps) @ [b]"
  proof (rule recency_overwrite)
    show "distinct (map fst ?ps)" "distinct (map snd ?ps)"
      using wf tm len by (simp_all add: lru_wf_def lru_timed_def)
    show "\<forall>x \<in> set ?ps. snd x < lru_clock p + 1"
      using older by (auto dest: set_zip_rightD)
    show "i < length ?ps" using i wf by (simp add: lru_lengths)
  qed
  then show "lru_queue (lru_put p i b) = remove1 (lru_contents p ! i) (lru_queue p) @ [b]"
    using i wf by (simp add: lru_queue_def lru_put_contents zip_update lru_lengths)
qed

text \<open>The insertion, branch by branch.\<close>

lemma lru_insert_present:
  assumes wf: "lru_wf p" and mem: "b \<in> set (lru_contents p)"
  shows "\<exists>i < unat (lru_count p). lru_contents p ! i = b \<and>
    lru_buffer_pool_insert p b = Inr (lru_put p i b) \<and>
    lru_buffer_pool_lookup p b = Inr (True, (lru_put p i b)\<lparr>lru_hits := lru_hits p + 1\<rparr>)"
proof -
  obtain j where j: "arr_find (lru_slots p) (lru_count p) b 0 = Inr (Some j)"
    "unat j < unat (lru_count p)" "lru_slots p ! unat j = b"
    using arr_find_present [of "lru_count p" "lru_slots p" b] mem lru_lengths(5) [OF wf]
    by (auto simp: lru_contents_def)
  then have "unat j < length (lru_last_used p)" using lru_lengths(6) [OF wf] by simp
  then have "lru_buffer_pool_insert p b = Inr (lru_put p (unat j) b)"
    "lru_buffer_pool_lookup p b = Inr (True, (lru_put p (unat j) b)\<lparr>lru_hits := lru_hits p + 1\<rparr>)"
    using j(1) list_update_id [of "lru_slots p" "unat j"]
    by (simp_all add: lru_buffer_pool_insert_def lru_buffer_pool_lookup_def lru_put_def res_simps j(3))
  then show ?thesis using j(2,3) by (auto simp: lru_contents_def)
qed

lemma lru_find_absent:
  "lru_wf p \<Longrightarrow> b \<notin> set (lru_contents p) \<Longrightarrow>
   arr_find (lru_slots p) (lru_count p) b 0 = Inr None"
  by (rule arr_find_absent) (simp_all add: lru_lengths lru_contents_def)

lemma lru_insert_room:
  assumes wf: "lru_wf p" and new: "b \<notin> set (lru_contents p)" and room: "lru_count p < lru_capacity p"
  defines "p' \<equiv> p\<lparr>lru_clock := lru_clock p + 1,
                   lru_slots := (lru_slots p)[unat (lru_count p) := b],
                   lru_last_used := (lru_last_used p)[unat (lru_count p) := lru_clock p + 1],
                   lru_count := lru_count p + 1\<rparr>"
  shows "lru_buffer_pool_insert p b = Inr p'" and "lru_wf p'"
    and "lru_contents p' = lru_contents p @ [b]"
    and "lru_stamps p' = lru_stamps p @ [lru_clock p + 1]"
proof -
  have len: "unat (lru_count p) < length (lru_slots p)" "unat (lru_count p) < length (lru_last_used p)"
    using wf room by (simp_all add: lru_wf_def word_less_nat_alt)
  show "lru_buffer_pool_insert p b = Inr p'"
    using lru_find_absent [OF wf new] room len
    by (simp add: lru_buffer_pool_insert_def p'_def res_simps)
  show contents: "lru_contents p' = lru_contents p @ [b]"
    using len by (simp add: lru_contents_def p'_def unat_Suc_less [OF room] take_Suc_update)
  show "lru_stamps p' = lru_stamps p @ [lru_clock p + 1]"
    using len by (simp add: lru_stamps_def p'_def unat_Suc_less [OF room] take_Suc_update)
  show "lru_wf p'"
    using wf new room contents
    by (simp add: lru_wf_def p'_def word_le_nat_alt word_less_nat_alt unat_Suc_less [OF room])
qed

lemma lru_insert_room_order:
  assumes wf: "lru_wf p" and tm: "lru_timed p" and clk: "unat (lru_clock p) + 1 < 2 ^ 64"
    and p': "lru_contents p' = lru_contents p @ [b]"
      "lru_stamps p' = lru_stamps p @ [lru_clock p + 1]" "lru_clock p' = lru_clock p + 1"
  shows "lru_timed p'" and "lru_queue p' = lru_queue p @ [b]"
proof -
  note older = lru_stamps_older [OF tm clk]
  let ?ps = "zip (lru_contents p) (lru_stamps p)"
  have len: "length (lru_contents p) = length (lru_stamps p)" using wf by (simp add: lru_lengths)
  show "lru_timed p'"
    using tm older by (auto simp: lru_timed_def p' intro: less_imp_le)
  have "recency (?ps @ [(b, lru_clock p + 1)]) = recency ?ps @ [b]"
    using tm older len by (intro recency_snoc) (auto simp: lru_timed_def dest: set_zip_rightD)
  then show "lru_queue p' = lru_queue p @ [b]"
    using len by (simp add: lru_queue_def p')
qed

lemma lru_insert_full:
  assumes wf: "lru_wf p" and new: "b \<notin> set (lru_contents p)" and full: "\<not> lru_count p < lru_capacity p"
  shows "\<exists>v < unat (lru_count p). lru_buffer_pool_insert p b = Inr (lru_put p v b) \<and>
    (\<forall>k < unat (lru_count p). lru_stamps p ! v \<le> lru_stamps p ! k)"
proof -
  from wf full have "lru_count p = lru_capacity p" by (simp add: lru_wf_def)
  with wf have "lru_count p \<noteq> 0" by (simp add: lru_wf_def)
  then obtain v where v: "lru_victim (lru_last_used p) (lru_count p) = Inr v"
    "unat v < unat (lru_count p)"
    "\<forall>k < unat (lru_count p). lru_last_used p ! unat v \<le> lru_last_used p ! k"
    using lru_victim_least lru_lengths(6) [OF wf] by blast
  with lru_find_absent [OF wf new] full lru_lengths(5,6) [OF wf]
  have "lru_buffer_pool_insert p b = Inr (lru_put p (unat v) b)"
    by (simp add: lru_buffer_pool_insert_def lru_put_def res_simps)
  with v show ?thesis by (auto simp: lru_stamps_def)
qed

lemma lru_evict_head:
  assumes "lru_wf p" and "lru_timed p" and "v < unat (lru_count p)"
    and "\<forall>k < unat (lru_count p). lru_stamps p ! v \<le> lru_stamps p ! k"
  shows "remove1 (lru_contents p ! v) (lru_queue p) = tl (lru_queue p)"
proof -
  let ?ps = "zip (lru_contents p) (lru_stamps p)"
  have len: "length (lru_contents p) = length (lru_stamps p)"
    "length (lru_stamps p) = unat (lru_count p)" using assms(1) by (simp_all add: lru_lengths)
  have "remove1 (fst (?ps ! v)) (recency ?ps) = tl (recency ?ps)"
  proof (rule recency_hd)
    show "distinct (map snd ?ps)" using assms(2) len by (simp add: lru_timed_def)
    show "v < length ?ps" using assms(3) len by simp
    show "\<forall>x \<in> set ?ps. snd (?ps ! v) \<le> snd x"
      using assms(3,4) len by (auto simp: in_set_zip)
  qed
  then show ?thesis using assms(3) len by (simp add: lru_queue_def)
qed

text \<open>Safety of the insertion, whatever the clock; and its refinement while the clock has room.\<close>

lemma lru_insert_step:
  assumes wf: "lru_wf p"
  shows "\<exists>p'. lru_buffer_pool_insert p b = Inr p' \<and> lru_wf p' \<and>
    b \<in> set (lru_contents p') \<and> set (lru_contents p') \<subseteq> insert b (set (lru_contents p)) \<and>
    lru_capacity p' = lru_capacity p \<and> lru_hits p' = lru_hits p \<and>
    lru_misses p' = lru_misses p \<and> lru_clock p' = lru_clock p + 1"
proof (cases "b \<in> set (lru_contents p)")
  case True
  then obtain i where i: "i < unat (lru_count p)" "lru_contents p ! i = b"
    "lru_buffer_pool_insert p b = Inr (lru_put p i b)"
    using lru_insert_present [OF wf] by blast
  then have "lru_contents (lru_put p i b) = lru_contents p"
    by (simp add: lru_put_contents list_update_same_conv lru_lengths [OF wf])
  with i True lru_put_wf [OF wf i(1)] show ?thesis by auto
next
  case new: False
  show ?thesis
  proof (cases "lru_count p < lru_capacity p")
    case True
    from lru_insert_room [OF wf new True] show ?thesis by simp
  next
    case False
    then obtain v where v: "v < unat (lru_count p)" "lru_buffer_pool_insert p b = Inr (lru_put p v b)"
      using lru_insert_full [OF wf new] by blast
    have "b \<in> set ((lru_contents p)[v := b])"
      using v(1) by (simp add: set_update_memI lru_lengths [OF wf])
    with v lru_put_wf [OF wf v(1)] new show ?thesis
      using set_update_subset_insert [of "lru_contents p" v b] by (auto simp: lru_put_contents)
  qed
qed

lemma lru_insert_order:
  assumes wf: "lru_wf p" and tm: "lru_timed p" and clk: "unat (lru_clock p) + 1 < 2 ^ 64"
  shows "\<exists>p'. lru_buffer_pool_insert p b = Inr p' \<and> lru_timed p' \<and>
    lru_queue p' = lru_touch (unat (lru_capacity p)) b (lru_queue p)"
proof (cases "b \<in> set (lru_contents p)")
  case True
  then obtain i where "i < unat (lru_count p)" "lru_contents p ! i = b"
    "lru_buffer_pool_insert p b = Inr (lru_put p i b)"
    using lru_insert_present [OF wf] by blast
  with lru_put_order [OF wf tm clk] True show ?thesis
    by (simp add: lru_touch_def set_lru_queue [OF wf])
next
  case new: False
  show ?thesis
  proof (cases "lru_count p < lru_capacity p")
    case True
    let ?p' = "p\<lparr>lru_clock := lru_clock p + 1,
                   lru_slots := (lru_slots p)[unat (lru_count p) := b],
                   lru_last_used := (lru_last_used p)[unat (lru_count p) := lru_clock p + 1],
                   lru_count := lru_count p + 1\<rparr>"
    note room = lru_insert_room [OF wf new True]
    from lru_insert_room_order [OF wf tm clk room(3,4)]
    have "lru_timed ?p'" "lru_queue ?p' = lru_queue p @ [b]" by simp_all
    moreover have "length (lru_queue p) < unat (lru_capacity p)"
      using True by (simp add: length_lru_queue [OF wf] word_less_nat_alt)
    ultimately show ?thesis
      using room(1) new by (simp add: lru_touch_def set_lru_queue [OF wf])
  next
    case False
    then obtain v where v: "v < unat (lru_count p)" "lru_buffer_pool_insert p b = Inr (lru_put p v b)"
      "\<forall>k < unat (lru_count p). lru_stamps p ! v \<le> lru_stamps p ! k"
      using lru_insert_full [OF wf new] by blast
    have "\<not> length (lru_queue p) < unat (lru_capacity p)"
      using False by (simp add: length_lru_queue [OF wf] word_less_nat_alt)
    with v new lru_put_order [OF wf tm clk v(1)] lru_evict_head [OF wf tm v(1,3)] show ?thesis
      by (simp add: lru_touch_def set_lru_queue [OF wf])
  qed
qed

lemma lru_wf_hits [simp]: "lru_wf (p\<lparr>lru_hits := h\<rparr>) = lru_wf p"
  by (simp add: lru_wf_def lru_contents_def)

lemma lru_wf_misses [simp]: "lru_wf (p\<lparr>lru_misses := m\<rparr>) = lru_wf p"
  by (simp add: lru_wf_def lru_contents_def)

lemma lru_contents_stats [simp]:
  "lru_contents (p\<lparr>lru_hits := h\<rparr>) = lru_contents p"
  "lru_contents (p\<lparr>lru_misses := m\<rparr>) = lru_contents p"
  by (simp_all add: lru_contents_def)

lemma lru_lookup_step:
  assumes wf: "lru_wf p"
  shows "\<exists>p'. lru_buffer_pool_lookup p b = Inr (b \<in> set (lru_contents p), p') \<and> lru_wf p' \<and>
    lru_capacity p' = lru_capacity p \<and> set (lru_contents p') = set (lru_contents p) \<and>
    lru_hits p' = (if b \<in> set (lru_contents p) then lru_hits p + 1 else lru_hits p) \<and>
    lru_misses p' = (if b \<in> set (lru_contents p) then lru_misses p else lru_misses p + 1)"
proof (cases "b \<in> set (lru_contents p)")
  case True
  then obtain i where i: "i < unat (lru_count p)" "lru_contents p ! i = b"
    "lru_buffer_pool_lookup p b = Inr (True, (lru_put p i b)\<lparr>lru_hits := lru_hits p + 1\<rparr>)"
    using lru_insert_present [OF wf] by blast
  then have "lru_contents (lru_put p i b) = lru_contents p"
    by (simp add: lru_put_contents list_update_same_conv lru_lengths [OF wf])
  with i True lru_put_wf [OF wf i(1)] show ?thesis by auto
next
  case False
  with wf show ?thesis
    using lru_find_absent [OF wf False] by (simp add: lru_buffer_pool_lookup_def)
qed

section \<open>The cache interface\<close>

interpretation lru: block_cache lru_buffer_pool_lookup lru_buffer_pool_insert lru_queue
  "\<lambda>p. unat (lru_capacity p)" lru_hits lru_misses lru_wf
proof
  fix p b
  assume wf: "lru_wf p"
  show "distinct (lru_queue p)" by (rule lru_queue_distinct [OF wf])
  show "length (lru_queue p) \<le> unat (lru_capacity p)"
    using wf by (simp add: length_lru_queue lru_lengths)
  show "\<exists>p'. lru_buffer_pool_insert p b = Inr p' \<and> lru_wf p' \<and>
      unat (lru_capacity p') = unat (lru_capacity p) \<and> b \<in> set (lru_queue p') \<and>
      set (lru_queue p') \<subseteq> insert b (set (lru_queue p)) \<and>
      lru_hits p' = lru_hits p \<and> lru_misses p' = lru_misses p"
    using lru_insert_step [OF wf, of b] wf by (auto simp: set_lru_queue)
  show "\<exists>p'. lru_buffer_pool_lookup p b = Inr (b \<in> set (lru_queue p), p') \<and> lru_wf p' \<and>
      unat (lru_capacity p') = unat (lru_capacity p) \<and> set (lru_queue p') = set (lru_queue p) \<and>
      lru_hits p' = (if b \<in> set (lru_queue p) then lru_hits p + 1 else lru_hits p) \<and>
      lru_misses p' = (if b \<in> set (lru_queue p) then lru_misses p else lru_misses p + 1)"
    using lru_lookup_step [OF wf, of b] wf by (auto simp: set_lru_queue)
qed

section \<open>Prefetching a range\<close>

text \<open>
  Unlike the FIFO cache, the LRU cache refreshes a block that a range meets again, so a range
  that fits is always cached as a whole afterwards.
\<close>

lemma lru_touch_range:
  assumes "distinct bl" and "length bl \<le> cap" and "length q \<le> cap" and "distinct q"
  shows "\<exists>pre. fold (lru_touch cap) bl q = pre @ bl \<and> set pre \<inter> set bl = {} \<and> distinct pre \<and>
    length (pre @ bl) \<le> cap"
  using assms(1,2)
proof (induction bl rule: rev_induct)
  case Nil
  then show ?case using assms by auto
next
  case (snoc b bl)
  then obtain pre where pre: "fold (lru_touch cap) bl q = pre @ bl" "set pre \<inter> set bl = {}"
    "distinct pre" "length (pre @ bl) \<le> cap" by auto
  have b: "b \<notin> set bl" using snoc.prems by auto
  show ?case
  proof (cases "b \<in> set pre")
    case True
    then have "lru_touch cap b (pre @ bl) = remove1 b pre @ bl @ [b]"
      by (simp add: lru_touch_def remove1_append)
    moreover obtain m where "length pre = Suc m" using True by (cases pre) auto
    then have "length (remove1 b pre @ bl @ [b]) \<le> cap"
      using pre(4) True by (simp add: length_remove1)
    ultimately show ?thesis
      using pre b by (intro exI [of _ "remove1 b pre"]) (auto dest: notin_set_remove1)
  next
    case new: False
    show ?thesis
    proof (cases "length (pre @ bl) < cap")
      case True
      then have "lru_touch cap b (pre @ bl) = pre @ bl @ [b]"
        using new b by (simp add: lru_touch_def)
      with pre new b True show ?thesis by (intro exI [of _ pre]) auto
    next
      case False
      with snoc.prems(2) pre(4) obtain x pre' where x: "pre = x # pre'" by (cases pre) auto
      then have "lru_touch cap b (pre @ bl) = pre' @ bl @ [b]"
        using new b False by (simp add: lru_touch_def)
      with pre new b x show ?thesis by (intro exI [of _ pre']) auto
    qed
  qed
qed

lemma lru_insert_fold:
  assumes "lru_wf p" and "lru_timed p" and "unat (lru_clock p) + length bl < 2 ^ 64"
  shows "\<exists>p'. foldR (\<lambda>b q. lru_buffer_pool_insert q b) bl p = Inr p' \<and> lru_wf p' \<and> lru_timed p' \<and>
    lru_queue p' = fold (lru_touch (unat (lru_capacity p))) bl (lru_queue p) \<and>
    lru_capacity p' = lru_capacity p \<and> lru_hits p' = lru_hits p \<and> lru_misses p' = lru_misses p \<and>
    unat (lru_clock p') = unat (lru_clock p) + length bl"
  using assms(3)
proof (induction bl rule: rev_induct)
  case Nil
  then show ?case using assms by simp
next
  case (snoc b bl)
  then obtain q where q: "foldR (\<lambda>b q. lru_buffer_pool_insert q b) bl p = Inr q" "lru_wf q"
    "lru_timed q" "lru_queue q = fold (lru_touch (unat (lru_capacity p))) bl (lru_queue p)"
    "lru_capacity q = lru_capacity p" "lru_hits q = lru_hits p" "lru_misses q = lru_misses p"
    "unat (lru_clock q) = unat (lru_clock p) + length bl" by auto
  have clk: "unat (lru_clock q) + 1 < 2 ^ 64" using q(8) snoc.prems by simp
  then have "unat (lru_clock q + 1) = unat (lru_clock q) + 1" by (simp add: unat_plus_64)
  with lru_insert_step [OF q(2), of b] lru_insert_order [OF q(2,3) clk, of b] q
  show ?case by (auto simp: foldR_append)
qed

lemma lru_prefetch_foldR:
  "lru_buffer_pool_prefetch_range p s n =
     foldR (\<lambda>b q. lru_buffer_pool_insert q b) (blocks_from s (unat n)) p"
  by (simp add: lru_buffer_pool_prefetch_range_def for_c_foldR blocks_from_def foldR_map)

text \<open>A hit moves the block to the young end, as an insertion would.\<close>

lemma lru_lookup_hit:
  assumes wf: "lru_wf p" and tm: "lru_timed p" and clk: "unat (lru_clock p) + 1 < 2 ^ 64"
    and hit: "b \<in> set (lru_queue p)"
  shows "\<exists>p'. lru_buffer_pool_lookup p b = Inr (True, p') \<and> lru_wf p' \<and> lru_timed p' \<and>
    lru_queue p' = lru_touch (unat (lru_capacity p)) b (lru_queue p) \<and>
    lru_capacity p' = lru_capacity p \<and> lru_hits p' = lru_hits p + 1 \<and>
    lru_misses p' = lru_misses p \<and> lru_clock p' = lru_clock p + 1"
proof -
  have "b \<in> set (lru_contents p)" using hit wf by (simp add: set_lru_queue)
  then obtain i where i: "i < unat (lru_count p)" "lru_contents p ! i = b"
    "lru_buffer_pool_insert p b = Inr (lru_put p i b)"
    "lru_buffer_pool_lookup p b = Inr (True, (lru_put p i b)\<lparr>lru_hits := lru_hits p + 1\<rparr>)"
    using lru_insert_present [OF wf] by blast
  let ?q = "lru_put p i b"
  have "lru_timed ?q" "lru_queue ?q = lru_touch (unat (lru_capacity p)) b (lru_queue p)"
    using lru_insert_order [OF wf tm clk, of b] i(3) by simp_all
  then have "lru_timed (?q\<lparr>lru_hits := lru_hits p + 1\<rparr>)"
    "lru_queue (?q\<lparr>lru_hits := lru_hits p + 1\<rparr>) = lru_touch (unat (lru_capacity p)) b (lru_queue p)"
    by (simp_all add: lru_timed_def lru_queue_def lru_contents_def lru_stamps_def)
  moreover have "lru_wf ?q" using lru_insert_step [OF wf, of b] i(3) by simp
  ultimately show ?thesis using i(4) by simp
qed

section \<open>Properties\<close>

text \<open>
  C26: Insertion refines the recency queue. On a well-formed pool whose clock has room,
  \<open>lru_buffer_pool_insert\<close> never faults, keeps the invariants and the statistics, and acts as
  \<open>lru_touch\<close>: a cached block becomes the youngest, a new one is appended, and when the pool is
  full the least recently used block leaves.
\<close>

theorem lru_buffer_pool_insert_refines:
  assumes "lru_wf p" and "lru_timed p" and "unat (lru_clock p) + 1 < 2 ^ 64"
  shows "\<exists>p'. lru_buffer_pool_insert p b = Inr p' \<and> lru_wf p' \<and> lru_timed p' \<and>
    lru_queue p' = lru_touch (unat (lru_capacity p)) b (lru_queue p) \<and>
    lru_hits p' = lru_hits p \<and> lru_misses p' = lru_misses p"
  using lru_insert_step [OF assms(1), of b] lru_insert_order [OF assms, of b] by auto

text \<open>
  Memory safety without any assumption on the clock: even when the 64-bit clock has wrapped
  and the stamps order nothing any more, insertion and lookup stay inside the arrays, keep the
  blocks distinct, and the inserted block is cached.
\<close>

theorem lru_safe_any_clock:
  assumes "lru_wf p"
  shows "(\<exists>p'. lru_buffer_pool_insert p b = Inr p' \<and> lru_wf p' \<and> b \<in> set (lru_queue p')) \<and>
    (\<exists>p'. lru_buffer_pool_lookup p b = Inr (b \<in> set (lru_queue p), p') \<and> lru_wf p')"
  using lru.ins_law [OF assms, of b] lru.lookup_law [OF assms, of b] by blast

text \<open>
  A lookup counts. Exactly one of the two counters advances by one, and a hit makes the block
  the youngest of the recency queue.
\<close>

theorem lru_lookup_counts:
  assumes "lru_wf p" and "lru_timed p" and "unat (lru_clock p) + 1 < 2 ^ 64"
  shows "\<exists>hit p'. lru_buffer_pool_lookup p b = Inr (hit, p') \<and> hit = (b \<in> set (lru_queue p)) \<and>
    lru_hits p' = lru_hits p + (if hit then 1 else 0) \<and>
    lru_misses p' = lru_misses p + (if hit then 0 else 1) \<and>
    (hit \<longrightarrow> lru_queue p' = remove1 b (lru_queue p) @ [b])"
proof (cases "b \<in> set (lru_queue p)")
  case True
  then show ?thesis using lru_lookup_hit [OF assms True] by (auto simp: lru_touch_def)
next
  case False
  then show ?thesis using lru.lookup_law [OF assms(1), of b] by auto
qed

section \<open>Concrete pools\<close>

definition sample_lru :: LruBufferPool where
  "sample_lru = \<lparr>lru_capacity = 3, lru_block_size = 8, lru_slots = [5, 6, 7],
     lru_last_used = [2, 1, 3], lru_count = 3, lru_clock = 3, lru_hits = 0, lru_misses = 0\<rparr>"

lemma sample_lru_ok: "lru_wf sample_lru" "lru_timed sample_lru" "unat (lru_clock sample_lru) + 1 < 2 ^ 64"
  by (simp_all add: lru_wf_def lru_timed_def lru_contents_def lru_stamps_def sample_lru_def)

theorem lru_buffer_pool_insert_refines_witness:
  "\<exists>p'. lru_buffer_pool_insert sample_lru 9 = Inr p' \<and> lru_queue p' = [5, 7, 9]"
proof -
  have "\<not> (2 :: size_t) \<le> 1" by (simp add: word_le_nat_alt)
  then have "lru_queue sample_lru = [6, 5, 7]"
    by (simp add: lru_queue_def recency_def lru_contents_def lru_stamps_def sample_lru_def)
  then show ?thesis
    using lru_buffer_pool_insert_refines [OF sample_lru_ok, of 9]
    by (auto simp: lru_touch_def) (simp add: sample_lru_def)
qed

theorem lru_safe_any_clock_witness:
  "(\<exists>p'. lru_buffer_pool_insert sample_lru 9 = Inr p' \<and> lru_wf p' \<and> 9 \<in> set (lru_queue p')) \<and>
   (\<exists>p'. lru_buffer_pool_lookup sample_lru 9 = Inr (9 \<in> set (lru_queue sample_lru), p') \<and> lru_wf p')"
  by (rule lru_safe_any_clock [OF sample_lru_ok(1)])

theorem lru_lookup_counts_witness:
  "\<exists>hit p'. lru_buffer_pool_lookup sample_lru 6 = Inr (hit, p') \<and> hit = (6 \<in> set (lru_queue sample_lru)) \<and>
     lru_hits p' = lru_hits sample_lru + (if hit then 1 else 0) \<and>
     lru_misses p' = lru_misses sample_lru + (if hit then 0 else 1) \<and>
     (hit \<longrightarrow> lru_queue p' = remove1 6 (lru_queue sample_lru) @ [6])"
  by (rule lru_lookup_counts [OF sample_lru_ok])

end
