(* ===== verification/ReadAround.thy ===== *)
theory ReadAround
  imports LruBufferPool
begin

text \<open>
  The read-around policy of \<open>prefetch-sim/src/read_around.c\<close>: on every access the blocks
  within \<open>radius\<close> on both sides are prefetched into the LRU cache, clamped to the file.
\<close>

record ReadAround =
  rd_radius :: size_t
  rd_total_blocks :: size_t

definition read_around_init :: "size_t \<Rightarrow> size_t \<Rightarrow> ReadAround" where
  "read_around_init radius total_blocks = \<lparr>rd_radius = radius, rd_total_blocks = total_blocks\<rparr>"

definition read_around_start :: "ReadAround \<Rightarrow> size_t \<Rightarrow> size_t" where
  "read_around_start ra block_num =
     (if block_num > rd_radius ra then block_num - rd_radius ra else 0)"

definition read_around_end :: "ReadAround \<Rightarrow> size_t \<Rightarrow> size_t" where
  "read_around_end ra block_num =
     (let e = block_num + rd_radius ra in
      if rd_total_blocks ra > 0 \<and> e > rd_total_blocks ra - 1 then rd_total_blocks ra - 1 else e)"

definition read_around_on_access ::
  "ReadAround \<Rightarrow> LruBufferPool \<Rightarrow> size_t \<Rightarrow> (ReadAround \<times> LruBufferPool) res" where
  "read_around_on_access ra pool block_num =
     (let start = read_around_start ra block_num;
          e = read_around_end ra block_num;
          cnt = e - start + 1
      in bindR (lru_buffer_pool_prefetch_range pool start cnt) (\<lambda>pool'. Inr (ra, pool')))"

section \<open>The range\<close>

text \<open>
  For a block inside the file, and a radius that does not wrap the block number, the range is
  the neighbourhood of the block intersected with the file.
\<close>

lemma read_around_start_unat:
  "unat (read_around_start ra b) = unat b - unat (rd_radius ra)"
  by (auto simp: read_around_start_def word_less_nat_alt unat_sub word_le_nat_alt)

lemma read_around_end_unat:
  assumes "b < rd_total_blocks ra" and "unat b + unat (rd_radius ra) < 2 ^ 64"
  shows "unat (read_around_end ra b) =
    min (unat b + unat (rd_radius ra)) (unat (rd_total_blocks ra) - 1)"
proof -
  have "0 < unat (rd_total_blocks ra)" using assms(1) by (simp add: word_less_nat_alt)
  then have "unat (rd_total_blocks ra - 1) = unat (rd_total_blocks ra) - 1"
    by (simp add: unat_minus_one unat_gt_0)
  then show ?thesis
    using assms unat_plus_64 [of b "rd_radius ra"]
    by (auto simp: read_around_end_def Let_def word_less_nat_alt)
qed

lemma read_around_count_unat:
  assumes "b < rd_total_blocks ra" and "unat b + unat (rd_radius ra) < 2 ^ 64"
  shows "unat (read_around_end ra b - read_around_start ra b + 1) =
    min (unat b + unat (rd_radius ra)) (unat (rd_total_blocks ra) - 1)
      - (unat b - unat (rd_radius ra)) + 1"
proof -
  let ?e = "read_around_end ra b" and ?s = "read_around_start ra b"
  note e = read_around_end_unat [OF assms] and s = read_around_start_unat [of ra b]
  have lt: "unat b < unat (rd_total_blocks ra)" using assms(1) by (simp add: word_less_nat_alt)
  have "?s \<le> ?e" using e s lt by (auto simp: word_le_nat_alt)
  then have d: "unat (?e - ?s) = unat ?e - unat ?s" by (simp add: unat_sub word_le_nat_alt)
  have "unat ?e < unat (rd_total_blocks ra)" using e lt by simp
  then have "unat (?e - ?s) + 1 < 2 ^ 64" using d size_t_bound [of "rd_total_blocks ra"] by simp
  then show ?thesis using d e s unat_plus_64 [of "?e - ?s" 1] by simp
qed

section \<open>The policy as a driver\<close>

lemma rd_on_access_safe:
  assumes "lru_wf p"
  shows "\<exists>ra' p'. read_around_on_access ra p b = Inr (ra', p') \<and> lru_wf p' \<and>
    unat (lru_capacity p') = unat (lru_capacity p) \<and>
    lru_hits p' = lru_hits p \<and> lru_misses p' = lru_misses p"
proof -
  let ?s = "read_around_start ra b"
  let ?n = "read_around_end ra b - ?s + 1"
  from lru.prefetch_loop [OF assms, of ?s ?n]
  obtain p' where "lru_buffer_pool_prefetch_range p ?s ?n = Inr p'" "lru_wf p'"
    "unat (lru_capacity p') = unat (lru_capacity p)"
    "lru_hits p' = lru_hits p" "lru_misses p' = lru_misses p"
    unfolding lru_buffer_pool_prefetch_range_def by blast
  then show ?thesis by (simp add: read_around_on_access_def)
qed

interpretation rd_driver: prefetch_driver lru_buffer_pool_lookup lru_buffer_pool_insert lru_queue
  "\<lambda>p. unat (lru_capacity p)" lru_hits lru_misses lru_wf read_around_on_access
  by unfold_locales (rule rd_on_access_safe)

section \<open>The neighbourhood is cached\<close>

lemma lru_prefetch_covers:
  assumes wf: "lru_wf p" and tm: "lru_timed p"
    and clk: "unat (lru_clock p) + unat n < 2 ^ 64"
    and fit: "unat n \<le> unat (lru_capacity p)" and rng: "unat s + unat n \<le> 2 ^ 64"
  shows "\<exists>p'. lru_buffer_pool_prefetch_range p s n = Inr p' \<and> lru_wf p' \<and> lru_timed p' \<and>
    (\<forall>x. unat s \<le> unat x \<and> unat x < unat s + unat n \<longrightarrow> x \<in> set (lru_queue p')) \<and>
    lru_capacity p' = lru_capacity p \<and> unat (lru_clock p') = unat (lru_clock p) + unat n \<and>
    lru_hits p' = lru_hits p \<and> lru_misses p' = lru_misses p"
proof -
  let ?bl = "blocks_from s (unat n)"
  obtain p' where p': "foldR (\<lambda>b q. lru_buffer_pool_insert q b) ?bl p = Inr p'" "lru_wf p'"
    "lru_timed p'" "lru_queue p' = fold (lru_touch (unat (lru_capacity p))) ?bl (lru_queue p)"
    "lru_capacity p' = lru_capacity p" "lru_hits p' = lru_hits p" "lru_misses p' = lru_misses p"
    "unat (lru_clock p') = unat (lru_clock p) + length ?bl"
    using lru_insert_fold [OF wf tm, of ?bl] clk by auto
  obtain pre where "lru_queue p' = pre @ ?bl"
    using lru_touch_range [of ?bl "unat (lru_capacity p)" "lru_queue p"] p'(4) fit
      distinct_blocks_from [OF rng] lru.view_bound [OF wf] lru.view_distinct [OF wf] by auto
  then have "set ?bl \<subseteq> set (lru_queue p')" by simp
  with p' set_blocks_from [OF rng] show ?thesis by (auto simp: lru_prefetch_foldR)
qed

text \<open>Every block of the file within \<open>radius\<close> of \<open>b\<close> is cached.\<close>

definition surrounded :: "ReadAround \<Rightarrow> LruBufferPool \<Rightarrow> size_t \<Rightarrow> bool" where
  "surrounded ra p b \<longleftrightarrow>
     (\<forall>x. x < rd_total_blocks ra \<and> unat b \<le> unat x + unat (rd_radius ra) \<and>
          unat x \<le> unat b + unat (rd_radius ra) \<longrightarrow> x \<in> set (lru_queue p))"

text \<open>A neighbourhood fits the cache, and the clock and the block numbers have room.\<close>

definition rd_fits :: "ReadAround \<Rightarrow> LruBufferPool \<Rightarrow> bool" where
  "rd_fits ra p \<longleftrightarrow>
     2 * unat (rd_radius ra) + 1 \<le> unat (lru_capacity p) \<and>
     unat (rd_total_blocks ra) + unat (rd_radius ra) < 2 ^ 64"

lemma rd_on_access_covers:
  assumes wf: "lru_wf p" and tm: "lru_timed p" and fits: "rd_fits ra p"
    and b: "b < rd_total_blocks ra"
    and clk: "unat (lru_clock p) + 2 * unat (rd_radius ra) + 1 < 2 ^ 64"
  shows "\<exists>p'. read_around_on_access ra p b = Inr (ra, p') \<and> lru_wf p' \<and> lru_timed p' \<and>
    surrounded ra p' b \<and> lru_capacity p' = lru_capacity p \<and>
    unat (lru_clock p') \<le> unat (lru_clock p) + 2 * unat (rd_radius ra) + 1 \<and>
    lru_hits p' = lru_hits p \<and> lru_misses p' = lru_misses p"
proof -
  let ?r = "unat (rd_radius ra)" and ?t = "unat (rd_total_blocks ra)"
  have lt: "unat b < ?t" using b by (simp add: word_less_nat_alt)
  then have br: "unat b + ?r < 2 ^ 64" using fits by (simp add: rd_fits_def)
  define s n where "s = read_around_start ra b" and "n = read_around_end ra b - s + 1"
  have sn: "unat s = unat b - ?r" "unat n = min (unat b + ?r) (?t - 1) - (unat b - ?r) + 1"
    using read_around_count_unat [OF b br] by (simp_all add: s_def n_def read_around_start_unat)
  have "unat b - ?r \<le> min (unat b + ?r) (?t - 1)" using lt by (auto simp: min_def)
  then have n: "unat n \<le> 2 * ?r + 1" "unat s + unat n = Suc (min (unat b + ?r) (?t - 1))"
    using sn lt \<open>unat b - ?r \<le> min (unat b + ?r) (?t - 1)\<close> by auto
  have "unat (lru_clock p) + unat n < 2 ^ 64" using clk n(1) by linarith
  moreover have "unat n \<le> unat (lru_capacity p)" using n(1) fits by (simp add: rd_fits_def)
  moreover have "unat s + unat n \<le> 2 ^ 64" using n(2) lt size_t_bound [of "rd_total_blocks ra"] by simp
  ultimately obtain p' where p': "lru_buffer_pool_prefetch_range p s n = Inr p'" "lru_wf p'"
    "lru_timed p'" "\<forall>x. unat s \<le> unat x \<and> unat x < unat s + unat n \<longrightarrow> x \<in> set (lru_queue p')"
    "lru_capacity p' = lru_capacity p" "unat (lru_clock p') = unat (lru_clock p) + unat n"
    "lru_hits p' = lru_hits p" "lru_misses p' = lru_misses p"
    using lru_prefetch_covers [OF wf tm] by blast
  have "surrounded ra p' b"
    unfolding surrounded_def
  proof (intro allI impI)
    fix x
    assume x: "x < rd_total_blocks ra \<and> unat b \<le> unat x + ?r \<and> unat x \<le> unat b + ?r"
    then have "unat x < ?t" by (simp add: word_less_nat_alt)
    then have "unat x < unat s + unat n" using x n(2) by (auto simp: less_Suc_eq_le)
    moreover have "unat s \<le> unat x" using x sn(1) by linarith
    ultimately show "x \<in> set (lru_queue p')" using p'(4) by blast
  qed
  with p' n(1) show ?thesis
    by (simp add: read_around_on_access_def s_def [symmetric] n_def [symmetric])
qed

lemma rd_access_step:
  assumes wf: "lru_wf p" and tm: "lru_timed p" and fits: "rd_fits ra p"
    and b: "b < rd_total_blocks ra" and disk: "reads_succeed pread"
    and clk: "unat (lru_clock p) + 2 * unat (rd_radius ra) + 2 < 2 ^ 64"
  shows "\<exists>p' w'. access_step lru_buffer_pool_lookup lru_buffer_pool_insert read_around_on_access
      pread bs b (p, ra, w) = Inr (p', ra, w') \<and> lru_wf p' \<and> lru_timed p' \<and> surrounded ra p' b \<and>
    lru_capacity p' = lru_capacity p \<and>
    unat (lru_clock p') \<le> unat (lru_clock p) + 2 * unat (rd_radius ra) + 2 \<and>
    lru_hits p' = (if b \<in> set (lru_queue p) then lru_hits p + 1 else lru_hits p) \<and>
    lru_misses p' = (if b \<in> set (lru_queue p) then lru_misses p else lru_misses p + 1)"
proof -
  have clk1: "unat (lru_clock p) + 1 < 2 ^ 64" using clk by linarith
  have c1: "unat (lru_clock p + 1) = unat (lru_clock p) + 1" using clk1 by (simp add: unat_plus_64)
  obtain n w1 where rd: "pread w (b * bs) = (n, w1)" by fastforce
  have nn: "\<not> n < 0" using reads_succeedD [OF disk rd] by simp
  obtain q w2 where q: "\<And>r. access_step lru_buffer_pool_lookup lru_buffer_pool_insert
      read_around_on_access pread bs b (p, r, w) =
        bindR (read_around_on_access r q b) (\<lambda>(ra', pool3). Inr (pool3, ra', w2))"
    "lru_wf q" "lru_timed q" "lru_capacity q = lru_capacity p" "lru_clock q = lru_clock p + 1"
    "lru_hits q = (if b \<in> set (lru_queue p) then lru_hits p + 1 else lru_hits p)"
    "lru_misses q = (if b \<in> set (lru_queue p) then lru_misses p else lru_misses p + 1)"
  proof (cases "b \<in> set (lru_queue p)")
    case True
    from lru_lookup_hit [OF wf tm clk1 True] True that show ?thesis by (auto simp: access_step_def)
  next
    case False
    let ?m = "p\<lparr>lru_misses := lru_misses p + 1\<rparr>"
    have "b \<notin> set (lru_contents p)" using False wf by (simp add: set_lru_queue)
    then have look: "lru_buffer_pool_lookup p b = Inr (False, ?m)"
      using lru_find_absent [OF wf] by (simp add: lru_buffer_pool_lookup_def)
    have "lru_timed ?m" using tm by (simp add: lru_timed_def lru_stamps_def)
    with lru_insert_step [of ?m b] lru_insert_order [of ?m b] wf clk1 obtain q where
      "lru_buffer_pool_insert ?m b = Inr q" "lru_wf q" "lru_timed q" "lru_capacity q = lru_capacity p"
      "lru_hits q = lru_hits p" "lru_misses q = lru_misses p + 1" "lru_clock q = lru_clock p + 1"
      by auto
    with look rd nn False that show ?thesis by (auto simp: access_step_def)
  qed
  have "rd_fits ra q" using fits q(4) by (simp add: rd_fits_def)
  then obtain p' where "read_around_on_access ra q b = Inr (ra, p')" "lru_wf p'" "lru_timed p'"
    "surrounded ra p' b" "lru_capacity p' = lru_capacity q"
    "unat (lru_clock p') \<le> unat (lru_clock q) + 2 * unat (rd_radius ra) + 1"
    "lru_hits p' = lru_hits q" "lru_misses p' = lru_misses q"
    using rd_on_access_covers [OF q(2,3) _ b] q(5) c1 clk by auto
  with q c1 show ?thesis by auto
qed

section \<open>Properties\<close>

text \<open>
  Read-around caches the neighbourhood. For a block of the file, when the neighbourhood fits the
  cache, after \<open>read_around_on_access\<close> every block of the file within \<open>radius\<close> of it is
  cached; the statistics are unchanged.
\<close>

theorem read_around_covers:
  assumes "lru_wf p" and "lru_timed p" and "rd_fits ra p" and "b < rd_total_blocks ra"
    and "unat (lru_clock p) + 2 * unat (rd_radius ra) + 1 < 2 ^ 64"
  shows "\<exists>p'. read_around_on_access ra p b = Inr (ra, p') \<and> lru_wf p' \<and> lru_timed p' \<and>
    surrounded ra p' b \<and> lru_hits p' = lru_hits p \<and> lru_misses p' = lru_misses p"
  using rd_on_access_covers [OF assms] by blast

text \<open>
  The range is clamped to the file. For a block of the file and a radius that does not wrap the
  block number, the range prefetched is \<open>[max 0 (b - radius), min (b + radius) (total - 1)]\<close>.
\<close>

theorem read_around_clamped:
  assumes "b < rd_total_blocks ra" and "unat b + unat (rd_radius ra) < 2 ^ 64"
  shows "unat (read_around_start ra b) = unat b - unat (rd_radius ra) \<and>
    unat (read_around_end ra b) = min (unat b + unat (rd_radius ra)) (unat (rd_total_blocks ra) - 1) \<and>
    read_around_start ra b \<le> b \<and> b \<le> read_around_end ra b"
  using read_around_start_unat [of ra b] read_around_end_unat [OF assms] assms(1)
  by (simp add: word_le_nat_alt word_less_nat_alt)

section \<open>Concrete ranges\<close>

theorem read_around_covers_witness:
  "\<exists>p'. read_around_on_access (read_around_init 1 100) sample_lru 8 = Inr (read_around_init 1 100, p') \<and>
     lru_wf p' \<and> lru_timed p' \<and> surrounded (read_around_init 1 100) p' 8 \<and>
     lru_hits p' = lru_hits sample_lru \<and> lru_misses p' = lru_misses sample_lru"
  by (rule read_around_covers [OF sample_lru_ok(1,2)])
    (simp_all add: rd_fits_def read_around_init_def sample_lru_def)

theorem read_around_clamped_witness:
  "unat (read_around_start (read_around_init 5 10) 2) = 0 \<and>
   unat (read_around_end (read_around_init 5 10) 6) = 9"
  using read_around_clamped [of 2 "read_around_init 5 10"] read_around_clamped [of 6 "read_around_init 5 10"]
  by (simp add: read_around_init_def)

end
