(* ===== verification/Benchmarks.thy ===== *)
theory Benchmarks
  imports Simulator Traces AdaptiveReadahead ReadAround
begin

text \<open>
  The benchmark programs of \<open>prefetch-sim/benchmarks\<close>: \<open>interrupted_bench.c\<close> (bursts,
  fixed window), \<open>adaptive_bench.c\<close> (bursts, adaptive window), \<open>read_around_bench.c\<close>
  (random walk, LRU cache with read-around), \<open>mixed_bench.c\<close> (the same mixed trace through
  both read-aheads) and \<open>baseline_bench.c\<close> (no cache). The programs share their frame:
  allocate the trace, open the file, allocate the sample arrays, repeat. As in \<open>Simulator\<close>, a
  sample is the pair of hits and misses from which the program computes its hit rate, and
  \<open>prepare_test_file\<close> is the copy every program has of the one in \<open>main.c\<close>.
\<close>

section \<open>The frame\<close>

text \<open>From the allocation of the trace to the end of the repeats.\<close>

definition bench_frame ::
  "'w os \<Rightarrow> string \<Rightarrow> size_t \<Rightarrow> size_t \<Rightarrow> size_t \<Rightarrow>
   (int \<Rightarrow> size_t \<Rightarrow> 'w sim_state \<Rightarrow> 'w sim_state res) \<Rightarrow> 'w \<Rightarrow> outcome" where
  "bench_frame os file_path block_size num_accesses repeats body w =
     (case os_malloc os Trace_array (num_accesses * 8) of
        None \<Rightarrow> Inr (1, [])
      | Some blocks \<Rightarrow>
     (case os_open_read os True file_path w of (fd, w1) \<Rightarrow>
        if fd < 0 then Inr (1, [])
        else if os_memalign os ALIGNMENT block_size w1 \<noteq> 0 then Inr (1, [])
        else case (os_malloc os Elapsed_samples (repeats * 8),
                   os_malloc os Hit_rate_samples (repeats * 8)) of
               (Some elapsed, Some hit_rate) \<Rightarrow>
                 finish_run
                   (for_c (body fd) repeats 0
                      (True, os_srand_now os w1, blocks, replicate (length elapsed) (),
                       replicate (length hit_rate) None))
             | _ \<Rightarrow> Inr (1, [])))"

text \<open>The end of a repeat: its time and its hit rate are stored.\<close>

definition store_sample ::
  "size_t \<Rightarrow> size_t \<Rightarrow> size_t \<Rightarrow> 'w \<Rightarrow> size_t list \<Rightarrow> unit list \<Rightarrow>
   (size_t \<times> size_t) option list \<Rightarrow> 'w sim_state res" where
  "store_sample r hits misses w blocks elapsed samples =
     bindR (arr_set elapsed r ()) (\<lambda>elapsed1.
     bindR (arr_set samples r (Some (hits, misses))) (\<lambda>samples1.
     Inr (True, w, blocks, elapsed1, samples1)))"

section \<open>Bursts with a fixed window\<close>

definition interrupted_repeat ::
  "'w os \<Rightarrow> size_t \<Rightarrow> size_t \<Rightarrow> size_t \<Rightarrow> size_t \<Rightarrow> size_t \<Rightarrow> size_t \<Rightarrow>
   int \<Rightarrow> size_t \<Rightarrow> 'w sim_state \<Rightarrow> 'w sim_state res" where
  "interrupted_repeat os block_size capacity_blocks window burst_len num_accesses total_blocks fd r =
     (\<lambda>(_, w, blocks, elapsed, samples).
     bindR (generate_interrupted_sequence (os_rand os) blocks num_accesses total_blocks burst_len w)
       (\<lambda>(blocks1, w1).
     bindR (buffer_pool_init (os_malloc os (Pool_slots r)) capacity_blocks block_size) (\<lambda>pool.
     bindR (access_loop buffer_pool_lookup buffer_pool_insert readahead_on_access
              (os_pread os fd block_size) block_size blocks1 num_accesses
              (pool, readahead_init window, w1)) (\<lambda>(pool1, ra1, w2).
     store_sample r (buffer_pool_hits pool1) (buffer_pool_misses pool1) w2 blocks1 elapsed samples))))"

definition interrupted_main :: "'w os \<Rightarrow> string list \<Rightarrow> 'w \<Rightarrow> outcome option" where
  "interrupted_main os argv w =
     (if length argv \<noteq> 9 then Some (Inr (1, []))
      else let file_path = argv ! 1;
               file_size = strtoull (argv ! 2);
               block_size = strtoull (argv ! 3);
               capacity_blocks = strtoull (argv ! 4);
               window = strtoull (argv ! 5);
               burst_len = strtoull (argv ! 6);
               num_accesses = strtoull (argv ! 7);
               repeats = strtoull (argv ! 8)
      in if repeats = 0 then Some (Inr (1, []))
         else if capacity_blocks = 0 then Some (Inr (1, []))
         else if burst_len = 0 then Some (Inr (1, []))
         else case prepare_test_file os file_path file_size w of
                None \<Rightarrow> None
              | Some (rc, w1) \<Rightarrow>
                  Some (if rc \<noteq> 0 then Inr (1, [])
                        else bindR (div_c file_size block_size) (\<lambda>total_blocks.
                          if burst_len \<ge> total_blocks then Inr (1, [])
                          else bench_frame os file_path block_size num_accesses repeats
                                 (interrupted_repeat os block_size capacity_blocks window burst_len
                                    num_accesses total_blocks) w1)))"

section \<open>Bursts with an adaptive window\<close>

definition adaptive_repeat ::
  "'w os \<Rightarrow> size_t \<Rightarrow> size_t \<Rightarrow> size_t \<Rightarrow> size_t \<Rightarrow> size_t \<Rightarrow> size_t \<Rightarrow> size_t \<Rightarrow>
   int \<Rightarrow> size_t \<Rightarrow> 'w sim_state \<Rightarrow> 'w sim_state res" where
  "adaptive_repeat os block_size capacity_blocks min_window max_window burst_len num_accesses
     total_blocks fd r =
     (\<lambda>(_, w, blocks, elapsed, samples).
     bindR (generate_interrupted_sequence (os_rand os) blocks num_accesses total_blocks burst_len w)
       (\<lambda>(blocks1, w1).
     bindR (buffer_pool_init (os_malloc os (Pool_slots r)) capacity_blocks block_size) (\<lambda>pool.
     bindR (access_loop buffer_pool_lookup buffer_pool_insert adaptive_readahead_on_access
              (os_pread os fd block_size) block_size blocks1 num_accesses
              (pool, adaptive_readahead_init min_window max_window, w1)) (\<lambda>(pool1, ra1, w2).
     store_sample r (buffer_pool_hits pool1) (buffer_pool_misses pool1) w2 blocks1 elapsed samples))))"

definition adaptive_main :: "'w os \<Rightarrow> string list \<Rightarrow> 'w \<Rightarrow> outcome option" where
  "adaptive_main os argv w =
     (if length argv \<noteq> 10 then Some (Inr (1, []))
      else let file_path = argv ! 1;
               file_size = strtoull (argv ! 2);
               block_size = strtoull (argv ! 3);
               capacity_blocks = strtoull (argv ! 4);
               min_window = strtoull (argv ! 5);
               max_window = strtoull (argv ! 6);
               burst_len = strtoull (argv ! 7);
               num_accesses = strtoull (argv ! 8);
               repeats = strtoull (argv ! 9)
      in if repeats = 0 then Some (Inr (1, []))
         else if capacity_blocks = 0 then Some (Inr (1, []))
         else if burst_len = 0 then Some (Inr (1, []))
         else if max_window < min_window then Some (Inr (1, []))
         else case prepare_test_file os file_path file_size w of
                None \<Rightarrow> None
              | Some (rc, w1) \<Rightarrow>
                  Some (if rc \<noteq> 0 then Inr (1, [])
                        else bindR (div_c file_size block_size) (\<lambda>total_blocks.
                          if burst_len \<ge> total_blocks then Inr (1, [])
                          else bench_frame os file_path block_size num_accesses repeats
                                 (adaptive_repeat os block_size capacity_blocks min_window max_window
                                    burst_len num_accesses total_blocks) w1)))"

section \<open>Random walk with read-around\<close>

definition read_around_repeat ::
  "'w os \<Rightarrow> size_t \<Rightarrow> size_t \<Rightarrow> size_t \<Rightarrow> size_t \<Rightarrow> size_t \<Rightarrow> size_t \<Rightarrow> size_t \<Rightarrow>
   int \<Rightarrow> size_t \<Rightarrow> 'w sim_state \<Rightarrow> 'w sim_state res" where
  "read_around_repeat os block_size capacity_blocks region_width jitter radius num_accesses
     total_blocks fd r =
     (\<lambda>(_, w, blocks, elapsed, samples).
     bindR (generate_locality_walk (os_rand os) blocks num_accesses total_blocks region_width jitter w)
       (\<lambda>(blocks1, w1).
     bindR (lru_buffer_pool_init (os_malloc os (Pool_slots r)) (os_malloc os (Pool_stamps r))
              capacity_blocks block_size) (\<lambda>pool.
     bindR (access_loop lru_buffer_pool_lookup lru_buffer_pool_insert read_around_on_access
              (os_pread os fd block_size) block_size blocks1 num_accesses
              (pool, read_around_init radius total_blocks, w1)) (\<lambda>(pool1, ra1, w2).
     store_sample r (lru_buffer_pool_hits pool1) (lru_buffer_pool_misses pool1) w2 blocks1
       elapsed samples))))"

definition read_around_main :: "'w os \<Rightarrow> string list \<Rightarrow> 'w \<Rightarrow> outcome option" where
  "read_around_main os argv w =
     (if length argv \<noteq> 10 then Some (Inr (1, []))
      else let file_path = argv ! 1;
               file_size = strtoull (argv ! 2);
               block_size = strtoull (argv ! 3);
               capacity_blocks = strtoull (argv ! 4);
               region_width = strtoull (argv ! 5);
               jitter = strtoull (argv ! 6);
               radius = strtoull (argv ! 7);
               num_accesses = strtoull (argv ! 8);
               repeats = strtoull (argv ! 9)
      in if repeats = 0 then Some (Inr (1, []))
         else if capacity_blocks = 0 then Some (Inr (1, []))
         else if region_width = 0 then Some (Inr (1, []))
         else case prepare_test_file os file_path file_size w of
                None \<Rightarrow> None
              | Some (rc, w1) \<Rightarrow>
                  Some (if rc \<noteq> 0 then Inr (1, [])
                        else bindR (div_c file_size block_size) (\<lambda>total_blocks.
                          if region_width > total_blocks then Inr (1, [])
                          else bench_frame os file_path block_size num_accesses repeats
                                 (read_around_repeat os block_size capacity_blocks region_width
                                    jitter radius num_accesses total_blocks) w1)))"

section \<open>Mixed bursts through both read-aheads\<close>

definition run_fixed ::
  "'w os \<Rightarrow> size_t \<Rightarrow> int \<Rightarrow> size_t \<Rightarrow> size_t \<Rightarrow> size_t \<Rightarrow> size_t list \<Rightarrow> size_t \<Rightarrow> 'w \<Rightarrow>
   ((size_t \<times> size_t) \<times> 'w) res" where
  "run_fixed os r fd block_size capacity_blocks window blocks num_accesses w =
     bindR (buffer_pool_init (os_malloc os (Pool_slots r)) capacity_blocks block_size) (\<lambda>pool.
     bindR (access_loop buffer_pool_lookup buffer_pool_insert readahead_on_access
              (os_pread os fd block_size) block_size blocks num_accesses
              (pool, readahead_init window, w)) (\<lambda>(pool1, ra1, w1).
     Inr ((buffer_pool_hits pool1, buffer_pool_misses pool1), w1)))"

definition run_adaptive ::
  "'w os \<Rightarrow> size_t \<Rightarrow> int \<Rightarrow> size_t \<Rightarrow> size_t \<Rightarrow> size_t \<Rightarrow> size_t \<Rightarrow> size_t list \<Rightarrow> size_t \<Rightarrow>
   'w \<Rightarrow> ((size_t \<times> size_t) \<times> 'w) res" where
  "run_adaptive os r fd block_size capacity_blocks min_window max_window blocks num_accesses w =
     bindR (buffer_pool_init (os_malloc os (Adaptive_slots r)) capacity_blocks block_size) (\<lambda>pool.
     bindR (access_loop buffer_pool_lookup buffer_pool_insert adaptive_readahead_on_access
              (os_pread os fd block_size) block_size blocks num_accesses
              (pool, adaptive_readahead_init min_window max_window, w)) (\<lambda>(pool1, ra1, w1).
     Inr ((buffer_pool_hits pool1, buffer_pool_misses pool1), w1)))"

text \<open>The four sample arrays: the fixed run's times and counts, the adaptive run's.\<close>

type_synonym 'w mixed_state =
  "'w \<times> size_t list \<times> unit list \<times> (size_t \<times> size_t) option list \<times>
   unit list \<times> (size_t \<times> size_t) option list"

definition mixed_repeat ::
  "'w os \<Rightarrow> int \<Rightarrow> size_t \<Rightarrow> size_t \<Rightarrow> size_t \<Rightarrow> size_t \<Rightarrow> size_t \<Rightarrow> size_t \<Rightarrow> size_t \<Rightarrow>
   size_t \<Rightarrow> 'w mixed_state \<Rightarrow> 'w mixed_state res" where
  "mixed_repeat os fd block_size capacity_blocks fixed_window min_window max_window num_accesses
     total_blocks r =
     (\<lambda>(w, blocks, felapsed, fsamples, aelapsed, asamples).
     bindR (generate_mixed_sequence (os_rand os) blocks num_accesses total_blocks w)
       (\<lambda>(blocks1, w1).
     bindR (run_fixed os r fd block_size capacity_blocks fixed_window blocks1 num_accesses w1)
       (\<lambda>(fcounts, w2).
     bindR (arr_set felapsed r ()) (\<lambda>felapsed1.
     bindR (arr_set fsamples r (Some fcounts)) (\<lambda>fsamples1.
     bindR (run_adaptive os r fd block_size capacity_blocks min_window max_window blocks1
              num_accesses w2) (\<lambda>(acounts, w3).
     bindR (arr_set aelapsed r ()) (\<lambda>aelapsed1.
     bindR (arr_set asamples r (Some acounts)) (\<lambda>asamples1.
     Inr (w3, blocks1, felapsed1, fsamples1, aelapsed1, asamples1)))))))))"

type_synonym mixed_outcome =
  "(nat \<times> (size_t \<times> size_t) option list \<times> (size_t \<times> size_t) option list) res"

definition mixed_run ::
  "'w os \<Rightarrow> string \<Rightarrow> size_t \<Rightarrow> size_t \<Rightarrow> size_t \<Rightarrow> size_t \<Rightarrow> size_t \<Rightarrow> size_t \<Rightarrow> size_t \<Rightarrow>
   size_t \<Rightarrow> 'w \<Rightarrow> mixed_outcome" where
  "mixed_run os file_path block_size capacity_blocks fixed_window min_window max_window
     num_accesses total_blocks repeats w =
     (case os_malloc os Trace_array (num_accesses * 8) of
        None \<Rightarrow> Inr (1, [], [])
      | Some blocks \<Rightarrow>
     (case os_open_read os True file_path w of (fd, w1) \<Rightarrow>
        if fd < 0 then Inr (1, [], [])
        else if os_memalign os ALIGNMENT block_size w1 \<noteq> 0 then Inr (1, [], [])
        else case (os_malloc os Elapsed_samples (repeats * 8),
                   os_malloc os Hit_rate_samples (repeats * 8),
                   os_malloc os Adaptive_elapsed (repeats * 8),
                   os_malloc os Adaptive_hit_rate (repeats * 8)) of
               (Some fe, Some fh, Some ae, Some ah) \<Rightarrow>
                 (case for_c (mixed_repeat os fd block_size capacity_blocks fixed_window min_window
                               max_window num_accesses total_blocks) repeats 0
                        (os_srand_now os w1, blocks, replicate (length fe) (),
                         replicate (length fh) None, replicate (length ae) (),
                         replicate (length ah) None) of
                    Inr (w2, blocks2, fe2, fh2, ae2, ah2) \<Rightarrow> Inr (0, fh2, ah2)
                  | Inl Pread_failed \<Rightarrow> Inr (1, [], [])
                  | Inl e \<Rightarrow> Inl e)
             | _ \<Rightarrow> Inr (1, [], [])))"

definition mixed_main :: "'w os \<Rightarrow> string list \<Rightarrow> 'w \<Rightarrow> mixed_outcome option" where
  "mixed_main os argv w =
     (if length argv \<noteq> 10 then Some (Inr (1, [], []))
      else let file_path = argv ! 1;
               file_size = strtoull (argv ! 2);
               block_size = strtoull (argv ! 3);
               capacity_blocks = strtoull (argv ! 4);
               fixed_window = strtoull (argv ! 5);
               min_window = strtoull (argv ! 6);
               max_window = strtoull (argv ! 7);
               num_accesses = strtoull (argv ! 8);
               repeats = strtoull (argv ! 9)
      in if repeats = 0 then Some (Inr (1, [], []))
         else if capacity_blocks = 0 then Some (Inr (1, [], []))
         else if max_window < min_window then Some (Inr (1, [], []))
         else case prepare_test_file os file_path file_size w of
                None \<Rightarrow> None
              | Some (rc, w1) \<Rightarrow>
                  Some (if rc \<noteq> 0 then Inr (1, [], [])
                        else bindR (div_c file_size block_size) (\<lambda>total_blocks.
                             bindR (arr_get kBurstLens (kNumBurstLens - 1)) (\<lambda>max_burst.
                             if max_burst \<ge> total_blocks then Inr (1, [], [])
                             else mixed_run os file_path block_size capacity_blocks fixed_window
                                    min_window max_window num_accesses total_blocks repeats w1))))"

section \<open>Reading without a cache\<close>

text \<open>\<open>atoi\<close>: the value of the decimal prefix, read as a 32-bit \<open>int\<close>; only whether it
  is zero matters (a value outside \<open>int\<close> is undefined in C).\<close>

definition atoi :: "string \<Rightarrow> u32" where
  "atoi s = ucast (strtoull s)"

definition baseline_read_loop ::
  "('w \<Rightarrow> size_t \<Rightarrow> int \<times> 'w) \<Rightarrow> size_t list \<Rightarrow> size_t \<Rightarrow> 'w \<Rightarrow> 'w res" where
  "baseline_read_loop pread offsets num_blocks =
     for_c (\<lambda>i w. bindR (arr_get offsets i) (\<lambda>off.
              case pread w off of (n, w1) \<Rightarrow> if n < 0 then Inl Pread_failed else Inr w1))
       num_blocks 0"

definition baseline_repeat ::
  "'w os \<Rightarrow> int \<Rightarrow> AccessPattern \<Rightarrow> size_t \<Rightarrow> size_t \<Rightarrow> size_t \<Rightarrow>
   size_t \<Rightarrow> 'w sim_state \<Rightarrow> 'w sim_state res" where
  "baseline_repeat os fd pattern file_size block_size num_blocks r =
     (\<lambda>(seeded, w, offsets, elapsed, samples).
     bindR (generate_offsets (os_rand os) (os_srand_now os) (os_malloc os (Candidates r))
              pattern file_size block_size num_blocks (Some offsets) (seeded, w))
       (\<lambda>(rc, out, seeded1, w1).
     if rc \<noteq> WORKLOAD_OK then Inl Workload_failed
     else let offsets1 = (case out of Some o' \<Rightarrow> o' | None \<Rightarrow> offsets) in
     bindR (baseline_read_loop (os_pread os fd block_size) offsets1 num_blocks w1) (\<lambda>w2.
     bindR (arr_set elapsed r ()) (\<lambda>elapsed1.
     Inr (seeded1, w2, offsets1, elapsed1, samples)))))"

definition baseline_run ::
  "'w os \<Rightarrow> string \<Rightarrow> size_t \<Rightarrow> size_t \<Rightarrow> AccessPattern \<Rightarrow> bool \<Rightarrow> size_t \<Rightarrow> 'w \<Rightarrow> outcome" where
  "baseline_run os file_path file_size block_size pattern direct repeats w =
     bindR (div_c file_size block_size) (\<lambda>num_blocks.
     case os_malloc os Trace_array (num_blocks * 8) of
       None \<Rightarrow> Inr (1, [])
     | Some offsets \<Rightarrow>
     (case os_open_read os direct file_path w of (fd, w1) \<Rightarrow>
       if fd < 0 then Inr (1, [])
       else if os_memalign os ALIGNMENT block_size w1 \<noteq> 0 then Inr (1, [])
       else case os_malloc os Elapsed_samples (repeats * 8) of
              Some elapsed \<Rightarrow>
                finish_run
                  (for_c (baseline_repeat os fd pattern file_size block_size num_blocks) repeats 0
                     (False, w1, offsets, replicate (length elapsed) (), []))
            | None \<Rightarrow> Inr (1, [])))"

definition baseline_main :: "'w os \<Rightarrow> string list \<Rightarrow> 'w \<Rightarrow> outcome option" where
  "baseline_main os argv w =
     (if length argv \<noteq> 7 then Some (Inr (1, []))
      else let file_path = argv ! 1;
               file_size = strtoull (argv ! 2);
               block_size = strtoull (argv ! 3);
               pattern_str = argv ! 4;
               direct = (atoi (argv ! 5) \<noteq> 0);
               repeats = strtoull (argv ! 6)
      in if repeats = 0 then Some (Inr (1, []))
         else if pattern_str \<noteq> ''sequential'' \<and> pattern_str \<noteq> ''random'' then Some (Inr (1, []))
         else case prepare_test_file os file_path file_size w of
                None \<Rightarrow> None
              | Some (rc, w1) \<Rightarrow>
                  Some (if rc \<noteq> 0 then Inr (1, [])
                        else baseline_run os file_path file_size block_size
                               (if pattern_str = ''sequential'' then PATTERN_SEQUENTIAL
                                else PATTERN_RANDOM) direct repeats w1))"

section \<open>The frame runs its repeats\<close>

lemma bench_frame_ok:
  fixes os :: "'w os"
  assumes os: "os_ok os" and fit: "unat num * 8 < 2 ^ 64" "unat repeats * 8 < 2 ^ 64"
    and body: "\<And>fd r sd w blocks el sm. length blocks = unat num \<Longrightarrow> unat r < length el \<Longrightarrow>
      unat r < length sm \<Longrightarrow>
      \<exists>w' blocks' h m. body fd r (sd :: bool, w :: 'w, blocks, el, sm) =
          store_sample r h m w' blocks' el sm \<and> length blocks' = unat num \<and> Q h m"
  shows "\<exists>samples. bench_frame os path block_size num repeats body w = Inr (0, samples) \<and>
    length samples = unat repeats \<and> (\<forall>s \<in> set samples. \<exists>h m. s = Some (h, m) \<and> Q h m)"
proof -
  obtain blocks elapsed rates where mal:
    "os_malloc os Trace_array (num * 8) = Some blocks" "length blocks = unat num"
    "os_malloc os Elapsed_samples (repeats * 8) = Some elapsed" "length elapsed = unat repeats"
    "os_malloc os Hit_rate_samples (repeats * 8) = Some rates" "length rates = unat repeats"
    using os_malloc_array [OF os fit(1)] os_malloc_array [OF os fit(2)] by metis
  obtain fd w1 where fd: "os_open_read os True path w = (fd, w1)" by fastforce
  then have fd0: "\<not> fd < 0" using os_okD(4) [OF os, of True path w] by simp
  let ?init = "(True, os_srand_now os w1, blocks, replicate (length elapsed) (),
    replicate (length rates) None)"
  let ?P = "\<lambda>k (sd :: bool, w :: 'w, bl, el :: unit list, sm).
    length bl = unat num \<and> length el = unat repeats \<and> length sm = unat repeats \<and>
    (\<forall>j < k. \<exists>h m. sm ! j = Some (h, m) \<and> Q h m)"
  have "\<exists>st. for_c (body fd) repeats 0 ?init = Inr st \<and> ?P (unat repeats) st"
  proof (rule for_c_invariant [where P = ?P])
    fix i :: size_t and st :: "'w sim_state"
    assume i: "i < repeats" and P: "?P (unat i) st"
    obtain sd w bl el sm where st: "st = (sd, w, bl, el, sm)" by (cases st)
    have lt: "unat i < unat repeats" using i by (simp add: word_less_nat_alt)
    obtain w' bl' h m where "body fd i (sd, w, bl, el, sm) = store_sample i h m w' bl' el sm"
      "length bl' = unat num" "Q h m"
      using body [of bl i el sm fd sd w] P st lt by auto
    with P st lt show "\<exists>st'. body fd i st = Inr st' \<and> ?P (Suc (unat i)) st'"
      by (auto simp: store_sample_def arr_set_def less_Suc_eq nth_list_update)
  qed (simp add: mal)
  then obtain sd w2 bl el sm where "for_c (body fd) repeats 0 ?init = Inr (sd, w2, bl, el, sm)"
    "length sm = unat repeats" "\<forall>j < unat repeats. \<exists>h m. sm ! j = Some (h, m) \<and> Q h m"
    by auto
  then show ?thesis
    using mal fd fd0 os_okD(7) [OF os]
    by (auto simp: bench_frame_def finish_run_def in_set_conv_nth)
qed

text \<open>A pool allocated by \<open>buffer_pool_init\<close>, and a run from it.\<close>

lemma pool_init_ok:
  assumes "os_ok os" and "unat capacity * 8 < 2 ^ 64" and "capacity \<noteq> 0"
  shows "\<exists>p. buffer_pool_init (os_malloc os site) capacity block_size = Inr p \<and> bp_wf p \<and>
    bp_hits p = 0 \<and> bp_misses p = 0"
proof -
  obtain arr where "os_malloc os site (capacity * 8) = Some arr" "length arr = unat capacity"
    using os_malloc_array [OF assms(1,2)] by blast
  then show ?thesis
    using empty_pool_wf(1) [OF assms(3), of arr block_size]
    by (simp add: buffer_pool_init_def empty_pool_def)
qed

lemma lru_init_ok:
  assumes "os_ok os" and "unat capacity * 8 < 2 ^ 64" and "capacity \<noteq> 0"
  shows "\<exists>p. lru_buffer_pool_init (os_malloc os s1) (os_malloc os s2) capacity block_size = Inr p \<and>
    lru_wf p \<and> lru_timed p \<and> lru_queue p = [] \<and> lru_capacity p = capacity \<and> lru_clock p = 0 \<and>
    lru_hits p = 0 \<and> lru_misses p = 0"
proof -
  obtain a b where "os_malloc os s1 (capacity * 8) = Some a" "length a = unat capacity"
    "os_malloc os s2 (capacity * 8) = Some b" "length b = unat capacity"
    using os_malloc_array [OF assms(1,2)] by metis
  then show ?thesis
    using assms(3) by (simp add: lru_buffer_pool_init_def lru_wf_def lru_timed_def lru_queue_def
        recency_def lru_contents_def lru_stamps_def)
qed

text \<open>\<open>prepare_test_file\<close> succeeds, so a program that passes its checks reaches its frame.\<close>

lemma interrupted_main_run:
  assumes "os_ok os" and "length argv = 9" and "strtoull (argv ! 8) \<noteq> 0" and "strtoull (argv ! 4) \<noteq> 0"
    and "strtoull (argv ! 6) \<noteq> 0" and "strtoull (argv ! 3) \<noteq> 0"
    and "strtoull (argv ! 6) < strtoull (argv ! 2) div strtoull (argv ! 3)"
  shows "\<exists>w1. interrupted_main os argv w =
    Some (bench_frame os (argv ! 1) (strtoull (argv ! 3)) (strtoull (argv ! 7)) (strtoull (argv ! 8))
      (interrupted_repeat os (strtoull (argv ! 3)) (strtoull (argv ! 4)) (strtoull (argv ! 5))
         (strtoull (argv ! 6)) (strtoull (argv ! 7)) (strtoull (argv ! 2) div strtoull (argv ! 3))) w1)"
proof -
  obtain w1 where "prepare_test_file os (argv ! 1) (strtoull (argv ! 2)) w = Some (0, w1)"
    using prepare_ok [OF assms(1)] by blast
  with assms(2-7) show ?thesis
    by (intro exI [of _ w1]) (auto simp: interrupted_main_def Let_def div_c_def leD)
qed

lemma interrupted_repeat_ok:
  fixes os :: "'w os"
  assumes "os_ok os" and "capacity \<noteq> 0" and "unat capacity * 8 < 2 ^ 64" and "burst \<noteq> 0"
    and "burst < total_blocks" and "unat num + unat burst < 2 ^ 64" and "length blocks = unat num"
  shows "\<exists>w' blocks' h m. interrupted_repeat os block_size capacity window burst num total_blocks fd r
      (sd, w, blocks, el, sm) = store_sample r h m w' blocks' el sm \<and>
    length blocks' = unat num \<and> h + m = num"
proof -
  obtain bl w1 where gen: "generate_interrupted_sequence (os_rand os) blocks num total_blocks burst w =
      Inr (bl, w1)" "length bl = unat num"
    using interrupted_ok [OF assms(4-6), of blocks "os_rand os" w] assms(7) by auto
  obtain p where p: "buffer_pool_init (os_malloc os (Pool_slots r)) capacity block_size = Inr p"
    "bp_wf p" "bp_hits p = 0" "bp_misses p = 0"
    using pool_init_ok [OF assms(1,3,2)] by blast
  obtain p' ra' w2 where "access_loop buffer_pool_lookup buffer_pool_insert readahead_on_access
      (os_pread os fd block_size) block_size bl num (p, readahead_init window, w1) = Inr (p', ra', w2)"
    "bp_hits p' + bp_misses p' = num"
    using ra_driver.access_loop_counts [OF p(2) os_okD(8) [OF assms(1)], of num bl fd block_size
        block_size "readahead_init window" w1] p(3,4) gen(2) by auto
  with gen p(1) show ?thesis
    by (auto simp: interrupted_repeat_def buffer_pool_hits_def buffer_pool_misses_def)
qed

lemma adaptive_repeat_ok:
  fixes os :: "'w os"
  assumes "os_ok os" and "capacity \<noteq> 0" and "unat capacity * 8 < 2 ^ 64" and "burst \<noteq> 0"
    and "burst < total_blocks" and "unat num + unat burst < 2 ^ 64" and "length blocks = unat num"
  shows "\<exists>w' blocks' h m. adaptive_repeat os block_size capacity wmin wmax burst num total_blocks fd r
      (sd, w, blocks, el, sm) = store_sample r h m w' blocks' el sm \<and>
    length blocks' = unat num \<and> h + m = num"
proof -
  obtain bl w1 where gen: "generate_interrupted_sequence (os_rand os) blocks num total_blocks burst w =
      Inr (bl, w1)" "length bl = unat num"
    using interrupted_ok [OF assms(4-6), of blocks "os_rand os" w] assms(7) by auto
  obtain p where p: "buffer_pool_init (os_malloc os (Pool_slots r)) capacity block_size = Inr p"
    "bp_wf p" "bp_hits p = 0" "bp_misses p = 0"
    using pool_init_ok [OF assms(1,3,2)] by blast
  obtain p' ra' w2 where "access_loop buffer_pool_lookup buffer_pool_insert adaptive_readahead_on_access
      (os_pread os fd block_size) block_size bl num (p, adaptive_readahead_init wmin wmax, w1) =
      Inr (p', ra', w2)" "bp_hits p' + bp_misses p' = num"
    using ar_driver.access_loop_counts [OF p(2) os_okD(8) [OF assms(1)], of num bl fd block_size
        block_size "adaptive_readahead_init wmin wmax" w1] p(3,4) gen(2) by auto
  with gen p(1) show ?thesis
    by (auto simp: adaptive_repeat_def buffer_pool_hits_def buffer_pool_misses_def)
qed

section \<open>Read-around on a walk\<close>

lemma near_surrounded:
  assumes "surrounded ra p x" and "near jitter x y" and "jitter \<le> rd_radius ra"
    and "y < rd_total_blocks ra"
  shows "y \<in> set (lru_queue p)"
proof -
  have "\<bar>int (unat y) - int (unat x)\<bar> \<le> int (unat (rd_radius ra))"
    using assms(2,3) by (simp add: near_def word_le_def)
  then have "unat x \<le> unat y + unat (rd_radius ra)" "unat y \<le> unat x + unat (rd_radius ra)"
    by linarith+
  with assms(1,4) show ?thesis by (simp add: surrounded_def)
qed

text \<open>
  A walk whose steps are no longer than the radius: after the first access every block of the
  walk has been prefetched around its predecessor.
\<close>

lemma walk_run:
  fixes pread :: "'w \<Rightarrow> size_t \<Rightarrow> int \<times> 'w"
  assumes wf: "lru_wf p" and tm: "lru_timed p" and cold: "lru_queue p = []"
    and stats: "lru_hits p = 0" "lru_misses p = 0" and disk: "reads_succeed pread"
    and fits: "rd_fits ra p" and jit: "jitter \<le> rd_radius ra"
    and inf: "\<forall>b \<in> set bl. b < rd_total_blocks ra"
    and walk: "\<forall>k. Suc k < length bl \<longrightarrow> near jitter (bl ! k) (bl ! Suc k)"
    and clk: "unat (lru_clock p) + length bl * (2 * unat (rd_radius ra) + 2) < 2 ^ 64"
  shows "\<exists>p' w'. foldR (access_step lru_buffer_pool_lookup lru_buffer_pool_insert
      read_around_on_access pread bs) bl (p, ra, w) = Inr (p', ra, w') \<and>
    (bl \<noteq> [] \<longrightarrow> lru_hits p' = of_nat (length bl - 1) \<and> lru_misses p' = 1)"
proof -
  let ?d = "2 * unat (rd_radius ra) + 2"
  let ?P = "\<lambda>ys (p', r, w :: 'w). lru_wf p' \<and> lru_timed p' \<and> r = ra \<and>
    lru_capacity p' = lru_capacity p \<and>
    unat (lru_clock p') \<le> unat (lru_clock p) + length ys * ?d \<and>
    (if ys = [] then lru_queue p' = [] \<and> lru_hits p' = 0 \<and> lru_misses p' = 0
     else surrounded ra p' (last ys) \<and> lru_hits p' = of_nat (length ys - 1) \<and> lru_misses p' = 1)"
  have "\<exists>st. foldR (access_step lru_buffer_pool_lookup lru_buffer_pool_insert
      read_around_on_access pread bs) bl (p, ra, w) = Inr st \<and> ?P bl st"
  proof (rule foldR_prefix_invariant [where P = ?P])
    show "?P [] (p, ra, w)" using wf tm cold stats by simp
  next
    fix ys b zs and st :: "LruBufferPool \<times> ReadAround \<times> 'w"
    assume bl: "bl = ys @ b # zs" and P: "?P ys st"
    obtain q w1 where st: "st = (q, ra, w1)" using P by (cases st) auto
    have b: "b < rd_total_blocks ra" using inf bl by simp
    have "Suc (length ys) * ?d \<le> length bl * ?d" using bl by (intro mult_le_mono1) simp
    then have "unat (lru_clock q) + ?d < 2 ^ 64" using P st clk by simp
    then have ck: "unat (lru_clock q) + 2 * unat (rd_radius ra) + 2 < 2 ^ 64" by simp
    have "rd_fits ra q" using fits P st by (simp add: rd_fits_def)
    from rd_access_step [OF _ _ this b disk ck, of bs w1] P st obtain p' w' where
      step: "access_step lru_buffer_pool_lookup lru_buffer_pool_insert read_around_on_access
        pread bs b (q, ra, w1) = Inr (p', ra, w')" "lru_wf p'" "lru_timed p'" "surrounded ra p' b"
      "lru_capacity p' = lru_capacity q" "unat (lru_clock p') \<le> unat (lru_clock q) + ?d"
      "lru_hits p' = (if b \<in> set (lru_queue q) then lru_hits q + 1 else lru_hits q)"
      "lru_misses p' = (if b \<in> set (lru_queue q) then lru_misses q else lru_misses q + 1)"
      by auto
    have "b \<in> set (lru_queue q)" if "ys \<noteq> []"
    proof (rule near_surrounded [OF _ _ jit b])
      show "surrounded ra q (last ys)" using P st that by simp
      have "bl ! (length ys - 1) = last ys" "bl ! Suc (length ys - 1) = b"
        using that bl by (simp_all add: nth_append last_conv_nth)
      moreover have "Suc (length ys - 1) < length bl" using that bl by simp
      ultimately show "near jitter (last ys) b" using walk by metis
    qed
    with step P st show "\<exists>st'. access_step lru_buffer_pool_lookup lru_buffer_pool_insert
        read_around_on_access pread bs b st = Inr st' \<and> ?P (ys @ [b]) st'"
      by (cases "ys = []") (auto simp: of_nat_diff Suc_le_eq)
  qed
  then show ?thesis by (auto split: if_splits)
qed

lemma read_around_repeat_ok:
  fixes os :: "'w os"
  assumes os: "os_ok os" and cap: "unat capacity * 8 < 2 ^ 64" "2 * unat radius + 1 \<le> unat capacity"
    and region: "region_width \<noteq> 0" "region_width \<le> total_blocks"
    and size: "uint total_blocks < 2 ^ 63" "uint jitter < 2 ^ 62"
    and jit: "jitter \<le> radius" and num: "num \<noteq> 0" "unat num * (2 * unat radius + 2) < 2 ^ 64"
    and len: "length blocks = unat num"
  shows "\<exists>w' blocks' h m. read_around_repeat os block_size capacity region_width jitter radius num
      total_blocks fd r (sd, w, blocks, el, sm) = store_sample r h m w' blocks' el sm \<and>
    length blocks' = unat num \<and> h = num - 1 \<and> m = 1"
proof -
  let ?ra = "read_around_init radius total_blocks"
  obtain bl w1 rs re where gen: "generate_locality_walk (os_rand os) blocks num total_blocks
      region_width jitter w = Inr (bl, w1)" "length bl = unat num" "walked rs re jitter bl (unat num)"
      "re < total_blocks"
    using walk_ok [OF region size, of num blocks "os_rand os" w] len by auto
  have inf: "\<forall>b \<in> set bl. b < total_blocks"
    using gen(2-4) by (auto simp: walked_def in_set_conv_nth) (metis le_less_trans)
  have "unat total_blocks < 2 ^ 63" using size(1) by (simp only: unat_less_63)
  moreover have "unat radius < 2 ^ 62" using cap by simp
  moreover have "capacity \<noteq> 0" using cap(2) by auto
  ultimately obtain p where p: "lru_buffer_pool_init (os_malloc os (Pool_slots r))
      (os_malloc os (Pool_stamps r)) capacity block_size = Inr p" "lru_wf p" "lru_timed p"
      "lru_queue p = []" "rd_fits ?ra p" "lru_clock p = 0" "lru_hits p = 0" "lru_misses p = 0"
    using lru_init_ok [OF os cap(1), of "Pool_slots r" "Pool_stamps r" block_size] cap(2)
    by (auto simp: rd_fits_def read_around_init_def)
  have "bl \<noteq> []" using gen(2) num(1) unat_gt_0 [of num] by auto
  have "\<exists>p' w'. foldR (access_step lru_buffer_pool_lookup lru_buffer_pool_insert
      read_around_on_access (os_pread os fd block_size) block_size) bl (p, ?ra, w1) =
      Inr (p', ?ra, w') \<and> (bl \<noteq> [] \<longrightarrow> lru_hits p' = of_nat (length bl - 1) \<and> lru_misses p' = 1)"
    using gen inf p jit num(2) os_okD(8) [OF os]
    by (intro walk_run [where jitter = jitter]) (auto simp: read_around_init_def walked_def)
  then obtain p' w' where "access_loop lru_buffer_pool_lookup lru_buffer_pool_insert
      read_around_on_access (os_pread os fd block_size) block_size bl num (p, ?ra, w1) =
      Inr (p', ?ra, w')" "lru_hits p' = of_nat (length bl - 1)" "lru_misses p' = 1"
    using \<open>bl \<noteq> []\<close> gen(2) by (auto simp: access_loop_foldR)
  moreover have "of_nat (length bl - 1) = num - 1"
    using gen(2) num(1) by (simp add: of_nat_diff Suc_le_eq unat_gt_0)
  ultimately show ?thesis
    using gen(1,2) p(1)
    by (auto simp: read_around_repeat_def lru_buffer_pool_hits_def lru_buffer_pool_misses_def)
qed

section \<open>The mixed benchmark\<close>

lemma run_fixed_ok:
  assumes "os_ok os" and "capacity \<noteq> 0" and "unat capacity * 8 < 2 ^ 64" and "unat num \<le> length bl"
  shows "\<exists>h m w'. run_fixed os r fd block_size capacity window bl num w = Inr ((h, m), w') \<and> h + m = num"
proof -
  obtain p where p: "buffer_pool_init (os_malloc os (Pool_slots r)) capacity block_size = Inr p"
    "bp_wf p" "bp_hits p = 0" "bp_misses p = 0"
    using pool_init_ok [OF assms(1,3,2)] by blast
  then show ?thesis
    using ra_driver.access_loop_counts [OF p(2) os_okD(8) [OF assms(1)] assms(4), of fd block_size
        block_size "readahead_init window" w]
    by (auto simp: run_fixed_def buffer_pool_hits_def buffer_pool_misses_def)
qed

lemma run_adaptive_ok:
  assumes "os_ok os" and "capacity \<noteq> 0" and "unat capacity * 8 < 2 ^ 64" and "unat num \<le> length bl"
  shows "\<exists>h m w'. run_adaptive os r fd block_size capacity wmin wmax bl num w = Inr ((h, m), w') \<and>
    h + m = num"
proof -
  obtain p where p: "buffer_pool_init (os_malloc os (Adaptive_slots r)) capacity block_size = Inr p"
    "bp_wf p" "bp_hits p = 0" "bp_misses p = 0"
    using pool_init_ok [OF assms(1,3,2)] by blast
  then show ?thesis
    using ar_driver.access_loop_counts [OF p(2) os_okD(8) [OF assms(1)] assms(4), of fd block_size
        block_size "adaptive_readahead_init wmin wmax" w]
    by (auto simp: run_adaptive_def buffer_pool_hits_def buffer_pool_misses_def)
qed

definition counted :: "size_t \<Rightarrow> (size_t \<times> size_t) option \<Rightarrow> bool" where
  "counted n s \<longleftrightarrow> (case s of None \<Rightarrow> False | Some (h, m) \<Rightarrow> h + m = n)"

lemma mixed_repeat_ok:
  fixes os :: "'w os"
  assumes "os_ok os" and "capacity \<noteq> 0" and "unat capacity * 8 < 2 ^ 64" and "256 < total_blocks"
    and "unat num + 256 < 2 ^ 64" and "length blocks = unat num"
    and "unat r < length fe" "unat r < length fs" "unat r < length ae" "unat r < length as"
  shows "\<exists>w' bl' f a. mixed_repeat os fd block_size capacity window wmin wmax num total_blocks r
      (w, blocks, fe, fs, ae, as) =
      Inr (w', bl', fe, fs[unat r := f], ae, as[unat r := a]) \<and>
    length bl' = unat num \<and> counted num f \<and> counted num a"
proof -
  obtain bl w1 where gen: "generate_mixed_sequence (os_rand os) blocks num total_blocks w =
      Inr (bl, w1)" "length bl = unat num"
    using mixed_ok [OF assms(4,5), of blocks "os_rand os" w] assms(6) by auto
  obtain fh fm w2 where f: "run_fixed os r fd block_size capacity window bl num w1 = Inr ((fh, fm), w2)"
    "fh + fm = num"
    using run_fixed_ok [OF assms(1-3), of num bl r fd block_size window w1] gen(2) by auto
  obtain ah am w3 where a: "run_adaptive os r fd block_size capacity wmin wmax bl num w2 =
      Inr ((ah, am), w3)" "ah + am = num"
    using run_adaptive_ok [OF assms(1-3), of num bl r fd block_size wmin wmax w2] gen(2) by auto
  have "xs[unat r := ()] = xs" for xs by (metis list_update_id old.unit.exhaust)
  with gen f a assms(7-10) show ?thesis
    by (intro exI [of _ w3] exI [of _ bl] exI [of _ "Some (fh, fm)"] exI [of _ "Some (ah, am)"])
      (simp add: mixed_repeat_def arr_set_def counted_def)
qed

lemma mixed_run_ok:
  fixes os :: "'w os"
  assumes os: "os_ok os" and cap: "capacity \<noteq> 0" "unat capacity * 8 < 2 ^ 64"
    and tot: "256 < total_blocks" and num: "unat num * 8 < 2 ^ 64" and rep: "unat repeats * 8 < 2 ^ 64"
  shows "\<exists>fs as. mixed_run os path block_size capacity window wmin wmax num total_blocks repeats w =
      Inr (0, fs, as) \<and> length fs = unat repeats \<and> length as = unat repeats \<and>
    (\<forall>s \<in> set fs \<union> set as. counted num s)"
proof -
  obtain blocks fe fh where m1:
    "os_malloc os Trace_array (num * 8) = Some blocks" "length blocks = unat num"
    "os_malloc os Elapsed_samples (repeats * 8) = Some fe" "length fe = unat repeats"
    "os_malloc os Hit_rate_samples (repeats * 8) = Some fh" "length fh = unat repeats"
    using os_malloc_array [OF os num] os_malloc_array [OF os rep] by metis
  obtain ae ah where m2:
    "os_malloc os Adaptive_elapsed (repeats * 8) = Some ae" "length ae = unat repeats"
    "os_malloc os Adaptive_hit_rate (repeats * 8) = Some ah" "length ah = unat repeats"
    using os_malloc_array [OF os rep] by metis
  obtain fd w1 where fd: "os_open_read os True path w = (fd, w1)" by fastforce
  then have fd0: "\<not> fd < 0" using os_okD(4) [OF os, of True path w] by simp
  let ?body = "mixed_repeat os fd block_size capacity window wmin wmax num total_blocks"
  let ?init = "(os_srand_now os w1, blocks, replicate (length fe) (), replicate (length fh) None,
    replicate (length ae) (), replicate (length ah) None)"
  let ?n = "unat repeats"
  let ?P = "\<lambda>k (w :: 'w, bl, fe :: unit list, fs, ae :: unit list, as).
    length bl = unat num \<and> length fe = ?n \<and> length fs = ?n \<and> length ae = ?n \<and> length as = ?n \<and>
    (\<forall>j < k. counted num (fs ! j) \<and> counted num (as ! j))"
  have "\<exists>st. for_c ?body repeats 0 ?init = Inr st \<and> ?P ?n st"
  proof (rule for_c_invariant [where P = ?P])
    fix i :: size_t and st :: "'w mixed_state"
    assume i: "i < repeats" and P: "?P (unat i) st"
    obtain w bl fe fs ae as where st: "st = (w, bl, fe, fs, ae, as)" by (cases st)
    have lt: "unat i < ?n" using i by (simp add: word_less_nat_alt)
    have "unat num + 256 < 2 ^ 64" using num by simp
    from mixed_repeat_ok [OF os cap tot this, of bl i fe fs ae as fd block_size window wmin wmax w]
      P st lt obtain w' bl' f a where "?body i st = Inr (w', bl', fe, fs[unat i := f], ae, as[unat i := a])"
      "length bl' = unat num" "counted num f" "counted num a" by auto
    with P st lt show "\<exists>st'. ?body i st = Inr st' \<and> ?P (Suc (unat i)) st'"
      by (auto simp: less_Suc_eq nth_list_update)
  qed (simp add: m1 m2)
  then obtain w2 bl fe2 fs ae2 as where "for_c ?body repeats 0 ?init = Inr (w2, bl, fe2, fs, ae2, as)"
    "length fs = ?n" "length as = ?n" "\<forall>j < ?n. counted num (fs ! j) \<and> counted num (as ! j)"
    by auto
  then show ?thesis
    using m1 m2 fd fd0 os_okD(7) [OF os] by (auto simp: mixed_run_def in_set_conv_nth)
qed

section \<open>Properties\<close>

text \<open>
  The read-around benchmark measures what it is meant to show. When the radius covers the
  walk's longest step and a neighbourhood fits the cache, the program exits with 0 and each of its
  repeats counts exactly one miss, the first access of the walk.
\<close>

theorem read_around_main_walk:
  assumes "os_ok os" and "length argv = 10"
    and "block_size = strtoull (argv ! 3)" and "total_blocks = strtoull (argv ! 2) div block_size"
    and "capacity = strtoull (argv ! 4)" and "region_width = strtoull (argv ! 5)"
    and "jitter = strtoull (argv ! 6)" and "radius = strtoull (argv ! 7)"
    and "num = strtoull (argv ! 8)" and "repeats = strtoull (argv ! 9)"
    and "repeats \<noteq> 0" and "region_width \<noteq> 0" and "block_size \<noteq> 0" and "num \<noteq> 0"
    and "region_width \<le> total_blocks" and "uint total_blocks < 2 ^ 63" and "uint jitter < 2 ^ 62"
    and "jitter \<le> radius" and "2 * unat radius + 1 \<le> unat capacity"
    and "unat capacity * 8 < 2 ^ 64" and "unat repeats * 8 < 2 ^ 64"
    and "unat num * 8 < 2 ^ 64" and "unat num * (2 * unat radius + 2) < 2 ^ 64"
  shows "read_around_main os argv w =
    Some (Inr (0, replicate (unat repeats) (Some (num - 1, 1))))"
proof -
  have cap: "capacity \<noteq> 0" using assms(19) by auto
  obtain w1 where "prepare_test_file os (argv ! 1) (strtoull (argv ! 2)) w = Some (0, w1)"
    using prepare_ok [OF assms(1)] by blast
  then have run: "read_around_main os argv w = Some (bench_frame os (argv ! 1) block_size num repeats
      (read_around_repeat os block_size capacity region_width jitter radius num total_blocks) w1)"
    using assms(2-13,15) cap by (auto simp: read_around_main_def Let_def div_c_def leD)
  have "\<exists>samples. bench_frame os (argv ! 1) block_size num repeats
      (read_around_repeat os block_size capacity region_width jitter radius num total_blocks) w1 =
      Inr (0, samples) \<and> length samples = unat repeats \<and>
    (\<forall>s \<in> set samples. \<exists>h m. s = Some (h, m) \<and> h = num - 1 \<and> m = 1)"
    using read_around_repeat_ok [OF assms(1,20,19,12,15-18,14,23)]
    by (intro bench_frame_ok [OF assms(1,22,21)]) blast
  then show ?thesis using run by (auto intro!: replicate_eqI)
qed

text \<open>
  The interrupted benchmark (bursts, fixed window): a run that passes the checks exits with 0
  and counts every access of every repeat once.
\<close>

theorem interrupted_main_counts:
  assumes "os_ok os" and "length argv = 9"
    and "block_size = strtoull (argv ! 3)" and "total_blocks = strtoull (argv ! 2) div block_size"
    and "capacity = strtoull (argv ! 4)" and "burst = strtoull (argv ! 6)"
    and "num = strtoull (argv ! 7)" and "repeats = strtoull (argv ! 8)"
    and "repeats \<noteq> 0" and "capacity \<noteq> 0" and "burst \<noteq> 0" and "block_size \<noteq> 0"
    and "burst < total_blocks" and "unat num + unat burst < 2 ^ 64"
    and "unat capacity * 8 < 2 ^ 64" and "unat num * 8 < 2 ^ 64" and "unat repeats * 8 < 2 ^ 64"
  shows "\<exists>samples. interrupted_main os argv w = Some (Inr (0, samples)) \<and>
    length samples = unat repeats \<and> (\<forall>s \<in> set samples. \<exists>h m. s = Some (h, m) \<and> h + m = num)"
proof -
  obtain w1 where run: "interrupted_main os argv w =
      Some (bench_frame os (argv ! 1) block_size num repeats
        (interrupted_repeat os block_size capacity (strtoull (argv ! 5)) burst num total_blocks) w1)"
    using interrupted_main_run [OF assms(1,2), of w] assms(3-13) by auto
  have "\<exists>samples. bench_frame os (argv ! 1) block_size num repeats
      (interrupted_repeat os block_size capacity (strtoull (argv ! 5)) burst num total_blocks) w1 =
      Inr (0, samples) \<and> length samples = unat repeats \<and>
    (\<forall>s \<in> set samples. \<exists>h m. s = Some (h, m) \<and> h + m = num)"
    using interrupted_repeat_ok [OF assms(1,10,15,11,13,14)]
    by (intro bench_frame_ok [OF assms(1,16,17)]) blast
  then show ?thesis using run by auto
qed

text \<open>
  The adaptive benchmark (bursts, adaptive window): the same, for every pair of window bounds
  that passes the checks.
\<close>

theorem adaptive_main_counts:
  assumes "os_ok os" and "length argv = 10"
    and "block_size = strtoull (argv ! 3)" and "total_blocks = strtoull (argv ! 2) div block_size"
    and "capacity = strtoull (argv ! 4)" and "burst = strtoull (argv ! 7)"
    and "num = strtoull (argv ! 8)" and "repeats = strtoull (argv ! 9)"
    and "repeats \<noteq> 0" and "capacity \<noteq> 0" and "burst \<noteq> 0" and "block_size \<noteq> 0"
    and "burst < total_blocks" and "unat num + unat burst < 2 ^ 64"
    and "unat capacity * 8 < 2 ^ 64" and "unat num * 8 < 2 ^ 64" and "unat repeats * 8 < 2 ^ 64"
    and "strtoull (argv ! 5) \<le> strtoull (argv ! 6)"
  shows "\<exists>samples. adaptive_main os argv w = Some (Inr (0, samples)) \<and>
    length samples = unat repeats \<and> (\<forall>s \<in> set samples. \<exists>h m. s = Some (h, m) \<and> h + m = num)"
proof -
  let ?body = "adaptive_repeat os block_size capacity (strtoull (argv ! 5)) (strtoull (argv ! 6)) burst
    num total_blocks"
  obtain w1 where "prepare_test_file os (argv ! 1) (strtoull (argv ! 2)) w = Some (0, w1)"
    using prepare_ok [OF assms(1)] by blast
  then have run: "adaptive_main os argv w = Some (bench_frame os (argv ! 1) block_size num repeats
      ?body w1)"
    using assms(2-13,18) by (auto simp: adaptive_main_def Let_def div_c_def leD)
  have "\<exists>samples. bench_frame os (argv ! 1) block_size num repeats ?body w1 =
      Inr (0, samples) \<and> length samples = unat repeats \<and>
    (\<forall>s \<in> set samples. \<exists>h m. s = Some (h, m) \<and> h + m = num)"
    using adaptive_repeat_ok [OF assms(1,10,15,11,13,14)]
    by (intro bench_frame_ok [OF assms(1,16,17)]) blast
  then show ?thesis using run by auto
qed

text \<open>
  The mixed benchmark replays each trace through both read-aheads: a run that passes the checks
  exits with 0, and in every repeat both the fixed and the adaptive run account for every access.
\<close>

theorem mixed_main_counts:
  assumes "os_ok os" and "length argv = 10"
    and "block_size = strtoull (argv ! 3)" and "total_blocks = strtoull (argv ! 2) div block_size"
    and "capacity = strtoull (argv ! 4)" and "num = strtoull (argv ! 8)"
    and "repeats = strtoull (argv ! 9)" and "repeats \<noteq> 0" and "capacity \<noteq> 0"
    and "block_size \<noteq> 0" and "256 < total_blocks" and "unat capacity * 8 < 2 ^ 64"
    and "unat num * 8 < 2 ^ 64" and "unat repeats * 8 < 2 ^ 64"
    and "strtoull (argv ! 6) \<le> strtoull (argv ! 7)"
  shows "\<exists>fs as. mixed_main os argv w = Some (Inr (0, fs, as)) \<and>
    length fs = unat repeats \<and> length as = unat repeats \<and> (\<forall>s \<in> set fs \<union> set as. counted num s)"
proof -
  obtain w1 where "prepare_test_file os (argv ! 1) (strtoull (argv ! 2)) w = Some (0, w1)"
    using prepare_ok [OF assms(1)] by blast
  moreover have "arr_get kBurstLens (kNumBurstLens - 1) = Inr 256"
    by (simp add: kBurstLens_def kNumBurstLens_def arr_get_def)
  ultimately have "mixed_main os argv w = Some (mixed_run os (argv ! 1) block_size capacity
      (strtoull (argv ! 5)) (strtoull (argv ! 6)) (strtoull (argv ! 7)) num total_blocks repeats w1)"
    using assms(2-11,15) by (auto simp: mixed_main_def Let_def div_c_def leD)
  then show ?thesis
    using mixed_run_ok [OF assms(1,9,12,11,13,14)] by simp
qed

section \<open>Concrete runs\<close>

theorem read_around_main_walk_witness:
  "read_around_main calm_os
     [''b'', ''f'', ''64'', ''1'', ''8'', ''10'', ''2'', ''3'', ''5'', ''2''] 0 =
   Some (Inr (0, [Some (4, 1), Some (4, 1)]))"
proof -
  have "read_around_main calm_os
      [''b'', ''f'', ''64'', ''1'', ''8'', ''10'', ''2'', ''3'', ''5'', ''2''] 0 =
    Some (Inr (0, replicate (unat (2 :: size_t)) (Some (5 - 1, 1))))"
    by (rule read_around_main_walk [OF calm_os_ok, of
        "[''b'', ''f'', ''64'', ''1'', ''8'', ''10'', ''2'', ''3'', ''5'', ''2'']" 1 64 8 10 2 3 5 2 0])
      (simp_all add: decimal_values)
  then show ?thesis by (simp add: replicate_2)
qed

theorem interrupted_main_counts_witness:
  "\<exists>samples. interrupted_main calm_os
     [''b'', ''f'', ''64'', ''1'', ''4'', ''2'', ''3'', ''10'', ''1''] 0 = Some (Inr (0, samples)) \<and>
   length samples = 1 \<and> (\<forall>s \<in> set samples. \<exists>h m. s = Some (h, m) \<and> h + m = 10)"
  using interrupted_main_counts [OF calm_os_ok, of
      "[''b'', ''f'', ''64'', ''1'', ''4'', ''2'', ''3'', ''10'', ''1'']" 1 64 4 3 10 1 0]
  by (simp add: decimal_values)

theorem adaptive_main_counts_witness:
  "\<exists>samples. adaptive_main calm_os
     [''b'', ''f'', ''64'', ''1'', ''4'', ''1'', ''2'', ''3'', ''10'', ''1''] 0 = Some (Inr (0, samples)) \<and>
   length samples = 1 \<and> (\<forall>s \<in> set samples. \<exists>h m. s = Some (h, m) \<and> h + m = 10)"
  using adaptive_main_counts [OF calm_os_ok, of
      "[''b'', ''f'', ''64'', ''1'', ''4'', ''1'', ''2'', ''3'', ''10'', ''1'']" 1 64 4 3 10 1 0]
  by (simp add: decimal_values)

theorem mixed_main_counts_witness:
  "\<exists>fs as. mixed_main calm_os
     [''b'', ''f'', ''300'', ''1'', ''4'', ''1'', ''1'', ''2'', ''10'', ''1''] 0 = Some (Inr (0, fs, as)) \<and>
   length fs = unat (1 :: size_t) \<and> length as = unat (1 :: size_t) \<and> (\<forall>s \<in> set fs \<union> set as. counted 10 s)"
  by (rule mixed_main_counts [OF calm_os_ok, of
        "[''b'', ''f'', ''300'', ''1'', ''4'', ''1'', ''1'', ''2'', ''10'', ''1'']" 1 300 4 10 1 0])
    (simp_all add: decimal_values)

end
