(* ===== verification/MiniMalloc.thy ===== *)
theory MiniMalloc
  imports Prelude
begin

text \<open>
  The allocator of \<open>mini-malloc/src/malloc.c\<close>: block headers linked into a doubly-linked,
  first-fit free list, with memory obtained from \<open>sbrk\<close>. Memory is the function from a header's
  address to the header (address 0 is \<open>NULL\<close>); that headers and payloads never overlap, so
  that this is a faithful memory, is part of the invariant. \<open>sbrk\<close> is a parameter with
  a state of its own; it takes a signed increment, as the C function does. A call whose walk
  along the free list never ends is \<open>None\<close>.
\<close>

section \<open>State and operations\<close>

record block_t =
  blk_size :: size_t
  blk_free :: bool
  blk_prev :: size_t
  blk_next :: size_t

record 'os heap =
  mem :: "size_t \<Rightarrow> block_t"
  free_list :: size_t
  hos :: 'os

abbreviation NULL :: size_t where "NULL \<equiv> 0"

definition HDR :: size_t where "HDR = 32"

definition SIZE_MAX :: size_t where "SIZE_MAX = - 1"

definition upd :: "size_t \<Rightarrow> (block_t \<Rightarrow> block_t) \<Rightarrow> 'os heap \<Rightarrow> 'os heap" where
  "upd a f h = h\<lparr>mem := (mem h)(a := f (mem h a))\<rparr>"

partial_function (option) find_from :: "(size_t \<Rightarrow> block_t) \<Rightarrow> size_t \<Rightarrow> size_t \<Rightarrow> size_t option" where
  "find_from m sz current =
     (if current \<noteq> NULL
      then if blk_free (m current) \<and> blk_size (m current) \<ge> sz then Some current
           else find_from m sz (blk_next (m current))
      else Some NULL)"

definition find_free_block :: "size_t \<Rightarrow> 'os heap \<Rightarrow> size_t option" where
  "find_free_block sz h = find_from (mem h) sz (free_list h)"

definition remove_free_block :: "size_t \<Rightarrow> 'os heap \<Rightarrow> 'os heap" where
  "remove_free_block block h =
     (let h1 = (if blk_prev (mem h block) \<noteq> NULL
                then upd (blk_prev (mem h block)) (\<lambda>b. b\<lparr>blk_next := blk_next (mem h block)\<rparr>) h
                else h\<lparr>free_list := blk_next (mem h block)\<rparr>);
          h2 = (if blk_next (mem h1 block) \<noteq> NULL
                then upd (blk_next (mem h1 block)) (\<lambda>b. b\<lparr>blk_prev := blk_prev (mem h1 block)\<rparr>) h1
                else h1)
      in upd block (\<lambda>b. b\<lparr>blk_prev := NULL, blk_next := NULL\<rparr>) h2)"

definition my_malloc ::
  "('os \<Rightarrow> int \<Rightarrow> size_t \<times> 'os) \<Rightarrow> size_t \<Rightarrow> 'os heap \<Rightarrow> (size_t \<times> 'os heap) option" where
  "my_malloc sbrk sz h =
     (if sz = 0 then Some (NULL, h)
      else if sz > SIZE_MAX - HDR then Some (NULL, h)
      else case find_free_block sz h of
             None \<Rightarrow> None
           | Some block \<Rightarrow>
               if block \<noteq> NULL
               then Some (block + HDR, upd block (\<lambda>b. b\<lparr>blk_free := False\<rparr>) (remove_free_block block h))
               else case sbrk (hos h) (sint (HDR + sz)) of
                      (block, os') \<Rightarrow>
                        if block = - 1 then Some (NULL, h\<lparr>hos := os'\<rparr>)
                        else Some (block + HDR,
                               upd block (\<lambda>b. b\<lparr>blk_size := sz, blk_free := False\<rparr>)
                                 (h\<lparr>hos := os'\<rparr>)))"

definition my_free :: "size_t \<Rightarrow> 'os heap \<Rightarrow> 'os heap" where
  "my_free ptr h =
     (if ptr = NULL then h
      else let block = ptr - HDR in
        if blk_free (mem h block) then h
        else let h1 = upd block (\<lambda>b. b\<lparr>blk_free := True\<rparr>) h;
                 h2 = upd block (\<lambda>b. b\<lparr>blk_prev := NULL\<rparr>) h1;
                 h3 = upd block (\<lambda>b. b\<lparr>blk_next := free_list h2\<rparr>) h2;
                 h4 = (if free_list h3 \<noteq> NULL
                       then upd (free_list h3) (\<lambda>b. b\<lparr>blk_prev := block\<rparr>) h3 else h3)
             in h4\<lparr>free_list := block\<rparr>)"

section \<open>The free list\<close>

fun dlist :: "(size_t \<Rightarrow> block_t) \<Rightarrow> size_t \<Rightarrow> size_t \<Rightarrow> size_t list \<Rightarrow> bool" where
  "dlist m p c [] \<longleftrightarrow> c = NULL"
| "dlist m p c (x # xs) \<longleftrightarrow> c = x \<and> x \<noteq> NULL \<and> blk_prev (m x) = p \<and> dlist m x (blk_next (m x)) xs"

lemma dlist_frame:
  "\<forall>x \<in> set fl. blk_prev (m' x) = blk_prev (m x) \<and> blk_next (m' x) = blk_next (m x) \<Longrightarrow>
   dlist m' p c fl = dlist m p c fl"
  by (induction fl arbitrary: p c) auto

lemma dlist_head: "dlist m p c fl \<Longrightarrow> c = (if fl = [] then NULL else hd fl)"
  by (cases fl) auto

lemma dlist_new_prev:
  assumes "dlist m p c fl" and "distinct fl"
  shows "dlist (if c = NULL then m else m(c := (m c)\<lparr>blk_prev := p'\<rparr>)) p' c fl"
proof (cases fl)
  case Nil
  then show ?thesis using assms by simp
next
  case (Cons x xs)
  then have "dlist (m(x := (m x)\<lparr>blk_prev := p'\<rparr>)) x (blk_next (m x)) xs =
      dlist m x (blk_next (m x)) xs"
    using assms by (intro dlist_frame) auto
  then show ?thesis using assms Cons by auto
qed

text \<open>The neighbours of a block of the list.\<close>

lemma dlist_suffix:
  "dlist m p c (xs @ ys) \<Longrightarrow> \<exists>c'. dlist m (if xs = [] then p else last xs) c' ys"
proof (induction xs arbitrary: p c)
  case (Cons x xs)
  then obtain c' where "dlist m (if xs = [] then x else last xs) c' ys" by (metis append_Cons dlist.simps(2))
  then show ?case by (auto split: if_splits)
qed auto

lemma dlist_neighbours:
  assumes "dlist m p c (xs @ b # ys)"
  shows "b \<noteq> NULL" and "blk_prev (m b) = (if xs = [] then p else last xs)"
    and "dlist m b (blk_next (m b)) ys"
  using dlist_suffix [OF assms] by auto

lemma dlist_nonnull: "dlist m p c fl \<Longrightarrow> NULL \<notin> set fl"
  by (induction fl arbitrary: p c) auto

text \<open>Unlinking a block.\<close>

lemma dlist_unlink:
  assumes "dlist m p c (xs @ b # ys)" and "distinct (xs @ b # ys)"
  defines "n \<equiv> blk_next (m b)" and "q \<equiv> (if xs = [] then p else last xs)"
  defines "m1 \<equiv> (if xs = [] then m else m(q := (m q)\<lparr>blk_next := n\<rparr>))"
  defines "m2 \<equiv> (if n = NULL then m1 else m1(n := (m1 n)\<lparr>blk_prev := q\<rparr>))"
  shows "dlist m2 p (if xs = [] then n else c) (xs @ ys)"
  using assms(1,2) unfolding n_def q_def m1_def m2_def
proof (induction xs arbitrary: p c)
  case Nil
  then show ?case using dlist_new_prev [of m b "blk_next (m b)" ys p] by (auto simp: fun_upd_def)
next
  case (Cons x xs)
  let ?n = "blk_next (m b)"
  have tail: "dlist m x (blk_next (m x)) (xs @ b # ys)" and x: "c = x" "x \<noteq> NULL" "blk_prev (m x) = p"
    using Cons.prems by auto
  have n: "?n \<noteq> NULL \<Longrightarrow> ?n \<in> set ys"
    using dlist_head [OF dlist_neighbours(3) [OF tail]] by (auto split: if_splits)
  show ?case
  proof (cases "xs = []")
    case True
    let ?m1 = "m(x := (m x)\<lparr>blk_next := ?n\<rparr>)"
    have "dlist ?m1 b ?n ys" using dlist_neighbours(3) [OF tail] Cons.prems(2)
      by (subst dlist_frame [of _ _ m]) auto
    from dlist_new_prev [OF this, of x] Cons.prems(2)
    have "dlist (if ?n = NULL then ?m1 else ?m1(?n := (?m1 ?n)\<lparr>blk_prev := x\<rparr>)) x ?n ys" by simp
    then show ?thesis using True x n Cons.prems(2) by (cases "?n = NULL") (auto simp: fun_upd_def)
  next
    case False
    have "last xs \<noteq> x" using False Cons.prems(2) by (metis distinct.simps(2) append_Cons Un_iff
          last_in_set set_append)
    then show ?thesis using Cons.IH [OF tail] False x n Cons.prems(2)
      by (cases "?n = NULL") (auto simp: fun_upd_def)
  qed
qed

lemma upd_simps [simp]:
  "mem (upd a f h) = (mem h)(a := f (mem h a))" "free_list (upd a f h) = free_list h"
  "hos (upd a f h) = hos h"
  by (simp_all add: upd_def)

lemma remove_links:
  assumes "dlist (mem h) NULL (free_list h) (xs @ b # ys)" and "distinct (xs @ b # ys)"
  shows "dlist (mem (remove_free_block b h)) NULL (free_list (remove_free_block b h)) (xs @ ys)"
proof -
  let ?m = "mem h"
  let ?n = "blk_next (?m b)" and ?q = "if xs = [] then NULL else last xs"
  let ?m1 = "if xs = [] then ?m else ?m(?q := (?m ?q)\<lparr>blk_next := ?n\<rparr>)"
  let ?m2 = "if ?n = NULL then ?m1 else ?m1(?n := (?m1 ?n)\<lparr>blk_prev := ?q\<rparr>)"
  note nb = dlist_neighbours [OF assms(1)]
  have nz: "xs = [] \<longleftrightarrow> ?q = NULL"
    using dlist_nonnull [OF assms(1)] by (auto split: if_splits) (metis last_in_set)
  have qb: "xs \<noteq> [] \<Longrightarrow> last xs \<noteq> b" using assms(2) by auto
  have "dlist ?m2 NULL (if xs = [] then ?n else free_list h) (xs @ ys)"
    by (rule dlist_unlink [OF assms])
  then have "dlist (?m2(b := (?m2 b)\<lparr>blk_prev := NULL, blk_next := NULL\<rparr>)) NULL
      (if xs = [] then ?n else free_list h) (xs @ ys)"
    using assms(2) by (subst dlist_frame [of _ _ ?m2]) auto
  moreover have "mem (remove_free_block b h) = ?m2(b := (?m2 b)\<lparr>blk_prev := NULL, blk_next := NULL\<rparr>)"
    "free_list (remove_free_block b h) = (if xs = [] then ?n else free_list h)"
    using nz qb nb(2) by (auto simp: remove_free_block_def Let_def)
  ultimately show ?thesis by simp
qed

lemma remove_keeps [simp]:
  "blk_size (mem (remove_free_block b h) a) = blk_size (mem h a)"
  "blk_free (mem (remove_free_block b h) a) = blk_free (mem h a)"
  "hos (remove_free_block b h) = hos h"
  by (simp_all add: remove_free_block_def Let_def)

section \<open>First fit\<close>

definition first_fit :: "(size_t \<Rightarrow> block_t) \<Rightarrow> size_t \<Rightarrow> size_t list \<Rightarrow> size_t option" where
  "first_fit m sz fl = find (\<lambda>b. sz \<le> blk_size (m b)) fl"

text \<open>On a well-formed list of free blocks the walk ends, at the first block that is large enough.\<close>

lemma find_from_first_fit:
  assumes "dlist m p c fl" and "\<forall>b \<in> set fl. blk_free (m b)"
  shows "find_from m sz c = Some (case first_fit m sz fl of None \<Rightarrow> NULL | Some b \<Rightarrow> b)"
  using assms
proof (induction fl arbitrary: p c)
  case Nil
  then show ?case by (subst find_from.simps) (simp add: first_fit_def)
next
  case (Cons x xs)
  then have "find_from m sz (blk_next (m x)) =
      Some (case first_fit m sz xs of None \<Rightarrow> NULL | Some b \<Rightarrow> b)" by auto
  with Cons.prems show ?case by (subst find_from.simps) (auto simp: first_fit_def)
qed

lemma first_fit_Some:
  assumes "first_fit m sz fl = Some b"
  shows "b \<in> set fl" and "sz \<le> blk_size (m b)"
    and "\<exists>xs ys. fl = xs @ b # ys \<and> (\<forall>x \<in> set xs. \<not> sz \<le> blk_size (m x))"
proof -
  from assms obtain i where i: "i < length fl" "sz \<le> blk_size (m (fl ! i))" "b = fl ! i"
    "\<forall>j < i. \<not> sz \<le> blk_size (m (fl ! j))" by (auto simp: first_fit_def find_Some_iff)
  then show "b \<in> set fl" "sz \<le> blk_size (m b)" by auto
  have "fl = take i fl @ b # drop (Suc i) fl" using i by (simp add: id_take_nth_drop)
  moreover have "\<forall>x \<in> set (take i fl). \<not> sz \<le> blk_size (m x)"
    using i by (auto simp: in_set_conv_nth)
  ultimately show "\<exists>xs ys. fl = xs @ b # ys \<and> (\<forall>x \<in> set xs. \<not> sz \<le> blk_size (m x))" by blast
qed

lemma first_fit_None: "first_fit m sz fl = None \<longleftrightarrow> (\<forall>b \<in> set fl. \<not> sz \<le> blk_size (m b))"
  by (auto simp: first_fit_def find_None_iff)

section \<open>Invariant\<close>

text \<open>The bytes of a block: its header and its payload.\<close>

definition extent :: "(size_t \<Rightarrow> block_t) \<Rightarrow> size_t \<Rightarrow> nat set" where
  "extent m b = {unat b ..< unat b + 32 + unat (blk_size (m b))}"

text \<open>
  \<open>bl\<close> are all blocks obtained so far, \<open>fl\<close> is the free list: the free list holds exactly
  the free blocks, and the blocks lie below the break without overlapping.
\<close>

definition heap_inv :: "('os \<Rightarrow> size_t) \<Rightarrow> 'os heap \<Rightarrow> size_t list \<Rightarrow> size_t list \<Rightarrow> bool" where
  "heap_inv brk h bl fl \<longleftrightarrow>
     dlist (mem h) NULL (free_list h) fl \<and> distinct fl \<and>
     set fl = {b \<in> set bl. blk_free (mem h b)} \<and>
     (\<forall>b \<in> set bl. b \<noteq> NULL \<and> unat b + 32 + unat (blk_size (mem h b)) \<le> unat (brk (hos h))) \<and>
     (\<forall>b \<in> set bl. \<forall>b' \<in> set bl. b \<noteq> b' \<longrightarrow> extent (mem h) b \<inter> extent (mem h) b' = {})"

text \<open>
  What the manual says of \<open>sbrk\<close> with a positive increment: it fails and returns
  \<open>(void *) -1\<close>, or it returns the old break and moves the break up by the increment.
\<close>

definition sbrk_spec :: "('os \<Rightarrow> int \<Rightarrow> size_t \<times> 'os) \<Rightarrow> ('os \<Rightarrow> size_t) \<Rightarrow> bool" where
  "sbrk_spec sbrk brk \<longleftrightarrow>
     (\<forall>os n. 0 < n \<longrightarrow>
        (case sbrk os n of (r, os') \<Rightarrow>
           if r = - 1 then brk os' = brk os
           else r = brk os \<and> r \<noteq> NULL \<and> uint (brk os') = uint r + n))"

lemma heap_inv_free_blocks: "heap_inv brk h bl fl \<Longrightarrow> \<forall>b \<in> set fl. blk_free (mem h b)"
  by (auto simp: heap_inv_def)

lemma find_free_block_first_fit:
  assumes "heap_inv brk h bl fl"
  shows "find_free_block sz h = Some (case first_fit (mem h) sz fl of None \<Rightarrow> NULL | Some b \<Rightarrow> b)"
  unfolding find_free_block_def
  by (rule find_from_first_fit [where p = NULL, OF _ heap_inv_free_blocks [OF assms]])
    (use assms in \<open>simp add: heap_inv_def\<close>)

section \<open>Allocation and release\<close>

lemma disjoint_snoc:
  assumes "\<forall>b \<in> set bl. \<forall>b' \<in> set bl. b \<noteq> b' \<longrightarrow> E b \<inter> E b' = {}" and "\<forall>b \<in> set bl. E b \<inter> E r = {}"
  shows "\<forall>b \<in> set (bl @ [r]). \<forall>b' \<in> set (bl @ [r]). b \<noteq> b' \<longrightarrow> E b \<inter> E b' = {}"
  using assms by auto

lemma request_pos: "0 < uint (sz :: size_t) + 32"
  using uint_ge_0 [of sz] by linarith

lemma malloc_guard:
  assumes "0 < sz" and "unat sz + 32 < 2 ^ 63"
  shows "sz \<noteq> 0" and "\<not> sz > SIZE_MAX - HDR" and "sint (HDR + sz) = int (unat sz) + 32"
proof -
  show "sz \<noteq> 0" using assms(1) by auto
  have "unat (SIZE_MAX - HDR) = 2 ^ 64 - 33" by (simp add: SIZE_MAX_def HDR_def)
  then show "\<not> sz > SIZE_MAX - HDR" using assms(2) by (simp add: word_less_nat_alt)
  have "unat (HDR + sz) = unat sz + 32"
    using assms(2) unat_plus_64 [of HDR sz] by (simp add: HDR_def)
  moreover from this have "sint (HDR + sz) = uint (HDR + sz)"
    using assms(2) unat_less_63 [of "HDR + sz"] by (intro sint_small) simp
  moreover have "uint (HDR + sz) = int (unat (HDR + sz))" by simp
  ultimately show "sint (HDR + sz) = int (unat sz) + 32" by linarith
qed

lemma malloc_reuse:
  assumes inv: "heap_inv brk h bl fl" and sz: "0 < sz" "unat sz + 32 < 2 ^ 63"
    and fit: "first_fit (mem h) sz fl = Some b"
  shows "\<exists>h'. my_malloc sbrk sz h = Some (b + HDR, h') \<and> heap_inv brk h' bl (remove1 b fl) \<and>
    \<not> blk_free (mem h' b) \<and> hos h' = hos h \<and>
    (\<forall>a. blk_size (mem h' a) = blk_size (mem h a)) \<and>
    (\<forall>a. a \<noteq> b \<longrightarrow> blk_free (mem h' a) = blk_free (mem h a))"
proof -
  obtain xs ys where fl: "fl = xs @ b # ys" using first_fit_Some [OF fit] by blast
  have dl: "dlist (mem h) NULL (free_list h) (xs @ b # ys)" and dist: "distinct (xs @ b # ys)"
    using inv fl by (auto simp: heap_inv_def)
  let ?h1 = "remove_free_block b h"
  let ?h' = "upd b (\<lambda>x. x\<lparr>blk_free := False\<rparr>) ?h1"
  have "b \<noteq> NULL" by (rule dlist_neighbours(1) [OF dl])
  then have call: "my_malloc sbrk sz h = Some (b + HDR, ?h')"
    using find_free_block_first_fit [OF inv, of sz] fit malloc_guard(1,2) [OF sz]
    by (simp add: my_malloc_def)
  have links: "dlist (mem ?h') NULL (free_list ?h') (xs @ ys)"
    using remove_links [OF dl dist] by (subst dlist_frame [of _ _ "mem ?h1"]) auto
  have keep: "blk_size (mem ?h' a) = blk_size (mem h a)" "a \<noteq> b \<Longrightarrow> blk_free (mem ?h' a) = blk_free (mem h a)"
    "\<not> blk_free (mem ?h' b)" for a by auto
  have rem: "remove1 b fl = xs @ ys" using dist by (simp add: fl remove1_append)
  have "set (xs @ ys) = {a \<in> set bl. blk_free (mem ?h' a)}"
  proof -
    have "set (xs @ b # ys) = {a \<in> set bl. blk_free (mem h a)}" using inv fl by (simp add: heap_inv_def)
    then show ?thesis using dist by auto
  qed
  moreover have "extent (mem ?h') a = extent (mem h) a" for a by (simp add: extent_def)
  ultimately have "heap_inv brk ?h' bl (xs @ ys)"
    using inv links dist unfolding heap_inv_def by simp
  then show ?thesis using call keep rem by (intro exI [of _ ?h']) simp
qed

lemma malloc_fresh:
  assumes inv: "heap_inv brk h bl fl" and sz: "0 < sz" "unat sz + 32 < 2 ^ 63"
    and nofit: "first_fit (mem h) sz fl = None" and sb: "sbrk_spec sbrk brk"
    and grow: "sbrk (hos h) (int (unat sz) + 32) = (r, os')" "r \<noteq> - 1"
  shows "\<exists>h'. my_malloc sbrk sz h = Some (r + HDR, h') \<and> heap_inv brk h' (bl @ [r]) fl \<and>
    \<not> blk_free (mem h' r) \<and> blk_size (mem h' r) = sz \<and> r = brk (hos h) \<and> r \<notin> set bl \<and>
    (\<forall>a. a \<noteq> r \<longrightarrow> mem h' a = mem h a)"
proof -
  let ?h' = "upd r (\<lambda>x. x\<lparr>blk_size := sz, blk_free := False\<rparr>) (h\<lparr>hos := os'\<rparr>)"
  have call: "my_malloc sbrk sz h = Some (r + HDR, ?h')"
    using find_free_block_first_fit [OF inv, of sz] nofit malloc_guard [OF sz] grow
    by (simp add: my_malloc_def)
  have "if r = - 1 then brk os' = brk (hos h)
      else r = brk (hos h) \<and> r \<noteq> NULL \<and> uint (brk os') = uint r + (int (unat sz) + 32)"
    using sb [unfolded sbrk_spec_def, rule_format, of "int (unat sz) + 32" "hos h"] grow
      request_pos [of sz] by auto
  then have r: "r = brk (hos h)" "r \<noteq> NULL" "uint (brk os') = uint r + (int (unat sz) + 32)"
    using grow(2) by auto
  then have "int (unat (brk os')) = int (unat r + 32 + unat sz)" by simp
  then have top: "unat (brk os') = unat r + 32 + unat sz" by (simp only: of_nat_eq_iff)
  have below: "b \<noteq> NULL \<and> unat b + 32 + unat (blk_size (mem h b)) \<le> unat r" if "b \<in> set bl" for b
    using inv that r(1) by (simp add: heap_inv_def)
  then have fresh: "r \<notin> set bl" by fastforce
  have old: "mem ?h' b = mem h b" if "b \<in> set bl" for b using that fresh by auto
  then have ext: "extent (mem ?h') b = extent (mem h) b" if "b \<in> set bl" for b
    using that by (simp add: extent_def)
  have new: "extent (mem ?h') r = {unat r ..< unat r + 32 + unat sz}" by (simp add: extent_def)
  have apart: "extent (mem ?h') b \<inter> extent (mem ?h') r = {}" if "b \<in> set bl" for b
    using below [OF that] ext [OF that] new by (auto simp: extent_def)
  have fl: "set fl = {b \<in> set bl. blk_free (mem h b)}" using inv by (simp add: heap_inv_def)
  then have "r \<notin> set fl" using fresh by auto
  then have "dlist (mem ?h') NULL (free_list ?h') fl"
    using inv by (subst dlist_frame [of _ _ "mem h"]) (auto simp: heap_inv_def)
  moreover have "set fl = {b \<in> set (bl @ [r]). blk_free (mem ?h' b)}"
    using fl fresh by auto
  moreover have "\<forall>b \<in> set (bl @ [r]). b \<noteq> NULL \<and>
      unat b + 32 + unat (blk_size (mem ?h' b)) \<le> unat (brk (hos ?h'))"
    using below old top r(2) by fastforce
  moreover have "\<forall>b \<in> set (bl @ [r]). \<forall>b' \<in> set (bl @ [r]). b \<noteq> b' \<longrightarrow>
      extent (mem ?h') b \<inter> extent (mem ?h') b' = {}"
  proof (rule disjoint_snoc)
    show "\<forall>b \<in> set bl. \<forall>b' \<in> set bl. b \<noteq> b' \<longrightarrow> extent (mem ?h') b \<inter> extent (mem ?h') b' = {}"
    proof (intro ballI impI)
      fix b b'
      assume b: "b \<in> set bl" "b' \<in> set bl" "b \<noteq> b'"
      then have "extent (mem h) b \<inter> extent (mem h) b' = {}" using inv by (simp add: heap_inv_def)
      then show "extent (mem ?h') b \<inter> extent (mem ?h') b' = {}"
        by (simp only: ext [OF b(1)] ext [OF b(2)])
    qed
  qed (use apart in blast)
  moreover have "distinct fl" using inv by (simp add: heap_inv_def)
  ultimately have "heap_inv brk ?h' (bl @ [r]) fl" unfolding heap_inv_def by blast
  with call r(1) fresh show ?thesis by (intro exI [of _ ?h']) simp
qed

lemma malloc_exhausted:
  assumes inv: "heap_inv brk h bl fl" and sz: "0 < sz" "unat sz + 32 < 2 ^ 63"
    and nofit: "first_fit (mem h) sz fl = None" and sb: "sbrk_spec sbrk brk"
    and grow: "sbrk (hos h) (int (unat sz) + 32) = (- 1, os')"
  shows "my_malloc sbrk sz h = Some (NULL, h\<lparr>hos := os'\<rparr>) \<and> heap_inv brk (h\<lparr>hos := os'\<rparr>) bl fl"
proof -
  have "brk os' = brk (hos h)"
    using sb [unfolded sbrk_spec_def, rule_format, of "int (unat sz) + 32" "hos h"] grow
      request_pos [of sz] by simp
  then show ?thesis
    using find_free_block_first_fit [OF inv, of sz] nofit malloc_guard [OF sz] grow inv
    by (simp add: my_malloc_def heap_inv_def)
qed

text \<open>Releasing a block in use puts it at the head of the free list.\<close>

lemma free_used:
  assumes inv: "heap_inv brk h bl fl" and b: "b \<in> set bl" "\<not> blk_free (mem h b)"
  shows "heap_inv brk (my_free (b + HDR) h) bl (b # fl)"
    and "blk_free (mem (my_free (b + HDR) h) b)" and "hos (my_free (b + HDR) h) = hos h"
    and "blk_size (mem (my_free (b + HDR) h) a) = blk_size (mem h a)"
    and "a \<noteq> b \<Longrightarrow> blk_free (mem (my_free (b + HDR) h) a) = blk_free (mem h a)"
proof -
  have b0: "b \<noteq> NULL" "unat b + 32 \<le> unat (brk (hos h))"
    using inv b(1) by (auto simp: heap_inv_def)
  then have "unat (b + HDR) = unat b + 32"
    using size_t_bound [of "brk (hos h)"] unat_plus_64 [of b HDR] by (simp add: HDR_def)
  then have ptr: "b + HDR \<noteq> NULL" by (metis unat_0 add_is_0 zero_neq_numeral)
  have notin: "b \<notin> set fl" using inv b(2) by (auto simp: heap_inv_def)
  have dl: "dlist (mem h) NULL (free_list h) fl" and dist: "distinct fl"
    using inv by (auto simp: heap_inv_def)
  let ?m3 = "(mem h)(b := (mem h b)\<lparr>blk_free := True, blk_prev := NULL, blk_next := free_list h\<rparr>)"
  let ?c = "free_list h"
  let ?m4 = "if ?c = NULL then ?m3 else ?m3(?c := (?m3 ?c)\<lparr>blk_prev := b\<rparr>)"
  let ?h' = "my_free (b + HDR) h"
  have cb: "?c \<noteq> b" using dlist_head [OF dl] notin b0(1) by (auto split: if_splits)
  have h': "mem ?h' = ?m4" "free_list ?h' = b" "hos ?h' = hos h"
    using ptr b(2) by (auto simp: my_free_def Let_def)
  have "dlist ?m3 NULL ?c fl" using dl notin by (subst dlist_frame [of _ _ "mem h"]) auto
  from dlist_new_prev [OF this dist, of b]
  have links: "dlist (mem ?h') NULL (free_list ?h') (b # fl)"
    using h' cb b0(1) by (auto simp: fun_upd_def)
  show sizes: "blk_size (mem ?h' a) = blk_size (mem h a)" for a using h' by auto
  show fr: "a \<noteq> b \<Longrightarrow> blk_free (mem ?h' a) = blk_free (mem h a)" for a using h' cb by auto
  show frb: "blk_free (mem ?h' b)" using h' cb by auto
  show "hos ?h' = hos h" by (rule h'(3))
  have "set fl = {a \<in> set bl. blk_free (mem h a)}" using inv by (simp add: heap_inv_def)
  then have "x \<in> set (b # fl) \<longleftrightarrow> x \<in> {a \<in> set bl. blk_free (mem ?h' a)}" for x
    using fr [of x] frb b by (cases "x = b") auto
  then have "set (b # fl) = {a \<in> set bl. blk_free (mem ?h' a)}" by blast
  moreover have "extent (mem ?h') a = extent (mem h) a" for a by (simp add: extent_def sizes)
  ultimately show "heap_inv brk ?h' bl (b # fl)"
    using inv links dist notin unfolding heap_inv_def by (simp add: sizes h'(3))
qed

lemma free_ignored: "ptr = NULL \<or> blk_free (mem h (ptr - HDR)) \<Longrightarrow> my_free ptr h = h"
  by (auto simp: my_free_def)

section \<open>Reachable heaps\<close>

text \<open>
  The heaps a program can reach by allocating, releasing what it holds, releasing twice, and by
  the break moving up between calls; \<open>live\<close> records the pointers it holds with the sizes it
  asked for. Requests whose total size reaches \<open>2^63\<close> are left out here: they are the subject
  of \<open>malloc_negative_increment\<close>.
\<close>

inductive reach ::
  "('os \<Rightarrow> int \<Rightarrow> size_t \<times> 'os) \<Rightarrow> ('os \<Rightarrow> size_t) \<Rightarrow> 'os heap \<Rightarrow> (size_t \<rightharpoonup> size_t) \<Rightarrow> bool"
  for sbrk :: "'os \<Rightarrow> int \<Rightarrow> size_t \<times> 'os" and brk :: "'os \<Rightarrow> size_t"
where
  start: "free_list h = NULL \<Longrightarrow> reach sbrk brk h Map.empty"
| malloc: "reach sbrk brk h live \<Longrightarrow> unat sz + 32 < 2 ^ 63 \<Longrightarrow> my_malloc sbrk sz h = Some (p, h') \<Longrightarrow>
    reach sbrk brk h' (if p = NULL then live else live(p \<mapsto> sz))"
| release: "reach sbrk brk h live \<Longrightarrow> live p = Some n \<Longrightarrow> reach sbrk brk (my_free p h) (live(p := None))"
| again: "reach sbrk brk h live \<Longrightarrow> blk_free (mem h (p - HDR)) \<Longrightarrow> reach sbrk brk (my_free p h) live"
| grow: "reach sbrk brk h live \<Longrightarrow> unat (brk (hos h)) \<le> unat (brk os') \<Longrightarrow>
    reach sbrk brk (h\<lparr>hos := os'\<rparr>) live"

text \<open>The pointers held are the blocks in use, and each is at least as large as asked for.\<close>

definition live_ok :: "'os heap \<Rightarrow> size_t list \<Rightarrow> (size_t \<rightharpoonup> size_t) \<Rightarrow> bool" where
  "live_ok h bl live \<longleftrightarrow>
     (\<forall>p n. live p = Some n \<longrightarrow>
        p - HDR \<in> set bl \<and> \<not> blk_free (mem h (p - HDR)) \<and> n \<le> blk_size (mem h (p - HDR)))"

lemma live_ok_fresh:
  assumes "live_ok h bl live" and "b \<notin> set bl \<or> blk_free (mem h b)"
  shows "live (b + HDR) = None"
proof (cases "live (b + HDR)")
  case (Some n)
  then have "b + HDR - HDR \<in> set bl \<and> \<not> blk_free (mem h (b + HDR - HDR))"
    using assms(1) unfolding live_ok_def by blast
  then show ?thesis using assms(2) by simp
qed

lemma live_ok_change:
  assumes "live_ok h bl live" and "b \<notin> set bl \<or> blk_free (mem h b)" and "set bl \<subseteq> set bl'"
    and "\<forall>a. a \<noteq> b \<longrightarrow> blk_free (mem h' a) = blk_free (mem h a) \<and> blk_size (mem h' a) = blk_size (mem h a)"
  shows "live_ok h' bl' live"
    and "b \<in> set bl' \<Longrightarrow> \<not> blk_free (mem h' b) \<Longrightarrow> n \<le> blk_size (mem h' b) \<Longrightarrow>
      live_ok h' bl' (live(b + HDR \<mapsto> n))"
proof -
  have old: "p - HDR \<in> set bl' \<and> \<not> blk_free (mem h' (p - HDR)) \<and> k \<le> blk_size (mem h' (p - HDR))"
    if "live p = Some k" for p k
  proof -
    have l: "p - HDR \<in> set bl" "\<not> blk_free (mem h (p - HDR))" "k \<le> blk_size (mem h (p - HDR))"
      using assms(1) that by (auto simp: live_ok_def)
    then have "p - HDR \<noteq> b" using assms(2) by auto
    then show ?thesis using l assms(3,4) by auto
  qed
  then show "live_ok h' bl' live" by (simp add: live_ok_def)
  show "live_ok h' bl' (live(b + HDR \<mapsto> n))"
    if "b \<in> set bl'" "\<not> blk_free (mem h' b)" "n \<le> blk_size (mem h' b)"
    using old that by (auto simp: live_ok_def)
qed

lemma malloc_step:
  assumes inv: "heap_inv brk h bl fl" and live: "live_ok h bl live" and sb: "sbrk_spec sbrk brk"
    and sz: "unat sz + 32 < 2 ^ 63"
  shows "\<exists>p h' bl' fl'. my_malloc sbrk sz h = Some (p, h') \<and> heap_inv brk h' bl' fl' \<and>
    live_ok h' bl' (if p = NULL then live else live(p \<mapsto> sz)) \<and> (p \<noteq> NULL \<longrightarrow> live p = None)"
proof (cases "sz = 0")
  case True
  then show ?thesis using inv live by (auto simp: my_malloc_def)
next
  case False
  then have sz0: "0 < sz" by (simp add: word_gt_0)
  consider (fit) b where "first_fit (mem h) sz fl = Some b"
    | (fresh) r os' where "first_fit (mem h) sz fl = None"
        "sbrk (hos h) (int (unat sz) + 32) = (r, os')" "r \<noteq> - 1"
    | (full) os' where "first_fit (mem h) sz fl = None" "sbrk (hos h) (int (unat sz) + 32) = (- 1, os')"
    by (cases "first_fit (mem h) sz fl"; cases "sbrk (hos h) (int (unat sz) + 32)") auto
  then show ?thesis
  proof cases
    case fit
    note b = first_fit_Some [OF fit]
    have free: "blk_free (mem h b)" "b \<in> set bl" using inv b(1) by (auto simp: heap_inv_def)
    obtain h' where h': "my_malloc sbrk sz h = Some (b + HDR, h')" "heap_inv brk h' bl (remove1 b fl)"
      "\<not> blk_free (mem h' b)" "\<forall>a. blk_size (mem h' a) = blk_size (mem h a)"
      "\<forall>a. a \<noteq> b \<longrightarrow> blk_free (mem h' a) = blk_free (mem h a)"
      using malloc_reuse [OF inv sz0 sz fit] by blast
    have "live_ok h' bl live" "live_ok h' bl (live(b + HDR \<mapsto> sz))"
      using live_ok_change(1) [OF live, of b bl h'] live_ok_change(2) [OF live, of b bl h' sz] h'(3-5) free b(2) by auto
    then show ?thesis using h'(1,2) live_ok_fresh [OF live, of b] free(1) by auto
  next
    case fresh
    obtain h' where h': "my_malloc sbrk sz h = Some (r + HDR, h')" "heap_inv brk h' (bl @ [r]) fl"
      "\<not> blk_free (mem h' r)" "blk_size (mem h' r) = sz" "r \<notin> set bl" "\<forall>a. a \<noteq> r \<longrightarrow> mem h' a = mem h a"
      using malloc_fresh [OF inv sz0 sz fresh(1) sb fresh(2,3)] by blast
    have "live_ok h' (bl @ [r]) live" "live_ok h' (bl @ [r]) (live(r + HDR \<mapsto> sz))"
      using live_ok_change(1) [OF live, of r "bl @ [r]" h']
        live_ok_change(2) [OF live, of r "bl @ [r]" h' sz] h'(3-6) by auto
    then show ?thesis
      using h'(1,2,5) live_ok_fresh [OF live, of r]
      by (intro exI [of _ "r + HDR"] exI [of _ h'] exI [of _ "bl @ [r]"] exI [of _ fl]) auto
  next
    case full
    then show ?thesis
      using malloc_exhausted [OF inv sz0 sz full(1) sb full(2)] live by (auto simp: live_ok_def)
  qed
qed

lemma free_step:
  assumes inv: "heap_inv brk h bl fl" and live: "live_ok h bl live" and p: "live p = Some n"
  shows "heap_inv brk (my_free p h) bl ((p - HDR) # fl) \<and> live_ok (my_free p h) bl (live(p := None))"
proof -
  let ?b = "p - HDR"
  have b: "?b \<in> set bl" "\<not> blk_free (mem h ?b)" using live p by (auto simp: live_ok_def)
  have ptr: "?b + HDR = p" by simp
  note f = free_used [OF inv b, unfolded ptr]
  have "q - HDR \<noteq> ?b" if "q \<noteq> p" for q using that by simp
  then show ?thesis using f live by (auto simp: live_ok_def)
qed

lemma reach_inv:
  assumes "reach sbrk brk h live" and "sbrk_spec sbrk brk"
  shows "\<exists>bl fl. heap_inv brk h bl fl \<and> live_ok h bl live"
  using assms(1)
proof induction
  case (start h)
  have "heap_inv brk h [] []" "live_ok h [] Map.empty"
    using start by (simp_all add: heap_inv_def live_ok_def)
  then show ?case by blast
next
  case (malloc h live sz p h')
  then show ?case using malloc_step [OF _ _ assms(2) malloc.hyps(2)] by fastforce
next
  case (release h live p n)
  then show ?case using free_step by blast
next
  case (again h live p)
  then show ?case by (simp add: free_ignored)
next
  case (grow h live os')
  then obtain bl fl where inv: "heap_inv brk h bl fl" and live: "live_ok h bl live" by blast
  have "heap_inv brk (h\<lparr>hos := os'\<rparr>) bl fl"
    using inv grow.hyps(2) unfolding heap_inv_def by (auto intro: order_trans)
  moreover have "live_ok (h\<lparr>hos := os'\<rparr>) bl live" using live by (simp add: live_ok_def)
  ultimately show ?case by blast
qed

section \<open>Properties\<close>


text \<open>
  In every reachable heap an allocation returns: the walk along the free list ends, whatever
  the sequence of allocations, releases and double releases before it, and a non-null result is a
  pointer the program does not hold yet.
\<close>

theorem malloc_returns:
  assumes "reach sbrk brk h live" and "sbrk_spec sbrk brk" and "unat sz + 32 < 2 ^ 63"
  shows "\<exists>p h'. my_malloc sbrk sz h = Some (p, h') \<and> (p \<noteq> NULL \<longrightarrow> live p = None)"
  using reach_inv [OF assms(1,2)] malloc_step [OF _ _ assms(2,3)] by blast

text \<open>
  First fit. When some free block is large enough, \<open>my_malloc\<close> returns the payload of the
  first such block of the free list, takes exactly that block off the list and asks the operating
  system for nothing.
\<close>

theorem malloc_first_fit:
  assumes "heap_inv brk h bl fl" and "0 < sz" and "unat sz + 32 < 2 ^ 63"
    and "first_fit (mem h) sz fl = Some b"
  shows "\<exists>h'. my_malloc sbrk sz h = Some (b + HDR, h') \<and> heap_inv brk h' bl (remove1 b fl) \<and>
    \<not> blk_free (mem h' b) \<and> hos h' = hos h"
  using malloc_reuse [OF assms] by blast

text \<open>
  A released block is reused: allocating at most the released size right after releasing a
  pointer returns the same pointer.
\<close>

theorem free_then_malloc:
  assumes "reach sbrk brk h live" and "sbrk_spec sbrk brk" and "live p = Some n"
    and "0 < sz" and "sz \<le> n" and "unat sz + 32 < 2 ^ 63"
  shows "\<exists>h'. my_malloc sbrk sz (my_free p h) = Some (p, h')"
proof -
  obtain bl fl where inv: "heap_inv brk h bl fl" and live: "live_ok h bl live"
    using reach_inv [OF assms(1,2)] by blast
  have l: "p - HDR \<in> set bl" "\<not> blk_free (mem h (p - HDR))" "n \<le> blk_size (mem h (p - HDR))"
    using live assms(3) by (auto simp: live_ok_def)
  note f = free_used [OF inv l(1,2)]
  have "first_fit (mem (my_free p h)) sz ((p - HDR) # fl) = Some (p - HDR)"
    using f(4) order_trans [OF assms(5) l(3)] by (simp add: first_fit_def)
  with malloc_reuse [OF _ assms(4,6) this, of brk bl sbrk] f(1) show ?thesis by auto
qed

text \<open>
  Releasing a pointer twice is the same as releasing it once, in every heap: the second call
  changes nothing, so the free list cannot become cyclic through a double release.
\<close>

theorem free_idempotent:
  "my_free p (my_free p h) = my_free p h"
proof (cases "p = NULL \<or> blk_free (mem h (p - HDR))")
  case True
  then show ?thesis by (simp add: free_ignored)
next
  case False
  then have "blk_free (mem (my_free p h) (p - HDR))" by (auto simp: my_free_def Let_def)
  then show ?thesis by (simp add: free_ignored)
qed

text \<open>
  C40: A request of \<open>2^63 - 32\<close> bytes or more that passes the overflow check, and that no free
  block satisfies, makes \<open>my_malloc\<close> call \<open>sbrk\<close> with a negative increment, since
  \<open>sbrk\<close> takes a signed argument: unless that call fails, the break moves down and a non-null
  pointer to the old break comes back.
\<close>

theorem malloc_negative_increment:
  assumes "heap_inv brk h bl fl" and "first_fit (mem h) sz fl = None"
    and "2 ^ 63 \<le> unat sz + 32" and "sz \<le> SIZE_MAX - HDR"
    and "sbrk (hos h) (int (unat sz) + 32 - 2 ^ 64) = (r, os')" and "r \<noteq> - 1"
  shows "int (unat sz) + 32 - 2 ^ 64 < 0 \<and>
    (\<exists>h'. my_malloc sbrk sz h = Some (r + HDR, h') \<and> hos h' = os' \<and> blk_size (mem h' r) = sz)"
proof -
  have "unat (SIZE_MAX - HDR) = 2 ^ 64 - 33" by (simp add: SIZE_MAX_def HDR_def)
  then have max: "unat sz + 32 < 2 ^ 64" using assms(4) by (simp add: word_le_nat_alt)
  then have sum: "unat (HDR + sz) = unat sz + 32"
    using unat_plus_64 [of HDR sz] by (simp add: HDR_def)
  have big: "2 ^ 63 \<le> uint (HDR + sz)"
    using unat_less_63 [of "HDR + sz"] sum assms(3) by linarith
  have "sint (HDR + sz) = uint (HDR + sz) - 2 ^ 64"
    using big by (rule sint_big)
  moreover have "uint (HDR + sz) = int (unat (HDR + sz))" by simp
  ultimately have inc: "sint (HDR + sz) = int (unat sz) + 32 - 2 ^ 64" using sum by linarith
  have "sz \<noteq> 0" using assms(3) by auto
  then have "\<exists>h'. my_malloc sbrk sz h = Some (r + HDR, h') \<and> hos h' = os' \<and> blk_size (mem h' r) = sz"
    using assms(2,4-6) find_free_block_first_fit [OF assms(1), of sz] inc
    by (simp add: my_malloc_def leD)
  moreover have "int (unat sz + 32) < int (2 ^ 64)" using max by (simp only: of_nat_less_iff)
  then have "int (unat sz) + 32 - 2 ^ 64 < 0" by simp
  ultimately show ?thesis by blast
qed

section \<open>Concrete heaps\<close>

text \<open>A break that starts at 4096 and moves as asked; two blocks of 16 and 8 bytes.\<close>

definition plain_sbrk :: "size_t \<Rightarrow> int \<Rightarrow> size_t \<times> size_t" where
  "plain_sbrk b n =
     (if b \<noteq> 0 \<and> uint b + n < 2 ^ 64 then (b, b + word_of_int n) else (- 1, b))"

definition heap0 :: "size_t heap" where
  "heap0 = \<lparr>mem = \<lambda>_. \<lparr>blk_size = 0, blk_free = False, blk_prev = 0, blk_next = 0\<rparr>,
            free_list = 0, hos = 4096\<rparr>"

definition heap1 :: "size_t heap" where
  "heap1 = heap0\<lparr>mem := (mem heap0)(4096 := (mem heap0 4096)\<lparr>blk_size := 16, blk_free := False\<rparr>),
             hos := 4144\<rparr>"

definition heap2 :: "size_t heap" where
  "heap2 = heap1\<lparr>mem := (mem heap1)(4144 := (mem heap1 4144)\<lparr>blk_size := 8, blk_free := False\<rparr>),
             hos := 4184\<rparr>"

lemma plain_sbrk_spec: "sbrk_spec plain_sbrk id"
proof -
  have "uint (b + word_of_int n) = uint b + n"
    if "0 < n" "uint b + n < 2 ^ 64" for b :: size_t and n
  proof -
    have "n < 2 ^ 64" using that uint_ge_0 [of b] by linarith
    then have "uint (word_of_int n :: size_t) = n"
      using that by (simp add: uint_word_of_int)
    then show ?thesis using that by (simp add: uint_add_lem [THEN iffD1])
  qed
  moreover have "uint (- 1 :: size_t) = 2 ^ 64 - 1" by (simp add: unsigned_minus_1_eq_mask mask_eq_exp_minus_1)
  ultimately show ?thesis
    by (auto simp: sbrk_spec_def plain_sbrk_def)
qed

lemma heap_steps:
  "my_malloc plain_sbrk 16 heap0 = Some (4128, heap1)"
  "my_malloc plain_sbrk 8 heap1 = Some (4176, heap2)"
  by (simp_all add: my_malloc_def find_free_block_def find_from.simps heap0_def heap1_def heap2_def
      plain_sbrk_def HDR_def SIZE_MAX_def upd_def)

lemma heap0_reach: "reach plain_sbrk id heap0 Map.empty"
  by (rule reach.start) (simp add: heap0_def)

lemma heap2_reach: "reach plain_sbrk id heap2 [4128 \<mapsto> 16, 4176 \<mapsto> 8]"
  using reach.malloc [OF reach.malloc [OF heap0_reach _ heap_steps(1)] _ heap_steps(2)] by simp


theorem malloc_returns_witness:
  "\<exists>p h'. my_malloc plain_sbrk 24 heap2 = Some (p, h') \<and>
     (p \<noteq> NULL \<longrightarrow> [4128 \<mapsto> 16, 4176 \<mapsto> 8 :: size_t] p = None)"
  using malloc_returns [OF heap2_reach plain_sbrk_spec, of 24] by simp

theorem free_then_malloc_witness:
  "\<exists>h'. my_malloc plain_sbrk 10 (my_free 4128 heap2) = Some (4128, h')"
  using free_then_malloc [OF heap2_reach plain_sbrk_spec, of 4128 16 10] by simp

lemma freed_heap_inv:
  "heap_inv id (my_free 4128 heap2) [4096, 4144] [4096]"
  by (simp add: heap_inv_def my_free_def heap0_def heap1_def heap2_def HDR_def upd_def extent_def
      Let_def) auto

theorem malloc_first_fit_witness:
  "\<exists>h'. my_malloc plain_sbrk 10 (my_free 4128 heap2) = Some (4096 + HDR, h') \<and>
     heap_inv id h' [4096, 4144] (remove1 4096 [4096]) \<and> \<not> blk_free (mem h' 4096) \<and>
     hos h' = hos (my_free 4128 heap2)"
  using malloc_first_fit [OF freed_heap_inv, of 10 4096 plain_sbrk]
  by (simp add: first_fit_def my_free_def heap0_def heap1_def heap2_def HDR_def upd_def Let_def)

theorem malloc_negative_increment_witness:
  "int (unat (2 ^ 64 - 64 :: size_t)) + 32 - 2 ^ 64 < 0 \<and>
   (\<exists>h'. my_malloc plain_sbrk (2 ^ 64 - 64) heap0 = Some (4096 + HDR, h') \<and> hos h' = 4064 \<and>
         blk_size (mem h' 4096) = 2 ^ 64 - 64)"
proof (rule malloc_negative_increment)
  show "heap_inv id heap0 [] []" by (simp add: heap_inv_def heap0_def)
qed (simp_all add: first_fit_def SIZE_MAX_def HDR_def plain_sbrk_def heap0_def)

end
