(* ===== verification/PageCache.thy ===== *)
theory PageCache
  imports Prelude
begin

text \<open>
  The page cache of one file as the read-ahead code of \<open>readaround-split/src/mm\<close> uses it:
  insertion and removal of folios and the search for gaps (\<open>filemap.c\<close>). The xarray
  \<open>i_pages\<close> is the predicate telling which page indices are covered by a folio; shadow
  entries, memory-control groups, statistics and the LRU lists are not part of the state. What is
  read from kernel headers or from the rest of the kernel is the record \<open>kapi\<close> of functions
  (page size, folio orders, the allocator, the file system), with a state of type \<open>'e\<close> for the
  functions that have one.
\<close>

unbundle bit_operations_syntax

section \<open>The kernel's side\<close>

record 'e kapi =
  k_page_shift :: nat
  k_isize :: u64
  k_bdi_ra_pages :: u32
  k_io_pages :: u64
  k_has_readahead :: bool
  k_has_read_folio :: bool
  k_large_folios :: bool
  k_min_order :: u32
  k_max_order :: u32
  k_min_nrpages :: u64
  k_align_index :: "u64 \<Rightarrow> u64"
  k_round_up :: "u64 \<Rightarrow> u64 \<Rightarrow> u64"
  k_round_down :: "u64 \<Rightarrow> u64 \<Rightarrow> u64"
  k_roundup_pow_of_two :: "u64 \<Rightarrow> u64"
  k_ilog2 :: "u32 \<Rightarrow> u32"
  k_ffs_long :: "u64 \<Rightarrow> u32"
  k_ffs :: "u64 \<Rightarrow> u32"
  k_alloc_folio :: "u32 \<Rightarrow> 'e \<Rightarrow> bool \<times> 'e"
  k_charge :: "'e \<Rightarrow> int \<times> 'e"
  k_store :: "u64 \<Rightarrow> u32 \<Rightarrow> 'e \<Rightarrow> int \<times> 'e"
  k_workingset :: "u64 \<Rightarrow> 'e \<Rightarrow> bool"
  k_readahead :: "u64 \<Rightarrow> u32 \<Rightarrow> 'e \<Rightarrow> u32 \<times> 'e"
  k_congested :: "'e \<Rightarrow> bool"

record 'e cache =
  pc_pages :: "u64 \<Rightarrow> bool"
  pc_marks :: "u64 \<Rightarrow> bool"
  pc_nrpages :: u64
  pc_reads :: "(u64 \<times> u32) list"
  pc_env :: 'e

definition ULONG_MAX :: u64 where "ULONG_MAX = - 1"

definition ENOMEM :: int where "ENOMEM = 12"
definition EEXIST :: int where "EEXIST = 17"

section \<open>Adding and removing folios\<close>

definition nr_pages :: "u32 \<Rightarrow> u64" where
  "nr_pages order = push_bit (unat order) 1"

text \<open>The page indices of a folio of a given order at an index.\<close>

definition folio_span :: "u64 \<Rightarrow> u32 \<Rightarrow> u64 \<Rightarrow> bool" where
  "folio_span index order j \<longleftrightarrow> j - index < nr_pages order"

definition folio_indices :: "u64 \<Rightarrow> u32 \<Rightarrow> u64 list" where
  "folio_indices index order = map (\<lambda>i. index + of_nat i) [0..<unat (nr_pages order)]"

text \<open>
  \<open>xas_for_each_conflict\<close> finds a folio in the way, and then nothing is stored; otherwise
  \<open>xas_store\<close> stores the folio or reports an error.
\<close>

definition folio_conflict :: "u64 \<Rightarrow> u32 \<Rightarrow> 'e cache \<Rightarrow> bool" where
  "folio_conflict index order c \<longleftrightarrow> (\<exists>j \<in> set (folio_indices index order). pc_pages c j)"

definition filemap_add_folio_locked ::
  "'e kapi \<Rightarrow> u64 \<Rightarrow> u32 \<Rightarrow> 'e cache \<Rightarrow> int \<times> 'e cache" where
  "filemap_add_folio_locked k index order c =
     (if folio_conflict index order c then (- EEXIST, c)
      else case k_store k index order (pc_env c) of
             (err, e) \<Rightarrow>
               if err \<noteq> 0 then (err, c\<lparr>pc_env := e\<rparr>)
               else (0, c\<lparr>pc_env := e,
                          pc_pages := (\<lambda>j. folio_span index order j \<or> pc_pages c j),
                          pc_nrpages := pc_nrpages c + nr_pages order\<rparr>))"

definition filemap_add_folio :: "'e kapi \<Rightarrow> u64 \<Rightarrow> u32 \<Rightarrow> 'e cache \<Rightarrow> int \<times> 'e cache" where
  "filemap_add_folio k index order c =
     (case k_charge k (pc_env c) of
        (ret, e) \<Rightarrow>
          if ret \<noteq> 0 then (ret, c\<lparr>pc_env := e\<rparr>)
          else filemap_add_folio_locked k index order (c\<lparr>pc_env := e\<rparr>))"

text \<open>Removal of the pages of a folio (\<open>page_cache_delete\<close> with no shadow entry).\<close>

definition page_cache_delete :: "u64 \<Rightarrow> u64 \<Rightarrow> 'e cache \<Rightarrow> 'e cache" where
  "page_cache_delete index nr c =
     c\<lparr>pc_pages := (\<lambda>j. pc_pages c j \<and> \<not> j - index < nr), pc_nrpages := pc_nrpages c - nr\<rparr>"

section \<open>Gaps\<close>

text \<open>
  \<open>xas_next\<close> on a fresh state yields the entry at the start index and then moves up by one,
  wrapping around at the end; \<open>xas_prev\<close> moves down. \<open>n\<close> counts the remaining steps.
\<close>

fun next_miss_loop :: "(u64 \<Rightarrow> bool) \<Rightarrow> nat \<Rightarrow> u64 \<Rightarrow> u64 option" where
  "next_miss_loop pages 0 i = None"
| "next_miss_loop pages (Suc n) i =
     (if \<not> pages i then Some i else if i = 0 then Some 0 else next_miss_loop pages n (i + 1))"

definition page_cache_next_miss :: "(u64 \<Rightarrow> bool) \<Rightarrow> u64 \<Rightarrow> u64 \<Rightarrow> u64" where
  "page_cache_next_miss pages index max_scan =
     (case next_miss_loop pages (unat max_scan) index of
        Some i \<Rightarrow> i | None \<Rightarrow> index + max_scan)"

fun prev_miss_loop :: "(u64 \<Rightarrow> bool) \<Rightarrow> nat \<Rightarrow> u64 \<Rightarrow> u64 \<Rightarrow> u64" where
  "prev_miss_loop pages 0 cur i = cur"
| "prev_miss_loop pages (Suc n) cur i =
     (if \<not> pages i then i else if i = ULONG_MAX then i else prev_miss_loop pages n i (i - 1))"

definition page_cache_prev_miss :: "(u64 \<Rightarrow> bool) \<Rightarrow> u64 \<Rightarrow> u64 \<Rightarrow> u64" where
  "page_cache_prev_miss pages index max_scan = prev_miss_loop pages (unat max_scan) index index"

lemma next_miss_loop_spec:
  assumes "unat i + n \<le> 2 ^ 64" and "i \<noteq> 0"
  shows "case next_miss_loop pages n i of
      None \<Rightarrow> \<forall>j < n. pages (i + of_nat j)
    | Some m \<Rightarrow> \<not> pages m \<and> unat i \<le> unat m \<and> unat m < unat i + n \<and>
        (\<forall>j. unat i + j < unat m \<longrightarrow> pages (i + of_nat j))"
  using assms
proof (induction n arbitrary: i)
  case 0
  then show ?case by simp
next
  case (Suc n)
  show ?case
  proof (cases "pages i")
    case False
    then show ?thesis using Suc.prems by simp
  next
    case True
    show ?thesis
    proof (cases "n = 0")
      case n0: True
      then show ?thesis using True Suc.prems by simp
    next
      case False
      then have u: "unat (i + 1) = unat i + 1"
        using Suc.prems(1) unat_plus_64 [of i 1] by simp
      then have "i + 1 \<noteq> 0" by (metis add_is_0 unat_0 one_neq_zero)
      with Suc.IH [of "i + 1"] u Suc.prems(1)
      have IH: "case next_miss_loop pages n (i + 1) of
          None \<Rightarrow> \<forall>j < n. pages (i + 1 + of_nat j)
        | Some m \<Rightarrow> \<not> pages m \<and> unat i + 1 \<le> unat m \<and> unat m < unat i + 1 + n \<and>
            (\<forall>j. unat i + 1 + j < unat m \<longrightarrow> pages (i + 1 + of_nat j))"
        by (simp split: option.splits)
      have shift: "pages (i + of_nat j)" if "j = 0 \<or> pages (i + 1 + of_nat (j - 1))" for j
        using that True by (cases j) (auto simp: algebra_simps)
      show ?thesis
      proof (cases "next_miss_loop pages n (i + 1)")
        case None
        then have "pages (i + of_nat j)" if "j < Suc n" for j
          using IH that by (intro shift) (cases j, auto)
        then show ?thesis using None True Suc.prems(2) by simp
      next
        case (Some m)
        then have "pages (i + of_nat j)" if "unat i + j < unat m" for j
          using IH that by (intro shift) (cases j, auto)
        then show ?thesis using Some True Suc.prems(2) IH by simp
      qed
    qed
  qed
qed

lemma prev_miss_loop_full:
  assumes "n \<le> unat i + 1" and "\<forall>j < n. pages (i - of_nat j)" and "i \<noteq> ULONG_MAX" and "0 < n"
  shows "prev_miss_loop pages n cur i = i - of_nat (n - 1)"
  using assms
proof (induction n arbitrary: i cur)
  case (Suc n)
  have here: "pages i" using Suc.prems(2) [rule_format, of 0] by simp
  show ?case
  proof (cases n)
    case 0
    then show ?thesis using here Suc.prems(3) by simp
  next
    case (Suc m)
    then have i0: "0 < unat i" using Suc.prems(1) by simp
    then have u: "unat (i - 1) = unat i - 1" by (simp add: unat_minus_one unat_gt_0)
    have ne: "i - 1 \<noteq> ULONG_MAX"
    proof
      assume "i - 1 = ULONG_MAX"
      then have "i = 0" by (simp add: ULONG_MAX_def)
      then show False using i0 by simp
    qed
    have "pages (i - 1 - of_nat j)" if "j < n" for j
      using Suc.prems(2) [rule_format, of "Suc j"] that by (simp add: algebra_simps)
    then have "prev_miss_loop pages n i (i - 1) = i - 1 - of_nat (n - 1)"
      using Suc.prems(1) Suc i0 u ne by (intro Suc.IH) auto
    then show ?thesis using here Suc.prems(3) Suc by (simp add: algebra_simps)
  qed
qed simp

end
