(* ===== verification/KernelReadahead.thy ===== *)
theory KernelReadahead
  imports PageCache
begin

text \<open>
  The kernel's read-ahead (\<open>readaround-split/src/mm/readahead.c\<close>) and the page-fault side of it
  (\<open>do_sync_mmap_readahead\<close> and \<open>do_async_mmap_readahead\<close> of \<open>filemap.c\<close>), over the
  page cache of theory \<open>PageCache\<close>. The structures \<open>file_ra_state\<close> and
  \<open>readahead_control\<close> are records with the fields the code uses; a field printed with
  \<open>%u\<close> is 32 bits wide. \<open>pc_reads\<close> records the batches that \<open>read_pages\<close> hands to
  the file system; \<open>k_readahead\<close> says how many pages of a batch the file system takes (it
  does not call \<open>readahead_expand\<close> itself, which is modelled on its own). Locks, tracing and
  memory-pressure accounting are left out. The loops over pages are partial functions: \<open>None\<close>
  is a loop that never ends.
\<close>

unbundle bit_operations_syntax

section \<open>State\<close>

record file_ra_state =
  fra_start :: u64
  fra_size :: u32
  fra_async_size :: u32
  fra_ra_pages :: u32
  fra_order :: u32
  fra_mmap_miss :: u16
  fra_prev_pos :: u64

record readahead_control =
  rac_index :: u64
  rac_nr_pages :: u32
  rac_workingset :: bool
  rac_file :: bool
  rac_random :: bool

definition file_ra_state_init :: "'e kapi \<Rightarrow> file_ra_state \<Rightarrow> file_ra_state" where
  "file_ra_state_init k ra = ra\<lparr>fra_ra_pages := k_bdi_ra_pages k, fra_prev_pos := - 1\<rparr>"

section \<open>Reading a batch\<close>

text \<open>
  The file system takes some pages of the batch; the folios it leaves are taken out of the cache
  again. With \<open>read_folio\<close> only, every folio of the batch is read. Either way the control
  structure ends up behind the batch, empty.
\<close>

definition read_pages ::
  "'e kapi \<Rightarrow> readahead_control \<Rightarrow> 'e cache \<Rightarrow> readahead_control \<times> 'e cache" where
  "read_pages k rac c =
     (if rac_nr_pages rac = 0 then (rac, c)
      else let start = rac_index rac; nr = rac_nr_pages rac;
               c1 = c\<lparr>pc_reads := pc_reads c @ [(start, nr)]\<rparr>;
               c2 = (if k_has_readahead k
                     then (case k_readahead k start nr (pc_env c1) of (taken, e) \<Rightarrow>
                            page_cache_delete (start + ucast taken) (ucast (nr - taken))
                              (c1\<lparr>pc_env := e\<rparr>))
                     else c1)
           in (rac\<lparr>rac_index := start + ucast nr, rac_nr_pages := 0, rac_workingset := False\<rparr>, c2))"

section \<open>Unbounded read-ahead\<close>

definition skip_page ::
  "'e kapi \<Rightarrow> u64 \<Rightarrow> readahead_control \<Rightarrow> 'e cache \<Rightarrow> u64 \<times> readahead_control \<times> 'e cache" where
  "skip_page k index rac c =
     (case read_pages k rac c of (rac1, c1) \<Rightarrow>
      let rac2 = rac1\<lparr>rac_index := rac_index rac1 + k_min_nrpages k\<rparr>
      in (rac_index rac2 + ucast (rac_nr_pages rac2) - index, rac2, c1))"

partial_function (option) unbounded_loop ::
  "'e kapi \<Rightarrow> u64 \<Rightarrow> u64 \<Rightarrow> u64 \<Rightarrow> u64 \<Rightarrow> readahead_control \<Rightarrow> 'e cache \<Rightarrow>
   (readahead_control \<times> 'e cache) option" where
  "unbounded_loop k index mark nr_to_read i rac c =
     (if i < nr_to_read
      then if pc_pages c (index + i)
           then (case skip_page k index rac c of (i', rac', c') \<Rightarrow>
                  unbounded_loop k index mark nr_to_read i' rac' c')
           else (case k_alloc_folio k (k_min_order k) (pc_env c) of (got, e) \<Rightarrow>
                  (if \<not> got then Some (rac, c\<lparr>pc_env := e\<rparr>)
                   else (case filemap_add_folio k (index + i) (k_min_order k) (c\<lparr>pc_env := e\<rparr>) of
                           (ret, c1) \<Rightarrow>
                             (if ret < 0
                              then (if ret = - ENOMEM then Some (rac, c1)
                                    else (case skip_page k index rac c1 of (i', rac', c') \<Rightarrow>
                                           unbounded_loop k index mark nr_to_read i' rac' c'))
                              else unbounded_loop k index mark nr_to_read (i + k_min_nrpages k)
                                     (rac\<lparr>rac_workingset := rac_workingset rac \<or>
                                            k_workingset k (index + i) (pc_env c1),
                                          rac_nr_pages := rac_nr_pages rac + ucast (k_min_nrpages k)\<rparr>)
                                     (if i = mark
                                      then c1\<lparr>pc_marks := (pc_marks c1)(index + i := True)\<rparr>
                                      else c1)))))
      else Some (rac, c))"

definition page_cache_ra_unbounded ::
  "'e kapi \<Rightarrow> readahead_control \<Rightarrow> u64 \<Rightarrow> u64 \<Rightarrow> 'e cache \<Rightarrow>
   (readahead_control \<times> 'e cache) option" where
  "page_cache_ra_unbounded k rac nr_to_read lookahead_size c =
     (let index = k_align_index k (rac_index rac);
          mark = (if lookahead_size \<le> nr_to_read
                  then k_round_up k (rac_index rac + nr_to_read - lookahead_size) (k_min_nrpages k) - index
                  else ULONG_MAX);
          nr = nr_to_read + (rac_index rac - index)
      in case unbounded_loop k index mark nr 0 (rac\<lparr>rac_index := index\<rparr>) c of
           None \<Rightarrow> None
         | Some (rac', c') \<Rightarrow> Some (read_pages k rac' c'))"

section \<open>Bounded read-ahead\<close>

definition last_index :: "'e kapi \<Rightarrow> u64" where
  "last_index k = signed_drop_bit (k_page_shift k) (k_isize k - 1)"

definition do_page_cache_ra ::
  "'e kapi \<Rightarrow> readahead_control \<Rightarrow> u64 \<Rightarrow> u64 \<Rightarrow> 'e cache \<Rightarrow>
   (readahead_control \<times> 'e cache) option" where
  "do_page_cache_ra k rac nr_to_read lookahead_size c =
     (let index = rac_index rac; end_index = last_index k in
      if k_isize k = 0 then Some (rac, c)
      else if index > end_index then Some (rac, c)
      else page_cache_ra_unbounded k rac
             (if nr_to_read > end_index - index then end_index - index + 1 else nr_to_read)
             lookahead_size c)"

partial_function (option) force_loop ::
  "'e kapi \<Rightarrow> readahead_control \<Rightarrow> u64 \<Rightarrow> 'e cache \<Rightarrow> (readahead_control \<times> 'e cache) option" where
  "force_loop k rac nr_to_read c =
     (if nr_to_read \<noteq> 0
      then let chunk = (2 * 1024 * 1024) div push_bit (k_page_shift k) 1;
               this_chunk = (if chunk > nr_to_read then nr_to_read else chunk)
           in (case do_page_cache_ra k rac this_chunk 0 c of
                 None \<Rightarrow> None
               | Some rc \<Rightarrow> force_loop k (fst rc) (nr_to_read - this_chunk) (snd rc))
      else Some (rac, c))"

definition force_page_cache_ra ::
  "'e kapi \<Rightarrow> readahead_control \<Rightarrow> file_ra_state \<Rightarrow> u64 \<Rightarrow> 'e cache \<Rightarrow>
   (readahead_control \<times> 'e cache) option" where
  "force_page_cache_ra k rac ra nr_to_read c =
     (if \<not> k_has_read_folio k \<and> \<not> k_has_readahead k then Some (rac, c)
      else let max_pages = max (k_io_pages k) (ucast (fra_ra_pages ra))
           in force_loop k rac (min nr_to_read max_pages) c)"

section \<open>Window sizes\<close>

definition get_init_ra_size :: "'e kapi \<Rightarrow> u64 \<Rightarrow> u64 \<Rightarrow> u64" where
  "get_init_ra_size k sz max_pages =
     (let newsize = k_roundup_pow_of_two k sz in
      if newsize \<le> max_pages div 32 then newsize * 4
      else if newsize \<le> max_pages div 4 then newsize * 2
      else max_pages)"

definition get_next_ra_size :: "file_ra_state \<Rightarrow> u64 \<Rightarrow> u64" where
  "get_next_ra_size ra max_pages =
     (let cur = ucast (fra_size ra) in
      if cur < max_pages div 16 then 4 * cur
      else if cur \<le> max_pages div 2 then 2 * cur
      else max_pages)"

definition ractl_max_pages :: "'e kapi \<Rightarrow> file_ra_state \<Rightarrow> u64 \<Rightarrow> u64" where
  "ractl_max_pages k ra req_size =
     (let max_pages = ucast (fra_ra_pages ra) in
      if req_size > max_pages \<and> k_io_pages k > max_pages then min req_size (k_io_pages k)
      else max_pages)"

section \<open>Read-ahead with large folios\<close>

definition ra_alloc_folio ::
  "'e kapi \<Rightarrow> u64 \<Rightarrow> u64 \<Rightarrow> u32 \<Rightarrow> readahead_control \<Rightarrow> 'e cache \<Rightarrow>
   int \<times> readahead_control \<times> 'e cache" where
  "ra_alloc_folio k index mark order rac c =
     (case k_alloc_folio k order (pc_env c) of (got, e) \<Rightarrow>
      if \<not> got then (- ENOMEM, rac, c\<lparr>pc_env := e\<rparr>)
      else let mark' = k_round_down k mark (nr_pages order) in
        (case filemap_add_folio k index order (c\<lparr>pc_env := e\<rparr>) of (err, c1) \<Rightarrow>
         if err \<noteq> 0 then (err, rac, c1)
         else (0, rac\<lparr>rac_nr_pages := rac_nr_pages rac + ucast (nr_pages order),
                      rac_workingset := rac_workingset rac \<or> k_workingset k index (pc_env c1)\<rparr>,
               if index = mark' then c1\<lparr>pc_marks := (pc_marks c1)(index := True)\<rparr> else c1)))"

text \<open>The inner loop: the order is lowered until the folio ends before the limit.\<close>

function fit_order :: "u32 \<Rightarrow> u64 \<Rightarrow> u64 \<Rightarrow> u32 \<Rightarrow> u32" where
  "fit_order min_order index limit order =
     (if order > min_order \<and> index + nr_pages order - 1 > limit
      then fit_order min_order index limit (order - 1) else order)"
  by pat_completeness auto
termination
proof (relation "measure (\<lambda>(min_order, index, limit, order). unat order)")
  fix min_order index limit and order :: u32
  assume "order > min_order \<and> index + nr_pages order - 1 > limit"
  then have "order \<noteq> 0" by auto
  then show "((min_order, index, limit, order - 1), (min_order, index, limit, order))
      \<in> measure (\<lambda>(min_order, index, limit, order). unat order)"
    by (simp add: unat_minus_one unat_gt_0)
qed simp

declare fit_order.simps [simp del]

partial_function (option) order_loop ::
  "'e kapi \<Rightarrow> u32 \<Rightarrow> u64 \<Rightarrow> u64 \<Rightarrow> u64 \<Rightarrow> readahead_control \<Rightarrow> 'e cache \<Rightarrow>
   (int \<times> u64 \<times> readahead_control \<times> 'e cache) option" where
  "order_loop k new_order limit mark index rac c =
     (if index \<le> limit
      then let order0 = (if index AND (nr_pages new_order - 1) \<noteq> 0 then k_ffs_long k index else new_order);
               order = fit_order (k_min_order k) index limit order0
           in (case ra_alloc_folio k index mark order rac c of (err, rac', c') \<Rightarrow>
                 (if err \<noteq> 0 then Some (err, index, rac', c')
                  else order_loop k new_order limit mark (index + nr_pages order) rac' c'))
      else Some (0, index, rac, c))"

text \<open>The label \<open>fallback\<close>.\<close>

definition ra_order_fallback ::
  "'e kapi \<Rightarrow> readahead_control \<Rightarrow> file_ra_state \<Rightarrow> u64 \<Rightarrow> u64 \<Rightarrow> 'e cache \<Rightarrow>
   (readahead_control \<times> file_ra_state \<times> 'e cache) option" where
  "ra_order_fallback k rac ra start index c =
     (if ucast (fra_size ra) > index - start
      then (case do_page_cache_ra k rac (ucast (fra_size ra) - (index - start))
                   (ucast (fra_async_size ra)) c of
              None \<Rightarrow> None
            | Some (rac', c') \<Rightarrow> Some (rac', ra, c'))
      else Some (rac, ra, c))"

definition page_cache_ra_order ::
  "'e kapi \<Rightarrow> readahead_control \<Rightarrow> file_ra_state \<Rightarrow> 'e cache \<Rightarrow>
   (readahead_control \<times> file_ra_state \<times> 'e cache) option" where
  "page_cache_ra_order k rac ra c =
     (let start = rac_index rac;
          mark = start + ucast (fra_size ra) - ucast (fra_async_size ra)
      in if \<not> k_large_folios k then ra_order_fallback k rac (ra\<lparr>fra_order := 0\<rparr>) start start c
         else let limit = min (last_index k) (start + ucast (fra_size ra) - 1);
                  o1 = min (k_max_order k) (fra_order ra);
                  o2 = min o1 (k_ilog2 k (fra_size ra));
                  new_order = max o2 (k_min_order k);
                  ra1 = ra\<lparr>fra_order := new_order\<rparr>;
                  rac1 = rac\<lparr>rac_index := k_align_index k start\<rparr>
              in case order_loop k new_order limit mark (rac_index rac1) rac1 c of
                   None \<Rightarrow> None
                 | Some (err, index, rac2, c2) \<Rightarrow>
                     (case read_pages k rac2 c2 of (rac3, c3) \<Rightarrow>
                        if err = 0 then Some (rac3, ra1, c3)
                        else ra_order_fallback k rac3 ra1 start index c3))"

section \<open>On-demand read-ahead\<close>

definition page_cache_sync_ra ::
  "'e kapi \<Rightarrow> readahead_control \<Rightarrow> file_ra_state \<Rightarrow> u64 \<Rightarrow> 'e cache \<Rightarrow>
   (readahead_control \<times> file_ra_state \<times> 'e cache) option" where
  "page_cache_sync_ra k rac ra req_count c =
     (let index = rac_index rac;
          forced = (rac_file rac \<and> rac_random rac);
          off = (fra_ra_pages ra = 0 \<or> k_congested k (pc_env c))
      in if off \<and> \<not> rac_file rac then Some (rac, ra, c)
         else if off \<or> forced
         then (case force_page_cache_ra k rac ra (if off then 1 else req_count) c of
                 None \<Rightarrow> None | Some (rac', c') \<Rightarrow> Some (rac', ra, c'))
         else let max_pages = ractl_max_pages k ra req_count;
                  prev_index = drop_bit (k_page_shift k) (fra_prev_pos ra)
         in if index = 0 \<or> req_count > max_pages \<or> index - prev_index \<le> 1
            then let sz = ucast (get_init_ra_size k req_count max_pages) :: u32;
                     ra1 = ra\<lparr>fra_start := index, fra_size := sz,
                              fra_async_size := (if ucast sz > req_count then ucast (ucast sz - req_count)
                                                 else drop_bit 1 sz),
                              fra_order := 0\<rparr>
                 in page_cache_ra_order k (rac\<lparr>rac_index := fra_start ra1\<rparr>) ra1 c
            else let miss = page_cache_prev_miss (pc_pages c) (index - 1) max_pages;
                     contig = index - miss - 1
                 in if contig \<le> req_count
                    then (case do_page_cache_ra k rac req_count 0 c of
                            None \<Rightarrow> None | Some (rac', c') \<Rightarrow> Some (rac', ra, c'))
                    else let contig' = (if miss = ULONG_MAX then contig * 2 else contig);
                             ra1 = ra\<lparr>fra_start := index,
                                      fra_size := ucast (min (contig' + req_count) max_pages),
                                      fra_async_size := 1, fra_order := 0\<rparr>
                         in page_cache_ra_order k (rac\<lparr>rac_index := fra_start ra1\<rparr>) ra1 c)"

text \<open>The label \<open>readit\<close> of \<open>page_cache_async_ra\<close>: the end of the window is aligned.\<close>

definition async_readit ::
  "'e kapi \<Rightarrow> readahead_control \<Rightarrow> file_ra_state \<Rightarrow> u64 \<Rightarrow> 'e cache \<Rightarrow>
   (readahead_control \<times> file_ra_state \<times> 'e cache) option" where
  "async_readit k rac ra max_pages c =
     (let order = fra_order ra + 2;
          align = nr_pages (min order (k_ffs k max_pages - 1));
          end' = fra_start ra + ucast (fra_size ra);
          aligned_end = k_round_down k end' align;
          sz = (if aligned_end > fra_start ra then fra_size ra - ucast (end' - aligned_end)
                else fra_size ra);
          ra1 = ra\<lparr>fra_order := order, fra_size := sz, fra_async_size := sz\<rparr>
      in page_cache_ra_order k (rac\<lparr>rac_index := fra_start ra1\<rparr>) ra1 c)"

text \<open>\<open>folio_nr\<close> is the number of pages of the marked folio, \<open>wb\<close> whether it is under write-back.\<close>

definition page_cache_async_ra ::
  "'e kapi \<Rightarrow> readahead_control \<Rightarrow> file_ra_state \<Rightarrow> u64 \<Rightarrow> bool \<Rightarrow> u64 \<Rightarrow> 'e cache \<Rightarrow>
   (readahead_control \<times> file_ra_state \<times> 'e cache) option" where
  "page_cache_async_ra k rac ra folio_nr wb req_count c =
     (let index = rac_index rac in
      if fra_ra_pages ra = 0 then Some (rac, ra, c)
      else if wb then Some (rac, ra, c)
      else let c1 = c\<lparr>pc_marks := (pc_marks c)(index := False)\<rparr> in
        if k_congested k (pc_env c1) then Some (rac, ra, c1)
        else let max_pages = ractl_max_pages k ra req_count;
                 expected = k_round_down k
                   (fra_start ra + ucast (fra_size ra) - ucast (fra_async_size ra)) folio_nr
             in if index = expected
                then async_readit k rac
                       (ra\<lparr>fra_start := fra_start ra + ucast (fra_size ra),
                           fra_size := ucast (max (ucast (fra_size ra)) (get_next_ra_size ra max_pages))\<rparr>)
                       max_pages c1
                else let start = page_cache_next_miss (pc_pages c1) (index + 1) max_pages
                     in if start = 0 \<or> start - index > max_pages then Some (rac, ra, c1)
                        else let ra1 = ra\<lparr>fra_start := start,
                                          fra_size := ucast (start - index) + ucast req_count\<rparr>
                             in async_readit k rac
                                  (ra1\<lparr>fra_size := ucast (get_next_ra_size ra1 max_pages)\<rparr>) max_pages c1)"

section \<open>Page faults\<close>

text \<open>
  The parts of \<open>struct vm_fault\<close> and its \<open>vm_area_struct\<close> the code reads, and the
  architecture's constants. \<open>maybe_unlock_mmap_for_io\<close> and the file it may pin are left out.
\<close>

record vm_fault =
  vmf_pgoff :: u64
  vm_hugepage :: bool
  vm_rand_read :: bool
  vm_exec :: bool
  vm_seq_read :: bool
  vma_pgoff :: u64
  vma_pages :: u64
  hpage_pmd_nr :: u32
  hpage_pmd_order :: u32
  exec_folio_order :: u32

definition MMAP_LOTSAMISS :: u16 where "MMAP_LOTSAMISS = 100"

definition count_miss :: "file_ra_state \<Rightarrow> file_ra_state" where
  "count_miss ra =
     (if fra_mmap_miss ra < MMAP_LOTSAMISS * 10 then ra\<lparr>fra_mmap_miss := fra_mmap_miss ra + 1\<rparr> else ra)"

text \<open>\<open>max_t(long, 0, x)\<close>.\<close>

definition max_long_0 :: "u64 \<Rightarrow> u64" where
  "max_long_0 x = (if sint x < 0 then 0 else x)"

definition read_around_window :: "vm_fault \<Rightarrow> file_ra_state \<Rightarrow> file_ra_state" where
  "read_around_window vmf ra =
     ra\<lparr>fra_start := max_long_0 (vmf_pgoff vmf - ucast (fra_ra_pages ra div 2)),
        fra_size := fra_ra_pages ra, fra_async_size := fra_ra_pages ra div 4, fra_order := 0\<rparr>"

definition exec_window :: "'e kapi \<Rightarrow> vm_fault \<Rightarrow> file_ra_state \<Rightarrow> file_ra_state" where
  "exec_window k vmf ra =
     (let order = exec_folio_order vmf;
          start = max (k_round_down k (vmf_pgoff vmf) (nr_pages order)) (vma_pgoff vmf);
          ra_end = min (k_round_up k (start + ucast (fra_ra_pages ra)) (nr_pages order))
                       (vma_pgoff vmf + vma_pages vmf)
      in ra\<lparr>fra_order := order, fra_start := start, fra_size := ucast (ra_end - start),
            fra_async_size := 0\<rparr>)"

definition do_sync_mmap_readahead ::
  "'e kapi \<Rightarrow> vm_fault \<Rightarrow> readahead_control \<Rightarrow> file_ra_state \<Rightarrow> 'e cache \<Rightarrow>
   (readahead_control \<times> file_ra_state \<times> 'e cache) option" where
  "do_sync_mmap_readahead k vmf rac ra c =
     (let thp = vm_hugepage vmf in
      if \<not> thp \<and> vm_rand_read vmf \<and> \<not> vm_exec vmf then Some (rac, ra, c)
      else if \<not> thp \<and> fra_ra_pages ra = 0 then Some (rac, ra, c)
      else if \<not> thp \<and> vm_seq_read vmf
      then page_cache_sync_ra k rac ra (ucast (fra_ra_pages ra)) c
      else let ra1 = (if vm_seq_read vmf then ra else count_miss ra) in
        if \<not> vm_seq_read vmf \<and> fra_mmap_miss ra1 > MMAP_LOTSAMISS then Some (rac, ra1, c)
        else if thp
        then let ra2 = ra1\<lparr>fra_size := (if vm_rand_read vmf then hpage_pmd_nr vmf else hpage_pmd_nr vmf * 2),
                           fra_async_size := hpage_pmd_nr vmf, fra_order := hpage_pmd_order vmf\<rparr>
             in page_cache_ra_order k
                  (rac\<lparr>rac_index := rac_index rac AND NOT (ucast (hpage_pmd_nr vmf) - 1)\<rparr>) ra2 c
        else let ra2 = (if vm_exec vmf then exec_window k vmf ra1 else read_around_window vmf ra1)
             in page_cache_ra_order k (rac\<lparr>rac_index := fra_start ra2\<rparr>) ra2 c)"

definition do_async_mmap_readahead ::
  "'e kapi \<Rightarrow> vm_fault \<Rightarrow> readahead_control \<Rightarrow> file_ra_state \<Rightarrow> bool \<Rightarrow> bool \<Rightarrow> u64 \<Rightarrow> bool \<Rightarrow>
   'e cache \<Rightarrow> (readahead_control \<times> file_ra_state \<times> 'e cache) option" where
  "do_async_mmap_readahead k vmf rac ra locked marked folio_nr wb c =
     (if vm_rand_read vmf \<or> fra_ra_pages ra = 0 then Some (rac, ra, c)
      else let ra1 = (if \<not> locked \<and> fra_mmap_miss ra \<noteq> 0
                      then ra\<lparr>fra_mmap_miss := fra_mmap_miss ra - 1\<rparr> else ra)
           in if marked then page_cache_async_ra k rac ra1 folio_nr wb (ucast (fra_ra_pages ra1)) c
              else Some (rac, ra1, c))"

section \<open>Expanding a request\<close>

text \<open>
  Both loops of \<open>readahead_expand\<close> add a folio of the smallest order at an index; the result
  says whether the expansion goes on. \<open>folio->index\<close> is the aligned index of the folio added.
\<close>

definition expand_add ::
  "'e kapi \<Rightarrow> u64 \<Rightarrow> readahead_control \<Rightarrow> 'e cache \<Rightarrow> bool \<times> u64 \<times> readahead_control \<times> 'e cache" where
  "expand_add k index rac c =
     (if pc_pages c index then (False, index, rac, c)
      else case k_alloc_folio k (k_min_order k) (pc_env c) of (got, e) \<Rightarrow>
        if \<not> got then (False, index, rac, c\<lparr>pc_env := e\<rparr>)
        else let ai = k_align_index k index in
          (case filemap_add_folio k ai (k_min_order k) (c\<lparr>pc_env := e\<rparr>) of (ret, c1) \<Rightarrow>
             if ret < 0 then (False, index, rac, c1)
             else (True, ai,
                   rac\<lparr>rac_workingset := rac_workingset rac \<or> k_workingset k ai (pc_env c1),
                       rac_nr_pages := rac_nr_pages rac + ucast (k_min_nrpages k)\<rparr>, c1)))"

partial_function (option) expand_down ::
  "'e kapi \<Rightarrow> u64 \<Rightarrow> readahead_control \<Rightarrow> 'e cache \<Rightarrow> (bool \<times> readahead_control \<times> 'e cache) option" where
  "expand_down k new_index rac c =
     (if rac_index rac > new_index
      then (case expand_add k (rac_index rac - 1) rac c of (go, ai, rac', c') \<Rightarrow>
              (if \<not> go then Some (False, rac', c')
               else expand_down k new_index (rac'\<lparr>rac_index := ai\<rparr>) c'))
      else Some (True, rac, c))"

partial_function (option) expand_up ::
  "'e kapi \<Rightarrow> u64 \<Rightarrow> readahead_control \<Rightarrow> file_ra_state option \<Rightarrow> 'e cache \<Rightarrow>
   (readahead_control \<times> file_ra_state option \<times> 'e cache) option" where
  "expand_up k new_nr_pages rac ra c =
     (if ucast (rac_nr_pages rac) < new_nr_pages
      then (case expand_add k (rac_index rac + ucast (rac_nr_pages rac)) rac c of
              (go, ai, rac', c') \<Rightarrow>
                (if \<not> go then Some (rac', ra, c')
                 else expand_up k new_nr_pages rac'
                        (map_option (\<lambda>r. r\<lparr>fra_size := fra_size r + ucast (k_min_nrpages k),
                                           fra_async_size := fra_async_size r + ucast (k_min_nrpages k)\<rparr>) ra)
                        c'))
      else Some (rac, ra, c))"

definition readahead_expand ::
  "'e kapi \<Rightarrow> readahead_control \<Rightarrow> file_ra_state option \<Rightarrow> u64 \<Rightarrow> u64 \<Rightarrow> 'e cache \<Rightarrow>
   (readahead_control \<times> file_ra_state option \<times> 'e cache) option" where
  "readahead_expand k rac ra new_start new_len c =
     (let page_size = push_bit (k_page_shift k) 1 in
      case expand_down k (new_start div page_size) rac c of
        None \<Rightarrow> None
      | Some (go, rac1, c1) \<Rightarrow>
          if \<not> go then Some (rac1, ra, c1)
          else let len = new_len + (new_start - rac_index rac1 * page_size);
                   new_nr_pages = (len + page_size - 1) div page_size
               in expand_up k new_nr_pages rac1 ra c1)"

section \<open>The system call\<close>

record file_info =
  f_readable :: bool
  f_has_mapping :: bool
  f_has_aops :: bool
  f_regular_or_block :: bool
  f_anon :: bool

definition EBADF :: int where "EBADF = 9"
definition EINVAL :: int where "EINVAL = 22"

definition ksys_readahead ::
  "(u64 \<Rightarrow> u64 \<Rightarrow> int) \<Rightarrow> file_info option \<Rightarrow> u64 \<Rightarrow> u64 \<Rightarrow> int" where
  "ksys_readahead vfs_fadvise_willneed f offset cnt =
     (case f of
        None \<Rightarrow> - EBADF
      | Some fi \<Rightarrow>
          if \<not> f_readable fi then - EBADF
          else if \<not> f_has_mapping fi then - EINVAL
          else if \<not> f_has_aops fi then - EINVAL
          else if \<not> f_regular_or_block fi then - EINVAL
          else if f_anon fi then - EINVAL
          else vfs_fadvise_willneed offset cnt)"

end
