(* ===== verification/ReadaheadBounds.thy ===== *)
theory ReadaheadBounds
  imports KernelReadahead
begin

text \<open>
  What the kernel's read-ahead may touch: the window sizes stay between the request and the
  maximum, the loops end, no page beyond the end of the file is added to the page cache or read,
  no page is read that was cached already, and no cached page is lost.
\<close>

section \<open>Window sizes\<close>

text \<open>What \<open>linux/log2.h\<close> says of \<open>roundup_pow_of_two\<close> for a non-zero argument.\<close>

definition roundup_spec :: "(u64 \<Rightarrow> u64) \<Rightarrow> bool" where
  "roundup_spec f \<longleftrightarrow> (\<forall>x. 0 < x \<and> unat x \<le> 2 ^ 63 \<longrightarrow> unat x \<le> unat (f x) \<and> unat (f x) < 2 * unat x)"

lemma mult_word_nat:
  fixes x y :: u64
  assumes "unat x * n \<le> unat y" and "unat (of_nat n :: u64) = n"
  shows "unat (x * of_nat n) = unat x * n"
  using assms size_t_bound [of y] unat_mult_64 [of x "of_nat n"] by simp

lemma init_ra_bounds:
  assumes "roundup_spec (k_roundup_pow_of_two k)" and "0 < sz" and "sz \<le> max_pages"
    and "unat max_pages \<le> 2 ^ 63"
  shows "sz \<le> get_init_ra_size k sz max_pages \<and> get_init_ra_size k sz max_pages \<le> max_pages"
proof -
  let ?n = "k_roundup_pow_of_two k sz"
  have sz: "unat sz \<le> unat max_pages" using assms(3) by (simp add: word_le_nat_alt)
  then have n: "unat sz \<le> unat ?n" "unat ?n < 2 * unat sz"
    using assms(1,2,4) by (auto simp: roundup_spec_def)
  have d: "unat (max_pages div 32) = unat max_pages div 32" "unat (max_pages div 4) = unat max_pages div 4"
    by (simp_all add: unat_div)
  consider (small) "unat ?n \<le> unat max_pages div 32"
    | (medium) "\<not> unat ?n \<le> unat max_pages div 32" "unat ?n \<le> unat max_pages div 4"
    | (large) "\<not> unat ?n \<le> unat max_pages div 32" "\<not> unat ?n \<le> unat max_pages div 4" by blast
  then show ?thesis
  proof cases
    case small
    then have le: "unat ?n * 4 \<le> unat max_pages" by linarith
    then have "unat (?n * 4) = unat ?n * 4" using mult_word_nat [of ?n 4 max_pages] by simp
    with small le n d show ?thesis by (simp add: get_init_ra_size_def Let_def word_le_nat_alt)
  next
    case medium
    then have le: "unat ?n * 2 \<le> unat max_pages" by linarith
    then have "unat (?n * 2) = unat ?n * 2" using mult_word_nat [of ?n 2 max_pages] by simp
    with medium le n d show ?thesis by (simp add: get_init_ra_size_def Let_def word_le_nat_alt)
  next
    case large
    with d sz show ?thesis by (simp add: get_init_ra_size_def Let_def word_le_nat_alt)
  qed
qed

lemma next_ra_unat:
  assumes "ucast (fra_size ra) \<le> max_pages"
  shows "unat (get_next_ra_size ra max_pages) =
      (if unat (fra_size ra) < unat max_pages div 16 then 4 * unat (fra_size ra)
       else if unat (fra_size ra) \<le> unat max_pages div 2 then 2 * unat (fra_size ra) else unat max_pages)"
proof -
  define cur where "cur = (ucast (fra_size ra) :: u64)"
  have cur: "unat cur = unat (fra_size ra)" by (simp add: cur_def)
  have d: "unat (max_pages div 16) = unat max_pages div 16" "unat (max_pages div 2) = unat max_pages div 2"
    by (simp_all add: unat_div)
  have "unat (4 * cur) = 4 * unat cur" if "unat cur < unat max_pages div 16"
  proof -
    have "unat cur * 4 \<le> unat max_pages" using that by linarith
    then show ?thesis using mult_word_nat [of cur 4 max_pages] by (simp add: mult.commute)
  qed
  moreover have "unat (2 * cur) = 2 * unat cur" if "unat cur \<le> unat max_pages div 2"
  proof -
    have "unat cur * 2 \<le> unat max_pages" using that by linarith
    then show ?thesis using mult_word_nat [of cur 2 max_pages] by (simp add: mult.commute)
  qed
  ultimately show ?thesis
    using d cur by (simp add: get_next_ra_size_def cur_def [symmetric] Let_def word_less_nat_alt word_le_nat_alt)
qed

lemma next_ra_bounds:
  assumes "ucast (fra_size ra) \<le> max_pages"
  shows "unat (fra_size ra) \<le> unat (get_next_ra_size ra max_pages)"
    and "get_next_ra_size ra max_pages \<le> max_pages"
    and "0 < unat (fra_size ra) \<Longrightarrow> unat (fra_size ra) < unat max_pages \<Longrightarrow>
      unat (fra_size ra) < unat (get_next_ra_size ra max_pages)"
  using next_ra_unat [OF assms] assms by (auto simp: word_le_nat_alt split: if_splits)

lemma next_ra_doubles:
  assumes "ucast (fra_size ra) \<le> max_pages"
  shows "min (2 * unat (fra_size ra)) (unat max_pages) \<le> unat (get_next_ra_size ra max_pages)"
  using next_ra_unat [OF assms] by simp

section \<open>Mappings of single pages\<close>

text \<open>
  What the kernel's headers and the file system promise for a mapping whose smallest folio is one
  page: aligning and rounding to one page change nothing, the allocator and the xarray report
  \<open>0\<close> or a negative error number, and the file system takes at most the batch it is given.
\<close>

definition single_pages :: "'e kapi \<Rightarrow> bool" where
  "single_pages k \<longleftrightarrow> k_min_nrpages k = 1 \<and> k_min_order k = 0 \<and> (\<forall>i. k_align_index k i = i) \<and>
     (\<forall>x. k_round_up k x 1 = x) \<and> (\<forall>e. fst (k_charge k e) \<le> 0) \<and>
     (\<forall>i ord e. fst (k_store k i ord e) \<le> 0) \<and> (\<forall>s n e. fst (k_readahead k s n e) \<le> n)"

text \<open>No allocation fails and the file system takes whole batches.\<close>

definition never_fails :: "'e kapi \<Rightarrow> bool" where
  "never_fails k \<longleftrightarrow> (\<forall>ord e. fst (k_alloc_folio k ord e)) \<and> (\<forall>e. fst (k_charge k e) = 0) \<and>
     (\<forall>i ord e. fst (k_store k i ord e) = 0) \<and> (\<forall>s n e. fst (k_readahead k s n e) = n)"

text \<open>
  The batches handed to the file system after a cache state: each of at least one page, inside the
  range, of pages that were not cached, and in ascending order.
\<close>

definition batches_ok :: "nat \<Rightarrow> nat \<Rightarrow> 'e cache \<Rightarrow> (u64 \<times> u32) list \<Rightarrow> bool" where
  "batches_ok lo hi c0 bs \<longleftrightarrow>
     (\<forall>(s, n) \<in> set bs. 0 < unat n \<and> lo \<le> unat s \<and> unat s + unat n \<le> hi \<and>
        (\<forall>j. unat s \<le> unat j \<and> unat j < unat s + unat n \<longrightarrow> \<not> pc_pages c0 j)) \<and>
     sorted_wrt (\<lambda>(s, n) (s', n'). unat s + unat n \<le> unat s') bs"

text \<open>What a read-ahead of the pages from \<open>lo\<close> up to \<open>hi\<close> may do to the cache.\<close>

definition ra_effect :: "nat \<Rightarrow> nat \<Rightarrow> 'e cache \<Rightarrow> 'e cache \<Rightarrow> bool" where
  "ra_effect lo hi c0 c \<longleftrightarrow>
     (\<forall>j. pc_pages c0 j \<longrightarrow> pc_pages c j) \<and>
     (\<forall>j. pc_pages c j \<longrightarrow> pc_pages c0 j \<or> lo \<le> unat j \<and> unat j < hi) \<and>
     (\<exists>bs. pc_reads c = pc_reads c0 @ bs \<and> batches_ok lo hi c0 bs)"

definition window_cached :: "nat \<Rightarrow> nat \<Rightarrow> 'e cache \<Rightarrow> bool" where
  "window_cached lo hi c \<longleftrightarrow> (\<forall>j. lo \<le> unat j \<and> unat j < hi \<longrightarrow> pc_pages c j)"

text \<open>
  Invariant of the loop over pages: the batch under construction ends at the current page, its
  pages were not cached before, and the batches read so far end before it.
\<close>

definition ra_inv :: "'e kapi \<Rightarrow> nat \<Rightarrow> 'e cache \<Rightarrow> nat \<Rightarrow> readahead_control \<Rightarrow> 'e cache \<Rightarrow> bool" where
  "ra_inv k lo c0 hi rac c \<longleftrightarrow>
     lo \<le> unat (rac_index rac) \<and> unat (rac_index rac) + unat (rac_nr_pages rac) = hi \<and>
     (\<forall>j. unat (rac_index rac) \<le> unat j \<and> unat j < hi \<longrightarrow> \<not> pc_pages c0 j) \<and>
     (\<forall>j. pc_pages c0 j \<longrightarrow> pc_pages c j) \<and>
     (\<forall>j. pc_pages c j \<longrightarrow> pc_pages c0 j \<or> lo \<le> unat j \<and> unat j < hi) \<and>
     (\<exists>bs. pc_reads c = pc_reads c0 @ bs \<and> batches_ok lo (unat (rac_index rac)) c0 bs) \<and>
     (never_fails k \<longrightarrow> window_cached lo hi c)"

lemma batches_ok_snoc:
  assumes "batches_ok lo m c0 bs" and "0 < unat n" and "lo \<le> unat s" and "m \<le> unat s"
    and "unat s + unat n = hi" and "\<forall>j. unat s \<le> unat j \<and> unat j < hi \<longrightarrow> \<not> pc_pages c0 j"
  shows "batches_ok lo hi c0 (bs @ [(s, n)])"
  using assms unfolding batches_ok_def by (fastforce simp: sorted_wrt_append)

lemma batches_ok_mono: "batches_ok lo m c0 bs \<Longrightarrow> m \<le> hi \<Longrightarrow> batches_ok lo hi c0 bs"
  unfolding batches_ok_def by fastforce

text \<open>Membership in a run of page indices, as the code's unsigned difference tests it.\<close>

lemma word_range_64:
  fixes j s n :: u64
  assumes "unat s + unat n \<le> 2 ^ 64"
  shows "j - s < n \<longleftrightarrow> unat s \<le> unat j \<and> unat j < unat s + unat n"
proof (cases "s \<le> j")
  case True
  then have "unat (j - s) = unat j - unat s" by (rule unat_sub)
  with True show ?thesis by (auto simp: word_less_nat_alt word_le_nat_alt)
next
  case False
  then have "unat j < unat s" by (simp add: word_le_nat_alt)
  then have "\<not> unat (j - s) < unat n"
    using assms by (simp add: unat_sub_if')
  with False show ?thesis by (simp add: word_less_nat_alt word_le_nat_alt)
qed

text \<open>Reading the batch keeps the invariant and empties the batch.\<close>

lemma read_pages_inv:
  assumes k: "single_pages k" and inv: "ra_inv k lo c0 hi rac c" and hi: "hi < 2 ^ 64"
    and rp: "read_pages k rac c = (rac', c')"
  shows "ra_inv k lo c0 hi rac' c' \<and> rac_nr_pages rac' = 0 \<and> unat (rac_index rac') = hi"
proof (cases "rac_nr_pages rac = 0")
  case True
  then show ?thesis using rp inv by (auto simp: read_pages_def ra_inv_def)
next
  case False
  let ?s = "rac_index rac" and ?n = "rac_nr_pages rac"
  obtain t e where te: "k_readahead k ?s ?n (pc_env c) = (t, e)" by force
  have t: "unat t \<le> unat ?n"
    using k te unfolding single_pages_def by (metis fst_conv word_le_nat_alt)
  have hi': "unat ?s + unat ?n = hi" using inv by (simp add: ra_inv_def)
  have u1: "unat (?s + ucast t) = unat ?s + unat t"
    using hi hi' t unat_plus_64 [of ?s "ucast t"] by simp
  have u2: "unat (ucast (?n - t) :: u64) = unat ?n - unat t"
    using t by (simp add: unat_sub word_le_nat_alt)
  have u3: "unat (?s + ucast ?n) = hi" using hi hi' unat_plus_64 [of ?s "ucast ?n"] by simp
  have del: "j - (?s + ucast t) < ucast (?n - t) \<longleftrightarrow> unat ?s + unat t \<le> unat j \<and> unat j < hi" for j :: u64
    using word_range_64 [of "?s + ucast t" "ucast (?n - t)" j] u1 u2 t hi hi' by simp
  have rac': "rac_index rac' = ?s + ucast ?n" "rac_nr_pages rac' = 0"
    using rp False by (auto simp: read_pages_def Let_def)
  have c': "c' = (if k_has_readahead k
      then page_cache_delete (?s + ucast t) (ucast (?n - t)) (c\<lparr>pc_reads := pc_reads c @ [(?s, ?n)], pc_env := e\<rparr>)
      else c\<lparr>pc_reads := pc_reads c @ [(?s, ?n)]\<rparr>)"
    using rp False te by (cases "k_has_readahead k") (simp_all add: read_pages_def Let_def)
  have pages: "pc_pages c' j \<longleftrightarrow> pc_pages c j \<and> \<not> (k_has_readahead k \<and> unat ?s + unat t \<le> unat j \<and> unat j < hi)" for j
    unfolding c' page_cache_delete_def using del by simp
  have reads: "pc_reads c' = pc_reads c @ [(?s, ?n)]"
    unfolding c' page_cache_delete_def by simp
  obtain bs where bs: "pc_reads c = pc_reads c0 @ bs" "batches_ok lo (unat ?s) c0 bs"
    using inv by (auto simp: ra_inv_def)
  have n0: "0 < unat ?n" using False by (simp add: unat_gt_0)
  have "batches_ok lo hi c0 (bs @ [(?s, ?n)])"
    using inv n0 hi' bs(2) by (intro batches_ok_snoc) (auto simp: ra_inv_def)
  moreover have "window_cached lo hi c'" if nf: "never_fails k"
  proof -
    have "t = ?n" using nf te unfolding never_fails_def by (metis fst_conv)
    then have "pc_pages c' j = pc_pages c j" for j using pages hi' by auto
    then show ?thesis using nf inv by (auto simp: ra_inv_def window_cached_def)
  qed
  moreover have "pc_pages c' j" if "pc_pages c0 j" for j
  proof -
    have "pc_pages c j" "\<not> (unat ?s \<le> unat j \<and> unat j < hi)" using inv that by (auto simp: ra_inv_def)
    then show ?thesis using pages by simp
  qed
  ultimately show ?thesis
    using inv pages reads bs(1) u3 rac' by (auto simp: ra_inv_def)
qed

text \<open>A page that is passed over: the batch before it is read and the control steps behind it.\<close>

lemma skip_page_inv:
  assumes k: "single_pages k" and inv: "ra_inv k lo c0 hi rac c" and hi: "Suc hi < 2 ^ 64"
    and lo: "lo = unat index" and c: "never_fails k \<longrightarrow> (\<forall>j. unat j = hi \<longrightarrow> pc_pages c0 j)"
    and sk: "skip_page k index rac c = (i', rac', c')"
  shows "ra_inv k lo c0 (Suc hi) rac' c' \<and> unat index + unat i' = Suc hi"
proof -
  obtain rac1 c1 where rp: "read_pages k rac c = (rac1, c1)" by force
  have inv1: "ra_inv k lo c0 hi rac1 c1" and nr: "rac_nr_pages rac1 = 0" and ix: "unat (rac_index rac1) = hi"
    using read_pages_inv [OF k inv _ rp] hi by auto
  have one: "k_min_nrpages k = 1" using k by (simp add: single_pages_def)
  have u: "unat (rac_index rac1 + 1) = Suc hi" using hi ix unat_plus_64 [of "rac_index rac1" 1] by simp
  have eq: "i' = rac_index rac1 + 1 - index" "rac_index rac' = rac_index rac1 + 1" "rac_nr_pages rac' = 0" "c' = c1"
    using sk rp nr one by (auto simp: skip_page_def Let_def)
  have "lo \<le> hi" using inv1 ix by (simp add: ra_inv_def)
  then have "unat i' = Suc hi - lo" using eq(1) u lo by (simp add: unat_sub word_le_nat_alt)
  moreover have "batches_ok lo (Suc hi) c0 bs" if "batches_ok lo hi c0 bs" for bs
    using that by (rule batches_ok_mono) simp
  moreover have "window_cached lo (Suc hi) c1" if "never_fails k"
    using inv1 c that by (auto simp: ra_inv_def window_cached_def less_Suc_eq)
  ultimately show ?thesis
    using inv1 eq u ix nr lo \<open>lo \<le> hi\<close> by (auto simp: ra_inv_def less_Suc_eq)
qed

text \<open>Adding one page: an error leaves the pages as they were.\<close>

lemma nr_pages_0 [simp]: "nr_pages 0 = 1"
  by (simp add: nr_pages_def)

lemma folio_span_0 [simp]: "folio_span index 0 j \<longleftrightarrow> j = index"
  by (simp add: folio_span_def word_less_nat_alt unat_eq_zero)

lemma folio_indices_0 [simp]: "folio_indices index 0 = [index]"
  by (simp add: folio_indices_def)

lemma add_page_cases:
  assumes k: "single_pages k" and add: "filemap_add_folio k index 0 c = (ret, c')"
  shows "pc_reads c' = pc_reads c \<and>
    (ret < 0 \<and> pc_pages c' = pc_pages c \<and> (never_fails k \<longrightarrow> pc_pages c index) \<or>
     ret = 0 \<and> pc_pages c' = (\<lambda>j. j = index \<or> pc_pages c j))"
proof -
  obtain r e where ch: "k_charge k (pc_env c) = (r, e)" by force
  obtain err e' where st: "k_store k index 0 e = (err, e')" by force
  have "r \<le> 0" "err \<le> 0" using k ch st unfolding single_pages_def by (metis fst_conv)+
  moreover have "r = 0 \<and> err = 0" if "never_fails k"
    using that ch st unfolding never_fails_def by (metis fst_conv)
  ultimately show ?thesis
    using add ch st
    by (auto simp: filemap_add_folio_def filemap_add_folio_locked_def folio_conflict_def EEXIST_def split: if_splits)
qed

text \<open>The invariant reads only the pages and the batches of the cache.\<close>

lemma ra_inv_cong:
  "pc_pages c' = pc_pages c \<Longrightarrow> pc_reads c' = pc_reads c \<Longrightarrow> ra_inv k lo c0 hi rac c' = ra_inv k lo c0 hi rac c"
  by (simp add: ra_inv_def window_cached_def)

lemma unbounded_add:
  assumes inv: "ra_inv k lo c0 hi rac c" and new: "\<not> pc_pages c p" and p: "unat p = hi"
    and c': "pc_pages c' = (\<lambda>j. j = p \<or> pc_pages c j)" "pc_reads c' = pc_reads c"
    and rac': "rac_index rac' = rac_index rac" "rac_nr_pages rac' = rac_nr_pages rac + 1"
    and n: "Suc (unat (rac_nr_pages rac)) < 2 ^ 32"
  shows "ra_inv k lo c0 (Suc hi) rac' c'"
proof -
  have u: "unat (rac_nr_pages rac + 1) = Suc (unat (rac_nr_pages rac))"
    using n unat_plus_32 [of "rac_nr_pages rac" 1] by simp
  have le: "unat j < Suc hi \<longleftrightarrow> j = p \<or> unat j < hi" for j :: u64
    using p by (auto simp: less_Suc_eq word_unat_eq_iff)
  have p0: "\<not> pc_pages c0 p" using inv new unfolding ra_inv_def by blast
  have lo: "lo \<le> hi" using inv unfolding ra_inv_def by linarith
  have "window_cached lo (Suc hi) c'" if "never_fails k"
    using that inv unfolding ra_inv_def window_cached_def le c'(1) by blast
  moreover have "pc_pages c0 j \<or> lo \<le> unat j \<and> unat j < Suc hi" if "pc_pages c' j" for j
  proof (cases "j = p")
    case True
    then show ?thesis using p lo by simp
  next
    case False
    then have "pc_pages c j" using that c'(1) by simp
    then show ?thesis using inv unfolding ra_inv_def le by blast
  qed
  moreover have "\<not> pc_pages c0 j" if "unat (rac_index rac) \<le> unat j" "unat j < Suc hi" for j
    using that inv p0 unfolding ra_inv_def le by blast
  ultimately show ?thesis
    using inv unfolding ra_inv_def by (simp add: c' rac' u)
qed

lemma unbounded_loop_ends:
  assumes k: "single_pages k" and nr: "unat nr < 2 ^ 32" and lo: "lo = unat index"
    and top: "lo + unat nr < 2 ^ 64" and "unat i \<le> unat nr" and "ra_inv k lo c0 (lo + unat i) rac c"
  shows "\<exists>rac' c' hi. unbounded_loop k index mark nr i rac c = Some (rac', c') \<and>
    ra_inv k lo c0 hi rac' c' \<and> hi \<le> lo + unat nr \<and> (never_fails k \<longrightarrow> hi = lo + unat nr)"
  using assms(5,6)
proof (induction "unat nr - unat i" arbitrary: i rac c rule: less_induct)
  case less
  note IH = less.hyps and i = less.prems(1) and inv = less.prems(2)
  show ?case
  proof (cases "i < nr")
    case False
    then have "unat i = unat nr" using i by (simp add: word_less_nat_alt)
    then show ?thesis using inv False by (subst unbounded_loop.simps) auto
  next
    case True
    then have lt: "unat i < unat nr" by (simp add: word_less_nat_alt)
    let ?p = "index + i"
    have p: "unat ?p = lo + unat i" using lt top lo unat_plus_64 [of index i] by simp
    have p_unique: "j = ?p" if "unat j = lo + unat i" for j :: u64 using that p by (simp add: word_unat_eq_iff)
    have small: "Suc (lo + unat i) < 2 ^ 64" using lt top by linarith
    have go: "\<exists>rac' c' hi. unbounded_loop k index mark nr j r d = Some (rac', c') \<and>
        ra_inv k lo c0 hi rac' c' \<and> hi \<le> lo + unat nr \<and> (never_fails k \<longrightarrow> hi = lo + unat nr)"
      if "ra_inv k lo c0 (Suc (lo + unat i)) r d" "lo + unat j = Suc (lo + unat i)" for j r d
      using that lt IH [of j r d] by simp
    have skip: "\<exists>rac' c' hi. (case skip_page k index rac d of (i', r', d') \<Rightarrow>
          unbounded_loop k index mark nr i' r' d') = Some (rac', c') \<and>
        ra_inv k lo c0 hi rac' c' \<and> hi \<le> lo + unat nr \<and> (never_fails k \<longrightarrow> hi = lo + unat nr)"
      if "ra_inv k lo c0 (lo + unat i) rac d" "never_fails k \<longrightarrow> pc_pages c0 ?p" for d
    proof -
      obtain i' r' d' where sk: "skip_page k index rac d = (i', r', d')" by (metis prod_cases3)
      have "never_fails k \<longrightarrow> (\<forall>j. unat j = lo + unat i \<longrightarrow> pc_pages c0 j)" using that(2) p_unique by auto
      from skip_page_inv [OF k that(1) small lo this sk] show ?thesis using go sk lo by simp
    qed
    show ?thesis
    proof (cases "pc_pages c ?p")
      case cached: True
      then have "pc_pages c0 ?p" using inv p by (auto simp: ra_inv_def)
      then show ?thesis using skip [OF inv] True cached by (subst unbounded_loop.simps) simp
    next
      case miss: False
      obtain got e where al: "k_alloc_folio k 0 (pc_env c) = (got, e)" by force
      obtain ret c1 where add: "filemap_add_folio k ?p 0 (c\<lparr>pc_env := e\<rparr>) = (ret, c1)" by force
      have k0: "k_min_order k = 0" "k_min_nrpages k = 1" using k by (auto simp: single_pages_def)
      have inv_e: "ra_inv k lo c0 (lo + unat i) rac (c\<lparr>pc_env := e\<rparr>)" using inv by (simp cong: ra_inv_cong)
      have got: "got" if "never_fails k" using that al unfolding never_fails_def by (metis fst_conv)
      note cs = add_page_cases [OF k add]
      have unf: "unbounded_loop k index mark nr i rac c =
          (if \<not> got then Some (rac, c\<lparr>pc_env := e\<rparr>)
           else if ret < 0 then (if ret = - ENOMEM then Some (rac, c1)
                else (case skip_page k index rac c1 of (i', rac', c') \<Rightarrow> unbounded_loop k index mark nr i' rac' c'))
           else unbounded_loop k index mark nr (i + 1)
                  (rac\<lparr>rac_workingset := rac_workingset rac \<or> k_workingset k ?p (pc_env c1),
                       rac_nr_pages := rac_nr_pages rac + 1\<rparr>)
                  (if i = mark then c1\<lparr>pc_marks := (pc_marks c1)(?p := True)\<rparr> else c1))"
        using True miss al add k0 by (subst unbounded_loop.simps) simp
      consider (nomem) "\<not> got" | (err) "got" "ret < 0" | (ok) "got" "ret = 0" using cs by blast
      then show ?thesis
      proof cases
        case nomem
        then show ?thesis using unf inv_e got i by (intro exI [of _ "lo + unat i"] exI) auto
      next
        case err
        with cs have "\<not> never_fails k" "ra_inv k lo c0 (lo + unat i) rac c1"
          using miss inv_e ra_inv_cong [of c1 "c\<lparr>pc_env := e\<rparr>"] by auto
        then show ?thesis using unf err skip [of c1] i by (cases "ret = - ENOMEM") auto
      next
        case ok
        have "unat (rac_nr_pages rac) \<le> unat i" using inv by (auto simp: ra_inv_def)
        then have n: "Suc (unat (rac_nr_pages rac)) < 2 ^ 32" using lt nr by linarith
        have "unat (i + 1) = Suc (unat i)" using True by (rule unat_Suc_less)
        then have j: "lo + unat (i + 1) = Suc (lo + unat i)" by simp
        let ?rac = "rac\<lparr>rac_workingset := rac_workingset rac \<or> k_workingset k ?p (pc_env c1),
                        rac_nr_pages := rac_nr_pages rac + 1\<rparr>"
        let ?c = "if i = mark then c1\<lparr>pc_marks := (pc_marks c1)(?p := True)\<rparr> else c1"
        have "ra_inv k lo c0 (Suc (lo + unat i)) ?rac ?c"
          using ok cs n by (intro unbounded_add [OF inv miss p]) auto
        from go [OF this j] show ?thesis using unf ok by simp
      qed
    qed
  qed
qed

text \<open>The whole of \<open>page_cache_ra_unbounded\<close> over single pages.\<close>

lemma ra_unbounded_effect:
  assumes k: "single_pages k" and nr: "unat nr < 2 ^ 32" and empty: "rac_nr_pages rac = 0"
    and top: "unat (rac_index rac) + unat nr < 2 ^ 64"
  defines "lo \<equiv> unat (rac_index rac)"
  shows "\<exists>rac' c'. page_cache_ra_unbounded k rac nr la c = Some (rac', c') \<and> rac_nr_pages rac' = 0 \<and>
    lo \<le> unat (rac_index rac') \<and> unat (rac_index rac') \<le> lo + unat nr \<and>
    ra_effect lo (unat (rac_index rac')) c c' \<and>
    (never_fails k \<longrightarrow> unat (rac_index rac') = lo + unat nr \<and> window_cached lo (lo + unat nr) c')"
proof -
  have "ra_inv k lo c (lo + unat (0 :: u64)) rac c"
    using empty by (auto simp: ra_inv_def lo_def batches_ok_def window_cached_def)
  from unbounded_loop_ends [OF k nr lo_def [THEN meta_eq_to_obj_eq] _ _ this,
      of "if la \<le> nr then nr - la else ULONG_MAX"] top
  obtain rac1 c1 hi where l: "unbounded_loop k (rac_index rac)
        (if la \<le> nr then nr - la else ULONG_MAX) nr 0 rac c = Some (rac1, c1)"
    and inv: "ra_inv k lo c hi rac1 c1" and hi: "hi \<le> lo + unat nr" "never_fails k \<longrightarrow> hi = lo + unat nr"
    unfolding lo_def by auto
  obtain rac2 c2 where rp: "read_pages k rac1 c1 = (rac2, c2)" by force
  have res: "page_cache_ra_unbounded k rac nr la c = Some (rac2, c2)"
    using k l rp by (cases "la \<le> nr") (simp_all add: page_cache_ra_unbounded_def single_pages_def)
  have "hi < 2 ^ 64" using hi top by (simp add: lo_def)
  note r = read_pages_inv [OF k inv this rp]
  then have "ra_effect lo hi c c2" unfolding ra_inv_def ra_effect_def by auto
  moreover have "lo \<le> hi" using r by (auto simp: ra_inv_def)
  moreover have "never_fails k \<longrightarrow> window_cached lo hi c2" using r by (auto simp: ra_inv_def)
  ultimately show ?thesis using res r hi by auto
qed

text \<open>The index of the last page of a non-empty file.\<close>

lemma last_index_unat:
  assumes "0 < k_isize k" and "unat (k_isize k) < 2 ^ 63"
  shows "unat (last_index k) = (unat (k_isize k) - 1) div 2 ^ k_page_shift k"
proof -
  have u: "unat (k_isize k - 1) = unat (k_isize k) - 1" using assms(1) by (simp add: unat_minus_one)
  have "\<not> bit (k_isize k - 1) 63"
  proof -
    have "uint (k_isize k - 1) < 2 ^ 63" using u assms(2) unat_less_63 [of "k_isize k - 1"] by auto
    then have "uint (k_isize k - 1) div 2 ^ 63 = 0" by (intro div_pos_pos_trivial) simp_all
    then have "\<not> bit (uint (k_isize k - 1)) 63" by (simp add: bit_iff_odd)
    then show ?thesis by (simp add: bit_unsigned_iff)
  qed
  then have "signed_drop_bit (k_page_shift k) (k_isize k - 1) = drop_bit (k_page_shift k) (k_isize k - 1)"
    by (intro bit_word_eqI) (auto simp: bit_signed_drop_bit_iff bit_drop_bit_eq dest: bit_imp_le_length)
  then have "unat (last_index k) = drop_bit (k_page_shift k) (unat (k_isize k - 1))"
    by (simp only: last_index_def unat_drop_bit_eq)
  then show ?thesis using u by (simp add: drop_bit_eq_div)
qed

text \<open>The pages up to the last index are those that begin inside the file.\<close>

lemma within_file:
  assumes "0 < k_isize k" and "unat (k_isize k) < 2 ^ 63" and "m \<le> Suc (unat (last_index k))" and "j < m"
  shows "j * 2 ^ k_page_shift k < unat (k_isize k)"
proof -
  let ?P = "2 ^ k_page_shift k :: nat"
  have "j \<le> (unat (k_isize k) - 1) div ?P" using last_index_unat [OF assms(1,2)] assms(3,4) by linarith
  then have "j * ?P \<le> (unat (k_isize k) - 1) div ?P * ?P" by (rule mult_le_mono1)
  also have "\<dots> \<le> unat (k_isize k) - 1" by (metis div_times_less_eq_dividend)
  finally show ?thesis using assms(1) unat_gt_0 [of "k_isize k"] by (simp add: word_greater_zero_iff)
qed

lemma page_in_file:
  assumes "unat p * 2 ^ k_page_shift k < unat (k_isize k)" and "unat (k_isize k) < 2 ^ 63"
  shows "p \<le> last_index k" and "unat p < 2 ^ 63"
proof -
  have "unat p \<le> (unat (k_isize k) - 1) div 2 ^ k_page_shift k"
    using assms(1) by (simp add: less_eq_div_iff_mult_less_eq)
  moreover have "0 < k_isize k" using assms(1) by (simp add: word_less_nat_alt)
  ultimately show "p \<le> last_index k"
    using last_index_unat [of k] assms(2) by (simp add: word_le_nat_alt)
  have "unat p * 1 \<le> unat p * 2 ^ k_page_shift k" by (intro mult_le_mono2) simp
  then show "unat p < 2 ^ 63" using assms by linarith
qed

text \<open>Bounded read-ahead: the window is cut at the end of the file.\<close>

definition ra_stays_inside ::
  "'e kapi \<Rightarrow> u64 \<Rightarrow> u64 \<Rightarrow> 'e cache \<Rightarrow> readahead_control \<Rightarrow> 'e cache \<Rightarrow> bool" where
  "ra_stays_inside k index nr c rac' c' \<longleftrightarrow>
     rac_nr_pages rac' = 0 \<and>
     unat index \<le> unat (rac_index rac') \<and> unat (rac_index rac') \<le> unat index + unat nr \<and>
     ra_effect (unat index) (unat (rac_index rac')) c c' \<and>
     (\<forall>j. unat index \<le> j \<and> j < unat (rac_index rac') \<longrightarrow> j * 2 ^ k_page_shift k < unat (k_isize k)) \<and>
     (never_fails k \<longrightarrow>
        (\<forall>j. index \<le> j \<and> j \<le> last_index k \<and> unat j < unat index + unat nr \<and> k_isize k \<noteq> 0 \<longrightarrow> pc_pages c' j))"

lemma ra_effect_refl: "ra_effect m m c c"
  by (simp add: ra_effect_def batches_ok_def)

lemma do_page_cache_ra_inside:
  assumes k: "single_pages k" and nr: "unat nr < 2 ^ 32" and empty: "rac_nr_pages rac = 0"
    and sz: "unat (k_isize k) < 2 ^ 63"
  shows "\<exists>rac' c'. do_page_cache_ra k rac nr la c = Some (rac', c') \<and>
    ra_stays_inside k (rac_index rac) nr c rac' c'"
proof (cases "k_isize k = 0 \<or> rac_index rac > last_index k")
  case True
  then have "do_page_cache_ra k rac nr la c = Some (rac, c)" by (auto simp: do_page_cache_ra_def Let_def)
  then show ?thesis using True empty ra_effect_refl by (fastforce simp: ra_stays_inside_def)
next
  case False
  let ?i = "rac_index rac" and ?e = "last_index k"
  define m where "m = (if nr > ?e - ?i then ?e - ?i + 1 else nr)"
  have pos: "0 < k_isize k" using False by (simp add: word_greater_zero_iff)
  have le: "unat ?i \<le> unat ?e" using False by (simp add: word_less_nat_alt)
  have sub: "unat (?e - ?i) = unat ?e - unat ?i" using le by (simp add: unat_sub word_le_nat_alt)
  have "(unat (k_isize k) - 1) div 2 ^ k_page_shift k \<le> unat (k_isize k) - 1" by (rule div_le_dividend)
  then have e: "unat ?e < 2 ^ 63" using last_index_unat [OF pos sz] sz by linarith
  have u: "unat (?e - ?i + 1) = Suc (unat ?e - unat ?i)" using sub e unat_plus_64 [of "?e - ?i" 1] by simp
  have n: "unat m = min (unat nr) (Suc (unat ?e - unat ?i))"
    using u sub by (auto simp: m_def word_less_nat_alt)
  have top: "unat ?i + unat m < 2 ^ 64" using n e le by (simp add: min_def split: if_splits)
  have n32: "unat m < 2 ^ 32" using n nr by linarith
  obtain rac' c' where r: "page_cache_ra_unbounded k rac m la c = Some (rac', c')" "rac_nr_pages rac' = 0"
    "unat ?i \<le> unat (rac_index rac')" "unat (rac_index rac') \<le> unat ?i + unat m"
    "ra_effect (unat ?i) (unat (rac_index rac')) c c'"
    "never_fails k \<longrightarrow> unat (rac_index rac') = unat ?i + unat m \<and> window_cached (unat ?i) (unat ?i + unat m) c'"
    using ra_unbounded_effect [OF k n32 empty top] by blast
  have d: "do_page_cache_ra k rac nr la c = Some (rac', c')" using False r(1) by (simp add: do_page_cache_ra_def Let_def m_def)
  have "unat (rac_index rac') \<le> Suc (unat ?e)" using r(4) n le by linarith
  then have "j * 2 ^ k_page_shift k < unat (k_isize k)" if "j < unat (rac_index rac')" for j
    using within_file [OF pos sz _ that] by simp
  moreover have "pc_pages c' j"
    if "never_fails k" "?i \<le> j" "j \<le> ?e" "unat j < unat ?i + unat nr" for j
    using that r(6) n le by (auto simp: window_cached_def word_le_nat_alt)
  moreover have "unat (rac_index rac') \<le> unat ?i + unat nr" using r(4) n by linarith
  ultimately have "ra_stays_inside k ?i nr c rac' c'" using r by (auto simp: ra_stays_inside_def)
  with d show ?thesis by blast
qed

section \<open>Forced read-ahead\<close>

lemma batches_ok_append:
  assumes "batches_ok lo m c0 bs" and "batches_ok m hi c1 bs'" and "lo \<le> m" and "m \<le> hi"
    and "\<forall>j. pc_pages c0 j \<longrightarrow> pc_pages c1 j"
  shows "batches_ok lo hi c0 (bs @ bs')"
proof -
  have "batches_ok lo hi c0 bs" using assms(1,4) by (rule batches_ok_mono)
  moreover have "batches_ok lo hi c0 bs'"
    using assms(2,3,5) unfolding batches_ok_def by fastforce
  moreover have "unat s + unat n \<le> unat s'" if "(s, n) \<in> set bs" "(s', n') \<in> set bs'" for s n s' n'
  proof -
    have "unat s + unat n \<le> m" using that(1) assms(1) unfolding batches_ok_def by blast
    moreover have "m \<le> unat s'" using that(2) assms(2) unfolding batches_ok_def by blast
    ultimately show ?thesis by linarith
  qed
  ultimately show ?thesis unfolding batches_ok_def by (auto simp: sorted_wrt_append)
qed

lemma ra_effect_trans:
  assumes "ra_effect lo m c0 c1" and "ra_effect m hi c1 c2" and "lo \<le> m" and "m \<le> hi"
  shows "ra_effect lo hi c0 c2"
proof -
  obtain bs bs' where "pc_reads c1 = pc_reads c0 @ bs" "batches_ok lo m c0 bs"
    "pc_reads c2 = pc_reads c1 @ bs'" "batches_ok m hi c1 bs'"
    using assms(1,2) unfolding ra_effect_def by blast
  moreover have keep: "\<forall>j. pc_pages c0 j \<longrightarrow> pc_pages c1 j" using assms(1) unfolding ra_effect_def by blast
  ultimately have "pc_reads c2 = pc_reads c0 @ bs @ bs' \<and> batches_ok lo hi c0 (bs @ bs')"
    using batches_ok_append [of lo m c0 bs hi c1 bs'] assms(3,4) by simp
  moreover have "pc_pages c0 j \<or> lo \<le> unat j \<and> unat j < hi" if "pc_pages c2 j" for j
    using that assms unfolding ra_effect_def by (meson le_trans less_le_trans)
  ultimately show ?thesis using keep assms(2) unfolding ra_effect_def by blast
qed

text \<open>
  The two-megabyte chunks of \<open>force_page_cache_ra\<close>: with pages of at most two megabytes every
  round makes progress, so the loop ends.
\<close>

lemma force_chunk:
  assumes "k_page_shift k \<le> 21"
  shows "unat ((2 * 1024 * 1024) div push_bit (k_page_shift k) 1 :: u64) = 2 ^ (21 - k_page_shift k)"
proof -
  have "unat (push_bit (k_page_shift k) 1 :: u64) = 2 ^ k_page_shift k"
    using assms power_strict_increasing [of "k_page_shift k" 64 "2 :: nat"]
    by (simp only: unsigned_push_bit_eq) (simp add: take_bit_nat_eq_self)
  then have "unat ((2 * 1024 * 1024) div push_bit (k_page_shift k) 1 :: u64) = 2 ^ 21 div 2 ^ k_page_shift k"
    by (simp add: unat_div)
  then show ?thesis using assms by (simp add: power_diff)
qed

lemma force_loop_ends:
  assumes k: "single_pages k" and sz: "unat (k_isize k) < 2 ^ 63" and sh: "k_page_shift k \<le> 21"
  shows "rac_nr_pages rac = 0 \<Longrightarrow>
    \<exists>rac' c'. force_loop k rac nr c = Some (rac', c') \<and> rac_nr_pages rac' = 0 \<and>
      unat (rac_index rac) \<le> unat (rac_index rac') \<and>
      unat (rac_index rac') \<le> unat (rac_index rac) + unat nr \<and>
      ra_effect (unat (rac_index rac)) (unat (rac_index rac')) c c' \<and>
      (\<forall>j. unat (rac_index rac) \<le> j \<and> j < unat (rac_index rac') \<longrightarrow> j * 2 ^ k_page_shift k < unat (k_isize k))"
proof (induction "unat nr" arbitrary: nr rac c rule: less_induct)
  case less
  show ?case
  proof (cases "nr = 0")
    case True
    then show ?thesis using less.prems ra_effect_refl by (subst force_loop.simps) auto
  next
    case False
    let ?ch = "(2 * 1024 * 1024) div push_bit (k_page_shift k) 1 :: u64"
    define t where "t = (if ?ch > nr then nr else ?ch)"
    have ch: "unat ?ch = 2 ^ (21 - k_page_shift k)" using sh by (rule force_chunk)
    have "(2 :: nat) ^ (21 - k_page_shift k) \<le> 2 ^ 21" by (intro power_increasing) simp_all
    then have t: "0 < unat t" "unat t \<le> unat nr" "unat t < 2 ^ 32"
      using ch False by (auto simp: t_def word_less_nat_alt unat_gt_0 split: if_splits)
    have sub: "unat (nr - t) = unat nr - unat t" using t(2) by (simp only: unat_sub word_le_nat_alt)
    obtain rac1 c1 where d: "do_page_cache_ra k rac t 0 c = Some (rac1, c1)"
      and in1: "ra_stays_inside k (rac_index rac) t c rac1 c1"
      using do_page_cache_ra_inside [OF k t(3) less.prems sz] by blast
    then have e: "rac_nr_pages rac1 = 0" by (simp add: ra_stays_inside_def)
    have "unat (nr - t) < unat nr" using sub t by linarith
    from less.hyps [OF this e, of c1] obtain rac2 c2 where
      l: "force_loop k rac1 (nr - t) c1 = Some (rac2, c2)" "rac_nr_pages rac2 = 0"
        "unat (rac_index rac1) \<le> unat (rac_index rac2)"
        "unat (rac_index rac2) \<le> unat (rac_index rac1) + unat (nr - t)"
        "ra_effect (unat (rac_index rac1)) (unat (rac_index rac2)) c1 c2"
        "\<forall>j. unat (rac_index rac1) \<le> j \<and> j < unat (rac_index rac2) \<longrightarrow> j * 2 ^ k_page_shift k < unat (k_isize k)"
      by blast
    have res: "force_loop k rac nr c = Some (rac2, c2)"
    proof -
      have "force_loop k rac nr c = (case do_page_cache_ra k rac t 0 c of
          None \<Rightarrow> None | Some rc \<Rightarrow> force_loop k (fst rc) (nr - t) (snd rc))"
        unfolding t_def by (subst force_loop.simps) (simp only: Let_def False if_True not_False_eq_True)
      then show ?thesis using d l(1) by simp
    qed
    have b: "unat (rac_index rac) \<le> unat (rac_index rac1)"
      "unat (rac_index rac1) \<le> unat (rac_index rac) + unat t"
      "ra_effect (unat (rac_index rac)) (unat (rac_index rac1)) c c1"
      "\<forall>j. unat (rac_index rac) \<le> j \<and> j < unat (rac_index rac1) \<longrightarrow> j * 2 ^ k_page_shift k < unat (k_isize k)"
      using in1 by (auto simp: ra_stays_inside_def)
    have "unat (rac_index rac2) \<le> unat (rac_index rac) + unat nr" using b(2) l(4) sub t(2) by linarith
    moreover have "\<forall>j. unat (rac_index rac) \<le> j \<and> j < unat (rac_index rac2) \<longrightarrow> j * 2 ^ k_page_shift k < unat (k_isize k)"
      using b(4) l(6) by (meson not_le)
    ultimately show ?thesis
      using res l(2,3) b(1) ra_effect_trans [OF b(3) l(5) b(1) l(3)] by auto
  qed
qed

section \<open>Faults on mapped files\<close>

text \<open>
  Without large folios \<open>page_cache_ra_order\<close> is the bounded read-ahead of the whole window.
\<close>

lemma ra_order_small:
  assumes "\<not> k_large_folios k"
  shows "page_cache_ra_order k rac ra c =
    (if fra_size ra = 0 then Some (rac, ra\<lparr>fra_order := 0\<rparr>, c)
     else map_option (\<lambda>(rac', c'). (rac', ra\<lparr>fra_order := 0\<rparr>, c'))
            (do_page_cache_ra k rac (ucast (fra_size ra)) (ucast (fra_async_size ra)) c))"
proof -
  have "(0 :: u64) < ucast (fra_size ra) \<longleftrightarrow> fra_size ra \<noteq> 0"
    by (simp add: word_less_nat_alt unat_gt_0)
  then show ?thesis
    using assms by (simp add: page_cache_ra_order_def ra_order_fallback_def Let_def split: option.splits)
qed

lemma read_around_start:
  assumes "unat (vmf_pgoff vmf) < 2 ^ 63"
  shows "unat (fra_start (read_around_window vmf ra)) = unat (vmf_pgoff vmf) - unat (fra_ra_pages ra) div 2"
proof -
  let ?p = "vmf_pgoff vmf" and ?h = "ucast (fra_ra_pages ra div 2) :: u64"
  have h: "unat ?h = unat (fra_ra_pages ra) div 2" by (simp add: unat_div)
  show ?thesis
  proof (cases "?h \<le> ?p")
    case True
    then have "unat (?p - ?h) = unat ?p - unat ?h" by (rule unat_sub)
    moreover from this assms have "uint (?p - ?h) < 2 ^ 63"
      using unat_less_63 [of "?p - ?h"] by linarith
    then have "\<not> sint (?p - ?h) < 0" by (simp add: sint_small)
    ultimately show ?thesis using h by (simp add: read_around_window_def max_long_0_def)
  next
    case False
    then have lt: "unat ?p < unat ?h" by (simp add: word_le_nat_alt)
    have "unat ?h < 2 ^ 32" using h u32_bound [of "fra_ra_pages ra"] by simp
    then have "unat (?p - ?h) \<ge> 2 ^ 63" using lt by (simp add: unat_sub_if')
    then have "2 ^ 63 \<le> uint (?p - ?h)" using unat_less_63 [of "?p - ?h"] by linarith
    then have "sint (?p - ?h) < 0" using uint_lt2p [of "?p - ?h"] by (simp add: sint_big)
    then show ?thesis using h lt by (simp add: read_around_window_def max_long_0_def)
  qed
qed

lemma read_around_returns:
  assumes "single_pages k" and "\<not> k_large_folios k" and "unat (k_isize k) < 2 ^ 63"
    and "rac_nr_pages rac = 0" and "fra_ra_pages ra \<noteq> 0" and "fra_mmap_miss ra < MMAP_LOTSAMISS"
    and "\<not> vm_hugepage vmf" and "\<not> vm_rand_read vmf" and "\<not> vm_seq_read vmf" and "\<not> vm_exec vmf"
    and "unat (vmf_pgoff vmf) * 2 ^ k_page_shift k < unat (k_isize k)"
  shows "\<exists>rac' ra' c'. do_sync_mmap_readahead k vmf rac ra c = Some (rac', ra', c') \<and>
    (never_fails k \<longrightarrow> pc_pages c' (vmf_pgoff vmf)) \<and>
    (\<forall>j. pc_pages c j \<longrightarrow> pc_pages c' j) \<and>
    (let lo = unat (vmf_pgoff vmf) - unat (fra_ra_pages ra) div 2 in
       (\<forall>j. pc_pages c' j \<and> \<not> pc_pages c j \<longrightarrow>
          lo \<le> unat j \<and> unat j < lo + unat (fra_ra_pages ra) \<and> unat j * 2 ^ k_page_shift k < unat (k_isize k)) \<and>
       (\<exists>bs. pc_reads c' = pc_reads c @ bs \<and> batches_ok lo (lo + unat (fra_ra_pages ra)) c bs))"
proof -
  have isz: "0 < unat (k_isize k)" using assms(11) by linarith
  let ?p = "vmf_pgoff vmf" and ?ra = "read_around_window vmf (count_miss ra)"
  let ?lo = "unat ?p - unat (fra_ra_pages ra) div 2"
  have p63: "unat ?p < 2 ^ 63" using page_in_file(2) [OF assms(11,3)] .
  have pages: "fra_ra_pages (count_miss ra) = fra_ra_pages ra" by (simp add: count_miss_def)
  have st: "unat (fra_start ?ra) = ?lo" using read_around_start [OF p63] pages by simp
  have miss: "\<not> fra_mmap_miss (count_miss ra) > MMAP_LOTSAMISS"
    using assms(6) unat_Suc_less [OF assms(6)]
    by (simp add: count_miss_def MMAP_LOTSAMISS_def word_less_nat_alt)
  let ?rac = "rac\<lparr>rac_index := fra_start ?ra\<rparr>"
  have "unat (ucast (fra_ra_pages ra) :: u64) < 2 ^ 32" using u32_bound by simp
  then obtain rac' c' where d: "do_page_cache_ra k ?rac (ucast (fra_ra_pages ra)) (ucast (fra_ra_pages ra div 4)) c = Some (rac', c')"
    and ins: "ra_stays_inside k (fra_start ?ra) (ucast (fra_ra_pages ra)) c rac' c'"
    using do_page_cache_ra_inside [OF assms(1) _ _ assms(3), of "ucast (fra_ra_pages ra)" ?rac] assms(4) by fastforce
  have res: "do_sync_mmap_readahead k vmf rac ra c = Some (rac', ?ra\<lparr>fra_order := 0\<rparr>, c')"
    using assms(5,7-10) miss d pages ra_order_small [OF assms(2)]
    by (simp add: do_sync_mmap_readahead_def read_around_window_def Let_def)
  have hi: "unat (rac_index rac') \<le> ?lo + unat (fra_ra_pages ra)" using ins st by (simp add: ra_stays_inside_def)
  have eff: "ra_effect ?lo (unat (rac_index rac')) c c'" using ins st by (simp add: ra_stays_inside_def)
  obtain bs where bs: "pc_reads c' = pc_reads c @ bs" "batches_ok ?lo (unat (rac_index rac')) c bs"
    using eff unfolding ra_effect_def by blast
  have cached: "pc_pages c' ?p" if "never_fails k"
  proof -
    have "?p \<le> last_index k" using page_in_file(1) [OF assms(11,3)] .
    moreover have "fra_start ?ra \<le> ?p" using st by (simp add: word_le_nat_alt)
    moreover have "unat ?p < ?lo + unat (fra_ra_pages ra)" using assms(5) unat_gt_0 [of "fra_ra_pages ra"] by linarith
    ultimately show ?thesis using that ins isz st unfolding ra_stays_inside_def by auto
  qed
  have new: "?lo \<le> unat j \<and> unat j < ?lo + unat (fra_ra_pages ra) \<and> unat j * 2 ^ k_page_shift k < unat (k_isize k)"
    if "pc_pages c' j" "\<not> pc_pages c j" for j
  proof -
    have "?lo \<le> unat j \<and> unat j < unat (rac_index rac')" using eff that unfolding ra_effect_def by blast
    then show ?thesis using hi ins st unfolding ra_stays_inside_def by auto
  qed
  have "\<forall>j. pc_pages c j \<longrightarrow> pc_pages c' j" using eff unfolding ra_effect_def by blast
  with res cached new bs(1) batches_ok_mono [OF bs(2) hi] show ?thesis
    unfolding Let_def by blast
qed

text \<open>
  C3: A fault on a page of a mapped file with no access advice, below the miss limit and without
  large folios, reads around the page. The call returns; afterwards the faulting page is cached if
  no allocation fails; pages that were cached stay cached; and the pages added or read are not
  cached before, lie between half a window below the faulting page and one window further, and
  begin inside the file.
\<close>

theorem mmap_read_around:
  assumes "single_pages k" and "\<not> k_large_folios k" and "unat (k_isize k) < 2 ^ 63"
    and "rac_nr_pages rac = 0" and "fra_ra_pages ra \<noteq> 0" and "fra_mmap_miss ra < MMAP_LOTSAMISS"
    and "\<not> vm_hugepage vmf" and "\<not> vm_rand_read vmf" and "\<not> vm_seq_read vmf" and "\<not> vm_exec vmf"
    and "unat (vmf_pgoff vmf) * 2 ^ k_page_shift k < unat (k_isize k)"
  shows "\<exists>rac' ra' c'. do_sync_mmap_readahead k vmf rac ra c = Some (rac', ra', c') \<and>
    (never_fails k \<longrightarrow> pc_pages c' (vmf_pgoff vmf)) \<and>
    (\<forall>j. pc_pages c j \<longrightarrow> pc_pages c' j) \<and>
    (let lo = unat (vmf_pgoff vmf) - unat (fra_ra_pages ra) div 2 in
       (\<forall>j. pc_pages c' j \<and> \<not> pc_pages c j \<longrightarrow>
          lo \<le> unat j \<and> unat j < lo + unat (fra_ra_pages ra) \<and> unat j * 2 ^ k_page_shift k < unat (k_isize k)) \<and>
       (\<exists>bs. pc_reads c' = pc_reads c @ bs \<and> batches_ok lo (lo + unat (fra_ra_pages ra)) c bs))"
  using read_around_returns [OF assms] .

text \<open>An implementation of \<open>roundup_pow_of_two\<close> that keeps its promise.\<close>

fun pow2_above :: "nat \<Rightarrow> u64 \<Rightarrow> u64 \<Rightarrow> u64" where
  "pow2_above 0 p x = p"
| "pow2_above (Suc n) p x = (if x \<le> p then p else pow2_above n (2 * p) x)"

lemma pow2_above_spec:
  "unat p * 2 ^ n = 2 ^ 63 \<Longrightarrow> unat p < 2 * unat x \<Longrightarrow> unat x \<le> 2 ^ 63 \<Longrightarrow>
   unat x \<le> unat (pow2_above n p x) \<and> unat (pow2_above n p x) < 2 * unat x"
proof (induction n arbitrary: p)
  case (Suc n)
  then have "2 * unat p * 2 ^ n = 2 ^ 63" by simp
  moreover from this have "2 * unat p \<le> 2 ^ 63" by (metis le_add1 mult.right_neutral mult_le_mono2 one_le_numeral one_le_power)
  then have "unat (2 * p) = 2 * unat p" using unat_mult_64 [of 2 p] by simp
  ultimately show ?case using Suc by (auto simp: word_le_nat_alt)
qed simp

lemma roundup_spec_pow2: "roundup_spec (pow2_above 63 1)"
  using pow2_above_spec [of 1 63] by (simp add: roundup_spec_def word_less_nat_alt)

text \<open>A mapping of forty kilobytes with pages of four, and a fault in the middle of it.\<close>

definition demo_kapi :: "unit kapi" where
  "demo_kapi = \<lparr>k_page_shift = 12, k_isize = 40960, k_bdi_ra_pages = 32, k_io_pages = 32,
     k_has_readahead = True, k_has_read_folio = True, k_large_folios = False, k_min_order = 0,
     k_max_order = 0, k_min_nrpages = 1, k_align_index = (\<lambda>i. i), k_round_up = (\<lambda>x a. (x + a - 1) div a * a),
     k_round_down = (\<lambda>x a. x div a * a), k_roundup_pow_of_two = pow2_above 63 1,
     k_ilog2 = (\<lambda>x. 0), k_ffs_long = (\<lambda>x. 0), k_ffs = (\<lambda>x. 1),
     k_alloc_folio = (\<lambda>ord e. (True, e)), k_charge = (\<lambda>e. (0, e)), k_store = (\<lambda>i ord e. (0, e)),
     k_workingset = (\<lambda>i e. False), k_readahead = (\<lambda>s n e. (n, e)), k_congested = (\<lambda>e. False)\<rparr>"

definition demo_ra :: file_ra_state where
  "demo_ra = \<lparr>fra_start = 0, fra_size = 0, fra_async_size = 0, fra_ra_pages = 8, fra_order = 0,
     fra_mmap_miss = 0, fra_prev_pos = - 1\<rparr>"

definition demo_rac :: "u64 \<Rightarrow> readahead_control" where
  "demo_rac i = \<lparr>rac_index = i, rac_nr_pages = 0, rac_workingset = False, rac_file = True, rac_random = False\<rparr>"

definition demo_cache :: "unit cache" where
  "demo_cache = \<lparr>pc_pages = (\<lambda>j. j = 4), pc_marks = (\<lambda>j. False), pc_nrpages = 1, pc_reads = [], pc_env = ()\<rparr>"

definition demo_fault :: vm_fault where
  "demo_fault = \<lparr>vmf_pgoff = 5, vm_hugepage = False, vm_rand_read = False, vm_exec = False,
     vm_seq_read = False, vma_pgoff = 0, vma_pages = 10, hpage_pmd_nr = 512, hpage_pmd_order = 9,
     exec_folio_order = 0\<rparr>"

lemma demo_single_pages: "single_pages demo_kapi"
  by (simp add: single_pages_def demo_kapi_def)

lemma demo_never_fails: "never_fails demo_kapi"
  by (simp add: never_fails_def demo_kapi_def)

theorem mmap_read_around_witness:
  "\<exists>rac' ra' c'. do_sync_mmap_readahead demo_kapi demo_fault (demo_rac 5) demo_ra demo_cache = Some (rac', ra', c') \<and>
     pc_pages c' 5 \<and> pc_pages c' 4"
  using mmap_read_around [OF demo_single_pages, of "demo_rac 5" demo_ra demo_fault demo_cache] demo_never_fails
  by (auto simp: demo_kapi_def demo_fault_def demo_rac_def demo_ra_def demo_cache_def MMAP_LOTSAMISS_def)

end
