(* ===== verification/ReadaheadWindows.thy ===== *)
theory ReadaheadWindows
  imports ReadaheadBounds
begin

text \<open>
  How the read-ahead window moves: the sizes chosen by \<open>get_init_ra_size\<close> and
  \<open>get_next_ra_size\<close>, the first window of a sequential read, the next window at the
  read-ahead mark, the forced read-ahead, the miss counter of mapped files, and the searches for
  gaps in the cache.
\<close>

section \<open>Window sizes\<close>

text \<open>
  The first window is at least the request, rounded up to a power of two and enlarged, and
  never more than the maximum.
\<close>

theorem get_init_ra_size_bounds:
  assumes "roundup_spec (k_roundup_pow_of_two k)" and "0 < sz" and "sz \<le> max_pages"
    and "unat max_pages \<le> 2 ^ 63"
  shows "sz \<le> get_init_ra_size k sz max_pages \<and> get_init_ra_size k sz max_pages \<le> max_pages"
  using assms by (rule init_ra_bounds)

theorem get_init_ra_size_bounds_witness:
  "(5 :: u64) \<le> get_init_ra_size demo_kapi 5 32 \<and> get_init_ra_size demo_kapi 5 32 \<le> 32"
  using get_init_ra_size_bounds [of demo_kapi 5 32] roundup_spec_pow2 by (simp add: demo_kapi_def)

text \<open>
  The next window is never smaller than the current one and never more than the maximum; below
  the maximum it is strictly larger, so repeated growth reaches the maximum.
\<close>

theorem get_next_ra_size_grows:
  assumes "unat (fra_size ra) \<le> unat max_pages" and "0 < unat (fra_size ra)"
  shows "unat (fra_size ra) \<le> unat (get_next_ra_size ra max_pages) \<and>
    get_next_ra_size ra max_pages \<le> max_pages \<and>
    (unat (fra_size ra) < unat max_pages \<longrightarrow> unat (fra_size ra) < unat (get_next_ra_size ra max_pages)) \<and>
    min (2 * unat (fra_size ra)) (unat max_pages) \<le> unat (get_next_ra_size ra max_pages)"
proof -
  have le: "ucast (fra_size ra) \<le> max_pages" using assms(1) by (simp add: word_le_nat_alt)
  show ?thesis using next_ra_bounds [OF le] next_ra_doubles [OF le] assms(2) by blast
qed

theorem get_next_ra_size_grows_witness:
  "unat (get_next_ra_size (demo_ra\<lparr>fra_size := 4\<rparr>) 32) \<le> 32 \<and>
   8 \<le> unat (get_next_ra_size (demo_ra\<lparr>fra_size := 4\<rparr>) 32)"
  using get_next_ra_size_grows [of "demo_ra\<lparr>fra_size := 4\<rparr>" 32] by (simp add: word_le_nat_alt)

section \<open>Forced read-ahead\<close>

text \<open>
  Forced read-ahead returns, in chunks of two megabytes. It handles at most
  \<open>max(io_pages, ra_pages)\<close> pages however many are asked for, hands to the file system only
  batches of pages that were not cached, in ascending order and inside the file, and loses no cached page.
\<close>

theorem force_page_cache_ra_bounded:
  assumes "single_pages k" and "unat (k_isize k) < 2 ^ 63" and "k_page_shift k \<le> 21" and "rac_nr_pages rac = 0"
  shows "\<exists>rac' c' hi. force_page_cache_ra k rac ra nr c = Some (rac', c') \<and>
    hi \<le> unat (rac_index rac) + min (unat nr) (max (unat (k_io_pages k)) (unat (fra_ra_pages ra))) \<and>
    ra_effect (unat (rac_index rac)) hi c c' \<and>
    (\<forall>j. unat (rac_index rac) \<le> j \<and> j < hi \<longrightarrow> j * 2 ^ k_page_shift k < unat (k_isize k))"
proof (cases "\<not> k_has_read_folio k \<and> \<not> k_has_readahead k")
  case True
  then show ?thesis using ra_effect_refl
    by (intro exI [of _ rac] exI [of _ c] exI [of _ "unat (rac_index rac)"]) (simp add: force_page_cache_ra_def)
next
  case False
  define m where "m = min nr (max (k_io_pages k) (ucast (fra_ra_pages ra)))"
  have "unat m = min (unat nr) (max (unat (k_io_pages k)) (unat (fra_ra_pages ra)))"
    by (simp add: m_def min_def max_def word_le_nat_alt)
  moreover have "force_page_cache_ra k rac ra nr c = force_loop k rac m c"
    using False by (auto simp: force_page_cache_ra_def m_def Let_def)
  ultimately show ?thesis using force_loop_ends [OF assms, of m c] by auto
qed

theorem force_page_cache_ra_bounded_witness:
  "\<exists>rac' c' hi. force_page_cache_ra demo_kapi (demo_rac 2) demo_ra 1000 demo_cache = Some (rac', c') \<and> hi \<le> 34 \<and>
     ra_effect 2 hi demo_cache c'"
  using force_page_cache_ra_bounded [OF demo_single_pages, of "demo_rac 2" demo_ra 1000 demo_cache]
  by (fastforce simp: demo_kapi_def demo_rac_def demo_ra_def)

section \<open>The first window of a sequential read\<close>

lemma ra_order_small_inside:
  assumes "single_pages k" and "\<not> k_large_folios k" and "unat (k_isize k) < 2 ^ 63"
    and "rac_nr_pages rac = 0" and "fra_size ra \<noteq> 0"
  shows "\<exists>rac' c'. page_cache_ra_order k rac ra c = Some (rac', ra\<lparr>fra_order := 0\<rparr>, c') \<and>
    ra_stays_inside k (rac_index rac) (ucast (fra_size ra)) c rac' c'"
proof -
  have "unat (ucast (fra_size ra) :: u64) < 2 ^ 32" using u32_bound by simp
  from do_page_cache_ra_inside [OF assms(1) this assms(4,3), of "ucast (fra_async_size ra)" c]
  show ?thesis using assms(5) by (auto simp: ra_order_small [OF assms(2)])
qed




section \<open>The next window\<close>

text \<open>What \<open>round_down\<close> promises.\<close>

definition round_down_spec :: "(u64 \<Rightarrow> u64 \<Rightarrow> u64) \<Rightarrow> bool" where
  "round_down_spec f \<longleftrightarrow> (\<forall>x y. f x y \<le> x)"

text \<open>Aligning the end of the window keeps its start and leaves at least one page.\<close>

lemma aligned_size:
  fixes start a :: u64 and sz :: u32
  assumes "a \<le> start + ucast sz" and "unat start + unat sz < 2 ^ 64" and "sz \<noteq> 0"
  defines "sz' \<equiv> if a > start then sz - ucast (start + ucast sz - a) else sz"
  shows "sz' \<noteq> 0 \<and> sz' \<le> sz"
proof (cases "a > start")
  case True
  have e: "unat (start + ucast sz) = unat start + unat sz" using assms(2) unat_plus_64 [of start "ucast sz"] by simp
  have d: "unat (start + ucast sz - a) = unat start + unat sz - unat a" using assms(1) e by (simp add: unat_sub)
  moreover have "unat start < unat a" "unat a \<le> unat start + unat sz"
    using True assms(1) e by (simp_all add: word_less_nat_alt word_le_nat_alt)
  ultimately have lt: "unat (start + ucast sz - a) < unat sz" by linarith
  then have u: "unat (ucast (start + ucast sz - a) :: u32) = unat (start + ucast sz - a)"
    using u32_bound [of sz] by (intro unat_ucast_64_32) linarith
  then have "unat sz' = unat sz - unat (start + ucast sz - a)"
    using True lt by (simp add: sz'_def unat_sub word_le_nat_alt)
  then have "0 < unat sz'" "unat sz' \<le> unat sz" using lt by simp_all
  then show ?thesis by (auto simp: word_le_nat_alt)
qed (simp add: sz'_def assms(3))

text \<open>
  C32: A read that meets the read-ahead mark moves the window on: the next window starts where the
  current one ends, is not empty and not longer than the maximum, all of it counts as asynchronous,
  and only pages of the new window that are inside the file and were not cached are read.
\<close>

theorem page_cache_async_ra_advances:
  assumes "single_pages k" and "\<not> k_large_folios k" and "unat (k_isize k) < 2 ^ 63"
    and "round_down_spec (k_round_down k)" and "rac_nr_pages rac = 0" and "\<not> k_congested k (pc_env c)"
    and "fra_ra_pages ra \<noteq> 0" and "fra_size ra \<noteq> 0" and "unat (fra_size ra) \<le> unat (ractl_max_pages k ra req)"
    and "unat (ractl_max_pages k ra req) < 2 ^ 32" and "unat (fra_start ra) < 2 ^ 63"
    and "rac_index rac = k_round_down k (fra_start ra + ucast (fra_size ra) - ucast (fra_async_size ra)) nr"
  shows "\<exists>rac' ra' c'. page_cache_async_ra k rac ra nr False req c = Some (rac', ra', c') \<and>
    fra_start ra' = fra_start ra + ucast (fra_size ra) \<and> 0 < fra_size ra' \<and>
    unat (fra_size ra') \<le> unat (ractl_max_pages k ra req) \<and> fra_async_size ra' = fra_size ra' \<and>
    ra_effect (unat (fra_start ra')) (unat (rac_index rac')) c c' \<and>
    unat (rac_index rac') \<le> unat (fra_start ra') + unat (fra_size ra') \<and>
    (\<forall>j. unat (fra_start ra') \<le> j \<and> j < unat (rac_index rac') \<longrightarrow> j * 2 ^ k_page_shift k < unat (k_isize k))"
proof -
  let ?max = "ractl_max_pages k ra req" and ?st = "fra_start ra + ucast (fra_size ra)"
  define c1 where "c1 = c\<lparr>pc_marks := (pc_marks c)(rac_index rac := False)\<rparr>"
  define n where "n = (ucast (max (ucast (fra_size ra)) (get_next_ra_size ra ?max)) :: u32)"
  have le: "ucast (fra_size ra) \<le> ?max" using assms(9) by (simp add: word_le_nat_alt)
  have "max (ucast (fra_size ra)) (get_next_ra_size ra ?max) = get_next_ra_size ra ?max"
    using next_ra_bounds(1) [OF le] by (simp add: max_def word_le_nat_alt)
  moreover have "unat (get_next_ra_size ra ?max) \<le> unat ?max"
    using next_ra_bounds(2) [OF le] by (simp add: word_le_nat_alt)
  ultimately have n: "unat n = unat (get_next_ra_size ra ?max)" "unat n \<le> unat ?max"
    using assms(10) unat_ucast_64_32 [of "get_next_ra_size ra ?max"] by (auto simp: n_def)
  have "0 < unat (fra_size ra)" using assms(8) by (simp add: unat_gt_0)
  then have n0: "n \<noteq> 0" using n(1) next_ra_bounds(1) [OF le] by auto
  have st: "unat ?st = unat (fra_start ra) + unat (fra_size ra)"
    using assms(11) u32_bound [of "fra_size ra"] unat_plus_64 [of "fra_start ra" "ucast (fra_size ra)"] by simp
  have top: "unat ?st + unat n < 2 ^ 64" using st assms(11) u32_bound [of n] u32_bound [of "fra_size ra"] by simp
  define al where "al = k_round_down k (?st + ucast n) (nr_pages (min (fra_order ra + 2) (k_ffs k ?max - 1)))"
  define sz where "sz = (if al > ?st then n - ucast (?st + ucast n - al) else n)"
  have "al \<le> ?st + ucast n" using assms(4) by (simp add: al_def round_down_spec_def)
  from aligned_size [OF this top n0] have sz: "sz \<noteq> 0" "unat sz \<le> unat n" by (auto simp: sz_def word_le_nat_alt)
  define ra1 where "ra1 = ra\<lparr>fra_start := ?st, fra_order := fra_order ra + 2, fra_size := sz, fra_async_size := sz\<rparr>"
  have call: "page_cache_async_ra k rac ra nr False req c = page_cache_ra_order k (rac\<lparr>rac_index := ?st\<rparr>) ra1 c1"
    using assms(6,7,12)
    by (simp add: page_cache_async_ra_def async_readit_def Let_def c1_def ra1_def sz_def al_def n_def)
  obtain rac' c' where r: "page_cache_ra_order k (rac\<lparr>rac_index := ?st\<rparr>) ra1 c1 = Some (rac', ra1\<lparr>fra_order := 0\<rparr>, c')"
    and ins: "ra_stays_inside k ?st (ucast sz) c1 rac' c'"
    using ra_order_small_inside [OF assms(1-3), of "rac\<lparr>rac_index := ?st\<rparr>" ra1 c1] assms(5) sz(1) by (auto simp: ra1_def)
  have "ra_effect (unat ?st) (unat (rac_index rac')) c c'"
    using ins by (simp add: ra_stays_inside_def ra_effect_def batches_ok_def c1_def)
  moreover have "unat sz \<le> unat ?max" "0 < sz" using sz n by (auto simp: word_greater_zero_iff)
  ultimately show ?thesis
    using call r ins by (auto simp: ra1_def ra_stays_inside_def)
qed

theorem page_cache_async_ra_advances_witness:
  "\<exists>rac' ra' c'. page_cache_async_ra demo_kapi (demo_rac 2) (demo_ra\<lparr>fra_size := 4, fra_async_size := 2\<rparr>) 1 False 4
       demo_cache = Some (rac', ra', c') \<and> fra_start ra' = 4 \<and> 0 < fra_size ra' \<and> unat (fra_size ra') \<le> 8"
  using page_cache_async_ra_advances [OF demo_single_pages, of "demo_rac 2" demo_cache
      "demo_ra\<lparr>fra_size := 4, fra_async_size := 2\<rparr>" 4 1]
  by (fastforce simp: demo_kapi_def demo_rac_def demo_ra_def demo_cache_def round_down_spec_def
      word_div_mult_le ractl_max_pages_def)

section \<open>The miss counter of a mapped file\<close>

lemma ra_order_keeps_miss:
  "page_cache_ra_order k rac ra c = Some (rac', ra', c') \<Longrightarrow>
   fra_mmap_miss ra' = fra_mmap_miss ra \<and> fra_ra_pages ra' = fra_ra_pages ra"
  by (auto simp: page_cache_ra_order_def ra_order_fallback_def Let_def split: option.splits prod.splits if_splits)

lemma sync_ra_keeps_miss:
  "page_cache_sync_ra k rac ra req c = Some (rac', ra', c') \<Longrightarrow> fra_mmap_miss ra' = fra_mmap_miss ra"
  by (auto simp: page_cache_sync_ra_def Let_def split: option.splits if_splits dest!: ra_order_keeps_miss)

lemma async_ra_keeps_miss:
  "page_cache_async_ra k rac ra nr wb req c = Some (rac', ra', c') \<Longrightarrow> fra_mmap_miss ra' = fra_mmap_miss ra"
  by (auto simp: page_cache_async_ra_def async_readit_def Let_def split: if_splits dest!: ra_order_keeps_miss)

lemma count_miss_unat:
  "unat (fra_mmap_miss (count_miss ra)) =
     (if unat (fra_mmap_miss ra) < 1000 then Suc (unat (fra_mmap_miss ra)) else unat (fra_mmap_miss ra))"
proof -
  have "unat (fra_mmap_miss ra + 1) = Suc (unat (fra_mmap_miss ra))" if "fra_mmap_miss ra < 1000"
    using that by (rule unat_Suc_less)
  then show ?thesis by (auto simp: count_miss_def MMAP_LOTSAMISS_def word_less_nat_alt)
qed

text \<open>
  The miss counter. A fault that finds no page raises the counter by at most one and never past
  1000, so its sixteen bits do not wrap; without huge pages or sequential advice it reads nothing once
  the counter has passed 100. A fault that finds the page lowers the counter by at most one and not below zero.
\<close>

theorem mmap_miss_counter:
  assumes "unat (fra_mmap_miss ra) \<le> 1000"
  shows "(do_sync_mmap_readahead k vmf rac ra c = Some (rac', ra', c') \<longrightarrow>
      unat (fra_mmap_miss ra) \<le> unat (fra_mmap_miss ra') \<and>
      unat (fra_mmap_miss ra') \<le> min 1000 (Suc (unat (fra_mmap_miss ra))) \<and>
      (100 \<le> unat (fra_mmap_miss ra) \<and> \<not> vm_seq_read vmf \<longrightarrow> c' = c \<and> rac' = rac)) \<and>
    (do_async_mmap_readahead k vmf rac ra locked marked nr wb c = Some (rac', ra', c') \<longrightarrow>
      unat (fra_mmap_miss ra') \<le> unat (fra_mmap_miss ra) \<and>
      unat (fra_mmap_miss ra) \<le> Suc (unat (fra_mmap_miss ra')))"
proof (intro conjI [of "_ \<longrightarrow> _" "_ \<longrightarrow> _"] impI)
  assume r: "do_sync_mmap_readahead k vmf rac ra c = Some (rac', ra', c')"
  have cm: "unat (fra_mmap_miss ra) \<le> unat (fra_mmap_miss (count_miss ra))"
    "unat (fra_mmap_miss (count_miss ra)) \<le> min 1000 (Suc (unat (fra_mmap_miss ra)))"
    using assms count_miss_unat [of ra] by auto
  have "fra_mmap_miss ra' \<in> {fra_mmap_miss ra, fra_mmap_miss (count_miss ra)}"
    using r by (auto simp: do_sync_mmap_readahead_def Let_def exec_window_def read_around_window_def
        split: if_splits dest!: sync_ra_keeps_miss ra_order_keeps_miss)
  moreover have "c' = c \<and> rac' = rac" if "100 \<le> unat (fra_mmap_miss ra)" "\<not> vm_seq_read vmf"
  proof -
    have "100 < unat (fra_mmap_miss (count_miss ra))" using that(1) count_miss_unat [of ra] by simp
    then have "fra_mmap_miss (count_miss ra) > MMAP_LOTSAMISS" by (simp add: MMAP_LOTSAMISS_def word_less_nat_alt)
    then show ?thesis using r that(2) by (auto simp: do_sync_mmap_readahead_def Let_def split: if_splits)
  qed
  ultimately show "unat (fra_mmap_miss ra) \<le> unat (fra_mmap_miss ra') \<and>
      unat (fra_mmap_miss ra') \<le> min 1000 (Suc (unat (fra_mmap_miss ra))) \<and>
      (100 \<le> unat (fra_mmap_miss ra) \<and> \<not> vm_seq_read vmf \<longrightarrow> c' = c \<and> rac' = rac)"
    using cm assms by auto
next
  assume r: "do_async_mmap_readahead k vmf rac ra locked marked nr wb c = Some (rac', ra', c')"
  have "unat (fra_mmap_miss ra - 1) = unat (fra_mmap_miss ra) - 1" if "fra_mmap_miss ra \<noteq> 0"
    using that by (simp add: unat_minus_one)
  then show "unat (fra_mmap_miss ra') \<le> unat (fra_mmap_miss ra) \<and>
      unat (fra_mmap_miss ra) \<le> Suc (unat (fra_mmap_miss ra'))"
    using r by (auto simp: do_async_mmap_readahead_def Let_def split: if_splits dest!: async_ra_keeps_miss)
qed

theorem mmap_miss_counter_witness:
  "do_sync_mmap_readahead demo_kapi demo_fault (demo_rac 5) (demo_ra\<lparr>fra_mmap_miss := 100\<rparr>) demo_cache =
     Some (demo_rac 5, count_miss (demo_ra\<lparr>fra_mmap_miss := 100\<rparr>), demo_cache) \<and>
   unat (fra_mmap_miss (count_miss (demo_ra\<lparr>fra_mmap_miss := 100\<rparr>))) \<le> 101"
proof -
  have r: "do_sync_mmap_readahead demo_kapi demo_fault (demo_rac 5) (demo_ra\<lparr>fra_mmap_miss := 100\<rparr>) demo_cache =
     Some (demo_rac 5, count_miss (demo_ra\<lparr>fra_mmap_miss := 100\<rparr>), demo_cache)"
    by (simp add: do_sync_mmap_readahead_def demo_fault_def demo_ra_def count_miss_def MMAP_LOTSAMISS_def)
  then show ?thesis
    using mmap_miss_counter [of "demo_ra\<lparr>fra_mmap_miss := 100\<rparr>" demo_kapi demo_fault "demo_rac 5" demo_cache
        "demo_rac 5" "count_miss (demo_ra\<lparr>fra_mmap_miss := 100\<rparr>)" demo_cache] by simp
qed

section \<open>Gaps\<close>

text \<open>
  The search for the next gap: it returns the first index in the range that holds no page, with
  every index before it cached, or, when the whole range is cached, the index behind the range.
\<close>

theorem page_cache_next_miss_first:
  assumes "index \<noteq> 0" and "unat index + unat max_scan < 2 ^ 64"
  shows "let r = page_cache_next_miss pages index max_scan in unat index \<le> unat r \<and> unat r \<le> unat index + unat max_scan \<and>
    (\<forall>j. unat index \<le> unat j \<and> unat j < unat r \<longrightarrow> pages j) \<and>
    (unat r < unat index + unat max_scan \<longrightarrow> \<not> pages r)"
proof -
  have le: "unat index + unat max_scan \<le> 2 ^ 64" using assms(2) by simp
  have u: "unat (index + max_scan) = unat index + unat max_scan" using assms(2) by (rule unat_plus_64)
  have shift: "j = index + of_nat (unat j - unat index)" if "unat index \<le> unat j" for j
    using that by (simp add: of_nat_diff)
  show ?thesis
  proof (cases "next_miss_loop pages (unat max_scan) index")
    case None
    with next_miss_loop_spec [OF le assms(1), of pages]
    have all: "\<And>j. j < unat max_scan \<Longrightarrow> pages (index + of_nat j)" by auto
    have "pages j" if "unat index \<le> unat j" "unat j < unat index + unat max_scan" for j
      using that all [of "unat j - unat index"] shift [OF that(1)] by simp
    with None u show ?thesis by (simp add: Let_def page_cache_next_miss_def)
  next
    case (Some m)
    with next_miss_loop_spec [OF le assms(1), of pages]
    have m: "\<not> pages m" "unat index \<le> unat m" "unat m < unat index + unat max_scan"
      "\<And>j. unat index + j < unat m \<Longrightarrow> pages (index + of_nat j)" by auto
    have "pages j" if "unat index \<le> unat j" "unat j < unat m" for j
      using that m(4) [of "unat j - unat index"] shift [OF that(1)] by simp
    with Some m show ?thesis by (simp add: Let_def page_cache_next_miss_def)
  qed
qed

theorem page_cache_next_miss_first_witness:
  "unat (page_cache_next_miss (\<lambda>j. j < 7) 3 8) \<le> 11 \<and> 3 \<le> unat (page_cache_next_miss (\<lambda>j. j < 7) 3 8)"
  using page_cache_next_miss_first [of 3 8 "\<lambda>j. j < 7"] by (simp add: Let_def)

text \<open>
  The search for the previous gap when there is none: the function's comment promises an index
  outside the range, with \<open>index - return >= max_scan\<close>; the code returns the lowest index of the
  range, which is cached, with \<open>index - return = max_scan - 1\<close>.
\<close>

theorem page_cache_prev_miss_full:
  assumes "0 < max_scan" and "max_scan \<le> index" and "\<forall>j. index - j < max_scan \<longrightarrow> pages j"
    and "index \<noteq> ULONG_MAX"
  shows "index - page_cache_prev_miss pages index max_scan = max_scan - 1 \<and>
    pages (page_cache_prev_miss pages index max_scan)"
proof -
  have "pages (index - of_nat j)" if "j < unat max_scan" for j
    using assms(3) that size_t_bound [of max_scan] by (simp add: word_less_nat_alt unat_of_nat)
  then have "prev_miss_loop pages (unat max_scan) index index = index - of_nat (unat max_scan - 1)"
    using assms by (intro prev_miss_loop_full) (auto simp: word_le_nat_alt word_less_nat_alt)
  moreover have "(of_nat (unat max_scan - 1) :: u64) = max_scan - 1"
    using assms(1) by (simp add: of_nat_diff word_less_nat_alt)
  moreover have "max_scan - 1 < max_scan" using assms(1) by (simp add: word_less_nat_alt unat_minus_one word_neq_0_conv)
  ultimately show ?thesis using assms(3) by (simp add: page_cache_prev_miss_def)
qed

theorem page_cache_prev_miss_full_witness:
  "9 - page_cache_prev_miss (\<lambda>j. True) 9 4 = (3 :: u64)"
  using page_cache_prev_miss_full [of 4 9 "\<lambda>j. True"] by (simp add: ULONG_MAX_def)

end
