(* ===== verification/BlockBio.thy ===== *)
theory BlockBio
  imports Prelude
begin

text \<open>
  Block I/O descriptors (\<open>readaround-split/src/block/bio.c\<close>): initialisation, cloning,
  splitting and trimming, adding pages, truncation at the end of the device, and the chaining of
  completions. Descriptors live in a store from addresses to records, because a chained descriptor
  points to its parent and is freed when it completes. Operation flags are a set; what the sources
  take from headers (\<open>bio_sectors\<close>, \<open>bio_advance\<close>, \<open>bio_inc_remaining\<close>, the
  allocator, \<open>page_to_phys\<close>) is the record \<open>bapi\<close> of functions. A \<open>BUG()\<close> or an
  access to a freed descriptor is the value \<open>None\<close>; warnings, traces, cgroup, integrity and
  encryption contexts are left out.
\<close>

unbundle bit_operations_syntax

section \<open>Descriptors\<close>

datatype req_op =
  REQ_OP_READ | REQ_OP_WRITE | REQ_OP_FLUSH | REQ_OP_DISCARD | REQ_OP_SECURE_ERASE
| REQ_OP_WRITE_ZEROES | REQ_OP_ZONE_APPEND | REQ_OP_OTHER

datatype req_flag =
  REQ_FAILFAST_DEV | REQ_FAILFAST_TRANSPORT | REQ_FAILFAST_DRIVER
| REQ_SYNC | REQ_NOMERGE | REQ_RAHEAD | REQ_NOWAIT | REQ_POLLED | REQ_ATOMIC | REQ_ALLOC_CACHE

datatype bio_flag = BIO_CLONED | BIO_CHAIN | BIO_REFFED | BIO_REMAPPED | BIO_TRACE_COMPLETION | BIO_QUIET

datatype end_io = No_end_io | Chain_end_io | Driver_end_io nat

record bio_vec =
  bv_page :: nat
  bv_len :: u32
  bv_offset :: u32

record bvec_iter =
  it_sector :: u64
  it_size :: u32
  it_idx :: u32
  it_done :: u32

record bio =
  bi_op :: req_op
  bi_opf :: "req_flag set"
  bi_flags :: "bio_flag set"
  bi_ioprio :: u16
  bi_write_hint :: u8
  bi_write_stream :: u8
  bi_status :: u8
  bi_gap_bit :: u8
  bi_iter :: bvec_iter
  bi_end_io :: end_io
  bi_private :: "nat option"
  bi_vcnt :: u16
  bi_max_vecs :: u16
  bi_remaining :: int
  bi_cnt :: int
  bi_io_vec :: "bio_vec list"

abbreviation bi_sector :: "bio \<Rightarrow> u64" where "bi_sector b \<equiv> it_sector (bi_iter b)"
abbreviation bi_size :: "bio \<Rightarrow> u32" where "bi_size b \<equiv> it_size (bi_iter b)"

text \<open>What the code takes from headers and from the rest of the kernel.\<close>

record bapi =
  b_sectors :: "bio \<Rightarrow> u32"
  b_advance :: "bio \<Rightarrow> u32 \<Rightarrow> bio"
  b_inc_remaining :: "bio \<Rightarrow> bio"
  b_max_size :: u32
  b_max_sectors :: u64
  b_alloc_ok :: "nat \<Rightarrow> bool"
  b_clone_ok :: "bio \<Rightarrow> bool"
  b_integrity_endio :: "bio \<Rightarrow> bool"
  b_page_to_phys :: "nat \<Rightarrow> u64"
  b_page_mask :: u64
  b_page_size :: u64
  b_pages_compatible :: "nat \<Rightarrow> nat \<Rightarrow> bool"
  b_same_pgmap :: "nat \<Rightarrow> nat \<Rightarrow> bool"
  b_p2pdma :: "nat \<Rightarrow> bool"
  b_xen_mergeable :: "bio_vec \<Rightarrow> nat \<Rightarrow> bool"
  b_kmsan :: bool

record blk =
  bk_bios :: "nat \<Rightarrow> bio option"
  bk_next :: nat
  bk_submitted :: "nat list"
  bk_ended :: "nat list"

definition put_bio :: "nat \<Rightarrow> bio \<Rightarrow> blk \<Rightarrow> blk" where
  "put_bio a b s = s\<lparr>bk_bios := (bk_bios s)(a \<mapsto> b)\<rparr>"

definition E_INVAL :: int where "E_INVAL = 22"
definition E_NOMEM :: int where "E_NOMEM = 12"
definition E_AGAIN :: int where "E_AGAIN = 11"

section \<open>Initialisation and cloning\<close>

definition bio_init :: "bio_vec list \<Rightarrow> u16 \<Rightarrow> req_op \<Rightarrow> req_flag set \<Rightarrow> bio" where
  "bio_init table max_vecs op opf =
     \<lparr>bi_op = op, bi_opf = opf, bi_flags = {}, bi_ioprio = 0, bi_write_hint = 0, bi_write_stream = 0,
      bi_status = 0, bi_gap_bit = 0, bi_iter = \<lparr>it_sector = 0, it_size = 0, it_idx = 0, it_done = 0\<rparr>,
      bi_end_io = No_end_io, bi_private = None, bi_vcnt = 0, bi_max_vecs = max_vecs,
      bi_remaining = 1, bi_cnt = 1, bi_io_vec = table\<rparr>"

text \<open>
  \<open>memset(bio, 0, BIO_RESET_BYTES)\<close> clears everything up to the fields that
  \<open>bio_alloc_bioset\<close> sets: the capacity, the reference count and the vector table stay.
\<close>

definition bio_reset :: "bio \<Rightarrow> req_op \<Rightarrow> req_flag set \<Rightarrow> bio" where
  "bio_reset b op opf =
     (bio_init (bi_io_vec b) (bi_max_vecs b) op opf)\<lparr>bi_cnt := bi_cnt b\<rparr>"

definition bio_reuse :: "bio \<Rightarrow> req_op \<Rightarrow> req_flag set \<Rightarrow> bio" where
  "bio_reuse b op opf =
     (let b1 = bio_reset b op opf;
          sz = foldl (\<lambda>acc v. acc + bv_len v) 0 (take (unat (bi_vcnt b)) (bi_io_vec b))
      in b1\<lparr>bi_iter := (bi_iter b1)\<lparr>it_size := sz\<rparr>, bi_vcnt := bi_vcnt b,
            bi_private := bi_private b, bi_end_io := bi_end_io b\<rparr>)"

definition bio_clone_fields :: "bio \<Rightarrow> bio \<Rightarrow> bio" where
  "bio_clone_fields b src =
     b\<lparr>bi_flags := insert BIO_CLONED (bi_flags b \<union> (bi_flags src \<inter> {BIO_REMAPPED})),
       bi_ioprio := bi_ioprio src, bi_write_hint := bi_write_hint src,
       bi_write_stream := bi_write_stream src, bi_iter := bi_iter src\<rparr>"

text \<open>The clone gets the next address; a failed allocation uses it up as well.\<close>

definition bio_alloc_clone :: "bapi \<Rightarrow> bio \<Rightarrow> blk \<Rightarrow> nat option \<times> blk" where
  "bio_alloc_clone api src s =
     (let a = bk_next s; s1 = s\<lparr>bk_next := Suc a\<rparr> in
      if \<not> b_alloc_ok api a then (None, s1)
      else if \<not> b_clone_ok api src then (None, s1)
      else (Some a, put_bio a ((bio_clone_fields (bio_init [] 0 (bi_op src) (bi_opf src)) src)
                                 \<lparr>bi_io_vec := bi_io_vec src\<rparr>) s1))"

section \<open>Splitting and trimming\<close>

definition bio_split :: "bapi \<Rightarrow> nat \<Rightarrow> int \<Rightarrow> blk \<Rightarrow> ((int + nat) \<times> blk) option" where
  "bio_split api a sectors s =
     (case bk_bios s a of
        None \<Rightarrow> None
      | Some b \<Rightarrow>
          if sectors \<le> 0 then Some (Inl (- E_INVAL), s)
          else if sectors \<ge> uint (b_sectors api b) then Some (Inl (- E_INVAL), s)
          else if bi_op b = REQ_OP_ZONE_APPEND then Some (Inl (- E_INVAL), s)
          else if REQ_ATOMIC \<in> bi_opf b then Some (Inl (- E_INVAL), s)
          else (case bio_alloc_clone api b s of
                  (None, s1) \<Rightarrow> Some (Inl (- E_NOMEM), s1)
                | (Some c, s1) \<Rightarrow>
                    (case bk_bios s1 c of
                       None \<Rightarrow> None
                     | Some sp \<Rightarrow>
                         let n = push_bit 9 (word_of_int sectors :: u32);
                             sp1 = sp\<lparr>bi_iter := (bi_iter sp)\<lparr>it_size := n\<rparr>\<rparr>;
                             b1 = b_advance api b n;
                             sp2 = sp1\<lparr>bi_flags := bi_flags sp1 \<union> (bi_flags b1 \<inter> {BIO_TRACE_COMPLETION})\<rparr>
                         in Some (Inr c, put_bio a b1 (put_bio c sp2 s1)))))"

definition bio_trim :: "bapi \<Rightarrow> bio \<Rightarrow> u64 \<Rightarrow> u64 \<Rightarrow> bio" where
  "bio_trim api b offset sz =
     (if REQ_ATOMIC \<in> bi_opf b \<and> sz \<noteq> 0 then b
      else if offset > b_max_sectors api \<or> sz > b_max_sectors api \<or> offset + sz > ucast (b_sectors api b) then b
      else let bytes = push_bit 9 sz in
        if offset = 0 \<and> bytes = ucast (bi_size b) then b
        else let b1 = b_advance api b (ucast (push_bit 9 offset))
             in b1\<lparr>bi_iter := (bi_iter b1)\<lparr>it_size := ucast bytes\<rparr>\<rparr>)"

section \<open>Adding pages\<close>

definition bio_full :: "bapi \<Rightarrow> bio \<Rightarrow> u32 \<Rightarrow> bool" where
  "bio_full api b len \<longleftrightarrow> bi_vcnt b \<ge> bi_max_vecs b \<or> bi_size b > b_max_size api - len"

definition bvec_try_merge_page :: "bapi \<Rightarrow> bio_vec \<Rightarrow> nat \<Rightarrow> u32 \<Rightarrow> u32 \<Rightarrow> bio_vec option" where
  "bvec_try_merge_page api bv page len off =
     (let bv_end = ucast (bv_offset bv + bv_len bv) :: u64;
          vec_end_addr = b_page_to_phys api (bv_page bv) + bv_end - 1;
          page_addr = b_page_to_phys api page
      in if vec_end_addr + 1 \<noteq> page_addr + ucast off then None
         else if \<not> b_xen_mergeable api bv page then None
         else if vec_end_addr AND b_page_mask api \<noteq> (page_addr + ucast off) AND b_page_mask api \<and>
                 (b_kmsan api \<or> bv_page bv + unat (bv_end div b_page_size api) \<noteq>
                                page + unat (ucast off div b_page_size api)) then None
         else Some (bv\<lparr>bv_len := bv_len bv + len\<rparr>))"

text \<open>
  Storing at \<open>bi_io_vec[bi_vcnt]\<close>: the table has \<open>bi_max_vecs\<close> entries, so a store behind
  it is outside the table.
\<close>

definition bio_add_page_raw :: "bapi \<Rightarrow> bio \<Rightarrow> nat \<Rightarrow> u32 \<Rightarrow> u32 \<Rightarrow> bio option" where
  "bio_add_page_raw api b page len off =
     (let i = unat (bi_vcnt b) in
      if i < length (bi_io_vec b)
      then Some (b\<lparr>bi_opf := (if b_p2pdma api page then insert REQ_NOMERGE (bi_opf b) else bi_opf b),
                   bi_io_vec := (bi_io_vec b)[i := \<lparr>bv_page = page, bv_len = len, bv_offset = off\<rparr>],
                   bi_iter := (bi_iter b)\<lparr>it_size := bi_size b + len\<rparr>,
                   bi_vcnt := bi_vcnt b + 1\<rparr>)
      else None)"

definition bio_add_page :: "bapi \<Rightarrow> bio \<Rightarrow> nat \<Rightarrow> u32 \<Rightarrow> u32 \<Rightarrow> (u32 \<times> bio) option" where
  "bio_add_page api b page len off =
     (if BIO_CLONED \<in> bi_flags b then Some (0, b)
      else if len = 0 then Some (0, b)
      else if bi_size b > b_max_size api - len then Some (0, b)
      else let i = unat (bi_vcnt b) - 1;
               append = (if bi_vcnt b \<ge> bi_max_vecs b then Some (0, b)
                         else map_option (\<lambda>b'. (len, b')) (bio_add_page_raw api b page len off))
           in if bi_vcnt b = 0 then append
              else if i \<ge> length (bi_io_vec b) then None
              else let bv = bi_io_vec b ! i in
                if \<not> b_pages_compatible api (bv_page bv) page then Some (0, b)
                else if b_same_pgmap api (bv_page bv) page
                then (case bvec_try_merge_page api bv page len off of
                        Some bv' \<Rightarrow> Some (len, b\<lparr>bi_io_vec := (bi_io_vec b)[i := bv'],
                                                bi_iter := (bi_iter b)\<lparr>it_size := bi_size b + len\<rparr>\<rparr>)
                      | None \<Rightarrow> append)
                else append)"

section \<open>The end of the device\<close>

text \<open>
  Only the size changes; zeroing the truncated part of the pages of a read is outside the model.
\<close>

definition bio_truncate :: "bio \<Rightarrow> u32 \<Rightarrow> bio" where
  "bio_truncate b new_size =
     (if new_size \<ge> bi_size b then b else b\<lparr>bi_iter := (bi_iter b)\<lparr>it_size := new_size\<rparr>\<rparr>)"

definition guard_bio_eod :: "u64 \<Rightarrow> bio \<Rightarrow> bio" where
  "guard_bio_eod maxsector b =
     (if maxsector = 0 then b
      else if bi_sector b \<ge> maxsector then b
      else let rest = maxsector - bi_sector b in
        if ucast (drop_bit 9 (bi_size b)) \<le> rest then b
        else bio_truncate b (ucast (push_bit 9 rest)))"

section \<open>Completion\<close>

definition bio_put :: "nat \<Rightarrow> blk \<Rightarrow> blk option" where
  "bio_put a s =
     (case bk_bios s a of
        None \<Rightarrow> None
      | Some b \<Rightarrow>
          if BIO_REFFED \<in> bi_flags b
          then (if bi_cnt b = 0 then None
                else if bi_cnt b - 1 \<noteq> 0 then Some (put_bio a (b\<lparr>bi_cnt := bi_cnt b - 1\<rparr>) s)
                else Some (s\<lparr>bk_bios := (bk_bios s)(a := None)\<rparr>))
          else Some (s\<lparr>bk_bios := (bk_bios s)(a := None)\<rparr>))"

definition bio_chain :: "bapi \<Rightarrow> nat \<Rightarrow> nat \<Rightarrow> blk \<Rightarrow> blk option" where
  "bio_chain api a parent s =
     (case bk_bios s a of
        None \<Rightarrow> None
      | Some b \<Rightarrow>
          if bi_private b \<noteq> None \<or> bi_end_io b \<noteq> No_end_io then None
          else let s1 = put_bio a (b\<lparr>bi_private := Some parent, bi_end_io := Chain_end_io\<rparr>) s in
            (case bk_bios s1 parent of
               None \<Rightarrow> None
             | Some p \<Rightarrow> Some (put_bio parent (b_inc_remaining api p) s1)))"

definition bio_chain_and_submit :: "bapi \<Rightarrow> nat option \<Rightarrow> nat \<Rightarrow> blk \<Rightarrow> (nat \<times> blk) option" where
  "bio_chain_and_submit api prev new s =
     (case prev of
        None \<Rightarrow> Some (new, s)
      | Some a \<Rightarrow> map_option (\<lambda>s1. (new, s1\<lparr>bk_submitted := bk_submitted s1 @ [a]\<rparr>)) (bio_chain api a new s))"

text \<open>Returns whether the descriptor is done; a counter that is not positive is a \<open>BUG_ON\<close>.\<close>

definition bio_remaining_done :: "bio \<Rightarrow> (bool \<times> bio) option" where
  "bio_remaining_done b =
     (if BIO_CHAIN \<notin> bi_flags b then Some (True, b)
      else if bi_remaining b \<le> 0 then None
      else let b1 = b\<lparr>bi_remaining := bi_remaining b - 1\<rparr> in
        if bi_remaining b1 = 0 then Some (True, b1\<lparr>bi_flags := bi_flags b1 - {BIO_CHAIN}\<rparr>)
        else Some (False, b1))"

definition chain_endio :: "nat \<Rightarrow> blk \<Rightarrow> (nat \<times> blk) option" where
  "chain_endio a s =
     (case bk_bios s a of
        None \<Rightarrow> None
      | Some b \<Rightarrow>
          (case bi_private b of
             None \<Rightarrow> None
           | Some p \<Rightarrow>
               (case bk_bios s p of
                  None \<Rightarrow> None
                | Some pb \<Rightarrow>
                    let s1 = (if bi_status b \<noteq> 0 \<and> bi_status pb = 0
                              then put_bio p (pb\<lparr>bi_status := bi_status b\<rparr>) s else s)
                    in map_option (\<lambda>s2. (p, s2)) (bio_put a s1))))"

partial_function (option) bio_endio :: "bapi \<Rightarrow> nat \<Rightarrow> blk \<Rightarrow> blk option" where
  "bio_endio api a s =
     (case bk_bios s a of
        None \<Rightarrow> None
      | Some b \<Rightarrow>
          (case bio_remaining_done b of
             None \<Rightarrow> None
           | Some db \<Rightarrow>
               let s1 = put_bio a (snd db) s in
               if \<not> fst db then Some s1
               else if \<not> b_integrity_endio api (snd db) then Some s1
               else let b2 = (snd db)\<lparr>bi_flags := bi_flags (snd db) - {BIO_TRACE_COMPLETION}\<rparr>;
                        s2 = put_bio a b2 s1
                    in if bi_end_io b2 = Chain_end_io
                       then (case chain_endio a s2 of None \<Rightarrow> None | Some ps \<Rightarrow> bio_endio api (fst ps) (snd ps))
                       else Some (if bi_end_io b2 = No_end_io then s2
                                  else s2\<lparr>bk_ended := bk_ended s2 @ [a]\<rparr>)))"

end
