(* ===== verification/BioLaws.thy ===== *)
theory BioLaws
  imports BlockBio
begin

text \<open>
  Laws of the descriptors of theory \<open>BlockBio\<close>: splitting partitions the sectors, adding
  pages keeps the vector table and the size consistent, truncation keeps a descriptor inside the
  device, and a parent completes exactly once, when it and all descriptors chained to it have
  ended, whatever the order.
\<close>

section \<open>What the headers promise\<close>

text \<open>
  \<open>bio_sectors\<close> is the size in units of 512 bytes; \<open>bio_advance\<close> moves the start forward
  and shrinks the size and leaves everything but the iterator alone; \<open>bio_inc_remaining\<close>
  flags the parent as chained and counts one more completion.
\<close>

definition api_ok :: "bapi \<Rightarrow> bool" where
  "api_ok api \<longleftrightarrow>
     (\<forall>b. b_sectors api b = drop_bit 9 (bi_size b)) \<and>
     (\<forall>b n. n \<le> bi_size b \<longrightarrow> (\<exists>i d. b_advance api b n =
        b\<lparr>bi_iter := \<lparr>it_sector = bi_sector b + ucast (drop_bit 9 n), it_size = bi_size b - n,
                     it_idx = i, it_done = d\<rparr>\<rparr>)) \<and>
     (\<forall>b. b_inc_remaining api b =
        b\<lparr>bi_flags := insert BIO_CHAIN (bi_flags b), bi_remaining := bi_remaining b + 1\<rparr>)"

lemma drop_bit_9_unat: "unat (drop_bit 9 (n :: u32)) = unat n div 512"
proof -
  have "unat (drop_bit 9 n) = drop_bit 9 (unat n)" by (simp only: unat_drop_bit_eq)
  then show ?thesis by (simp add: drop_bit_eq_div)
qed

lemma push_bit_9_unat: "unat (n :: u32) * 512 < 2 ^ 32 \<Longrightarrow> unat (push_bit 9 n) = unat n * 512"
  by (simp only: unsigned_push_bit_eq) (simp add: push_bit_eq_mult take_bit_nat_eq_self)

section \<open>Splitting\<close>

lemma split_ok:
  assumes "api_ok api" and "bk_bios s a = Some b" and "a < bk_next s"
    and "0 < n" and "n < uint (b_sectors api b)" and "bi_op b \<noteq> REQ_OP_ZONE_APPEND" and "REQ_ATOMIC \<notin> bi_opf b"
    and "b_alloc_ok api (bk_next s)" and "b_clone_ok api b"
  shows "\<exists>f r s'. bio_split api a n s = Some (Inr (bk_next s), s') \<and>
    bk_bios s' (bk_next s) = Some f \<and> bk_bios s' a = Some r \<and>
    (\<forall>x. x \<noteq> a \<and> x \<noteq> bk_next s \<longrightarrow> bk_bios s' x = bk_bios s x) \<and>
    bi_sector f = bi_sector b \<and> uint (bi_size f) = n * 512 \<and>
    bi_sector r = bi_sector b + word_of_int n \<and>
    unat (bi_size f) + unat (bi_size r) = unat (bi_size b) \<and>
    bi_op f = bi_op b \<and> bi_op r = bi_op b \<and> bi_opf f = bi_opf b \<and> bi_opf r = bi_opf b \<and>
    bi_end_io f = No_end_io \<and> bi_private f = None \<and> bi_remaining r = bi_remaining b \<and>
    bi_end_io r = bi_end_io b \<and> bk_submitted s' = bk_submitted s \<and> bk_ended s' = bk_ended s"
proof -
  define w where "w = (word_of_int n :: u32)"
  have sec: "b_sectors api b = drop_bit 9 (bi_size b)" using assms(1) by (simp add: api_ok_def)
  have un: "uint (b_sectors api b) = int (unat (bi_size b) div 512)"
    by (simp only: sec uint_nat drop_bit_9_unat)
  have sz: "unat (bi_size b) < 2 ^ 32" by (rule u32_bound)
  then have nb: "nat n < unat (bi_size b) div 512" using assms(4,5) un by linarith
  then have n32: "nat n < 2 ^ 32" using sz by simp
  have w: "unat w = nat n"
    using assms(4) n32 by (simp add: w_def unsigned_of_int take_bit_int_eq_self nat_less_iff)
  have p: "unat (push_bit 9 w) = nat n * 512" using w nb sz by (subst push_bit_9_unat) auto
  then have le: "push_bit 9 w \<le> bi_size b" using nb by (simp add: word_le_nat_alt)
  obtain i d where adv: "b_advance api b (push_bit 9 w) =
      b\<lparr>bi_iter := \<lparr>it_sector = bi_sector b + ucast (drop_bit 9 (push_bit 9 w)),
         it_size = bi_size b - push_bit 9 w, it_idx = i, it_done = d\<rparr>\<rparr>"
    using assms(1) le unfolding api_ok_def by blast
  have "unat (drop_bit 9 (push_bit 9 w)) = nat n" using p by (simp only: drop_bit_9_unat)
  moreover have "unat (word_of_int n :: u64) = nat n"
    using assms(4) n32 by (simp add: unsigned_of_int take_bit_int_eq_self nat_less_iff)
  ultimately have dw: "ucast (drop_bit 9 (push_bit 9 w)) = (word_of_int n :: u64)"
    by (simp only: word_unat_eq_iff unat_ucast_32_64)
  have sub: "unat (bi_size b - push_bit 9 w) = unat (bi_size b) - nat n * 512"
    using le p by (simp add: unat_sub)
  have ui: "uint (push_bit 9 w) = n * 512" using p assms(4) by (metis int_nat_eq less_imp_le of_nat_mult of_nat_numeral uint_nat)
  have "nat n * 512 \<le> unat (bi_size b)" using nb by linarith
  then show ?thesis
    using assms adv dw sub p ui
    by (simp add: bio_split_def bio_alloc_clone_def put_bio_def bio_clone_fields_def bio_init_def Let_def w_def)
qed

text \<open>
  Splitting at a sector count strictly inside the descriptor partitions it. The new descriptor
  covers the first sectors and starts where the old one did; the old one keeps the rest, starting
  right behind; no byte is lost, the operation and flags are the same on both, and no other
  descriptor changes.
\<close>

theorem bio_split_partitions:
  assumes "api_ok api" and "bk_bios s a = Some b" and "a < bk_next s"
    and "0 < n" and "n < uint (b_sectors api b)" and "bi_op b \<noteq> REQ_OP_ZONE_APPEND" and "REQ_ATOMIC \<notin> bi_opf b"
    and "b_alloc_ok api (bk_next s)" and "b_clone_ok api b"
  shows "\<exists>f r s'. bio_split api a n s = Some (Inr (bk_next s), s') \<and>
    bk_bios s' (bk_next s) = Some f \<and> bk_bios s' a = Some r \<and>
    bi_sector f = bi_sector b \<and> uint (bi_size f) = n * 512 \<and>
    bi_sector r = bi_sector b + word_of_int n \<and>
    unat (bi_size f) + unat (bi_size r) = unat (bi_size b) \<and>
    bi_op f = bi_op b \<and> bi_op r = bi_op b \<and> bi_opf f = bi_opf b \<and> bi_opf r = bi_opf b \<and>
    (\<forall>x. x \<noteq> a \<and> x \<noteq> bk_next s \<longrightarrow> bk_bios s' x = bk_bios s x)"
proof -
  have "a \<noteq> bk_next s" using assms(3) by simp
  then show ?thesis using split_ok [OF assms] by auto
qed

section \<open>Completion of chained descriptors\<close>

text \<open>
  A parent \<open>p\<close> with the descriptors \<open>cs\<close> chained to it that have not ended yet;
  \<open>own\<close> says whether the parent itself still has to end. The counter of the parent counts
  both.
\<close>

definition family :: "nat \<Rightarrow> nat set \<Rightarrow> bool \<Rightarrow> blk \<Rightarrow> bool" where
  "family p cs own s \<longleftrightarrow>
     finite cs \<and> p \<notin> cs \<and>
     (\<exists>b f. bk_bios s p = Some b \<and> bi_end_io b = Driver_end_io f \<and> BIO_CHAIN \<in> bi_flags b \<and>
          bi_remaining b = int (card cs) + (if own then 1 else 0)) \<and>
     (\<forall>c \<in> cs. \<exists>b. bk_bios s c = Some b \<and> bi_end_io b = Chain_end_io \<and> bi_private b = Some p \<and>
          BIO_CHAIN \<notin> bi_flags b \<and> BIO_REFFED \<notin> bi_flags b)"

text \<open>One completion of the parent: it counts down, and the last one calls the driver.\<close>

lemma parent_endio:
  assumes b: "bk_bios s p = Some b" "bi_end_io b = Driver_end_io f" "BIO_CHAIN \<in> bi_flags b" "0 < bi_remaining b"
    and ie: "\<forall>x. b_integrity_endio api x"
  shows "\<exists>s' b'. bio_endio api p s = Some s' \<and> bk_bios s' = (bk_bios s)(p \<mapsto> b') \<and>
    bi_end_io b' = Driver_end_io f \<and> bi_remaining b' = bi_remaining b - 1 \<and>
    (1 < bi_remaining b \<longrightarrow> BIO_CHAIN \<in> bi_flags b') \<and>
    bk_ended s' = bk_ended s @ (if bi_remaining b = 1 then [p] else [])"
  by (subst bio_endio.simps)
    (use assms in \<open>auto simp: bio_remaining_done_def put_bio_def Let_def\<close>)

text \<open>One completion of a chained descriptor: it is freed and its parent counts down.\<close>

lemma child_endio:
  assumes c: "bk_bios s c = Some b" "bi_end_io b = Chain_end_io" "bi_private b = Some p"
    "BIO_CHAIN \<notin> bi_flags b" "BIO_REFFED \<notin> bi_flags b"
    and p: "bk_bios s p = Some pb" and ne: "c \<noteq> p" and ie: "\<forall>x. b_integrity_endio api x"
  shows "\<exists>s1 pb1. bio_endio api c s = bio_endio api p s1 \<and>
    bk_bios s1 = (bk_bios s)(p \<mapsto> pb1, c := None) \<and> bk_ended s1 = bk_ended s \<and>
    bi_end_io pb1 = bi_end_io pb \<and> bi_flags pb1 = bi_flags pb \<and> bi_remaining pb1 = bi_remaining pb"
proof -
  define b2 where "b2 = b\<lparr>bi_flags := bi_flags b - {BIO_TRACE_COMPLETION}\<rparr>"
  define pb1 where "pb1 = (if bi_status b \<noteq> 0 \<and> bi_status pb = 0 then pb\<lparr>bi_status := bi_status b\<rparr> else pb)"
  define s1 where "s1 = s\<lparr>bk_bios := (bk_bios s)(p \<mapsto> pb1, c := None)\<rparr>"
  have ch: "chain_endio c (put_bio c b2 (put_bio c b s)) = Some (p, s1)"
    using c p ne by (auto simp: chain_endio_def put_bio_def bio_put_def b2_def pb1_def s1_def Let_def fun_eq_iff)
  have "bi_end_io b2 = Chain_end_io" using c(2) by (simp add: b2_def)
  then have "bio_endio api c s = bio_endio api p s1"
    using c ie ch by (subst bio_endio.simps) (simp add: bio_remaining_done_def Let_def b2_def [symmetric])
  then show ?thesis
    by (intro exI [of _ s1] exI [of _ pb1]) (simp add: s1_def pb1_def)
qed

text \<open>Any pending member of the family may end next.\<close>

lemma family_step:
  assumes fam: "family p cs own s" and ie: "\<forall>x. b_integrity_endio api x"
    and x: "x \<in> cs \<or> x = p \<and> own"
  shows "\<exists>s'. bio_endio api x s = Some s' \<and>
    bk_ended s' = bk_ended s @ (if cs - {x} = {} \<and> (x = p \<or> \<not> own) then [p] else []) \<and>
    (\<not> (cs - {x} = {} \<and> (x = p \<or> \<not> own)) \<longrightarrow> family p (cs - {x}) (own \<and> x \<noteq> p) s') \<and>
    (x \<in> cs \<longrightarrow> bk_bios s' x = None) \<and> (\<forall>y. bk_bios s y = None \<longrightarrow> bk_bios s' y = None)"
proof -
  have pcs: "finite cs" "p \<notin> cs" using fam by (auto simp: family_def)
  obtain pb f where pb: "bk_bios s p = Some pb" "bi_end_io pb = Driver_end_io f" "BIO_CHAIN \<in> bi_flags pb"
    "bi_remaining pb = int (card cs) + (if own then 1 else 0)"
    using fam by (auto simp: family_def)
  have kids: "\<exists>b. bk_bios s c = Some b \<and> bi_end_io b = Chain_end_io \<and> bi_private b = Some p \<and>
      BIO_CHAIN \<notin> bi_flags b \<and> BIO_REFFED \<notin> bi_flags b" if "c \<in> cs" for c
    using fam that by (auto simp: family_def)
  show ?thesis
  proof (cases "x = p")
    case True
    then have own: "own" using x pcs by auto
    have pos: "0 < bi_remaining pb" using pb(4) own by simp
    obtain s' b' where s': "bio_endio api p s = Some s'" "bk_bios s' = (bk_bios s)(p \<mapsto> b')"
      "bi_end_io b' = Driver_end_io f" "bi_remaining b' = bi_remaining pb - 1"
      "1 < bi_remaining pb \<longrightarrow> BIO_CHAIN \<in> bi_flags b'"
      "bk_ended s' = bk_ended s @ (if bi_remaining pb = 1 then [p] else [])"
      using parent_endio [OF pb(1-3) pos ie] by blast
    have "cs - {x} = cs" using True pcs by auto
    moreover have "family p cs False s'" if "cs \<noteq> {}"
    proof -
      have "0 < card cs" using that pcs(1) by (simp add: card_gt_0_iff)
      then show ?thesis
        using s' pb(4) own kids pcs unfolding family_def by auto
    qed
    moreover have "bk_bios s y = None \<Longrightarrow> bk_bios s' y = None" for y using s'(2) pb(1) by auto
    moreover have "bi_remaining pb = 1 \<longleftrightarrow> cs = {}" using pb(4) own pcs(1) by (simp add: card_eq_0_iff)
    ultimately show ?thesis using s'(1,6) own True pcs by auto
  next
    case False
    then have xc: "x \<in> cs" using x by auto
    then obtain b where b: "bk_bios s x = Some b" "bi_end_io b = Chain_end_io" "bi_private b = Some p"
      "BIO_CHAIN \<notin> bi_flags b" "BIO_REFFED \<notin> bi_flags b" using kids by blast
    obtain s1 pb1 where s1: "bio_endio api x s = bio_endio api p s1"
      "bk_bios s1 = (bk_bios s)(p \<mapsto> pb1, x := None)" "bk_ended s1 = bk_ended s"
      "bi_end_io pb1 = bi_end_io pb" "bi_flags pb1 = bi_flags pb" "bi_remaining pb1 = bi_remaining pb"
      using child_endio [OF b pb(1) False ie] by blast
    define m where "m = card (cs - {x})"
    have card: "card cs = Suc m" unfolding m_def using card.remove [OF pcs(1) xc] .
    have m0: "cs - {x} = {} \<longleftrightarrow> m = 0" unfolding m_def using pcs(1) by (simp only: card_eq_0_iff) blast
    have pos: "0 < bi_remaining pb1" using s1(6) pb(4) card by simp
    have p1: "bk_bios s1 p = Some pb1" "bi_end_io pb1 = Driver_end_io f" "BIO_CHAIN \<in> bi_flags pb1"
      using s1 pb False by auto
    obtain s' b' where s': "bio_endio api p s1 = Some s'" "bk_bios s' = (bk_bios s1)(p \<mapsto> b')"
      "bi_end_io b' = Driver_end_io f" "bi_remaining b' = bi_remaining pb1 - 1"
      "1 < bi_remaining pb1 \<longrightarrow> BIO_CHAIN \<in> bi_flags b'"
      "bk_ended s' = bk_ended s1 @ (if bi_remaining pb1 = 1 then [p] else [])"
      using parent_endio [OF p1 pos ie] by blast
    have last: "bi_remaining pb1 = 1 \<longleftrightarrow> cs - {x} = {} \<and> \<not> own"
      using s1(6) pb(4) card m0 by auto
    have "family p (cs - {x}) own s'" if "\<not> (cs - {x} = {} \<and> \<not> own)"
    proof -
      have "BIO_CHAIN \<in> bi_flags b'" using s'(5) last that pos by auto
      moreover have "bi_remaining b' = int (card (cs - {x})) + (if own then 1 else 0)"
        using s'(4) s1(6) pb(4) card m_def by simp
      moreover have "\<exists>b. bk_bios s' c = Some b \<and> bi_end_io b = Chain_end_io \<and> bi_private b = Some p \<and>
          BIO_CHAIN \<notin> bi_flags b \<and> BIO_REFFED \<notin> bi_flags b" if "c \<in> cs - {x}" for c
        using kids [of c] that pcs(2) s'(2) s1(2) by auto
      ultimately show ?thesis
        using s'(2,3) pcs unfolding family_def by auto
    qed
    moreover have "bk_bios s' x = None" using s'(2) s1(2) False by simp
    moreover have "bk_bios s y = None \<Longrightarrow> bk_bios s' y = None" for y using s'(2) s1(2) pb(1) by auto
    ultimately show ?thesis using s1(1,3) s'(1,6) last False xc by auto
  qed
qed

fun end_all :: "bapi \<Rightarrow> nat list \<Rightarrow> blk \<Rightarrow> blk option" where
  "end_all api [] s = Some s"
| "end_all api (x # xs) s = (case bio_endio api x s of None \<Rightarrow> None | Some s' \<Rightarrow> end_all api xs s')"

lemma end_all_family:
  assumes "\<forall>x. b_integrity_endio api x" and "xs \<noteq> []"
  shows "family p cs own s \<Longrightarrow> distinct xs \<Longrightarrow> set xs = cs \<union> (if own then {p} else {}) \<Longrightarrow>
    (\<exists>s'. end_all api xs s = Some s' \<and> bk_ended s' = bk_ended s @ [p] \<and> (\<forall>c \<in> cs. bk_bios s' c = None) \<and>
       (\<forall>y. bk_bios s y = None \<longrightarrow> bk_bios s' y = None)) \<and>
    (\<forall>n < length xs. \<exists>s'. end_all api (take n xs) s = Some s' \<and> bk_ended s' = bk_ended s)"
  using assms(2)
proof (induction xs arbitrary: cs own s)
  case (Cons x xs)
  have x: "x \<in> cs \<or> x = p \<and> own" using Cons.prems(3) by (auto split: if_splits)
  have pcs: "p \<notin> cs" using Cons.prems(1) by (simp add: family_def)
  obtain s1 where s1: "bio_endio api x s = Some s1"
    "bk_ended s1 = bk_ended s @ (if cs - {x} = {} \<and> (x = p \<or> \<not> own) then [p] else [])"
    "\<not> (cs - {x} = {} \<and> (x = p \<or> \<not> own)) \<longrightarrow> family p (cs - {x}) (own \<and> x \<noteq> p) s1"
    "x \<in> cs \<longrightarrow> bk_bios s1 x = None" "\<forall>y. bk_bios s y = None \<longrightarrow> bk_bios s1 y = None"
    using family_step [OF Cons.prems(1) assms(1) x] by blast
  have rest: "set xs = (cs - {x}) \<union> (if own \<and> x \<noteq> p then {p} else {})"
    using Cons.prems(2,3) pcs by (auto split: if_splits)
  show ?case
  proof (cases "xs = []")
    case True
    then have e: "cs - {x} = {}" "x = p \<or> \<not> own" using rest by (auto split: if_splits)
    then have ends: "bk_ended s1 = bk_ended s @ [p]" using s1(2) by simp
    have "\<forall>c \<in> cs. bk_bios s1 c = None" using e(1) s1(4) by blast
    then show ?thesis using ends s1(1,5) True by simp
  next
    case False
    then have ne: "\<not> (cs - {x} = {} \<and> (x = p \<or> \<not> own))" using rest by (metis Un_empty set_empty)
    with s1 have fam: "family p (cs - {x}) (own \<and> x \<noteq> p) s1" and eq: "bk_ended s1 = bk_ended s" by auto
    have ih: "(\<exists>s'. end_all api xs s1 = Some s' \<and> bk_ended s' = bk_ended s1 @ [p] \<and> (\<forall>c \<in> cs - {x}. bk_bios s' c = None) \<and>
         (\<forall>y. bk_bios s1 y = None \<longrightarrow> bk_bios s' y = None)) \<and>
      (\<forall>n < length xs. \<exists>s'. end_all api (take n xs) s1 = Some s' \<and> bk_ended s' = bk_ended s1)"
      using Cons.IH [OF fam _ rest False] Cons.prems(2) by simp
    then obtain s2 where s2: "end_all api xs s1 = Some s2" "bk_ended s2 = bk_ended s1 @ [p]"
      "\<forall>c \<in> cs - {x}. bk_bios s2 c = None" "\<forall>y. bk_bios s1 y = None \<longrightarrow> bk_bios s2 y = None" by blast
    have "bk_bios s2 c = None" if "c \<in> cs" for c using that s1(4) s2(3,4) by (cases "c = x") auto
    then have all: "end_all api (x # xs) s = Some s2 \<and> bk_ended s2 = bk_ended s @ [p] \<and> (\<forall>c \<in> cs. bk_bios s2 c = None) \<and>
        (\<forall>y. bk_bios s y = None \<longrightarrow> bk_bios s2 y = None)"
      using s2 s1(1,5) eq by simp
    have pre: "\<exists>s'. end_all api (take n (x # xs)) s = Some s' \<and> bk_ended s' = bk_ended s"
      if "n < length (x # xs)" for n
      using that ih s1(1) eq by (cases n) auto
    show ?thesis using all pre by blast
  qed
qed simp

text \<open>
  C24: Completions of chained descriptors. Let a parent have any number of descriptors chained to it,
  none of which has ended. In whatever order the parent and the chained descriptors end, every call
  returns, the parent's completion function is called exactly once, by the last of the calls and not before,
  and the chained descriptors are freed.
\<close>

theorem bio_chain_completes_once:
  assumes "\<forall>x. b_integrity_endio api x" and "family p cs True s" and "distinct xs" and "set xs = insert p cs"
  shows "\<exists>s'. end_all api xs s = Some s' \<and> bk_ended s' = bk_ended s @ [p] \<and> (\<forall>c \<in> cs. bk_bios s' c = None) \<and>
    (\<forall>n < length xs. \<exists>t. end_all api (take n xs) s = Some t \<and> bk_ended t = bk_ended s)"
proof -
  have "xs \<noteq> []" using assms(4) by auto
  from end_all_family [OF assms(1) this assms(2,3)] assms(4) show ?thesis by auto
qed

text \<open>Two descriptors chained to a parent by \<open>bio_chain\<close>.\<close>

definition demo_bapi :: bapi where
  "demo_bapi = \<lparr>b_sectors = (\<lambda>b. drop_bit 9 (bi_size b)),
     b_advance = (\<lambda>b n. b\<lparr>bi_iter := (bi_iter b)\<lparr>it_sector := bi_sector b + ucast (drop_bit 9 n),
                                                it_size := bi_size b - n\<rparr>\<rparr>),
     b_inc_remaining = (\<lambda>b. b\<lparr>bi_flags := insert BIO_CHAIN (bi_flags b), bi_remaining := bi_remaining b + 1\<rparr>),
     b_max_size = 4294963200, b_max_sectors = 8388600, b_alloc_ok = (\<lambda>n. True), b_clone_ok = (\<lambda>b. True),
     b_integrity_endio = (\<lambda>b. True), b_page_to_phys = (\<lambda>p. of_nat (p * 4096)),
     b_page_mask = - 4096, b_page_size = 4096, b_pages_compatible = (\<lambda>p q. True),
     b_same_pgmap = (\<lambda>p q. True), b_p2pdma = (\<lambda>p. False), b_xen_mergeable = (\<lambda>v p. True), b_kmsan = False\<rparr>"

lemma demo_api_ok: "api_ok demo_bapi"
proof -
  have "\<exists>i d. b_advance demo_bapi b n =
      b\<lparr>bi_iter := \<lparr>it_sector = bi_sector b + ucast (drop_bit 9 n), it_size = bi_size b - n, it_idx = i, it_done = d\<rparr>\<rparr>" for b n
    by (intro exI [of _ "it_idx (bi_iter b)"] exI [of _ "it_done (bi_iter b)"]) (simp add: demo_bapi_def)
  then show ?thesis by (simp add: api_ok_def demo_bapi_def)
qed

definition demo_bio :: bio where
  "demo_bio = (bio_init [] 0 REQ_OP_READ {REQ_RAHEAD})
     \<lparr>bi_iter := \<lparr>it_sector = 2048, it_size = 131072, it_idx = 0, it_done = 0\<rparr>, bi_end_io := Driver_end_io 7\<rparr>"

definition demo_child :: bio where
  "demo_child = (bio_init [] 0 REQ_OP_READ {REQ_RAHEAD})\<lparr>bi_end_io := Chain_end_io, bi_private := Some 0\<rparr>"

definition demo_blk :: blk where
  "demo_blk = \<lparr>bk_bios = [0 \<mapsto> demo_bio], bk_next = 1, bk_submitted = [], bk_ended = []\<rparr>"

definition demo_family :: blk where
  "demo_family = demo_blk\<lparr>bk_next := 3, bk_bios := [0 \<mapsto> demo_bio\<lparr>bi_flags := {BIO_CHAIN}, bi_remaining := 3\<rparr>,
     1 \<mapsto> demo_child, 2 \<mapsto> demo_child]\<rparr>"

theorem bio_split_partitions_witness:
  "\<exists>f r s'. bio_split demo_bapi 0 128 demo_blk = Some (Inr 1, s') \<and> bk_bios s' 1 = Some f \<and> bk_bios s' 0 = Some r \<and>
     bi_sector f = 2048 \<and> uint (bi_size f) = 65536 \<and> unat (bi_size f) + unat (bi_size r) = 131072"
  using bio_split_partitions [OF demo_api_ok, of demo_blk 0 demo_bio 128]
  by (fastforce simp: demo_blk_def demo_bio_def demo_bapi_def bio_init_def)

theorem bio_chain_completes_once_witness:
  "\<exists>s'. end_all demo_bapi [1, 0, 2] demo_family = Some s' \<and> bk_ended s' = [0]"
proof -
  have "family 0 {1, 2} True demo_family"
    by (auto simp: family_def demo_family_def demo_blk_def demo_bio_def demo_child_def bio_init_def)
  with bio_chain_completes_once [of demo_bapi 0 "{1, 2}" demo_family "[1, 0, 2]"] show ?thesis
    by (auto simp: demo_bapi_def demo_family_def demo_blk_def)
qed

section \<open>The end of the device\<close>

text \<open>
  A descriptor that starts inside the device ends inside it after \<open>guard_bio_eod\<close>: it is
  never enlarged, and it is unchanged when it fitted already.
\<close>

theorem guard_bio_eod_inside:
  assumes "bi_sector b < maxsector"
  shows "unat (bi_sector b) + unat (bi_size (guard_bio_eod maxsector b)) div 512 \<le> unat maxsector \<and>
    bi_size (guard_bio_eod maxsector b) \<le> bi_size b \<and>
    (unat (bi_sector b) + unat (bi_size b) div 512 \<le> unat maxsector \<longrightarrow> guard_bio_eod maxsector b = b)"
proof -
  define rest where "rest = maxsector - bi_sector b"
  have lt: "unat (bi_sector b) < unat maxsector" using assms(1) by (simp add: word_less_nat_alt)
  have r: "unat rest = unat maxsector - unat (bi_sector b)"
    using assms(1) by (simp add: rest_def unat_sub)
  have m0: "maxsector \<noteq> 0" using lt by auto
  have sh: "unat (ucast (drop_bit 9 (bi_size b)) :: u64) = unat (bi_size b) div 512"
    by (simp only: unat_ucast_32_64 drop_bit_9_unat)
  show ?thesis
  proof (cases "ucast (drop_bit 9 (bi_size b)) \<le> rest")
    case True
    then have "unat (bi_size b) div 512 \<le> unat rest" using sh by (simp only: word_le_nat_alt)
    then show ?thesis using True assms(1) m0 lt r by (simp add: guard_bio_eod_def Let_def rest_def [symmetric] not_le)
  next
    case False
    then have big: "unat rest < unat (bi_size b) div 512" using sh by (simp only: word_le_nat_alt not_le)
    then have small: "unat rest * 512 < 2 ^ 32" using u32_bound [of "bi_size b"] by linarith
    have "unat (push_bit 9 rest) = unat rest * 512"
      by (simp only: unsigned_push_bit_eq) (use small in \<open>simp add: push_bit_eq_mult take_bit_nat_eq_self\<close>)
    then have u: "unat (ucast (push_bit 9 rest) :: u32) = unat rest * 512" using small by (simp only: unat_ucast_64_32)
    define b' where "b' = bio_truncate b (ucast (push_bit 9 rest))"
    have g: "guard_bio_eod maxsector b = b'"
      using False assms(1) m0 by (simp add: guard_bio_eod_def Let_def rest_def [symmetric] not_le b'_def)
    have "unat (ucast (push_bit 9 rest) :: u32) < unat (bi_size b)" using u big by linarith
    then have "bi_size b' = ucast (push_bit 9 rest)" by (simp add: b'_def bio_truncate_def word_le_nat_alt)
    then have s: "unat (bi_size b') = unat rest * 512" using u by simp
    then show ?thesis using g r lt big by (simp add: word_le_nat_alt)
  qed
qed

theorem guard_bio_eod_inside_witness:
  "unat (bi_sector demo_bio) + unat (bi_size (guard_bio_eod 2100 demo_bio)) div 512 \<le> 2100"
  using guard_bio_eod_inside [of demo_bio 2100] by (simp add: demo_bio_def bio_init_def)

section \<open>Adding pages\<close>

text \<open>The vector table has its capacity, and the size is the sum of the vectors in use.\<close>

definition bio_wf :: "bio \<Rightarrow> bool" where
  "bio_wf b \<longleftrightarrow> unat (bi_vcnt b) \<le> unat (bi_max_vecs b) \<and> length (bi_io_vec b) = unat (bi_max_vecs b) \<and>
     sum_list (map (unat \<circ> bv_len) (take (unat (bi_vcnt b)) (bi_io_vec b))) = unat (bi_size b)"

lemma sum_take_update:
  assumes "i < n" and "n \<le> length xs" and "f v = f (xs ! i) + (k :: nat)"
  shows "sum_list (map f (take n (xs[i := v]))) = sum_list (map f (take n xs)) + k"
proof -
  have "sum_list (map f (take n (xs[i := v]))) = sum_list ((map f (take n xs))[i := f v])"
    using assms by (simp add: take_update_in [symmetric] map_update)
  also have "\<dots> = sum_list (map f (take n xs)) + f v - f (xs ! i)"
    using assms by (subst sum_list_update) simp_all
  finally show ?thesis using assms(3) member_le_sum_list [of "f (xs ! i)" "map f (take n xs)"] by simp
qed

lemma append_page_wf:
  assumes wf: "bio_wf b" and room: "bi_vcnt b < bi_max_vecs b"
    and sz: "unat (bi_size b) + unat len < 2 ^ 32"
  shows "\<exists>b'. bio_add_page_raw api b page len off = Some b' \<and> bio_wf b' \<and> bi_size b' = bi_size b + len"
proof -
  let ?i = "unat (bi_vcnt b)"
  have i: "?i < length (bi_io_vec b)" using wf room by (simp add: bio_wf_def word_less_nat_alt)
  have v: "unat (bi_vcnt b + 1) = Suc ?i" using room by (rule unat_Suc_less)
  have s: "unat (bi_size b + len) = unat (bi_size b) + unat len" using sz by (rule unat_plus_32)
  have "take (Suc ?i) ((bi_io_vec b)[?i := x]) = take ?i (bi_io_vec b) @ [x]" for x
    using i by (rule take_Suc_update)
  then show ?thesis
    using wf i v s room by (auto simp: bio_add_page_raw_def bio_wf_def Let_def word_less_nat_alt)
qed

text \<open>
  C37: Adding a page never stores outside the vector table and keeps the descriptor well-formed: it
  has no more vectors than its capacity and its size is the sum of theirs. Either nothing changes and
  0 is returned, or the size grows by exactly the length, which is returned, without wrapping.
\<close>

theorem bio_add_page_keeps_wf:
  assumes "bio_wf b" and "len \<le> b_max_size api"
  shows "\<exists>r b'. bio_add_page api b page len off = Some (r, b') \<and> bio_wf b' \<and>
    (r = 0 \<and> b' = b \<or> r = len \<and> unat (bi_size b') = unat (bi_size b) + unat len)"
proof (cases "BIO_CLONED \<in> bi_flags b \<or> len = 0 \<or> bi_size b > b_max_size api - len")
  case True
  then show ?thesis using assms(1) by (auto simp: bio_add_page_def)
next
  case False
  have "unat (b_max_size api - len) = unat (b_max_size api) - unat len" using assms(2) by (simp add: unat_sub)
  then have "unat (bi_size b) \<le> unat (b_max_size api) - unat len"
    using False by (simp add: word_less_nat_alt not_less)
  moreover have "unat len \<le> unat (b_max_size api)" using assms(2) by (simp add: word_le_nat_alt)
  ultimately have sz: "unat (bi_size b) + unat len < 2 ^ 32"
    using u32_bound [of "b_max_size api"] by linarith
  then have s: "unat (bi_size b + len) = unat (bi_size b) + unat len" by (rule unat_plus_32)
  define app where "app = (if bi_vcnt b \<ge> bi_max_vecs b then Some (0, b)
      else map_option (\<lambda>b'. (len, b')) (bio_add_page_raw api b page len off))"
  have app: "\<exists>r b'. app = Some (r, b') \<and> bio_wf b' \<and> (r = 0 \<and> b' = b \<or> r = len \<and> unat (bi_size b') = unat (bi_size b) + unat len)"
    using append_page_wf [OF assms(1) _ sz, of api page off] assms(1) s by (fastforce simp: app_def not_le)
  show ?thesis
  proof (cases "bi_vcnt b = 0")
    case True
    then show ?thesis using False app by (simp add: bio_add_page_def Let_def app_def)
  next
    case v: False
    let ?i = "unat (bi_vcnt b) - 1" and ?n = "unat (bi_vcnt b)"
    have n: "?i < ?n" "?n \<le> length (bi_io_vec b)" using v assms(1) by (auto simp: bio_wf_def unat_gt_0)
    have unf: "bio_add_page api b page len off =
        (let bv = bi_io_vec b ! ?i in
         if \<not> b_pages_compatible api (bv_page bv) page then Some (0, b)
         else if b_same_pgmap api (bv_page bv) page
         then (case bvec_try_merge_page api bv page len off of
                 Some bv' \<Rightarrow> Some (len, b\<lparr>bi_io_vec := (bi_io_vec b)[?i := bv'],
                                         bi_iter := (bi_iter b)\<lparr>it_size := bi_size b + len\<rparr>\<rparr>)
               | None \<Rightarrow> app) else app)"
    proof -
      have conds: "(BIO_CLONED \<in> bi_flags b) = False" "(len = 0) = False" "(b_max_size api - len < bi_size b) = False"
        "(bi_vcnt b = 0) = False" "(length (bi_io_vec b) \<le> ?i) = False" using False v n by auto
      show ?thesis unfolding bio_add_page_def Let_def conds if_False app_def ..
    qed
    have grow: "bio_wf (b\<lparr>bi_io_vec := (bi_io_vec b)[?i := bv'], bi_iter := (bi_iter b)\<lparr>it_size := bi_size b + len\<rparr>\<rparr>)"
      if "bvec_try_merge_page api (bi_io_vec b ! ?i) page len off = Some bv'" for bv'
    proof -
      have bv': "bv_len bv' = bv_len (bi_io_vec b ! ?i) + len"
        using that by (auto simp: bvec_try_merge_page_def Let_def split: if_splits)
      have "unat (bv_len (bi_io_vec b ! ?i)) \<le> unat (bi_size b)"
        using assms(1) n member_le_sum_list [of "unat (bv_len (bi_io_vec b ! ?i))" "map (unat \<circ> bv_len) (take ?n (bi_io_vec b))"]
        by (force simp: bio_wf_def in_set_conv_nth)
      then have "unat (bv_len bv') = unat (bv_len (bi_io_vec b ! ?i)) + unat len"
        unfolding bv' using sz by (intro unat_plus_32) linarith
      then show ?thesis
        using assms(1) n s sum_take_update [OF n, of "unat \<circ> bv_len" bv' "unat len"] by (simp add: bio_wf_def)
    qed
    show ?thesis
      unfolding unf using app assms(1) grow s by (auto simp: Let_def split: option.splits)
  qed
qed

definition demo_table :: "bio_vec list" where
  "demo_table = replicate 2 \<lparr>bv_page = 0, bv_len = 0, bv_offset = 0\<rparr>"

theorem bio_add_page_keeps_wf_witness:
  "\<exists>r b'. bio_add_page demo_bapi (bio_init demo_table 2 REQ_OP_READ {}) 5 4096 0 = Some (r, b') \<and> bio_wf b'"
  using bio_add_page_keeps_wf [of "bio_init demo_table 2 REQ_OP_READ {}" 4096 demo_bapi 5 0]
  by (auto simp: bio_wf_def bio_init_def demo_bapi_def demo_table_def)

end
