(* ===== verification/BlockSplit.thy ===== *)
theory BlockSplit
  imports BioLaws
begin

text \<open>
  Splitting of descriptors to the limits of a queue (\<open>readaround-split/src/block/blk-merge.c\<close>,
  first half), with the repository's own change: a read-ahead read of exactly 256 sectors is cut
  in two halves. The limits are a record with the fields the code reads; header functions are the
  record \<open>sapi\<close>. \<open>bio_for_each_bvec\<close> walks the list \<open>s_bvecs\<close>;
  \<open>bio_split_rw_at\<close> is \<open>bio_split_io_at\<close> with the length mask \<open>s_rw_len_mask\<close>.
\<close>

unbundle bit_operations_syntax

section \<open>Limits and header functions\<close>

record queue_limits =
  lim_max_sectors :: u32
  lim_chunk_sectors :: u32
  lim_logical_block_size :: u32
  lim_physical_block_size :: u32
  lim_max_segments :: u32
  lim_max_fast_segment_size :: u32
  lim_dma_alignment :: u32
  lim_virt_boundary_mask :: u64
  lim_discard_granularity :: u32
  lim_discard_alignment :: u32
  lim_max_discard_sectors :: u32
  lim_max_secure_erase_sectors :: u32
  lim_max_write_zeroes_sectors :: u32
  lim_max_zone_append_sectors :: u32
  lim_zone_write_granularity :: u32
  lim_atomic_write_boundary_sectors :: u32
  lim_atomic_write_max_sectors :: u32
  lim_max_hw_sectors :: u32

record sapi =
  s_b :: bapi
  s_round_down :: "u32 \<Rightarrow> u32 \<Rightarrow> u32"
  s_align_down :: "u32 \<Rightarrow> u32 \<Rightarrow> u32"
  s_sector_rem :: "u64 \<Rightarrow> u32 \<Rightarrow> u64"
  s_boundary_left :: "u64 \<Rightarrow> u32 \<Rightarrow> u32"
  s_max_segment_size :: "queue_limits \<Rightarrow> u64 \<Rightarrow> u32 \<Rightarrow> u32"
  s_bvec_phys :: "bio_vec \<Rightarrow> u64"
  s_gap_to_prev :: "queue_limits \<Rightarrow> bio_vec \<Rightarrow> u32 \<Rightarrow> bool"
  s_crypt_unit :: "bio \<Rightarrow> u32 option"
  s_bvecs :: "bio \<Rightarrow> bio_vec list"
  s_rw_len_mask :: "queue_limits \<Rightarrow> u32"
  s_ffs :: "u32 \<Rightarrow> u8"
  s_errno_to_status :: "int \<Rightarrow> u8"
  s_ioerr :: u8
  s_should_fail :: "bio \<Rightarrow> bool"
  s_throttled :: "bio \<Rightarrow> bool"
  s_op_is_write :: "req_op \<Rightarrow> bool"

definition rasplit_enabled :: bool where "rasplit_enabled = True"
definition RASPLIT_TARGET_SECTORS :: u32 where "RASPLIT_TARGET_SECTORS = 256"

definition bio_allowed_max_sectors :: "sapi \<Rightarrow> queue_limits \<Rightarrow> u32" where
  "bio_allowed_max_sectors api lim =
     drop_bit 9 (s_round_down api (b_max_size (s_b api)) (lim_logical_block_size lim))"

section \<open>Cutting and resubmitting\<close>

definition fail_bio :: "sapi \<Rightarrow> nat \<Rightarrow> u8 \<Rightarrow> blk \<Rightarrow> blk option" where
  "fail_bio api a status s =
     (case bk_bios s a of
        None \<Rightarrow> None
      | Some b \<Rightarrow> bio_endio (s_b api) a (put_bio a (b\<lparr>bi_status := status\<rparr>) s))"

definition bio_submit_split_bioset :: "sapi \<Rightarrow> nat \<Rightarrow> u32 \<Rightarrow> blk \<Rightarrow> (nat option \<times> blk) option" where
  "bio_submit_split_bioset api a split_sectors s =
     (case bio_split (s_b api) a (sint split_sectors) s of
        None \<Rightarrow> None
      | Some (Inl err, s1) \<Rightarrow>
          map_option (\<lambda>s2. (None, s2)) (fail_bio api a (s_errno_to_status api err) s1)
      | Some (Inr c, s1) \<Rightarrow>
          (case bio_chain (s_b api) c a s1 of
             None \<Rightarrow> None
           | Some s2 \<Rightarrow>
               (case bk_bios s2 a of
                  None \<Rightarrow> None
                | Some b \<Rightarrow>
                    if s_should_fail api b
                    then map_option (\<lambda>s3. (Some c, s3)) (fail_bio api a (s_ioerr api) s2)
                    else if \<not> s_throttled api b
                    then Some (Some c, s2\<lparr>bk_submitted := bk_submitted s2 @ [a]\<rparr>)
                    else Some (Some c, s2))))"

definition bio_submit_split :: "sapi \<Rightarrow> nat \<Rightarrow> int \<Rightarrow> blk \<Rightarrow> (nat option \<times> blk) option" where
  "bio_submit_split api a split_sectors s =
     (if split_sectors < 0
      then map_option (\<lambda>s1. (None, s1)) (fail_bio api a (s_errno_to_status api split_sectors) s)
      else if split_sectors \<noteq> 0
      then (case bio_submit_split_bioset api a (word_of_int split_sectors) s of
              None \<Rightarrow> None
            | Some (None, s1) \<Rightarrow> Some (None, s1)
            | Some (Some c, s1) \<Rightarrow>
                (case bk_bios s1 c of
                   None \<Rightarrow> None
                 | Some sp \<Rightarrow> Some (Some c, put_bio c (sp\<lparr>bi_opf := insert REQ_NOMERGE (bi_opf sp)\<rparr>) s1)))
      else Some (Some a, s))"

section \<open>Discards\<close>

text \<open>Where a discard is cut; \<open>None\<close> when it is submitted whole.\<close>

definition discard_split_at :: "sapi \<Rightarrow> bio \<Rightarrow> queue_limits \<Rightarrow> u32 \<Rightarrow> u32 option" where
  "discard_split_at api b lim max_sectors =
     (let granularity = max (drop_bit 9 (lim_discard_granularity lim)) 1;
          m0 = min max_sectors (bio_allowed_max_sectors api lim);
          m = m0 - m0 mod granularity
      in if m = 0 then None
         else if b_sectors (s_b api) b \<le> m then None
         else let tmp = s_sector_rem api (bi_sector b + ucast m -
                          ucast (drop_bit 9 (lim_discard_alignment lim) mod granularity)) granularity
              in Some (if ucast m > tmp then m - ucast tmp else m))"

definition bio_split_discard_at :: "sapi \<Rightarrow> nat \<Rightarrow> queue_limits \<Rightarrow> u32 \<Rightarrow> blk \<Rightarrow> (nat option \<times> blk) option" where
  "bio_split_discard_at api a lim max_sectors s =
     (case bk_bios s a of
        None \<Rightarrow> None
      | Some b \<Rightarrow>
          (case discard_split_at api b lim max_sectors of
             None \<Rightarrow> Some (Some a, s)
           | Some n \<Rightarrow> bio_submit_split api a (sint n) s))"

definition bio_split_discard :: "sapi \<Rightarrow> nat \<Rightarrow> queue_limits \<Rightarrow> blk \<Rightarrow> (nat option \<times> blk) option" where
  "bio_split_discard api a lim s =
     (case bk_bios s a of
        None \<Rightarrow> None
      | Some b \<Rightarrow> bio_split_discard_at api a lim
          (if bi_op b = REQ_OP_SECURE_ERASE then lim_max_secure_erase_sectors lim
           else lim_max_discard_sectors lim) s)"

section \<open>The largest request\<close>

definition blk_boundary_sectors :: "queue_limits \<Rightarrow> bool \<Rightarrow> u32" where
  "blk_boundary_sectors lim is_atomic =
     (if is_atomic \<and> lim_atomic_write_boundary_sectors lim \<noteq> 0
      then lim_atomic_write_boundary_sectors lim else lim_chunk_sectors lim)"

text \<open>The condition of the repository's change, and the function's own computation.\<close>

definition rasplit_applies :: "sapi \<Rightarrow> bio \<Rightarrow> bool" where
  "rasplit_applies api b \<longleftrightarrow>
     rasplit_enabled \<and> bi_op b = REQ_OP_READ \<and> REQ_RAHEAD \<in> bi_opf b \<and>
     b_sectors (s_b api) b = RASPLIT_TARGET_SECTORS"

definition get_max_io_size :: "sapi \<Rightarrow> bio \<Rightarrow> queue_limits \<Rightarrow> u32" where
  "get_max_io_size api b lim =
     (let pbs = drop_bit 9 (lim_physical_block_size lim);
          lbs = drop_bit 9 (lim_logical_block_size lim);
          is_atomic = (REQ_ATOMIC \<in> bi_opf b);
          boundary_sectors = blk_boundary_sectors lim is_atomic
      in if rasplit_applies api b then RASPLIT_TARGET_SECTORS div 2
         else let m = (if bi_op b = REQ_OP_WRITE_ZEROES then lim_max_write_zeroes_sectors lim
                       else if is_atomic then lim_atomic_write_max_sectors lim
                       else lim_max_sectors lim);
                  max_sectors = (if boundary_sectors \<noteq> 0
                                 then min m (s_boundary_left api (bi_sector b) boundary_sectors) else m);
                  start = ucast (bi_sector b AND ucast (pbs - 1));
                  end' = (start + max_sectors) AND NOT (pbs - 1)
              in if end' > start then end' - start else max_sectors AND NOT (lbs - 1))"

section \<open>Segments\<close>

text \<open>
  The loop of \<open>bvec_split_segs\<close>. It ends because every round takes one segment more, whatever
  size the header function gives.
\<close>

function segs_loop ::
  "sapi \<Rightarrow> queue_limits \<Rightarrow> bio_vec \<Rightarrow> u32 \<Rightarrow> u32 \<Rightarrow> u32 \<Rightarrow> u32 \<Rightarrow> u32 \<times> u32 \<times> u32" where
  "segs_loop api lim bv max_segs nsegs total_len len =
     (if len \<noteq> 0 \<and> nsegs < max_segs
      then let seg_size = s_max_segment_size api lim (s_bvec_phys api bv + ucast total_len) len;
               total' = total_len + seg_size; len' = len - seg_size
           in if ucast (bv_offset bv + total') AND lim_virt_boundary_mask lim \<noteq> 0
              then (nsegs + 1, total', len')
              else segs_loop api lim bv max_segs (nsegs + 1) total' len'
      else (nsegs, total_len, len))"
  by pat_completeness auto
termination
  by (relation "measure (\<lambda>(api, lim, bv, max_segs, nsegs, total_len, len). unat max_segs - unat nsegs)")
    (auto simp: unat_Suc_less word_less_nat_alt)

declare segs_loop.simps [simp del]

text \<open>The result is whether to split, the number of segments and the number of bytes.\<close>

definition bvec_split_segs ::
  "sapi \<Rightarrow> queue_limits \<Rightarrow> bio_vec \<Rightarrow> u32 \<Rightarrow> u32 \<Rightarrow> u32 \<Rightarrow> u32 \<Rightarrow> bool \<times> u32 \<times> u32" where
  "bvec_split_segs api lim bv nsegs bytes max_segs max_bytes =
     (let max_len = max_bytes - bytes in
      case segs_loop api lim bv max_segs nsegs 0 (min (bv_len bv) max_len) of
        (nsegs', total_len, len) \<Rightarrow> (len > 0 \<or> bv_len bv > max_len, nsegs', bytes + total_len))"

definition bio_split_alignment :: "sapi \<Rightarrow> bio \<Rightarrow> queue_limits \<Rightarrow> u32" where
  "bio_split_alignment api b lim =
     (if s_op_is_write api (bi_op b) \<and> lim_zone_write_granularity lim \<noteq> 0
      then lim_zone_write_granularity lim else lim_logical_block_size lim)"

definition bvec_seg_gap :: "bio_vec \<Rightarrow> bio_vec \<Rightarrow> u32" where
  "bvec_seg_gap bvprv bv = bv_offset bv OR (bv_offset bvprv + bv_len bvprv)"

section \<open>Where to split\<close>

datatype walk = Walk_error int | Walk_split u32 u32 u32 | Walk_done u32 u32 u32

fun walk_bvecs ::
  "sapi \<Rightarrow> queue_limits \<Rightarrow> u32 \<Rightarrow> u32 \<Rightarrow> u32 \<Rightarrow> bio_vec list \<Rightarrow> bio_vec option \<Rightarrow> u32 \<Rightarrow> u32 \<Rightarrow> u32 \<Rightarrow> walk" where
  "walk_bvecs api lim max_bytes start_mask len_mask [] prv nsegs bytes gaps = Walk_done nsegs bytes gaps"
| "walk_bvecs api lim max_bytes start_mask len_mask (bv # bvs) prv nsegs bytes gaps =
     (if bv_offset bv AND start_mask \<noteq> 0 \<or> bv_len bv AND len_mask \<noteq> 0 then Walk_error (- E_INVAL)
      else if (case prv of None \<Rightarrow> False | Some p \<Rightarrow> s_gap_to_prev api lim p (bv_offset bv))
      then Walk_split nsegs bytes gaps
      else let gaps' = (case prv of None \<Rightarrow> gaps | Some p \<Rightarrow> gaps OR bvec_seg_gap p bv) in
        if nsegs < lim_max_segments lim \<and> bytes + bv_len bv \<le> max_bytes \<and>
           bv_offset bv + bv_len bv \<le> lim_max_fast_segment_size lim
        then walk_bvecs api lim max_bytes start_mask len_mask bvs (Some bv) (nsegs + 1) (bytes + bv_len bv) gaps'
        else (case bvec_split_segs api lim bv nsegs bytes (lim_max_segments lim) max_bytes of
                (split, nsegs', bytes') \<Rightarrow>
                  if split then Walk_split nsegs' bytes' gaps'
                  else walk_bvecs api lim max_bytes start_mask len_mask bvs (Some bv) nsegs' bytes' gaps'))"

text \<open>Result: the code's return value, the number of segments if it is set, and the descriptor.\<close>

definition bio_split_io_at ::
  "sapi \<Rightarrow> bio \<Rightarrow> queue_limits \<Rightarrow> u32 \<Rightarrow> u32 \<Rightarrow> int \<times> u32 option \<times> bio" where
  "bio_split_io_at api b lim max_bytes len_align_mask =
     (let unit_mask = (case s_crypt_unit api b of None \<Rightarrow> 0 | Some u \<Rightarrow> u - 1) in
      case walk_bvecs api lim max_bytes (lim_dma_alignment lim OR unit_mask) (len_align_mask OR unit_mask)
             (s_bvecs api b) None 0 0 0 of
        Walk_error e \<Rightarrow> (e, None, b)
      | Walk_done nsegs bytes gaps \<Rightarrow> (0, Some nsegs, b\<lparr>bi_gap_bit := s_ffs api gaps\<rparr>)
      | Walk_split nsegs bytes gaps \<Rightarrow>
          if REQ_ATOMIC \<in> bi_opf b then (- E_INVAL, None, b)
          else if REQ_NOWAIT \<in> bi_opf b then (- E_AGAIN, None, b)
          else let bytes' = s_align_down api bytes (bio_split_alignment api b lim) in
            if bytes' = 0 then (- E_INVAL, Some nsegs, b)
            else (uint (drop_bit 9 bytes'), Some nsegs,
                  b\<lparr>bi_opf := bi_opf b - {REQ_POLLED}, bi_gap_bit := s_ffs api gaps\<rparr>))"

definition split_at_and_submit ::
  "sapi \<Rightarrow> nat \<Rightarrow> int \<times> u32 option \<times> bio \<Rightarrow> blk \<Rightarrow> (nat option \<times> u32 option \<times> blk) option" where
  "split_at_and_submit api a r s =
     (case r of (n, segs, b') \<Rightarrow>
        map_option (\<lambda>(c, s'). (c, segs, s')) (bio_submit_split api a n (put_bio a b' s)))"

definition bio_split_rw ::
  "sapi \<Rightarrow> nat \<Rightarrow> queue_limits \<Rightarrow> blk \<Rightarrow> (nat option \<times> u32 option \<times> blk) option" where
  "bio_split_rw api a lim s =
     (case bk_bios s a of
        None \<Rightarrow> None
      | Some b \<Rightarrow> split_at_and_submit api a
          (bio_split_io_at api b lim (push_bit 9 (get_max_io_size api b lim)) (s_rw_len_mask api lim)) s)"

definition bio_split_zone_append ::
  "sapi \<Rightarrow> nat \<Rightarrow> queue_limits \<Rightarrow> blk \<Rightarrow> (nat option \<times> u32 option \<times> blk) option" where
  "bio_split_zone_append api a lim s =
     (case bk_bios s a of
        None \<Rightarrow> None
      | Some b \<Rightarrow>
          (case bio_split_io_at api b lim (push_bit 9 (lim_max_zone_append_sectors lim)) (s_rw_len_mask api lim) of
             (n, segs, b') \<Rightarrow> split_at_and_submit api a (if n > 0 then - E_INVAL else n, segs, b') s))"

definition bio_split_write_zeroes ::
  "sapi \<Rightarrow> nat \<Rightarrow> queue_limits \<Rightarrow> blk \<Rightarrow> (nat option \<times> blk) option" where
  "bio_split_write_zeroes api a lim s =
     (case bk_bios s a of
        None \<Rightarrow> None
      | Some b \<Rightarrow>
          let max_sectors = get_max_io_size api b lim in
          if max_sectors = 0 then Some (Some a, s)
          else if b_sectors (s_b api) b \<le> max_sectors then Some (Some a, s)
          else bio_submit_split api a (sint max_sectors) s)"

end
