(* ===== verification/BlockMerge.thy ===== *)
theory BlockMerge
  imports BlockSplit "HOL-Library.Monad_Syntax"
begin

text \<open>
  Merging of descriptors into requests (\<open>readaround-split/src/block/blk-merge.c\<close>, second
  half). A request holds the list of its descriptors (\<open>bio\<close>, linked by \<open>bi_next\<close> up to
  \<open>biotail\<close>). Header functions, the elevator, cgroup, integrity and encryption checks are the
  record \<open>mapi\<close>; \<open>__sector\<close> and \<open>__data_len\<close> are read by \<open>blk_rq_pos\<close> and
  \<open>blk_rq_bytes\<close>. The value \<open>None\<close> is an access outside a vector table or to a missing
  descriptor. Statistics, tracing and quality-of-service callbacks are left out, as are the notices
  to the elevator (\<open>elv_merge_requests\<close>, \<open>elv_merged_request\<close>) and the release of encryption
  contexts, whose state is not part of a request here.
\<close>

unbundle bit_operations_syntax

section \<open>Requests\<close>

datatype rq_flag =
  RQF_MIXED_MERGE | RQF_IO_STAT | RQF_ZONE_WRITE_PLUGGING | RQF_FLUSH_SEQ | RQF_QUIET | RQF_SPECIAL_PAYLOAD
| RQF_SCHED_TAGS | RQF_USE_SCHED | RQF_STATS | RQF_TIMED_OUT | RQF_DONTPREP
| RQF_PM | RQF_RESV

datatype elv_merge = ELEVATOR_NO_MERGE | ELEVATOR_FRONT_MERGE | ELEVATOR_BACK_MERGE | ELEVATOR_DISCARD_MERGE

datatype bio_merge_status = BIO_MERGE_OK | BIO_MERGE_NONE | BIO_MERGE_FAILED

datatype mq_rq_state = MQ_RQ_IDLE | MQ_RQ_IN_FLIGHT | MQ_RQ_COMPLETE

record request =
  rq_q :: nat
  rq_mq_ctx :: nat
  rq_mq_hctx :: nat
  rq_state :: mq_rq_state
  rq_op :: req_op
  rq_cmd_flags :: "req_flag set"
  rq_rq_flags :: "rq_flag set"
  rq_sector :: u64
  rq_data_len :: u32
  rq_nr_phys_segments :: u16
  rq_nr_integrity_segments :: u16
  rq_phys_gap_bit :: u8
  rq_start_time_ns :: u64
  rq_io_start_time_ns :: u64
  rq_stats_sectors :: u16
  rq_tag :: "nat option"
  rq_internal_tag :: "nat option"
  rq_timeout :: u32
  rq_deadline :: u64
  rq_ref :: u32
  rq_end_io :: "nat option"
  rq_bios :: "bio list"

record mapi =
  m_s :: sapi
  m_lim :: "nat \<Rightarrow> queue_limits"
  m_rq_sectors :: "request \<Rightarrow> u32"
  m_virt_boundary :: "nat \<Rightarrow> u64"
  m_first_bvec :: "bio \<Rightarrow> bio_vec"
  m_advance_iter :: "bio \<Rightarrow> bvec_iter \<Rightarrow> u32 \<Rightarrow> bvec_iter"
  m_has_data :: "bio \<Rightarrow> bool"
  m_phys_mergeable :: "nat \<Rightarrow> bio_vec \<Rightarrow> bio_vec \<Rightarrow> bool"
  m_gap_to_prev :: "queue_limits \<Rightarrow> bio_vec \<Rightarrow> u32 \<Rightarrow> bool"
  m_max_discard_segments :: "nat \<Rightarrow> u16"
  m_passthrough :: "request \<Rightarrow> bool"
  m_queue_max_sectors :: "request \<Rightarrow> u32"
  m_rq_max_segments :: "request \<Rightarrow> u32"
  m_cgroup_mergeable :: "request \<Rightarrow> bio \<Rightarrow> bool"
  m_integrity_merge_bio :: "request \<Rightarrow> bio \<Rightarrow> bool"
  m_integrity_merge_rq :: "nat \<Rightarrow> request \<Rightarrow> request \<Rightarrow> bool"
  m_integrity_rq :: "request \<Rightarrow> bool"
  m_integrity_gap_back :: "request \<Rightarrow> bio \<Rightarrow> bool"
  m_integrity_gap_front :: "request \<Rightarrow> bio \<Rightarrow> bool"
  m_crypt_back_mergeable :: "request \<Rightarrow> bio \<Rightarrow> bool"
  m_crypt_front_mergeable :: "request \<Rightarrow> bio \<Rightarrow> bool"
  m_crypt_merge_rq :: "request \<Rightarrow> request \<Rightarrow> bool"
  m_crypt_compatible :: "request \<Rightarrow> bio \<Rightarrow> bool"
  m_bio_integrity :: "bio \<Rightarrow> bool"
  m_count_integrity_sg :: "nat \<Rightarrow> bio \<Rightarrow> u16"
  m_set_nomerge :: "request \<Rightarrow> request"
  m_rq_mergeable :: "request \<Rightarrow> bool"
  m_bio_mergeable :: "bio \<Rightarrow> bool"
  m_discard_mergable :: "request \<Rightarrow> bool"
  m_nr_discard_segments :: "request \<Rightarrow> u16"
  m_min_not_zero :: "u8 \<Rightarrow> u8 \<Rightarrow> u8"
  m_zone_bio_merged :: "bio \<Rightarrow> bio"
  m_sched_allow_merge :: "nat \<Rightarrow> request \<Rightarrow> bio \<Rightarrow> bool"

abbreviation m_sectors :: "mapi \<Rightarrow> bio \<Rightarrow> u32" where "m_sectors api \<equiv> b_sectors (s_b (m_s api))"

definition rq_bio :: "request \<Rightarrow> bio option" where
  "rq_bio rq = (if rq_bios rq = [] then None else Some (hd (rq_bios rq)))"

definition rq_biotail :: "request \<Rightarrow> bio option" where
  "rq_biotail rq = (if rq_bios rq = [] then None else Some (List.last (rq_bios rq)))"

definition REQ_FAILFAST_MASK :: "req_flag set" where
  "REQ_FAILFAST_MASK = {REQ_FAILFAST_DEV, REQ_FAILFAST_TRANSPORT, REQ_FAILFAST_DRIVER}"

section \<open>Gaps between descriptors\<close>

definition bio_get_last_bvec :: "mapi \<Rightarrow> bio \<Rightarrow> bio_vec option" where
  "bio_get_last_bvec api b =
     (let bv = m_first_bvec api b in
      if bv_len bv = bi_size b then Some bv
      else let iter = m_advance_iter api b (bi_iter b) (bi_size b);
               idx = unat (if it_done iter = 0 then it_idx iter - 1 else it_idx iter)
           in if idx < length (bi_io_vec b)
              then Some (let v = bi_io_vec b ! idx in
                         if it_done iter \<noteq> 0 then v\<lparr>bv_len := it_done iter\<rparr> else v)
              else None)"

definition bio_will_gap :: "mapi \<Rightarrow> nat \<Rightarrow> request option \<Rightarrow> bio \<Rightarrow> bio \<Rightarrow> bool option" where
  "bio_will_gap api q prev_rq prv nxt =
     (if \<not> m_has_data api prv \<or> m_virt_boundary api q = 0 then Some False
      else do {
        fb \<leftarrow> (case prev_rq of Some rq \<Rightarrow> rq_bio rq | None \<Rightarrow> Some prv);
        if ucast (bv_offset (m_first_bvec api fb)) AND m_virt_boundary api q \<noteq> 0 then Some True
        else do {
          pb \<leftarrow> bio_get_last_bvec api prv;
          let nb = m_first_bvec api nxt;
          if m_phys_mergeable api q pb nb then Some False
          else Some (m_gap_to_prev api (m_lim api q) pb (bv_offset nb))
        }
      })"

definition req_gap_back_merge :: "mapi \<Rightarrow> request \<Rightarrow> bio \<Rightarrow> bool option" where
  "req_gap_back_merge api req b = do { t \<leftarrow> rq_biotail req; bio_will_gap api (rq_q req) (Some req) t b }"

definition req_gap_front_merge :: "mapi \<Rightarrow> request \<Rightarrow> bio \<Rightarrow> bool option" where
  "req_gap_front_merge api req b = do { h \<leftarrow> rq_bio req; bio_will_gap api (rq_q req) None b h }"

definition bio_seg_gap :: "mapi \<Rightarrow> nat \<Rightarrow> bio \<Rightarrow> bio \<Rightarrow> u8 \<Rightarrow> u8 option" where
  "bio_seg_gap api q prv nxt gaps_bit =
     (if \<not> m_has_data api prv then Some 0
      else do {
        let g1 = m_min_not_zero api gaps_bit (bi_gap_bit prv);
        let g2 = m_min_not_zero api g1 (bi_gap_bit nxt);
        pb \<leftarrow> bio_get_last_bvec api prv;
        let nb = m_first_bvec api nxt;
        Some (if \<not> m_phys_mergeable api q pb nb
              then m_min_not_zero api g2 (s_ffs (m_s api) (bvec_seg_gap pb nb)) else g2)
      })"

section \<open>Limits of a request\<close>

definition blk_recalc_rq_segments :: "mapi \<Rightarrow> request \<Rightarrow> u32" where
  "blk_recalc_rq_segments api rq =
     (case rq_bio rq of
        None \<Rightarrow> 0
      | Some b \<Rightarrow>
          if bi_op b = REQ_OP_DISCARD \<or> bi_op b = REQ_OP_SECURE_ERASE
          then (if m_max_discard_segments api (rq_q rq) > 1 then of_nat (length (rq_bios rq)) else 1)
          else if bi_op b = REQ_OP_WRITE_ZEROES then 0
          else fst (foldl (\<lambda>(nsegs, bytes) bv.
                             case bvec_split_segs (m_s api) (m_lim api (rq_q rq)) bv nsegs bytes (- 1)
                                    (b_max_size (s_b (m_s api))) of
                               (sp, nsegs', bytes') \<Rightarrow> (nsegs', bytes'))
                      (0, 0) (concat (map (s_bvecs (m_s api)) (rq_bios rq)))))"

definition blk_rq_get_max_sectors :: "mapi \<Rightarrow> request \<Rightarrow> u64 \<Rightarrow> u32" where
  "blk_rq_get_max_sectors api rq offset =
     (let lim = m_lim api (rq_q rq); is_atomic = (REQ_ATOMIC \<in> rq_cmd_flags rq) in
      if m_passthrough api rq then lim_max_hw_sectors lim
      else let boundary_sectors = blk_boundary_sectors lim is_atomic;
               max_sectors = m_queue_max_sectors api rq
           in if boundary_sectors = 0 \<or> rq_op rq = REQ_OP_DISCARD \<or> rq_op rq = REQ_OP_SECURE_ERASE
              then max_sectors
              else min max_sectors (s_boundary_left (m_s api) offset boundary_sectors))"

definition ll_new_hw_segment :: "mapi \<Rightarrow> request \<Rightarrow> bio \<Rightarrow> u32 \<Rightarrow> bool \<times> request" where
  "ll_new_hw_segment api req b nr_phys_segs =
     (if \<not> m_cgroup_mergeable api req b then (False, m_set_nomerge api req)
      else if \<not> m_integrity_merge_bio api req b then (False, m_set_nomerge api req)
      else if rq_op req = REQ_OP_DISCARD then (True, req)
      else if ucast (rq_nr_phys_segments req) + nr_phys_segs > m_rq_max_segments api req
      then (False, m_set_nomerge api req)
      else (True, req\<lparr>rq_nr_phys_segments := rq_nr_phys_segments req + ucast nr_phys_segs,
                      rq_nr_integrity_segments :=
                        (if m_bio_integrity api b
                         then rq_nr_integrity_segments req + m_count_integrity_sg api (rq_q req) b
                         else rq_nr_integrity_segments req)\<rparr>))"

definition ll_back_merge_fn :: "mapi \<Rightarrow> request \<Rightarrow> bio \<Rightarrow> u32 \<Rightarrow> (bool \<times> request) option" where
  "ll_back_merge_fn api req b nr_segs = do {
     gap \<leftarrow> req_gap_back_merge api req b;
     if gap then Some (False, req)
     else if m_integrity_rq api req \<and> m_integrity_gap_back api req b then Some (False, req)
     else if \<not> m_crypt_back_mergeable api req b then Some (False, req)
     else if m_rq_sectors api req + m_sectors api b > blk_rq_get_max_sectors api req (rq_sector req)
     then Some (False, m_set_nomerge api req)
     else Some (ll_new_hw_segment api req b nr_segs)
   }"

definition ll_front_merge_fn :: "mapi \<Rightarrow> request \<Rightarrow> bio \<Rightarrow> u32 \<Rightarrow> (bool \<times> request) option" where
  "ll_front_merge_fn api req b nr_segs = do {
     gap \<leftarrow> req_gap_front_merge api req b;
     if gap then Some (False, req)
     else if m_integrity_rq api req \<and> m_integrity_gap_front api req b then Some (False, req)
     else if \<not> m_crypt_front_mergeable api req b then Some (False, req)
     else if m_rq_sectors api req + m_sectors api b > blk_rq_get_max_sectors api req (bi_sector b)
     then Some (False, m_set_nomerge api req)
     else Some (ll_new_hw_segment api req b nr_segs)
   }"

definition req_attempt_discard_merge :: "mapi \<Rightarrow> nat \<Rightarrow> request \<Rightarrow> request \<Rightarrow> (bool \<times> request) option" where
  "req_attempt_discard_merge api q req nxt =
     (let segments = m_nr_discard_segments api req in
      if segments \<ge> m_max_discard_segments api q then Some (False, m_set_nomerge api req)
      else do {
        nb \<leftarrow> rq_bio nxt;
        if m_rq_sectors api req + m_sectors api nb > blk_rq_get_max_sectors api req (rq_sector req)
        then Some (False, m_set_nomerge api req)
        else Some (True, req\<lparr>rq_nr_phys_segments := segments + m_nr_discard_segments api nxt\<rparr>)
      })"

definition ll_merge_requests_fn :: "mapi \<Rightarrow> nat \<Rightarrow> request \<Rightarrow> request \<Rightarrow> (bool \<times> request) option" where
  "ll_merge_requests_fn api q req nxt = do {
     nb \<leftarrow> rq_bio nxt;
     gap \<leftarrow> req_gap_back_merge api req nb;
     let total_phys = (ucast (rq_nr_phys_segments req) + ucast (rq_nr_phys_segments nxt) :: u32);
     if gap then Some (False, req)
     else if m_rq_sectors api req + m_rq_sectors api nxt > blk_rq_get_max_sectors api req (rq_sector req)
     then Some (False, req)
     else if total_phys > m_rq_max_segments api req then Some (False, req)
     else if \<not> m_cgroup_mergeable api req nb then Some (False, req)
     else if \<not> m_integrity_merge_rq api q req nxt then Some (False, req)
     else if \<not> m_crypt_merge_rq api req nxt then Some (False, req)
     else Some (True, req\<lparr>rq_nr_phys_segments := ucast total_phys,
                         rq_nr_integrity_segments := rq_nr_integrity_segments req + rq_nr_integrity_segments nxt\<rparr>)
   }"

section \<open>Mixed merges\<close>

definition blk_rq_set_mixed_merge :: "request \<Rightarrow> request" where
  "blk_rq_set_mixed_merge rq =
     (if RQF_MIXED_MERGE \<in> rq_rq_flags rq then rq
      else rq\<lparr>rq_bios := map (\<lambda>b. b\<lparr>bi_opf := bi_opf b \<union> (rq_cmd_flags rq \<inter> REQ_FAILFAST_MASK)\<rparr>) (rq_bios rq),
              rq_rq_flags := insert RQF_MIXED_MERGE (rq_rq_flags rq)\<rparr>)"

definition bio_failfast :: "bio \<Rightarrow> req_flag set" where
  "bio_failfast b = (if REQ_RAHEAD \<in> bi_opf b then REQ_FAILFAST_MASK else bi_opf b \<inter> REQ_FAILFAST_MASK)"

definition blk_update_mixed_merge :: "request \<Rightarrow> bio \<Rightarrow> bool \<Rightarrow> request \<times> bio" where
  "blk_update_mixed_merge req b front_merge =
     (if RQF_MIXED_MERGE \<in> rq_rq_flags req
      then let b1 = (if REQ_RAHEAD \<in> bi_opf b then b\<lparr>bi_opf := bi_opf b \<union> REQ_FAILFAST_MASK\<rparr> else b)
           in (if front_merge
               then req\<lparr>rq_cmd_flags := (rq_cmd_flags req - REQ_FAILFAST_MASK) \<union> (bi_opf b1 \<inter> REQ_FAILFAST_MASK)\<rparr>
               else req, b1)
      else (req, b))"

section \<open>Merging two requests\<close>

definition blk_try_req_merge :: "mapi \<Rightarrow> request \<Rightarrow> request \<Rightarrow> elv_merge" where
  "blk_try_req_merge api req nxt =
     (if m_discard_mergable api req then ELEVATOR_DISCARD_MERGE
      else if rq_sector req + ucast (m_rq_sectors api req) = rq_sector nxt then ELEVATOR_BACK_MERGE
      else ELEVATOR_NO_MERGE)"

definition blk_atomic_write_mergeable_rq_bio :: "request \<Rightarrow> bio \<Rightarrow> bool" where
  "blk_atomic_write_mergeable_rq_bio rq b \<longleftrightarrow> (REQ_ATOMIC \<in> rq_cmd_flags rq \<longleftrightarrow> REQ_ATOMIC \<in> bi_opf b)"

definition blk_atomic_write_mergeable_rqs :: "request \<Rightarrow> request \<Rightarrow> bool" where
  "blk_atomic_write_mergeable_rqs rq nxt \<longleftrightarrow> (REQ_ATOMIC \<in> rq_cmd_flags rq \<longleftrightarrow> REQ_ATOMIC \<in> rq_cmd_flags nxt)"

text \<open>
  The result is whether the second request was merged, and both requests; a merged request has no
  descriptors left.
\<close>

definition attempt_merge :: "mapi \<Rightarrow> nat \<Rightarrow> request \<Rightarrow> request \<Rightarrow> (bool \<times> request \<times> request) option" where
  "attempt_merge api q req nxt =
     (if \<not> m_rq_mergeable api req \<or> \<not> m_rq_mergeable api nxt then Some (False, req, nxt)
      else if rq_op req \<noteq> rq_op nxt then Some (False, req, nxt)
      else do {
        rb \<leftarrow> rq_bio req;
        nb \<leftarrow> rq_bio nxt;
        if bi_write_hint rb \<noteq> bi_write_hint nb then Some (False, req, nxt)
        else if bi_write_stream rb \<noteq> bi_write_stream nb then Some (False, req, nxt)
        else if bi_ioprio rb \<noteq> bi_ioprio nb then Some (False, req, nxt)
        else if \<not> blk_atomic_write_mergeable_rqs req nxt then Some (False, req, nxt)
        else do {
          r \<leftarrow> (case blk_try_req_merge api req nxt of
                 ELEVATOR_DISCARD_MERGE \<Rightarrow> req_attempt_discard_merge api q req nxt
               | ELEVATOR_BACK_MERGE \<Rightarrow> ll_merge_requests_fn api q req nxt
               | _ \<Rightarrow> Some (False, req));
          if \<not> fst r then Some (False, snd r, nxt)
          else do {
            let mixed = (RQF_MIXED_MERGE \<in> rq_rq_flags (snd r) \<union> rq_rq_flags nxt \<or>
                 rq_cmd_flags (snd r) \<inter> REQ_FAILFAST_MASK \<noteq> rq_cmd_flags nxt \<inter> REQ_FAILFAST_MASK);
            let req1 = (if mixed then blk_rq_set_mixed_merge (snd r) else snd r);
            let nxt1 = (if mixed then blk_rq_set_mixed_merge nxt else nxt);
            tb \<leftarrow> rq_biotail req1;
            hb \<leftarrow> rq_bio nxt1;
            g \<leftarrow> bio_seg_gap api (rq_q req1) tb hb
                   (m_min_not_zero api (rq_phys_gap_bit nxt1) (rq_phys_gap_bit req1));
            Some (True,
                  req1\<lparr>rq_start_time_ns := min (rq_start_time_ns req1) (rq_start_time_ns nxt1),
                       rq_phys_gap_bit := g,
                       rq_bios := rq_bios req1 @ rq_bios nxt1,
                       rq_data_len := rq_data_len req1 + rq_data_len nxt1\<rparr>,
                  nxt1\<lparr>rq_bios := []\<rparr>)
          }
        }
      })"

section \<open>Merging a descriptor\<close>

definition blk_rq_merge_ok :: "mapi \<Rightarrow> request \<Rightarrow> bio \<Rightarrow> bool option" where
  "blk_rq_merge_ok api rq b =
     (if \<not> m_rq_mergeable api rq \<or> \<not> m_bio_mergeable api b then Some False
      else if rq_op rq \<noteq> bi_op b then Some False
      else if \<not> m_cgroup_mergeable api rq b then Some False
      else if \<not> m_integrity_merge_bio api rq b then Some False
      else if \<not> m_crypt_compatible api rq b then Some False
      else do {
        h \<leftarrow> rq_bio rq;
        Some (bi_write_hint h = bi_write_hint b \<and> bi_write_stream h = bi_write_stream b \<and>
              bi_ioprio h = bi_ioprio b \<and> blk_atomic_write_mergeable_rq_bio rq b)
      })"

definition blk_try_merge :: "mapi \<Rightarrow> request \<Rightarrow> bio \<Rightarrow> elv_merge" where
  "blk_try_merge api rq b =
     (if m_discard_mergable api rq then ELEVATOR_DISCARD_MERGE
      else if rq_sector rq + ucast (m_rq_sectors api rq) = bi_sector b then ELEVATOR_BACK_MERGE
      else if rq_sector rq - ucast (m_sectors api b) = bi_sector b then ELEVATOR_FRONT_MERGE
      else ELEVATOR_NO_MERGE)"

definition bio_attempt_back_merge :: "mapi \<Rightarrow> request \<Rightarrow> bio \<Rightarrow> u32 \<Rightarrow> (bio_merge_status \<times> request) option" where
  "bio_attempt_back_merge api req b nr_segs = do {
     r \<leftarrow> ll_back_merge_fn api req b nr_segs;
     if \<not> fst r then Some (BIO_MERGE_FAILED, snd r)
     else do {
       let req1 = (if rq_cmd_flags (snd r) \<inter> REQ_FAILFAST_MASK \<noteq> bio_failfast b
                   then blk_rq_set_mixed_merge (snd r) else snd r);
       let (req2, b0) = blk_update_mixed_merge req1 b False;
       let b1 = (if RQF_ZONE_WRITE_PLUGGING \<in> rq_rq_flags req2 then m_zone_bio_merged api b0 else b0);
       tb \<leftarrow> rq_biotail req2;
       g \<leftarrow> bio_seg_gap api (rq_q req2) tb b1 (rq_phys_gap_bit req2);
       Some (BIO_MERGE_OK, req2\<lparr>rq_phys_gap_bit := g, rq_bios := rq_bios req2 @ [b1],
                                rq_data_len := rq_data_len req2 + bi_size b1\<rparr>)
     }
   }"

definition bio_attempt_front_merge :: "mapi \<Rightarrow> request \<Rightarrow> bio \<Rightarrow> u32 \<Rightarrow> (bio_merge_status \<times> request) option" where
  "bio_attempt_front_merge api req b nr_segs =
     (if RQF_ZONE_WRITE_PLUGGING \<in> rq_rq_flags req then Some (BIO_MERGE_FAILED, req)
      else do {
        r \<leftarrow> ll_front_merge_fn api req b nr_segs;
        if \<not> fst r then Some (BIO_MERGE_FAILED, snd r)
        else do {
          let req1 = (if rq_cmd_flags (snd r) \<inter> REQ_FAILFAST_MASK \<noteq> bio_failfast b
                      then blk_rq_set_mixed_merge (snd r) else snd r);
          let (req2, b1) = blk_update_mixed_merge req1 b True;
          hb \<leftarrow> rq_bio req2;
          g \<leftarrow> bio_seg_gap api (rq_q req2) b1 hb (rq_phys_gap_bit req2);
          Some (BIO_MERGE_OK, req2\<lparr>rq_phys_gap_bit := g, rq_bios := b1 # rq_bios req2,
                                   rq_sector := bi_sector b1,
                                   rq_data_len := rq_data_len req2 + bi_size b1\<rparr>)
        }
      })"

definition bio_attempt_discard_merge :: "mapi \<Rightarrow> nat \<Rightarrow> request \<Rightarrow> bio \<Rightarrow> bio_merge_status \<times> request" where
  "bio_attempt_discard_merge api q req b =
     (let segments = m_nr_discard_segments api req in
      if segments \<ge> m_max_discard_segments api q then (BIO_MERGE_FAILED, m_set_nomerge api req)
      else if m_rq_sectors api req + m_sectors api b > blk_rq_get_max_sectors api req (rq_sector req)
      then (BIO_MERGE_FAILED, m_set_nomerge api req)
      else (BIO_MERGE_OK, req\<lparr>rq_bios := rq_bios req @ [b], rq_data_len := rq_data_len req + bi_size b,
                              rq_nr_phys_segments := segments + 1\<rparr>))"

definition blk_attempt_bio_merge ::
  "mapi \<Rightarrow> nat \<Rightarrow> request \<Rightarrow> bio \<Rightarrow> u32 \<Rightarrow> bool \<Rightarrow> (bio_merge_status \<times> request) option" where
  "blk_attempt_bio_merge api q rq b nr_segs sched_allow_merge = do {
     ok \<leftarrow> blk_rq_merge_ok api rq b;
     if \<not> ok then Some (BIO_MERGE_NONE, rq)
     else (case blk_try_merge api rq b of
             ELEVATOR_BACK_MERGE \<Rightarrow>
               if \<not> sched_allow_merge \<or> m_sched_allow_merge api q rq b
               then bio_attempt_back_merge api rq b nr_segs else Some (BIO_MERGE_FAILED, rq)
           | ELEVATOR_FRONT_MERGE \<Rightarrow>
               if \<not> sched_allow_merge \<or> m_sched_allow_merge api q rq b
               then bio_attempt_front_merge api rq b nr_segs else Some (BIO_MERGE_FAILED, rq)
           | ELEVATOR_DISCARD_MERGE \<Rightarrow> Some (bio_attempt_discard_merge api q rq b)
           | ELEVATOR_NO_MERGE \<Rightarrow> Some (BIO_MERGE_NONE, rq))
   }"

section \<open>Merging into lists of requests\<close>

text \<open>The plug list of the task, oldest request first; the first request of the queue is tried.\<close>

fun plug_scan :: "mapi \<Rightarrow> nat \<Rightarrow> bio \<Rightarrow> u32 \<Rightarrow> request list \<Rightarrow> (bool \<times> request list) option" where
  "plug_scan api q b nr_segs [] = Some (False, [])"
| "plug_scan api q b nr_segs (rq # rqs) =
     (if rq_q rq \<noteq> q
      then map_option (\<lambda>(m, l). (m, rq # l)) (plug_scan api q b nr_segs rqs)
      else map_option (\<lambda>(st, rq'). (st = BIO_MERGE_OK, rq' # rqs))
             (blk_attempt_bio_merge api q rq b nr_segs False))"

definition blk_attempt_plug_merge ::
  "mapi \<Rightarrow> nat \<Rightarrow> bio \<Rightarrow> u32 \<Rightarrow> bool \<Rightarrow> request list \<Rightarrow> (bool \<times> request list) option" where
  "blk_attempt_plug_merge api q b nr_segs multiple_queues plug =
     (if plug = [] then Some (False, plug)
      else let rq = List.last plug in
        if rq_q rq = q
        then map_option (\<lambda>(st, rq'). (st = BIO_MERGE_OK, butlast plug @ [rq']))
               (blk_attempt_bio_merge api q rq b nr_segs False)
        else if \<not> multiple_queues then Some (False, plug)
        else plug_scan api q b nr_segs plug)"

text \<open>The walk from the newest request backwards over at most \<open>n\<close> requests; the list is given newest first.\<close>

fun list_scan :: "mapi \<Rightarrow> nat \<Rightarrow> bio \<Rightarrow> u32 \<Rightarrow> nat \<Rightarrow> request list \<Rightarrow> (bool \<times> request list) option" where
  "list_scan api q b nr_segs n [] = Some (False, [])"
| "list_scan api q b nr_segs 0 (rq # rqs) = Some (False, rq # rqs)"
| "list_scan api q b nr_segs (Suc n) (rq # rqs) = do {
     r \<leftarrow> blk_attempt_bio_merge api q rq b nr_segs True;
     case fst r of
       BIO_MERGE_NONE \<Rightarrow> map_option (\<lambda>(m, l). (m, snd r # l)) (list_scan api q b nr_segs n rqs)
     | BIO_MERGE_OK \<Rightarrow> Some (True, snd r # rqs)
     | BIO_MERGE_FAILED \<Rightarrow> Some (False, snd r # rqs)
   }"

definition blk_bio_list_merge ::
  "mapi \<Rightarrow> nat \<Rightarrow> request list \<Rightarrow> bio \<Rightarrow> u32 \<Rightarrow> (bool \<times> request list) option" where
  "blk_bio_list_merge api q rqs b nr_segs =
     map_option (\<lambda>(m, l). (m, rev l)) (list_scan api q b nr_segs 8 (rev rqs))"

section \<open>The elevator's merge\<close>

text \<open>
  The scheduler's requests are a store; \<open>elv_merge\<close> chooses a request and a kind of merge,
  \<open>latter\<close> and \<open>former\<close> are its neighbours. The result is whether the descriptor was merged,
  the request that became empty (\<open>merged_request\<close>), and the store.
\<close>

definition merge_pair ::
  "mapi \<Rightarrow> nat \<Rightarrow> nat \<Rightarrow> nat \<Rightarrow> (nat \<Rightarrow> request) \<Rightarrow> (nat option \<times> (nat \<Rightarrow> request)) option" where
  "merge_pair api q i j rqs =
     map_option (\<lambda>(m, r, n). (if m then Some j else None, rqs(i := r, j := n)))
       (attempt_merge api q (rqs i) (rqs j))"

definition attempt_back_merge ::
  "mapi \<Rightarrow> nat \<Rightarrow> (nat \<Rightarrow> nat option) \<Rightarrow> nat \<Rightarrow> (nat \<Rightarrow> request) \<Rightarrow> (nat option \<times> (nat \<Rightarrow> request)) option" where
  "attempt_back_merge api q latter i rqs =
     (case latter i of None \<Rightarrow> Some (None, rqs) | Some j \<Rightarrow> merge_pair api q i j rqs)"

definition attempt_front_merge ::
  "mapi \<Rightarrow> nat \<Rightarrow> (nat \<Rightarrow> nat option) \<Rightarrow> nat \<Rightarrow> (nat \<Rightarrow> request) \<Rightarrow> (nat option \<times> (nat \<Rightarrow> request)) option" where
  "attempt_front_merge api q former i rqs =
     (case former i of None \<Rightarrow> Some (None, rqs) | Some j \<Rightarrow> merge_pair api q j i rqs)"

definition blk_attempt_req_merge :: "mapi \<Rightarrow> nat \<Rightarrow> request \<Rightarrow> request \<Rightarrow> (bool \<times> request \<times> request) option" where
  "blk_attempt_req_merge api q rq nxt = attempt_merge api q rq nxt"

definition blk_mq_sched_try_merge ::
  "mapi \<Rightarrow> nat \<Rightarrow> (bio \<Rightarrow> elv_merge \<times> nat) \<Rightarrow> (nat \<Rightarrow> nat option) \<Rightarrow> (nat \<Rightarrow> nat option) \<Rightarrow> bio \<Rightarrow> u32 \<Rightarrow>
   (nat \<Rightarrow> request) \<Rightarrow> (bool \<times> nat option \<times> (nat \<Rightarrow> request)) option" where
  "blk_mq_sched_try_merge api q elv latter former b nr_segs rqs =
     (case elv b of (kind, i) \<Rightarrow>
       (case kind of
          ELEVATOR_BACK_MERGE \<Rightarrow>
            if \<not> m_sched_allow_merge api q (rqs i) b then Some (False, None, rqs)
            else do {
              r \<leftarrow> bio_attempt_back_merge api (rqs i) b nr_segs;
              if fst r \<noteq> BIO_MERGE_OK then Some (False, None, rqs(i := snd r))
              else map_option (\<lambda>(mr, l). (True, mr, l)) (attempt_back_merge api q latter i (rqs(i := snd r)))
            }
        | ELEVATOR_FRONT_MERGE \<Rightarrow>
            if \<not> m_sched_allow_merge api q (rqs i) b then Some (False, None, rqs)
            else do {
              r \<leftarrow> bio_attempt_front_merge api (rqs i) b nr_segs;
              if fst r \<noteq> BIO_MERGE_OK then Some (False, None, rqs(i := snd r))
              else map_option (\<lambda>(mr, l). (True, mr, l)) (attempt_front_merge api q former i (rqs(i := snd r)))
            }
        | ELEVATOR_DISCARD_MERGE \<Rightarrow>
            (case bio_attempt_discard_merge api q (rqs i) b of
               (st, r) \<Rightarrow> Some (st = BIO_MERGE_OK, None, rqs(i := r)))
        | ELEVATOR_NO_MERGE \<Rightarrow> Some (False, None, rqs)))"

end
