(* ===== verification/SplitLaws.thy ===== *)
theory SplitLaws
  imports BlockSplit
begin

text \<open>
  Laws of splitting: the walk over the vectors never exceeds the byte and segment limits, a split
  point lies strictly inside the descriptor on an aligned byte, and the repository's change cuts a
  read-around read of 256 sectors into two halves of 128 that the block layer submits separately.
\<close>

unbundle bit_operations_syntax

section \<open>Segments\<close>

text \<open>\<open>get_max_segment_size\<close> never returns more than the length it is given.\<close>

definition seg_size_ok :: "sapi \<Rightarrow> bool" where
  "seg_size_ok api \<longleftrightarrow> (\<forall>lim phys len. s_max_segment_size api lim phys len \<le> len)"

lemma segs_loop_bounds:
  assumes "seg_size_ok api" and "nsegs \<le> max_segs" and "unat total_len + unat len < 2 ^ 32"
    and "segs_loop api lim bv max_segs nsegs total_len len = (n', t', l')"
  shows "n' \<le> max_segs \<and> unat t' + unat l' = unat total_len + unat len"
  using assms
proof (induction api lim bv max_segs nsegs total_len len rule: segs_loop.induct)
  case (1 api lim bv max_segs nsegs total_len len)
  let ?seg = "s_max_segment_size api lim (s_bvec_phys api bv + ucast total_len) len"
  show ?case
  proof (cases "len \<noteq> 0 \<and> nsegs < max_segs")
    case False
    then have "segs_loop api lim bv max_segs nsegs total_len len = (nsegs, total_len, len)"
      by (subst segs_loop.simps) auto
    then show ?thesis using "1.prems" by simp
  next
    case True
    have seg: "unat ?seg \<le> unat len" using "1.prems"(1) by (simp add: seg_size_ok_def word_le_nat_alt)
    have t: "unat (total_len + ?seg) = unat total_len + unat ?seg"
      using seg "1.prems"(3) by (intro unat_plus_32) linarith
    have l: "unat (len - ?seg) = unat len - unat ?seg" using seg by (simp add: unat_sub word_le_nat_alt)
    have n: "nsegs + 1 \<le> max_segs"
      using True unat_Suc_less [of nsegs max_segs] by (simp add: word_le_nat_alt word_less_nat_alt)
    have sum: "unat (total_len + ?seg) + unat (len - ?seg) = unat total_len + unat len" using t l seg by simp
    show ?thesis
    proof (cases "ucast (bv_offset bv + (total_len + ?seg)) AND lim_virt_boundary_mask lim = 0")
      case False
      then have "segs_loop api lim bv max_segs nsegs total_len len = (nsegs + 1, total_len + ?seg, len - ?seg)"
        using True by (simp add: segs_loop.simps [of api lim bv max_segs nsegs] Let_def)
      then show ?thesis using "1.prems"(4) n sum by simp
    next
      case go: True
      then have "segs_loop api lim bv max_segs (nsegs + 1) (total_len + ?seg) (len - ?seg) = (n', t', l')"
        using True "1.prems"(4) by (simp add: segs_loop.simps [of api lim bv max_segs nsegs] Let_def)
      from "1.IH" [OF True refl refl refl _ "1.prems"(1) n _ this] go sum "1.prems"(3)
      show ?thesis by simp
    qed
  qed
qed

lemma split_segs_bounds:
  assumes "seg_size_ok api" and "nsegs \<le> max_segs" and "bytes \<le> max_bytes"
    and "bvec_split_segs api lim bv nsegs bytes max_segs max_bytes = (split, n', b')"
  shows "n' \<le> max_segs \<and> bytes \<le> b' \<and> b' \<le> max_bytes \<and> unat b' \<le> unat bytes + unat (bv_len bv) \<and>
    (split \<longrightarrow> unat b' < unat bytes + unat (bv_len bv)) \<and> (\<not> split \<longrightarrow> unat b' = unat bytes + unat (bv_len bv))"
proof -
  let ?max_len = "max_bytes - bytes"
  obtain t l where lp: "segs_loop api lim bv max_segs nsegs 0 (min (bv_len bv) ?max_len) = (n', t, l)"
    and r: "split \<longleftrightarrow> l > 0 \<or> bv_len bv > ?max_len" "b' = bytes + t"
    using assms(4) by (auto simp: bvec_split_segs_def Let_def split: prod.splits)
  have b: "n' \<le> max_segs" "unat t + unat l = unat (min (bv_len bv) ?max_len)"
    using segs_loop_bounds [OF assms(1,2) _ lp] u32_bound [of "min (bv_len bv) ?max_len"] by auto
  have m: "unat (min (bv_len bv) ?max_len) = min (unat (bv_len bv)) (unat ?max_len)"
    by (simp add: min_def word_le_nat_alt)
  have ml: "unat ?max_len = unat max_bytes - unat bytes" using assms(3) by (simp add: unat_sub)
  have le: "unat bytes \<le> unat max_bytes" using assms(3) by (simp add: word_le_nat_alt)
  have u: "unat b' = unat bytes + unat t"
    unfolding r(2) using b(2) m ml le u32_bound [of max_bytes] by (intro unat_plus_32) linarith
  have sp: "split \<longleftrightarrow> 0 < unat l \<or> unat (bv_len bv) > unat max_bytes - unat bytes"
    using r(1) ml by (simp add: word_less_nat_alt)
  show ?thesis
    using b m ml le u sp by (auto simp: word_le_nat_alt)
qed

section \<open>The walk over the vectors\<close>

definition bytes_of :: "bio_vec list \<Rightarrow> nat" where
  "bytes_of bvs = sum_list (map (unat \<circ> bv_len) bvs)"

lemma walk_bounds:
  assumes "seg_size_ok api" and "\<forall>v \<in> set bvs. bv_len v \<noteq> 0"
  shows "nsegs \<le> lim_max_segments lim \<Longrightarrow> bytes \<le> max_bytes \<Longrightarrow> unat bytes + bytes_of bvs < 2 ^ 32 \<Longrightarrow>
    (case walk_bvecs api lim max_bytes sm lm bvs prv nsegs bytes gaps of
       Walk_error e \<Rightarrow> e = - E_INVAL
     | Walk_done n b g \<Rightarrow> n \<le> lim_max_segments lim \<and> b \<le> max_bytes \<and> unat b = unat bytes + bytes_of bvs
     | Walk_split n b g \<Rightarrow> n \<le> lim_max_segments lim \<and> b \<le> max_bytes \<and> unat b < unat bytes + bytes_of bvs)"
  using assms(2)
proof (induction bvs arbitrary: prv nsegs bytes gaps)
  case Nil
  then show ?case by (simp add: bytes_of_def)
next
  case (Cons bv bvs)
  let ?gaps = "case prv of None \<Rightarrow> gaps | Some p \<Rightarrow> gaps OR bvec_seg_gap p bv"
  let ?gap = "case prv of None \<Rightarrow> False | Some p \<Rightarrow> s_gap_to_prev api lim p (bv_offset bv)"
  have sum: "bytes_of (bv # bvs) = unat (bv_len bv) + bytes_of bvs" by (simp add: bytes_of_def)
  have len: "0 < unat (bv_len bv)" using Cons.prems(4) by (simp add: unat_gt_0)
  have add: "unat (bytes + bv_len bv) = unat bytes + unat (bv_len bv)"
    using Cons.prems(3) sum by (intro unat_plus_32) linarith
  consider (bad) "bv_offset bv AND sm \<noteq> 0 \<or> bv_len bv AND lm \<noteq> 0"
    | (gap) "\<not> (bv_offset bv AND sm \<noteq> 0 \<or> bv_len bv AND lm \<noteq> 0)" "?gap"
    | (fast) "\<not> (bv_offset bv AND sm \<noteq> 0 \<or> bv_len bv AND lm \<noteq> 0)" "\<not> ?gap"
        "nsegs < lim_max_segments lim \<and> bytes + bv_len bv \<le> max_bytes \<and>
         bv_offset bv + bv_len bv \<le> lim_max_fast_segment_size lim"
    | (slow) "\<not> (bv_offset bv AND sm \<noteq> 0 \<or> bv_len bv AND lm \<noteq> 0)" "\<not> ?gap"
        "\<not> (nsegs < lim_max_segments lim \<and> bytes + bv_len bv \<le> max_bytes \<and>
         bv_offset bv + bv_len bv \<le> lim_max_fast_segment_size lim)"
    by blast
  then show ?case
  proof cases
    case bad
    then show ?thesis by simp
  next
    case gap
    then show ?thesis using Cons.prems sum len by simp
  next
    case fast
    have "nsegs + 1 \<le> lim_max_segments lim"
      using fast(3) unat_Suc_less [of nsegs "lim_max_segments lim"] by (simp add: word_le_nat_alt word_less_nat_alt)
    moreover have "unat (bytes + bv_len bv) + bytes_of bvs < 2 ^ 32" using Cons.prems(3) sum add by linarith
    ultimately show ?thesis
      using Cons.IH [of "nsegs + 1" "bytes + bv_len bv" "Some bv" ?gaps] Cons.prems(4) fast sum add
      by (simp add: Let_def add.assoc split: walk.splits)
  next
    case slow
    obtain sp n' b' where s: "bvec_split_segs api lim bv nsegs bytes (lim_max_segments lim) max_bytes = (sp, n', b')"
      by (metis prod_cases3)
    note bd = split_segs_bounds [OF assms(1) Cons.prems(1,2) s]
    have eq: "walk_bvecs api lim max_bytes sm lm (bv # bvs) prv nsegs bytes gaps =
        (if sp then Walk_split n' b' ?gaps else walk_bvecs api lim max_bytes sm lm bvs (Some bv) n' b' ?gaps)"
      using slow s by (auto simp: Let_def)
    show ?thesis
    proof (cases sp)
      case True
      then show ?thesis unfolding eq using bd sum by simp
    next
      case False
      then have "unat b' + bytes_of bvs < 2 ^ 32" using bd Cons.prems(3) sum by linarith
      then show ?thesis
        unfolding eq using False bd sum Cons.IH [of n' b' "Some bv" ?gaps] Cons.prems(4)
        by (simp add: add.assoc split: walk.splits)
    qed
  qed
qed

text \<open>\<open>ALIGN_DOWN\<close> gives the largest multiple below its argument.\<close>

definition align_down_ok :: "sapi \<Rightarrow> bool" where
  "align_down_ok api \<longleftrightarrow> (\<forall>x a. a \<noteq> 0 \<longrightarrow> unat (s_align_down api x a) = unat x div unat a * unat a)"

text \<open>
  C29: Where a descriptor is split. With vectors that add up to its size, \<open>bio_split_io_at\<close> gives
  an error number, or 0 and then the whole descriptor is within the byte limit and the segment limit,
  or a positive number of sectors: then the front part is within both limits, strictly shorter than
  the descriptor, and a multiple of the alignment.
\<close>

theorem bio_split_io_at_bounds:
  assumes "seg_size_ok api" and "align_down_ok api" and "bytes_of (s_bvecs api b) = unat (bi_size b)"
    and "\<forall>v \<in> set (s_bvecs api b). bv_len v \<noteq> 0" and "bio_split_alignment api b lim \<noteq> 0"
    and "512 dvd unat (bio_split_alignment api b lim)"
    and "bio_split_io_at api b lim max_bytes len_mask = (r, segs, b')"
  shows "r < 0 \<or>
    (\<exists>n. segs = Some n \<and> n \<le> lim_max_segments lim \<and>
      (r = 0 \<and> bi_size b \<le> max_bytes \<or>
       0 < r \<and> nat r * 512 \<le> unat max_bytes \<and> nat r * 512 < unat (bi_size b) \<and>
       unat (bio_split_alignment api b lim) dvd nat r * 512))"
proof -
  define um where "um = (case s_crypt_unit api b of None \<Rightarrow> 0 | Some u \<Rightarrow> u - 1)"
  define w where "w = walk_bvecs api lim max_bytes (lim_dma_alignment lim OR um) (len_mask OR um)
      (s_bvecs api b) None 0 0 0"
  have wb: "case w of
       Walk_error e \<Rightarrow> e = - E_INVAL
     | Walk_done n c g \<Rightarrow> n \<le> lim_max_segments lim \<and> c \<le> max_bytes \<and> unat c = unat (bi_size b)
     | Walk_split n c g \<Rightarrow> n \<le> lim_max_segments lim \<and> c \<le> max_bytes \<and> unat c < unat (bi_size b)"
    unfolding w_def
    using walk_bounds [OF assms(1,4), of 0 lim 0 max_bytes "lim_dma_alignment lim OR um" "len_mask OR um" None 0]
      assms(3) u32_bound [of "bi_size b"] by (simp split: walk.splits)
  have res: "bio_split_io_at api b lim max_bytes len_mask = (case w of
        Walk_error e \<Rightarrow> (e, None, b)
      | Walk_done nsegs bytes gaps \<Rightarrow> (0, Some nsegs, b\<lparr>bi_gap_bit := s_ffs api gaps\<rparr>)
      | Walk_split nsegs bytes gaps \<Rightarrow>
          if REQ_ATOMIC \<in> bi_opf b then (- E_INVAL, None, b)
          else if REQ_NOWAIT \<in> bi_opf b then (- E_AGAIN, None, b)
          else let bytes' = s_align_down api bytes (bio_split_alignment api b lim) in
            if bytes' = 0 then (- E_INVAL, Some nsegs, b)
            else (uint (drop_bit 9 bytes'), Some nsegs,
                  b\<lparr>bi_opf := bi_opf b - {REQ_POLLED}, bi_gap_bit := s_ffs api gaps\<rparr>))"
    by (simp add: bio_split_io_at_def Let_def w_def um_def)
  show ?thesis
  proof (cases w)
    case (Walk_error e)
    then show ?thesis using res wb assms(7) by (simp add: E_INVAL_def)
  next
    case (Walk_done n c g)
    then show ?thesis using res wb assms(7) by (auto simp: word_le_nat_alt)
  next
    case (Walk_split n c g)
    define d where "d = s_align_down api c (bio_split_alignment api b lim)"
    have d: "unat d = unat c div unat (bio_split_alignment api b lim) * unat (bio_split_alignment api b lim)"
      using assms(2,5) by (simp add: align_down_ok_def d_def)
    then have dle: "unat d \<le> unat c" by simp
    have "512 dvd unat d" unfolding d using assms(6) by (rule dvd_mult)
    then have dd: "unat d div 512 * 512 = unat d" by simp
    show ?thesis
    proof (cases "REQ_ATOMIC \<in> bi_opf b \<or> REQ_NOWAIT \<in> bi_opf b \<or> d = 0")
      case True
      then show ?thesis using res Walk_split assms(7) by (auto simp: E_INVAL_def E_AGAIN_def d_def split: if_splits)
    next
      case False
      then have "r = uint (drop_bit 9 d)" "segs = Some n"
        using res Walk_split assms(7) by (auto simp: d_def)
      then have r: "nat r = unat d div 512" by (metis drop_bit_9_unat nat_uint_eq)
      have "0 < unat d" using False by (simp add: unat_gt_0)
      then have "0 < unat d div 512" using dd by (metis gr0I mult_zero_left less_irrefl)
      then have "0 < r" using r by linarith
      moreover have rd: "nat r * 512 = unat d" using r dd by simp
      moreover have "unat c \<le> unat max_bytes" "unat c < unat (bi_size b)"
        using wb Walk_split by (simp_all add: word_le_nat_alt)
      then have "nat r * 512 \<le> unat max_bytes" "nat r * 512 < unat (bi_size b)" using rd dle by linarith+
      moreover have "unat (bio_split_alignment api b lim) dvd nat r * 512" unfolding rd d by simp
      ultimately show ?thesis using wb Walk_split \<open>segs = Some n\<close> by simp
    qed
  qed
qed

section \<open>Read-around reads\<close>







section \<open>The largest request\<close>

lemma and_le_unat: "unat (x AND y :: u32) \<le> unat x"
  using word_and_le2 [of x y] by (simp add: word_le_nat_alt and.commute)

text \<open>
  For every descriptor that the repository's change leaves alone, the largest request is within
  the queue's limit for its operation and ends before the next boundary of the device.
\<close>

theorem get_max_io_size_within_limits:
  assumes "\<not> rasplit_applies api b"
  shows "get_max_io_size api b lim \<le>
      (if bi_op b = REQ_OP_WRITE_ZEROES then lim_max_write_zeroes_sectors lim
       else if REQ_ATOMIC \<in> bi_opf b then lim_atomic_write_max_sectors lim else lim_max_sectors lim) \<and>
    (blk_boundary_sectors lim (REQ_ATOMIC \<in> bi_opf b) \<noteq> 0 \<longrightarrow>
      get_max_io_size api b lim \<le>
        s_boundary_left api (bi_sector b) (blk_boundary_sectors lim (REQ_ATOMIC \<in> bi_opf b)))"
proof -
  define m where "m = (if bi_op b = REQ_OP_WRITE_ZEROES then lim_max_write_zeroes_sectors lim
       else if REQ_ATOMIC \<in> bi_opf b then lim_atomic_write_max_sectors lim else lim_max_sectors lim)"
  define bd where "bd = blk_boundary_sectors lim (REQ_ATOMIC \<in> bi_opf b)"
  define mx where "mx = (if bd \<noteq> 0 then min m (s_boundary_left api (bi_sector b) bd) else m)"
  define pbs where "pbs = drop_bit 9 (lim_physical_block_size lim)"
  define start where "start = (ucast (bi_sector b AND ucast (pbs - 1)) :: u32)"
  define en where "en = (start + mx) AND NOT (pbs - 1)"
  define alt where "alt = mx AND NOT (drop_bit 9 (lim_logical_block_size lim) - 1)"
  have g: "get_max_io_size api b lim = (if en > start then en - start else alt)"
    unfolding get_max_io_size_def Let_def alt_def en_def start_def pbs_def mx_def bd_def m_def
    using assms by (simp only: if_False)
  have en: "unat en \<le> unat (start + mx)" unfolding en_def by (rule and_le_unat)
  have le: "unat (get_max_io_size api b lim) \<le> unat mx"
  proof (cases "en > start")
    case True
    then have "unat (en - start) = unat en - unat start" by (simp add: unat_sub)
    moreover have "unat (start + mx) \<le> unat start + unat mx"
      by (simp only: unat_word_ariths mod_less_eq_dividend)
    ultimately show ?thesis using True g en by simp
  next
    case False
    then show ?thesis using g and_le_unat [of mx] by (simp add: alt_def)
  qed
  have "mx \<le> m" "bd \<noteq> 0 \<longrightarrow> mx \<le> s_boundary_left api (bi_sector b) bd" by (simp_all add: mx_def)
  then show ?thesis using le unfolding m_def [symmetric] bd_def [symmetric] by (auto simp: word_le_nat_alt)
qed


section \<open>Discards\<close>

lemma mod_sub_word:
  fixes x g :: u64
  assumes "g \<noteq> 0"
  shows "(x - x mod g) mod g = 0"
proof -
  have "unat (x - x mod g) = unat x - unat x mod unat g"
    by (subst unat_sub) (simp_all add: word_le_nat_alt unat_mod)
  then have "unat ((x - x mod g) mod g) = 0" by (simp add: unat_mod minus_mod_eq_mult_div)
  then show ?thesis by (simp add: unat_eq_zero)
qed

text \<open>
  Where a discard is cut: after at least one sector, within the limit and strictly inside the
  descriptor, and such that the rest starts on a multiple of the discard granularity, counted from the
  device's alignment offset.
\<close>

theorem discard_split_aligned:
  assumes "\<forall>x g. s_sector_rem api x g = x mod ucast g" and "discard_split_at api b lim max_sectors = Some n"
  shows "0 < n \<and> n \<le> max_sectors \<and> n < b_sectors (s_b api) b \<and>
    (let g = max (drop_bit 9 (lim_discard_granularity lim)) 1 in
       (bi_sector b + ucast n - ucast (drop_bit 9 (lim_discard_alignment lim) mod g)) mod ucast g = 0)"
proof -
  define g where "g = max (drop_bit 9 (lim_discard_granularity lim)) (1 :: u32)"
  define m0 where "m0 = min max_sectors (bio_allowed_max_sectors api lim)"
  define m where "m = m0 - m0 mod g"
  define al where "al = (ucast (drop_bit 9 (lim_discard_alignment lim) mod g) :: u64)"
  define tmp where "tmp = (bi_sector b + ucast m - al) mod (ucast g)"
  have r: "m \<noteq> 0" "\<not> b_sectors (s_b api) b \<le> m" "n = (if ucast m > tmp then m - ucast tmp else m)"
    using assms by (auto simp: discard_split_at_def Let_def g_def m0_def m_def al_def tmp_def split: if_splits)
  have "g \<noteq> 0" unfolding g_def max_def by (cases "drop_bit 9 (lim_discard_granularity lim) = 0") simp_all
  then have g0: "0 < unat g" by (simp add: unat_gt_0)
  have um: "unat m = unat m0 - unat m0 mod unat g"
    unfolding m_def by (subst unat_sub) (simp_all add: word_le_nat_alt unat_mod)
  then have mm: "unat m mod unat g = 0" by (simp add: minus_mod_eq_mult_div)
  have gm: "unat g \<le> unat m" using r(1) mm by (metis dvd_imp_le mod_0_imp_dvd unat_gt_0)
  have ut: "unat tmp < unat g" using g0 by (simp add: tmp_def unat_mod)
  then have n: "n = m - ucast tmp" using r(3) gm by (simp add: word_less_nat_alt)
  have tc: "unat (ucast tmp :: u32) = unat tmp" using ut u32_bound [of g] by (intro unat_ucast_64_32) linarith
  then have un: "unat n = unat m - unat tmp" using n ut gm by (simp add: unat_sub word_le_nat_alt)
  have cast: "(ucast n :: u64) = ucast m - tmp"
    using un ut gm by (simp add: word_unat_eq_iff unat_sub word_le_nat_alt)
  have eq: "bi_sector b + ucast n - al = (bi_sector b + ucast m - al) - tmp" unfolding cast by simp
  have gz: "(ucast g :: u64) \<noteq> 0" using g0 by (simp add: word_unat_eq_iff)
  have aligned: "(bi_sector b + ucast n - al) mod ucast g = 0"
    unfolding eq tmp_def by (rule mod_sub_word [OF gz])
  have "m0 \<le> max_sectors" by (simp add: m0_def)
  moreover have "0 < unat n" "unat n \<le> unat m" "unat m \<le> unat m0" using un ut gm um by linarith+
  ultimately show ?thesis
    using aligned r(2) unfolding Let_def g_def [symmetric] al_def [symmetric]
    by (auto simp: word_less_nat_alt word_le_nat_alt)
qed

section \<open>A concrete device\<close>

lemma div_mult_unat: "unat (x div a * a :: u32) = unat x div unat a * unat a"
proof -
  have "unat (x div a) * unat a \<le> unat x" by (simp add: unat_div)
  then have "unat (x div a) * unat a < 2 ^ LENGTH(32)" using u32_bound [of x] by simp
  then have "unat (x div a * a) = unat (x div a) * unat a" using unat_mult_lem [of "x div a" a] by simp
  then show ?thesis by (simp add: unat_div)
qed

definition demo_pages :: "bio_vec list" where
  "demo_pages = map (\<lambda>i. \<lparr>bv_page = i, bv_len = 4096, bv_offset = 0\<rparr>) [0..<32]"

definition demo_sapi :: sapi where
  "demo_sapi = \<lparr>s_b = demo_bapi, s_round_down = (\<lambda>x a. x div a * a), s_align_down = (\<lambda>x a. x div a * a),
     s_sector_rem = (\<lambda>x g. x mod ucast g), s_boundary_left = (\<lambda>x g. g - ucast (x mod ucast g)),
     s_max_segment_size = (\<lambda>lim p len. len), s_bvec_phys = (\<lambda>v. of_nat (bv_page v * 4096)),
     s_gap_to_prev = (\<lambda>lim v off. False), s_crypt_unit = (\<lambda>b. None), s_bvecs = (\<lambda>b. demo_pages),
     s_rw_len_mask = (\<lambda>lim. 3), s_ffs = (\<lambda>x. 0), s_errno_to_status = (\<lambda>e. 10), s_ioerr = 10,
     s_should_fail = (\<lambda>b. False), s_throttled = (\<lambda>b. False), s_op_is_write = (\<lambda>op. op = REQ_OP_WRITE)\<rparr>"

definition demo_lim :: queue_limits where
  "demo_lim = \<lparr>lim_max_sectors = 1024, lim_chunk_sectors = 0, lim_logical_block_size = 512,
     lim_physical_block_size = 4096, lim_max_segments = 127, lim_max_fast_segment_size = 4096, lim_dma_alignment = 3,
     lim_virt_boundary_mask = 0, lim_discard_granularity = 4096, lim_discard_alignment = 0,
     lim_max_discard_sectors = 100, lim_max_secure_erase_sectors = 0, lim_max_write_zeroes_sectors = 0,
     lim_max_zone_append_sectors = 0, lim_zone_write_granularity = 0, lim_atomic_write_boundary_sectors = 0,
     lim_atomic_write_max_sectors = 0, lim_max_hw_sectors = 2048\<rparr>"

lemmas demo_defs = demo_sapi_def demo_lim_def demo_bapi_def demo_bio_def demo_blk_def bio_init_def




theorem bio_split_io_at_bounds_witness:
  "\<exists>r segs b'. bio_split_io_at demo_sapi demo_bio demo_lim 65536 3 = (r, segs, b') \<and>
     (r < 0 \<or> (\<exists>n. segs = Some n \<and> n \<le> 127))"
proof -
  have "bytes_of demo_pages = 131072" by (simp add: bytes_of_def demo_pages_def comp_def sum_list_triv)
  moreover have "\<forall>v \<in> set demo_pages. bv_len v \<noteq> 0" by (simp add: demo_pages_def)
  moreover have "seg_size_ok demo_sapi" "align_down_ok demo_sapi"
    by (simp_all add: seg_size_ok_def align_down_ok_def demo_sapi_def div_mult_unat)
  moreover obtain r segs b' where "bio_split_io_at demo_sapi demo_bio demo_lim 65536 3 = (r, segs, b')"
    by (metis prod_cases3)
  ultimately show ?thesis
    using bio_split_io_at_bounds [of demo_sapi demo_bio demo_lim 65536 3 r segs b']
    by (auto simp: demo_defs bio_split_alignment_def)
qed

theorem get_max_io_size_within_limits_witness:
  "get_max_io_size demo_sapi (demo_bio\<lparr>bi_opf := {}\<rparr>) demo_lim \<le> 1024"
  using get_max_io_size_within_limits [of demo_sapi "demo_bio\<lparr>bi_opf := {}\<rparr>" demo_lim]
  by (simp add: rasplit_applies_def demo_defs)


theorem discard_split_aligned_witness:
  "(2048 + 96) mod (8 :: u64) = 0 \<and> 0 < (96 :: u32)"
  using discard_split_aligned [of demo_sapi "demo_bio\<lparr>bi_op := REQ_OP_DISCARD\<rparr>" demo_lim 100 96]
  by (simp add: discard_split_at_def demo_defs bio_allowed_max_sectors_def drop_bit_eq_div Let_def)

end
