(* ===== verification/MergeLaws.thy ===== *)
theory MergeLaws
  imports BlockMerge SplitLaws
begin

text \<open>
  Laws of merging: a request always covers one contiguous run of sectors, its length is the sum of
  its descriptors, merging keeps that and never exceeds the limit of the queue, and nothing marked
  as not mergeable is ever merged.
\<close>

section \<open>Well-formed requests\<close>

text \<open>Where a descriptor lies on the device: operation, first sector, size.\<close>

definition extent_of :: "bio \<Rightarrow> req_op \<times> u64 \<times> u32" where
  "extent_of b = (bi_op b, bi_sector b, bi_size b)"

text \<open>
  What the headers promise: sectors are bytes in units of 512, \<open>req_set_nomerge\<close> only sets the
  flag, the bookkeeping of zone write plugs does not move a descriptor, and neither a request nor a descriptor with the flag is mergeable.
\<close>

definition mapi_ok :: "mapi \<Rightarrow> bool" where
  "mapi_ok api \<longleftrightarrow>
     (\<forall>rq. m_rq_sectors api rq = drop_bit 9 (rq_data_len rq)) \<and>
     (\<forall>b. m_sectors api b = drop_bit 9 (bi_size b)) \<and>
     (\<forall>rq. m_set_nomerge api rq = rq\<lparr>rq_cmd_flags := insert REQ_NOMERGE (rq_cmd_flags rq)\<rparr>) \<and>
     (\<forall>b. extent_of (m_zone_bio_merged api b) = extent_of b) \<and>
     (\<forall>rq. REQ_NOMERGE \<in> rq_cmd_flags rq \<longrightarrow> \<not> m_rq_mergeable api rq) \<and>
     (\<forall>b. REQ_NOMERGE \<in> bi_opf b \<longrightarrow> \<not> m_bio_mergeable api b)"

definition extents :: "bio list \<Rightarrow> (req_op \<times> u64 \<times> u32) list" where
  "extents bs = map extent_of bs"

fun contig :: "u64 \<Rightarrow> (req_op \<times> u64 \<times> u32) list \<Rightarrow> bool" where
  "contig p [] \<longleftrightarrow> True"
| "contig p ((oper, s, n) # xs) \<longleftrightarrow> s = p \<and> contig (p + of_nat (unat n div 512)) xs"

definition bytes_in :: "(req_op \<times> u64 \<times> u32) list \<Rightarrow> nat" where
  "bytes_in xs = sum_list (map (\<lambda>(oper, s, n). unat n) xs)"

definition whole_sectors :: "(req_op \<times> u64 \<times> u32) list \<Rightarrow> req_op \<Rightarrow> bool" where
  "whole_sectors xs oper \<longleftrightarrow> (\<forall>(o', s, n) \<in> set xs. o' = oper \<and> 512 dvd unat n)"

definition rq_wf :: "request \<Rightarrow> bool" where
  "rq_wf rq \<longleftrightarrow> rq_bios rq \<noteq> [] \<and> contig (rq_sector rq) (extents (rq_bios rq)) \<and>
     bytes_in (extents (rq_bios rq)) = unat (rq_data_len rq) \<and> whole_sectors (extents (rq_bios rq)) (rq_op rq)"

lemma extents_Nil [simp]: "extents [] = []"
  by (simp add: extents_def)

lemma extents_append [simp]: "extents (xs @ ys) = extents xs @ extents ys"
  by (simp add: extents_def)

lemma extents_Cons [simp]: "extents (b # bs) = extent_of b # extents bs"
  by (simp add: extents_def)

lemma bytes_in_simps [simp]: "bytes_in [] = 0" "bytes_in ((oper, s, n) # xs) = unat n + bytes_in xs"
  "bytes_in (xs @ ys) = bytes_in xs + bytes_in ys"
  by (simp_all add: bytes_in_def)

lemma whole_bytes: "whole_sectors xs oper \<Longrightarrow> 512 dvd bytes_in xs"
  by (induction xs) (auto simp: whole_sectors_def)

lemma contig_append:
  "whole_sectors xs oper \<Longrightarrow> contig p (xs @ ys) \<longleftrightarrow> contig p xs \<and> contig (p + of_nat (bytes_in xs div 512)) ys"
proof (induction xs arbitrary: p)
  case (Cons x xs)
  obtain o' s n where x: "x = (o', s, n)" by (cases x)
  have w: "whole_sectors xs oper" "512 dvd unat n" using Cons.prems by (auto simp: whole_sectors_def x)
  have "(unat n + bytes_in xs) div 512 = unat n div 512 + bytes_in xs div 512"
    using w(2) by (simp add: div_plus_div_distrib_dvd_left)
  then show ?case using Cons.IH [OF w(1), of "p + of_nat (unat n div 512)"] by (auto simp: x add.assoc)
qed simp

lemma sectors_word: "(ucast (drop_bit 9 (n :: u32)) :: u64) = of_nat (unat n div 512)"
  by (metis drop_bit_9_unat of_nat_unat unat_ucast_32_64)

section \<open>What the steps keep\<close>

text \<open>Two requests that differ only in flags, counters and the flags of their descriptors.\<close>

definition same_extents :: "request \<Rightarrow> request \<Rightarrow> bool" where
  "same_extents r r' \<longleftrightarrow> extents (rq_bios r') = extents (rq_bios r) \<and> rq_sector r' = rq_sector r \<and>
     rq_data_len r' = rq_data_len r \<and> rq_op r' = rq_op r"

lemma same_extents_refl [simp, intro]: "same_extents r r"
  by (simp add: same_extents_def)

lemma same_extents_trans: "same_extents a b \<Longrightarrow> same_extents b c \<Longrightarrow> same_extents a c"
  by (simp add: same_extents_def)

lemma same_extents_wf: "same_extents r r' \<Longrightarrow> rq_wf r' \<longleftrightarrow> rq_wf r"
  unfolding same_extents_def rq_wf_def by (metis extents_def map_is_Nil_conv)

lemma set_mixed_same [simp, intro]: "same_extents r (blk_rq_set_mixed_merge r)"
  by (simp add: same_extents_def blk_rq_set_mixed_merge_def extents_def extent_of_def)

lemma set_nomerge_same: "mapi_ok api \<Longrightarrow> same_extents r (m_set_nomerge api r)"
  by (simp add: mapi_ok_def same_extents_def)

lemma update_mixed_same:
  "blk_update_mixed_merge r b f = (r', b') \<Longrightarrow> same_extents r r' \<and> extent_of b' = extent_of b"
  by (auto simp: blk_update_mixed_merge_def same_extents_def extent_of_def Let_def split: if_splits)

lemma new_segment_same:
  "mapi_ok api \<Longrightarrow> ll_new_hw_segment api r b n = (ok, r') \<Longrightarrow> same_extents r r'"
  by (auto simp: ll_new_hw_segment_def same_extents_def mapi_ok_def split: if_splits)

lemma back_fn_same:
  assumes "mapi_ok api" and "ll_back_merge_fn api r b n = Some (ok, r')"
  shows "same_extents r r' \<and>
    (ok \<longrightarrow> m_rq_sectors api r + m_sectors api b \<le> blk_rq_get_max_sectors api r (rq_sector r))"
  using assms by (auto simp: ll_back_merge_fn_def set_nomerge_same not_less new_segment_same
      split: if_splits bind_splits)

lemma front_fn_same:
  assumes "mapi_ok api" and "ll_front_merge_fn api r b n = Some (ok, r')"
  shows "same_extents r r' \<and>
    (ok \<longrightarrow> m_rq_sectors api r + m_sectors api b \<le> blk_rq_get_max_sectors api r (bi_sector b))"
  using assms by (auto simp: ll_front_merge_fn_def set_nomerge_same not_less new_segment_same
      split: if_splits bind_splits)

text \<open>Adding lengths whose sectors are within a limit below \<open>2^23\<close> does not wrap.\<close>

lemma add_lengths:
  fixes x y :: u32
  assumes "512 dvd unat x" and "512 dvd unat y" and "drop_bit 9 x + drop_bit 9 y \<le> m" and "unat m < 2 ^ 23"
  shows "unat (x + y) = unat x + unat y \<and> unat (x + y) div 512 \<le> unat m"
proof -
  have bound: "unat (drop_bit 9 x) < 2 ^ 23" "unat (drop_bit 9 y) < 2 ^ 23"
    using u32_bound [of x] u32_bound [of y] by (simp_all only: drop_bit_9_unat) simp_all
  then have "unat (drop_bit 9 x + drop_bit 9 y) = unat (drop_bit 9 x) + unat (drop_bit 9 y)"
    by (intro unat_plus_32) simp
  then have le: "unat x div 512 + unat y div 512 \<le> unat m"
    using assms(3) by (simp only: word_le_nat_alt drop_bit_9_unat)
  then have "unat x + unat y < 2 ^ 32" using assms(1,2,4) by (auto elim!: dvdE)
  then have "unat (x + y) = unat x + unat y" by (rule unat_plus_32)
  then show ?thesis using le assms(1) by (simp add: div_plus_div_distrib_dvd_left)
qed

section \<open>Merging a descriptor\<close>

text \<open>The descriptor fits the request: whole sectors and the same operation.\<close>

definition bio_fits :: "request \<Rightarrow> bio \<Rightarrow> bool" where
  "bio_fits r b \<longleftrightarrow> bi_op b = rq_op r \<and> 512 dvd unat (bi_size b)"

text \<open>
  The request grew by the descriptor: the extents are the old ones with the new one at one end,
  the length is the sum, and it is within the limit.
\<close>

definition grown :: "request \<Rightarrow> bio \<Rightarrow> nat \<Rightarrow> request \<Rightarrow> bool" where
  "grown r b limit r' \<longleftrightarrow> rq_wf r' \<and>
     (extents (rq_bios r') = extents (rq_bios r) @ [extent_of b] \<or>
      extents (rq_bios r') = extent_of b # extents (rq_bios r)) \<and>
     unat (rq_data_len r') = unat (rq_data_len r) + unat (bi_size b) \<and> unat (rq_data_len r') div 512 \<le> limit"

text \<open>The request after its first step, and the two merges from there on.\<close>

definition mixed_if :: "request \<Rightarrow> bio \<Rightarrow> request" where
  "mixed_if r b = (if rq_cmd_flags r \<inter> REQ_FAILFAST_MASK \<noteq> bio_failfast b then blk_rq_set_mixed_merge r else r)"

lemma mixed_if_same [simp, intro]: "same_extents r (mixed_if r b)"
  by (simp add: mixed_if_def)

lemma back_merge_eq:
  assumes "ll_back_merge_fn api r b n = Some (True, r1)"
    and "blk_update_mixed_merge (mixed_if r1 b) b False = (r3, b0)"
  shows "bio_attempt_back_merge api r b n =
    (let b1 = (if RQF_ZONE_WRITE_PLUGGING \<in> rq_rq_flags r3 then m_zone_bio_merged api b0 else b0) in
     do { tb \<leftarrow> rq_biotail r3;
          g \<leftarrow> bio_seg_gap api (rq_q r3) tb b1 (rq_phys_gap_bit r3);
          Some (BIO_MERGE_OK, r3\<lparr>rq_phys_gap_bit := g, rq_bios := rq_bios r3 @ [b1],
            rq_data_len := rq_data_len r3 + bi_size b1\<rparr>) })"
  using assms(2) unfolding bio_attempt_back_merge_def assms(1) mixed_if_def
  by (simp only: bind.bind_lunit fst_conv snd_conv Let_def prod.case) simp

lemma front_merge_eq:
  assumes "RQF_ZONE_WRITE_PLUGGING \<notin> rq_rq_flags r" and "ll_front_merge_fn api r b n = Some (True, r1)"
    and "blk_update_mixed_merge (mixed_if r1 b) b True = (r3, b1)"
  shows "bio_attempt_front_merge api r b n =
    do { hb \<leftarrow> rq_bio r3;
         g \<leftarrow> bio_seg_gap api (rq_q r3) b1 hb (rq_phys_gap_bit r3);
         Some (BIO_MERGE_OK, r3\<lparr>rq_phys_gap_bit := g, rq_bios := b1 # rq_bios r3,
           rq_sector := bi_sector b1, rq_data_len := rq_data_len r3 + bi_size b1\<rparr>) }"
  using assms(1,3) unfolding bio_attempt_front_merge_def assms(2) mixed_if_def
  by (simp only: bind.bind_lunit fst_conv snd_conv Let_def prod.case if_False) simp

lemma back_merge_cases:
  assumes "mapi_ok api" and "bio_attempt_back_merge api r b n = Some (st, r')"
  shows "st = BIO_MERGE_OK \<and> m_rq_sectors api r + m_sectors api b \<le> blk_rq_get_max_sectors api r (rq_sector r) \<and>
      extents (rq_bios r') = extents (rq_bios r) @ [extent_of b] \<and> rq_sector r' = rq_sector r \<and>
      rq_op r' = rq_op r \<and> rq_data_len r' = rq_data_len r + bi_size b \<or>
    st = BIO_MERGE_FAILED \<and> same_extents r r'"
proof -
  obtain ok r1 where f: "ll_back_merge_fn api r b n = Some (ok, r1)"
    using assms(2) by (cases "ll_back_merge_fn api r b n") (auto simp: bio_attempt_back_merge_def)
  note s1 = back_fn_same [OF assms(1) f]
  show ?thesis
  proof (cases ok)
    case False
    then show ?thesis using assms(2) f s1 by (auto simp: bio_attempt_back_merge_def)
  next
    case ok: True
    then have True: "ok = True" by simp
    obtain r3 b0 where u: "blk_update_mixed_merge (mixed_if r1 b) b False = (r3, b0)" by force
    define b1 where "b1 = (if RQF_ZONE_WRITE_PLUGGING \<in> rq_rq_flags r3 then m_zone_bio_merged api b0 else b0)"
    have s3: "same_extents r r3"
      using s1 update_mixed_same [OF u] mixed_if_same [of r1 b] same_extents_trans by blast
    have b1: "extent_of b1 = extent_of b"
      using update_mixed_same [OF u] assms(1) by (simp add: b1_def mapi_ok_def)
    then have "bi_size b1 = bi_size b" by (simp add: extent_of_def)
    then show ?thesis using back_merge_eq [OF f [unfolded True] u, folded b1_def] assms(2) s1 s3 b1 ok
      by (auto simp: same_extents_def Let_def split: bind_splits)
  qed
qed

lemma front_merge_cases:
  assumes "mapi_ok api" and "bio_attempt_front_merge api r b n = Some (st, r')"
  shows "st = BIO_MERGE_OK \<and> m_rq_sectors api r + m_sectors api b \<le> blk_rq_get_max_sectors api r (bi_sector b) \<and>
      extents (rq_bios r') = extent_of b # extents (rq_bios r) \<and> rq_sector r' = bi_sector b \<and>
      rq_op r' = rq_op r \<and> rq_data_len r' = rq_data_len r + bi_size b \<or>
    st = BIO_MERGE_FAILED \<and> same_extents r r'"
proof (cases "RQF_ZONE_WRITE_PLUGGING \<in> rq_rq_flags r")
  case True
  then show ?thesis using assms(2) by (auto simp: bio_attempt_front_merge_def)
next
  case z: False
  obtain ok r1 where f: "ll_front_merge_fn api r b n = Some (ok, r1)"
    using assms(2) z by (cases "ll_front_merge_fn api r b n") (auto simp: bio_attempt_front_merge_def)
  note s1 = front_fn_same [OF assms(1) f]
  show ?thesis
  proof (cases ok)
    case False
    then show ?thesis using assms(2) f s1 z by (auto simp: bio_attempt_front_merge_def)
  next
    case ok: True
    then have True: "ok = True" by simp
    obtain r3 b1 where u: "blk_update_mixed_merge (mixed_if r1 b) b True = (r3, b1)" by force
    have s3: "same_extents r r3"
      using s1 update_mixed_same [OF u] mixed_if_same [of r1 b] same_extents_trans by blast
    have b1: "extent_of b1 = extent_of b" using update_mixed_same [OF u] by simp
    then have "bi_size b1 = bi_size b" "bi_sector b1 = bi_sector b" by (simp_all add: extent_of_def)
    then show ?thesis using front_merge_eq [OF z f [unfolded True] u] assms(2) s1 s3 b1 ok
      by (auto simp: same_extents_def split: bind_splits)
  qed
qed

lemma grown_back:
  assumes "mapi_ok api" and "rq_wf r" and "bio_fits r b" and "unat limit < 2 ^ 23"
    and "rq_sector r + ucast (m_rq_sectors api r) = bi_sector b"
    and "m_rq_sectors api r + m_sectors api b \<le> limit"
    and r': "extents (rq_bios r') = extents (rq_bios r) @ [extent_of b]" "rq_sector r' = rq_sector r"
      "rq_op r' = rq_op r" "rq_data_len r' = rq_data_len r + bi_size b"
  shows "grown r b (unat limit) r'"
proof -
  have wf: "contig (rq_sector r) (extents (rq_bios r))" "bytes_in (extents (rq_bios r)) = unat (rq_data_len r)"
    "whole_sectors (extents (rq_bios r)) (rq_op r)" using assms(2) by (auto simp: rq_wf_def)
  have sec: "m_rq_sectors api r = drop_bit 9 (rq_data_len r)" "m_sectors api b = drop_bit 9 (bi_size b)"
    using assms(1) by (simp_all add: mapi_ok_def)
  have d: "512 dvd unat (rq_data_len r)" "512 dvd unat (bi_size b)"
    using whole_bytes [OF wf(3)] wf(2) assms(3) by (simp_all add: bio_fits_def)
  note len = add_lengths [OF d assms(6) [unfolded sec] assms(4)]
  then have lim: "(unat (rq_data_len r) + unat (bi_size b)) div 512 \<le> unat limit" by metis
  have "bi_sector b = rq_sector r + of_nat (bytes_in (extents (rq_bios r)) div 512)"
    using assms(5) by (simp add: sec sectors_word wf(2))
  then have "contig (rq_sector r) (extents (rq_bios r) @ [extent_of b])"
    using wf contig_append [OF wf(3)] by (simp add: extent_of_def)
  moreover have "whole_sectors (extents (rq_bios r) @ [extent_of b]) (rq_op r)"
    using wf(3) assms(3) d(2) by (auto simp: whole_sectors_def extent_of_def bio_fits_def)
  moreover have "rq_bios r' \<noteq> []" using r'(1) by (auto simp: extents_def)
  ultimately show ?thesis using r' len lim wf(2) by (simp add: grown_def rq_wf_def extent_of_def)
qed

lemma grown_front:
  assumes "mapi_ok api" and "rq_wf r" and "bio_fits r b" and "unat limit < 2 ^ 23"
    and "rq_sector r - ucast (m_sectors api b) = bi_sector b"
    and "m_rq_sectors api r + m_sectors api b \<le> limit"
    and r': "extents (rq_bios r') = extent_of b # extents (rq_bios r)" "rq_sector r' = bi_sector b"
      "rq_op r' = rq_op r" "rq_data_len r' = rq_data_len r + bi_size b"
  shows "grown r b (unat limit) r'"
proof -
  have wf: "contig (rq_sector r) (extents (rq_bios r))" "bytes_in (extents (rq_bios r)) = unat (rq_data_len r)"
    "whole_sectors (extents (rq_bios r)) (rq_op r)" using assms(2) by (auto simp: rq_wf_def)
  have sec: "m_rq_sectors api r = drop_bit 9 (rq_data_len r)" "m_sectors api b = drop_bit 9 (bi_size b)"
    using assms(1) by (simp_all add: mapi_ok_def)
  have d: "512 dvd unat (rq_data_len r)" "512 dvd unat (bi_size b)"
    using whole_bytes [OF wf(3)] wf(2) assms(3) by (simp_all add: bio_fits_def)
  note len = add_lengths [OF d assms(6) [unfolded sec] assms(4)]
  then have lim: "(unat (rq_data_len r) + unat (bi_size b)) div 512 \<le> unat limit" by metis
  have "bi_sector b + of_nat (unat (bi_size b) div 512) = rq_sector r"
    unfolding assms(5) [symmetric] by (simp add: sec sectors_word)
  moreover have "whole_sectors (extent_of b # extents (rq_bios r)) (rq_op r)"
    using wf(3) assms(3) d(2) by (auto simp: whole_sectors_def extent_of_def bio_fits_def)
  moreover have "rq_bios r' \<noteq> []" using r'(1) by (auto simp: extents_def)
  ultimately show ?thesis using r' len lim wf by (simp add: grown_def rq_wf_def extent_of_def)
qed

section \<open>Merging always returns\<close>

text \<open>
  The last vector of a descriptor lies inside its table, whatever its flags are: what the tail of a
  request and a new descriptor must satisfy so that looking for a gap is defined.
\<close>

definition last_ok :: "mapi \<Rightarrow> bio \<Rightarrow> bool" where
  "last_ok api b \<longleftrightarrow> (\<forall>f. bio_get_last_bvec api (b\<lparr>bi_opf := f\<rparr>) \<noteq> None)"

definition tail_ok :: "mapi \<Rightarrow> request \<Rightarrow> bool" where
  "tail_ok api r \<longleftrightarrow> rq_bios r \<noteq> [] \<and> last_ok api (List.last (rq_bios r))"

lemma last_ok_get: "last_ok api b \<Longrightarrow> \<exists>v. bio_get_last_bvec api b = Some v"
  by (drule last_ok_def [THEN iffD1, rule_format, of api b "bi_opf b"]) simp

lemma last_ok_flags [simp]: "last_ok api (b\<lparr>bi_opf := f\<rparr>) = last_ok api b"
  by (simp add: last_ok_def)

lemma tail_ok_fields [simp]:
  "tail_ok api (r\<lparr>rq_nr_phys_segments := n\<rparr>) = tail_ok api r"
  "tail_ok api (r\<lparr>rq_nr_phys_segments := n, rq_nr_integrity_segments := k\<rparr>) = tail_ok api r"
  "tail_ok api (r\<lparr>rq_cmd_flags := f\<rparr>) = tail_ok api r"
  by (simp_all add: tail_ok_def)

lemma tail_ok_mixed [simp]: "tail_ok api (blk_rq_set_mixed_merge r) = tail_ok api r"
  by (auto simp: tail_ok_def blk_rq_set_mixed_merge_def last_map)

lemma update_mixed_tail:
  "blk_update_mixed_merge r b f = (r', b') \<Longrightarrow> tail_ok api r' = tail_ok api r \<and> last_ok api b' = last_ok api b"
  by (auto simp: blk_update_mixed_merge_def Let_def split: if_splits)

lemma new_segment_tail:
  "mapi_ok api \<Longrightarrow> ll_new_hw_segment api r b n = (ok, r') \<Longrightarrow> tail_ok api r' = tail_ok api r"
  by (auto simp: ll_new_hw_segment_def mapi_ok_def split: if_splits)

lemma will_gap_total:
  assumes "last_ok api prv" and "\<And>r. prev_rq = Some r \<Longrightarrow> rq_bios r \<noteq> []"
  shows "\<exists>g. bio_will_gap api q prev_rq prv nxt = Some g"
  using last_ok_get [OF assms(1)] assms(2)
  by (auto simp: bio_will_gap_def rq_bio_def Let_def split: option.split)

lemma seg_gap_total: "last_ok api prv \<Longrightarrow> \<exists>g. bio_seg_gap api q prv nxt n = Some g"
  using last_ok_get by (fastforce simp: bio_seg_gap_def Let_def)

lemma back_fn_total:
  assumes "mapi_ok api" and "tail_ok api r"
  shows "\<exists>ok r'. ll_back_merge_fn api r b n = Some (ok, r') \<and> tail_ok api r'"
proof -
  obtain g where "req_gap_back_merge api r b = Some g"
    using will_gap_total [of api "List.last (rq_bios r)" "Some r" "rq_q r" b] assms(2)
    by (auto simp: req_gap_back_merge_def rq_biotail_def tail_ok_def)
  moreover obtain ok r' where "ll_new_hw_segment api r b n = (ok, r')" by force
  moreover have "tail_ok api (m_set_nomerge api r)" using assms by (simp add: mapi_ok_def)
  ultimately show ?thesis using new_segment_tail [OF assms(1)] assms(2) by (auto simp: ll_back_merge_fn_def)
qed

lemma front_fn_total:
  assumes "mapi_ok api" and "tail_ok api r" and "last_ok api b"
  shows "\<exists>ok r'. ll_front_merge_fn api r b n = Some (ok, r') \<and> tail_ok api r'"
proof -
  obtain g where "req_gap_front_merge api r b = Some g"
    using will_gap_total [of api b None "rq_q r" "hd (rq_bios r)"] assms(2,3)
    by (auto simp: req_gap_front_merge_def rq_bio_def tail_ok_def)
  moreover obtain ok r' where "ll_new_hw_segment api r b n = (ok, r')" by force
  moreover have "tail_ok api (m_set_nomerge api r)" using assms by (simp add: mapi_ok_def)
  ultimately show ?thesis using new_segment_tail [OF assms(1)] assms(2) by (auto simp: ll_front_merge_fn_def)
qed

lemma tail_ok_mixed_if [simp]: "tail_ok api (mixed_if r b) = tail_ok api r"
  by (simp add: mixed_if_def)

lemma back_merge_total:
  assumes "mapi_ok api" and "tail_ok api r"
  shows "\<exists>res. bio_attempt_back_merge api r b n = Some res"
proof -
  obtain ok r1 where f: "ll_back_merge_fn api r b n = Some (ok, r1)" "tail_ok api r1"
    using back_fn_total [OF assms] by blast
  obtain r3 b0 where u: "blk_update_mixed_merge (mixed_if r1 b) b False = (r3, b0)" by force
  have "tail_ok api r3" using update_mixed_tail [OF u] f(2) by simp
  then obtain tb where tb: "rq_biotail r3 = Some tb" "last_ok api tb" by (auto simp: tail_ok_def rq_biotail_def)
  show ?thesis
  proof (cases ok)
    case False
    then show ?thesis using f(1) by (simp add: bio_attempt_back_merge_def)
  next
    case True
    then have "ll_back_merge_fn api r b n = Some (True, r1)" using f(1) by simp
    from back_merge_eq [OF this u] show ?thesis
      using tb(1) seg_gap_total [OF tb(2)] by (metis bind.bind_lunit)
  qed
qed

lemma front_merge_total:
  assumes "mapi_ok api" and "tail_ok api r" and "last_ok api b"
  shows "\<exists>res. bio_attempt_front_merge api r b n = Some res"
proof -
  obtain ok r1 where f: "ll_front_merge_fn api r b n = Some (ok, r1)" "tail_ok api r1"
    using front_fn_total [OF assms] by blast
  obtain r3 b0 where u: "blk_update_mixed_merge (mixed_if r1 b) b True = (r3, b0)" by force
  have "tail_ok api r3" using update_mixed_tail [OF u] f(2) by simp
  then obtain hb where hb: "rq_bio r3 = Some hb" by (auto simp: tail_ok_def rq_bio_def)
  have b0: "last_ok api b0" using update_mixed_tail [OF u, of api] assms(3) by blast
  show ?thesis
  proof (cases "ok \<and> RQF_ZONE_WRITE_PLUGGING \<notin> rq_rq_flags r")
    case False
    then show ?thesis using f(1) by (auto simp: bio_attempt_front_merge_def)
  next
    case True
    then have "RQF_ZONE_WRITE_PLUGGING \<notin> rq_rq_flags r" "ll_front_merge_fn api r b n = Some (True, r1)"
      using f(1) by simp_all
    from front_merge_eq [OF this u] show ?thesis
      using hb seg_gap_total [OF b0] by (metis bind.bind_lunit)
  qed
qed

lemma bio_merge_total:
  assumes "mapi_ok api" and "tail_ok api rq" and "last_ok api b"
  shows "\<exists>st rq'. blk_attempt_bio_merge api q rq b nr_segs sched = Some (st, rq')"
proof -
  have "rq_bio rq \<noteq> None" using assms(2) by (simp add: rq_bio_def tail_ok_def)
  then have "blk_rq_merge_ok api rq b \<noteq> None" by (auto simp: blk_rq_merge_ok_def)
  then show ?thesis
    using back_merge_total [OF assms(1,2), of b nr_segs] front_merge_total [OF assms, of nr_segs]
    by (auto simp: blk_attempt_bio_merge_def split: elv_merge.split)
qed

lemma bio_merge_wf:
  assumes "mapi_ok api" and "rq_wf rq" and "512 dvd unat (bi_size b)" and "\<not> m_discard_mergable api rq"
    and "\<forall>off. unat (blk_rq_get_max_sectors api rq off) < 2 ^ 23"
    and "blk_attempt_bio_merge api q rq b nr_segs sched = Some (st, rq')"
  shows "if st = BIO_MERGE_OK
    then grown rq b (unat (blk_rq_get_max_sectors api rq (rq_sector rq'))) rq'
    else same_extents rq rq'"
proof -
  obtain ok where ok: "blk_rq_merge_ok api rq b = Some ok"
    using assms(6) by (cases "blk_rq_merge_ok api rq b") (auto simp: blk_attempt_bio_merge_def)
  have fits: "bio_fits rq b" if "ok"
    using ok that assms(3) by (auto simp: blk_rq_merge_ok_def bio_fits_def split: if_splits)
  consider (none) "st \<noteq> BIO_MERGE_OK" "rq' = rq"
    | (backm) "ok" "rq_sector rq + ucast (m_rq_sectors api rq) = bi_sector b"
        "bio_attempt_back_merge api rq b nr_segs = Some (st, rq')"
    | (frontm) "ok" "rq_sector rq - ucast (m_sectors api b) = bi_sector b"
        "bio_attempt_front_merge api rq b nr_segs = Some (st, rq')"
    using assms(4,6) ok by (auto simp: blk_attempt_bio_merge_def blk_try_merge_def split: if_splits)
  then show ?thesis
  proof cases
    case none
    then show ?thesis by simp
  next
    case backm
    from back_merge_cases [OF assms(1) backm(3)] show ?thesis
      using grown_back [OF assms(1,2) fits [OF backm(1)] _ backm(2)] assms(5) by auto
  next
    case frontm
    from front_merge_cases [OF assms(1) frontm(3)] show ?thesis
      using grown_front [OF assms(1,2) fits [OF frontm(1)] _ frontm(2)] assms(5) by auto
  qed
qed


section \<open>Merging two requests\<close>






definition mixed_when :: "bool \<Rightarrow> request \<Rightarrow> request" where
  "mixed_when m r = (if m then blk_rq_set_mixed_merge r else r)"

lemma mixed_when_same [simp, intro]: "same_extents r (mixed_when m r)"
  by (simp add: mixed_when_def)

lemma tail_ok_mixed_when [simp]: "tail_ok api (mixed_when m r) = tail_ok api r"
  by (simp add: mixed_when_def)

lemma mixed_when_bios [simp]: "rq_bios (mixed_when m r) = [] \<longleftrightarrow> rq_bios r = []"
  by (simp add: mixed_when_def blk_rq_set_mixed_merge_def)






section \<open>Descriptors and requests that must not be merged\<close>

lemma nomerge_bio:
  assumes "mapi_ok api" and "REQ_NOMERGE \<in> bi_opf b"
  shows "blk_attempt_bio_merge api q rq b n sched = Some (BIO_MERGE_NONE, rq)"
  using assms by (simp add: blk_attempt_bio_merge_def blk_rq_merge_ok_def mapi_ok_def)

lemma nomerge_request:
  assumes "mapi_ok api" and "REQ_NOMERGE \<in> rq_cmd_flags rq"
  shows "blk_attempt_bio_merge api q rq b n sched = Some (BIO_MERGE_NONE, rq)"
    and "attempt_merge api q rq nxt = Some (False, rq, nxt)" and "attempt_merge api q prv rq = Some (False, prv, rq)"
  using assms by (simp_all add: blk_attempt_bio_merge_def blk_rq_merge_ok_def attempt_merge_def mapi_ok_def)

lemma plug_scan_none:
  "(\<And>rq. rq \<in> set rqs \<Longrightarrow> blk_attempt_bio_merge api q rq b n False = Some (BIO_MERGE_NONE, rq)) \<Longrightarrow>
   plug_scan api q b n rqs = Some (False, rqs)"
  by (induction rqs) auto

lemma list_scan_none:
  "(\<And>rq. rq \<in> set rqs \<Longrightarrow> blk_attempt_bio_merge api q rq b n True = Some (BIO_MERGE_NONE, rq)) \<Longrightarrow>
   list_scan api q b n k rqs = Some (False, rqs)"
proof (induction rqs arbitrary: k)
  case (Cons rq rqs)
  then show ?case by (cases k) auto
qed simp

lemma plug_merge_none:
  assumes "\<And>rq. rq \<in> set plug \<Longrightarrow> blk_attempt_bio_merge api q rq b n False = Some (BIO_MERGE_NONE, rq)"
  shows "blk_attempt_plug_merge api q b n mq plug = Some (False, plug)"
  using assms plug_scan_none [of plug api q b n] by (auto simp: blk_attempt_plug_merge_def Let_def)

lemma list_merge_none:
  assumes "\<And>rq. rq \<in> set rqs \<Longrightarrow> blk_attempt_bio_merge api q rq b n True = Some (BIO_MERGE_NONE, rq)"
  shows "blk_bio_list_merge api q rqs b n = Some (False, rqs)"
  using assms list_scan_none [of "rev rqs" api q b n] by (simp add: blk_bio_list_merge_def)

text \<open>
  What must not be merged is never merged. A descriptor with the flag \<open>REQ_NOMERGE\<close>, the mark
  that splitting puts on the piece it cuts off, leaves the plug list of the task and the requests of
  the queue as they are; and requests that all carry the flag are not changed by any descriptor.
\<close>

theorem nomerge_lists_unchanged:
  assumes "mapi_ok api"
    and "REQ_NOMERGE \<in> bi_opf b \<or> (\<forall>rq \<in> set rqs. REQ_NOMERGE \<in> rq_cmd_flags rq)"
  shows "blk_attempt_plug_merge api q b n mq rqs = Some (False, rqs) \<and>
    blk_bio_list_merge api q rqs b n = Some (False, rqs)"
proof -
  have "blk_attempt_bio_merge api q rq b n sched = Some (BIO_MERGE_NONE, rq)" if "rq \<in> set rqs" for rq sched
    using assms that nomerge_bio nomerge_request(1) by blast
  then show ?thesis by (intro conjI plug_merge_none list_merge_none)
qed

section \<open>Merging into the requests of a queue\<close>

text \<open>One request of a list is replaced, at a position the scan has reached.\<close>

definition one_changed :: "(request \<Rightarrow> request \<Rightarrow> bool) \<Rightarrow> nat \<Rightarrow> request list \<Rightarrow> request list \<Rightarrow> bool" where
  "one_changed P k rqs rqs' \<longleftrightarrow> (\<exists>i < min k (length rqs). \<exists>rq'. rqs' = rqs[i := rq'] \<and> P (rqs ! i) rq')"

lemma one_changed_Cons: "one_changed P k rqs rqs' \<Longrightarrow> one_changed P (Suc k) (rq # rqs) (rq # rqs')"
  unfolding one_changed_def by (metis Suc_less_eq length_Cons list_update_code(3) min_Suc_Suc nth_Cons_Suc)

lemma one_changed_hd: "P rq rq' \<Longrightarrow> one_changed P (Suc k) (rq # rqs) (rq' # rqs)"
  unfolding one_changed_def by (intro exI [of _ 0]) auto

text \<open>
  The scan of at most \<open>k\<close> requests, newest first, when every attempt returns: either the list
  differs in at most one request, which an attempt changed without merging, or exactly one request
  was merged with the descriptor.
\<close>

definition attempt_gives :: "mapi \<Rightarrow> nat \<Rightarrow> bio \<Rightarrow> u32 \<Rightarrow> bio_merge_status \<Rightarrow> request \<Rightarrow> request \<Rightarrow> bool" where
  "attempt_gives api q b n st rq rq' \<longleftrightarrow> blk_attempt_bio_merge api q rq b n True = Some (st, rq')"

definition scanned :: "mapi \<Rightarrow> nat \<Rightarrow> bio \<Rightarrow> u32 \<Rightarrow> nat \<Rightarrow> request list \<Rightarrow> bool \<Rightarrow> request list \<Rightarrow> bool" where
  "scanned api q b n k rqs m rqs' \<longleftrightarrow>
     (if m then one_changed (attempt_gives api q b n BIO_MERGE_OK) k rqs rqs'
      else rqs' = rqs \<or> one_changed (attempt_gives api q b n BIO_MERGE_FAILED) k rqs rqs')"

lemma list_scan_cases:
  assumes "\<And>rq. rq \<in> set rqs \<Longrightarrow> \<exists>st rq'. attempt_gives api q b n st rq rq'"
    and "\<And>rq rq'. attempt_gives api q b n BIO_MERGE_NONE rq rq' \<Longrightarrow> rq' = rq"
  shows "\<exists>m rqs'. list_scan api q b n k rqs = Some (m, rqs') \<and> scanned api q b n k rqs m rqs'"
  using assms(1)
proof (induction rqs arbitrary: k)
  case (Cons rq rqs)
  show ?case
  proof (cases k)
    case (Suc j)
    obtain st rq' where a: "attempt_gives api q b n st rq rq'" using Cons.prems [of rq] by auto
    have "\<exists>m rqs'. list_scan api q b n j rqs = Some (m, rqs') \<and> scanned api q b n j rqs m rqs'"
      by (rule Cons.IH) (use Cons.prems in simp)
    then obtain m rqs' where ih: "list_scan api q b n j rqs = Some (m, rqs')" "scanned api q b n j rqs m rqs'"
      by blast
    show ?thesis
    proof (cases st)
      case BIO_MERGE_NONE
      then have "rq' = rq" using a assms(2) by blast
      moreover have "scanned api q b n k (rq # rqs) m (rq # rqs')"
        using ih(2) Suc by (auto simp: scanned_def intro: one_changed_Cons split: if_splits)
      ultimately show ?thesis using a BIO_MERGE_NONE Suc ih(1) by (simp add: attempt_gives_def)
    next
      case BIO_MERGE_OK
      then have "scanned api q b n k (rq # rqs) True (rq' # rqs)"
        using a Suc by (simp add: scanned_def one_changed_hd)
      then show ?thesis using a BIO_MERGE_OK Suc by (intro exI [of _ True] exI [of _ "rq' # rqs"]) (simp add: attempt_gives_def)
    next
      case BIO_MERGE_FAILED
      then have "scanned api q b n k (rq # rqs) False (rq' # rqs)"
        using a Suc by (simp add: scanned_def one_changed_hd)
      then show ?thesis using a BIO_MERGE_FAILED Suc by (intro exI [of _ False] exI [of _ "rq' # rqs"]) (simp add: attempt_gives_def)
    qed
  qed (auto simp: scanned_def)
qed (auto simp: scanned_def)

lemma merge_none_same:
  assumes "mapi_ok api" and "blk_attempt_bio_merge api q rq b n sched = Some (BIO_MERGE_NONE, rq')"
  shows "rq' = rq"
proof -
  obtain ok where "blk_rq_merge_ok api rq b = Some ok"
    using assms(2) by (cases "blk_rq_merge_ok api rq b") (auto simp: blk_attempt_bio_merge_def)
  then show ?thesis
    using assms(2) back_merge_cases [OF assms(1), of rq b n BIO_MERGE_NONE] front_merge_cases [OF assms(1), of rq b n BIO_MERGE_NONE]
    by (auto simp: blk_attempt_bio_merge_def bio_attempt_discard_merge_def Let_def split: if_splits elv_merge.splits)
qed

text \<open>What the requests of a queue must satisfy.\<close>

definition mergeable_rq :: "mapi \<Rightarrow> request \<Rightarrow> bool" where
  "mergeable_rq api rq \<longleftrightarrow> rq_wf rq \<and> tail_ok api rq \<and> \<not> m_discard_mergable api rq \<and>
     (\<forall>off. unat (blk_rq_get_max_sectors api rq off) < 2 ^ 23)"

lemma one_changed_wf:
  assumes "mapi_ok api" and "\<forall>rq \<in> set rqs. mergeable_rq api rq" and "512 dvd unat (bi_size b)"
    and "one_changed (attempt_gives api q b n st) k rqs rqs'"
  shows "one_changed (\<lambda>rq rq'. rq_wf rq' \<and> (if st = BIO_MERGE_OK
      then grown rq b (unat (blk_rq_get_max_sectors api rq (rq_sector rq'))) rq' else same_extents rq rq')) k rqs rqs'"
proof -
  obtain i rq' where i: "i < min k (length rqs)" "rqs' = rqs[i := rq']"
    "blk_attempt_bio_merge api q (rqs ! i) b n True = Some (st, rq')" using assms(4) by (auto simp: one_changed_def attempt_gives_def)
  then have "mergeable_rq api (rqs ! i)" using assms(2) by simp
  then have "if st = BIO_MERGE_OK
      then grown (rqs ! i) b (unat (blk_rq_get_max_sectors api (rqs ! i) (rq_sector rq'))) rq'
      else same_extents (rqs ! i) rq'" "rq_wf (rqs ! i)"
    using bio_merge_wf [OF assms(1) _ assms(3) _ _ i(3)] by (simp_all add: mergeable_rq_def)
  moreover from this have "rq_wf rq'" by (auto simp: grown_def same_extents_wf split: if_splits)
  ultimately show ?thesis using i(1,2) unfolding one_changed_def by blast
qed

lemma one_changed_rev:
  assumes "one_changed P k (rev rqs) rqs'"
  shows "\<exists>i rq'. length rqs - k \<le> i \<and> i < length rqs \<and> rev rqs' = rqs[i := rq'] \<and> P (rqs ! i) rq'"
proof -
  obtain j rq' where j: "j < k" "j < length rqs" "rqs' = (rev rqs)[j := rq']" "P (rev rqs ! j) rq'"
    using assms by (auto simp: one_changed_def)
  have "rev rqs' = rqs[length rqs - j - 1 := rq']" using j by (simp add: rev_update)
  moreover have "P (rqs ! (length rqs - j - 1)) rq'" using j by (simp add: rev_nth)
  ultimately show ?thesis using j by (intro exI [of _ "length rqs - j - 1"]) auto
qed

text \<open>
  Merging a descriptor into the requests of a queue always ends, looks at no more than the eight
  newest requests, and changes at most one of them. When it reports a merge, that request has grown by the
  descriptor and is well-formed within its limit; otherwise no request covers other sectors than before.
\<close>

theorem blk_bio_list_merge_newest:
  assumes "mapi_ok api" and "\<forall>rq \<in> set rqs. mergeable_rq api rq" and "512 dvd unat (bi_size b)" and "last_ok api b"
  shows "\<exists>m rqs'. blk_bio_list_merge api q rqs b n = Some (m, rqs') \<and>
    (if m
     then \<exists>i rq'. length rqs - 8 \<le> i \<and> i < length rqs \<and> rqs' = rqs[i := rq'] \<and>
            grown (rqs ! i) b (unat (blk_rq_get_max_sectors api (rqs ! i) (rq_sector rq'))) rq'
     else rqs' = rqs \<or> (\<exists>i rq'. length rqs - 8 \<le> i \<and> i < length rqs \<and> rqs' = rqs[i := rq'] \<and>
            same_extents (rqs ! i) rq'))"
proof -
  have tot: "\<exists>st rq'. attempt_gives api q b n st rq rq'" if "rq \<in> set (rev rqs)" for rq
    using bio_merge_total [OF assms(1) _ assms(4)] assms(2) that by (simp add: mergeable_rq_def attempt_gives_def)
  have wf: "\<forall>rq \<in> set (rev rqs). mergeable_rq api rq" using assms(2) by simp
  obtain m l where l: "list_scan api q b n 8 (rev rqs) = Some (m, l)" "scanned api q b n 8 (rev rqs) m l"
    using list_scan_cases [of "rev rqs" api q b n 8] tot merge_none_same [OF assms(1)]
    unfolding attempt_gives_def by blast
  have scan: "blk_bio_list_merge api q rqs b n = Some (m, rev l)" using l(1) by (simp add: blk_bio_list_merge_def)
  note ch = one_changed_wf [OF assms(1) wf assms(3), THEN one_changed_rev]
  show ?thesis
  proof (cases m)
    case True
    then obtain i rq' where "length rqs - 8 \<le> i" "i < length rqs" "rev l = rqs[i := rq']"
      "grown (rqs ! i) b (unat (blk_rq_get_max_sectors api (rqs ! i) (rq_sector rq'))) rq'"
      using ch [of q n BIO_MERGE_OK 8 l] l(2) by (auto simp: scanned_def)
    then show ?thesis using scan True by auto
  next
    case False
    have "rev l = rqs \<or> (\<exists>i rq'. length rqs - 8 \<le> i \<and> i < length rqs \<and> rev l = rqs[i := rq'] \<and>
        same_extents (rqs ! i) rq')"
      using ch [of q n BIO_MERGE_FAILED 8 l] l(2) False by (auto simp: scanned_def)
    then show ?thesis using scan False by auto
  qed
qed

section \<open>A concrete queue\<close>

definition demo_mapi :: mapi where
  "demo_mapi = \<lparr>m_s = demo_sapi, m_lim = (\<lambda>q. demo_lim), m_rq_sectors = (\<lambda>rq. drop_bit 9 (rq_data_len rq)),
     m_virt_boundary = (\<lambda>q. 0), m_first_bvec = (\<lambda>b. \<lparr>bv_page = 0, bv_len = bi_size b, bv_offset = 0\<rparr>),
     m_advance_iter = (\<lambda>b it n. it), m_has_data = (\<lambda>b. True), m_phys_mergeable = (\<lambda>q v w. False),
     m_gap_to_prev = (\<lambda>lim v off. False), m_max_discard_segments = (\<lambda>q. 1), m_passthrough = (\<lambda>rq. False),
     m_queue_max_sectors = (\<lambda>rq. 1024), m_rq_max_segments = (\<lambda>rq. 127), m_cgroup_mergeable = (\<lambda>rq b. True),
     m_integrity_merge_bio = (\<lambda>rq b. True), m_integrity_merge_rq = (\<lambda>q r n. True), m_integrity_rq = (\<lambda>rq. False),
     m_integrity_gap_back = (\<lambda>rq b. False), m_integrity_gap_front = (\<lambda>rq b. False),
     m_crypt_back_mergeable = (\<lambda>rq b. True), m_crypt_front_mergeable = (\<lambda>rq b. True),
     m_crypt_merge_rq = (\<lambda>r n. True), m_crypt_compatible = (\<lambda>rq b. True), m_bio_integrity = (\<lambda>b. False),
     m_count_integrity_sg = (\<lambda>q b. 0),
     m_set_nomerge = (\<lambda>rq. rq\<lparr>rq_cmd_flags := insert REQ_NOMERGE (rq_cmd_flags rq)\<rparr>),
     m_rq_mergeable = (\<lambda>rq. REQ_NOMERGE \<notin> rq_cmd_flags rq), m_bio_mergeable = (\<lambda>b. REQ_NOMERGE \<notin> bi_opf b),
     m_discard_mergable = (\<lambda>rq. False), m_nr_discard_segments = (\<lambda>rq. 1),
     m_min_not_zero = (\<lambda>x y. if x = 0 then y else if y = 0 then x else min x y),
     m_zone_bio_merged = (\<lambda>b. b), m_sched_allow_merge = (\<lambda>q rq b. True)\<rparr>"

lemma demo_mapi_simps [simp]:
  "m_sectors demo_mapi b = drop_bit 9 (bi_size b)" "m_lim demo_mapi q = demo_lim"
  "m_rq_sectors demo_mapi rq = drop_bit 9 (rq_data_len rq)" "m_virt_boundary demo_mapi q = 0"
  "m_first_bvec demo_mapi b = \<lparr>bv_page = 0, bv_len = bi_size b, bv_offset = 0\<rparr>" "m_has_data demo_mapi b"
  "\<not> m_phys_mergeable demo_mapi q v w" "\<not> m_passthrough demo_mapi rq" "m_queue_max_sectors demo_mapi rq = 1024"
  "m_rq_max_segments demo_mapi rq = 127" "m_cgroup_mergeable demo_mapi rq b" "m_integrity_merge_bio demo_mapi rq b"
  "m_integrity_merge_rq demo_mapi q rq n" "\<not> m_integrity_rq demo_mapi rq" "m_crypt_back_mergeable demo_mapi rq b"
  "m_crypt_merge_rq demo_mapi rq n" "m_crypt_compatible demo_mapi rq b" "\<not> m_bio_integrity demo_mapi b"
  "m_rq_mergeable demo_mapi rq \<longleftrightarrow> REQ_NOMERGE \<notin> rq_cmd_flags rq"
  "m_bio_mergeable demo_mapi b \<longleftrightarrow> REQ_NOMERGE \<notin> bi_opf b" "\<not> m_discard_mergable demo_mapi rq"
  "m_sched_allow_merge demo_mapi q rq b"
  by (simp_all add: demo_mapi_def demo_sapi_def demo_bapi_def)

lemma demo_mapi_ok: "mapi_ok demo_mapi"
  by (simp add: mapi_ok_def demo_mapi_def demo_defs)

definition demo_rq :: "u64 \<Rightarrow> request" where
  "demo_rq sec = \<lparr>rq_q = 0, rq_mq_ctx = 0, rq_mq_hctx = 0, rq_state = MQ_RQ_IDLE, rq_op = REQ_OP_READ,
     rq_cmd_flags = {REQ_RAHEAD}, rq_rq_flags = {}, rq_sector = sec,
     rq_data_len = 131072, rq_nr_phys_segments = 32, rq_nr_integrity_segments = 0, rq_phys_gap_bit = 0,
     rq_start_time_ns = 0, rq_io_start_time_ns = 0, rq_stats_sectors = 0, rq_tag = Some 0, rq_internal_tag = None, rq_timeout = 0,
     rq_deadline = 0, rq_ref = 1, rq_end_io = None, rq_bios = [demo_bio\<lparr>bi_iter := (bi_iter demo_bio)\<lparr>it_sector := sec\<rparr>\<rparr>]\<rparr>"

lemma demo_last_ok: "last_ok demo_mapi b"
  by (simp add: last_ok_def bio_get_last_bvec_def)

lemma demo_max_sectors: "blk_rq_get_max_sectors demo_mapi rq off = 1024"
  by (simp add: blk_rq_get_max_sectors_def blk_boundary_sectors_def demo_lim_def)

lemma demo_mergeable: "mergeable_rq demo_mapi (demo_rq sec)"
  by (simp add: mergeable_rq_def rq_wf_def extents_def extent_of_def whole_sectors_def tail_ok_def demo_last_ok
      demo_max_sectors demo_rq_def demo_bio_def bio_init_def)





theorem nomerge_lists_unchanged_witness:
  "blk_attempt_plug_merge demo_mapi 0 (demo_bio\<lparr>bi_opf := {REQ_NOMERGE}\<rparr>) 32 False [demo_rq 1792] = Some (False, [demo_rq 1792])"
  using nomerge_lists_unchanged [OF demo_mapi_ok, of "demo_bio\<lparr>bi_opf := {REQ_NOMERGE}\<rparr>" "[demo_rq 1792]" 0 32 False]
  by simp

theorem blk_bio_list_merge_newest_witness:
  "\<exists>m rqs'. blk_bio_list_merge demo_mapi 0 [demo_rq 0, demo_rq 1792] demo_bio 32 = Some (m, rqs')"
  using blk_bio_list_merge_newest [OF demo_mapi_ok, of "[demo_rq 0, demo_rq 1792]" demo_bio 0 32] demo_mergeable
    demo_last_ok
  by (auto simp: demo_bio_def)

end
