(* ===== verification/RequestDone.thy ===== *)
theory RequestDone
  imports MergeLaws
begin

text \<open>
  Completion of requests (\<open>readaround-split/src/block/blk-mq.c\<close>): \<open>blk_update_request\<close> ends
  a number of bytes of a request and \<open>blk_complete_request\<close> all of it. The result of an operation
  holds the descriptors it gives to \<open>bio_endio\<close>, in order. Integrity, encryption slots, statistics
  and messages are left out.
\<close>

unbundle bit_operations_syntax

section \<open>Operations\<close>

record dapi =
  d_m :: mapi
  d_cur_bytes :: "bio \<Rightarrow> u32"
  d_is_zone_append :: "bio \<Rightarrow> bool"
  d_req_zone_append :: "request \<Rightarrow> bio \<Rightarrow> bool"
  d_append_done :: "request \<Rightarrow> bio \<Rightarrow> bio"
  d_ioerr :: u8

abbreviation d_b :: "dapi \<Rightarrow> bapi" where "d_b api \<equiv> s_b (m_s (d_m api))"

text \<open>The marks a descriptor gets before it is advanced: status and flags.\<close>

definition mark_done :: "dapi \<Rightarrow> request \<Rightarrow> u8 \<Rightarrow> bool \<Rightarrow> bio \<Rightarrow> bio" where
  "mark_done api rq error full b =
     (let b1 = (if error \<noteq> 0 then b\<lparr>bi_status := error\<rparr> else b);
          b2 = (if \<not> full \<and> d_is_zone_append api b1 \<and> error = 0 then b1\<lparr>bi_status := d_ioerr api\<rparr> else b1);
          b3 = b2\<lparr>bi_flags := bi_flags b2 - {BIO_TRACE_COMPLETION}\<rparr>
      in if RQF_QUIET \<in> rq_rq_flags rq then b3\<lparr>bi_flags := insert BIO_QUIET (bi_flags b3)\<rparr> else b3)"

text \<open>
  The loop of \<open>blk_update_request\<close>: the descriptors left, those ended, and the bytes done. A round
  that does not finish its descriptor has used up \<open>nr_bytes\<close>, so the loop only goes on with the rest.
\<close>

fun update_loop :: "dapi \<Rightarrow> request \<Rightarrow> u8 \<Rightarrow> bio list \<Rightarrow> u32 \<Rightarrow> u32 \<Rightarrow> bio list \<times> bio list \<times> u32" where
  "update_loop api rq error [] nr_bytes total_bytes = ([], [], total_bytes)"
| "update_loop api rq error (b # bs) nr_bytes total_bytes =
     (let bio_bytes = min (bi_size b) nr_bytes;
          full = (bio_bytes = bi_size b);
          b1 = b_advance (d_b api) (mark_done api rq error full b) bio_bytes;
          req = rq\<lparr>rq_bios := (if full then bs else b1 # bs)\<rparr>;
          b2 = (if bi_size b1 = 0 \<and> d_req_zone_append api req b1 then d_append_done api req b1 else b1);
          ended = (if bi_size b1 = 0 \<and> RQF_FLUSH_SEQ \<notin> rq_rq_flags rq then [b2] else [])
      in if nr_bytes - bio_bytes = 0 then (if full then bs else b2 # bs, ended, total_bytes + bio_bytes)
         else case update_loop api rq error bs (nr_bytes - bio_bytes) (total_bytes + bio_bytes) of
                (rest, later, tot) \<Rightarrow> (rest, ended @ later, tot))"

text \<open>
  The signed shift of \<open>total_bytes\<close>, an \<open>int\<close>, is written as a division of its signed value. The
  result is whether the request has more data, the request, and the descriptors given to \<open>bio_endio\<close>.
\<close>

definition blk_update_request :: "dapi \<Rightarrow> request \<Rightarrow> u8 \<Rightarrow> u32 \<Rightarrow> bool \<times> request \<times> bio list" where
  "blk_update_request api rq error nr_bytes =
     (if rq_bios rq = [] then (False, rq, [])
      else case update_loop api rq error (rq_bios rq) nr_bytes 0 of
        (rest, ended, total_bytes) \<Rightarrow>
          if rest = [] then (False, rq\<lparr>rq_bios := [], rq_data_len := 0\<rparr>, ended)
          else let r1 = rq\<lparr>rq_bios := rest, rq_data_len := rq_data_len rq - total_bytes\<rparr>;
                   r2 = (if m_passthrough (d_m api) r1 then r1
                         else r1\<lparr>rq_sector := rq_sector r1 + word_of_int (sint total_bytes div 512)\<rparr>);
                   r3 = (if RQF_MIXED_MERGE \<in> rq_rq_flags r2
                         then r2\<lparr>rq_cmd_flags := (rq_cmd_flags r2 - REQ_FAILFAST_MASK) \<union>
                                                  (bi_opf (hd rest) \<inter> REQ_FAILFAST_MASK)\<rparr>
                         else r2);
                   r4 = (if RQF_SPECIAL_PAYLOAD \<in> rq_rq_flags r3 then r3
                         else let cur = d_cur_bytes api (hd rest);
                                  r = (if rq_data_len r3 < cur then r3\<lparr>rq_data_len := cur\<rparr> else r3)
                              in r\<lparr>rq_nr_phys_segments := ucast (blk_recalc_rq_segments (d_m api) r)\<rparr>)
               in (True, r4, ended))"

text \<open>Whether the request has an \<open>end_io\<close> function is an argument.\<close>

definition blk_complete_request :: "dapi \<Rightarrow> bool \<Rightarrow> request \<Rightarrow> request \<times> bio list" where
  "blk_complete_request api has_end_io req =
     (if rq_bios req = [] then (req, [])
      else let finish = (\<lambda>b. let b1 = b\<lparr>bi_flags := bi_flags b - {BIO_TRACE_COMPLETION}\<rparr> in
                          if d_req_zone_append api req b1 then d_append_done api req b1 else b1);
               finished = map finish (rq_bios req)
           in (if has_end_io then req\<lparr>rq_bios := finished\<rparr> else req\<lparr>rq_bios := [], rq_data_len := 0\<rparr>,
               if RQF_FLUSH_SEQ \<in> rq_rq_flags req then [] else finished))"

section \<open>Laws of the loop\<close>

text \<open>
  What the code relies on: the laws of \<open>bio_advance\<close>, that the current vector is inside the
  descriptor, and that recording where a zone append ended does not change who is told of it.
\<close>

definition owner_of :: "bio \<Rightarrow> end_io \<times> nat option \<times> bio_vec list" where
  "owner_of b = (bi_end_io b, bi_private b, bi_io_vec b)"

definition dapi_ok :: "dapi \<Rightarrow> bool" where
  "dapi_ok api \<longleftrightarrow> api_ok (d_b api) \<and> (\<forall>b. d_cur_bytes api b \<le> bi_size b) \<and>
     (\<forall>rq b. owner_of (d_append_done api rq b) = owner_of b \<and>
        bi_status (d_append_done api rq b) = bi_status b)"

lemma mark_done_fields [simp]:
  "bi_iter (mark_done api rq e full b) = bi_iter b" "bi_op (mark_done api rq e full b) = bi_op b"
  "owner_of (mark_done api rq e full b) = owner_of b"
  "full \<Longrightarrow> bi_status (mark_done api rq e full b) = (if e = 0 then bi_status b else e)"
  by (simp_all add: mark_done_def owner_of_def Let_def)

lemma advance_fields:
  assumes "api_ok a" and "n \<le> bi_size b"
  shows "bi_sector (b_advance a b n) = bi_sector b + of_nat (unat n div 512)"
    "bi_size (b_advance a b n) = bi_size b - n" "bi_op (b_advance a b n) = bi_op b"
    "owner_of (b_advance a b n) = owner_of b" "bi_status (b_advance a b n) = bi_status b"
proof -
  obtain i d where "b_advance a b n = b\<lparr>bi_iter := \<lparr>it_sector = bi_sector b + ucast (drop_bit 9 n),
      it_size = bi_size b - n, it_idx = i, it_done = d\<rparr>\<rparr>" using assms unfolding api_ok_def by blast
  then show "bi_sector (b_advance a b n) = bi_sector b + of_nat (unat n div 512)"
    "bi_size (b_advance a b n) = bi_size b - n" "bi_op (b_advance a b n) = bi_op b"
    "owner_of (b_advance a b n) = owner_of b" "bi_status (b_advance a b n) = bi_status b"
    by (simp_all add: sectors_word owner_of_def)
qed

lemma whole_Cons [simp]:
  "whole_sectors (extent_of b # xs) oper \<longleftrightarrow> bi_op b = oper \<and> 512 dvd unat (bi_size b) \<and> whole_sectors xs oper"
  by (auto simp: whole_sectors_def extent_of_def)

lemma extent_Cons [simp]:
  "bytes_in (extent_of b # xs) = unat (bi_size b) + bytes_in xs"
  "contig p (extent_of b # xs) \<longleftrightarrow> bi_sector b = p \<and> contig (p + of_nat (unat (bi_size b) div 512)) xs"
  by (simp_all add: extent_of_def)

text \<open>The bytes the loop does, and what it leaves.\<close>

definition nonempty_bios :: "bio list \<Rightarrow> bool" where
  "nonempty_bios bs \<longleftrightarrow> (\<forall>b \<in> set bs. bi_size b \<noteq> 0)"

definition loop_post :: "bio list \<Rightarrow> req_op \<Rightarrow> u8 \<Rightarrow> nat \<Rightarrow> nat \<Rightarrow> bio list \<times> bio list \<times> u32 \<Rightarrow> bool" where
  "loop_post bs oper error nr tot res \<longleftrightarrow>
     (case res of (rest, ended, t) \<Rightarrow>
        unat t = tot + min nr (bytes_in (extents bs)) \<and>
        bytes_in (extents rest) = bytes_in (extents bs) - nr \<and>
        whole_sectors (extents rest) oper \<and> nonempty_bios rest \<and>
        (\<forall>p. contig p (extents bs) \<longrightarrow> contig (p + of_nat (min nr (bytes_in (extents bs)) div 512)) (extents rest)) \<and>
        map owner_of (ended @ rest) = map owner_of bs \<and>
        map bi_status ended = map (\<lambda>b. if error = 0 then bi_status b else error) (take (length ended) bs))"

text \<open>A round that finishes its descriptor, and one that does not.\<close>

lemma loop_post_full:
  assumes "loop_post bs oper error (nr - unat (bi_size b)) (tot + unat (bi_size b)) (rest, ended, t)"
    and "unat (bi_size b) \<le> nr" and "512 dvd unat (bi_size b)"
    and "owner_of b2 = owner_of b" and "bi_status b2 = (if error = 0 then bi_status b else error)"
  shows "loop_post (b # bs) oper error nr tot (rest, b2 # ended, t)"
proof -
  have "min nr (unat (bi_size b) + bytes_in (extents bs)) =
      unat (bi_size b) + min (nr - unat (bi_size b)) (bytes_in (extents bs))" using assms(2) by simp
  moreover have "(unat (bi_size b) + k) div 512 = unat (bi_size b) div 512 + k div 512" for k
    using assms(3) by (simp add: div_plus_div_distrib_dvd_left)
  ultimately show ?thesis using assms by (auto simp: loop_post_def add.assoc)
qed

lemma loop_post_partial:
  assumes "dapi_ok api" and "nr < bi_size b" and "512 dvd unat nr" and "whole_sectors (extents (b # bs)) oper"
    and "nonempty_bios (b # bs)" and "unat tot + bytes_in (extents (b # bs)) < 2 ^ 32"
    and "b1 = b_advance (d_b api) (mark_done api rq error False b) nr"
  shows "loop_post (b # bs) oper error (unat nr) (unat tot) (b1 # bs, [], tot + nr)"
proof -
  have lt: "unat nr < unat (bi_size b)" using assms(2) by (simp add: word_less_nat_alt)
  have b1: "bi_sector b1 = bi_sector b + of_nat (unat nr div 512)" "bi_size b1 = bi_size b - nr"
    "bi_op b1 = bi_op b" "owner_of b1 = owner_of b"
    using advance_fields [of "d_b api" nr "mark_done api rq error False b"] assms(1,2,7) by (simp_all add: dapi_ok_def)
  have sz: "unat (bi_size b1) = unat (bi_size b) - unat nr" using lt b1(2) by (simp add: unat_sub word_le_nat_alt)
  have t: "unat (tot + nr) = unat tot + unat nr"
    using assms(6) lt by (intro unat_plus_32) simp
  have d: "512 dvd unat (bi_size b) - unat nr" using assms(3,4) by (simp add: dvd_diff_nat)
  have "unat (bi_size b) div 512 = unat nr div 512 + (unat (bi_size b) - unat nr) div 512"
    using assms(3) lt by (metis div_plus_div_distrib_dvd_left le_add_diff_inverse less_imp_le)
  moreover have "bi_size b1 \<noteq> 0" using sz lt by (metis unat_0 zero_less_diff less_irrefl)
  ultimately show ?thesis
    using assms(4,5) b1 sz t d lt
    by (auto simp: loop_post_def nonempty_bios_def add.assoc)
qed

lemma update_loop_post:
  assumes "dapi_ok api" and "RQF_FLUSH_SEQ \<notin> rq_rq_flags rq"
  shows "whole_sectors (extents bs) oper \<Longrightarrow> nonempty_bios bs \<Longrightarrow> 512 dvd unat nr \<Longrightarrow> 0 < nr \<Longrightarrow>
    unat tot + bytes_in (extents bs) < 2 ^ 32 \<Longrightarrow>
    loop_post bs oper error (unat nr) (unat tot) (update_loop api rq error bs nr tot)"
proof (induction bs arbitrary: nr tot)
  case Nil
  then show ?case by (simp add: loop_post_def whole_sectors_def nonempty_bios_def)
next
  case (Cons b bs)
  define b1 where "b1 = b_advance (d_b api) (mark_done api rq error True b) (bi_size b)"
  define b2 where "b2 = (if d_req_zone_append api (rq\<lparr>rq_bios := bs\<rparr>) b1
      then d_append_done api (rq\<lparr>rq_bios := bs\<rparr>) b1 else b1)"
  have b1: "bi_size b1 = 0" "owner_of b1 = owner_of b" "bi_status b1 = (if error = 0 then bi_status b else error)"
    using advance_fields [of "d_b api" "bi_size b" "mark_done api rq error True b"] assms(1)
    by (simp_all add: dapi_ok_def b1_def)
  have b2: "owner_of b2 = owner_of b" "bi_status b2 = (if error = 0 then bi_status b else error)"
    using b1 assms(1) by (simp_all add: b2_def dapi_ok_def)
  have d: "512 dvd unat (bi_size b)" and w: "whole_sectors (extents bs) oper" "nonempty_bios bs"
    using Cons.prems(1,2) by (simp_all add: nonempty_bios_def)
  show ?case
  proof (cases "bi_size b \<le> nr")
    case True
    then have le: "unat (bi_size b) \<le> unat nr" by (simp add: word_le_nat_alt)
    have t: "unat (tot + bi_size b) = unat tot + unat (bi_size b)"
      using Cons.prems(5) by (intro unat_plus_32) simp
    have n: "unat (nr - bi_size b) = unat nr - unat (bi_size b)" using True by (simp add: unat_sub)
    have step: "update_loop api rq error (b # bs) nr tot =
        (if nr - bi_size b = 0 then (bs, [b2], tot + bi_size b)
         else case update_loop api rq error bs (nr - bi_size b) (tot + bi_size b) of
           (rest, later, t) \<Rightarrow> (rest, b2 # later, t))"
      using True assms(2) b1(1) by (simp add: Let_def min_absorb1 b1_def [symmetric]) (simp add: b2_def)
    show ?thesis
    proof (cases "nr = bi_size b")
      case eq: True
      have "loop_post bs oper error (unat nr - unat (bi_size b)) (unat tot + unat (bi_size b))
          (bs, [], tot + bi_size b)" using w t eq by (simp add: loop_post_def)
      then show ?thesis
        unfolding step using loop_post_full [OF _ le d b2] eq by simp
    next
      case False
      then have pos: "0 < nr - bi_size b" using True by (simp add: word_neq_0_conv [symmetric])
      have "512 dvd unat (nr - bi_size b)" using n d Cons.prems(3) by (simp add: dvd_diff_nat)
      moreover have "unat (tot + bi_size b) + bytes_in (extents bs) < 2 ^ 32"
        using Cons.prems(5) t by simp
      ultimately have "loop_post bs oper error (unat nr - unat (bi_size b)) (unat tot + unat (bi_size b))
          (update_loop api rq error bs (nr - bi_size b) (tot + bi_size b))"
        using Cons.IH [OF w _ pos, of "tot + bi_size b"] n t by simp
      then show ?thesis
        unfolding step using loop_post_full [OF _ le d b2] False by (auto split: prod.split)
    qed
  next
    case False
    then have lt: "nr < bi_size b" by simp
    have ne: "bi_size (b_advance (d_b api) (mark_done api rq error False b) nr) \<noteq> 0"
      using advance_fields(2) [of "d_b api" nr "mark_done api rq error False b"] assms(1) lt by (auto simp: dapi_ok_def)
    moreover have "min (bi_size b) nr = nr" "nr \<noteq> bi_size b" using lt by auto
    ultimately have "update_loop api rq error (b # bs) nr tot =
        (b_advance (d_b api) (mark_done api rq error False b) nr # bs, [], tot + nr)" by (simp add: Let_def)
    then show ?thesis using loop_post_partial [OF assms(1) lt Cons.prems(3,1,2,5) refl] by simp
  qed
qed

section \<open>Ending a request\<close>

text \<open>What a request must satisfy to be ended in parts: well-formed, no empty descriptor, below 2 GB.\<close>

definition endable :: "dapi \<Rightarrow> request \<Rightarrow> bool" where
  "endable api rq \<longleftrightarrow> rq_wf rq \<and> nonempty_bios (rq_bios rq) \<and> unat (rq_data_len rq) < 2 ^ 31 \<and>
     RQF_FLUSH_SEQ \<notin> rq_rq_flags rq"

lemma sint_sectors:
  fixes n :: u32
  assumes "unat n < 2 ^ 31"
  shows "(word_of_int (sint n div 512) :: u64) = of_nat (unat n div 512)"
proof -
  have "uint n < 2 ^ 31" using assms nat_less_iff [of "uint n" "2 ^ 31"] by simp
  then have "sint n = int (unat n)"
    using signed_take_bit_int_eq_self [of 31 "uint n"] order_trans [OF _ uint_ge_0, of "- (2 ^ 31)" n]
    by (simp add: sint_uint)
  then have "sint n div 512 = int (unat n div 512)" by (simp only: zdiv_int of_nat_numeral)
  then show ?thesis by (simp only: of_int_of_nat_eq)
qed

text \<open>What is left of a request when \<open>n\<close> of its bytes have been ended.\<close>

definition left_over :: "request \<Rightarrow> nat \<Rightarrow> request \<Rightarrow> bool" where
  "left_over rq n rq' \<longleftrightarrow> rq_wf rq' \<and> nonempty_bios (rq_bios rq') \<and>
     rq_sector rq' = rq_sector rq + of_nat (n div 512) \<and> unat (rq_data_len rq') = unat (rq_data_len rq) - n \<and>
     rq_op rq' = rq_op rq \<and> rq_rq_flags rq' = rq_rq_flags rq"

lemma loop_rest_empty:
  assumes "whole_sectors (extents bs) oper" and "nonempty_bios bs"
  shows "bytes_in (extents bs) = 0 \<longleftrightarrow> bs = []"
  using assms(2) by (cases bs) (auto simp: nonempty_bios_def unat_eq_zero)

lemma head_bytes: "bs \<noteq> [] \<Longrightarrow> unat (bi_size (hd bs)) \<le> bytes_in (extents bs)"
  by (cases bs) auto

lemma update_request_ok:
  assumes "dapi_ok api" and "endable api rq" and "512 dvd unat n" and "0 < n"
    and "\<forall>r. \<not> m_passthrough (d_m api) r" and "blk_update_request api rq error n = (again, rq', ended)"
  shows "(again \<longleftrightarrow> unat n < unat (rq_data_len rq)) \<and>
    (if again then left_over rq (unat n) rq' else rq_bios rq' = [] \<and> rq_data_len rq' = 0) \<and>
    map owner_of (ended @ rq_bios rq') = map owner_of (rq_bios rq) \<and>
    map bi_status ended = map (\<lambda>b. if error = 0 then bi_status b else error) (take (length ended) (rq_bios rq))"
proof -
  have wf: "rq_bios rq \<noteq> []" "contig (rq_sector rq) (extents (rq_bios rq))"
    "bytes_in (extents (rq_bios rq)) = unat (rq_data_len rq)" "whole_sectors (extents (rq_bios rq)) (rq_op rq)"
    "nonempty_bios (rq_bios rq)" "unat (rq_data_len rq) < 2 ^ 31" "RQF_FLUSH_SEQ \<notin> rq_rq_flags rq"
    using assms(2) by (auto simp: endable_def rq_wf_def)
  obtain rest e t where l: "update_loop api rq error (rq_bios rq) n 0 = (rest, e, t)" by (metis prod_cases3)
  have post: "loop_post (rq_bios rq) (rq_op rq) error (unat n) 0 (rest, e, t)"
    using update_loop_post [OF assms(1) wf(7,4,5) assms(3,4), of 0 error] wf(3,6) l by simp
  have r: "unat t = min (unat n) (unat (rq_data_len rq))" "bytes_in (extents rest) = unat (rq_data_len rq) - unat n"
    "whole_sectors (extents rest) (rq_op rq)" "nonempty_bios rest"
    "contig (rq_sector rq + of_nat (min (unat n) (unat (rq_data_len rq)) div 512)) (extents rest)"
    "map owner_of (e @ rest) = map owner_of (rq_bios rq)"
    "map bi_status e = map (\<lambda>b. if error = 0 then bi_status b else error) (take (length e) (rq_bios rq))"
    using post wf(2,3) by (auto simp: loop_post_def)
  have empty: "rest = [] \<longleftrightarrow> unat (rq_data_len rq) \<le> unat n" using loop_rest_empty [OF r(3,4)] r(2) by simp
  show ?thesis
  proof (cases "rest = []")
    case True
    then show ?thesis using assms(6) l wf(1) r(6,7) empty by (auto simp: blk_update_request_def)
  next
    case False
    then have lt: "unat n < unat (rq_data_len rq)" using empty by simp
    then have t: "t = n" using r(1) by (simp add: word_unat_eq_iff)
    have dl: "unat (rq_data_len rq - n) = unat (rq_data_len rq) - unat n"
      using lt by (simp add: unat_sub word_le_nat_alt)
    have "unat (bi_size (hd rest)) \<le> unat (rq_data_len rq - n)" using head_bytes [OF False] r(2) dl by simp
    moreover have "d_cur_bytes api (hd rest) \<le> bi_size (hd rest)" using assms(1) by (simp add: dapi_ok_def)
    ultimately have cur: "\<not> rq_data_len rq - n < d_cur_bytes api (hd rest)"
      unfolding word_less_nat_alt word_le_nat_alt by linarith
    have sec: "(word_of_int (sint n div 512) :: u64) = of_nat (unat n div 512)"
      using sint_sectors [of n] lt wf(6) by simp
    have f: "again \<and> ended = e \<and> rq_bios rq' = rest \<and> rq_data_len rq' = rq_data_len rq - n \<and>
        rq_sector rq' = rq_sector rq + of_nat (unat n div 512) \<and> rq_op rq' = rq_op rq \<and> rq_rq_flags rq' = rq_rq_flags rq"
      using assms(6) l wf(1) False t cur assms(5) sec
      by (auto simp: blk_update_request_def Let_def split: if_splits)
    then have "left_over rq (unat n) rq'" using r(2-5) dl lt False by (simp add: left_over_def rq_wf_def)
    then show ?thesis using f lt r(6,7) by simp
  qed
qed

lemma update_whole:
  assumes "dapi_ok api" and "endable api rq"
  shows "\<exists>rq' ended. blk_update_request api rq error (rq_data_len rq) = (False, rq', ended)"
proof -
  have wf: "rq_bios rq \<noteq> []" "bytes_in (extents (rq_bios rq)) = unat (rq_data_len rq)"
    "whole_sectors (extents (rq_bios rq)) (rq_op rq)" "nonempty_bios (rq_bios rq)"
    "unat (rq_data_len rq) < 2 ^ 31" "RQF_FLUSH_SEQ \<notin> rq_rq_flags rq"
    using assms(2) by (auto simp: endable_def rq_wf_def)
  have d: "512 dvd unat (rq_data_len rq)" using whole_bytes [OF wf(3)] wf(2) by simp
  have "unat (rq_data_len rq) \<noteq> 0" using loop_rest_empty [OF wf(3,4)] wf(1,2) by simp
  then have pos: "0 < rq_data_len rq" by (simp add: unat_gt_0 word_gt_0)
  obtain rest e t where l: "update_loop api rq error (rq_bios rq) (rq_data_len rq) 0 = (rest, e, t)"
    by (metis prod_cases3)
  have "loop_post (rq_bios rq) (rq_op rq) error (unat (rq_data_len rq)) 0 (rest, e, t)"
    using update_loop_post [OF assms(1) wf(6,3,4) d pos, of 0 error] wf(2,5) l by simp
  then have "whole_sectors (extents rest) (rq_op rq)" "nonempty_bios rest" "bytes_in (extents rest) = 0"
    using wf(2) by (auto simp: loop_post_def)
  then have "rest = []" using loop_rest_empty by blast
  then show ?thesis using l wf(1) by (simp add: blk_update_request_def)
qed

text \<open>
  Ending part of a request. \<open>blk_update_request\<close> reports more data exactly when fewer bytes
  were ended than the request has. Then the rest is a well-formed request that starts behind the ended
  bytes and is shorter by them. The descriptors it ends, followed by those left, are the descriptors of
  the request in order, and every ended one carries the error, or keeps its status when there is none.
\<close>

theorem blk_update_request_partial:
  assumes "dapi_ok api" and "endable api rq" and "512 dvd unat n" and "0 < n"
    and "\<forall>r. \<not> m_passthrough (d_m api) r"
  shows "\<exists>again rq' ended. blk_update_request api rq error n = (again, rq', ended) \<and>
    (again \<longleftrightarrow> unat n < unat (rq_data_len rq)) \<and>
    (if again then left_over rq (unat n) rq' else rq_bios rq' = [] \<and> rq_data_len rq' = 0) \<and>
    map owner_of (ended @ rq_bios rq') = map owner_of (rq_bios rq) \<and>
    map bi_status ended = map (\<lambda>b. if error = 0 then bi_status b else error) (take (length ended) (rq_bios rq))"
proof -
  obtain again rq' ended where u: "blk_update_request api rq error n = (again, rq', ended)" by (metis prod_cases3)
  show ?thesis using update_request_ok [OF assms u] u by blast
qed

section \<open>Ending a request in any number of parts\<close>

fun update_all :: "dapi \<Rightarrow> u8 \<Rightarrow> u32 list \<Rightarrow> request \<Rightarrow> request \<times> bio list" where
  "update_all api error [] rq = (rq, [])"
| "update_all api error (n # ns) rq =
     (case blk_update_request api rq error n of
        (again, rq', ended) \<Rightarrow> (case update_all api error ns rq' of (r, later) \<Rightarrow> (r, ended @ later)))"

definition byte_counts :: "u32 list \<Rightarrow> bool" where
  "byte_counts ns \<longleftrightarrow> (\<forall>n \<in> set ns. 0 < n \<and> 512 dvd unat n)"

lemma update_all_done: "rq_bios rq = [] \<Longrightarrow> update_all api error ns rq = (rq, [])"
  by (induction ns) (simp_all add: blk_update_request_def)

lemma left_over_endable: "endable api rq \<Longrightarrow> left_over rq n rq' \<Longrightarrow> endable api rq'"
  by (auto simp: endable_def left_over_def)

lemma left_over_trans:
  assumes "left_over a n b" and "left_over b m c" and "512 dvd n"
  shows "left_over a (n + m) c"
  using assms by (auto simp: left_over_def div_plus_div_distrib_dvd_left add.assoc)

lemma update_all_ok:
  assumes "dapi_ok api" and "\<forall>r. \<not> m_passthrough (d_m api) r"
  shows "byte_counts ns \<Longrightarrow> endable api rq \<Longrightarrow> ns \<noteq> [] \<Longrightarrow> update_all api error ns rq = (rq', ended) \<Longrightarrow>
    map owner_of (ended @ rq_bios rq') = map owner_of (rq_bios rq) \<and>
    (if sum_list (map unat ns) < unat (rq_data_len rq) then left_over rq (sum_list (map unat ns)) rq' else rq_bios rq' = [])"
proof (induction ns arbitrary: rq ended)
  case (Cons n ns)
  obtain again r1 e where u: "blk_update_request api rq error n = (again, r1, e)" by (metis prod_cases3)
  obtain l where l: "update_all api error ns r1 = (rq', l)" "ended = e @ l"
    using Cons.prems(4) u by (auto split: prod.splits)
  have n: "512 dvd unat n" "0 < n" and ns: "byte_counts ns" using Cons.prems(1) by (auto simp: byte_counts_def)
  note ok = update_request_ok [OF assms(1) Cons.prems(2) n assms(2) u]
  show ?case
  proof (cases again)
    case False
    then have "rq_bios r1 = []" "unat (rq_data_len rq) \<le> unat n" using ok by auto
    moreover from this have "rq' = r1" "l = []" using l(1) update_all_done [of r1 api error ns] by auto
    ultimately show ?thesis using ok l(2) False by auto
  next
    case True
    then have lo: "left_over rq (unat n) r1" "unat n < unat (rq_data_len rq)" using ok by auto
    have end1: "endable api r1" using left_over_endable [OF Cons.prems(2) lo(1)] .
    show ?thesis
    proof (cases "ns = []")
      case nil: True
      then show ?thesis using l lo ok by simp
    next
      case False
      have ih: "map owner_of (l @ rq_bios rq') = map owner_of (rq_bios r1) \<and>
        (if sum_list (map unat ns) < unat (rq_data_len r1) then left_over r1 (sum_list (map unat ns)) rq' else rq_bios rq' = [])"
        using Cons.IH [OF ns end1 False l(1)] .
      have len: "unat (rq_data_len r1) = unat (rq_data_len rq) - unat n" using lo(1) by (simp add: left_over_def)
      have "map owner_of (ended @ rq_bios rq') = map owner_of (rq_bios rq)" using ih ok l(2) by simp
      moreover have "left_over rq (unat n + sum_list (map unat ns)) rq'" if "sum_list (map unat ns) < unat (rq_data_len r1)"
        using left_over_trans [OF lo(1) _ n(1)] ih that by simp
      ultimately show ?thesis using ih len lo(2) by auto
    qed
  qed
qed simp

text \<open>
  C23: However a driver ends the bytes of a request, in any number of steps of any sizes, the descriptors
  are ended in their order; once the steps cover the request every descriptor has been ended exactly once
  and none is left, and before that what is left is a well-formed request for the remaining sectors.
\<close>

theorem request_completes_in_parts:
  assumes "dapi_ok api" and "\<forall>r. \<not> m_passthrough (d_m api) r" and "byte_counts ns" and "ns \<noteq> []" and "endable api rq"
  shows "\<exists>rq' ended. update_all api error ns rq = (rq', ended) \<and>
    map owner_of (ended @ rq_bios rq') = map owner_of (rq_bios rq) \<and>
    (if sum_list (map unat ns) < unat (rq_data_len rq) then left_over rq (sum_list (map unat ns)) rq'
     else map owner_of ended = map owner_of (rq_bios rq))"
proof -
  obtain rq' ended where u: "update_all api error ns rq = (rq', ended)" by force
  show ?thesis using update_all_ok [OF assms(1,2,3,5,4) u] u by (auto split: if_splits)
qed

section \<open>The fast path\<close>

lemma update_request_end:
  assumes "rq_bios rq \<noteq> []" and "blk_update_request api rq error n = (False, rq', ended)"
  shows "rq' = rq\<lparr>rq_bios := [], rq_data_len := 0\<rparr>"
  using assms by (auto simp: blk_update_request_def Let_def split: prod.splits if_splits)

text \<open>
  The batched completion \<open>blk_complete_request\<close> is \<open>blk_update_request\<close> without an error for
  all bytes: it ends the same descriptors in the same order with the same statuses, and leaves the same
  request when the request has no \<open>end_io\<close>.
\<close>

theorem blk_complete_request_equiv:
  assumes "dapi_ok api" and "endable api rq" and "\<forall>r. \<not> m_passthrough (d_m api) r"
  shows "\<exists>r ended r' ended'. blk_update_request api rq 0 (rq_data_len rq) = (False, r, ended) \<and>
    blk_complete_request api False rq = (r', ended') \<and> r = r' \<and>
    map owner_of ended = map owner_of ended' \<and> map bi_status ended = map bi_status ended'"
proof -
  have ne: "rq_bios rq \<noteq> []" and len: "bytes_in (extents (rq_bios rq)) = unat (rq_data_len rq)"
    and w: "whole_sectors (extents (rq_bios rq)) (rq_op rq)" "nonempty_bios (rq_bios rq)"
    and fl: "RQF_FLUSH_SEQ \<notin> rq_rq_flags rq"
    using assms(2) by (auto simp: endable_def rq_wf_def)
  have d: "512 dvd unat (rq_data_len rq)" using whole_bytes [OF w(1)] len by simp
  have "unat (rq_data_len rq) \<noteq> 0" using loop_rest_empty [OF w] ne len by simp
  then have pos: "0 < rq_data_len rq" by (simp add: unat_gt_0 word_gt_0)
  obtain again r e where u: "blk_update_request api rq 0 (rq_data_len rq) = (again, r, e)" by (metis prod_cases3)
  note ok = update_request_ok [OF assms(1,2) d pos assms(3) u]
  have f: "\<not> again" "map owner_of e = map owner_of (rq_bios rq)" using ok by auto
  then have "length e = length (rq_bios rq)" by (metis length_map)
  then have st: "map bi_status e = map bi_status (rq_bios rq)" using ok by simp
  have r: "r = rq\<lparr>rq_bios := [], rq_data_len := 0\<rparr>" using update_request_end [OF ne] u f(1) by auto
  obtain r' e' where c: "blk_complete_request api False rq = (r', e')" by force
  have keep: "owner_of (d_append_done api q b) = owner_of b" "bi_status (d_append_done api q b) = bi_status b" for q b
    using assms(1) by (simp_all add: dapi_ok_def)
  have "r' = rq\<lparr>rq_bios := [], rq_data_len := 0\<rparr>" "map owner_of e' = map owner_of (rq_bios rq)"
    "map bi_status e' = map bi_status (rq_bios rq)"
    using c ne fl keep by (auto simp: blk_complete_request_def Let_def owner_of_def)
  then show ?thesis using u c f r st by auto
qed

section \<open>A concrete request\<close>

definition demo_dapi :: dapi where
  "demo_dapi = \<lparr>d_m = demo_mapi, d_cur_bytes = (\<lambda>b. min (bi_size b) 4096), d_is_zone_append = (\<lambda>b. False),
     d_req_zone_append = (\<lambda>rq b. False), d_append_done = (\<lambda>rq b. b), d_ioerr = 10\<rparr>"

lemma demo_dapi_ok: "dapi_ok demo_dapi"
  using demo_api_ok by (simp add: dapi_ok_def demo_dapi_def demo_mapi_def demo_sapi_def)

lemma demo_dapi_m [simp]: "d_m demo_dapi = demo_mapi"
  by (simp add: demo_dapi_def)

lemma demo_endable: "endable demo_dapi (demo_rq sec)"
  using demo_mergeable [of sec] by (simp add: endable_def mergeable_rq_def nonempty_bios_def demo_rq_def demo_bio_def)

theorem blk_update_request_partial_witness:
  "\<exists>rq' ended. blk_update_request demo_dapi (demo_rq 2048) 0 4096 = (True, rq', ended) \<and> rq_wf rq' \<and>
     rq_sector rq' = 2056 \<and> unat (rq_data_len rq') = 126976"
  using blk_update_request_partial [OF demo_dapi_ok demo_endable, of 4096 2048 0]
  by (auto simp: left_over_def demo_rq_def)

theorem request_completes_in_parts_witness:
  "\<exists>rq' ended. update_all demo_dapi 0 [4096, 65536, 61440] (demo_rq 2048) = (rq', ended) \<and> length ended = 1"
proof -
  have "byte_counts [4096, 65536, 61440]" by (simp add: byte_counts_def)
  from request_completes_in_parts [OF demo_dapi_ok _ this _ demo_endable, of 0 2048]
  obtain rq' ended where "update_all demo_dapi 0 [4096, 65536, 61440] (demo_rq 2048) = (rq', ended)"
    "map owner_of ended = map owner_of (rq_bios (demo_rq 2048))" by (auto simp: demo_rq_def simp del: update_all.simps)
  moreover from this(2) have "length ended = 1" by (auto simp: demo_rq_def dest: map_eq_imp_length_eq)
  ultimately show ?thesis by blast
qed

theorem blk_complete_request_equiv_witness:
  "\<exists>r ended. blk_update_request demo_dapi (demo_rq 2048) 0 131072 = (False, r, ended) \<and>
     r = fst (blk_complete_request demo_dapi False (demo_rq 2048))"
  using blk_complete_request_equiv [OF demo_dapi_ok demo_endable, of 2048] by (auto simp: demo_rq_def)

end
