(* ===== verification/BlockMq.thy ===== *)
theory BlockMq
  imports RequestDone "HOL-Library.Multiset"
begin

text \<open>
  The multi-queue layer (\<open>readaround-split/src/block/blk-mq.c\<close>): the way of a request from the plug
  list of a task to the driver. Requests have addresses; the state holds the dispatch lists of the
  hardware queues, the lists of the software queues, what the elevator was given, what the driver
  accepted and what was ended with an error. The driver, the tag and budget allocators and the
  scheduler's own dispatch (\<open>blk_mq_sched_dispatch_requests\<close>, another file of the kernel) are
  functions of the record \<open>qapi\<close> over an environment of their own. The value \<open>None\<close> is a
  \<open>BUG\<close> or an empty list where the code needs an element. Locks, reference counts, traces and
  quality-of-service callbacks are left out.
\<close>

section \<open>State\<close>

datatype dispatch_ret = STS_OK | STS_RESOURCE | STS_DEV_RESOURCE | STS_FAIL u8

datatype prep_dispatch = PREP_DISPATCH_OK | PREP_DISPATCH_NO_TAG | PREP_DISPATCH_NO_BUDGET

record 'e mq =
  mq_rq :: "nat \<Rightarrow> request"
  mq_dispatch :: "nat \<Rightarrow> nat list"
  mq_sw :: "nat \<times> nat \<Rightarrow> nat list"
  mq_ctx_map :: "nat \<Rightarrow> nat set"
  mq_elv :: "nat list"
  mq_requeue :: "nat \<Rightarrow> nat list"
  mq_flush :: "nat \<Rightarrow> nat list"
  mq_kicked :: "nat list"
  mq_issued :: "nat list"
  mq_ended :: "(nat \<times> u8) list"
  mq_told :: "bio list"
  mq_busy :: "nat \<Rightarrow> u32"
  mq_restart :: "nat \<Rightarrow> bool"
  mq_waiting :: "nat \<Rightarrow> bool"
  mq_work :: "(nat \<times> u64) list"
  mq_env :: 'e

record 'e qapi =
  q_d :: dapi
  q_nr_hw :: nat
  q_nr_ctx :: nat
  q_nr_queues :: nat
  q_hctxs :: "nat \<Rightarrow> nat list"
  q_sq_sched :: "nat \<Rightarrow> bool"
  q_default_hctx :: "'e \<Rightarrow> nat \<Rightarrow> nat"
  q_type :: "nat \<Rightarrow> nat"
  q_ctxs :: "nat \<Rightarrow> nat list"
  q_has_elevator :: "nat \<Rightarrow> bool"
  q_shared_tags :: "nat \<Rightarrow> bool"
  q_on_cpu :: "'e \<Rightarrow> nat \<Rightarrow> bool"
  q_stopped :: "'e \<Rightarrow> nat \<Rightarrow> bool"
  q_quiesced :: "'e \<Rightarrow> nat \<Rightarrow> bool"
  q_sched_has_work :: "'e \<Rightarrow> nat \<Rightarrow> bool"
  q_hctx_queue :: "nat \<Rightarrow> nat"
  q_get_budget :: "'e \<Rightarrow> nat \<Rightarrow> int \<times> 'e"
  q_put_budget :: "'e \<Rightarrow> nat \<Rightarrow> int \<Rightarrow> 'e"
  q_set_token :: "request \<Rightarrow> int \<Rightarrow> request"
  q_token :: "request \<Rightarrow> int"
  q_get_tag :: "'e \<Rightarrow> request \<Rightarrow> bool \<times> request \<times> 'e"
  q_put_tag :: "'e \<Rightarrow> request \<Rightarrow> request \<times> 'e"
  q_queue_rq :: "'e \<Rightarrow> nat \<Rightarrow> request \<Rightarrow> bool \<Rightarrow> dispatch_ret \<times> request \<times> 'e"
  q_queue_rqs :: "(nat list \<Rightarrow> 'e mq \<Rightarrow> nat list \<times> 'e mq) option"
  q_commit :: "('e \<Rightarrow> nat \<Rightarrow> 'e) option"
  q_sched_dispatch :: "nat \<Rightarrow> 'e mq \<Rightarrow> 'e mq"
  q_resource_delay :: u64
  q_nomerges :: "nat \<Rightarrow> bool"
  q_max_request_count :: u16
  q_plug_flush_size :: u32

abbreviation q_passthrough :: "'e qapi \<Rightarrow> request \<Rightarrow> bool" where
  "q_passthrough api \<equiv> m_passthrough (d_m (q_d api))"

definition put_rq :: "nat \<Rightarrow> request \<Rightarrow> 'e mq \<Rightarrow> 'e mq" where
  "put_rq a r s = s\<lparr>mq_rq := (mq_rq s)(a := r)\<rparr>"

section \<open>Ending and requeueing a request\<close>

text \<open>The request is recorded as ended; what its \<open>end_io\<close> or the tag allocator do with it comes later.\<close>

definition blk_mq_finish_request :: "request \<Rightarrow> request" where
  "blk_mq_finish_request r = r\<lparr>rq_rq_flags := rq_rq_flags r - {RQF_USE_SCHED}\<rparr>"

definition blk_mq_end_request :: "'e qapi \<Rightarrow> nat \<Rightarrow> u8 \<Rightarrow> 'e mq \<Rightarrow> 'e mq option" where
  "blk_mq_end_request api a error s =
     (case blk_update_request (q_d api) (mq_rq s a) error (rq_data_len (mq_rq s a)) of
        (again, r, told) \<Rightarrow>
          if again then None
          else Some ((put_rq a (blk_mq_finish_request r) s)
                       \<lparr>mq_ended := mq_ended s @ [(a, error)], mq_told := mq_told s @ told\<rparr>))"

definition requeue_request :: "'e qapi \<Rightarrow> nat \<Rightarrow> 'e mq \<Rightarrow> 'e mq" where
  "requeue_request api a s =
     (case q_put_tag api (mq_env s) (mq_rq s a) of
        (r, e) \<Rightarrow>
          let r1 = (if rq_state r \<noteq> MQ_RQ_IDLE
                    then r\<lparr>rq_state := MQ_RQ_IDLE, rq_rq_flags := rq_rq_flags r - {RQF_TIMED_OUT}\<rparr> else r)
          in (put_rq a r1 s)\<lparr>mq_env := e\<rparr>)"

section \<open>How busy a hardware queue is\<close>

definition blk_mq_update_dispatch_busy :: "nat \<Rightarrow> bool \<Rightarrow> 'e mq \<Rightarrow> 'e mq" where
  "blk_mq_update_dispatch_busy h busy s =
     (let ewma = mq_busy s h in
      if ewma = 0 \<and> \<not> busy then s
      else let e1 = ewma * (8 - 1); e2 = (if busy then e1 + push_bit 4 1 else e1)
           in s\<lparr>mq_busy := (mq_busy s)(h := e2 div 8)\<rparr>)"

section \<open>Running a hardware queue\<close>

definition blk_mq_hctx_has_pending :: "'e qapi \<Rightarrow> nat \<Rightarrow> 'e mq \<Rightarrow> bool" where
  "blk_mq_hctx_has_pending api h s \<longleftrightarrow>
     mq_dispatch s h \<noteq> [] \<or> mq_ctx_map s h \<noteq> {} \<or> q_sched_has_work api (mq_env s) h"

definition blk_mq_hctx_mark_pending :: "nat \<Rightarrow> nat \<Rightarrow> 'e mq \<Rightarrow> 'e mq" where
  "blk_mq_hctx_mark_pending h c s = s\<lparr>mq_ctx_map := (mq_ctx_map s)(h := insert c (mq_ctx_map s h))\<rparr>"

definition blk_mq_delay_run_hw_queue :: "'e qapi \<Rightarrow> nat \<Rightarrow> u64 \<Rightarrow> 'e mq \<Rightarrow> 'e mq" where
  "blk_mq_delay_run_hw_queue api h msecs s =
     (if q_stopped api (mq_env s) h then s else s\<lparr>mq_work := mq_work s @ [(h, msecs)]\<rparr>)"

definition blk_mq_hw_queue_need_run :: "'e qapi \<Rightarrow> nat \<Rightarrow> 'e mq \<Rightarrow> bool" where
  "blk_mq_hw_queue_need_run api h s \<longleftrightarrow>
     \<not> q_quiesced api (mq_env s) (q_hctx_queue api h) \<and> blk_mq_hctx_has_pending api h s"

definition blk_mq_run_hw_queue :: "'e qapi \<Rightarrow> nat \<Rightarrow> bool \<Rightarrow> 'e mq \<Rightarrow> 'e mq" where
  "blk_mq_run_hw_queue api h async s =
     (if \<not> blk_mq_hw_queue_need_run api h s then s
      else if async \<or> \<not> q_on_cpu api (mq_env s) h then blk_mq_delay_run_hw_queue api h 0 s
      else q_sched_dispatch api h s)"

section \<open>Inserting requests\<close>

definition blk_mq_request_bypass_insert :: "nat \<Rightarrow> bool \<Rightarrow> 'e mq \<Rightarrow> 'e mq" where
  "blk_mq_request_bypass_insert a at_head s =
     (let h = rq_mq_hctx (mq_rq s a) in
      s\<lparr>mq_dispatch := (mq_dispatch s)
          (h := if at_head then a # mq_dispatch s h else mq_dispatch s h @ [a])\<rparr>)"

definition blk_mq_insert_request :: "'e qapi \<Rightarrow> nat \<Rightarrow> bool \<Rightarrow> 'e mq \<Rightarrow> 'e mq" where
  "blk_mq_insert_request api a at_head s =
     (let r = mq_rq s a; c = rq_mq_ctx r; h = rq_mq_hctx r in
      if q_passthrough api r then blk_mq_request_bypass_insert a at_head s
      else if rq_op r = REQ_OP_FLUSH then blk_mq_request_bypass_insert a True s
      else if q_has_elevator api (rq_q r) then s\<lparr>mq_elv := mq_elv s @ [a]\<rparr>
      else let k = (c, q_type api h) in
        blk_mq_hctx_mark_pending h c
          (s\<lparr>mq_sw := (mq_sw s)(k := if at_head then a # mq_sw s k else mq_sw s k @ [a])\<rparr>))"

section \<open>Issuing requests directly\<close>

definition get_driver_tag :: "'e qapi \<Rightarrow> nat \<Rightarrow> 'e mq \<Rightarrow> bool \<times> 'e mq" where
  "get_driver_tag api a s =
     (case q_get_tag api (mq_env s) (mq_rq s a) of
        (ok, r, e) \<Rightarrow> (ok, (put_rq a r s)\<lparr>mq_env := e\<rparr>))"

definition call_queue_rq :: "'e qapi \<Rightarrow> nat \<Rightarrow> nat \<Rightarrow> bool \<Rightarrow> 'e mq \<Rightarrow> dispatch_ret \<times> 'e mq" where
  "call_queue_rq api h a is_last s =
     (case q_queue_rq api (mq_env s) h (mq_rq s a) is_last of
        (ret, r, e) \<Rightarrow>
          let s1 = (put_rq a r s)\<lparr>mq_env := e\<rparr>
          in (ret, if ret = STS_OK then s1\<lparr>mq_issued := mq_issued s1 @ [a]\<rparr> else s1))"

definition issue_directly :: "'e qapi \<Rightarrow> nat \<Rightarrow> nat \<Rightarrow> bool \<Rightarrow> 'e mq \<Rightarrow> dispatch_ret \<times> 'e mq" where
  "issue_directly api h a is_last s =
     (case call_queue_rq api h a is_last s of
        (ret, s1) \<Rightarrow>
          (ret, case ret of
                  STS_OK \<Rightarrow> blk_mq_update_dispatch_busy h False s1
                | STS_RESOURCE \<Rightarrow> requeue_request api a (blk_mq_update_dispatch_busy h True s1)
                | STS_DEV_RESOURCE \<Rightarrow> requeue_request api a (blk_mq_update_dispatch_busy h True s1)
                | STS_FAIL e \<Rightarrow> blk_mq_update_dispatch_busy h False s1))"

definition blk_mq_get_budget_and_tag :: "'e qapi \<Rightarrow> nat \<Rightarrow> 'e mq \<Rightarrow> bool \<times> 'e mq" where
  "blk_mq_get_budget_and_tag api a s =
     (let q = rq_q (mq_rq s a) in
      case q_get_budget api (mq_env s) q of
        (token, e) \<Rightarrow>
          let s1 = s\<lparr>mq_env := e\<rparr> in
          if token < 0 then (False, s1)
          else case get_driver_tag api a (put_rq a (q_set_token api (mq_rq s1 a) token) s1) of
                 (ok, s2) \<Rightarrow>
                   if ok then (True, s2)
                   else (False, s2\<lparr>mq_env := q_put_budget api (mq_env s2) q token\<rparr>))"

definition blk_mq_try_issue_directly :: "'e qapi \<Rightarrow> nat \<Rightarrow> nat \<Rightarrow> 'e mq \<Rightarrow> 'e mq option" where
  "blk_mq_try_issue_directly api h a s =
     (if q_stopped api (mq_env s) h \<or> q_quiesced api (mq_env s) (rq_q (mq_rq s a))
      then Some (blk_mq_run_hw_queue api h False (blk_mq_insert_request api a False s))
      else case (if RQF_USE_SCHED \<in> rq_rq_flags (mq_rq s a) then (False, s) else blk_mq_get_budget_and_tag api a s) of
        (ok, s1) \<Rightarrow>
          if \<not> ok
          then let s2 = blk_mq_insert_request api a False s1
               in Some (blk_mq_run_hw_queue api h (REQ_NOWAIT \<in> rq_cmd_flags (mq_rq s2 a)) s2)
          else case issue_directly api h a True s1 of
            (ret, s2) \<Rightarrow>
              (case ret of
                 STS_OK \<Rightarrow> Some s2
               | STS_FAIL e \<Rightarrow> blk_mq_end_request api a e s2
               | _ \<Rightarrow> Some (blk_mq_run_hw_queue api h False (blk_mq_request_bypass_insert a False s2))))"

definition blk_mq_request_issue_directly :: "'e qapi \<Rightarrow> nat \<Rightarrow> bool \<Rightarrow> 'e mq \<Rightarrow> dispatch_ret \<times> 'e mq" where
  "blk_mq_request_issue_directly api a is_last s =
     (let h = rq_mq_hctx (mq_rq s a) in
      if q_stopped api (mq_env s) h \<or> q_quiesced api (mq_env s) (rq_q (mq_rq s a))
      then (STS_OK, blk_mq_run_hw_queue api h False (blk_mq_insert_request api a False s))
      else case blk_mq_get_budget_and_tag api a s of
        (ok, s1) \<Rightarrow> if \<not> ok then (STS_RESOURCE, s1) else issue_directly api h a is_last s1)"

definition blk_mq_commit_rqs :: "'e qapi \<Rightarrow> nat \<Rightarrow> int \<Rightarrow> 'e mq \<Rightarrow> 'e mq" where
  "blk_mq_commit_rqs api h queued s =
     (case q_commit api of
        Some commit \<Rightarrow> if queued \<noteq> 0 then s\<lparr>mq_env := commit (mq_env s) h\<rparr> else s
      | None \<Rightarrow> s)"

definition commit_opt :: "'e qapi \<Rightarrow> nat option \<Rightarrow> int \<Rightarrow> dispatch_ret \<Rightarrow> 'e mq \<Rightarrow> 'e mq" where
  "commit_opt api hctx queued ret s =
     (case hctx of Some h \<Rightarrow> if ret \<noteq> STS_OK then blk_mq_commit_rqs api h queued s else s | None \<Rightarrow> s)"

text \<open>The loop of \<open>blk_mq_issue_direct\<close>; the result is what is left on the list.\<close>

fun issue_direct_loop ::
  "'e qapi \<Rightarrow> nat list \<Rightarrow> nat option \<Rightarrow> int \<Rightarrow> dispatch_ret \<Rightarrow> 'e mq \<Rightarrow> (nat list \<times> 'e mq) option" where
  "issue_direct_loop api [] hctx queued ret s = Some ([], commit_opt api hctx queued ret s)"
| "issue_direct_loop api (a # as) hctx queued ret s =
     (let h = rq_mq_hctx (mq_rq s a);
          (s1, queued1) = (case hctx of
                             Some h0 \<Rightarrow> if h0 \<noteq> h then (blk_mq_commit_rqs api h0 queued s, 0) else (s, queued)
                           | None \<Rightarrow> (s, queued))
      in case blk_mq_request_issue_directly api a (as = []) s1 of
           (ret', s2) \<Rightarrow>
             (case ret' of
                STS_OK \<Rightarrow> issue_direct_loop api as (Some h) (queued1 + 1) ret' s2
              | STS_FAIL e \<Rightarrow>
                  (case blk_mq_end_request api a e s2 of
                     None \<Rightarrow> None
                   | Some s3 \<Rightarrow> issue_direct_loop api as (Some h) queued1 ret' s3)
              | _ \<Rightarrow> Some (as, commit_opt api (Some h) queued1 ret'
                       (blk_mq_run_hw_queue api h False (blk_mq_request_bypass_insert a False s2)))))"

definition blk_mq_issue_direct :: "'e qapi \<Rightarrow> nat list \<Rightarrow> 'e mq \<Rightarrow> (nat list \<times> 'e mq) option" where
  "blk_mq_issue_direct api rqs s = issue_direct_loop api rqs None 0 STS_OK s"

fun try_issue_list_loop ::
  "'e qapi \<Rightarrow> nat \<Rightarrow> nat list \<Rightarrow> int \<Rightarrow> dispatch_ret \<Rightarrow> 'e mq \<Rightarrow> (nat list \<times> 'e mq) option" where
  "try_issue_list_loop api h [] queued ret s = Some ([], commit_opt api (Some h) queued ret s)"
| "try_issue_list_loop api h (a # as) queued ret s =
     (case blk_mq_request_issue_directly api a (as = []) s of
        (ret', s2) \<Rightarrow>
          (case ret' of
             STS_OK \<Rightarrow> try_issue_list_loop api h as (queued + 1) ret' s2
           | STS_FAIL e \<Rightarrow>
               (case blk_mq_end_request api a e s2 of
                  None \<Rightarrow> None
                | Some s3 \<Rightarrow> try_issue_list_loop api h as queued ret' s3)
           | _ \<Rightarrow> let s3 = blk_mq_request_bypass_insert a False s2;
                     s4 = (if as = [] then blk_mq_run_hw_queue api h False s3 else s3)
                 in Some (as, commit_opt api (Some h) queued ret' s4)))"

definition blk_mq_try_issue_list_directly :: "'e qapi \<Rightarrow> nat \<Rightarrow> nat list \<Rightarrow> 'e mq \<Rightarrow> (nat list \<times> 'e mq) option" where
  "blk_mq_try_issue_list_directly api h rqs s = try_issue_list_loop api h rqs 0 STS_OK s"

section \<open>Inserting many requests\<close>

definition blk_mq_insert_requests :: "'e qapi \<Rightarrow> nat \<Rightarrow> nat \<Rightarrow> nat list \<Rightarrow> bool \<Rightarrow> 'e mq \<Rightarrow> 'e mq option" where
  "blk_mq_insert_requests api h c rqs run_queue_async s =
     (case (if mq_busy s h = 0 \<and> \<not> run_queue_async then blk_mq_try_issue_list_directly api h rqs s else Some (rqs, s)) of
        None \<Rightarrow> None
      | Some (l, s1) \<Rightarrow>
          if (mq_busy s h = 0 \<and> \<not> run_queue_async) \<and> l = [] then Some (blk_mq_run_hw_queue api h run_queue_async s1)
          else if \<exists>a \<in> set l. rq_mq_ctx (mq_rq s1 a) \<noteq> c then None
          else let async = (run_queue_async \<or> (\<exists>a \<in> set l. REQ_NOWAIT \<in> rq_cmd_flags (mq_rq s1 a)));
                   k = (c, q_type api h)
               in Some (blk_mq_run_hw_queue api h async (blk_mq_hctx_mark_pending h c
                    (s1\<lparr>mq_sw := (mq_sw s1)(k := mq_sw s1 k @ l)\<rparr>))))"

section \<open>Flushing a plug list\<close>

definition flush_list :: "'e qapi \<Rightarrow> nat \<Rightarrow> (nat list \<Rightarrow> 'e mq \<Rightarrow> nat list \<times> 'e mq) \<Rightarrow> nat list \<Rightarrow> 'e mq \<Rightarrow> nat list \<times> 'e mq" where
  "flush_list api q queue_rqs rqs s = (if q_quiesced api (mq_env s) q then (rqs, s) else queue_rqs rqs s)"

text \<open>The walk along the list: what is moved to \<open>matched_rqs\<close>, what stays, and \<open>depth\<close>.\<close>

fun extract_walk :: "'e mq \<Rightarrow> nat \<Rightarrow> nat list \<Rightarrow> nat list \<Rightarrow> nat list \<Rightarrow> nat \<Rightarrow> nat list \<times> nat list \<times> nat" where
  "extract_walk s this_q [] matched stay depth = (matched, stay, depth)"
| "extract_walk s this_q (a # as) matched stay depth =
     (if rq_q (mq_rq s a) = this_q then extract_walk s this_q as (matched @ [a]) stay (depth + 1)
      else extract_walk s this_q as matched (stay @ [a]) depth)"

definition blk_mq_extract_queue_requests :: "'e mq \<Rightarrow> nat list \<Rightarrow> (nat list \<times> nat list \<times> nat) option" where
  "blk_mq_extract_queue_requests s rqs =
     (case rqs of [] \<Rightarrow> None | a # as \<Rightarrow> Some (extract_walk s (rq_q (mq_rq s a)) as [a] [] 1))"

definition blk_mq_dispatch_queue_requests :: "'e qapi \<Rightarrow> nat list \<Rightarrow> 'e mq \<Rightarrow> (nat list \<times> 'e mq) option" where
  "blk_mq_dispatch_queue_requests api rqs s =
     (case rqs of
        [] \<Rightarrow> None
      | a # as \<Rightarrow>
          (case q_queue_rqs api of
             Some f \<Rightarrow>
               (case flush_list api (rq_q (mq_rq s a)) f rqs s of
                  (l, s1) \<Rightarrow> if l = [] then Some ([], s1) else blk_mq_issue_direct api l s1)
           | None \<Rightarrow> blk_mq_issue_direct api rqs s))"

text \<open>The first loop of \<open>blk_mq_dispatch_list\<close>: the requests like the first one, and the others.\<close>

definition like_first :: "'e qapi \<Rightarrow> 'e mq \<Rightarrow> nat \<Rightarrow> nat \<Rightarrow> bool" where
  "like_first api s a b \<longleftrightarrow> rq_mq_hctx (mq_rq s b) = rq_mq_hctx (mq_rq s a) \<and>
     rq_mq_ctx (mq_rq s b) = rq_mq_ctx (mq_rq s a) \<and> (q_passthrough api (mq_rq s b) \<longleftrightarrow> q_passthrough api (mq_rq s a))"

fun dispatch_split :: "'e qapi \<Rightarrow> 'e mq \<Rightarrow> nat option \<Rightarrow> nat list \<Rightarrow> nat list \<Rightarrow> nat list \<Rightarrow> nat list \<times> nat list" where
  "dispatch_split api s fst_rq [] l requeue = (l, requeue)"
| "dispatch_split api s None (a # as) l requeue = dispatch_split api s (Some a) as (l @ [a]) requeue"
| "dispatch_split api s (Some f) (a # as) l requeue =
     (if like_first api s f a then dispatch_split api s (Some f) as (l @ [a]) requeue
      else dispatch_split api s (Some f) as l (requeue @ [a]))"

definition dispatch_batch :: "'e qapi \<Rightarrow> nat \<Rightarrow> nat list \<Rightarrow> bool \<Rightarrow> 'e mq \<Rightarrow> 'e mq option" where
  "dispatch_batch api a l from_sched s =
     (let r = mq_rq s a; h = rq_mq_hctx r in
      if q_passthrough api r
      then Some (blk_mq_run_hw_queue api h from_sched (s\<lparr>mq_dispatch := (mq_dispatch s)(h := mq_dispatch s h @ l)\<rparr>))
      else if q_has_elevator api (q_hctx_queue api h)
      then Some (blk_mq_run_hw_queue api h from_sched (s\<lparr>mq_elv := mq_elv s @ l\<rparr>))
      else blk_mq_insert_requests api h (rq_mq_ctx r) l from_sched s)"

definition blk_mq_dispatch_list :: "'e qapi \<Rightarrow> nat list \<Rightarrow> bool \<Rightarrow> 'e mq \<Rightarrow> (nat list \<times> 'e mq) option" where
  "blk_mq_dispatch_list api rqs from_sched s =
     (case rqs of
        [] \<Rightarrow> None
      | a # as \<Rightarrow> (case dispatch_split api s None rqs [] [] of
                    (l, requeue) \<Rightarrow> map_option (\<lambda>s'. (requeue, s')) (dispatch_batch api a l from_sched s)))"

lemma dispatch_split_filter:
  "dispatch_split api s (Some f) as l requeue =
     (l @ filter (like_first api s f) as, requeue @ filter (\<lambda>a. \<not> like_first api s f a) as)"
  by (induction as arbitrary: l requeue) auto

lemma dispatch_list_shorter:
  "blk_mq_dispatch_list api rqs from_sched s = Some (rest, s') \<Longrightarrow> length rest < length rqs"
  by (auto simp: blk_mq_dispatch_list_def dispatch_split_filter le_imp_less_Suc split: list.splits)

function dispatch_all :: "'e qapi \<Rightarrow> nat list \<Rightarrow> bool \<Rightarrow> 'e mq \<Rightarrow> 'e mq option" where
  "dispatch_all api rqs from_sched s =
     (if rqs = [] then Some s
      else case blk_mq_dispatch_list api rqs from_sched s of
             None \<Rightarrow> None
           | Some (rest, s') \<Rightarrow> dispatch_all api rest from_sched s')"
  by pat_completeness auto
termination
  by (relation "measure (\<lambda>(api, rqs, from_sched, s). length rqs)") (auto dest: dispatch_list_shorter)

declare dispatch_all.simps [simp del]

lemma extract_walk_stay:
  "extract_walk s q as matched stay depth =
     (matched @ filter (\<lambda>a. rq_q (mq_rq s a) = q) as, stay @ filter (\<lambda>a. rq_q (mq_rq s a) \<noteq> q) as,
      depth + length (filter (\<lambda>a. rq_q (mq_rq s a) = q) as))"
  by (induction as arbitrary: matched stay depth) auto

lemma extract_shorter:
  "blk_mq_extract_queue_requests s rqs = Some (q, rest, depth) \<Longrightarrow> length rest < length rqs"
  by (auto simp: blk_mq_extract_queue_requests_def extract_walk_stay le_imp_less_Suc split: list.splits)

function blk_mq_dispatch_multiple_queue_requests :: "'e qapi \<Rightarrow> nat list \<Rightarrow> 'e mq \<Rightarrow> 'e mq option" where
  "blk_mq_dispatch_multiple_queue_requests api rqs s =
     (case blk_mq_extract_queue_requests s rqs of
        None \<Rightarrow> None
      | Some (queue_rqs, rest, depth) \<Rightarrow>
          (case blk_mq_dispatch_queue_requests api queue_rqs s of
             None \<Rightarrow> None
           | Some (l, s1) \<Rightarrow>
               (case dispatch_all api l False s1 of
                  None \<Rightarrow> None
                | Some s2 \<Rightarrow> if rest = [] then Some s2 else blk_mq_dispatch_multiple_queue_requests api rest s2)))"
  by pat_completeness auto
termination
  by (relation "measure (\<lambda>(api, rqs, s). length rqs)") (auto dest: extract_shorter)

declare blk_mq_dispatch_multiple_queue_requests.simps [simp del]

record plug =
  pl_rqs :: "nat list"
  pl_count :: u16
  pl_multiple :: bool
  pl_elevator :: bool

definition blk_mq_flush_plug_list :: "'e qapi \<Rightarrow> plug \<Rightarrow> bool \<Rightarrow> 'e mq \<Rightarrow> (plug \<times> 'e mq) option" where
  "blk_mq_flush_plug_list api plug from_schedule s =
     (if pl_count plug = 0 then Some (plug, s)
      else let p0 = plug\<lparr>pl_count := 0\<rparr>; p1 = p0\<lparr>pl_rqs := []\<rparr> in
        if \<not> pl_elevator plug \<and> \<not> from_schedule
        then if pl_multiple plug
             then map_option (\<lambda>s1. (p1, s1)) (blk_mq_dispatch_multiple_queue_requests api (pl_rqs p0) s)
             else (case blk_mq_dispatch_queue_requests api (pl_rqs p0) s of
                     None \<Rightarrow> None
                   | Some (l, s1) \<Rightarrow> map_option (\<lambda>s2. (p1, s2)) (dispatch_all api l from_schedule s1))
        else if pl_rqs p0 = [] then None
        else map_option (\<lambda>s1. (p1, s1)) (dispatch_all api (pl_rqs p0) from_schedule s))"

definition blk_plug_max_rq_count :: "'e qapi \<Rightarrow> plug \<Rightarrow> u16" where
  "blk_plug_max_rq_count api plug =
     (if pl_multiple plug then q_max_request_count api * 2 else q_max_request_count api)"

text \<open>The end of \<open>blk_add_rq_to_plug\<close>: the flags of the list, the list and its counter.\<close>

definition plug_append :: "nat option \<Rightarrow> plug \<Rightarrow> nat \<Rightarrow> 'e mq \<Rightarrow> plug" where
  "plug_append lst p a s =
     (let p1 = (case lst of
                  Some b \<Rightarrow> if \<not> pl_multiple p \<and> rq_q (mq_rq s b) \<noteq> rq_q (mq_rq s a)
                            then p\<lparr>pl_multiple := True\<rparr> else p
                | None \<Rightarrow> p);
          p2 = (if \<not> pl_elevator p1 \<and> RQF_SCHED_TAGS \<in> rq_rq_flags (mq_rq s a)
                then p1\<lparr>pl_elevator := True\<rparr> else p1)
      in p2\<lparr>pl_rqs := pl_rqs p2 @ [a], pl_count := pl_count p2 + 1\<rparr>)"

text \<open>\<open>rq_list_peek\<close> reads the first request of the list, which the code calls \<open>last\<close>.\<close>

definition blk_add_rq_to_plug :: "'e qapi \<Rightarrow> plug \<Rightarrow> nat \<Rightarrow> 'e mq \<Rightarrow> (plug \<times> 'e mq) option" where
  "blk_add_rq_to_plug api plug a s =
     (let peek = (if pl_rqs plug = [] then None else Some (hd (pl_rqs plug)));
          full = (if pl_count plug = 0 then Some False
                  else if pl_count plug \<ge> blk_plug_max_rq_count api plug then Some True
                  else if q_nomerges api (rq_q (mq_rq s a)) then Some False
                  else map_option (\<lambda>b. rq_data_len (mq_rq s b) \<ge> q_plug_flush_size api) peek)
      in case full of
           None \<Rightarrow> None
         | Some False \<Rightarrow> Some (plug_append peek plug a s, s)
         | Some True \<Rightarrow> map_option (\<lambda>(p, s1). (plug_append None p a s1, s1)) (blk_mq_flush_plug_list api plug False s))"

section \<open>Dispatching a list of a hardware queue\<close>

definition blk_mq_mark_tag_wait :: "'e qapi \<Rightarrow> nat \<Rightarrow> nat \<Rightarrow> 'e mq \<Rightarrow> bool \<times> 'e mq" where
  "blk_mq_mark_tag_wait api h a s =
     (if \<not> q_shared_tags api h then get_driver_tag api a (s\<lparr>mq_restart := (mq_restart s)(h := True)\<rparr>)
      else if mq_waiting s h then (False, s)
      else case get_driver_tag api a (s\<lparr>mq_waiting := (mq_waiting s)(h := True)\<rparr>) of
             (ok, s1) \<Rightarrow> if \<not> ok then (False, s1)
                         else (True, s1\<lparr>mq_waiting := (mq_waiting s1)(h := False)\<rparr>))"

definition blk_mq_prep_dispatch_rq :: "'e qapi \<Rightarrow> nat \<Rightarrow> bool \<Rightarrow> 'e mq \<Rightarrow> prep_dispatch \<times> 'e mq" where
  "blk_mq_prep_dispatch_rq api a need_budget s =
     (let q = rq_q (mq_rq s a); h = rq_mq_hctx (mq_rq s a);
          (token, s1) = (if need_budget
                         then case q_get_budget api (mq_env s) q of (t, e) \<Rightarrow> (t, s\<lparr>mq_env := e\<rparr>) else (- 1, s))
      in if need_budget \<and> token < 0
         then (case q_put_tag api (mq_env s1) (mq_rq s1 a) of
                 (r, e) \<Rightarrow> (PREP_DISPATCH_NO_BUDGET, (put_rq a r s1)\<lparr>mq_env := e\<rparr>))
         else let s2 = (if need_budget then put_rq a (q_set_token api (mq_rq s1 a) token) s1 else s1) in
           case get_driver_tag api a s2 of
             (ok, s3) \<Rightarrow>
               if ok then (PREP_DISPATCH_OK, s3)
               else case blk_mq_mark_tag_wait api h a s3 of
                      (ok2, s4) \<Rightarrow>
                        if ok2 then (PREP_DISPATCH_OK, s4)
                        else (PREP_DISPATCH_NO_TAG,
                              if need_budget then s4\<lparr>mq_env := q_put_budget api (mq_env s4) q token\<rparr> else s4))"

definition blk_mq_release_budgets :: "'e qapi \<Rightarrow> nat \<Rightarrow> nat list \<Rightarrow> 'e mq \<Rightarrow> 'e mq" where
  "blk_mq_release_budgets api q rqs s =
     fold (\<lambda>a s. let token = q_token api (mq_rq s a) in
                 if token \<ge> 0 then s\<lparr>mq_env := q_put_budget api (mq_env s) q token\<rparr> else s) rqs s"

text \<open>
  The loop of \<open>blk_mq_dispatch_rq_list\<close>: the last preparation, the last return value, whether a
  resource is needed, the number queued, the requests left, and the state.
\<close>

fun dispatch_rq_loop ::
  "'e qapi \<Rightarrow> nat \<Rightarrow> bool \<Rightarrow> nat list \<Rightarrow> int \<Rightarrow> dispatch_ret \<Rightarrow> 'e mq \<Rightarrow>
   (prep_dispatch \<times> dispatch_ret \<times> bool \<times> int \<times> nat list \<times> 'e mq) option" where
  "dispatch_rq_loop api h get_budget [] queued ret s = Some (PREP_DISPATCH_OK, ret, False, queued, [], s)"
| "dispatch_rq_loop api h get_budget (a # as) queued ret s =
     (case blk_mq_prep_dispatch_rq api a get_budget s of
        (prep, s1) \<Rightarrow>
          if prep \<noteq> PREP_DISPATCH_OK then Some (prep, ret, False, queued, a # as, s1)
          else case call_queue_rq api h a (as = []) s1 of
            (ret', s2) \<Rightarrow>
              (case ret' of
                 STS_OK \<Rightarrow> dispatch_rq_loop api h get_budget as (queued + 1) ret' s2
               | STS_FAIL e \<Rightarrow>
                   (case blk_mq_end_request api a e s2 of
                      None \<Rightarrow> None
                    | Some s3 \<Rightarrow> dispatch_rq_loop api h get_budget as queued ret' s3)
               | _ \<Rightarrow> Some (prep, ret', ret' = STS_RESOURCE, queued, a # as, requeue_request api a s2)))"

definition blk_mq_dispatch_rq_list :: "'e qapi \<Rightarrow> nat \<Rightarrow> nat list \<Rightarrow> bool \<Rightarrow> 'e mq \<Rightarrow> (bool \<times> 'e mq) option" where
  "blk_mq_dispatch_rq_list api h rqs get_budget s =
     (if rqs = [] then Some (False, s)
      else case dispatch_rq_loop api h get_budget rqs 0 STS_OK s of
        None \<Rightarrow> None
      | Some (prep, ret, needs_resource, queued, l, s1) \<Rightarrow>
          let s2 = (if l \<noteq> [] \<or> ret \<noteq> STS_OK then blk_mq_commit_rqs api h queued s1 else s1) in
          if l = [] then Some (True, blk_mq_update_dispatch_busy h False s2)
          else let no_tag = (prep = PREP_DISPATCH_NO_TAG \<and> q_shared_tags api h);
                   s3 = (if get_budget then s2 else blk_mq_release_budgets api (q_hctx_queue api h) l s2);
                   s4 = s3\<lparr>mq_dispatch := (mq_dispatch s3)(h := mq_dispatch s3 h @ l)\<rparr>;
                   needs = (needs_resource \<or> prep = PREP_DISPATCH_NO_BUDGET);
                   s5 = (if \<not> mq_restart s4 h \<or> no_tag \<and> \<not> mq_waiting s4 h then blk_mq_run_hw_queue api h True s4
                         else if needs then blk_mq_delay_run_hw_queue api h (q_resource_delay api) s4 else s4)
               in Some (False, blk_mq_update_dispatch_busy h True s5))"

section \<open>Requeueing and the software queues\<close>

text \<open>The queues whose requeue work has been scheduled are recorded; the elevator's own callback is left out.\<close>

definition blk_mq_kick_requeue_list :: "nat \<Rightarrow> 'e mq \<Rightarrow> 'e mq" where
  "blk_mq_kick_requeue_list q s = s\<lparr>mq_kicked := mq_kicked s @ [q]\<rparr>"

definition blk_mq_requeue_request :: "'e qapi \<Rightarrow> nat \<Rightarrow> bool \<Rightarrow> 'e mq \<Rightarrow> 'e mq" where
  "blk_mq_requeue_request api a kick_requeue_list s =
     (let q = rq_q (mq_rq s a);
          s1 = requeue_request api a s;
          s2 = s1\<lparr>mq_requeue := (mq_requeue s1)(q := mq_requeue s1 q @ [a])\<rparr>
      in if kick_requeue_list then blk_mq_kick_requeue_list q s2 else s2)"

definition requeue_insert :: "'e qapi \<Rightarrow> nat \<Rightarrow> 'e mq \<Rightarrow> 'e mq" where
  "requeue_insert api a s =
     (if RQF_DONTPREP \<in> rq_rq_flags (mq_rq s a) then blk_mq_request_bypass_insert a False s
      else blk_mq_insert_request api a True s)"

definition blk_mq_get_sq_hctx :: "'e qapi \<Rightarrow> nat \<Rightarrow> 'e mq \<Rightarrow> nat option" where
  "blk_mq_get_sq_hctx api q s =
     (let h = q_default_hctx api (mq_env s) q in if \<not> q_stopped api (mq_env s) h then Some h else None)"

definition blk_mq_run_hw_queues :: "'e qapi \<Rightarrow> nat \<Rightarrow> bool \<Rightarrow> 'e mq \<Rightarrow> 'e mq" where
  "blk_mq_run_hw_queues api q async s =
     (let sq = (if q_sq_sched api q then blk_mq_get_sq_hctx api q s else None) in
      fold (\<lambda>h s. if q_stopped api (mq_env s) h then s
                  else if sq = None \<or> sq = Some h \<or> mq_dispatch s h \<noteq> [] then blk_mq_run_hw_queue api h async s
                  else s) (q_hctxs api q) s)"

definition blk_mq_requeue_work :: "'e qapi \<Rightarrow> nat \<Rightarrow> 'e mq \<Rightarrow> 'e mq" where
  "blk_mq_requeue_work api q s =
     (let s1 = s\<lparr>mq_requeue := (mq_requeue s)(q := []), mq_flush := (mq_flush s)(q := [])\<rparr>;
          s2 = fold (requeue_insert api) (mq_requeue s q) s1;
          s3 = fold (\<lambda>a. blk_mq_insert_request api a False) (mq_flush s q) s2
      in blk_mq_run_hw_queues api q False s3)"

definition flush_busy_ctx :: "'e qapi \<Rightarrow> nat \<Rightarrow> nat \<Rightarrow> nat list \<times> 'e mq \<Rightarrow> nat list \<times> 'e mq" where
  "flush_busy_ctx api h c = (\<lambda>(l, s).
     let k = (c, q_type api h) in
     (l @ mq_sw s k, s\<lparr>mq_sw := (mq_sw s)(k := []), mq_ctx_map := (mq_ctx_map s)(h := mq_ctx_map s h - {c})\<rparr>))"

definition blk_mq_flush_busy_ctxs :: "'e qapi \<Rightarrow> nat \<Rightarrow> nat list \<Rightarrow> 'e mq \<Rightarrow> nat list \<times> 'e mq" where
  "blk_mq_flush_busy_ctxs api h l s =
     fold (\<lambda>c st. if c \<in> mq_ctx_map s h then flush_busy_ctx api h c st else st) (q_ctxs api h) (l, s)"

end
