(* ===== verification/MqLaws.thy ===== *)
theory MqLaws
  imports BlockMq
begin

text \<open>
  Laws of the multi-queue layer: no request is lost and none is handled twice on its way from a plug
  list to the driver, whatever the driver and the allocators answer; every loop ends.
\<close>

section \<open>Where requests are\<close>

definition all_rqs :: "'e qapi \<Rightarrow> 'e mq \<Rightarrow> nat multiset" where
  "all_rqs api s = (\<Sum>h < q_nr_hw api. mset (mq_dispatch s h)) +
     (\<Sum>k \<in> {..<q_nr_ctx api} \<times> {..<3}. mset (mq_sw s k)) +
     (\<Sum>q < q_nr_queues api. mset (mq_requeue s q) + mset (mq_flush s q)) +
     mset (mq_elv s) + mset (mq_issued s) + mset (map fst (mq_ended s))"

text \<open>What the driver and the allocators must leave alone in a request.\<close>

definition same_work :: "request \<Rightarrow> request \<Rightarrow> bool" where
  "same_work r r' \<longleftrightarrow> rq_q r' = rq_q r \<and> rq_mq_hctx r' = rq_mq_hctx r \<and> rq_mq_ctx r' = rq_mq_ctx r \<and>
     rq_bios r' = rq_bios r \<and> rq_data_len r' = rq_data_len r \<and> rq_sector r' = rq_sector r \<and> rq_op r' = rq_op r \<and>
     (RQF_FLUSH_SEQ \<in> rq_rq_flags r' \<longleftrightarrow> RQF_FLUSH_SEQ \<in> rq_rq_flags r)"

lemma same_work_refl [simp, intro]: "same_work r r"
  by (simp add: same_work_def)

lemma same_work_trans [trans]: "same_work a b \<Longrightarrow> same_work b c \<Longrightarrow> same_work a c"
  by (simp add: same_work_def)

text \<open>
  From a state with the requests \<open>xs\<close> in hand to one with \<open>ys\<close> in hand: the others have gone
  to a queue, the driver or their end, and what is in no queue has not been touched.
\<close>

definition deliver :: "'e qapi \<Rightarrow> nat list \<Rightarrow> 'e mq \<Rightarrow> nat list \<Rightarrow> 'e mq \<Rightarrow> bool" where
  "deliver api xs s ys s' \<longleftrightarrow> all_rqs api s' + mset ys = all_rqs api s + mset xs \<and>
     all_rqs api s \<subseteq># all_rqs api s' \<and> (\<forall>a. a \<notin># all_rqs api s' \<longrightarrow> same_work (mq_rq s a) (mq_rq s' a))"

lemma deliver_trans:
  assumes "deliver api xs s ys s'" and "deliver api ys s' zs s''"
  shows "deliver api xs s zs s''"
proof -
  have "a \<notin># all_rqs api s''  \<Longrightarrow> a \<notin># all_rqs api s'" for a
    using assms(2) by (meson deliver_def mset_subset_eqD)
  then show ?thesis using assms unfolding deliver_def
    by (metis same_work_trans subset_mset.order_trans)
qed

lemma deliver_frame: "deliver api xs s ys s' \<Longrightarrow> deliver api (xs @ zs) s (ys @ zs) s'"
  by (simp add: deliver_def flip: add.assoc)

text \<open>Steps that move no request.\<close>

lemma deliver_still:
  assumes "all_rqs api s' = all_rqs api s" and "\<forall>a. same_work (mq_rq s a) (mq_rq s' a)"
  shows "deliver api xs s xs s'"
  using assms by (simp add: deliver_def)

definition finishable :: "'e qapi \<Rightarrow> request \<Rightarrow> bool" where
  "finishable api r \<longleftrightarrow> rq_bios r = [] \<or> endable (q_d api) r"

definition routed :: "'e qapi \<Rightarrow> request \<Rightarrow> bool" where
  "routed api r \<longleftrightarrow> rq_mq_hctx r < q_nr_hw api \<and> rq_mq_ctx r < q_nr_ctx api \<and> finishable api r"

definition ready :: "'e qapi \<Rightarrow> 'e mq \<Rightarrow> nat list \<Rightarrow> bool" where
  "ready api s xs \<longleftrightarrow> distinct xs \<and> (\<forall>a \<in> set xs. a \<notin># all_rqs api s \<and> routed api (mq_rq s a))"

lemma same_work_routed: "same_work r r' \<Longrightarrow> routed api r' \<longleftrightarrow> routed api r"
  by (auto simp: same_work_def routed_def finishable_def endable_def rq_wf_def)

lemma deliver_split:
  assumes "deliver api xs s ys s'"
  shows "\<exists>zs. mset xs = mset (zs @ ys) \<and> all_rqs api s' = all_rqs api s + mset zs"
proof -
  obtain D where D: "all_rqs api s' = all_rqs api s + D" using assms unfolding deliver_def by (metis subset_mset.le_iff_add)
  moreover obtain zs where "mset zs = D" using ex_mset by blast
  ultimately show ?thesis using assms by (intro exI [of _ zs]) (simp add: deliver_def add.assoc)
qed

lemma deliver_ready:
  assumes "deliver api xs s ys s'" and "ready api s xs"
  shows "ready api s' ys" and "\<forall>a \<in> set ys. same_work (mq_rq s a) (mq_rq s' a)"
proof -
  obtain zs where zs: "mset xs = mset (zs @ ys)" "all_rqs api s' = all_rqs api s + mset zs"
    using deliver_split [OF assms(1)] by blast
  have d: "distinct (zs @ ys)" using assms(2) zs(1) by (simp add: ready_def mset_eq_imp_distinct_iff [OF zs(1)])
  have sub: "set ys \<subseteq> set xs" using zs(1) by (metis mset_eq_setD set_append sup_ge2)
  have out: "a \<notin># all_rqs api s'" if "a \<in> set ys" for a
    using that d sub zs(2) assms(2) by (auto simp: ready_def)
  show sw: "\<forall>a \<in> set ys. same_work (mq_rq s a) (mq_rq s' a)" using assms(1) out by (simp add: deliver_def)
  show "ready api s' ys" unfolding ready_def
  proof (intro conjI ballI)
    show "distinct ys" using d by simp
    fix a assume a: "a \<in> set ys"
    show "a \<notin># all_rqs api s'" using out [OF a] .
    show "routed api (mq_rq s' a)" using same_work_routed sw a sub assms(2) by (metis ready_def subsetD)
  qed
qed

section \<open>What the driver and the allocators promise\<close>

definition qapi_ok :: "'e qapi \<Rightarrow> bool" where
  "qapi_ok api \<longleftrightarrow> dapi_ok (q_d api) \<and> (\<forall>h. q_type api h < 3) \<and>
     (\<forall>e r. same_work r (fst (snd (q_get_tag api e r)))) \<and> (\<forall>e r. same_work r (fst (q_put_tag api e r))) \<and>
     (\<forall>r t. same_work r (q_set_token api r t)) \<and> (\<forall>e h r l. same_work r (fst (snd (q_queue_rq api e h r l)))) \<and>
     (\<forall>h s. deliver api [] s [] (q_sched_dispatch api h s)) \<and>
     (\<forall>f l s. q_queue_rqs api = Some f \<longrightarrow> deliver api l s (fst (f l s)) (snd (f l s)))"

lemma all_rqs_frame [simp]:
  "all_rqs api (put_rq a r s) = all_rqs api s" "all_rqs api (s\<lparr>mq_env := e\<rparr>) = all_rqs api s"
  "all_rqs api (s\<lparr>mq_busy := u\<rparr>) = all_rqs api s" "all_rqs api (s\<lparr>mq_work := w\<rparr>) = all_rqs api s"
  "all_rqs api (s\<lparr>mq_ctx_map := m\<rparr>) = all_rqs api s" "all_rqs api (s\<lparr>mq_restart := b\<rparr>) = all_rqs api s"
  "all_rqs api (s\<lparr>mq_waiting := b\<rparr>) = all_rqs api s" "all_rqs api (s\<lparr>mq_told := l\<rparr>) = all_rqs api s"
  by (simp_all add: all_rqs_def put_rq_def)

lemma put_rq_simps [simp]:
  "mq_rq (put_rq a r s) = (mq_rq s)(a := r)" "mq_env (put_rq a r s) = mq_env s"
  "mq_issued (put_rq a r s) = mq_issued s" "mq_ended (put_rq a r s) = mq_ended s"
  by (simp_all add: put_rq_def)

lemma deliver_put: "same_work (mq_rq s a) r \<Longrightarrow> deliver api xs s xs (put_rq a r s)"
  by (rule deliver_still) auto

lemma deliver_env: "deliver api xs s xs (s\<lparr>mq_env := e\<rparr>)"
  by (rule deliver_still) auto

lemma deliver_put_env: "same_work (mq_rq s a) r \<Longrightarrow> deliver api xs s xs ((put_rq a r s)\<lparr>mq_env := e\<rparr>)"
  by (rule deliver_still) auto

lemma deliver_busy: "deliver api xs s xs (blk_mq_update_dispatch_busy h b s)"
  by (rule deliver_still) (auto simp: blk_mq_update_dispatch_busy_def Let_def)

lemma deliver_commit: "deliver api xs s xs (blk_mq_commit_rqs api h n s)"
  by (rule deliver_still) (auto simp: blk_mq_commit_rqs_def split: option.split)

lemma deliver_commit_opt: "deliver api xs s xs (commit_opt api h n r s)"
  by (rule deliver_still) (auto simp: commit_opt_def blk_mq_commit_rqs_def split: option.split)

text \<open>Steps that put a request in its place.\<close>

lemma sum_upd:
  fixes f :: "'a \<Rightarrow> nat list"
  assumes "finite S" and "x \<in> S"
  shows "(\<Sum>i \<in> S. mset ((f(x := l)) i)) + mset (f x) = (\<Sum>i \<in> S. mset (f i)) + mset l"
proof -
  have "(\<Sum>i \<in> S - {x}. mset ((f(x := l)) i)) = (\<Sum>i \<in> S - {x}. mset (f i))" by (rule sum.cong) auto
  then show ?thesis using assms by (simp add: sum.remove [of S x] ac_simps)
qed

lemma sum_add:
  fixes f :: "'a \<Rightarrow> nat list"
  assumes "finite S" and "x \<in> S" and "mset l = mset (f x) + m"
  shows "(\<Sum>i \<in> S. mset ((f(x := l)) i)) = (\<Sum>i \<in> S. mset (f i)) + m"
proof -
  have "(\<Sum>i \<in> S. mset ((f(x := l)) i)) + mset (f x) = ((\<Sum>i \<in> S. mset (f i)) + m) + mset (f x)"
    using sum_upd [OF assms(1,2), of f l] assms(3) by (simp only: ac_simps)
  then show ?thesis by (simp only: add_right_cancel)
qed

lemma all_rqs_dispatch:
  "h < q_nr_hw api \<Longrightarrow> mset l = mset (mq_dispatch s h) + m \<Longrightarrow>
   all_rqs api (s\<lparr>mq_dispatch := (mq_dispatch s)(h := l)\<rparr>) = all_rqs api s + m"
  using sum_add [of "{..<q_nr_hw api}" h l "mq_dispatch s" m] by (simp add: all_rqs_def ac_simps)

lemma all_rqs_sw:
  "c < q_nr_ctx api \<Longrightarrow> t < 3 \<Longrightarrow> mset l = mset (mq_sw s (c, t)) + m \<Longrightarrow>
   all_rqs api (s\<lparr>mq_sw := (mq_sw s)((c, t) := l)\<rparr>) = all_rqs api s + m"
  using sum_add [of "{..<q_nr_ctx api} \<times> {..<3}" "(c, t)" l "mq_sw s" m] by (simp add: all_rqs_def ac_simps)

lemma deliver_added:
  assumes "all_rqs api s' = all_rqs api s + mset xs" and "\<forall>a. a \<notin> set xs \<longrightarrow> same_work (mq_rq s a) (mq_rq s' a)"
  shows "deliver api (xs @ ys) s ys s'"
  using assms by (auto simp: deliver_def)

section \<open>The steps of a request\<close>

text \<open>A result of the form \<open>Some s'\<close> with a delivery.\<close>

lemma run_hw_deliver:
  assumes "qapi_ok api"
  shows "deliver api xs s xs (blk_mq_run_hw_queue api h async s)"
proof -
  have "deliver api xs s xs (blk_mq_delay_run_hw_queue api h m s)" for m
    by (rule deliver_still) (auto simp: blk_mq_delay_run_hw_queue_def)
  moreover have "deliver api xs s xs (q_sched_dispatch api h s)"
    using deliver_frame [of api "[]" s "[]" "q_sched_dispatch api h s" xs] assms by (simp add: qapi_ok_def)
  moreover have "deliver api xs s xs s" by (rule deliver_still) auto
  ultimately show ?thesis by (simp add: blk_mq_run_hw_queue_def)
qed

lemma bypass_deliver:
  assumes "routed api (mq_rq s a)"
  shows "deliver api (a # xs) s xs (blk_mq_request_bypass_insert a at_head s)"
proof -
  have "all_rqs api (blk_mq_request_bypass_insert a at_head s) = all_rqs api s + {#a#}"
    using assms unfolding blk_mq_request_bypass_insert_def Let_def
    by (intro all_rqs_dispatch) (auto simp: routed_def)
  then show ?thesis using deliver_added [of api "blk_mq_request_bypass_insert a at_head s" s "[a]" xs]
    by (simp add: blk_mq_request_bypass_insert_def Let_def)
qed

lemma insert_deliver:
  assumes "qapi_ok api" and "routed api (mq_rq s a)"
  shows "deliver api (a # xs) s xs (blk_mq_insert_request api a at_head s)"
proof -
  let ?h = "rq_mq_hctx (mq_rq s a)" and ?c = "rq_mq_ctx (mq_rq s a)"
  let ?k = "(?c, q_type api ?h)"
  have c: "?c < q_nr_ctx api" "q_type api ?h < 3" using assms by (simp_all add: routed_def qapi_ok_def)
  have "all_rqs api (s\<lparr>mq_sw := (mq_sw s)(?k := if at_head then a # mq_sw s ?k else mq_sw s ?k @ [a])\<rparr>) = all_rqs api s + {#a#}"
    by (rule all_rqs_sw [OF c]) auto
  then have "deliver api (a # xs) s xs (blk_mq_hctx_mark_pending ?h ?c
      (s\<lparr>mq_sw := (mq_sw s)(?k := if at_head then a # mq_sw s ?k else mq_sw s ?k @ [a])\<rparr>))"
    using deliver_added [of api _ s "[a]" xs] by (simp add: blk_mq_hctx_mark_pending_def)
  moreover have "deliver api (a # xs) s xs (s\<lparr>mq_elv := mq_elv s @ [a]\<rparr>)"
    using deliver_added [of api "s\<lparr>mq_elv := mq_elv s @ [a]\<rparr>" s "[a]" xs] by (simp add: all_rqs_def)
  ultimately show ?thesis
    using bypass_deliver [OF assms(2)] by (simp add: blk_mq_insert_request_def Let_def)
qed

lemma tag_deliver:
  assumes "qapi_ok api" and "get_driver_tag api a s = (ok, s')"
  shows "deliver api xs s xs s'"
proof -
  obtain r e where t: "q_get_tag api (mq_env s) (mq_rq s a) = (ok, r, e)" "s' = (put_rq a r s)\<lparr>mq_env := e\<rparr>"
    using assms(2) by (auto simp: get_driver_tag_def split: prod.splits)
  have "same_work (mq_rq s a) r" using assms(1) t(1) by (metis qapi_ok_def fst_conv snd_conv)
  then show ?thesis unfolding t(2) by (rule deliver_put_env)
qed

lemma budget_deliver:
  assumes "qapi_ok api" and "blk_mq_get_budget_and_tag api a s = (ok, s')"
  shows "deliver api xs s xs s'"
proof -
  obtain token e where b: "q_get_budget api (mq_env s) (rq_q (mq_rq s a)) = (token, e)" by force
  define s1 where "s1 = s\<lparr>mq_env := e\<rparr>"
  define s2 where "s2 = put_rq a (q_set_token api (mq_rq s1 a) token) s1"
  obtain ok2 s3 where g: "get_driver_tag api a s2 = (ok2, s3)" by force
  have d1: "deliver api xs s xs s1" unfolding s1_def by (rule deliver_env)
  have "deliver api xs s1 xs s2" unfolding s2_def using assms(1) by (intro deliver_put) (simp add: qapi_ok_def)
  then have d3: "deliver api xs s xs s3" using deliver_trans [OF d1] tag_deliver [OF assms(1) g] deliver_trans by blast
  have "s' = s1 \<or> s' = s3 \<or> (\<exists>e. s' = s3\<lparr>mq_env := e\<rparr>)"
    using assms(2) b g by (auto simp: blk_mq_get_budget_and_tag_def Let_def s1_def s2_def split: if_splits)
  then show ?thesis using d1 d3 deliver_trans [OF d3 deliver_env] by blast
qed

lemma requeue_deliver:
  assumes "qapi_ok api"
  shows "deliver api xs s xs (requeue_request api a s)"
proof -
  obtain r e where p: "q_put_tag api (mq_env s) (mq_rq s a) = (r, e)" by force
  have "same_work (mq_rq s a) r" using assms p by (metis qapi_ok_def fst_conv)
  then have "same_work (mq_rq s a) (if rq_state r \<noteq> MQ_RQ_IDLE
      then r\<lparr>rq_state := MQ_RQ_IDLE, rq_rq_flags := rq_rq_flags r - {RQF_TIMED_OUT}\<rparr> else r)"
    by (auto simp: same_work_def)
  from deliver_put_env [OF this] show ?thesis using p by (simp add: requeue_request_def Let_def)
qed

text \<open>After a call of the driver the request is the driver's, or still in hand.\<close>

definition kept :: "dispatch_ret \<Rightarrow> nat \<Rightarrow> nat list \<Rightarrow> nat list" where
  "kept ret a xs = (if ret = STS_OK then xs else a # xs)"

lemma queue_rq_deliver:
  assumes "qapi_ok api" and "call_queue_rq api h a l s = (ret, s')"
  shows "deliver api (a # xs) s (kept ret a xs) s'"
proof -
  obtain r e where q: "q_queue_rq api (mq_env s) h (mq_rq s a) l = (ret, r, e)" using assms(2)
    by (auto simp: call_queue_rq_def Let_def split: prod.splits)
  have sw: "same_work (mq_rq s a) r" using assms(1) q by (metis qapi_ok_def fst_conv snd_conv)
  have s': "s' = (if ret = STS_OK then (put_rq a r s)\<lparr>mq_env := e, mq_issued := mq_issued s @ [a]\<rparr>
      else (put_rq a r s)\<lparr>mq_env := e\<rparr>)" using assms(2) q by (auto simp: call_queue_rq_def Let_def)
  show ?thesis
  proof (cases "ret = STS_OK")
    case True
    have "all_rqs api s' = all_rqs api s + {#a#}" using s' True by (simp add: all_rqs_def put_rq_def)
    then show ?thesis using deliver_added [of api s' s "[a]" xs] sw s' True by (simp add: kept_def)
  next
    case False
    then show ?thesis using s' deliver_put_env [OF sw] by (simp add: kept_def)
  qed
qed

lemma issue_deliver:
  assumes "qapi_ok api" and "issue_directly api h a l s = (ret, s')"
  shows "deliver api (a # xs) s (kept ret a xs) s'"
proof -
  obtain s1 where c: "call_queue_rq api h a l s = (ret, s1)"
    using assms(2) by (auto simp: issue_directly_def split: prod.splits)
  have s': "s' = (case ret of
        STS_OK \<Rightarrow> blk_mq_update_dispatch_busy h False s1
      | STS_FAIL e \<Rightarrow> blk_mq_update_dispatch_busy h False s1
      | _ \<Rightarrow> requeue_request api a (blk_mq_update_dispatch_busy h True s1))"
    using assms(2) c by (auto simp: issue_directly_def split: dispatch_ret.splits)
  have b: "deliver api ys s1 ys (blk_mq_update_dispatch_busy h u s1)" for ys u by (rule deliver_busy)
  have "deliver api ys s1 ys s'" for ys
    using s' b deliver_trans [OF b requeue_deliver [OF assms(1)]] by (cases ret) auto
  then show ?thesis using queue_rq_deliver [OF assms(1) c] deliver_trans by blast
qed

lemma request_issue_deliver:
  assumes "qapi_ok api" and "routed api (mq_rq s a)" and "blk_mq_request_issue_directly api a l s = (ret, s')"
  shows "deliver api (a # xs) s (kept ret a xs) s'"
proof (cases "q_stopped api (mq_env s) (rq_mq_hctx (mq_rq s a)) \<or> q_quiesced api (mq_env s) (rq_q (mq_rq s a))")
  case True
  then show ?thesis
    using assms(3) deliver_trans [OF insert_deliver [OF assms(1,2)] run_hw_deliver [OF assms(1)]]
    by (auto simp: blk_mq_request_issue_directly_def Let_def kept_def)
next
  case False
  obtain ok s1 where b: "blk_mq_get_budget_and_tag api a s = (ok, s1)" by force
  note d = budget_deliver [OF assms(1) b]
  show ?thesis
  proof (cases ok)
    case True
    then have "issue_directly api (rq_mq_hctx (mq_rq s a)) a l s1 = (ret, s')"
      using assms(3) False b by (simp add: blk_mq_request_issue_directly_def Let_def)
    from issue_deliver [OF assms(1) this] show ?thesis using d deliver_trans by blast
  next
    case nok: False
    then have "ret = STS_RESOURCE" "s' = s1"
      using assms(3) False b by (simp_all add: blk_mq_request_issue_directly_def Let_def)
    then show ?thesis using d by (simp add: kept_def)
  qed
qed

lemma end_deliver:
  assumes "qapi_ok api" and "routed api (mq_rq s a)"
  shows "\<exists>s'. blk_mq_end_request api a e s = Some s' \<and> deliver api (a # xs) s xs s'"
proof -
  have "rq_bios (mq_rq s a) = [] \<or> endable (q_d api) (mq_rq s a)"
    using assms(2) by (simp add: routed_def finishable_def)
  then obtain r told where u: "blk_update_request (q_d api) (mq_rq s a) e (rq_data_len (mq_rq s a)) = (False, r, told)"
    using update_whole [of "q_d api" "mq_rq s a" e] assms(1) by (auto simp: blk_update_request_def qapi_ok_def)
  define s' where "s' = (put_rq a (blk_mq_finish_request r) s)\<lparr>mq_ended := mq_ended s @ [(a, e)], mq_told := mq_told s @ told\<rparr>"
  have "all_rqs api s' = all_rqs api s + {#a#}" by (simp add: s'_def all_rqs_def put_rq_def)
  then have "deliver api (a # xs) s xs s'" using deliver_added [of api s' s "[a]" xs] by (simp add: s'_def)
  moreover have "blk_mq_end_request api a e s = Some s'" using u by (simp add: blk_mq_end_request_def s'_def)
  ultimately show ?thesis by blast
qed

section \<open>The loops\<close>

lemma ready_head: "ready api s (a # as) \<Longrightarrow> routed api (mq_rq s a)"
  by (simp add: ready_def)

lemma deliver_refl [simp]: "deliver api xs s xs s"
  by (rule deliver_still) auto

text \<open>The three ways a loop goes on after a request was issued: done, ended, or put back and out.\<close>

lemma issue_step:
  assumes "qapi_ok api" and "ready api s (a # as)" and "blk_mq_request_issue_directly api a l s = (ret, s2)"
  shows "ret = STS_OK \<Longrightarrow> deliver api (a # as) s as s2"
    and "ret = STS_FAIL e \<Longrightarrow> \<exists>s3. blk_mq_end_request api a e s2 = Some s3 \<and> deliver api (a # as) s as s3"
    and "ret \<noteq> STS_OK \<Longrightarrow> deliver api (a # as) s as (blk_mq_request_bypass_insert a False s2)"
proof -
  have d: "deliver api (a # as) s (kept ret a as) s2"
    using request_issue_deliver [OF assms(1) ready_head [OF assms(2)] assms(3)] .
  show "ret = STS_OK \<Longrightarrow> deliver api (a # as) s as s2" using d by (simp add: kept_def)
  have r: "routed api (mq_rq s2 a)" and k: "deliver api (a # as) s (a # as) s2" if "ret \<noteq> STS_OK"
    using that d deliver_ready(1) [OF d assms(2)] ready_head by (auto simp: kept_def)
  show "\<exists>s3. blk_mq_end_request api a e s2 = Some s3 \<and> deliver api (a # as) s as s3" if "ret = STS_FAIL e"
    using end_deliver [OF assms(1) r] deliver_trans [OF k] that by blast
  show "deliver api (a # as) s as (blk_mq_request_bypass_insert a False s2)" if "ret \<noteq> STS_OK"
    using bypass_deliver [OF r [OF that]] deliver_trans [OF k [OF that]] by blast
qed

lemma issue_loop_deliver:
  assumes "qapi_ok api"
  shows "ready api s as \<Longrightarrow> \<exists>rest s'. issue_direct_loop api as hctx queued ret s = Some (rest, s') \<and> deliver api as s rest s'"
proof (induction as arbitrary: hctx queued ret s)
  case Nil
  then show ?case using deliver_commit_opt by fastforce
next
  case (Cons a as)
  define h where "h = rq_mq_hctx (mq_rq s a)"
  obtain s1 n where c: "(case hctx of
        Some h0 \<Rightarrow> if h0 \<noteq> h then (blk_mq_commit_rqs api h0 queued s, 0) else (s, queued)
      | None \<Rightarrow> (s, queued)) = (s1, n)" by force
  then have d1: "deliver api (a # as) s (a # as) s1"
    using deliver_commit by (auto split: option.splits if_splits)
  have r1: "ready api s1 (a # as)" using deliver_ready(1) [OF d1 Cons.prems] .
  obtain ret' s2 where i: "blk_mq_request_issue_directly api a (as = []) s1 = (ret', s2)" by force
  note step = issue_step [OF assms r1 i]
  have go: "\<exists>rest s'. issue_direct_loop api as hc q r s3 = Some (rest, s') \<and> deliver api (a # as) s rest s'"
    if "deliver api (a # as) s1 as s3" for s3 hc q r
    using Cons.IH [OF deliver_ready(1) [OF that r1]] deliver_trans [OF d1] deliver_trans [OF that] by blast
  have out: "deliver api (a # as) s as (commit_opt api (Some h) n ret'
      (blk_mq_run_hw_queue api h False (blk_mq_request_bypass_insert a False s2)))" if "ret' \<noteq> STS_OK"
    by (rule deliver_trans [OF deliver_trans [OF deliver_trans [OF d1 step(3) [OF that]] run_hw_deliver [OF assms]]
          deliver_commit_opt])
  have eq: "issue_direct_loop api (a # as) hctx queued ret s =
     (case ret' of
        STS_OK \<Rightarrow> issue_direct_loop api as (Some h) (n + 1) ret' s2
      | STS_FAIL e \<Rightarrow> (case blk_mq_end_request api a e s2 of None \<Rightarrow> None
          | Some s3 \<Rightarrow> issue_direct_loop api as (Some h) n ret' s3)
      | _ \<Rightarrow> Some (as, commit_opt api (Some h) n ret'
               (blk_mq_run_hw_queue api h False (blk_mq_request_bypass_insert a False s2))))"
    by (simp only: issue_direct_loop.simps Let_def h_def [symmetric] c i prod.case)
  show ?case
  proof (cases ret')
    case STS_OK
    then show ?thesis using eq go [OF step(1)] by simp
  next
    case (STS_FAIL e)
    then show ?thesis using eq step(2) go by fastforce
  qed (use eq out in auto)
qed

lemma try_loop_deliver:
  assumes "qapi_ok api"
  shows "ready api s as \<Longrightarrow> \<exists>rest s'. try_issue_list_loop api h as queued ret s = Some (rest, s') \<and> deliver api as s rest s'"
proof (induction as arbitrary: queued ret s)
  case Nil
  then show ?case using deliver_commit_opt by fastforce
next
  case (Cons a as)
  obtain ret' s2 where i: "blk_mq_request_issue_directly api a (as = []) s = (ret', s2)" by force
  note step = issue_step [OF assms Cons.prems i]
  have go: "\<exists>rest s'. try_issue_list_loop api h as q r s3 = Some (rest, s') \<and> deliver api (a # as) s rest s'"
    if "deliver api (a # as) s as s3" for s3 q r
    using Cons.IH [OF deliver_ready(1) [OF that Cons.prems]] deliver_trans [OF that] by blast
  have out: "deliver api (a # as) s as (commit_opt api (Some h) n ret'
      (if as = [] then blk_mq_run_hw_queue api h False (blk_mq_request_bypass_insert a False s2)
       else blk_mq_request_bypass_insert a False s2))" if "ret' \<noteq> STS_OK" for n
    using step(3) [OF that] run_hw_deliver [OF assms] deliver_commit_opt deliver_trans by (metis (full_types))
  show ?case
  proof (cases ret')
    case STS_OK
    then show ?thesis using i go [OF step(1)] by simp
  next
    case (STS_FAIL e)
    then show ?thesis using i step(2) go by fastforce
  qed (use i out in \<open>auto simp: Let_def\<close>)
qed

section \<open>Inserting and dispatching lists\<close>

lemma deliver_all: "all_rqs api s' = all_rqs api s + mset xs \<Longrightarrow> mq_rq s' = mq_rq s \<Longrightarrow> deliver api xs s [] s'"
  using deliver_added [of api s' s xs "[]"] by simp

lemma insert_requests_deliver:
  assumes "qapi_ok api" and "ready api s rqs" and "c < q_nr_ctx api" and "\<forall>a \<in> set rqs. rq_mq_ctx (mq_rq s a) = c"
  shows "\<exists>s'. blk_mq_insert_requests api h c rqs async s = Some s' \<and> deliver api rqs s [] s'"
proof -
  obtain l s1 where l: "(if mq_busy s h = 0 \<and> \<not> async then blk_mq_try_issue_list_directly api h rqs s else Some (rqs, s)) = Some (l, s1)"
    "deliver api rqs s l s1"
    using try_loop_deliver [OF assms(1,2), of h 0 STS_OK] deliver_refl
    by (cases "mq_busy s h = 0 \<and> \<not> async") (auto simp: blk_mq_try_issue_list_directly_def)
  obtain zs where "mset rqs = mset (zs @ l)" using deliver_split [OF l(2)] by blast
  then have "set l \<subseteq> set rqs" by (metis mset_eq_setD set_append sup_ge2)
  then have ctx: "\<forall>a \<in> set l. rq_mq_ctx (mq_rq s1 a) = c"
    using deliver_ready(2) [OF l(2) assms(2)] assms(4) by (auto simp: same_work_def)
  define s2 where "s2 = blk_mq_hctx_mark_pending h c
      (s1\<lparr>mq_sw := (mq_sw s1)((c, q_type api h) := mq_sw s1 (c, q_type api h) @ l)\<rparr>)"
  have "all_rqs api s2 = all_rqs api s1 + mset l"
    unfolding s2_def blk_mq_hctx_mark_pending_def all_rqs_frame
    by (rule all_rqs_sw [OF assms(3)]) (use assms(1) in \<open>simp_all add: qapi_ok_def\<close>)
  then have "deliver api l s1 [] s2" by (rule deliver_all) (simp add: s2_def blk_mq_hctx_mark_pending_def)
  then have d2: "deliver api rqs s [] (blk_mq_run_hw_queue api h u s2)" for u
    by (rule deliver_trans [OF deliver_trans [OF l(2)] run_hw_deliver [OF assms(1)]])
  have d1: "l = [] \<Longrightarrow> deliver api rqs s [] (blk_mq_run_hw_queue api h u s1)" for u
    using deliver_trans [OF l(2) run_hw_deliver [OF assms(1)]] by simp
  show ?thesis
    unfolding blk_mq_insert_requests_def l(1)
    using ctx d1 d2 by (auto simp: Let_def s2_def)
qed

lemma batch_deliver:
  assumes "qapi_ok api" and "ready api s l" and "routed api (mq_rq s a)" and "\<forall>b \<in> set l. rq_mq_ctx (mq_rq s b) = rq_mq_ctx (mq_rq s a)"
  shows "\<exists>s'. dispatch_batch api a l from_sched s = Some s' \<and> deliver api l s [] s'"
proof -
  let ?h = "rq_mq_hctx (mq_rq s a)"
  have r: "?h < q_nr_hw api" "rq_mq_ctx (mq_rq s a) < q_nr_ctx api" using assms(3) by (simp_all add: routed_def)
  have "deliver api l s [] (s\<lparr>mq_dispatch := (mq_dispatch s)(?h := mq_dispatch s ?h @ l)\<rparr>)"
    by (rule deliver_all) (simp_all add: all_rqs_dispatch [OF r(1)])
  moreover have "deliver api l s [] (s\<lparr>mq_elv := mq_elv s @ l\<rparr>)"
    by (rule deliver_all) (simp_all add: all_rqs_def ac_simps)
  ultimately show ?thesis
    using insert_requests_deliver [OF assms(1,2) r(2) assms(4)] deliver_trans [OF _ run_hw_deliver [OF assms(1)]]
    by (auto simp: dispatch_batch_def Let_def)
qed

lemma ready_sub: "ready api s xs \<Longrightarrow> set ys \<subseteq> set xs \<Longrightarrow> distinct ys \<Longrightarrow> ready api s ys"
  by (auto simp: ready_def)

lemma dispatch_list_deliver:
  assumes "qapi_ok api" and "ready api s (a # as)"
  shows "\<exists>rest s'. blk_mq_dispatch_list api (a # as) from_sched s = Some (rest, s') \<and> deliver api (a # as) s rest s'"
proof -
  define l where "l = a # filter (like_first api s a) as"
  define rest where "rest = filter (\<lambda>b. \<not> like_first api s a b) as"
  have d: "distinct (a # as)" using assms(2) by (simp add: ready_def)
  have "ready api s l" by (rule ready_sub [OF assms(2)]) (use d in \<open>auto simp: l_def\<close>)
  moreover have "\<forall>b \<in> set l. rq_mq_ctx (mq_rq s b) = rq_mq_ctx (mq_rq s a)" by (auto simp: l_def like_first_def)
  ultimately obtain s' where s': "dispatch_batch api a l from_sched s = Some s'" "deliver api l s [] s'"
    using batch_deliver [OF assms(1) _ ready_head [OF assms(2)]] by blast
  have "mset (a # as) = mset (l @ rest)" by (simp add: l_def rest_def)
  then have "deliver api (a # as) s rest s'" using deliver_frame [OF s'(2), of rest] by (simp add: deliver_def)
  then show ?thesis
    using s'(1) by (simp add: blk_mq_dispatch_list_def dispatch_split_filter l_def rest_def)
qed

lemma dispatch_all_deliver:
  assumes "qapi_ok api"
  shows "ready api s rqs \<Longrightarrow> \<exists>s'. dispatch_all api rqs from_sched s = Some s' \<and> deliver api rqs s [] s'"
proof (induction "length rqs" arbitrary: rqs s rule: less_induct)
  case less
  show ?case
  proof (cases rqs)
    case Nil
    then show ?thesis by (simp add: dispatch_all.simps)
  next
    case (Cons a as)
    obtain rest s1 where d: "blk_mq_dispatch_list api rqs from_sched s = Some (rest, s1)" "deliver api rqs s rest s1"
      using dispatch_list_deliver [OF assms] less.prems Cons by blast
    have "length rest < length rqs" using dispatch_list_shorter [OF d(1)] .
    from less.hyps [OF this deliver_ready(1) [OF d(2) less.prems]] obtain s2 where
      "dispatch_all api rest from_sched s1 = Some s2" "deliver api rest s1 [] s2" by blast
    then show ?thesis using d Cons deliver_trans [OF d(2)] by (subst dispatch_all.simps) auto
  qed
qed

lemma queue_requests_deliver:
  assumes "qapi_ok api" and "ready api s rqs" and "rqs \<noteq> []"
  shows "\<exists>l s'. blk_mq_dispatch_queue_requests api rqs s = Some (l, s') \<and> deliver api rqs s l s'"
proof -
  obtain a as where rqs: "rqs = a # as" using assms(3) by (cases rqs) auto
  have direct: "\<exists>rest s'. blk_mq_issue_direct api l s1 = Some (rest, s') \<and> deliver api l s1 rest s'"
    if "ready api s1 l" for l s1
    using issue_loop_deliver [OF assms(1) that] by (auto simp: blk_mq_issue_direct_def)
  show ?thesis
  proof (cases "q_queue_rqs api")
    case None
    then show ?thesis using direct [OF assms(2)] rqs by (simp add: blk_mq_dispatch_queue_requests_def)
  next
    case (Some f)
    obtain l s1 where l: "flush_list api (rq_q (mq_rq s a)) f rqs s = (l, s1)" by force
    have d: "deliver api rqs s l s1"
    proof (cases "q_quiesced api (mq_env s) (rq_q (mq_rq s a))")
      case True
      then show ?thesis using l by (simp add: flush_list_def)
    next
      case False
      then have "f rqs s = (l, s1)" using l by (simp add: flush_list_def)
      then show ?thesis using assms(1) Some unfolding qapi_ok_def by (metis fst_conv snd_conv)
    qed
    show ?thesis
    proof (cases "l = []")
      case True
      then show ?thesis using l d rqs Some by (simp add: blk_mq_dispatch_queue_requests_def)
    next
      case False
      then show ?thesis
        using direct [OF deliver_ready(1) [OF d assms(2)]] deliver_trans [OF d] l rqs Some
        by (fastforce simp: blk_mq_dispatch_queue_requests_def)
    qed
  qed
qed

lemma multiple_deliver:
  assumes "qapi_ok api"
  shows "ready api s rqs \<Longrightarrow> rqs \<noteq> [] \<Longrightarrow>
    \<exists>s'. blk_mq_dispatch_multiple_queue_requests api rqs s = Some s' \<and> deliver api rqs s [] s'"
proof (induction "length rqs" arbitrary: rqs s rule: less_induct)
  case less
  obtain a as where rqs: "rqs = a # as" using less.prems(2) by (cases rqs) auto
  define q where "q = a # filter (\<lambda>b. rq_q (mq_rq s b) = rq_q (mq_rq s a)) as"
  define rest where "rest = filter (\<lambda>b. rq_q (mq_rq s b) \<noteq> rq_q (mq_rq s a)) as"
  obtain depth where ex: "blk_mq_extract_queue_requests s rqs = Some (q, rest, depth)"
    by (simp add: blk_mq_extract_queue_requests_def extract_walk_stay rqs q_def rest_def)
  have m: "mset rqs = mset (q @ rest)" by (simp add: rqs q_def rest_def)
  have rq: "ready api s q"
    by (rule ready_sub [OF less.prems(1)]) (use less.prems(1) in \<open>auto simp: ready_def rqs q_def\<close>)
  obtain l s1 where s1: "blk_mq_dispatch_queue_requests api q s = Some (l, s1)" "deliver api q s l s1"
    using queue_requests_deliver [OF assms rq] by (auto simp: q_def)
  obtain s2 where s2: "dispatch_all api l False s1 = Some s2" "deliver api l s1 [] s2"
    using dispatch_all_deliver [OF assms deliver_ready(1) [OF s1(2) rq]] by blast
  have d: "deliver api rqs s rest s2"
    using deliver_frame [OF deliver_trans [OF s1(2) s2(2)], of rest] m by (simp add: deliver_def)
  have eq: "blk_mq_dispatch_multiple_queue_requests api rqs s =
      (if rest = [] then Some s2 else blk_mq_dispatch_multiple_queue_requests api rest s2)"
    by (subst blk_mq_dispatch_multiple_queue_requests.simps) (simp add: ex s1(1) s2(1))
  show ?case
  proof (cases "rest = []")
    case True
    then show ?thesis using eq d by simp
  next
    case False
    have "length rest < length rqs" using extract_shorter [OF ex] .
    from less.hyps [OF this deliver_ready(1) [OF d less.prems(1)] False] show ?thesis
      using eq False deliver_trans [OF d] by auto
  qed
qed

section \<open>The plug list\<close>

lemma flush_plug_deliver:
  assumes "qapi_ok api" and "ready api s (pl_rqs plug)" and "pl_rqs plug \<noteq> []" and "pl_count plug \<noteq> 0"
  shows "\<exists>s'. blk_mq_flush_plug_list api plug from_schedule s = Some (plug\<lparr>pl_count := 0, pl_rqs := []\<rparr>, s') \<and>
    deliver api (pl_rqs plug) s [] s'"
proof -
  obtain l s1 where q: "blk_mq_dispatch_queue_requests api (pl_rqs plug) s = Some (l, s1)" "deliver api (pl_rqs plug) s l s1"
    using queue_requests_deliver [OF assms(1,2,3)] by blast
  obtain s2 where s2: "dispatch_all api l from_schedule s1 = Some s2" "deliver api l s1 [] s2"
    using dispatch_all_deliver [OF assms(1) deliver_ready(1) [OF q(2) assms(2)]] by blast
  obtain s3 where s3: "blk_mq_dispatch_multiple_queue_requests api (pl_rqs plug) s = Some s3" "deliver api (pl_rqs plug) s [] s3"
    using multiple_deliver [OF assms(1,2,3)] by blast
  obtain s4 where s4: "dispatch_all api (pl_rqs plug) from_schedule s = Some s4" "deliver api (pl_rqs plug) s [] s4"
    using dispatch_all_deliver [OF assms(1,2)] by blast
  show ?thesis
    using assms(3,4) q(1) s2(1) s3 s4 deliver_trans [OF q(2) s2(2)]
    by (auto simp: blk_mq_flush_plug_list_def Let_def)
qed

text \<open>
  C15: Flushing a plug list loses no request and handles none twice. Let the requests of the list be in
  no queue and be routed to existing queues. Whatever the driver, the tag and budget allocators and the
  scheduler answer, and for every mix of queues, contexts and elevators, \<open>blk_mq_flush_plug_list\<close>
  returns, the list is empty, and every request of it has gone to exactly one place: a dispatch list, a
  software queue, the elevator, the driver, or its end with an error.
\<close>

theorem flush_plug_conserves:
  assumes "qapi_ok api" and "ready api s (pl_rqs plug)" and "pl_rqs plug \<noteq> []" and "pl_count plug \<noteq> 0"
  shows "\<exists>plug' s'. blk_mq_flush_plug_list api plug from_schedule s = Some (plug', s') \<and>
    pl_rqs plug' = [] \<and> pl_count plug' = 0 \<and> all_rqs api s' = all_rqs api s + mset (pl_rqs plug)"
  using flush_plug_deliver [OF assms, of from_schedule] by (auto simp: deliver_def)

text \<open>
  \<open>blk_mq_extract_queue_requests\<close>, a walk that moves list cells one by one, is the stable
  partition of the list by the queue of its first request, and counts the requests it moves.
\<close>

theorem extract_is_partition:
  "blk_mq_extract_queue_requests s (a # as) =
     (let q = rq_q (mq_rq s a);
          same = filter (\<lambda>b. rq_q (mq_rq s b) = q) (a # as)
      in Some (same, filter (\<lambda>b. rq_q (mq_rq s b) \<noteq> q) (a # as), length same))"
  by (simp add: blk_mq_extract_queue_requests_def extract_walk_stay Let_def)

section \<open>Adding to a plug list\<close>

definition plug_ok :: "'e qapi \<Rightarrow> plug \<Rightarrow> bool" where
  "plug_ok api p \<longleftrightarrow> unat (pl_count p) = length (pl_rqs p) \<and> length (pl_rqs p) \<le> unat (blk_plug_max_rq_count api p)"

definition plug_limit_ok :: "'e qapi \<Rightarrow> bool" where
  "plug_limit_ok api \<longleftrightarrow> 0 < unat (q_max_request_count api) \<and> unat (q_max_request_count api) < 2 ^ 14"

lemma plug_max:
  assumes "plug_limit_ok api"
  shows "unat (blk_plug_max_rq_count api p) = (if pl_multiple p then 2 else 1) * unat (q_max_request_count api)"
proof -
  have "unat (q_max_request_count api) * unat (2 :: u16) < 2 ^ LENGTH(16)" using assms by (simp add: plug_limit_ok_def)
  then have "unat (q_max_request_count api * 2) = unat (q_max_request_count api) * unat (2 :: u16)"
    using unat_mult_lem by blast
  then show ?thesis by (simp add: blk_plug_max_rq_count_def)
qed

text \<open>The request is appended; both flags of the list only ever become set.\<close>

definition appended :: "plug \<Rightarrow> nat \<Rightarrow> plug \<Rightarrow> bool" where
  "appended p a p' \<longleftrightarrow> pl_rqs p' = pl_rqs p @ [a] \<and> pl_count p' = pl_count p + 1 \<and>
     (pl_multiple p \<longrightarrow> pl_multiple p') \<and> (pl_elevator p \<longrightarrow> pl_elevator p')"

lemma appended_ok:
  assumes "plug_limit_ok api" and "plug_ok api p" and "length (pl_rqs p) < unat (blk_plug_max_rq_count api p)" and "appended p a p'"
  shows "plug_ok api p'"
proof -
  have m: "unat (blk_plug_max_rq_count api p) \<le> unat (blk_plug_max_rq_count api p')"
    using assms(4) by (auto simp: plug_max [OF assms(1)] appended_def)
  have "unat (pl_count p) + 1 < 2 ^ 16"
    using assms(1,2,3) by (auto simp: plug_max [OF assms(1)] plug_ok_def plug_limit_ok_def split: if_splits)
  then have "unat (pl_count p + 1) = unat (pl_count p) + 1" using unat_add_lem [of "pl_count p" 1] by simp
  then show ?thesis using assms(2,3,4) m by (simp add: plug_ok_def appended_def)
qed

lemma plug_append_appended: "appended p a (plug_append lst p a s)"
  by (simp add: appended_def plug_append_def Let_def split: option.split)

lemma add_to_plug_cases:
  assumes "plug_ok api p" and "blk_mq_flush_plug_list api p False s = Some (p0, s1)"
  shows "(\<exists>p'. blk_add_rq_to_plug api p a s = Some (p', s) \<and> appended p a p' \<and>
      (pl_count p = 0 \<or> pl_count p < blk_plug_max_rq_count api p)) \<or>
    (\<exists>p'. blk_add_rq_to_plug api p a s = Some (p', s1) \<and> appended p0 a p' \<and> pl_count p \<noteq> 0)"
proof -
  have ne: "pl_rqs p \<noteq> []" if "pl_count p \<noteq> 0" using assms(1) that by (auto simp: plug_ok_def unat_eq_zero)
  define full where "full = (if pl_count p = 0 then Some False
      else if pl_count p \<ge> blk_plug_max_rq_count api p then Some True
      else if q_nomerges api (rq_q (mq_rq s a)) then Some False
      else map_option (\<lambda>b. rq_data_len (mq_rq s b) \<ge> q_plug_flush_size api)
        (if pl_rqs p = [] then None else Some (hd (pl_rqs p))))"
  have "full \<noteq> None" using ne by (auto simp: full_def)
  then obtain u where u: "full = Some u" by blast
  have lt: "\<not> u \<Longrightarrow> pl_count p = 0 \<or> pl_count p < blk_plug_max_rq_count api p" and nz: "u \<Longrightarrow> pl_count p \<noteq> 0"
    using u by (auto simp: full_def not_le split: if_splits)
  have eq: "blk_add_rq_to_plug api p a s =
      (if u then Some (plug_append None p0 a s1, s1)
       else Some (plug_append (if pl_rqs p = [] then None else Some (hd (pl_rqs p))) p a s, s))"
    unfolding blk_add_rq_to_plug_def Let_def full_def [symmetric] u using assms(2) by simp
  show ?thesis using eq lt nz plug_append_appended by (cases u) auto
qed

lemma add_plug_deliver:
  assumes "qapi_ok api" and "plug_limit_ok api" and "plug_ok api p" and "ready api s (pl_rqs p @ [a])"
  shows "\<exists>p' s'. blk_add_rq_to_plug api p a s = Some (p', s') \<and> plug_ok api p' \<and> a \<in> set (pl_rqs p') \<and>
    deliver api (pl_rqs p @ [a]) s (pl_rqs p') s'"
proof (cases "pl_count p = 0")
  case True
  then have e: "pl_rqs p = []" using assms(3) by (simp add: plug_ok_def)
  have "blk_mq_flush_plug_list api p False s = Some (p, s)" using True by (simp add: blk_mq_flush_plug_list_def)
  then obtain p' where p': "blk_add_rq_to_plug api p a s = Some (p', s)" "appended p a p'"
    using add_to_plug_cases [OF assms(3), of s p s a] True by blast
  have "length (pl_rqs p) < unat (blk_plug_max_rq_count api p)"
    using e assms(2) by (simp add: plug_max [OF assms(2)] plug_limit_ok_def)
  then have "plug_ok api p'" using appended_ok [OF assms(2,3) _ p'(2)] by simp
  then show ?thesis using p' by (auto simp: appended_def)
next
  case False
  then have ne: "pl_rqs p \<noteq> []" using assms(3) by (auto simp: plug_ok_def unat_eq_zero)
  have "ready api s (pl_rqs p)" by (rule ready_sub [OF assms(4)]) (use assms(4) in \<open>auto simp: ready_def\<close>)
  from flush_plug_deliver [OF assms(1) this ne False] obtain s1 where
    f: "blk_mq_flush_plug_list api p False s = Some (p\<lparr>pl_count := 0, pl_rqs := []\<rparr>, s1)" "deliver api (pl_rqs p) s [] s1"
    by blast
  let ?p0 = "p\<lparr>pl_count := 0, pl_rqs := []\<rparr>"
  consider (kept) p' where "blk_add_rq_to_plug api p a s = Some (p', s)" "appended p a p'" "pl_count p < blk_plug_max_rq_count api p"
    | (flushed) p' where "blk_add_rq_to_plug api p a s = Some (p', s1)" "appended ?p0 a p'"
    using add_to_plug_cases [OF assms(3) f(1), of a] False by blast
  then show ?thesis
  proof cases
    case kept
    have "length (pl_rqs p) < unat (blk_plug_max_rq_count api p)"
      using kept(3) assms(3) by (simp add: plug_ok_def word_less_nat_alt)
    then have "plug_ok api p'" using appended_ok [OF assms(2,3) _ kept(2)] by simp
    then show ?thesis using kept by (auto simp: appended_def)
  next
    case flushed
    have lt: "0 < unat (blk_plug_max_rq_count api ?p0)" using assms(2) by (simp add: plug_max [OF assms(2)] plug_limit_ok_def)
    have "plug_ok api ?p0" by (simp add: plug_ok_def)
    then have "plug_ok api p'" using appended_ok [OF assms(2) _ _ flushed(2)] lt by simp
    then show ?thesis using flushed deliver_frame [OF f(2), of "[a]"] by (auto simp: appended_def)
  qed
qed

text \<open>
  Adding a request to a plug list. The call returns; the list's counter is its length, and the length
  never exceeds the limit of the list, which doubles when it holds requests of several queues; no request
  is lost: those of the list and the new one are on the list or, when the list was flushed, in their
  places.
\<close>

theorem add_rq_to_plug_ok:
  assumes "qapi_ok api" and "plug_limit_ok api" and "plug_ok api p" and "ready api s (pl_rqs p @ [a])"
  shows "\<exists>p' s'. blk_add_rq_to_plug api p a s = Some (p', s') \<and> plug_ok api p' \<and> a \<in> set (pl_rqs p') \<and>
    all_rqs api s' + mset (pl_rqs p') = all_rqs api s + mset (pl_rqs p @ [a])"
  using add_plug_deliver [OF assms] by (auto simp: deliver_def)

section \<open>How busy a queue is\<close>

text \<open>
  The average of how busy a hardware queue is stays below 16, so that its arithmetic never
  overflows; a busy answer makes it positive and every other answer lowers it until it is 0.
\<close>

theorem dispatch_busy_bounded:
  assumes "unat (mq_busy s h) < 16"
  shows "unat (mq_busy (blk_mq_update_dispatch_busy h busy s) h) < 16 \<and>
    (busy \<longrightarrow> 0 < mq_busy (blk_mq_update_dispatch_busy h busy s) h) \<and>
    (\<not> busy \<longrightarrow> unat (mq_busy (blk_mq_update_dispatch_busy h busy s) h) = 7 * unat (mq_busy s h) div 8)"
proof -
  define e where "e = unat (mq_busy s h)"
  have e: "mq_busy s h = of_nat e" "e < 16" using assms by (simp_all add: e_def)
  have m: "unat (of_nat e * 7 :: u32) = e * 7"
    using unat_mult_lem [of "of_nat e :: u32" 7] e(2) by (simp add: unat_of_nat take_bit_nat_eq_self)
  then have a: "unat (of_nat e * 7 + 16 :: u32) = e * 7 + 16" using unat_plus_32 [of "of_nat e * 7" 16] e(2) by simp
  have u: "unat (of_nat e :: u32) = e" using e(2) by (simp add: unat_of_nat take_bit_nat_eq_self)
  have z: "(of_nat e = (0 :: u32)) = (e = 0)" using e(2) by (simp add: e_def unat_eq_zero flip: e(1))
  show ?thesis
    using e(2) z
    by (cases busy) (auto simp: blk_mq_update_dispatch_busy_def Let_def e(1) m a u word_less_nat_alt unat_div e_def [symmetric] push_bit_eq_mult mult.commute)
qed

section \<open>Dispatching the list of a hardware queue\<close>

lemma tag_wait_deliver:
  assumes "qapi_ok api" and "blk_mq_mark_tag_wait api h a s = (ok, s')"
  shows "deliver api xs s xs s'"
proof -
  define s1 where "s1 = (if q_shared_tags api h then s\<lparr>mq_waiting := (mq_waiting s)(h := True)\<rparr>
      else s\<lparr>mq_restart := (mq_restart s)(h := True)\<rparr>)"
  obtain ok2 s2 where g: "get_driver_tag api a s1 = (ok2, s2)" by force
  have "deliver api xs s xs s1" by (rule deliver_still) (auto simp: s1_def)
  then have d2: "deliver api xs s xs s2" using tag_deliver [OF assms(1) g] deliver_trans by blast
  have "deliver api xs s2 xs (s2\<lparr>mq_waiting := w\<rparr>)" for w by (rule deliver_still) auto
  moreover have "s' = s \<or> s' = s2 \<or> (\<exists>w. s' = s2\<lparr>mq_waiting := w\<rparr>)"
    using assms(2) g by (auto simp: blk_mq_mark_tag_wait_def s1_def split: if_splits)
  ultimately show ?thesis using d2 deliver_trans [OF d2] by auto
qed

lemma prep_deliver:
  assumes "qapi_ok api" and "blk_mq_prep_dispatch_rq api a need s = (prep, s')"
  shows "deliver api xs s xs s'"
proof -
  obtain token s1 where b: "(if need then case q_get_budget api (mq_env s) (rq_q (mq_rq s a)) of (t, e) \<Rightarrow> (t, s\<lparr>mq_env := e\<rparr>)
      else (- 1, s)) = (token, s1)" by force
  then have d1: "deliver api xs s xs s1" using deliver_env by (auto split: if_splits prod.splits)
  obtain r e where p: "q_put_tag api (mq_env s1) (mq_rq s1 a) = (r, e)" by force
  have "same_work (mq_rq s1 a) r" using assms(1) p by (metis qapi_ok_def fst_conv)
  then have dp: "deliver api xs s xs ((put_rq a r s1)\<lparr>mq_env := e\<rparr>)" by (rule deliver_trans [OF d1 deliver_put_env])
  define s2 where "s2 = (if need then put_rq a (q_set_token api (mq_rq s1 a) token) s1 else s1)"
  have "deliver api xs s1 xs (put_rq a (q_set_token api (mq_rq s1 a) token) s1)"
    using assms(1) by (intro deliver_put) (simp add: qapi_ok_def)
  then have "deliver api xs s1 xs s2" by (simp add: s2_def)
  then have d2: "deliver api xs s xs s2" by (rule deliver_trans [OF d1])
  obtain ok s3 where g: "get_driver_tag api a s2 = (ok, s3)" by force
  have d3: "deliver api xs s xs s3" by (rule deliver_trans [OF d2 tag_deliver [OF assms(1) g]])
  obtain ok2 s4 where w: "blk_mq_mark_tag_wait api (rq_mq_hctx (mq_rq s a)) a s3 = (ok2, s4)" by force
  have d4: "deliver api xs s xs s4" by (rule deliver_trans [OF d3 tag_wait_deliver [OF assms(1) w]])
  have eq: "blk_mq_prep_dispatch_rq api a need s =
      (if need \<and> token < 0 then (PREP_DISPATCH_NO_BUDGET, (put_rq a r s1)\<lparr>mq_env := e\<rparr>)
       else if ok then (PREP_DISPATCH_OK, s3)
       else if ok2 then (PREP_DISPATCH_OK, s4)
       else (PREP_DISPATCH_NO_TAG,
             if need then s4\<lparr>mq_env := q_put_budget api (mq_env s4) (rq_q (mq_rq s a)) token\<rparr> else s4))"
    unfolding blk_mq_prep_dispatch_rq_def Let_def b prod.case s2_def [symmetric] p g w by (rule refl)
  have "deliver api xs s xs (snd (blk_mq_prep_dispatch_rq api a need s))"
    unfolding eq using dp d3 d4 deliver_trans [OF d4 deliver_env] by simp
  then show ?thesis using assms(2) by simp
qed

lemma rq_loop_deliver:
  assumes "qapi_ok api"
  shows "ready api s as \<Longrightarrow> \<exists>prep r needs n l s'.
    dispatch_rq_loop api h gb as queued ret s = Some (prep, r, needs, n, l, s') \<and> deliver api as s l s'"
proof (induction as arbitrary: queued ret s)
  case (Cons a as)
  obtain prep s1 where p: "blk_mq_prep_dispatch_rq api a gb s = (prep, s1)" by force
  have d1: "deliver api (a # as) s (a # as) s1" using prep_deliver [OF assms p] .
  show ?case
  proof (cases "prep = PREP_DISPATCH_OK")
    case False
    then show ?thesis using p d1 by auto
  next
    case True
    obtain ret' s2 where c: "call_queue_rq api h a (as = []) s1 = (ret', s2)" by force
    have d2: "deliver api (a # as) s (kept ret' a as) s2"
      using queue_rq_deliver [OF assms c] by (rule deliver_trans [OF d1])
    have r2: "ready api s2 (kept ret' a as)" using deliver_ready(1) [OF d2 Cons.prems] .
    have go: "\<exists>prep r needs n l s'. dispatch_rq_loop api h gb as q u s3 = Some (prep, r, needs, n, l, s') \<and>
        deliver api (a # as) s l s'" if "deliver api (a # as) s as s3" for s3 q u
      using Cons.IH [OF deliver_ready(1) [OF that Cons.prems]] deliver_trans [OF that] by blast
    show ?thesis
    proof (cases ret')
      case STS_OK
      then show ?thesis using go [of s2] d2 p True c by (simp add: kept_def)
    next
      case (STS_FAIL e)
      then have k: "deliver api (a # as) s (a # as) s2" "routed api (mq_rq s2 a)"
        using d2 r2 ready_head by (auto simp: kept_def)
      obtain s3 where s3: "blk_mq_end_request api a e s2 = Some s3" "deliver api (a # as) s2 as s3"
        using end_deliver [OF assms k(2)] by blast
      show ?thesis using go [OF deliver_trans [OF k(1) s3(2)]] s3(1) p True c STS_FAIL by simp
    next
      case STS_RESOURCE
      then show ?thesis using d2 p True c deliver_trans [OF d2 requeue_deliver [OF assms]] by (auto simp: kept_def)
    next
      case STS_DEV_RESOURCE
      then show ?thesis using d2 p True c deliver_trans [OF d2 requeue_deliver [OF assms]] by (auto simp: kept_def)
    qed
  qed
qed auto

lemma release_deliver: "deliver api xs s xs (blk_mq_release_budgets api q l s)"
proof (induction l arbitrary: s)
  case (Cons a l)
  define s1 where "s1 = (let token = q_token api (mq_rq s a) in
      if token \<ge> 0 then s\<lparr>mq_env := q_put_budget api (mq_env s) q token\<rparr> else s)"
  have "deliver api xs s xs s1" using deliver_env by (auto simp: s1_def Let_def)
  moreover have "blk_mq_release_budgets api q (a # l) s = blk_mq_release_budgets api q l s1"
    by (simp add: blk_mq_release_budgets_def s1_def)
  ultimately show ?case using Cons.IH [of s1] deliver_trans by fastforce
qed (simp add: blk_mq_release_budgets_def)

text \<open>
  Dispatching a list to the driver loses no request and handles none twice. The call returns; every
  request of the list has been accepted by the driver, has been ended with the driver's error, or is on
  the dispatch list of the hardware queue for the next run.
\<close>

theorem dispatch_rq_list_conserves:
  assumes "qapi_ok api" and "ready api s rqs" and "h < q_nr_hw api"
  shows "\<exists>r s'. blk_mq_dispatch_rq_list api h rqs gb s = Some (r, s') \<and> all_rqs api s' = all_rqs api s + mset rqs"
proof (cases "rqs = []")
  case True
  then show ?thesis by (auto simp: blk_mq_dispatch_rq_list_def)
next
  case False
  obtain prep ret needs n l s1 where lp: "dispatch_rq_loop api h gb rqs 0 STS_OK s = Some (prep, ret, needs, n, l, s1)"
    "deliver api rqs s l s1" using rq_loop_deliver [OF assms(1,2)] by blast
  define s2 where "s2 = (if l \<noteq> [] \<or> ret \<noteq> STS_OK then blk_mq_commit_rqs api h n s1 else s1)"
  define s3 where "s3 = (if gb then s2 else blk_mq_release_budgets api (q_hctx_queue api h) l s2)"
  define s4 where "s4 = s3\<lparr>mq_dispatch := (mq_dispatch s3)(h := mq_dispatch s3 h @ l)\<rparr>"
  have d2: "deliver api rqs s l s2"
    unfolding s2_def using lp(2) deliver_trans [OF lp(2) deliver_commit] by auto
  then have d3: "deliver api rqs s l s3" unfolding s3_def using deliver_trans [OF d2 release_deliver] by simp
  have "deliver api l s3 [] s4" unfolding s4_def by (rule deliver_all) (simp_all add: all_rqs_dispatch [OF assms(3)])
  then have d4: "deliver api rqs s [] s4" by (rule deliver_trans [OF d3])
  have delay: "deliver api [] s4 [] (blk_mq_delay_run_hw_queue api h m s4)" for m
    by (rule deliver_still) (auto simp: blk_mq_delay_run_hw_queue_def)
  have fin: "deliver api rqs s [] (blk_mq_update_dispatch_busy h True x)"
    if "x = s4 \<or> x = blk_mq_run_hw_queue api h True s4 \<or> (\<exists>m. x = blk_mq_delay_run_hw_queue api h m s4)" for x
    using that deliver_trans [OF d4 deliver_busy] deliver_trans [OF deliver_trans [OF d4 delay] deliver_busy]
      deliver_trans [OF deliver_trans [OF d4 run_hw_deliver [OF assms(1)]] deliver_busy] by blast
  have fin0: "l = [] \<Longrightarrow> deliver api rqs s [] (blk_mq_update_dispatch_busy h False s2)"
    using deliver_trans [OF d2 deliver_busy] by simp
  define s5 where "s5 = (if \<not> mq_restart s4 h \<or> (prep = PREP_DISPATCH_NO_TAG \<and> q_shared_tags api h) \<and> \<not> mq_waiting s4 h
      then blk_mq_run_hw_queue api h True s4
      else if needs \<or> prep = PREP_DISPATCH_NO_BUDGET then blk_mq_delay_run_hw_queue api h (q_resource_delay api) s4 else s4)"
  have eq: "blk_mq_dispatch_rq_list api h rqs gb s =
      (if l = [] then Some (True, blk_mq_update_dispatch_busy h False s2) else Some (False, blk_mq_update_dispatch_busy h True s5))"
    unfolding blk_mq_dispatch_rq_list_def lp(1) option.case prod.case Let_def
      s2_def [symmetric] s3_def [symmetric] s4_def [symmetric] s5_def [symmetric]
    using False by (simp only: if_False)
  have "deliver api rqs s [] (blk_mq_update_dispatch_busy h True s5)" by (rule fin) (auto simp: s5_def)
  then show ?thesis using eq fin0 by (cases "l = []") (auto simp: deliver_def)
qed

section \<open>Requeued requests\<close>

lemma fold_deliver:
  assumes "\<And>a s xs. routed api (mq_rq s a) \<Longrightarrow> deliver api (a # xs) s xs (f a s)"
  shows "ready api s (as @ zs) \<Longrightarrow> deliver api (as @ zs) s zs (fold f as s)"
proof (induction as arbitrary: s)
  case (Cons a as)
  have d: "deliver api (a # as @ zs) s (as @ zs) (f a s)" using assms ready_head Cons.prems by fastforce
  have "ready api (f a s) (as @ zs)" using deliver_ready(1) [OF d] Cons.prems by simp
  then show ?case using Cons.IH deliver_trans [OF d] by simp
qed simp

lemma run_queues_deliver:
  assumes "qapi_ok api"
  shows "deliver api xs s xs (blk_mq_run_hw_queues api q async s)"
proof -
  have "deliver api xs s xs (fold (\<lambda>h s. if q_stopped api (mq_env s) h then s
      else if sq = None \<or> sq = Some h \<or> mq_dispatch s h \<noteq> [] then blk_mq_run_hw_queue api h async s else s) hs s)" for sq hs
  proof (induction hs arbitrary: s)
    case (Cons h hs)
    have "deliver api xs s xs (if q_stopped api (mq_env s) h then s
        else if sq = None \<or> sq = Some h \<or> mq_dispatch s h \<noteq> [] then blk_mq_run_hw_queue api h async s else s)"
      using run_hw_deliver [OF assms] by simp
    from deliver_trans [OF this Cons.IH] show ?case by (simp only: fold_Cons o_apply)
  qed simp
  then show ?thesis unfolding blk_mq_run_hw_queues_def Let_def .
qed

lemma all_rqs_requeue:
  assumes "q < q_nr_queues api"
  shows "all_rqs api s = all_rqs api (s\<lparr>mq_requeue := (mq_requeue s)(q := []), mq_flush := (mq_flush s)(q := [])\<rparr>) +
    mset (mq_requeue s q @ mq_flush s q)"
proof -
  have e: "(\<Sum>i < q_nr_queues api. mset (f i)) = (\<Sum>i < q_nr_queues api. mset ((f(q := [])) i)) + mset (f q)" for f :: "nat \<Rightarrow> nat list"
    using sum_upd [of "{..<q_nr_queues api}" q f "[]"] assms by simp
  show ?thesis
    by (simp add: all_rqs_def sum.distrib e [of "mq_requeue s"] e [of "mq_flush s"] ac_simps del: fun_upd_apply)
qed

text \<open>
  The work that puts requeued requests back: every request of the two lists of the queue is inserted
  again, those the driver has prepared into a dispatch list, and none is lost or doubled.
\<close>

theorem requeue_work_conserves:
  assumes "qapi_ok api" and "q < q_nr_queues api"
    and "ready api (s\<lparr>mq_requeue := (mq_requeue s)(q := []), mq_flush := (mq_flush s)(q := [])\<rparr>) (mq_requeue s q @ mq_flush s q)"
  shows "all_rqs api (blk_mq_requeue_work api q s) = all_rqs api s"
proof -
  define s1 where "s1 = s\<lparr>mq_requeue := (mq_requeue s)(q := []), mq_flush := (mq_flush s)(q := [])\<rparr>"
  define s2 where "s2 = fold (requeue_insert api) (mq_requeue s q) s1"
  define s3 where "s3 = fold (\<lambda>a. blk_mq_insert_request api a False) (mq_flush s q) s2"
  have ins: "routed api (mq_rq t a) \<Longrightarrow> deliver api (a # xs) t xs (requeue_insert api a t)" for a t xs
    by (auto simp: requeue_insert_def intro: bypass_deliver insert_deliver [OF assms(1)])
  have d2: "deliver api (mq_requeue s q @ mq_flush s q) s1 (mq_flush s q) s2"
    unfolding s2_def by (rule fold_deliver [OF ins]) (use assms(3) in \<open>simp_all add: s1_def\<close>)
  then have "ready api s2 (mq_flush s q @ [])" using deliver_ready(1) assms(3) unfolding s1_def by force
  then have "deliver api (mq_flush s q @ []) s2 [] s3"
    unfolding s3_def by (rule fold_deliver [OF insert_deliver [OF assms(1)], rotated])
  then have "deliver api (mq_requeue s q @ mq_flush s q) s1 [] s3" using deliver_trans [OF d2] by simp
  then have "deliver api (mq_requeue s q @ mq_flush s q) s1 [] (blk_mq_requeue_work api q s)"
    unfolding blk_mq_requeue_work_def Let_def s1_def [symmetric] s2_def [symmetric] s3_def [symmetric]
    by (rule deliver_trans [OF _ run_queues_deliver [OF assms(1)]])
  then show ?thesis using all_rqs_requeue [OF assms(2), of s] by (simp add: deliver_def s1_def)
qed

section \<open>A concrete device\<close>

text \<open>A device that has no resources for the request at sector 0 and accepts all others.\<close>

definition demo_qapi :: "'e qapi" where
  "demo_qapi = \<lparr>q_d = demo_dapi, q_nr_hw = 1, q_nr_ctx = 1, q_nr_queues = 1, q_hctxs = (\<lambda>q. [0]), q_sq_sched = (\<lambda>q. False),
     q_default_hctx = (\<lambda>e q. 0), q_type = (\<lambda>h. 0), q_ctxs = (\<lambda>h. [0]), q_has_elevator = (\<lambda>q. False),
     q_shared_tags = (\<lambda>h. False), q_on_cpu = (\<lambda>e h. True), q_stopped = (\<lambda>e h. False), q_quiesced = (\<lambda>e q. False),
     q_sched_has_work = (\<lambda>e h. False), q_hctx_queue = (\<lambda>h. 0), q_get_budget = (\<lambda>e q. (0, e)),
     q_put_budget = (\<lambda>e q t. e), q_set_token = (\<lambda>r t. r), q_token = (\<lambda>r. 0), q_get_tag = (\<lambda>e r. (True, r, e)),
     q_put_tag = (\<lambda>e r. (r, e)),
     q_queue_rq = (\<lambda>e h r l. (if rq_sector r = 0 then STS_RESOURCE else STS_OK, r, e)), q_queue_rqs = None,
     q_commit = None, q_sched_dispatch = (\<lambda>h s. s), q_resource_delay = 3, q_nomerges = (\<lambda>q. False),
     q_max_request_count = 32, q_plug_flush_size = 131072\<rparr>"

definition demo_mq :: "unit mq" where
  "demo_mq = \<lparr>mq_rq = (\<lambda>a. demo_rq (of_nat a * 256)), mq_dispatch = (\<lambda>h. []), mq_sw = (\<lambda>k. []), mq_ctx_map = (\<lambda>h. {}),
     mq_elv = [], mq_requeue = (\<lambda>q. [4]), mq_flush = (\<lambda>q. []), mq_kicked = [], mq_issued = [], mq_ended = [], mq_told = [], mq_busy = (\<lambda>h. 0),
     mq_restart = (\<lambda>h. False), mq_waiting = (\<lambda>h. False), mq_work = [], mq_env = ()\<rparr>"

definition demo_plug :: plug where
  "demo_plug = \<lparr>pl_rqs = [2, 0, 1], pl_count = 3, pl_multiple = False, pl_elevator = False\<rparr>"

lemma demo_qapi_ok: "qapi_ok demo_qapi"
  using demo_dapi_ok by (simp add: qapi_ok_def demo_qapi_def)

lemma demo_routed: "routed demo_qapi (demo_rq sec)"
  using demo_endable [of sec] by (simp add: routed_def finishable_def demo_qapi_def demo_rq_def)

lemma demo_all: "all_rqs demo_qapi demo_mq = {#4#}"
  by (simp add: all_rqs_def demo_qapi_def demo_mq_def)

lemma demo_ready: "distinct xs \<Longrightarrow> 4 \<notin> set xs \<Longrightarrow> ready demo_qapi demo_mq xs"
  by (auto simp: ready_def demo_all) (simp add: demo_mq_def demo_routed)

theorem flush_plug_conserves_witness:
  "\<exists>plug' s'. blk_mq_flush_plug_list demo_qapi demo_plug False demo_mq = Some (plug', s') \<and>
     pl_rqs plug' = [] \<and> all_rqs demo_qapi s' = {#4, 2, 0, 1#}"
  using flush_plug_conserves [OF demo_qapi_ok demo_ready, of demo_plug False]
  by (auto simp: demo_plug_def demo_all add_mset_commute)

theorem add_rq_to_plug_ok_witness:
  "\<exists>p' s'. blk_add_rq_to_plug demo_qapi demo_plug 3 demo_mq = Some (p', s') \<and> 3 \<in> set (pl_rqs p')"
proof -
  have "plug_limit_ok (demo_qapi :: unit qapi)" "plug_ok (demo_qapi :: unit qapi) demo_plug"
    by (simp_all add: plug_limit_ok_def plug_ok_def blk_plug_max_rq_count_def demo_qapi_def demo_plug_def)
  moreover have "ready demo_qapi demo_mq (pl_rqs demo_plug @ [3])" by (rule demo_ready) (simp_all add: demo_plug_def)
  ultimately show ?thesis using add_rq_to_plug_ok [OF demo_qapi_ok] by blast
qed

theorem dispatch_busy_bounded_witness:
  "unat (mq_busy (blk_mq_update_dispatch_busy 0 True demo_mq) 0) < 16"
  using dispatch_busy_bounded [of demo_mq 0 True] by (simp add: demo_mq_def)

theorem dispatch_rq_list_conserves_witness:
  "\<exists>r s'. blk_mq_dispatch_rq_list demo_qapi 0 [1, 0, 2] True demo_mq = Some (r, s') \<and>
     all_rqs demo_qapi s' = {#4#} + {#1, 0, 2#}"
proof -
  have h: "0 < q_nr_hw (demo_qapi :: unit qapi)" by (simp add: demo_qapi_def)
  have "ready demo_qapi demo_mq [1, 0, 2]" by (rule demo_ready) simp_all
  from dispatch_rq_list_conserves [OF demo_qapi_ok this h, of True] show ?thesis by (simp add: demo_all)
qed

theorem requeue_work_conserves_witness:
  "all_rqs demo_qapi (blk_mq_requeue_work demo_qapi 0 demo_mq) = {#4#}"
proof -
  let ?s = "demo_mq\<lparr>mq_requeue := (mq_requeue demo_mq)(0 := []), mq_flush := (mq_flush demo_mq)(0 := [])\<rparr>"
  have q: "0 < q_nr_queues (demo_qapi :: unit qapi)" by (simp add: demo_qapi_def)
  have "all_rqs demo_qapi ?s = {#}" using all_rqs_requeue [OF q, of demo_mq] by (simp add: demo_all) (simp add: demo_mq_def)
  then have "ready demo_qapi ?s (mq_requeue demo_mq 0 @ mq_flush demo_mq 0)"
    by (simp add: ready_def) (simp add: demo_mq_def demo_routed)
  from requeue_work_conserves [OF demo_qapi_ok q this] show ?thesis by (simp add: demo_all)
qed

end
