(* ===== verification/SubmitBio.thy ===== *)
theory SubmitBio
  imports MqLaws
begin

text \<open>
  From a descriptor to a request (\<open>readaround-split/src/block/blk-mq.c\<close>): the check of alignment,
  the attempt to merge, and the request made from a descriptor that could not be merged. What is taken
  from headers and other files is the record \<open>uapi\<close>; per-partition statistics, traces and encryption
  contexts are left out.
\<close>

unbundle bit_operations_syntax

section \<open>Operations\<close>

record uapi =
  u_d :: dapi
  u_lbs :: "nat \<Rightarrow> u32"
  u_nomerges :: "nat \<Rightarrow> bool"
  u_sched_bio_merge :: "nat \<Rightarrow> bio \<Rightarrow> u32 \<Rightarrow> bool"
  u_io_stat :: "nat \<Rightarrow> bool"
  u_passthrough_stat :: "nat \<Rightarrow> bool"
  u_has_bdev :: "bio \<Rightarrow> bool"
  u_bdev_lbs :: "bio \<Rightarrow> u32"
  u_now :: u64
  u_hctx_type :: "nat \<Rightarrow> nat"
  u_opf_type :: "req_op \<Rightarrow> req_flag set \<Rightarrow> nat"
  u_type_read :: nat
  u_type_default :: nat
  u_op_is_flush :: "req_op \<Rightarrow> req_flag set \<Rightarrow> bool"

abbreviation u_m :: "uapi \<Rightarrow> mapi" where "u_m api \<equiv> d_m (u_d api)"

definition bio_unaligned :: "uapi \<Rightarrow> bio \<Rightarrow> nat \<Rightarrow> bool" where
  "bio_unaligned api b q \<longleftrightarrow>
     (let bs_mask = u_lbs api q - 1 in
      bi_size b AND bs_mask \<noteq> 0 \<or> push_bit 9 (bi_sector b) AND ucast bs_mask \<noteq> 0)"

definition blk_rq_passthrough_stats :: "uapi \<Rightarrow> request \<Rightarrow> bool" where
  "blk_rq_passthrough_stats api req =
     (if \<not> u_passthrough_stat api (rq_q req) then False
      else case rq_bio req of
             None \<Rightarrow> False
           | Some b \<Rightarrow> if \<not> u_has_bdev api b then False
                       else if rq_data_len req AND (u_bdev_lbs api b - 1) \<noteq> 0 then False else True)"

definition blk_account_io_start :: "uapi \<Rightarrow> request \<Rightarrow> request" where
  "blk_account_io_start api req =
     (if \<not> u_io_stat api (rq_q req) then req
      else if m_passthrough (u_m api) req \<and> \<not> blk_rq_passthrough_stats api req then req
      else req\<lparr>rq_rq_flags := insert RQF_IO_STAT (rq_rq_flags req), rq_start_time_ns := u_now api\<rparr>)"

definition blk_mq_bio_to_request :: "uapi \<Rightarrow> request \<Rightarrow> bio \<Rightarrow> u32 \<Rightarrow> request" where
  "blk_mq_bio_to_request api rq b nr_segs =
     (let r1 = (if REQ_RAHEAD \<in> bi_opf b then rq\<lparr>rq_cmd_flags := rq_cmd_flags rq \<union> REQ_FAILFAST_MASK\<rparr> else rq);
          r2 = r1\<lparr>rq_bios := [b], rq_sector := bi_sector b, rq_data_len := bi_size b, rq_phys_gap_bit := bi_gap_bit b,
                  rq_nr_phys_segments := ucast nr_segs\<rparr>;
          r3 = (if m_bio_integrity (u_m api) b
                then r2\<lparr>rq_nr_integrity_segments := m_count_integrity_sg (u_m api) (rq_q r2) b\<rparr> else r2)
      in blk_account_io_start api r3)"

text \<open>The plug list is given when the task has one, with its \<open>multiple_queues\<close>; the list is returned.\<close>

definition blk_mq_attempt_bio_merge ::
  "uapi \<Rightarrow> nat \<Rightarrow> bio \<Rightarrow> u32 \<Rightarrow> bool \<Rightarrow> request list \<Rightarrow> (bool \<times> request list) option" where
  "blk_mq_attempt_bio_merge api q b nr_segs multiple plug =
     (if \<not> u_nomerges api q \<and> m_bio_mergeable (u_m api) b
      then (case blk_attempt_plug_merge (u_m api) q b nr_segs multiple plug of
              None \<Rightarrow> None
            | Some (True, l) \<Rightarrow> Some (True, l)
            | Some (False, l) \<Rightarrow> Some (u_sched_bio_merge api q b nr_segs, l))
      else Some (False, plug))"

text \<open>The cached requests of the plug, first to be used first.\<close>

definition blk_mq_get_cached_request ::
  "uapi \<Rightarrow> request list \<Rightarrow> nat \<Rightarrow> req_op \<Rightarrow> req_flag set \<Rightarrow> request option \<times> request list" where
  "blk_mq_get_cached_request api cached q op opf =
     (case cached of
        [] \<Rightarrow> (None, cached)
      | rq # rest \<Rightarrow>
          if rq_q rq \<noteq> q then (None, cached)
          else if u_opf_type api op opf \<noteq> u_hctx_type api (rq_mq_hctx rq) \<and>
                  (u_opf_type api op opf \<noteq> u_type_read api \<or> u_hctx_type api (rq_mq_hctx rq) \<noteq> u_type_default api)
          then (None, cached)
          else if u_op_is_flush api (rq_op rq) (rq_cmd_flags rq) \<noteq> u_op_is_flush api op opf then (None, cached)
          else (Some rq, rest))"

section \<open>Laws\<close>

lemma account_start_same [simp]:
  "rq_bios (blk_account_io_start api r) = rq_bios r" "rq_sector (blk_account_io_start api r) = rq_sector r"
  "rq_data_len (blk_account_io_start api r) = rq_data_len r" "rq_op (blk_account_io_start api r) = rq_op r"
  "rq_cmd_flags (blk_account_io_start api r) = rq_cmd_flags r" "rq_q (blk_account_io_start api r) = rq_q r"
  by (simp_all add: blk_account_io_start_def)

lemma to_request_fields:
  "rq_bios (blk_mq_bio_to_request api rq b n) = [b]" "rq_sector (blk_mq_bio_to_request api rq b n) = bi_sector b"
  "rq_data_len (blk_mq_bio_to_request api rq b n) = bi_size b" "rq_op (blk_mq_bio_to_request api rq b n) = rq_op rq"
  "rq_cmd_flags rq \<subseteq> rq_cmd_flags (blk_mq_bio_to_request api rq b n)"
  "rq_q (blk_mq_bio_to_request api rq b n) = rq_q rq"
  by (auto simp: blk_mq_bio_to_request_def Let_def)

text \<open>
  A device whose blocks are powers of two from 512 bytes on: what passes the check of alignment is a
  number of whole sectors.
\<close>

lemma aligned_sectors:
  assumes "\<not> bio_unaligned api b q" and "u_lbs api q = push_bit k 1" and "9 \<le> k" and "k < 32"
  shows "512 dvd unat (bi_size b)"
proof -
  have "mask k = (push_bit k 1 :: u32) - 1" by (simp add: mask_eq_exp_minus_1 push_bit_eq_mult)
  then have "take_bit k (bi_size b) = 0" using assms(1,2) by (simp add: bio_unaligned_def Let_def take_bit_eq_mask)
  then have "take_bit k (unat (bi_size b)) = 0" by (metis unsigned_0 unsigned_take_bit_eq)
  then have "2 ^ k dvd unat (bi_size b)" by (simp add: take_bit_eq_0_iff)
  moreover have "(2 :: nat) ^ 9 dvd 2 ^ k" using assms(3) by (rule le_imp_power_dvd)
  ultimately show ?thesis using dvd_trans by fastforce
qed

text \<open>
  The request made from an aligned descriptor is well-formed: one contiguous run of whole sectors,
  exactly those of the descriptor, and it carries every flag of the descriptor, so that what must not be
  merged stays so.
\<close>

theorem bio_to_request_wf:
  assumes "\<not> bio_unaligned api b q" and "u_lbs api q = push_bit k 1" and "9 \<le> k" and "k < 32"
    and "rq_op rq = bi_op b" and "rq_cmd_flags rq = bi_opf b"
  shows "rq_wf (blk_mq_bio_to_request api rq b n) \<and>
    extents (rq_bios (blk_mq_bio_to_request api rq b n)) = [extent_of b] \<and>
    bi_opf b \<subseteq> rq_cmd_flags (blk_mq_bio_to_request api rq b n)"
  using aligned_sectors [OF assms(1-4)] assms(5,6) to_request_fields [where api = api and rq = rq and b = b and n = n]
  by (simp add: rq_wf_def extent_of_def whole_sectors_def)

section \<open>A concrete queue\<close>

definition demo_uapi :: uapi where
  "demo_uapi = \<lparr>u_d = demo_dapi, u_lbs = (\<lambda>q. 512), u_nomerges = (\<lambda>q. False), u_sched_bio_merge = (\<lambda>q b n. False),
     u_io_stat = (\<lambda>q. True), u_passthrough_stat = (\<lambda>q. False), u_has_bdev = (\<lambda>b. True), u_bdev_lbs = (\<lambda>b. 512), u_now = 7,
     u_hctx_type = (\<lambda>h. 0), u_opf_type = (\<lambda>op opf. 0), u_type_read = 1, u_type_default = 0, u_op_is_flush = (\<lambda>op opf. False)\<rparr>"

theorem bio_to_request_wf_witness: "rq_wf (blk_mq_bio_to_request demo_uapi (demo_rq 0) demo_bio 32)"
proof -
  have "\<not> bio_unaligned demo_uapi demo_bio 0"
    by (simp add: bio_unaligned_def demo_uapi_def demo_bio_def push_bit_eq_mult Let_def)
  moreover have "u_lbs demo_uapi 0 = push_bit 9 1" by (simp add: demo_uapi_def push_bit_eq_mult)
  moreover have "rq_op (demo_rq 0) = bi_op demo_bio" "rq_cmd_flags (demo_rq 0) = bi_opf demo_bio"
    by (simp_all add: demo_rq_def demo_bio_def bio_init_def)
  ultimately show ?thesis using bio_to_request_wf [of demo_uapi demo_bio 0 9 "demo_rq 0" 32] by simp
qed

end
