(* ===== verification/RequestAlloc.thy ===== *)
theory RequestAlloc
  imports SubmitBio
begin

text \<open>
  Allocating and freeing requests (\<open>readaround-split/src/block/blk-mq.c\<close>): single and batched
  allocation, the requests cached in a plug, and the references they hold on the queue. The state joins
  the descriptors, the queues, the plug of the task with its cached requests, and the usage counter of
  every queue. The tag bitmaps (\<open>blk_mq_get_tag\<close>, \<open>blk_mq_get_tags\<close>, \<open>blk_mq_put_tag\<close>), the
  mapping of CPUs and the elevator are in other files of the kernel: they are functions of the record
  \<open>aapi\<close>, over the environment \<open>mq_env\<close> of the queues. The pointer \<open>mq_hctx\<close> that freeing
  clears keeps its old value here; it is not read before the next allocation sets it. Time stamps of the
  allocation, encryption contexts, power management marks and quality-of-service callbacks are left out.
\<close>

section \<open>State\<close>

record 'e sub =
  sb_blk :: blk
  sb_mq :: "'e mq"
  sb_plug :: "plug option"
  sb_cached :: "nat list"
  sb_nr_ios :: u16
  sb_usage :: "nat \<Rightarrow> int"

datatype mq_req_flag = BLK_MQ_REQ_NOWAIT | BLK_MQ_REQ_RESERVED | BLK_MQ_REQ_PM

record blk_mq_alloc_data =
  ad_q :: nat
  ad_flags :: "mq_req_flag set"
  ad_shallow_depth :: u32
  ad_op :: req_op
  ad_cmd_flags :: "req_flag set"
  ad_rq_flags :: "rq_flag set"
  ad_nr_tags :: u32
  ad_ctx :: nat
  ad_hctx :: nat

record 'e aapi =
  a_u :: uapi
  a_q :: "'e qapi"
  a_get_ctx :: "'e \<Rightarrow> nat \<Rightarrow> nat"
  a_map_queue :: "req_op \<Rightarrow> req_flag set \<Rightarrow> nat \<Rightarrow> nat"
  a_op_passthrough :: "req_op \<Rightarrow> bool"
  a_tag_busy :: "nat \<Rightarrow> 'e \<Rightarrow> 'e"
  a_limit_depth :: "(req_op \<Rightarrow> req_flag set \<Rightarrow> u32 \<Rightarrow> u32) option"
  a_get_tags :: "blk_mq_alloc_data \<Rightarrow> nat \<Rightarrow> 'e \<Rightarrow> (u64 \<times> nat) \<times> 'e"
  a_get_tag :: "blk_mq_alloc_data \<Rightarrow> 'e \<Rightarrow> nat option \<times> 'e"
  a_put_tag :: "nat \<Rightarrow> bool \<Rightarrow> nat \<Rightarrow> nat \<Rightarrow> 'e \<Rightarrow> 'e"
  a_static_rqs :: "nat \<Rightarrow> bool \<Rightarrow> nat \<Rightarrow> nat"
  a_prepare_request :: "(request \<Rightarrow> request) option"
  a_add_active :: "nat \<Rightarrow> nat \<Rightarrow> 'e \<Rightarrow> 'e"
  a_dec_active :: "nat \<Rightarrow> 'e \<Rightarrow> 'e"
  a_sched_restart :: "nat \<Rightarrow> 'e mq \<Rightarrow> 'e mq"
  a_msleep :: "'e \<Rightarrow> 'e"
  a_queue_enter :: "nat \<Rightarrow> mq_req_flag set \<Rightarrow> 'e \<Rightarrow> int \<times> 'e"
  a_queue_hw_ctx :: "nat \<Rightarrow> nat list"
  a_mapped :: "nat \<Rightarrow> bool"
  a_first_online_ctx :: "'e \<Rightarrow> nat \<Rightarrow> nat \<Rightarrow> nat option"

abbreviation sb_rq :: "'e sub \<Rightarrow> nat \<Rightarrow> request" where
  "sb_rq s \<equiv> mq_rq (sb_mq s)"

abbreviation sb_env :: "'e sub \<Rightarrow> 'e" where
  "sb_env s \<equiv> mq_env (sb_mq s)"

definition set_env :: "'e \<Rightarrow> 'e sub \<Rightarrow> 'e sub" where
  "set_env e s = s\<lparr>sb_mq := (sb_mq s)\<lparr>mq_env := e\<rparr>\<rparr>"

definition set_rq :: "nat \<Rightarrow> request \<Rightarrow> 'e sub \<Rightarrow> 'e sub" where
  "set_rq a r s = s\<lparr>sb_mq := put_rq a r (sb_mq s)\<rparr>"

definition add_usage :: "nat \<Rightarrow> int \<Rightarrow> 'e sub \<Rightarrow> 'e sub" where
  "add_usage q n s = s\<lparr>sb_usage := (sb_usage s)(q := sb_usage s q + n)\<rparr>"

section \<open>Initialising a request\<close>

definition blk_rq_init :: "uapi \<Rightarrow> nat \<Rightarrow> request" where
  "blk_rq_init api q =
     \<lparr>rq_q = q, rq_mq_ctx = 0, rq_mq_hctx = 0, rq_state = MQ_RQ_IDLE, rq_op = REQ_OP_READ, rq_cmd_flags = {},
      rq_rq_flags = {}, rq_sector = - 1, rq_data_len = 0, rq_nr_phys_segments = 0, rq_nr_integrity_segments = 0,
      rq_phys_gap_bit = 0, rq_start_time_ns = u_now api, rq_io_start_time_ns = 0, rq_stats_sectors = 0, rq_tag = None,
      rq_internal_tag = None, rq_timeout = 0, rq_deadline = 0, rq_ref = 0, rq_end_io = None, rq_bios = []\<rparr>"

definition blk_mq_rq_ctx_init :: "'e aapi \<Rightarrow> blk_mq_alloc_data \<Rightarrow> nat \<Rightarrow> request \<Rightarrow> request" where
  "blk_mq_rq_ctx_init api data tag rq =
     (let rq_flags = (if BLK_MQ_REQ_PM \<in> ad_flags data then insert RQF_PM (ad_rq_flags data) else ad_rq_flags data);
          sched = (RQF_SCHED_TAGS \<in> rq_flags);
          r = rq\<lparr>rq_q := ad_q data, rq_mq_ctx := ad_ctx data, rq_mq_hctx := ad_hctx data, rq_op := ad_op data,
                 rq_cmd_flags := ad_cmd_flags data, rq_rq_flags := rq_flags,
                 rq_tag := (if sched then None else Some tag), rq_internal_tag := (if sched then Some tag else None),
                 rq_timeout := 0, rq_io_start_time_ns := 0, rq_stats_sectors := 0, rq_nr_phys_segments := 0,
                 rq_nr_integrity_segments := 0, rq_end_io := None, rq_deadline := 0, rq_ref := 1\<rparr>
      in if RQF_USE_SCHED \<in> rq_flags then (case a_prepare_request api of None \<Rightarrow> r | Some f \<Rightarrow> f r) else r)"

text \<open>The request of a tag, initialised: \<open>blk_mq_tags_from_data\<close> gives the tags of the scheduler or of the driver.\<close>

definition take_tag :: "'e aapi \<Rightarrow> blk_mq_alloc_data \<Rightarrow> nat \<Rightarrow> 'e sub \<Rightarrow> nat \<times> 'e sub" where
  "take_tag api data tag s =
     (let a = a_static_rqs api (ad_hctx data) (RQF_SCHED_TAGS \<in> ad_rq_flags data) tag
      in (a, set_rq a (blk_mq_rq_ctx_init api data tag (sb_rq s a)) s))"

section \<open>Batched allocation\<close>

text \<open>The positions of the bits of a mask, from the lowest on, clearing each.\<close>

function tag_bits :: "nat \<Rightarrow> u64 \<Rightarrow> nat list" where
  "tag_bits i tag_mask =
     (if tag_mask = 0 \<or> 64 \<le> i then []
      else if \<not> bit tag_mask i then tag_bits (i + 1) tag_mask
      else i # tag_bits (i + 1) (unset_bit i tag_mask))"
  by auto
termination
  by (relation "measure (\<lambda>(i, m). 64 - i)") auto

declare tag_bits.simps [simp del]

definition batch_add :: "'e aapi \<Rightarrow> blk_mq_alloc_data \<Rightarrow> nat \<Rightarrow> 'e sub \<Rightarrow> 'e sub" where
  "batch_add api data tag s = (case take_tag api data tag s of (a, s1) \<Rightarrow> s1\<lparr>sb_cached := a # sb_cached s1\<rparr>)"

lemma tag_bits_filter: "tag_bits i m = filter (bit m) [i..<64]"
proof (induction i m rule: tag_bits.induct)
  case (1 i m)
  show ?case
  proof (cases "m = 0 \<or> 64 \<le> i")
    case False
    then have "[i..<64] = i # [i + 1..<64]" by (simp add: upt_conv_Cons)
    moreover have "filter (bit (unset_bit i m)) [i + 1..<64] = filter (bit m) [i + 1..<64]"
      by (rule filter_cong) (auto simp: bit_unset_bit_iff)
    ultimately show ?thesis using 1 False by (subst tag_bits.simps) (simp del: upt_Suc)
  qed (subst tag_bits.simps, auto)
qed

lemma tag_bits_nonempty: "m \<noteq> 0 \<Longrightarrow> tag_bits 0 m \<noteq> []"
  by (auto simp: tag_bits_filter filter_empty_conv bit_eq_iff)

function batch_loop :: "'e aapi \<Rightarrow> blk_mq_alloc_data \<Rightarrow> nat \<Rightarrow> 'e sub \<Rightarrow> nat \<times> 'e sub" where
  "batch_loop api data nr s =
     (case a_get_tags api data (unat (ad_nr_tags data) - nr) (sb_env s) of
        ((tag_mask, tag_offset), e) \<Rightarrow>
          if tag_mask = 0 then (nr, set_env e s)
          else let tags = tag_bits 0 tag_mask;
                   s1 = fold (\<lambda>i. batch_add api data (tag_offset + i)) tags (set_env e s);
                   n = nr + length tags
               in if n < unat (ad_nr_tags data) then batch_loop api data n s1 else (n, s1))"
  by auto
termination
proof (relation "measure (\<lambda>(api, data, nr, s). unat (ad_nr_tags data) - nr)")
  fix api :: "'e aapi" and data nr and s :: "'e sub" and x y tag_mask tag_offset e tags s1 n
  assume "tag_mask \<noteq> 0" "tags = tag_bits 0 tag_mask" "n = nr + length tags" "n < unat (ad_nr_tags data)"
  then show "((api, data, n, s1), api, data, nr, s) \<in> measure (\<lambda>(api, data, nr, s). unat (ad_nr_tags data) - nr)"
    using tag_bits_nonempty [of tag_mask] by (simp add: length_greater_0_conv [symmetric] del: length_greater_0_conv)
qed simp

declare batch_loop.simps [simp del]

definition alloc_requests_batch :: "'e aapi \<Rightarrow> blk_mq_alloc_data \<Rightarrow> 'e sub \<Rightarrow> nat option \<times> 'e sub" where
  "alloc_requests_batch api data s =
     (case batch_loop api data 0 s of
        (nr, s1) \<Rightarrow>
          if nr = 0 then (None, s1)
          else let s2 = (if RQF_SCHED_TAGS \<in> ad_rq_flags data then s1
                         else set_env (a_add_active api (ad_hctx data) nr (sb_env s1)) s1);
                   s3 = add_usage (ad_q data) (int nr - 1) s2
               in (case sb_cached s3 of
                     [] \<Rightarrow> (None, s3)
                   | a # rest \<Rightarrow> (Some a, s3\<lparr>sb_cached := rest\<rparr>)))"

definition blk_mq_limit_depth :: "'e aapi \<Rightarrow> blk_mq_alloc_data \<Rightarrow> 'e \<Rightarrow> blk_mq_alloc_data \<times> 'e" where
  "blk_mq_limit_depth api data e =
     (if \<not> q_has_elevator (a_q api) (ad_q data) then (data, a_tag_busy api (ad_hctx data) e)
      else let d1 = data\<lparr>ad_rq_flags := insert RQF_SCHED_TAGS (ad_rq_flags data)\<rparr>
           in if ad_op data = REQ_OP_FLUSH \<or> a_op_passthrough api (ad_op data) then (d1, e)
              else let d2 = d1\<lparr>ad_rq_flags := insert RQF_USE_SCHED (ad_rq_flags d1)\<rparr>
                   in (case a_limit_depth api of
                         None \<Rightarrow> (d2, e)
                       | Some f \<Rightarrow> (d2\<lparr>ad_shallow_depth := f (ad_op d2) (ad_cmd_flags d2) (ad_shallow_depth d2)\<rparr>, e)))"

section \<open>Allocation\<close>

text \<open>Where the task runs and what the allocation may take, up to the batch, from the label \<open>retry\<close> on.\<close>

definition alloc_place :: "'e aapi \<Rightarrow> blk_mq_alloc_data \<Rightarrow> 'e sub \<Rightarrow> blk_mq_alloc_data \<times> 'e sub" where
  "alloc_place api data s =
     (let c = a_get_ctx api (sb_env s) (ad_q data);
          d1 = data\<lparr>ad_ctx := c, ad_hctx := a_map_queue api (ad_op data) (ad_cmd_flags data) c\<rparr>
      in case blk_mq_limit_depth api d1 (sb_env s) of
           (d2, e) \<Rightarrow> (if BLK_MQ_REQ_RESERVED \<in> ad_flags d2 then d2\<lparr>ad_rq_flags := insert RQF_RESV (ad_rq_flags d2)\<rparr> else d2,
                        set_env e s))"

text \<open>One tag; \<open>None\<close> when there is none.\<close>

definition alloc_single :: "'e aapi \<Rightarrow> blk_mq_alloc_data \<Rightarrow> 'e sub \<Rightarrow> nat option \<times> 'e sub" where
  "alloc_single api data s =
     (case a_get_tag api data (sb_env s) of
        (None, e) \<Rightarrow> (None, set_env e s)
      | (Some tag, e) \<Rightarrow>
          let e1 = (if RQF_SCHED_TAGS \<in> ad_rq_flags data then e else a_add_active api (ad_hctx data) 1 e)
          in (case take_tag api data tag (set_env e1 s) of (a, s1) \<Rightarrow> (Some a, s1)))"

definition alloc_try :: "'e aapi \<Rightarrow> blk_mq_alloc_data \<Rightarrow> 'e sub \<Rightarrow> nat option \<times> blk_mq_alloc_data \<times> 'e sub" where
  "alloc_try api data s =
     (case alloc_place api data s of
        (d1, s1) \<Rightarrow>
          (case (if 1 < ad_nr_tags d1 then alloc_requests_batch api d1 s1 else (None, s1)) of
             (Some a, s2) \<Rightarrow> (Some a, d1, s2)
           | (None, s2) \<Rightarrow>
               let d2 = (if 1 < ad_nr_tags d1 then d1\<lparr>ad_nr_tags := 1\<rparr> else d1)
               in (case alloc_single api d2 s2 of (r, s3) \<Rightarrow> (r, d2, s3))))"

text \<open>The code waits and tries again as long as there is no tag; \<open>None\<close> is a wait that never ends.\<close>

partial_function (option) alloc_retry :: "'e aapi \<Rightarrow> blk_mq_alloc_data \<Rightarrow> 'e sub \<Rightarrow> (nat option \<times> 'e sub) option" where
  "alloc_retry api data s =
     (case alloc_try api data s of
        (Some a, d, s1) \<Rightarrow> Some (Some a, s1)
      | (None, d, s1) \<Rightarrow>
          if BLK_MQ_REQ_NOWAIT \<in> ad_flags d then Some (None, s1)
          else alloc_retry api d (set_env (a_msleep api (sb_env s1)) s1))"

definition alloc_requests :: "'e aapi \<Rightarrow> blk_mq_alloc_data \<Rightarrow> 'e sub \<Rightarrow> (nat option \<times> 'e sub) option" where
  "alloc_requests api data s =
     alloc_retry api (if REQ_NOWAIT \<in> ad_cmd_flags data then data\<lparr>ad_flags := insert BLK_MQ_REQ_NOWAIT (ad_flags data)\<rparr> else data) s"

definition alloc_data :: "nat \<Rightarrow> mq_req_flag set \<Rightarrow> req_op \<Rightarrow> req_flag set \<Rightarrow> u32 \<Rightarrow> blk_mq_alloc_data" where
  "alloc_data q flags op opf nr_tags =
     \<lparr>ad_q = q, ad_flags = flags, ad_shallow_depth = 0, ad_op = op, ad_cmd_flags = opf, ad_rq_flags = {}, ad_nr_tags = nr_tags,
      ad_ctx = 0, ad_hctx = 0\<rparr>"

text \<open>\<open>blk_queue_enter\<close> takes a reference when it succeeds, which is when it returns 0.\<close>

definition queue_enter :: "'e aapi \<Rightarrow> nat \<Rightarrow> mq_req_flag set \<Rightarrow> 'e sub \<Rightarrow> int \<times> 'e sub" where
  "queue_enter api q flags s =
     (case a_queue_enter api q flags (sb_env s) of
        (ret, e) \<Rightarrow> (ret, if ret = 0 then add_usage q 1 (set_env e s) else set_env e s))"

definition blk_mq_rq_cache_fill ::
  "'e aapi \<Rightarrow> nat \<Rightarrow> req_op \<Rightarrow> req_flag set \<Rightarrow> mq_req_flag set \<Rightarrow> 'e sub \<Rightarrow> (nat option \<times> 'e sub) option" where
  "blk_mq_rq_cache_fill api q op opf flags s =
     (let data = alloc_data q flags op opf (ucast (sb_nr_ios s)) in
      case queue_enter api q flags s of
        (ret, s1) \<Rightarrow>
          if ret \<noteq> 0 then Some (None, s1)
          else (case alloc_requests api data (s1\<lparr>sb_nr_ios := 1\<rparr>) of
                  None \<Rightarrow> None
                | Some (None, s2) \<Rightarrow> Some (None, add_usage q (- 1) s2)
                | Some (Some a, s2) \<Rightarrow> Some (Some a, s2)))"

definition set_opf :: "nat \<Rightarrow> req_op \<Rightarrow> req_flag set \<Rightarrow> 'e sub \<Rightarrow> 'e sub" where
  "set_opf a op opf s = set_rq a ((sb_rq s a)\<lparr>rq_op := op, rq_cmd_flags := opf\<rparr>) s"

definition blk_mq_alloc_cached_request ::
  "'e aapi \<Rightarrow> nat \<Rightarrow> req_op \<Rightarrow> req_flag set \<Rightarrow> mq_req_flag set \<Rightarrow> 'e sub \<Rightarrow> (nat option \<times> 'e sub) option" where
  "blk_mq_alloc_cached_request api q op opf flags s =
     (if sb_plug s = None then Some (None, s)
      else case sb_cached s of
        [] \<Rightarrow>
          if sb_nr_ios s = 1 then Some (None, s)
          else (case blk_mq_rq_cache_fill api q op opf flags s of
                  None \<Rightarrow> None
                | Some (None, s1) \<Rightarrow> Some (None, s1)
                | Some (Some a, s1) \<Rightarrow> Some (Some a, set_opf a op opf s1))
      | a # rest \<Rightarrow>
          let rq = sb_rq s a in
          if rq_q rq \<noteq> q then Some (None, s)
          else if u_opf_type (a_u api) op opf \<noteq> u_hctx_type (a_u api) (rq_mq_hctx rq) then Some (None, s)
          else if u_op_is_flush (a_u api) (rq_op rq) (rq_cmd_flags rq) \<noteq> u_op_is_flush (a_u api) op opf then Some (None, s)
          else Some (Some a, set_opf a op opf (s\<lparr>sb_cached := rest\<rparr>)))"

definition EWOULDBLOCK :: int where "EWOULDBLOCK = 11"
definition EINVAL :: int where "EINVAL = 22"
definition EIO :: int where "EIO = 5"
definition EXDEV :: int where "EXDEV = 18"

text \<open>A new request carries no data yet.\<close>

definition clear_rq :: "nat \<Rightarrow> 'e sub \<Rightarrow> 'e sub" where
  "clear_rq a s = set_rq a ((sb_rq s a)\<lparr>rq_data_len := 0, rq_phys_gap_bit := 0, rq_sector := - 1, rq_bios := []\<rparr>) s"

definition blk_mq_alloc_request ::
  "'e aapi \<Rightarrow> nat \<Rightarrow> req_op \<Rightarrow> req_flag set \<Rightarrow> mq_req_flag set \<Rightarrow> 'e sub \<Rightarrow> ((int + nat) \<times> 'e sub) option" where
  "blk_mq_alloc_request api q op opf flags s =
     (case blk_mq_alloc_cached_request api q op opf flags s of
        None \<Rightarrow> None
      | Some (Some a, s1) \<Rightarrow> Some (Inr a, clear_rq a s1)
      | Some (None, s1) \<Rightarrow>
          (case queue_enter api q flags s1 of
             (ret, s2) \<Rightarrow>
               if ret \<noteq> 0 then Some (Inl ret, s2)
               else (case alloc_requests api (alloc_data q flags op opf 1) s2 of
                       None \<Rightarrow> None
                     | Some (None, s3) \<Rightarrow> Some (Inl (- EWOULDBLOCK), add_usage q (- 1) s3)
                     | Some (Some a, s3) \<Rightarrow> Some (Inr a, clear_rq a s3))))"

definition blk_mq_alloc_request_hctx ::
  "'e aapi \<Rightarrow> nat \<Rightarrow> req_op \<Rightarrow> req_flag set \<Rightarrow> mq_req_flag set \<Rightarrow> nat \<Rightarrow> 'e sub \<Rightarrow> (int + nat) \<times> 'e sub" where
  "blk_mq_alloc_request_hctx api q op opf flags hctx_idx s =
     (if BLK_MQ_REQ_NOWAIT \<notin> flags \<or> BLK_MQ_REQ_RESERVED \<notin> flags then (Inl (- EINVAL), s)
      else if length (a_queue_hw_ctx api q) \<le> hctx_idx then (Inl (- EIO), s)
      else case queue_enter api q flags s of
        (ret, s1) \<Rightarrow>
          if ret \<noteq> 0 then (Inl ret, s1)
          else let h = a_queue_hw_ctx api q ! hctx_idx in
               if \<not> a_mapped api h then (Inl (- EXDEV), add_usage q (- 1) s1)
               else (case a_first_online_ctx api (sb_env s1) q h of
                       None \<Rightarrow> (Inl (- EXDEV), add_usage q (- 1) s1)
                     | Some c \<Rightarrow>
                         let (rf, e) = (if q_has_elevator (a_q api) q then ({RQF_SCHED_TAGS}, sb_env s1)
                                        else ({}, a_tag_busy api h (sb_env s1)));
                             data = (alloc_data q flags op opf 1)\<lparr>ad_ctx := c, ad_hctx := h, ad_rq_flags := insert RQF_RESV rf\<rparr>
                         in (case alloc_single api data (set_env e s1) of
                               (None, s2) \<Rightarrow> (Inl (- EWOULDBLOCK), add_usage q (- 1) s2)
                             | (Some a, s2) \<Rightarrow> (Inr a, clear_rq a s2))))"

section \<open>Freeing\<close>

definition free_request :: "'e aapi \<Rightarrow> nat \<Rightarrow> 'e sub \<Rightarrow> 'e sub" where
  "free_request api a s =
     (let rq = sb_rq s a; c = rq_mq_ctx rq; h = rq_mq_hctx rq;
          e1 = (case rq_tag rq of None \<Rightarrow> sb_env s | Some t \<Rightarrow> a_put_tag api h False c t (a_dec_active api h (sb_env s)));
          e2 = (case rq_internal_tag rq of None \<Rightarrow> e1 | Some t \<Rightarrow> a_put_tag api h True c t e1);
          s1 = set_env e2 s
      in add_usage (rq_q rq) (- 1) (s1\<lparr>sb_mq := a_sched_restart api h (sb_mq s1)\<rparr>))"

definition blk_mq_free_request :: "'e aapi \<Rightarrow> nat \<Rightarrow> 'e sub \<Rightarrow> 'e sub" where
  "blk_mq_free_request api a s =
     (let r1 = (blk_mq_finish_request (sb_rq s a))\<lparr>rq_state := MQ_RQ_IDLE\<rparr>;
          r2 = r1\<lparr>rq_ref := rq_ref r1 - 1\<rparr>;
          s1 = set_rq a r2 s
      in if rq_ref r2 = 0 then free_request api a s1 else s1)"

fun free_cached :: "'e aapi \<Rightarrow> nat list \<Rightarrow> 'e sub \<Rightarrow> 'e sub" where
  "free_cached api [] s = s"
| "free_cached api (a # as) s = free_cached api as (blk_mq_free_request api a (s\<lparr>sb_cached := as\<rparr>))"

definition blk_mq_free_plug_rqs :: "'e aapi \<Rightarrow> 'e sub \<Rightarrow> 'e sub" where
  "blk_mq_free_plug_rqs api s = free_cached api (sb_cached s) s"

end
