(* ===== verification/AllocLaws.thy ===== *)
theory AllocLaws
  imports RequestAlloc
begin

text \<open>
  Laws of the allocation of requests: every reference on a queue is held by a request, whichever way an
  allocation ends; an allocation that must not wait returns, one that may wait never gives up; freeing
  gives back what allocating took.
\<close>

section \<open>What the tag allocator promises\<close>

definition tag_addr :: "'e aapi \<Rightarrow> blk_mq_alloc_data \<Rightarrow> nat \<Rightarrow> nat" where
  "tag_addr api d t = a_static_rqs api (ad_hctx d) (RQF_SCHED_TAGS \<in> ad_rq_flags d) t"

text \<open>
  A function \<open>busy\<close> tells the addresses in use. A tag that is handed out belongs to an address
  that was not in use, a batch has no more tags than asked for and no address twice, and nothing but
  \<open>blk_mq_put_tag\<close> takes an address out of use.
\<close>

definition get_tags_ok :: "'e aapi \<Rightarrow> ('e \<Rightarrow> nat set) \<Rightarrow> bool" where
  "get_tags_ok api busy \<longleftrightarrow> (\<forall>d n e mask off e'. a_get_tags api d n e = ((mask, off), e') \<longrightarrow>
     (let as = map (\<lambda>i. tag_addr api d (off + i)) (tag_bits 0 mask)
      in length as \<le> n \<and> distinct as \<and> set as \<inter> busy e = {} \<and> busy e \<union> set as \<subseteq> busy e'))"

definition get_tag_ok :: "'e aapi \<Rightarrow> ('e \<Rightarrow> nat set) \<Rightarrow> bool" where
  "get_tag_ok api busy \<longleftrightarrow> (\<forall>d e r e'. a_get_tag api d e = (r, e') \<longrightarrow>
     busy e \<subseteq> busy e' \<and> (\<forall>t. r = Some t \<longrightarrow> tag_addr api d t \<notin> busy e \<and> tag_addr api d t \<in> busy e'))"

definition aapi_ok :: "'e aapi \<Rightarrow> ('e \<Rightarrow> nat set) \<Rightarrow> bool" where
  "aapi_ok api busy \<longleftrightarrow> get_tags_ok api busy \<and> get_tag_ok api busy \<and>
     (\<forall>h e. busy e \<subseteq> busy (a_tag_busy api h e)) \<and> (\<forall>h n e. busy e \<subseteq> busy (a_add_active api h n e)) \<and>
     (\<forall>e. busy e \<subseteq> busy (a_msleep api e)) \<and> (\<forall>q f e. busy e \<subseteq> busy (snd (a_queue_enter api q f e))) \<and>
     (\<forall>e q. a_get_ctx api e q < q_nr_ctx (a_q api)) \<and> (\<forall>op f c. a_map_queue api op f c < q_nr_hw (a_q api)) \<and>
     (\<forall>f r. a_prepare_request api = Some f \<longrightarrow> rq_q (f r) = rq_q r \<and> rq_mq_ctx (f r) = rq_mq_ctx r \<and>
        rq_mq_hctx (f r) = rq_mq_hctx r \<and> rq_op (f r) = rq_op r \<and> rq_cmd_flags (f r) = rq_cmd_flags r \<and> rq_ref (f r) = rq_ref r \<and> rq_rq_flags (f r) = rq_rq_flags r)"

section \<open>What an allocation gains\<close>

definition fresh_rq :: "'e aapi \<Rightarrow> nat \<Rightarrow> req_op \<Rightarrow> req_flag set \<Rightarrow> request \<Rightarrow> bool" where
  "fresh_rq api q op opf r \<longleftrightarrow> rq_q r = q \<and> rq_op r = op \<and> rq_cmd_flags r = opf \<and> rq_ref r = 1 \<and>
     rq_mq_ctx r < q_nr_ctx (a_q api) \<and> rq_mq_hctx r < q_nr_hw (a_q api) \<and> RQF_FLUSH_SEQ \<notin> rq_rq_flags r"

abbreviation fresh_for :: "'e aapi \<Rightarrow> blk_mq_alloc_data \<Rightarrow> request \<Rightarrow> bool" where
  "fresh_for api d \<equiv> fresh_rq api (ad_q d) (ad_op d) (ad_cmd_flags d)"

definition placed :: "'e aapi \<Rightarrow> blk_mq_alloc_data \<Rightarrow> bool" where
  "placed api d \<longleftrightarrow> ad_ctx d < q_nr_ctx (a_q api) \<and> ad_hctx d < q_nr_hw (a_q api) \<and> RQF_FLUSH_SEQ \<notin> ad_rq_flags d"

definition frame :: "nat set \<Rightarrow> 'e sub \<Rightarrow> 'e sub \<Rightarrow> bool" where
  "frame A s s' \<longleftrightarrow> sb_blk s' = sb_blk s \<and> sb_plug s' = sb_plug s \<and> sb_nr_ios s' = sb_nr_ios s \<and>
     (\<exists>f e. sb_mq s' = (sb_mq s)\<lparr>mq_rq := f, mq_env := e\<rparr>) \<and> (\<forall>b. b \<notin> A \<longrightarrow> sb_rq s' b = sb_rq s b)"

definition gain :: "'e aapi \<Rightarrow> ('e \<Rightarrow> nat set) \<Rightarrow> blk_mq_alloc_data \<Rightarrow> nat list \<Rightarrow> 'e sub \<Rightarrow> 'e sub \<Rightarrow> bool" where
  "gain api busy d as s s' \<longleftrightarrow> frame (set as) s s' \<and> distinct as \<and> set as \<inter> busy (sb_env s) = {} \<and>
     busy (sb_env s) \<union> set as \<subseteq> busy (sb_env s') \<and> (\<forall>a \<in> set as. fresh_for api d (sb_rq s' a))"

lemma sub_simps [simp]:
  "sb_blk (set_env e s) = sb_blk s" "sb_plug (set_env e s) = sb_plug s" "sb_cached (set_env e s) = sb_cached s"
  "sb_nr_ios (set_env e s) = sb_nr_ios s" "sb_usage (set_env e s) = sb_usage s" "sb_mq (set_env e s) = (sb_mq s)\<lparr>mq_env := e\<rparr>"
  "sb_blk (set_rq a r s) = sb_blk s" "sb_plug (set_rq a r s) = sb_plug s" "sb_cached (set_rq a r s) = sb_cached s"
  "sb_nr_ios (set_rq a r s) = sb_nr_ios s" "sb_usage (set_rq a r s) = sb_usage s" "sb_mq (set_rq a r s) = put_rq a r (sb_mq s)"
  "sb_blk (add_usage q n s) = sb_blk s" "sb_plug (add_usage q n s) = sb_plug s" "sb_cached (add_usage q n s) = sb_cached s"
  "sb_nr_ios (add_usage q n s) = sb_nr_ios s" "sb_usage (add_usage q n s) = (sb_usage s)(q := sb_usage s q + n)"
  "sb_mq (add_usage q n s) = sb_mq s"
  by (simp_all add: set_env_def set_rq_def add_usage_def)

lemma frame_trans: "frame A s s1 \<Longrightarrow> frame B s1 s2 \<Longrightarrow> frame (A \<union> B) s s2"
  by (fastforce simp: frame_def)

lemma frame_intro:
  "sb_mq s' = (sb_mq s)\<lparr>mq_rq := f, mq_env := e\<rparr> \<Longrightarrow> sb_blk s' = sb_blk s \<Longrightarrow> sb_plug s' = sb_plug s \<Longrightarrow> sb_nr_ios s' = sb_nr_ios s \<Longrightarrow>
   (\<And>b. b \<notin> A \<Longrightarrow> f b = sb_rq s b) \<Longrightarrow> frame A s s'"
  by (auto simp: frame_def)

lemma frame_env [simp]: "frame A s (set_env e s)"
  by (rule frame_intro [where f = "sb_rq s" and e = e]) simp_all

lemma frame_rq: "a \<in> A \<Longrightarrow> frame A s (set_rq a r s)"
  by (rule frame_intro [where f = "(sb_rq s)(a := r)" and e = "sb_env s"]) (auto simp: put_rq_def)

lemma frame_same:
  "frame A s s1 \<Longrightarrow> sb_blk s2 = sb_blk s1 \<Longrightarrow> sb_plug s2 = sb_plug s1 \<Longrightarrow> sb_nr_ios s2 = sb_nr_ios s1 \<Longrightarrow> sb_mq s2 = sb_mq s1 \<Longrightarrow>
   frame A s s2"
  by (simp add: frame_def)

lemma frame_all_rqs: "frame A s s' \<Longrightarrow> all_rqs api (sb_mq s') = all_rqs api (sb_mq s)"
  by (auto simp: frame_def all_rqs_def)

lemma gain_trans:
  assumes "gain api busy d as s s1" and "gain api busy d bs s1 s2"
  shows "gain api busy d (bs @ as) s s2"
proof -
  have f: "frame (set (bs @ as)) s s2" using frame_trans assms by (fastforce simp: gain_def Un_commute)
  have old: "a \<notin> set bs" if "a \<in> set as" for a using that assms by (auto simp: gain_def)
  then have "sb_rq s2 a = sb_rq s1 a" if "a \<in> set as" for a using that assms(2) by (auto simp: gain_def frame_def)
  then show ?thesis using f assms old by (auto simp: gain_def)
qed

lemma gain_env: "busy (sb_env s) \<subseteq> busy e \<Longrightarrow> gain api busy d [] s (set_env e s)"
  by (simp add: gain_def)

lemma ctx_init_fresh:
  assumes "aapi_ok api busy" and "placed api d"
  shows "fresh_for api d (blk_mq_rq_ctx_init api d t r)"
  using assms by (auto simp: blk_mq_rq_ctx_init_def Let_def fresh_rq_def placed_def aapi_ok_def split: option.split)

lemma take_tag_addr: "take_tag api d t s = (tag_addr api d t, set_rq (tag_addr api d t)
    (blk_mq_rq_ctx_init api d t (sb_rq s (tag_addr api d t))) s)"
  by (simp add: take_tag_def tag_addr_def Let_def)

lemma batch_add_simps [simp]:
  "sb_cached (batch_add api d t s) = tag_addr api d t # sb_cached s" "sb_usage (batch_add api d t s) = sb_usage s"
  "sb_blk (batch_add api d t s) = sb_blk s" "sb_plug (batch_add api d t s) = sb_plug s" "sb_nr_ios (batch_add api d t s) = sb_nr_ios s"
  "sb_mq (batch_add api d t s) = put_rq (tag_addr api d t) (blk_mq_rq_ctx_init api d t (sb_rq s (tag_addr api d t))) (sb_mq s)"
  by (simp_all add: batch_add_def take_tag_addr)

lemma batch_fold:
  assumes "aapi_ok api busy" and "placed api d"
  shows "let s' = fold (\<lambda>i. batch_add api d (off + i)) is s; as = rev (map (\<lambda>i. tag_addr api d (off + i)) is)
     in frame (set as) s s' \<and> sb_cached s' = as @ sb_cached s \<and> sb_usage s' = sb_usage s \<and> sb_env s' = sb_env s \<and>
        (\<forall>a \<in> set as. fresh_for api d (sb_rq s' a))"
proof (induction "is" rule: rev_induct)
  case Nil
  then show ?case by (simp add: frame_intro [where f = "sb_rq s" and e = "sb_env s"])
next
  case (snoc i "is")
  let ?a = "tag_addr api d (off + i)"
  let ?s = "fold (\<lambda>i. batch_add api d (off + i)) is s"
  let ?s' = "batch_add api d (off + i) ?s"
  have "frame {?a} ?s ?s'"
    by (rule frame_same [OF frame_rq [of ?a "{?a}" ?s "blk_mq_rq_ctx_init api d (off + i) (sb_rq ?s ?a)"]]) simp_all
  then have "frame (set (rev (map (\<lambda>i. tag_addr api d (off + i)) (is @ [i])))) s ?s'"
    using frame_trans [of "set (rev (map (\<lambda>i. tag_addr api d (off + i)) is))" s ?s] snoc.IH by (fastforce simp: Let_def)
  then show ?case
    using snoc.IH ctx_init_fresh [OF assms] by (simp add: Let_def)
qed

lemma batch_loop_gain:
  assumes "aapi_ok api busy" and "placed api d"
  shows "batch_loop api d nr s = (n, s') \<Longrightarrow> nr \<le> unat (ad_nr_tags d) \<Longrightarrow>
    \<exists>as. gain api busy d as s s' \<and> sb_cached s' = as @ sb_cached s \<and> sb_usage s' = sb_usage s \<and>
      n = nr + length as \<and> n \<le> unat (ad_nr_tags d)"
proof (induction "unat (ad_nr_tags d) - nr" arbitrary: nr s rule: less_induct)
  case less
  obtain mask off e where g: "a_get_tags api d (unat (ad_nr_tags d) - nr) (sb_env s) = ((mask, off), e)"
    by (metis prod.exhaust)
  define ts where "ts = tag_bits 0 mask"
  define as where "as = rev (map (\<lambda>i. tag_addr api d (off + i)) ts)"
  define s1 where "s1 = fold (\<lambda>i. batch_add api d (off + i)) ts (set_env e s)"
  have ok: "length as \<le> unat (ad_nr_tags d) - nr" "distinct as" "set as \<inter> busy (sb_env s) = {}"
    "busy (sb_env s) \<union> set as \<subseteq> busy e"
    using assms(1) g by (auto simp: aapi_ok_def get_tags_ok_def Let_def as_def ts_def)
  have f: "frame (set as) (set_env e s) s1" "sb_cached s1 = as @ sb_cached s" "sb_usage s1 = sb_usage s" "sb_env s1 = e"
    "\<forall>a \<in> set as. fresh_for api d (sb_rq s1 a)"
    using batch_fold [OF assms, of off ts "set_env e s"] by (simp_all add: Let_def as_def s1_def)
  have "frame (set as) s s1" using frame_trans [OF frame_env [of "{}"] f(1)] by simp
  then have g1: "gain api busy d as s s1" using ok f by (simp add: gain_def)
  have step: "batch_loop api d nr s = (if mask = 0 then (nr, set_env e s)
      else if nr + length as < unat (ad_nr_tags d) then batch_loop api d (nr + length as) s1 else (nr + length as, s1))"
    by (subst batch_loop.simps) (simp add: g s1_def as_def ts_def Let_def)
  show ?case
  proof (cases "mask = 0")
    case True
    have "busy (sb_env s) \<subseteq> busy e" using ok(4) by blast
    from gain_env [OF this, of api d] show ?thesis using True step less.prems by (intro exI [of _ "[]"]) simp
  next
    case False
    then have ne: "0 < length as" using tag_bits_nonempty by (simp add: as_def ts_def)
    show ?thesis
    proof (cases "nr + length as < unat (ad_nr_tags d)")
      case True
      then obtain bs where "gain api busy d bs s1 s'" "sb_cached s' = bs @ sb_cached s1" "sb_usage s' = sb_usage s1"
        "n = nr + length as + length bs" "n \<le> unat (ad_nr_tags d)"
        using less.hyps [of "nr + length as" s1] ne step False less.prems by (auto simp: diff_less_mono2)
      then show ?thesis using gain_trans [OF g1] f(2,3) by (intro exI [of _ "bs @ as"]) simp
    next
      case last: False
      then have "n = nr + length as" "s' = s1" using step False less.prems by simp_all
      then show ?thesis using g1 f(2,3) ok(1) less.prems(2) by (intro exI [of _ as]) simp
    qed
  qed
qed

text \<open>The outcome of an allocation: the request, and further requests that have been cached with a reference each.\<close>

definition got :: "'e aapi \<Rightarrow> ('e \<Rightarrow> nat set) \<Rightarrow> blk_mq_alloc_data \<Rightarrow> nat option \<Rightarrow> 'e sub \<Rightarrow> 'e sub \<Rightarrow> bool" where
  "got api busy d r s s' \<longleftrightarrow> (\<exists>as. gain api busy d (case_option [] (\<lambda>a. [a]) r @ as) s s' \<and> sb_cached s' = as @ sb_cached s \<and>
     sb_usage s' = (sb_usage s)(ad_q d := sb_usage s (ad_q d) + int (length as)) \<and> (r = None \<longrightarrow> as = []))"

lemma got_none: "got api busy d None s s' \<longleftrightarrow> gain api busy d [] s s' \<and> sb_cached s' = sb_cached s \<and> sb_usage s' = sb_usage s"
  by (auto simp: got_def)

lemma got_env: "busy (sb_env s) \<subseteq> busy e \<Longrightarrow> got api busy d None s (set_env e s)"
  by (simp add: got_none gain_env)

lemma got_trans: "got api busy d None s s1 \<Longrightarrow> got api busy d r s1 s2 \<Longrightarrow> got api busy d r s s2"
  unfolding got_none using gain_trans [of api busy d "[]" s s1] by (auto simp: got_def)

lemma got_data: "ad_q d' = ad_q d \<Longrightarrow> ad_op d' = ad_op d \<Longrightarrow> ad_cmd_flags d' = ad_cmd_flags d \<Longrightarrow> got api busy d' r s s' = got api busy d r s s'"
  by (simp add: got_def gain_def)

lemma batch_got:
  assumes "aapi_ok api busy" and "placed api d" and "alloc_requests_batch api d s = (r, s')"
  shows "got api busy d r s s'"
proof -
  obtain n s1 where l: "batch_loop api d 0 s = (n, s1)" by force
  obtain as where as: "gain api busy d as s s1" "sb_cached s1 = as @ sb_cached s" "sb_usage s1 = sb_usage s" "n = length as"
    using batch_loop_gain [OF assms(1,2) l] by auto
  show ?thesis
  proof (cases as)
    case Nil
    then show ?thesis using as l assms(3) by (simp add: alloc_requests_batch_def got_none)
  next
    case (Cons a bs)
    define e where "e = (if RQF_SCHED_TAGS \<in> ad_rq_flags d then sb_env s1 else a_add_active api (ad_hctx d) n (sb_env s1))"
    have "busy (sb_env s1) \<subseteq> busy e" using assms(1) by (simp add: e_def aapi_ok_def)
    from gain_trans [OF as(1) gain_env [OF this]] have g: "gain api busy d as s (set_env e s1)" by simp
    have r: "r = Some a" "sb_cached s' = bs @ sb_cached s"
      "sb_usage s' = (sb_usage s)(ad_q d := sb_usage s (ad_q d) + int (length bs))"
      "sb_mq s' = (sb_mq s1)\<lparr>mq_env := e\<rparr>" "sb_blk s' = sb_blk s1" "sb_plug s' = sb_plug s1" "sb_nr_ios s' = sb_nr_ios s1"
      using assms(3) l as Cons by (auto simp: alloc_requests_batch_def Let_def e_def split: if_splits)
    have "frame (set as) s s'" by (rule frame_same [of _ _ "set_env e s1"]) (use g r in \<open>simp_all add: gain_def\<close>)
    then have "gain api busy d as s s'" using g r by (simp add: gain_def)
    then show ?thesis unfolding got_def using r Cons by (intro exI [of _ bs]) simp
  qed
qed

lemma single_got:
  assumes "aapi_ok api busy" and "placed api d" and "alloc_single api d s = (r, s')"
  shows "got api busy d r s s'"
proof -
  obtain t e where g: "a_get_tag api d (sb_env s) = (t, e)" by force
  then have b: "busy (sb_env s) \<subseteq> busy e" using assms(1) by (simp add: aapi_ok_def get_tag_ok_def)
  show ?thesis
  proof (cases t)
    case None
    then show ?thesis using g got_env [of busy s e, OF b] assms(3) by (simp add: alloc_single_def)
  next
    case (Some tag)
    define a where "a = tag_addr api d tag"
    define e1 where "e1 = (if RQF_SCHED_TAGS \<in> ad_rq_flags d then e else a_add_active api (ad_hctx d) 1 e)"
    define s1 where "s1 = set_rq a (blk_mq_rq_ctx_init api d tag (sb_rq (set_env e1 s) a)) (set_env e1 s)"
    have a: "a \<notin> busy (sb_env s)" "a \<in> busy e" using assms(1) g Some by (auto simp: aapi_ok_def get_tag_ok_def a_def)
    have e1: "busy e \<subseteq> busy e1" using assms(1) by (simp add: e1_def aapi_ok_def)
    have r: "r = Some a" "s' = s1"
      using assms(3) g Some by (auto simp: alloc_single_def Let_def e1_def s1_def a_def take_tag_addr split: if_splits)
    have "frame {a} s s1" unfolding s1_def using frame_trans [OF frame_env [of "{}"] frame_rq [of a "{a}"]] by simp
    then have "gain api busy d [a] s s1"
      using a b e1 ctx_init_fresh [OF assms(1,2)] by (auto simp: gain_def s1_def)
    then show ?thesis unfolding got_def r by (intro exI [of _ "[]"]) (simp add: s1_def)
  qed
qed

lemma limit_depth_same:
  assumes "blk_mq_limit_depth api d e = (d', e')"
  shows "ad_q d' = ad_q d" "ad_op d' = ad_op d" "ad_cmd_flags d' = ad_cmd_flags d" "ad_ctx d' = ad_ctx d" "ad_hctx d' = ad_hctx d"
    "ad_flags d' = ad_flags d" "ad_nr_tags d' = ad_nr_tags d" "e' = e \<or> e' = a_tag_busy api (ad_hctx d) e"
    "RQF_FLUSH_SEQ \<in> ad_rq_flags d' \<longleftrightarrow> RQF_FLUSH_SEQ \<in> ad_rq_flags d"
  using assms by (auto simp: blk_mq_limit_depth_def Let_def split: if_splits option.splits)

lemma place_got:
  assumes "aapi_ok api busy" and "alloc_place api d s = (d', s')" and "RQF_FLUSH_SEQ \<notin> ad_rq_flags d"
  shows "got api busy d None s s'" "placed api d'" "ad_q d' = ad_q d" "ad_op d' = ad_op d" "ad_cmd_flags d' = ad_cmd_flags d"
    "ad_flags d' = ad_flags d" "ad_nr_tags d' = ad_nr_tags d"
proof -
  let ?c = "a_get_ctx api (sb_env s) (ad_q d)"
  let ?d = "d\<lparr>ad_ctx := ?c, ad_hctx := a_map_queue api (ad_op d) (ad_cmd_flags d) ?c\<rparr>"
  obtain d2 e where l: "blk_mq_limit_depth api ?d (sb_env s) = (d2, e)" by force
  note same = limit_depth_same [OF l]
  have d': "d' = (if BLK_MQ_REQ_RESERVED \<in> ad_flags d2 then d2\<lparr>ad_rq_flags := insert RQF_RESV (ad_rq_flags d2)\<rparr> else d2)"
    and s': "s' = set_env e s" using assms(2) l by (auto simp: alloc_place_def Let_def)
  have "busy (sb_env s) \<subseteq> busy e" using same(8) assms(1) by (auto simp: aapi_ok_def)
  then show "got api busy d None s s'" unfolding s' by (rule got_env)
  show "placed api d'" using same assms(1,3) by (simp add: d' placed_def aapi_ok_def)
  show "ad_q d' = ad_q d" "ad_op d' = ad_op d" "ad_cmd_flags d' = ad_cmd_flags d" "ad_flags d' = ad_flags d" "ad_nr_tags d' = ad_nr_tags d"
    using same by (simp_all add: d')
qed

lemma try_got:
  assumes "aapi_ok api busy" and "alloc_try api d s = (r, d', s')" and "RQF_FLUSH_SEQ \<notin> ad_rq_flags d"
  shows "got api busy d r s s'" "ad_q d' = ad_q d" "ad_op d' = ad_op d" "ad_cmd_flags d' = ad_cmd_flags d" "ad_flags d' = ad_flags d"
    "RQF_FLUSH_SEQ \<notin> ad_rq_flags d'"
proof -
  obtain d1 s1 where p: "alloc_place api d s = (d1, s1)" by force
  note place = place_got [OF assms(1) p assms(3)]
  obtain r2 s2 where b: "(if 1 < ad_nr_tags d1 then alloc_requests_batch api d1 s1 else (None, s1)) = (r2, s2)" by force
  have "got api busy d1 None s1 s1" by (simp add: got_none gain_def frame_intro [where f = "sb_rq s1" and e = "sb_env s1"])
  then have "got api busy d1 r2 s1 s2" using b batch_got [OF assms(1) place(2)] by (auto split: if_splits)
  then have g2: "got api busy d r2 s s2" using got_trans [OF place(1)] got_data [of d1 d] place(3-5) by blast
  define d2 where "d2 = (if 1 < ad_nr_tags d1 then d1\<lparr>ad_nr_tags := 1\<rparr> else d1)"
  have d2: "placed api d2" "ad_q d2 = ad_q d" "ad_op d2 = ad_op d" "ad_cmd_flags d2 = ad_cmd_flags d" "ad_flags d2 = ad_flags d"
    using place by (simp_all add: d2_def placed_def)
  obtain r3 s3 where t: "alloc_single api d2 s2 = (r3, s3)" by force
  have eq: "(r, d', s') = (if r2 = None then (r3, d2, s3) else (r2, d1, s2))"
    using assms(2) p b t by (cases r2) (auto simp: alloc_try_def d2_def Let_def)
  have "r2 = None \<Longrightarrow> got api busy d r3 s s3"
    using g2 got_trans single_got [OF assms(1) d2(1) t] got_data [OF d2(2-4)] by blast
  then show "got api busy d r s s'" using g2 eq by (simp split: if_splits)
  show "ad_q d' = ad_q d" "ad_op d' = ad_op d" "ad_cmd_flags d' = ad_cmd_flags d" "ad_flags d' = ad_flags d"
    "RQF_FLUSH_SEQ \<notin> ad_rq_flags d'"
    using eq d2 place by (simp_all add: placed_def split: if_splits)
qed

lemma retry_got:
  assumes "aapi_ok api busy" and "RQF_FLUSH_SEQ \<notin> ad_rq_flags d"
  shows "alloc_retry api d s = Some (r, s') \<Longrightarrow> got api busy d r s s' \<and> (r = None \<longrightarrow> BLK_MQ_REQ_NOWAIT \<in> ad_flags d)"
proof -
  define P where "P api' d s y \<longleftrightarrow> (api' = api \<and> RQF_FLUSH_SEQ \<notin> ad_rq_flags d \<longrightarrow> got api busy d (fst y) s (snd y) \<and> (fst y = None \<longrightarrow> BLK_MQ_REQ_NOWAIT \<in> ad_flags d))"
    for api' :: "'a aapi" and d s and y :: "nat option \<times> 'a sub"
  assume ret: "alloc_retry api d s = Some (r, s')"
  have "P api d s (r, s')"
  proof (rule alloc_retry.raw_induct [where P = P, OF _ ret])
    fix f api' d s y
    assume IH: "\<And>api d s y. f api d s = Some y \<Longrightarrow> P api d s y"
      and eq: "(case alloc_try api' d s of
        (None, d, s1) \<Rightarrow> if BLK_MQ_REQ_NOWAIT \<in> ad_flags d then Some (None, s1)
          else f api' d (set_env (a_msleep api' (sb_env s1)) s1)
        | (Some a, d, s1) \<Rightarrow> Some (Some a, s1)) = Some y"
    show "P api' d s y" unfolding P_def
    proof
      assume "api' = api \<and> RQF_FLUSH_SEQ \<notin> ad_rq_flags d"
      then have a: "api' = api" and nf: "RQF_FLUSH_SEQ \<notin> ad_rq_flags d" by simp_all
      obtain r1 d1 s1 where t: "alloc_try api d s = (r1, d1, s1)" by (metis prod_cases3)
      note tg = try_got [OF assms(1) t nf]
      let ?s2 = "set_env (a_msleep api (sb_env s1)) s1"
      have "busy (sb_env s1) \<subseteq> busy (a_msleep api (sb_env s1))" using assms(1) by (simp add: aapi_ok_def)
      then have "got api busy d None s1 ?s2" by (rule got_env)
      then have g: "r1 = None \<Longrightarrow> got api busy d None s ?s2" using tg(1) got_trans [of api busy d s s1 None ?s2] by simp
      have "got api busy d (fst y) s (snd y) \<and> (fst y = None \<longrightarrow> BLK_MQ_REQ_NOWAIT \<in> ad_flags d)"
        if r: "r1 = None" "BLK_MQ_REQ_NOWAIT \<notin> ad_flags d1"
      proof -
        have "P api d1 ?s2 y" using IH eq t a r by simp
        then have y: "got api busy d1 (fst y) ?s2 (snd y)" "fst y = None \<longrightarrow> BLK_MQ_REQ_NOWAIT \<in> ad_flags d1" using tg(6) by (simp_all add: P_def)
        have "got api busy d (fst y) ?s2 (snd y)" using y(1) unfolding got_data [OF tg(2-4)] .
        then show ?thesis using got_trans [OF g [OF r(1)]] y(2) tg(5) by simp
      qed
      moreover have "y = (r1, s1)" if "r1 \<noteq> None \<or> BLK_MQ_REQ_NOWAIT \<in> ad_flags d1"
        using eq that unfolding a t by (cases r1) simp_all
      ultimately show "got api busy d (fst y) s (snd y) \<and> (fst y = None \<longrightarrow> BLK_MQ_REQ_NOWAIT \<in> ad_flags d)"
        using tg(1,5) by fastforce
    qed
  qed
  then show ?thesis using assms(2) by (simp add: P_def)
qed

lemma alloc_got:
  assumes "aapi_ok api busy" and "alloc_requests api d s = Some (r, s')" and "RQF_FLUSH_SEQ \<notin> ad_rq_flags d"
  shows "got api busy d r s s'" "r = None \<longrightarrow> BLK_MQ_REQ_NOWAIT \<in> ad_flags d \<or> REQ_NOWAIT \<in> ad_cmd_flags d"
proof -
  let ?d = "if REQ_NOWAIT \<in> ad_cmd_flags d then d\<lparr>ad_flags := insert BLK_MQ_REQ_NOWAIT (ad_flags d)\<rparr> else d"
  have "alloc_retry api ?d s = Some (r, s')" using assms(2) by (simp add: alloc_requests_def)
  from retry_got [OF assms(1) _ this] assms(3) have g: "got api busy ?d r s s'" and w: "r = None \<longrightarrow> BLK_MQ_REQ_NOWAIT \<in> ad_flags ?d" by auto
  have "got api busy ?d r s s' = got api busy d r s s'" by (rule got_data) simp_all
  then show "got api busy d r s s'" using g by simp
  show "r = None \<longrightarrow> BLK_MQ_REQ_NOWAIT \<in> ad_flags d \<or> REQ_NOWAIT \<in> ad_cmd_flags d" using w by auto
qed

section \<open>References on a queue\<close>

text \<open>The references on a queue that are not held by the requests cached in the plug.\<close>

definition refs :: "nat \<Rightarrow> 'e sub \<Rightarrow> int" where
  "refs q s = sb_usage s q - int (length (filter (\<lambda>a. rq_q (sb_rq s a) = q) (sb_cached s)))"

lemma refs_env [simp]: "refs q (set_env e s) = refs q s"
  by (simp add: refs_def)

lemma refs_usage [simp]: "refs q (add_usage q' n s) = refs q s + (if q = q' then n else 0)"
  by (simp add: refs_def)

text \<open>The cached requests: each once, unshared, in use, and in no queue; what is in a queue is in use.\<close>

definition cached_ok :: "'e aapi \<Rightarrow> 'e sub \<Rightarrow> bool" where
  "cached_ok api s \<longleftrightarrow> distinct (sb_cached s) \<and>
     (\<forall>a \<in> set (sb_cached s). a \<notin># all_rqs (a_q api) (sb_mq s) \<and> rq_ref (sb_rq s a) = 1)"

definition in_use :: "'e aapi \<Rightarrow> ('e \<Rightarrow> nat set) \<Rightarrow> 'e sub \<Rightarrow> bool" where
  "in_use api busy s \<longleftrightarrow> set (sb_cached s) \<subseteq> busy (sb_env s) \<and> set_mset (all_rqs (a_q api) (sb_mq s)) \<subseteq> busy (sb_env s)"

lemma got_refs:
  assumes "got api busy d r s s'" and "set (sb_cached s) \<subseteq> busy (sb_env s)"
  shows "refs q s' = refs q s"
proof -
  obtain as where as: "gain api busy d (case_option [] (\<lambda>a. [a]) r @ as) s s'" "sb_cached s' = as @ sb_cached s"
    "sb_usage s' = (sb_usage s)(ad_q d := sb_usage s (ad_q d) + int (length as))"
    using assms(1) by (auto simp: got_def)
  have "sb_rq s' a = sb_rq s a" if "a \<in> set (sb_cached s)" for a
    using that assms(2) as(1) by (auto simp: gain_def frame_def)
  then have "filter (\<lambda>a. rq_q (sb_rq s' a) = q) (sb_cached s) = filter (\<lambda>a. rq_q (sb_rq s a) = q) (sb_cached s)"
    by (intro filter_cong) auto
  moreover have "filter (\<lambda>a. rq_q (sb_rq s' a) = q) as = (if q = ad_q d then as else [])"
    using as(1) by (auto simp: gain_def fresh_rq_def intro: filter_True)
  ultimately show ?thesis using as by (simp add: refs_def)
qed

lemma got_keeps:
  assumes "got api busy d r s s'" and "in_use api busy s" and "cached_ok api s"
  shows "in_use api busy s'" "cached_ok api s'"
    and "r = Some a \<Longrightarrow> a \<notin> set (sb_cached s') \<and> a \<notin> busy (sb_env s) \<and> a \<in> busy (sb_env s') \<and> fresh_for api d (sb_rq s' a)"
proof -
  obtain as where as: "gain api busy d (case_option [] (\<lambda>a. [a]) r @ as) s s'" "sb_cached s' = as @ sb_cached s"
    using assms(1) by (auto simp: got_def)
  have all: "all_rqs (a_q api) (sb_mq s') = all_rqs (a_q api) (sb_mq s)" using as(1) frame_all_rqs by (auto simp: gain_def)
  have old: "sb_rq s' b = sb_rq s b" if "b \<in> set (sb_cached s)" for b
    using that assms(2) as(1) by (auto simp: gain_def frame_def in_use_def)
  show "in_use api busy s'" using as all assms(2) by (auto simp: gain_def in_use_def)
  have "a \<notin># all_rqs (a_q api) (sb_mq s)" if "a \<in> set as" for a using that as(1) assms(2) by (auto simp: gain_def in_use_def)
  moreover have "distinct (as @ sb_cached s)" using as(1) assms(2,3) by (auto simp: gain_def in_use_def cached_ok_def)
  ultimately show "cached_ok api s'" using as old all assms(3) by (auto simp: cached_ok_def gain_def fresh_rq_def)
  show "a \<notin> set (sb_cached s') \<and> a \<notin> busy (sb_env s) \<and> a \<in> busy (sb_env s') \<and> fresh_for api d (sb_rq s' a)" if "r = Some a"
    using that as assms(2) by (auto simp: gain_def in_use_def)
qed

text \<open>
  C19: The allocation of requests takes no reference it does not account for. Whether it allocates one
  request, a batch, or none, the references on every queue that are not held by cached requests stay the
  same: a batch takes one for each request it caches. The request it returns was not in use before, is
  not in the cache, belongs to the queue and carries the flags asked for; and there is none only when the
  caller must not wait.
\<close>

theorem alloc_requests_balanced:
  assumes "aapi_ok api busy" and "in_use api busy s" and "cached_ok api s" and "alloc_requests api d s = Some (r, s')"
    and "RQF_FLUSH_SEQ \<notin> ad_rq_flags d"
  shows "(\<forall>q. refs q s' = refs q s) \<and> in_use api busy s' \<and> cached_ok api s' \<and>
    (\<forall>a. r = Some a \<longrightarrow> a \<notin> busy (sb_env s) \<and> a \<notin> set (sb_cached s') \<and> fresh_for api d (sb_rq s' a)) \<and>
    (r = None \<longrightarrow> BLK_MQ_REQ_NOWAIT \<in> ad_flags d \<or> REQ_NOWAIT \<in> ad_cmd_flags d)"
  using alloc_got [OF assms(1,4,5)] got_refs got_keeps [OF _ assms(2,3)] assms(2) unfolding in_use_def by metis

text \<open>The data and the state before the next try, after a number of tries without a tag.\<close>

primrec failed_tries :: "'e aapi \<Rightarrow> nat \<Rightarrow> blk_mq_alloc_data \<Rightarrow> 'e sub \<Rightarrow> blk_mq_alloc_data \<times> 'e sub" where
  "failed_tries api 0 d s = (d, s)"
| "failed_tries api (Suc n) d s =
     (case alloc_try api d s of (r, d1, s1) \<Rightarrow> failed_tries api n d1 (set_env (a_msleep api (sb_env s1)) s1))"

lemma retry_returns:
  "fst (case_prod (alloc_try api) (failed_tries api n d s)) \<noteq> None \<Longrightarrow> \<exists>r s'. alloc_retry api d s = Some (r, s')"
proof (induction n arbitrary: d s)
  case 0
  obtain r d1 s1 where t: "alloc_try api d s = (r, d1, s1)" by (metis prod_cases3)
  then show ?case using 0 by (subst alloc_retry.simps) auto
next
  case (Suc n)
  obtain r d1 s1 where t: "alloc_try api d s = (r, d1, s1)" by (metis prod_cases3)
  have "\<exists>r s'. alloc_retry api d1 (set_env (a_msleep api (sb_env s1)) s1) = Some (r, s')"
    by (rule Suc.IH) (use Suc.prems t in simp)
  then show ?case using t by (subst alloc_retry.simps) (auto split: option.split)
qed

text \<open>
  An allocation that must not wait returns at once. One that may wait returns as soon as one of its
  tries finds a tag, however many tries have failed before, and it returns a request.
\<close>

theorem alloc_requests_returns:
  assumes "aapi_ok api busy" and "RQF_FLUSH_SEQ \<notin> ad_rq_flags d"
    and "BLK_MQ_REQ_NOWAIT \<in> ad_flags d \<or> REQ_NOWAIT \<in> ad_cmd_flags d \<or>
      fst (case_prod (alloc_try api) (failed_tries api n d s)) \<noteq> None"
  shows "\<exists>r s'. alloc_requests api d s = Some (r, s') \<and>
    (BLK_MQ_REQ_NOWAIT \<notin> ad_flags d \<and> REQ_NOWAIT \<notin> ad_cmd_flags d \<longrightarrow> r \<noteq> None)"
proof -
  let ?d = "if REQ_NOWAIT \<in> ad_cmd_flags d then d\<lparr>ad_flags := insert BLK_MQ_REQ_NOWAIT (ad_flags d)\<rparr> else d"
  have "\<exists>r s'. alloc_retry api ?d s = Some (r, s')"
  proof (cases "BLK_MQ_REQ_NOWAIT \<in> ad_flags ?d")
    case True
    obtain r d1 s1 where t: "alloc_try api ?d s = (r, d1, s1)" by (metis prod_cases3)
    then have "BLK_MQ_REQ_NOWAIT \<in> ad_flags d1" using try_got(5) [OF assms(1) t] True assms(2) by simp
    then show ?thesis using t by (subst alloc_retry.simps) (auto split: option.split)
  next
    case False
    then show ?thesis using assms(3) retry_returns [of api n d s] by (auto split: if_splits)
  qed
  then show ?thesis using alloc_got(2) [OF assms(1) _ assms(2)] by (fastforce simp: alloc_requests_def)
qed

section \<open>Freeing\<close>

text \<open>\<open>blk_mq_sched_restart\<close> may run the queue: requests that are in no queue are left alone.\<close>

definition restart_ok :: "'e aapi \<Rightarrow> bool" where
  "restart_ok api \<longleftrightarrow> (\<forall>h m. deliver (a_q api) [] m [] (a_sched_restart api h m) \<and>
     (\<forall>b. b \<notin># all_rqs (a_q api) m \<longrightarrow> rq_ref (mq_rq (a_sched_restart api h m) b) = rq_ref (mq_rq m b)))"

lemma free_request_laws:
  assumes "restart_ok api" and "cached_ok api s" and "a \<notin> set (sb_cached s)" and "rq_ref (sb_rq s a) = 1"
  shows "sb_cached (blk_mq_free_request api a s) = sb_cached s" "cached_ok api (blk_mq_free_request api a s)"
    "refs p (blk_mq_free_request api a s) = refs p s - (if p = rq_q (sb_rq s a) then 1 else 0)"
    "b \<in> set (sb_cached s) \<Longrightarrow> rq_q (sb_rq (blk_mq_free_request api a s) b) = rq_q (sb_rq s b)"
    "sb_blk (blk_mq_free_request api a s) = sb_blk s" "sb_plug (blk_mq_free_request api a s) = sb_plug s"
    "all_rqs (a_q api) (sb_mq (blk_mq_free_request api a s)) = all_rqs (a_q api) (sb_mq s)"
proof -
  define r where "r = (blk_mq_finish_request (sb_rq s a))\<lparr>rq_state := MQ_RQ_IDLE, rq_ref := 0\<rparr>"
  define s' where "s' = blk_mq_free_request api a s"
  have f: "s' = free_request api a (set_rq a r s)"
    using assms(4) by (simp add: s'_def blk_mq_free_request_def r_def blk_mq_finish_request_def Let_def)
  obtain e where e: "sb_mq s' = a_sched_restart api (rq_mq_hctx r) ((put_rq a r (sb_mq s))\<lparr>mq_env := e\<rparr>)"
    by (simp add: f free_request_def Let_def)
  have q: "rq_q r = rq_q (sb_rq s a)" by (simp add: r_def blk_mq_finish_request_def)
  have d: "deliver (a_q api) [] ((put_rq a r (sb_mq s))\<lparr>mq_env := e\<rparr>) [] (sb_mq s')" using assms(1) e by (simp add: restart_ok_def)
  then have all: "all_rqs (a_q api) (sb_mq s') = all_rqs (a_q api) (sb_mq s)" by (simp add: deliver_def)
  have b: "same_work (sb_rq s b) (sb_rq s' b)" "rq_ref (sb_rq s' b) = rq_ref (sb_rq s b)" if "b \<in> set (sb_cached s)" for b
  proof -
    have b: "b \<notin># all_rqs (a_q api) (sb_mq s)" "b \<noteq> a" using that assms(2,3) by (auto simp: cached_ok_def)
    have "same_work (mq_rq ((put_rq a r (sb_mq s))\<lparr>mq_env := e\<rparr>) b) (sb_rq s' b)" using d b(1) unfolding deliver_def all by blast
    then show "same_work (sb_rq s b) (sb_rq s' b)" using b(2) by simp
    show "rq_ref (sb_rq s' b) = rq_ref (sb_rq s b)" using assms(1) e b by (simp add: restart_ok_def)
  qed
  have c: "sb_cached s' = sb_cached s" by (simp add: f free_request_def Let_def)
  have "filter (\<lambda>a. rq_q (sb_rq s' a) = p) (sb_cached s) = filter (\<lambda>a. rq_q (sb_rq s a) = p) (sb_cached s)"
    using b(1) by (intro filter_cong) (auto simp: same_work_def)
  moreover have "sb_usage s' = (sb_usage s)(rq_q r := sb_usage s (rq_q r) - 1)" by (simp add: f free_request_def Let_def)
  ultimately show "refs p (blk_mq_free_request api a s) = refs p s - (if p = rq_q (sb_rq s a) then 1 else 0)"
    using c q by (simp add: refs_def flip: s'_def)
  show "sb_cached (blk_mq_free_request api a s) = sb_cached s" using c by (simp add: s'_def)
  show "cached_ok api (blk_mq_free_request api a s)" using assms(2) c all b(2) by (simp add: cached_ok_def flip: s'_def)
  show "b \<in> set (sb_cached s) \<Longrightarrow> rq_q (sb_rq (blk_mq_free_request api a s) b) = rq_q (sb_rq s b)"
    using b(1) by (simp add: same_work_def flip: s'_def)
  show "sb_blk (blk_mq_free_request api a s) = sb_blk s" "sb_plug (blk_mq_free_request api a s) = sb_plug s"
    by (simp_all add: f free_request_def Let_def flip: s'_def)
  show "all_rqs (a_q api) (sb_mq (blk_mq_free_request api a s)) = all_rqs (a_q api) (sb_mq s)" using all by (simp add: s'_def)
qed

text \<open>One request taken from the cache is one reference that the cache no longer holds.\<close>

lemma refs_pop: "sb_cached s = a # rest \<Longrightarrow> refs p (s\<lparr>sb_cached := rest\<rparr>) = refs p s + (if p = rq_q (sb_rq s a) then 1 else 0)"
  by (simp add: refs_def)

lemma cached_pop:
  assumes "cached_ok api s" and "sb_cached s = a # rest"
  shows "cached_ok api (s\<lparr>sb_cached := rest\<rparr>)" "a \<notin> set rest" "rq_ref (sb_rq s a) = 1"
  using assms by (simp_all add: cached_ok_def)

text \<open>
  Freeing the cached requests of a plug empties the cache and drops exactly the references its
  requests held: on every queue the count that is left is what others hold.
\<close>

theorem free_plug_rqs_balanced:
  assumes "restart_ok api" and "cached_ok api s"
  shows "sb_cached (blk_mq_free_plug_rqs api s) = [] \<and> (\<forall>q. sb_usage (blk_mq_free_plug_rqs api s) q = refs q s)"
proof -
  have "cached_ok api s \<Longrightarrow> sb_cached s = as \<Longrightarrow>
      sb_cached (free_cached api as s) = [] \<and> (\<forall>q. sb_usage (free_cached api as s) q = refs q s)" for as
  proof (induction as arbitrary: s)
    case Nil
    then show ?case by (simp add: refs_def)
  next
    case (Cons a as)
    note pop = cached_pop [OF Cons.prems]
    have n: "a \<notin> set (sb_cached (s\<lparr>sb_cached := as\<rparr>))" "rq_ref (sb_rq (s\<lparr>sb_cached := as\<rparr>) a) = 1" using pop by simp_all
    note free = free_request_laws [OF assms(1) pop(1) n]
    show ?case using Cons.IH [OF free(2)] free(1,3) refs_pop [OF Cons.prems(2)] by simp
  qed
  then show ?thesis using assms(2) by (simp add: blk_mq_free_plug_rqs_def)
qed

section \<open>Allocating one request\<close>

text \<open>A request in hand: one reference of its own, and out of the cache.\<close>

definition handed :: "'e aapi \<Rightarrow> nat \<Rightarrow> nat \<Rightarrow> 'e sub \<Rightarrow> 'e sub \<Rightarrow> bool" where
  "handed api q a s s' \<longleftrightarrow> cached_ok api s' \<and> a \<notin> set (sb_cached s') \<and> rq_ref (sb_rq s' a) = 1 \<and> rq_q (sb_rq s' a) = q \<and>
     (\<forall>p. refs p s' = refs p s + (if p = q then 1 else 0))"

lemma upd_handed:
  assumes "handed api q a s s'" and "rq_ref r = 1" and "rq_q r = q"
  shows "handed api q a s (set_rq a r s')"
proof -
  have "filter (\<lambda>b. rq_q (((sb_rq s')(a := r)) b) = p) (sb_cached s') = filter (\<lambda>b. rq_q (sb_rq s' b) = p) (sb_cached s')" for p
    using assms(1) by (intro filter_cong) (auto simp: handed_def)
  then have "refs p (set_rq a r s') = refs p s'" for p by (simp add: refs_def)
  then show ?thesis using assms by (auto simp: handed_def cached_ok_def)
qed

lemma handed_free:
  assumes "restart_ok api" and "handed api q a s s'"
  shows "refs p (blk_mq_free_request api a s') = refs p s"
  using free_request_laws(3) [OF assms(1), of s' a p] assms(2) by (simp add: handed_def)

lemma clear_handed: "handed api q a s s' \<Longrightarrow> handed api q a s (clear_rq a s')"
  unfolding clear_rq_def by (rule upd_handed) (simp_all add: handed_def)

lemma opf_handed: "handed api q a s s' \<Longrightarrow> handed api q a s (set_opf a op opf s')"
  unfolding set_opf_def by (rule upd_handed) (simp_all add: handed_def)

lemma enter_laws:
  assumes "aapi_ok api busy" and "queue_enter api q flags s = (ret, s')"
  shows "refs p s' = refs p s + (if ret = 0 \<and> p = q then 1 else 0)" "in_use api busy s \<Longrightarrow> in_use api busy s'"
    "cached_ok api s' = cached_ok api s" "sb_cached s' = sb_cached s"
proof -
  obtain e where e: "a_queue_enter api q flags (sb_env s) = (ret, e)"
    and s': "s' = (if ret = 0 then add_usage q 1 (set_env e s) else set_env e s)"
    using assms(2) by (auto simp: queue_enter_def split: prod.splits)
  have "busy (sb_env s) \<subseteq> busy e" using assms(1) e by (metis aapi_ok_def snd_conv)
  then show "in_use api busy s \<Longrightarrow> in_use api busy s'" by (auto simp: s' in_use_def)
  show "refs p s' = refs p s + (if ret = 0 \<and> p = q then 1 else 0)" "cached_ok api s' = cached_ok api s" "sb_cached s' = sb_cached s"
    by (simp_all add: s' cached_ok_def)
qed

text \<open>Entering the queue, an allocation, and leaving the queue when there is none.\<close>

lemma enter_alloc:
  assumes "aapi_ok api busy" and "in_use api busy s" and "cached_ok api s" and "queue_enter api q flags s = (0, s1)"
    and "sb_cached s2 = sb_cached s1" "sb_mq s2 = sb_mq s1" "sb_usage s2 = sb_usage s1"
    and "alloc_requests api d s2 = Some (r, s3)" and "ad_q d = q" and "RQF_FLUSH_SEQ \<notin> ad_rq_flags d"
  shows "r = Some a \<Longrightarrow> handed api q a s s3" "r = None \<Longrightarrow> refs p (add_usage q (- 1) s3) = refs p s"
    "cached_ok api s3" "in_use api busy s3"
proof -
  note enter = enter_laws [OF assms(1,4)]
  have s2: "in_use api busy s2" "cached_ok api s2" using enter(2,3) assms(2,3,5,6) by (simp_all add: in_use_def cached_ok_def)
  have r2: "refs p s2 = refs p s + (if p = q then 1 else 0)" for p using enter(1) [of p] assms(5,6,7) by (simp add: refs_def)
  note g = alloc_got(1) [OF assms(1,8,10)]
  note keeps = got_keeps [OF g s2]
  have r3: "refs p s3 = refs p s + (if p = q then 1 else 0)" for p using got_refs [OF g] s2(1) r2 by (simp add: in_use_def)
  show "r = Some a \<Longrightarrow> handed api q a s s3" using keeps r3 assms(9) by (auto simp: handed_def fresh_rq_def)
  show "r = None \<Longrightarrow> refs p (add_usage q (- 1) s3) = refs p s" using r3 by simp
  show "cached_ok api s3" "in_use api busy s3" using keeps by simp_all
qed

lemma cached_request_laws:
  assumes "aapi_ok api busy" and "in_use api busy s" and "cached_ok api s"
    and "blk_mq_alloc_cached_request api q op opf flags s = Some (r, s')"
  shows "(\<forall>a. r = Some a \<longrightarrow> handed api q a s s') \<and>
    (r = None \<longrightarrow> (\<forall>p. refs p s' = refs p s) \<and> in_use api busy s' \<and> cached_ok api s')"
proof (cases "sb_plug s = None \<or> (sb_cached s = [] \<and> sb_nr_ios s = 1)")
  case True
  then have "blk_mq_alloc_cached_request api q op opf flags s = Some (None, s)" by (auto simp: blk_mq_alloc_cached_request_def)
  then show ?thesis using assms by simp
next
  case False
  show ?thesis
  proof (cases "sb_cached s")
    case (Cons a rest)
    have "handed api q a s (s\<lparr>sb_cached := rest\<rparr>)" if "rq_q (sb_rq s a) = q"
      using that cached_pop [OF assms(3) Cons] refs_pop [OF Cons] by (simp add: handed_def)
    then show ?thesis
      using assms False Cons opf_handed by (auto simp: blk_mq_alloc_cached_request_def Let_def split: if_splits)
  next
    case Nil
    then obtain r1 s1 where fill: "blk_mq_rq_cache_fill api q op opf flags s = Some (r1, s1)"
      and s': "r = r1" "s' = (case r1 of None \<Rightarrow> s1 | Some a \<Rightarrow> set_opf a op opf s1)"
      using assms(4) False by (auto simp: blk_mq_alloc_cached_request_def split: option.splits)
    obtain ret s2 where e: "queue_enter api q flags s = (ret, s2)" by force
    note enter = enter_laws [OF assms(1) e]
    show ?thesis
    proof (cases "ret = 0")
      case False
      then have "r1 = None" "s1 = s2" using fill e by (simp_all add: blk_mq_rq_cache_fill_def Let_def)
      then show ?thesis using s' enter(1) enter(2) [OF assms(2)] enter(3) assms(3) False by simp
    next
      case True
      let ?d = "alloc_data q flags op opf (ucast (sb_nr_ios s))"
      obtain s3 where al: "alloc_requests api ?d (s2\<lparr>sb_nr_ios := 1\<rparr>) = Some (r1, s3)"
        and s1: "s1 = (if r1 = None then add_usage q (- 1) s3 else s3)"
        using fill e True by (auto simp: blk_mq_rq_cache_fill_def Let_def split: option.splits)
      have d: "ad_q ?d = q" "RQF_FLUSH_SEQ \<notin> ad_rq_flags ?d" by (simp_all add: alloc_data_def)
      note ea = enter_alloc [OF assms(1-3) e [unfolded True] _ _ _ al d, simplified]
      have "in_use api busy (add_usage q (- 1) s3)" "cached_ok api (add_usage q (- 1) s3)"
        using ea(3,4) by (simp_all add: in_use_def cached_ok_def)
      then show ?thesis using ea s1 s' opf_handed by (cases r1) auto
    qed
  qed
qed

text \<open>
  Allocating one request is balanced by freeing it, and an allocation that fails leaves nothing
  behind: \<open>blk_mq_alloc_request\<close> takes one reference on the queue for the request it returns, from the
  cache of the plug or by entering the queue, none on any other queue, and \<open>blk_mq_free_request\<close> gives it
  back; after an error the references are what they were.
\<close>

theorem alloc_free_balanced:
  assumes "aapi_ok api busy" and "restart_ok api" and "in_use api busy s" and "cached_ok api s"
    and "blk_mq_alloc_request api q op opf flags s = Some (r, s')"
  shows "case r of
      Inl err \<Rightarrow> \<forall>p. refs p s' = refs p s
    | Inr a \<Rightarrow> (\<forall>p. refs p s' = refs p s + (if p = q then 1 else 0)) \<and> (\<forall>p. refs p (blk_mq_free_request api a s') = refs p s)"
proof -
  have hand: ?thesis if "r = Inr a" "s' = clear_rq a s3" "handed api q a s s3" for a s3
    using that handed_free [OF assms(2)] clear_handed [OF that(3)] by (simp add: handed_def)
  obtain r1 s1 where c: "blk_mq_alloc_cached_request api q op opf flags s = Some (r1, s1)"
    using assms(5) by (auto simp: blk_mq_alloc_request_def split: option.splits)
  note cached = cached_request_laws [OF assms(1,3,4) c]
  show ?thesis
  proof (cases r1)
    case (Some a)
    then have "r = Inr a" "s' = clear_rq a s1" using c assms(5) by (simp_all add: blk_mq_alloc_request_def)
    then show ?thesis using hand cached Some by blast
  next
    case None
    then have s1: "refs p s1 = refs p s" "in_use api busy s1" "cached_ok api s1" for p using cached by auto
    obtain ret s2 where e: "queue_enter api q flags s1 = (ret, s2)" by force
    show ?thesis
    proof (cases "ret = 0")
      case False
      then have "r = Inl ret" "s' = s2" using assms(5) c None e by (simp_all add: blk_mq_alloc_request_def)
      then show ?thesis using enter_laws(1) [OF assms(1) e] s1(1) False by simp
    next
      case True
      have d: "ad_q (alloc_data q flags op opf 1) = q" "RQF_FLUSH_SEQ \<notin> ad_rq_flags (alloc_data q flags op opf 1)" by (simp_all add: alloc_data_def)
      obtain r3 s3 where al: "alloc_requests api (alloc_data q flags op opf 1) s2 = Some (r3, s3)"
        using assms(5) c None e True by (auto simp: blk_mq_alloc_request_def split: option.splits)
      note ea = enter_alloc [OF assms(1) s1(2,3) e [unfolded True] refl refl refl al d]
      have eq: "(r, s') = (case r3 of None \<Rightarrow> (Inl (- EWOULDBLOCK), add_usage q (- 1) s3) | Some a \<Rightarrow> (Inr a, clear_rq a s3))"
        using assms(5) c None e True al by (auto simp: blk_mq_alloc_request_def split: option.splits)
      show ?thesis
      proof (cases r3)
        case None
        then show ?thesis using eq ea(2) s1(1) by simp
      next
        case (Some a)
        then have "handed api q a s s3" using ea(1) s1(1) by (simp add: handed_def)
        moreover have "r = Inr a" "s' = clear_rq a s3" using Some eq by simp_all
        ultimately show ?thesis using hand by blast
      qed
    qed
  qed
qed

text \<open>An allocation on a given hardware queue: the same balance, and every error leaves the references alone.\<close>

theorem alloc_hctx_balanced:
  assumes "aapi_ok api busy" and "restart_ok api" and "in_use api busy s" and "cached_ok api s"
    and "hctx_idx < length (a_queue_hw_ctx api q) \<longrightarrow> a_queue_hw_ctx api q ! hctx_idx < q_nr_hw (a_q api)"
    and "\<forall>e h c. a_first_online_ctx api e q h = Some c \<longrightarrow> c < q_nr_ctx (a_q api)"
    and "blk_mq_alloc_request_hctx api q op opf flags hctx_idx s = (r, s')"
  shows "case r of
      Inl err \<Rightarrow> \<forall>p. refs p s' = refs p s
    | Inr a \<Rightarrow> BLK_MQ_REQ_NOWAIT \<in> flags \<and> hctx_idx < length (a_queue_hw_ctx api q) \<and> (\<forall>p. refs p (blk_mq_free_request api a s') = refs p s)"
proof (cases "BLK_MQ_REQ_NOWAIT \<notin> flags \<or> BLK_MQ_REQ_RESERVED \<notin> flags \<or> length (a_queue_hw_ctx api q) \<le> hctx_idx")
  case True
  then show ?thesis using assms(7) by (auto simp: blk_mq_alloc_request_hctx_def split: if_splits)
next
  case guard: False
  obtain ret s1 where e: "queue_enter api q flags s = (ret, s1)" by force
  note enter = enter_laws [OF assms(1) e]
  define h where "h = a_queue_hw_ctx api q ! hctx_idx"
  show ?thesis
  proof (cases "ret \<noteq> 0 \<or> \<not> a_mapped api h \<or> a_first_online_ctx api (sb_env s1) q h = None")
    case True
    then show ?thesis using assms(7) guard e enter(1) by (auto simp: blk_mq_alloc_request_hctx_def h_def Let_def split: if_splits)
  next
    case False
    then obtain c where c: "ret = 0" "a_mapped api h" "a_first_online_ctx api (sb_env s1) q h = Some c" by auto
    define rf where "rf = (if q_has_elevator (a_q api) q then {RQF_SCHED_TAGS} else {})"
    define e1 where "e1 = (if q_has_elevator (a_q api) q then sb_env s1 else a_tag_busy api h (sb_env s1))"
    define d where "d = (alloc_data q flags op opf 1)\<lparr>ad_ctx := c, ad_hctx := h, ad_rq_flags := insert RQF_RESV rf\<rparr>"
    obtain r2 s2 where t: "alloc_single api d (set_env e1 s1) = (r2, s2)" by force
    have d: "ad_q d = q" "placed api d" using assms(5,6) guard c(3) by (simp_all add: d_def alloc_data_def placed_def h_def rf_def)
    have "busy (sb_env s1) \<subseteq> busy e1" using assms(1) by (simp add: e1_def aapi_ok_def)
    from got_trans [OF got_env [OF this] single_got [OF assms(1) d(2) t]] have g: "got api busy d r2 s1 s2" .
    have s1: "in_use api busy s1" "cached_ok api s1" using enter(2,3) assms(3,4) by simp_all
    note keeps = got_keeps [OF g s1]
    have r2: "refs p s2 = refs p s + (if p = q then 1 else 0)" for p
      using got_refs [OF g] s1(1) enter(1) c(1) by (simp add: in_use_def)
    have eq: "(r, s') = (case r2 of None \<Rightarrow> (Inl (- EWOULDBLOCK), add_usage q (- 1) s2) | Some a \<Rightarrow> (Inr a, clear_rq a s2))"
      using assms(7) guard e c t by (simp add: blk_mq_alloc_request_hctx_def Let_def h_def [symmetric] rf_def e1_def d_def split: if_splits option.splits)
    show ?thesis
    proof (cases r2)
      case None
      then show ?thesis using eq r2 by simp
    next
      case (Some a)
      then have "handed api q a s s2" using keeps r2 d(1) by (auto simp: handed_def fresh_rq_def)
      then show ?thesis using eq Some guard handed_free [OF assms(2) clear_handed] by simp
    qed
  qed
qed

section \<open>A concrete allocator\<close>

text \<open>The environment counts the tags handed out; the request of a tag is at address 100 plus the tag.\<close>

definition demo_aapi :: "nat aapi" where
  "demo_aapi = \<lparr>a_u = demo_uapi, a_q = demo_qapi, a_get_ctx = (\<lambda>e q. 0), a_map_queue = (\<lambda>op f c. 0), a_op_passthrough = (\<lambda>op. False),
     a_tag_busy = (\<lambda>h e. e), a_limit_depth = None,
     a_get_tags = (\<lambda>d n e. if n < 2 \<or> 8 < e then ((0, 0), e) else ((3, e), e + 2)),
     a_get_tag = (\<lambda>d e. if 9 < e then (None, e) else (Some e, e + 1)), a_put_tag = (\<lambda>h sched c t e. e),
     a_static_rqs = (\<lambda>h sched t. 100 + t), a_prepare_request = None, a_add_active = (\<lambda>h n e. e), a_dec_active = (\<lambda>h e. e),
     a_sched_restart = (\<lambda>h m. m), a_msleep = (\<lambda>e. e), a_queue_enter = (\<lambda>q f e. (0, e)), a_queue_hw_ctx = (\<lambda>q. [0]),
     a_mapped = (\<lambda>h. True), a_first_online_ctx = (\<lambda>e q h. Some 0)\<rparr>"

definition demo_busy :: "nat \<Rightarrow> nat set" where
  "demo_busy e = {..<100 + e}"

definition demo_nmq :: "nat mq" where
  "demo_nmq = \<lparr>mq_rq = (\<lambda>a. demo_rq (of_nat a * 256)), mq_dispatch = (\<lambda>h. []), mq_sw = (\<lambda>k. []), mq_ctx_map = (\<lambda>h. {}),
     mq_elv = [], mq_requeue = (\<lambda>q. []), mq_flush = (\<lambda>q. []), mq_kicked = [], mq_issued = [], mq_ended = [], mq_told = [], mq_busy = (\<lambda>h. 0),
     mq_restart = (\<lambda>h. False), mq_waiting = (\<lambda>h. False), mq_work = [], mq_env = 0\<rparr>"

definition demo_sub :: "nat sub" where
  "demo_sub = \<lparr>sb_blk = demo_blk, sb_mq = demo_nmq, sb_plug = Some \<lparr>pl_rqs = [], pl_count = 0, pl_multiple = False, pl_elevator = False\<rparr>,
     sb_cached = [7], sb_nr_ios = 4, sb_usage = (\<lambda>q. 1)\<rparr>"

lemma demo_tag_bits: "tag_bits 0 3 = [0, 1]"
  by (simp add: tag_bits_filter upt_conv_Cons bit_numeral_rec)

lemma demo_aapi_ok: "aapi_ok demo_aapi demo_busy"
  by (auto simp: aapi_ok_def get_tags_ok_def get_tag_ok_def demo_aapi_def demo_busy_def tag_addr_def demo_qapi_def demo_tag_bits
      tag_bits_filter [of 0 0] split: if_splits)

lemma demo_sub_ok: "in_use demo_aapi demo_busy demo_sub" "cached_ok demo_aapi demo_sub" "restart_ok demo_aapi"
  by (simp_all add: in_use_def cached_ok_def restart_ok_def demo_sub_def demo_nmq_def demo_busy_def demo_aapi_def all_rqs_def
      demo_qapi_def demo_rq_def)

abbreviation demo_data :: blk_mq_alloc_data where
  "demo_data \<equiv> alloc_data 0 {} REQ_OP_READ {} 2"

lemma demo_batch: "batch_loop demo_aapi (demo_data\<lparr>ad_ctx := 0, ad_hctx := 0\<rparr>) 0 demo_sub =
    (2, fold (\<lambda>i. batch_add demo_aapi (demo_data\<lparr>ad_ctx := 0, ad_hctx := 0\<rparr>) (0 + i)) [0, 1] (set_env 2 demo_sub))"
proof -
  have "a_get_tags demo_aapi d 2 (sb_env demo_sub) = ((3, 0), 2)" for d by (simp add: demo_aapi_def demo_sub_def demo_nmq_def)
  then show ?thesis by (subst batch_loop.simps) (simp add: alloc_data_def demo_tag_bits)
qed

lemma demo_try: "fst (alloc_try demo_aapi demo_data demo_sub) = Some 101"
proof -
  have "alloc_place demo_aapi demo_data demo_sub = (demo_data\<lparr>ad_ctx := 0, ad_hctx := 0\<rparr>, demo_sub)"
    by (simp add: alloc_place_def blk_mq_limit_depth_def demo_aapi_def demo_qapi_def alloc_data_def set_env_def)
  moreover have "fst (alloc_requests_batch demo_aapi (demo_data\<lparr>ad_ctx := 0, ad_hctx := 0\<rparr>) demo_sub) = Some 101"
    unfolding alloc_requests_batch_def demo_batch
    by (simp add: Let_def tag_addr_def demo_aapi_def alloc_data_def)
  ultimately show ?thesis by (auto simp: alloc_try_def alloc_data_def split: prod.split option.split)
qed

theorem alloc_requests_balanced_witness:
  "\<exists>r s'. alloc_requests demo_aapi demo_data demo_sub = Some (r, s') \<and> refs 0 s' = 0 \<and> r \<noteq> None"
proof -
  have "\<exists>r s'. alloc_retry demo_aapi demo_data demo_sub = Some (r, s')"
    using retry_returns [of demo_aapi 0 demo_data demo_sub] demo_try by simp
  then obtain r s' where a: "alloc_requests demo_aapi demo_data demo_sub = Some (r, s')"
    by (auto simp: alloc_requests_def alloc_data_def)
  have "refs 0 demo_sub = 0" by (simp add: refs_def demo_sub_def demo_nmq_def demo_rq_def)
  then show ?thesis
    using alloc_requests_balanced [OF demo_aapi_ok demo_sub_ok(1,2) a] a by (auto simp: alloc_data_def)
qed

theorem alloc_requests_returns_witness:
  "\<exists>r s'. alloc_requests demo_aapi demo_data demo_sub = Some (r, s') \<and> r \<noteq> None"
  using alloc_requests_returns [OF demo_aapi_ok, of demo_data 0 demo_sub] demo_try by (auto simp: alloc_data_def)

theorem free_plug_rqs_balanced_witness: "sb_usage (blk_mq_free_plug_rqs demo_aapi demo_sub) 0 = 0"
  using free_plug_rqs_balanced [OF demo_sub_ok(3,2)] by (simp add: refs_def demo_sub_def demo_nmq_def demo_rq_def)

lemma demo_alloc_request:
  "blk_mq_alloc_request demo_aapi 0 REQ_OP_READ {REQ_RAHEAD} {} demo_sub =
     Some (Inr 7, clear_rq 7 (set_opf 7 REQ_OP_READ {REQ_RAHEAD} (demo_sub\<lparr>sb_cached := []\<rparr>)))"
  by (simp add: blk_mq_alloc_request_def blk_mq_alloc_cached_request_def demo_sub_def demo_aapi_def demo_uapi_def demo_nmq_def demo_rq_def Let_def)

theorem alloc_free_balanced_witness:
  "refs 0 (blk_mq_free_request demo_aapi 7 (clear_rq 7 (set_opf 7 REQ_OP_READ {REQ_RAHEAD} (demo_sub\<lparr>sb_cached := []\<rparr>)))) =
     refs 0 demo_sub"
  using alloc_free_balanced [OF demo_aapi_ok demo_sub_ok(3,1,2) demo_alloc_request] by simp

theorem alloc_hctx_balanced_witness:
  "refs 0 (snd (blk_mq_alloc_request_hctx demo_aapi 0 REQ_OP_READ {} {BLK_MQ_REQ_NOWAIT, BLK_MQ_REQ_RESERVED} 3 demo_sub)) = refs 0 demo_sub"
proof -
  have "blk_mq_alloc_request_hctx demo_aapi 0 REQ_OP_READ {} {BLK_MQ_REQ_NOWAIT, BLK_MQ_REQ_RESERVED} 3 demo_sub = (Inl (- EIO), demo_sub)"
    by (simp add: blk_mq_alloc_request_hctx_def demo_aapi_def)
  from alloc_hctx_balanced [OF demo_aapi_ok demo_sub_ok(3,1,2) _ _ this] show ?thesis
    by (simp add: demo_aapi_def demo_qapi_def blk_mq_alloc_request_hctx_def)
qed

end
