(* ===== verification/SubmitFlow.thy ===== *)
theory SubmitFlow
  imports AllocLaws
begin

text \<open>
  The submission of a descriptor as a whole (\<open>blk_mq_submit_bio\<close> of
  \<open>readaround-split/src/block/blk-mq.c\<close>): checks, splitting, merging, a cached or a new request, and
  its way to the plug list, the queues or the driver. What the function takes from headers and other
  files is the record \<open>fapi\<close>; \<open>__bio_split_to_limits\<close>, a switch in a header over the functions of theory
  \<open>BlockSplit\<close>, is its field \<open>f_split\<close>. What a merge by the
  scheduler does to the requests of its own queues (\<open>blk_mq_sched_bio_merge\<close>), traces, time stamps and quality-of-service callbacks are left out.
\<close>

section \<open>Parameters\<close>

record 'e fapi =
  f_a :: "'e aapi"
  f_s :: sapi
  f_queue_of :: "bio \<Rightarrow> nat"
  f_lim :: "nat \<Rightarrow> queue_limits"
  f_zone_plugging :: "bio \<Rightarrow> bool"
  f_nr_segments :: "bio \<Rightarrow> u32"
  f_queue_enter :: "nat \<Rightarrow> blk \<Rightarrow> bool \<times> blk"
  f_can_poll :: "nat \<Rightarrow> bool"
  f_split :: "nat \<Rightarrow> queue_limits \<Rightarrow> blk \<Rightarrow> (nat option \<times> u32 \<times> blk) option"
  f_integrity_action :: "bio \<Rightarrow> u32"
  f_integrity_prep :: "bio \<Rightarrow> u32 \<Rightarrow> bio"
  f_needs_zone_plug :: "bio \<Rightarrow> bool"
  f_zone_plug_bio :: "bio \<Rightarrow> u32 \<Rightarrow> 'e \<Rightarrow> bool \<times> 'e"
  f_keyslot :: "request \<Rightarrow> u8"
  f_zone_init :: "request \<Rightarrow> request"
  f_insert_flush :: "nat \<Rightarrow> 'e mq \<Rightarrow> bool \<times> 'e mq"
  f_is_sync :: "req_op \<Rightarrow> req_flag set \<Rightarrow> bool"
  f_nr_hw_queues :: "nat \<Rightarrow> nat"
  f_ioerr :: u8
  f_notsupp :: u8
  f_again :: u8

abbreviation f_u :: "'e fapi \<Rightarrow> uapi" where
  "f_u api \<equiv> a_u (f_a api)"

abbreviation f_q :: "'e fapi \<Rightarrow> 'e qapi" where
  "f_q api \<equiv> a_q (f_a api)"

section \<open>Requests\<close>

definition blk_mq_get_new_requests :: "'e fapi \<Rightarrow> nat \<Rightarrow> bio \<Rightarrow> 'e sub \<Rightarrow> (nat option \<times> 'e sub) option" where
  "blk_mq_get_new_requests api q b s =
     (let data = alloc_data q {} (bi_op b) (bi_opf b) 1
      in if sb_plug s = None then alloc_requests (f_a api) data s
         else alloc_requests (f_a api) (data\<lparr>ad_nr_tags := ucast (sb_nr_ios s)\<rparr>) (s\<lparr>sb_nr_ios := 1\<rparr>))"

text \<open>\<open>blk_mq_get_cached_request\<close> on the cached requests of the plug.\<close>

definition cached_request :: "'e fapi \<Rightarrow> nat \<Rightarrow> bio \<Rightarrow> 'e sub \<Rightarrow> nat option \<times> 'e sub" where
  "cached_request api q b s =
     (case (if sb_plug s = None then [] else sb_cached s) of
        [] \<Rightarrow> (None, s)
      | a # rest \<Rightarrow>
          (case blk_mq_get_cached_request (f_u api) [sb_rq s a] q (bi_op b) (bi_opf b) of
             (None, l) \<Rightarrow> (None, s)
           | (Some rq, l) \<Rightarrow> (Some a, s\<lparr>sb_cached := rest\<rparr>)))"

section \<open>The steps\<close>

definition queue_exit :: "nat \<Rightarrow> nat option \<Rightarrow> 'e sub \<Rightarrow> 'e sub" where
  "queue_exit q rq s =
     (case rq of
        None \<Rightarrow> add_usage q (- 1) s
      | Some a \<Rightarrow> s\<lparr>sb_cached := a # sb_cached s\<rparr>)"

definition end_with :: "'e fapi \<Rightarrow> nat \<Rightarrow> u8 \<Rightarrow> 'e sub \<Rightarrow> 'e sub option" where
  "end_with api x status s = map_option (\<lambda>k. s\<lparr>sb_blk := k\<rparr>) (fail_bio (f_s api) x status (sb_blk s))"

text \<open>\<open>blk_mq_attempt_bio_merge\<close> on the requests of the plug list, which are written back.\<close>

definition try_merge :: "'e fapi \<Rightarrow> nat \<Rightarrow> bio \<Rightarrow> u32 \<Rightarrow> 'e sub \<Rightarrow> (bool \<times> 'e sub) option" where
  "try_merge api q b nr_segs s =
     (let as = (case sb_plug s of None \<Rightarrow> [] | Some p \<Rightarrow> pl_rqs p);
          mu = (case sb_plug s of None \<Rightarrow> False | Some p \<Rightarrow> pl_multiple p)
      in case blk_mq_attempt_bio_merge (f_u api) q b nr_segs mu (map (sb_rq s) as) of
           None \<Rightarrow> None
         | Some (merged, rqs) \<Rightarrow>
             Some (merged, s\<lparr>sb_mq := fold (\<lambda>(a, r). put_rq a r) (zip as rqs) (sb_mq s)\<rparr>))"

text \<open>
  Up to the label \<open>new_request\<close>. The outer \<open>None\<close> is an access to a freed descriptor; the inner
  \<open>None\<close> says that the function has returned, otherwise there are the descriptor to make a request of
  and its number of segments.
\<close>

definition submit_prepare :: "'e fapi \<Rightarrow> nat \<Rightarrow> nat \<Rightarrow> bio \<Rightarrow> nat option \<Rightarrow> 'e sub \<Rightarrow> ((nat \<times> u32) option \<times> 'e sub) option" where
  "submit_prepare api q x b rq s =
     (if f_zone_plugging api b
      then Some (Some (x, f_nr_segments api b), if rq \<noteq> None then add_usage q (- 1) s else s)
      else
        let (entered, s1) = (if rq = None
                             then (case f_queue_enter api x (sb_blk s) of
                                     (True, k) \<Rightarrow> (True, add_usage q 1 (s\<lparr>sb_blk := k\<rparr>))
                                   | (False, k) \<Rightarrow> (False, s\<lparr>sb_blk := k\<rparr>))
                             else (True, s))
        in if \<not> entered then Some (None, s1)
           else if bio_unaligned (f_u api) b q
           then map_option (\<lambda>s2. (None, queue_exit q rq s2)) (end_with api x (f_ioerr api) s1)
           else if REQ_POLLED \<in> bi_opf b \<and> \<not> f_can_poll api q
           then map_option (\<lambda>s2. (None, queue_exit q rq s2)) (end_with api x (f_notsupp api) s1)
           else do {
             (y, nr_segs, k) \<leftarrow> f_split api x (f_lim api q) (sb_blk s1);
             let s2 = s1\<lparr>sb_blk := k\<rparr>;
             case y of
               None \<Rightarrow> Some (None, queue_exit q rq s2)
             | Some c \<Rightarrow> do {
                 b0 \<leftarrow> bk_bios k c;
                 let b1 = (if f_integrity_action api b0 \<noteq> 0 then f_integrity_prep api b0 (f_integrity_action api b0) else b0);
                 let s3 = s2\<lparr>sb_blk := put_bio c b1 k\<rparr>;
                 (merged, s4) \<leftarrow> try_merge api q b1 nr_segs s3;
                 if merged then Some (None, queue_exit q rq s4)
                 else let (plugged, s5) = (if f_needs_zone_plug api b1
                                           then (case f_zone_plug_bio api b1 nr_segs (sb_env s4) of (p, e) \<Rightarrow> (p, set_env e s4))
                                           else (False, s4))
                      in if plugged then Some (None, queue_exit q rq s5) else Some (Some (c, nr_segs), s5)
               }
           })"

text \<open>The request that is ready goes to the plug list, to a queue, or to the driver.\<close>

definition submit_place :: "'e fapi \<Rightarrow> nat \<Rightarrow> bool \<Rightarrow> bio \<Rightarrow> nat \<Rightarrow> 'e sub \<Rightarrow> 'e sub option" where
  "submit_place api q is_sync b a s =
     (let (flushed, m) = (if u_op_is_flush (f_u api) (bi_op b) (bi_opf b) then f_insert_flush api a (sb_mq s) else (False, sb_mq s));
          s1 = s\<lparr>sb_mq := m\<rparr>
      in if flushed then Some s1
         else case sb_plug s1 of
                Some p \<Rightarrow> map_option (\<lambda>(p', m'). s1\<lparr>sb_plug := Some p', sb_mq := m'\<rparr>) (blk_add_rq_to_plug (f_q api) p a m)
              | None \<Rightarrow>
                  let h = rq_mq_hctx (mq_rq m a) in
                  if RQF_USE_SCHED \<in> rq_rq_flags (mq_rq m a) \<or>
                     mq_busy m h \<noteq> 0 \<and> (f_nr_hw_queues api q = 1 \<or> \<not> is_sync)
                  then Some (s1\<lparr>sb_mq := blk_mq_run_hw_queue (f_q api) h True (blk_mq_insert_request (f_q api) a False m)\<rparr>)
                  else map_option (\<lambda>m'. s1\<lparr>sb_mq := m'\<rparr>) (blk_mq_try_issue_directly (f_q api) h a m))"

text \<open>From the label \<open>new_request\<close> on.\<close>

definition submit_request :: "'e fapi \<Rightarrow> nat \<Rightarrow> bool \<Rightarrow> nat \<Rightarrow> u32 \<Rightarrow> nat option \<Rightarrow> 'e sub \<Rightarrow> 'e sub option" where
  "submit_request api q is_sync x nr_segs rq s = do {
     b \<leftarrow> bk_bios (sb_blk s) x;
     (new, s1) \<leftarrow> (case rq of
                     Some a \<Rightarrow> Some (Some a, set_opf a (bi_op b) (bi_opf b) s)
                   | None \<Rightarrow> blk_mq_get_new_requests api q b s);
     case new of
       None \<Rightarrow> if REQ_NOWAIT \<in> bi_opf b
               then map_option (queue_exit q None) (end_with api x (f_again api) s1)
               else Some (queue_exit q None s1)
     | Some a \<Rightarrow>
         let r = blk_mq_bio_to_request (f_u api) (sb_rq s1 a) b nr_segs;
             ret = f_keyslot api r;
             r1 = (if f_zone_plugging api b then f_zone_init api r else r)
         in if ret \<noteq> 0
            then map_option (blk_mq_free_request (f_a api) a) (end_with api x ret (set_rq a r s1))
            else submit_place api q is_sync b a (set_rq a r1 s1)
   }"

definition blk_mq_submit_bio :: "'e fapi \<Rightarrow> nat \<Rightarrow> 'e sub \<Rightarrow> 'e sub option" where
  "blk_mq_submit_bio api x s = do {
     b \<leftarrow> bk_bios (sb_blk s) x;
     let q = f_queue_of api b;
     let (rq, s1) = cached_request api q b s;
     (go, s2) \<leftarrow> submit_prepare api q x b rq s1;
     case go of
       None \<Rightarrow> Some s2
     | Some (y, nr_segs) \<Rightarrow> submit_request api q (f_is_sync api (bi_op b) (bi_opf b)) y nr_segs rq s2
   }"

end
