(* ===== verification/SubmitLaws.thy ===== *)
theory SubmitLaws
  imports SubmitFlow
begin

text \<open>
  Laws of the submission of a descriptor: whichever way \<open>blk_mq_submit_bio\<close> returns, every reference it
  holds on the queue belongs to a request that is in exactly one place.
\<close>

section \<open>Requests that could not be merged with\<close>

lemma failed_fn_same:
  assumes "mapi_ok m" and "ll_back_merge_fn m r b n = Some (False, r') \<or> ll_front_merge_fn m r b n = Some (False, r')"
  shows "r' = r \<or> r' = m_set_nomerge m r"
  using assms(2)
  by (auto simp: ll_back_merge_fn_def ll_front_merge_fn_def ll_new_hw_segment_def split: if_splits bind_splits)

lemma nomerge_work: "mapi_ok m \<Longrightarrow> same_work r (m_set_nomerge m r)"
  by (simp add: mapi_ok_def same_work_def)

lemma failed_attempt_same:
  assumes "mapi_ok m" and "blk_attempt_bio_merge m q r b n sched = Some (st, r')" and "st \<noteq> BIO_MERGE_OK"
  shows "same_work r r'"
proof -
  have bm: "same_work r r'" if "bio_attempt_back_merge m r b n = Some (st, r')"
    using that assms(3) failed_fn_same [OF assms(1)] nomerge_work [OF assms(1)]
    by (fastforce simp: bio_attempt_back_merge_def Let_def split: if_splits bind_splits prod.splits)
  have fm: "same_work r r'" if "bio_attempt_front_merge m r b n = Some (st, r')"
    using that assms(3) failed_fn_same [OF assms(1)] nomerge_work [OF assms(1)]
    by (fastforce simp: bio_attempt_front_merge_def Let_def split: if_splits bind_splits prod.splits)
  have dm: "same_work r r'" if "bio_attempt_discard_merge m q r b = (st, r')"
    using that assms(3) nomerge_work [OF assms(1)] by (auto simp: bio_attempt_discard_merge_def Let_def split: if_splits)
  show ?thesis
    using assms(2) bm fm dm by (auto simp: blk_attempt_bio_merge_def split: if_splits bind_splits elv_merge.splits)
qed

lemma plug_scan_same:
  assumes "mapi_ok m"
  shows "plug_scan m q b n rqs = Some (False, rqs') \<Longrightarrow> list_all2 same_work rqs rqs'"
proof (induction rqs arbitrary: rqs')
  case (Cons r rqs)
  show ?case
  proof (cases "rq_q r = q")
    case True
    then obtain st r' where a: "blk_attempt_bio_merge m q r b n False = Some (st, r')" "st \<noteq> BIO_MERGE_OK" "rqs' = r' # rqs"
      using Cons.prems by auto
    then show ?thesis using failed_attempt_same [OF assms a(1,2)] by (simp add: list_all2_refl)
  next
    case False
    then show ?thesis using Cons by auto
  qed
qed simp

lemma failed_merge_same:
  assumes "mapi_ok (u_m u)" and "blk_mq_attempt_bio_merge u q b n mu rqs = Some (False, rqs')"
  shows "list_all2 same_work rqs rqs'"
proof -
  have "list_all2 same_work rqs rqs'" if p: "blk_attempt_plug_merge (u_m u) q b n mu rqs = Some (False, rqs')"
  proof (cases "rqs \<noteq> [] \<and> rq_q (List.last rqs) = q")
    case True
    then obtain st r' where a: "blk_attempt_bio_merge (u_m u) q (List.last rqs) b n False = Some (st, r')" "st \<noteq> BIO_MERGE_OK"
      "rqs' = butlast rqs @ [r']"
      using p by (auto simp: blk_attempt_plug_merge_def Let_def)
    have "list_all2 same_work (butlast rqs @ [List.last rqs]) (butlast rqs @ [r'])"
      using failed_attempt_same [OF assms(1) a(1,2)] by (intro list_all2_appendI) (simp_all add: list_all2_refl)
    then show ?thesis using a(3) True by simp
  next
    case False
    then show ?thesis using p plug_scan_same [OF assms(1)]
      by (auto simp: blk_attempt_plug_merge_def Let_def list_all2_refl split: if_splits)
  qed
  moreover have "list_all2 same_work rqs rqs" by (simp add: list_all2_refl)
  ultimately show ?thesis using assms(2)
    by (auto simp: blk_mq_attempt_bio_merge_def split: if_splits option.splits bool.splits)
qed

lemma merge_length:
  assumes "blk_mq_attempt_bio_merge u q b n mu rqs = Some (merged, rqs')"
  shows "length rqs' = length rqs"
proof -
  have scan: "plug_scan m q b n rqs = Some (f, rqs') \<Longrightarrow> length rqs' = length rqs" for m f rqs rqs'
    by (induction rqs arbitrary: rqs') (auto split: if_splits)
  have "blk_attempt_plug_merge m q b n mu rqs = Some (f, rqs') \<Longrightarrow> length rqs' = length rqs" for m f
    using scan by (auto simp: blk_attempt_plug_merge_def Let_def split: if_splits)
  then show ?thesis using assms by (auto simp: blk_mq_attempt_bio_merge_def split: if_splits option.splits bool.splits)
qed

text \<open>Writing requests back to their addresses.\<close>

lemma write_back:
  assumes "distinct as" and "length rqs = length as"
  shows "fold (\<lambda>(a, r). put_rq a r) (zip as rqs) m = m\<lparr>mq_rq := \<lambda>b. case map_of (zip as rqs) b of None \<Rightarrow> mq_rq m b | Some r \<Rightarrow> r\<rparr>"
  using assms
proof (induction as arbitrary: rqs m)
  case (Cons a as)
  then obtain r rs where r: "rqs = r # rs" by (cases rqs) auto
  have "map_of (zip as rs) a = None" using Cons.prems r by (simp add: map_of_zip_is_None)
  then have "(\<lambda>b. case map_of (zip as rs) b of None \<Rightarrow> mq_rq (put_rq a r m) b | Some r \<Rightarrow> r) =
      (\<lambda>b. case map_of (zip (a # as) (r # rs)) b of None \<Rightarrow> mq_rq m b | Some r \<Rightarrow> r)" by (auto simp: fun_eq_iff split: option.split)
  then show ?case using Cons.IH [of rs "put_rq a r m"] Cons.prems r by (simp add: put_rq_def)
qed simp

section \<open>States between calls\<close>

definition plug_list :: "'e sub \<Rightarrow> nat list" where
  "plug_list s = (case sb_plug s of None \<Rightarrow> [] | Some p \<Rightarrow> pl_rqs p)"

text \<open>A request that belongs to existing queues and to no flush sequence.\<close>

definition able :: "'e fapi \<Rightarrow> request \<Rightarrow> bool" where
  "able api r \<longleftrightarrow> rq_mq_ctx r < q_nr_ctx (f_q api) \<and> rq_mq_hctx r < q_nr_hw (f_q api) \<and> RQF_FLUSH_SEQ \<notin> rq_rq_flags r"

definition good :: "'e fapi \<Rightarrow> ('e \<Rightarrow> nat set) \<Rightarrow> 'e sub \<Rightarrow> bool" where
  "good api busy s \<longleftrightarrow> cached_ok (f_a api) s \<and> in_use (f_a api) busy s \<and> ready (f_q api) (sb_mq s) (plug_list s) \<and>
     set (plug_list s) \<inter> set (sb_cached s) = {} \<and> set (plug_list s) \<subseteq> busy (sb_env s) \<and>
     (\<forall>p. sb_plug s = Some p \<longrightarrow> plug_ok (f_q api) p) \<and> (\<forall>a \<in> set (sb_cached s). able api (sb_rq s a))"

definition in_hand :: "'e fapi \<Rightarrow> nat \<Rightarrow> nat \<Rightarrow> 'e sub \<Rightarrow> bool" where
  "in_hand api q a s \<longleftrightarrow> a \<notin> set (sb_cached s) \<and> a \<notin> set (plug_list s) \<and> a \<notin># all_rqs (f_q api) (sb_mq s) \<and>
     able api (sb_rq s a) \<and> rq_ref (sb_rq s a) = 1 \<and> rq_q (sb_rq s a) = q"

text \<open>A descriptor with data: whole sectors, less than 2 GB.\<close>

definition sound_bio :: "bio \<Rightarrow> bool" where
  "sound_bio b \<longleftrightarrow> 512 dvd unat (bi_size b) \<and> bi_size b \<noteq> 0 \<and> unat (bi_size b) < 2 ^ 31"

definition fapi_ok :: "'e fapi \<Rightarrow> ('e \<Rightarrow> nat set) \<Rightarrow> bool" where
  "fapi_ok api busy \<longleftrightarrow> aapi_ok (f_a api) busy \<and> restart_ok (f_a api) \<and> qapi_ok (f_q api) \<and> plug_limit_ok (f_q api) \<and> mapi_ok (u_m (f_u api)) \<and>
     (\<forall>b n e. busy e \<subseteq> busy (snd (f_zone_plug_bio api b n e))) \<and> (\<forall>b i. extent_of (f_integrity_prep api b i) = extent_of b) \<and>
     (\<forall>r. same_work r (f_zone_init api r) \<and> rq_ref (f_zone_init api r) = rq_ref r) \<and>
     (\<forall>a xs m. deliver (f_q api) (a # xs) m (if fst (f_insert_flush api a m) then xs else a # xs) (snd (f_insert_flush api a m)))"

text \<open>The requests in their places, those of the plug list among them.\<close>

definition placed_rqs :: "'e fapi \<Rightarrow> 'e sub \<Rightarrow> nat multiset" where
  "placed_rqs api s = all_rqs (f_q api) (sb_mq s) + mset (plug_list s)"

lemma refs_same:
  assumes "sb_cached s' = sb_cached s" and "sb_usage s' = sb_usage s" and "\<forall>a \<in> set (sb_cached s). rq_q (sb_rq s' a) = rq_q (sb_rq s a)"
  shows "refs p s' = refs p s"
proof -
  have "filter (\<lambda>a. rq_q (sb_rq s' a) = p) (sb_cached s) = filter (\<lambda>a. rq_q (sb_rq s a) = p) (sb_cached s)"
    using assms(3) by (intro filter_cong) auto
  then show ?thesis using assms(1,2) by (simp add: refs_def)
qed

lemma deliver_refs:
  assumes "deliver api xs (sb_mq s) ys (sb_mq s')" and "sb_cached s' = sb_cached s" and "sb_usage s' = sb_usage s"
    and "\<forall>a \<in> set (sb_cached s). a \<notin># all_rqs api (sb_mq s) \<and> a \<notin> set xs"
  shows "refs p s' = refs p s"
proof (rule refs_same [OF assms(2,3)], intro ballI)
  fix a assume a: "a \<in> set (sb_cached s)"
  obtain zs where zs: "mset xs = mset (zs @ ys)" "all_rqs api (sb_mq s') = all_rqs api (sb_mq s) + mset zs"
    using deliver_split [OF assms(1)] by blast
  have "set zs \<subseteq> set xs" using mset_eq_setD [OF zs(1)] by auto
  then have "a \<notin># all_rqs api (sb_mq s')" using a assms(4) zs(2) by auto
  then show "rq_q (sb_rq s' a) = rq_q (sb_rq s a)" using assms(1) by (simp add: deliver_def same_work_def)
qed

section \<open>Placing a request\<close>

lemma try_issue_deliver:
  assumes "qapi_ok api" and "ready api s [a]"
  shows "\<exists>s'. blk_mq_try_issue_directly api h a s = Some s' \<and> deliver api [a] s [] s'"
proof -
  have ins: "deliver api [a] s [] (blk_mq_run_hw_queue api h u (blk_mq_insert_request api a False s1))"
    if "deliver api [a] s [a] s1" for s1 u
    using deliver_trans [OF that] deliver_trans [OF insert_deliver [OF assms(1)] run_hw_deliver [OF assms(1)]]
      ready_head [OF deliver_ready(1) [OF that assms(2)]] by blast
  obtain ok s1 where b: "(if RQF_USE_SCHED \<in> rq_rq_flags (mq_rq s a) then (False, s) else blk_mq_get_budget_and_tag api a s) = (ok, s1)"
    by force
  then have d1: "deliver api [a] s [a] s1" using budget_deliver [OF assms(1)] by (auto split: if_splits)
  obtain ret s2 where i: "issue_directly api h a True s1 = (ret, s2)" by force
  have d2: "deliver api [a] s (kept ret a []) s2" using deliver_trans [OF d1 issue_deliver [OF assms(1) i]] .
  have r2: "routed api (mq_rq s2 a)" if "ret \<noteq> STS_OK"
    using deliver_ready(1) [OF d2 assms(2)] that by (simp add: kept_def ready_def)
  have by_ins: "deliver api [a] s [] (blk_mq_run_hw_queue api h False (blk_mq_request_bypass_insert a False s2))" if "ret \<noteq> STS_OK"
    using d2 that deliver_trans [OF bypass_deliver [OF r2 [OF that], where xs = "[]"] run_hw_deliver [OF assms(1)]] deliver_trans
    by (simp add: kept_def) blast
  have ended: "\<exists>s'. blk_mq_end_request api a e s2 = Some s' \<and> deliver api [a] s [] s'" if "ret = STS_FAIL e" for e
    using end_deliver [OF assms(1) r2, where xs = "[]" and e = e] d2 that deliver_trans by (fastforce simp: kept_def)
  show ?thesis
    unfolding blk_mq_try_issue_directly_def b
    using ins [OF deliver_refl] ins [OF d1] i d2 by_ins ended by (auto simp: Let_def kept_def split: dispatch_ret.split)
qed

lemma good_ready:
  assumes "good api busy s" and "in_hand api q a s" and "routed (f_q api) (sb_rq s a)"
  shows "ready (f_q api) (sb_mq s) (a # plug_list s)"
  using assms by (auto simp: good_def in_hand_def ready_def)

lemma ready_perm: "ready api s xs \<Longrightarrow> mset ys = mset xs \<Longrightarrow> ready api s ys"
  by (metis mset_eq_imp_distinct_iff mset_eq_setD ready_def)

lemma place_deliver:
  assumes "fapi_ok api busy" and "good api busy s" and "in_hand api q a s" and "routed (f_q api) (sb_rq s a)"
  shows "\<exists>s'. submit_place api q sync b a s = Some s' \<and> deliver (f_q api) (a # plug_list s) (sb_mq s) (plug_list s') (sb_mq s') \<and>
    sb_cached s' = sb_cached s \<and> sb_usage s' = sb_usage s"
proof -
  obtain fl m where f: "(if u_op_is_flush (f_u api) (bi_op b) (bi_opf b) then f_insert_flush api a (sb_mq s) else (False, sb_mq s)) = (fl, m)"
    by force
  let ?xs = "a # plug_list s"
  have "deliver (f_q api) ?xs (sb_mq s) (if fst (f_insert_flush api a (sb_mq s)) then plug_list s else ?xs) (snd (f_insert_flush api a (sb_mq s)))"
    using assms(1) unfolding fapi_ok_def by blast
  then have d: "deliver (f_q api) ?xs (sb_mq s) (if fl then plug_list s else ?xs) m" using f by (auto split: if_splits)
  show ?thesis
  proof (cases fl)
    case True
    then show ?thesis using f d by (simp add: submit_place_def plug_list_def)
  next
    case False
    then have d0: "deliver (f_q api) ?xs (sb_mq s) ?xs m" using d by simp
    have r: "ready (f_q api) m ?xs" using deliver_ready(1) [OF d0 good_ready [OF assms(2-4)]] .
    have q: "qapi_ok (f_q api)" "plug_limit_ok (f_q api)" using assms(1) by (simp_all add: fapi_ok_def)
    show ?thesis
    proof (cases "sb_plug s")
      case (Some p)
      then have pl: "plug_list s = pl_rqs p" "plug_ok (f_q api) p" using assms(2) by (simp_all add: plug_list_def good_def)
      have "ready (f_q api) m (pl_rqs p @ [a])" by (rule ready_perm [OF r]) (simp add: pl)
      then obtain p' m' where p': "blk_add_rq_to_plug (f_q api) p a m = Some (p', m')" "deliver (f_q api) (pl_rqs p @ [a]) m (pl_rqs p') m'"
        using add_plug_deliver [OF q pl(2)] by blast
      have "deliver (f_q api) ?xs m (pl_rqs p') m'" using p'(2) by (simp add: deliver_def pl)
      from deliver_trans [OF d0 this] show ?thesis using f False Some p'(1) by (simp add: submit_place_def plug_list_def)
    next
      case None
      then have pl: "plug_list s = []" by (simp add: plug_list_def)
      have ra: "ready (f_q api) m [a]" using r by (simp add: pl)
      let ?h = "rq_mq_hctx (mq_rq m a)"
      obtain m' where m': "blk_mq_try_issue_directly (f_q api) ?h a m = Some m'" "deliver (f_q api) [a] m [] m'"
        using try_issue_deliver [OF q(1) ra] by blast
      have "deliver (f_q api) [a] m [] (blk_mq_run_hw_queue (f_q api) ?h True (blk_mq_insert_request (f_q api) a False m))"
        using deliver_trans [OF insert_deliver [OF q(1) ready_head [OF ra]] run_hw_deliver [OF q(1)]] .
      then show ?thesis using f False None m' deliver_trans [OF d0] pl
        by (auto simp: submit_place_def Let_def plug_list_def)
    qed
  qed
qed

section \<open>From a descriptor to its request\<close>

lemma blk_frame [simp]:
  "refs p (s\<lparr>sb_blk := k\<rparr>) = refs p s" "placed_rqs api (s\<lparr>sb_blk := k\<rparr>) = placed_rqs api s"
  "good api busy (s\<lparr>sb_blk := k\<rparr>) = good api busy s" "in_hand api q a (s\<lparr>sb_blk := k\<rparr>) = in_hand api q a s"
  "refs p (s\<lparr>sb_nr_ios := i\<rparr>) = refs p s" "placed_rqs api (s\<lparr>sb_nr_ios := i\<rparr>) = placed_rqs api s"
  "good api busy (s\<lparr>sb_nr_ios := i\<rparr>) = good api busy s"
  by (simp_all add: refs_def placed_rqs_def plug_list_def good_def in_hand_def cached_ok_def in_use_def)

lemma usage_frame [simp]:
  "placed_rqs api (add_usage q' n s) = placed_rqs api s" "good api busy (add_usage q' n s) = good api busy s"
  "in_hand api q a (add_usage q' n s) = in_hand api q a s"
  by (simp_all add: placed_rqs_def plug_list_def good_def in_hand_def cached_ok_def in_use_def)

text \<open>Changing the request in hand.\<close>

lemma hand_set_rq:
  assumes "good api busy s" and "in_hand api q a s" and "able api r" and "rq_ref r = 1" and "rq_q r = q"
  shows "good api busy (set_rq a r s)" "in_hand api q a (set_rq a r s)" "refs p (set_rq a r s) = refs p s"
    "placed_rqs api (set_rq a r s) = placed_rqs api s"
proof -
  show "good api busy (set_rq a r s)"
    using assms(1,2) by (auto simp: good_def in_hand_def cached_ok_def in_use_def ready_def plug_list_def)
  show "in_hand api q a (set_rq a r s)" using assms by (simp add: in_hand_def plug_list_def)
  show "refs p (set_rq a r s) = refs p s" by (rule refs_same) (use assms(2) in \<open>auto simp: in_hand_def\<close>)
  show "placed_rqs api (set_rq a r s) = placed_rqs api s" by (simp add: placed_rqs_def plug_list_def)
qed

lemma got_good:
  assumes "got (f_a api) busy d r s s'" and "good api busy s" and "ad_q d = q"
  shows "good api busy s'" "refs p s' = refs p s" "placed_rqs api s' = placed_rqs api s" "sb_blk s' = sb_blk s"
    and "r = Some a \<Longrightarrow> in_hand api q a s' \<and> rq_op (sb_rq s' a) = ad_op d \<and> rq_cmd_flags (sb_rq s' a) = ad_cmd_flags d"
proof -
  have g: "cached_ok (f_a api) s" "in_use (f_a api) busy s" "ready (f_q api) (sb_mq s) (plug_list s)"
    "set (plug_list s) \<inter> set (sb_cached s) = {}" "set (plug_list s) \<subseteq> busy (sb_env s)"
    using assms(2) by (simp_all add: good_def)
  note keeps = got_keeps [OF assms(1) g(2,1)]
  obtain as where as: "gain (f_a api) busy d (case_option [] (\<lambda>a. [a]) r @ as) s s'" "sb_cached s' = as @ sb_cached s"
    using assms(1) by (auto simp: got_def)
  have fr: "frame (set (case_option [] (\<lambda>a. [a]) r @ as)) s s'" using as(1) by (simp add: gain_def)
  then have pl: "plug_list s' = plug_list s" "sb_plug s' = sb_plug s" by (simp_all add: frame_def plug_list_def)
  have all: "all_rqs (f_q api) (sb_mq s') = all_rqs (f_q api) (sb_mq s)" by (rule frame_all_rqs [OF fr])
  have old: "sb_rq s' b = sb_rq s b" if "b \<in> busy (sb_env s)" for b using that as(1) by (auto simp: gain_def frame_def)
  have "ready (f_q api) (sb_mq s') (plug_list s')" using g(3,5) old all pl by (auto simp: ready_def)
  moreover have "set (plug_list s') \<inter> set (sb_cached s') = {}" "set (plug_list s') \<subseteq> busy (sb_env s')"
    using as g(4,5) pl by (auto simp: gain_def)
  moreover have "able api (sb_rq s' b)" if "b \<in> set (sb_cached s')" for b
  proof (cases "b \<in> set as")
    case True
    then show ?thesis using as(1) by (simp add: gain_def able_def fresh_rq_def)
  next
    case False
    then have "b \<in> set (sb_cached s)" using that as(2) by simp
    then show ?thesis using old g(2) assms(2) by (auto simp: in_use_def good_def)
  qed
  ultimately show "good api busy s'" using keeps(1,2) assms(2) pl by (simp add: good_def)
  show "refs p s' = refs p s" using got_refs [OF assms(1)] g(2) by (simp add: in_use_def)
  show "placed_rqs api s' = placed_rqs api s" by (simp add: placed_rqs_def all pl)
  show "sb_blk s' = sb_blk s" using fr by (simp add: frame_def)
  show "in_hand api q a s' \<and> rq_op (sb_rq s' a) = ad_op d \<and> rq_cmd_flags (sb_rq s' a) = ad_cmd_flags d" if "r = Some a"
    using that keeps(3) [OF that] g(2,5) all pl assms(3) by (auto simp: in_hand_def in_use_def able_def fresh_rq_def)
qed

lemma made_routed:
  assumes "able api r" and "sound_bio b" and "rq_op r = bi_op b"
    and r'_def: "r' = blk_mq_bio_to_request (f_u api) r b n"
  shows "routed (f_q api) r'" "able api r'" "rq_ref r' = rq_ref r" "rq_q r' = rq_q r"
proof -
  have f: "rq_mq_ctx r' = rq_mq_ctx r" "rq_mq_hctx r' = rq_mq_hctx r" "rq_ref r' = rq_ref r" "rq_q r' = rq_q r"
    "RQF_FLUSH_SEQ \<in> rq_rq_flags r' \<longleftrightarrow> RQF_FLUSH_SEQ \<in> rq_rq_flags r"
    by (simp_all add: r'_def blk_mq_bio_to_request_def blk_account_io_start_def Let_def)
  then show "able api r'" "rq_ref r' = rq_ref r" "rq_q r' = rq_q r" using assms(1) by (simp_all add: able_def)
  have "rq_wf r'" unfolding r'_def
    using assms(2,3) to_request_fields [where api = "f_u api" and rq = r and b = b and n = n]
    by (simp add: rq_wf_def extent_of_def whole_sectors_def sound_bio_def)
  moreover have "nonempty_bios (rq_bios r')" "unat (rq_data_len r') < 2 ^ 31"
    using assms(2) by (simp_all add: r'_def to_request_fields nonempty_bios_def sound_bio_def)
  ultimately show "routed (f_q api) r'"
    using f assms(1) by (simp add: routed_def finishable_def endable_def able_def)
qed

lemma end_with_frame:
  assumes "end_with api x st s = Some s'"
  shows "\<exists>k. s' = s\<lparr>sb_blk := k\<rparr>"
  using assms by (auto simp: end_with_def)

lemma new_request_good:
  assumes "fapi_ok api busy" and "good api busy s" and "blk_mq_get_new_requests api q b s = Some (r, s')"
  shows "good api busy s'" "refs p s' = refs p s" "placed_rqs api s' = placed_rqs api s" "sb_blk s' = sb_blk s"
    and "r = Some a \<Longrightarrow> in_hand api q a s' \<and> rq_op (sb_rq s' a) = bi_op b \<and> rq_cmd_flags (sb_rq s' a) = bi_opf b"
proof -
  obtain d s0 where d: "alloc_requests (f_a api) d s0 = Some (r, s')" "ad_q d = q" "ad_op d = bi_op b" "ad_cmd_flags d = bi_opf b"
    "ad_rq_flags d = {}" "s0 = s \<or> s0 = s\<lparr>sb_nr_ios := 1\<rparr>"
    using assms(3) by (auto simp: blk_mq_get_new_requests_def alloc_data_def Let_def split: if_splits)
  have "aapi_ok (f_a api) busy" using assms(1) by (simp add: fapi_ok_def)
  then have g: "got (f_a api) busy d r s0 s'" using alloc_got(1) [OF _ d(1)] d(5) by simp
  have s0: "good api busy s0" "refs p s0 = refs p s" "placed_rqs api s0 = placed_rqs api s" "sb_blk s0 = sb_blk s"
    using d(6) assms(2) by auto
  note gg = got_good [OF g s0(1) d(2)]
  show "good api busy s'" "refs p s' = refs p s" "placed_rqs api s' = placed_rqs api s" "sb_blk s' = sb_blk s"
    using gg(1-4) s0 by simp_all
  show "r = Some a \<Longrightarrow> in_hand api q a s' \<and> rq_op (sb_rq s' a) = bi_op b \<and> rq_cmd_flags (sb_rq s' a) = bi_opf b"
    using gg(5) d(3,4) by simp
qed

text \<open>The outcome of a call that enters with one reference in hand: it is given to a placed request, or dropped.\<close>

definition settled :: "'e fapi \<Rightarrow> nat \<Rightarrow> int \<Rightarrow> 'e sub \<Rightarrow> 'e sub \<Rightarrow> bool" where
  "settled api q n s s' \<longleftrightarrow> (\<exists>D. size D \<le> 1 \<and> placed_rqs api s' = placed_rqs api s + D \<and>
     (\<forall>p. refs p s' = refs p s + (if p = q then int (size D) - n else 0)))"

lemma settled_none: "placed_rqs api s' = placed_rqs api s \<Longrightarrow> (\<And>p. refs p s' = refs p s - (if p = q then n else 0)) \<Longrightarrow> settled api q n s s'"
  unfolding settled_def by (intro exI [of _ "{#}"]) auto

lemma made_settled:
  assumes "fapi_ok api busy" and "good api busy s" and "in_hand api q a s" and "sound_bio b" and "rq_op (sb_rq s a) = bi_op b"
    and "(let r = blk_mq_bio_to_request (f_u api) (sb_rq s a) b n; ret = f_keyslot api r;
              r1 = (if f_zone_plugging api b then f_zone_init api r else r)
          in if ret \<noteq> 0 then map_option (blk_mq_free_request (f_a api) a) (end_with api x ret (set_rq a r s))
             else submit_place api q sync b a (set_rq a r1 s)) = Some s'"
  shows "settled api q 1 s s'"
proof -
  define r where "r = blk_mq_bio_to_request (f_u api) (sb_rq s a) b n"
  define r1 where "r1 = (if f_zone_plugging api b then f_zone_init api r else r)"
  have h: "able api (sb_rq s a)" "rq_ref (sb_rq s a) = 1" "rq_q (sb_rq s a) = q" using assms(3) by (simp_all add: in_hand_def)
  note made = made_routed [OF h(1) assms(4,5) r_def]
  note set_r = hand_set_rq [OF assms(2,3) made(2)]
  show ?thesis
  proof (cases "f_keyslot api r \<noteq> 0")
    case True
    then obtain k where k: "s' = blk_mq_free_request (f_a api) a ((set_rq a r s)\<lparr>sb_blk := k\<rparr>)"
      using assms(6) unfolding r_def by (auto simp: Let_def dest!: end_with_frame)
    let ?t = "(set_rq a r s)\<lparr>sb_blk := k\<rparr>"
    have g: "good api busy ?t" "in_hand api q a ?t" using set_r made h by simp_all
    have ok: "restart_ok (f_a api)" "cached_ok (f_a api) ?t" "a \<notin> set (sb_cached ?t)" "rq_ref (sb_rq ?t a) = 1" "rq_q (sb_rq ?t a) = q"
      using g assms(1) by (simp_all add: good_def in_hand_def fapi_ok_def)
    note free = free_request_laws [OF ok(1-4)]
    show ?thesis
    proof (rule settled_none)
      show "placed_rqs api s' = placed_rqs api s" unfolding k placed_rqs_def plug_list_def free(6,7) by simp
      show "refs p s' = refs p s - (if p = q then 1 else 0)" for p
        unfolding k free(3) ok(5) using set_r(3) made h by simp
    qed
  next
    case False
    have w: "same_work r r1" "rq_ref r1 = rq_ref r" using assms(1) by (simp_all add: r1_def fapi_ok_def)
    have r1: "routed (f_q api) r1" "able api r1" "rq_ref r1 = 1" "rq_q r1 = q"
      using same_work_routed [OF w(1)] w made h by (auto simp: able_def same_work_def)
    let ?t = "set_rq a r1 s"
    note set_r1 = hand_set_rq [OF assms(2,3) r1(2-4)]
    have "routed (f_q api) (sb_rq ?t a)" using r1(1) by simp
    from place_deliver [OF assms(1) set_r1(1,2) this, of sync b] obtain s2 where s2: "submit_place api q sync b a ?t = Some s2"
      "deliver (f_q api) (a # plug_list ?t) (sb_mq ?t) (plug_list s2) (sb_mq s2)" "sb_cached s2 = sb_cached ?t" "sb_usage s2 = sb_usage ?t"
      by blast
    have s': "s' = s2" using assms(6) False s2(1) unfolding r_def r1_def by (simp add: Let_def)
    have "\<forall>b \<in> set (sb_cached ?t). b \<notin># all_rqs (f_q api) (sb_mq ?t) \<and> b \<notin> set (a # plug_list ?t)"
      using set_r1(1,2) by (auto simp: good_def cached_ok_def in_hand_def)
    then have "refs p s' = refs p s" for p using deliver_refs [OF s2(2-4)] set_r1(3) s' by simp
    moreover have "placed_rqs api s' = placed_rqs api s + {#a#}"
      using s2(2) set_r1(4) s' by (simp add: placed_rqs_def deliver_def)
    ultimately show ?thesis unfolding settled_def by (intro exI [of _ "{#a#}"]) simp
  qed
qed

lemma request_settled:
  assumes "fapi_ok api busy" and "good api busy s" and "bk_bios (sb_blk s) x = Some b" and "sound_bio b"
    and "\<forall>a. rq = Some a \<longrightarrow> in_hand api q a s" and "submit_request api q sync x n rq s = Some s'"
  shows "settled api q 1 s s'"
proof -
  obtain new s1 where n: "(case rq of Some a \<Rightarrow> Some (Some a, set_opf a (bi_op b) (bi_opf b) s) | None \<Rightarrow> blk_mq_get_new_requests api q b s) =
      Some (new, s1)" using assms(3,6) by (auto simp: submit_request_def split: bind_splits)
  have s1: "good api busy s1 \<and> (\<forall>p. refs p s1 = refs p s) \<and> placed_rqs api s1 = placed_rqs api s \<and>
      (\<forall>a. new = Some a \<longrightarrow> in_hand api q a s1 \<and> rq_op (sb_rq s1 a) = bi_op b)"
  proof (cases rq)
    case None
    then show ?thesis using n new_request_good [OF assms(1,2)] by auto
  next
    case (Some a)
    let ?r = "(sb_rq s a)\<lparr>rq_op := bi_op b, rq_cmd_flags := bi_opf b\<rparr>"
    have h: "in_hand api q a s" using assms(5) Some by simp
    then have "able api ?r" "rq_ref ?r = 1" "rq_q ?r = q" by (simp_all add: in_hand_def able_def)
    from hand_set_rq [OF assms(2) h this] show ?thesis using n Some by (auto simp: set_opf_def)
  qed
  have keep: "settled api q 1 s1 t \<Longrightarrow> settled api q 1 s t" for t using s1 by (simp add: settled_def)
  show ?thesis
  proof (cases new)
    case None
    obtain k where "s' = queue_exit q None (s1\<lparr>sb_blk := k\<rparr>) \<or> s' = queue_exit q None s1"
      using assms(3,6) n None by (auto simp: submit_request_def dest!: end_with_frame split: if_splits)
    then show ?thesis by (intro keep settled_none) (auto simp: queue_exit_def)
  next
    case (Some a)
    then have h: "in_hand api q a s1" "rq_op (sb_rq s1 a) = bi_op b" using s1 by simp_all
    show ?thesis
      by (rule keep, rule made_settled [OF assms(1) _ h(1) assms(4) h(2), where x = x and n = n and sync = sync])
         (use assms(3,6) n Some s1 in \<open>simp_all add: submit_request_def\<close>)
  qed
qed

section \<open>Merging, and the way to a request\<close>

lemma map_of_all2: "list_all2 P (map f as) rs \<Longrightarrow> map_of (zip as rs) b = Some r \<Longrightarrow> P (f b) r"
  by (induction as arbitrary: rs) (auto simp: list_all2_Cons1 split: if_splits)

lemma try_merge_eq:
  assumes "mapi_ok (u_m (f_u api))" and "distinct (plug_list s)" and "try_merge api q b n s = Some (merged, s')"
  shows "\<exists>f. s' = s\<lparr>sb_mq := (sb_mq s)\<lparr>mq_rq := f\<rparr>\<rparr> \<and> (\<forall>b. b \<notin> set (plug_list s) \<longrightarrow> f b = sb_rq s b) \<and>
    (\<not> merged \<longrightarrow> (\<forall>b. same_work (sb_rq s b) (f b)))"
proof -
  obtain mu rqs where m: "blk_mq_attempt_bio_merge (f_u api) q b n mu (map (sb_rq s) (plug_list s)) = Some (merged, rqs)"
    and s': "s' = s\<lparr>sb_mq := fold (\<lambda>(a, r). put_rq a r) (zip (plug_list s) rqs) (sb_mq s)\<rparr>"
    using assms(3) unfolding try_merge_def Let_def plug_list_def [symmetric] by (auto split: option.splits)
  have len: "length rqs = length (plug_list s)" using merge_length [OF m] by simp
  define f where "f b = (case map_of (zip (plug_list s) rqs) b of None \<Rightarrow> sb_rq s b | Some r \<Rightarrow> r)" for b
  have "s' = s\<lparr>sb_mq := (sb_mq s)\<lparr>mq_rq := f\<rparr>\<rparr>" unfolding s' write_back [OF assms(2) len] f_def ..
  moreover have "f b = sb_rq s b" if "b \<notin> set (plug_list s)" for b
  proof -
    have "map_of (zip (plug_list s) rqs) b = None" using that len by (simp add: map_of_zip_is_None)
    then show ?thesis by (simp add: f_def)
  qed
  moreover have "same_work (sb_rq s b) (f b)" if "\<not> merged" for b
    using map_of_all2 [OF failed_merge_same [OF assms(1)]] m that by (auto simp: f_def split: option.split)
  ultimately show ?thesis by blast
qed

lemma try_merge_laws:
  assumes "fapi_ok api busy" and "good api busy s" and "try_merge api q b n s = Some (merged, s')"
  shows "refs p s' = refs p s" "placed_rqs api s' = placed_rqs api s" "sb_blk s' = sb_blk s" "sb_env s' = sb_env s"
    and "\<not> merged \<Longrightarrow> good api busy s'" and "in_hand api q a s \<Longrightarrow> in_hand api q a s'"
proof -
  have g: "distinct (plug_list s)" "set (plug_list s) \<inter> set (sb_cached s) = {}" using assms(2) by (auto simp: good_def ready_def)
  have "mapi_ok (u_m (f_u api))" using assms(1) by (simp add: fapi_ok_def)
  from try_merge_eq [OF this g(1) assms(3)] obtain f where s': "s' = s\<lparr>sb_mq := (sb_mq s)\<lparr>mq_rq := f\<rparr>\<rparr>"
    and out: "\<forall>b. b \<notin> set (plug_list s) \<longrightarrow> f b = sb_rq s b" and same: "\<not> merged \<longrightarrow> (\<forall>b. same_work (sb_rq s b) (f b))"
    by blast
  have all: "all_rqs (f_q api) ((sb_mq s)\<lparr>mq_rq := f\<rparr>) = all_rqs (f_q api) (sb_mq s)" by (simp add: all_rqs_def)
  have c: "f b = sb_rq s b" if "b \<in> set (sb_cached s)" for b using that g(2) out by blast
  show "refs p s' = refs p s" by (rule refs_same) (use c in \<open>simp_all add: s'\<close>)
  show "placed_rqs api s' = placed_rqs api s" by (simp add: s' placed_rqs_def plug_list_def all)
  show "sb_blk s' = sb_blk s" "sb_env s' = sb_env s" by (simp_all add: s')
  show "in_hand api q a s \<Longrightarrow> in_hand api q a s'" using out by (auto simp: in_hand_def s' plug_list_def all)
  have "routed (f_q api) (f b) = routed (f_q api) (sb_rq s b)" if "\<not> merged" for b using same_work_routed same that by blast
  then have "ready (f_q api) ((sb_mq s)\<lparr>mq_rq := f\<rparr>) (plug_list s)" if "\<not> merged"
    using assms(2) that by (auto simp: good_def ready_def all)
  then show "good api busy s'" if "\<not> merged"
    using that assms(2) c by (auto simp: s' good_def cached_ok_def in_use_def plug_list_def all)
qed

lemma env_frame:
  assumes "busy (sb_env s) \<subseteq> busy e"
  shows "good api busy s \<Longrightarrow> good api busy (set_env e s)" "placed_rqs api (set_env e s) = placed_rqs api s"
    "in_hand api q a (set_env e s) = in_hand api q a s"
  using assms by (auto simp: good_def cached_ok_def in_use_def plug_list_def placed_rqs_def in_hand_def ready_def)

lemma exit_laws:
  assumes "\<forall>a. rq = Some a \<longrightarrow> rq_q (sb_rq s a) = q"
  shows "refs p (queue_exit q rq s) = refs p s - (if p = q then 1 else 0)" "placed_rqs api (queue_exit q rq s) = placed_rqs api s"
  using assms by (auto simp: queue_exit_def refs_def placed_rqs_def plug_list_def split: option.split)

text \<open>After the split: the merge, the zone write plug, or on to the request.\<close>

lemma after_split:
  assumes "fapi_ok api busy" and "good api busy s" and "\<forall>a. rq = Some a \<longrightarrow> in_hand api q a s" and "sound_bio b1" and "bk_bios (sb_blk s) c = Some b1"
    and "do { (merged, s4) \<leftarrow> try_merge api q b1 n s;
           if merged then Some (None, queue_exit q rq s4)
           else let (plugged, s5) = (if f_needs_zone_plug api b1
                                     then (case f_zone_plug_bio api b1 n (sb_env s4) of (p, e) \<Rightarrow> (p, set_env e s4))
                                     else (False, s4))
                in if plugged then Some (None, queue_exit q rq s5) else Some (Some (c, n), s5) } = Some (go, s')"
  shows "placed_rqs api s' = placed_rqs api s \<and>
    (case go of
       None \<Rightarrow> \<forall>p. refs p s' = refs p s - (if p = q then 1 else 0)
     | Some (y, n) \<Rightarrow> (\<forall>p. refs p s' = refs p s) \<and> good api busy s' \<and> (\<forall>a. rq = Some a \<longrightarrow> in_hand api q a s') \<and>
         (\<exists>b. bk_bios (sb_blk s') y = Some b \<and> sound_bio b))"
proof -
  obtain merged s4 where m: "try_merge api q b1 n s = Some (merged, s4)" using assms(6) by (auto split: bind_splits)
  note tm = try_merge_laws [OF assms(1,2) m]
  have q4: "\<forall>a. rq = Some a \<longrightarrow> in_hand api q a s4" using assms(3) tm(6) by blast
  show ?thesis
  proof (cases merged)
    case True
    then have "go = None" "s' = queue_exit q rq s4" using assms(6) m by simp_all
    then show ?thesis using exit_laws [of rq s4 q] q4 tm(1,2) by (simp add: in_hand_def)
  next
    case False
    define e where "e = (if f_needs_zone_plug api b1 then snd (f_zone_plug_bio api b1 n (sb_env s4)) else sb_env s4)"
    have e: "busy (sb_env s4) \<subseteq> busy e" using assms(1) by (simp add: e_def fapi_ok_def)
    have s5: "(go = None \<and> s' = queue_exit q rq (set_env e s4)) \<or> (go = Some (c, n) \<and> s' = set_env e s4)"
    proof -
      have id: "set_env (sb_env s4) s4 = s4" by (simp add: set_env_def)
      show ?thesis using assms(6) m False by (auto simp: e_def id split: if_splits prod.splits)
    qed
    have g: "good api busy (set_env e s4)" "\<forall>a. rq = Some a \<longrightarrow> in_hand api q a (set_env e s4)"
      "placed_rqs api (set_env e s4) = placed_rqs api s" using env_frame [OF e] tm(2) tm(5) [OF False] q4 by simp_all
    then show ?thesis using s5 exit_laws [of rq "set_env e s4" q] tm(1,3) assms(4,5) by (auto simp: in_hand_def)
  qed
qed

text \<open>What the split leaves to be submitted has data.\<close>

definition splits_sound :: "'e fapi \<Rightarrow> nat \<Rightarrow> bio \<Rightarrow> bool" where
  "splits_sound api x b \<longleftrightarrow> (f_zone_plugging api b \<longrightarrow> sound_bio b) \<and>
     (\<forall>k y n k'. f_split api x (f_lim api (f_queue_of api b)) k = Some (Some y, n, k') \<longrightarrow> (\<exists>b'. bk_bios k' y = Some b' \<and> sound_bio b'))"

text \<open>
  The references after the preparation: the call has returned with none of its own, or it goes on with
  one, except that a descriptor from a zone write plug brought its own.
\<close>

lemma prepare_laws:
  assumes "fapi_ok api busy" and "good api busy s" and "\<forall>a. rq = Some a \<longrightarrow> in_hand api q a s" and "splits_sound api x b"
    and "bk_bios (sb_blk s) x = Some b" and "q = f_queue_of api b" and "submit_prepare api q x b rq s = Some (go, s')"
  shows "placed_rqs api s' = placed_rqs api s \<and>
    (case go of
       None \<Rightarrow> \<not> f_zone_plugging api b \<and> (\<forall>p. refs p s' = refs p s - (if p = q \<and> rq \<noteq> None then 1 else 0))
     | Some (y, n) \<Rightarrow> (\<forall>p. refs p s' = refs p s + (if p = q then (if rq = None then 1 else 0) - (if f_zone_plugging api b then 1 else 0) else 0)) \<and>
         good api busy s' \<and> (\<forall>a. rq = Some a \<longrightarrow> in_hand api q a s') \<and> (\<exists>b. bk_bios (sb_blk s') y = Some b \<and> sound_bio b))"
proof (cases "f_zone_plugging api b")
  case True
  then have "go = Some (x, f_nr_segments api b)" "s' = (if rq \<noteq> None then add_usage q (- 1) s else s)"
    using assms(7) by (simp_all add: submit_prepare_def)
  then show ?thesis using assms(2-5) True by (simp add: splits_sound_def)
next
  case nz: False
  obtain entered s1 where e: "(if rq = None
      then (case f_queue_enter api x (sb_blk s) of (True, k) \<Rightarrow> (True, add_usage q 1 (s\<lparr>sb_blk := k\<rparr>)) | (False, k) \<Rightarrow> (False, s\<lparr>sb_blk := k\<rparr>))
      else (True, s)) = (entered, s1)" by force
  have s1: "good api busy s1" "\<forall>a. rq = Some a \<longrightarrow> in_hand api q a s1" "placed_rqs api s1 = placed_rqs api s"
    "refs p s1 = refs p s + (if p = q \<and> entered \<and> rq = None then 1 else 0)" for p
    using e assms(2,3) by (auto split: if_splits prod.splits bool.splits)
  have ent: "\<not> entered \<Longrightarrow> rq = None" using e by (auto split: if_splits)
  have q1: "\<forall>a. rq = Some a \<longrightarrow> rq_q (sb_rq (s1\<lparr>sb_blk := k\<rparr>) a) = q" for k using s1(2) by (simp add: in_hand_def)
  have out: ?thesis if "go = None" "s' = queue_exit q rq (s1\<lparr>sb_blk := k\<rparr>)" "entered" for k
    using that nz exit_laws [OF q1] s1(3,4) by simp
  show ?thesis
  proof (cases "\<not> entered \<or> bio_unaligned (f_u api) b q \<or> REQ_POLLED \<in> bi_opf b \<and> \<not> f_can_poll api q")
    case True
    show ?thesis
    proof (cases entered)
      case False
      then have "go = None" "s' = s1" using assms(7) nz e by (simp_all add: submit_prepare_def Let_def)
      then show ?thesis using s1(3,4) nz False ent by auto
    next
      case ok: True
      obtain k where "go = None" "s' = queue_exit q rq (s1\<lparr>sb_blk := k\<rparr>)"
        using assms(7) nz e True ok by (auto simp: submit_prepare_def Let_def dest!: end_with_frame split: if_splits)
      then show ?thesis using out ok by blast
    qed
  next
    case False
    then have ok: "entered" "\<not> bio_unaligned (f_u api) b q" "(REQ_POLLED \<in> bi_opf b \<and> \<not> f_can_poll api q) = False" by auto
    have eq: "submit_prepare api q x b rq s = do {
         (y, nr_segs, k) \<leftarrow> f_split api x (f_lim api q) (sb_blk s1);
         let s2 = s1\<lparr>sb_blk := k\<rparr>;
         case y of
           None \<Rightarrow> Some (None, queue_exit q rq s2)
         | Some c \<Rightarrow> do {
             b0 \<leftarrow> bk_bios k c;
             let b1 = (if f_integrity_action api b0 \<noteq> 0 then f_integrity_prep api b0 (f_integrity_action api b0) else b0);
             let s3 = s2\<lparr>sb_blk := put_bio c b1 k\<rparr>;
             (merged, s4) \<leftarrow> try_merge api q b1 nr_segs s3;
             if merged then Some (None, queue_exit q rq s4)
             else let (plugged, s5) = (if f_needs_zone_plug api b1
                                       then (case f_zone_plug_bio api b1 nr_segs (sb_env s4) of (p, e) \<Rightarrow> (p, set_env e s4))
                                       else (False, s4))
                  in if plugged then Some (None, queue_exit q rq s5) else Some (Some (c, nr_segs), s5)
           } }"
      unfolding submit_prepare_def Let_def e prod.case by (simp only: nz ok if_True if_False not_True_eq_False prod.case)
    obtain y n k where sp: "f_split api x (f_lim api q) (sb_blk s1) = Some (y, n, k)"
      using assms(7) unfolding eq by (auto split: bind_splits)
    show ?thesis
    proof (cases y)
      case None
      then have "go = None" "s' = queue_exit q rq (s1\<lparr>sb_blk := k\<rparr>)"
        using assms(7) unfolding eq by (simp_all add: sp Let_def)
      then show ?thesis using out ok(1) by blast
    next
      case (Some c)
      obtain b0 where b0: "bk_bios k c = Some b0" "sound_bio b0" using assms(4,6) sp Some unfolding splits_sound_def by blast
      define b1 where "b1 = (if f_integrity_action api b0 \<noteq> 0 then f_integrity_prep api b0 (f_integrity_action api b0) else b0)"
      have "extent_of b1 = extent_of b0" using assms(1) by (simp add: b1_def fapi_ok_def)
      then have b1: "sound_bio b1" using b0(2) by (simp add: sound_bio_def extent_of_def)
      let ?s3 = "s1\<lparr>sb_blk := put_bio c b1 k\<rparr>"
      have g3: "good api busy ?s3" "\<forall>a. rq = Some a \<longrightarrow> in_hand api q a ?s3" "bk_bios (sb_blk ?s3) c = Some b1"
        using s1(1,2) by (simp_all add: put_bio_def)
      have "submit_prepare api q x b rq s = do { (merged, s4) \<leftarrow> try_merge api q b1 n ?s3;
           if merged then Some (None, queue_exit q rq s4)
           else let (plugged, s5) = (if f_needs_zone_plug api b1
                                     then (case f_zone_plug_bio api b1 n (sb_env s4) of (p, e) \<Rightarrow> (p, set_env e s4))
                                     else (False, s4))
                in if plugged then Some (None, queue_exit q rq s5) else Some (Some (c, n), s5) }"
        unfolding eq by (simp only: sp Some b0(1) Option.bind.simps prod.case option.case Let_def b1_def sub.update_convs) simp
      from after_split [OF assms(1) g3(1,2) b1 g3(3) this [symmetric, unfolded assms(7)]] show ?thesis
        using s1(3,4) ok(1) nz by (auto split: option.splits)
    qed
  qed
qed

lemma cached_request_hand:
  assumes "good api busy s" and "cached_request api q b s = (rq, s1)"
  shows "good api busy s1" "placed_rqs api s1 = placed_rqs api s" "sb_blk s1 = sb_blk s" "\<forall>a. rq = Some a \<longrightarrow> in_hand api q a s1"
    "refs p s1 = refs p s + (if p = q \<and> rq \<noteq> None then 1 else 0)"
proof -
  consider (none) "rq = None" "s1 = s"
    | (some) a rest where "rq = Some a" "sb_cached s = a # rest" "s1 = s\<lparr>sb_cached := rest\<rparr>" "rq_q (sb_rq s a) = q"
  proof (cases "if sb_plug s = None then [] else sb_cached s")
    case Nil
    then show ?thesis using assms(2) none by (simp add: cached_request_def)
  next
    case (Cons a rest)
    then have c: "sb_cached s = a # rest" by (simp split: if_splits)
    obtain f l where g: "blk_mq_get_cached_request (f_u api) [sb_rq s a] q (bi_op b) (bi_opf b) = (f, l)" by force
    have f: "f = None \<or> rq_q (sb_rq s a) = q" using g by (auto simp: blk_mq_get_cached_request_def split: if_splits)
    have "(rq, s1) = (if f = None then (None, s) else (Some a, s\<lparr>sb_cached := rest\<rparr>))"
      using assms(2) unfolding cached_request_def Cons list.case g by (cases f) simp_all
    then show ?thesis using none some [OF _ c] f by (auto split: if_splits)
  qed
  then have "good api busy s1 \<and> placed_rqs api s1 = placed_rqs api s \<and> sb_blk s1 = sb_blk s \<and> (\<forall>a. rq = Some a \<longrightarrow> in_hand api q a s1) \<and>
      refs p s1 = refs p s + (if p = q \<and> rq \<noteq> None then 1 else 0)"
  proof cases
    case none
    then show ?thesis using assms(1) by simp
  next
    case some
    have c: "cached_ok (f_a api) s" using assms(1) by (simp add: good_def)
    show ?thesis
      using some assms(1) cached_pop [OF c some(2)] refs_pop [OF some(2), of p]
      by (auto simp: good_def in_hand_def in_use_def placed_rqs_def plug_list_def cached_ok_def)
  qed
  then show "good api busy s1" "placed_rqs api s1 = placed_rqs api s" "sb_blk s1 = sb_blk s" "\<forall>a. rq = Some a \<longrightarrow> in_hand api q a s1"
    "refs p s1 = refs p s + (if p = q \<and> rq \<noteq> None then 1 else 0)" by simp_all
qed

text \<open>
  C18: Submitting a descriptor loses neither a request nor a reference. Whichever way the call returns
  (it could not enter the queue, the descriptor was ended with an error, split away, merged, held in a
  zone write plug, refused a request or a key, put on the plug list, queued, or issued), at most one
  request has been added to the places requests can be in, and the references on its queue that are not
  held by cached requests have grown by exactly that number; a descriptor from a zone write plug brings
  the reference of its request with it. No other queue is touched.
\<close>

theorem submit_bio_balanced:
  assumes "fapi_ok api busy" and "good api busy s" and "bk_bios (sb_blk s) x = Some b" and "splits_sound api x b"
    and "blk_mq_submit_bio api x s = Some s'"
  shows "\<exists>D. size D \<le> 1 \<and> placed_rqs api s' = placed_rqs api s + D \<and>
    (\<forall>p. refs p s' = refs p s + (if p = f_queue_of api b then int (size D) - (if f_zone_plugging api b then 1 else 0) else 0))"
proof -
  define q where "q = f_queue_of api b"
  obtain rq s1 where c: "cached_request api q b s = (rq, s1)" by force
  note hand = cached_request_hand [OF assms(2) c]
  have b1: "bk_bios (sb_blk s1) x = Some b" using hand(3) assms(3) by simp
  obtain go s2 where p: "submit_prepare api q x b rq s1 = Some (go, s2)"
    using assms(3,5) c by (auto simp: blk_mq_submit_bio_def q_def Let_def split: bind_splits)
  note prep = prepare_laws [OF assms(1) hand(1,4) assms(4) b1 q_def p]
  show ?thesis unfolding q_def [symmetric]
  proof (cases go)
    case None
    then have "s' = s2" using assms(3,5) c p by (simp add: blk_mq_submit_bio_def q_def)
    then show "\<exists>D. size D \<le> 1 \<and> placed_rqs api s' = placed_rqs api s + D \<and>
        (\<forall>p. refs p s' = refs p s + (if p = q then int (size D) - (if f_zone_plugging api b then 1 else 0) else 0))"
      using prep None hand(2,5) by (intro exI [of _ "{#}"]) auto
  next
    case (Some yn)
    then obtain y n where go: "go = Some (y, n)" by (cases yn) auto
    then have r: "submit_request api q (f_is_sync api (bi_op b) (bi_opf b)) y n rq s2 = Some s'"
      using assms(3,5) c p by (simp add: blk_mq_submit_bio_def q_def)
    have g2: "good api busy s2" "\<forall>a. rq = Some a \<longrightarrow> in_hand api q a s2" using prep go by simp_all
    obtain b2 where b2: "bk_bios (sb_blk s2) y = Some b2" "sound_bio b2" using prep go by auto
    obtain D where D: "size D \<le> 1" "placed_rqs api s' = placed_rqs api s2 + D"
      "\<forall>p. refs p s' = refs p s2 + (if p = q then int (size D) - 1 else 0)"
      using request_settled [OF assms(1) g2(1) b2 g2(2) r] by (auto simp: settled_def)
    show "\<exists>D. size D \<le> 1 \<and> placed_rqs api s' = placed_rqs api s + D \<and>
        (\<forall>p. refs p s' = refs p s + (if p = q then int (size D) - (if f_zone_plugging api b then 1 else 0) else 0))"
      using prep go D hand(2,5) by (intro exI [of _ D]) auto
  qed
qed

section \<open>A concrete device\<close>

definition demo_fapi :: "nat fapi" where
  "demo_fapi = \<lparr>f_a = demo_aapi, f_s = demo_sapi, f_queue_of = (\<lambda>b. 0), f_lim = (\<lambda>q. demo_lim), f_zone_plugging = (\<lambda>b. False),
     f_nr_segments = (\<lambda>b. 0), f_queue_enter = (\<lambda>x k. (True, k)), f_can_poll = (\<lambda>q. False), f_split = (\<lambda>x lim k. if bk_bios k x = Some demo_bio then Some (Some x, 32, k) else Some (None, 0, k)),
     f_integrity_action = (\<lambda>b. 0), f_integrity_prep = (\<lambda>b i. b), f_needs_zone_plug = (\<lambda>b. False), f_zone_plug_bio = (\<lambda>b n e. (False, e)),
     f_keyslot = (\<lambda>r. 0), f_zone_init = (\<lambda>r. r), f_insert_flush = (\<lambda>a m. (False, m)), f_is_sync = (\<lambda>op f. False),
     f_nr_hw_queues = (\<lambda>q. 1), f_ioerr = 10, f_notsupp = 1, f_again = 12\<rparr>"

lemma demo_fapi_ok: "fapi_ok demo_fapi demo_busy"
  using demo_aapi_ok demo_sub_ok(3) demo_qapi_ok demo_mapi_ok
  by (simp add: fapi_ok_def demo_fapi_def plug_limit_ok_def demo_aapi_def demo_qapi_def demo_uapi_def demo_dapi_def)

lemma demo_good: "good demo_fapi demo_busy demo_sub"
  using demo_sub_ok(1,2)
  by (simp add: good_def demo_fapi_def) (simp add: demo_sub_def plug_list_def ready_def plug_ok_def able_def demo_nmq_def demo_rq_def demo_aapi_def demo_qapi_def)

lemma demo_splits: "splits_sound demo_fapi 0 demo_bio"
  by (auto simp: splits_sound_def demo_fapi_def sound_bio_def demo_bio_def bio_init_def split: if_splits)

lemma demo_cached: "cached_request demo_fapi 0 demo_bio demo_sub = (Some 7, demo_sub\<lparr>sb_cached := []\<rparr>)"
  by (simp add: cached_request_def blk_mq_get_cached_request_def demo_fapi_def demo_aapi_def demo_uapi_def demo_sub_def demo_nmq_def demo_rq_def)

lemma demo_prepare: "\<exists>s2. submit_prepare demo_fapi 0 0 demo_bio (Some 7) (demo_sub\<lparr>sb_cached := []\<rparr>) = Some (Some (0, 32), s2) \<and>
    sb_blk s2 = sb_blk demo_sub \<and> sb_plug s2 = sb_plug demo_sub"
proof -
  have "\<not> bio_unaligned demo_uapi demo_bio 0"
    by (simp add: bio_unaligned_def demo_uapi_def demo_bio_def push_bit_eq_mult Let_def)
  moreover have "bi_opf demo_bio = {REQ_RAHEAD}" by (simp add: demo_bio_def bio_init_def)
  moreover have "put_bio 0 demo_bio demo_blk = demo_blk" by (simp add: put_bio_def demo_blk_def)
  ultimately show ?thesis
    by (simp add: submit_prepare_def demo_fapi_def demo_aapi_def demo_sub_def try_merge_def blk_mq_attempt_bio_merge_def
        blk_attempt_plug_merge_def Let_def demo_uapi_def) (simp add: demo_blk_def)
qed

theorem submit_bio_balanced_witness:
  "\<exists>s' D. blk_mq_submit_bio demo_fapi 0 demo_sub = Some s' \<and> size D \<le> 1 \<and> placed_rqs demo_fapi s' = placed_rqs demo_fapi demo_sub + D \<and>
     refs 0 s' = refs 0 demo_sub + int (size D)"
proof -
  have b: "bk_bios (sb_blk demo_sub) 0 = Some demo_bio" by (simp add: demo_sub_def demo_blk_def)
  obtain s2 where s2: "submit_prepare demo_fapi 0 0 demo_bio (Some 7) (demo_sub\<lparr>sb_cached := []\<rparr>) = Some (Some (0, 32), s2)"
    "sb_blk s2 = sb_blk demo_sub" "sb_plug s2 = sb_plug demo_sub" using demo_prepare by blast
  have q: "f_queue_of demo_fapi demo_bio = 0" by (simp add: demo_fapi_def)
  have "\<exists>s'. submit_request demo_fapi 0 sync 0 32 (Some 7) s2 = Some s'" for sync
    using b s2(2,3)
    by (simp add: submit_request_def submit_place_def set_opf_def Let_def demo_fapi_def demo_sub_def blk_add_rq_to_plug_def demo_aapi_def demo_uapi_def)
  then obtain s' where s': "blk_mq_submit_bio demo_fapi 0 demo_sub = Some s'"
    using b demo_cached s2(1) by (auto simp: blk_mq_submit_bio_def q Let_def)
  from submit_bio_balanced [OF demo_fapi_ok demo_good b demo_splits s'] show ?thesis
    using s' by (auto simp: demo_fapi_def)
qed

end
