(* ===== verification/QueueFreeze.thy ===== *)
theory QueueFreeze
  imports MqLaws
begin

text \<open>
  Freezing and quiescing a queue (\<open>readaround-split/src/block/blk-mq.c\<close>). A frozen queue takes no new
  references; a quiesced one dispatches nothing. Both nest: a counter is kept under a lock, so that each
  operation is one step. The reference counter \<open>q_usage_counter\<close> is its value without the initial
  reference, and a flag that says whether that one has been killed; the flag \<open>QUEUE_FLAG_QUIESCED\<close> is
  in the environment of the queues, where the dispatch functions read it. The owner of a freeze is kept
  for the lock checker only (\<open>CONFIG_LOCKDEP\<close>, the parameter \<open>z_lockdep\<close>).
\<close>

section \<open>State and operations\<close>

record 'e frz =
  fz_mq :: "'e mq"
  fz_depth :: int
  fz_killed :: bool
  fz_usage :: int
  fz_force_atomic :: bool
  fz_owner :: "nat option"
  fz_owner_depth :: int
  fz_disk_dead :: bool
  fz_queue_dying :: bool
  fz_quiesce_depth :: int
  fz_wakes :: nat

record 'e zapi =
  z_q :: "'e qapi"
  z_lockdep :: bool
  z_is_mq :: "nat \<Rightarrow> bool"
  z_disk_gone :: "'e \<Rightarrow> nat \<Rightarrow> bool"
  z_dying :: "'e \<Rightarrow> nat \<Rightarrow> bool"
  z_set_quiesced :: "nat \<Rightarrow> bool \<Rightarrow> 'e \<Rightarrow> 'e"
  z_skip_quiesce :: "nat \<Rightarrow> bool"

definition blk_freeze_set_owner :: "'e zapi \<Rightarrow> nat \<Rightarrow> nat option \<Rightarrow> 'e frz \<Rightarrow> bool \<times> 'e frz" where
  "blk_freeze_set_owner api q owner s =
     (if \<not> z_lockdep api then (False, s)
      else case owner of
        None \<Rightarrow> (False, s)
      | Some t \<Rightarrow>
          if fz_depth s = 0
          then (True, s\<lparr>fz_owner := Some t, fz_owner_depth := 1, fz_disk_dead := z_disk_gone api (mq_env (fz_mq s)) q,
                        fz_queue_dying := z_dying api (mq_env (fz_mq s)) q\<rparr>)
          else if fz_owner s = Some t then (False, s\<lparr>fz_owner_depth := fz_owner_depth s + 1\<rparr>)
          else (False, s))"

definition blk_unfreeze_check_owner :: "'e zapi \<Rightarrow> nat \<Rightarrow> 'e frz \<Rightarrow> bool \<times> 'e frz" where
  "blk_unfreeze_check_owner api current s =
     (if \<not> z_lockdep api then (False, s)
      else if fz_owner s \<noteq> Some current then (False, s)
      else let s1 = s\<lparr>fz_owner_depth := fz_owner_depth s - 1\<rparr>
           in if fz_owner_depth s1 = 0 then (True, s1\<lparr>fz_owner := None\<rparr>) else (False, s1))"

definition freeze_queue_start :: "'e zapi \<Rightarrow> nat \<Rightarrow> nat option \<Rightarrow> 'e frz \<Rightarrow> bool \<times> 'e frz" where
  "freeze_queue_start api q owner s =
     (case blk_freeze_set_owner api q owner s of
        (freeze, s1) \<Rightarrow>
          let s2 = s1\<lparr>fz_depth := fz_depth s1 + 1\<rparr> in
          if fz_depth s2 = 1
          then let s3 = s2\<lparr>fz_killed := True\<rparr>
               in (freeze, if z_is_mq api q then s3\<lparr>fz_mq := blk_mq_run_hw_queues (z_q api) q False (fz_mq s3)\<rparr> else s3)
          else (freeze, s2))"

text \<open>The lock checker is told when the result is true: \<open>blk_freeze_acquire_lock\<close>, a no-op otherwise.\<close>

definition blk_freeze_queue_start :: "'e zapi \<Rightarrow> nat \<Rightarrow> nat \<Rightarrow> 'e frz \<Rightarrow> bool \<times> 'e frz" where
  "blk_freeze_queue_start api q current s = freeze_queue_start api q (Some current) s"

definition blk_freeze_queue_start_non_owner :: "'e zapi \<Rightarrow> nat \<Rightarrow> 'e frz \<Rightarrow> 'e frz" where
  "blk_freeze_queue_start_non_owner api q s = snd (freeze_queue_start api q None s)"

text \<open>What \<open>blk_mq_freeze_queue_wait\<close> waits for: the counter is killed and at zero.\<close>

definition freeze_wait_over :: "'e frz \<Rightarrow> bool" where
  "freeze_wait_over s \<longleftrightarrow> fz_killed s \<and> fz_usage s = 0"

definition unfreeze_queue :: "'e zapi \<Rightarrow> bool \<Rightarrow> nat \<Rightarrow> 'e frz \<Rightarrow> bool \<times> 'e frz" where
  "unfreeze_queue api force_atomic current s =
     (let s1 = (if force_atomic then s\<lparr>fz_force_atomic := True\<rparr> else s);
          s2 = s1\<lparr>fz_depth := fz_depth s1 - 1\<rparr>;
          s3 = (if fz_depth s2 = 0 then s2\<lparr>fz_killed := False, fz_wakes := fz_wakes s2 + 1\<rparr> else s2)
      in blk_unfreeze_check_owner api current s3)"

definition blk_mq_unfreeze_queue_nomemrestore :: "'e zapi \<Rightarrow> nat \<Rightarrow> 'e frz \<Rightarrow> bool \<times> 'e frz" where
  "blk_mq_unfreeze_queue_nomemrestore api current s = unfreeze_queue api False current s"

definition blk_mq_unfreeze_queue_non_owner :: "'e zapi \<Rightarrow> nat \<Rightarrow> 'e frz \<Rightarrow> 'e frz" where
  "blk_mq_unfreeze_queue_non_owner api current s = snd (unfreeze_queue api False current s)"

definition blk_mq_quiesce_queue_nowait :: "'e zapi \<Rightarrow> nat \<Rightarrow> 'e frz \<Rightarrow> 'e frz" where
  "blk_mq_quiesce_queue_nowait api q s =
     (let s1 = s\<lparr>fz_quiesce_depth := fz_quiesce_depth s + 1\<rparr>
      in if fz_quiesce_depth s = 0 then s1\<lparr>fz_mq := (fz_mq s1)\<lparr>mq_env := z_set_quiesced api q True (mq_env (fz_mq s1))\<rparr>\<rparr> else s1)"

text \<open>\<open>blk_mq_wait_quiesce_done\<close> waits for running dispatches; between steps there are none.\<close>

definition blk_mq_quiesce_queue :: "'e zapi \<Rightarrow> nat \<Rightarrow> 'e frz \<Rightarrow> 'e frz" where
  "blk_mq_quiesce_queue api q s = blk_mq_quiesce_queue_nowait api q s"

definition blk_mq_unquiesce_queue :: "'e zapi \<Rightarrow> nat \<Rightarrow> 'e frz \<Rightarrow> 'e frz" where
  "blk_mq_unquiesce_queue api q s =
     (if fz_quiesce_depth s \<le> 0 then s
      else let s1 = s\<lparr>fz_quiesce_depth := fz_quiesce_depth s - 1\<rparr>
           in if fz_quiesce_depth s1 = 0
              then let m = (fz_mq s1)\<lparr>mq_env := z_set_quiesced api q False (mq_env (fz_mq s1))\<rparr>
                   in s1\<lparr>fz_mq := blk_mq_run_hw_queues (z_q api) q True m\<rparr>
              else s1)"

text \<open>The queues of a tag set, each with its own state.\<close>

definition blk_mq_quiesce_tagset :: "'e zapi \<Rightarrow> nat list \<Rightarrow> (nat \<Rightarrow> 'e frz) \<Rightarrow> nat \<Rightarrow> 'e frz" where
  "blk_mq_quiesce_tagset api tag_list ss =
     fold (\<lambda>q ss. if z_skip_quiesce api q then ss else ss(q := blk_mq_quiesce_queue_nowait api q (ss q))) tag_list ss"

definition blk_mq_unquiesce_tagset :: "'e zapi \<Rightarrow> nat list \<Rightarrow> (nat \<Rightarrow> 'e frz) \<Rightarrow> nat \<Rightarrow> 'e frz" where
  "blk_mq_unquiesce_tagset api tag_list ss =
     fold (\<lambda>q ss. if z_skip_quiesce api q then ss else ss(q := blk_mq_unquiesce_queue api q (ss q))) tag_list ss"

section \<open>The steps of a queue\<close>

text \<open>
  The tasks that use a queue: they freeze and unfreeze it, quiesce and unquiesce it, and take and drop
  references. Entering needs a counter that is not killed (\<open>percpu_ref_tryget_live\<close>). The first
  component counts the freezes each task still has to undo, and a task undoes no more than it did; the
  second one counts how often the lock checker was told of an acquisition and of a release.
\<close>

record ghost =
  gh_frozen :: "nat multiset"
  gh_acquired :: nat
  gh_released :: nat

inductive fstep :: "'e zapi \<Rightarrow> nat \<Rightarrow> ghost \<times> 'e frz \<Rightarrow> ghost \<times> 'e frz \<Rightarrow> bool" for api q where
  freeze: "blk_freeze_queue_start api q t s = (l, s') \<Longrightarrow>
    fstep api q (g, s) (g\<lparr>gh_frozen := gh_frozen g + {#t#}, gh_acquired := gh_acquired g + (if l then 1 else 0)\<rparr>, s')"
| unfreeze: "t \<in># gh_frozen g \<Longrightarrow> blk_mq_unfreeze_queue_nomemrestore api t s = (l, s') \<Longrightarrow>
    fstep api q (g, s) (g\<lparr>gh_frozen := gh_frozen g - {#t#}, gh_released := gh_released g + (if l then 1 else 0)\<rparr>, s')"
| enter: "\<not> fz_killed s \<Longrightarrow> fstep api q (g, s) (g, s\<lparr>fz_usage := fz_usage s + 1\<rparr>)"
| exit: "0 < fz_usage s \<Longrightarrow> fstep api q (g, s) (g, s\<lparr>fz_usage := fz_usage s - 1\<rparr>)"
| quiesce: "fstep api q (g, s) (g, blk_mq_quiesce_queue api q s)"
| unquiesce: "fstep api q (g, s) (g, blk_mq_unquiesce_queue api q s)"

inductive freach :: "'e zapi \<Rightarrow> nat \<Rightarrow> 'e frz \<Rightarrow> ghost \<times> 'e frz \<Rightarrow> bool" for api q s0 where
  start: "freach api q s0 (\<lparr>gh_frozen = {#}, gh_acquired = 0, gh_released = 0\<rparr>, s0)"
| step: "freach api q s0 x \<Longrightarrow> fstep api q x y \<Longrightarrow> freach api q s0 y"

inductive_cases fstepE: "fstep api q (g, s) (g', s')"

definition fresh_queue :: "'e zapi \<Rightarrow> nat \<Rightarrow> 'e frz \<Rightarrow> bool" where
  "fresh_queue api q s \<longleftrightarrow> fz_depth s = 0 \<and> \<not> fz_killed s \<and> fz_usage s = 0 \<and> fz_owner s = None \<and> fz_quiesce_depth s = 0 \<and>
     \<not> q_quiesced (z_q api) (mq_env (fz_mq s)) q"

text \<open>The flag is what was last set; running the queues does not change it.\<close>

definition zapi_ok :: "'e zapi \<Rightarrow> nat \<Rightarrow> bool" where
  "zapi_ok api q \<longleftrightarrow> (\<forall>b e. q_quiesced (z_q api) (z_set_quiesced api q b e) q = b) \<and>
     (\<forall>h m. q_quiesced (z_q api) (mq_env (q_sched_dispatch (z_q api) h m)) q = q_quiesced (z_q api) (mq_env m) q)"

section \<open>Invariants\<close>

lemma run_queues_flag:
  assumes "zapi_ok api q"
  shows "q_quiesced (z_q api) (mq_env (blk_mq_run_hw_queues (z_q api) r async m)) q = q_quiesced (z_q api) (mq_env m) q"
proof -
  have one: "q_quiesced (z_q api) (mq_env (blk_mq_run_hw_queue (z_q api) h async m)) q = q_quiesced (z_q api) (mq_env m) q" for h m
    using assms by (simp add: blk_mq_run_hw_queue_def blk_mq_delay_run_hw_queue_def zapi_ok_def)
  have "q_quiesced (z_q api) (mq_env (fold (\<lambda>h s. if q_stopped (z_q api) (mq_env s) h then s
      else if sq = None \<or> sq = Some h \<or> mq_dispatch s h \<noteq> [] then blk_mq_run_hw_queue (z_q api) h async s else s) hs m)) q =
      q_quiesced (z_q api) (mq_env m) q" for sq hs
    by (induction hs arbitrary: m) (simp_all add: one)
  then show ?thesis unfolding blk_mq_run_hw_queues_def Let_def .
qed

definition owner_ok :: "nat option \<Rightarrow> int \<Rightarrow> nat \<Rightarrow> nat \<Rightarrow> nat multiset \<Rightarrow> bool" where
  "owner_ok owner n acquired released F \<longleftrightarrow> (owner = None \<longrightarrow> acquired = released) \<and>
     (\<forall>t. owner = Some t \<longrightarrow> acquired = released + 1 \<and> 0 < n \<and> n \<le> int (count F t))"

definition finv :: "'e zapi \<Rightarrow> nat \<Rightarrow> ghost \<times> 'e frz \<Rightarrow> bool" where
  "finv api q = (\<lambda>(g, s). fz_depth s = int (size (gh_frozen g)) \<and> (fz_killed s \<longleftrightarrow> gh_frozen g \<noteq> {#}) \<and> 0 \<le> fz_usage s \<and>
     0 \<le> fz_quiesce_depth s \<and> (q_quiesced (z_q api) (mq_env (fz_mq s)) q \<longleftrightarrow> 0 < fz_quiesce_depth s) \<and>
     (\<not> z_lockdep api \<longrightarrow> fz_owner s = None) \<and>
     owner_ok (fz_owner s) (fz_owner_depth s) (gh_acquired g) (gh_released g) (gh_frozen g))"

lemma freeze_inv:
  assumes "zapi_ok api q" and "finv api q (g, s)" and "blk_freeze_queue_start api q t s = (l, s')"
  shows "finv api q (g\<lparr>gh_frozen := gh_frozen g + {#t#}, gh_acquired := gh_acquired g + (if l then 1 else 0)\<rparr>, s')"
proof -
  obtain s1 where o: "blk_freeze_set_owner api q (Some t) s = (l, s1)" and s': "s' = (let s2 = s1\<lparr>fz_depth := fz_depth s1 + 1\<rparr> in
      if fz_depth s2 = 1
      then let s3 = s2\<lparr>fz_killed := True\<rparr>
           in (if z_is_mq api q then s3\<lparr>fz_mq := blk_mq_run_hw_queues (z_q api) q False (fz_mq s3)\<rparr> else s3) else s2)"
    using assms(3) by (auto simp: blk_freeze_queue_start_def freeze_queue_start_def Let_def split: prod.splits if_splits)
  have inv: "fz_depth s = int (size (gh_frozen g))" "fz_killed s \<longleftrightarrow> gh_frozen g \<noteq> {#}" "0 \<le> fz_usage s" "0 \<le> fz_quiesce_depth s"
    "q_quiesced (z_q api) (mq_env (fz_mq s)) q \<longleftrightarrow> 0 < fz_quiesce_depth s" using assms(2) by (simp_all add: finv_def)
  have own: "owner_ok (fz_owner s) (fz_owner_depth s) (gh_acquired g) (gh_released g) (gh_frozen g)"
    using assms(2) by (simp add: finv_def)
  have same: "fz_depth s1 = fz_depth s" "fz_killed s1 = fz_killed s" "fz_usage s1 = fz_usage s" "fz_quiesce_depth s1 = fz_quiesce_depth s"
    "fz_mq s1 = fz_mq s" using o by (auto simp: blk_freeze_set_owner_def split: if_splits)
  have none: "fz_owner s = None" if "fz_depth s = 0" using own that inv(1) by (cases "fz_owner s") (auto simp: owner_ok_def)
  have own1: "owner_ok (fz_owner s1) (fz_owner_depth s1) (gh_acquired g + (if l then 1 else 0)) (gh_released g) (gh_frozen g + {#t#})"
    using o own none by (auto simp: blk_freeze_set_owner_def owner_ok_def split: if_splits)
  have fin: "fz_owner s' = fz_owner s1" "fz_owner_depth s' = fz_owner_depth s1" "fz_depth s' = fz_depth s + 1" "fz_usage s' = fz_usage s"
    "fz_quiesce_depth s' = fz_quiesce_depth s" "fz_killed s' \<longleftrightarrow> fz_killed s \<or> fz_depth s = 0"
    "q_quiesced (z_q api) (mq_env (fz_mq s')) q \<longleftrightarrow> q_quiesced (z_q api) (mq_env (fz_mq s)) q"
    using same run_queues_flag [OF assms(1)] by (auto simp: s' Let_def)
  have "\<not> z_lockdep api \<longrightarrow> fz_owner s' = None"
    using o fin(1) assms(2) by (auto simp: blk_freeze_set_owner_def finv_def)
  then show ?thesis using inv own1 fin by (simp add: finv_def)
qed

lemma unfreeze_inv:
  assumes "finv api q (g, s)" and "t \<in># gh_frozen g" and "blk_mq_unfreeze_queue_nomemrestore api t s = (l, s')"
  shows "finv api q (g\<lparr>gh_frozen := gh_frozen g - {#t#}, gh_released := gh_released g + (if l then 1 else 0)\<rparr>, s')"
proof -
  define s2 where "s2 = (let s1 = s\<lparr>fz_depth := fz_depth s - 1\<rparr> in
      if fz_depth s1 = 0 then s1\<lparr>fz_killed := False, fz_wakes := fz_wakes s1 + 1\<rparr> else s1)"
  have c: "blk_unfreeze_check_owner api t s2 = (l, s')"
    using assms(3) by (simp add: blk_mq_unfreeze_queue_nomemrestore_def unfreeze_queue_def Let_def s2_def)
  have inv: "fz_depth s = int (size (gh_frozen g))" "fz_killed s \<longleftrightarrow> gh_frozen g \<noteq> {#}" "0 \<le> fz_usage s" "0 \<le> fz_quiesce_depth s"
    "q_quiesced (z_q api) (mq_env (fz_mq s)) q \<longleftrightarrow> 0 < fz_quiesce_depth s" using assms(1) by (simp_all add: finv_def)
  have own: "owner_ok (fz_owner s) (fz_owner_depth s) (gh_acquired g) (gh_released g) (gh_frozen g)"
    using assms(1) by (simp add: finv_def)
  obtain F where F: "gh_frozen g = add_mset t F" using assms(2) by (metis insert_DiffM)
  have two: "fz_owner s2 = fz_owner s" "fz_owner_depth s2 = fz_owner_depth s" "fz_depth s2 = fz_depth s - 1" "fz_usage s2 = fz_usage s"
    "fz_quiesce_depth s2 = fz_quiesce_depth s" "fz_mq s2 = fz_mq s" "fz_killed s2 \<longleftrightarrow> fz_killed s \<and> fz_depth s \<noteq> 1"
    by (auto simp: s2_def Let_def)
  have same: "fz_depth s' = fz_depth s2" "fz_killed s' = fz_killed s2" "fz_usage s' = fz_usage s2" "fz_quiesce_depth s' = fz_quiesce_depth s2"
    "fz_mq s' = fz_mq s2" using c by (auto simp: blk_unfreeze_check_owner_def Let_def split: if_splits)
  have dep: "\<not> z_lockdep api \<longrightarrow> fz_owner s' = None"
    using c two(1) assms(1) by (auto simp: blk_unfreeze_check_owner_def finv_def)
  have "owner_ok (fz_owner s') (fz_owner_depth s') (gh_acquired g) (gh_released g + (if l then 1 else 0)) F"
  proof (cases "z_lockdep api \<and> fz_owner s = Some t")
    case True
    then show ?thesis using c own two F by (auto simp: blk_unfreeze_check_owner_def owner_ok_def Let_def split: if_splits)
  next
    case False
    then have "(l, s') = (False, s2)" using c two(1) unfolding blk_unfreeze_check_owner_def by (metis (full_types))
    moreover have "fz_owner s \<noteq> Some t" using False assms(1) by (auto simp: finv_def)
    ultimately show ?thesis using own two(1,2) F by (auto simp: owner_ok_def)
  qed
  then show ?thesis using inv two same dep F by (simp add: finv_def)
qed

lemma quiesce_inv:
  assumes "zapi_ok api q" and "finv api q (g, s)"
  shows "finv api q (g, blk_mq_quiesce_queue api q s)"
  using assms by (simp add: finv_def zapi_ok_def blk_mq_quiesce_queue_def blk_mq_quiesce_queue_nowait_def Let_def)

lemma unquiesce_inv:
  assumes "zapi_ok api q" and "finv api q (g, s)"
  shows "finv api q (g, blk_mq_unquiesce_queue api q s)"
proof -
  have "\<not> q_quiesced (z_q api) (mq_env (blk_mq_run_hw_queues (z_q api) q True (m\<lparr>mq_env := z_set_quiesced api q False e\<rparr>))) q" for m e
    using assms(1) run_queues_flag [OF assms(1)] by (simp add: zapi_ok_def)
  then show ?thesis using assms(2) by (simp add: finv_def blk_mq_unquiesce_queue_def Let_def)
qed

lemma step_inv:
  assumes "zapi_ok api q" and "fstep api q x y" and "finv api q x"
  shows "finv api q y"
  using assms(2,3)
proof cases
  case (freeze t s l s' g)
  then show ?thesis using freeze_inv [OF assms(1), of g s t l s'] assms(3) by simp
next
  case (unfreeze t g s l s')
  then show ?thesis using unfreeze_inv [of api q g s t l s'] assms(3) by simp
next
  case (enter s g)
  then show ?thesis using assms(3) by (auto simp: finv_def)
next
  case (exit s g)
  then show ?thesis using assms(3) by (simp add: finv_def)
next
  case (quiesce g s)
  then show ?thesis using quiesce_inv [OF assms(1)] assms(3) by simp
next
  case (unquiesce g s)
  then show ?thesis using unquiesce_inv [OF assms(1)] assms(3) by simp
qed

lemma freach_inv:
  assumes "zapi_ok api q" and "fresh_queue api q s0" and "freach api q s0 x"
  shows "finv api q x"
  using assms(3)
proof induction
  case start
  then show ?case using assms(2) by (auto simp: finv_def fresh_queue_def owner_ok_def)
next
  case (step x y)
  then show ?case using step_inv [OF assms(1)] by blast
qed

text \<open>
  Freezing nests. In every state that tasks reach which undo only their own freezes, the depth is the
  number of freezes not yet undone, the queue takes new references exactly when there is none, the flag
  of a quiesced queue is set exactly when its depth is positive, and the lock checker is told of
  acquisitions and releases in turn, one acquisition being open exactly while the freeze has an owner.
\<close>

theorem freeze_nests:
  assumes "zapi_ok api q" and "fresh_queue api q s0" and "freach api q s0 (g, s)"
  shows "fz_depth s = int (size (gh_frozen g)) \<and> (fz_killed s \<longleftrightarrow> 0 < fz_depth s) \<and>
    (q_quiesced (z_q api) (mq_env (fz_mq s)) q \<longleftrightarrow> 0 < fz_quiesce_depth s) \<and>
    gh_acquired g = gh_released g + (if fz_owner s = None then 0 else 1) \<and> (gh_frozen g = {#} \<longrightarrow> fz_owner s = None)"
proof -
  have i: "finv api q (g, s)" using freach_inv [OF assms] .
  then have "gh_frozen g = {#} \<longrightarrow> fz_owner s = None" by (cases "fz_owner s") (auto simp: finv_def owner_ok_def)
  then show ?thesis using i by (cases "fz_owner s") (auto simp: finv_def nonempty_has_size owner_ok_def)
qed

text \<open>A task waits until its freeze is complete; from then on until it unfreezes.\<close>

inductive while_frozen :: "'e zapi \<Rightarrow> nat \<Rightarrow> nat \<Rightarrow> ghost \<times> 'e frz \<Rightarrow> ghost \<times> 'e frz \<Rightarrow> bool" for api q t where
  here: "while_frozen api q t x x"
| onward: "while_frozen api q t x y \<Longrightarrow> fstep api q y (g, s) \<Longrightarrow> t \<in># gh_frozen g \<Longrightarrow> while_frozen api q t x (g, s)"

lemma step_usage:
  assumes "fstep api q (g, s) (g', s')" and "fz_killed s" and "fz_usage s = 0"
  shows "fz_usage s' = 0"
  using assms
proof cases
  case (freeze t l)
  then show ?thesis using assms(3)
    by (auto simp: blk_freeze_queue_start_def freeze_queue_start_def blk_freeze_set_owner_def Let_def split: prod.splits if_splits)
next
  case (unfreeze t l)
  then show ?thesis using assms(3)
    by (auto simp: blk_mq_unfreeze_queue_nomemrestore_def unfreeze_queue_def blk_unfreeze_check_owner_def Let_def split: if_splits)
next
  case quiesce
  then show ?thesis using assms(3) by (simp add: blk_mq_quiesce_queue_def blk_mq_quiesce_queue_nowait_def Let_def)
next
  case unquiesce
  then show ?thesis using assms(3) by (simp add: blk_mq_unquiesce_queue_def Let_def)
qed (use assms in simp_all)

text \<open>
  C22: A frozen queue is empty and stays so. Once a task has frozen the queue and its wait is over, no
  reference is taken, whatever other tasks do, nested freezes and unfreezes of other tasks included,
  until this task unfreezes the queue.
\<close>

theorem frozen_stays_empty:
  assumes "zapi_ok api q" and "fresh_queue api q s0" and "freach api q s0 (g, s)"
    and "t \<in># gh_frozen g" and "freeze_wait_over s" and "while_frozen api q t (g, s) (g', s')"
  shows "fz_usage s' = 0 \<and> fz_killed s'"
proof -
  have "finv api q y \<and> t \<in># gh_frozen (fst y) \<and> fz_usage (snd y) = 0 \<and> fz_killed (snd y)"
    if "while_frozen api q t x y" and "x = (g, s)" for x y
    using that
  proof induction
    case (here x)
    then show ?case using freach_inv [OF assms(1-3)] assms(4,5) by (simp add: freeze_wait_over_def)
  next
    case (onward x y g1 s1)
    obtain g2 s2 where y: "y = (g2, s2)" by force
    have i: "finv api q (g1, s1)" using step_inv [OF assms(1) onward.hyps(2)] onward.IH onward.prems by simp
    moreover have "fz_usage s1 = 0" using step_usage onward.hyps(2) onward.IH onward.prems y by auto
    moreover have "fz_killed s1" using i onward.hyps(3) by (auto simp: finv_def)
    ultimately show ?case using onward.hyps(3) by simp
  qed
  from this [OF assms(6) refl] show ?thesis by simp
qed

text \<open>
  A quiesced queue dispatches nothing. In every reachable state with a positive quiesce depth, running
  a hardware queue of it changes nothing, and a request that is to be issued directly is inserted into a
  queue instead: the driver sees no request.
\<close>

theorem quiesced_no_dispatch:
  assumes "zapi_ok api q" and "fresh_queue api q s0" and "freach api q s0 (g, s)" and "0 < fz_quiesce_depth s"
    and "q_hctx_queue (z_q api) h = q" and "rq_q (mq_rq (fz_mq s) a) = q" and "q_hctx_queue (z_q api) (rq_mq_hctx (mq_rq (fz_mq s) a)) = q"
  shows "blk_mq_run_hw_queue (z_q api) h async (fz_mq s) = fz_mq s \<and>
    mq_issued (snd (blk_mq_request_issue_directly (z_q api) a is_last (fz_mq s))) = mq_issued (fz_mq s)"
proof -
  have z: "q_quiesced (z_q api) (mq_env (fz_mq s)) q" using freach_inv [OF assms(1-3)] assms(4) by (simp add: finv_def)
  have ins: "mq_issued (blk_mq_insert_request (z_q api) a False m) = mq_issued m" "mq_env (blk_mq_insert_request (z_q api) a False m) = mq_env m" for m
    by (simp_all add: blk_mq_insert_request_def blk_mq_request_bypass_insert_def blk_mq_hctx_mark_pending_def Let_def)
  have "blk_mq_run_hw_queue (z_q api) k u m = m" if "q_hctx_queue (z_q api) k = q" "mq_env m = mq_env (fz_mq s)" for k u m
    using that z by (simp add: blk_mq_run_hw_queue_def blk_mq_hw_queue_need_run_def)
  then show ?thesis using assms(5-7) z ins by (simp add: blk_mq_request_issue_directly_def Let_def)
qed

section \<open>A concrete queue\<close>

text \<open>The environment is the flag of a single queue.\<close>

definition demo_zapi :: "bool zapi" where
  "demo_zapi = \<lparr>z_q = demo_qapi\<lparr>q_quiesced := (\<lambda>e q. e)\<rparr>, z_lockdep = True, z_is_mq = (\<lambda>q. True), z_disk_gone = (\<lambda>e q. False),
     z_dying = (\<lambda>e q. False), z_set_quiesced = (\<lambda>q b e. b), z_skip_quiesce = (\<lambda>q. False)\<rparr>"

definition demo_frz :: "bool frz" where
  "demo_frz = \<lparr>fz_mq = \<lparr>mq_rq = (\<lambda>a. demo_rq (of_nat a * 256)), mq_dispatch = (\<lambda>h. []), mq_sw = (\<lambda>k. []), mq_ctx_map = (\<lambda>h. {}),
     mq_elv = [], mq_requeue = (\<lambda>q. []), mq_flush = (\<lambda>q. []), mq_kicked = [], mq_issued = [], mq_ended = [], mq_told = [], mq_busy = (\<lambda>h. 0),
     mq_restart = (\<lambda>h. False), mq_waiting = (\<lambda>h. False), mq_work = [], mq_env = False\<rparr>,
     fz_depth = 0, fz_killed = False, fz_usage = 0, fz_force_atomic = False, fz_owner = None, fz_owner_depth = 0, fz_disk_dead = False,
     fz_queue_dying = False, fz_quiesce_depth = 0, fz_wakes = 0\<rparr>"

abbreviation demo_ghost :: ghost where
  "demo_ghost \<equiv> \<lparr>gh_frozen = {#}, gh_acquired = 0, gh_released = 0\<rparr>"

lemma demo_zapi_ok: "zapi_ok demo_zapi 0" "fresh_queue demo_zapi 0 demo_frz"
  by (simp_all add: zapi_ok_def fresh_queue_def demo_zapi_def demo_qapi_def demo_frz_def)

lemma demo_freeze: "\<exists>s. freach demo_zapi 0 demo_frz (demo_ghost\<lparr>gh_frozen := {#5#}, gh_acquired := 1\<rparr>, s) \<and> fz_killed s \<and> fz_usage s = 0"
proof -
  obtain s where s: "blk_freeze_queue_start demo_zapi 0 5 demo_frz = (True, s)" "fz_killed s" "fz_usage s = 0"
    by (simp add: blk_freeze_queue_start_def freeze_queue_start_def blk_freeze_set_owner_def demo_zapi_def demo_frz_def)
  have "fstep demo_zapi 0 (demo_ghost, demo_frz) (demo_ghost\<lparr>gh_frozen := {#5#}, gh_acquired := 1\<rparr>, s)"
    using fstep.freeze [OF s(1), of demo_ghost] by simp
  then show ?thesis using freach.step [OF freach.start] s(2,3) by blast
qed

theorem freeze_nests_witness:
  "\<exists>s. freach demo_zapi 0 demo_frz (demo_ghost\<lparr>gh_frozen := {#5#}, gh_acquired := 1\<rparr>, s) \<and> fz_depth s = 1 \<and> fz_owner s \<noteq> None"
proof -
  obtain s where s: "freach demo_zapi 0 demo_frz (demo_ghost\<lparr>gh_frozen := {#5#}, gh_acquired := 1\<rparr>, s)" using demo_freeze by blast
  from freeze_nests [OF demo_zapi_ok s] have "fz_depth s = 1" "fz_owner s \<noteq> None" by (simp_all split: if_splits)
  then show ?thesis using s by (intro exI [of _ s] conjI)
qed

theorem frozen_stays_empty_witness:
  "\<exists>g s. freach demo_zapi 0 demo_frz (g, s) \<and> fz_usage (blk_mq_quiesce_queue demo_zapi 0 s) = 0"
proof -
  define g where "g = demo_ghost\<lparr>gh_frozen := {#5#}, gh_acquired := 1\<rparr>"
  from demo_freeze [folded g_def] obtain s where r: "freach demo_zapi 0 demo_frz (g, s)" "fz_killed s" "fz_usage s = 0"
    by (elim exE conjE)
  have "5 \<in># gh_frozen g" by (simp add: g_def)
  note s = r(1) this r(2,3)
  have "while_frozen demo_zapi 0 5 (g, s) (g, blk_mq_quiesce_queue demo_zapi 0 s)"
    using while_frozen.onward [OF while_frozen.here fstep.quiesce s(2)] .
  from frozen_stays_empty [OF demo_zapi_ok s(1,2) _ this] s show ?thesis by (auto simp: freeze_wait_over_def)
qed

theorem quiesced_no_dispatch_witness:
  "blk_mq_run_hw_queue (z_q demo_zapi) 0 False (fz_mq (blk_mq_quiesce_queue demo_zapi 0 demo_frz)) =
     fz_mq (blk_mq_quiesce_queue demo_zapi 0 demo_frz)"
proof -
  let ?s = "blk_mq_quiesce_queue demo_zapi 0 demo_frz"
  have r: "freach demo_zapi 0 demo_frz (demo_ghost, ?s)" by (rule freach.step [OF freach.start fstep.quiesce])
  have "0 < fz_quiesce_depth ?s" by (simp add: blk_mq_quiesce_queue_def blk_mq_quiesce_queue_nowait_def demo_frz_def)
  moreover have "q_hctx_queue (z_q demo_zapi) h = 0" for h by (simp add: demo_zapi_def demo_qapi_def)
  moreover have "rq_q (mq_rq (fz_mq ?s) 1) = 0"
    by (simp add: blk_mq_quiesce_queue_def blk_mq_quiesce_queue_nowait_def demo_frz_def demo_rq_def)
  ultimately show ?thesis using quiesced_no_dispatch [OF demo_zapi_ok r, of 0 1] by blast
qed

end
