(* ===== verification/RequestLife.thy ===== *)
theory RequestLife
  imports AllocLaws
begin

text \<open>
  The life of a request in the driver (\<open>readaround-split/src/block/blk-mq.c\<close>): it is started, it
  completes, on this CPU or through the list of another one, or it times out; its end frees it, alone or
  in a batch. What headers, the driver and other files do is the record \<open>lapi\<close>; the state keeps, beside
  the requests, the lists of completed requests of the CPUs, the timer of the queue, and what was called:
  the driver's \<open>complete\<close> and \<open>timeout\<close>, the batches of tags, interrupts between CPUs. Statistics, traces,
  the cookie of polled descriptors and quality-of-service callbacks are left out.
\<close>

section \<open>State\<close>

record 'e life =
  lf_sub :: "'e sub"
  lf_done :: "nat \<Rightarrow> nat list"
  lf_ipi :: "nat list"
  lf_softirq :: "nat list"
  lf_completed :: "nat list"
  lf_timeouts :: "nat list"
  lf_batches :: "(nat \<times> nat option list) list"
  lf_timer :: "u64 option"
  lf_idle :: "nat list"

record 'e lapi =
  l_a :: "'e aapi"
  l_stats :: "nat \<Rightarrow> bool"
  l_add_timer :: "request \<Rightarrow> request"
  l_set_rqs :: "nat \<Rightarrow> nat option \<Rightarrow> nat \<Rightarrow> 'e \<Rightarrow> 'e"
  l_integrity_prepare :: "request \<Rightarrow> request"
  l_cpu :: "'e \<Rightarrow> nat"
  l_ctx_cpu :: "nat \<Rightarrow> nat"
  l_nr_ctx :: "nat \<Rightarrow> nat"
  l_smp :: bool
  l_same_comp :: "nat \<Rightarrow> bool"
  l_force_irqthreads :: bool
  l_same_force :: "nat \<Rightarrow> bool"
  l_share_cache :: "nat \<Rightarrow> nat \<Rightarrow> bool"
  l_equal_capacity :: "nat \<Rightarrow> nat \<Rightarrow> bool"
  l_online :: "'e \<Rightarrow> nat \<Rightarrow> bool"
  l_nr_hw_queues :: "nat \<Rightarrow> nat"
  l_complete :: "nat \<Rightarrow> 'e sub \<Rightarrow> 'e sub"
  l_end_io :: "nat \<Rightarrow> nat \<Rightarrow> u8 \<Rightarrow> 'e sub \<Rightarrow> bool \<times> 'e sub"
  l_sub_active :: "nat \<Rightarrow> nat \<Rightarrow> 'e \<Rightarrow> 'e"
  l_put_tags :: "nat \<Rightarrow> nat option list \<Rightarrow> 'e \<Rightarrow> 'e"
  l_timeout :: "(nat \<Rightarrow> 'e sub \<Rightarrow> bool \<times> 'e sub) option"
  l_busy_iter :: "nat \<Rightarrow> 'e sub \<Rightarrow> nat list"
  l_jiffies :: "'e \<Rightarrow> u64"
  l_tryget :: "'e \<Rightarrow> nat \<Rightarrow> bool"
  l_tag_idle :: "nat \<Rightarrow> 'e \<Rightarrow> 'e"
  l_is_flush_rq :: "nat \<Rightarrow> bool"

abbreviation l_d :: "'e lapi \<Rightarrow> dapi" where
  "l_d api \<equiv> q_d (a_q (l_a api))"

abbreviation lf_rq :: "'e life \<Rightarrow> nat \<Rightarrow> request" where
  "lf_rq s \<equiv> sb_rq (lf_sub s)"

definition on_sub :: "('e sub \<Rightarrow> 'e sub) \<Rightarrow> 'e life \<Rightarrow> 'e life" where
  "on_sub f s = s\<lparr>lf_sub := f (lf_sub s)\<rparr>"

section \<open>Starting and completing\<close>

definition blk_mq_start_request :: "'e lapi \<Rightarrow> nat \<Rightarrow> 'e sub \<Rightarrow> 'e sub" where
  "blk_mq_start_request api a s =
     (let rq = sb_rq s a;
          r1 = (if l_stats api (rq_q rq) \<and> \<not> m_passthrough (d_m (l_d api)) rq
                then rq\<lparr>rq_io_start_time_ns := u_now (a_u (l_a api)), rq_stats_sectors := ucast (m_rq_sectors (d_m (l_d api)) rq),
                        rq_rq_flags := insert RQF_STATS (rq_rq_flags rq)\<rparr>
                else rq);
          r2 = (l_add_timer api r1)\<lparr>rq_state := MQ_RQ_IN_FLIGHT\<rparr>;
          r3 = (if m_integrity_rq (d_m (l_d api)) r2 \<and> rq_op r2 = REQ_OP_WRITE then l_integrity_prepare api r2 else r2)
      in set_env (l_set_rqs api (rq_mq_hctx rq) (rq_tag rq) a (sb_env s)) (set_rq a r3 s))"

definition blk_mq_complete_need_ipi :: "'e lapi \<Rightarrow> request \<Rightarrow> 'e \<Rightarrow> bool" where
  "blk_mq_complete_need_ipi api rq e =
     (let cpu = l_cpu api e; c = l_ctx_cpu api (rq_mq_ctx rq) in
      if \<not> l_smp api \<or> \<not> l_same_comp api (rq_q rq) then False
      else if l_force_irqthreads api then False
      else if cpu = c \<or> \<not> l_same_force api (rq_q rq) \<and> l_share_cache api cpu c \<and> l_equal_capacity api cpu c then False
      else l_online api e c)"

text \<open>\<open>llist_add\<close> tells whether the list was empty.\<close>

definition blk_mq_complete_send_ipi :: "'e lapi \<Rightarrow> nat \<Rightarrow> 'e life \<Rightarrow> 'e life" where
  "blk_mq_complete_send_ipi api a s =
     (let cpu = l_ctx_cpu api (rq_mq_ctx (lf_rq s a)); s1 = s\<lparr>lf_done := (lf_done s)(cpu := a # lf_done s cpu)\<rparr>
      in if lf_done s cpu = [] then s1\<lparr>lf_ipi := lf_ipi s1 @ [cpu]\<rparr> else s1)"

definition blk_mq_raise_softirq :: "'e lapi \<Rightarrow> nat \<Rightarrow> 'e life \<Rightarrow> 'e life" where
  "blk_mq_raise_softirq api a s =
     (let cpu = l_cpu api (sb_env (lf_sub s)); s1 = s\<lparr>lf_done := (lf_done s)(cpu := a # lf_done s cpu)\<rparr>
      in if lf_done s cpu = [] then s1\<lparr>lf_softirq := lf_softirq s1 @ [cpu]\<rparr> else s1)"

definition blk_mq_complete_request_remote :: "'e lapi \<Rightarrow> nat \<Rightarrow> 'e life \<Rightarrow> bool \<times> 'e life" where
  "blk_mq_complete_request_remote api a s0 =
     (let s = on_sub (set_rq a ((lf_rq s0 a)\<lparr>rq_state := MQ_RQ_COMPLETE\<rparr>)) s0; rq = lf_rq s a; e = sb_env (lf_sub s) in
      if l_nr_ctx api (rq_mq_hctx rq) = 1 \<and> l_ctx_cpu api (rq_mq_ctx rq) = l_cpu api e \<or> REQ_POLLED \<in> rq_cmd_flags rq then (False, s)
      else if blk_mq_complete_need_ipi api rq e then (True, blk_mq_complete_send_ipi api a s)
      else if l_nr_hw_queues api (rq_q rq) = 1 then (True, blk_mq_raise_softirq api a s)
      else (False, s))"

text \<open>The driver's \<open>complete\<close>.\<close>

definition call_complete :: "'e lapi \<Rightarrow> nat \<Rightarrow> 'e life \<Rightarrow> 'e life" where
  "call_complete api a s = on_sub (l_complete api a) (s\<lparr>lf_completed := lf_completed s @ [a]\<rparr>)"

definition blk_mq_complete_request :: "'e lapi \<Rightarrow> nat \<Rightarrow> 'e life \<Rightarrow> 'e life" where
  "blk_mq_complete_request api a s =
     (case blk_mq_complete_request_remote api a s of (remote, s1) \<Rightarrow> if remote then s1 else call_complete api a s1)"

definition blk_complete_reqs :: "'e lapi \<Rightarrow> nat \<Rightarrow> 'e life \<Rightarrow> 'e life" where
  "blk_complete_reqs api cpu s = fold (call_complete api) (rev (lf_done s cpu)) (s\<lparr>lf_done := (lf_done s)(cpu := [])\<rparr>)"

definition blk_done_softirq :: "'e lapi \<Rightarrow> 'e life \<Rightarrow> 'e life" where
  "blk_done_softirq api s = blk_complete_reqs api (l_cpu api (sb_env (lf_sub s))) s"

definition blk_softirq_cpu_dead :: "'e lapi \<Rightarrow> nat \<Rightarrow> 'e life \<Rightarrow> 'e life" where
  "blk_softirq_cpu_dead api cpu s = blk_complete_reqs api cpu s"

section \<open>Ending\<close>

definition end_request :: "'e lapi \<Rightarrow> nat \<Rightarrow> u8 \<Rightarrow> 'e sub \<Rightarrow> 'e sub" where
  "end_request api a error s =
     (let s1 = set_rq a (blk_mq_finish_request (sb_rq s a)) s in
      case rq_end_io (sb_rq s1 a) of
        None \<Rightarrow> blk_mq_free_request (l_a api) a s1
      | Some f \<Rightarrow> (case l_end_io api f a error s1 of (free, s2) \<Rightarrow> if free then blk_mq_free_request (l_a api) a s2 else s2))"

definition TAG_COMP_BATCH :: nat where "TAG_COMP_BATCH = 32"

definition blk_mq_flush_tag_batch :: "'e lapi \<Rightarrow> nat \<Rightarrow> nat option list \<Rightarrow> 'e life \<Rightarrow> 'e life" where
  "blk_mq_flush_tag_batch api h tags s =
     (let q = q_hctx_queue (a_q (l_a api)) h;
          sub = lf_sub s;
          s1 = set_env (l_put_tags api h tags (l_sub_active api h (length tags) (sb_env sub))) sub
      in s\<lparr>lf_sub := add_usage q (- int (length tags)) s1, lf_batches := lf_batches s @ [(h, tags)]\<rparr>)"

text \<open>The completion of one request of a batch; the result says whether its tag is to be put back.\<close>

definition batch_one :: "'e lapi \<Rightarrow> nat \<Rightarrow> 'e sub \<Rightarrow> bool \<times> 'e sub" where
  "batch_one api a s =
     (case blk_complete_request (l_d api) (rq_end_io (sb_rq s a) \<noteq> None) (sb_rq s a) of
        (r, told) \<Rightarrow>
          let s1 = set_rq a (blk_mq_finish_request r) (s\<lparr>sb_mq := (sb_mq s)\<lparr>mq_told := mq_told (sb_mq s) @ told\<rparr>\<rparr>);
              (own, s2) = (case rq_end_io (sb_rq s1 a) of
                             None \<Rightarrow> (True, s1)
                           | Some f \<Rightarrow> l_end_io api f a 0 s1)
          in if \<not> own then (False, s2)
             else let r2 = (sb_rq s2 a)\<lparr>rq_state := MQ_RQ_IDLE, rq_ref := rq_ref (sb_rq s2 a) - 1\<rparr>
                  in (rq_ref r2 = 0, set_rq a r2 s2))"

fun end_batch_loop :: "'e lapi \<Rightarrow> nat list \<Rightarrow> nat option \<Rightarrow> nat option list \<Rightarrow> 'e life \<Rightarrow> 'e life" where
  "end_batch_loop api [] cur tags s =
     (case cur of
        None \<Rightarrow> s
      | Some h \<Rightarrow> if tags = [] then s else blk_mq_flush_tag_batch api h tags s)"
| "end_batch_loop api (a # as) cur tags s =
     (case batch_one api a (lf_sub s) of
        (put, sub) \<Rightarrow>
          let s1 = s\<lparr>lf_sub := sub\<rparr>; h = rq_mq_hctx (lf_rq s1 a); t = rq_tag (lf_rq s1 a) in
          if \<not> put then end_batch_loop api as cur tags s1
          else if length tags = TAG_COMP_BATCH \<or> cur \<noteq> Some h
          then end_batch_loop api as (Some h) [t] (case cur of None \<Rightarrow> s1 | Some c \<Rightarrow> blk_mq_flush_tag_batch api c tags s1)
          else end_batch_loop api as cur (tags @ [t]) s1)"

definition blk_mq_end_request_batch :: "'e lapi \<Rightarrow> nat list \<Rightarrow> 'e life \<Rightarrow> 'e life" where
  "blk_mq_end_request_batch api req_list s = end_batch_loop api req_list None [] s"

section \<open>Requests in the driver\<close>

definition blk_is_flush_data_rq :: "'e lapi \<Rightarrow> nat \<Rightarrow> request \<Rightarrow> bool" where
  "blk_is_flush_data_rq api a rq \<longleftrightarrow> RQF_FLUSH_SEQ \<in> rq_rq_flags rq \<and> \<not> l_is_flush_rq api a"

definition blk_mq_rq_inflight :: "'e lapi \<Rightarrow> nat \<Rightarrow> 'e sub \<Rightarrow> bool" where
  "blk_mq_rq_inflight api a s \<longleftrightarrow>
     (let rq = sb_rq s a in
      rq_state rq \<noteq> MQ_RQ_IDLE \<and>
      \<not> (q_quiesced (a_q (l_a api)) (sb_env s) (rq_q rq) \<and> blk_is_flush_data_rq api a rq \<and> rq_state rq = MQ_RQ_COMPLETE))"

definition blk_mq_queue_inflight :: "'e lapi \<Rightarrow> nat \<Rightarrow> 'e sub \<Rightarrow> bool" where
  "blk_mq_queue_inflight api q s = list_ex (\<lambda>a. blk_mq_rq_inflight api a s) (l_busy_iter api q s)"

section \<open>Timeouts\<close>

definition time_after :: "u64 \<Rightarrow> u64 \<Rightarrow> bool" where
  "time_after a b \<longleftrightarrow> sint (b - a) < 0"

definition time_after_eq :: "u64 \<Rightarrow> u64 \<Rightarrow> bool" where
  "time_after_eq a b \<longleftrightarrow> 0 \<le> sint (a - b)"

record blk_expired_data =
  ex_has_timedout_rq :: bool
  ex_next :: u64
  ex_timeout_start :: u64

definition blk_mq_req_expired :: "request \<Rightarrow> blk_expired_data \<Rightarrow> bool \<times> blk_expired_data" where
  "blk_mq_req_expired rq expired =
     (if rq_state rq \<noteq> MQ_RQ_IN_FLIGHT then (False, expired)
      else if RQF_TIMED_OUT \<in> rq_rq_flags rq then (False, expired)
      else let deadline = rq_deadline rq in
           if time_after_eq (ex_timeout_start expired) deadline then (True, expired)
           else if ex_next expired = 0 then (False, expired\<lparr>ex_next := deadline\<rparr>)
           else if time_after (ex_next expired) deadline then (False, expired\<lparr>ex_next := deadline\<rparr>)
           else (False, expired))"

definition blk_mq_rq_timed_out :: "'e lapi \<Rightarrow> nat \<Rightarrow> 'e life \<Rightarrow> 'e life" where
  "blk_mq_rq_timed_out api a s =
     (let s1 = on_sub (\<lambda>u. set_rq a ((sb_rq u a)\<lparr>rq_rq_flags := insert RQF_TIMED_OUT (rq_rq_flags (sb_rq u a))\<rparr>) u) s;
          restart = on_sub (\<lambda>u. set_rq a (l_add_timer api (sb_rq u a)) u)
      in case l_timeout api of
           None \<Rightarrow> restart s1
         | Some f \<Rightarrow>
             (case f a (lf_sub s1) of
                (finished, u) \<Rightarrow>
                  let s2 = s1\<lparr>lf_sub := u, lf_timeouts := lf_timeouts s1 @ [a]\<rparr>
                  in if finished then s2 else restart s2))"

text \<open>The iteration stops at the first request that has timed out.\<close>

fun check_expired :: "'e sub \<Rightarrow> nat list \<Rightarrow> blk_expired_data \<Rightarrow> blk_expired_data" where
  "check_expired s [] expired = expired"
| "check_expired s (a # as) expired =
     (case blk_mq_req_expired (sb_rq s a) expired of
        (True, ex) \<Rightarrow> ex\<lparr>ex_has_timedout_rq := True\<rparr>
      | (False, ex) \<Rightarrow> check_expired s as ex)"

fun handle_expired :: "'e lapi \<Rightarrow> nat list \<Rightarrow> blk_expired_data \<Rightarrow> 'e life \<Rightarrow> blk_expired_data \<times> 'e life" where
  "handle_expired api [] expired s = (expired, s)"
| "handle_expired api (a # as) expired s =
     (case blk_mq_req_expired (lf_rq s a) expired of
        (late, ex) \<Rightarrow> handle_expired api as ex (if late then blk_mq_rq_timed_out api a s else s))"

definition blk_mq_timeout_work :: "'e lapi \<Rightarrow> nat \<Rightarrow> 'e life \<Rightarrow> 'e life" where
  "blk_mq_timeout_work api q s =
     (if \<not> l_tryget api (sb_env (lf_sub s)) q then s
      else let s0 = on_sub (add_usage q 1) s;
               ex0 = check_expired (lf_sub s0) (l_busy_iter api q (lf_sub s0))
                       \<lparr>ex_has_timedout_rq = False, ex_next = 0, ex_timeout_start = l_jiffies api (sb_env (lf_sub s0))\<rparr>;
               (ex1, s1) = (if ex_has_timedout_rq ex0
                            then handle_expired api (l_busy_iter api q (lf_sub s0)) (ex0\<lparr>ex_next := 0\<rparr>) s0
                            else (ex0, s0));
               s2 = (if ex_next ex1 \<noteq> 0 then s1\<lparr>lf_timer := Some (ex_next ex1)\<rparr>
                     else let hs = filter (a_mapped (l_a api)) (a_queue_hw_ctx (l_a api) q)
                          in on_sub (\<lambda>u. set_env (fold (l_tag_idle api) hs (sb_env u)) u) (s1\<lparr>lf_idle := lf_idle s1 @ hs\<rparr>))
           in on_sub (add_usage q (- 1)) s2)"

end
