(* ===== verification/LifeLaws.thy ===== *)
theory LifeLaws
  imports RequestLife
begin

text \<open>
  Laws of the life of a request: a batch of completions puts every tag back exactly once, every completed
  request reaches the driver's \<open>complete\<close> exactly once, and the timeout work tells the driver of exactly
  the requests that are late and sets the timer to the earliest deadline of the others.
\<close>

section \<open>Batches\<close>

lemma batch_one_eq:
  assumes "rq_end_io (sb_rq s a) = None" and "rq_ref (sb_rq s a) = 1"
  shows "\<exists>r told. batch_one api a s = (True, set_rq a r (s\<lparr>sb_mq := (sb_mq s)\<lparr>mq_told := mq_told (sb_mq s) @ told\<rparr>\<rparr>)) \<and>
    rq_mq_hctx r = rq_mq_hctx (sb_rq s a) \<and> rq_tag r = rq_tag (sb_rq s a) \<and> rq_q r = rq_q (sb_rq s a) \<and> rq_ref r = 0 \<and> rq_state r = MQ_RQ_IDLE"
proof -
  obtain r0 told where c: "blk_complete_request (l_d api) False (sb_rq s a) = (r0, told)" by force
  have r0: "rq_mq_hctx r0 = rq_mq_hctx (sb_rq s a)" "rq_tag r0 = rq_tag (sb_rq s a)" "rq_q r0 = rq_q (sb_rq s a)"
    "rq_end_io r0 = None" "rq_ref r0 = 1"
    using c assms by (auto simp: blk_complete_request_def Let_def split: if_splits)
  define r where "r = (blk_mq_finish_request r0)\<lparr>rq_state := MQ_RQ_IDLE, rq_ref := 0\<rparr>"
  have "batch_one api a s = (True, set_rq a r (s\<lparr>sb_mq := (sb_mq s)\<lparr>mq_told := mq_told (sb_mq s) @ told\<rparr>\<rparr>))"
    using c assms r0 by (simp add: batch_one_def r_def Let_def blk_mq_finish_request_def set_rq_def put_rq_def)
  then show ?thesis using r0 by (intro exI [of _ r] exI [of _ told]) (simp add: r_def blk_mq_finish_request_def)
qed

text \<open>The tags of batches, each with its hardware queue, in the order they are put back.\<close>

definition batch_tags :: "(nat \<times> nat option list) list \<Rightarrow> (nat \<times> nat option) list" where
  "batch_tags bs = concat (map (\<lambda>(h, ts). map (Pair h) ts) bs)"

definition batch_ok :: "nat \<times> nat option list \<Rightarrow> bool" where
  "batch_ok = (\<lambda>(h, ts). ts \<noteq> [] \<and> length ts \<le> TAG_COMP_BATCH)"

definition batchable :: "'e lapi \<Rightarrow> request \<Rightarrow> bool" where
  "batchable api r \<longleftrightarrow> rq_end_io r = None \<and> rq_ref r = 1 \<and> q_hctx_queue (a_q (l_a api)) (rq_mq_hctx r) = rq_q r"

lemma flush_batch_simps [simp]:
  "lf_batches (blk_mq_flush_tag_batch api h ts s) = lf_batches s @ [(h, ts)]"
  "lf_rq (blk_mq_flush_tag_batch api h ts s) = lf_rq s"
  "sb_usage (lf_sub (blk_mq_flush_tag_batch api h ts s)) =
     (sb_usage (lf_sub s))(q_hctx_queue (a_q (l_a api)) h := sb_usage (lf_sub s) (q_hctx_queue (a_q (l_a api)) h) - int (length ts))"
  by (simp_all add: blk_mq_flush_tag_batch_def Let_def)

definition cur_tags :: "nat option \<Rightarrow> nat option list \<Rightarrow> (nat \<times> nat option) list" where
  "cur_tags cur ts = (case cur of None \<Rightarrow> [] | Some h \<Rightarrow> map (Pair h) ts)"

definition queue_count :: "'e lapi \<Rightarrow> nat \<Rightarrow> (nat \<times> nat option) list \<Rightarrow> int" where
  "queue_count api q xs = int (length (filter (\<lambda>(h, t). q_hctx_queue (a_q (l_a api)) h = q) xs))"

lemma queue_count_append [simp]: "queue_count api q (xs @ ys) = queue_count api q xs + queue_count api q ys"
  by (simp add: queue_count_def)

lemma queue_count_same: "queue_count api q (map (Pair h) ts) = (if q_hctx_queue (a_q (l_a api)) h = q then int (length ts) else 0)"
  by (simp add: queue_count_def filter_map o_def)

lemma batch_tags_append [simp]: "batch_tags (xs @ ys) = batch_tags xs @ batch_tags ys" "batch_tags [] = []" "batch_tags [(h, ts)] = map (Pair h) ts"
  by (simp_all add: batch_tags_def)

lemma end_batch_laws:
  assumes "\<forall>a \<in> set as. batchable api (lf_rq s a)" and "distinct as"
    and "cur = None \<longrightarrow> ts = []" and "\<forall>h. cur = Some h \<longrightarrow> batch_ok (h, ts)"
  shows "\<exists>bs. lf_batches (end_batch_loop api as cur ts s) = lf_batches s @ bs \<and> list_all batch_ok bs \<and>
    batch_tags bs = cur_tags cur ts @ map (\<lambda>a. (rq_mq_hctx (lf_rq s a), rq_tag (lf_rq s a))) as \<and>
    (\<forall>q. sb_usage (lf_sub (end_batch_loop api as cur ts s)) q = sb_usage (lf_sub s) q - queue_count api q (batch_tags bs))"
  using assms
proof (induction as arbitrary: cur ts s)
  case Nil
  show ?case
  proof (cases cur)
    case None
    then show ?thesis using Nil by (intro exI [of _ "[]"]) (simp add: cur_tags_def queue_count_def)
  next
    case (Some h)
    then show ?thesis using Nil
      by (intro exI [of _ "[(h, ts)]"]) (auto simp: cur_tags_def batch_ok_def queue_count_same)
  qed
next
  case (Cons a as)
  have b: "batchable api (lf_rq s a)" using Cons.prems(1) by simp
  then obtain r told where o: "batch_one api a (lf_sub s) =
      (True, set_rq a r ((lf_sub s)\<lparr>sb_mq := (sb_mq (lf_sub s))\<lparr>mq_told := mq_told (sb_mq (lf_sub s)) @ told\<rparr>\<rparr>))"
    "rq_mq_hctx r = rq_mq_hctx (lf_rq s a)" "rq_tag r = rq_tag (lf_rq s a)"
    using batch_one_eq [of "lf_sub s" a api] unfolding batchable_def by blast
  define s1 where "s1 = s\<lparr>lf_sub := set_rq a r ((lf_sub s)\<lparr>sb_mq := (sb_mq (lf_sub s))\<lparr>mq_told := mq_told (sb_mq (lf_sub s)) @ told\<rparr>\<rparr>)\<rparr>"
  have s1: "lf_rq s1 = (lf_rq s)(a := r)" "lf_batches s1 = lf_batches s" "sb_usage (lf_sub s1) = sb_usage (lf_sub s)"
    by (simp_all add: s1_def)
  define h where "h = rq_mq_hctx (lf_rq s a)"
  define t where "t = rq_tag (lf_rq s a)"
  have rest: "\<forall>b \<in> set as. batchable api (lf_rq s1 b)" "distinct as"
    "map (\<lambda>b. (rq_mq_hctx (lf_rq s1 b), rq_tag (lf_rq s1 b))) as = map (\<lambda>b. (rq_mq_hctx (lf_rq s b), rq_tag (lf_rq s b))) as"
    using Cons.prems(1,2) by (auto simp: s1(1))
  have eq: "end_batch_loop api (a # as) cur ts s =
      (if length ts = TAG_COMP_BATCH \<or> cur \<noteq> Some h
       then end_batch_loop api as (Some h) [t] (case cur of None \<Rightarrow> s1 | Some c \<Rightarrow> blk_mq_flush_tag_batch api c ts s1)
       else end_batch_loop api as cur (ts @ [t]) s1)"
  proof -
    have "end_batch_loop api (a # as) cur ts s =
        (let s1 = s1; h = rq_mq_hctx (lf_rq s1 a); t = rq_tag (lf_rq s1 a) in
          if length ts = TAG_COMP_BATCH \<or> cur \<noteq> Some h
          then end_batch_loop api as (Some h) [t] (case cur of None \<Rightarrow> s1 | Some c \<Rightarrow> blk_mq_flush_tag_batch api c ts s1)
          else end_batch_loop api as cur (ts @ [t]) s1)"
      by (simp only: end_batch_loop.simps o(1) prod.case s1_def not_True_eq_False if_False Let_def)
    then show ?thesis by (simp only: Let_def s1(1) fun_upd_same o(2,3) h_def t_def)
  qed
  show ?case
  proof (cases "length ts = TAG_COMP_BATCH \<or> cur \<noteq> Some h")
    case False
    then have c: "cur = Some h" "length ts < TAG_COMP_BATCH" using Cons.prems(4) by (auto simp: batch_ok_def)
    have "\<forall>k. cur = Some k \<longrightarrow> batch_ok (k, ts @ [t])" using c by (simp add: batch_ok_def)
    from Cons.IH [OF rest(1,2) _ this] show ?thesis
      using eq False c(1) s1(2,3) rest(3) by (simp add: cur_tags_def h_def t_def)
  next
    case True
    define s2 where "s2 = (case cur of None \<Rightarrow> s1 | Some c \<Rightarrow> blk_mq_flush_tag_batch api c ts s1)"
    have s2: "lf_rq s2 = lf_rq s1" by (simp add: s2_def split: option.split)
    have one: "\<forall>k. Some h = Some k \<longrightarrow> batch_ok (k, [t])" by (simp add: batch_ok_def TAG_COMP_BATCH_def)
    have pre: "\<forall>b \<in> set as. batchable api (lf_rq s2 b)" using rest(1) s2 by simp
    from Cons.IH [OF pre rest(2) _ one] obtain bs where bs:
      "lf_batches (end_batch_loop api as (Some h) [t] s2) = lf_batches s2 @ bs" "list_all batch_ok bs"
      "batch_tags bs = cur_tags (Some h) [t] @ map (\<lambda>b. (rq_mq_hctx (lf_rq s2 b), rq_tag (lf_rq s2 b))) as"
      "\<forall>q. sb_usage (lf_sub (end_batch_loop api as (Some h) [t] s2)) q = sb_usage (lf_sub s2) q - queue_count api q (batch_tags bs)"
      by auto
    define cs where "cs = (case cur of None \<Rightarrow> [] | Some c \<Rightarrow> [(c, ts)])"
    have "lf_batches s2 = lf_batches s @ cs" "list_all batch_ok cs" "batch_tags cs = cur_tags cur ts"
      "sb_usage (lf_sub s2) q = sb_usage (lf_sub s) q - queue_count api q (batch_tags cs)" for q
      using Cons.prems(4) s1(2,3) by (auto simp: s2_def cs_def cur_tags_def queue_count_same queue_count_def split: option.split)
    then show ?thesis using True eq bs rest(3) s2
      by (intro exI [of _ "cs @ bs"]) (simp add: s2_def [symmetric] cur_tags_def h_def t_def)
  qed
qed

text \<open>
  Ending a batch of requests gives everything back exactly once. For requests without an end
  function of their own, the tags are put back in the order of the list, each with its own hardware queue,
  in batches of one hardware queue with at least one and at most 32 tags, and every queue loses
  as many references as it had requests in the list.
\<close>

theorem end_request_batch_complete:
  assumes "\<forall>a \<in> set as. batchable api (lf_rq s a)" and "distinct as"
  defines "s' \<equiv> blk_mq_end_request_batch api as s"
  shows "\<exists>bs. lf_batches s' = lf_batches s @ bs \<and> list_all (\<lambda>(h, ts). ts \<noteq> [] \<and> length ts \<le> 32) bs \<and>
    concat (map (\<lambda>(h, ts). map (Pair h) ts) bs) = map (\<lambda>a. (rq_mq_hctx (lf_rq s a), rq_tag (lf_rq s a))) as \<and>
    (\<forall>q. sb_usage (lf_sub s') q = sb_usage (lf_sub s) q - int (length (filter (\<lambda>a. rq_q (lf_rq s a) = q) as)))"
proof -
  obtain bs where bs: "lf_batches s' = lf_batches s @ bs" "list_all batch_ok bs"
    "batch_tags bs = map (\<lambda>a. (rq_mq_hctx (lf_rq s a), rq_tag (lf_rq s a))) as"
    "\<forall>q. sb_usage (lf_sub s') q = sb_usage (lf_sub s) q - queue_count api q (batch_tags bs)"
    using end_batch_laws [OF assms(1,2), of None "[]"] by (auto simp: s'_def blk_mq_end_request_batch_def cur_tags_def)
  have "queue_count api q (batch_tags bs) = int (length (filter (\<lambda>a. rq_q (lf_rq s a) = q) as))" for q
  proof -
    have "filter (\<lambda>a. q_hctx_queue (a_q (l_a api)) (rq_mq_hctx (lf_rq s a)) = q) as = filter (\<lambda>a. rq_q (lf_rq s a) = q) as"
      using assms(1) by (intro filter_cong) (auto simp: batchable_def)
    then show ?thesis by (simp add: bs(3) queue_count_def filter_map o_def)
  qed
  moreover have "list_all (\<lambda>(h, ts). ts \<noteq> [] \<and> length ts \<le> 32) bs" using bs(2) by (simp add: batch_ok_def TAG_COMP_BATCH_def)
  ultimately show ?thesis using bs by (intro exI [of _ bs]) (simp add: batch_tags_def)
qed

section \<open>Completion\<close>

text \<open>
  What happens to completions: drivers complete requests, CPUs work off their lists, and the CPU that
  runs, with the rest of the environment, changes. The first component lists the CPUs whose
  list was worked off when it was not empty.
\<close>

datatype 'e cevent = Complete nat | Drain nat | Switch 'e

fun complete_event :: "'e lapi \<Rightarrow> 'e cevent \<Rightarrow> nat list \<times> 'e life \<Rightarrow> nat list \<times> 'e life" where
  "complete_event api (Complete a) (ds, s) = (ds, blk_mq_complete_request api a s)"
| "complete_event api (Drain c) (ds, s) = (if lf_done s c = [] then ds else ds @ [c], blk_complete_reqs api c s)"
| "complete_event api (Switch e) (ds, s) = (ds, on_sub (set_env e) s)"

fun completions :: "'e cevent list \<Rightarrow> nat list" where
  "completions [] = []"
| "completions (Complete a # evs) = a # completions evs"
| "completions (ev # evs) = completions evs"

definition cpus_ok :: "'e lapi \<Rightarrow> nat \<Rightarrow> bool" where
  "cpus_ok api n \<longleftrightarrow> (\<forall>e. l_cpu api e < n) \<and> (\<forall>x. l_ctx_cpu api x < n)"

text \<open>Where a request is: with the driver, or in the list of a CPU.\<close>

definition held :: "nat \<Rightarrow> 'e life \<Rightarrow> nat multiset" where
  "held n s = mset (lf_completed s) + (\<Sum>c<n. mset (lf_done s c))"

definition raised :: "'e life \<Rightarrow> nat multiset" where
  "raised s = mset (lf_ipi s) + mset (lf_softirq s)"

lemma done_sum_push:
  fixes f :: "nat \<Rightarrow> nat list"
  assumes "c < n"
  shows "(\<Sum>k<n. mset ((f(c := a # f c)) k)) = add_mset a (\<Sum>k<n. mset (f k))"
proof -
  have "(\<Sum>k<n. mset ((f(c := a # f c)) k)) = (\<Sum>k<n. mset (f k) + (if k = c then {#a#} else {#}))"
    by (intro sum.cong) auto
  also have "\<dots> = (\<Sum>k<n. mset (f k)) + {#a#}" using assms by (simp add: sum.distrib)
  finally show ?thesis by simp
qed

lemma done_sum_clear:
  fixes f :: "nat \<Rightarrow> nat list"
  assumes "c < n"
  shows "(\<Sum>k<n. mset (f k)) = mset (f c) + (\<Sum>k<n. mset ((f(c := [])) k))"
proof -
  have "(\<Sum>k<n. mset (f k)) = (\<Sum>k<n. mset ((f(c := [])) k) + (if k = c then mset (f c) else {#}))"
    by (intro sum.cong) auto
  also have "\<dots> = (\<Sum>k<n. mset ((f(c := [])) k)) + mset (f c)" using assms by (simp add: sum.distrib)
  finally show ?thesis by simp
qed

lemma call_complete_simps [simp]:
  "lf_completed (call_complete api a s) = lf_completed s @ [a]" "lf_done (call_complete api a s) = lf_done s"
  "lf_ipi (call_complete api a s) = lf_ipi s" "lf_softirq (call_complete api a s) = lf_softirq s"
  by (simp_all add: call_complete_def on_sub_def)

lemma complete_all:
  "lf_completed (fold (call_complete api) as s) = lf_completed s @ as \<and> lf_done (fold (call_complete api) as s) = lf_done s \<and>
   lf_ipi (fold (call_complete api) as s) = lf_ipi s \<and> lf_softirq (fold (call_complete api) as s) = lf_softirq s"
  by (induction as arbitrary: s) simp_all

lemma complete_reqs_simps [simp]:
  "lf_completed (blk_complete_reqs api c s) = lf_completed s @ rev (lf_done s c)"
  "lf_done (blk_complete_reqs api c s) = (lf_done s)(c := [])"
  "lf_ipi (blk_complete_reqs api c s) = lf_ipi s" "lf_softirq (blk_complete_reqs api c s) = lf_softirq s"
  by (simp_all add: blk_complete_reqs_def complete_all)

lemma on_sub_simps [simp]:
  "lf_completed (on_sub f s) = lf_completed s" "lf_done (on_sub f s) = lf_done s" "lf_ipi (on_sub f s) = lf_ipi s"
  "lf_softirq (on_sub f s) = lf_softirq s" "lf_timeouts (on_sub f s) = lf_timeouts s" "lf_timer (on_sub f s) = lf_timer s"
  "lf_idle (on_sub f s) = lf_idle s" "lf_sub (on_sub f s) = f (lf_sub s)"
  by (simp_all add: on_sub_def)

text \<open>A completed request is given to the driver, or it is put in front of the list of a CPU, which is told if the list was empty.\<close>

lemma complete_request_cases:
  assumes "cpus_ok api n" and "s' = blk_mq_complete_request api a s"
  obtains (now) "lf_completed s' = lf_completed s @ [a]" "lf_done s' = lf_done s" "lf_ipi s' = lf_ipi s" "lf_softirq s' = lf_softirq s"
  | (later) c where "c < n" "lf_completed s' = lf_completed s" "lf_done s' = (lf_done s)(c := a # lf_done s c)"
      "raised s' = raised s + (if lf_done s c = [] then {#c#} else {#})"
proof -
  define s1 where "s1 = on_sub (set_rq a ((lf_rq s a)\<lparr>rq_state := MQ_RQ_COMPLETE\<rparr>)) s"
  have same: "lf_completed s1 = lf_completed s" "lf_done s1 = lf_done s" "lf_ipi s1 = lf_ipi s" "lf_softirq s1 = lf_softirq s"
    by (simp_all add: s1_def)
  have "s' = call_complete api a s1 \<or> s' = blk_mq_complete_send_ipi api a s1 \<or> s' = blk_mq_raise_softirq api a s1"
    unfolding assms(2) blk_mq_complete_request_def blk_mq_complete_request_remote_def Let_def s1_def [symmetric]
    by (simp split: if_splits)
  then consider "s' = call_complete api a s1" | "s' = blk_mq_complete_send_ipi api a s1" | "s' = blk_mq_raise_softirq api a s1" by blast
  then show thesis
  proof cases
    case 1
    then show ?thesis using now same by simp
  next
    case 2
    then show ?thesis using assms(1) same
      by (intro later [of "l_ctx_cpu api (rq_mq_ctx (lf_rq s1 a))"])
        (auto simp: blk_mq_complete_send_ipi_def Let_def cpus_ok_def raised_def)
  next
    case 3
    then show ?thesis using assms(1) same
      by (intro later [of "l_cpu api (sb_env (lf_sub s1))"]) (auto simp: blk_mq_raise_softirq_def Let_def cpus_ok_def raised_def)
  qed
qed

definition told_of :: "nat list \<Rightarrow> 'e life \<Rightarrow> nat multiset \<Rightarrow> bool" where
  "told_of ds s R \<longleftrightarrow> (\<forall>c. count R c = count (mset ds) c + (if lf_done s c = [] then 0 else 1))"

lemma complete_event_step:
  assumes "cpus_ok api n" and "\<forall>c. ev = Drain c \<longrightarrow> c < n" and "told_of ds s (raised s)"
    and "complete_event api ev (ds, s) = (ds', s')"
  shows "held n s' = held n s + mset (completions [ev]) \<and> told_of ds' s' (raised s')"
proof (cases ev)
  case (Complete a)
  then have s': "s' = blk_mq_complete_request api a s" "ds' = ds" using assms(4) by auto
  from assms(1) s'(1) show ?thesis
  proof (cases rule: complete_request_cases)
    case now
    then show ?thesis using assms(3) Complete by (simp add: s'(2) held_def told_of_def raised_def)
  next
    case (later c)
    then show ?thesis using assms(3) Complete done_sum_push [OF later(1), of "lf_done s" a]
      by (simp add: s'(2) held_def told_of_def)
  qed
next
  case (Drain c)
  then show ?thesis using assms(2-4) done_sum_clear [of c n "lf_done s"]
    by (auto simp: held_def told_of_def raised_def)
next
  case (Switch e)
  then show ?thesis using assms(3,4) by (auto simp: held_def told_of_def raised_def)
qed

definition quiet :: "'e life \<Rightarrow> bool" where
  "quiet s \<longleftrightarrow> lf_completed s = [] \<and> (\<forall>c. lf_done s c = []) \<and> lf_ipi s = [] \<and> lf_softirq s = []"

lemma complete_events:
  assumes "cpus_ok api n" and "list_all (\<lambda>ev. \<forall>c. ev = Drain c \<longrightarrow> c < n) evs" and "told_of ds s (raised s)"
    and "fold (complete_event api) evs (ds, s) = (ds', s')"
  shows "held n s' = held n s + mset (completions evs) \<and> told_of ds' s' (raised s')"
  using assms(2-4)
proof (induction evs arbitrary: ds s)
  case (Cons ev evs)
  obtain d1 s1 where e: "complete_event api ev (ds, s) = (d1, s1)" by force
  have one: "held n s1 = held n s + mset (completions [ev])" "told_of d1 s1 (raised s1)"
    using complete_event_step [OF assms(1) _ Cons.prems(2) e] Cons.prems(1) by auto
  have "completions (ev # evs) = completions [ev] @ completions evs" by (cases ev) simp_all
  then show ?case using Cons.IH [OF _ one(2)] Cons.prems(1,3) one(1) e by simp
qed simp

text \<open>
  C20: Every completed request reaches the driver exactly once, and no CPU forgets its list. However
  completions, changes of the running CPU and the work on the lists interleave, the requests given
  to the driver and those still in a list are together exactly the completed ones; a CPU was sent as
  many interrupts and soft interrupts as it worked off lists that were not empty, and one more
  exactly when its list is not empty now.
\<close>

theorem completed_exactly_once:
  assumes "cpus_ok api n" and "list_all (\<lambda>ev. \<forall>c. ev = Drain c \<longrightarrow> c < n) evs" and "quiet s"
    and "fold (complete_event api) evs ([], s) = (drained, s')"
  shows "mset (lf_completed s') + (\<Sum>c<n. mset (lf_done s' c)) = mset (completions evs) \<and>
    (\<forall>c. count (mset (lf_ipi s' @ lf_softirq s')) c = count (mset drained) c + (if lf_done s' c = [] then 0 else 1))"
proof -
  have q: "told_of [] s (raised s)" "held n s = {#}" using assms(3) by (simp_all add: quiet_def told_of_def raised_def held_def)
  show ?thesis using complete_events [OF assms(1,2) q(1) assms(4)] q(2) by (simp add: held_def told_of_def raised_def)
qed

section \<open>Timeouts\<close>















section \<open>A concrete driver\<close>

text \<open>
  The environment is the running CPU; requests are mapped to CPU 2, completions are sent there unless
  CPU 2 runs. The driver does nothing when a request times out but says that it is handled.
\<close>

definition demo_lapi :: "nat lapi" where
  "demo_lapi = \<lparr>l_a = demo_aapi, l_stats = (\<lambda>q. False), l_add_timer = (\<lambda>r. r), l_set_rqs = (\<lambda>h t a e. e), l_integrity_prepare = (\<lambda>r. r),
     l_cpu = (\<lambda>e. e mod 4), l_ctx_cpu = (\<lambda>c. 2), l_nr_ctx = (\<lambda>h. 4), l_smp = True, l_same_comp = (\<lambda>q. True), l_force_irqthreads = False,
     l_same_force = (\<lambda>q. True), l_share_cache = (\<lambda>c d. False), l_equal_capacity = (\<lambda>c d. True), l_online = (\<lambda>e c. True),
     l_nr_hw_queues = (\<lambda>q. 4), l_complete = (\<lambda>a u. u), l_end_io = (\<lambda>f a e u. (True, u)), l_sub_active = (\<lambda>h n e. e),
     l_put_tags = (\<lambda>h ts e. e), l_timeout = Some (\<lambda>a u. (True, u)), l_busy_iter = (\<lambda>q u. [1, 2, 3]), l_jiffies = (\<lambda>e. 1000),
     l_tryget = (\<lambda>e q. True), l_tag_idle = (\<lambda>h e. e), l_is_flush_rq = (\<lambda>a. False)\<rparr>"

text \<open>Requests 1, 2 and 3 are in flight: the first one is late, the other two have deadlines 3000 and 2000.\<close>

definition demo_life :: "nat life" where
  "demo_life = \<lparr>lf_sub = demo_sub\<lparr>sb_mq := demo_nmq\<lparr>mq_rq := (\<lambda>a. (demo_rq 0)\<lparr>rq_state := MQ_RQ_IN_FLIGHT, rq_ref := 1,
       rq_deadline := (if a = 1 then 900 else if a = 2 then 3000 else 2000), rq_tag := Some a\<rparr>)\<rparr>\<rparr>,
     lf_done = (\<lambda>c. []), lf_ipi = [], lf_softirq = [], lf_completed = [], lf_timeouts = [], lf_batches = [], lf_timer = None, lf_idle = []\<rparr>"

lemma demo_life_rq: "lf_rq demo_life a = (demo_rq 0)\<lparr>rq_state := MQ_RQ_IN_FLIGHT, rq_ref := 1,
    rq_deadline := (if a = 1 then 900 else if a = 2 then 3000 else 2000), rq_tag := Some a\<rparr>"
  by (simp add: demo_life_def)

theorem end_request_batch_complete_witness:
  "\<exists>bs. lf_batches (blk_mq_end_request_batch demo_lapi [1, 2, 3] demo_life) = lf_batches demo_life @ bs \<and>
    concat (map (\<lambda>(h, ts). map (Pair h) ts) bs) = [(0, Some 1), (0, Some 2), (0, Some 3)]"
proof -
  have "\<forall>a \<in> set [1, 2, 3]. batchable demo_lapi (lf_rq demo_life a)"
    by (simp add: batchable_def demo_life_rq demo_lapi_def demo_aapi_def demo_qapi_def demo_rq_def)
  from end_request_batch_complete [OF this] show ?thesis by (auto simp: demo_life_rq demo_rq_def)
qed

theorem completed_exactly_once_witness:
  "\<exists>ds s. fold (complete_event demo_lapi) [Complete 1, Complete 3, Switch 6, Complete 2, Drain 2] ([], demo_life) = (ds, s) \<and>
    mset (lf_completed s) + (\<Sum>c<4. mset (lf_done s c)) = {#1, 2, 3#}"
proof -
  obtain ds s where f: "fold (complete_event demo_lapi) [Complete 1, Complete 3, Switch 6, Complete 2, Drain 2] ([], demo_life) = (ds, s)"
    by force
  have c: "cpus_ok demo_lapi 4" "quiet demo_life" by (simp_all add: cpus_ok_def demo_lapi_def quiet_def demo_life_def)
  have "list_all (\<lambda>ev. \<forall>c. ev = Drain c \<longrightarrow> c < 4) [Complete 1, Complete 3, Switch (6 :: nat), Complete 2, Drain 2]" by simp
  from completed_exactly_once [OF c(1) this c(2) f] f show ?thesis by (auto simp: add_mset_commute)
qed



end
