(* ===== verification/FileWalk.thy ===== *)
theory FileWalk
  imports PageCache
begin

text \<open>
  Walks over the page cache of a file (\<open>readaround-split/src/mm/filemap.c\<close>): lookups in batches, the wait for
  write-back, the statistics of a range, and the removal of batches. The xarray
  \<open>i_pages\<close> is the list of its entries, sorted by index; an entry is a folio or a value (a shadow or swap entry), covers
  \<open>2^order\<close> indices and carries marks. A walk sees the entries of one moment: retries of
  the lock-free code, references and the RCU lock are left out. Constants of headers, the
  file system and the rest of the memory management are the record \<open>wapi\<close>.
\<close>

section \<open>Entries and walks\<close>

datatype xa_mark = XA_PRESENT | PAGECACHE_TAG_DIRTY | PAGECACHE_TAG_WRITEBACK | PAGECACHE_TAG_TOWRITE

text \<open>
  For a folio \<open>xe_id\<close> is its address, for a value the value itself. \<open>xe_mapped\<close> says whether
  \<open>folio->mapping\<close> is still the mapping of the walk.
\<close>

record xent =
  xe_id :: nat
  xe_value :: bool
  xe_index :: u64
  xe_order :: nat
  xe_marks :: "xa_mark set"
  xe_locked :: bool
  xe_dirty :: bool
  xe_writeback :: bool
  xe_uptodate :: bool
  xe_readahead :: bool
  xe_mapped :: bool

record xmapping =
  mp_entries :: "xent list"
  mp_nrpages :: u64

record wapi =
  w_page_shift :: nat
  w_batch_size :: nat
  w_shmem :: bool
  w_is_swap :: "nat \<Rightarrow> bool"
  w_swap_shadow :: "nat \<Rightarrow> nat option"
  w_recent :: "nat \<Rightarrow> bool"

definition xe_nr :: "xent \<Rightarrow> u64" where
  "xe_nr e = push_bit (xe_order e) 1"

definition xe_next :: "xent \<Rightarrow> u64" where
  "xe_next e = xe_index e + xe_nr e"

definition xe_covers :: "xent \<Rightarrow> u64 \<Rightarrow> bool" where
  "xe_covers e i \<longleftrightarrow> i - xe_index e < xe_nr e"

definition entry_at :: "xmapping \<Rightarrow> u64 \<Rightarrow> xent option" where
  "entry_at m i = find (\<lambda>e. xe_covers e i) (mp_entries m)"

text \<open>
  The results of \<open>xas_find\<close> from an index on, each with \<open>xa_index\<close>: first the entry that covers the index,
  found there, then the entries that begin after it, up to and including \<open>max\<close>.
\<close>

definition xas_walk :: "xmapping \<Rightarrow> u64 \<Rightarrow> u64 \<Rightarrow> (u64 \<times> xent) list" where
  "xas_walk m start mx =
     (if mx < start then []
      else (case entry_at m start of None \<Rightarrow> [] | Some e \<Rightarrow> [(start, e)]) @
           map (\<lambda>e. (xe_index e, e)) (filter (\<lambda>e. start < xe_index e \<and> xe_index e \<le> mx) (mp_entries m)))"

definition find_get_entry :: "xmapping \<Rightarrow> u64 \<Rightarrow> u64 \<Rightarrow> xa_mark \<Rightarrow> (u64 \<times> xent) list" where
  "find_get_entry m start mx mark =
     (if mark = XA_PRESENT then xas_walk m start mx
      else filter (\<lambda>(i, e). mark \<in> xe_marks e) (xas_walk m start mx))"

definition filemap_get_entry :: "xmapping \<Rightarrow> u64 \<Rightarrow> xent option" where
  "filemap_get_entry m index = entry_at m index"

definition round_down_c :: "u64 \<Rightarrow> u64 \<Rightarrow> u64" where
  "round_down_c x y = x AND NOT (y - 1)"

definition pgoff :: "wapi \<Rightarrow> int \<Rightarrow> u64" where
  "pgoff w byte = word_of_int (byte div 2 ^ w_page_shift w)"

section \<open>Questions about a range\<close>

fun has_page_loop :: "(u64 \<times> xent) list \<Rightarrow> bool" where
  "has_page_loop [] = False"
| "has_page_loop ((i, e) # es) = (if xe_value e then has_page_loop es else True)"

definition filemap_range_has_page :: "wapi \<Rightarrow> xmapping \<Rightarrow> int \<Rightarrow> int \<Rightarrow> bool" where
  "filemap_range_has_page w m start_byte end_byte =
     (if end_byte < start_byte then False else has_page_loop (xas_walk m (pgoff w start_byte) (pgoff w end_byte)))"

fun has_writeback_loop :: "(u64 \<times> xent) list \<Rightarrow> bool" where
  "has_writeback_loop [] = False"
| "has_writeback_loop ((i, e) # es) =
     (if xe_value e then has_writeback_loop es
      else if xe_dirty e \<or> xe_locked e \<or> xe_writeback e then True
      else has_writeback_loop es)"

definition filemap_range_has_writeback :: "wapi \<Rightarrow> xmapping \<Rightarrow> int \<Rightarrow> int \<Rightarrow> bool" where
  "filemap_range_has_writeback w m start_byte end_byte =
     (if end_byte < start_byte then False else has_writeback_loop (xas_walk m (pgoff w start_byte) (pgoff w end_byte)))"

section \<open>Batches\<close>

text \<open>\<open>folio_batch_add\<close> tells how much space is left; a batch is full when there is none.\<close>

definition batch_full :: "wapi \<Rightarrow> 'a list \<Rightarrow> bool" where
  "batch_full w fbatch \<longleftrightarrow> w_batch_size w \<le> length fbatch"

fun get_entries_loop :: "wapi \<Rightarrow> (u64 \<times> xent) list \<Rightarrow> (u64 \<times> xent) list \<Rightarrow> (u64 \<times> xent) list" where
  "get_entries_loop w [] fbatch = fbatch"
| "get_entries_loop w (x # es) fbatch =
     (if batch_full w (fbatch @ [x]) then fbatch @ [x] else get_entries_loop w es (fbatch @ [x]))"

text \<open>The batch is returned with the indices, and with the updated \<open>start\<close>.\<close>

definition find_get_entries :: "wapi \<Rightarrow> xmapping \<Rightarrow> u64 \<Rightarrow> u64 \<Rightarrow> u64 \<times> (u64 \<times> xent) list" where
  "find_get_entries w m start end =
     (let fbatch = get_entries_loop w (find_get_entry m start end XA_PRESENT) [] in
      if fbatch = [] then (start, fbatch)
      else (case List.last fbatch of (idx, e) \<Rightarrow> (round_down_c (idx + xe_nr e) (xe_nr e), fbatch)))"

text \<open>The folios that were locked are those of the batch.\<close>

fun lock_entries_loop ::
  "wapi \<Rightarrow> u64 \<Rightarrow> (u64 \<times> xent) list \<Rightarrow> u64 \<Rightarrow> (u64 \<times> xent) list \<Rightarrow> u64 \<times> (u64 \<times> xent) list" where
  "lock_entries_loop w end [] start fbatch = (start, fbatch)"
| "lock_entries_loop w end ((i, e) # es) start fbatch =
     (let nr = xe_nr e;
          base = (if xe_value e then i AND NOT (nr - 1) else xe_index e);
          take = (let fbatch' = fbatch @ [(i, e)] in
                  if batch_full w fbatch' then (base + nr, fbatch') else lock_entries_loop w end es (base + nr) fbatch');
          skip = lock_entries_loop w end es start fbatch
      in if \<not> xe_value e
         then if base < start then skip
              else if end < base + nr - 1 then skip
              else if xe_locked e then skip
              else if \<not> xe_mapped e \<or> xe_writeback e then skip
              else take
         else if base < start then skip
              else if end < base + nr - 1 then (start, fbatch)
              else take)"

definition find_lock_entries :: "wapi \<Rightarrow> xmapping \<Rightarrow> u64 \<Rightarrow> u64 \<Rightarrow> u64 \<times> (u64 \<times> xent) list" where
  "find_lock_entries w m start end = lock_entries_loop w end (find_get_entry m start end XA_PRESENT) start []"

fun get_folios_loop :: "wapi \<Rightarrow> u64 \<Rightarrow> (u64 \<times> xent) list \<Rightarrow> xent list \<Rightarrow> u64 \<times> xent list" where
  "get_folios_loop w end [] fbatch = (if end = - 1 then - 1 else end + 1, fbatch)"
| "get_folios_loop w end ((i, e) # es) fbatch =
     (if xe_value e then get_folios_loop w end es fbatch
      else if batch_full w (fbatch @ [e]) then (xe_index e + xe_nr e, fbatch @ [e])
      else get_folios_loop w end es (fbatch @ [e]))"

definition filemap_get_folios_tag :: "wapi \<Rightarrow> xmapping \<Rightarrow> u64 \<Rightarrow> u64 \<Rightarrow> xa_mark \<Rightarrow> u64 \<times> xent list" where
  "filemap_get_folios_tag w m start end tag = get_folios_loop w end (find_get_entry m start end tag) []"

definition filemap_get_folios :: "wapi \<Rightarrow> xmapping \<Rightarrow> u64 \<Rightarrow> u64 \<Rightarrow> u64 \<times> xent list" where
  "filemap_get_folios w m start end = filemap_get_folios_tag w m start end XA_PRESENT"

fun get_dirty_loop :: "wapi \<Rightarrow> u64 \<Rightarrow> (u64 \<times> xent) list \<Rightarrow> xent list \<Rightarrow> u64 \<times> xent list" where
  "get_dirty_loop w end [] fbatch = (if end = - 1 then - 1 else end + 1, fbatch)"
| "get_dirty_loop w end ((i, e) # es) fbatch =
     (if xe_value e then get_dirty_loop w end es fbatch
      else if \<not> xe_locked e \<and> \<not> xe_dirty e \<and> \<not> xe_writeback e then get_dirty_loop w end es fbatch
      else if batch_full w (fbatch @ [e]) then (xe_index e + xe_nr e, fbatch @ [e])
      else get_dirty_loop w end es (fbatch @ [e]))"

definition filemap_get_folios_dirty :: "wapi \<Rightarrow> xmapping \<Rightarrow> u64 \<Rightarrow> u64 \<Rightarrow> u64 \<times> xent list" where
  "filemap_get_folios_dirty w m start end = get_dirty_loop w end (find_get_entry m start end XA_PRESENT) []"

text \<open>
  \<open>xas_load\<close> and \<open>xas_next\<close> after \<open>xas_advance\<close>: the entry at the index after the last folio, which is never a
  sibling slot.
\<close>

definition update_start :: "u64 \<Rightarrow> xent list \<Rightarrow> u64" where
  "update_start start fbatch = (if fbatch = [] then start else xe_next (List.last fbatch))"

function contig_loop :: "wapi \<Rightarrow> xmapping \<Rightarrow> u64 \<Rightarrow> u64 \<Rightarrow> u64 \<Rightarrow> xent list \<Rightarrow> u64 \<times> xent list" where
  "contig_loop w m end start i fbatch =
     (case entry_at m i of
        None \<Rightarrow> (update_start start fbatch, fbatch)
      | Some e \<Rightarrow>
          if end < i then (update_start start fbatch, fbatch)
          else if xe_value e then (update_start start fbatch, fbatch)
          else if batch_full w (fbatch @ [e]) then (xe_index e + xe_nr e, fbatch @ [e])
          else contig_loop w m end start (xe_next e) (fbatch @ [e]))"
  by pat_completeness auto
termination by (relation "measure (\<lambda>(w, m, end, start, i, fbatch). w_batch_size w - length fbatch)") (auto simp: batch_full_def)

definition filemap_get_folios_contig :: "wapi \<Rightarrow> xmapping \<Rightarrow> u64 \<Rightarrow> u64 \<Rightarrow> u64 \<times> xent list" where
  "filemap_get_folios_contig w m start end = contig_loop w m end start start []"

function read_batch_loop :: "wapi \<Rightarrow> xmapping \<Rightarrow> u64 \<Rightarrow> u64 \<Rightarrow> xent list \<Rightarrow> xent list" where
  "read_batch_loop w m mx i fbatch =
     (case entry_at m i of
        None \<Rightarrow> fbatch
      | Some e \<Rightarrow>
          if mx < i \<or> xe_value e then fbatch
          else if batch_full w (fbatch @ [e]) then fbatch @ [e]
          else if \<not> xe_uptodate e then fbatch @ [e]
          else if xe_readahead e then fbatch @ [e]
          else read_batch_loop w m mx (xe_next e) (fbatch @ [e]))"
  by pat_completeness auto
termination by (relation "measure (\<lambda>(w, m, max, i, fbatch). w_batch_size w - length fbatch)") (auto simp: batch_full_def)

definition filemap_get_read_batch :: "wapi \<Rightarrow> xmapping \<Rightarrow> u64 \<Rightarrow> u64 \<Rightarrow> xent list" where
  "filemap_get_read_batch w m index mx = read_batch_loop w m mx index []"

section \<open>Waiting for write-back\<close>

text \<open>\<open>folio_wait_writeback\<close> is the parameter \<open>wait\<close>; what it does to the mapping is up to whoever ends the write-back.\<close>

partial_function (option) fdatawait_loop ::
  "wapi \<Rightarrow> (nat \<Rightarrow> xmapping \<Rightarrow> xmapping) \<Rightarrow> u64 \<Rightarrow> u64 \<Rightarrow> xmapping \<Rightarrow> xmapping option" where
  "fdatawait_loop w wait index end m =
     (if end < index then Some m
      else case filemap_get_folios_tag w m index end PAGECACHE_TAG_WRITEBACK of
             (index', fbatch) \<Rightarrow>
               if fbatch = [] then Some m
               else fdatawait_loop w wait index' end (fold wait (map xe_id fbatch) m))"

definition filemap_fdatawait_bytes ::
  "wapi \<Rightarrow> (nat \<Rightarrow> xmapping \<Rightarrow> xmapping) \<Rightarrow> int \<Rightarrow> int \<Rightarrow> xmapping \<Rightarrow> xmapping option" where
  "filemap_fdatawait_bytes w wait start_byte end_byte m = fdatawait_loop w wait (pgoff w start_byte) (pgoff w end_byte) m"

section \<open>Removal and replacement\<close>

fun delete_batch_loop :: "(u64 \<times> xent) list \<Rightarrow> nat list \<Rightarrow> xent list" where
  "delete_batch_loop [] fbatch = []"
| "delete_batch_loop ((i, e) # es) [] = []"
| "delete_batch_loop ((i, e) # es) (f # fs) =
     (if xe_value e then delete_batch_loop es (f # fs)
      else if xe_id e \<noteq> f then delete_batch_loop es (f # fs)
      else e # delete_batch_loop es fs)"

definition remove_entries :: "xent list \<Rightarrow> xmapping \<Rightarrow> xmapping" where
  "remove_entries gone m = m\<lparr>mp_entries := filter (\<lambda>e. e \<notin> set gone) (mp_entries m), mp_nrpages := mp_nrpages m - sum_list (map xe_nr gone)\<rparr>"

text \<open>The batch is a list of folios; its first one is where the walk begins.\<close>

definition page_cache_delete_batch :: "xent list \<Rightarrow> xmapping \<Rightarrow> xmapping" where
  "page_cache_delete_batch fbatch m =
     remove_entries (delete_batch_loop (xas_walk m (xe_index (hd fbatch)) ULONG_MAX) (map xe_id fbatch)) m"

text \<open>Statistics, and the release of the folios by the file system, are left out.\<close>

definition delete_from_page_cache_batch :: "xent list \<Rightarrow> xmapping \<Rightarrow> xmapping" where
  "delete_from_page_cache_batch fbatch m = (if fbatch = [] then m else page_cache_delete_batch fbatch m)"

definition filemap_remove_folio :: "xent \<Rightarrow> xmapping \<Rightarrow> xmapping" where
  "filemap_remove_folio folio m = remove_entries [folio] m"

text \<open>The new folio takes the place of the old one; the marks belong to the slot.\<close>

definition replace_page_cache_folio :: "xent \<Rightarrow> xent \<Rightarrow> xmapping \<Rightarrow> xmapping" where
  "replace_page_cache_folio old new m =
     m\<lparr>mp_entries := map (\<lambda>e. if e = old then new\<lparr>xe_index := xe_index old, xe_mapped := True, xe_marks := xe_marks old\<rparr> else e) (mp_entries m)\<rparr>"

section \<open>Statistics of a range\<close>

record cachestat =
  cs_cache :: u64
  cs_dirty :: u64
  cs_writeback :: u64
  cs_evicted :: u64
  cs_recently_evicted :: u64

definition covered_pages :: "u64 \<Rightarrow> u64 \<Rightarrow> u64 \<times> xent \<Rightarrow> u64" where
  "covered_pages first_index last_index = (\<lambda>(i, e).
     let nr = xe_nr e; f = round_down_c i nr; l = f + nr - 1;
         nr1 = (if f < first_index then nr - (first_index - f) else nr)
     in if last_index < l then nr1 - (l - last_index) else nr1)"

definition shadow_recent :: "wapi \<Rightarrow> nat \<Rightarrow> bool" where
  "shadow_recent w v =
     (if w_shmem w
      then if \<not> w_is_swap w v then False
           else (case w_swap_shadow w v of None \<Rightarrow> False | Some shadow \<Rightarrow> w_recent w shadow)
      else w_recent w v)"

definition cachestat_step :: "wapi \<Rightarrow> u64 \<Rightarrow> u64 \<Rightarrow> u64 \<times> xent \<Rightarrow> cachestat \<Rightarrow> cachestat" where
  "cachestat_step w first_index last_index x cs =
     (let e = snd x; n = covered_pages first_index last_index x in
      if xe_value e
      then let c = cs\<lparr>cs_evicted := cs_evicted cs + n\<rparr>
           in if shadow_recent w (xe_id e) then c\<lparr>cs_recently_evicted := cs_recently_evicted c + n\<rparr> else c
      else let c0 = cs\<lparr>cs_cache := cs_cache cs + n\<rparr>;
               c1 = (if PAGECACHE_TAG_DIRTY \<in> xe_marks e then c0\<lparr>cs_dirty := cs_dirty c0 + n\<rparr> else c0)
           in if PAGECACHE_TAG_WRITEBACK \<in> xe_marks e then c1\<lparr>cs_writeback := cs_writeback c1 + n\<rparr> else c1)"

definition filemap_cachestat :: "wapi \<Rightarrow> xmapping \<Rightarrow> u64 \<Rightarrow> u64 \<Rightarrow> cachestat \<Rightarrow> cachestat" where
  "filemap_cachestat w m first_index last_index cs =
     fold (cachestat_step w first_index last_index) (xas_walk m first_index last_index) cs"

definition EPERM :: int where "EPERM = 1"
definition EBADF :: int where "EBADF = 9"
definition EFAULT :: int where "EFAULT = 14"
definition EINVAL :: int where "EINVAL = 22"
definition EOPNOTSUPP :: int where "EOPNOTSUPP = 95"

text \<open>The file: its mapping, whether it is a huge-page file, its mode and permissions.\<close>

record cs_file =
  cf_mapping :: xmapping
  cf_hugepages :: bool
  cf_fmode_write :: bool
  cf_owner_or_capable :: bool
  cf_may_write :: int

definition can_do_cachestat :: "cs_file \<Rightarrow> bool" where
  "can_do_cachestat f = (if cf_fmode_write f then True else if cf_owner_or_capable f then True else cf_may_write f = 0)"

definition sys_cachestat ::
  "wapi \<Rightarrow> cs_file option \<Rightarrow> (u64 \<times> u64) option \<Rightarrow> bool \<Rightarrow> u32 \<Rightarrow> int + cachestat" where
  "sys_cachestat w fd cstat_range writable flags =
     (case fd of
        None \<Rightarrow> Inl (- EBADF)
      | Some f \<Rightarrow>
          (case cstat_range of
             None \<Rightarrow> Inl (- EFAULT)
           | Some (off, len) \<Rightarrow>
               if cf_hugepages f then Inl (- EOPNOTSUPP)
               else if \<not> can_do_cachestat f then Inl (- EPERM)
               else if flags \<noteq> 0 then Inl (- EINVAL)
               else let first_index = drop_bit (w_page_shift w) off;
                        last_index = (if len = 0 then ULONG_MAX else drop_bit (w_page_shift w) (off + len - 1));
                        cs = filemap_cachestat w (cf_mapping f) first_index last_index
                               \<lparr>cs_cache = 0, cs_dirty = 0, cs_writeback = 0, cs_evicted = 0, cs_recently_evicted = 0\<rparr>
                    in if \<not> writable then Inl (- EFAULT) else Inr cs))"

end
