(* ===== verification/WalkLaws.thy ===== *)
theory WalkLaws
  imports FileWalk "HOL-Library.Sublist"
begin

text \<open>
  Laws of the walks over the page cache: what a walk sees, that batches continue where the last one
  ended, what waiting for write-back, the statistics and the removal of a batch achieve.
\<close>

section \<open>What a walk sees\<close>

abbreviation lo :: "xent \<Rightarrow> nat" where
  "lo e \<equiv> unat (xe_index e)"

definition hi :: "xent \<Rightarrow> nat" where
  "hi e = lo e + 2 ^ xe_order e"

text \<open>File offsets are 63-bit numbers of bytes, so that the last page index is never used.\<close>

definition ent_ok :: "xent \<Rightarrow> bool" where
  "ent_ok e \<longleftrightarrow> hi e < 2 ^ 64 \<and> 2 ^ xe_order e dvd lo e \<and> xe_order e < 31"

definition before :: "xent \<Rightarrow> xent \<Rightarrow> bool" where
  "before a b \<longleftrightarrow> hi a \<le> lo b"

definition map_ok :: "xmapping \<Rightarrow> bool" where
  "map_ok m \<longleftrightarrow> (\<forall>e \<in> set (mp_entries m). ent_ok e) \<and> sorted_wrt before (mp_entries m)"

definition touches :: "nat \<Rightarrow> nat \<Rightarrow> xent \<Rightarrow> bool" where
  "touches s t e \<longleftrightarrow> s < hi e \<and> lo e \<le> t"

definition touched :: "xmapping \<Rightarrow> u64 \<Rightarrow> u64 \<Rightarrow> xent list" where
  "touched m s t = (if t < s then [] else filter (touches (unat s) (unat t)) (mp_entries m))"

lemma lo_less_hi: "lo e < hi e"
  by (simp add: hi_def)

lemma xe_nr_unat: "ent_ok e \<Longrightarrow> unat (xe_nr e) = 2 ^ xe_order e"
proof -
  assume "ent_ok e"
  then have "(2 :: nat) ^ xe_order e < 2 ^ 64" by (intro power_strict_increasing) (simp_all add: ent_ok_def)
  moreover have "xe_nr e = of_nat (2 ^ xe_order e)" by (simp add: xe_nr_def push_bit_of_1)
  ultimately show ?thesis using unat_of_nat [where x = "2 ^ xe_order e" and 'a = 64] by (simp del: of_nat_power)
qed

lemma covers_iff:
  assumes "ent_ok e"
  shows "xe_covers e i \<longleftrightarrow> lo e \<le> unat i \<and> unat i < hi e"
proof -
  have nr: "unat (xe_nr e) = 2 ^ xe_order e" and h: "hi e < 2 ^ 64" using xe_nr_unat assms by (auto simp: ent_ok_def)
  show ?thesis
  proof (cases "lo e \<le> unat i")
    case True
    then have "unat (i - xe_index e) = unat i - lo e" by (simp add: unat_sub word_le_nat_alt)
    then show ?thesis using True nr by (auto simp: xe_covers_def word_less_nat_alt hi_def)
  next
    case False
    then have "unat (i - xe_index e) = 2 ^ 64 + unat i - lo e"
      using unat_sub_if_size [of i "xe_index e"] by (simp add: word_size word_le_nat_alt)
    then show ?thesis using False nr h by (auto simp: xe_covers_def word_less_nat_alt hi_def)
  qed
qed

lemma next_unat:
  assumes "ent_ok e"
  shows "unat (xe_next e) = hi e"
  using assms unat_plus_64 [of "xe_index e" "xe_nr e"] xe_nr_unat [OF assms] by (simp add: xe_next_def hi_def ent_ok_def)

text \<open>A walk sees the entries that touch its range, each at its index or at the start of the range.\<close>

definition found_at :: "u64 \<Rightarrow> xent \<Rightarrow> u64 \<times> xent" where
  "found_at s e = (if xe_index e < s then s else xe_index e, e)"

lemma snd_found_at [simp]: "snd (found_at s e) = e" "snd \<circ> found_at s = id"
  by (auto simp: found_at_def)

lemma walk_list:
  assumes "\<forall>e \<in> set es. ent_ok e" and "sorted_wrt before es" and "s \<le> t"
  shows "(case find (\<lambda>e. xe_covers e s) es of None \<Rightarrow> [] | Some e \<Rightarrow> [(s, e)]) @
      map (\<lambda>e. (xe_index e, e)) (filter (\<lambda>e. s < xe_index e \<and> xe_index e \<le> t) es) =
    map (found_at s) (filter (touches (unat s) (unat t)) es)"
  using assms(1,2)
proof (induction es)
  case (Cons e es)
  have ok: "ent_ok e" "\<forall>e \<in> set es. ent_ok e" "\<forall>x \<in> set es. hi e \<le> lo x" "sorted_wrt before es"
    using Cons.prems by (simp_all add: before_def [of e])
  have st: "unat s \<le> unat t" using assms(3) by (simp add: word_le_nat_alt)
  note IH = Cons.IH [OF ok(2,4)]
  consider "hi e \<le> unat s" | "lo e \<le> unat s" "unat s < hi e" | "unat s < lo e" by linarith
  then show ?case
  proof cases
    case 1
    then have "\<not> xe_covers e s" "\<not> touches (unat s) (unat t) e" "\<not> s < xe_index e"
      using covers_iff [OF ok(1)] lo_less_hi [of e] by (auto simp: touches_def word_less_nat_alt)
    then show ?thesis using IH by simp
  next
    case 2
    then have c: "xe_covers e s" "touches (unat s) (unat t) e" "\<not> s < xe_index e"
      using covers_iff [OF ok(1)] st by (auto simp: touches_def word_less_nat_alt)
    have after: "s < xe_index x" "touches (unat s) (unat t) x \<longleftrightarrow> xe_index x \<le> t" if "x \<in> set es" for x
    proof -
      have l: "unat s < lo x" using 2 ok(3) that by fastforce
      then show "s < xe_index x" by (simp add: word_less_nat_alt)
      show "touches (unat s) (unat t) x \<longleftrightarrow> xe_index x \<le> t" using l lo_less_hi [of x] by (simp add: touches_def word_le_nat_alt)
    qed
    have "filter (\<lambda>e. s < xe_index e \<and> xe_index e \<le> t) es = filter (touches (unat s) (unat t)) es"
      using after by (intro filter_cong) auto
    moreover have "map (\<lambda>e. (xe_index e, e)) (filter (touches (unat s) (unat t)) es) = map (found_at s) (filter (touches (unat s) (unat t)) es)"
      using after(1) less_asym by (fastforce simp: found_at_def)
    moreover have "found_at s e = (s, e)" using 2(1) by (auto simp: found_at_def word_less_nat_alt word_unat_eq_iff)
    ultimately show ?thesis using c by simp
  next
    case 3
    have out: "\<not> xe_covers x s" if "x \<in> set (e # es)" for x
      using that covers_iff [of x s] ok 3 lo_less_hi [of e] by fastforce
    then have "find (\<lambda>e. xe_covers e s) es = None" by (auto simp: find_None_iff)
    moreover have "touches (unat s) (unat t) e \<longleftrightarrow> xe_index e \<le> t" "s < xe_index e" "found_at s e = (xe_index e, e)"
      using 3 lo_less_hi [of e] by (auto simp: touches_def word_le_nat_alt word_less_nat_alt found_at_def)
    ultimately show ?thesis using IH out by simp
  qed
qed simp

lemma walk_eq: "map_ok m \<Longrightarrow> xas_walk m s t = map (found_at s) (touched m s t)"
  using walk_list [of "mp_entries m" s t] by (auto simp: xas_walk_def touched_def entry_at_def map_ok_def not_less)

definition wanted :: "xa_mark \<Rightarrow> xent \<Rightarrow> bool" where
  "wanted mark e \<longleftrightarrow> mark = XA_PRESENT \<or> mark \<in> xe_marks e"

lemma find_get_eq: "map_ok m \<Longrightarrow> find_get_entry m s t mark = map (found_at s) (filter (wanted mark) (touched m s t))"
  by (auto simp: find_get_entry_def walk_eq filter_map o_def wanted_def found_at_def intro!: map_cong filter_cong)

lemma sorted_wrt_before_total:
  assumes "sorted_wrt before es" and "x \<in> set es" and "y \<in> set es"
  shows "before x y \<or> x = y \<or> before y x"
  using assms by (induction es) auto

text \<open>A walk that starts where an entry ends sees what comes after that entry.\<close>

lemma touched_after:
  assumes "map_ok m" and "filter P (touched m s t) = xs @ e # ys" and "unat u = hi e"
  shows "filter P (touched m u t) = ys"
proof -
  let ?es = "mp_entries m"
  have st: "\<not> t < s" using assms(2) by (cases "t < s") (simp_all add: touched_def)
  have fs: "touched m s t = filter (touches (unat s) (unat t)) ?es" using st by (simp add: touched_def)
  have "e \<in> set (filter P (touched m s t))" using assms(2) by simp
  then have e: "e \<in> set ?es" "unat s < hi e" by (auto simp: fs touches_def)
  have srt: "sorted_wrt before ?es" using assms(1) by (simp add: map_ok_def)
  have "sorted_wrt before (xs @ e # ys)" using srt assms(2) fs by (metis sorted_wrt_filter)
  then have parts: "\<forall>x \<in> set xs. hi x \<le> lo e" "\<forall>y \<in> set ys. hi e \<le> lo y" by (auto simp: sorted_wrt_append before_def)
  have ord: "hi x \<le> lo e \<or> x = e \<or> hi e \<le> lo x" if "x \<in> set ?es" for x
    using sorted_wrt_before_total [OF srt that e(1)] by (auto simp: before_def)
  have "touches (unat u) (unat t) x \<longleftrightarrow> hi e \<le> lo x \<and> touches (unat s) (unat t) x" if "x \<in> set ?es" for x
    using ord [OF that] lo_less_hi [of x] lo_less_hi [of e] e(2) assms(3) by (auto simp: touches_def)
  then have f: "filter P (filter (touches (unat u) (unat t)) ?es) = filter (\<lambda>x. hi e \<le> lo x) (filter P (touched m s t))"
    unfolding fs filter_filter by (intro filter_cong) auto
  have g: "filter (\<lambda>x. hi e \<le> lo x) (xs @ e # ys) = ys"
  proof -
    have "lo x < hi e" if "x \<in> set xs" for x using bspec [OF parts(1) that] lo_less_hi [of x] lo_less_hi [of e] by linarith
    then have "filter (\<lambda>x. hi e \<le> lo x) xs = []" by (auto simp: filter_empty_conv not_le)
    moreover have "filter (\<lambda>x. hi e \<le> lo x) ys = ys" using parts(2) by simp
    ultimately show ?thesis using lo_less_hi [of e] by simp
  qed
  show ?thesis
  proof (cases "t < u")
    case True
    have False if "y \<in> set ys" for y
    proof -
      have "y \<in> set (filter P (touched m s t))" using that assms(2) by simp
      then have "lo y \<le> unat t" by (simp add: fs touches_def)
      then show False using that parts(2) True assms(3) by (fastforce simp: word_less_nat_alt)
    qed
    then have "ys = []" by (cases ys) auto
    then show ?thesis using True by (simp add: touched_def)
  next
    case False
    then have "touched m u t = filter (touches (unat u) (unat t)) ?es" by (simp add: touched_def)
    then show ?thesis using f g assms(2) by (simp only:)
  qed
qed

section \<open>Batches of folios\<close>

text \<open>The folios of a range with a tag.\<close>

definition tagged :: "xmapping \<Rightarrow> u64 \<Rightarrow> u64 \<Rightarrow> xa_mark \<Rightarrow> xent list" where
  "tagged m s t tag = filter (\<lambda>e. wanted tag e \<and> \<not> xe_value e) (touched m s t)"

definition range_end :: "u64 \<Rightarrow> u64" where
  "range_end t = (if t = - 1 then - 1 else t + 1)"

lemma get_folios_loop_eq:
  assumes "length fb < w_batch_size w"
  shows "get_folios_loop w t (map (found_at s) es) fb =
    (let fs = filter (\<lambda>e. \<not> xe_value e) es; n = w_batch_size w - length fb in
     if n \<le> length fs then (xe_next (fs ! (n - 1)), fb @ take n fs) else (range_end t, fb @ fs))"
  using assms
proof (induction es arbitrary: fb)
  case (Cons e es)
  let ?n = "w_batch_size w - length fb"
  obtain k where k: "?n = Suc k" using Cons.prems by (cases ?n) auto
  show ?case
  proof (cases "\<not> xe_value e \<and> k \<noteq> 0")
    case True
    then have "length (fb @ [e]) < w_batch_size w" "w_batch_size w - length (fb @ [e]) = k" using k by auto
    then show ?thesis using Cons.IH [of "fb @ [e]"] True k by (cases k) (auto simp: found_at_def batch_full_def Let_def)
  next
    case False
    then show ?thesis using Cons.IH [OF Cons.prems] Cons.prems k
      by (auto simp: found_at_def batch_full_def Let_def xe_next_def)
  qed
qed (simp add: range_end_def Let_def)

lemma get_folios_tag_eq:
  assumes "map_ok m" and "0 < w_batch_size w"
  shows "filemap_get_folios_tag w m s t tag =
    (if w_batch_size w \<le> length (tagged m s t tag)
     then (xe_next (tagged m s t tag ! (w_batch_size w - 1)), take (w_batch_size w) (tagged m s t tag))
     else (range_end t, tagged m s t tag))"
  using get_folios_loop_eq [of "[]" w t s "filter (wanted tag) (touched m s t)"] assms
  by (simp add: filemap_get_folios_tag_def find_get_eq tagged_def conj_commute Let_def)

lemma tagged_ok:
  assumes "map_ok m" and "e \<in> set (tagged m s t tag)"
  shows "ent_ok e" "unat s < hi e" "lo e \<le> unat t"
  using assms by (auto simp: tagged_def touched_def touches_def map_ok_def split: if_splits)

lemma tagged_after:
  assumes "map_ok m" and "tagged m s t tag = xs @ e # ys"
  shows "tagged m (xe_next e) t tag = ys" "unat s < unat (xe_next e)"
proof -
  have e: "e \<in> set (tagged m s t tag)" using assms(2) by simp
  have u: "unat (xe_next e) = hi e" using next_unat tagged_ok(1) [OF assms(1) e] by simp
  show "tagged m (xe_next e) t tag = ys" using touched_after [OF assms(1) _ u] assms(2) by (simp add: tagged_def)
  show "unat s < unat (xe_next e)" using tagged_ok(2) [OF assms(1) e] u by simp
qed

lemma less_next:
  fixes t :: u64
  assumes "t \<noteq> - 1"
  shows "t < t + 1" "unat (t + 1) = unat t + 1"
proof -
  have "t + 1 \<noteq> 0" using assms by (simp add: eq_neg_iff_add_eq_0)
  then have "unat t + 1 < 2 ^ 64" using size_t_bound [of "1 + t"] unatSuc [of t] by (simp add: add.commute)
  then show u: "unat (t + 1) = unat t + 1" using unat_plus_64 [of t 1] by simp
  show "t < t + 1" using u by (simp add: word_less_nat_alt)
qed

lemma tagged_past: "t < s \<Longrightarrow> tagged m s t tag = []"
  by (simp add: tagged_def touched_def)

lemma folios_tag_resumes:
  assumes "map_ok m" and "0 < w_batch_size w" and "t \<noteq> - 1"
    and "filemap_get_folios_tag w m s t tag = (s', fb)"
  shows "fb = take (w_batch_size w) (tagged m s t tag) \<and> tagged m s' t tag = drop (w_batch_size w) (tagged m s t tag)"
proof (cases "w_batch_size w \<le> length (tagged m s t tag)")
  case True
  let ?n = "w_batch_size w" and ?fs = "tagged m s t tag"
  have split: "?fs = take (?n - 1) ?fs @ ?fs ! (?n - 1) # drop ?n ?fs"
    using True assms(2) id_take_nth_drop [of "?n - 1" ?fs] by simp
  show ?thesis using tagged_after(1) [OF assms(1) split] assms True get_folios_tag_eq [OF assms(1,2)] by auto
next
  case False
  have "t < t + 1" using assms(3) less_next [of t] by simp
  then show ?thesis using False assms get_folios_tag_eq [OF assms(1,2)] tagged_past [of t "t + 1"]
    by (auto simp: range_end_def)
qed

section \<open>Waiting for write-back\<close>

definition slot :: "xent \<Rightarrow> nat \<times> bool \<times> u64 \<times> nat" where
  "slot e = (xe_id e, xe_value e, xe_index e, xe_order e)"

definition under_writeback :: "xent \<Rightarrow> bool" where
  "under_writeback e \<longleftrightarrow> \<not> xe_value e \<and> PAGECACHE_TAG_WRITEBACK \<in> xe_marks e"

text \<open>The write-back of the folios that were waited for is over, and none was started.\<close>

definition finished :: "nat set \<Rightarrow> xent \<Rightarrow> xent \<Rightarrow> bool" where
  "finished A e e' \<longleftrightarrow> slot e' = slot e \<and> (under_writeback e' \<longrightarrow> under_writeback e \<and> xe_id e \<notin> A)"

definition wait_ok :: "(nat \<Rightarrow> xmapping \<Rightarrow> xmapping) \<Rightarrow> bool" where
  "wait_ok wait \<longleftrightarrow> (\<forall>a m. list_all2 (finished {a}) (mp_entries m) (mp_entries (wait a m)))"

lemma fold_wait:
  assumes "wait_ok wait"
  shows "list_all2 (finished (set as)) (mp_entries m) (mp_entries (fold wait as m))"
proof (induction as arbitrary: m)
  case Nil
  show ?case by (simp add: finished_def list_all2_same)
next
  case (Cons a as)
  have "list_all2 (finished {a}) (mp_entries m) (mp_entries (wait a m))" using assms by (simp add: wait_ok_def)
  from list_all2_trans [OF _ this Cons.IH] show ?case by (simp add: finished_def slot_def)
qed

lemma slots_keep_ok:
  assumes "map_ok m" and "list_all2 (finished A) (mp_entries m) (mp_entries m')"
  shows "map_ok m'"
proof -
  have s: "map slot (mp_entries m') = map slot (mp_entries m)"
    using assms(2) by (auto simp: list_all2_conv_all_nth finished_def intro: nth_equalityI)
  define ok where "ok = (\<lambda>(a :: nat, v :: bool, i :: u64, k :: nat). unat i + 2 ^ k < 2 ^ 64 \<and> 2 ^ k dvd unat i \<and> k < 31)"
  define bf where "bf = (\<lambda>(a :: nat, v :: bool, i :: u64, k :: nat) (b :: nat, x :: bool, j :: u64, l :: nat). unat i + 2 ^ k \<le> unat j)"
  have "map_ok n \<longleftrightarrow> list_all ok (map slot (mp_entries n)) \<and> sorted_wrt bf (map slot (mp_entries n))" for n
    by (simp add: map_ok_def ok_def bf_def slot_def ent_ok_def hi_def before_def [abs_def] list_all_iff sorted_wrt_map)
  then show ?thesis using assms(1) s by simp
qed

text \<open>Folios under write-back that a walk from the first index has not passed yet.\<close>

definition ahead :: "xmapping \<Rightarrow> nat \<Rightarrow> nat \<Rightarrow> nat \<Rightarrow> bool" where
  "ahead m s i t \<longleftrightarrow> (\<forall>e \<in> set (mp_entries m). under_writeback e \<and> touches s t e \<longrightarrow> i \<le> t \<and> touches i t e)"

definition waited :: "xmapping \<Rightarrow> nat \<Rightarrow> nat \<Rightarrow> bool" where
  "waited m s t \<longleftrightarrow> (\<forall>e \<in> set (mp_entries m). touches s t e \<longrightarrow> \<not> under_writeback e)"

lemma tagged_writeback:
  "s \<le> t \<Longrightarrow> set (tagged m s t PAGECACHE_TAG_WRITEBACK) = {e \<in> set (mp_entries m). under_writeback e \<and> touches (unat s) (unat t) e}"
  by (auto simp: tagged_def touched_def under_writeback_def wanted_def)

lemma wait_round:
  assumes "map_ok m" and "wait_ok wait" and "0 < w_batch_size w" and "t \<noteq> - 1" and "i \<le> t" and "ahead m s (unat i) (unat t)"
    and "filemap_get_folios_tag w m i t PAGECACHE_TAG_WRITEBACK = (i', fb)"
  defines "m' \<equiv> fold wait (map xe_id fb) m"
  shows "map_ok m' \<and> ahead m' s (unat i') (unat t) \<and> unat i < unat i'"
proof -
  let ?n = "w_batch_size w" and ?fs = "tagged m i t PAGECACHE_TAG_WRITEBACK"
  have r: "fb = take ?n ?fs" "tagged m i' t PAGECACHE_TAG_WRITEBACK = drop ?n ?fs"
    using folios_tag_resumes [OF assms(1,3,4,7)] by simp_all
  have l: "list_all2 (finished (xe_id ` set fb)) (mp_entries m) (mp_entries m')" using fold_wait [OF assms(2), of "map xe_id fb" m] by (simp add: m'_def)
  have "unat i' \<le> unat t \<and> touches (unat i') (unat t) e'" if e': "e' \<in> set (mp_entries m')" "under_writeback e'" "touches s (unat t) e'" for e'
  proof -
    obtain e where e: "e \<in> set (mp_entries m)" "finished (xe_id ` set fb) e e'"
      using l e'(1) unfolding list_all2_conv_all_nth in_set_conv_nth by metis
    have same: "touches x y e' = touches x y e" for x y using e(2) by (simp add: finished_def slot_def touches_def hi_def)
    have u: "under_writeback e" "e \<notin> set fb" using e(2) e'(2) by (auto simp: finished_def)
    have "e \<in> set ?fs" using e(1) u(1) e'(3) same assms(5,6) by (auto simp: tagged_writeback ahead_def)
    then have "e \<in> set (drop ?n ?fs)" using u(2) r(1) by (metis append_take_drop_id Un_iff set_append)
    then have "e \<in> set (tagged m i' t PAGECACHE_TAG_WRITEBACK)" by (simp add: r(2))
    then show ?thesis using same by (auto simp: tagged_def touched_def word_less_nat_alt split: if_splits)
  qed
  moreover have "unat i < unat i'"
  proof (cases "?n \<le> length ?fs")
    case True
    then have "?fs = take (?n - 1) ?fs @ ?fs ! (?n - 1) # drop ?n ?fs"
      using assms(3) id_take_nth_drop [of "?n - 1" ?fs] by simp
    from tagged_after(2) [OF assms(1) this] show ?thesis using True assms(7) get_folios_tag_eq [OF assms(1,3)] by auto
  next
    case False
    then have "i' = t + 1" using assms(4,7) get_folios_tag_eq [OF assms(1,3)] by (auto simp: range_end_def)
    then show ?thesis using less_next(2) [OF assms(4)] assms(5) by (simp add: word_le_nat_alt)
  qed
  ultimately show ?thesis using slots_keep_ok [OF assms(1) l] by (simp add: ahead_def)
qed

lemma fdatawait_loop_returns:
  assumes "map_ok m" and "wait_ok wait" and "0 < w_batch_size w" and "t \<noteq> - 1" and "ahead m s (unat i) (unat t)"
  shows "\<exists>m'. fdatawait_loop w wait i t m = Some m' \<and> map_ok m' \<and> waited m' s (unat t)"
  using assms(1,5)
proof (induction "unat t + 1 - unat i" arbitrary: i m rule: less_induct)
  case less
  show ?case
  proof (cases "t < i")
    case True
    then have "fdatawait_loop w wait i t m = Some m" by (subst fdatawait_loop.simps) simp
    then show ?thesis using True less.prems by (auto simp: waited_def ahead_def word_less_nat_alt)
  next
    case False
    then have le: "i \<le> t" by simp
    obtain i' fb where f: "filemap_get_folios_tag w m i t PAGECACHE_TAG_WRITEBACK = (i', fb)" by force
    show ?thesis
    proof (cases "fb = []")
      case True
      then have "fdatawait_loop w wait i t m = Some m" using False f by (subst fdatawait_loop.simps) simp
      moreover have "tagged m i t PAGECACHE_TAG_WRITEBACK = []"
        using folios_tag_resumes [OF less.prems(1) assms(3,4) f] True assms(3) by (cases "tagged m i t PAGECACHE_TAG_WRITEBACK") auto
      then have "waited m s (unat t)"
        using less.prems(2) tagged_writeback [OF le, of m] by (auto simp: waited_def ahead_def)
      ultimately show ?thesis using less.prems(1) by simp
    next
      case more: False
      have n: "map_ok (fold wait (map xe_id fb) m)" "ahead (fold wait (map xe_id fb) m) s (unat i') (unat t)" "unat i < unat i'"
        using wait_round [OF less.prems(1) assms(2-4) le less.prems(2) f] by simp_all
      have "unat t + 1 - unat i' < unat t + 1 - unat i" using n(3) le by (simp add: word_le_nat_alt)
      from less.hyps [OF this n(1,2)] show ?thesis using more False f by (subst fdatawait_loop.simps) simp
    qed
  qed
qed

lemma pgoff_unat:
  assumes "0 \<le> byte" and "byte < 2 ^ 63" and "0 < w_page_shift w"
  shows "unat (pgoff w byte) = nat (byte div 2 ^ w_page_shift w)" "pgoff w byte \<noteq> - 1"
proof -
  have "byte div 2 ^ w_page_shift w \<le> byte" using assms(1) zdiv_mono2 [of byte 1 "2 ^ w_page_shift w"] by simp
  then have b: "byte div 2 ^ w_page_shift w < 2 ^ 63" "0 \<le> byte div 2 ^ w_page_shift w" using assms by (simp_all add: pos_imp_zdiv_nonneg_iff)
  then have "uint (pgoff w byte) = byte div 2 ^ w_page_shift w" by (simp add: pgoff_def uint_word_of_int)
  then show u: "unat (pgoff w byte) = nat (byte div 2 ^ w_page_shift w)" by (simp add: unat_eq_nat_uint)
  have "unat (- 1 :: u64) = 2 ^ 64 - 1" by (simp add: unsigned_minus_1_eq_mask mask_eq_exp_minus_1)
  then show "pgoff w byte \<noteq> - 1" using u b by auto
qed

text \<open>
  C33: Waiting for write-back ends, and then the whole range is written. The loop over the batches returns,
  and afterwards no folio that overlaps the range of bytes is marked as being written, whatever the size of
  the folios, however many there are, and whatever else finishes meanwhile, as long as waiting for a
  folio ends with its mark cleared and nobody starts new write-back.
\<close>

theorem fdatawait_waits_for_all:
  assumes "map_ok m" and "wait_ok wait" and "0 < w_batch_size w" and "0 < w_page_shift w"
    and "0 \<le> start_byte" and "end_byte < 2 ^ 63" and "start_byte \<le> end_byte"
  shows "\<exists>m'. filemap_fdatawait_bytes w wait start_byte end_byte m = Some m' \<and> map_ok m' \<and>
    (\<forall>e \<in> set (mp_entries m'). \<not> xe_value e \<and> start_byte div 2 ^ w_page_shift w < int (hi e) \<and>
       int (unat (xe_index e)) \<le> end_byte div 2 ^ w_page_shift w \<longrightarrow> PAGECACHE_TAG_WRITEBACK \<notin> xe_marks e)"
proof -
  let ?s = "pgoff w start_byte" and ?t = "pgoff w end_byte"
  have u: "unat ?s = nat (start_byte div 2 ^ w_page_shift w)" "unat ?t = nat (end_byte div 2 ^ w_page_shift w)" "?t \<noteq> - 1"
    using pgoff_unat assms(4-7) by simp_all
  have pos: "0 \<le> start_byte div 2 ^ w_page_shift w" "start_byte div 2 ^ w_page_shift w \<le> end_byte div 2 ^ w_page_shift w"
    using assms(5,7) by (simp_all add: pos_imp_zdiv_nonneg_iff zdiv_mono1)
  have "ahead m (unat ?s) (unat ?s) (unat ?t)" using u pos by (simp add: ahead_def nat_mono)
  from fdatawait_loop_returns [OF assms(1-3) u(3) this] obtain m' where
    m': "fdatawait_loop w wait ?s ?t m = Some m'" "map_ok m'" "waited m' (unat ?s) (unat ?t)" by blast
  have "touches (unat ?s) (unat ?t) e" if "start_byte div 2 ^ w_page_shift w < int (hi e)" "int (lo e) \<le> end_byte div 2 ^ w_page_shift w" for e
  proof -
    have "lo e \<le> unat ?t" unfolding u by (subst le_nat_iff) (use that(2) pos in linarith)+
    moreover have "unat ?s < hi e" unfolding u by (subst nat_less_iff) (use that(1) pos in linarith)+
    ultimately show ?thesis by (simp add: touches_def)
  qed
  then show ?thesis using m' by (auto simp: filemap_fdatawait_bytes_def waited_def under_writeback_def)
qed

section \<open>Batches of entries\<close>

lemma round_down_push: "round_down_c x (push_bit k 1) = push_bit k (drop_bit k x)"
proof -
  have "push_bit k 1 - 1 = (mask k :: u64)" by (simp add: mask_eq_exp_minus_1 push_bit_of_1)
  then show ?thesis unfolding round_down_c_def
    by (auto intro!: bit_eqI simp: bit_simps bit_mask_iff)
qed

lemma round_down_unat: "unat (round_down_c x (push_bit k 1)) = unat x div 2 ^ k * 2 ^ k"
proof -
  have d: "unat (drop_bit k x) = unat x div 2 ^ k" by (simp only: unat_drop_bit_eq) (simp add: drop_bit_eq_div)
  have "unat x div 2 ^ k * 2 ^ k \<le> unat x" by simp
  then have "unat x div 2 ^ k * 2 ^ k < 2 ^ 64" using size_t_bound [of x] by linarith
  moreover have "push_bit k (drop_bit k x) = of_nat (unat x div 2 ^ k * 2 ^ k)"
    by (simp add: push_bit_eq_mult d [symmetric] mult.commute)
  ultimately show ?thesis unfolding round_down_push
    using unat_of_nat [where x = "unat x div 2 ^ k * 2 ^ k" and 'a = 64] by (simp del: of_nat_mult of_nat_power)
qed

text \<open>Rounding an index inside an entry down gives the beginning of the entry; after it comes the next one.\<close>

lemma div_inside:
  assumes "(d :: nat) dvd a" and "a \<le> x" and "x < a + d"
  shows "x div d * d = a" "(x + d) div d * d = a + d"
proof -
  obtain c where c: "a = d * c" using assms(1) by auto
  then have "x div d = c" using assms(2,3) by (intro div_nat_eqI) (auto simp: mult.commute)
  moreover have "0 < d" using assms(2,3) by simp
  moreover from this have "(x + d) div d = x div d + 1" using div_add_self2 [of d x] by simp
  ultimately show "x div d * d = a" "(x + d) div d * d = a + d" using c by (simp_all only:) (simp_all add: algebra_simps)
qed

lemma round_down_entry:
  assumes "ent_ok e" and "lo e \<le> unat x" and "unat x < hi e"
  shows "round_down_c x (xe_nr e) = xe_index e" "round_down_c (x + xe_nr e) (xe_nr e) = xe_next e"
proof -
  have d: "2 ^ xe_order e dvd lo e" "unat x < lo e + 2 ^ xe_order e" "hi e < 2 ^ 64" using assms by (simp_all add: ent_ok_def hi_def)
  show "round_down_c x (xe_nr e) = xe_index e"
    unfolding word_unat_eq_iff xe_nr_def round_down_unat by (rule div_inside(1) [OF d(1) assms(2) d(2)])
  show "round_down_c (x + xe_nr e) (xe_nr e) = xe_next e"
  proof (cases "unat x + 2 ^ xe_order e < 2 ^ 64")
    case True
    then have "unat (x + xe_nr e) = unat x + 2 ^ xe_order e" using unat_plus_64 [of x "xe_nr e"] xe_nr_unat [OF assms(1)] by simp
    then show ?thesis unfolding word_unat_eq_iff next_unat [OF assms(1)] using div_inside(2) [OF d(1) assms(2) d(2)]
      by (simp only: xe_nr_def round_down_unat hi_def)
  next
    case False
    have "2 ^ 64 = 2 ^ xe_order e * (2 :: nat) ^ (64 - xe_order e)" using assms(1) by (simp add: ent_ok_def flip: power_add)
    then have v: "(2 :: nat) ^ xe_order e dvd 2 ^ 64" by (metis dvd_triv_left)
    have "2 ^ xe_order e dvd hi e" using d(1) by (simp add: hi_def)
    then have "hi e + 2 ^ xe_order e \<le> 2 ^ 64" using d(3) v
      by (metis add.commute dvd_add_right_iff dvd_diff_nat dvd_imp_le le_add_diff_inverse le_diff_conv2 less_imp_le zero_less_diff)
    then show ?thesis using False d(2) by (simp add: hi_def)
  qed
qed

lemma get_entries_loop_eq:
  assumes "length fb < w_batch_size w"
  shows "get_entries_loop w es fb = fb @ take (w_batch_size w - length fb) es"
  using assms
proof (induction es arbitrary: fb)
  case (Cons x es)
  show ?case
  proof (cases "batch_full w (fb @ [x])")
    case True
    then have "w_batch_size w - length fb = 1" using Cons.prems by (auto simp: batch_full_def)
    then show ?thesis using True by simp
  next
    case False
    then obtain k where "w_batch_size w - length fb = Suc k" "w_batch_size w - length (fb @ [x]) = k" "length (fb @ [x]) < w_batch_size w"
      by (cases "w_batch_size w - length fb") (auto simp: batch_full_def)
    then show ?thesis using False Cons.IH [of "fb @ [x]"] by simp
  qed
qed simp

lemma found_inside:
  assumes "map_ok m" and "e \<in> set (touched m s t)"
  shows "ent_ok e" "lo e \<le> unat (fst (found_at s e))" "unat (fst (found_at s e)) < hi e"
proof -
  have "unat s < hi e" using assms(2) by (auto simp: touched_def touches_def split: if_splits)
  then show "lo e \<le> unat (fst (found_at s e))" "unat (fst (found_at s e)) < hi e"
    using lo_less_hi [of e] by (auto simp: found_at_def word_less_nat_alt)
  show "ent_ok e" using assms by (auto simp: touched_def map_ok_def split: if_splits)
qed

text \<open>
  A batch of entries, shadow and swap entries included, is the beginning of the range, and the next call
  continues right behind it: the computation of the new start by rounding down is right also when the walk began in
  the middle of a large folio. Without an entry in the range the start stays.
\<close>

lemma find_get_entries_resumes:
  assumes "map_ok m" and "0 < w_batch_size w" and "find_get_entries w m s t = (s', fb)"
  shows "map snd fb = take (w_batch_size w) (touched m s t) \<and>
    (if fb = [] then s' = s else touched m s' t = drop (w_batch_size w) (touched m s t))"
proof -
  let ?n = "w_batch_size w" and ?es = "touched m s t"
  define xs where "xs = take ?n ?es"
  have fb: "fb = map (found_at s) xs"
    using assms get_entries_loop_eq [of "[]" w] by (auto simp: find_get_entries_def find_get_eq wanted_def xs_def take_map Let_def split: if_splits prod.splits)
  show ?thesis
  proof (cases "xs = []")
    case True
    then show ?thesis using assms fb by (auto simp: find_get_entries_def find_get_eq wanted_def Let_def xs_def get_entries_loop_eq take_map)
  next
    case False
    then obtain ys e where ys: "xs = ys @ [e]" by (metis append_butlast_last_id)
    have all: "?es = ys @ e # drop ?n ?es" using append_take_drop_id [of ?n ?es] ys unfolding xs_def by (metis append.assoc append_Cons append_Nil)
    then have e: "e \<in> set ?es" by (metis in_set_conv_decomp)
    have "s' = round_down_c (fst (found_at s e) + xe_nr e) (xe_nr e)"
      using assms(3) fb ys False get_entries_loop_eq [of "[]" w] assms(1,2)
      by (auto simp: find_get_entries_def find_get_eq wanted_def Let_def take_map [symmetric] found_at_def xs_def [symmetric] take_map split: prod.splits)
    then have "s' = xe_next e" using round_down_entry(2) found_inside [OF assms(1) e] by simp
    then have "unat s' = hi e" using next_unat found_inside(1) [OF assms(1) e] by simp
    from touched_after [of m "\<lambda>_. True" s t ys e _ s', OF assms(1) _ this] all show ?thesis
      using fb False by (simp add: xs_def comp_def)
  qed
qed

section \<open>The contract of batched lookups\<close>

text \<open>What the callers of a batched lookup do: they call it until it finds nothing.\<close>

fun batches :: "(u64 \<Rightarrow> u64 \<times> 'a list) \<Rightarrow> nat \<Rightarrow> u64 \<Rightarrow> 'a list list" where
  "batches next 0 s = []"
| "batches next (Suc k) s = (case next s of (s', fb) \<Rightarrow> if fb = [] then [] else fb # batches next k s')"

text \<open>
  The contract: a call returns the first items from a start on, at most a batch full, and the new start leaves the
  others. Callers rely on what follows from it: the calls end, and together they return every item once.
\<close>

locale batch_walk =
  fixes good :: "'m \<Rightarrow> bool" and batch_size :: "'m \<Rightarrow> nat" and next_batch :: "'m \<Rightarrow> u64 \<Rightarrow> u64 \<times> 'a list" and items :: "'m \<Rightarrow> u64 \<Rightarrow> 'a list"
  assumes size_pos: "good m \<Longrightarrow> 0 < batch_size m"
    and next_take: "good m \<Longrightarrow> next_batch m s = (s', fb) \<Longrightarrow> fb = take (batch_size m) (items m s)"
    and next_drop: "good m \<Longrightarrow> next_batch m s = (s', fb) \<Longrightarrow> items m s' = drop (batch_size m) (items m s)"
begin

lemma visits_all:
  assumes "good m" and "length (items m s) < k"
  shows "concat (batches (next_batch m) k s) = items m s"
  using assms(2)
proof (induction k arbitrary: s)
  case (Suc k)
  obtain s' fb where n: "next_batch m s = (s', fb)" by force
  note law = next_take [OF assms(1) n] next_drop [OF assms(1) n] size_pos [OF assms(1)]
  show ?case
  proof (cases "items m s = []")
    case True
    then show ?thesis using n law by simp
  next
    case False
    then have "fb \<noteq> []" "length (items m s') < k" using law Suc.prems by (cases "items m s"; simp)+
    then show ?thesis using n law Suc.IH [of s'] append_take_drop_id [of "batch_size m" "items m s"] by simp
  qed
qed simp

lemma batches_bounded:
  assumes "good m"
  shows "\<forall>fb \<in> set (batches (next_batch m) k s). fb \<noteq> [] \<and> length fb \<le> batch_size m"
proof (induction k arbitrary: s)
  case (Suc k)
  obtain s' fb where n: "next_batch m s = (s', fb)" by force
  then show ?case using Suc.IH [of s'] next_take [OF assms n] by simp
qed simp

end

type_synonym walk_args = "wapi \<times> xmapping \<times> u64 \<times> xa_mark"

definition walk_good :: "walk_args \<Rightarrow> bool" where
  "walk_good = (\<lambda>(w, m, t, tag). map_ok m \<and> 0 < w_batch_size w \<and> t \<noteq> - 1)"

definition walk_size :: "walk_args \<Rightarrow> nat" where
  "walk_size = (\<lambda>(w, m, t, tag). w_batch_size w)"

interpretation tag_walk: batch_walk walk_good walk_size "\<lambda>(w, m, t, tag) s. filemap_get_folios_tag w m s t tag"
  "\<lambda>(w, m, t, tag) s. tagged m s t tag"
  by unfold_locales (auto simp: walk_good_def walk_size_def dest: folios_tag_resumes)

text \<open>Dirty folios, or such as may be: those that could not be locked.\<close>

definition maybe_dirty :: "xent \<Rightarrow> bool" where
  "maybe_dirty e \<longleftrightarrow> \<not> xe_value e \<and> (xe_locked e \<or> xe_dirty e \<or> xe_writeback e)"

lemma dirty_loop_filter: "get_dirty_loop w t xs fb = get_folios_loop w t (filter (maybe_dirty \<circ> snd) xs) fb"
  by (induction w t xs fb rule: get_dirty_loop.induct) (auto simp: maybe_dirty_def)

lemma dirty_resumes:
  assumes "map_ok m" and "0 < w_batch_size w" and "t \<noteq> - 1" and "filemap_get_folios_dirty w m s t = (s', fb)"
  shows "fb = take (w_batch_size w) (filter maybe_dirty (touched m s t))" "filter maybe_dirty (touched m s' t) = drop (w_batch_size w) (filter maybe_dirty (touched m s t))"
proof -
  let ?n = "w_batch_size w" and ?fs = "filter maybe_dirty (touched m s t)"
  have nv: "filter (\<lambda>e. \<not> xe_value e) ?fs = ?fs" by (rule filter_True) (simp add: maybe_dirty_def)
  have eq: "filemap_get_folios_dirty w m s t = (if ?n \<le> length ?fs then (xe_next (?fs ! (?n - 1)), take ?n ?fs) else (range_end t, ?fs))"
    using get_folios_loop_eq [of "[]" w t s ?fs] assms(1,2) nv
    by (simp add: filemap_get_folios_dirty_def dirty_loop_filter find_get_eq wanted_def filter_map comp_def Let_def)
  show "fb = take ?n ?fs" using eq assms(4) by (auto split: if_splits)
  show "filter maybe_dirty (touched m s' t) = drop ?n ?fs"
  proof (cases "?n \<le> length ?fs")
    case True
    have split: "?fs = take (?n - 1) ?fs @ ?fs ! (?n - 1) # drop ?n ?fs" using True assms(2) id_take_nth_drop [of "?n - 1" ?fs] by simp
    have "?fs ! (?n - 1) \<in> set ?fs" using True assms(2) by (intro nth_mem) simp
    then have "ent_ok (?fs ! (?n - 1))" using found_inside(1) [OF assms(1)] by auto
    then show ?thesis using touched_after [OF assms(1) split] next_unat eq assms(4) True by auto
  next
    case False
    then have "s' = t + 1" using eq assms(3,4) by (auto simp: range_end_def)
    then show ?thesis using False less_next(1) [OF assms(3)] by (simp add: touched_def)
  qed
qed

interpretation dirty_walk: batch_walk walk_good walk_size "\<lambda>(w, m, t, tag) s. filemap_get_folios_dirty w m s t"
  "\<lambda>(w, m, t, tag) s. filter maybe_dirty (touched m s t)"
  by unfold_locales (auto simp: walk_good_def walk_size_def dest: dirty_resumes)

definition next_entries :: "wapi \<Rightarrow> xmapping \<Rightarrow> u64 \<Rightarrow> u64 \<Rightarrow> u64 \<times> xent list" where
  "next_entries w m t s = (case find_get_entries w m s t of (s', fb) \<Rightarrow> (s', map snd fb))"

lemma entries_resume:
  assumes "map_ok m" and "0 < w_batch_size w" and "next_entries w m t s = (s', fb)"
  shows "fb = take (w_batch_size w) (touched m s t)" "touched m s' t = drop (w_batch_size w) (touched m s t)"
proof -
  obtain xs where xs: "find_get_entries w m s t = (s', xs)" "fb = map snd xs" using assms(3) by (auto simp: next_entries_def split: prod.splits)
  note law = find_get_entries_resumes [OF assms(1,2) xs(1)]
  show fb: "fb = take (w_batch_size w) (touched m s t)" using law xs(2) by simp
  show "touched m s' t = drop (w_batch_size w) (touched m s t)"
  proof (cases "xs = []")
    case True
    then have "touched m s t = []" using law assms(2) by (cases "touched m s t") simp_all
    then show ?thesis using law True by simp
  next
    case False
    then show ?thesis using law by simp
  qed
qed

interpretation entry_walk: batch_walk walk_good walk_size "\<lambda>(w, m, t, tag). next_entries w m t" "\<lambda>(w, m, t, tag) s. touched m s t"
  by unfold_locales (auto simp: walk_good_def walk_size_def dest: entries_resume)

text \<open>
  C34: Calling a batched lookup until it finds nothing visits everything in the range exactly once, in order, and
  ends: the folios with a tag, the folios that may be dirty, and all entries, shadow and swap entries
  included. This holds for folios of any size, also when the first or the last one reaches beyond the
  range, for every range that does not end at the last index.
\<close>

theorem lookups_visit_all:
  assumes "map_ok m" and "0 < w_batch_size w" and "t \<noteq> - 1" and "length (mp_entries m) < k"
  shows "concat (batches (\<lambda>s. filemap_get_folios_tag w m s t tag) k s) = tagged m s t tag \<and>
    concat (batches (\<lambda>s. filemap_get_folios_dirty w m s t) k s) = filter maybe_dirty (touched m s t) \<and>
    concat (batches (next_entries w m t) k s) = touched m s t"
proof -
  have g: "walk_good (w, m, t, tag)" using assms(1-3) by (simp add: walk_good_def)
  have len: "length (touched m s t) < k" using assms(4) by (simp add: touched_def le_less_trans [OF length_filter_le])
  then have fl: "length (filter P (touched m s t)) < k" for P by (rule le_less_trans [OF length_filter_le])
  show ?thesis
    using tag_walk.visits_all [OF g, of s k] dirty_walk.visits_all [OF g, of s k] entry_walk.visits_all [OF g, of s k] len fl
    by (simp add: tagged_def)
qed

section \<open>Batches for reading\<close>

definition entry_ok_at :: "xmapping \<Rightarrow> u64 \<Rightarrow> bool" where
  "entry_ok_at m i \<longleftrightarrow> (\<forall>e. entry_at m i = Some e \<longrightarrow> e \<in> set (mp_entries m) \<and> ent_ok e \<and> lo e \<le> unat i \<and> unat i < hi e)"

lemma entry_at_ok: "map_ok m \<Longrightarrow> entry_ok_at m i"
  unfolding entry_ok_at_def entry_at_def find_Some_iff map_ok_def using covers_iff nth_mem by metis

text \<open>
  A run of folios that a read can copy from without a gap: the first one covers the index, each begins where the one before
  ends, and only the last one may have to be waited for or carry the read-ahead flag.
\<close>

fun reading_run :: "xmapping \<Rightarrow> u64 \<Rightarrow> u64 \<Rightarrow> xent list \<Rightarrow> bool" where
  "reading_run m mx i [] = True"
| "reading_run m mx i (e # es) \<longleftrightarrow> e \<in> set (mp_entries m) \<and> \<not> xe_value e \<and> i \<le> mx \<and> lo e \<le> unat i \<and> unat i < hi e \<and>
     (es \<noteq> [] \<longrightarrow> xe_uptodate e \<and> \<not> xe_readahead e) \<and> reading_run m mx (xe_next e) es"

text \<open>Why the batch ends where it does.\<close>

definition run_stops :: "wapi \<Rightarrow> xmapping \<Rightarrow> u64 \<Rightarrow> u64 \<Rightarrow> xent list \<Rightarrow> bool" where
  "run_stops w m mx i fb \<longleftrightarrow>
     length fb = w_batch_size w \<or> (fb \<noteq> [] \<and> (\<not> xe_uptodate (List.last fb) \<or> xe_readahead (List.last fb))) \<or>
     (let j = (if fb = [] then i else xe_next (List.last fb)) in
      mx < j \<or> (\<forall>e. entry_at m j = Some e \<longrightarrow> xe_value e))"

lemma read_batch_loop_run:
  assumes "map_ok m" and "length fb < w_batch_size w"
  shows "\<exists>es. read_batch_loop w m mx i fb = fb @ es \<and> reading_run m mx i es \<and> length (fb @ es) \<le> w_batch_size w \<and>
    (length (fb @ es) = w_batch_size w \<or> run_stops w m mx i es)"
  using assms(2)
proof (induction "w_batch_size w - length fb" arbitrary: i fb rule: less_induct)
  case less
  show ?case
  proof (cases "entry_at m i")
    case None
    then show ?thesis using less.prems by (intro exI [of _ "[]"]) (simp add: run_stops_def)
  next
    case (Some e)
    have e: "e \<in> set (mp_entries m)" "ent_ok e" "lo e \<le> unat i" "unat i < hi e"
      using entry_at_ok [OF assms(1), of i] Some by (auto simp: entry_ok_at_def)
    consider "mx < i \<or> xe_value e" | "i \<le> mx" "\<not> xe_value e" "batch_full w (fb @ [e]) \<or> \<not> xe_uptodate e \<or> xe_readahead e"
      | "i \<le> mx" "\<not> xe_value e" "\<not> batch_full w (fb @ [e])" "xe_uptodate e" "\<not> xe_readahead e" by fastforce
    then show ?thesis
    proof cases
      case 1
      then show ?thesis using less.prems Some by (intro exI [of _ "[]"]) (auto simp: run_stops_def)
    next
      case 2
      then show ?thesis using less.prems Some e by (intro exI [of _ "[e]"]) (auto simp: run_stops_def batch_full_def)
    next
      case 3
      have d: "w_batch_size w - length (fb @ [e]) < w_batch_size w - length fb" "length (fb @ [e]) < w_batch_size w"
        using 3(3) less.prems by (auto simp: batch_full_def)
      from less.hyps [OF d, of "xe_next e"] obtain es where es: "read_batch_loop w m mx (xe_next e) (fb @ [e]) = fb @ e # es"
        "reading_run m mx (xe_next e) es" "length (fb @ e # es) \<le> w_batch_size w"
        "length (fb @ e # es) = w_batch_size w \<or> run_stops w m mx (xe_next e) es" by auto
      have "run_stops w m mx i (e # es) \<or> length (fb @ e # es) = w_batch_size w"
        using es(4) es(3) 3(4,5) by (auto simp: run_stops_def Let_def split: if_splits)
      then show ?thesis using es 3 e Some by (intro exI [of _ "e # es"]) auto
    qed
  qed
qed

text \<open>
  A read gets a gap-free run of folios. The batch holds no shadow entry, its first folio covers the wanted
  index, each folio begins where the one before ends and no later than the last wanted index, and only the last one may not be up to
  date or carry the read-ahead flag; the batch ends only when it is full, at such a folio, behind
  the range, or at a gap.
\<close>

theorem read_batch_is_run:
  assumes "map_ok m" and "0 < w_batch_size w"
  shows "reading_run m mx i (filemap_get_read_batch w m i mx) \<and> length (filemap_get_read_batch w m i mx) \<le> w_batch_size w \<and>
    run_stops w m mx i (filemap_get_read_batch w m i mx)"
  using read_batch_loop_run [OF assms(1), of "[]" w mx i] assms(2) by (auto simp: filemap_get_read_batch_def run_stops_def)

section \<open>Removal\<close>

text \<open>The indices that folios cover, as the read-ahead code sees the page cache.\<close>

definition cached :: "xmapping \<Rightarrow> u64 \<Rightarrow> bool" where
  "cached m i \<longleftrightarrow> (\<exists>e \<in> set (mp_entries m). \<not> xe_value e \<and> xe_covers e i)"

definition as_cache :: "xmapping \<Rightarrow> 'e cache \<Rightarrow> 'e cache" where
  "as_cache m c = c\<lparr>pc_pages := cached m, pc_nrpages := mp_nrpages m\<rparr>"

definition folio_of :: "xmapping \<Rightarrow> xent \<Rightarrow> bool" where
  "folio_of m e \<longleftrightarrow> e \<in> set (mp_entries m) \<and> \<not> xe_value e"

lemma remove_refines:
  assumes "map_ok m" and "folio_of m e"
  shows "as_cache (filemap_remove_folio e m) c = page_cache_delete (xe_index e) (xe_nr e) (as_cache m c)"
proof -
  have e: "e \<in> set (mp_entries m)" "\<not> xe_value e" using assms(2) by (simp_all add: folio_of_def)
  have "x = e" if "x \<in> set (mp_entries m)" "xe_covers x i" "xe_covers e i" for x i
    using sorted_wrt_before_total [of "mp_entries m" x e] assms(1) that e(1) covers_iff [of x i] covers_iff [of e i]
    by (fastforce simp: map_ok_def before_def)
  then have "cached (filemap_remove_folio e m) i \<longleftrightarrow> cached m i \<and> \<not> i - xe_index e < xe_nr e" for i
    using e by (auto simp: cached_def filemap_remove_folio_def remove_entries_def xe_covers_def)
  then have "cached (filemap_remove_folio e m) = (\<lambda>i. cached m i \<and> \<not> i - xe_index e < xe_nr e)" by (intro ext)
  then show ?thesis by (simp add: as_cache_def page_cache_delete_def) (simp add: filemap_remove_folio_def remove_entries_def)
qed

lemma map_ok_filter: "map_ok m \<Longrightarrow> map_ok (m\<lparr>mp_entries := filter P (mp_entries m), mp_nrpages := n\<rparr>)"
  by (auto simp: map_ok_def sorted_wrt_filter)

lemma remove_entries_fold:
  "distinct es \<Longrightarrow> remove_entries es m = fold filemap_remove_folio es m"
proof (induction es arbitrary: m)
  case Nil
  show ?case by (simp add: remove_entries_def)
next
  case (Cons e es)
  have "remove_entries (e # es) m = remove_entries es (filemap_remove_folio e m)"
    by (simp add: remove_entries_def filemap_remove_folio_def conj_commute algebra_simps)
  then show ?case using Cons by simp
qed

lemma folds_refine:
  assumes "map_ok m" and "\<forall>e \<in> set es. folio_of m e" and "distinct es"
  shows "as_cache (fold filemap_remove_folio es m) c = fold (\<lambda>e. page_cache_delete (xe_index e) (xe_nr e)) es (as_cache m c)"
  using assms
proof (induction es arbitrary: m)
  case (Cons e es)
  have ok: "map_ok (filemap_remove_folio e m)" using map_ok_filter [OF Cons.prems(1)] by (simp add: filemap_remove_folio_def remove_entries_def)
  have "\<forall>x \<in> set es. folio_of (filemap_remove_folio e m) x"
    using Cons.prems(2,3) by (auto simp: folio_of_def filemap_remove_folio_def remove_entries_def)
  then show ?case using Cons.IH [OF ok] Cons.prems remove_refines [of m e c] by simp
qed simp

lemma delete_loop_finds:
  assumes "subseq fb es" and "\<forall>e \<in> set fb. \<not> xe_value e" and "distinct (map xe_id (filter (\<lambda>e. \<not> xe_value e) es))"
  shows "delete_batch_loop (map (found_at s) es) (map xe_id fb) = fb"
  using assms
proof (induction es arbitrary: fb rule: list.induct)
  case (Cons e es)
  show ?case
  proof (cases fb)
    case Nil
    then show ?thesis by (simp add: found_at_def)
  next
    case (Cons f fs)
    show ?thesis
    proof (cases "f = e")
      case True
      then have "subseq fs es" using Cons.prems(1) Cons by (auto elim: list_emb.cases)
      then show ?thesis using Cons True Cons.IH [of fs] Cons.prems(2,3) by (auto simp: found_at_def split: if_splits)
    next
      case False
      then have sub: "subseq fb es" using Cons.prems(1) Cons by (auto elim: list_emb.cases)
      have "xe_value e \<or> xe_id e \<noteq> xe_id f"
      proof (rule ccontr)
        assume c: "\<not> ?thesis"
        have "f \<in> set es" "\<not> xe_value f" using sub Cons Cons.prems(2) by (auto dest: list_emb_set)
        then show False using c Cons.prems(3) by (auto simp: image_iff)
      qed
      then show ?thesis using Cons.IH [OF sub] Cons.prems(2,3) Cons by (auto simp: found_at_def split: if_splits)
    qed
  qed
qed (auto elim: list_emb.cases)

lemma before_distinct: "sorted_wrt before es \<Longrightarrow> distinct es"
proof (induction es)
  case (Cons e es)
  have "e \<notin> set es" using Cons.prems lo_less_hi [of e] by (auto simp: before_def dest!: bspec)
  then show ?case using Cons by simp
qed simp

lemma subseq_sorted: "subseq xs ys \<Longrightarrow> sorted_wrt P ys \<Longrightarrow> sorted_wrt P xs"
  by (induction rule: list_emb.induct) (auto dest: list_emb_set)

text \<open>
  C35: Removing a batch of folios in one walk is removing them one by one. For a batch of folios of the
  mapping, in the order of their indices, the walk finds every one of them, skips what lies between,
  and leaves the page cache and its page count as single removals do, which in turn is what the
  read-ahead code calls \<open>page_cache_delete\<close>.
\<close>

theorem delete_batch_refines:
  assumes "map_ok m" and "distinct (map xe_id (filter (\<lambda>e. \<not> xe_value e) (mp_entries m)))"
    and "subseq fb (mp_entries m)" and "\<forall>e \<in> set fb. \<not> xe_value e"
  shows "delete_from_page_cache_batch fb m = fold filemap_remove_folio fb m \<and>
    as_cache (delete_from_page_cache_batch fb m) c = fold (\<lambda>e. page_cache_delete (xe_index e) (xe_nr e)) fb (as_cache m c)"
proof (cases fb)
  case Nil
  then show ?thesis by (simp add: delete_from_page_cache_batch_def)
next
  case (Cons f fs)
  have srt: "sorted_wrt before fb" using subseq_sorted [OF assms(3)] assms(1) by (simp add: map_ok_def)
  have "touches (lo f) (unat ULONG_MAX) e" if "e \<in> set fb" for e
  proof -
    have "lo f < hi e" using that srt Cons lo_less_hi [of e] lo_less_hi [of f] by (auto simp: before_def)
    then show ?thesis by (simp add: touches_def ULONG_MAX_def word_le_nat_alt [symmetric])
  qed
  then have "filter (touches (lo f) (unat ULONG_MAX)) fb = fb" by (simp add: filter_id_conv)
  then have sub: "subseq fb (touched m (xe_index f) ULONG_MAX)"
    using subseq_filter [OF assms(3), of "touches (lo f) (unat ULONG_MAX)"] by (simp add: touched_def ULONG_MAX_def)
  have "distinct (map xe_id (filter (\<lambda>e. \<not> xe_value e) (touched m (xe_index f) ULONG_MAX)))"
    using distinct_map_filter [OF assms(2), of "touches (lo f) (unat ULONG_MAX)"] by (simp add: touched_def conj_commute)
  from delete_loop_finds [OF sub assms(4) this]
  have "delete_from_page_cache_batch fb m = remove_entries fb m"
    using Cons walk_eq [OF assms(1)] by (simp add: delete_from_page_cache_batch_def page_cache_delete_batch_def)
  moreover have d: "distinct fb" by (rule before_distinct [OF srt])
  moreover have "\<forall>e \<in> set fb. folio_of m e" using assms(3,4) by (auto simp: folio_of_def dest: list_emb_set)
  ultimately show ?thesis using remove_entries_fold [OF d] folds_refine [OF assms(1)] by simp
qed

section \<open>Statistics\<close>

definition span :: "nat \<Rightarrow> nat \<Rightarrow> xent \<Rightarrow> nat set" where
  "span a b e = {i. a \<le> i \<and> i \<le> b \<and> lo e \<le> i \<and> i < hi e}"

text \<open>The pages of a range that lie in an entry with a property.\<close>

definition pages_of :: "xmapping \<Rightarrow> (xent \<Rightarrow> bool) \<Rightarrow> u64 \<Rightarrow> u64 \<Rightarrow> nat set" where
  "pages_of m P a b = {i. unat a \<le> i \<and> i \<le> unat b \<and> (\<exists>e \<in> set (mp_entries m). P e \<and> unat (xe_index e) \<le> i \<and> i < hi e)}"

lemma card_span: "card (span a b e) = min (b + 1) (hi e) - max a (lo e)"
proof -
  have "span a b e = {max a (lo e)..<min (b + 1) (hi e)}" by (auto simp: span_def)
  then show ?thesis by simp
qed

lemma covered_pages_card:
  assumes "map_ok m" and "e \<in> set (touched m a b)"
  shows "covered_pages a b (found_at a e) = of_nat (card (span (unat a) (unat b) e))"
proof -
  have e: "ent_ok e" "unat a < hi e" "lo e \<le> unat b" "unat a \<le> unat b"
    using assms found_inside(1) by (auto simp: touched_def touches_def word_less_nat_alt split: if_splits)
  have rd: "round_down_c (fst (found_at a e)) (xe_nr e) = xe_index e"
    using round_down_entry(1) found_inside [OF assms] by simp
  have "of_nat (unat (xe_next e)) = xe_next e" by simp
  then have hi: "xe_index e + xe_nr e = of_nat (hi e)" unfolding next_unat [OF e(1)] by (simp add: xe_next_def)
  have nx: "unat (xe_index e + xe_nr e - 1) = hi e - 1"
  proof -
    have "xe_next e \<noteq> 0" using next_unat [OF e(1)] lo_less_hi [of e] by (metis unat_0 not_less0)
    then show ?thesis using unat_minus_one [of "xe_next e"] next_unat [OF e(1)] by (simp add: xe_next_def)
  qed
  have num: "of_nat (unat a) = a" "of_nat (unat b) = b" "of_nat (lo e) = xe_index e" by simp_all
  have "xe_index e < a \<longleftrightarrow> lo e < unat a" "b < xe_index e + xe_nr e - 1 \<longleftrightarrow> unat b + 1 < hi e"
    using nx by (auto simp: word_less_nat_alt)
  then have "covered_pages a b (found_at a e) =
      (if unat b + 1 < hi e then b + 1 else of_nat (hi e)) - (if lo e < unat a then a else xe_index e)"
    using rd hi by (simp add: covered_pages_def found_at_def Let_def split: if_splits) (auto simp: algebra_simps)
  also have "\<dots> = of_nat (min (unat b + 1) (hi e)) - of_nat (max (unat a) (lo e))"
    using num by (auto simp: min_def max_def)
  also have "\<dots> = of_nat (card (span (unat a) (unat b) e))"
    unfolding card_span using e lo_less_hi [of e] by (intro of_nat_diff [symmetric]) auto
  finally show ?thesis .
qed

lemma spans_card:
  assumes "sorted_wrt before es"
  shows "sum_list (map (\<lambda>e. card (span a b e)) (filter (\<lambda>e. touches a b e \<and> P e) es)) = card {i. \<exists>e \<in> set es. P e \<and> i \<in> span a b e}"
  using assms
proof (induction es)
  case (Cons e es)
  let ?rest = "{i. \<exists>e \<in> set es. P e \<and> i \<in> span a b e}"
  have fin: "finite ?rest" by (rule finite_subset [of _ "{..b}"]) (auto simp: span_def)
  show ?case
  proof (cases "P e")
    case True
    have "span a b e \<inter> ?rest = {}" using Cons.prems by (fastforce simp: span_def before_def)
    moreover have "{i. \<exists>x \<in> set (e # es). P x \<and> i \<in> span a b x} = span a b e \<union> ?rest" using True by auto
    moreover have "finite (span a b e)" by (rule finite_subset [of _ "{..b}"]) (auto simp: span_def)
    ultimately have "card {i. \<exists>x \<in> set (e # es). P x \<and> i \<in> span a b x} = card (span a b e) + card ?rest"
      using fin by (simp add: card_Un_disjoint)
    moreover have "card (span a b e) = 0" if "\<not> touches a b e" using that by (auto simp: card_span touches_def)
    ultimately show ?thesis using Cons True by auto
  next
    case False
    then show ?thesis using Cons by simp
  qed
qed simp

lemma of_nat_sum: "of_nat (sum_list xs) = sum_list (map of_nat xs)"
  by (induction xs) simp_all

lemma range_count:
  assumes "map_ok m"
  shows "sum_list (map (covered_pages a b \<circ> found_at a) (filter P (touched m a b))) = of_nat (card (pages_of m P a b))"
proof (cases "b < a")
  case True
  then have "pages_of m P a b = {}" by (auto simp: pages_of_def word_less_nat_alt)
  then show ?thesis using True by (simp add: touched_def)
next
  case False
  have "map (covered_pages a b \<circ> found_at a) (filter P (touched m a b)) =
      map (\<lambda>e. of_nat (card (span (unat a) (unat b) e))) (filter P (touched m a b))"
    using covered_pages_card [OF assms] by simp
  also have "\<dots> = map of_nat (map (\<lambda>e. card (span (unat a) (unat b) e)) (filter (\<lambda>e. touches (unat a) (unat b) e \<and> P e) (mp_entries m)))"
    using False by (simp add: touched_def conj_commute)
  finally have "sum_list (map (covered_pages a b \<circ> found_at a) (filter P (touched m a b))) =
      of_nat (sum_list (map (\<lambda>e. card (span (unat a) (unat b) e)) (filter (\<lambda>e. touches (unat a) (unat b) e \<and> P e) (mp_entries m))))"
    by (simp add: of_nat_sum comp_def)
  moreover have "{i. \<exists>e \<in> set (mp_entries m). P e \<and> i \<in> span (unat a) (unat b) e} = pages_of m P a b" by (auto simp: span_def pages_of_def)
  ultimately show ?thesis using spans_card [of "mp_entries m" "unat a" "unat b" P] assms by (simp add: map_ok_def)
qed

lemma cachestat_fold:
  "fold (cachestat_step w a b) xs cs =
     (let n = (\<lambda>P. sum_list (map (covered_pages a b) (filter (P \<circ> snd) xs))) in
      \<lparr>cs_cache = cs_cache cs + n (\<lambda>e. \<not> xe_value e),
       cs_dirty = cs_dirty cs + n (\<lambda>e. \<not> xe_value e \<and> PAGECACHE_TAG_DIRTY \<in> xe_marks e),
       cs_writeback = cs_writeback cs + n (\<lambda>e. \<not> xe_value e \<and> PAGECACHE_TAG_WRITEBACK \<in> xe_marks e),
       cs_evicted = cs_evicted cs + n xe_value,
       cs_recently_evicted = cs_recently_evicted cs + n (\<lambda>e. xe_value e \<and> shadow_recent w (xe_id e))\<rparr>)"
  by (induction xs arbitrary: cs) (auto simp: cachestat_step_def Let_def)

text \<open>
  C36: The statistics of \<open>cachestat\<close> are exact. For a permitted call they count, for every page index of the
  range, whether a folio covers it, and whether that is dirty or under write-back, or else whether an evicted entry covers it, and whether
  that was evicted recently: pages of large folios that reach beyond the range are not counted, and no
  page is counted twice.
\<close>

theorem cachestat_counts_pages:
  assumes "map_ok (cf_mapping f)" and "can_do_cachestat f" and "\<not> cf_hugepages f"
    and m_def: "m = cf_mapping f" and a_def: "a = drop_bit (w_page_shift w) off"
    and b_def: "b = (if len = 0 then ULONG_MAX else drop_bit (w_page_shift w) (off + len - 1))"
  shows "sys_cachestat w (Some f) (Some (off, len)) True 0 = Inr
    \<lparr>cs_cache = of_nat (card (pages_of m (\<lambda>e. \<not> xe_value e) a b)),
     cs_dirty = of_nat (card (pages_of m (\<lambda>e. \<not> xe_value e \<and> PAGECACHE_TAG_DIRTY \<in> xe_marks e) a b)),
     cs_writeback = of_nat (card (pages_of m (\<lambda>e. \<not> xe_value e \<and> PAGECACHE_TAG_WRITEBACK \<in> xe_marks e) a b)),
     cs_evicted = of_nat (card (pages_of m xe_value a b)),
     cs_recently_evicted = of_nat (card (pages_of m (\<lambda>e. xe_value e \<and> shadow_recent w (xe_id e)) a b))\<rparr>"
proof -
  have "sum_list (map (covered_pages a b) (filter (P \<circ> snd) (xas_walk m a b))) = of_nat (card (pages_of m P a b))" for P
    using range_count [of m a b P] assms(1) by (simp add: walk_eq m_def filter_map comp_def)
  then have "filemap_cachestat w m a b \<lparr>cs_cache = 0, cs_dirty = 0, cs_writeback = 0, cs_evicted = 0, cs_recently_evicted = 0\<rparr> =
    \<lparr>cs_cache = of_nat (card (pages_of m (\<lambda>e. \<not> xe_value e) a b)),
     cs_dirty = of_nat (card (pages_of m (\<lambda>e. \<not> xe_value e \<and> PAGECACHE_TAG_DIRTY \<in> xe_marks e) a b)),
     cs_writeback = of_nat (card (pages_of m (\<lambda>e. \<not> xe_value e \<and> PAGECACHE_TAG_WRITEBACK \<in> xe_marks e) a b)),
     cs_evicted = of_nat (card (pages_of m xe_value a b)),
     cs_recently_evicted = of_nat (card (pages_of m (\<lambda>e. xe_value e \<and> shadow_recent w (xe_id e)) a b))\<rparr>"
    unfolding filemap_cachestat_def cachestat_fold Let_def by simp
  then show ?thesis using assms(2,3) by (simp add: sys_cachestat_def a_def b_def m_def Let_def)
qed

section \<open>Locked batches and questions\<close>

text \<open>What truncation may take: entries that lie wholly inside the range, and of the folios those nobody uses.\<close>

definition lockable :: "u64 \<Rightarrow> u64 \<Rightarrow> xent \<Rightarrow> bool" where
  "lockable s t e \<longleftrightarrow> unat s \<le> unat (xe_index e) \<and> hi e \<le> unat t + 1 \<and>
     (xe_value e \<or> \<not> xe_locked e \<and> xe_mapped e \<and> \<not> xe_writeback e)"

lemma last_index:
  assumes "ent_ok e"
  shows "t < xe_index e + xe_nr e - 1 \<longleftrightarrow> unat t + 1 < hi e"
proof -
  have "xe_next e \<noteq> 0" using next_unat [OF assms] lo_less_hi [of e] by (metis unat_0 not_less0)
  then have "unat (xe_next e - 1) = hi e - 1" using unat_minus_one [of "xe_next e"] next_unat [OF assms] by simp
  then show ?thesis by (auto simp: word_less_nat_alt xe_next_def)
qed

lemma lock_loop_eq:
  assumes "\<forall>e \<in> set es. ent_ok e \<and> touches (unat s) (unat t) e" and "sorted_wrt before es"
    and "\<forall>e \<in> set es. xe_index e < c \<longleftrightarrow> xe_index e < s" and "length fb < w_batch_size w"
  shows "lock_entries_loop w t (map (found_at s) es) c fb =
    (let xs = take (w_batch_size w - length fb) (filter (lockable s t) es)
     in (if xs = [] then c else xe_next (List.last xs), fb @ map (found_at s) xs))"
  using assms
proof (induction es arbitrary: c fb)
  case (Cons e es)
  have e: "ent_ok e" "unat s < hi e" "lo e \<le> unat t" and rest: "\<forall>e \<in> set es. ent_ok e \<and> touches (unat s) (unat t) e" "sorted_wrt before es"
    "\<forall>x \<in> set es. hi e \<le> lo x" using Cons.prems(1,2) by (auto simp: touches_def before_def [of e])
  have inside: "lo e \<le> unat (fst (found_at s e))" "unat (fst (found_at s e)) < hi e"
    using e(2) lo_less_hi [of e] by (auto simp: found_at_def word_less_nat_alt)
  have base: "fst (found_at s e) AND NOT (xe_nr e - 1) = xe_index e"
    using round_down_entry(1) [OF e(1) inside] by (simp add: round_down_c_def)
  have first: "xe_index e < c \<longleftrightarrow> lo e < unat s" using Cons.prems(3) by (simp add: word_less_nat_alt)
  have fa: "found_at s e = (fst (found_at s e), e)" by (simp add: found_at_def)
  define take_it where "take_it = (if batch_full w (fb @ [found_at s e]) then (xe_next e, fb @ [found_at s e])
      else lock_entries_loop w t (map (found_at s) es) (xe_next e) (fb @ [found_at s e]))"
  define skip_it where "skip_it = lock_entries_loop w t (map (found_at s) es) c fb"
  have step: "lock_entries_loop w t (map (found_at s) (e # es)) c fb =
      (if \<not> xe_value e
       then if lo e < unat s then skip_it else if unat t + 1 < hi e then skip_it else if xe_locked e then skip_it
            else if \<not> xe_mapped e \<or> xe_writeback e then skip_it else take_it
       else if lo e < unat s then skip_it else if unat t + 1 < hi e then (c, fb) else take_it)"
  proof -
    define i where "i = fst (found_at s e)"
    have i: "found_at s e = (i, e)" "i AND NOT (xe_nr e - 1) = xe_index e" using fa base by (simp_all only: i_def)
    show ?thesis unfolding list.map take_it_def skip_it_def i(1)
      by (simp only: lock_entries_loop.simps Let_def i(2) if_cancel first last_index [OF e(1)] xe_next_def)
  qed
  have skip: "lock_entries_loop w t (map (found_at s) es) c fb = (let xs = take (w_batch_size w - length fb) (filter (lockable s t) es)
     in (if xs = [] then c else xe_next (List.last xs), fb @ map (found_at s) xs))"
    using Cons.IH [OF rest(1,2) _ Cons.prems(4)] Cons.prems(3) by simp
  show ?case
  proof (cases "lockable s t e")
    case True
    then have go: "lock_entries_loop w t (map (found_at s) (e # es)) c fb = take_it" unfolding step by (auto simp: lockable_def)
    show ?thesis
    proof (cases "batch_full w (fb @ [found_at s e])")
      case full: True
      then have "w_batch_size w - length fb = 1" using Cons.prems(4) by (auto simp: batch_full_def)
      then show ?thesis using full go True by (simp add: take_it_def)
    next
      case False
      then obtain k where k: "w_batch_size w - length fb = Suc k" "w_batch_size w - length (fb @ [found_at s e]) = k"
        "length (fb @ [found_at s e]) < w_batch_size w"
        by (cases "w_batch_size w - length fb") (auto simp: batch_full_def)
      have nx: "unat (xe_next e) = hi e" using next_unat e(1) .
      have "\<forall>x \<in> set es. xe_index x < xe_next e \<longleftrightarrow> xe_index x < s"
        using rest(3) True lo_less_hi [of e] nx by (fastforce simp: word_less_nat_alt lockable_def)
      from Cons.IH [OF rest(1,2) this k(3)] show ?thesis using go False True k by (simp add: Let_def take_it_def)
    qed
  next
    case no: False
    show ?thesis
    proof (cases "xe_value e \<and> unat s \<le> lo e")
      case True
      then have long: "unat t + 1 < hi e" using no by (auto simp: lockable_def)
      have "es = []" using rest(1,3) long by (cases es) (auto simp: touches_def)
      moreover have "lock_entries_loop w t (map (found_at s) (e # es)) c fb = (c, fb)"
        unfolding step using True long by simp
      ultimately show ?thesis using no by simp
    next
      case False
      then have "lock_entries_loop w t (map (found_at s) (e # es)) c fb = skip_it" unfolding step using no by (auto simp: lockable_def)
      then show ?thesis using skip no by (simp add: skip_it_def)
    qed
  qed
qed simp

text \<open>
  A locked batch takes exactly what truncation may take: the entries that lie wholly inside the range, and of the folios those
  that are not locked by others, not under write-back and still in the mapping, in order and up to
  the size of a batch; the start moves behind the last one taken.
\<close>

theorem find_lock_entries_exact:
  assumes "map_ok m" and "0 < w_batch_size w"
  shows "find_lock_entries w m s t =
    (let xs = take (w_batch_size w) (filter (lockable s t) (touched m s t))
     in (if xs = [] then s else xe_next (List.last xs), map (found_at s) xs))"
proof -
  have "sorted_wrt before (touched m s t)" using assms(1) by (simp add: touched_def map_ok_def sorted_wrt_filter)
  moreover have "\<forall>e \<in> set (touched m s t). ent_ok e \<and> touches (unat s) (unat t) e"
    using assms(1) by (auto simp: touched_def map_ok_def)
  ultimately show ?thesis using lock_loop_eq [of "touched m s t" s t s "[]" w] assms
    by (simp add: find_lock_entries_def find_get_eq wanted_def)
qed

lemma has_page_loop_iff: "has_page_loop xs \<longleftrightarrow> (\<exists>e \<in> snd ` set xs. \<not> xe_value e)"
  by (induction xs rule: has_page_loop.induct) auto

lemma has_writeback_loop_iff:
  "has_writeback_loop xs \<longleftrightarrow> (\<exists>e \<in> snd ` set xs. \<not> xe_value e \<and> (xe_dirty e \<or> xe_locked e \<or> xe_writeback e))"
  by (induction xs rule: has_writeback_loop.induct) auto

text \<open>A range has a page exactly when a folio overlaps it, and write-back exactly when such a folio is dirty, locked or being written.\<close>

theorem range_questions:
  assumes "map_ok m" and "start_byte \<le> end_byte"
  shows "(filemap_range_has_page w m start_byte end_byte \<longleftrightarrow> (\<exists>e \<in> set (touched m (pgoff w start_byte) (pgoff w end_byte)). \<not> xe_value e)) \<and>
    (filemap_range_has_writeback w m start_byte end_byte \<longleftrightarrow>
      (\<exists>e \<in> set (touched m (pgoff w start_byte) (pgoff w end_byte)). \<not> xe_value e \<and> (xe_dirty e \<or> xe_locked e \<or> xe_writeback e)))"
  using assms by (simp add: filemap_range_has_page_def filemap_range_has_writeback_def has_page_loop_iff has_writeback_loop_iff walk_eq
      image_image)

section \<open>A concrete mapping\<close>

text \<open>A folio of one page, a shadow entry, and a folio of four pages at index 4; both folios are being written.\<close>

definition demo_folio :: "nat \<Rightarrow> u64 \<Rightarrow> nat \<Rightarrow> xent" where
  "demo_folio a i k = \<lparr>xe_id = a, xe_value = False, xe_index = i, xe_order = k, xe_marks = {PAGECACHE_TAG_WRITEBACK}, xe_locked = False,
     xe_dirty = False, xe_writeback = True, xe_uptodate = True, xe_readahead = False, xe_mapped = True\<rparr>"

definition demo_map :: xmapping where
  "demo_map = \<lparr>mp_entries = [demo_folio 10 0 0, (demo_folio 77 1 0)\<lparr>xe_value := True, xe_marks := {}\<rparr>, demo_folio 11 4 2], mp_nrpages = 5\<rparr>"

definition demo_wapi :: wapi where
  "demo_wapi = \<lparr>w_page_shift = 12, w_batch_size = 1, w_shmem = False, w_is_swap = (\<lambda>v. False),
     w_swap_shadow = (\<lambda>v. None), w_recent = (\<lambda>v. True)\<rparr>"

definition demo_wait :: "nat \<Rightarrow> xmapping \<Rightarrow> xmapping" where
  "demo_wait a m = m\<lparr>mp_entries := map (\<lambda>e. if xe_id e = a then e\<lparr>xe_marks := {}\<rparr> else e) (mp_entries m)\<rparr>"

lemma demo_map_ok: "map_ok demo_map" "wait_ok demo_wait" "0 < w_batch_size demo_wapi" "0 < w_page_shift demo_wapi"
  by (simp_all add: map_ok_def demo_map_def demo_folio_def ent_ok_def hi_def before_def wait_ok_def demo_wait_def demo_wapi_def
      list_all2_conv_all_nth finished_def slot_def under_writeback_def)

lemmas demo_walk = demo_map_def demo_folio_def touched_def touches_def hi_def tagged_def wanted_def demo_wapi_def

theorem lookups_visit_all_witness:
  "map xe_id (concat (batches (\<lambda>s. filemap_get_folios_tag demo_wapi demo_map s 6 PAGECACHE_TAG_WRITEBACK) 4 0)) = [10, 11] \<and>
   map xe_id (concat (batches (next_entries demo_wapi demo_map 6) 4 0)) = [10, 77, 11]"
  using lookups_visit_all [OF demo_map_ok(1,3), of 6 4 PAGECACHE_TAG_WRITEBACK 0] by (simp add: demo_walk)

theorem fdatawait_waits_for_all_witness:
  "\<exists>m. filemap_fdatawait_bytes demo_wapi demo_wait 0 20000 demo_map = Some m \<and>
    (\<forall>e \<in> set (mp_entries m). \<not> xe_value e \<and> 0 < int (hi e) \<and> int (unat (xe_index e)) \<le> 4 \<longrightarrow> PAGECACHE_TAG_WRITEBACK \<notin> xe_marks e)"
  using fdatawait_waits_for_all [OF demo_map_ok, of 0 20000] by (simp add: demo_wapi_def) blast

theorem read_batch_is_run_witness:
  "reading_run demo_map 9 4 (filemap_get_read_batch demo_wapi demo_map 4 9) \<and> length (filemap_get_read_batch demo_wapi demo_map 4 9) \<le> 1"
  using read_batch_is_run [OF demo_map_ok(1,3), of 9 4] by (simp add: demo_wapi_def)

definition demo_cache :: "nat cache" where
  "demo_cache = \<lparr>pc_pages = (\<lambda>i. False), pc_marks = (\<lambda>i. False), pc_nrpages = 0, pc_reads = [], pc_env = 0\<rparr>"

theorem delete_batch_refines_witness:
  "as_cache (delete_from_page_cache_batch [demo_folio 11 4 2] demo_map) demo_cache = page_cache_delete 4 4 (as_cache demo_map demo_cache)"
proof -
  have "distinct (map xe_id (filter (\<lambda>e. \<not> xe_value e) (mp_entries demo_map)))" "subseq [demo_folio 11 4 2] (mp_entries demo_map)"
    "\<forall>e \<in> set [demo_folio 11 4 2]. \<not> xe_value e" by (simp_all add: demo_map_def demo_folio_def)
  from delete_batch_refines [OF demo_map_ok(1) this, of demo_cache] have
    "as_cache (delete_from_page_cache_batch [demo_folio 11 4 2] demo_map) demo_cache =
      fold (\<lambda>e. page_cache_delete (xe_index e) (xe_nr e)) [demo_folio 11 4 2] (as_cache demo_map demo_cache)" by (rule conjunct2)
  then show ?thesis by (simp add: demo_folio_def xe_nr_def)
qed

theorem cachestat_counts_pages_witness:
  "\<exists>cs. sys_cachestat demo_wapi (Some \<lparr>cf_mapping = demo_map, cf_hugepages = False, cf_fmode_write = True, cf_owner_or_capable = False,
     cf_may_write = 0\<rparr>) (Some (0, 20480)) True 0 = Inr cs \<and> cs_cache cs = 2"
proof -
  define f where "f = \<lparr>cf_mapping = demo_map, cf_hugepages = False, cf_fmode_write = True, cf_owner_or_capable = False, cf_may_write = 0\<rparr>"
  have p: "pages_of demo_map (\<lambda>e. \<not> xe_value e) 0 4 = {0, 4}"
    by (auto simp: pages_of_def demo_map_def demo_folio_def hi_def)
  have "drop_bit (w_page_shift demo_wapi) 0 = (0 :: u64)" "drop_bit (w_page_shift demo_wapi) (0 + 20480 - 1) = (4 :: u64)"
    by (simp_all add: demo_wapi_def drop_bit_eq_div)
  with cachestat_counts_pages [of f demo_map 0 demo_wapi 0 4 20480] show ?thesis
    unfolding f_def [symmetric] using demo_map_ok(1) p by (simp add: f_def can_do_cachestat_def)
qed

theorem find_lock_entries_exact_witness:
  "find_lock_entries demo_wapi demo_map 0 9 = (2, [(1, (demo_folio 77 1 0)\<lparr>xe_value := True, xe_marks := {}\<rparr>)])"
  using find_lock_entries_exact [OF demo_map_ok(1,3), of 0 9] by (simp add: demo_walk lockable_def found_at_def xe_next_def xe_nr_def)

theorem range_questions_witness: "filemap_range_has_page demo_wapi demo_map 16384 16384"
  using range_questions [OF demo_map_ok(1), of 16384 16384 demo_wapi] by (simp add: demo_walk pgoff_def)

end
