(* ===== verification/PageFault.thy ===== *)
theory PageFault
  imports ReadaheadWindows
begin

text \<open>
  A page fault on a mapped file (\<open>readaround-split/src/mm/filemap.c\<close>): the lookup of a folio with its creation, locking it,
  reading it, and \<open>filemap_fault\<close> as a whole, which starts the read-around. The state adds to the page
  cache and the read-ahead state what the fault holds: the fault lock (the lock of the address space or of
  the area), the shared invalidate lock, references on folios, locked folios and references on the file. There is one folio at a time, that of the
  faulting index; what other tasks do to it meanwhile, and what the file system and headers
  decide, are the functions of the record \<open>gapi\<close>, which may change the page cache. Statistics and traces are left out.
\<close>

section \<open>State\<close>

datatype vm_fault_code = VM_FAULT_OOM | VM_FAULT_SIGBUS | VM_FAULT_MAJOR | VM_FAULT_NOPAGE | VM_FAULT_LOCKED | VM_FAULT_RETRY

datatype fault_flag = FAULT_FLAG_TRIED | FAULT_FLAG_RETRY_NOWAIT | FAULT_FLAG_KILLABLE | FAULT_FLAG_ORIG_PTE_VALID

datatype fgp_flag = FGP_LOCK | FGP_CREAT | FGP_NOWAIT | FGP_FOR_MMAP

record 'e flt =
  fl_cache :: "'e cache"
  fl_ra :: file_ra_state
  fl_mmap :: bool
  fl_inval :: int
  fl_refs :: int
  fl_locks :: int
  fl_pins :: int

record 'e gapi =
  g_k :: "'e kapi"
  g_isize :: "'e \<Rightarrow> u64"
  g_vm_locked :: bool
  g_pte_mapped :: "'e \<Rightarrow> bool"
  g_pte_none_lockless :: "'e \<Rightarrow> bool"
  g_pte_none :: "'e \<Rightarrow> bool"
  g_drop_allowed :: "fault_flag set \<Rightarrow> bool"
  g_trylock :: "'e cache \<Rightarrow> bool \<times> 'e cache"
  g_lock :: "'e cache \<Rightarrow> 'e cache"
  g_lock_killable :: "'e cache \<Rightarrow> int \<times> 'e cache"
  g_mapping_ok :: "'e cache \<Rightarrow> bool"
  g_uptodate :: "'e cache \<Rightarrow> bool"
  g_folio_locked :: "'e cache \<Rightarrow> bool"
  g_folio_marked :: "'e cache \<Rightarrow> bool"
  g_folio_nr :: "'e cache \<Rightarrow> u64"
  g_folio_writeback :: "'e cache \<Rightarrow> bool"
  g_read_folio :: "'e cache \<Rightarrow> int \<times> 'e cache"
  g_wait_locked :: "'e cache \<Rightarrow> int \<times> 'e cache"
  g_rac :: "u64 \<Rightarrow> readahead_control"

definition ENOENT :: int where "ENOENT = 2"
definition EIO :: int where "EIO = 5"
definition EAGAIN :: int where "EAGAIN = 11"
definition AOP_TRUNCATED_PAGE :: int where "AOP_TRUNCATED_PAGE = 524289"

section \<open>Finding or creating a folio\<close>

text \<open>
  The loop over the orders of a new folio. A folio that is added comes locked and with a reference; one that cannot be
  added is put.
\<close>

function create_folio :: "'e kapi \<Rightarrow> u64 \<Rightarrow> u32 \<Rightarrow> u32 \<Rightarrow> 'e cache \<Rightarrow> int \<times> 'e cache" where
  "create_folio k index min_order order c =
     (case (case k_alloc_folio k order (pc_env c) of
              (ok, e) \<Rightarrow> if \<not> ok then (- ENOMEM, c\<lparr>pc_env := e\<rparr>) else filemap_add_folio k index order (c\<lparr>pc_env := e\<rparr>)) of
        (err, c1) \<Rightarrow>
          if err = 0 then (0, c1)
          else if min_order < order then create_folio k index min_order (order - 1) c1
          else (err, c1))"
  by pat_completeness auto
termination
proof (relation "measure (\<lambda>(k, index, min_order, order, c). unat order)")
  show "((k, index, min_order, order - 1, c1), k, index, min_order, order, c) \<in> measure (\<lambda>(k, index, min_order, order, c). unat order)"
    if "min_order < order" for k :: "'e kapi" and index min_order order c c1
  proof -
    have "order \<noteq> 0" using that by (metis word_not_simps(1))
    then show ?thesis by (simp add: unat_minus_one unat_gt_0)
  qed
qed simp

text \<open>
  \<open>__filemap_get_folio_mpol\<close>; the second argument is the order asked for in the flags. The result is an error, or
  \<open>None\<close> for a folio with a reference. Hints for reclaim and memory placement are left out.
\<close>

partial_function (option) filemap_get_folio_mpol ::
  "'e gapi \<Rightarrow> u64 \<Rightarrow> fgp_flag set \<Rightarrow> u32 \<Rightarrow> 'e flt \<Rightarrow> (int option \<times> 'e flt) option" where
  "filemap_get_folio_mpol g index flags want s =
     (if pc_pages (fl_cache s) index
      then let s1 = s\<lparr>fl_refs := fl_refs s + 1\<rparr> in
           if FGP_LOCK \<notin> flags then Some (None, s1)
           else case (if FGP_NOWAIT \<in> flags then g_trylock g (fl_cache s1) else (True, g_lock g (fl_cache s1))) of
                  (ok, c) \<Rightarrow>
                    if \<not> ok then Some (Some (- EAGAIN), s1\<lparr>fl_cache := c, fl_refs := fl_refs s1 - 1\<rparr>)
                    else let s2 = s1\<lparr>fl_cache := c, fl_locks := fl_locks s1 + 1\<rparr> in
                         if \<not> g_mapping_ok g c
                         then filemap_get_folio_mpol g index flags want (s2\<lparr>fl_locks := fl_locks s2 - 1, fl_refs := fl_refs s2 - 1\<rparr>)
                         else Some (None, s2)
      else if FGP_CREAT \<notin> flags then Some (Some (- ENOENT), s)
      else let k = g_k g;
               index' = k_align_index k index;
               order0 = max (k_min_order k) want;
               order1 = (if k_max_order k < order0 then k_max_order k else order0);
               order = (if index' AND (nr_pages order1 - 1) \<noteq> 0 then k_ffs_long k index' else order1)
           in case create_folio k index' (k_min_order k) order (fl_cache s) of
                (err, c) \<Rightarrow>
                  let s1 = s\<lparr>fl_cache := c\<rparr> in
                  if err = - EEXIST then filemap_get_folio_mpol g index' flags want s1
                  else if err \<noteq> 0 then Some (Some (if FGP_NOWAIT \<in> flags \<and> err = - ENOMEM then - EAGAIN else err), s1)
                  else let s2 = s1\<lparr>fl_refs := fl_refs s1 + 1, fl_locks := fl_locks s1 + 1\<rparr>
                       in Some (None, if FGP_FOR_MMAP \<in> flags then s2\<lparr>fl_locks := fl_locks s2 - 1\<rparr> else s2))"

section \<open>Locks\<close>

text \<open>
  \<open>maybe_unlock_mmap_for_io\<close> of a header: with the file already pinned nothing happens; otherwise, if the flags
  allow it, the file is pinned and the fault lock is dropped. The result says whether the file is pinned.
\<close>

definition maybe_unlock_mmap_for_io :: "'e gapi \<Rightarrow> fault_flag set \<Rightarrow> bool \<Rightarrow> 'e flt \<Rightarrow> bool \<times> 'e flt" where
  "maybe_unlock_mmap_for_io g flags fpin s =
     (if fpin then (True, s)
      else if g_drop_allowed g flags then (True, s\<lparr>fl_mmap := False, fl_pins := fl_pins s + 1\<rparr>)
      else (False, s))"

definition lock_folio_maybe_drop_mmap :: "'e gapi \<Rightarrow> fault_flag set \<Rightarrow> bool \<Rightarrow> 'e flt \<Rightarrow> bool \<times> bool \<times> 'e flt" where
  "lock_folio_maybe_drop_mmap g flags fpin s =
     (case g_trylock g (fl_cache s) of
        (True, c) \<Rightarrow> (True, fpin, s\<lparr>fl_cache := c, fl_locks := fl_locks s + 1\<rparr>)
      | (False, c) \<Rightarrow>
          let s1 = s\<lparr>fl_cache := c\<rparr> in
          if FAULT_FLAG_RETRY_NOWAIT \<in> flags then (False, fpin, s1)
          else case maybe_unlock_mmap_for_io g flags fpin s1 of
                 (fpin', s2) \<Rightarrow>
                   if FAULT_FLAG_KILLABLE \<in> flags
                   then (case g_lock_killable g (fl_cache s2) of
                           (err, c') \<Rightarrow>
                             if err \<noteq> 0 then (False, fpin', s2\<lparr>fl_cache := c', fl_mmap := fl_mmap s2 \<and> fpin'\<rparr>)
                             else (True, fpin', s2\<lparr>fl_cache := c', fl_locks := fl_locks s2 + 1\<rparr>))
                   else (True, fpin', s2\<lparr>fl_cache := g_lock g (fl_cache s2), fl_locks := fl_locks s2 + 1\<rparr>))"

section \<open>Reading a folio\<close>

definition shrink_readahead_size_eio :: "file_ra_state \<Rightarrow> file_ra_state" where
  "shrink_readahead_size_eio ra = ra\<lparr>fra_ra_pages := fra_ra_pages ra div 4\<rparr>"

text \<open>The read unlocks the folio.\<close>

definition filemap_read_folio :: "'e gapi \<Rightarrow> 'e flt \<Rightarrow> int \<times> 'e flt" where
  "filemap_read_folio g s =
     (case g_read_folio g (fl_cache s) of
        (error, c) \<Rightarrow>
          let s1 = s\<lparr>fl_cache := c, fl_locks := fl_locks s - 1\<rparr> in
          if error \<noteq> 0 then (error, s1)
          else case g_wait_locked g c of
                 (error, c') \<Rightarrow>
                   let s2 = s1\<lparr>fl_cache := c'\<rparr> in
                   if error \<noteq> 0 then (error, s2)
                   else if g_uptodate g c' then (0, s2)
                   else (- EIO, s2\<lparr>fl_ra := shrink_readahead_size_eio (fl_ra s2)\<rparr>))"

section \<open>The fault\<close>

definition filemap_fault_recheck_pte_none :: "'e gapi \<Rightarrow> fault_flag set \<Rightarrow> 'e \<Rightarrow> vm_fault_code set" where
  "filemap_fault_recheck_pte_none g flags e =
     (if \<not> g_vm_locked g then {}
      else if FAULT_FLAG_ORIG_PTE_VALID \<notin> flags then {}
      else if \<not> g_pte_mapped g e then {VM_FAULT_NOPAGE}
      else if \<not> g_pte_none_lockless g e then {VM_FAULT_NOPAGE}
      else if \<not> g_pte_none g e then {VM_FAULT_NOPAGE}
      else {})"

text \<open>Whether the synchronous read-ahead of a fault comes to its reading, which drops the fault lock if it may.\<close>

definition sync_reads :: "vm_fault \<Rightarrow> file_ra_state \<Rightarrow> bool" where
  "sync_reads vmf ra \<longleftrightarrow>
     (let thp = vm_hugepage vmf in
      if \<not> thp \<and> vm_rand_read vmf \<and> \<not> vm_exec vmf then False
      else if \<not> thp \<and> fra_ra_pages ra = 0 then False
      else if \<not> thp \<and> vm_seq_read vmf then True
      else \<not> (\<not> vm_seq_read vmf \<and> fra_mmap_miss (count_miss ra) > MMAP_LOTSAMISS))"

definition fault_sync :: "'e gapi \<Rightarrow> vm_fault \<Rightarrow> fault_flag set \<Rightarrow> 'e flt \<Rightarrow> (bool \<times> 'e flt) option" where
  "fault_sync g vmf flags s =
     (case (if sync_reads vmf (fl_ra s) then maybe_unlock_mmap_for_io g flags False s else (False, s)) of
        (fpin, s1) \<Rightarrow>
          (case do_sync_mmap_readahead (g_k g) vmf (g_rac g (vmf_pgoff vmf)) (fl_ra s1) (fl_cache s1) of
             None \<Rightarrow> None
           | Some (rac, ra, c) \<Rightarrow> Some (fpin, s1\<lparr>fl_ra := ra, fl_cache := c\<rparr>)))"

definition fault_async :: "'e gapi \<Rightarrow> vm_fault \<Rightarrow> fault_flag set \<Rightarrow> 'e flt \<Rightarrow> (bool \<times> 'e flt) option" where
  "fault_async g vmf flags s =
     (let c = fl_cache s; marked = g_folio_marked g c in
      case (if \<not> (vm_rand_read vmf \<or> fra_ra_pages (fl_ra s) = 0) \<and> marked then maybe_unlock_mmap_for_io g flags False s else (False, s)) of
        (fpin, s1) \<Rightarrow>
          (case do_async_mmap_readahead (g_k g) vmf (g_rac g (vmf_pgoff vmf)) (fl_ra s1) (g_folio_locked g c) marked (g_folio_nr g c)
                  (g_folio_writeback g c) (fl_cache s1) of
             None \<Rightarrow> None
           | Some (rac, ra, c') \<Rightarrow> Some (fpin, s1\<lparr>fl_ra := ra, fl_cache := c'\<rparr>)))"

definition max_idx :: "'e gapi \<Rightarrow> 'e flt \<Rightarrow> nat" where
  "max_idx g s = (unat (g_isize g (pc_env (fl_cache s))) + 2 ^ k_page_shift (g_k g) - 1) div 2 ^ k_page_shift (g_k g)"

definition out_retry :: "bool \<Rightarrow> bool \<Rightarrow> bool \<Rightarrow> vm_fault_code set \<Rightarrow> 'e flt \<Rightarrow> vm_fault_code set \<times> 'e flt" where
  "out_retry folio mapping_locked fpin ret s =
     (let s1 = (if folio then s\<lparr>fl_refs := fl_refs s - 1\<rparr> else s);
          s2 = (if mapping_locked then s1\<lparr>fl_inval := fl_inval s1 - 1\<rparr> else s1);
          s3 = (if fpin then s2\<lparr>fl_pins := fl_pins s2 - 1\<rparr> else s2)
      in (insert VM_FAULT_RETRY ret, s3))"

text \<open>\<open>page_not_uptodate\<close>: the result, or the jump to \<open>retry_find\<close>.\<close>

definition page_not_uptodate ::
  "'e gapi \<Rightarrow> fault_flag set \<Rightarrow> vm_fault_code set \<Rightarrow> bool \<Rightarrow> 'e flt \<Rightarrow> (vm_fault_code set \<times> 'e flt) + bool \<times> bool \<times> 'e flt" where
  "page_not_uptodate g flags ret fpin0 s0 =
     (case maybe_unlock_mmap_for_io g flags fpin0 s0 of
        (fpin, s) \<Rightarrow>
          (case filemap_read_folio g s of
             (error, s1) \<Rightarrow>
               if fpin then Inl (out_retry True True fpin ret s1)
               else let s2 = s1\<lparr>fl_refs := fl_refs s1 - 1\<rparr> in
                    if error = 0 \<or> error = AOP_TRUNCATED_PAGE then Inr (True, False, s2)
                    else Inl ({VM_FAULT_SIGBUS}, s2\<lparr>fl_inval := fl_inval s2 - 1\<rparr>)))"

text \<open>From a folio with a reference on: the result, or the jump to \<open>retry_find\<close>.\<close>

definition have_folio ::
  "'e gapi \<Rightarrow> u64 \<Rightarrow> fault_flag set \<Rightarrow> vm_fault_code set \<Rightarrow> bool \<Rightarrow> bool \<Rightarrow> 'e flt \<Rightarrow>
   (vm_fault_code set \<times> 'e flt) + bool \<times> bool \<times> 'e flt" where
  "have_folio g index flags ret mapping_locked fpin0 s0 =
     (case lock_folio_maybe_drop_mmap g flags fpin0 s0 of
        (locked, fpin, s) \<Rightarrow>
          if \<not> locked then Inl (out_retry True mapping_locked fpin ret s)
          else let unlocked = s\<lparr>fl_locks := fl_locks s - 1\<rparr>; put = unlocked\<lparr>fl_refs := fl_refs unlocked - 1\<rparr> in
               if \<not> g_mapping_ok g (fl_cache s) then Inr (mapping_locked, fpin, put)
               else if \<not> g_uptodate g (fl_cache s)
               then if \<not> mapping_locked then Inr (mapping_locked, fpin, put)
                    else page_not_uptodate g flags ret fpin s
               else if fpin then Inl (out_retry True mapping_locked fpin ret unlocked)
               else let s1 = (if mapping_locked then s\<lparr>fl_inval := fl_inval s - 1\<rparr> else s) in
                    if max_idx g s1 \<le> unat index
                    then Inl ({VM_FAULT_SIGBUS}, s1\<lparr>fl_locks := fl_locks s1 - 1, fl_refs := fl_refs s1 - 1\<rparr>)
                    else Inl (insert VM_FAULT_LOCKED ret, s1))"

partial_function (option) retry_find ::
  "'e gapi \<Rightarrow> u64 \<Rightarrow> fault_flag set \<Rightarrow> vm_fault_code set \<Rightarrow> bool \<Rightarrow> bool \<Rightarrow> 'e flt \<Rightarrow> (vm_fault_code set \<times> 'e flt) option" where
  "retry_find g index flags ret mapping_locked fpin s0 =
     (let s = (if mapping_locked then s0 else s0\<lparr>fl_inval := fl_inval s0 + 1\<rparr>) in
      case filemap_get_folio_mpol g index {FGP_CREAT, FGP_FOR_MMAP} 0 s of
        None \<Rightarrow> None
      | Some (Some err, s1) \<Rightarrow>
          if fpin then Some (out_retry False True fpin ret s1)
          else Some ({VM_FAULT_OOM}, s1\<lparr>fl_inval := fl_inval s1 - 1\<rparr>)
      | Some (None, s1) \<Rightarrow>
          (case have_folio g index flags ret True fpin s1 of
             Inl r \<Rightarrow> Some r
           | Inr (ml, fp, s2) \<Rightarrow> retry_find g index flags ret ml fp s2))"

definition filemap_fault :: "'e gapi \<Rightarrow> vm_fault \<Rightarrow> fault_flag set \<Rightarrow> 'e flt \<Rightarrow> (vm_fault_code set \<times> 'e flt) option" where
  "filemap_fault g vmf flags s =
     (let index = vmf_pgoff vmf in
      if max_idx g s \<le> unat index then Some ({VM_FAULT_SIGBUS}, s)
      else case filemap_get_folio_mpol g index {} 0 s of
             None \<Rightarrow> None
           | Some (None, s1) \<Rightarrow>
               (case (if FAULT_FLAG_TRIED \<notin> flags then fault_async g vmf flags s1 else Some (False, s1)) of
                  None \<Rightarrow> None
                | Some (fpin, s2) \<Rightarrow>
                    let ml = \<not> g_uptodate g (fl_cache s2);
                        s3 = (if ml then s2\<lparr>fl_inval := fl_inval s2 + 1\<rparr> else s2)
                    in (case have_folio g index flags {} ml fpin s3 of
                          Inl r \<Rightarrow> Some r
                        | Inr (ml', fp, s4) \<Rightarrow> retry_find g index flags {} ml' fp s4))
           | Some (Some err, s1) \<Rightarrow>
               let ret = filemap_fault_recheck_pte_none g flags (pc_env (fl_cache s1)) in
               if ret \<noteq> {} then Some (ret, s1)
               else (case fault_sync g vmf flags s1 of
                       None \<Rightarrow> None
                     | Some (fpin, s2) \<Rightarrow> retry_find g index flags {VM_FAULT_MAJOR} False fpin s2))"

end
