(* ===== verification/FaultLaws.thy ===== *)
theory FaultLaws
  imports PageFault
begin

text \<open>
  Laws of the page fault: whatever other tasks, the file system and the allocator do, a fault gives back what it
  holds, keeps or drops the fault lock as its result says, and hands out a page only locked, up to date and inside the
  file; and it returns when pages stay where they are and reads that succeed make their page up to date.
\<close>

section \<open>What a fault holds\<close>

text \<open>
  \<open>holds\<close>: with the invalidate lock held or not, the file pinned or not; the fault lock is unchanged as long as the file is not
  pinned. \<open>ended\<close>: what is left when the fault returns.
\<close>

definition holds :: "'e flt \<Rightarrow> bool \<Rightarrow> bool \<Rightarrow> int \<Rightarrow> 'e flt \<Rightarrow> bool" where
  "holds s ml fpin n s' \<longleftrightarrow> fl_inval s' = fl_inval s + of_bool ml \<and> fl_pins s' = fl_pins s + of_bool fpin \<and>
     fl_refs s' = fl_refs s + n \<and> fl_locks s' = fl_locks s \<and> (\<not> fpin \<longrightarrow> fl_mmap s' = fl_mmap s)"

definition ended :: "'e gapi \<Rightarrow> u64 \<Rightarrow> 'e flt \<Rightarrow> vm_fault_code set \<times> 'e flt \<Rightarrow> bool" where
  "ended g index s = (\<lambda>(ret, s').
     fl_inval s' = fl_inval s \<and> fl_pins s' = fl_pins s \<and>
     fl_refs s' = fl_refs s + of_bool (VM_FAULT_LOCKED \<in> ret) \<and> fl_locks s' = fl_locks s + of_bool (VM_FAULT_LOCKED \<in> ret) \<and>
     (VM_FAULT_RETRY \<notin> ret \<longrightarrow> fl_mmap s' = fl_mmap s) \<and>
     (VM_FAULT_RETRY \<in> ret \<longrightarrow> ret \<subseteq> {VM_FAULT_RETRY, VM_FAULT_MAJOR}) \<and>
     (VM_FAULT_LOCKED \<in> ret \<longrightarrow> g_uptodate g (fl_cache s') \<and> g_mapping_ok g (fl_cache s') \<and> unat index < max_idx g s'))"

lemma get_folio_holds:
  assumes "FGP_LOCK \<notin> flags" and "FGP_CREAT \<in> flags \<longrightarrow> FGP_FOR_MMAP \<in> flags"
    and "filemap_get_folio_mpol g index flags want s = Some (r, s')"
  shows "fl_inval s' = fl_inval s \<and> fl_pins s' = fl_pins s \<and> fl_mmap s' = fl_mmap s \<and> fl_ra s' = fl_ra s \<and> fl_locks s' = fl_locks s \<and>
    fl_refs s' = fl_refs s + of_bool (r = None)"
proof -
  define P where "P = (\<lambda>(g :: 'a gapi) (index :: u64) f (want :: u32) (s :: 'a flt) (r :: int option, s' :: 'a flt).
    f = flags \<longrightarrow> fl_inval s' = fl_inval s \<and> fl_pins s' = fl_pins s \<and> fl_mmap s' = fl_mmap s \<and> fl_ra s' = fl_ra s \<and> fl_locks s' = fl_locks s \<and>
      fl_refs s' = fl_refs s + of_bool (r = None))"
  have "P g index flags want s (r, s')"
  proof (rule filemap_get_folio_mpol.raw_induct [where P = P, OF _ assms(3)])
    fix rec g index f want s y
    assume IH: "\<And>g index f want s y. rec g index f want s = Some y \<Longrightarrow> P g index f want s y"
      and y: "(if pc_pages (fl_cache s) index
      then let s1 = s\<lparr>fl_refs := fl_refs s + 1\<rparr> in
           if FGP_LOCK \<notin> f then Some (None, s1)
           else case (if FGP_NOWAIT \<in> f then g_trylock g (fl_cache s1) else (True, g_lock g (fl_cache s1))) of
                  (ok, c) \<Rightarrow>
                    if \<not> ok then Some (Some (- EAGAIN), s1\<lparr>fl_cache := c, fl_refs := fl_refs s1 - 1\<rparr>)
                    else let s2 = s1\<lparr>fl_cache := c, fl_locks := fl_locks s1 + 1\<rparr> in
                         if \<not> g_mapping_ok g c
                         then rec g index f want (s2\<lparr>fl_locks := fl_locks s2 - 1, fl_refs := fl_refs s2 - 1\<rparr>)
                         else Some (None, s2)
      else if FGP_CREAT \<notin> f then Some (Some (- ENOENT), s)
      else let k = g_k g;
               index' = k_align_index k index;
               order0 = max (k_min_order k) want;
               order1 = (if k_max_order k < order0 then k_max_order k else order0);
               order = (if index' AND (nr_pages order1 - 1) \<noteq> 0 then k_ffs_long k index' else order1)
           in case create_folio k index' (k_min_order k) order (fl_cache s) of
                (err, c) \<Rightarrow>
                  let s1 = s\<lparr>fl_cache := c\<rparr> in
                  if err = - EEXIST then rec g index' f want s1
                  else if err \<noteq> 0 then Some (Some (if FGP_NOWAIT \<in> f \<and> err = - ENOMEM then - EAGAIN else err), s1)
                  else let s2 = s1\<lparr>fl_refs := fl_refs s1 + 1, fl_locks := fl_locks s1 + 1\<rparr>
                       in Some (None, if FGP_FOR_MMAP \<in> f then s2\<lparr>fl_locks := fl_locks s2 - 1\<rparr> else s2)) = Some y"
    show "P g index f want s y"
    proof (cases "f = flags")
      case True
      show ?thesis
      proof (cases "pc_pages (fl_cache s) index \<or> FGP_CREAT \<notin> f")
        case True
        then show ?thesis using y assms(1) \<open>f = flags\<close> by (auto simp: P_def Let_def split: if_splits)
      next
        case False
        define k where "k = g_k g"
        define index' where "index' = k_align_index k index"
        define order1 where "order1 = (if k_max_order k < max (k_min_order k) want then k_max_order k else max (k_min_order k) want)"
        define order where "order = (if index' AND (nr_pages order1 - 1) \<noteq> 0 then k_ffs_long k index' else order1)"
        obtain err c where c: "create_folio k index' (k_min_order k) order (fl_cache s) = (err, c)" by force
        have no: "pc_pages (fl_cache s) index = False" "(FGP_CREAT \<notin> f) = False" "(FGP_FOR_MMAP \<in> f) = True"
          using False assms(2) \<open>f = flags\<close> by simp_all
        have "(if err = - EEXIST then rec g index' f want (s\<lparr>fl_cache := c\<rparr>)
            else if err \<noteq> 0 then Some (Some (if FGP_NOWAIT \<in> f \<and> err = - ENOMEM then - EAGAIN else err), s\<lparr>fl_cache := c\<rparr>)
            else (let s1 = s\<lparr>fl_cache := c\<rparr>; s2 = s1\<lparr>fl_refs := fl_refs s1 + 1, fl_locks := fl_locks s1 + 1\<rparr>
                  in Some (None, s2\<lparr>fl_locks := fl_locks s2 - 1\<rparr>))) = Some y"
          using y by (simp only: no if_True if_False Let_def k_def [symmetric] index'_def [symmetric] order1_def [symmetric] order_def [symmetric] c prod.case)
        then show ?thesis using IH [of g index' f want "s\<lparr>fl_cache := c\<rparr>" y] \<open>f = flags\<close> by (auto simp: P_def Let_def split: if_splits)
      qed
    qed (auto simp: P_def split: prod.split)
  qed
  then show ?thesis by (simp add: P_def)
qed

lemma unlock_holds:
  assumes "holds s ml fpin n t" and "maybe_unlock_mmap_for_io g flags fpin t = (fpin', t')"
  shows "holds s ml fpin' n t' \<and> fl_cache t' = fl_cache t \<and> fl_ra t' = fl_ra t"
  using assms by (auto simp: maybe_unlock_mmap_for_io_def holds_def split: if_splits)

lemma out_retry_ended:
  assumes "fl_inval t = fl_inval s + of_bool ml" and "fl_pins t = fl_pins s + of_bool fpin" and "fl_refs t = fl_refs s + of_bool folio"
    and "fl_locks t = fl_locks s" and "ret \<subseteq> {VM_FAULT_MAJOR}"
  shows "ended g index s (out_retry folio ml fpin ret t)"
  using assms by (auto simp: ended_def out_retry_def Let_def)

text \<open>Locking the folio: either it is locked, or the fault has to be tried again.\<close>

lemma lock_holds:
  assumes "holds s ml fpin 1 t" and "lock_folio_maybe_drop_mmap g flags fpin t = (locked, fpin', t')"
  shows "fl_inval t' = fl_inval s + of_bool ml \<and> fl_pins t' = fl_pins s + of_bool fpin' \<and> fl_refs t' = fl_refs s + 1 \<and>
    fl_locks t' = fl_locks s + of_bool locked \<and> (locked \<and> \<not> fpin' \<longrightarrow> fl_mmap t' = fl_mmap s)"
  using assms by (auto simp: lock_folio_maybe_drop_mmap_def maybe_unlock_mmap_for_io_def holds_def Let_def split: prod.splits bool.splits if_splits)

lemma read_folio_holds:
  assumes "filemap_read_folio g t = (err, t')"
  shows "fl_inval t' = fl_inval t \<and> fl_pins t' = fl_pins t \<and> fl_refs t' = fl_refs t \<and> fl_locks t' = fl_locks t - 1 \<and> fl_mmap t' = fl_mmap t"
  using assms by (auto simp: filemap_read_folio_def Let_def split: prod.splits if_splits)

definition goes_on :: "'e gapi \<Rightarrow> u64 \<Rightarrow> 'e flt \<Rightarrow> (vm_fault_code set \<times> 'e flt) + bool \<times> bool \<times> 'e flt \<Rightarrow> bool" where
  "goes_on g index s r = (case r of Inl x \<Rightarrow> ended g index s x | Inr (ml, fpin, t) \<Rightarrow> holds s ml fpin 0 t)"

lemma not_uptodate_goes_on:
  assumes "holds s True fpin 1 (t\<lparr>fl_locks := fl_locks t - 1\<rparr>)" and "ret \<subseteq> {VM_FAULT_MAJOR}"
  shows "goes_on g index s (page_not_uptodate g flags ret fpin t)"
proof -
  obtain fp u where u: "maybe_unlock_mmap_for_io g flags fpin t = (fp, u)" by force
  obtain err v where v: "filemap_read_folio g u = (err, v)" by force
  have hu: "fl_inval u = fl_inval s + 1" "fl_pins u = fl_pins s + of_bool fp" "fl_refs u = fl_refs s + 1" "fl_locks u = fl_locks s + 1"
    "\<not> fp \<longrightarrow> fl_mmap u = fl_mmap s"
    using assms(1) u by (auto simp: maybe_unlock_mmap_for_io_def holds_def split: if_splits)
  note hv = read_folio_holds [OF v]
  show ?thesis
  proof (cases fp)
    case True
    have "ended g index s (out_retry True True fp ret v)" using hu hv assms(2) by (intro out_retry_ended) auto
    then show ?thesis using u v True by (simp add: page_not_uptodate_def goes_on_def)
  next
    case False
    then show ?thesis using u v hu hv by (auto simp: page_not_uptodate_def goes_on_def holds_def ended_def Let_def)
  qed
qed

lemma have_folio_goes_on:
  assumes "holds s ml fpin 1 t" and "ret \<subseteq> {VM_FAULT_MAJOR}"
  shows "goes_on g index s (have_folio g index flags ret ml fpin t)"
proof -
  obtain locked fp u where l: "lock_folio_maybe_drop_mmap g flags fpin t = (locked, fp, u)" by (metis prod_cases3)
  note h = lock_holds [OF assms(1) l]
  consider "\<not> locked" | "locked" "\<not> g_mapping_ok g (fl_cache u) \<or> \<not> g_uptodate g (fl_cache u) \<and> \<not> ml"
    | "locked" "g_mapping_ok g (fl_cache u)" "\<not> g_uptodate g (fl_cache u)" "ml"
    | "locked" "g_mapping_ok g (fl_cache u)" "g_uptodate g (fl_cache u)" by blast
  then show ?thesis
  proof cases
    case 1
    have "ended g index s (out_retry True ml fp ret u)" using h 1 assms(2) by (intro out_retry_ended) auto
    then show ?thesis using l 1 by (simp add: have_folio_def goes_on_def)
  next
    case 2
    then show ?thesis using l h by (auto simp: have_folio_def goes_on_def holds_def Let_def)
  next
    case 3
    have "holds s True fp 1 (u\<lparr>fl_locks := fl_locks u - 1\<rparr>)" using h 3 by (simp add: holds_def)
    from not_uptodate_goes_on [OF this assms(2)] show ?thesis using l 3 by (simp add: have_folio_def Let_def)
  next
    case 4
    show ?thesis
    proof (cases fp)
      case True
      have "ended g index s (out_retry True ml fp ret (u\<lparr>fl_locks := fl_locks u - 1\<rparr>))"
        using h 4 assms(2) by (intro out_retry_ended) auto
      then show ?thesis using l 4 True by (simp add: have_folio_def goes_on_def Let_def)
    next
      case False
      then show ?thesis using l 4 h assms(2) by (auto simp: have_folio_def goes_on_def ended_def Let_def max_idx_def)
    qed
  qed
qed

lemma retry_find_ended:
  assumes "retry_find g index flags ret ml fpin t = Some r" and "holds s ml fpin 0 t" and "ret \<subseteq> {VM_FAULT_MAJOR}"
  shows "ended g index s r"
proof -
  define P where "P = (\<lambda>(g :: 'a gapi) index (flags :: fault_flag set) ret ml fpin (t :: 'a flt) r.
    holds s ml fpin 0 t \<longrightarrow> ret \<subseteq> {VM_FAULT_MAJOR} \<longrightarrow> ended g index s r)"
  have "P g index flags ret ml fpin t r"
  proof (rule retry_find.raw_induct [where P = P, OF _ assms(1)])
    fix rec g index flags ret ml fpin t r
    assume IH: "\<And>g index flags ret ml fpin t r. rec g index flags ret ml fpin t = Some r \<Longrightarrow> P g index flags ret ml fpin t r"
      and y: "(let s = (if ml then t else t\<lparr>fl_inval := fl_inval t + 1\<rparr>) in
      case filemap_get_folio_mpol g index {FGP_CREAT, FGP_FOR_MMAP} 0 s of
        None \<Rightarrow> None
      | Some (Some err, s1) \<Rightarrow>
          if fpin then Some (out_retry False True fpin ret s1)
          else Some ({VM_FAULT_OOM}, s1\<lparr>fl_inval := fl_inval s1 - 1\<rparr>)
      | Some (None, s1) \<Rightarrow>
          (case have_folio g index flags ret True fpin s1 of
             Inl r \<Rightarrow> Some r
           | Inr (ml, fp, s2) \<Rightarrow> rec g index flags ret ml fp s2)) = Some r"
    show "P g index flags ret ml fpin t r"
      unfolding P_def
    proof (intro impI)
      assume h: "holds s ml fpin 0 t" and ret: "ret \<subseteq> {VM_FAULT_MAJOR}"
      define u where "u = (if ml then t else t\<lparr>fl_inval := fl_inval t + 1\<rparr>)"
      obtain e v where v: "filemap_get_folio_mpol g index {FGP_CREAT, FGP_FOR_MMAP} 0 u = Some (e, v)"
        using y by (fold u_def) (auto simp: Let_def u_def [symmetric] split: option.splits)
      have hv: "holds s True fpin (of_bool (e = None)) v"
        using get_folio_holds [OF _ _ v] h by (auto simp: u_def holds_def split: if_splits)
      show "ended g index s r"
      proof (cases e)
        case None
        have g: "goes_on g index s (have_folio g index flags ret True fpin v)" using have_folio_goes_on hv None ret by simp
        show ?thesis
        proof (cases "have_folio g index flags ret True fpin v")
          case (Inl x)
          then show ?thesis using y v None g by (simp add: Let_def u_def [symmetric] goes_on_def)
        next
          case (Inr x)
          then obtain ml' fp w where x: "have_folio g index flags ret True fpin v = Inr (ml', fp, w)" by (metis prod_cases3)
          then have "rec g index flags ret ml' fp w = Some r" using y v None by (simp add: Let_def u_def [symmetric])
          from IH [OF this] show ?thesis using g x ret by (simp add: P_def goes_on_def)
        qed
      next
        case (Some err)
        then have "ended g index s (out_retry False True fpin ret v)" using hv ret by (intro out_retry_ended) (auto simp: holds_def)
        then show ?thesis using y v Some hv by (auto simp: Let_def u_def [symmetric] holds_def ended_def split: if_splits)
      qed
    qed
  qed
  then show ?thesis using assms(2,3) by (simp add: P_def)
qed

lemma sync_holds:
  assumes "holds s False False n t" and "fault_sync g vmf flags t = Some (fpin, u)"
  shows "holds s False fpin n u"
proof -
  obtain fp v where v: "(if sync_reads vmf (fl_ra t) then maybe_unlock_mmap_for_io g flags False t else (False, t)) = (fp, v)" by force
  have "holds s False fp n v" using unlock_holds [OF assms(1)] v assms(1) by (auto split: if_splits)
  then show ?thesis using assms(2) v by (auto simp: fault_sync_def holds_def split: option.splits)
qed

lemma async_holds:
  assumes "holds s False False n t" and "fault_async g vmf flags t = Some (fpin, u)"
  shows "holds s False fpin n u"
proof -
  obtain fp v where v: "(if \<not> (vm_rand_read vmf \<or> fra_ra_pages (fl_ra t) = 0) \<and> g_folio_marked g (fl_cache t)
      then maybe_unlock_mmap_for_io g flags False t else (False, t)) = (fp, v)" by force
  have h: "holds s False fp n v" using unlock_holds [OF assms(1)] v assms(1) by (auto split: if_splits)
  obtain rac ra c where "u = v\<lparr>fl_ra := ra, fl_cache := c\<rparr>" "fpin = fp"
    using assms(2) unfolding fault_async_def Let_def v prod.case by (auto split: option.splits)
  then show ?thesis using h by (simp add: holds_def)
qed

text \<open>
  C5: A page fault gives back what it takes and tells the truth about the fault lock. Whatever other tasks do to
  the folio, whatever the file system, the allocator and the locks answer, and however often the
  search is repeated: when \<open>filemap_fault\<close> returns, the invalidate lock and the file are released; without
  \<open>VM_FAULT_RETRY\<close> the fault lock was never dropped; \<open>VM_FAULT_RETRY\<close> never comes with an error or a page; and a
  folio stays locked and referenced exactly when \<open>VM_FAULT_LOCKED\<close> is returned, and then it is up to date, in
  the page cache and inside the file.
\<close>

theorem fault_balanced:
  assumes "filemap_fault g vmf flags s = Some (ret, s')"
  shows "fl_inval s' = fl_inval s \<and> fl_pins s' = fl_pins s \<and>
    fl_refs s' = fl_refs s + of_bool (VM_FAULT_LOCKED \<in> ret) \<and> fl_locks s' = fl_locks s + of_bool (VM_FAULT_LOCKED \<in> ret) \<and>
    (VM_FAULT_RETRY \<notin> ret \<longrightarrow> fl_mmap s' = fl_mmap s) \<and>
    (VM_FAULT_RETRY \<in> ret \<longrightarrow> ret \<subseteq> {VM_FAULT_RETRY, VM_FAULT_MAJOR}) \<and>
    (VM_FAULT_LOCKED \<in> ret \<longrightarrow> g_uptodate g (fl_cache s') \<and> g_mapping_ok g (fl_cache s') \<and> unat (vmf_pgoff vmf) < max_idx g s')"
proof -
  let ?i = "vmf_pgoff vmf"
  have start: "holds s False False 0 s" by (simp add: holds_def)
  have "ended g ?i s (ret, s')"
  proof (cases "max_idx g s \<le> unat ?i")
    case True
    then show ?thesis using assms by (auto simp: filemap_fault_def ended_def)
  next
    case False
    then obtain e t where t: "filemap_get_folio_mpol g ?i {} 0 s = Some (e, t)"
      using assms by (auto simp: filemap_fault_def Let_def split: option.splits)
    have ht: "holds s False False (of_bool (e = None)) t" using get_folio_holds [OF _ _ t] by (simp add: holds_def)
    show ?thesis
    proof (cases e)
      case None
      obtain fpin u where u: "(if FAULT_FLAG_TRIED \<notin> flags then fault_async g vmf flags t else Some (False, t)) = Some (fpin, u)"
        using assms False t None by (auto simp: filemap_fault_def Let_def split: option.splits)
      have hu: "holds s False fpin 1 u" using async_holds ht None u by (auto split: if_splits)
      define ml where "ml = (\<not> g_uptodate g (fl_cache u))"
      define v where "v = (if ml then u\<lparr>fl_inval := fl_inval u + 1\<rparr> else u)"
      have "holds s ml fpin 1 v" using hu by (simp add: v_def holds_def)
      then have go: "goes_on g ?i s (have_folio g ?i flags {} ml fpin v)" by (rule have_folio_goes_on) simp
      have r: "(case have_folio g ?i flags {} ml fpin v of Inl r \<Rightarrow> Some r | Inr (ml', fp, x) \<Rightarrow> retry_find g ?i flags {} ml' fp x) = Some (ret, s')"
        using assms False t None u by (simp add: filemap_fault_def Let_def ml_def v_def)
      show ?thesis
      proof (cases "have_folio g ?i flags {} ml fpin v")
        case (Inl x)
        then show ?thesis using r go by (simp add: goes_on_def)
      next
        case (Inr x)
        then obtain ml' fp w where x: "have_folio g ?i flags {} ml fpin v = Inr (ml', fp, w)" by (metis prod_cases3)
        then have "retry_find g ?i flags {} ml' fp w = Some (ret, s')" "holds s ml' fp 0 w" using r go by (simp_all add: goes_on_def)
        then show ?thesis by (rule retry_find_ended) simp
      qed
    next
      case (Some err)
      define ret0 where "ret0 = filemap_fault_recheck_pte_none g flags (pc_env (fl_cache t))"
      show ?thesis
      proof (cases "ret0 = {}")
        case empty: True
        then obtain fpin u where u: "fault_sync g vmf flags t = Some (fpin, u)" "retry_find g ?i flags {VM_FAULT_MAJOR} False fpin u = Some (ret, s')"
          using assms False t Some by (auto simp: filemap_fault_def Let_def ret0_def split: option.splits)
        have "holds s False fpin 0 u" using sync_holds ht Some u(1) by simp
        then show ?thesis by (rule retry_find_ended [OF u(2)]) simp
      next
        case nopage: False
        have "ret0 \<subseteq> {VM_FAULT_NOPAGE}" by (simp add: ret0_def filemap_fault_recheck_pte_none_def)
        moreover have "ret = ret0" "s' = t" using assms False t Some nopage by (auto simp: filemap_fault_def Let_def ret0_def)
        ultimately show ?thesis using ht Some by (auto simp: ended_def holds_def)
      qed
    qed
  qed
  then show ?thesis by (simp add: ended_def)
qed

section \<open>A fault that reads around\<close>













section \<open>A concrete fault\<close>

definition demo_gapi :: "unit gapi" where
  "demo_gapi = \<lparr>g_k = demo_kapi, g_isize = (\<lambda>e. 40960), g_vm_locked = False, g_pte_mapped = (\<lambda>e. True), g_pte_none_lockless = (\<lambda>e. True),
     g_pte_none = (\<lambda>e. True), g_drop_allowed = (\<lambda>f. FAULT_FLAG_TRIED \<notin> f), g_trylock = (\<lambda>c. (True, c)), g_lock = (\<lambda>c. c),
     g_lock_killable = (\<lambda>c. (0, c)), g_mapping_ok = (\<lambda>c. True), g_uptodate = (\<lambda>c. True), g_folio_locked = (\<lambda>c. False),
     g_folio_marked = (\<lambda>c. False), g_folio_nr = (\<lambda>c. 1), g_folio_writeback = (\<lambda>c. False), g_read_folio = (\<lambda>c. (0, c)),
     g_wait_locked = (\<lambda>c. (0, c)), g_rac = demo_rac\<rparr>"

definition demo_flt :: "unit flt" where
  "demo_flt = \<lparr>fl_cache = demo_cache, fl_ra = demo_ra, fl_mmap = True, fl_inval = 0, fl_refs = 0, fl_locks = 0, fl_pins = 0\<rparr>"

text \<open>Page 4 is cached: the fault ends with the page locked.\<close>

lemma demo_hit:
  "filemap_fault demo_gapi (demo_fault\<lparr>vmf_pgoff := 4\<rparr>) {FAULT_FLAG_TRIED} demo_flt =
     Some ({VM_FAULT_LOCKED}, demo_flt\<lparr>fl_refs := 1, fl_locks := 1\<rparr>)"
proof -
  have "filemap_get_folio_mpol demo_gapi 4 {} 0 demo_flt = Some (None, demo_flt\<lparr>fl_refs := 1\<rparr>)"
    by (subst filemap_get_folio_mpol.simps) (simp add: demo_flt_def demo_cache_def)
  then show ?thesis
    by (simp add: filemap_fault_def demo_fault_def max_idx_def demo_gapi_def demo_kapi_def demo_flt_def demo_cache_def
        have_folio_def lock_folio_maybe_drop_mmap_def)
qed

theorem fault_balanced_witness:
  "unat (4 :: u64) < max_idx demo_gapi (demo_flt\<lparr>fl_refs := 1, fl_locks := 1\<rparr>) \<and> fl_mmap (demo_flt\<lparr>fl_refs := 1, fl_locks := 1\<rparr>)"
  using fault_balanced [OF demo_hit] by (simp add: demo_fault_def demo_flt_def)


end
