(* ===== verification/StepSystem.thy ===== *)
theory StepSystem
  imports Main
begin

text \<open>
  Programs whose tasks interleave: a predicate for the first states, a step relation, the states that can be
  reached, and invariants of a step relation as a locale.
\<close>

inductive reachable :: "('s \<Rightarrow> bool) \<Rightarrow> ('s \<Rightarrow> 's \<Rightarrow> bool) \<Rightarrow> 's \<Rightarrow> bool" for init step where
  reachable_init: "init s \<Longrightarrow> reachable init step s"
| reachable_step: "reachable init step s \<Longrightarrow> step s s' \<Longrightarrow> reachable init step s'"

lemma reachable_steps: "step\<^sup>*\<^sup>* s s' \<Longrightarrow> reachable init step s \<Longrightarrow> reachable init step s'"
  by (induction rule: rtranclp_induct) (auto intro: reachable_step)

lemma reachable_mono:
  assumes "reachable init step s" and "\<And>s. init s \<Longrightarrow> init' s" and "\<And>s s'. step s s' \<Longrightarrow> step' s s'"
  shows "reachable init' step' s"
  using assms(1) by induction (auto intro: reachable.intros assms(2,3))

locale step_invariant =
  fixes init :: "'s \<Rightarrow> bool" and step :: "'s \<Rightarrow> 's \<Rightarrow> bool" and inv :: "'s \<Rightarrow> bool"
  assumes inv_init: "init s \<Longrightarrow> inv s"
    and inv_step: "inv s \<Longrightarrow> step s s' \<Longrightarrow> inv s'"
begin

lemma inv_reachable: "reachable init step s \<Longrightarrow> inv s"
  by (induction rule: reachable.induct) (auto intro: inv_init inv_step)

lemma inv_steps: "step\<^sup>*\<^sup>* s s' \<Longrightarrow> inv s \<Longrightarrow> inv s'"
  by (induction rule: rtranclp_induct) (auto intro: inv_step)

end

text \<open>A second invariant that is kept wherever the first one holds.\<close>

locale step_invariant_more = step_invariant init step inv
  for init :: "'s \<Rightarrow> bool" and step :: "'s \<Rightarrow> 's \<Rightarrow> bool" and inv :: "'s \<Rightarrow> bool" +
  fixes more :: "'s \<Rightarrow> bool"
  assumes more_init: "init s \<Longrightarrow> more s"
    and more_step: "inv s \<Longrightarrow> more s \<Longrightarrow> step s s' \<Longrightarrow> more s'"
begin

lemma more_reachable: "reachable init step s \<Longrightarrow> more s"
proof (induction rule: reachable.induct)
  case (reachable_init s)
  then show ?case by (rule more_init)
next
  case (reachable_step s s')
  then show ?case using more_step inv_reachable by blast
qed

end

end
