(* ===== verification/FolioLock.thy ===== *)
theory FolioLock
  imports Prelude StepSystem
begin

text \<open>
  Waiting for a bit of a folio and the lock of a folio (\<open>readaround-split/src/mm/filemap.c\<close>): the hashed
  wait queues, the wake function that may hand the lock over, \<open>folio_wait_bit_common\<close> with its callers, and
  the operations that clear a bit and wake. A task's entry in a wait queue is found by the number of the task.
  Every atomic access of the code to the flags of a folio, or to a wait queue under its lock, is one function;
  the step relation at the end interleaves them, task by task. What headers and other files do is the record
  \<open>papi\<close>. Delay accounting, memory barriers and the page-table lock that \<open>softleaf_entry_wait_on_locked\<close>
  drops are left out.
\<close>

section \<open>State\<close>

datatype pg_flag =
  PG_locked | PG_writeback | PG_private_2 | PG_uptodate | PG_waiters | PG_dirty | PG_reclaim | PG_dropbehind

datatype wq_flag = WQ_FLAG_EXCLUSIVE | WQ_FLAG_WOKEN | WQ_FLAG_CUSTOM | WQ_FLAG_DONE

datatype behavior = EXCLUSIVE | SHARED | DROP

datatype task_state = TASK_UNINTERRUPTIBLE | TASK_KILLABLE | TASK_INTERRUPTIBLE

record wait_page_queue =
  pw_folio :: nat
  pw_bit :: pg_flag
  pw_flags :: "wq_flag set"

record folios =
  fl_flags :: "nat \<Rightarrow> pg_flag set"
  fl_refs :: "nat \<Rightarrow> int"
  fl_mapped :: "nat \<Rightarrow> bool"
  fl_queue :: "nat \<Rightarrow> nat list"
  fl_wait :: "nat \<Rightarrow> wait_page_queue"
  fl_invalidated :: "nat list"
  fl_rotated :: "nat list"

text \<open>
  \<open>p_hash\<close> is \<open>hash_ptr\<close>; \<open>p_match\<close> is \<open>wake_page_match\<close>, on the folio and bit of an entry and of a key,
  with the new value of \<open>page_match\<close>; \<open>p_stop\<close> says whether \<open>__wake_up_locked_key\<close> stops after an entry,
  exclusive or not, whose function returned a value; \<open>p_xor\<close> is \<open>folio_xor_flags_has_waiters\<close>;
  \<open>p_end_writeback\<close> is \<open>__folio_end_writeback\<close>.
\<close>

record papi =
  p_hash :: "nat \<Rightarrow> nat"
  p_match :: "nat \<times> pg_flag \<Rightarrow> nat \<times> pg_flag \<Rightarrow> bool \<Rightarrow> bool \<times> bool"
  p_stop :: "int \<Rightarrow> bool \<Rightarrow> bool"
  p_xor :: "pg_flag set \<Rightarrow> pg_flag set \<Rightarrow> bool \<times> pg_flag set"
  p_end_writeback :: "pg_flag set \<Rightarrow> bool \<times> pg_flag set"

text \<open>What is documented of them.\<close>

definition papi_ok :: "papi \<Rightarrow> bool" where
  "papi_ok api \<longleftrightarrow>
     (\<forall>f b g c m. p_match api (f, b) (g, c) m = (f = g \<and> b = c, m \<or> f = g)) \<and>
     (\<forall>r x. p_stop api r x \<longleftrightarrow> r < 0 \<or> r \<noteq> 0 \<and> x) \<and>
     (\<forall>fs msk. p_xor api fs msk = (PG_waiters \<in> fs, (fs - msk) \<union> (msk - fs))) \<and>
     (\<forall>fs. p_end_writeback api fs = (PG_waiters \<in> fs, fs - {PG_writeback}))"

definition EINTR :: int where "EINTR = 4"
definition EIOCBQUEUED :: int where "EIOCBQUEUED = 529"

definition set_flags :: "nat \<Rightarrow> pg_flag set \<Rightarrow> folios \<Rightarrow> folios" where
  "set_flags f fs s = s\<lparr>fl_flags := (fl_flags s)(f := fs)\<rparr>"

definition test_and_set_bit :: "pg_flag \<Rightarrow> nat \<Rightarrow> folios \<Rightarrow> bool \<times> folios" where
  "test_and_set_bit b f s = (b \<in> fl_flags s f, set_flags f (insert b (fl_flags s f)) s)"

definition clear_bit :: "pg_flag \<Rightarrow> nat \<Rightarrow> folios \<Rightarrow> folios" where
  "clear_bit b f s = set_flags f (fl_flags s f - {b}) s"

definition folio_get :: "nat \<Rightarrow> folios \<Rightarrow> folios" where
  "folio_get f s = s\<lparr>fl_refs := (fl_refs s)(f := fl_refs s f + 1)\<rparr>"

definition folio_put :: "nat \<Rightarrow> folios \<Rightarrow> folios" where
  "folio_put f s = s\<lparr>fl_refs := (fl_refs s)(f := fl_refs s f - 1)\<rparr>"

definition set_wait :: "nat \<Rightarrow> wq_flag set \<Rightarrow> folios \<Rightarrow> folios" where
  "set_wait t fs s = s\<lparr>fl_wait := (fl_wait s)(t := (fl_wait s t)\<lparr>pw_flags := fs\<rparr>)\<rparr>"

definition enqueue_wait :: "nat \<Rightarrow> nat \<Rightarrow> folios \<Rightarrow> folios" where
  "enqueue_wait h t s = s\<lparr>fl_queue := (fl_queue s)(h := fl_queue s h @ [t])\<rparr>"

definition remove_wait :: "nat \<Rightarrow> nat \<Rightarrow> folios \<Rightarrow> folios" where
  "remove_wait h t s = s\<lparr>fl_queue := (fl_queue s)(h := remove1 t (fl_queue s h))\<rparr>"

definition folio_waitqueue :: "papi \<Rightarrow> nat \<Rightarrow> nat" where
  "folio_waitqueue api f = p_hash api f"

section \<open>Waking\<close>

text \<open>
  The result, the new \<open>page_match\<close> of the key, and the new state. The queue an entry is deleted from is the
  one it is on, the queue of its folio.
\<close>

definition wake_page_function ::
  "papi \<Rightarrow> nat \<Rightarrow> nat \<Rightarrow> pg_flag \<Rightarrow> bool \<Rightarrow> folios \<Rightarrow> int \<times> bool \<times> folios" where
  "wake_page_function api t f b page_match s =
     (let wait = fl_wait s t; flags = pw_flags wait;
          (matches, pm) = p_match api (pw_folio wait, pw_bit wait) (f, b) page_match;
          wake = (\<lambda>flags s. (if WQ_FLAG_EXCLUSIVE \<in> flags then 1 else 0, pm,
                              remove_wait (folio_waitqueue api (pw_folio wait)) t (set_wait t (insert WQ_FLAG_WOKEN flags) s)))
      in if \<not> matches then (0, pm, s)
         else if WQ_FLAG_EXCLUSIVE \<in> flags
         then if b \<in> fl_flags s f then (- 1, pm, s)
              else if WQ_FLAG_CUSTOM \<in> flags
              then case test_and_set_bit b f s of
                     (busy, s1) \<Rightarrow> if busy then (- 1, pm, s1) else wake (insert WQ_FLAG_DONE flags) s1
              else wake flags s
         else wake flags s)"

fun wake_walk :: "papi \<Rightarrow> nat list \<Rightarrow> nat \<Rightarrow> pg_flag \<Rightarrow> bool \<Rightarrow> folios \<Rightarrow> bool \<times> folios" where
  "wake_walk api [] f b m s = (m, s)"
| "wake_walk api (t # ts) f b m s =
     (case wake_page_function api t f b m s of
        (r, m1, s1) \<Rightarrow>
          if p_stop api r (WQ_FLAG_EXCLUSIVE \<in> pw_flags (fl_wait s t)) then (m1, s1)
          else wake_walk api ts f b m1 s1)"

definition wake_end :: "papi \<Rightarrow> nat \<Rightarrow> bool \<Rightarrow> folios \<Rightarrow> folios" where
  "wake_end api f page_match s =
     (if fl_queue s (folio_waitqueue api f) = [] \<or> \<not> page_match then clear_bit PG_waiters f s else s)"

definition folio_wake_bit :: "papi \<Rightarrow> nat \<Rightarrow> pg_flag \<Rightarrow> folios \<Rightarrow> folios" where
  "folio_wake_bit api f b s =
     (case wake_walk api (fl_queue s (folio_waitqueue api f)) f b False s of (m, s1) \<Rightarrow> wake_end api f m s1)"

section \<open>Waiting\<close>

definition folio_trylock_flag :: "nat \<Rightarrow> pg_flag \<Rightarrow> nat \<Rightarrow> folios \<Rightarrow> bool \<times> folios" where
  "folio_trylock_flag f b t s =
     (let flags = pw_flags (fl_wait s t); got = insert WQ_FLAG_WOKEN (insert WQ_FLAG_DONE flags) in
      if WQ_FLAG_EXCLUSIVE \<in> flags
      then case test_and_set_bit b f s of
             (busy, s1) \<Rightarrow> if busy then (False, s1) else (True, set_wait t got s1)
      else if b \<in> fl_flags s f then (False, s)
      else (True, set_wait t got s))"

text \<open>The arguments of \<open>folio_wait_bit_common\<close> and its local counter \<open>unfairness\<close>.\<close>

record wait_call =
  wc_folio :: nat
  wc_bit :: pg_flag
  wc_state :: task_state
  wc_behavior :: behavior
  wc_unfair :: int

definition wait_flags :: "wait_call \<Rightarrow> wait_call \<times> wq_flag set" where
  "wait_flags c =
     (if wc_behavior c = EXCLUSIVE
      then let u = wc_unfair c - 1
           in (c\<lparr>wc_unfair := u\<rparr>, if u < 0 then {WQ_FLAG_EXCLUSIVE, WQ_FLAG_CUSTOM} else {WQ_FLAG_EXCLUSIVE})
      else (c, {}))"

text \<open>
  From \<open>repeat\<close> to \<open>folio_set_waiters\<close>, the rest of the section under the lock of the queue, one round of
  the loop, and what follows the loop.
\<close>

definition wait_repeat :: "nat \<Rightarrow> wait_call \<Rightarrow> folios \<Rightarrow> wait_call \<times> folios" where
  "wait_repeat t c s =
     (case wait_flags c of
        (c1, flags) \<Rightarrow>
          (c1, set_flags (wc_folio c) (insert PG_waiters (fl_flags s (wc_folio c)))
                 (s\<lparr>fl_wait := (fl_wait s)(t := \<lparr>pw_folio = wc_folio c, pw_bit = wc_bit c, pw_flags = flags\<rparr>)\<rparr>)))"

definition wait_try :: "papi \<Rightarrow> nat \<Rightarrow> wait_call \<Rightarrow> folios \<Rightarrow> folios" where
  "wait_try api t c s =
     (case folio_trylock_flag (wc_folio c) (wc_bit c) t s of
        (got, s1) \<Rightarrow>
          let s2 = (if got then s1 else enqueue_wait (folio_waitqueue api (wc_folio c)) t s1)
          in if wc_behavior c = DROP then folio_put (wc_folio c) s2 else s2)"

datatype wait_out = Asleep | Again | Leave

definition wait_loop :: "bool \<Rightarrow> nat \<Rightarrow> wait_call \<Rightarrow> folios \<Rightarrow> wait_out \<times> folios" where
  "wait_loop signal_pending t c s =
     (let flags = pw_flags (fl_wait s t) in
      if WQ_FLAG_WOKEN \<notin> flags then (if signal_pending then Leave else Asleep, s)
      else if wc_behavior c \<noteq> EXCLUSIVE then (Leave, s)
      else if WQ_FLAG_DONE \<in> flags then (Leave, s)
      else case test_and_set_bit (wc_bit c) (wc_folio c) s of
             (busy, s1) \<Rightarrow> if busy then (Again, s1) else (Leave, set_wait t (insert WQ_FLAG_DONE flags) s1))"

definition wait_finish :: "papi \<Rightarrow> nat \<Rightarrow> wait_call \<Rightarrow> folios \<Rightarrow> int \<times> folios" where
  "wait_finish api t c s =
     (let s1 = remove_wait (folio_waitqueue api (wc_folio c)) t s; flags = pw_flags (fl_wait s1 t) in
      (if wc_behavior c = EXCLUSIVE
       then if WQ_FLAG_DONE \<in> flags then 0 else - EINTR
       else if WQ_FLAG_WOKEN \<in> flags then 0 else - EINTR, s1))"

text \<open>The callers, by the arguments they pass; \<open>n\<close> is \<open>sysctl_page_lock_unfairness\<close>.\<close>

definition wait_common :: "int \<Rightarrow> nat \<Rightarrow> pg_flag \<Rightarrow> task_state \<Rightarrow> behavior \<Rightarrow> wait_call" where
  "wait_common n f b st beh =
     \<lparr>wc_folio = f, wc_bit = b, wc_state = st, wc_behavior = beh, wc_unfair = n\<rparr>"

definition folio_wait_bit :: "int \<Rightarrow> nat \<Rightarrow> pg_flag \<Rightarrow> wait_call" where
  "folio_wait_bit n f b = wait_common n f b TASK_UNINTERRUPTIBLE SHARED"

definition folio_wait_bit_killable :: "int \<Rightarrow> nat \<Rightarrow> pg_flag \<Rightarrow> wait_call" where
  "folio_wait_bit_killable n f b = wait_common n f b TASK_KILLABLE SHARED"

definition folio_put_wait_locked :: "int \<Rightarrow> nat \<Rightarrow> task_state \<Rightarrow> wait_call" where
  "folio_put_wait_locked n f st = wait_common n f PG_locked st DROP"

definition folio_lock_slow :: "int \<Rightarrow> nat \<Rightarrow> wait_call" where
  "folio_lock_slow n f = wait_common n f PG_locked TASK_UNINTERRUPTIBLE EXCLUSIVE"

definition folio_lock_killable_slow :: "int \<Rightarrow> nat \<Rightarrow> wait_call" where
  "folio_lock_killable_slow n f = wait_common n f PG_locked TASK_KILLABLE EXCLUSIVE"

text \<open>
  Its body is that of \<open>folio_wait_bit_common\<close> for a call that is neither exclusive nor drops a reference.
\<close>

definition softleaf_entry_wait_on_locked :: "int \<Rightarrow> nat \<Rightarrow> wait_call" where
  "softleaf_entry_wait_on_locked n f = wait_common n f PG_locked TASK_UNINTERRUPTIBLE SHARED"

definition folio_trylock :: "nat \<Rightarrow> folios \<Rightarrow> bool \<times> folios" where
  "folio_trylock f s = (case test_and_set_bit PG_locked f s of (busy, s1) \<Rightarrow> (\<not> busy, s1))"

text \<open>The entry \<open>t\<close> belongs to an asynchronous read; its flags and wake function are the reader's.\<close>

definition folio_lock_async :: "papi \<Rightarrow> nat \<Rightarrow> nat \<Rightarrow> folios \<Rightarrow> int \<times> folios" where
  "folio_lock_async api f t s =
     (let h = folio_waitqueue api f;
          s1 = s\<lparr>fl_wait := (fl_wait s)(t := (fl_wait s t)\<lparr>pw_folio := f, pw_bit := PG_locked\<rparr>)\<rparr>;
          s2 = enqueue_wait h t s1;
          s3 = set_flags f (insert PG_waiters (fl_flags s2 f)) s2
      in case folio_trylock f s3 of
           (got, s4) \<Rightarrow> if got then (0, remove_wait h t s4) else (- EIOCBQUEUED, s4))"

text \<open>
  \<open>__folio_lock_or_retry\<close>, given what the wait it calls returns: the result, whether the fault's lock is
  released, and the wait it called. The waits for an unlocked folio test the bit first.
\<close>

datatype fault_flag = ALLOW_RETRY_FIRST | FAULT_FLAG_RETRY_NOWAIT | FAULT_FLAG_KILLABLE

datatype vm_fault = VM_FAULT_RETRY | VM_FAULT_0

definition folio_lock_or_retry ::
  "int \<Rightarrow> nat \<Rightarrow> fault_flag set \<Rightarrow> (wait_call \<Rightarrow> int) \<Rightarrow> vm_fault \<times> bool \<times> wait_call option" where
  "folio_lock_or_retry n f flags wait =
     (if ALLOW_RETRY_FIRST \<in> flags
      then if FAULT_FLAG_RETRY_NOWAIT \<in> flags then (VM_FAULT_RETRY, False, None)
           else (VM_FAULT_RETRY, True,
                 Some (if FAULT_FLAG_KILLABLE \<in> flags then folio_wait_bit_killable n f PG_locked
                       else folio_wait_bit n f PG_locked))
      else if FAULT_FLAG_KILLABLE \<in> flags
      then let c = folio_lock_killable_slow n f
           in if wait c \<noteq> 0 then (VM_FAULT_RETRY, True, Some c) else (VM_FAULT_0, False, Some c)
      else (VM_FAULT_0, False, Some (folio_lock_slow n f)))"

section \<open>Clearing a bit\<close>

text \<open>
  The atomic change of the flags, with the result that decides whether the waiters are woken, and the whole
  operation.
\<close>

definition xor_flags :: "papi \<Rightarrow> nat \<Rightarrow> pg_flag set \<Rightarrow> folios \<Rightarrow> bool \<times> folios" where
  "xor_flags api f msk s = (case p_xor api (fl_flags s f) msk of (w, fs) \<Rightarrow> (w, set_flags f fs s))"

definition folio_unlock :: "papi \<Rightarrow> nat \<Rightarrow> folios \<Rightarrow> folios" where
  "folio_unlock api f s =
     (case xor_flags api f {PG_locked} s of (w, s1) \<Rightarrow> if w then folio_wake_bit api f PG_locked s1 else s1)"

definition end_read_mask :: "bool \<Rightarrow> pg_flag set" where
  "end_read_mask success = (if success then {PG_locked, PG_uptodate} else {PG_locked})"

definition folio_end_read :: "papi \<Rightarrow> nat \<Rightarrow> bool \<Rightarrow> folios \<Rightarrow> folios" where
  "folio_end_read api f success s =
     (case xor_flags api f (end_read_mask success) s of
        (w, s1) \<Rightarrow> if w then folio_wake_bit api f PG_locked s1 else s1)"

definition folio_end_private_2 :: "papi \<Rightarrow> nat \<Rightarrow> folios \<Rightarrow> folios" where
  "folio_end_private_2 api f s = folio_put f (folio_wake_bit api f PG_private_2 (clear_bit PG_private_2 f s))"

definition filemap_end_dropbehind :: "nat \<Rightarrow> folios \<Rightarrow> folios" where
  "filemap_end_dropbehind f s =
     (if PG_writeback \<in> fl_flags s f \<or> PG_dirty \<in> fl_flags s f then s
      else if PG_dropbehind \<notin> fl_flags s f then s
      else let s1 = clear_bit PG_dropbehind f s
           in if fl_mapped s f then s1\<lparr>fl_invalidated := fl_invalidated s1 @ [f]\<rparr> else s1)"

definition folio_end_dropbehind :: "papi \<Rightarrow> bool \<Rightarrow> nat \<Rightarrow> folios \<Rightarrow> folios" where
  "folio_end_dropbehind api in_task f s =
     (if PG_dropbehind \<notin> fl_flags s f then s
      else if \<not> in_task then s
      else case folio_trylock f s of
             (got, s1) \<Rightarrow> if got then folio_unlock api f (filemap_end_dropbehind f s1) else s1)"

definition filemap_end_dropbehind_read :: "papi \<Rightarrow> nat \<Rightarrow> folios \<Rightarrow> folios" where
  "filemap_end_dropbehind_read api f s =
     (if PG_dropbehind \<notin> fl_flags s f then s
      else if PG_writeback \<in> fl_flags s f \<or> PG_dirty \<in> fl_flags s f then s
      else case folio_trylock f s of
             (got, s1) \<Rightarrow> if got then folio_unlock api f (filemap_end_dropbehind f s1) else s1)"

definition end_writeback_flags :: "papi \<Rightarrow> nat \<Rightarrow> folios \<Rightarrow> bool \<times> folios" where
  "end_writeback_flags api f s =
     (let s1 = (if PG_reclaim \<in> fl_flags s f
                then let s0 = clear_bit PG_reclaim f s in s0\<lparr>fl_rotated := fl_rotated s0 @ [f]\<rparr>
                else s)
      in case p_end_writeback api (fl_flags s1 f) of (w, fs) \<Rightarrow> (w, set_flags f fs s1))"

definition folio_end_writeback_no_dropbehind :: "papi \<Rightarrow> nat \<Rightarrow> folios \<Rightarrow> folios" where
  "folio_end_writeback_no_dropbehind api f s =
     (case end_writeback_flags api f s of (w, s1) \<Rightarrow> if w then folio_wake_bit api f PG_writeback s1 else s1)"

definition folio_end_writeback :: "papi \<Rightarrow> bool \<Rightarrow> nat \<Rightarrow> folios \<Rightarrow> folios" where
  "folio_end_writeback api in_task f s =
     folio_put f (folio_end_dropbehind api in_task f (folio_end_writeback_no_dropbehind api f (folio_get f s)))"

section \<open>Tasks\<close>

text \<open>
  Where a task is: outside, in \<open>folio_wait_bit_common\<close>, or in \<open>folio_wake_bit\<close> with what its caller does
  after it (return, drop a reference, or go on to the second half of \<open>folio_end_writeback\<close>).
\<close>

datatype kont = K_return | K_put | K_dropbehind

datatype pc =
    Idle
  | W_repeat wait_call
  | W_try wait_call
  | W_loop wait_call
  | W_finish wait_call
  | U_wake nat pg_flag kont
  | U_walk nat pg_flag kont "nat list" bool
  | U_end nat pg_flag kont bool
  | U_dropbehind nat
  | U_locked nat

text \<open>
  \<open>sy_qlock\<close> is the holder of the spinlock of a queue, \<open>sy_held\<close> the folios whose lock a task was given and
  has not released, \<open>sy_ret\<close> what its last wait returned.
\<close>

record locks =
  sy_fl :: folios
  sy_pc :: "nat \<Rightarrow> pc"
  sy_qlock :: "nat \<Rightarrow> nat option"
  sy_held :: "nat \<Rightarrow> nat set"
  sy_ret :: "nat \<Rightarrow> int"

datatype wait_op =
    Wait_bit nat pg_flag | Wait_bit_killable nat pg_flag | Put_wait_locked nat task_state
  | Folio_lock nat | Folio_lock_killable nat | Softleaf_wait nat

fun wait_args :: "int \<Rightarrow> wait_op \<Rightarrow> wait_call" where
  "wait_args n (Wait_bit f b) = folio_wait_bit n f b"
| "wait_args n (Wait_bit_killable f b) = folio_wait_bit_killable n f b"
| "wait_args n (Put_wait_locked f st) = folio_put_wait_locked n f st"
| "wait_args n (Folio_lock f) = folio_lock_slow n f"
| "wait_args n (Folio_lock_killable f) = folio_lock_killable_slow n f"
| "wait_args n (Softleaf_wait f) = softleaf_entry_wait_on_locked n f"

definition waitable :: "pg_flag \<Rightarrow> bool" where
  "waitable b \<longleftrightarrow> b = PG_locked \<or> b = PG_writeback \<or> b = PG_private_2"

definition at :: "nat \<Rightarrow> pc \<Rightarrow> folios \<Rightarrow> locks \<Rightarrow> locks" where
  "at t p fl s = s\<lparr>sy_pc := (sy_pc s)(t := p), sy_fl := fl\<rparr>"

definition q_lock :: "nat \<Rightarrow> nat option \<Rightarrow> locks \<Rightarrow> locks" where
  "q_lock h x s = s\<lparr>sy_qlock := (sy_qlock s)(h := x)\<rparr>"

definition own :: "nat \<Rightarrow> nat \<Rightarrow> locks \<Rightarrow> locks" where
  "own t f s = s\<lparr>sy_held := (sy_held s)(t := insert f (sy_held s t))\<rparr>"

definition disown :: "nat \<Rightarrow> nat \<Rightarrow> locks \<Rightarrow> locks" where
  "disown t f s = s\<lparr>sy_held := (sy_held s)(t := sy_held s t - {f})\<rparr>"

definition wake_if :: "bool \<Rightarrow> nat \<Rightarrow> pg_flag \<Rightarrow> kont \<Rightarrow> folios \<Rightarrow> pc \<times> folios" where
  "wake_if w f b k fl =
     (if w then (U_wake f b k, fl)
      else case k of K_return \<Rightarrow> (Idle, fl) | K_put \<Rightarrow> (Idle, folio_put f fl) | K_dropbehind \<Rightarrow> (U_dropbehind f, fl))"

text \<open>
  The steps. The lock that a task was given may be passed on to the context that ends a read; bits other than
  the lock are set, and those nobody waits for changed, by other parts of the kernel.
\<close>

inductive lock_step :: "papi \<Rightarrow> int \<Rightarrow> locks \<Rightarrow> locks \<Rightarrow> bool" for api n where
  call: "sy_pc s t = Idle \<Longrightarrow> c = wait_args n op \<Longrightarrow> waitable (wc_bit c) \<Longrightarrow>
    lock_step api n s (at t (W_repeat c) (sy_fl s) s)"
| rpt: "sy_pc s t = W_repeat c \<Longrightarrow> h = folio_waitqueue api (wc_folio c) \<Longrightarrow> sy_qlock s h = None \<Longrightarrow>
    wait_repeat t c (sy_fl s) = (c', fl) \<Longrightarrow>
    lock_step api n s (q_lock h (Some t) (at t (W_try c') fl s))"
| tryl: "sy_pc s t = W_try c \<Longrightarrow> h = folio_waitqueue api (wc_folio c) \<Longrightarrow>
    lock_step api n s (q_lock h None (at t (W_loop c) (wait_try api t c (sy_fl s)) s))"
| again: "sy_pc s t = W_loop c \<Longrightarrow> wait_loop sig t c (sy_fl s) = (Again, fl) \<Longrightarrow>
    lock_step api n s (at t (W_repeat c) fl s)"
| leave: "sy_pc s t = W_loop c \<Longrightarrow> (sig \<longrightarrow> wc_state c \<noteq> TASK_UNINTERRUPTIBLE) \<Longrightarrow>
    wait_loop sig t c (sy_fl s) = (Leave, fl) \<Longrightarrow>
    lock_step api n s (at t (W_finish c) fl s)"
| finish: "sy_pc s t = W_finish c \<Longrightarrow> h = folio_waitqueue api (wc_folio c) \<Longrightarrow>
    (t \<in> set (fl_queue (sy_fl s) h) \<longrightarrow> sy_qlock s h = None) \<Longrightarrow>
    wait_finish api t c (sy_fl s) = (r, fl) \<Longrightarrow>
    s' = (at t Idle fl s)\<lparr>sy_ret := (sy_ret s)(t := r)\<rparr> \<Longrightarrow>
    lock_step api n s (if r = 0 \<and> wc_behavior c = EXCLUSIVE then own t (wc_folio c) s' else s')"
| trylock: "sy_pc s t = Idle \<Longrightarrow> folio_trylock f (sy_fl s) = (True, fl) \<Longrightarrow>
    lock_step api n s (own t f (at t Idle fl s))"
| pass: "sy_pc s t = Idle \<Longrightarrow> f \<in> sy_held s t \<Longrightarrow> lock_step api n s (own u f (disown t f s))"
| unlock: "sy_pc s t = Idle \<Longrightarrow> f \<in> sy_held s t \<Longrightarrow>
    msk = {PG_locked} \<or> msk = end_read_mask ok \<and> (ok \<longrightarrow> PG_uptodate \<notin> fl_flags (sy_fl s) f) \<Longrightarrow>
    xor_flags api f msk (sy_fl s) = (w, fl) \<Longrightarrow> wake_if w f PG_locked K_return fl = (p, fl') \<Longrightarrow>
    lock_step api n s (disown t f (at t p fl' s))"
| end_private: "sy_pc s t = Idle \<Longrightarrow> PG_private_2 \<in> fl_flags (sy_fl s) f \<Longrightarrow>
    lock_step api n s (at t (U_wake f PG_private_2 K_put) (clear_bit PG_private_2 f (sy_fl s)) s)"
| end_writeback: "sy_pc s t = Idle \<Longrightarrow> PG_writeback \<in> fl_flags (sy_fl s) f \<Longrightarrow>
    end_writeback_flags api f (folio_get f (sy_fl s)) = (w, fl) \<Longrightarrow>
    wake_if w f PG_writeback K_dropbehind fl = (p, fl') \<Longrightarrow>
    lock_step api n s (at t p fl' s)"
| drop_skip: "sy_pc s t = U_dropbehind f \<Longrightarrow>
    lock_step api n s (at t Idle (folio_put f (sy_fl s)) s)"
| drop_lock: "sy_pc s t = U_dropbehind f \<Longrightarrow> PG_dropbehind \<in> fl_flags (sy_fl s) f \<Longrightarrow>
    folio_trylock f (sy_fl s) = (True, fl) \<Longrightarrow>
    lock_step api n s (own t f (at t (U_locked f) fl s))"
| drop_unlock: "sy_pc s t = U_locked f \<Longrightarrow>
    xor_flags api f {PG_locked} (filemap_end_dropbehind f (sy_fl s)) = (w, fl) \<Longrightarrow>
    wake_if w f PG_locked K_put fl = (p, fl') \<Longrightarrow>
    lock_step api n s (disown t f (at t p fl' s))"
| wake: "sy_pc s t = U_wake f b k \<Longrightarrow> h = folio_waitqueue api f \<Longrightarrow> sy_qlock s h = None \<Longrightarrow>
    lock_step api n s (q_lock h (Some t) (at t (U_walk f b k (fl_queue (sy_fl s) h) False) (sy_fl s) s))"
| walk: "sy_pc s t = U_walk f b k (u # us) m \<Longrightarrow> wake_page_function api u f b m (sy_fl s) = (r, m', fl) \<Longrightarrow>
    p = (if p_stop api r (WQ_FLAG_EXCLUSIVE \<in> pw_flags (fl_wait (sy_fl s) u)) then U_end f b k m' else U_walk f b k us m') \<Longrightarrow>
    lock_step api n s (at t p fl s)"
| walked: "sy_pc s t = U_walk f b k [] m \<Longrightarrow> lock_step api n s (at t (U_end f b k m) (sy_fl s) s)"
| woken: "sy_pc s t = U_end f b k m \<Longrightarrow> wake_if False f b k (wake_end api f m (sy_fl s)) = (p, fl) \<Longrightarrow>
    lock_step api n s (q_lock (folio_waitqueue api f) None (at t p fl s))"
| set_bit: "b \<noteq> PG_locked \<Longrightarrow>
    lock_step api n s (s\<lparr>sy_fl := set_flags f (insert b (fl_flags (sy_fl s) f)) (sy_fl s)\<rparr>)"
| reset_bit: "\<not> waitable b \<Longrightarrow> b \<noteq> PG_waiters \<Longrightarrow>
    lock_step api n s (s\<lparr>sy_fl := clear_bit b f (sy_fl s)\<rparr>)"

definition lock_init :: "locks \<Rightarrow> bool" where
  "lock_init s \<longleftrightarrow> (\<forall>t. sy_pc s t = Idle \<and> sy_held s t = {}) \<and> (\<forall>h. sy_qlock s h = None \<and> fl_queue (sy_fl s) h = []) \<and>
     (\<forall>f. PG_locked \<notin> fl_flags (sy_fl s) f)"

end
