(* ===== verification/LockLaws.thy ===== *)
theory LockLaws
  imports FolioLock
begin

text \<open>
  What the lock of a folio promises: at most one task holds it, a task that waits is found by the next waker,
  what the waits return, and how often a waiter can be passed over.
\<close>

lemmas fl_defs = set_flags_def test_and_set_bit_def clear_bit_def folio_get_def folio_put_def set_wait_def
  enqueue_wait_def remove_wait_def

lemmas sy_defs = at_def q_lock_def own_def disown_def

named_theorems fl_simps \<open>fields after an update of the folios\<close>

lemma set_flags_fields [fl_simps]:
  "fl_flags (set_flags f fs s) = (fl_flags s)(f := fs)" "fl_queue (set_flags f fs s) = fl_queue s"
  "fl_wait (set_flags f fs s) = fl_wait s"
  by (simp_all add: set_flags_def)

lemma clear_bit_fields [fl_simps]:
  "fl_flags (clear_bit b f s) = (fl_flags s)(f := fl_flags s f - {b})" "fl_queue (clear_bit b f s) = fl_queue s"
  "fl_wait (clear_bit b f s) = fl_wait s"
  by (simp_all add: clear_bit_def fl_simps)

lemma refs_fields [fl_simps]:
  "fl_flags (folio_get f s) = fl_flags s" "fl_queue (folio_get f s) = fl_queue s" "fl_wait (folio_get f s) = fl_wait s"
  "fl_flags (folio_put f s) = fl_flags s" "fl_queue (folio_put f s) = fl_queue s" "fl_wait (folio_put f s) = fl_wait s"
  by (simp_all add: folio_get_def folio_put_def)

lemma set_wait_fields [fl_simps]:
  "fl_flags (set_wait t fs s) = fl_flags s" "fl_queue (set_wait t fs s) = fl_queue s"
  "fl_wait (set_wait t fs s) = (fl_wait s)(t := (fl_wait s t)\<lparr>pw_flags := fs\<rparr>)"
  by (simp_all add: set_wait_def)

lemma queue_fields [fl_simps]:
  "fl_flags (enqueue_wait h t s) = fl_flags s" "fl_wait (enqueue_wait h t s) = fl_wait s"
  "fl_queue (enqueue_wait h t s) = (fl_queue s)(h := fl_queue s h @ [t])"
  "fl_flags (remove_wait h t s) = fl_flags s" "fl_wait (remove_wait h t s) = fl_wait s"
  "fl_queue (remove_wait h t s) = (fl_queue s)(h := remove1 t (fl_queue s h))"
  by (simp_all add: enqueue_wait_def remove_wait_def)

section \<open>The primitive operations\<close>

lemma xor_flags_eq:
  "papi_ok api \<Longrightarrow> xor_flags api f msk s =
     (PG_waiters \<in> fl_flags s f, set_flags f ((fl_flags s f - msk) \<union> (msk - fl_flags s f)) s)"
  by (simp add: papi_ok_def xor_flags_def)

lemma end_writeback_flags_eq:
  assumes "papi_ok api" and "end_writeback_flags api f s = (w, fl)"
  shows "w = (PG_waiters \<in> fl_flags s f)" and "fl_queue fl = fl_queue s" and "fl_wait fl = fl_wait s"
    and "fl_flags fl = (fl_flags s)(f := fl_flags s f - {PG_writeback} - {PG_reclaim})"
proof -
  have w: "p_end_writeback api fs = (PG_waiters \<in> fs, fs - {PG_writeback})" for fs
    using assms(1) by (simp add: papi_ok_def)
  show "w = (PG_waiters \<in> fl_flags s f)" "fl_queue fl = fl_queue s" "fl_wait fl = fl_wait s"
    "fl_flags fl = (fl_flags s)(f := fl_flags s f - {PG_writeback} - {PG_reclaim})"
    using assms(2) by (auto simp: w end_writeback_flags_def Let_def fl_simps split: if_splits)
qed

lemma dropbehind_fields:
  "fl_queue (filemap_end_dropbehind f s) = fl_queue s" "fl_wait (filemap_end_dropbehind f s) = fl_wait s"
  "b \<noteq> PG_dropbehind \<Longrightarrow> b \<in> fl_flags (filemap_end_dropbehind f s) g \<longleftrightarrow> b \<in> fl_flags s g"
  by (auto simp: filemap_end_dropbehind_def Let_def fl_simps)

lemma wake_if_fields:
  assumes "wake_if w f b k fl = (p, fl')"
  shows "fl_flags fl' = fl_flags fl" and "fl_queue fl' = fl_queue fl" and "fl_wait fl' = fl_wait fl"
    and "p = (if w then U_wake f b k else if k = K_dropbehind then U_dropbehind f else Idle)"
  using assms by (auto simp: wake_if_def fl_simps split: if_splits kont.splits)

lemma wake_end_fields:
  "fl_queue (wake_end api f m s) = fl_queue s" "fl_wait (wake_end api f m s) = fl_wait s"
  "fl_flags (wake_end api f m s) =
     (if fl_queue s (folio_waitqueue api f) = [] \<or> \<not> m then (fl_flags s)(f := fl_flags s f - {PG_waiters}) else fl_flags s)"
  by (auto simp: wake_end_def fl_simps)

text \<open>The five outcomes of the wake function.\<close>

lemma wake_page_function_cases [consumes 2, case_names other busy shared excl handoff]:
  assumes "papi_ok api" and "wake_page_function api u f b m s = (r, m', fl)"
  obtains
    (other) "pw_folio (fl_wait s u) \<noteq> f \<or> pw_bit (fl_wait s u) \<noteq> b" "r = 0" "fl = s" "m' = (m \<or> pw_folio (fl_wait s u) = f)"
  | (busy) "pw_folio (fl_wait s u) = f" "pw_bit (fl_wait s u) = b" "WQ_FLAG_EXCLUSIVE \<in> pw_flags (fl_wait s u)"
      "b \<in> fl_flags s f" "r = - 1" "fl = s" "m'"
  | (shared) "pw_folio (fl_wait s u) = f" "pw_bit (fl_wait s u) = b" "WQ_FLAG_EXCLUSIVE \<notin> pw_flags (fl_wait s u)"
      "r = 0" "fl = remove_wait (folio_waitqueue api f) u (set_wait u (insert WQ_FLAG_WOKEN (pw_flags (fl_wait s u))) s)" "m'"
  | (excl) "pw_folio (fl_wait s u) = f" "pw_bit (fl_wait s u) = b" "WQ_FLAG_EXCLUSIVE \<in> pw_flags (fl_wait s u)"
      "WQ_FLAG_CUSTOM \<notin> pw_flags (fl_wait s u)" "b \<notin> fl_flags s f" "r = 1"
      "fl = remove_wait (folio_waitqueue api f) u (set_wait u (insert WQ_FLAG_WOKEN (pw_flags (fl_wait s u))) s)" "m'"
  | (handoff) "pw_folio (fl_wait s u) = f" "pw_bit (fl_wait s u) = b" "WQ_FLAG_EXCLUSIVE \<in> pw_flags (fl_wait s u)"
      "WQ_FLAG_CUSTOM \<in> pw_flags (fl_wait s u)" "b \<notin> fl_flags s f" "r = 1"
      "fl = remove_wait (folio_waitqueue api f) u
              (set_wait u (insert WQ_FLAG_WOKEN (insert WQ_FLAG_DONE (pw_flags (fl_wait s u)))) (set_flags f (insert b (fl_flags s f)) s))"
      "m'"
  using assms
  by (auto simp: papi_ok_def wake_page_function_def test_and_set_bit_def Let_def split: if_splits)

lemma wait_try_cases:
  obtains
    (got) "wc_bit c \<notin> fl_flags s (wc_folio c)" "fl_queue (wait_try api t c s) = fl_queue s"
      "fl_wait (wait_try api t c s) = (fl_wait s)(t := (fl_wait s t)\<lparr>pw_flags := insert WQ_FLAG_WOKEN (insert WQ_FLAG_DONE (pw_flags (fl_wait s t)))\<rparr>)"
      "fl_flags (wait_try api t c s) =
         (if WQ_FLAG_EXCLUSIVE \<in> pw_flags (fl_wait s t) then (fl_flags s)(wc_folio c := insert (wc_bit c) (fl_flags s (wc_folio c)))
          else fl_flags s)"
  | (queued) "wc_bit c \<in> fl_flags s (wc_folio c)" "fl_flags (wait_try api t c s) = fl_flags s" "fl_wait (wait_try api t c s) = fl_wait s"
      "fl_queue (wait_try api t c s) =
         (fl_queue s)(folio_waitqueue api (wc_folio c) := fl_queue s (folio_waitqueue api (wc_folio c)) @ [t])"
proof (cases "wc_bit c \<in> fl_flags s (wc_folio c)")
  case True
  then show ?thesis
    by (intro queued) (simp_all add: wait_try_def folio_trylock_flag_def Let_def test_and_set_bit_def fl_simps insert_absorb)
next
  case False
  then show ?thesis
    by (intro got) (simp_all add: wait_try_def folio_trylock_flag_def Let_def test_and_set_bit_def fl_simps)
qed

lemma wait_loop_Again:
  assumes "wait_loop sig t c s = (Again, fl)"
  shows "fl_queue fl = fl_queue s" and "fl_wait fl = fl_wait s" and "fl_flags fl = fl_flags s"
    and "wc_bit c \<in> fl_flags s (wc_folio c)" and "WQ_FLAG_WOKEN \<in> pw_flags (fl_wait s t)"
    and "WQ_FLAG_DONE \<notin> pw_flags (fl_wait s t)" and "wc_behavior c = EXCLUSIVE"
  using assms by (auto simp: wait_loop_def Let_def test_and_set_bit_def fl_simps insert_absorb split: if_splits)

lemma wait_loop_Leave:
  assumes "wait_loop sig t c s = (Leave, fl)"
  obtains
    (sig) "sig" "WQ_FLAG_WOKEN \<notin> pw_flags (fl_wait s t)" "fl = s"
  | (woken) "WQ_FLAG_WOKEN \<in> pw_flags (fl_wait s t)" "wc_behavior c \<noteq> EXCLUSIVE \<or> WQ_FLAG_DONE \<in> pw_flags (fl_wait s t)" "fl = s"
  | (taken) "WQ_FLAG_WOKEN \<in> pw_flags (fl_wait s t)" "WQ_FLAG_DONE \<notin> pw_flags (fl_wait s t)" "wc_behavior c = EXCLUSIVE"
      "wc_bit c \<notin> fl_flags s (wc_folio c)"
      "fl = set_wait t (insert WQ_FLAG_DONE (pw_flags (fl_wait s t))) (set_flags (wc_folio c) (insert (wc_bit c) (fl_flags s (wc_folio c))) s)"
  using assms by (auto simp: wait_loop_def Let_def test_and_set_bit_def split: if_splits)

lemma wait_repeat_fields:
  assumes "wait_repeat t c s = (c', fl)"
  shows "wc_folio c' = wc_folio c" and "wc_bit c' = wc_bit c" and "wc_state c' = wc_state c" and "wc_behavior c' = wc_behavior c"
    and "wc_unfair c' = (if wc_behavior c = EXCLUSIVE then wc_unfair c - 1 else wc_unfair c)"
    and "fl_queue fl = fl_queue s"
    and "fl_flags fl = (fl_flags s)(wc_folio c := insert PG_waiters (fl_flags s (wc_folio c)))"
    and "fl_wait fl = (fl_wait s)(t := \<lparr>pw_folio = wc_folio c, pw_bit = wc_bit c,
           pw_flags = (if wc_behavior c = EXCLUSIVE then insert WQ_FLAG_EXCLUSIVE (if wc_unfair c < 1 then {WQ_FLAG_CUSTOM} else {}) else {})\<rparr>)"
  using assms by (auto simp: wait_repeat_def wait_flags_def Let_def fl_simps split: if_splits)

section \<open>The shape of reachable states\<close>

definition call_ok :: "wait_call \<Rightarrow> bool" where
  "call_ok c \<longleftrightarrow> waitable (wc_bit c) \<and> (wc_behavior c = EXCLUSIVE \<longrightarrow> wc_bit c = PG_locked)"

definition entry_ok :: "int \<Rightarrow> wait_call \<Rightarrow> wait_page_queue \<Rightarrow> bool" where
  "entry_ok n c w \<longleftrightarrow> call_ok c \<and> pw_folio w = wc_folio c \<and> pw_bit w = wc_bit c \<and>
     (WQ_FLAG_EXCLUSIVE \<in> pw_flags w \<longleftrightarrow> wc_behavior c = EXCLUSIVE) \<and>
     (WQ_FLAG_CUSTOM \<in> pw_flags w \<longleftrightarrow> wc_behavior c = EXCLUSIVE \<and> wc_unfair c < 0) \<and>
     (wc_behavior c = EXCLUSIVE \<longrightarrow> - 1 \<le> wc_unfair c \<and> wc_unfair c < n) \<and>
     (WQ_FLAG_DONE \<in> pw_flags w \<longrightarrow> WQ_FLAG_WOKEN \<in> pw_flags w) \<and>
     (WQ_FLAG_CUSTOM \<in> pw_flags w \<and> WQ_FLAG_WOKEN \<in> pw_flags w \<longrightarrow> WQ_FLAG_DONE \<in> pw_flags w)"

definition task_ok :: "int \<Rightarrow> pc \<Rightarrow> wait_page_queue \<Rightarrow> bool" where
  "task_ok n p w \<longleftrightarrow>
     (case p of
        W_repeat c \<Rightarrow> call_ok c \<and> (wc_behavior c = EXCLUSIVE \<longrightarrow> 0 \<le> wc_unfair c \<and> wc_unfair c \<le> n)
      | W_try c \<Rightarrow> entry_ok n c w \<and> WQ_FLAG_WOKEN \<notin> pw_flags w
      | W_loop c \<Rightarrow> entry_ok n c w
      | W_finish c \<Rightarrow> entry_ok n c w \<and>
          (wc_state c = TASK_UNINTERRUPTIBLE \<longrightarrow>
             WQ_FLAG_WOKEN \<in> pw_flags w \<and> (wc_behavior c = EXCLUSIVE \<longrightarrow> WQ_FLAG_DONE \<in> pw_flags w))
      | _ \<Rightarrow> True)"

text \<open>Where a task that waits is found, and which queue's lock a task holds.\<close>

definition queued_at :: "papi \<Rightarrow> pc \<Rightarrow> wait_page_queue \<Rightarrow> nat option" where
  "queued_at api p w =
     (if WQ_FLAG_WOKEN \<in> pw_flags w then None
      else case p of W_loop c \<Rightarrow> Some (folio_waitqueue api (wc_folio c))
                   | W_finish c \<Rightarrow> Some (folio_waitqueue api (wc_folio c)) | _ \<Rightarrow> None)"

definition spins :: "papi \<Rightarrow> pc \<Rightarrow> nat option" where
  "spins api p =
     (case p of W_try c \<Rightarrow> Some (folio_waitqueue api (wc_folio c))
              | U_walk f b k ts m \<Rightarrow> Some (folio_waitqueue api f)
              | U_end f b k m \<Rightarrow> Some (folio_waitqueue api f) | _ \<Rightarrow> None)"

definition walk_ok :: "papi \<Rightarrow> folios \<Rightarrow> pc \<Rightarrow> bool" where
  "walk_ok api s p =
     (case p of
        U_walk f b k ts m \<Rightarrow> distinct ts \<and> set ts \<subseteq> set (fl_queue s (folio_waitqueue api f)) \<and>
          (m \<or> (\<forall>u \<in> set (fl_queue s (folio_waitqueue api f)). pw_folio (fl_wait s u) = f \<longrightarrow> u \<in> set ts))
      | U_end f b k m \<Rightarrow> m \<or> (\<forall>u \<in> set (fl_queue s (folio_waitqueue api f)). pw_folio (fl_wait s u) \<noteq> f)
      | W_try c \<Rightarrow> PG_waiters \<in> fl_flags s (wc_folio c)
      | _ \<Rightarrow> True)"

definition tasks_inv :: "int \<Rightarrow> locks \<Rightarrow> bool" where
  "tasks_inv n s \<longleftrightarrow> (\<forall>t. task_ok n (sy_pc s t) (fl_wait (sy_fl s) t))"

definition queues_inv :: "papi \<Rightarrow> locks \<Rightarrow> bool" where
  "queues_inv api s \<longleftrightarrow>
     (\<forall>h. distinct (fl_queue (sy_fl s) h)) \<and>
     (\<forall>h t. t \<in> set (fl_queue (sy_fl s) h) \<longleftrightarrow> queued_at api (sy_pc s t) (fl_wait (sy_fl s) t) = Some h)"

definition spin_inv :: "papi \<Rightarrow> locks \<Rightarrow> bool" where
  "spin_inv api s \<longleftrightarrow> (\<forall>h t. sy_qlock s h = Some t \<longleftrightarrow> spins api (sy_pc s t) = Some h)"

definition walks_inv :: "papi \<Rightarrow> locks \<Rightarrow> bool" where
  "walks_inv api s \<longleftrightarrow> (\<forall>t. walk_ok api (sy_fl s) (sy_pc s t))"

definition waiters_inv :: "locks \<Rightarrow> bool" where
  "waiters_inv s \<longleftrightarrow>
     (\<forall>h. \<forall>u \<in> set (fl_queue (sy_fl s) h). PG_waiters \<in> fl_flags (sy_fl s) (pw_folio (fl_wait (sy_fl s) u)))"

definition lock_wf :: "papi \<Rightarrow> int \<Rightarrow> locks \<Rightarrow> bool" where
  "lock_wf api n s \<longleftrightarrow> tasks_inv n s \<and> queues_inv api s \<and> spin_inv api s \<and> walks_inv api s \<and> waiters_inv s"

lemmas wf_defs = tasks_inv_def queues_inv_def spin_inv_def walks_inv_def waiters_inv_def

lemma lock_wfD:
  assumes "lock_wf api n s"
  shows "task_ok n (sy_pc s t) (fl_wait (sy_fl s) t)" and "distinct (fl_queue (sy_fl s) h)"
    and "t \<in> set (fl_queue (sy_fl s) h) \<longleftrightarrow> queued_at api (sy_pc s t) (fl_wait (sy_fl s) t) = Some h"
    and "sy_qlock s h = Some t \<longleftrightarrow> spins api (sy_pc s t) = Some h"
    and "walk_ok api (sy_fl s) (sy_pc s t)"
    and "u \<in> set (fl_queue (sy_fl s) h) \<Longrightarrow> PG_waiters \<in> fl_flags (sy_fl s) (pw_folio (fl_wait (sy_fl s) u))"
  using assms by (simp_all add: lock_wf_def wf_defs)

lemma lock_wfI:
  assumes "\<And>t. task_ok n (sy_pc s t) (fl_wait (sy_fl s) t)" and "\<And>h. distinct (fl_queue (sy_fl s) h)"
    and "\<And>h t. t \<in> set (fl_queue (sy_fl s) h) \<longleftrightarrow> queued_at api (sy_pc s t) (fl_wait (sy_fl s) t) = Some h"
    and "\<And>h t. sy_qlock s h = Some t \<longleftrightarrow> spins api (sy_pc s t) = Some h"
    and "\<And>t. walk_ok api (sy_fl s) (sy_pc s t)"
    and "\<And>u h. u \<in> set (fl_queue (sy_fl s) h) \<Longrightarrow> PG_waiters \<in> fl_flags (sy_fl s) (pw_folio (fl_wait (sy_fl s) u))"
  shows "lock_wf api n s"
  using assms by (simp add: lock_wf_def wf_defs)

lemma queued_at_SomeE:
  assumes "queued_at api p w = Some h"
  obtains c where "p = W_loop c \<or> p = W_finish c" "h = folio_waitqueue api (wc_folio c)" "WQ_FLAG_WOKEN \<notin> pw_flags w"
  using assms by (auto simp: queued_at_def split: if_splits pc.splits)

text \<open>Steps that leave the queues and their locks alone.\<close>

lemma lock_wf_frame:
  assumes wf: "lock_wf api n s" and "sy_qlock s' = sy_qlock s" and q: "fl_queue (sy_fl s') = fl_queue (sy_fl s)"
    and w: "\<And>u. pw_folio (fl_wait (sy_fl s') u) = pw_folio (fl_wait (sy_fl s) u)"
    and m: "\<And>f. PG_waiters \<in> fl_flags (sy_fl s) f \<Longrightarrow> PG_waiters \<in> fl_flags (sy_fl s') f"
    and p: "\<And>u. sy_pc s' u = sy_pc s u \<and> fl_wait (sy_fl s') u = fl_wait (sy_fl s) u \<or>
      queued_at api (sy_pc s' u) (fl_wait (sy_fl s') u) = queued_at api (sy_pc s u) (fl_wait (sy_fl s) u) \<and>
      spins api (sy_pc s u) = None \<and> spins api (sy_pc s' u) = None \<and> task_ok n (sy_pc s' u) (fl_wait (sy_fl s') u)"
  shows "lock_wf api n s'"
proof (rule lock_wfI)
  note D = lock_wfD [OF wf]
  fix t h u
  show "task_ok n (sy_pc s' t) (fl_wait (sy_fl s') t)" using p [of t] D(1) [of t] by auto
  show "distinct (fl_queue (sy_fl s') h)" using D(2) q by simp
  show "t \<in> set (fl_queue (sy_fl s') h) \<longleftrightarrow> queued_at api (sy_pc s' t) (fl_wait (sy_fl s') t) = Some h"
    using p [of t] D(3) [of t h] q by auto
  show "sy_qlock s' h = Some t \<longleftrightarrow> spins api (sy_pc s' t) = Some h" using p [of t] D(4) [of h t] assms(2) by auto
  show "u \<in> set (fl_queue (sy_fl s') h) \<Longrightarrow> PG_waiters \<in> fl_flags (sy_fl s') (pw_folio (fl_wait (sy_fl s') u))"
    using D(6) [of u h] q w m by simp
  show "walk_ok api (sy_fl s') (sy_pc s' t)"
  proof (cases "sy_pc s' t = sy_pc s t")
    case True
    then show ?thesis using D(5) [of t] q w m by (auto simp: walk_ok_def split: pc.splits)
  next
    case False
    then show ?thesis using p [of t] by (auto simp: walk_ok_def spins_def split: pc.splits)
  qed
qed

text \<open>
  Steps that change one queue, under its lock or by the task that gets it: every other queue, and every
  task that is not in this queue, stays as it is.
\<close>

lemma walk_ok_other:
  assumes "walk_ok api s p" and "spins api p \<noteq> Some h"
    and "\<And>h'. h' \<noteq> h \<Longrightarrow> fl_queue s' h' = fl_queue s h'"
    and "\<And>h' u. h' \<noteq> h \<Longrightarrow> u \<in> set (fl_queue s h') \<Longrightarrow> pw_folio (fl_wait s' u) = pw_folio (fl_wait s u)"
    and "\<And>f. folio_waitqueue api f \<noteq> h \<Longrightarrow> PG_waiters \<in> fl_flags s f \<Longrightarrow> PG_waiters \<in> fl_flags s' f"
  shows "walk_ok api s' p"
  using assms by (cases p) (simp_all add: walk_ok_def spins_def)

lemma queued_hash:
  assumes wf: "lock_wf api n s" and in_q: "u \<in> set (fl_queue (sy_fl s) h)"
  shows "folio_waitqueue api (pw_folio (fl_wait (sy_fl s) u)) = h"
proof -
  obtain c where "sy_pc s u = W_loop c \<or> sy_pc s u = W_finish c" "h = folio_waitqueue api (wc_folio c)"
    by (rule queued_at_SomeE [OF iffD1 [OF lock_wfD(3) [OF wf] in_q]])
  then show ?thesis using lock_wfD(1) [OF wf, of u] by (auto simp: task_ok_def entry_ok_def)
qed

lemma lock_wf_queue:
  assumes wf: "lock_wf api n s" and pc: "\<And>u. u \<noteq> t \<Longrightarrow> sy_pc s' u = sy_pc s u"
    and alone: "\<And>u. u \<noteq> t \<Longrightarrow> spins api (sy_pc s u) \<noteq> Some h"
    and sp: "spins api (sy_pc s t) \<in> {None, Some h}" "spins api (sy_pc s' t) \<in> {None, Some h}"
    and ql: "sy_qlock s' = (sy_qlock s)(h := if spins api (sy_pc s' t) = Some h then Some t else None)"
    and q: "\<And>h'. h' \<noteq> h \<Longrightarrow> fl_queue (sy_fl s') h' = fl_queue (sy_fl s) h'" "distinct (fl_queue (sy_fl s') h)"
    and mem: "\<And>u. u \<in> set (fl_queue (sy_fl s') h) \<longleftrightarrow> queued_at api (sy_pc s' u) (fl_wait (sy_fl s') u) = Some h"
    and w: "\<And>u. u \<noteq> t \<Longrightarrow> u \<notin> set (fl_queue (sy_fl s) h) \<Longrightarrow> fl_wait (sy_fl s') u = fl_wait (sy_fl s) u"
    and qt: "queued_at api (sy_pc s t) (fl_wait (sy_fl s) t) \<in> {None, Some h}"
      "queued_at api (sy_pc s' t) (fl_wait (sy_fl s') t) \<in> {None, Some h}"
    and qu: "\<And>u. u \<in> set (fl_queue (sy_fl s) h) \<Longrightarrow> queued_at api (sy_pc s' u) (fl_wait (sy_fl s') u) \<in> {None, Some h}"
    and ok: "\<And>u. u = t \<or> u \<in> set (fl_queue (sy_fl s) h) \<Longrightarrow> task_ok n (sy_pc s' u) (fl_wait (sy_fl s') u)"
    and m: "\<And>f. folio_waitqueue api f \<noteq> h \<Longrightarrow> PG_waiters \<in> fl_flags (sy_fl s) f \<Longrightarrow> PG_waiters \<in> fl_flags (sy_fl s') f"
    and mh: "\<And>u. u \<in> set (fl_queue (sy_fl s') h) \<Longrightarrow> PG_waiters \<in> fl_flags (sy_fl s') (pw_folio (fl_wait (sy_fl s') u))"
    and wt: "walk_ok api (sy_fl s') (sy_pc s' t)"
  shows "lock_wf api n s'"
proof (rule lock_wfI)
  note D = lock_wfD [OF wf]
  have far: "u \<noteq> t \<and> u \<notin> set (fl_queue (sy_fl s) h) \<and> fl_wait (sy_fl s') u = fl_wait (sy_fl s) u"
    if "u \<in> set (fl_queue (sy_fl s) h')" "h' \<noteq> h" for u h'
  proof -
    have "queued_at api (sy_pc s u) (fl_wait (sy_fl s) u) = Some h'" using that(1) D(3) by blast
    then have "u \<noteq> t" "u \<notin> set (fl_queue (sy_fl s) h)" using qt(1) that(2) D(3) [of u h] by auto
    then show ?thesis using w by blast
  qed
  fix u h'
  show "task_ok n (sy_pc s' u) (fl_wait (sy_fl s') u)"
    using ok [of u] pc [of u] w [of u] D(1) [of u] by (cases "u = t \<or> u \<in> set (fl_queue (sy_fl s) h)") auto
  show "distinct (fl_queue (sy_fl s') h')" using q D(2) by (cases "h' = h") auto
  show "u \<in> set (fl_queue (sy_fl s') h') \<longleftrightarrow> queued_at api (sy_pc s' u) (fl_wait (sy_fl s') u) = Some h'"
  proof (cases "h' = h")
    case False
    then have "fl_queue (sy_fl s') h' = fl_queue (sy_fl s) h'" by (rule q(1))
    then show ?thesis
      using False qt qu [of u] D(3) [of u h'] D(3) [of u h] pc [of u] w [of u] far [of u h']
      by (cases "u = t \<or> u \<in> set (fl_queue (sy_fl s) h)") auto
  qed (simp add: mem)
  show "sy_qlock s' h' = Some u \<longleftrightarrow> spins api (sy_pc s' u) = Some h'"
    using ql sp pc [of u] D(4) [of h' u] alone [of u] by (cases "u = t"; cases "h' = h") auto
  show "u \<in> set (fl_queue (sy_fl s') h') \<Longrightarrow> PG_waiters \<in> fl_flags (sy_fl s') (pw_folio (fl_wait (sy_fl s') u))"
    using mh [of u] q(1) [of h'] far [of u h'] queued_hash [OF wf, of u h'] m D(6) [of u h'] by (cases "h' = h") auto
  show "walk_ok api (sy_fl s') (sy_pc s' u)"
    using walk_ok_other [OF D(5) [of u] alone q(1)] far m wt pc [of u] by (cases "u = t") auto
qed

lemma spins_alone:
  assumes "lock_wf api n s" and "sy_qlock s h = None \<or> spins api (sy_pc s t) = Some h" and "u \<noteq> t"
  shows "spins api (sy_pc s u) \<noteq> Some h"
  using assms lock_wfD(4) [OF assms(1), of h u] lock_wfD(4) [OF assms(1), of h t] by auto

lemma step_rpt:
  assumes wf: "lock_wf api n s" and p: "sy_pc s t = W_repeat c" and h: "h = folio_waitqueue api (wc_folio c)"
    and l: "sy_qlock s h = None" and r: "wait_repeat t c (sy_fl s) = (c', fl)"
    and s': "s' = q_lock h (Some t) (at t (W_try c') fl s)"
  shows "lock_wf api n s'"
proof (rule lock_wf_queue [OF wf, where t = t and h = h])
  note R = wait_repeat_fields [OF r] and D = lock_wfD [OF wf]
  have nq: "t \<notin> set (fl_queue (sy_fl s) h')" for h' using D(3) [of t h'] p by (auto simp: queued_at_def)
  have tk: "task_ok n (W_try c') (fl_wait fl t)"
    using D(1) [of t] p R(1-5,8) by (auto simp: task_ok_def entry_ok_def call_ok_def)
  fix u
  show "u \<noteq> t \<Longrightarrow> spins api (sy_pc s u) \<noteq> Some h" using spins_alone [OF wf] l by blast
  show "u = t \<or> u \<in> set (fl_queue (sy_fl s) h) \<Longrightarrow> task_ok n (sy_pc s' u) (fl_wait (sy_fl s') u)"
    using tk D(1) [of u] nq R(8) by (auto simp: s' sy_defs)
  show "u \<in> set (fl_queue (sy_fl s') h) \<longleftrightarrow> queued_at api (sy_pc s' u) (fl_wait (sy_fl s') u) = Some h"
    using D(3) [of u h] nq R(6,8) by (auto simp: s' sy_defs queued_at_def)
  show "u \<in> set (fl_queue (sy_fl s) h) \<Longrightarrow> queued_at api (sy_pc s' u) (fl_wait (sy_fl s') u) \<in> {None, Some h}"
    using D(3) [of u h] nq R(8) by (auto simp: s' sy_defs)
  show "u \<in> set (fl_queue (sy_fl s') h) \<Longrightarrow> PG_waiters \<in> fl_flags (sy_fl s') (pw_folio (fl_wait (sy_fl s') u))"
    using D(6) [of u h] nq R(6,7,8) by (auto simp: s' sy_defs)
qed (use p h wait_repeat_fields [OF r] lock_wfD(2) [OF wf, of h] in
      \<open>auto simp: s' sy_defs spins_def queued_at_def walk_ok_def\<close>)

lemma step_tryl:
  assumes wf: "lock_wf api n s" and p: "sy_pc s t = W_try c" and h: "h = folio_waitqueue api (wc_folio c)"
    and s': "s' = q_lock h None (at t (W_loop c) (wait_try api t c (sy_fl s)) s)"
  shows "lock_wf api n s'"
proof (rule lock_wf_queue [OF wf, where t = t and h = h])
  note D = lock_wfD [OF wf]
  have nq: "t \<notin> set (fl_queue (sy_fl s) h')" for h' using D(3) [of t h'] p by (auto simp: queued_at_def)
  have e: "entry_ok n c (fl_wait (sy_fl s) t)" "WQ_FLAG_WOKEN \<notin> pw_flags (fl_wait (sy_fl s) t)"
    "PG_waiters \<in> fl_flags (sy_fl s) (wc_folio c)"
    using D(1,5) [of t] p by (auto simp: task_ok_def walk_ok_def)
  have sp: "spins api (sy_pc s t) = Some h" using p h by (simp add: spins_def)
  fix u
  show "u \<noteq> t \<Longrightarrow> spins api (sy_pc s u) \<noteq> Some h" using spins_alone [OF wf] sp by blast
  have "task_ok n (W_loop c) (fl_wait (wait_try api t c (sy_fl s)) t)"
    using e by (cases rule: wait_try_cases [of c "sy_fl s" api t]) (auto simp: task_ok_def entry_ok_def)
  then show "u = t \<or> u \<in> set (fl_queue (sy_fl s) h) \<Longrightarrow> task_ok n (sy_pc s' u) (fl_wait (sy_fl s') u)"
    using D(1) [of u] nq by (cases rule: wait_try_cases [of c "sy_fl s" api t]) (auto simp: s' sy_defs)
  show "u \<in> set (fl_queue (sy_fl s') h) \<longleftrightarrow> queued_at api (sy_pc s' u) (fl_wait (sy_fl s') u) = Some h"
    using D(3) [of u h] nq e h by (cases rule: wait_try_cases [of c "sy_fl s" api t]) (auto simp: s' sy_defs queued_at_def)
  show "u \<in> set (fl_queue (sy_fl s) h) \<Longrightarrow> queued_at api (sy_pc s' u) (fl_wait (sy_fl s') u) \<in> {None, Some h}"
    using D(3) [of u h] nq by (cases rule: wait_try_cases [of c "sy_fl s" api t]) (auto simp: s' sy_defs)
  show "u \<in> set (fl_queue (sy_fl s') h) \<Longrightarrow> PG_waiters \<in> fl_flags (sy_fl s') (pw_folio (fl_wait (sy_fl s') u))"
    using D(6) [of u h] nq e by (cases rule: wait_try_cases [of c "sy_fl s" api t]) (auto simp: s' sy_defs entry_ok_def h split: if_splits)
  show "distinct (fl_queue (sy_fl s') h)"
    using D(2) [of h] nq [of h] by (cases rule: wait_try_cases [of c "sy_fl s" api t]) (auto simp: s' sy_defs h)
  show "queued_at api (sy_pc s' t) (fl_wait (sy_fl s') t) \<in> {None, Some h}"
    by (auto simp: s' sy_defs queued_at_def h)
  fix h' f
  show "h' \<noteq> h \<Longrightarrow> fl_queue (sy_fl s') h' = fl_queue (sy_fl s) h'"
    by (cases rule: wait_try_cases [of c "sy_fl s" api t]) (auto simp: s' sy_defs h)
  show "u \<noteq> t \<Longrightarrow> fl_wait (sy_fl s') u = fl_wait (sy_fl s) u"
    by (cases rule: wait_try_cases [of c "sy_fl s" api t]) (auto simp: s' sy_defs)
  show "PG_waiters \<in> fl_flags (sy_fl s) f \<Longrightarrow> PG_waiters \<in> fl_flags (sy_fl s') f"
    by (cases rule: wait_try_cases [of c "sy_fl s" api t]) (auto simp: s' sy_defs)
qed (use p h in \<open>auto simp: s' sy_defs spins_def queued_at_def walk_ok_def\<close>)

lemma step_finish:
  assumes wf: "lock_wf api n s" and p: "sy_pc s t = W_finish c" and h: "h = folio_waitqueue api (wc_folio c)"
    and l: "t \<in> set (fl_queue (sy_fl s) h) \<Longrightarrow> sy_qlock s h = None" and r: "wait_finish api t c (sy_fl s) = (r, fl)"
    and s': "sy_fl s' = fl" "sy_pc s' = (sy_pc s)(t := Idle)" "sy_qlock s' = sy_qlock s"
  shows "lock_wf api n s'"
proof -
  note D = lock_wfD [OF wf]
  have fl: "fl = remove_wait h t (sy_fl s)" using r by (simp add: wait_finish_def Let_def h)
  show ?thesis
  proof (cases "t \<in> set (fl_queue (sy_fl s) h)")
    case True
    show ?thesis
    proof (rule lock_wf_queue [OF wf, where t = t and h = h])
      fix u
      show "u \<noteq> t \<Longrightarrow> spins api (sy_pc s u) \<noteq> Some h" using spins_alone [OF wf] l [OF True] by blast
      show "u \<in> set (fl_queue (sy_fl s') h) \<longleftrightarrow> queued_at api (sy_pc s' u) (fl_wait (sy_fl s') u) = Some h"
        using D(2,3) by (auto simp: s' fl fl_simps queued_at_def)
      show "u \<in> set (fl_queue (sy_fl s) h) \<Longrightarrow> queued_at api (sy_pc s' u) (fl_wait (sy_fl s') u) \<in> {None, Some h}"
        using D(3) [of u h] by (auto simp: s' fl fl_simps queued_at_def)
    qed (use p h D l [OF True] in \<open>auto simp: s' fl fl_simps spins_def queued_at_def walk_ok_def task_ok_def\<close>)
  next
    case False
    then have "fl_queue fl = fl_queue (sy_fl s)" by (simp add: fl fl_simps remove1_idem fun_eq_iff)
    moreover have "queued_at api (sy_pc s t) (fl_wait (sy_fl s) t) = None"
      using False p D(3) [of t h] by (auto simp: queued_at_def h split: if_splits)
    ultimately show ?thesis
      by (intro lock_wf_frame [OF wf]) (auto simp: s' fl fl_simps p spins_def queued_at_def task_ok_def)
  qed
qed

lemma step_wake:
  assumes wf: "lock_wf api n s" and p: "sy_pc s t = U_wake f b k" and h: "h = folio_waitqueue api f"
    and l: "sy_qlock s h = None"
    and s': "s' = q_lock h (Some t) (at t (U_walk f b k (fl_queue (sy_fl s) h) False) (sy_fl s) s)"
  shows "lock_wf api n s'"
proof (rule lock_wf_queue [OF wf, where t = t and h = h])
  note D = lock_wfD [OF wf]
  have nq: "t \<notin> set (fl_queue (sy_fl s) h')" for h' using D(3) [of t h'] p by (auto simp: queued_at_def)
  fix u
  show "u \<noteq> t \<Longrightarrow> spins api (sy_pc s u) \<noteq> Some h" using spins_alone [OF wf] l by blast
  show "u \<in> set (fl_queue (sy_fl s') h) \<longleftrightarrow> queued_at api (sy_pc s' u) (fl_wait (sy_fl s') u) = Some h"
    using D(3) [of u h] nq by (auto simp: s' sy_defs queued_at_def)
  show "u \<in> set (fl_queue (sy_fl s) h) \<Longrightarrow> queued_at api (sy_pc s' u) (fl_wait (sy_fl s') u) \<in> {None, Some h}"
    using D(3) [of u h] nq by (auto simp: s' sy_defs)
  show "u = t \<or> u \<in> set (fl_queue (sy_fl s) h) \<Longrightarrow> task_ok n (sy_pc s' u) (fl_wait (sy_fl s') u)"
    using D(1) [of u] by (auto simp: s' sy_defs task_ok_def)
  show "walk_ok api (sy_fl s') (sy_pc s' t)" using D(2) [of h] by (simp add: s' sy_defs walk_ok_def h)
qed (use p h lock_wfD [OF wf] in \<open>auto simp: s' sy_defs spins_def queued_at_def\<close>)

lemma step_walked:
  assumes wf: "lock_wf api n s" and p: "sy_pc s t = U_walk f b k [] m"
    and s': "s' = at t (U_end f b k m) (sy_fl s) s"
  shows "lock_wf api n s'"
proof (rule lock_wf_queue [OF wf, where t = t and h = "folio_waitqueue api f"])
  note D = lock_wfD [OF wf]
  have nq: "t \<notin> set (fl_queue (sy_fl s) h')" for h' using D(3) [of t h'] p by (auto simp: queued_at_def)
  have sp: "spins api (sy_pc s t) = Some (folio_waitqueue api f)" using p by (simp add: spins_def)
  fix u
  show "u \<noteq> t \<Longrightarrow> spins api (sy_pc s u) \<noteq> Some (folio_waitqueue api f)" using spins_alone [OF wf] sp by blast
  show "u \<in> set (fl_queue (sy_fl s') (folio_waitqueue api f)) \<longleftrightarrow>
      queued_at api (sy_pc s' u) (fl_wait (sy_fl s') u) = Some (folio_waitqueue api f)"
    using D(3) [of u "folio_waitqueue api f"] nq by (auto simp: s' sy_defs queued_at_def)
  show "u \<in> set (fl_queue (sy_fl s) (folio_waitqueue api f)) \<Longrightarrow>
      queued_at api (sy_pc s' u) (fl_wait (sy_fl s') u) \<in> {None, Some (folio_waitqueue api f)}"
    using D(3) [of u "folio_waitqueue api f"] nq by (auto simp: s' sy_defs)
  show "u = t \<or> u \<in> set (fl_queue (sy_fl s) (folio_waitqueue api f)) \<Longrightarrow> task_ok n (sy_pc s' u) (fl_wait (sy_fl s') u)"
    using D(1) [of u] by (auto simp: s' sy_defs task_ok_def)
  show "sy_qlock s' = (sy_qlock s)(folio_waitqueue api f := if spins api (sy_pc s' t) = Some (folio_waitqueue api f) then Some t else None)"
    using D(4) [of "folio_waitqueue api f" t] sp by (auto simp: s' sy_defs spins_def)
  show "walk_ok api (sy_fl s') (sy_pc s' t)" using D(5) [of t] p by (auto simp: s' sy_defs walk_ok_def)
qed (use p lock_wfD [OF wf] in \<open>auto simp: s' sy_defs spins_def queued_at_def\<close>)

lemma step_woken:
  assumes wf: "lock_wf api n s" and p: "sy_pc s t = U_end f b k m"
    and r: "wake_if False f b k (wake_end api f m (sy_fl s)) = (p', fl)"
    and s': "s' = q_lock (folio_waitqueue api f) None (at t p' fl s)"
  shows "lock_wf api n s'"
proof (rule lock_wf_queue [OF wf, where t = t and h = "folio_waitqueue api f"])
  note D = lock_wfD [OF wf] and W = wake_if_fields [OF r]
  have nq: "t \<notin> set (fl_queue (sy_fl s) h')" for h' using D(3) [of t h'] p by (auto simp: queued_at_def)
  have sp: "spins api (sy_pc s t) = Some (folio_waitqueue api f)" using p by (simp add: spins_def)
  have out: "p' = U_dropbehind f \<or> p' = Idle" using W(4) by auto
  fix u g
  show "u \<noteq> t \<Longrightarrow> spins api (sy_pc s u) \<noteq> Some (folio_waitqueue api f)" using spins_alone [OF wf] sp by blast
  show "u \<in> set (fl_queue (sy_fl s') (folio_waitqueue api f)) \<longleftrightarrow>
      queued_at api (sy_pc s' u) (fl_wait (sy_fl s') u) = Some (folio_waitqueue api f)"
    using D(3) [of u "folio_waitqueue api f"] nq out by (auto simp: s' sy_defs queued_at_def W wake_end_fields)
  show "u \<in> set (fl_queue (sy_fl s) (folio_waitqueue api f)) \<Longrightarrow>
      queued_at api (sy_pc s' u) (fl_wait (sy_fl s') u) \<in> {None, Some (folio_waitqueue api f)}"
    using D(3) [of u "folio_waitqueue api f"] nq by (auto simp: s' sy_defs W wake_end_fields)
  show "u = t \<or> u \<in> set (fl_queue (sy_fl s) (folio_waitqueue api f)) \<Longrightarrow> task_ok n (sy_pc s' u) (fl_wait (sy_fl s') u)"
    using D(1) [of u] out by (auto simp: s' sy_defs task_ok_def W wake_end_fields)
  show "u \<in> set (fl_queue (sy_fl s') (folio_waitqueue api f)) \<Longrightarrow>
      PG_waiters \<in> fl_flags (sy_fl s') (pw_folio (fl_wait (sy_fl s') u))"
    using D(5) [of t] D(6) [of u "folio_waitqueue api f"] p by (auto simp: s' sy_defs walk_ok_def W wake_end_fields)
  show "spins api (sy_pc s' t) \<in> {None, Some (folio_waitqueue api f)}" "walk_ok api (sy_fl s') (sy_pc s' t)"
    "queued_at api (sy_pc s' t) (fl_wait (sy_fl s') t) \<in> {None, Some (folio_waitqueue api f)}"
    "sy_qlock s' = (sy_qlock s)(folio_waitqueue api f := if spins api (sy_pc s' t) = Some (folio_waitqueue api f) then Some t else None)"
    using out by (auto simp: s' sy_defs spins_def walk_ok_def queued_at_def)
  show "folio_waitqueue api g \<noteq> folio_waitqueue api f \<Longrightarrow> PG_waiters \<in> fl_flags (sy_fl s) g \<Longrightarrow> PG_waiters \<in> fl_flags (sy_fl s') g"
    by (auto simp: s' sy_defs W wake_end_fields)
qed (use p lock_wfD [OF wf] wake_if_fields [OF r] in \<open>auto simp: s' sy_defs spins_def queued_at_def wake_end_fields\<close>)

text \<open>One entry of the walk: the entry is left alone, or it is woken and removed.\<close>

lemma wake_page_function_effect:
  assumes "papi_ok api" and "wake_page_function api u f b m s = (r, m', fl)"
  obtains (skip) "fl = s" "m' \<longleftrightarrow> m \<or> pw_folio (fl_wait s u) = f"
  | (wake) F where "pw_folio (fl_wait s u) = f" "pw_bit (fl_wait s u) = b" "m'" "F = {} \<or> F = {WQ_FLAG_DONE} \<and> b \<notin> fl_flags s f"
      "F = {WQ_FLAG_DONE} \<longleftrightarrow> WQ_FLAG_EXCLUSIVE \<in> pw_flags (fl_wait s u) \<and> WQ_FLAG_CUSTOM \<in> pw_flags (fl_wait s u)"
      "fl_queue fl = (fl_queue s)(folio_waitqueue api f := remove1 u (fl_queue s (folio_waitqueue api f)))"
      "fl_wait fl = (fl_wait s)(u := (fl_wait s u)\<lparr>pw_flags := insert WQ_FLAG_WOKEN (F \<union> pw_flags (fl_wait s u))\<rparr>)"
      "fl_flags fl = (fl_flags s)(f := (if F = {} then {} else {b}) \<union> fl_flags s f)"
  using assms
proof (cases rule: wake_page_function_cases)
  case other
  then show ?thesis by (intro skip) auto
next
  case busy
  then show ?thesis by (intro skip) auto
next
  case shared
  then show ?thesis by (intro wake [of "{}"]) (auto simp: fl_simps)
next
  case excl
  then show ?thesis by (intro wake [of "{}"]) (auto simp: fl_simps)
next
  case handoff
  then show ?thesis by (intro wake [of "{WQ_FLAG_DONE}"]) (auto simp: fl_simps)
qed

lemma step_walk:
  assumes wf: "lock_wf api n s" and api: "papi_ok api" and p: "sy_pc s t = U_walk f b k (u # us) m"
    and r: "wake_page_function api u f b m (sy_fl s) = (r, m', fl)"
    and p': "p' = (if stop then U_end f b k m' else U_walk f b k us m')"
    and stop: "stop \<Longrightarrow> m'"
    and s': "s' = at t p' fl s"
  shows "lock_wf api n s'"
proof -
  note D = lock_wfD [OF wf]
  let ?h = "folio_waitqueue api f"
  have nq: "t \<notin> set (fl_queue (sy_fl s) h')" for h' using D(3) [of t h'] p by (auto simp: queued_at_def)
  have sp: "spins api (sy_pc s t) = Some ?h" "spins api p' = Some ?h" using p p' by (auto simp: spins_def)
  have w: "distinct (u # us)" "set (u # us) \<subseteq> set (fl_queue (sy_fl s) ?h)"
    "m \<or> (\<forall>x \<in> set (fl_queue (sy_fl s) ?h). pw_folio (fl_wait (sy_fl s) x) = f \<longrightarrow> x \<in> set (u # us))"
    using D(5) [of t] p by (auto simp: walk_ok_def)
  have ut: "u \<noteq> t" using w(2) nq by auto
  have qa: "queued_at api p' x = None" "queued_at api (sy_pc s t) x = None" for x using p p' by (auto simp: queued_at_def)
  have wk: "task_ok n (sy_pc s u) (fl_wait fl u)" "queued_at api (sy_pc s u) (fl_wait fl u) \<in> {None, Some ?h}"
    "u \<in> set (fl_queue fl ?h) \<longleftrightarrow> queued_at api (sy_pc s u) (fl_wait fl u) = Some ?h"
  proof -
    have uq: "u \<in> set (fl_queue (sy_fl s) ?h)" using w(2) by simp
    obtain c where c: "sy_pc s u = W_loop c \<or> sy_pc s u = W_finish c"
      by (rule queued_at_SomeE [OF iffD1 [OF D(3) uq]])
    show "task_ok n (sy_pc s u) (fl_wait fl u)" using D(1) [of u] c
      by (cases rule: wake_page_function_effect [OF api r]) (auto simp: task_ok_def entry_ok_def)
    show "queued_at api (sy_pc s u) (fl_wait fl u) \<in> {None, Some ?h}"
      using iffD1 [OF D(3) uq] by (cases rule: wake_page_function_effect [OF api r]) (auto simp: queued_at_def)
    show "u \<in> set (fl_queue fl ?h) \<longleftrightarrow> queued_at api (sy_pc s u) (fl_wait fl u) = Some ?h"
      using iffD1 [OF D(3) uq] uq D(2) [of ?h]
      by (cases rule: wake_page_function_effect [OF api r]) (auto simp: queued_at_def)
  qed
  have oth: "fl_wait fl x = fl_wait (sy_fl s) x" "x \<in> set (fl_queue fl ?h) \<longleftrightarrow> x \<in> set (fl_queue (sy_fl s) ?h)" if "x \<noteq> u" for x
    using that by (cases rule: wake_page_function_effect [OF api r]; auto)+
  have far: "fl_queue fl h' = fl_queue (sy_fl s) h'" if "h' \<noteq> ?h" for h'
    using that by (cases rule: wake_page_function_effect [OF api r]) auto
  have mono: "x \<in> fl_flags (sy_fl s) g \<Longrightarrow> x \<in> fl_flags fl g" "pw_folio (fl_wait fl y) = pw_folio (fl_wait (sy_fl s) y)"
    "distinct (fl_queue fl ?h)" for x g y
    using D(2) [of ?h] by (cases rule: wake_page_function_effect [OF api r]; auto)+
  have sub: "set (fl_queue fl ?h) \<subseteq> set (fl_queue (sy_fl s) ?h)"
    using set_remove1_subset by (cases rule: wake_page_function_effect [OF api r]) force+
  have m': "m \<Longrightarrow> m'" "\<not> m' \<Longrightarrow> pw_folio (fl_wait (sy_fl s) u) \<noteq> f"
    by (cases rule: wake_page_function_effect [OF api r]; auto)+
  show ?thesis
  proof (rule lock_wf_queue [OF wf, where t = t and h = ?h])
    fix x
    show "x \<noteq> t \<Longrightarrow> spins api (sy_pc s x) \<noteq> Some ?h" using spins_alone [OF wf] sp(1) by blast
    show "x \<notin> set (fl_queue (sy_fl s) ?h) \<Longrightarrow> fl_wait (sy_fl s') x = fl_wait (sy_fl s) x"
      using oth(1) [of x] w(2) by (auto simp: s' sy_defs)
    show "sy_qlock s' = (sy_qlock s)(?h := if spins api (sy_pc s' t) = Some ?h then Some t else None)"
      using D(4) [of ?h t] sp by (auto simp: s' sy_defs)
    show "x \<in> set (fl_queue (sy_fl s') ?h) \<longleftrightarrow> queued_at api (sy_pc s' x) (fl_wait (sy_fl s') x) = Some ?h"
      using wk(3) oth [of x] D(3) [of x ?h] nq qa ut by (cases "x = u"; cases "x = t") (auto simp: s' sy_defs)
    show "x \<in> set (fl_queue (sy_fl s) ?h) \<Longrightarrow> queued_at api (sy_pc s' x) (fl_wait (sy_fl s') x) \<in> {None, Some ?h}"
      using wk(2) oth [of x] D(3) [of x ?h] nq ut by (cases "x = u") (auto simp: s' sy_defs)
    show "x = t \<or> x \<in> set (fl_queue (sy_fl s) ?h) \<Longrightarrow> task_ok n (sy_pc s' x) (fl_wait (sy_fl s') x)"
      using wk(1) oth [of x] D(1) [of x] p' by (cases "x = u"; cases "x = t") (auto simp: s' sy_defs task_ok_def)
    show "x \<in> set (fl_queue (sy_fl s') ?h) \<Longrightarrow> PG_waiters \<in> fl_flags (sy_fl s') (pw_folio (fl_wait (sy_fl s') x))"
      using D(6) [of x ?h] sub mono by (auto simp: s' sy_defs)
    show "walk_ok api (sy_fl s') (sy_pc s' t)"
    proof -
      have "set us \<subseteq> set (fl_queue fl ?h)"
      proof
        fix x assume x: "x \<in> set us"
        then have "x \<noteq> u" "x \<in> set (fl_queue (sy_fl s) ?h)" using w(1,2) by auto
        then show "x \<in> set (fl_queue fl ?h)" using oth(2) by blast
      qed
      then show ?thesis using w m' mono stop sub by (auto simp: s' sy_defs walk_ok_def p')
    qed
  qed (use sp qa far oth mono in \<open>auto simp: s' sy_defs\<close>)
qed

lemma wake_stop_matched:
  assumes "papi_ok api" and "wake_page_function api u f b m s = (r, m', fl)"
    and "p_stop api r (WQ_FLAG_EXCLUSIVE \<in> pw_flags (fl_wait s u))"
  shows "m'"
  using assms(1,3) by (cases rule: wake_page_function_cases [OF assms(1,2)]) (auto simp: papi_ok_def)

theorem lock_wf_step:
  assumes st: "lock_step api n s s'" and api: "papi_ok api" and n: "0 \<le> n" and wf: "lock_wf api n s"
  shows "lock_wf api n s'"
  using st
proof cases
  case (call t c op)
  then have "task_ok n (W_repeat c) w" for w
    using n by (cases op) (auto simp: task_ok_def call_ok_def folio_wait_bit_def folio_wait_bit_killable_def
      folio_put_wait_locked_def folio_lock_slow_def folio_lock_killable_slow_def softleaf_entry_wait_on_locked_def wait_common_def)
  then show ?thesis using call by (intro lock_wf_frame [OF wf]) (auto simp: sy_defs spins_def queued_at_def)
next
  case (again t c sig fl)
  then have "entry_ok n c (fl_wait (sy_fl s) t)" using lock_wfD(1) [OF wf, of t] by (simp add: task_ok_def)
  then have "task_ok n (W_repeat c) (fl_wait (sy_fl s) t)"
    using wait_loop_Again(5-7) [OF again(3)] by (auto simp: task_ok_def entry_ok_def)
  then show ?thesis using again wait_loop_Again [OF again(3)]
    by (intro lock_wf_frame [OF wf]) (auto simp: sy_defs spins_def queued_at_def)
next
  case (leave t c sig fl)
  then have e: "entry_ok n c (fl_wait (sy_fl s) t)" using lock_wfD(1) [OF wf, of t] by (simp add: task_ok_def)
  have "task_ok n (W_finish c) (fl_wait fl t)"
    using e leave(3) by (cases rule: wait_loop_Leave [OF leave(4)]) (auto simp: task_ok_def entry_ok_def fl_simps)
  then show ?thesis using leave
    by (cases rule: wait_loop_Leave [OF leave(4)]; intro lock_wf_frame [OF wf]) (auto simp: sy_defs spins_def queued_at_def fl_simps)
next
  case (walk t f b k u us m r m' fl p)
  show ?thesis
    by (rule step_walk [OF wf api walk(2,3,4) wake_stop_matched [OF api walk(3)] walk(1)])
next
  case (unlock t f msk ok w fl p fl')
  then show ?thesis using wake_if_fields [OF unlock(6)]
    by (intro lock_wf_frame [OF wf])
      (auto simp: sy_defs spins_def queued_at_def fl_simps xor_flags_eq [OF api] task_ok_def end_read_mask_def split: if_splits)
next
  case (end_writeback t f w fl p fl')
  then show ?thesis using wake_if_fields [OF end_writeback(5)] end_writeback_flags_eq [OF api end_writeback(4)]
    by (intro lock_wf_frame [OF wf]) (auto simp: sy_defs spins_def queued_at_def fl_simps task_ok_def)
next
  case (drop_unlock t f w fl p fl')
  then show ?thesis using wake_if_fields [OF drop_unlock(4)]
    by (intro lock_wf_frame [OF wf])
      (auto simp: sy_defs spins_def queued_at_def fl_simps xor_flags_eq [OF api] task_ok_def dropbehind_fields split: if_splits)
next
  case (rpt t c h c' fl)
  show ?thesis by (rule step_rpt [OF wf rpt(2,3,4,5,1)])
next
  case (tryl t c h)
  show ?thesis by (rule step_tryl [OF wf tryl(2,3,1)])
next
  case (finish t c h r fl x)
  then show ?thesis by (intro step_finish [OF wf finish(2,3) _ finish(5)]) (auto simp: sy_defs)
next
  case (wake t f b k h)
  show ?thesis by (rule step_wake [OF wf wake(2,3,4,1)])
next
  case (walked t f b k m)
  show ?thesis by (rule step_walked [OF wf walked(2,1)])
next
  case (woken t f b k m p fl)
  show ?thesis by (rule step_woken [OF wf woken(2,3,1)])
qed (rule lock_wf_frame [OF wf]; simp add: sy_defs spins_def queued_at_def fl_simps folio_trylock_def test_and_set_bit_def
       task_ok_def waitable_def split: if_splits; fastforce?)+

end
