(* ===== verification/LockOwner.thy ===== *)
theory LockOwner
  imports LockLaws
begin

text \<open>
  Who holds the lock of a folio, who will wake a waiter, and how often a waiter is passed over.
\<close>

section \<open>Owners\<close>

text \<open>A task whose entry is marked done has the lock before it returns.\<close>

definition granted :: "pc \<Rightarrow> wait_page_queue \<Rightarrow> nat option" where
  "granted p w =
     (case p of W_loop c \<Rightarrow> if wc_behavior c = EXCLUSIVE \<and> WQ_FLAG_DONE \<in> pw_flags w then Some (wc_folio c) else None
              | W_finish c \<Rightarrow> if wc_behavior c = EXCLUSIVE \<and> WQ_FLAG_DONE \<in> pw_flags w then Some (wc_folio c) else None
              | _ \<Rightarrow> None)"

definition tokens :: "locks \<Rightarrow> nat \<Rightarrow> (nat \<times> bool) set" where
  "tokens s f = {(t, g). if g then granted (sy_pc s t) (fl_wait (sy_fl s) t) = Some f else f \<in> sy_held s t}"

definition owner_inv :: "locks \<Rightarrow> bool" where
  "owner_inv s \<longleftrightarrow>
     (\<forall>f. PG_locked \<in> fl_flags (sy_fl s) f \<longleftrightarrow> tokens s f \<noteq> {}) \<and>
     (\<forall>f. \<forall>x \<in> tokens s f. \<forall>y \<in> tokens s f. x = y) \<and>
     (\<forall>t f. sy_pc s t = U_locked f \<longrightarrow> f \<in> sy_held s t)"

lemma owner_invI:
  assumes "\<And>f. PG_locked \<in> fl_flags (sy_fl s) f \<longleftrightarrow> tokens s f \<noteq> {}"
    and "\<And>f x y. x \<in> tokens s f \<Longrightarrow> y \<in> tokens s f \<Longrightarrow> x = y"
    and "\<And>t f. sy_pc s t = U_locked f \<Longrightarrow> f \<in> sy_held s t"
  shows "owner_inv s"
  using assms unfolding owner_inv_def by blast

lemma owner_invD:
  assumes "owner_inv s"
  shows "PG_locked \<in> fl_flags (sy_fl s) f \<longleftrightarrow> tokens s f \<noteq> {}"
    and "x \<in> tokens s f \<Longrightarrow> tokens s f = {x}"
    and "sy_pc s t = U_locked f \<Longrightarrow> f \<in> sy_held s t"
  using assms unfolding owner_inv_def by blast+

lemma token_unique: "owner_inv s \<Longrightarrow> x \<in> tokens s f \<Longrightarrow> y \<in> tokens s f \<Longrightarrow> x = y"
  unfolding owner_inv_def by blast

lemma owner_frame:
  assumes "owner_inv s" and "\<And>f. PG_locked \<in> fl_flags (sy_fl s') f \<longleftrightarrow> PG_locked \<in> fl_flags (sy_fl s) f"
    and "sy_held s' = sy_held s"
    and "\<And>t. granted (sy_pc s' t) (fl_wait (sy_fl s') t) = granted (sy_pc s t) (fl_wait (sy_fl s) t)"
    and "\<And>t f. sy_pc s' t = U_locked f \<Longrightarrow> sy_pc s t = U_locked f"
  shows "owner_inv s'"
proof -
  have "tokens s' = tokens s" using assms(3,4) by (auto simp: tokens_def fun_eq_iff)
  then show ?thesis using assms(1-3,5) unfolding owner_inv_def by metis
qed

lemma owner_acquire:
  assumes "owner_inv s" and "PG_locked \<notin> fl_flags (sy_fl s) f"
    and "\<And>g. PG_locked \<in> fl_flags (sy_fl s') g \<longleftrightarrow> g = f \<or> PG_locked \<in> fl_flags (sy_fl s) g"
    and "\<And>g. tokens s' g = (if g = f then insert x (tokens s g) else tokens s g)"
    and "\<And>t g. sy_pc s' t = U_locked g \<Longrightarrow> g \<in> sy_held s' t"
  shows "owner_inv s'"
proof (rule owner_invI)
  fix g y z
  have "tokens s f = {}" using owner_invD(1) [OF assms(1)] assms(2) by blast
  then show "PG_locked \<in> fl_flags (sy_fl s') g \<longleftrightarrow> tokens s' g \<noteq> {}" "y \<in> tokens s' g \<Longrightarrow> z \<in> tokens s' g \<Longrightarrow> y = z"
    using owner_invD(1) [OF assms(1), where f = g] token_unique [OF assms(1), of y g z] assms(3,4) [of g]
    by (auto split: if_splits)
qed (rule assms(5))

lemma owner_release:
  assumes "owner_inv s" and "x \<in> tokens s f"
    and "\<And>g. PG_locked \<in> fl_flags (sy_fl s') g \<longleftrightarrow> g \<noteq> f \<and> PG_locked \<in> fl_flags (sy_fl s) g"
    and "\<And>g. tokens s' g = (if g = f then tokens s g - {x} else tokens s g)"
    and "\<And>t g. sy_pc s' t = U_locked g \<Longrightarrow> g \<in> sy_held s' t"
  shows "owner_inv s'"
proof (rule owner_invI)
  fix g y z
  show "PG_locked \<in> fl_flags (sy_fl s') g \<longleftrightarrow> tokens s' g \<noteq> {}" "y \<in> tokens s' g \<Longrightarrow> z \<in> tokens s' g \<Longrightarrow> y = z"
    using owner_invD(2) [OF assms(1,2)] owner_invD(1) [OF assms(1), where f = g] token_unique [OF assms(1), of y g z] assms(3,4) [of g]
    by (auto split: if_splits)
qed (rule assms(5))

lemma owner_move:
  assumes "owner_inv s" and "x \<in> tokens s f"
    and "\<And>g. PG_locked \<in> fl_flags (sy_fl s') g \<longleftrightarrow> PG_locked \<in> fl_flags (sy_fl s) g"
    and "\<And>g. tokens s' g = (if g = f then insert y (tokens s g - {x}) else tokens s g)"
    and "\<And>t g. sy_pc s' t = U_locked g \<Longrightarrow> g \<in> sy_held s' t"
  shows "owner_inv s'"
proof (rule owner_invI)
  fix g v z
  show "PG_locked \<in> fl_flags (sy_fl s') g \<longleftrightarrow> tokens s' g \<noteq> {}" "v \<in> tokens s' g \<Longrightarrow> z \<in> tokens s' g \<Longrightarrow> v = z"
    using owner_invD(2) [OF assms(1,2)] owner_invD(1) [OF assms(1), where f = g] token_unique [OF assms(1), of v g z] assms(3,4) [of g]
    by (auto split: if_splits)
qed (rule assms(5))

lemma held_token: "f \<in> sy_held s t \<longleftrightarrow> (t, False) \<in> tokens s f"
  by (simp add: tokens_def)

lemma held_locked:
  assumes "owner_inv s" and "f \<in> sy_held s t"
  shows "PG_locked \<in> fl_flags (sy_fl s) f" and "tokens s f = {(t, False)}"
  using owner_invD(1,2) [OF assms(1)] assms(2) by (auto simp: held_token)

lemma owner_walk:
  assumes ow: "owner_inv s" and wf: "lock_wf api n s" and api: "papi_ok api" and p: "sy_pc s t = U_walk f b k (u # us) m"
    and r: "wake_page_function api u f b m (sy_fl s) = (r, m', fl)"
    and s': "s' = at t p' fl s" and p': "p' = (if stop then U_end f b k m' else U_walk f b k us m')"
  shows "owner_inv s'"
proof -
  note D = lock_wfD [OF wf]
  have uq: "u \<in> set (fl_queue (sy_fl s) (folio_waitqueue api f))" using D(5) [of t] p by (auto simp: walk_ok_def)
  obtain c where c: "sy_pc s u = W_loop c \<or> sy_pc s u = W_finish c" "WQ_FLAG_WOKEN \<notin> pw_flags (fl_wait (sy_fl s) u)"
    by (rule queued_at_SomeE [OF iffD1 [OF D(3) uq]])
  have e: "entry_ok n c (fl_wait (sy_fl s) u)" using D(1) [of u] c(1) by (auto simp: task_ok_def)
  have ut: "u \<noteq> t" using p c by auto
  have nu: "U_locked g \<noteq> p'" "granted p' w = None" for g w using p' by (auto simp: granted_def)
  show ?thesis using api r
  proof (cases rule: wake_page_function_cases)
    case other
    then show ?thesis using nu p by (intro owner_frame [OF ow]) (auto simp: s' sy_defs granted_def split: if_splits)
  next
    case busy
    then show ?thesis using nu p by (intro owner_frame [OF ow]) (auto simp: s' sy_defs granted_def split: if_splits)
  next
    case shared
    then show ?thesis using nu p ut by (intro owner_frame [OF ow]) (auto simp: s' sy_defs granted_def fl_simps split: pc.splits if_splits)
  next
    case excl
    then show ?thesis using nu p ut by (intro owner_frame [OF ow]) (auto simp: s' sy_defs granted_def fl_simps split: pc.splits if_splits)
  next
    case handoff
    have b: "b = PG_locked" "wc_folio c = f" "wc_behavior c = EXCLUSIVE"
      using handoff e by (auto simp: entry_ok_def call_ok_def)
    have no: "WQ_FLAG_DONE \<notin> pw_flags (fl_wait (sy_fl s) u)" using e c(2) by (auto simp: entry_ok_def)
    show ?thesis
    proof (rule owner_acquire [OF ow, where x = "(u, True)"])
      show "PG_locked \<notin> fl_flags (sy_fl s) f" using handoff b by simp
      show "PG_locked \<in> fl_flags (sy_fl s') g \<longleftrightarrow> g = f \<or> PG_locked \<in> fl_flags (sy_fl s) g" for g
        using handoff b by (auto simp: s' sy_defs fl_simps)
      show "tokens s' g = (if g = f then insert (u, True) (tokens s g) else tokens s g)" for g
        using handoff b no c(1) ut p nu by (auto simp: tokens_def s' sy_defs fl_simps granted_def split: if_splits)
      show "g \<in> sy_held s' x" if "sy_pc s' x = U_locked g" for x g
        using that ow nu by (auto simp: s' sy_defs owner_inv_def split: if_splits)
    qed
  qed
qed

lemma owner_tryl:
  assumes ow: "owner_inv s" and wf: "lock_wf api n s" and p: "sy_pc s t = W_try c"
    and s': "s' = q_lock h None (at t (W_loop c) (wait_try api t c (sy_fl s)) s)"
  shows "owner_inv s'"
proof -
  have e: "entry_ok n c (fl_wait (sy_fl s) t)" "WQ_FLAG_WOKEN \<notin> pw_flags (fl_wait (sy_fl s) t)"
    using lock_wfD(1) [OF wf, of t] p by (auto simp: task_ok_def)
  then have no: "WQ_FLAG_DONE \<notin> pw_flags (fl_wait (sy_fl s) t)" by (auto simp: entry_ok_def)
  show ?thesis
  proof (cases rule: wait_try_cases [of c "sy_fl s" api t])
    case got
    show ?thesis
    proof (cases "wc_behavior c = EXCLUSIVE")
      case True
      then have b: "wc_bit c = PG_locked" "WQ_FLAG_EXCLUSIVE \<in> pw_flags (fl_wait (sy_fl s) t)"
        using e by (auto simp: entry_ok_def call_ok_def)
      show ?thesis
      proof (rule owner_acquire [OF ow, where x = "(t, True)"])
        show "PG_locked \<notin> fl_flags (sy_fl s) (wc_folio c)" using got b by simp
        show "PG_locked \<in> fl_flags (sy_fl s') g \<longleftrightarrow> g = wc_folio c \<or> PG_locked \<in> fl_flags (sy_fl s) g" for g
          using got b by (auto simp: s' sy_defs)
        show "tokens s' g = (if g = wc_folio c then insert (t, True) (tokens s g) else tokens s g)" for g
          using got b p True by (auto simp: tokens_def s' sy_defs granted_def split: if_splits)
        show "g \<in> sy_held s' x" if "sy_pc s' x = U_locked g" for x g
          using that ow by (auto simp: s' sy_defs owner_inv_def split: if_splits)
      qed
    next
      case False
      then have "WQ_FLAG_EXCLUSIVE \<notin> pw_flags (fl_wait (sy_fl s) t)" using e by (auto simp: entry_ok_def)
      then show ?thesis using got p False
        by (intro owner_frame [OF ow]) (auto simp: s' sy_defs granted_def split: if_splits)
    qed
  next
    case queued
    then show ?thesis using p no by (intro owner_frame [OF ow]) (auto simp: s' sy_defs granted_def split: if_splits)
  qed
qed

lemma owner_give_up:
  assumes ow: "owner_inv s" and p: "sy_pc s t = Idle \<or> sy_pc s t = U_locked f" and f: "f \<in> sy_held s t"
    and fl: "\<And>g. PG_locked \<in> fl_flags fl g \<longleftrightarrow> g \<noteq> f \<and> PG_locked \<in> fl_flags (sy_fl s) g" "fl_wait fl = fl_wait (sy_fl s)"
    and p': "p' = U_wake f b k \<or> p' = Idle"
  shows "owner_inv (disown t f (at t p' fl s))"
proof (rule owner_release [OF ow, where x = "(t, False)" and f = f])
  show "(t, False) \<in> tokens s f" using f by (simp add: held_token)
  show "PG_locked \<in> fl_flags (sy_fl (disown t f (at t p' fl s))) g \<longleftrightarrow> g \<noteq> f \<and> PG_locked \<in> fl_flags (sy_fl s) g" for g
    using fl by (simp add: sy_defs)
  show "tokens (disown t f (at t p' fl s)) g = (if g = f then tokens s g - {(t, False)} else tokens s g)" for g
  proof -
    have "granted (sy_pc s t) w = None" "granted p' w = None" for w using p p' by (auto simp: granted_def)
    then show ?thesis using fl(2) by (auto simp: tokens_def sy_defs split: if_splits)
  qed
  show "g \<in> sy_held (disown t f (at t p' fl s)) u" if "sy_pc (disown t f (at t p' fl s)) u = U_locked g" for u g
  proof -
    have u: "u \<noteq> t" "sy_pc s u = U_locked g" using that p' by (auto simp: sy_defs split: if_splits)
    then show ?thesis using owner_invD(3) [OF ow] by (auto simp: sy_defs)
  qed
qed

lemma owner_take:
  assumes ow: "owner_inv s" and r: "folio_trylock f (sy_fl s) = (True, fl)" and p: "granted (sy_pc s t) (fl_wait (sy_fl s) t) = None"
    and p': "p' = Idle \<or> p' = U_locked f" and n: "\<And>g. sy_pc s t \<noteq> U_locked g"
  shows "owner_inv (own t f (at t p' fl s))"
proof (rule owner_acquire [OF ow, where x = "(t, False)" and f = f])
  have fl: "PG_locked \<notin> fl_flags (sy_fl s) f" "fl = set_flags f (insert PG_locked (fl_flags (sy_fl s) f)) (sy_fl s)"
    using r by (auto simp: folio_trylock_def test_and_set_bit_def)
  show "PG_locked \<notin> fl_flags (sy_fl s) f" by (rule fl(1))
  show "PG_locked \<in> fl_flags (sy_fl (own t f (at t p' fl s))) g \<longleftrightarrow> g = f \<or> PG_locked \<in> fl_flags (sy_fl s) g" for g
    by (simp add: fl(2) sy_defs fl_simps)
  show "tokens (own t f (at t p' fl s)) g = (if g = f then insert (t, False) (tokens s g) else tokens s g)" for g
    using p p' by (auto simp: tokens_def sy_defs fl(2) fl_simps split: if_splits) (auto simp: granted_def)
  show "g \<in> sy_held (own t f (at t p' fl s)) u" if "sy_pc (own t f (at t p' fl s)) u = U_locked g" for u g
    using that p' owner_invD(3) [OF ow] by (auto simp: sy_defs split: if_splits)
qed

lemma owner_leave:
  assumes ow: "owner_inv s" and wf: "lock_wf api n s" and p: "sy_pc s t = W_loop c"
    and r: "wait_loop sig t c (sy_fl s) = (Leave, fl)" and s': "s' = at t (W_finish c) fl s"
  shows "owner_inv s'"
proof (cases rule: wait_loop_Leave [OF r])
  case 3
  have e: "entry_ok n c (fl_wait (sy_fl s) t)" using lock_wfD(1) [OF wf, of t] p by (auto simp: task_ok_def)
  then have b: "wc_bit c = PG_locked" using 3 by (auto simp: entry_ok_def call_ok_def)
  show ?thesis
  proof (rule owner_acquire [OF ow, where x = "(t, True)" and f = "wc_folio c"])
    show "PG_locked \<notin> fl_flags (sy_fl s) (wc_folio c)" using 3 b by simp
    show "PG_locked \<in> fl_flags (sy_fl s') g \<longleftrightarrow> g = wc_folio c \<or> PG_locked \<in> fl_flags (sy_fl s) g" for g
      using 3 b by (auto simp: s' sy_defs fl_simps)
    show "tokens s' g = (if g = wc_folio c then insert (t, True) (tokens s g) else tokens s g)" for g
      using 3 b p by (auto simp: tokens_def s' sy_defs granted_def fl_simps split: if_splits)
    show "g \<in> sy_held s' x" if "sy_pc s' x = U_locked g" for x g
      using that owner_invD(3) [OF ow] by (auto simp: s' sy_defs split: if_splits)
  qed
qed (use p in \<open>auto intro!: owner_frame [OF ow] simp: s' sy_defs granted_def split: if_splits\<close>)

lemma owner_finish:
  assumes ow: "owner_inv s" and wf: "lock_wf api n s" and p: "sy_pc s t = W_finish c"
    and r: "wait_finish api t c (sy_fl s) = (r, fl)" and x: "x = (at t Idle fl s)\<lparr>sy_ret := ret\<rparr>"
    and s': "s' = (if r = 0 \<and> wc_behavior c = EXCLUSIVE then own t (wc_folio c) x else x)"
  shows "owner_inv s'"
proof -
  have fl: "fl = remove_wait (folio_waitqueue api (wc_folio c)) t (sy_fl s)" using r by (simp add: wait_finish_def Let_def)
  have g: "granted (sy_pc s t) (fl_wait (sy_fl s) t) = (if r = 0 \<and> wc_behavior c = EXCLUSIVE then Some (wc_folio c) else None)"
    using r p by (auto simp: wait_finish_def Let_def granted_def EINTR_def fl_simps split: if_splits)
  show ?thesis
  proof (cases "r = 0 \<and> wc_behavior c = EXCLUSIVE")
    case True
    then have s2: "s' = own t (wc_folio c) x" using s' by simp
    show ?thesis
    proof (rule owner_move [OF ow, where x = "(t, True)" and y = "(t, False)" and f = "wc_folio c"])
      show "(t, True) \<in> tokens s (wc_folio c)" using True g by (simp add: tokens_def)
      show "PG_locked \<in> fl_flags (sy_fl s') f \<longleftrightarrow> PG_locked \<in> fl_flags (sy_fl s) f" for f
        by (simp add: s2 x fl sy_defs fl_simps)
      show "tokens s' f = (if f = wc_folio c then insert (t, False) (tokens s f - {(t, True)}) else tokens s f)" for f
        using True g by (auto simp: tokens_def s2 x fl sy_defs fl_simps split: if_splits) (auto simp: granted_def)
      show "f \<in> sy_held s' u" if "sy_pc s' u = U_locked f" for u f
        using that owner_invD(3) [OF ow] by (auto simp: s2 x sy_defs split: if_splits)
    qed
  next
    case False
    then have "s' = x" "granted (sy_pc s t) (fl_wait (sy_fl s) t) = None" using s' g by auto
    moreover have "granted Idle w = None" for w by (simp add: granted_def)
    ultimately show ?thesis by (intro owner_frame [OF ow]) (auto simp: x fl sy_defs fl_simps split: if_splits)
  qed
qed

theorem owner_step:
  assumes st: "lock_step api n s s'" and api: "papi_ok api" and wf: "lock_wf api n s" and ow: "owner_inv s"
  shows "owner_inv s'"
  using st
proof cases
  case (tryl t c h)
  show ?thesis by (rule owner_tryl [OF ow wf tryl(2,1)])
next
  case (rpt t c h c' fl)
  then show ?thesis using wait_repeat_fields [OF rpt(5)]
    by (intro owner_frame [OF ow]) (auto simp: sy_defs granted_def split: if_splits pc.splits)
next
  case (again t c sig fl)
  then show ?thesis using wait_loop_Again [OF again(3)]
    by (intro owner_frame [OF ow]) (auto simp: sy_defs granted_def split: if_splits)
next
  case (leave t c sig fl)
  show ?thesis by (rule owner_leave [OF ow wf leave(2,4,1)])
next
  case (finish t c h r fl x)
  show ?thesis by (rule owner_finish [OF ow wf finish(2,5,6,1)])
next
  case (trylock t f fl)
  then show ?thesis using owner_take [OF ow trylock(3), of t Idle] by (simp add: granted_def)
next
  case (drop_lock t f fl)
  then show ?thesis using owner_take [OF ow drop_lock(4), of t "U_locked f"] by (simp add: granted_def)
next
  case (pass t f u)
  show ?thesis
  proof (rule owner_move [OF ow, where x = "(t, False)" and y = "(u, False)" and f = f])
    show "(t, False) \<in> tokens s f" using pass by (simp add: held_token)
    show "tokens s' g = (if g = f then insert (u, False) (tokens s g - {(t, False)}) else tokens s g)" for g
      by (auto simp: pass(1) tokens_def sy_defs split: if_splits)
    show "g \<in> sy_held s' x" if "sy_pc s' x = U_locked g" for x g
      using that pass owner_invD(3) [OF ow, of x g] by (auto simp: sy_defs)
  qed (simp add: pass(1) sy_defs)
next
  case (unlock t f msk ok w fl p fl')
  have fl: "fl = set_flags f ((fl_flags (sy_fl s) f - msk) \<union> (msk - fl_flags (sy_fl s) f)) (sy_fl s)"
    using unlock(5) by (simp add: xor_flags_eq [OF api])
  have m: "PG_locked \<in> msk" using unlock(4) by (auto simp: end_read_mask_def)
  show ?thesis unfolding unlock(1)
    by (rule owner_give_up [OF ow _ unlock(3), where b = PG_locked and k = K_return])
      (use wake_if_fields [OF unlock(6)] fl m unlock(2) held_locked(1) [OF ow unlock(3)] in \<open>auto simp: fl_simps\<close>)
next
  case (drop_unlock t f w fl p fl')
  let ?d = "filemap_end_dropbehind f (sy_fl s)"
  have h: "f \<in> sy_held s t" using owner_invD(3) [OF ow drop_unlock(2)] .
  have fl: "fl = set_flags f ((fl_flags ?d f - {PG_locked}) \<union> ({PG_locked} - fl_flags ?d f)) ?d"
    using drop_unlock(3) by (simp add: xor_flags_eq [OF api])
  show ?thesis unfolding drop_unlock(1)
    by (rule owner_give_up [OF ow _ h, where b = PG_locked and k = K_put])
      (use wake_if_fields [OF drop_unlock(4)] fl drop_unlock(2) held_locked(1) [OF ow h] in \<open>auto simp: fl_simps dropbehind_fields\<close>)
next
  case (end_writeback t f w fl p fl')
  then show ?thesis using wake_if_fields [OF end_writeback(5)] end_writeback_flags_eq [OF api end_writeback(4)]
    by (intro owner_frame [OF ow]) (auto simp: sy_defs granted_def fl_simps split: if_splits)
next
  case (walk t f b k u us m r m' fl p)
  show ?thesis by (rule owner_walk [OF ow wf api walk(2,3,1,4)])
next
  case (woken t f b k m p fl)
  then show ?thesis using wake_if_fields [OF woken(3)]
    by (intro owner_frame [OF ow]) (auto simp: sy_defs granted_def fl_simps wake_end_fields split: if_splits)
qed (rule owner_frame [OF ow]; simp add: sy_defs granted_def fl_simps waitable_def split: if_splits; fastforce?)+

section \<open>No waiter is forgotten\<close>

text \<open>
  A task that will wake the waiter \<open>t\<close> for bit \<open>b\<close> of folio \<open>f\<close>, or take the bit and wake it when it gives
  it back.
\<close>

definition rescues :: "pc \<Rightarrow> wait_page_queue \<Rightarrow> nat \<Rightarrow> pg_flag \<Rightarrow> nat \<Rightarrow> bool" where
  "rescues p w f b t \<longleftrightarrow>
     (case p of
        U_wake g c k \<Rightarrow> g = f \<and> c = b
      | U_walk g c k ts m \<Rightarrow> g = f \<and> c = b \<and> t \<in> set ts
      | W_loop c \<Rightarrow> wc_folio c = f \<and> wc_bit c = b \<and> wc_behavior c = EXCLUSIVE \<and>
          WQ_FLAG_WOKEN \<in> pw_flags w \<and> WQ_FLAG_DONE \<notin> pw_flags w
      | _ \<Rightarrow> False)"

definition rescued :: "locks \<Rightarrow> nat \<Rightarrow> bool" where
  "rescued s t \<longleftrightarrow>
     pw_bit (fl_wait (sy_fl s) t) \<in> fl_flags (sy_fl s) (pw_folio (fl_wait (sy_fl s) t)) \<or>
     (\<exists>u. rescues (sy_pc s u) (fl_wait (sy_fl s) u) (pw_folio (fl_wait (sy_fl s) t)) (pw_bit (fl_wait (sy_fl s) t)) t)"

definition calm :: "locks \<Rightarrow> bool" where
  "calm s \<longleftrightarrow> (\<forall>t c. sy_pc s t \<in> {W_repeat c, W_try c, W_loop c, W_finish c} \<longrightarrow>
     wc_behavior c = EXCLUSIVE \<longrightarrow> wc_state c = TASK_UNINTERRUPTIBLE)"

definition no_lost :: "locks \<Rightarrow> bool" where
  "no_lost s \<longleftrightarrow> (\<forall>h. \<forall>t \<in> set (fl_queue (sy_fl s) h). rescued s t)"

lemma rescuedI:
  "rescues (sy_pc s u) (fl_wait (sy_fl s) u) (pw_folio (fl_wait (sy_fl s) t)) (pw_bit (fl_wait (sy_fl s) t)) t \<Longrightarrow> rescued s t"
  by (auto simp: rescued_def)

lemma queued_entry:
  assumes "lock_wf api n s" and "t \<in> set (fl_queue (sy_fl s) h)"
  obtains c where "sy_pc s t = W_loop c \<or> sy_pc s t = W_finish c" "entry_ok n c (fl_wait (sy_fl s) t)"
    "WQ_FLAG_WOKEN \<notin> pw_flags (fl_wait (sy_fl s) t)" "waitable (pw_bit (fl_wait (sy_fl s) t))"
    "wc_state c = TASK_UNINTERRUPTIBLE \<Longrightarrow> sy_pc s t = W_loop c"
proof -
  obtain c where c: "sy_pc s t = W_loop c \<or> sy_pc s t = W_finish c" "WQ_FLAG_WOKEN \<notin> pw_flags (fl_wait (sy_fl s) t)"
    by (rule queued_at_SomeE [OF iffD1 [OF lock_wfD(3) [OF assms(1)] assms(2)]])
  show ?thesis
    using c lock_wfD(1) [OF assms(1), of t] by (intro that [of c]) (auto simp: task_ok_def entry_ok_def call_ok_def)
qed

lemma no_lost_by:
  assumes nl: "no_lost s" and oth: "\<And>u. u \<noteq> t0 \<Longrightarrow> sy_pc s' u = sy_pc s u \<and> fl_wait (sy_fl s') u = fl_wait (sy_fl s) u"
    and q: "\<And>t h. t \<in> set (fl_queue (sy_fl s') h) \<Longrightarrow>
      t \<in> set (fl_queue (sy_fl s) h) \<and> pw_folio (fl_wait (sy_fl s') t) = pw_folio (fl_wait (sy_fl s) t) \<and>
        pw_bit (fl_wait (sy_fl s') t) = pw_bit (fl_wait (sy_fl s) t) \<or>
      pw_bit (fl_wait (sy_fl s') t) \<in> fl_flags (sy_fl s') (pw_folio (fl_wait (sy_fl s') t))"
    and B: "\<And>t h f b. t \<in> set (fl_queue (sy_fl s) h) \<Longrightarrow> f = pw_folio (fl_wait (sy_fl s) t) \<Longrightarrow> b = pw_bit (fl_wait (sy_fl s) t) \<Longrightarrow>
      b \<in> fl_flags (sy_fl s) f \<Longrightarrow> b \<in> fl_flags (sy_fl s') f \<or> rescues (sy_pc s' t0) (fl_wait (sy_fl s') t0) f b t"
    and C: "\<And>t h f b. t \<in> set (fl_queue (sy_fl s) h) \<Longrightarrow> f = pw_folio (fl_wait (sy_fl s) t) \<Longrightarrow> b = pw_bit (fl_wait (sy_fl s) t) \<Longrightarrow>
      rescues (sy_pc s t0) (fl_wait (sy_fl s) t0) f b t \<Longrightarrow>
      b \<in> fl_flags (sy_fl s') f \<or> rescues (sy_pc s' t0) (fl_wait (sy_fl s') t0) f b t"
  shows "no_lost s'"
  unfolding no_lost_def
proof (intro allI ballI)
  fix h t assume t: "t \<in> set (fl_queue (sy_fl s') h)"
  show "rescued s' t"
  proof (cases "pw_bit (fl_wait (sy_fl s') t) \<in> fl_flags (sy_fl s') (pw_folio (fl_wait (sy_fl s') t))")
    case True
    then show ?thesis by (simp add: rescued_def)
  next
    case False
    let ?f = "pw_folio (fl_wait (sy_fl s) t)" and ?b = "pw_bit (fl_wait (sy_fl s) t)"
    have o: "t \<in> set (fl_queue (sy_fl s) h)" "pw_folio (fl_wait (sy_fl s') t) = ?f" "pw_bit (fl_wait (sy_fl s') t) = ?b"
      using q [OF t] False by auto
    have nb: "?b \<notin> fl_flags (sy_fl s') ?f" using False o by simp
    have "rescued s t" using nl o(1) by (auto simp: no_lost_def)
    then consider "?b \<in> fl_flags (sy_fl s) ?f" | u where "rescues (sy_pc s u) (fl_wait (sy_fl s) u) ?f ?b t"
      by (auto simp: rescued_def)
    then have "\<exists>u. rescues (sy_pc s' u) (fl_wait (sy_fl s') u) ?f ?b t"
    proof cases
      case 1
      then show ?thesis using B [OF o(1) refl refl] nb by blast
    next
      case (2 u)
      then show ?thesis using C [OF o(1) refl refl] oth [of u] nb by (cases "u = t0") (blast, metis)
    qed
    then show ?thesis using o by (simp add: rescued_def)
  qed
qed

lemma no_lost_walk:
  assumes nl: "no_lost s" and wf: "lock_wf api n s" and cm: "calm s" and api: "papi_ok api"
    and p: "sy_pc s t0 = U_walk f b k (u # us) m"
    and r: "wake_page_function api u f b m (sy_fl s) = (r, m', fl)"
    and s': "s' = at t0 p' fl s"
    and p': "p' = (if p_stop api r (WQ_FLAG_EXCLUSIVE \<in> pw_flags (fl_wait (sy_fl s) u)) then U_end f b k m' else U_walk f b k us m')"
  shows "no_lost s'"
  unfolding no_lost_def
proof (intro allI ballI)
  fix h t assume t: "t \<in> set (fl_queue (sy_fl s') h)"
  have stop: "p_stop api q x \<longleftrightarrow> q < 0 \<or> q \<noteq> 0 \<and> x" for q x using api by (simp add: papi_ok_def)
  have w: "distinct (u # us)" "set (u # us) \<subseteq> set (fl_queue (sy_fl s) (folio_waitqueue api f))"
    using lock_wfD(5) [OF wf, of t0] p by (auto simp: walk_ok_def)
  then have uq: "u \<in> set (fl_queue (sy_fl s) (folio_waitqueue api f))" by simp
  obtain c where c: "sy_pc s u = W_loop c \<or> sy_pc s u = W_finish c" "entry_ok n c (fl_wait (sy_fl s) u)"
    "WQ_FLAG_WOKEN \<notin> pw_flags (fl_wait (sy_fl s) u)" "wc_state c = TASK_UNINTERRUPTIBLE \<Longrightarrow> sy_pc s u = W_loop c"
    using queued_entry [OF wf uq] by blast
  have ut: "u \<noteq> t0" using c(1) p by auto
  have un: "\<not> rescues (sy_pc s u) (fl_wait (sy_fl s) u) g d x" for g d x using c(1,3) by (auto simp: rescues_def)
  let ?w = "fl_wait (sy_fl s) t"
  have "set (fl_queue fl h) \<subseteq> set (fl_queue (sy_fl s) h)"
    by (cases rule: wake_page_function_effect [OF api r]) (simp_all add: set_remove1_subset)
  then have tq: "t \<in> set (fl_queue (sy_fl s) h)" "pw_folio (fl_wait fl t) = pw_folio ?w" "pw_bit (fl_wait fl t) = pw_bit ?w"
    using t by (auto simp: s' sy_defs) (cases rule: wake_page_function_effect [OF api r]; simp split: if_splits)+
  have mono: "x \<in> fl_flags (sy_fl s) g \<Longrightarrow> x \<in> fl_flags fl g" for x g
    by (cases rule: wake_page_function_effect [OF api r]) auto
  have oth: "fl_wait fl x = fl_wait (sy_fl s) x" if "x \<noteq> u" for x
    using that by (cases rule: wake_page_function_effect [OF api r]) auto
  have "rescued s t" using nl tq(1) by (auto simp: no_lost_def)
  then consider (bit) "pw_bit ?w \<in> fl_flags (sy_fl s) (pw_folio ?w)"
    | (task) x where "rescues (sy_pc s x) (fl_wait (sy_fl s) x) (pw_folio ?w) (pw_bit ?w) t" "x \<noteq> t0"
    | (walker) "rescues (sy_pc s t0) (fl_wait (sy_fl s) t0) (pw_folio ?w) (pw_bit ?w) t"
    by (auto simp: rescued_def)
  then show "rescued s' t"
  proof cases
    case bit
    then show ?thesis using mono tq by (simp add: rescued_def s' sy_defs)
  next
    case (task x)
    have "x \<noteq> u" using task(1) un by blast
    then have "rescues (sy_pc s' x) (fl_wait (sy_fl s') x) (pw_folio ?w) (pw_bit ?w) t" using task oth by (simp add: s' sy_defs)
    then show ?thesis using tq by (intro rescuedI [where u = x]) (simp add: s' sy_defs)
  next
    case walker
    then have fb: "pw_folio ?w = f" "pw_bit ?w = b" and tus: "t \<in> set (u # us)" using p by (auto simp: rescues_def)
    have on: ?thesis if "p' = U_walk f b k us m'" "t \<noteq> u"
      using that tus fb tq by (auto simp: rescued_def rescues_def s' sy_defs intro!: exI [of _ t0])
    show ?thesis using api r
    proof (cases rule: wake_page_function_cases)
      case other
      then show ?thesis using on fb by (auto simp: p' stop)
    next
      case busy
      then show ?thesis using fb by (simp add: rescued_def s' sy_defs)
    next
      case shared
      have "t \<noteq> u"
        using t shared(5) lock_wfD(2) [OF wf] uq tq(1) lock_wfD(3) [OF wf, of u] by (auto simp: s' sy_defs fl_simps split: if_splits)
      then show ?thesis using on shared by (simp add: p' stop)
    next
      case excl
      then have e: "wc_behavior c = EXCLUSIVE" "wc_folio c = f" "wc_bit c = b" using c(2) by (auto simp: entry_ok_def)
      then have "wc_state c = TASK_UNINTERRUPTIBLE" using cm c(1) by (auto simp: calm_def)
      moreover have "WQ_FLAG_DONE \<notin> pw_flags (fl_wait (sy_fl s) u)" using c(2,3) by (auto simp: entry_ok_def)
      ultimately have "rescues (sy_pc s' u) (fl_wait (sy_fl s') u) f b t"
        using c(4) e ut excl(7) by (simp add: rescues_def s' sy_defs fl_simps)
      then show ?thesis using tq fb by (intro rescuedI [where u = u]) (simp add: s' sy_defs)
    next
      case handoff
      then show ?thesis using fb tq by (simp add: rescued_def s' sy_defs fl_simps)
    qed
  qed
qed

text \<open>Clearing a waited-for bit leaves a waker behind whenever a waiter is queued.\<close>

lemma no_lost_clear:
  assumes nl: "no_lost s" and wf: "lock_wf api n s" and p: "sy_pc s t0 = Idle \<or> sy_pc s t0 = U_locked f"
    and fl: "fl_queue fl = fl_queue (sy_fl s)" "fl_wait fl = fl_wait (sy_fl s)"
      "\<And>g x. waitable x \<Longrightarrow> x \<in> fl_flags (sy_fl s) g \<Longrightarrow> (g, x) \<noteq> (f, b) \<Longrightarrow> x \<in> fl_flags fl g"
    and w: "PG_waiters \<in> fl_flags (sy_fl s) f \<Longrightarrow> p' = U_wake f b k"
    and s': "sy_fl s' = fl" "sy_pc s' = (sy_pc s)(t0 := p')"
  shows "no_lost s'"
proof (rule no_lost_by [OF nl, where ?t0.0 = t0])
  fix t h g x
  assume t: "t \<in> set (fl_queue (sy_fl s) h)" and g: "g = pw_folio (fl_wait (sy_fl s) t)" and x: "x = pw_bit (fl_wait (sy_fl s) t)"
  show "x \<in> fl_flags (sy_fl s') g \<or> rescues (sy_pc s' t0) (fl_wait (sy_fl s') t0) g x t"
    if "x \<in> fl_flags (sy_fl s) g"
  proof (cases "(g, x) = (f, b)")
    case True
    then show ?thesis using w lock_wfD(6) [OF wf t] g by (auto simp: s' rescues_def)
  next
    case False
    have "waitable x" using queued_entry [OF wf t] x by blast
    then show ?thesis using fl(3) False that by (simp add: s')
  qed
  show "x \<in> fl_flags (sy_fl s') g \<or> rescues (sy_pc s' t0) (fl_wait (sy_fl s') t0) g x t"
    if "rescues (sy_pc s t0) (fl_wait (sy_fl s) t0) g x t"
    using that p by (auto simp: rescues_def)
qed (use fl in \<open>auto simp: s'\<close>)

theorem no_lost_step:
  assumes st: "lock_step api n s s'" and api: "papi_ok api" and wf: "lock_wf api n s" and ow: "owner_inv s"
    and cm: "calm s" and nl: "no_lost s"
  shows "no_lost s'"
  using st
proof cases
  case (rpt t c h c' fl)
  then show ?thesis using wait_repeat_fields [OF rpt(5)] lock_wfD(3) [OF wf, of t]
    by (intro no_lost_by [OF nl, where ?t0.0 = t]) (auto simp: sy_defs rescues_def queued_at_def split: if_splits)
next
  case (again t c sig fl)
  then show ?thesis using wait_loop_Again [OF again(3)]
    by (intro no_lost_by [OF nl, where ?t0.0 = t]) (auto simp: sy_defs rescues_def)
next
  case (unlock t f msk ok w fl p fl')
  have fl: "fl = set_flags f ((fl_flags (sy_fl s) f - msk) \<union> (msk - fl_flags (sy_fl s) f)) (sy_fl s)" "w = (PG_waiters \<in> fl_flags (sy_fl s) f)"
    using unlock(5) by (auto simp: xor_flags_eq [OF api])
  show ?thesis unfolding unlock(1)
    by (rule no_lost_clear [OF nl wf, where f = f and b = PG_locked and k = K_return and fl = fl' and ?p' = p and ?t0.0 = t])
      (use wake_if_fields [OF unlock(6)] fl unlock(2,4) in \<open>auto simp: fl_simps waitable_def end_read_mask_def sy_defs split: if_splits\<close>)
next
  case (drop_unlock t f w fl p fl')
  let ?d = "filemap_end_dropbehind f (sy_fl s)"
  have fl: "fl = set_flags f ((fl_flags ?d f - {PG_locked}) \<union> ({PG_locked} - fl_flags ?d f)) ?d" "w = (PG_waiters \<in> fl_flags (sy_fl s) f)"
    using drop_unlock(3) by (auto simp: xor_flags_eq [OF api] dropbehind_fields)
  show ?thesis unfolding drop_unlock(1)
    by (rule no_lost_clear [OF nl wf, where f = f and b = PG_locked and k = K_put and fl = fl' and ?p' = p and ?t0.0 = t])
      (use wake_if_fields [OF drop_unlock(4)] fl drop_unlock(2) in \<open>auto simp: fl_simps waitable_def sy_defs dropbehind_fields\<close>)
next
  case (end_writeback t f w fl p fl')
  show ?thesis unfolding end_writeback(1)
    by (rule no_lost_clear [OF nl wf, where f = f and b = PG_writeback and k = K_dropbehind and fl = fl' and ?p' = p and ?t0.0 = t])
      (use wake_if_fields [OF end_writeback(5)] end_writeback_flags_eq [OF api end_writeback(4)] end_writeback(2) in
        \<open>auto simp: fl_simps waitable_def sy_defs\<close>)
next
  case (end_private t f)
  show ?thesis unfolding end_private(1)
    by (rule no_lost_clear [OF nl wf, where f = f and b = PG_private_2 and k = K_put and ?p' = "U_wake f PG_private_2 K_put" and ?t0.0 = t])
      (use end_private(2) in \<open>auto simp: fl_simps waitable_def sy_defs\<close>)
next
  case (walk t f b k u us m r m' fl p)
  show ?thesis by (rule no_lost_walk [OF nl wf cm api walk(2,3,1,4)])
next
  case (call t c op)
  then show ?thesis by (intro no_lost_by [OF nl, where ?t0.0 = t]) (auto simp: sy_defs rescues_def)
next
  case (tryl t c h)
  have e: "entry_ok n c (fl_wait (sy_fl s) t)" using lock_wfD(1) [OF wf, of t] tryl(2) by (auto simp: task_ok_def)
  show ?thesis
  proof (rule no_lost_by [OF nl, where ?t0.0 = t])
    fix u h'
    show "u \<in> set (fl_queue (sy_fl s') h') \<Longrightarrow>
        u \<in> set (fl_queue (sy_fl s) h') \<and> pw_folio (fl_wait (sy_fl s') u) = pw_folio (fl_wait (sy_fl s) u) \<and>
          pw_bit (fl_wait (sy_fl s') u) = pw_bit (fl_wait (sy_fl s) u) \<or>
        pw_bit (fl_wait (sy_fl s') u) \<in> fl_flags (sy_fl s') (pw_folio (fl_wait (sy_fl s') u))"
      using e by (cases rule: wait_try_cases [of c "sy_fl s" api t]) (auto simp: tryl(1) sy_defs entry_ok_def split: if_splits)
    show "u \<noteq> t \<Longrightarrow> sy_pc s' u = sy_pc s u \<and> fl_wait (sy_fl s') u = fl_wait (sy_fl s) u"
      by (cases rule: wait_try_cases [of c "sy_fl s" api t]) (auto simp: tryl(1) sy_defs)
    show "b \<in> fl_flags (sy_fl s) f \<Longrightarrow> b \<in> fl_flags (sy_fl s') f \<or> rescues (sy_pc s' t) (fl_wait (sy_fl s') t) f b u" for f b
      by (cases rule: wait_try_cases [of c "sy_fl s" api t]) (auto simp: tryl(1) sy_defs)
  qed (use tryl(2) in \<open>simp add: rescues_def\<close>)
next
  case (leave t c sig fl)
  show ?thesis
    by (rule no_lost_by [OF nl, where ?t0.0 = t]; cases rule: wait_loop_Leave [OF leave(4)])
      (use leave(2) in \<open>auto simp: leave(1) sy_defs rescues_def fl_simps\<close>)
next
  case (finish t c h r fl x)
  have fl: "fl = remove_wait h t (sy_fl s)" using finish(3,5) by (simp add: wait_finish_def Let_def)
  have "set (remove1 t (fl_queue (sy_fl s) h)) \<subseteq> set (fl_queue (sy_fl s) h)" by (rule set_remove1_subset)
  then show ?thesis using finish
    by (intro no_lost_by [OF nl, where ?t0.0 = t]) (auto simp: sy_defs rescues_def fl fl_simps split: if_splits)
next
  case (trylock t f fl)
  then show ?thesis
    by (intro no_lost_by [OF nl, where ?t0.0 = t]) (auto simp: sy_defs rescues_def fl_simps folio_trylock_def test_and_set_bit_def)
next
  case (drop_lock t f fl)
  then show ?thesis
    by (intro no_lost_by [OF nl, where ?t0.0 = t]) (auto simp: sy_defs rescues_def fl_simps folio_trylock_def test_and_set_bit_def)
next
  case (drop_skip t f)
  then show ?thesis by (intro no_lost_by [OF nl, where ?t0.0 = t]) (auto simp: sy_defs rescues_def fl_simps)
next
  case (pass t f u)
  then show ?thesis by (intro no_lost_by [OF nl, where ?t0.0 = t]) (auto simp: sy_defs rescues_def)
next
  case (wake t f b k h)
  show ?thesis using wake queued_hash [OF wf]
    by (intro no_lost_by [OF nl, where ?t0.0 = t]) (auto simp: sy_defs rescues_def)
next
  case (walked t f b k m)
  then show ?thesis by (intro no_lost_by [OF nl, where ?t0.0 = t]) (auto simp: sy_defs rescues_def)
next
  case (woken t f b k m p fl)
  have "pw_bit (fl_wait (sy_fl s) u) \<noteq> PG_waiters" if "u \<in> set (fl_queue (sy_fl s) h)" for u h
    by (rule queued_entry [OF wf that]) (auto simp: waitable_def)
  then show ?thesis using woken wake_if_fields [OF woken(3)]
    by (intro no_lost_by [OF nl, where ?t0.0 = t]) (auto simp: sy_defs rescues_def wake_end_fields)
next
  case (set_bit b f)
  then show ?thesis by (intro no_lost_by [OF nl, where ?t0.0 = 0]) (auto simp: fl_simps)
next
  case (reset_bit b f)
  have "waitable (pw_bit (fl_wait (sy_fl s) u))" if "u \<in> set (fl_queue (sy_fl s) h)" for u h
    by (rule queued_entry [OF wf that])
  then show ?thesis using reset_bit by (intro no_lost_by [OF nl, where ?t0.0 = 0]) (auto simp: fl_simps)
qed

section \<open>Reachable states\<close>

definition lock_sys :: "papi \<Rightarrow> int \<Rightarrow> locks \<Rightarrow> locks \<Rightarrow> bool" where
  "lock_sys api n s s' \<longleftrightarrow> papi_ok api \<and> 0 \<le> n \<and> lock_step api n s s'"

definition calm_sys :: "papi \<Rightarrow> int \<Rightarrow> locks \<Rightarrow> locks \<Rightarrow> bool" where
  "calm_sys api n s s' \<longleftrightarrow> lock_sys api n s s' \<and> calm s'"

lemma lock_init_inv: "lock_init s \<Longrightarrow> lock_wf api n s \<and> owner_inv s \<and> calm s \<and> no_lost s"
  by (auto simp: lock_init_def lock_wf_def wf_defs task_ok_def queued_at_def spins_def walk_ok_def owner_inv_def tokens_def
    granted_def calm_def no_lost_def)

interpretation lk: step_invariant lock_init "lock_sys api n" "\<lambda>s. lock_wf api n s \<and> owner_inv s"
  for api n
  by unfold_locales (auto simp: lock_sys_def lock_init_inv intro: lock_wf_step owner_step)

interpretation wk: step_invariant_more lock_init "calm_sys api n" "\<lambda>s. lock_wf api n s \<and> owner_inv s \<and> calm s" no_lost
  for api n
  by unfold_locales (auto simp: calm_sys_def lock_sys_def lock_init_inv intro: lock_wf_step owner_step no_lost_step)

lemma lock_reach:
  assumes "papi_ok api" and "0 \<le> n" and "reachable lock_init (lock_step api n) s"
  shows "lock_wf api n s" and "owner_inv s"
proof -
  have "reachable lock_init (lock_sys api n) s"
    by (rule reachable_mono [OF assms(3)]) (simp_all add: lock_sys_def assms)
  then show "lock_wf api n s" "owner_inv s" using lk.inv_reachable by blast+
qed

end
