(* ===== verification/LockRuns.thy ===== *)
theory LockRuns
  imports LockOwner
begin

text \<open>
  The steps of a task as a function, so that runs can be evaluated; the properties of the lock of a folio; and
  a run in which a killed waiter leaves the others asleep.
\<close>

section \<open>The next step of a task\<close>

definition go :: "papi \<Rightarrow> bool \<Rightarrow> nat \<Rightarrow> locks \<Rightarrow> locks option" where
  "go api sig t s =
     (case sy_pc s t of
        Idle \<Rightarrow> None
      | W_repeat c \<Rightarrow>
          let h = folio_waitqueue api (wc_folio c) in
          if sy_qlock s h \<noteq> None then None
          else Some (case wait_repeat t c (sy_fl s) of (c', fl) \<Rightarrow> q_lock h (Some t) (at t (W_try c') fl s))
      | W_try c \<Rightarrow> Some (q_lock (folio_waitqueue api (wc_folio c)) None (at t (W_loop c) (wait_try api t c (sy_fl s)) s))
      | W_loop c \<Rightarrow>
          (case wait_loop (sig \<and> wc_state c \<noteq> TASK_UNINTERRUPTIBLE) t c (sy_fl s) of
             (out, fl) \<Rightarrow>
               (case out of Asleep \<Rightarrow> None | Again \<Rightarrow> Some (at t (W_repeat c) fl s) | Leave \<Rightarrow> Some (at t (W_finish c) fl s)))
      | W_finish c \<Rightarrow>
          let h = folio_waitqueue api (wc_folio c) in
          if t \<in> set (fl_queue (sy_fl s) h) \<and> sy_qlock s h \<noteq> None then None
          else Some (case wait_finish api t c (sy_fl s) of
                       (r, fl) \<Rightarrow> let s' = (at t Idle fl s)\<lparr>sy_ret := (sy_ret s)(t := r)\<rparr>
                                 in if r = 0 \<and> wc_behavior c = EXCLUSIVE then own t (wc_folio c) s' else s')
      | U_wake f b k \<Rightarrow>
          let h = folio_waitqueue api f in
          if sy_qlock s h \<noteq> None then None
          else Some (q_lock h (Some t) (at t (U_walk f b k (fl_queue (sy_fl s) h) False) (sy_fl s) s))
      | U_walk f b k ts m \<Rightarrow>
          (case ts of
             [] \<Rightarrow> Some (at t (U_end f b k m) (sy_fl s) s)
           | u # us \<Rightarrow>
               Some (case wake_page_function api u f b m (sy_fl s) of
                       (r, m', fl) \<Rightarrow>
                         at t (if p_stop api r (WQ_FLAG_EXCLUSIVE \<in> pw_flags (fl_wait (sy_fl s) u)) then U_end f b k m'
                               else U_walk f b k us m') fl s))
      | U_end f b k m \<Rightarrow>
          Some (case wake_if False f b k (wake_end api f m (sy_fl s)) of (p, fl) \<Rightarrow> q_lock (folio_waitqueue api f) None (at t p fl s))
      | U_dropbehind f \<Rightarrow>
          Some (if PG_dropbehind \<in> fl_flags (sy_fl s) f \<and> fst (folio_trylock f (sy_fl s))
                then own t f (at t (U_locked f) (snd (folio_trylock f (sy_fl s))) s)
                else at t Idle (folio_put f (sy_fl s)) s)
      | U_locked f \<Rightarrow>
          Some (case xor_flags api f {PG_locked} (filemap_end_dropbehind f (sy_fl s)) of
                  (w, fl) \<Rightarrow> case wake_if w f PG_locked K_put fl of (p, fl') \<Rightarrow> disown t f (at t p fl' s)))"

lemma go_step:
  assumes go: "go api sig t s = Some s'"
  shows "lock_step api n s s'"
proof (cases "sy_pc s t")
  case (W_repeat c)
  then show ?thesis using go by (auto simp: go_def Let_def split: if_splits prod.splits intro: lock_step.rpt)
next
  case (W_try c)
  then show ?thesis using go by (auto simp: go_def intro: lock_step.tryl)
next
  case (W_loop c)
  then show ?thesis using go
    by (auto simp: go_def split: wait_out.splits prod.splits intro: lock_step.again
      lock_step.leave [where sig = "sig \<and> wc_state c \<noteq> TASK_UNINTERRUPTIBLE"])
next
  case (W_finish c)
  obtain r fl where r: "wait_finish api t c (sy_fl s) = (r, fl)" by (cases "wait_finish api t c (sy_fl s)")
  show ?thesis using go W_finish lock_step.finish [OF W_finish refl _ r refl, of n]
    by (auto simp: go_def Let_def r split: if_splits)
next
  case (U_wake f b k)
  then show ?thesis using go by (auto simp: go_def Let_def split: if_splits intro: lock_step.wake)
next
  case (U_walk f b k ts m)
  then show ?thesis using go
    by (cases ts) (auto simp: go_def split: prod.splits intro: lock_step.walk lock_step.walked)
next
  case (U_end f b k m)
  then show ?thesis using go by (auto simp: go_def split: prod.splits intro: lock_step.woken)
next
  case (U_dropbehind f)
  then show ?thesis using go
    by (auto simp: go_def prod_eq_iff split: if_splits intro: lock_step.drop_lock lock_step.drop_skip)
next
  case (U_locked f)
  then show ?thesis using go by (auto simp: go_def split: prod.splits intro: lock_step.drop_unlock)
qed (use go in \<open>simp add: go_def\<close>)

datatype lock_act = Call nat wait_op | Take nat nat | Release nat nat | Go nat bool

fun act :: "papi \<Rightarrow> int \<Rightarrow> lock_act \<Rightarrow> locks \<Rightarrow> locks option" where
  "act api n (Call t op) s =
     (if sy_pc s t = Idle \<and> waitable (wc_bit (wait_args n op)) then Some (at t (W_repeat (wait_args n op)) (sy_fl s) s) else None)"
| "act api n (Take t f) s =
     (if sy_pc s t = Idle \<and> fst (folio_trylock f (sy_fl s)) then Some (own t f (at t Idle (snd (folio_trylock f (sy_fl s))) s)) else None)"
| "act api n (Release t f) s =
     (if sy_pc s t = Idle \<and> f \<in> sy_held s t
      then case xor_flags api f {PG_locked} (sy_fl s) of
             (w, fl) \<Rightarrow> case wake_if w f PG_locked K_return fl of (p, fl') \<Rightarrow> Some (disown t f (at t p fl' s))
      else None)"
| "act api n (Go t sig) s = go api sig t s"

fun run :: "papi \<Rightarrow> int \<Rightarrow> lock_act list \<Rightarrow> locks \<Rightarrow> locks option" where
  "run api n [] s = Some s"
| "run api n (a # as) s = (case act api n a s of None \<Rightarrow> None | Some s' \<Rightarrow> run api n as s')"

lemma act_step: "act api n a s = Some s' \<Longrightarrow> lock_step api n s s'"
proof (cases a)
  case (Call t op)
  then show "act api n a s = Some s' \<Longrightarrow> ?thesis" by (auto split: if_splits intro: lock_step.call)
next
  case (Take t f)
  then show "act api n a s = Some s' \<Longrightarrow> ?thesis"
    by (auto split: if_splits intro!: lock_step.trylock simp: prod_eq_iff)
next
  case (Release t f)
  then show "act api n a s = Some s' \<Longrightarrow> ?thesis"
    by (auto split: if_splits prod.splits intro: lock_step.unlock)
qed (simp add: go_step)

lemma run_reachable: "run api n as s = Some s' \<Longrightarrow> reachable lock_init (lock_step api n) s \<Longrightarrow> reachable lock_init (lock_step api n) s'"
proof (induction as arbitrary: s)
  case (Cons a as)
  then obtain s1 where "act api n a s = Some s1" "run api n as s1 = Some s'" by (auto split: option.splits)
  then show ?case using Cons.IH Cons.prems(2) act_step reachable_step [of lock_init "lock_step api n"] by metis
qed simp

definition demo_papi :: papi where
  "demo_papi =
     \<lparr>p_hash = (\<lambda>f. f mod 256), p_match = (\<lambda>(f, b) (g, c) m. (f = g \<and> b = c, m \<or> f = g)), p_stop = (\<lambda>r x. r < 0 \<or> r \<noteq> 0 \<and> x),
      p_xor = (\<lambda>fs msk. (PG_waiters \<in> fs, (fs - msk) \<union> (msk - fs))), p_end_writeback = (\<lambda>fs. (PG_waiters \<in> fs, fs - {PG_writeback}))\<rparr>"

lemma demo_papi_ok: "papi_ok demo_papi"
  by (auto simp: papi_ok_def demo_papi_def)

definition demo_locks :: locks where
  "demo_locks =
     \<lparr>sy_fl = \<lparr>fl_flags = (\<lambda>f. {}), fl_refs = (\<lambda>f. 1), fl_mapped = (\<lambda>f. True), fl_queue = (\<lambda>h. []),
               fl_wait = (\<lambda>t. \<lparr>pw_folio = 0, pw_bit = PG_locked, pw_flags = {}\<rparr>), fl_invalidated = [], fl_rotated = []\<rparr>,
      sy_pc = (\<lambda>t. Idle), sy_qlock = (\<lambda>h. None), sy_held = (\<lambda>t. {}), sy_ret = (\<lambda>t. 0)\<rparr>"

lemma demo_locks_init: "reachable lock_init (lock_step api n) demo_locks"
  by (rule reachable_init) (simp add: lock_init_def demo_locks_def)

text \<open>
  Task 0 holds the lock of folio 7, tasks 1 and 2 wait for it; task 1 is killed, and woken before it has left
  the queue.
\<close>

definition killed_run :: "lock_act list" where
  "killed_run =
     [Take 0 7, Call 1 (Folio_lock_killable 7), Go 1 False, Go 1 False, Call 2 (Folio_lock 7), Go 2 False, Go 2 False,
      Go 1 True, Release 0 7, Go 0 False, Go 0 False, Go 0 False, Go 1 False]"

lemma killed_eval:
  "case run demo_papi 5 killed_run demo_locks of
     None \<Rightarrow> False
   | Some s \<Rightarrow> fl_queue (sy_fl s) 7 = [2] \<and> PG_locked \<notin> fl_flags (sy_fl s) 7 \<and> sy_pc s 0 = Idle \<and> sy_pc s 1 = Idle \<and>
       sy_ret s 1 = - EINTR"
  by code_simp

section \<open>What the lock promises\<close>

text \<open>
  C9: In every interleaving of tasks that lock, wait, hand over and unlock, a task that was given the lock of a
  folio is the only one: the bit is set, no other task was given it, and it is handed to no waiter.
\<close>

theorem folio_lock_exclusive:
  assumes "papi_ok api" and "0 \<le> n" and "reachable lock_init (lock_step api n) s" and "f \<in> sy_held s t"
  shows "PG_locked \<in> fl_flags (sy_fl s) f \<and> (\<forall>u. f \<in> sy_held s u \<longrightarrow> u = t) \<and>
    (\<forall>u. granted (sy_pc s u) (fl_wait (sy_fl s) u) \<noteq> Some f)"
proof -
  have one: "tokens s f = {(t, False)}" using held_locked(2) [OF lock_reach(2) [OF assms(1-3)] assms(4)] .
  have "u = t" if "f \<in> sy_held s u" for u using that one by (auto simp: held_token)
  moreover have "granted (sy_pc s u) (fl_wait (sy_fl s) u) \<noteq> Some f" for u
  proof
    assume "granted (sy_pc s u) (fl_wait (sy_fl s) u) = Some f"
    then have "(u, True) \<in> tokens s f" by (simp add: tokens_def)
    then show False using one by simp
  qed
  ultimately show ?thesis using held_locked(1) [OF lock_reach(2) [OF assms(1-3)] assms(4)] by blast
qed

definition handover_run :: "lock_act list" where
  "handover_run =
     [Take 0 7, Call 1 (Folio_lock 7), Go 1 False, Go 1 False, Release 0 7, Go 0 False, Go 0 False, Go 0 False, Go 1 False, Go 1 False]"

lemma handover_eval:
  "case run demo_papi 0 handover_run demo_locks of
     None \<Rightarrow> False
   | Some s \<Rightarrow> 7 \<in> sy_held s 1 \<and> 7 \<notin> sy_held s 0 \<and> PG_locked \<in> fl_flags (sy_fl s) 7"
  by code_simp

theorem folio_lock_exclusive_witness:
  "\<exists>s. reachable lock_init (lock_step demo_papi 0) s \<and> 7 \<in> sy_held s 1 \<and> (\<forall>u. 7 \<in> sy_held s u \<longrightarrow> u = 1)"
proof -
  obtain s where r: "run demo_papi 0 handover_run demo_locks = Some s" and h: "7 \<in> sy_held s 1"
    using handover_eval by (auto split: option.splits)
  have s: "reachable lock_init (lock_step demo_papi 0) s" using run_reachable [OF r demo_locks_init] .
  have "\<forall>u. 7 \<in> sy_held s u \<longrightarrow> u = 1" using folio_lock_exclusive [OF demo_papi_ok order_refl s h] by blast
  then show ?thesis using s h by blast
qed

lemma spinner_goes:
  assumes "spins api (sy_pc s u) = Some h"
  shows "\<exists>s'. go api False u s = Some s'"
  using assms by (auto simp: spins_def go_def split: pc.splits list.splits)

lemma calm_reach:
  assumes "papi_ok api" and "0 \<le> n" and "reachable lock_init (\<lambda>s s'. lock_step api n s s' \<and> calm s') s"
  shows "lock_wf api n s" and "no_lost s"
proof -
  have "reachable lock_init (calm_sys api n) s"
    using assms(3)
  proof (rule reachable_mono)
    show "lock_step api n s s' \<and> calm s' \<Longrightarrow> calm_sys api n s s'" for s s'
      using assms(1,2) by (simp add: calm_sys_def lock_sys_def)
  qed
  from wk.inv_reachable [OF this] wk.more_reachable [OF this] show "lock_wf api n s" "no_lost s" by blast+
qed

text \<open>
  C10: No wake-up is lost, as long as nobody takes the lock killably. Whenever a task sleeps in a wait queue and
  the bit it waits for is clear, some task is going to wake it, or was woken to take the bit, and some task can
  take its next step in the locking code.
\<close>

theorem folio_waiter_not_lost:
  assumes "papi_ok api" and "0 \<le> n" and "reachable lock_init (\<lambda>s s'. lock_step api n s s' \<and> calm s') s"
    and "t \<in> set (fl_queue (sy_fl s) h)" and "w = fl_wait (sy_fl s) t" and "pw_bit w \<notin> fl_flags (sy_fl s) (pw_folio w)"
  shows "(\<exists>u. rescues (sy_pc s u) (fl_wait (sy_fl s) u) (pw_folio w) (pw_bit w) t) \<and> (\<exists>u s'. go api False u s = Some s')"
proof -
  note wf = calm_reach(1) [OF assms(1-3)]
  obtain u where u: "rescues (sy_pc s u) (fl_wait (sy_fl s) u) (pw_folio w) (pw_bit w) t"
    using calm_reach(2) [OF assms(1-3)] assms(4-6) by (auto simp: no_lost_def rescued_def)
  have "\<exists>v s'. go api False v s = Some s'"
  proof (cases "go api False u s")
    case None
    then obtain f b k where p: "sy_pc s u = U_wake f b k" "sy_qlock s (folio_waitqueue api f) \<noteq> None"
      using u by (auto simp: rescues_def go_def Let_def wait_loop_def test_and_set_bit_def split: pc.splits list.splits if_splits)
    then obtain v where "spins api (sy_pc s v) = Some (folio_waitqueue api f)" using lock_wfD(4) [OF wf] by blast
    then show ?thesis using spinner_goes by blast
  qed blast
  then show ?thesis using u by blast
qed

lemma calm_at:
  assumes "calm s" and "\<And>c. p \<in> {W_repeat c, W_try c, W_loop c, W_finish c} \<Longrightarrow> wc_behavior c = EXCLUSIVE \<Longrightarrow> wc_state c = TASK_UNINTERRUPTIBLE"
    and "sy_pc s' = (sy_pc s)(t := p)"
  shows "calm s'"
  using assms unfolding calm_def by (auto split: if_splits)

lemma act_calm:
  assumes "act api n a s = Some s'" and "calm s" and "\<And>t f. a \<noteq> Call t (Folio_lock_killable f)"
  shows "calm s'"
proof (cases a)
  case (Call t op)
  then show ?thesis using assms
    by (intro calm_at [OF assms(2), of "W_repeat (wait_args n op)" s' t]; cases op)
      (auto simp: sy_defs wait_common_def folio_wait_bit_def folio_wait_bit_killable_def folio_put_wait_locked_def
        folio_lock_slow_def softleaf_entry_wait_on_locked_def split: if_splits)
next
  case (Take t f)
  then show ?thesis using assms by (intro calm_at [OF assms(2), of Idle]) (auto simp: sy_defs split: if_splits)
next
  case (Release t f)
  then obtain p fl fl' w where "wake_if w f PG_locked K_return fl = (p, fl')" "s' = disown t f (at t p fl' s)"
    using assms(1) by (auto split: if_splits prod.splits)
  then show ?thesis using wake_if_fields(4) [of w f PG_locked K_return fl p fl']
    by (intro calm_at [OF assms(2), of p s' t]) (auto simp: sy_defs split: if_splits)
next
  case (Go t sig)
  have c: "sy_pc s t \<in> {W_repeat c, W_try c, W_loop c, W_finish c} \<Longrightarrow> wc_behavior c = EXCLUSIVE \<Longrightarrow> wc_state c = TASK_UNINTERRUPTIBLE" for c
    using assms(2) unfolding calm_def by blast
  show ?thesis
  proof (rule calm_at [OF assms(2), of "sy_pc s' t" s' t])
    show "sy_pc s' = (sy_pc s)(t := sy_pc s' t)"
      using assms(1) Go by (auto simp: go_def Let_def sy_defs split: pc.splits if_splits prod.splits wait_out.splits list.splits)
    show "wc_state d = TASK_UNINTERRUPTIBLE" if "sy_pc s' t \<in> {W_repeat d, W_try d, W_loop d, W_finish d}" "wc_behavior d = EXCLUSIVE" for d
    proof (cases "sy_pc s t")
      case (W_repeat x)
      obtain x' fl where r: "wait_repeat t x (sy_fl s) = (x', fl)" by (cases "wait_repeat t x (sy_fl s)")
      have "sy_pc s' t = W_try x'" using assms(1) Go W_repeat by (auto simp: go_def Let_def r sy_defs split: if_splits)
      then show ?thesis using c [of x] W_repeat that wait_repeat_fields(3,4) [OF r] by auto
    next
      case (U_end f b k m)
      then show ?thesis using assms(1) Go that
        by (auto simp: go_def sy_defs dest!: wake_if_fields(4) split: prod.splits if_splits)
    next
      case (U_locked f)
      obtain w fl where x: "xor_flags api f {PG_locked} (filemap_end_dropbehind f (sy_fl s)) = (w, fl)"
        by (cases "xor_flags api f {PG_locked} (filemap_end_dropbehind f (sy_fl s))")
      obtain p fl' where p: "wake_if w f PG_locked K_put fl = (p, fl')" by (cases "wake_if w f PG_locked K_put fl")
      have "sy_pc s' t = p" using assms(1) Go U_locked by (auto simp: go_def x p sy_defs)
      then show ?thesis using that wake_if_fields(4) [OF p] by (auto split: if_splits)
    qed (use assms(1) Go c that in \<open>auto simp: go_def Let_def sy_defs split: if_splits prod.splits wait_out.splits list.splits\<close>)
  qed
qed

lemma run_calm:
  assumes "run api n as s = Some s'" and "list_all (\<lambda>a. case a of Call t (Folio_lock_killable f) \<Rightarrow> False | _ \<Rightarrow> True) as" and "calm s"
    and "reachable lock_init (\<lambda>s s'. lock_step api n s s' \<and> calm s') s"
  shows "reachable lock_init (\<lambda>s s'. lock_step api n s s' \<and> calm s') s'"
  using assms
proof (induction as arbitrary: s)
  case (Cons a as)
  then obtain s1 where s1: "act api n a s = Some s1" "run api n as s1 = Some s'" by (auto split: option.splits)
  have "calm s1" by (rule act_calm [OF s1(1) Cons.prems(3)]) (use Cons.prems(2) in auto)
  moreover have "reachable lock_init (\<lambda>s s'. lock_step api n s s' \<and> calm s') s1"
    using reachable_step [OF Cons.prems(4)] act_step [OF s1(1)] calculation by blast
  ultimately show ?case using Cons.IH [OF s1(2)] Cons.prems(2) by simp
qed simp

definition waiter_run :: "lock_act list" where
  "waiter_run = [Take 0 7, Call 1 (Folio_lock 7), Go 1 False, Go 1 False, Release 0 7]"

lemma waiter_eval:
  "case run demo_papi 5 waiter_run demo_locks of
     None \<Rightarrow> False
   | Some s \<Rightarrow> fl_queue (sy_fl s) 7 = [1] \<and> pw_folio (fl_wait (sy_fl s) 1) = 7 \<and> pw_bit (fl_wait (sy_fl s) 1) = PG_locked \<and>
       PG_locked \<notin> fl_flags (sy_fl s) 7"
  by code_simp

theorem folio_waiter_not_lost_witness:
  "\<exists>(s :: locks) u. fl_queue (sy_fl s) 7 = [1] \<and> PG_locked \<notin> fl_flags (sy_fl s) 7 \<and> rescues (sy_pc s u) (fl_wait (sy_fl s) u) 7 PG_locked 1"
proof -
  obtain s where r: "run demo_papi 5 waiter_run demo_locks = Some s"
    and q: "fl_queue (sy_fl s) 7 = [1]" "pw_folio (fl_wait (sy_fl s) 1) = 7" "pw_bit (fl_wait (sy_fl s) 1) = PG_locked"
      "PG_locked \<notin> fl_flags (sy_fl s) 7"
    using waiter_eval by (auto split: option.splits)
  have i: "lock_init demo_locks" by (simp add: lock_init_def demo_locks_def)
  have "reachable lock_init (\<lambda>s s'. lock_step demo_papi 5 s s' \<and> calm s') s"
    by (rule run_calm [OF r]) (use lock_init_inv [OF i] i in \<open>simp_all add: reachable_init waiter_run_def\<close>)
  then have "\<exists>u. rescues (sy_pc s u) (fl_wait (sy_fl s) u) 7 PG_locked 1"
    using folio_waiter_not_lost [OF demo_papi_ok, of 5 s 1 7] q by auto
  then show ?thesis using q by blast
qed

text \<open>
  C12: What a wait returns. Whatever the other tasks do, a wait that cannot be interrupted returns 0; a task that
  asked for the lock and got 0 holds it, one that got an error does not; and a task that has returned is in no
  queue.
\<close>

theorem folio_wait_returns:
  assumes "papi_ok api" and "0 \<le> n" and "reachable lock_init (lock_step api n) s" and "lock_step api n s s'"
    and "sy_pc s t = W_finish c" and "sy_pc s' t = Idle"
  shows "(wc_state c = TASK_UNINTERRUPTIBLE \<longrightarrow> sy_ret s' t = 0) \<and> (sy_ret s' t = 0 \<or> sy_ret s' t = - EINTR) \<and>
    (wc_behavior c = EXCLUSIVE \<and> sy_ret s' t = 0 \<longrightarrow> wc_folio c \<in> sy_held s' t \<and> PG_locked \<in> fl_flags (sy_fl s') (wc_folio c)) \<and>
    (wc_behavior c = EXCLUSIVE \<and> sy_ret s' t \<noteq> 0 \<longrightarrow>
       sy_held s' t = sy_held s t \<and> granted (sy_pc s t) (fl_wait (sy_fl s) t) = None) \<and>
    (\<forall>h. t \<notin> set (fl_queue (sy_fl s') h))"
proof -
  note wf = lock_reach [OF assms(1-3)]
  have "reachable lock_init (lock_step api n) s'" using assms(3,4) by (rule reachable_step)
  note wf' = lock_reach [OF assms(1,2) this]
  have nq: "t \<notin> set (fl_queue (sy_fl s') h)" for h using lock_wfD(3) [OF wf'(1), of t h] assms(6) by (simp add: queued_at_def)
  have k: "task_ok n (W_finish c) (fl_wait (sy_fl s) t)" using lock_wfD(1) [OF wf(1), of t] assms(5) by simp
  obtain r fl where r: "wait_finish api t c (sy_fl s) = (r, fl)"
    and s': "s' = (let x = (at t Idle fl s)\<lparr>sy_ret := (sy_ret s)(t := r)\<rparr> in
                   if r = 0 \<and> wc_behavior c = EXCLUSIVE then own t (wc_folio c) x else x)"
    using assms(4,5,6) by cases (auto simp: sy_defs Let_def split: if_splits)
  have ret: "sy_ret s' t = r" by (simp add: s' sy_defs Let_def)
  have "wc_folio c \<in> sy_held s' t" if "wc_behavior c = EXCLUSIVE" "r = 0" using that by (simp add: s' sy_defs)
  moreover have "sy_held s' t = sy_held s t" if "r \<noteq> 0" using that by (simp add: s' sy_defs Let_def)
  moreover have "r = 0 \<or> r = - EINTR" "wc_state c = TASK_UNINTERRUPTIBLE \<Longrightarrow> r = 0"
    "wc_behavior c = EXCLUSIVE \<Longrightarrow> r \<noteq> 0 \<Longrightarrow> granted (sy_pc s t) (fl_wait (sy_fl s) t) = None"
    using r k assms(5) by (auto simp: wait_finish_def Let_def task_ok_def granted_def fl_simps split: if_splits)
  ultimately show ?thesis using nq ret held_locked(1) [OF wf'(2)] by auto
qed

definition lock_run :: "lock_act list" where
  "lock_run = [Take 0 7, Call 1 (Folio_lock 7), Go 1 False, Go 1 False, Release 0 7, Go 0 False, Go 0 False, Go 0 False, Go 1 False]"

lemma lock_run_eval:
  "case run demo_papi 0 lock_run demo_locks of
     None \<Rightarrow> False
   | Some s \<Rightarrow> sy_pc s 1 = W_finish ((folio_lock_slow 0 7)\<lparr>wc_unfair := - 1\<rparr>) \<and>
       (case go demo_papi False 1 s of None \<Rightarrow> False | Some s' \<Rightarrow> sy_pc s' 1 = Idle)"
  by code_simp

theorem folio_wait_returns_witness:
  "\<exists>s s'. lock_step demo_papi 0 s s' \<and> sy_ret s' 1 = 0 \<and> 7 \<in> sy_held s' 1 \<and> PG_locked \<in> fl_flags (sy_fl s') 7"
proof -
  obtain s s' where r: "run demo_papi 0 lock_run demo_locks = Some s" and g: "go demo_papi False 1 s = Some s'"
    and p: "sy_pc s 1 = W_finish ((folio_lock_slow 0 7)\<lparr>wc_unfair := - 1\<rparr>)" "sy_pc s' 1 = Idle"
    using lock_run_eval by (auto split: option.splits)
  have st: "lock_step demo_papi 0 s s'" using go_step [OF g] .
  have "sy_ret s' 1 = 0 \<and> 7 \<in> sy_held s' 1 \<and> PG_locked \<in> fl_flags (sy_fl s') 7"
    using folio_wait_returns [OF demo_papi_ok order_refl run_reachable [OF r demo_locks_init] st p]
    by (simp add: folio_lock_slow_def wait_common_def)
  then show ?thesis using st by blast
qed

text \<open>
  C13: How often a waiter for the lock is passed over. It goes back to queueing at most \<open>n\<close> times, \<open>n\<close> being the
  sysctl \<open>page_lock_unfairness\<close>: its counter lies between \<open>-1\<close> and \<open>n\<close> and falls by one each time; once it is
  negative, the wake function hands the lock over, and whatever the loop finds it does not start again.
\<close>

theorem folio_lock_fair:
  assumes "papi_ok api" and "0 \<le> n" and "reachable lock_init (lock_step api n) s"
    and "sy_pc s t = W_loop c" and "wc_behavior c = EXCLUSIVE"
  shows "- 1 \<le> wc_unfair c \<and> wc_unfair c < n \<and> wc_unfair (fst (wait_repeat t c (sy_fl s))) = wc_unfair c - 1 \<and>
    (wc_unfair c < 0 \<longrightarrow> (\<forall>sig. fst (wait_loop sig t c (sy_fl s)) \<noteq> Again) \<and>
       (WQ_FLAG_WOKEN \<in> pw_flags (fl_wait (sy_fl s) t) \<longrightarrow> granted (sy_pc s t) (fl_wait (sy_fl s) t) = Some (wc_folio c)))"
proof -
  have e: "entry_ok n c (fl_wait (sy_fl s) t)" using lock_wfD(1) [OF lock_reach(1) [OF assms(1-3)], of t] assms(4) by (simp add: task_ok_def)
  then show ?thesis using assms(4,5)
    by (auto simp: entry_ok_def wait_loop_def Let_def granted_def wait_repeat_def wait_flags_def test_and_set_bit_def)
qed

theorem folio_lock_fair_witness:
  "\<exists>(s :: locks) c. sy_pc s 1 = W_loop c \<and> wc_unfair c = - 1 \<and> fst (wait_loop False 1 c (sy_fl s)) \<noteq> Again"
proof -
  obtain s where r: "run demo_papi 0 (butlast lock_run) demo_locks = Some s"
    and p: "sy_pc s 1 = W_loop ((folio_lock_slow 0 7)\<lparr>wc_unfair := - 1\<rparr>)"
  proof -
    have "case run demo_papi 0 (butlast lock_run) demo_locks of
        None \<Rightarrow> False | Some s \<Rightarrow> sy_pc s 1 = W_loop ((folio_lock_slow 0 7)\<lparr>wc_unfair := - 1\<rparr>)"
      by code_simp
    then show ?thesis using that by (auto split: option.splits)
  qed
  have "fst (wait_loop False 1 ((folio_lock_slow 0 7)\<lparr>wc_unfair := - 1\<rparr>) (sy_fl s)) \<noteq> Again"
    using folio_lock_fair [OF demo_papi_ok order_refl run_reachable [OF r demo_locks_init] p]
    by (simp add: folio_lock_slow_def wait_common_def)
  then show ?thesis using p by (intro exI conjI) auto
qed


section \<open>Undisturbed operations\<close>

text \<open>The steps of a waker that nobody disturbs make up \<open>folio_wake_bit\<close>.\<close>

lemma walk_steps:
  assumes "sy_pc s t = U_walk f b k ts m"
  shows "\<exists>s'. (lock_step api n)\<^sup>*\<^sup>* s s' \<and> sy_fl s' = snd (wake_walk api ts f b m (sy_fl s)) \<and>
    sy_pc s' = (sy_pc s)(t := U_end f b k (fst (wake_walk api ts f b m (sy_fl s)))) \<and>
    sy_qlock s' = sy_qlock s \<and> sy_held s' = sy_held s"
  using assms
proof (induction ts arbitrary: s m)
  case Nil
  then show ?case using lock_step.walked [OF Nil, of api n]
    by (intro exI [of _ "at t (U_end f b k m) (sy_fl s) s"] conjI r_into_rtranclp) (auto simp: sy_defs)
next
  case (Cons u us)
  obtain r m' fl where w: "wake_page_function api u f b m (sy_fl s) = (r, m', fl)"
    by (cases "wake_page_function api u f b m (sy_fl s)")
  let ?stop = "p_stop api r (WQ_FLAG_EXCLUSIVE \<in> pw_flags (fl_wait (sy_fl s) u))"
  let ?s = "at t (if ?stop then U_end f b k m' else U_walk f b k us m') fl s"
  have st: "lock_step api n s ?s" by (rule lock_step.walk [OF Cons.prems w refl])
  show ?case
  proof (cases ?stop)
    case True
    then show ?thesis using st w by (intro exI [of _ ?s] conjI r_into_rtranclp) (auto simp: sy_defs)
  next
    case False
    then have f: "sy_pc ?s t = U_walk f b k us m'" "sy_fl ?s = fl" "sy_qlock ?s = sy_qlock s" "sy_held ?s = sy_held s"
      "(sy_pc ?s)(t := x) = (sy_pc s)(t := x)" for x
      by (simp_all add: sy_defs)
    obtain s' where s': "(lock_step api n)\<^sup>*\<^sup>* ?s s'" "sy_fl s' = snd (wake_walk api us f b m' fl)"
      "sy_pc s' = (sy_pc s)(t := U_end f b k (fst (wake_walk api us f b m' fl)))" "sy_qlock s' = sy_qlock s" "sy_held s' = sy_held s"
      using Cons.IH [OF f(1)] unfolding f(2-5) by blast
    then show ?thesis using st w False by (intro exI [of _ s'] conjI converse_rtranclp_into_rtranclp [where r = "lock_step api n", OF st]) auto
  qed
qed

lemma wake_steps:
  assumes p: "sy_pc s t = U_wake f b k" and l: "sy_qlock s (folio_waitqueue api f) = None"
    and k: "wake_if False f b k (folio_wake_bit api f b (sy_fl s)) = (p', fl')"
  shows "\<exists>s'. (lock_step api n)\<^sup>*\<^sup>* s s' \<and> sy_fl s' = fl' \<and> sy_pc s' = (sy_pc s)(t := p') \<and>
    sy_qlock s' = sy_qlock s \<and> sy_held s' = sy_held s"
proof -
  let ?h = "folio_waitqueue api f" and ?q = "fl_queue (sy_fl s) (folio_waitqueue api f)"
  let ?s = "q_lock ?h (Some t) (at t (U_walk f b k ?q False) (sy_fl s) s)"
  obtain m fl where w: "wake_walk api ?q f b False (sy_fl s) = (m, fl)" by (cases "wake_walk api ?q f b False (sy_fl s)")
  have st: "lock_step api n s ?s" by (rule lock_step.wake [OF p refl l])
  obtain s1 where s1: "(lock_step api n)\<^sup>*\<^sup>* ?s s1" "sy_fl s1 = fl" "sy_pc s1 = (sy_pc s)(t := U_end f b k m)"
    "sy_qlock s1 = (sy_qlock s)(?h := Some t)" "sy_held s1 = sy_held s"
    using walk_steps [of ?s t f b k ?q False api n] by (auto simp: sy_defs w)
  have "wake_if False f b k (wake_end api f m fl) = (p', fl')" using k by (simp add: folio_wake_bit_def w)
  then have "lock_step api n s1 (q_lock ?h None (at t p' fl' s1))"
    using s1(2,3) by (intro lock_step.woken [of s1 t f b k m]) auto
  then have "(lock_step api n)\<^sup>*\<^sup>* s (q_lock ?h None (at t p' fl' s1))"
    using converse_rtranclp_into_rtranclp [OF st s1(1)] by (rule rtranclp.rtrancl_into_rtrancl [rotated])
  then show ?thesis using s1 l by (intro exI [of _ "q_lock ?h None (at t p' fl' s1)"]) (auto simp: sy_defs)
qed

text \<open>
  Run alone, the steps of a task that unlocks a folio, queue by queue entry, do what \<open>folio_unlock\<close> does as
  one function: the flags, the queue, the woken entries and the hand-over are its result, and the task and every
  lock of a queue are as before.
\<close>

theorem folio_unlock_steps:
  assumes "sy_pc s t = Idle" and "f \<in> sy_held s t" and "sy_qlock s (folio_waitqueue api f) = None"
  shows "\<exists>s'. (lock_step api n)\<^sup>*\<^sup>* s s' \<and> sy_fl s' = folio_unlock api f (sy_fl s) \<and> sy_pc s' = sy_pc s \<and>
    sy_qlock s' = sy_qlock s \<and> sy_held s' = (sy_held s)(t := sy_held s t - {f})"
proof -
  obtain w fl where x: "xor_flags api f {PG_locked} (sy_fl s) = (w, fl)" by (cases "xor_flags api f {PG_locked} (sy_fl s)")
  let ?p = "if w then U_wake f PG_locked K_return else Idle"
  let ?s = "disown t f (at t ?p fl s)"
  have st: "lock_step api n s ?s"
    by (rule lock_step.unlock [OF assms(1,2) disjI1 [OF refl] x]) (simp add: wake_if_def)
  show ?thesis
  proof (cases w)
    case False
    then show ?thesis using st assms(1) x
      by (intro exI [of _ ?s] conjI r_into_rtranclp) (auto simp: sy_defs folio_unlock_def)
  next
    case True
    obtain s' where s': "(lock_step api n)\<^sup>*\<^sup>* ?s s'" "sy_fl s' = folio_wake_bit api f PG_locked fl"
      "sy_pc s' = (sy_pc ?s)(t := Idle)" "sy_qlock s' = sy_qlock ?s" "sy_held s' = sy_held ?s"
      using wake_steps [of ?s t f PG_locked K_return api Idle "folio_wake_bit api f PG_locked fl" n] True assms(3)
      by (auto simp: sy_defs wake_if_def)
    then show ?thesis using True assms(1) x
      by (intro exI [of _ s'] conjI converse_rtranclp_into_rtranclp [where r = "lock_step api n", OF st]) (auto simp: sy_defs folio_unlock_def)
  qed
qed

theorem folio_unlock_steps_witness:
  "\<exists>s s'. 7 \<in> sy_held s 0 \<and> (lock_step demo_papi 5)\<^sup>*\<^sup>* s s' \<and> sy_fl s' = folio_unlock demo_papi 7 (sy_fl s) \<and> 7 \<notin> sy_held s' 0"
proof -
  obtain s :: locks where s: "sy_pc s 0 = Idle" "7 \<in> sy_held s 0" "sy_qlock s (folio_waitqueue demo_papi 7) = None"
  proof -
    have "case run demo_papi 5 (take 4 waiter_run) demo_locks of
        None \<Rightarrow> False | Some s \<Rightarrow> sy_pc s 0 = Idle \<and> 7 \<in> sy_held s 0 \<and> sy_qlock s (folio_waitqueue demo_papi 7) = None"
      by code_simp
    then show ?thesis using that by (auto split: option.splits)
  qed
  from folio_unlock_steps [OF s, of 5] obtain s' where
    "(lock_step demo_papi 5)\<^sup>*\<^sup>* s s'" "sy_fl s' = folio_unlock demo_papi 7 (sy_fl s)" "7 \<notin> sy_held s' 0" by auto
  then show ?thesis using s(2) by blast
qed

end
