(* ===== verification/TagSet.thy ===== *)
theory TagSet
  imports Prelude
begin

text \<open>
  Tag sets (\<open>readaround-split/src/block/blk-mq.c\<close>): the tags and requests of the hardware queues, allocated in
  page blocks of falling size, with the unwinding of every failure, the halving of the depth when memory is
  short, and the tag set as a whole with its release. The state is the tag set and what it has allocated: the
  live tags by their address, the requests that the driver has initialised, and the other resources. Memory
  allocation, the driver's operations and the CPU maps are the record \<open>tapi\<close>. Sizes in bytes are natural
  numbers; a tag set has at most 10240 tags per queue. Freeing tags frees their pages.
\<close>

section \<open>State\<close>

datatype set_flag = BLK_MQ_F_TAG_QUEUE_SHARED | BLK_MQ_F_TAG_HCTX_SHARED | BLK_MQ_F_BLOCKING

text \<open>\<open>tg_static\<close> holds the addresses of the requests, \<open>tg_pages\<close> the address and order of each page block.\<close>

record blk_mq_tags =
  tg_nr :: nat
  tg_reserved :: nat
  tg_rqs :: "nat option list"
  tg_static :: "nat option list"
  tg_pages :: "(nat \<times> nat) list"

record blk_mq_queue_map =
  qm_map :: "nat list option"
  qm_nr_queues :: nat
  qm_queue_offset :: nat

datatype resource = Srcu_memory | Srcu | Tags_srcu | Tags_array | Mq_map nat

record 'e tset =
  ts_nr_hw_queues :: nat
  ts_queue_depth :: nat
  ts_reserved_tags :: nat
  ts_nr_maps :: nat
  ts_map :: "blk_mq_queue_map list"
  ts_flags :: "set_flag set"
  ts_tags :: "nat option list option"
  ts_shared_tags :: "nat option"
  ts_heap :: "nat \<rightharpoonup> blk_mq_tags"
  ts_next :: nat
  ts_inited :: "nat list"
  ts_res :: "resource list"
  ts_env :: 'e

record 'e tapi =
  t_page_size :: nat
  t_rq_size :: nat
  t_nr_cpu_ids :: nat
  t_set_node :: int
  t_node :: "blk_mq_queue_map \<Rightarrow> nat option \<Rightarrow> int option"
  t_init_tags :: "nat \<Rightarrow> nat \<Rightarrow> int \<Rightarrow> 'e \<Rightarrow> bool \<times> 'e"
  t_kcalloc :: "nat \<Rightarrow> int \<Rightarrow> 'e \<Rightarrow> bool \<times> 'e"
  t_alloc_pages :: "int \<Rightarrow> nat \<Rightarrow> 'e \<Rightarrow> nat option \<times> 'e"
  t_init_request :: "(nat \<Rightarrow> nat option \<Rightarrow> int \<Rightarrow> 'e \<Rightarrow> int \<times> 'e) option"
  t_exit_request :: "(nat \<Rightarrow> nat option \<Rightarrow> 'e \<Rightarrow> 'e) option"
  t_map_queues :: "('e tset \<Rightarrow> blk_mq_queue_map list) option"
  t_clear_map :: "blk_mq_queue_map \<Rightarrow> blk_mq_queue_map"
  t_default_map :: "blk_mq_queue_map \<Rightarrow> blk_mq_queue_map"
  t_has_queue_rq :: bool
  t_has_get_budget :: bool
  t_has_put_budget :: bool
  t_kdump :: bool
  t_TAG_MIN :: nat
  t_MAX_DEPTH :: nat
  t_MAX_TYPES :: nat
  t_alloc_res :: "resource \<Rightarrow> 'e \<Rightarrow> int \<times> 'e"

definition t_ENOMEM :: int where "t_ENOMEM = 12"
definition t_EINVAL :: int where "t_EINVAL = 22"

definition HCTX_TYPE_DEFAULT :: nat where "HCTX_TYPE_DEFAULT = 0"

definition blk_mq_is_shared_tags :: "'e tset \<Rightarrow> bool" where
  "blk_mq_is_shared_tags s \<longleftrightarrow> BLK_MQ_F_TAG_HCTX_SHARED \<in> ts_flags s"

definition upd_tags :: "nat \<Rightarrow> (blk_mq_tags \<Rightarrow> blk_mq_tags) \<Rightarrow> 'e tset \<Rightarrow> 'e tset" where
  "upd_tags t f s = (case ts_heap s t of None \<Rightarrow> s | Some tg \<Rightarrow> s\<lparr>ts_heap := (ts_heap s)(t \<mapsto> f tg)\<rparr>)"

definition order_to_size :: "'e tapi \<Rightarrow> nat \<Rightarrow> nat" where
  "order_to_size api order = t_page_size api * 2 ^ order"

section \<open>Freeing\<close>

definition in_page :: "'e tapi \<Rightarrow> nat \<Rightarrow> nat \<times> nat \<Rightarrow> bool" where
  "in_page api a pg \<longleftrightarrow> fst pg \<le> a \<and> a < fst pg + order_to_size api (snd pg)"

definition blk_mq_clear_rq_mapping :: "'e tapi \<Rightarrow> nat option \<Rightarrow> nat \<Rightarrow> 'e tset \<Rightarrow> 'e tset" where
  "blk_mq_clear_rq_mapping api drv t s =
     (case drv of
        None \<Rightarrow> s
      | Some d \<Rightarrow>
          if d = t then s
          else case ts_heap s t of
                 None \<Rightarrow> s
               | Some tg \<Rightarrow>
                   upd_tags d (\<lambda>dt. dt\<lparr>tg_rqs := map (\<lambda>r. case r of
                       None \<Rightarrow> None | Some a \<Rightarrow> if list_ex (in_page api a) (tg_pages tg) then None else Some a) (tg_rqs dt)\<rparr>) s)"

text \<open>\<open>exit_request\<close> on the requests of an array of tags; the driver forgets the request.\<close>

fun exit_rqs :: "'e tapi \<Rightarrow> (nat \<Rightarrow> nat option \<Rightarrow> 'e \<Rightarrow> 'e) \<Rightarrow> nat option \<Rightarrow> nat option list \<Rightarrow> 'e tset \<Rightarrow> 'e tset" where
  "exit_rqs api f idx [] s = s"
| "exit_rqs api f idx (None # rs) s = exit_rqs api f idx rs s"
| "exit_rqs api f idx (Some a # rs) s =
     exit_rqs api f idx rs (s\<lparr>ts_env := f a idx (ts_env s), ts_inited := remove1 a (ts_inited s)\<rparr>)"

definition drv_tags :: "nat option \<Rightarrow> 'e tset \<Rightarrow> nat option" where
  "drv_tags idx s =
     (if blk_mq_is_shared_tags s then ts_shared_tags s
      else case (idx, ts_tags s) of (Some i, Some ts) \<Rightarrow> if i < length ts then ts ! i else None | _ \<Rightarrow> None)"

definition blk_mq_free_rqs :: "'e tapi \<Rightarrow> nat \<Rightarrow> nat option \<Rightarrow> 'e tset \<Rightarrow> 'e tset" where
  "blk_mq_free_rqs api t idx s =
     (case ts_heap s t of
        None \<Rightarrow> s
      | Some tg \<Rightarrow>
          if tg_pages tg = [] then s
          else blk_mq_clear_rq_mapping api (drv_tags idx s) t
                 (case t_exit_request api of
                    None \<Rightarrow> s
                  | Some f \<Rightarrow> upd_tags t (\<lambda>g. g\<lparr>tg_static := map (\<lambda>_. None) (tg_static g)\<rparr>) (exit_rqs api f idx (tg_static tg) s)))"

definition blk_mq_free_rq_map :: "nat \<Rightarrow> 'e tset \<Rightarrow> 'e tset" where
  "blk_mq_free_rq_map t s = s\<lparr>ts_heap := (ts_heap s)(t := None)\<rparr>"

definition blk_mq_free_map_and_rqs :: "'e tapi \<Rightarrow> nat option \<Rightarrow> nat option \<Rightarrow> 'e tset \<Rightarrow> 'e tset" where
  "blk_mq_free_map_and_rqs api tags idx s =
     (case tags of None \<Rightarrow> s | Some t \<Rightarrow> blk_mq_free_rq_map t (blk_mq_free_rqs api t idx s))"

definition set_tags_at :: "nat \<Rightarrow> nat option \<Rightarrow> 'e tset \<Rightarrow> 'e tset" where
  "set_tags_at i t s = s\<lparr>ts_tags := map_option (\<lambda>ts. ts[i := t]) (ts_tags s)\<rparr>"

definition tags_at :: "nat \<Rightarrow> 'e tset \<Rightarrow> nat option" where
  "tags_at i s = (case ts_tags s of Some ts \<Rightarrow> if i < length ts then ts ! i else None | None \<Rightarrow> None)"

definition free_map_and_rqs_at :: "'e tapi \<Rightarrow> nat \<Rightarrow> 'e tset \<Rightarrow> 'e tset" where
  "free_map_and_rqs_at api i s =
     set_tags_at i None (if blk_mq_is_shared_tags s then s else blk_mq_free_map_and_rqs api (tags_at i s) (Some i) s)"

section \<open>Allocating\<close>

fun find_type :: "blk_mq_queue_map list \<Rightarrow> nat \<Rightarrow> nat \<Rightarrow> nat option" where
  "find_type [] i h = None"
| "find_type (q # qs) i h =
     (if qm_queue_offset q \<le> h \<and> h < qm_queue_offset q + qm_nr_queues q then Some i else find_type qs (Suc i) h)"

text \<open>\<open>None\<close> is \<open>BLK_MQ_NO_HCTX_IDX\<close>, which lies in no range of queues.\<close>

definition hctx_idx_to_type :: "nat option \<Rightarrow> 'e tset \<Rightarrow> nat" where
  "hctx_idx_to_type idx s =
     (case idx of
        None \<Rightarrow> HCTX_TYPE_DEFAULT
      | Some h \<Rightarrow> (case find_type (take (ts_nr_maps s) (ts_map s)) 0 h of None \<Rightarrow> HCTX_TYPE_DEFAULT | Some i \<Rightarrow> i))"

definition blk_mq_get_hctx_node :: "'e tapi \<Rightarrow> nat option \<Rightarrow> 'e tset \<Rightarrow> int" where
  "blk_mq_get_hctx_node api idx s =
     (case t_node api (ts_map s ! hctx_idx_to_type idx s) idx of None \<Rightarrow> t_set_node api | Some n \<Rightarrow> n)"

definition kcalloc :: "'e tapi \<Rightarrow> nat \<Rightarrow> int \<Rightarrow> 'e tset \<Rightarrow> bool \<times> 'e tset" where
  "kcalloc api n node s = (case t_kcalloc api n node (ts_env s) of (ok, e) \<Rightarrow> (ok, s\<lparr>ts_env := e\<rparr>))"

definition blk_mq_alloc_rq_map :: "'e tapi \<Rightarrow> nat option \<Rightarrow> nat \<Rightarrow> nat \<Rightarrow> 'e tset \<Rightarrow> nat option \<times> 'e tset" where
  "blk_mq_alloc_rq_map api idx nr reserved s =
     (let node = blk_mq_get_hctx_node api idx s in
      case t_init_tags api nr reserved node (ts_env s) of
        (ok, e) \<Rightarrow>
          if \<not> ok then (None, s\<lparr>ts_env := e\<rparr>)
          else let t = ts_next s;
                   s1 = s\<lparr>ts_env := e, ts_next := Suc t,
                          ts_heap := (ts_heap s)(t \<mapsto> \<lparr>tg_nr = nr, tg_reserved = reserved, tg_rqs = [], tg_static = [], tg_pages = []\<rparr>)\<rparr>
               in case kcalloc api nr node s1 of
                    (False, s2) \<Rightarrow> (None, blk_mq_free_rq_map t s2)
                  | (True, s2) \<Rightarrow>
                      let s3 = upd_tags t (\<lambda>g. g\<lparr>tg_rqs := replicate nr None\<rparr>) s2
                      in case kcalloc api nr node s3 of
                           (False, s4) \<Rightarrow> (None, blk_mq_free_rq_map t s4)
                         | (True, s4) \<Rightarrow> (Some t, upd_tags t (\<lambda>g. g\<lparr>tg_static := replicate nr None\<rparr>) s4))"

definition blk_mq_init_request :: "'e tapi \<Rightarrow> nat \<Rightarrow> nat option \<Rightarrow> int \<Rightarrow> 'e tset \<Rightarrow> int \<times> 'e tset" where
  "blk_mq_init_request api a idx node s =
     (case t_init_request api of
        None \<Rightarrow> (0, s\<lparr>ts_inited := a # ts_inited s\<rparr>)
      | Some f \<Rightarrow>
          (case f a idx node (ts_env s) of
             (ret, e) \<Rightarrow> if ret \<noteq> 0 then (ret, s\<lparr>ts_env := e\<rparr>) else (0, s\<lparr>ts_env := e, ts_inited := a # ts_inited s\<rparr>)))"

fun pick_order :: "'e tapi \<Rightarrow> nat \<Rightarrow> nat \<Rightarrow> nat" where
  "pick_order api left 0 = 0"
| "pick_order api left (Suc k) = (if left < order_to_size api k then pick_order api left k else Suc k)"

fun try_pages :: "'e tapi \<Rightarrow> int \<Rightarrow> nat \<Rightarrow> nat \<Rightarrow> 'e \<Rightarrow> (nat \<times> nat) option \<times> 'e" where
  "try_pages api node rq_size 0 e =
     (case t_alloc_pages api node 0 e of (Some a, e1) \<Rightarrow> (Some (a, 0), e1) | (None, e1) \<Rightarrow> (None, e1))"
| "try_pages api node rq_size (Suc k) e =
     (case t_alloc_pages api node (Suc k) e of
        (Some a, e1) \<Rightarrow> (Some (a, Suc k), e1)
      | (None, e1) \<Rightarrow> if order_to_size api k < rq_size then (None, e1) else try_pages api node rq_size k e1)"

fun init_rqs :: "'e tapi \<Rightarrow> nat \<Rightarrow> nat option \<Rightarrow> int \<Rightarrow> nat \<Rightarrow> nat \<Rightarrow> nat \<Rightarrow> nat \<Rightarrow> 'e tset \<Rightarrow> bool \<times> 'e tset" where
  "init_rqs api t idx node rq_size 0 i p s = (True, s)"
| "init_rqs api t idx node rq_size (Suc n) i p s =
     (case blk_mq_init_request api p idx node s of
        (ret, s1) \<Rightarrow>
          if ret \<noteq> 0 then (False, s1)
          else init_rqs api t idx node rq_size n (Suc i) (p + rq_size) (upd_tags t (\<lambda>g. g\<lparr>tg_static := (tg_static g)[i := Some p]\<rparr>) s1))"

definition max_order :: nat where "max_order = 4"

definition add_page :: "nat \<Rightarrow> nat \<times> nat \<Rightarrow> 'e tset \<Rightarrow> 'e tset" where
  "add_page t b s = upd_tags t (\<lambda>g. g\<lparr>tg_pages := tg_pages g @ [b]\<rparr>) s"

definition to_do :: "'e tapi \<Rightarrow> nat \<Rightarrow> nat \<Rightarrow> nat \<Rightarrow> nat \<Rightarrow> nat" where
  "to_do api rq_size depth i order =
     (let entries_per_page = order_to_size api order div rq_size in min entries_per_page (depth - i))"

partial_function (option) rqs_loop ::
  "'e tapi \<Rightarrow> nat \<Rightarrow> nat option \<Rightarrow> int \<Rightarrow> nat \<Rightarrow> nat \<Rightarrow> nat \<Rightarrow> nat \<Rightarrow> 'e tset \<Rightarrow> (bool \<times> 'e tset) option" where
  "rqs_loop api t idx node rq_size depth i left s =
     (if \<not> i < depth then Some (True, s)
      else case try_pages api node rq_size (pick_order api left max_order) (ts_env s) of
             (pg, e) \<Rightarrow>
               (case pg of
                  None \<Rightarrow> Some (False, s\<lparr>ts_env := e\<rparr>)
                | Some b \<Rightarrow>
                    (case init_rqs api t idx node rq_size (to_do api rq_size depth i (snd b)) i (fst b) (add_page t b (s\<lparr>ts_env := e\<rparr>)) of
                       (ok, s2) \<Rightarrow>
                         if \<not> ok then Some (False, s2)
                         else rqs_loop api t idx node rq_size depth (i + to_do api rq_size depth i (snd b))
                                (left - to_do api rq_size depth i (snd b) * rq_size) s2)))"

declare rqs_loop.simps [code]

definition blk_mq_alloc_rqs :: "'e tapi \<Rightarrow> nat \<Rightarrow> nat option \<Rightarrow> nat \<Rightarrow> 'e tset \<Rightarrow> (int \<times> 'e tset) option" where
  "blk_mq_alloc_rqs api t idx depth s =
     (let node = blk_mq_get_hctx_node api idx s; rq_size = t_rq_size api in
      case rqs_loop api t idx node rq_size depth 0 (rq_size * depth) s of
        None \<Rightarrow> None
      | Some (True, s1) \<Rightarrow> Some (0, s1)
      | Some (False, s1) \<Rightarrow> Some (- t_ENOMEM, blk_mq_free_rqs api t idx s1))"

definition blk_mq_alloc_map_and_rqs :: "'e tapi \<Rightarrow> nat option \<Rightarrow> nat \<Rightarrow> 'e tset \<Rightarrow> (nat option \<times> 'e tset) option" where
  "blk_mq_alloc_map_and_rqs api idx depth s =
     (case blk_mq_alloc_rq_map api idx depth (ts_reserved_tags s) s of
        (None, s1) \<Rightarrow> Some (None, s1)
      | (Some t, s1) \<Rightarrow>
          (case blk_mq_alloc_rqs api t idx depth s1 of
             None \<Rightarrow> None
           | Some (ret, s2) \<Rightarrow> if ret \<noteq> 0 then Some (None, blk_mq_free_rq_map t s2) else Some (Some t, s2)))"

definition alloc_map_and_rqs_at :: "'e tapi \<Rightarrow> nat \<Rightarrow> 'e tset \<Rightarrow> (bool \<times> 'e tset) option" where
  "alloc_map_and_rqs_at api i s =
     (if blk_mq_is_shared_tags s then Some (True, set_tags_at i (ts_shared_tags s) s)
      else case blk_mq_alloc_map_and_rqs api (Some i) (ts_queue_depth s) s of
             None \<Rightarrow> None
           | Some (t, s1) \<Rightarrow> Some (t \<noteq> None, set_tags_at i t s1))"

section \<open>The maps of a set\<close>

fun rq_maps_unwind :: "'e tapi \<Rightarrow> nat \<Rightarrow> 'e tset \<Rightarrow> 'e tset" where
  "rq_maps_unwind api 0 s = s"
| "rq_maps_unwind api (Suc i) s = rq_maps_unwind api i (free_map_and_rqs_at api i s)"

text \<open>The loop from queue \<open>i\<close> with \<open>n\<close> queues to go; its unwinding frees the queues before the one that failed.\<close>

fun rq_maps_loop :: "'e tapi \<Rightarrow> nat \<Rightarrow> nat \<Rightarrow> 'e tset \<Rightarrow> (int \<times> 'e tset) option" where
  "rq_maps_loop api 0 i s = Some (0, s)"
| "rq_maps_loop api (Suc n) i s =
     (case alloc_map_and_rqs_at api i s of
        None \<Rightarrow> None
      | Some (ok, s1) \<Rightarrow>
          if ok then rq_maps_loop api n (Suc i) s1
          else let s2 = rq_maps_unwind api i s1
               in Some (- t_ENOMEM, if blk_mq_is_shared_tags s2 then blk_mq_free_map_and_rqs api (ts_shared_tags s2) None s2 else s2))"

definition alloc_rq_maps :: "'e tapi \<Rightarrow> 'e tset \<Rightarrow> (int \<times> 'e tset) option" where
  "alloc_rq_maps api s =
     (if blk_mq_is_shared_tags s
      then case blk_mq_alloc_map_and_rqs api None (ts_queue_depth s) s of
             None \<Rightarrow> None
           | Some (t, s1) \<Rightarrow>
               let s2 = s1\<lparr>ts_shared_tags := t\<rparr>
               in if t = None then Some (- t_ENOMEM, s2) else rq_maps_loop api (ts_nr_hw_queues s2) 0 s2
      else rq_maps_loop api (ts_nr_hw_queues s) 0 s)"

text \<open>The depth is halved until the maps fit.\<close>

function halve_loop :: "'e tapi \<Rightarrow> 'e tset \<Rightarrow> nat \<Rightarrow> (int \<times> 'e tset) option" where
  "halve_loop api s depth =
     (case alloc_rq_maps api (s\<lparr>ts_queue_depth := depth\<rparr>) of
        None \<Rightarrow> None
      | Some (err, s1) \<Rightarrow>
          if err = 0 then Some (0, s1)
          else let d = depth div 2; s2 = s1\<lparr>ts_queue_depth := d\<rparr>
               in if d < ts_reserved_tags s2 + t_TAG_MIN api then Some (- t_ENOMEM, s2)
                  else if d = 0 then Some (err, s2)
                  else halve_loop api s2 d)"
  by pat_completeness auto
termination
  by (relation "measure (\<lambda>(api, s, depth). depth)") auto

definition blk_mq_alloc_set_map_and_rqs :: "'e tapi \<Rightarrow> 'e tset \<Rightarrow> (int \<times> 'e tset) option" where
  "blk_mq_alloc_set_map_and_rqs api s =
     (case halve_loop api s (ts_queue_depth s) of
        None \<Rightarrow> None
      | Some (err, s1) \<Rightarrow> if ts_queue_depth s1 = 0 \<or> err \<noteq> 0 then Some (- t_ENOMEM, s1) else Some (0, s1))"

text \<open>
  \<open>blk_mq_clear_mq_map\<close> and the mapping functions of the drivers and of \<open>blk-mq-cpumap.c\<close> are given; the
  check that a driver without a mapping function has one map only is a premise of the theorems.
\<close>

definition blk_mq_update_queue_map :: "'e tapi \<Rightarrow> 'e tset \<Rightarrow> 'e tset" where
  "blk_mq_update_queue_map api s =
     (let m1 = (if ts_nr_maps s = 1 then (ts_map s)[HCTX_TYPE_DEFAULT := (ts_map s ! HCTX_TYPE_DEFAULT)\<lparr>qm_nr_queues := ts_nr_hw_queues s\<rparr>]
                else ts_map s);
          s1 = s\<lparr>ts_map := m1\<rparr>
      in case t_map_queues api of
           Some f \<Rightarrow>
             let cleared = map (t_clear_map api) (take (ts_nr_maps s) m1) @ drop (ts_nr_maps s) m1;
                 s2 = s1\<lparr>ts_map := cleared\<rparr>
             in s2\<lparr>ts_map := f s2\<rparr>
         | None \<Rightarrow> s1\<lparr>ts_map := m1[HCTX_TYPE_DEFAULT := t_default_map api (m1 ! HCTX_TYPE_DEFAULT)]\<rparr>)"

text \<open>New tags for the queues from \<open>i\<close>, in an array of its own.\<close>

fun prealloc_unwind :: "'e tapi \<Rightarrow> nat option list \<Rightarrow> nat \<Rightarrow> nat \<Rightarrow> 'e tset \<Rightarrow> 'e tset" where
  "prealloc_unwind api new lo 0 s = s"
| "prealloc_unwind api new lo (Suc i) s =
     (if i < lo then s
      else prealloc_unwind api new lo i (if blk_mq_is_shared_tags s then s else blk_mq_free_map_and_rqs api (new ! i) (Some i) s))"

fun prealloc_loop :: "'e tapi \<Rightarrow> nat \<Rightarrow> nat \<Rightarrow> nat option list \<Rightarrow> 'e tset \<Rightarrow> (nat option list option \<times> 'e tset) option" where
  "prealloc_loop api 0 i new s = Some (Some new, s)"
| "prealloc_loop api (Suc n) i new s =
     (if blk_mq_is_shared_tags s then prealloc_loop api n (Suc i) (new[i := ts_shared_tags s]) s
      else case blk_mq_alloc_map_and_rqs api (Some i) (ts_queue_depth s) s of
             None \<Rightarrow> None
           | Some (None, s1) \<Rightarrow>
               let s2 = prealloc_unwind api new (ts_nr_hw_queues s1) i s1 in Some (None, s2\<lparr>ts_res := remove1 Tags_array (ts_res s2)\<rparr>)
           | Some (Some t, s1) \<Rightarrow> prealloc_loop api n (Suc i) (new[i := Some t]) s1)"

datatype prealloc = No_tags | Failed int | New_tags "nat option list"

definition take_res :: "'e tapi \<Rightarrow> resource \<Rightarrow> 'e tset \<Rightarrow> int \<times> 'e tset" where
  "take_res api r s =
     (case t_alloc_res api r (ts_env s) of
        (ret, e) \<Rightarrow> if ret \<noteq> 0 then (ret, s\<lparr>ts_env := e\<rparr>) else (0, s\<lparr>ts_env := e, ts_res := r # ts_res s\<rparr>))"

definition drop_res :: "resource \<Rightarrow> 'e tset \<Rightarrow> 'e tset" where
  "drop_res r s = s\<lparr>ts_res := remove1 r (ts_res s)\<rparr>"

definition blk_mq_prealloc_tag_set_tags :: "'e tapi \<Rightarrow> nat \<Rightarrow> 'e tset \<Rightarrow> (prealloc \<times> 'e tset) option" where
  "blk_mq_prealloc_tag_set_tags api n s =
     (if n \<le> ts_nr_hw_queues s then Some (No_tags, s)
      else case take_res api Tags_array s of
             (ret, s1) \<Rightarrow>
               if ret \<noteq> 0 then Some (Failed (- t_ENOMEM), s1)
               else let old = (case ts_tags s1 of None \<Rightarrow> replicate n None
                               | Some ts \<Rightarrow> take (ts_nr_hw_queues s1) ts @ replicate (n - ts_nr_hw_queues s1) None)
                    in case prealloc_loop api (n - ts_nr_hw_queues s1) (ts_nr_hw_queues s1) old s1 of
                         None \<Rightarrow> None
                       | Some (None, s2) \<Rightarrow> Some (Failed (- t_ENOMEM), s2)
                       | Some (Some new, s2) \<Rightarrow> Some (New_tags new, s2))"

section \<open>The tag set\<close>

definition alloc_checks :: "'e tapi \<Rightarrow> 'e tset \<Rightarrow> bool" where
  "alloc_checks api s \<longleftrightarrow>
     ts_nr_hw_queues s \<noteq> 0 \<and> ts_queue_depth s \<noteq> 0 \<and> \<not> ts_queue_depth s < ts_reserved_tags s + t_TAG_MIN api \<and>
     t_has_queue_rq api \<and> t_has_get_budget api = t_has_put_budget api"

definition alloc_adjust :: "'e tapi \<Rightarrow> 'e tset \<Rightarrow> 'e tset option" where
  "alloc_adjust api s0 =
     (let s1 = s0\<lparr>ts_queue_depth := min (ts_queue_depth s0) (t_MAX_DEPTH api)\<rparr> in
      if ts_nr_maps s1 > t_MAX_TYPES api then None
      else let s2 = (if ts_nr_maps s1 = 0 then s1\<lparr>ts_nr_maps := 1\<rparr> else s1);
               s3 = (if t_kdump api then s2\<lparr>ts_queue_depth := min 64 (ts_queue_depth s2)\<rparr> else s2)
           in Some (if ts_nr_maps s3 = 1 \<and> ts_nr_hw_queues s3 > t_nr_cpu_ids api then s3\<lparr>ts_nr_hw_queues := t_nr_cpu_ids api\<rparr> else s3))"

text \<open>The labels at the end of \<open>blk_mq_alloc_tag_set\<close>, from the last one up.\<close>

definition out_free_srcu :: "'e tset \<Rightarrow> 'e tset" where
  "out_free_srcu s = (if BLK_MQ_F_BLOCKING \<in> ts_flags s then drop_res Srcu_memory s else s)"

definition out_cleanup_srcu :: "'e tset \<Rightarrow> 'e tset" where
  "out_cleanup_srcu s = out_free_srcu (if BLK_MQ_F_BLOCKING \<in> ts_flags s then drop_res Srcu s else s)"

definition out_cleanup_tags_srcu :: "'e tset \<Rightarrow> 'e tset" where
  "out_cleanup_tags_srcu s = out_cleanup_srcu (drop_res Tags_srcu s)"

fun free_mq_maps :: "nat \<Rightarrow> nat \<Rightarrow> 'e tset \<Rightarrow> 'e tset" where
  "free_mq_maps 0 i s = s"
| "free_mq_maps (Suc n) i s =
     free_mq_maps n (Suc i)
       (if qm_map (ts_map s ! i) = None then s
        else (drop_res (Mq_map i) s)\<lparr>ts_map := (ts_map s)[i := (ts_map s ! i)\<lparr>qm_map := None\<rparr>]\<rparr>)"

definition out_free_mq_map :: "'e tset \<Rightarrow> 'e tset" where
  "out_free_mq_map s = out_cleanup_tags_srcu ((drop_res Tags_array (free_mq_maps (ts_nr_maps s) 0 s))\<lparr>ts_tags := None\<rparr>)"

fun alloc_mq_maps :: "'e tapi \<Rightarrow> nat \<Rightarrow> nat \<Rightarrow> 'e tset \<Rightarrow> bool \<times> 'e tset" where
  "alloc_mq_maps api 0 i s = (True, s)"
| "alloc_mq_maps api (Suc n) i s =
     (case take_res api (Mq_map i) s of
        (ret, s1) \<Rightarrow>
          if ret \<noteq> 0 then (False, s1)
          else alloc_mq_maps api n (Suc i)
                 (s1\<lparr>ts_map := (ts_map s1)[i := (ts_map s1 ! i)\<lparr>qm_map := Some (replicate (t_nr_cpu_ids api) 0), qm_nr_queues := ts_nr_hw_queues s1\<rparr>]\<rparr>))"

definition alloc_srcu :: "'e tapi \<Rightarrow> 'e tset \<Rightarrow> int \<times> 'e tset" where
  "alloc_srcu api s =
     (if BLK_MQ_F_BLOCKING \<notin> ts_flags s then (0, s)
      else case take_res api Srcu_memory s of
             (ret, s1) \<Rightarrow>
               if ret \<noteq> 0 then (- t_ENOMEM, s1)
               else (case take_res api Srcu s1 of (ret2, s2) \<Rightarrow> if ret2 \<noteq> 0 then (ret2, out_free_srcu s2) else (0, s2)))"

definition blk_mq_alloc_tag_set :: "'e tapi \<Rightarrow> 'e tset \<Rightarrow> (int \<times> 'e tset) option" where
  "blk_mq_alloc_tag_set api s0 =
     (if \<not> alloc_checks api s0 then Some (- t_EINVAL, s0)
      else case alloc_adjust api s0 of
             None \<Rightarrow> Some (- t_EINVAL, s0\<lparr>ts_queue_depth := min (ts_queue_depth s0) (t_MAX_DEPTH api)\<rparr>)
           | Some s \<Rightarrow>
               (case alloc_srcu api s of
                  (ret, s1) \<Rightarrow>
                    if ret \<noteq> 0 then Some (ret, s1)
                    else case take_res api Tags_srcu s1 of
                           (ret, s2) \<Rightarrow>
                             if ret \<noteq> 0 then Some (ret, out_cleanup_srcu s2)
                             else case take_res api Tags_array s2 of
                                    (ret, s3) \<Rightarrow>
                                      if ret \<noteq> 0 then Some (- t_ENOMEM, out_cleanup_tags_srcu s3)
                                      else case alloc_mq_maps api (ts_nr_maps s3) 0 (s3\<lparr>ts_tags := Some (replicate (ts_nr_hw_queues s3) None)\<rparr>) of
                                             (ok, s4) \<Rightarrow>
                                               if \<not> ok then Some (- t_ENOMEM, out_free_mq_map s4)
                                               else case blk_mq_alloc_set_map_and_rqs api (blk_mq_update_queue_map api s4) of
                                                      None \<Rightarrow> None
                                                    | Some (ret, s5) \<Rightarrow>
                                                        if ret \<noteq> 0 then Some (ret, out_free_mq_map s5) else Some (0, s5)))"

text \<open>\<open>memset\<close> clears the fields of the set, which leaves the system around it as it is.\<close>

definition blk_mq_alloc_sq_tag_set :: "'e tapi \<Rightarrow> nat \<Rightarrow> set_flag set \<Rightarrow> 'e tset \<Rightarrow> (int \<times> 'e tset) option" where
  "blk_mq_alloc_sq_tag_set api queue_depth set_flags s =
     blk_mq_alloc_tag_set (api\<lparr>t_set_node := - 1\<rparr>)
       (s\<lparr>ts_nr_hw_queues := 1, ts_queue_depth := queue_depth, ts_reserved_tags := 0, ts_nr_maps := 1,
          ts_map := replicate (t_MAX_TYPES api) \<lparr>qm_map = None, qm_nr_queues = 0, qm_queue_offset = 0\<rparr>,
          ts_flags := set_flags, ts_tags := None, ts_shared_tags := None\<rparr>)"

fun free_set_tags :: "'e tapi \<Rightarrow> nat \<Rightarrow> nat \<Rightarrow> 'e tset \<Rightarrow> 'e tset" where
  "free_set_tags api 0 i s = s"
| "free_set_tags api (Suc n) i s = free_set_tags api n (Suc i) (free_map_and_rqs_at api i s)"

definition blk_mq_free_tag_set :: "'e tapi \<Rightarrow> 'e tset \<Rightarrow> 'e tset" where
  "blk_mq_free_tag_set api s =
     (let s1 = free_set_tags api (ts_nr_hw_queues s) 0 s;
          s2 = (if blk_mq_is_shared_tags s1 then blk_mq_free_map_and_rqs api (ts_shared_tags s1) None s1 else s1);
          s3 = (drop_res Tags_array (free_mq_maps (ts_nr_maps s2) 0 s2))\<lparr>ts_tags := None\<rparr>;
          s4 = drop_res Tags_srcu s3
      in if BLK_MQ_F_BLOCKING \<in> ts_flags s4 then drop_res Srcu_memory (drop_res Srcu s4) else s4)"

end
