(* ===== verification/TagLaws.thy ===== *)
theory TagLaws
  imports TagSet
begin

text \<open>
  The allocation of tag sets: it returns, every failure gives back what was taken, a set that was allocated has
  all its requests, and releasing it gives everything back.
\<close>

declare halve_loop.simps [simp del]

section \<open>What tags hold\<close>

definition rqs_of :: "blk_mq_tags \<Rightarrow> nat multiset" where
  "rqs_of g = mset (List.map_filter id (tg_static g))"

definition full :: "nat \<Rightarrow> blk_mq_tags \<Rightarrow> bool" where
  "full depth g \<longleftrightarrow> tg_nr g = depth \<and> length (tg_static g) = depth \<and> None \<notin> set (tg_static g) \<and> length (tg_rqs g) = depth"

lemma map_filter_none [simp]: "List.map_filter id (replicate n None) = []"
  by (induction n) (simp_all add: List.map_filter_def)

lemma map_filter_update:
  "i < length xs \<Longrightarrow> xs ! i = None \<Longrightarrow>
     mset (List.map_filter id (xs[i := Some a])) = add_mset a (mset (List.map_filter id xs))"
proof (induction xs arbitrary: i)
  case (Cons x xs)
  then show ?case by (cases i) (auto simp: map_filter_simps split: option.splits)
qed simp

text \<open>The rest of the set, which allocation of tags leaves alone.\<close>

definition same_set :: "'e tset \<Rightarrow> 'e tset \<Rightarrow> bool" where
  "same_set s s' \<longleftrightarrow> ts_nr_hw_queues s' = ts_nr_hw_queues s \<and> ts_reserved_tags s' = ts_reserved_tags s \<and>
     ts_nr_maps s' = ts_nr_maps s \<and> ts_map s' = ts_map s \<and> ts_flags s' = ts_flags s \<and> ts_res s' = ts_res s"

lemma same_set_refl [simp]: "same_set s s"
  by (simp add: same_set_def)

lemma same_set_trans [trans]: "same_set a b \<Longrightarrow> same_set b c \<Longrightarrow> same_set a c"
  by (simp add: same_set_def)

definition same_tags :: "'e tset \<Rightarrow> 'e tset \<Rightarrow> bool" where
  "same_tags s s' \<longleftrightarrow> same_set s s' \<and> ts_queue_depth s' = ts_queue_depth s \<and> ts_tags s' = ts_tags s \<and> ts_shared_tags s' = ts_shared_tags s"

lemma same_tags_refl [simp]: "same_tags s s"
  by (simp add: same_tags_def)

lemma same_tags_trans [trans]: "same_tags a b \<Longrightarrow> same_tags b c \<Longrightarrow> same_tags a c"
  by (simp add: same_tags_def same_set_def)

section \<open>Requests\<close>

text \<open>Each request lies in one of the page blocks of its tags.\<close>

definition in_block :: "'e tapi \<Rightarrow> nat \<Rightarrow> nat \<Rightarrow> nat \<times> nat \<Rightarrow> bool" where
  "in_block api a n b \<longleftrightarrow> fst b \<le> a \<and> a + n \<le> fst b + order_to_size api (snd b)"

definition placed :: "'e tapi \<Rightarrow> blk_mq_tags \<Rightarrow> bool" where
  "placed api g \<longleftrightarrow> (\<forall>a. Some a \<in> set (tg_static g) \<longrightarrow> (\<exists>b \<in> set (tg_pages g). in_block api a (t_rq_size api) b))"

text \<open>The tags \<open>t\<close> during the allocation of their requests, of which \<open>i\<close> are there.\<close>

definition filling :: "'e tapi \<Rightarrow> nat \<Rightarrow> nat \<Rightarrow> blk_mq_tags \<Rightarrow> 'e tset \<Rightarrow> nat \<Rightarrow> 'e tset \<Rightarrow> bool" where
  "filling api t depth g0 s0 i s \<longleftrightarrow>
     (\<exists>g. placed api g \<and> ts_heap s = (ts_heap s0)(t \<mapsto> g) \<and> tg_nr g = tg_nr g0 \<and> tg_reserved g = tg_reserved g0 \<and> tg_rqs g = tg_rqs g0 \<and>
        length (tg_static g) = depth \<and> i \<le> depth \<and> (\<forall>j < depth. (tg_static g ! j = None) = (i \<le> j)) \<and> (tg_pages g = [] \<longrightarrow> i = 0) \<and>
        mset (ts_inited s) = mset (ts_inited s0) + rqs_of g) \<and>
     same_tags s0 s \<and> ts_next s = ts_next s0"

lemma upd_tags_simps [simp]:
  "ts_heap s t = Some g \<Longrightarrow> ts_heap (upd_tags t f s) = (ts_heap s)(t \<mapsto> f g)"
  "ts_inited (upd_tags t f s) = ts_inited s" "ts_next (upd_tags t f s) = ts_next s" "ts_env (upd_tags t f s) = ts_env s"
  "same_tags s0 (upd_tags t f s) = same_tags s0 s"
  by (auto simp: upd_tags_def same_tags_def same_set_def split: option.splits)

lemma init_request_effect:
  assumes "blk_mq_init_request api p idx node s = (ret, s1)"
  shows "ts_heap s1 = ts_heap s" and "ts_next s1 = ts_next s" and "same_tags s s1"
    and "ts_inited s1 = (if ret = 0 then p # ts_inited s else ts_inited s)"
proof -
  obtain e where "s1 = s\<lparr>ts_env := e, ts_inited := (if ret = 0 then p # ts_inited s else ts_inited s)\<rparr>"
  proof (cases "t_init_request api")
    case None
    then show ?thesis using assms that [of "ts_env s"] by (simp add: blk_mq_init_request_def)
  next
    case (Some f)
    then show ?thesis using assms that by (cases "f p idx node (ts_env s)") (auto simp: blk_mq_init_request_def split: if_splits)
  qed
  then show "ts_heap s1 = ts_heap s" "ts_next s1 = ts_next s" "same_tags s s1"
    "ts_inited s1 = (if ret = 0 then p # ts_inited s else ts_inited s)"
    by (simp_all add: same_tags_def same_set_def)
qed

lemma init_rqs_filling:
  assumes "filling api t depth g0 s0 i s" and "i + n \<le> depth" and "init_rqs api t idx node (t_rq_size api) n i p s = (ok, s')"
    and "\<exists>g b. ts_heap s t = Some g \<and> b \<in> set (tg_pages g) \<and> in_block api p (n * t_rq_size api) b"
  shows "(ok \<longrightarrow> filling api t depth g0 s0 (i + n) s') \<and> (\<exists>k. filling api t depth g0 s0 k s')"
  using assms
proof (induction n arbitrary: i p s)
  case 0
  then show ?case by auto
next
  case (Suc n)
  obtain ret s1 where r: "blk_mq_init_request api p idx node s = (ret, s1)" by (cases "blk_mq_init_request api p idx node s")
  obtain g where g: "ts_heap s = (ts_heap s0)(t \<mapsto> g)" "tg_nr g = tg_nr g0" "tg_reserved g = tg_reserved g0" "tg_rqs g = tg_rqs g0"
    "length (tg_static g) = depth" "\<forall>j < depth. (tg_static g ! j = None) = (i \<le> j)" "mset (ts_inited s) = mset (ts_inited s0) + rqs_of g"
    "same_tags s0 s" "ts_next s = ts_next s0" "placed api g"
    using Suc.prems(1) by (auto simp: filling_def)
  obtain b where b: "b \<in> set (tg_pages g)" "in_block api p (Suc n * t_rq_size api) b" using Suc.prems(4) g(1) by auto
  then have pg: "tg_pages g \<noteq> []" by auto
  have s1: "ts_heap s1 = ts_heap s" "ts_next s1 = ts_next s" "same_tags s0 s1"
    "ts_inited s1 = (if ret = 0 then p # ts_inited s else ts_inited s)"
    using init_request_effect [OF r] same_tags_trans [OF g(8)] by auto
  show ?case
  proof (cases "ret = 0")
    case False
    then have "s' = s1" "\<not> ok" using Suc.prems(3) r by auto
    moreover have "filling api t depth g0 s0 i s1"
      using g pg s1 False Suc.prems(2) unfolding filling_def by (intro conjI exI [of _ g]) auto
    ultimately show ?thesis by blast
  next
    case True
    let ?f = "\<lambda>g. g\<lparr>tg_static := (tg_static g)[i := Some p]\<rparr>"
    let ?s = "upd_tags t ?f s1"
    have h: "ts_heap ?s = (ts_heap s0)(t \<mapsto> ?f g)" using g(1) s1(1) by simp
    have "rqs_of (?f g) = add_mset p (rqs_of g)"
      using g(5,6) Suc.prems(2) by (simp add: rqs_of_def map_filter_update)
    moreover have "placed api (?f g)"
    proof -
      have "in_block api p (t_rq_size api) b" using b(2) by (simp add: in_block_def)
      then show ?thesis using g(10) b(1) set_update_subset_insert [of "tg_static g" i "Some p"] unfolding placed_def by fastforce
    qed
    ultimately have "filling api t depth g0 s0 (Suc i) ?s"
      using g pg s1 True h Suc.prems(2) unfolding filling_def
      by (intro conjI exI [of _ "?f g"]) (auto simp: nth_list_update)
    moreover have "init_rqs api t idx node (t_rq_size api) n (Suc i) (p + t_rq_size api) ?s = (ok, s')" using Suc.prems(3) r True by simp
    moreover have "\<exists>g b. ts_heap ?s t = Some g \<and> b \<in> set (tg_pages g) \<and> in_block api (p + t_rq_size api) (n * t_rq_size api) b"
      using h b by (intro exI [of _ "?f g"] exI [of _ b]) (simp add: in_block_def)
    ultimately show ?thesis using Suc.IH [of "Suc i" ?s "p + t_rq_size api"] Suc.prems(2) by simp
  qed
qed

lemma add_page_filling:
  assumes "filling api t depth g0 s0 i s"
  shows "filling api t depth g0 s0 i (add_page t b (s\<lparr>ts_env := e\<rparr>))"
    and "\<exists>g. ts_heap (add_page t b (s\<lparr>ts_env := e\<rparr>)) t = Some g \<and> b \<in> set (tg_pages g)"
proof -
  obtain g where g: "ts_heap s = (ts_heap s0)(t \<mapsto> g)" "tg_nr g = tg_nr g0" "tg_reserved g = tg_reserved g0" "tg_rqs g = tg_rqs g0"
    "length (tg_static g) = depth" "i \<le> depth" "\<forall>j < depth. (tg_static g ! j = None) = (i \<le> j)"
    "mset (ts_inited s) = mset (ts_inited s0) + rqs_of g" "same_tags s0 s" "ts_next s = ts_next s0" "placed api g"
    using assms by (auto simp: filling_def)
  let ?g = "g\<lparr>tg_pages := tg_pages g @ [b]\<rparr>"
  have h: "ts_heap (add_page t b (s\<lparr>ts_env := e\<rparr>)) = (ts_heap s0)(t \<mapsto> ?g)" using g(1) by (simp add: add_page_def)
  then show "\<exists>g. ts_heap (add_page t b (s\<lparr>ts_env := e\<rparr>)) t = Some g \<and> b \<in> set (tg_pages g)" by simp
  have "same_tags s0 (s\<lparr>ts_env := e\<rparr>)" using g(9) by (simp add: same_tags_def same_set_def)
  then show "filling api t depth g0 s0 i (add_page t b (s\<lparr>ts_env := e\<rparr>))"
    using g h unfolding filling_def by (intro conjI exI [of _ ?g]) (auto simp: add_page_def rqs_of_def placed_def)
qed

text \<open>Every block of pages that is allocated holds at least one request, so that the loop ends.\<close>

definition rq_fits :: "'e tapi \<Rightarrow> bool" where
  "rq_fits api \<longleftrightarrow> 0 < t_rq_size api \<and> t_rq_size api \<le> order_to_size api max_order"

lemma pick_order_fits:
  "sz \<le> left \<Longrightarrow> sz \<le> order_to_size api k \<Longrightarrow> sz \<le> order_to_size api (pick_order api left k)"
  by (induction k) auto

lemma try_pages_fits:
  "try_pages api node sz k e = (Some b, e') \<Longrightarrow> sz \<le> order_to_size api k \<Longrightarrow> sz \<le> order_to_size api (snd b)"
  by (induction k arbitrary: e) (auto split: prod.splits option.splits if_splits)

lemma to_do_fits: "to_do api sz depth i k * sz \<le> order_to_size api k"
  by (metis div_times_less_eq_dividend le_trans min.cobounded1 mult_le_mono1 to_do_def)

lemma rqs_loop_ok:
  assumes "filling api t depth g0 s0 i s" and "rq_fits api" and "left = t_rq_size api * (depth - i)"
  shows "\<exists>ok s'. rqs_loop api t idx node (t_rq_size api) depth i left s = Some (ok, s') \<and>
    (if ok then filling api t depth g0 s0 depth s' else \<exists>k. filling api t depth g0 s0 k s')"
  using assms
proof (induction "depth - i" arbitrary: i left s rule: less_induct)
  case less
  let ?sz = "t_rq_size api"
  show ?case
  proof (cases "i < depth")
    case False
    then have "i = depth" using less.prems(1) by (auto simp: filling_def)
    then show ?thesis using less.prems(1) by (intro exI [of _ True] exI [of _ s]) (simp add: rqs_loop.simps [of api])
  next
    case True
    have sz: "?sz \<le> left" "?sz \<le> order_to_size api (pick_order api left max_order)"
      using less.prems(2,3) True pick_order_fits [of ?sz left api max_order] by (simp_all add: rq_fits_def)
    obtain pg e where pg: "try_pages api node ?sz (pick_order api left max_order) (ts_env s) = (pg, e)"
      by (cases "try_pages api node ?sz (pick_order api left max_order) (ts_env s)")
    show ?thesis
    proof (cases pg)
      case None
      have "filling api t depth g0 s0 i (s\<lparr>ts_env := e\<rparr>)"
        using less.prems(1) by (auto simp: filling_def same_tags_def same_set_def)
      then show ?thesis using True pg None by (auto simp: rqs_loop.simps [of api])
    next
      case (Some b)
      let ?n = "to_do api ?sz depth i (snd b)"
      have "?sz \<le> order_to_size api (snd b)" using try_pages_fits [OF _ sz(2)] pg Some by blast
      then have n: "0 < ?n" "i + ?n \<le> depth"
        using True less.prems(2) by (auto simp: to_do_def Let_def rq_fits_def div_greater_zero_iff)
      obtain ok s2 where r: "init_rqs api t idx node ?sz ?n i (fst b) (add_page t b (s\<lparr>ts_env := e\<rparr>)) = (ok, s2)"
        by (cases "init_rqs api t idx node ?sz ?n i (fst b) (add_page t b (s\<lparr>ts_env := e\<rparr>))")
      have "?n * ?sz \<le> order_to_size api (snd b)" by (rule to_do_fits)
      then have "\<exists>g c. ts_heap (add_page t b (s\<lparr>ts_env := e\<rparr>)) t = Some g \<and> c \<in> set (tg_pages g) \<and> in_block api (fst b) (?n * ?sz) c"
        using add_page_filling(2) [OF less.prems(1), of b e] unfolding in_block_def by (metis add_le_cancel_left order_refl)
      note f = init_rqs_filling [OF add_page_filling(1) [OF less.prems(1)] n(2) r this]
      show ?thesis
      proof (cases ok)
        case False
        then show ?thesis using f True pg Some r by (auto simp: rqs_loop.simps [of api])
      next
        case t: True
        have "left - ?n * ?sz = ?sz * (depth - (i + ?n))" using less.prems(3) n(2) by (simp add: algebra_simps diff_mult_distrib2)
        moreover have "depth - (i + ?n) < depth - i" using n True by simp
        ultimately show ?thesis using less.hyps [of "i + ?n" s2] f t True pg Some r less.prems(2) by (auto simp: rqs_loop.simps [of api _ _ _ _ _ i])
      qed
    qed
  qed
qed

lemma exit_rqs_effect:
  "ts_heap (exit_rqs api f idx rs s) = ts_heap s \<and> ts_next (exit_rqs api f idx rs s) = ts_next s \<and> same_tags s (exit_rqs api f idx rs s) \<and>
   mset (ts_inited (exit_rqs api f idx rs s)) = mset (ts_inited s) - mset (List.map_filter id rs)"
proof (induction rs arbitrary: s)
  case (Cons r rs)
  then show ?case
  proof (cases r)
    case (Some a)
    let ?s = "s\<lparr>ts_env := f a idx (ts_env s), ts_inited := remove1 a (ts_inited s)\<rparr>"
    have "same_tags s ?s" by (simp add: same_tags_def same_set_def)
    then show ?thesis using Cons.IH [of ?s] same_tags_trans [of s ?s] Some by (auto simp: map_filter_simps)
  qed (simp add: map_filter_simps)
qed (simp add: List.map_filter_def)

lemma clear_mapping_none:
  "drv \<in> {None, Some t} \<Longrightarrow> blk_mq_clear_rq_mapping api drv t s = s"
  by (auto simp: blk_mq_clear_rq_mapping_def)

lemma same_tags_drv: "same_tags s s' \<Longrightarrow> drv_tags idx s' = drv_tags idx s"
  by (simp add: drv_tags_def same_tags_def same_set_def blk_mq_is_shared_tags_def)

definition exits :: "'e tapi \<Rightarrow> bool" where
  "exits api \<longleftrightarrow> t_exit_request api \<noteq> None"

lemma free_rqs_effect:
  assumes h: "ts_heap s t = Some g" and d: "drv_tags idx s \<in> {None, Some t}" and p: "tg_pages g = [] \<longrightarrow> rqs_of g = {#}"
  shows "(\<exists>g'. ts_heap (blk_mq_free_rqs api t idx s) = (ts_heap s)(t \<mapsto> g')) \<and>
    ts_next (blk_mq_free_rqs api t idx s) = ts_next s \<and> same_tags s (blk_mq_free_rqs api t idx s) \<and>
    (exits api \<longrightarrow> mset (ts_inited (blk_mq_free_rqs api t idx s)) = mset (ts_inited s) - rqs_of g)"
proof (cases "t_exit_request api")
  case None
  then have "blk_mq_free_rqs api t idx s = s" using h d by (simp add: blk_mq_free_rqs_def clear_mapping_none)
  then show ?thesis using h None by (auto simp: exits_def fun_upd_idem intro!: exI [of _ g])
next
  case (Some f)
  have e: "ts_heap (exit_rqs api f idx (tg_static g) s) t = Some g" using exit_rqs_effect [of api f idx "tg_static g" s] h by simp
  show ?thesis
  proof (cases "tg_pages g = []")
    case True
    then have "blk_mq_free_rqs api t idx s = s" using h by (simp add: blk_mq_free_rqs_def)
    then show ?thesis using h p True by (auto simp: fun_upd_idem intro!: exI [of _ g])
  next
    case False
    then show ?thesis using Some h d e exit_rqs_effect [of api f idx "tg_static g" s]
      by (auto simp: blk_mq_free_rqs_def clear_mapping_none rqs_of_def)
  qed
qed

lemma free_map_effect:
  assumes h: "ts_heap s t = Some g" and d: "drv_tags idx s \<in> {None, Some t}" and p: "tg_pages g = [] \<longrightarrow> rqs_of g = {#}"
  shows "ts_heap (blk_mq_free_map_and_rqs api (Some t) idx s) = (ts_heap s)(t := None) \<and>
    ts_next (blk_mq_free_map_and_rqs api (Some t) idx s) = ts_next s \<and> same_tags s (blk_mq_free_map_and_rqs api (Some t) idx s) \<and>
    (exits api \<longrightarrow> mset (ts_inited (blk_mq_free_map_and_rqs api (Some t) idx s)) = mset (ts_inited s) - rqs_of g)"
proof -
  obtain g' where g': "ts_heap (blk_mq_free_rqs api t idx s) = (ts_heap s)(t \<mapsto> g')" using free_rqs_effect [OF assms] by blast
  have "same_tags (blk_mq_free_rqs api t idx s) (blk_mq_free_rq_map t (blk_mq_free_rqs api t idx s))"
    by (simp add: blk_mq_free_rq_map_def same_tags_def same_set_def)
  then show ?thesis using free_rqs_effect [OF assms, of api] g' same_tags_trans
    by (auto simp: blk_mq_free_map_and_rqs_def blk_mq_free_rq_map_def)
qed

section \<open>Tags and their requests\<close>

definition fresh_heap :: "'e tset \<Rightarrow> bool" where
  "fresh_heap s \<longleftrightarrow> (\<forall>t \<ge> ts_next s. ts_heap s t = None)"

text \<open>What was allocated since a state: the live tags \<open>xs\<close>, newest last.\<close>

definition grown :: "'e tapi \<Rightarrow> 'e tset \<Rightarrow> (nat \<times> blk_mq_tags) list \<Rightarrow> 'e tset \<Rightarrow> bool" where
  "grown api s0 xs s \<longleftrightarrow>
     distinct (map fst xs) \<and> (\<forall>x \<in> set xs. ts_heap s0 (fst x) = None) \<and> ts_heap s = ts_heap s0 ++ map_of xs \<and>
     fresh_heap s \<and> same_set s0 s \<and>
     (exits api \<longrightarrow> mset (ts_inited s) = mset (ts_inited s0) + sum_list (map (rqs_of \<circ> snd) xs))"

lemma alloc_rq_map_cases:
  assumes "blk_mq_alloc_rq_map api idx nr reserved s = (r, s')" and "fresh_heap s"
  shows "case r of
      None \<Rightarrow> ts_heap s' = ts_heap s \<and> fresh_heap s' \<and> same_tags s s' \<and> ts_inited s' = ts_inited s
    | Some t \<Rightarrow> t = ts_next s \<and> ts_next s' = Suc t \<and> same_tags s s' \<and> ts_inited s' = ts_inited s \<and>
        ts_heap s' = (ts_heap s)(t \<mapsto> \<lparr>tg_nr = nr, tg_reserved = reserved, tg_rqs = replicate nr None, tg_static = replicate nr None, tg_pages = []\<rparr>)"
proof -
  let ?node = "blk_mq_get_hctx_node api idx s"
  obtain ok e where i: "t_init_tags api nr reserved ?node (ts_env s) = (ok, e)" by (cases "t_init_tags api nr reserved ?node (ts_env s)")
  obtain ok1 e1 where k1: "t_kcalloc api nr ?node e = (ok1, e1)" by (cases "t_kcalloc api nr ?node e")
  obtain ok2 e2 where k2: "t_kcalloc api nr ?node e1 = (ok2, e2)" by (cases "t_kcalloc api nr ?node e1")
  have "ts_heap s (ts_next s) = None" using assms(2) by (simp add: fresh_heap_def)
  then have u: "(ts_heap s)(ts_next s := None) = ts_heap s" by (simp add: fun_upd_idem)
  show ?thesis
    using assms(1) assms(2) u by (cases ok; cases ok1; cases ok2)
      (auto simp: blk_mq_alloc_rq_map_def Let_def i k1 k2 kcalloc_def upd_tags_def blk_mq_free_rq_map_def same_tags_def same_set_def fresh_heap_def)
qed

lemma alloc_rqs_effect:
  assumes h: "ts_heap s t = Some g" and g: "tg_static g = replicate depth None" "tg_pages g = []"
    and fit: "rq_fits api" and d: "drv_tags idx s \<in> {None, Some t}"
  shows "\<exists>ret s'. blk_mq_alloc_rqs api t idx depth s = Some (ret, s') \<and> same_tags s s' \<and> ts_next s' = ts_next s \<and>
    (if ret = 0
     then \<exists>g'. ts_heap s' = (ts_heap s)(t \<mapsto> g') \<and> tg_nr g' = tg_nr g \<and> tg_reserved g' = tg_reserved g \<and> tg_rqs g' = tg_rqs g \<and>
       length (tg_static g') = depth \<and> None \<notin> set (tg_static g') \<and> placed api g' \<and> (tg_pages g' = [] \<longrightarrow> depth = 0) \<and>
       mset (ts_inited s') = mset (ts_inited s) + rqs_of g'
     else (\<exists>g'. ts_heap s' = (ts_heap s)(t \<mapsto> g')) \<and> (exits api \<longrightarrow> mset (ts_inited s') = mset (ts_inited s)))"
proof -
  have "filling api t depth g s 0 s" using h g unfolding filling_def by (intro conjI exI [of _ g]) (auto simp: fun_upd_idem rqs_of_def placed_def)
  from rqs_loop_ok [OF this fit, of _ idx "blk_mq_get_hctx_node api idx s"] obtain ok s1 where
    r: "rqs_loop api t idx (blk_mq_get_hctx_node api idx s) (t_rq_size api) depth 0 (t_rq_size api * depth) s = Some (ok, s1)"
    and f: "if ok then filling api t depth g s depth s1 else \<exists>k. filling api t depth g s k s1" by auto
  show ?thesis
  proof (cases ok)
    case True
    then obtain g' where g': "ts_heap s1 = (ts_heap s)(t \<mapsto> g')" "tg_nr g' = tg_nr g" "tg_reserved g' = tg_reserved g" "tg_rqs g' = tg_rqs g"
      "length (tg_static g') = depth" "\<forall>j < depth. tg_static g' ! j \<noteq> None" "tg_pages g' = [] \<longrightarrow> depth = 0"
      "mset (ts_inited s1) = mset (ts_inited s) + rqs_of g'" "same_tags s s1" "ts_next s1 = ts_next s" "placed api g'"
      using f by (auto simp: filling_def)
    have "None \<notin> set (tg_static g')" using g'(5,6) by (auto simp: in_set_conv_nth)
    then show ?thesis using r True g' by (auto simp: blk_mq_alloc_rqs_def Let_def)
  next
    case False
    then obtain g' k where g': "ts_heap s1 = (ts_heap s)(t \<mapsto> g')" "length (tg_static g') = depth" "\<forall>j < depth. (tg_static g' ! j = None) = (k \<le> j)"
      "tg_pages g' = [] \<longrightarrow> k = 0" "mset (ts_inited s1) = mset (ts_inited s) + rqs_of g'" "same_tags s s1" "ts_next s1 = ts_next s"
      using f by (auto simp: filling_def)
    have p: "tg_pages g' = [] \<longrightarrow> rqs_of g' = {#}"
    proof
      assume "tg_pages g' = []"
      then have "tg_static g' = replicate depth None" using g'(2,3,4) by (auto intro: nth_equalityI)
      then show "rqs_of g' = {#}" by (simp add: rqs_of_def)
    qed
    have d1: "drv_tags idx s1 \<in> {None, Some t}"
      using d same_tags_drv [OF g'(6)] by simp
    have h1: "ts_heap s1 t = Some g'" using g'(1) by simp
    obtain g2 where "ts_heap (blk_mq_free_rqs api t idx s1) = (ts_heap s)(t \<mapsto> g2)" "ts_next (blk_mq_free_rqs api t idx s1) = ts_next s"
      "same_tags s (blk_mq_free_rqs api t idx s1)" "exits api \<longrightarrow> mset (ts_inited (blk_mq_free_rqs api t idx s1)) = mset (ts_inited s)"
      using free_rqs_effect [OF h1 d1 p, of api] g' same_tags_trans [OF g'(6)] by auto
    then show ?thesis using r False by (auto simp: blk_mq_alloc_rqs_def Let_def t_ENOMEM_def)
  qed
qed

lemma full_pages: "full depth g \<Longrightarrow> tg_pages g = [] \<longrightarrow> depth = 0 \<Longrightarrow> tg_pages g = [] \<longrightarrow> rqs_of g = {#}"
  by (auto simp: full_def rqs_of_def List.map_filter_def)

definition good_tags :: "'e tapi \<Rightarrow> nat \<Rightarrow> nat \<Rightarrow> blk_mq_tags \<Rightarrow> bool" where
  "good_tags api depth reserved g \<longleftrightarrow> full depth g \<and> placed api g \<and> tg_reserved g = reserved \<and> (tg_pages g = [] \<longrightarrow> depth = 0)"

lemma alloc_map_and_rqs_effect:
  assumes fit: "rq_fits api" and fr: "fresh_heap s" and d: "drv_tags idx s = None"
  shows "\<exists>r s'. blk_mq_alloc_map_and_rqs api idx depth s = Some (r, s') \<and> same_tags s s' \<and>
    (case r of
       None \<Rightarrow> grown api s [] s'
     | Some t \<Rightarrow> \<exists>g. good_tags api depth (ts_reserved_tags s) g \<and> grown api s [(t, g)] s')"
proof -
  obtain r s1 where m: "blk_mq_alloc_rq_map api idx depth (ts_reserved_tags s) s = (r, s1)"
    by (cases "blk_mq_alloc_rq_map api idx depth (ts_reserved_tags s) s")
  note c = alloc_rq_map_cases [OF m fr]
  show ?thesis
  proof (cases r)
    case None
    then show ?thesis using m c by (auto simp: blk_mq_alloc_map_and_rqs_def grown_def same_tags_def)
  next
    case (Some t)
    let ?g = "\<lparr>tg_nr = depth, tg_reserved = ts_reserved_tags s, tg_rqs = replicate depth None, tg_static = replicate depth None, tg_pages = []\<rparr>"
    have s1: "t = ts_next s" "ts_next s1 = Suc t" "same_tags s s1" "ts_inited s1 = ts_inited s" "ts_heap s1 = (ts_heap s)(t \<mapsto> ?g)"
      using c Some by simp_all
    have h1: "ts_heap s1 t = Some ?g" "drv_tags idx s1 \<in> {None, Some t}" using s1(5) same_tags_drv [OF s1(3)] d by simp_all
    have nt: "ts_heap s t = None" using fr s1(1) by (simp add: fresh_heap_def)
    from alloc_rqs_effect [OF h1(1) _ _ fit h1(2), of depth] obtain ret s2 where
      r2: "blk_mq_alloc_rqs api t idx depth s1 = Some (ret, s2)" and st: "same_tags s1 s2" and nx: "ts_next s2 = Suc t"
      and ok: "if ret = 0
        then \<exists>g'. ts_heap s2 = (ts_heap s1)(t \<mapsto> g') \<and> tg_nr g' = depth \<and> tg_reserved g' = ts_reserved_tags s \<and> tg_rqs g' = replicate depth None \<and>
          length (tg_static g') = depth \<and> None \<notin> set (tg_static g') \<and> placed api g' \<and> (tg_pages g' = [] \<longrightarrow> depth = 0) \<and>
          mset (ts_inited s2) = mset (ts_inited s1) + rqs_of g'
        else (\<exists>g'. ts_heap s2 = (ts_heap s1)(t \<mapsto> g')) \<and> (exits api \<longrightarrow> mset (ts_inited s2) = mset (ts_inited s1))"
      using s1(2) by (auto cong: if_cong)
    note ss = same_tags_trans [OF s1(3) st]
    show ?thesis
    proof (cases "ret = 0")
      case True
      then obtain g' where g': "ts_heap s2 = (ts_heap s1)(t \<mapsto> g')" "good_tags api depth (ts_reserved_tags s) g'"
        "mset (ts_inited s2) = mset (ts_inited s1) + rqs_of g'"
        using ok by (auto simp: good_tags_def full_def)
      have "grown api s [(t, g')] s2"
        using g' s1 nx nt ss fr by (auto simp: grown_def fresh_heap_def same_tags_def)
      then show ?thesis using m Some r2 True ss g'(2) by (auto simp: blk_mq_alloc_map_and_rqs_def)
    next
      case False
      let ?s = "blk_mq_free_rq_map t s2"
      have "ts_heap ?s = ts_heap s" using ok False s1(5) nt by (auto simp: blk_mq_free_rq_map_def fun_upd_idem)
      moreover have "same_tags s ?s" using ss by (simp add: blk_mq_free_rq_map_def same_tags_def same_set_def)
      moreover have "fresh_heap ?s" using fr nx s1(1) calculation(1) by (simp add: fresh_heap_def blk_mq_free_rq_map_def)
      moreover have "exits api \<longrightarrow> mset (ts_inited ?s) = mset (ts_inited s)" using ok False s1(4) by (simp add: blk_mq_free_rq_map_def)
      ultimately have "grown api s [] ?s" by (simp add: grown_def same_tags_def)
      then show ?thesis using m Some r2 False \<open>same_tags s ?s\<close> by (auto simp: blk_mq_alloc_map_and_rqs_def)
    qed
  qed
qed

lemma grown_refl: "fresh_heap s \<Longrightarrow> grown api s [] s"
  by (simp add: grown_def)

lemma grown_fresh: "grown api s0 xs s \<Longrightarrow> fresh_heap s"
  by (simp add: grown_def)

lemma grown_trans:
  assumes "grown api s0 xs s" and "grown api s ys s'"
  shows "grown api s0 (xs @ ys) s'"
proof -
  have new: "map_of xs (fst y) = None" "ts_heap s0 (fst y) = None" if "y \<in> set ys" for y
  proof -
    have "(ts_heap s0 ++ map_of xs) (fst y) = None" using assms that by (auto simp: grown_def)
    then show "map_of xs (fst y) = None" "ts_heap s0 (fst y) = None" by (auto simp: map_add_def split: option.splits)
  qed
  have dj: "fst ` set xs \<inter> fst ` set ys = {}"
  proof (rule equals0I)
    fix t assume "t \<in> fst ` set xs \<inter> fst ` set ys"
    then obtain y where "y \<in> set ys" "fst y = t" "t \<in> fst ` set xs" by auto
    then show False using new(1) [of y] by (simp add: map_of_eq_None_iff)
  qed
  have "map_of xs ++ map_of ys = map_of ys ++ map_of xs"
    using dj by (intro map_add_comm) (simp add: dom_map_of_conv_image_fst)
  then have "ts_heap s' = ts_heap s0 ++ map_of (xs @ ys)" using assms by (simp add: grown_def) (metis map_add_assoc)
  then show ?thesis using assms dj new(2) same_set_trans by (auto simp: grown_def) blast
qed

text \<open>Freeing tags that were allocated takes them off the list.\<close>

lemma grown_free:
  assumes gr: "grown api s0 (xs @ (t, g) # ys) s" and d: "drv_tags idx s \<in> {None, Some t}" and p: "good_tags api depth r g"
  shows "grown api s0 (xs @ ys) (blk_mq_free_map_and_rqs api (Some t) idx s)"
    and "same_tags s (blk_mq_free_map_and_rqs api (Some t) idx s)"
proof -
  have nt: "map_of (xs @ ys) t = None" "map_of xs t = None" using gr by (auto simp: grown_def map_of_eq_None_iff)
  have m: "map_of (xs @ (t, g) # ys) = (map_of (xs @ ys))(t \<mapsto> g)"
    using nt by (auto simp: map_add_def fun_eq_iff split: option.splits)
  have hs: "ts_heap s = (ts_heap s0 ++ map_of (xs @ ys))(t \<mapsto> g)" using gr unfolding grown_def m by simp
  then have h: "ts_heap s t = Some g" by simp
  have pg: "tg_pages g = [] \<longrightarrow> rqs_of g = {#}" using p full_pages by (auto simp: good_tags_def)
  note f = free_map_effect [OF h d pg, of api]
  show "same_tags s (blk_mq_free_map_and_rqs api (Some t) idx s)" using f by blast
  have "ts_heap s0 t = None" using gr by (auto simp: grown_def)
  then have "(ts_heap s)(t := None) = ts_heap s0 ++ map_of (xs @ ys)" using nt hs by (auto simp: map_add_def fun_eq_iff split: option.splits)
  moreover have "fresh_heap (blk_mq_free_map_and_rqs api (Some t) idx s)" using f gr by (auto simp: fresh_heap_def grown_def)
  moreover have "same_set s0 (blk_mq_free_map_and_rqs api (Some t) idx s)" using f gr by (auto simp: grown_def same_tags_def same_set_def)
  ultimately show "grown api s0 (xs @ ys) (blk_mq_free_map_and_rqs api (Some t) idx s)" using f gr by (auto simp: grown_def)
qed

section \<open>The maps of a set\<close>

lemma grown_fields [simp]:
  "grown api s0 xs (set_tags_at i t s) = grown api s0 xs s"
  "grown api s0 xs (s\<lparr>ts_shared_tags := sh\<rparr>) = grown api s0 xs s"
  "grown api s0 xs (s\<lparr>ts_queue_depth := d\<rparr>) = grown api s0 xs s" "grown api s0 xs (s\<lparr>ts_tags := a\<rparr>) = grown api s0 xs s"
  by (simp_all add: grown_def set_tags_at_def fresh_heap_def same_set_def)

lemma set_tags_at_fields [simp]:
  "ts_tags (set_tags_at i t s) = map_option (\<lambda>ts. ts[i := t]) (ts_tags s)" "ts_queue_depth (set_tags_at i t s) = ts_queue_depth s"
  "ts_shared_tags (set_tags_at i t s) = ts_shared_tags s" "ts_flags (set_tags_at i t s) = ts_flags s"
  "ts_reserved_tags (set_tags_at i t s) = ts_reserved_tags s" "ts_nr_hw_queues (set_tags_at i t s) = ts_nr_hw_queues s"
  by (simp_all add: set_tags_at_def)

lemma grown_start [simp]:
  "grown api (s0\<lparr>ts_shared_tags := sh\<rparr>) xs s = grown api s0 xs s" "grown api (s0\<lparr>ts_queue_depth := d\<rparr>) xs s = grown api s0 xs s"
  by (simp_all add: grown_def same_set_def)

definition tag_array :: "(nat \<times> blk_mq_tags) list \<Rightarrow> nat \<Rightarrow> nat option list" where
  "tag_array xs n = map (Some \<circ> fst) xs @ replicate (n - length xs) None"

lemma tag_array_last:
  assumes "length xs < n"
  shows "(tag_array (xs @ [x]) n)[length xs := None] = tag_array xs n" "tag_array (xs @ [x]) n ! length xs = Some (fst x)"
    "(tag_array xs n)[length xs := Some (fst x)] = tag_array (xs @ [x]) n" "tag_array xs n ! length xs = None"
    "(tag_array xs n)[length xs := None] = tag_array xs n"
proof -
  have "n - length xs = Suc (n - Suc (length xs))" using assms by simp
  then show "(tag_array (xs @ [x]) n)[length xs := None] = tag_array xs n" "tag_array (xs @ [x]) n ! length xs = Some (fst x)"
    "(tag_array xs n)[length xs := Some (fst x)] = tag_array (xs @ [x]) n" "tag_array xs n ! length xs = None"
    "(tag_array xs n)[length xs := None] = tag_array xs n"
    by (simp_all add: tag_array_def nth_append list_update_append)
qed

lemma length_tag_array [simp]: "length xs \<le> n \<Longrightarrow> length (tag_array xs n) = n"
  by (simp add: tag_array_def)

definition own_maps :: "'e tapi \<Rightarrow> nat \<Rightarrow> nat \<Rightarrow> 'e tset \<Rightarrow> (nat \<times> blk_mq_tags) list \<Rightarrow> 'e tset \<Rightarrow> bool" where
  "own_maps api depth n s0 xs s \<longleftrightarrow> grown api s0 xs s \<and> length xs \<le> n \<and> ts_tags s = Some (tag_array xs n) \<and>
     (\<forall>x \<in> set xs. good_tags api depth (ts_reserved_tags s0) (snd x)) \<and> ts_queue_depth s = depth \<and>
     \<not> blk_mq_is_shared_tags s \<and> ts_shared_tags s = ts_shared_tags s0"

lemma own_maps_free_last:
  assumes "own_maps api depth n s0 (xs @ [x]) s"
  shows "own_maps api depth n s0 xs (free_map_and_rqs_at api (length xs) s)"
proof -
  have l: "length xs < n" using assms by (simp add: own_maps_def)
  have a: "ts_tags s = Some (tag_array (xs @ [x]) n)" "\<not> blk_mq_is_shared_tags s" "ts_queue_depth s = depth"
    "ts_shared_tags s = ts_shared_tags s0" "\<forall>y \<in> set xs. good_tags api depth (ts_reserved_tags s0) (snd y)"
    using assms by (auto simp: own_maps_def)
  have t: "tags_at (length xs) s = Some (fst x)" using a(1) l tag_array_last(2) by (simp add: tags_at_def)
  have d: "drv_tags (Some (length xs)) s \<in> {None, Some (fst x)}"
    using a(1,2) l tag_array_last(2) [OF l, of x] by (simp add: drv_tags_def)
  have gr: "grown api s0 (xs @ [(fst x, snd x)]) s" "good_tags api depth (ts_reserved_tags s0) (snd x)" using assms by (simp_all add: own_maps_def)
  let ?f = "blk_mq_free_map_and_rqs api (Some (fst x)) (Some (length xs)) s"
  have f: "grown api s0 xs ?f" "same_tags s ?f" using grown_free [where ys = "[]", OF gr(1) d gr(2)] by simp_all
  have e: "free_map_and_rqs_at api (length xs) s = set_tags_at (length xs) None ?f" using a(2) t by (simp add: free_map_and_rqs_at_def)
  have s: "ts_tags ?f = ts_tags s" "ts_queue_depth ?f = depth" "ts_shared_tags ?f = ts_shared_tags s0" "ts_flags ?f = ts_flags s"
    using f(2) a by (simp_all add: same_tags_def same_set_def)
  show ?thesis unfolding own_maps_def e
    using f(1) s a l tag_array_last(1) [OF l, of x] by (simp add: blk_mq_is_shared_tags_def)
qed

lemma own_maps_unwind:
  "own_maps api depth n s0 xs s \<Longrightarrow> own_maps api depth n s0 [] (rq_maps_unwind api (length xs) s)"
proof (induction xs arbitrary: s rule: rev_induct)
  case (snoc x xs)
  then show ?case using snoc.IH [OF own_maps_free_last [OF snoc.prems]] by simp
qed simp

lemma rq_maps_loop_own:
  assumes "own_maps api depth n s0 xs s" and "n = length xs + k" and fit: "rq_fits api"
  shows "\<exists>ret s' ys. rq_maps_loop api k (length xs) s = Some (ret, s') \<and> own_maps api depth n s0 ys s' \<and>
    (if ret = 0 then length ys = n else ys = [] \<and> ret = - t_ENOMEM)"
  using assms(1,2)
proof (induction k arbitrary: xs s)
  case 0
  then show ?case by auto
next
  case (Suc k)
  have l: "length xs < n" using Suc.prems by simp
  have a: "ts_tags s = Some (tag_array xs n)" "\<not> blk_mq_is_shared_tags s" "ts_queue_depth s = depth" "grown api s0 xs s"
    "ts_shared_tags s = ts_shared_tags s0" "\<forall>y \<in> set xs. good_tags api depth (ts_reserved_tags s0) (snd y)"
    using Suc.prems(1) by (auto simp: own_maps_def)
  have rs: "ts_reserved_tags s = ts_reserved_tags s0" using a(4) by (simp add: grown_def same_set_def)
  have d: "drv_tags (Some (length xs)) s = None" using a(1,2) l tag_array_last(4) by (simp add: drv_tags_def)
  obtain r s1 where r: "blk_mq_alloc_map_and_rqs api (Some (length xs)) depth s = Some (r, s1)" "same_tags s s1"
    and c: "case r of None \<Rightarrow> grown api s [] s1 | Some t \<Rightarrow> \<exists>g. good_tags api depth (ts_reserved_tags s) g \<and> grown api s [(t, g)] s1"
    using alloc_map_and_rqs_effect [OF fit grown_fresh [OF a(4)] d] by blast
  have s1: "ts_tags s1 = ts_tags s" "ts_queue_depth s1 = depth" "ts_shared_tags s1 = ts_shared_tags s0" "ts_flags s1 = ts_flags s"
    using r(2) a by (simp_all add: same_tags_def same_set_def)
  let ?s = "set_tags_at (length xs) r s1"
  have al: "alloc_map_and_rqs_at api (length xs) s = Some (r \<noteq> None, ?s)" using a(2,3) r(1) by (simp add: alloc_map_and_rqs_at_def)
  show ?case
  proof (cases r)
    case None
    have "own_maps api depth n s0 xs ?s"
      using grown_trans [OF a(4), of "[]" s1] c None s1 a l tag_array_last(5) [OF l]
      unfolding own_maps_def by (simp add: blk_mq_is_shared_tags_def)
    from own_maps_unwind [OF this] have u: "own_maps api depth n s0 [] (rq_maps_unwind api (length xs) ?s)" .
    then have "\<not> blk_mq_is_shared_tags (rq_maps_unwind api (length xs) ?s)" by (simp add: own_maps_def)
    then show ?thesis using al None u by (auto simp: Let_def t_ENOMEM_def)
  next
    case (Some t)
    then obtain g where g: "good_tags api depth (ts_reserved_tags s0) g" "grown api s [(t, g)] s1" using c rs by auto
    have o: "own_maps api depth n s0 (xs @ [(t, g)]) ?s"
      using grown_trans [OF a(4) g(2)] g(1) s1 a l tag_array_last(3) [OF l, of "(t, g)"] Some
      unfolding own_maps_def by (simp add: blk_mq_is_shared_tags_def)
    show ?thesis using Suc.IH [OF o] al Some Suc.prems(2) by simp
  qed
qed

lemma rq_maps_loop_shared:
  assumes "blk_mq_is_shared_tags s" and "ts_tags s = Some (replicate i (ts_shared_tags s) @ replicate k x)"
  shows "rq_maps_loop api k i s = Some (0, s\<lparr>ts_tags := Some (replicate (i + k) (ts_shared_tags s))\<rparr>)"
  using assms
proof (induction k arbitrary: i s)
  case 0
  then show ?case by simp
next
  case (Suc k)
  let ?s = "set_tags_at i (ts_shared_tags s) s"
  have "replicate i (ts_shared_tags s) @ ts_shared_tags s # replicate k x = replicate (Suc i) (ts_shared_tags s) @ replicate k x"
    by (simp add: replicate_app_Cons_same)
  then have "ts_tags ?s = Some (replicate (Suc i) (ts_shared_tags ?s) @ replicate k x)" using Suc.prems(2) by (simp add: list_update_append)
  moreover have "blk_mq_is_shared_tags ?s" using Suc.prems(1) by (simp add: blk_mq_is_shared_tags_def)
  ultimately have "rq_maps_loop api k (Suc i) ?s = Some (0, ?s\<lparr>ts_tags := Some (replicate (Suc i + k) (ts_shared_tags ?s))\<rparr>)"
    using Suc.IH by blast
  then show ?case using Suc.prems(1) by (simp add: alloc_map_and_rqs_at_def set_tags_at_def)
qed

definition vacant :: "'e tset \<Rightarrow> bool" where
  "vacant s \<longleftrightarrow> ts_tags s = Some (replicate (ts_nr_hw_queues s) None) \<and> (blk_mq_is_shared_tags s \<longrightarrow> ts_shared_tags s = None)"

text \<open>All tags of a set: one object per hardware queue, or one that all queues share.\<close>

definition complete :: "'e tapi \<Rightarrow> 'e tset \<Rightarrow> 'e tset \<Rightarrow> bool" where
  "complete api s0 s \<longleftrightarrow>
     (\<exists>xs. grown api s0 xs s \<and> (\<forall>x \<in> set xs. good_tags api (ts_queue_depth s) (ts_reserved_tags s) (snd x)) \<and>
        (if blk_mq_is_shared_tags s
         then \<exists>x. xs = [x] \<and> ts_shared_tags s = Some (fst x) \<and> ts_tags s = Some (replicate (ts_nr_hw_queues s) (Some (fst x)))
         else length xs = ts_nr_hw_queues s \<and> ts_tags s = Some (map (Some \<circ> fst) xs)))"

lemma grown_same: "grown api s0 xs s \<Longrightarrow> same_set s0 s"
  by (simp add: grown_def)

lemma same_set_shared: "same_set s s' \<Longrightarrow> blk_mq_is_shared_tags s' = blk_mq_is_shared_tags s"
  by (simp add: same_set_def blk_mq_is_shared_tags_def)

lemma alloc_rq_maps_ok:
  assumes fit: "rq_fits api" and fr: "fresh_heap s" and v: "vacant s"
  shows "\<exists>ret s'. alloc_rq_maps api s = Some (ret, s') \<and> ts_queue_depth s' = ts_queue_depth s \<and>
    (if ret = 0 then complete api s s' else ret = - t_ENOMEM \<and> grown api s [] s' \<and> vacant s')"
proof (cases "blk_mq_is_shared_tags s")
  case True
  then have d: "drv_tags None s = None" using v by (simp add: drv_tags_def vacant_def)
  obtain r s1 where r: "blk_mq_alloc_map_and_rqs api None (ts_queue_depth s) s = Some (r, s1)" "same_tags s s1"
    and c: "case r of None \<Rightarrow> grown api s [] s1 | Some t \<Rightarrow> \<exists>g. good_tags api (ts_queue_depth s) (ts_reserved_tags s) g \<and> grown api s [(t, g)] s1"
    using alloc_map_and_rqs_effect [OF fit fr d] by blast
  have s1: "ts_tags s1 = ts_tags s" "ts_queue_depth s1 = ts_queue_depth s" "same_set s s1"
    using r(2) by (simp_all add: same_tags_def)
  show ?thesis
  proof (cases r)
    case None
    then show ?thesis using True r c s1 v by (auto simp: alloc_rq_maps_def vacant_def same_set_def t_ENOMEM_def)
  next
    case (Some t)
    then obtain g where g: "good_tags api (ts_queue_depth s) (ts_reserved_tags s) g" "grown api s [(t, g)] s1" using c by auto
    let ?s = "s1\<lparr>ts_shared_tags := Some t\<rparr>" and ?n = "ts_nr_hw_queues s"
    have sh: "blk_mq_is_shared_tags ?s" using same_set_shared [OF s1(3)] True by (simp add: blk_mq_is_shared_tags_def)
    have n: "ts_nr_hw_queues s1 = ?n" "ts_reserved_tags s1 = ts_reserved_tags s" using s1(3) by (simp_all add: same_set_def)
    have lp: "rq_maps_loop api ?n 0 ?s = Some (0, ?s\<lparr>ts_tags := Some (replicate ?n (Some t))\<rparr>)"
      using rq_maps_loop_shared [OF sh, of 0 ?n None] v s1(1) by (simp add: vacant_def)
    have "grown api s [(t, g)] (?s\<lparr>ts_tags := Some (replicate ?n (Some t))\<rparr>)" using g(2) by simp
    then have "complete api s (?s\<lparr>ts_tags := Some (replicate ?n (Some t))\<rparr>)"
      unfolding complete_def using g(1) n s1(2) sh by (intro exI [of _ "[(t, g)]"]) (simp add: blk_mq_is_shared_tags_def)
    then show ?thesis using True r Some n lp s1(2) by (simp add: alloc_rq_maps_def Let_def)
  qed
next
  case False
  have o: "own_maps api (ts_queue_depth s) (ts_nr_hw_queues s) s [] s"
    using v fr False grown_refl [OF fr] by (simp add: own_maps_def vacant_def tag_array_def)
  obtain ret s' ys where r: "rq_maps_loop api (ts_nr_hw_queues s) 0 s = Some (ret, s')"
    "own_maps api (ts_queue_depth s) (ts_nr_hw_queues s) s ys s'"
    "if ret = 0 then length ys = ts_nr_hw_queues s else ys = [] \<and> ret = - t_ENOMEM"
    using rq_maps_loop_own [OF o _ fit, of "ts_nr_hw_queues s"] by auto
  have n: "ts_nr_hw_queues s' = ts_nr_hw_queues s" "ts_reserved_tags s' = ts_reserved_tags s" "blk_mq_is_shared_tags s' = blk_mq_is_shared_tags s"
    using r(2) grown_same [of api s ys s'] same_set_shared by (auto simp: own_maps_def same_set_def)
  have e: "alloc_rq_maps api s = Some (ret, s')" using False r(1) by (simp add: alloc_rq_maps_def)
  show ?thesis
  proof (cases "ret = 0")
    case True
    then have "complete api s s'" unfolding complete_def using r n False
      by (intro exI [of _ ys]) (auto simp: own_maps_def tag_array_def)
    then show ?thesis using e True r(2) by (auto simp: own_maps_def)
  next
    case f: False
    then show ?thesis using e r n False by (auto simp: own_maps_def tag_array_def vacant_def)
  qed
qed

lemma vacant_depth [simp]: "vacant (s\<lparr>ts_queue_depth := d\<rparr>) = vacant s" "fresh_heap (s\<lparr>ts_queue_depth := d\<rparr>) = fresh_heap s"
  by (simp_all add: vacant_def blk_mq_is_shared_tags_def fresh_heap_def)

lemma complete_start:
  assumes "grown api s0 [] s" and "complete api s s'"
  shows "complete api s0 s'"
  using assms(2) grown_trans [OF assms(1)] unfolding complete_def by fastforce

lemma halve_loop_ok:
  assumes "rq_fits api" and "fresh_heap s" and "vacant s"
  shows "\<exists>err s' k. halve_loop api s depth = Some (err, s') \<and>
    (if err = 0 then complete api s s' \<and> ts_queue_depth s' = depth div 2 ^ k \<and>
       (0 < k \<longrightarrow> ts_reserved_tags s + t_TAG_MIN api \<le> ts_queue_depth s' \<and> 0 < ts_queue_depth s')
     else err = - t_ENOMEM \<and> grown api s [] s' \<and> vacant s')"
  using assms(2,3)
proof (induction depth arbitrary: s rule: less_induct)
  case (less depth)
  obtain ret s1 where r: "alloc_rq_maps api (s\<lparr>ts_queue_depth := depth\<rparr>) = Some (ret, s1)" "ts_queue_depth s1 = depth"
    "if ret = 0 then complete api (s\<lparr>ts_queue_depth := depth\<rparr>) s1 else ret = - t_ENOMEM \<and> grown api s [] s1 \<and> vacant s1"
    using alloc_rq_maps_ok [OF assms(1), of "s\<lparr>ts_queue_depth := depth\<rparr>"] less.prems by (auto cong: if_cong)
  let ?d = "depth div 2" and ?s = "s1\<lparr>ts_queue_depth := depth div 2\<rparr>"
  show ?case
  proof (cases "ret = 0")
    case True
    then have "complete api s s1" using r(3) by (simp add: complete_def)
    then show ?thesis using True r by (intro exI [of _ 0] exI [of _ s1]) (simp add: halve_loop.simps [of api s])
  next
    case False
    then have g: "grown api s [] s1" "vacant s1" "ret = - t_ENOMEM" using r(3) by auto
    have rs: "ts_reserved_tags s1 = ts_reserved_tags s" using grown_same [OF g(1)] by (simp add: same_set_def)
    show ?thesis
    proof (cases "?d < ts_reserved_tags s + t_TAG_MIN api \<or> ?d = 0")
      case True
      then have "halve_loop api s depth = Some (- t_ENOMEM, ?s)"
        using r(1) False g(3) rs by (subst halve_loop.simps) (auto simp: Let_def)
      then show ?thesis using g by (intro exI [of _ "- t_ENOMEM"] exI [of _ ?s]) (simp add: t_ENOMEM_def)
    next
      case ok: False
      then have e: "halve_loop api s depth = halve_loop api ?s ?d"
        using r(1) False rs by (subst halve_loop.simps) (auto simp: Let_def)
      have lt: "?d < depth" using ok by (cases depth) auto
      obtain err s' k where k: "halve_loop api ?s ?d = Some (err, s')"
        "if err = 0 then complete api ?s s' \<and> ts_queue_depth s' = ?d div 2 ^ k \<and>
           (0 < k \<longrightarrow> ts_reserved_tags ?s + t_TAG_MIN api \<le> ts_queue_depth s' \<and> 0 < ts_queue_depth s')
         else err = - t_ENOMEM \<and> grown api ?s [] s' \<and> vacant s'"
        using less.IH [OF lt, of ?s] g grown_fresh [OF g(1)] by auto
      have gs: "grown api s [] ?s" using g(1) by simp
      show ?thesis
      proof (cases "err = 0")
        case True
        then have "complete api s s'" "ts_queue_depth s' = depth div 2 ^ Suc k"
          using k(2) complete_start [OF gs] by (simp_all add: div_mult2_eq)
        moreover have "ts_reserved_tags s + t_TAG_MIN api \<le> ts_queue_depth s' \<and> 0 < ts_queue_depth s'"
          using k(2) True ok rs by (cases k) auto
        ultimately show ?thesis using e k(1) True by (intro exI [of _ err] exI [of _ s'] exI [of _ "Suc k"]) simp
      next
        case f: False
        then show ?thesis using e k grown_trans [OF gs, of "[]" s'] by (intro exI [of _ err] exI [of _ s']) simp
      qed
    qed
  qed
qed

section \<open>The tag set\<close>

text \<open>What a set holds besides its tags.\<close>

definition kept :: "'e tapi \<Rightarrow> 'e tset \<Rightarrow> 'e tset \<Rightarrow> resource multiset \<Rightarrow> bool" where
  "kept api s0 s rs \<longleftrightarrow> ts_heap s = ts_heap s0 \<and> (exits api \<longrightarrow> mset (ts_inited s) = mset (ts_inited s0)) \<and> fresh_heap s \<and>
     ts_flags s = ts_flags s0 \<and> mset (ts_res s) = mset (ts_res s0) + rs \<and> length (ts_map s) = length (ts_map s0)"

definition same_rest :: "'e tset \<Rightarrow> 'e tset \<Rightarrow> bool" where
  "same_rest s s' \<longleftrightarrow> ts_map s' = ts_map s \<and> ts_nr_maps s' = ts_nr_maps s \<and> ts_nr_hw_queues s' = ts_nr_hw_queues s \<and> ts_tags s' = ts_tags s \<and>
     ts_queue_depth s' = ts_queue_depth s \<and> ts_reserved_tags s' = ts_reserved_tags s \<and> ts_shared_tags s' = ts_shared_tags s \<and>
     ts_flags s' = ts_flags s"

lemma take_res_kept:
  assumes "take_res api r s = (ret, s')" and "kept api s0 s rs"
  shows "kept api s0 s' (if ret = 0 then add_mset r rs else rs)" and "same_rest s s'"
proof -
  obtain x e where x: "t_alloc_res api r (ts_env s) = (x, e)" by (cases "t_alloc_res api r (ts_env s)")
  show "kept api s0 s' (if ret = 0 then add_mset r rs else rs)" "same_rest s s'"
    using assms x by (auto simp: take_res_def kept_def fresh_heap_def same_rest_def split: if_splits)
qed

lemma drop_res_kept: "kept api s0 s (add_mset r rs) \<Longrightarrow> kept api s0 (drop_res r s) rs"
  by (auto simp: drop_res_def kept_def fresh_heap_def)

lemma kept_fields [simp]:
  "kept api s0 (s\<lparr>ts_tags := a\<rparr>) rs = kept api s0 s rs" "same_rest s s" "ts_flags (drop_res r s) = ts_flags s"
  "ts_map (drop_res r s) = ts_map s"
  by (simp_all add: kept_def fresh_heap_def same_rest_def drop_res_def)

definition srcu_res :: "'e tset \<Rightarrow> resource multiset" where
  "srcu_res s = (if BLK_MQ_F_BLOCKING \<in> ts_flags s then {#Srcu, Srcu_memory#} else {#})"

lemma alloc_srcu_kept:
  assumes "alloc_srcu api s = (ret, s1)" and "kept api s0 s {#}"
  shows "kept api s0 s1 (if ret = 0 then srcu_res s else {#})" and "same_rest s s1"
proof -
  obtain r1 t1 where t1: "take_res api Srcu_memory s = (r1, t1)" by (cases "take_res api Srcu_memory s")
  obtain r2 t2 where t2: "take_res api Srcu t1 = (r2, t2)" by (cases "take_res api Srcu t1")
  note k1 = take_res_kept [OF t1 assms(2)]
  have k2: "r1 = 0 \<Longrightarrow> kept api s0 t2 (if r2 = 0 then {#Srcu, Srcu_memory#} else {#Srcu_memory#})" "r1 = 0 \<Longrightarrow> same_rest t1 t2"
    using take_res_kept [OF t2, of s0 "{#Srcu_memory#}"] k1 by auto
  have f: "ts_flags t2 = ts_flags s" if "r1 = 0" using k2(2) [OF that] k1(2) by (simp add: same_rest_def)
  have d: "same_rest t2 (drop_res r t2)" for r by (simp add: same_rest_def drop_res_def)
  show "kept api s0 s1 (if ret = 0 then srcu_res s else {#})"
    using assms k1 k2 f drop_res_kept [of api s0 t2 Srcu_memory "{#}"]
    by (auto simp: alloc_srcu_def t1 t2 srcu_res_def out_free_srcu_def t_ENOMEM_def split: if_splits)
  show "same_rest s s1"
    using assms k1 k2 f d by (auto simp: alloc_srcu_def t1 t2 out_free_srcu_def same_rest_def split: if_splits)
qed

lemma out_srcu_kept:
  "kept api s0 s (srcu_res s) \<Longrightarrow> kept api s0 (out_cleanup_srcu s) {#}"
  "kept api s0 s (add_mset Tags_srcu (srcu_res s)) \<Longrightarrow> kept api s0 (out_cleanup_tags_srcu s) {#}"
proof -
  show a: "kept api s0 s (srcu_res s) \<Longrightarrow> kept api s0 (out_cleanup_srcu s) {#}" for s
    using drop_res_kept [of api s0 s Srcu "{#Srcu_memory#}"] drop_res_kept [of api s0 "drop_res Srcu s" Srcu_memory "{#}"]
    by (auto simp: out_cleanup_srcu_def out_free_srcu_def srcu_res_def)
  show "kept api s0 s (add_mset Tags_srcu (srcu_res s)) \<Longrightarrow> kept api s0 (out_cleanup_tags_srcu s) {#}"
    using drop_res_kept [of api s0 s Tags_srcu "srcu_res s"] a [of "drop_res Tags_srcu s"]
    by (auto simp: out_cleanup_tags_srcu_def srcu_res_def)
qed

text \<open>The CPU maps of the first \<open>k\<close> types are allocated.\<close>

definition maps_held :: "nat \<Rightarrow> 'e tset \<Rightarrow> bool" where
  "maps_held k s \<longleftrightarrow> (\<forall>j < length (ts_map s). (qm_map (ts_map s ! j) \<noteq> None) = (j < k))"

lemma alloc_mq_maps_kept:
  assumes "alloc_mq_maps api n i s = (ok, s')" and "kept api s0 s (rs + mset (map Mq_map [0..<i]))" and "maps_held i s"
    and "i + n \<le> length (ts_map s)"
  shows "\<exists>k \<le> i + n. kept api s0 s' (rs + mset (map Mq_map [0..<k])) \<and> maps_held k s' \<and> (ok \<longrightarrow> k = i + n) \<and>
    same_rest (s\<lparr>ts_map := ts_map s'\<rparr>) s'"
  using assms
proof (induction n arbitrary: i s)
  case 0
  then show ?case by (auto simp: same_rest_def)
next
  case (Suc n)
  obtain r t where t: "take_res api (Mq_map i) s = (r, t)" by (cases "take_res api (Mq_map i) s")
  note k = take_res_kept [OF t Suc.prems(2)]
  show ?case
  proof (cases "r = 0")
    case False
    then have "s' = t" "\<not> ok" using Suc.prems(1) t by auto
    then show ?thesis using k False Suc.prems(3) by (intro exI [of _ i]) (auto simp: same_rest_def maps_held_def)
  next
    case True
    let ?m = "(ts_map t ! i)\<lparr>qm_map := Some (replicate (t_nr_cpu_ids api) 0), qm_nr_queues := ts_nr_hw_queues t\<rparr>"
    let ?s = "t\<lparr>ts_map := (ts_map t)[i := ?m]\<rparr>"
    have "kept api s0 ?s (rs + mset (map Mq_map [0..<Suc i]))" using k(1) True by (auto simp: kept_def fresh_heap_def)
    moreover have "maps_held (Suc i) ?s" using k(2) Suc.prems(3,4) by (auto simp: maps_held_def same_rest_def nth_list_update less_Suc_eq)
    moreover have "alloc_mq_maps api n (Suc i) ?s = (ok, s')" using Suc.prems(1) t True by simp
    moreover have "Suc i + n \<le> length (ts_map ?s)" using Suc.prems(4) k(2) by (simp add: same_rest_def)
    ultimately obtain j where j: "j \<le> Suc i + n" "kept api s0 s' (rs + mset (map Mq_map [0..<j]))" "maps_held j s'" "ok \<longrightarrow> j = Suc i + n"
      "same_rest (?s\<lparr>ts_map := ts_map s'\<rparr>) s'" using Suc.IH by blast
    then show ?thesis using k(2) by (intro exI [of _ j]) (auto simp: same_rest_def)
  qed
qed

lemma free_mq_maps_kept:
  assumes "kept api s0 s (rs + mset (map Mq_map [i..<k]))" and "k \<le> i + n" and "k \<le> length (ts_map s)"
    and "\<forall>j < length (ts_map s). i \<le> j \<longrightarrow> (qm_map (ts_map s ! j) \<noteq> None) = (j < k)" and "i + n \<le> length (ts_map s)"
  shows "kept api s0 (free_mq_maps n i s) rs \<and> same_rest (s\<lparr>ts_map := ts_map (free_mq_maps n i s)\<rparr>) (free_mq_maps n i s)"
  using assms
proof (induction n arbitrary: i s)
  case 0
  then show ?case by (simp add: same_rest_def)
next
  case (Suc n)
  show ?case
  proof (cases "i < k")
    case True
    let ?s = "(drop_res (Mq_map i) s)\<lparr>ts_map := (ts_map s)[i := (ts_map s ! i)\<lparr>qm_map := None\<rparr>]\<rparr>"
    have "rs + mset (map Mq_map [i..<k]) = add_mset (Mq_map i) (rs + mset (map Mq_map [Suc i..<k]))" using True by (simp add: upt_conv_Cons)
    then have "kept api s0 (drop_res (Mq_map i) s) (rs + mset (map Mq_map [Suc i..<k]))" using drop_res_kept Suc.prems(1) by metis
    then have "kept api s0 ?s (rs + mset (map Mq_map [Suc i..<k]))" by (auto simp: kept_def fresh_heap_def)
    moreover have "\<forall>j < length (ts_map ?s). Suc i \<le> j \<longrightarrow> (qm_map (ts_map ?s ! j) \<noteq> None) = (j < k)" using Suc.prems(4) by (simp add: nth_list_update)
    moreover have "k \<le> Suc i + n" "k \<le> length (ts_map ?s)" "Suc i + n \<le> length (ts_map ?s)" using Suc.prems(2,3,5) by simp_all
    ultimately have "kept api s0 (free_mq_maps n (Suc i) ?s) rs \<and> same_rest (?s\<lparr>ts_map := ts_map (free_mq_maps n (Suc i) ?s)\<rparr>) (free_mq_maps n (Suc i) ?s)"
      by (intro Suc.IH)
    moreover have "qm_map (ts_map s ! i) \<noteq> None" using Suc.prems(3,4) True by auto
    moreover from this have e: "free_mq_maps (Suc n) i s = free_mq_maps n (Suc i) ?s" by (simp del: not_None_eq)
    moreover have "same_rest (?s\<lparr>ts_map := m\<rparr>) u = same_rest (s\<lparr>ts_map := m\<rparr>) u" for m u by (simp add: same_rest_def drop_res_def)
    ultimately show ?thesis unfolding e by blast
  next
    case False
    then have "qm_map (ts_map s ! i) = None" using Suc.prems(4,5) by auto
    moreover have "kept api s0 (free_mq_maps n (Suc i) s) rs \<and> same_rest (s\<lparr>ts_map := ts_map (free_mq_maps n (Suc i) s)\<rparr>) (free_mq_maps n (Suc i) s)"
      using Suc.prems False by (intro Suc.IH) auto
    ultimately show ?thesis by simp
  qed
qed

text \<open>The functions that fill the CPU maps neither allocate nor free them.\<close>

definition maps_law :: "'e tapi \<Rightarrow> bool" where
  "maps_law api \<longleftrightarrow>
     (\<forall>f s. t_map_queues api = Some f \<longrightarrow> length (f s) = length (ts_map s) \<and>
        (\<forall>j < length (ts_map s). (qm_map (f s ! j) = None) = (qm_map (ts_map s ! j) = None))) \<and>
     (\<forall>q. (qm_map (t_default_map api q) = None) = (qm_map q = None)) \<and>
     (\<forall>q. (qm_map (t_clear_map api q) = None) = (qm_map q = None))"

lemma nth_update_any: "j < length xs \<Longrightarrow> xs[i := v] ! j = (if i = j then v else xs ! j)"
  by (auto simp: nth_list_update)

lemma update_queue_map_kept:
  assumes "maps_law api" and "kept api s0 s rs" and "maps_held k s"
  shows "kept api s0 (blk_mq_update_queue_map api s) rs" and "maps_held k (blk_mq_update_queue_map api s)"
    and "same_rest (s\<lparr>ts_map := ts_map (blk_mq_update_queue_map api s)\<rparr>) (blk_mq_update_queue_map api s)"
proof -
  let ?q = "\<lambda>m. length m = length (ts_map s) \<and> (\<forall>j < length (ts_map s). (qm_map (m ! j) = None) = (qm_map (ts_map s ! j) = None))"
  define m1 where "m1 = (if ts_nr_maps s = 1 then (ts_map s)[HCTX_TYPE_DEFAULT := (ts_map s ! HCTX_TYPE_DEFAULT)\<lparr>qm_nr_queues := ts_nr_hw_queues s\<rparr>]
    else ts_map s)"
  have m1: "?q m1" by (auto simp: m1_def nth_update_any)
  obtain m where m: "blk_mq_update_queue_map api s = s\<lparr>ts_map := m\<rparr>" "?q m"
  proof (cases "t_map_queues api")
    case None
    have "?q (m1[HCTX_TYPE_DEFAULT := t_default_map api (m1 ! HCTX_TYPE_DEFAULT)])"
      using m1 assms(1) by (auto simp: maps_law_def nth_update_any)
    then show ?thesis using that None by (simp add: blk_mq_update_queue_map_def Let_def m1_def)
  next
    case (Some f)
    define c where "c = map (t_clear_map api) (take (ts_nr_maps s) m1) @ drop (ts_nr_maps s) m1"
    have "?q c" using m1 assms(1) by (auto simp: c_def maps_law_def nth_append)
    then have "?q (f (s\<lparr>ts_map := c\<rparr>))" using Some assms(1) by (simp add: maps_law_def)
    then show ?thesis using that Some by (simp add: blk_mq_update_queue_map_def Let_def m1_def c_def)
  qed
  show "kept api s0 (blk_mq_update_queue_map api s) rs" using assms(2) m by (auto simp: kept_def fresh_heap_def)
  show "maps_held k (blk_mq_update_queue_map api s)" using assms(3) m by (simp add: maps_held_def)
  show "same_rest (s\<lparr>ts_map := ts_map (blk_mq_update_queue_map api s)\<rparr>) (blk_mq_update_queue_map api s)" by (simp add: m(1) same_rest_def)
qed

text \<open>A tag set that was cleared before it was filled in.\<close>

definition zeroed :: "'e tapi \<Rightarrow> 'e tset \<Rightarrow> bool" where
  "zeroed api s \<longleftrightarrow> ts_tags s = None \<and> ts_shared_tags s = None \<and> length (ts_map s) = t_MAX_TYPES api \<and> 1 \<le> t_MAX_TYPES api \<and>
     (\<forall>q \<in> set (ts_map s). qm_map q = None)"

lemma adjust_kept:
  assumes "alloc_adjust api s0 = Some s" and "fresh_heap s0" and "zeroed api s0"
  shows "kept api s0 s {#}" and "ts_nr_maps s \<le> length (ts_map s)" and "maps_held 0 s" and "ts_shared_tags s = None"
    and "ts_flags s = ts_flags s0" and "ts_reserved_tags s = ts_reserved_tags s0"
    and "ts_queue_depth s = (if t_kdump api then min 64 (min (ts_queue_depth s0) (t_MAX_DEPTH api)) else min (ts_queue_depth s0) (t_MAX_DEPTH api))"
  using assms by (auto simp: alloc_adjust_def Let_def kept_def fresh_heap_def zeroed_def maps_held_def split: if_splits)

definition set_res :: "'e tset \<Rightarrow> resource multiset" where
  "set_res s = add_mset Tags_array (add_mset Tags_srcu (srcu_res s)) + mset (map Mq_map [0..<ts_nr_maps s])"

lemma out_free_mq_map_kept:
  assumes "kept api s0 s (add_mset Tags_array (add_mset Tags_srcu (srcu_res s)) + mset (map Mq_map [0..<k]))" and "maps_held k s"
    and "k \<le> ts_nr_maps s" and "ts_nr_maps s \<le> length (ts_map s)"
  shows "kept api s0 (out_free_mq_map s) {#}"
proof -
  have f: "kept api s0 (free_mq_maps (ts_nr_maps s) 0 s) (add_mset Tags_array (add_mset Tags_srcu (srcu_res s)))"
    "same_rest (s\<lparr>ts_map := ts_map (free_mq_maps (ts_nr_maps s) 0 s)\<rparr>) (free_mq_maps (ts_nr_maps s) 0 s)"
    using free_mq_maps_kept [OF assms(1), of "ts_nr_maps s"] assms(2-4) by (auto simp: maps_held_def)
  let ?s = "(drop_res Tags_array (free_mq_maps (ts_nr_maps s) 0 s))\<lparr>ts_tags := None\<rparr>"
  have "srcu_res ?s = srcu_res s" using f(2) by (simp add: srcu_res_def same_rest_def)
  then have "kept api s0 ?s (add_mset Tags_srcu (srcu_res ?s))" using drop_res_kept [OF f(1)] by simp
  then show ?thesis using out_srcu_kept(2) [of api s0 ?s] by (simp add: out_free_mq_map_def)
qed

lemma kept_grown:
  assumes "kept api s0 s rs" and "grown api s [] s'"
  shows "kept api s0 s' rs"
  using assms by (simp add: kept_def grown_def same_set_def)

text \<open>The set as its allocation leaves it: \<open>b\<close> is the state before the tags were allocated.\<close>

definition ready :: "'e tapi \<Rightarrow> 'e tset \<Rightarrow> 'e tset \<Rightarrow> bool" where
  "ready api s0 s \<longleftrightarrow> (\<exists>b. kept api s0 b (set_res b) \<and> maps_held (ts_nr_maps b) b \<and> ts_nr_maps b \<le> length (ts_map b) \<and> complete api b s)"

lemma set_map_and_rqs_ok:
  assumes "rq_fits api" and "fresh_heap s" and "vacant s" and "0 < ts_queue_depth s"
  shows "\<exists>ret s' k. blk_mq_alloc_set_map_and_rqs api s = Some (ret, s') \<and>
    (if ret = 0 then complete api s s' \<and> ts_queue_depth s' = ts_queue_depth s div 2 ^ k \<and> 0 < ts_queue_depth s' \<and>
       (0 < k \<longrightarrow> ts_reserved_tags s + t_TAG_MIN api \<le> ts_queue_depth s')
     else ret = - t_ENOMEM \<and> grown api s [] s')"
proof -
  obtain err s' k where h: "halve_loop api s (ts_queue_depth s) = Some (err, s')"
    "if err = 0 then complete api s s' \<and> ts_queue_depth s' = ts_queue_depth s div 2 ^ k \<and>
       (0 < k \<longrightarrow> ts_reserved_tags s + t_TAG_MIN api \<le> ts_queue_depth s' \<and> 0 < ts_queue_depth s')
     else err = - t_ENOMEM \<and> grown api s [] s' \<and> vacant s'"
    using halve_loop_ok [OF assms(1-3), of "ts_queue_depth s"] by blast
  show ?thesis
  proof (cases "err = 0")
    case True
    then have "0 < ts_queue_depth s'" using h(2) assms(4) by (cases k) auto
    then have "blk_mq_alloc_set_map_and_rqs api s = Some (0, s')" using h(1) True by (simp add: blk_mq_alloc_set_map_and_rqs_def)
    then show ?thesis using h(2) True \<open>0 < ts_queue_depth s'\<close> by (intro exI [of _ 0] exI [of _ s'] exI [of _ k]) auto
  next
    case False
    then show ?thesis using h by (intro exI [of _ "- t_ENOMEM"] exI [of _ s']) (simp add: blk_mq_alloc_set_map_and_rqs_def t_ENOMEM_def)
  qed
qed

lemma alloc_tag_set_result:
  assumes fit: "rq_fits api" and ml: "maps_law api" and fr: "fresh_heap s0" and z: "zeroed api s0" and md: "0 < t_MAX_DEPTH api"
  shows "\<exists>ret s. blk_mq_alloc_tag_set api s0 = Some (ret, s) \<and>
    (if ret = 0 then ready api s0 s \<and> 0 < ts_queue_depth s \<and> ts_queue_depth s \<le> ts_queue_depth s0 \<and> ts_queue_depth s \<le> t_MAX_DEPTH api
     else kept api s0 s {#})"
proof (cases "alloc_checks api s0 \<and> alloc_adjust api s0 \<noteq> None")
  case False
  then show ?thesis using fr by (auto simp: blk_mq_alloc_tag_set_def kept_def fresh_heap_def t_EINVAL_def)
next
  case True
  then obtain s where s: "alloc_adjust api s0 = Some s" by auto
  note A = adjust_kept [OF s fr z]
  obtain r1 s1 where t1: "alloc_srcu api s = (r1, s1)" by (cases "alloc_srcu api s")
  obtain r2 s2 where t2: "take_res api Tags_srcu s1 = (r2, s2)" by (cases "take_res api Tags_srcu s1")
  obtain r3 s3 where t3: "take_res api Tags_array s2 = (r3, s3)" by (cases "take_res api Tags_array s2")
  let ?s3 = "s3\<lparr>ts_tags := Some (replicate (ts_nr_hw_queues s3) None)\<rparr>"
  obtain ok s4 where t4: "alloc_mq_maps api (ts_nr_maps s3) 0 ?s3 = (ok, s4)" by (cases "alloc_mq_maps api (ts_nr_maps s3) 0 ?s3")
  let ?s4 = "blk_mq_update_queue_map api s4"
  have e: "blk_mq_alloc_tag_set api s0 =
    (if r1 \<noteq> 0 then Some (r1, s1) else if r2 \<noteq> 0 then Some (r2, out_cleanup_srcu s2)
     else if r3 \<noteq> 0 then Some (- t_ENOMEM, out_cleanup_tags_srcu s3) else if \<not> ok then Some (- t_ENOMEM, out_free_mq_map s4)
     else case blk_mq_alloc_set_map_and_rqs api ?s4 of None \<Rightarrow> None | Some (ret, s5) \<Rightarrow> if ret \<noteq> 0 then Some (ret, out_free_mq_map s5) else Some (0, s5))"
    using True s by (simp add: blk_mq_alloc_tag_set_def t1 t2 t3 t4)
  note k1 = alloc_srcu_kept [OF t1 A(1)]
  have k2: "r1 = 0 \<Longrightarrow> kept api s0 s2 (if r2 = 0 then add_mset Tags_srcu (srcu_res s2) else srcu_res s2)" "r1 = 0 \<Longrightarrow> same_rest s s2"
    using take_res_kept [OF t2, of s0 "srcu_res s"] k1 by (auto simp: same_rest_def srcu_res_def)
  have k3: "kept api s0 s3 (if r3 = 0 then add_mset Tags_array (add_mset Tags_srcu (srcu_res s3)) else add_mset Tags_srcu (srcu_res s3))"
    "same_rest s s3" if "r1 = 0" "r2 = 0"
    using take_res_kept [OF t3, of s0 "add_mset Tags_srcu (srcu_res s2)"] k2 that by (auto simp: same_rest_def srcu_res_def)
  show ?thesis
  proof (cases "r1 = 0 \<and> r2 = 0 \<and> r3 = 0")
    case False
    then show ?thesis using e k1 k2 k3 out_srcu_kept [of api s0 s2] out_srcu_kept [of api s0 s3] by (auto simp: t_ENOMEM_def)
  next
    case ok3: True
    have p3: "kept api s0 ?s3 (add_mset Tags_array (add_mset Tags_srcu (srcu_res s3)) + mset (map Mq_map [0..<0]))"
      "maps_held 0 ?s3" "0 + ts_nr_maps s3 \<le> length (ts_map ?s3)" "same_rest s s3"
      using k3 ok3 A(2,3) by (auto simp: same_rest_def maps_held_def)
    obtain k where k: "k \<le> ts_nr_maps s3" "kept api s0 s4 (add_mset Tags_array (add_mset Tags_srcu (srcu_res s3)) + mset (map Mq_map [0..<k]))"
      "maps_held k s4" "ok \<longrightarrow> k = ts_nr_maps s3" "same_rest (?s3\<lparr>ts_map := ts_map s4\<rparr>) s4"
      using alloc_mq_maps_kept [OF t4 p3(1-3)] by auto
    have s4: "ts_nr_maps s4 = ts_nr_maps s3" "srcu_res s4 = srcu_res s3" "ts_nr_maps s4 \<le> length (ts_map s4)"
      "ts_tags s4 = Some (replicate (ts_nr_hw_queues s4) None)" "ts_shared_tags s4 = None" "ts_queue_depth s4 = ts_queue_depth s"
      using k(2,5) p3(4) A(1,2,4) by (auto simp: same_rest_def srcu_res_def kept_def)
    show ?thesis
    proof (cases ok)
      case False
      then show ?thesis using e ok3 out_free_mq_map_kept [of api s0 s4 k] k s4 by (auto simp: t_ENOMEM_def)
    next
      case okt: True
      note u = update_queue_map_kept [OF ml k(2,3)]
      have f4: "ts_nr_maps ?s4 = ts_nr_maps s4" "srcu_res ?s4 = srcu_res s4" "length (ts_map ?s4) = length (ts_map s4)" "vacant ?s4" "fresh_heap ?s4"
        "ts_queue_depth ?s4 = ts_queue_depth s"
        using u s4 k(2) by (auto simp: same_rest_def srcu_res_def vacant_def kept_def)
      have d: "0 < ts_queue_depth s" "ts_queue_depth s \<le> ts_queue_depth s0" "ts_queue_depth s \<le> t_MAX_DEPTH api"
        using A(7) True md by (auto simp: alloc_checks_def)
      obtain ret s5 q where q: "blk_mq_alloc_set_map_and_rqs api ?s4 = Some (ret, s5)"
        "if ret = 0 then complete api ?s4 s5 \<and> ts_queue_depth s5 = ts_queue_depth s div 2 ^ q \<and> 0 < ts_queue_depth s5 \<and>
           (0 < q \<longrightarrow> ts_reserved_tags ?s4 + t_TAG_MIN api \<le> ts_queue_depth s5) else ret = - t_ENOMEM \<and> grown api ?s4 [] s5"
        using set_map_and_rqs_ok [OF fit f4(5,4)] d(1) unfolding f4(6) by blast
      have res: "kept api s0 ?s4 (set_res ?s4)" using u(1) k(4) okt f4(1,2) s4(1,2) by (simp add: set_res_def)
      show ?thesis
      proof (cases "ret = 0")
        case True
        then have "ready api s0 s5" unfolding ready_def
          using res u(2) k(4) okt f4 s4 q(2) by (intro exI [of _ ?s4]) auto
        moreover have "ts_queue_depth s5 \<le> ts_queue_depth s" using q(2) True by (auto intro: div_le_dividend)
        moreover have "0 < ts_queue_depth s5" using q(2) True by simp
        moreover have "blk_mq_alloc_tag_set api s0 = Some (0, s5)" using e ok3 okt q(1) True by simp
        ultimately show ?thesis using d(2,3) by (intro exI [of _ 0] exI [of _ s5]) simp
      next
        case False
        then have g: "grown api ?s4 [] s5" "ret = - t_ENOMEM" using q(2) by auto
        have "kept api s0 s5 (add_mset Tags_array (add_mset Tags_srcu (srcu_res s5)) + mset (map Mq_map [0..<k]))"
          "maps_held k s5" "k \<le> ts_nr_maps s5" "ts_nr_maps s5 \<le> length (ts_map s5)"
          using kept_grown [OF u(1) g(1)] grown_same [OF g(1)] f4 s4 u(2) k(1) by (auto simp: same_set_def srcu_res_def maps_held_def)
        then have "kept api s0 (out_free_mq_map s5) {#}" by (rule out_free_mq_map_kept)
        then show ?thesis using e ok3 okt q g(2) by (auto simp: t_ENOMEM_def)
      qed
    qed
  qed
qed

section \<open>Release\<close>

definition free_tags :: "'e tapi \<Rightarrow> 'e tset \<Rightarrow> 'e tset" where
  "free_tags api s =
     (let s1 = free_set_tags api (ts_nr_hw_queues s) 0 s
      in if blk_mq_is_shared_tags s1 then blk_mq_free_map_and_rqs api (ts_shared_tags s1) None s1 else s1)"

lemma free_tag_set_parts: "blk_mq_free_tag_set api s = out_free_mq_map (free_tags api s)"
  by (simp add: blk_mq_free_tag_set_def free_tags_def Let_def out_free_mq_map_def out_cleanup_tags_srcu_def out_cleanup_srcu_def
      out_free_srcu_def)

lemma free_set_tags_own:
  assumes "grown api s0 xs s" and "ts_tags s = Some (replicate i None @ map (Some \<circ> fst) xs)"
    and "\<forall>x \<in> set xs. good_tags api depth r (snd x)" and "\<not> blk_mq_is_shared_tags s"
  shows "grown api s0 [] (free_set_tags api (length xs) i s)"
  using assms
proof (induction xs arbitrary: i s)
  case (Cons x xs)
  have t: "tags_at i s = Some (fst x)" "drv_tags (Some i) s \<in> {None, Some (fst x)}"
    using Cons.prems(2,4) by (simp_all add: tags_at_def drv_tags_def nth_append)
  have gr: "grown api s0 ([] @ (fst x, snd x) # xs) s" "good_tags api depth r (snd x)" using Cons.prems(1,3) by simp_all
  let ?f = "blk_mq_free_map_and_rqs api (Some (fst x)) (Some i) s"
  note f = grown_free [OF gr(1) t(2) gr(2)]
  have e: "free_map_and_rqs_at api i s = set_tags_at i None ?f" using Cons.prems(4) t(1) by (simp add: free_map_and_rqs_at_def)
  have s: "ts_tags ?f = ts_tags s" "ts_flags ?f = ts_flags s" using f(2) by (simp_all add: same_tags_def same_set_def)
  have "replicate i None @ None # map (Some \<circ> fst) xs = replicate (Suc i) None @ map (Some \<circ> fst) xs" by (simp add: replicate_app_Cons_same)
  moreover have "ts_tags (set_tags_at i None ?f) = Some (replicate i None @ None # map (Some \<circ> fst) xs)"
    using Cons.prems(2) s(1) by (simp add: list_update_append comp_def)
  ultimately have tg: "ts_tags (set_tags_at i None ?f) = Some (replicate (Suc i) None @ map (Some \<circ> fst) xs)" by metis
  show ?case using Cons.IH [OF _ tg] f(1) Cons.prems(3,4) s(2) e by (simp add: blk_mq_is_shared_tags_def)
qed simp

lemma free_set_tags_shared:
  "blk_mq_is_shared_tags s \<Longrightarrow> \<exists>a. free_set_tags api n i s = s\<lparr>ts_tags := a\<rparr>"
proof (induction n arbitrary: i s)
  case 0
  show ?case by (intro exI [of _ "ts_tags s"]) simp
next
  case (Suc n)
  let ?s = "set_tags_at i None s"
  have "blk_mq_is_shared_tags ?s" using Suc.prems by (simp add: blk_mq_is_shared_tags_def)
  then obtain a where "free_set_tags api n (Suc i) ?s = ?s\<lparr>ts_tags := a\<rparr>" using Suc.IH by blast
  then show ?case using Suc.prems by (intro exI [of _ a]) (simp add: free_map_and_rqs_at_def set_tags_at_def)
qed

lemma complete_free:
  assumes "complete api b s"
  shows "grown api b [] (free_tags api s)"
proof -
  obtain xs where xs: "grown api b xs s" "\<forall>x \<in> set xs. good_tags api (ts_queue_depth s) (ts_reserved_tags s) (snd x)"
    "if blk_mq_is_shared_tags s
     then \<exists>x. xs = [x] \<and> ts_shared_tags s = Some (fst x) \<and> ts_tags s = Some (replicate (ts_nr_hw_queues s) (Some (fst x)))
     else length xs = ts_nr_hw_queues s \<and> ts_tags s = Some (map (Some \<circ> fst) xs)"
    using assms unfolding complete_def by blast
  show ?thesis
  proof (cases "blk_mq_is_shared_tags s")
    case True
    then obtain x where x: "xs = [x]" "ts_shared_tags s = Some (fst x)" using xs(3) by auto
    obtain a where a: "free_set_tags api (ts_nr_hw_queues s) 0 s = s\<lparr>ts_tags := a\<rparr>" using free_set_tags_shared [OF True] by blast
    let ?s = "s\<lparr>ts_tags := a\<rparr>"
    have sh: "blk_mq_is_shared_tags ?s" using True by (simp add: blk_mq_is_shared_tags_def)
    have "grown api b ([] @ (fst x, snd x) # []) ?s" using xs(1) x(1) by simp
    moreover have "drv_tags None ?s \<in> {None, Some (fst x)}" using sh x(2) by (simp add: drv_tags_def)
    moreover have "good_tags api (ts_queue_depth s) (ts_reserved_tags s) (snd x)" using xs(2) x(1) by simp
    ultimately have "grown api b ([] @ []) (blk_mq_free_map_and_rqs api (Some (fst x)) None ?s)" by (rule grown_free)
    then show ?thesis using a sh x(2) by (simp add: free_tags_def Let_def)
  next
    case False
    then have g: "grown api b [] (free_set_tags api (ts_nr_hw_queues s) 0 s)" using xs free_set_tags_own [OF xs(1), of 0] by auto
    then have "\<not> blk_mq_is_shared_tags (free_set_tags api (ts_nr_hw_queues s) 0 s)"
      using False same_set_shared [OF grown_same [OF xs(1)]] same_set_shared [OF grown_same [OF g]] by simp
    then show ?thesis using g by (simp add: free_tags_def Let_def)
  qed
qed

lemma ready_free:
  assumes "ready api s0 s"
  shows "kept api s0 (blk_mq_free_tag_set api s) {#}"
proof -
  obtain b where b: "kept api s0 b (set_res b)" "maps_held (ts_nr_maps b) b" "ts_nr_maps b \<le> length (ts_map b)" "complete api b s"
    using assms unfolding ready_def by blast
  note g = complete_free [OF b(4)]
  let ?s = "free_tags api s"
  have ss: "ts_nr_maps ?s = ts_nr_maps b" "ts_map ?s = ts_map b" "srcu_res ?s = srcu_res b"
    using grown_same [OF g] by (simp_all add: same_set_def srcu_res_def)
  have "kept api s0 ?s (add_mset Tags_array (add_mset Tags_srcu (srcu_res ?s)) + mset (map Mq_map [0..<ts_nr_maps ?s]))"
    using kept_grown [OF b(1) g] ss by (simp add: set_res_def)
  then have "kept api s0 (out_free_mq_map ?s) {#}" using b(2,3) ss by (intro out_free_mq_map_kept) (auto simp: maps_held_def)
  then show ?thesis by (simp add: free_tag_set_parts)
qed

lemma ready_tags:
  assumes "ready api s0 s" and "i < ts_nr_hw_queues s"
  shows "\<exists>t g. tags_at i s = Some t \<and> ts_heap s t = Some g \<and> full (ts_queue_depth s) g \<and> placed api g \<and> tg_reserved g = ts_reserved_tags s"
proof -
  obtain b xs where xs: "grown api b xs s" "\<forall>x \<in> set xs. good_tags api (ts_queue_depth s) (ts_reserved_tags s) (snd x)"
    "if blk_mq_is_shared_tags s
     then \<exists>x. xs = [x] \<and> ts_shared_tags s = Some (fst x) \<and> ts_tags s = Some (replicate (ts_nr_hw_queues s) (Some (fst x)))
     else length xs = ts_nr_hw_queues s \<and> ts_tags s = Some (map (Some \<circ> fst) xs)"
    using assms(1) unfolding ready_def complete_def by blast
  obtain x where x: "x \<in> set xs" "tags_at i s = Some (fst x)"
  proof (cases "blk_mq_is_shared_tags s")
    case True
    then show ?thesis using that xs(3) assms(2) by (auto simp: tags_at_def)
  next
    case False
    then show ?thesis using that [of "xs ! i"] xs(3) assms(2) by (auto simp: tags_at_def)
  qed
  have "map_of xs (fst x) = Some (snd x)" using xs(1) x(1) by (intro map_of_is_SomeI) (simp_all add: grown_def)
  then have "ts_heap s (fst x) = Some (snd x)" using xs(1) by (simp add: grown_def)
  then show ?thesis using x xs(2) by (auto simp: good_tags_def)
qed

lemma ready_distinct:
  assumes "ready api s0 s" and "\<not> blk_mq_is_shared_tags s" and "i < ts_nr_hw_queues s" and "j < ts_nr_hw_queues s" and "i \<noteq> j"
  shows "tags_at i s \<noteq> tags_at j s"
proof -
  obtain b xs where xs: "grown api b xs s" "length xs = ts_nr_hw_queues s" "ts_tags s = Some (map (Some \<circ> fst) xs)"
    using assms(1,2) unfolding ready_def complete_def by auto
  have "map fst xs ! i \<noteq> map fst xs ! j" using xs(1,2) assms(3-5) by (subst nth_eq_iff_index_eq) (auto simp: grown_def)
  then show ?thesis using xs(2,3) assms(3,4) by (simp add: tags_at_def)
qed

lemma ready_shared:
  assumes "ready api s0 s" and "blk_mq_is_shared_tags s" and "i < ts_nr_hw_queues s" and "j < ts_nr_hw_queues s"
  shows "tags_at i s = tags_at j s"
  using assms unfolding ready_def complete_def tags_at_def by auto

end
