(* ===== verification/TagRuns.thy ===== *)
theory TagRuns
  imports TagLaws
begin

text \<open>
  The contract of tag sets, over the laws of \<open>TagLaws\<close>: allocation is all or nothing, release undoes it, and
  requests that are larger than a page block of the greatest order are never served.
\<close>

section \<open>A small system\<close>

text \<open>
  A model in the small: pages of 4 bytes, requests of 3, no blocks of more than one page. The environment
  counts the attempts to get pages, of which number \<open>bad\<close> fails, and the requests the driver knows.
\<close>

definition small_api :: "nat \<Rightarrow> (nat \<times> nat) tapi" where
  "small_api bad = \<lparr>t_page_size = 4, t_rq_size = 3, t_nr_cpu_ids = 2, t_set_node = 0, t_node = (\<lambda>q i. None),
     t_init_tags = (\<lambda>n r node e. (True, e)), t_kcalloc = (\<lambda>n node e. (True, e)),
     t_alloc_pages = (\<lambda>node k e. if 0 < k then (None, e) else (if fst e = bad then None else Some (10 + 4 * fst e), (Suc (fst e), snd e))),
     t_init_request = Some (\<lambda>a i node e. (0, (fst e, Suc (snd e)))), t_exit_request = Some (\<lambda>a i e. (fst e, snd e - 1)),
     t_map_queues = None, t_clear_map = (\<lambda>q. q), t_default_map = (\<lambda>q. q), t_has_queue_rq = True, t_has_get_budget = False,
     t_has_put_budget = False, t_kdump = False, t_TAG_MIN = 1, t_MAX_DEPTH = 6, t_MAX_TYPES = 3,
     t_alloc_res = (\<lambda>r e. (0, e))\<rparr>"

definition small_set :: "nat \<Rightarrow> set_flag set \<Rightarrow> (nat \<times> nat) tset" where
  "small_set depth flags = \<lparr>ts_nr_hw_queues = 2, ts_queue_depth = depth, ts_reserved_tags = 1, ts_nr_maps = 1,
     ts_map = replicate 3 \<lparr>qm_map = None, qm_nr_queues = 0, qm_queue_offset = 0\<rparr>, ts_flags = flags, ts_tags = None, ts_shared_tags = None,
     ts_heap = Map.empty, ts_next = 0, ts_inited = [], ts_res = [], ts_env = (0, 0)\<rparr>"

lemma small_laws: "rq_fits (small_api n)" "maps_law (small_api n)" "fresh_heap (small_set d f)" "zeroed (small_api n) (small_set d f)" "0 < t_MAX_DEPTH (small_api n)"
  by (simp_all add: small_api_def small_set_def rq_fits_def order_to_size_def max_order_def maps_law_def fresh_heap_def zeroed_def)

definition result_of :: "(int \<times> 'e tset) option \<Rightarrow> (int \<times> nat \<times> nat option list option \<times> nat \<times> nat) option" where
  "result_of r = map_option (\<lambda>(ret, s). (ret, ts_queue_depth s, ts_tags s, length (ts_inited s), length (ts_res s))) r"

section \<open>Properties\<close>


lemma result_of_Some: "result_of r = Some (ret, d, x) \<Longrightarrow> \<exists>s. r = Some (ret, s) \<and> ts_queue_depth s = d"
  by (auto simp: result_of_def)



lemma sq_tag_set_result:
  assumes "rq_fits api" and "maps_law api" and "fresh_heap s" and "1 \<le> t_MAX_TYPES api" and "0 < t_MAX_DEPTH api"
  shows "\<exists>ret s'. blk_mq_alloc_sq_tag_set api depth flags s = Some (ret, s') \<and> (ret \<noteq> 0 \<longrightarrow> ts_heap s' = ts_heap s \<and> mset (ts_res s') = mset (ts_res s))"
proof -
  let ?api = "api\<lparr>t_set_node := - 1\<rparr>"
  let ?s = "s\<lparr>ts_nr_hw_queues := 1, ts_queue_depth := depth, ts_reserved_tags := 0, ts_nr_maps := 1,
    ts_map := replicate (t_MAX_TYPES api) \<lparr>qm_map = None, qm_nr_queues = 0, qm_queue_offset = 0\<rparr>,
    ts_flags := flags, ts_tags := None, ts_shared_tags := None\<rparr>"
  have "rq_fits ?api" "maps_law ?api" "fresh_heap ?s" "zeroed ?api ?s" "0 < t_MAX_DEPTH ?api"
    using assms by (auto simp: rq_fits_def order_to_size_def maps_law_def fresh_heap_def zeroed_def)
  from alloc_tag_set_result [OF this] show ?thesis
    unfolding blk_mq_alloc_sq_tag_set_def by (fastforce simp: kept_def split: if_splits)
qed

text \<open>C17: releasing a tag set that was allocated gives back all tags, all resources and, when the driver has an
  exit_request, every initialised request.\<close>

theorem free_tag_set_undoes_alloc:
  assumes "rq_fits api" and "maps_law api" and "fresh_heap s0" and "zeroed api s0" and "0 < t_MAX_DEPTH api"
    and "blk_mq_alloc_tag_set api s0 = Some (0, s)"
  shows "ts_heap (blk_mq_free_tag_set api s) = ts_heap s0 \<and> mset (ts_res (blk_mq_free_tag_set api s)) = mset (ts_res s0) \<and>
    (exits api \<longrightarrow> mset (ts_inited (blk_mq_free_tag_set api s)) = mset (ts_inited s0))"
proof -
  have "ready api s0 s" using alloc_tag_set_result [OF assms(1-5)] assms(6) by auto
  from ready_free [OF this] show ?thesis by (simp add: kept_def)
qed

lemma small_shared:
  "result_of (blk_mq_alloc_tag_set (small_api 9) (small_set 4 {BLK_MQ_F_TAG_HCTX_SHARED, BLK_MQ_F_BLOCKING})) = Some (0, 4, Some [Some 0, Some 0], 4, 5)"
  by code_simp

theorem free_tag_set_undoes_alloc_witness:
  "\<exists>s. blk_mq_alloc_tag_set (small_api 9) (small_set 4 {BLK_MQ_F_TAG_HCTX_SHARED, BLK_MQ_F_BLOCKING}) = Some (0, s) \<and>
     ts_heap (blk_mq_free_tag_set (small_api 9) s) = Map.empty \<and> ts_res (blk_mq_free_tag_set (small_api 9) s) = []"
proof -
  obtain s where s: "blk_mq_alloc_tag_set (small_api 9) (small_set 4 {BLK_MQ_F_TAG_HCTX_SHARED, BLK_MQ_F_BLOCKING}) = Some (0, s)"
    using result_of_Some [OF small_shared] by blast
  from free_tag_set_undoes_alloc [OF small_laws s] s show ?thesis by (simp add: small_set_def)
qed

lemma try_pages_first:
  assumes "fst (t_alloc_pages api node k e) \<noteq> None"
  shows "\<exists>a e'. try_pages api node sz k e = (Some (a, k), e')"
  using assms by (cases k; cases "t_alloc_pages api node k e") (auto split: option.splits)

lemma pick_order_le: "pick_order api left k \<le> k"
  by (induction k) (auto intro: le_SucI)

lemma no_room:
  assumes "order_to_size api max_order < sz" and "k \<le> max_order"
  shows "to_do api sz depth i k = 0"
proof -
  have "order_to_size api k \<le> order_to_size api max_order" using assms(2) by (simp add: order_to_size_def)
  then show ?thesis using assms(1) by (simp add: to_do_def)
qed

lemma rqs_loop_stuck:
  assumes big: "order_to_size api max_order < t_rq_size api" and pages: "\<And>node k e. fst (t_alloc_pages api node k e) \<noteq> None"
    and "rqs_loop api t idx node (t_rq_size api) depth i left s = Some y"
  shows "\<not> i < depth"
proof -
  have "a = api \<longrightarrow> sz = t_rq_size api \<longrightarrow> \<not> i < depth" if "rqs_loop a t idx node sz depth i left s = Some y" for a sz
    using that
  proof (induction a t idx node sz depth i left s y rule: rqs_loop.raw_induct [rotated, consumes 1, case_names body])
    case (body loop a t idx node sz depth i left s y)
    show ?case
    proof (intro impI notI)
      assume a: "a = api" "sz = t_rq_size api"
      assume "i < depth"
      let ?k = "pick_order a left max_order"
      obtain p e where p: "try_pages a node sz ?k (ts_env s) = (Some (p, ?k), e)"
        using try_pages_first [of a node ?k "ts_env s" sz] pages [of node ?k "ts_env s"] a(1) by auto
      have "to_do a sz depth i ?k = 0" using no_room [OF big pick_order_le] a by simp
      then have "loop a t idx node sz depth i left (add_page t (p, ?k) (s\<lparr>ts_env := e\<rparr>)) = Some y"
        using body(2) \<open>i < depth\<close> p by simp
      then show False using body(1) a \<open>i < depth\<close> by blast
    qed
  qed
  then show ?thesis using assms(3) by blast
qed

text \<open>C39: a request that is larger than a page block of the greatest order is never served: while the allocator has
  pages, the loop of blk_mq_alloc_rqs takes block after block, puts no request into any of them and does not return.\<close>

theorem alloc_rqs_endless:
  assumes "order_to_size api max_order < t_rq_size api" and "\<And>node k e. fst (t_alloc_pages api node k e) \<noteq> None" and "0 < depth"
  shows "blk_mq_alloc_rqs api t idx depth s = None"
proof (cases "rqs_loop api t idx (blk_mq_get_hctx_node api idx s) (t_rq_size api) depth 0 (t_rq_size api * depth) s")
  case None
  then show ?thesis by (simp add: blk_mq_alloc_rqs_def Let_def)
next
  case (Some y)
  then show ?thesis using rqs_loop_stuck [OF assms(1,2)] assms(3) by blast
qed

definition big_api :: "(nat \<times> nat) tapi" where
  "big_api = (small_api 0)\<lparr>t_rq_size := 65, t_alloc_pages := (\<lambda>node k e. (Some (10 + 64 * fst e), (Suc (fst e), snd e)))\<rparr>"

theorem alloc_rqs_endless_witness: "blk_mq_alloc_rqs big_api 0 (Some 0) 4 (small_set 4 {}) = None"
  by (rule alloc_rqs_endless) (simp_all add: big_api_def small_api_def order_to_size_def max_order_def)

end
