(* ===== verification/ReadPath.thy ===== *)
theory ReadPath
  imports FileWalk PageFault
begin

text \<open>
  Reading a file through the page cache (\<open>readaround-split/src/mm/filemap.c\<close>): \<open>filemap_get_pages\<close> brings a run of folios
  up to date, with read-ahead and single reads, \<open>filemap_read\<close> copies from it, \<open>filemap_splice_read\<close> hands its pages to a pipe, and
  \<open>generic_file_read_iter\<close> chooses between direct and buffered reading. The state is that of a page fault: the cache, the read-ahead
  state and the references and locks held. The folios of the cache at a moment are \<open>r_map\<close>; a folio is known by
  its address \<open>xe_id\<close>, and what can be done to it is the record \<open>r_g\<close> of functions. File positions are
  integers below \<open>2^63\<close>. The drop-behind mark of a new folio (\<open>r_set_dropbehind\<close>) is seen as its effect on the cache, that of
  read-ahead as the first argument of \<open>r_rac\<close>, which makes the read-ahead control; the end of a drop-behind read
  (\<open>filemap_end_dropbehind_read\<close>, in theory \<open>FolioLock\<close>) is seen as its effect on the cache too. Marking folios as accessed,
  access times, data-cache flushes, the allocation context of \<open>memalloc_noio_save\<close> and traces are left out.
\<close>

section \<open>State\<close>

datatype iocb_flag = IOCB_NOWAIT | IOCB_NOIO | IOCB_WAITQ | IOCB_DONTCACHE | IOCB_DIRECT

record kiocb =
  ki_pos :: int
  ki_flags :: "iocb_flag set"

text \<open>The destination of a read: the room that is left, and what was copied.\<close>

record iov_iter =
  it_count :: nat
  it_data :: "u8 list"

record 'e rapi =
  r_k :: "'e kapi"
  r_w :: wapi
  r_g :: "nat \<Rightarrow> 'e gapi"
  r_map :: "'e cache \<Rightarrow> xmapping"
  r_new :: "u64 \<Rightarrow> 'e cache \<Rightarrow> xent"
  r_isize :: "'e cache \<Rightarrow> int"
  r_maxbytes :: int
  r_signal :: "'e cache \<Rightarrow> bool"
  r_inval_trylock :: "'e cache \<Rightarrow> bool"
  r_put_wait :: "nat \<Rightarrow> 'e cache \<Rightarrow> 'e cache"
  r_lock_async :: "nat \<Rightarrow> 'e cache \<Rightarrow> int \<times> 'e cache"
  r_partial :: "(xent \<Rightarrow> int \<Rightarrow> int \<Rightarrow> 'e cache \<Rightarrow> bool) option"
  r_blkbits :: nat
  r_byte :: "nat \<Rightarrow> nat \<Rightarrow> u8"
  r_copy :: "nat \<Rightarrow> nat \<Rightarrow> nat \<Rightarrow> 'e cache \<Rightarrow> nat \<times> 'e cache"
  r_set_dropbehind :: "nat \<Rightarrow> 'e cache \<Rightarrow> 'e cache"
  r_end_dropbehind :: "nat \<Rightarrow> 'e cache \<Rightarrow> 'e cache"
  r_rac :: "bool \<Rightarrow> u64 \<Rightarrow> readahead_control"
  r_write_wait :: "int \<Rightarrow> int \<Rightarrow> 'e cache \<Rightarrow> int \<times> 'e cache"
  r_direct_IO :: "kiocb \<Rightarrow> iov_iter \<Rightarrow> 'e cache \<Rightarrow> int \<times> iov_iter \<times> 'e cache"
  r_dax :: bool

definition EINTR :: int where "EINTR = 4"
definition EIOCBQUEUED :: int where "EIOCBQUEUED = 529"

definition folio_shift :: "'e rapi \<Rightarrow> xent \<Rightarrow> nat" where
  "folio_shift api e = k_page_shift (r_k api) + xe_order e"

definition folio_size :: "'e rapi \<Rightarrow> xent \<Rightarrow> nat" where
  "folio_size api e = 2 ^ folio_shift api e"

definition folio_pos :: "'e rapi \<Rightarrow> xent \<Rightarrow> int" where
  "folio_pos api e = int (unat (xe_index e)) * 2 ^ k_page_shift (r_k api)"

definition get_refs :: "int \<Rightarrow> 'e flt \<Rightarrow> 'e flt" where
  "get_refs n s = s\<lparr>fl_refs := fl_refs s + n\<rparr>"

section \<open>Bringing one folio up to date\<close>

definition filemap_range_uptodate :: "'e rapi \<Rightarrow> int \<Rightarrow> int \<Rightarrow> xent \<Rightarrow> bool \<Rightarrow> 'e cache \<Rightarrow> bool" where
  "filemap_range_uptodate api pos cnt e need_uptodate c =
     (if g_uptodate (r_g api (xe_id e)) c then True
      else if need_uptodate then False
      else case r_partial api of
             None \<Rightarrow> False
           | Some f \<Rightarrow>
               if folio_shift api e \<le> r_blkbits api then False
               else (case (if folio_pos api e > pos then (0, cnt - (folio_pos api e - pos)) else (pos - folio_pos api e, cnt)) of
                       (p, n) \<Rightarrow> if p = 0 \<and> n \<ge> int (folio_size api e) then False else f e p n c))"

definition unlock_mapping :: "int \<Rightarrow> 'e flt \<Rightarrow> int \<times> 'e flt" where
  "unlock_mapping error s =
     (let s1 = s\<lparr>fl_inval := fl_inval s - 1\<rparr> in (error, if error = AOP_TRUNCATED_PAGE then get_refs (- 1) s1 else s1))"

definition unlock_folio :: "int \<Rightarrow> 'e flt \<Rightarrow> int \<times> 'e flt" where
  "unlock_folio error s = unlock_mapping error (s\<lparr>fl_locks := fl_locks s - 1\<rparr>)"

text \<open>The rest of \<open>filemap_update_page\<close> once the folio is locked.\<close>

definition update_locked :: "'e rapi \<Rightarrow> kiocb \<Rightarrow> int \<Rightarrow> xent \<Rightarrow> bool \<Rightarrow> 'e flt \<Rightarrow> int \<times> 'e flt" where
  "update_locked api iocb cnt e need_uptodate s =
     (let g = r_g api (xe_id e) in
      if \<not> g_mapping_ok g (fl_cache s) then unlock_folio AOP_TRUNCATED_PAGE s
      else if filemap_range_uptodate api (ki_pos iocb) cnt e need_uptodate (fl_cache s) then unlock_folio 0 s
      else if ki_flags iocb \<inter> {IOCB_NOIO, IOCB_NOWAIT, IOCB_WAITQ} \<noteq> {} then unlock_folio (- EAGAIN) s
      else (case filemap_read_folio g s of (error, s1) \<Rightarrow> unlock_mapping error s1))"

definition filemap_update_page :: "'e rapi \<Rightarrow> kiocb \<Rightarrow> int \<Rightarrow> xent \<Rightarrow> bool \<Rightarrow> 'e flt \<Rightarrow> int \<times> 'e flt" where
  "filemap_update_page api iocb cnt e need_uptodate s0 =
     (if IOCB_NOWAIT \<in> ki_flags iocb \<and> \<not> r_inval_trylock api (fl_cache s0) then (- EAGAIN, s0)
      else let s = s0\<lparr>fl_inval := fl_inval s0 + 1\<rparr> in
           case g_trylock (r_g api (xe_id e)) (fl_cache s) of
             (got, c) \<Rightarrow>
               if got then update_locked api iocb cnt e need_uptodate (s\<lparr>fl_cache := c, fl_locks := fl_locks s + 1\<rparr>)
               else if ki_flags iocb \<inter> {IOCB_NOWAIT, IOCB_NOIO} \<noteq> {} then unlock_mapping (- EAGAIN) (s\<lparr>fl_cache := c\<rparr>)
               else if IOCB_WAITQ \<notin> ki_flags iocb
               then (AOP_TRUNCATED_PAGE, get_refs (- 1) (s\<lparr>fl_inval := fl_inval s - 1, fl_cache := r_put_wait api (xe_id e) c\<rparr>))
               else (case r_lock_async api (xe_id e) c of
                       (error, c1) \<Rightarrow>
                         if error \<noteq> 0 then unlock_mapping error (s\<lparr>fl_cache := c1\<rparr>)
                         else update_locked api iocb cnt e need_uptodate (s\<lparr>fl_cache := c1, fl_locks := fl_locks s + 1\<rparr>)))"

text \<open>The folio that is allocated for an index is \<open>r_new\<close>; it is put there with the least order.\<close>

definition create_index :: "'e rapi \<Rightarrow> int \<Rightarrow> u64" where
  "create_index api pos = push_bit (unat (k_min_order (r_k api))) (word_of_int (pos div 2 ^ (k_page_shift (r_k api) + unat (k_min_order (r_k api)))))"

definition new_folio :: "'e rapi \<Rightarrow> u64 \<Rightarrow> 'e cache \<Rightarrow> xent" where
  "new_folio api index c = (r_new api index c)\<lparr>xe_index := index, xe_order := unat (k_min_order (r_k api)), xe_value := False\<rparr>"

definition filemap_create_folio :: "'e rapi \<Rightarrow> kiocb \<Rightarrow> 'e flt \<Rightarrow> int \<times> xent list \<times> 'e flt" where
  "filemap_create_folio api iocb s =
     (let k = r_k api; min_order = k_min_order k in
      if ki_flags iocb \<inter> {IOCB_NOWAIT, IOCB_WAITQ} \<noteq> {} then (- EAGAIN, [], s)
      else case k_alloc_folio k min_order (pc_env (fl_cache s)) of
             (ok, en) \<Rightarrow>
               let s1 = s\<lparr>fl_cache := (fl_cache s)\<lparr>pc_env := en\<rparr>\<rparr> in
               if \<not> ok then (- ENOMEM, [], s1)
               else let index = create_index api (ki_pos iocb);
                        e = new_folio api index (fl_cache s1);
                        c1 = (if IOCB_DONTCACHE \<in> ki_flags iocb then r_set_dropbehind api (xe_id e) (fl_cache s1) else fl_cache s1);
                        s2 = get_refs 1 (s1\<lparr>fl_cache := c1, fl_inval := fl_inval s1 + 1\<rparr>);
                        fail = (\<lambda>error s. (error, [], get_refs (- 1) (s\<lparr>fl_inval := fl_inval s - 1\<rparr>)))
                    in case filemap_add_folio k index min_order (fl_cache s2) of
                         (error, c) \<Rightarrow>
                           let s3 = s2\<lparr>fl_cache := c\<rparr> in
                           if error = - EEXIST then fail AOP_TRUNCATED_PAGE s3
                           else if error \<noteq> 0 then fail error s3
                           else (case filemap_read_folio (r_g api (xe_id e)) (s3\<lparr>fl_locks := fl_locks s3 + 1\<rparr>) of
                                   (error, s4) \<Rightarrow>
                                     if error \<noteq> 0 then fail error s4
                                     else (0, [e], s4\<lparr>fl_inval := fl_inval s4 - 1\<rparr>)))"

section \<open>A run of folios\<close>

definition filemap_readahead :: "'e rapi \<Rightarrow> kiocb \<Rightarrow> xent \<Rightarrow> u64 \<Rightarrow> 'e flt \<Rightarrow> (int \<times> 'e flt) option" where
  "filemap_readahead api iocb e last_ix s =
     (if IOCB_NOIO \<in> ki_flags iocb then Some (- EAGAIN, s)
      else case page_cache_async_ra (r_k api) (r_rac api (IOCB_DONTCACHE \<in> ki_flags iocb) (xe_index e)) (fl_ra s) (xe_nr e)
                  (g_folio_writeback (r_g api (xe_id e)) (fl_cache s)) (last_ix - xe_index e) (fl_cache s) of
             None \<Rightarrow> None
           | Some (rac, ra, c) \<Rightarrow> Some (0, s\<lparr>fl_ra := ra, fl_cache := c\<rparr>))"

definition read_index :: "'e rapi \<Rightarrow> int \<Rightarrow> u64" where
  "read_index api pos = word_of_int (pos div 2 ^ k_page_shift (r_k api))"

definition read_last_index :: "'e rapi \<Rightarrow> int \<Rightarrow> int \<Rightarrow> u64" where
  "read_last_index api pos cnt =
     (let nb = int (unat (k_min_nrpages (r_k api))) * 2 ^ k_page_shift (r_k api)
      in word_of_int ((pos + cnt + nb - 1) div nb * nb div 2 ^ k_page_shift (r_k api)))"

definition read_batch :: "'e rapi \<Rightarrow> u64 \<Rightarrow> u64 \<Rightarrow> 'e flt \<Rightarrow> xent list \<times> 'e flt" where
  "read_batch api index last_ix s =
     (let fb = filemap_get_read_batch (r_w api) (r_map api (fl_cache s)) index (last_ix - 1) in (fb, get_refs (int (length fb)) s))"

text \<open>The batch, after synchronous read-ahead if there is none at first.\<close>

definition get_batch :: "'e rapi \<Rightarrow> kiocb \<Rightarrow> u64 \<Rightarrow> u64 \<Rightarrow> 'e flt \<Rightarrow> (int \<times> xent list \<times> 'e flt) option" where
  "get_batch api iocb index last_ix s =
     (case read_batch api index last_ix s of
        (fb, s1) \<Rightarrow>
          if fb \<noteq> [] then Some (0, fb, s1)
          else if IOCB_NOIO \<in> ki_flags iocb then Some (- EAGAIN, [], s1)
          else case page_cache_sync_ra (r_k api) (r_rac api (IOCB_DONTCACHE \<in> ki_flags iocb) index) (fl_ra s1) (last_ix - index) (fl_cache s1) of
                 None \<Rightarrow> None
               | Some (rac, ra, c) \<Rightarrow> (case read_batch api index last_ix (s1\<lparr>fl_ra := ra, fl_cache := c\<rparr>) of (fb, s2) \<Rightarrow> Some (0, fb, s2)))"

text \<open>The last folio of the batch: read-ahead if it is marked, and a read if it is not up to date. On an error it is taken off.\<close>

definition drop_last :: "int \<Rightarrow> xent list \<Rightarrow> 'e flt \<Rightarrow> int \<times> xent list \<times> 'e flt" where
  "drop_last err fb s = (err, butlast fb, if err < 0 then get_refs (- 1) s else s)"

definition check_uptodate :: "'e rapi \<Rightarrow> kiocb \<Rightarrow> int \<Rightarrow> bool \<Rightarrow> xent list \<Rightarrow> 'e flt \<Rightarrow> int \<times> xent list \<times> 'e flt" where
  "check_uptodate api iocb cnt need_uptodate fb s =
     (let e = List.last fb in
      if g_uptodate (r_g api (xe_id e)) (fl_cache s) then (0, fb, s)
      else if length fb > 1 then drop_last (- EAGAIN) fb s
      else case filemap_update_page api iocb cnt e need_uptodate s of
             (err, s1) \<Rightarrow> if err \<noteq> 0 then drop_last err fb s1 else (0, fb, s1))"

definition check_last :: "'e rapi \<Rightarrow> kiocb \<Rightarrow> int \<Rightarrow> bool \<Rightarrow> u64 \<Rightarrow> xent list \<Rightarrow> 'e flt \<Rightarrow> (int \<times> xent list \<times> 'e flt) option" where
  "check_last api iocb cnt need_uptodate last_ix fb s =
     (let e = List.last fb in
      if g_folio_marked (r_g api (xe_id e)) (fl_cache s)
      then case filemap_readahead api iocb e last_ix s of
             None \<Rightarrow> None
           | Some (err, s1) \<Rightarrow> if err \<noteq> 0 then Some (drop_last err fb s1) else Some (check_uptodate api iocb cnt need_uptodate fb s1)
      else Some (check_uptodate api iocb cnt need_uptodate fb s))"

partial_function (option) filemap_get_pages ::
  "'e rapi \<Rightarrow> kiocb \<Rightarrow> int \<Rightarrow> bool \<Rightarrow> 'e flt \<Rightarrow> (int \<times> xent list \<times> 'e flt) option" where
  "filemap_get_pages api iocb cnt need_uptodate s =
     (if r_signal api (fl_cache s) then Some (- EINTR, [], s)
      else case get_batch api iocb (read_index api (ki_pos iocb)) (read_last_index api (ki_pos iocb) cnt) s of
             None \<Rightarrow> None
           | Some (err, r) \<Rightarrow>
               (case r of
                  (fb, s1) \<Rightarrow>
                    if err \<noteq> 0 then Some (err, [], s1)
                    else if fb = []
                    then (case filemap_create_folio api iocb s1 of
                            (err, r) \<Rightarrow>
                              (case r of
                                 (fb, s2) \<Rightarrow>
                                   if err = AOP_TRUNCATED_PAGE then filemap_get_pages api iocb cnt need_uptodate s2
                                   else Some (err, fb, s2)))
                    else (case check_last api iocb cnt need_uptodate (read_last_index api (ki_pos iocb) cnt) fb s1 of
                            None \<Rightarrow> None
                          | Some (err, r) \<Rightarrow>
                              (case r of
                                 (fb, s2) \<Rightarrow>
                                   if err = 0 \<or> fb \<noteq> [] then Some (0, fb, s2)
                                   else if err = AOP_TRUNCATED_PAGE then filemap_get_pages api iocb cnt need_uptodate s2
                                   else Some (err, [], s2)))))"

declare filemap_get_pages.simps [code]

section \<open>Copying\<close>

text \<open>What \<open>filemap_read\<close> carries through its loop: the request, the destination, and the number of bytes read so far.\<close>

record rd =
  rd_iocb :: kiocb
  rd_iter :: iov_iter
  rd_read :: int
  rd_last :: u64

definition copied_to :: "'e rapi \<Rightarrow> xent \<Rightarrow> nat \<Rightarrow> nat \<Rightarrow> rd \<Rightarrow> rd" where
  "copied_to api e offset n r =
     r\<lparr>rd_read := rd_read r + int n, rd_last := word_of_int (ki_pos (rd_iocb r) + int n), rd_iocb := (rd_iocb r)\<lparr>ki_pos := ki_pos (rd_iocb r) + int n\<rparr>,
       rd_iter := \<lparr>it_count = it_count (rd_iter r) - n,
                   it_data = it_data (rd_iter r) @ map (\<lambda>i. r_byte api (xe_id e) (offset + i)) [0..<n]\<rparr>\<rparr>"

fun copy_folios :: "'e rapi \<Rightarrow> int \<Rightarrow> xent list \<Rightarrow> rd \<Rightarrow> 'e flt \<Rightarrow> int \<times> rd \<times> 'e flt" where
  "copy_folios api end_offset [] r s = (0, r, s)"
| "copy_folios api end_offset (e # es) r s =
     (let pos = ki_pos (rd_iocb r); fsize = folio_size api e; offset = nat (pos mod int fsize);
          bytes = min (nat (end_offset - pos)) (fsize - offset)
      in if end_offset < folio_pos api e then (0, r, s)
         else case r_copy api (xe_id e) offset bytes (fl_cache s) of
                (copied, c) \<Rightarrow>
                  let r1 = copied_to api e offset copied r; s1 = s\<lparr>fl_cache := c\<rparr>
                  in if copied < bytes then (- EFAULT, r1, s1) else copy_folios api end_offset es r1 s1)"

fun put_folios :: "'e rapi \<Rightarrow> xent list \<Rightarrow> 'e flt \<Rightarrow> 'e flt" where
  "put_folios api [] s = s"
| "put_folios api (e # es) s = put_folios api es (get_refs (- 1) (s\<lparr>fl_cache := r_end_dropbehind api (xe_id e) (fl_cache s)\<rparr>))"

definition read_flags :: "rd \<Rightarrow> kiocb" where
  "read_flags r =
     (let iocb = rd_iocb r in if IOCB_WAITQ \<in> ki_flags iocb \<and> rd_read r \<noteq> 0 then iocb\<lparr>ki_flags := insert IOCB_NOWAIT (ki_flags iocb)\<rparr> else iocb)"

text \<open>
  One round of copying from a batch: the error, and whether the loop goes on. The error of \<open>filemap_get_pages\<close> is 0 here, since
  \<open>read_folio\<close> answers 0, a negative error or \<open>AOP_TRUNCATED_PAGE\<close>, which is retried.
\<close>

definition read_round :: "'e rapi \<Rightarrow> xent list \<Rightarrow> rd \<Rightarrow> 'e flt \<Rightarrow> int \<times> bool \<times> rd \<times> 'e flt" where
  "read_round api fb r s =
     (let isize = r_isize api (fl_cache s); pos = ki_pos (rd_iocb r) in
      if isize \<le> pos then (0, False, r, put_folios api fb s)
      else let end_offset = min isize (pos + int (it_count (rd_iter r)))
           in case copy_folios api end_offset fb r s of
                (error, r1, s1) \<Rightarrow>
                  (error, 0 < it_count (rd_iter r1) \<and> ki_pos (rd_iocb r1) < isize \<and> error = 0, r1, put_folios api fb s1))"

partial_function (option) read_loop :: "'e rapi \<Rightarrow> rd \<Rightarrow> 'e flt \<Rightarrow> (int \<times> rd \<times> 'e flt) option" where
  "read_loop api r0 s =
     (let r = r0\<lparr>rd_iocb := read_flags r0\<rparr> in
      if r_isize api (fl_cache s) \<le> ki_pos (rd_iocb r) then Some (0, r, s)
      else case filemap_get_pages api (rd_iocb r) (int (it_count (rd_iter r))) False s of
             None \<Rightarrow> None
           | Some (error, x) \<Rightarrow>
               (case x of
                  (fb, s1) \<Rightarrow>
                    if error < 0 then Some (error, r, s1)
                    else (case read_round api fb r s1 of
                            (error, y) \<Rightarrow>
                              (case y of (go_on, z) \<Rightarrow>
                                 (case z of (r1, s2) \<Rightarrow> if go_on then read_loop api r1 s2 else Some (error, r1, s2))))))"

declare read_loop.simps [code]

definition filemap_read :: "'e rapi \<Rightarrow> kiocb \<Rightarrow> iov_iter \<Rightarrow> int \<Rightarrow> 'e flt \<Rightarrow> (int \<times> kiocb \<times> iov_iter \<times> 'e flt) option" where
  "filemap_read api iocb it already_read s =
     (if ki_pos iocb < 0 then Some (- EINVAL, iocb, it, s)
      else if r_maxbytes api \<le> ki_pos iocb then Some (0, iocb, it, s)
      else if it_count it = 0 then Some (0, iocb, it, s)
      else let it1 = it\<lparr>it_count := min (it_count it) (nat (r_maxbytes api - ki_pos iocb))\<rparr>
           in case read_loop api \<lparr>rd_iocb = iocb, rd_iter = it1, rd_read = already_read, rd_last = fra_prev_pos (fl_ra s)\<rparr> s of
                None \<Rightarrow> None
              | Some (error, r, s1) \<Rightarrow>
                  Some (if rd_read r \<noteq> 0 then rd_read r else error, rd_iocb r, rd_iter r, s1\<lparr>fl_ra := (fl_ra s1)\<lparr>fra_prev_pos := rd_last r\<rparr>\<rparr>))"

section \<open>Direct reads and splicing\<close>

definition kiocb_write_and_wait :: "'e rapi \<Rightarrow> kiocb \<Rightarrow> int \<Rightarrow> 'e flt \<Rightarrow> int \<times> 'e flt" where
  "kiocb_write_and_wait api iocb cnt s =
     (let pos = ki_pos iocb; fin = pos + cnt - 1 in
      if IOCB_NOWAIT \<in> ki_flags iocb
      then if filemap_range_has_writeback (r_w api) (r_map api (fl_cache s)) pos fin then (- EAGAIN, s) else (0, s)
      else case r_write_wait api pos fin (fl_cache s) of (ret, c) \<Rightarrow> (ret, s\<lparr>fl_cache := c\<rparr>))"

definition generic_file_read_iter :: "'e rapi \<Rightarrow> kiocb \<Rightarrow> iov_iter \<Rightarrow> 'e flt \<Rightarrow> (int \<times> kiocb \<times> iov_iter \<times> 'e flt) option" where
  "generic_file_read_iter api iocb it s =
     (if it_count it = 0 then Some (0, iocb, it, s)
      else if IOCB_DIRECT \<notin> ki_flags iocb then filemap_read api iocb it 0 s
      else case kiocb_write_and_wait api iocb (int (it_count it)) s of
             (retval, s1) \<Rightarrow>
               if retval < 0 then Some (retval, iocb, it, s1)
               else (case r_direct_IO api iocb it (fl_cache s1) of
                       (retval, it1, c) \<Rightarrow>
                         let s2 = s1\<lparr>fl_cache := c\<rparr>;
                             cnt = (if 0 \<le> retval then int (it_count it) - retval else int (it_count it));
                             iocb1 = (if 0 \<le> retval then iocb\<lparr>ki_pos := ki_pos iocb + retval\<rparr> else iocb);
                             it2 = (if retval \<noteq> - EIOCBQUEUED then it1\<lparr>it_count := nat cnt\<rparr> else it1)
                         in if retval < 0 \<or> cnt = 0 \<or> r_dax api then Some (retval, iocb1, it2, s2)
                            else if r_isize api (fl_cache s2) \<le> ki_pos iocb1 then Some (retval, iocb1, it2, s2)
                            else filemap_read api iocb1 it2 retval s2))"

text \<open>A pipe buffer: the folio, the number of its page, the offset in the page and the length.\<close>

record pipe =
  pi_bufs :: "(nat \<times> nat \<times> nat \<times> nat) list"
  pi_max :: nat

definition pipe_is_full :: "pipe \<Rightarrow> bool" where
  "pipe_is_full p \<longleftrightarrow> pi_max p \<le> length (pi_bufs p)"

function splice_loop :: "'e rapi \<Rightarrow> xent \<Rightarrow> nat \<Rightarrow> nat \<Rightarrow> nat \<Rightarrow> nat \<Rightarrow> pipe \<Rightarrow> 'e flt \<Rightarrow> nat \<times> pipe \<times> 'e flt" where
  "splice_loop api e page offset sz spliced p s =
     (if spliced < sz \<and> \<not> pipe_is_full p
      then let part = min (2 ^ k_page_shift (r_k api) - offset) (sz - spliced)
           in splice_loop api e (Suc page) 0 sz (spliced + part) (p\<lparr>pi_bufs := pi_bufs p @ [(xe_id e, page, offset, part)]\<rparr>) (get_refs 1 s)
      else (spliced, p, s))"
  by pat_completeness auto
termination by (relation "measure (\<lambda>(api, e, page, offset, sz, spliced, p, s). pi_max p - length (pi_bufs p))") (auto simp: pipe_is_full_def)

definition splice_folio_into_pipe :: "'e rapi \<Rightarrow> xent \<Rightarrow> int \<Rightarrow> nat \<Rightarrow> pipe \<Rightarrow> 'e flt \<Rightarrow> nat \<times> pipe \<times> 'e flt" where
  "splice_folio_into_pipe api e fpos sz p s =
     (let offset = nat (fpos mod int (folio_size api e)); ps = 2 ^ k_page_shift (r_k api)
      in splice_loop api e (offset div ps) (offset mod ps) (min sz (folio_size api e - offset)) 0 p s)"

text \<open>What \<open>filemap_splice_read\<close> carries: the position, the length that is left, the number of bytes spliced, and the pipe.\<close>

record spl =
  sp_pos :: int
  sp_len :: nat
  sp_total :: nat
  sp_pipe :: pipe

text \<open>The folios of a batch; the boolean says that the loop goes on to the next batch.\<close>

fun splice_folios :: "'e rapi \<Rightarrow> int \<Rightarrow> int \<Rightarrow> xent list \<Rightarrow> spl \<Rightarrow> 'e flt \<Rightarrow> bool \<times> spl \<times> 'e flt" where
  "splice_folios api isize end_offset [] x s = (True, x, s)"
| "splice_folios api isize end_offset (e # es) x s =
     (if end_offset \<le> folio_pos api e then (False, x, s)
      else case splice_folio_into_pipe api e (sp_pos x) (min (sp_len x) (nat (isize - sp_pos x))) (sp_pipe x) s of
             (n, p, s1) \<Rightarrow>
               if n = 0 then (False, x\<lparr>sp_pipe := p\<rparr>, s1)
               else let x1 = \<lparr>sp_pos = sp_pos x + int n, sp_len = sp_len x - n, sp_total = sp_total x + n, sp_pipe = p\<rparr>;
                        s2 = s1\<lparr>fl_ra := (fl_ra s1)\<lparr>fra_prev_pos := word_of_int (sp_pos x1)\<rparr>\<rparr>
                    in if pipe_is_full p then (False, x1, s2) else splice_folios api isize end_offset es x1 s2)"

partial_function (option) splice_rounds :: "'e rapi \<Rightarrow> spl \<Rightarrow> 'e flt \<Rightarrow> (int \<times> spl \<times> 'e flt) option" where
  "splice_rounds api sp s =
     (if r_isize api (fl_cache s) \<le> sp_pos sp then Some (0, sp, s)
      else case filemap_get_pages api \<lparr>ki_pos = sp_pos sp, ki_flags = {}\<rparr> (int (sp_len sp)) True s of
             None \<Rightarrow> None
           | Some (error, y) \<Rightarrow>
               (case y of
                  (fb, s1) \<Rightarrow>
                    if error < 0 then Some (error, sp, s1)
                    else if r_isize api (fl_cache s1) \<le> sp_pos sp then Some (error, sp, get_refs (- int (length fb)) s1)
                    else (case splice_folios api (r_isize api (fl_cache s1)) (min (r_isize api (fl_cache s1)) (sp_pos sp + int (sp_len sp))) fb sp s1 of
                            (go_on, z) \<Rightarrow>
                              (case z of
                                 (x1, s2) \<Rightarrow>
                                   if go_on \<and> sp_len x1 \<noteq> 0 then splice_rounds api x1 (get_refs (- int (length fb)) s2)
                                   else Some (error, x1, get_refs (- int (length fb)) s2)))))"

declare splice_rounds.simps [code]

definition filemap_splice_read :: "'e rapi \<Rightarrow> int \<Rightarrow> pipe \<Rightarrow> nat \<Rightarrow> 'e flt \<Rightarrow> (int \<times> int \<times> pipe \<times> 'e flt) option" where
  "filemap_splice_read api ppos p len s =
     (if r_maxbytes api \<le> ppos then Some (0, ppos, p, s)
      else let npages = pi_max p - length (pi_bufs p); len1 = min len (npages * 2 ^ k_page_shift (r_k api))
           in case splice_rounds api \<lparr>sp_pos = ppos, sp_len = len1, sp_total = 0, sp_pipe = p\<rparr> s of
                None \<Rightarrow> None
              | Some (error, x, s1) \<Rightarrow> Some (if sp_total x \<noteq> 0 then int (sp_total x) else error, sp_pos x, sp_pipe x, s1))"

end
