(* ===== verification/ReadLaws.thy ===== *)
theory ReadLaws
  imports WalkLaws FaultLaws ReadPath
begin

text \<open>
  Laws of reading through the page cache. Whatever other tasks, the file system and the allocator do, a read gives back the references and
  locks it takes and copies the bytes of the file at its position in order; a read of cached pages copies all of them.
\<close>

section \<open>What is documented of the functions\<close>

text \<open>Error numbers are negative, apart from the request to look the folio up again; a copy copies at most what it is asked for.\<close>

definition rapi_ok :: "'e rapi \<Rightarrow> bool" where
  "rapi_ok api \<longleftrightarrow>
     (\<forall>c. map_ok (r_map api c)) \<and> 0 < w_batch_size (r_w api) \<and> r_maxbytes api < 2 ^ 63 \<and> unat (k_min_order (r_k api)) < 31 \<and>
     (\<forall>i p n c. fst (r_copy api i p n c) \<le> n) \<and>
     (\<forall>i c. fst (g_read_folio (r_g api i) c) \<le> 0 \<or> fst (g_read_folio (r_g api i) c) = AOP_TRUNCATED_PAGE) \<and>
     (\<forall>i c. fst (g_wait_locked (r_g api i) c) \<le> 0) \<and> (\<forall>i c. fst (r_lock_async api i c) \<le> 0) \<and>
     (\<forall>e. fst (k_charge (r_k api) e) \<le> 0) \<and> (\<forall>i n e. fst (k_store (r_k api) i n e) \<le> 0)"

definition a_folio :: "'e rapi \<Rightarrow> xent \<Rightarrow> bool" where
  "a_folio api e \<longleftrightarrow> (\<exists>c. e \<in> set (mp_entries (r_map api c)) \<and> \<not> xe_value e) \<or> (\<exists>i c. e = new_folio api i c)"

text \<open>What is up to date is what the file holds.\<close>

definition holds_file :: "'e rapi \<Rightarrow> (int \<Rightarrow> u8) \<Rightarrow> bool" where
  "holds_file api content \<longleftrightarrow>
     (\<forall>c e n. e \<in> set (mp_entries (r_map api c)) \<longrightarrow> \<not> xe_value e \<longrightarrow> xe_uptodate e \<longrightarrow> n < folio_size api e \<longrightarrow>
        r_byte api (xe_id e) n = content (folio_pos api e + int n)) \<and>
     (\<forall>c e n. a_folio api e \<longrightarrow> g_uptodate (r_g api (xe_id e)) c \<longrightarrow> n < folio_size api e \<longrightarrow>
        r_byte api (xe_id e) n = content (folio_pos api e + int n)) \<and>
     (\<forall>f c e p m n. r_partial api = Some f \<longrightarrow> a_folio api e \<longrightarrow> f e p m c \<longrightarrow> n < folio_size api e \<longrightarrow> p \<le> int n \<longrightarrow> int n < p + m \<longrightarrow>
        r_byte api (xe_id e) n = content (folio_pos api e + int n))"

definition supplied :: "'e rapi \<Rightarrow> (int \<Rightarrow> u8) \<Rightarrow> int \<Rightarrow> int \<Rightarrow> xent \<Rightarrow> bool" where
  "supplied api content p m e \<longleftrightarrow>
     (\<forall>n < folio_size api e. p \<le> folio_pos api e + int n \<longrightarrow> folio_pos api e + int n < p + m \<longrightarrow>
        r_byte api (xe_id e) n = content (folio_pos api e + int n))"

lemma uptodate_supplied:
  assumes "holds_file api content" and "a_folio api e" and "filemap_range_uptodate api p m e need c"
  shows "supplied api content p m e"
proof (cases "g_uptodate (r_g api (xe_id e)) c")
  case True
  then show ?thesis using assms(1,2) by (auto simp: holds_file_def supplied_def)
next
  case False
  then obtain f where f: "r_partial api = Some f"
    "if folio_pos api e > p then f e 0 (m - (folio_pos api e - p)) c else f e (p - folio_pos api e) m c"
    using assms(3) by (auto simp: filemap_range_uptodate_def split: if_splits option.splits)
  have law: "f e q k c \<Longrightarrow> n < folio_size api e \<Longrightarrow> q \<le> int n \<Longrightarrow> int n < q + k \<Longrightarrow> r_byte api (xe_id e) n = content (folio_pos api e + int n)" for q k n
    using assms(1,2) f(1) unfolding holds_file_def by blast
  show ?thesis using f(2) law unfolding supplied_def by (auto split: if_splits)
qed

section \<open>What is held\<close>

definition bal :: "int \<Rightarrow> 'e flt \<Rightarrow> 'e flt \<Rightarrow> bool" where
  "bal n s s' \<longleftrightarrow> fl_inval s' = fl_inval s \<and> fl_locks s' = fl_locks s \<and> fl_refs s' = fl_refs s + n"

lemma bal_trans: "bal m s t \<Longrightarrow> bal n t u \<Longrightarrow> bal (m + n) s u"
  by (simp add: bal_def)

lemma bal_refl [simp]: "bal 0 s s"
  by (simp add: bal_def)

lemma get_refs_fields [simp]:
  "fl_inval (get_refs n s) = fl_inval s" "fl_locks (get_refs n s) = fl_locks s" "fl_refs (get_refs n s) = fl_refs s + n"
  "fl_cache (get_refs n s) = fl_cache s" "fl_ra (get_refs n s) = fl_ra s"
  by (simp_all add: get_refs_def)

text \<open>An error number, or the request to look the folio up again.\<close>

definition err_code :: "int \<Rightarrow> bool" where
  "err_code err \<longleftrightarrow> err \<le> 0 \<or> err = AOP_TRUNCATED_PAGE"

lemma err_codes [simp]: "err_code 0" "err_code AOP_TRUNCATED_PAGE" "err_code (- EAGAIN)" "err_code (- EIO)"
  by (simp_all add: err_code_def EAGAIN_def EIO_def)

lemma read_folio_code:
  assumes "rapi_ok api" and "filemap_read_folio (r_g api i) s = (err, s')"
  shows "err_code err" and "err = 0 \<longrightarrow> g_uptodate (r_g api i) (fl_cache s')"
proof -
  obtain e1 c1 where r: "g_read_folio (r_g api i) (fl_cache s) = (e1, c1)" by force
  obtain e2 c2 where w: "g_wait_locked (r_g api i) c1 = (e2, c2)" by force
  have c: "e1 \<le> 0 \<or> e1 = AOP_TRUNCATED_PAGE" "e2 \<le> 0"
    using assms(1) r w unfolding rapi_ok_def by (metis fst_conv)+
  show "err_code err" "err = 0 \<longrightarrow> g_uptodate (r_g api i) (fl_cache s')"
    using assms(2) r w c by (auto simp: filemap_read_folio_def Let_def err_code_def EIO_def split: if_splits)
qed

definition updated :: "'e rapi \<Rightarrow> kiocb \<Rightarrow> int \<Rightarrow> xent \<Rightarrow> bool \<Rightarrow> int \<Rightarrow> bool" where
  "updated api iocb cnt e need err \<longleftrightarrow> err_code err \<and> (err = 0 \<longrightarrow> (\<exists>c. filemap_range_uptodate api (ki_pos iocb) cnt e need c))"

lemma uptodate_range: "g_uptodate (r_g api (xe_id e)) c \<Longrightarrow> filemap_range_uptodate api p m e need c"
  by (simp add: filemap_range_uptodate_def)

lemma update_locked_bal:
  assumes "rapi_ok api" and "update_locked api iocb cnt e need s = (err, s')"
  shows "fl_inval s' = fl_inval s - 1 \<and> fl_locks s' = fl_locks s - 1 \<and> fl_refs s' = fl_refs s - of_bool (err = AOP_TRUNCATED_PAGE) \<and>
    updated api iocb cnt e need err"
proof -
  let ?g = "r_g api (xe_id e)"
  obtain e1 s1 where r: "filemap_read_folio ?g s = (e1, s1)" by force
  note h = read_folio_holds [OF r] read_folio_code [OF assms(1) r]
  have "e1 = 0 \<longrightarrow> (\<exists>c. filemap_range_uptodate api (ki_pos iocb) cnt e need c)" using h uptodate_range by blast
  then show ?thesis using assms(2) r h
    by (auto simp: update_locked_def Let_def unlock_folio_def unlock_mapping_def updated_def EAGAIN_def AOP_TRUNCATED_PAGE_def err_code_def split: if_splits)
qed

lemma update_page_bal:
  assumes "rapi_ok api" and "filemap_update_page api iocb cnt e need s = (err, s')"
  shows "bal (- of_bool (err = AOP_TRUNCATED_PAGE)) s s' \<and> updated api iocb cnt e need err"
proof (cases "IOCB_NOWAIT \<in> ki_flags iocb \<and> \<not> r_inval_trylock api (fl_cache s)")
  case True
  then show ?thesis using assms(2) by (auto simp: filemap_update_page_def bal_def updated_def EAGAIN_def AOP_TRUNCATED_PAGE_def err_code_def)
next
  case False
  let ?s = "s\<lparr>fl_inval := fl_inval s + 1\<rparr>"
  obtain got c where g: "g_trylock (r_g api (xe_id e)) (fl_cache s) = (got, c)" by force
  obtain e1 c1 where a: "r_lock_async api (xe_id e) c = (e1, c1)" by force
  have a0: "e1 \<le> 0" using assms(1) a unfolding rapi_ok_def by (metis fst_conv)
  have u: "update_locked api iocb cnt e need (?s\<lparr>fl_cache := d, fl_locks := fl_locks s + 1\<rparr>) = (err, s') \<Longrightarrow> ?thesis" for d
    using update_locked_bal [OF assms(1)] by (fastforce simp: bal_def)
  show ?thesis
    using assms(2) False g a a0 u by (auto simp: filemap_update_page_def Let_def unlock_mapping_def bal_def updated_def err_code_def EAGAIN_def AOP_TRUNCATED_PAGE_def split: if_splits)
qed

section \<open>Runs of folios\<close>

definition folio_end :: "'e rapi \<Rightarrow> xent \<Rightarrow> int" where
  "folio_end api e = int (hi e) * 2 ^ k_page_shift (r_k api)"

lemma folio_end_size: "folio_end api e = folio_pos api e + int (folio_size api e)"
  by (simp add: folio_end_def folio_pos_def folio_size_def folio_shift_def hi_def power_add algebra_simps)

text \<open>The folios follow each other in the file, and the first one covers the position.\<close>

fun pos_run :: "'e rapi \<Rightarrow> int \<Rightarrow> xent list \<Rightarrow> bool" where
  "pos_run api p [] = True"
| "pos_run api p (e # es) \<longleftrightarrow> ent_ok e \<and> folio_pos api e \<le> p \<and> p < folio_end api e \<and> pos_run api (folio_end api e) es"

lemma pos_run_butlast: "pos_run api p es \<Longrightarrow> pos_run api p (butlast es)"
  by (induction es arbitrary: p) auto

lemma div_bounds:
  fixes p :: int
  assumes "0 < b"
  shows "p div b * b \<le> p" and "p < (p div b + 1) * b"
  using div_mult_mod_eq [of p b] pos_mod_sign [OF assms, of p] pos_mod_bound [OF assms, of p] unfolding distrib_right mult_1 by linarith+

lemma covers_pos:
  assumes "lo e \<le> q" and "q < hi e" and "int q = p div 2 ^ k_page_shift (r_k api)"
  shows "folio_pos api e \<le> p" and "p < folio_end api e"
proof -
  let ?ps = "2 ^ k_page_shift (r_k api) :: int"
  have ps: "0 < ?ps" by simp
  have "int (lo e) \<le> p div ?ps" using assms(1) unfolding assms(3) [symmetric] by (simp only: of_nat_le_iff)
  then have "int (lo e) * ?ps \<le> p div ?ps * ?ps" by (rule mult_right_mono) simp
  then show "folio_pos api e \<le> p" using div_bounds(1) [OF ps, of p] unfolding folio_pos_def by linarith
  have "p < (p div ?ps + 1) * ?ps" by (rule div_bounds(2) [OF ps])
  also have "\<dots> \<le> int (hi e) * ?ps" using assms(2,3) by (intro mult_right_mono) auto
  finally show "p < folio_end api e" by (simp add: folio_end_def)
qed

lemma reading_run_pos:
  assumes "map_ok m" and "reading_run m mx i es" and "int (unat i) = p div 2 ^ k_page_shift (r_k api)"
  shows "pos_run api p es"
  using assms(2,3)
proof (induction es arbitrary: i p)
  case (Cons e es)
  have e: "ent_ok e" "lo e \<le> unat i" "unat i < hi e" using Cons.prems(1) assms(1) by (auto simp: map_ok_def)
  have n: "unat (xe_next e) = hi e" using next_unat e(1) by blast
  have "int (unat (xe_next e)) = folio_end api e div 2 ^ k_page_shift (r_k api)" by (simp add: n folio_end_def)
  from Cons.IH [OF _ this] show ?case using Cons.prems(1) e(1) covers_pos [OF e(2,3) Cons.prems(2)] by simp
qed simp

lemma run_uptodate:
  "reading_run m mx i es \<Longrightarrow> e \<in> set es \<Longrightarrow> e \<in> set (mp_entries m) \<and> \<not> xe_value e"
  "reading_run m mx i es \<Longrightarrow> e \<in> set (butlast es) \<Longrightarrow> xe_uptodate e"
  by (induction es arbitrary: i) (auto split: if_splits)

section \<open>Getting the pages\<close>

lemma create_index_pos:
  assumes "0 \<le> p" and "p < 2 ^ 63" and "unat (k_min_order (r_k api)) < 31"
  shows "pos_run api p [new_folio api (create_index api p) c]"
proof -
  let ?m = "unat (k_min_order (r_k api))" and ?ps = "k_page_shift (r_k api)"
  define q where "q = nat (p div 2 ^ (?ps + ?m))"
  have q: "int q = p div 2 ^ (?ps + ?m)" using assms(1) by (simp add: q_def pos_imp_zdiv_nonneg_iff)
  let ?B = "2 ^ (?ps + ?m) :: int"
  have B: "0 < ?B" by simp
  have b: "int q * ?B \<le> p" "p < int (q + 1) * ?B"
    unfolding q of_nat_add of_nat_1 by (rule div_bounds [OF B])+
  have "int q * 2 ^ ?m * 1 \<le> int q * 2 ^ ?m * 2 ^ ?ps" by (intro mult_left_mono) simp_all
  moreover have "int q * ?B = int q * 2 ^ ?m * 2 ^ ?ps" by (simp add: power_add)
  ultimately have "int q * 2 ^ ?m < 2 ^ 63" using b(1) assms(2) by linarith
  then have "int (q * 2 ^ ?m) < int (2 ^ 63)" by simp
  then have lt: "q * 2 ^ ?m < 2 ^ 63" unfolding of_nat_less_iff .
  have ci: "create_index api p = of_nat (q * 2 ^ ?m)"
    by (simp add: create_index_def q [symmetric] push_bit_eq_mult)
  have u: "unat (create_index api p) = q * 2 ^ ?m" unfolding ci unat_of_nat using lt by (intro mod_less) simp
  let ?e = "new_folio api (create_index api p) c"
  have e: "lo ?e = q * 2 ^ ?m" "xe_order ?e = ?m" "hi ?e = (q + 1) * 2 ^ ?m" using u by (simp_all add: new_folio_def hi_def)
  have "(2::nat) ^ ?m \<le> 2 ^ 30" using assms(3) by (intro power_increasing) auto
  then have "ent_ok ?e" using lt assms(3) e by (simp add: ent_ok_def)
  moreover have "folio_pos api ?e = int q * ?B" "folio_end api ?e = int (q + 1) * ?B"
    using e by (simp_all add: folio_pos_def folio_end_def power_add distrib_right)
  ultimately show ?thesis using b by simp
qed

lemma add_folio_code:
  assumes "rapi_ok api" and "filemap_add_folio (r_k api) index order c = (err, c')"
  shows "err \<le> 0"
proof -
  obtain r1 e1 where r1: "k_charge (r_k api) (pc_env c) = (r1, e1)" by force
  obtain r2 e2 where r2: "k_store (r_k api) index order e1 = (r2, e2)" by force
  have "r1 \<le> 0" "r2 \<le> 0" using assms(1) r1 r2 unfolding rapi_ok_def by (metis fst_conv)+
  then show ?thesis using assms(2) r1 r2 by (auto simp: filemap_add_folio_def filemap_add_folio_locked_def EEXIST_def split: if_splits)
qed

lemma create_folio_bal:
  assumes "rapi_ok api" and "filemap_create_folio api iocb s = (err, fb, s')"
  shows "bal (int (length fb)) s s' \<and> err_code err \<and>
    (if err = 0 then \<exists>c c'. fb = [new_folio api (create_index api (ki_pos iocb)) c] \<and> g_uptodate (r_g api (xe_id (hd fb))) c' else fb = [])"
proof -
  let ?k = "r_k api" and ?o = "k_min_order (r_k api)" and ?i = "create_index api (ki_pos iocb)"
  obtain ok en where a: "k_alloc_folio ?k ?o (pc_env (fl_cache s)) = (ok, en)" by force
  let ?c = "(fl_cache s)\<lparr>pc_env := en\<rparr>"
  let ?e = "new_folio api ?i ?c"
  let ?d = "if IOCB_DONTCACHE \<in> ki_flags iocb then r_set_dropbehind api (xe_id ?e) ?c else ?c"
  obtain e1 c1 where f: "filemap_add_folio ?k ?i ?o ?d = (e1, c1)" by force
  let ?s = "get_refs 1 (s\<lparr>fl_cache := ?d, fl_inval := fl_inval s + 1\<rparr>)"
  obtain e2 s2 where r: "filemap_read_folio (r_g api (xe_id ?e)) (?s\<lparr>fl_cache := c1, fl_locks := fl_locks s + 1\<rparr>) = (e2, s2)" by force
  note h = read_folio_holds [OF r] read_folio_code [OF assms(1) r]
  have h': "fl_inval s2 = fl_inval s + 1" "fl_refs s2 = fl_refs s + 1" "fl_locks s2 = fl_locks s" using h(1) by simp_all
  have e1: "err_code e1" using add_folio_code [OF assms(1) f] by (simp add: err_code_def)
  show ?thesis using assms(2) a f r h(2,3) h' e1
    by (auto simp: filemap_create_folio_def Let_def bal_def EAGAIN_def ENOMEM_def err_code_def AOP_TRUNCATED_PAGE_def split: if_splits)
qed

lemma get_batch_bal:
  assumes "get_batch api iocb i l s = Some (err, fb, s')"
  shows "bal (int (length fb)) s s' \<and> err \<le> 0 \<and> (if err = 0 then \<exists>c. fb = filemap_get_read_batch (r_w api) (r_map api c) i (l - 1) else fb = [])"
  using assms by (auto simp: get_batch_def read_batch_def Let_def bal_def EAGAIN_def split: if_splits option.splits prod.splits)

lemma update_bal:
  assumes "rapi_ok api" and "fb \<noteq> []" and "check_uptodate api iocb cnt need fb s = (err, fb', s')"
  shows "bal (int (length fb') - int (length fb)) s s' \<and>
    (if err = 0 then fb' = fb \<and> (\<exists>c. filemap_range_uptodate api (ki_pos iocb) cnt (List.last fb) need c)
     else fb' = butlast fb \<and> err_code err \<and> (err = AOP_TRUNCATED_PAGE \<longrightarrow> fb' = []))"
proof -
  let ?e = "List.last fb"
  obtain e1 s1 where u: "filemap_update_page api iocb cnt ?e need s = (e1, s1)" by force
  note h = update_page_bal [OF assms(1) u]
  have l: "int (length (butlast fb)) = int (length fb) - 1" using assms(2) by (cases fb) auto
  consider "g_uptodate (r_g api (xe_id ?e)) (fl_cache s)" | "\<not> g_uptodate (r_g api (xe_id ?e)) (fl_cache s)" "length fb > 1"
    | "\<not> g_uptodate (r_g api (xe_id ?e)) (fl_cache s)" "length fb \<le> 1" by fastforce
  then show ?thesis
  proof cases
    case 1
    then show ?thesis using assms(3) uptodate_range [OF 1] by (auto simp: check_uptodate_def Let_def)
  next
    case 2
    then show ?thesis using assms(3) l by (auto simp: check_uptodate_def Let_def drop_last_def bal_def EAGAIN_def AOP_TRUNCATED_PAGE_def err_code_def)
  next
    case 3
    then have "butlast fb = []" using assms(2) by (cases fb) auto
    then show ?thesis using 3 assms(3) l h u by (auto simp: check_uptodate_def Let_def drop_last_def bal_def updated_def err_code_def AOP_TRUNCATED_PAGE_def split: if_splits)
  qed
qed

lemma check_last_bal:
  assumes "rapi_ok api" and "fb \<noteq> []" and "check_last api iocb cnt need l fb s = Some (err, fb', s')"
  shows "bal (int (length fb') - int (length fb)) s s' \<and>
    (if err = 0 then fb' = fb \<and> (\<exists>c. filemap_range_uptodate api (ki_pos iocb) cnt (List.last fb) need c)
     else fb' = butlast fb \<and> err_code err \<and> (err = AOP_TRUNCATED_PAGE \<longrightarrow> fb' = []))"
proof (cases "g_folio_marked (r_g api (xe_id (List.last fb))) (fl_cache s)")
  case False
  then show ?thesis using update_bal [OF assms(1,2)] assms(3) by (auto simp: check_last_def Let_def)
next
  case True
  then obtain e1 s1 where r: "filemap_readahead api iocb (List.last fb) l s = Some (e1, s1)"
    using assms(3) by (auto simp: check_last_def Let_def split: option.splits)
  have b: "bal 0 s s1" "e1 = 0 \<or> e1 = - EAGAIN" using r by (auto simp: filemap_readahead_def bal_def split: if_splits option.splits)
  have l: "int (length (butlast fb)) = int (length fb) - 1" using assms(2) by (cases fb) auto
  show ?thesis
  proof (cases "e1 = 0")
    case z: True
    then have "check_uptodate api iocb cnt need fb s1 = (err, fb', s')" using assms(3) True r by (simp add: check_last_def Let_def)
    from update_bal [OF assms(1,2) this] show ?thesis using bal_trans [OF b(1)] by auto
  next
    case False
    then show ?thesis using assms(3) True r b l by (auto simp: check_last_def Let_def drop_last_def bal_def EAGAIN_def err_code_def AOP_TRUNCATED_PAGE_def)
  qed
qed

text \<open>What \<open>filemap_get_pages\<close> promises: an error and nothing, or a run of folios that hold the bytes of the file at the position.\<close>

definition got_pages :: "'e rapi \<Rightarrow> int \<Rightarrow> int \<Rightarrow> 'e flt \<Rightarrow> int \<times> xent list \<times> 'e flt \<Rightarrow> bool" where
  "got_pages api pos cnt s = (\<lambda>(err, fb, s').
     bal (int (length fb)) s s' \<and> err \<le> 0 \<and>
     (if err = 0 then fb \<noteq> [] \<and> pos_run api pos fb \<and> (\<forall>content. holds_file api content \<longrightarrow> (\<forall>e \<in> set fb. supplied api content pos cnt e))
      else fb = []))"

lemma got_pages_retry: "bal 0 s t \<Longrightarrow> got_pages api pos cnt t r \<Longrightarrow> got_pages api pos cnt s r"
  by (auto simp: got_pages_def bal_def split: prod.splits)

lemma created_pages:
  assumes "rapi_ok api" and "0 \<le> ki_pos iocb" and "ki_pos iocb < 2 ^ 63"
    and "filemap_create_folio api iocb s = (err, fb, s')" and "err \<noteq> AOP_TRUNCATED_PAGE"
  shows "got_pages api (ki_pos iocb) cnt s (err, fb, s')"
proof (cases "err = 0")
  case False
  then show ?thesis using create_folio_bal [OF assms(1,4)] assms(5) by (auto simp: got_pages_def err_code_def)
next
  case True
  let ?p = "ki_pos iocb"
  obtain c c' where n: "fb = [new_folio api (create_index api ?p) c]" "g_uptodate (r_g api (xe_id (hd fb))) c'"
    using create_folio_bal [OF assms(1,4)] True by auto
  have "pos_run api ?p fb" unfolding n(1) using assms(1-3) by (intro create_index_pos) (auto simp: rapi_ok_def)
  moreover have "a_folio api (hd fb)" unfolding n(1) a_folio_def by auto
  then have "holds_file api content \<Longrightarrow> supplied api content ?p cnt (hd fb)" for content
    using uptodate_supplied uptodate_range [OF n(2)] by blast
  ultimately show ?thesis using create_folio_bal [OF assms(1,4)] True n(1) by (auto simp: got_pages_def)
qed

lemma batch_pages:
  assumes ok: "rapi_ok api" and p: "0 \<le> p" "p < 2 ^ 63" and fb: "fb = filemap_get_read_batch (r_w api) (r_map api c) (read_index api p) mx"
  shows "pos_run api p fb" and "e \<in> set fb \<Longrightarrow> a_folio api e"
    and "e \<in> set (butlast fb) \<Longrightarrow> holds_file api content \<Longrightarrow> supplied api content p cnt e"
proof -
  have m: "map_ok (r_map api c)" and w: "0 < w_batch_size (r_w api)" using ok by (auto simp: rapi_ok_def)
  have run: "reading_run (r_map api c) mx (read_index api p) fb"
    using read_batch_loop_run [OF m, of "[]" "r_w api" mx "read_index api p"] w by (auto simp: fb filemap_get_read_batch_def)
  let ?q = "p div 2 ^ k_page_shift (r_k api)"
  have "?q \<le> p" using p(1) by (metis div_by_1 one_le_power zdiv_mono2 zero_less_one one_le_numeral)
  then have "0 \<le> ?q" "?q < 2 ^ 64" using p by (auto simp: pos_imp_zdiv_nonneg_iff)
  then have "int (unat (read_index api p)) = ?q" by (simp add: read_index_def uint_word_of_int)
  then show "pos_run api p fb" by (rule reading_run_pos [OF m run])
  show "a_folio api e" if "e \<in> set fb" using run_uptodate(1) [OF run that] by (auto simp: a_folio_def)
  show "supplied api content p cnt e" if "e \<in> set (butlast fb)" "holds_file api content"
    using run_uptodate(2) [OF run that(1)] run_uptodate(1) [OF run in_set_butlastD [OF that(1)]] that(2)
    unfolding holds_file_def supplied_def by blast
qed

lemma checked_pages:
  assumes ok: "rapi_ok api" and p: "0 \<le> ki_pos iocb" "ki_pos iocb < 2 ^ 63"
    and fb: "fb = filemap_get_read_batch (r_w api) (r_map api d) (read_index api (ki_pos iocb)) mx" "fb \<noteq> []"
    and c: "check_last api iocb cnt need l fb s1 = Some (err, fb', s')" and b: "bal (int (length fb)) s s1"
  shows "err = 0 \<or> fb' \<noteq> [] \<Longrightarrow> got_pages api (ki_pos iocb) cnt s (0, fb', s')"
    and "err \<noteq> 0 \<Longrightarrow> fb' = [] \<Longrightarrow> bal 0 s s' \<and> err_code err"
proof -
  let ?p = "ki_pos iocb"
  note bp = batch_pages [OF ok p fb(1)] and cl = check_last_bal [OF ok fb(2) c]
  have b2: "bal (int (length fb')) s s'" using cl bal_trans [OF b] by fastforce
  show "bal 0 s s' \<and> err_code err" if "err \<noteq> 0" "fb' = []" using b2 cl that by simp
  show "got_pages api ?p cnt s (0, fb', s')" if g: "err = 0 \<or> fb' \<noteq> []"
  proof (cases "err = 0")
    case True
    then obtain u where u: "fb' = fb" "filemap_range_uptodate api ?p cnt (List.last fb) need u" using cl by auto
    have "fb = butlast fb @ [List.last fb]" using fb(2) by simp
    then have mem: "e \<in> set (butlast fb) \<or> e = List.last fb" if "e \<in> set fb" for e using that by (metis Un_iff set_append empty_set list.simps(15) singletonD)
    have "supplied api content ?p cnt e" if "e \<in> set fb" "holds_file api content" for e content
      using mem [OF that(1)] uptodate_supplied [OF that(2) bp(2) [OF that(1)]] u(2) bp(3) that(2) by blast
    then show ?thesis using b2 bp(1) fb(2) u(1) by (auto simp: got_pages_def)
  next
    case False
    then have "fb' = butlast fb" "fb' \<noteq> []" using cl g by auto
    then show ?thesis using b2 pos_run_butlast [OF bp(1)] bp(3) by (auto simp: got_pages_def)
  qed
qed

lemma get_pages_ok:
  assumes ok: "rapi_ok api" and p: "0 \<le> ki_pos iocb" "ki_pos iocb < 2 ^ 63"
    and r: "filemap_get_pages api iocb cnt need s = Some r"
  shows "got_pages api (ki_pos iocb) cnt s r"
proof -
  let ?p = "ki_pos iocb" and ?l = "read_last_index api (ki_pos iocb) cnt"
  have "a = api \<longrightarrow> b = iocb \<longrightarrow> n = cnt \<longrightarrow> got_pages api ?p cnt s r" if "filemap_get_pages a b n need s = Some r" for a b n s r
    using that
  proof (induction a b n need s r rule: filemap_get_pages.raw_induct [rotated, consumes 1, case_names body])
    case (body rec a b n need s r)
    show ?case
    proof (intro impI)
      assume eq: "a = api" "b = iocb" "n = cnt"
      have again: "bal 0 s t \<Longrightarrow> rec api iocb cnt need t = Some r \<Longrightarrow> got_pages api ?p cnt s r" for t
        using body(1) got_pages_retry by blast
      show "got_pages api ?p cnt s r"
      proof (cases "r_signal api (fl_cache s)")
        case True
        then show ?thesis using body(2) eq by (auto simp: got_pages_def EINTR_def)
      next
        case False
        then obtain e1 fb s1 where g: "get_batch api iocb (read_index api ?p) ?l s = Some (e1, fb, s1)"
          using body(2) eq by (auto split: option.splits)
        note gb = get_batch_bal [OF g]
        consider "e1 \<noteq> 0" | "e1 = 0" "fb = []" | "e1 = 0" "fb \<noteq> []" by blast
        then show ?thesis
        proof cases
          case 1
          then show ?thesis using body(2) eq False g gb by (auto simp: got_pages_def split: if_splits)
        next
          case 2
          obtain e2 fb2 s2 where c: "filemap_create_folio api iocb s1 = (e2, fb2, s2)" by (metis prod_cases3)
          have b1: "bal 0 s s1" using gb 2 by simp
          show ?thesis
          proof (cases "e2 = AOP_TRUNCATED_PAGE")
            case True
            then have "bal 0 s1 s2" using create_folio_bal [OF ok c] by (auto simp: AOP_TRUNCATED_PAGE_def)
            then show ?thesis using again bal_trans [OF b1] body(2) eq False g 2 c True by fastforce
          next
            case nt: False
            then show ?thesis using got_pages_retry [OF b1 created_pages [OF ok p c nt]] body(2) eq False g 2 c by simp
          qed
        next
          case 3
          then obtain d where fb: "fb = filemap_get_read_batch (r_w api) (r_map api d) (read_index api ?p) (?l - 1)" using gb by auto
          obtain e2 fb2 s2 where c: "check_last api iocb cnt need ?l fb s1 = Some (e2, fb2, s2)"
            using body(2) eq False g 3 by (auto split: option.splits)
          have b1: "bal (int (length fb)) s s1" using gb by blast
          note ck = checked_pages [OF ok p fb 3(2) c b1]
          have "r = (0, fb2, s2)" if "e2 = 0 \<or> fb2 \<noteq> []" using body(2) eq False g 3 c that by auto
          moreover have "if e2 = AOP_TRUNCATED_PAGE then rec api iocb cnt need s2 = Some r else r = (e2, [], s2)"
            if "e2 \<noteq> 0" "fb2 = []" using body(2) eq False g 3 c that by (auto split: if_splits)
          ultimately show ?thesis using ck again [of s2] by (cases "e2 = 0 \<or> fb2 \<noteq> []") (auto simp: got_pages_def err_code_def split: if_splits)
        qed
      qed
    qed
  qed
  then show ?thesis using r by blast
qed

section \<open>Copying\<close>

text \<open>\<open>n\<close> bytes of the file at the position were copied.\<close>

definition advanced :: "(int \<Rightarrow> u8) \<Rightarrow> nat \<Rightarrow> rd \<Rightarrow> rd \<Rightarrow> bool" where
  "advanced content n r r' \<longleftrightarrow>
     n \<le> it_count (rd_iter r) \<and> it_count (rd_iter r') = it_count (rd_iter r) - n \<and>
     rd_read r' = rd_read r + int n \<and> ki_pos (rd_iocb r') = ki_pos (rd_iocb r) + int n \<and>
     it_data (rd_iter r') = it_data (rd_iter r) @ map (\<lambda>i. content (ki_pos (rd_iocb r) + int i)) [0..<n]"

lemma advanced_0 [simp]: "advanced content 0 r r"
  by (simp add: advanced_def)

lemma advanced_trans:
  assumes "advanced content m r r1" and "advanced content n r1 r2"
  shows "advanced content (m + n) r r2"
proof -
  have "[0..<m + n] = [0..<m] @ map (\<lambda>i. i + m) [0..<n]" using upt_add_eq_append [of 0 m n] by (simp add: map_add_upt add.commute)
  moreover have "m + n \<le> it_count (rd_iter r)" using assms by (auto simp: advanced_def)
  ultimately show ?thesis using assms by (simp add: advanced_def algebra_simps comp_def)
qed

lemma folio_offset:
  assumes "ent_ok e" and "folio_pos api e \<le> p" and "p < folio_end api e"
  shows "p mod int (folio_size api e) = p - folio_pos api e"
proof -
  obtain j where j: "lo e = 2 ^ xe_order e * j" using assms(1) by (auto simp: ent_ok_def dvd_def)
  have "int (lo e) = 2 ^ xe_order e * int j" unfolding j by simp
  then have "folio_pos api e = int (folio_size api e) * int j"
    by (simp add: folio_pos_def folio_size_def folio_shift_def power_add)
  then show ?thesis using assms(2,3) folio_end_size [of api e]
    by (metis add.commute diff_add_cancel diff_ge_0_iff_ge diff_less_eq mod_mult_self2 mod_pos_pos_trivial)
qed

lemma copied_advanced:
  assumes "supplied api content p m e" and "p = ki_pos (rd_iocb r)" and "ent_ok e" and "folio_pos api e \<le> p" and "p < folio_end api e"
    and "int n \<le> m" and "int n \<le> folio_end api e - p" and "n \<le> it_count (rd_iter r)"
  shows "advanced content n r (copied_to api e (nat (p mod int (folio_size api e))) n r)"
proof -
  have o: "p mod int (folio_size api e) = p - folio_pos api e" by (rule folio_offset [OF assms(3-5)])
  have "r_byte api (xe_id e) (nat (p - folio_pos api e) + i) = content (p + int i)" if "i < n" for i
  proof -
    let ?n = "nat (p - folio_pos api e) + i"
    have n: "folio_pos api e + int ?n = p + int i" using assms(4) by simp
    have "int ?n < int (folio_size api e)" using assms(4,7) that folio_end_size [of api e] by simp
    then have "?n < folio_size api e" by (simp only: of_nat_less_iff)
    moreover have "p \<le> folio_pos api e + int ?n" "folio_pos api e + int ?n < p + m" using assms(6) that unfolding n by simp_all
    ultimately have "r_byte api (xe_id e) ?n = content (folio_pos api e + int ?n)" using assms(1) unfolding supplied_def by blast
    then show ?thesis unfolding n .
  qed
  then show ?thesis using assms(2,8) o by (simp add: advanced_def copied_to_def)
qed

lemma copy_step:
  assumes "k = nat (ki_pos (rd_iocb r) mod int (folio_size api e))" and "b = min (nat (stop - ki_pos (rd_iocb r))) (folio_size api e - k)"
    and "r_copy api (xe_id e) k b (fl_cache s) = (n, c)"
  shows "copy_folios api stop (e # es) r s =
    (if stop < folio_pos api e then (0, r, s)
     else if n < b then (- EFAULT, copied_to api e k n r, s\<lparr>fl_cache := c\<rparr>)
     else copy_folios api stop es (copied_to api e k n r) (s\<lparr>fl_cache := c\<rparr>))"
  using assms(3) unfolding assms(1,2) by (simp only: copy_folios.simps Let_def prod.case)

declare copy_folios.simps(2) [simp del]

lemma copied_fields [simp]:
  "ki_pos (rd_iocb (copied_to api e k n r)) = ki_pos (rd_iocb r) + int n" "ki_flags (rd_iocb (copied_to api e k n r)) = ki_flags (rd_iocb r)"
  "it_count (rd_iter (copied_to api e k n r)) = it_count (rd_iter r) - n"
  by (simp_all add: copied_to_def)

lemma copy_at_end:
  assumes "rapi_ok api" and "ki_pos (rd_iocb r) = stop" and "copy_folios api stop fb r s = (err, r', s')"
  shows "advanced content 0 r r' \<and> bal 0 s s' \<and> ki_flags (rd_iocb r') = ki_flags (rd_iocb r) \<and> ki_pos (rd_iocb r') = stop \<and> err = 0"
  using assms(2,3)
proof (induction fb arbitrary: r s)
  case (Cons e es)
  define k where "k = nat (ki_pos (rd_iocb r) mod int (folio_size api e))"
  obtain n c where c: "r_copy api (xe_id e) k 0 (fl_cache s) = (n, c)" by force
  have n: "n = 0" using assms(1) c unfolding rapi_ok_def by (metis fst_conv le_zero_eq)
  let ?r = "copied_to api e k 0 r"
  have "copy_folios api stop (e # es) r s = (if stop < folio_pos api e then (0, r, s) else copy_folios api stop es ?r (s\<lparr>fl_cache := c\<rparr>))"
    using copy_step [OF k_def refl, of stop s n c] c Cons.prems(1) n by simp
  then consider "(err, r', s') = (0, r, s)" | "copy_folios api stop es ?r (s\<lparr>fl_cache := c\<rparr>) = (err, r', s')"
    using Cons.prems(2) by (auto split: if_splits)
  then show ?case
  proof cases
    case 1
    then show ?thesis using Cons.prems(1) by simp
  next
    case 2
    have "advanced content 0 r ?r" by (simp add: advanced_def copied_to_def)
    then show ?thesis using Cons.IH [OF _ 2] Cons.prems(1) advanced_trans [of content 0 r ?r 0 r'] by (simp add: bal_def)
  qed
qed simp

lemma copy_folios_ok:
  assumes "rapi_ok api" and "pos_run api (ki_pos (rd_iocb r)) fb" and "ki_pos (rd_iocb r) \<le> stop"
    and "stop \<le> ki_pos (rd_iocb r) + int (it_count (rd_iter r))" and "\<forall>e \<in> set fb. supplied api content p m e"
    and "p \<le> ki_pos (rd_iocb r)" and "stop \<le> p + m" and "copy_folios api stop fb r s = (err, r', s')"
  shows "\<exists>n. advanced content n r r' \<and> bal 0 s s' \<and> ki_flags (rd_iocb r') = ki_flags (rd_iocb r) \<and> ki_pos (rd_iocb r') \<le> stop \<and> err \<le> 0 \<and>
    (err = 0 \<longrightarrow> fb \<noteq> [] \<longrightarrow> ki_pos (rd_iocb r) < stop \<longrightarrow> 0 < n)"
  using assms(2-8)
proof (induction fb arbitrary: r s)
  case Nil
  then show ?case by (intro exI [of _ 0]) auto
next
  case (Cons e es)
  let ?p = "ki_pos (rd_iocb r)" and ?sz = "folio_size api e"
  have e: "ent_ok e" "folio_pos api e \<le> ?p" "?p < folio_end api e" "pos_run api (folio_end api e) es" using Cons.prems(1) by auto
  define k where "k = nat (?p mod int ?sz)"
  define b where "b = min (nat (stop - ?p)) (?sz - k)"
  have k: "int k = ?p - folio_pos api e" using folio_offset [OF e(1-3)] e(2) by (simp add: k_def)
  have kb: "int (?sz - k) = folio_end api e - ?p" using k e(3) folio_end_size [of api e] by linarith
  obtain n c where c: "r_copy api (xe_id e) k b (fl_cache s) = (n, c)" by force
  note step = copy_step [OF k_def b_def c, of es]
  have n: "n \<le> b" using assms(1) c unfolding rapi_ok_def by (metis fst_conv)
  have bs: "int b \<le> stop - ?p" "int b \<le> folio_end api e - ?p" using Cons.prems(2) kb by (auto simp: b_def)
  let ?r = "copied_to api e k n r"
  have sup: "supplied api content ?p (stop - ?p) e" using Cons.prems(4,5,6) by (auto simp: supplied_def)
  have adv: "advanced content n r ?r" unfolding k_def
    using copied_advanced [OF sup refl e(1-3), of n] n bs Cons.prems(3) by auto
  have pr: "ki_pos (rd_iocb ?r) = ?p + int n" "ki_flags (rd_iocb ?r) = ki_flags (rd_iocb r)" "it_count (rd_iter ?r) = it_count (rd_iter r) - n"
    by simp_all
  have nr: "\<not> stop < folio_pos api e" using e(2) Cons.prems(2) by simp
  show ?case
  proof (cases "n < b")
    case True
    then have "err = - EFAULT" "r' = ?r" "s' = s\<lparr>fl_cache := c\<rparr>"
      using Cons.prems(7) nr step by simp_all
    then show ?thesis using adv pr n bs by (intro exI [of _ n]) (simp add: bal_def EFAULT_def)
  next
    case False
    then have nb: "n = b" using n by simp
    have rest: "copy_folios api stop es ?r (s\<lparr>fl_cache := c\<rparr>) = (err, r', s')"
      using Cons.prems(7) nr nb step by simp
    have n0: "?p < stop \<longrightarrow> 0 < n" using nb kb e(3) by (auto simp: b_def min_def)
    show ?thesis
    proof (cases "ki_pos (rd_iocb ?r) = stop")
      case True
      from copy_at_end [OF assms(1) True rest, of content] show ?thesis
        using advanced_trans [OF adv] True n0 pr(2) by (intro exI [of _ n]) (fastforce simp: bal_def)
    next
      case f: False
      then have at: "ki_pos (rd_iocb ?r) = folio_end api e" using bs kb Cons.prems(2) unfolding pr(1) nb b_def by (auto simp: min_def split: if_splits)
      have le: "ki_pos (rd_iocb ?r) \<le> stop" "stop \<le> ki_pos (rd_iocb ?r) + int (it_count (rd_iter ?r))" "p \<le> ki_pos (rd_iocb ?r)"
        using pr bs nb Cons.prems(3,5) adv by (auto simp: advanced_def)
      obtain j where "advanced content j ?r r'" "bal 0 (s\<lparr>fl_cache := c\<rparr>) s'" "ki_flags (rd_iocb r') = ki_flags (rd_iocb ?r)"
        "ki_pos (rd_iocb r') \<le> stop" "err \<le> 0"
        using Cons.IH [OF _ le(1,2) _ le(3) Cons.prems(6) rest] Cons.prems(4) e(4) unfolding at by auto
      then show ?thesis using advanced_trans [OF adv] n0 pr(2) by (intro exI [of _ "n + j"]) (auto simp: bal_def)
    qed
  qed
qed

section \<open>The read loop\<close>

lemma put_folios_bal: "bal (- int (length fb)) s (put_folios api fb s)"
proof (induction fb arbitrary: s)
  case (Cons e es)
  then show ?case using bal_trans [OF _ Cons.IH, of "- 1" s] by (simp add: bal_def)
qed simp

lemma read_round_ok:
  assumes ok: "rapi_ok api" and run: "pos_run api (ki_pos (rd_iocb r)) fb"
    and sup: "\<forall>e \<in> set fb. supplied api content (ki_pos (rd_iocb r)) (int (it_count (rd_iter r))) e"
    and r: "read_round api fb r s = (err, go, r', s')"
  shows "\<exists>n. advanced content n r r' \<and> bal (- int (length fb)) s s' \<and> err \<le> 0 \<and>
    (go \<longrightarrow> err = 0 \<and> (fb \<noteq> [] \<longrightarrow> 0 < it_count (rd_iter r) \<longrightarrow> 0 < n)) \<and>
    (ki_pos (rd_iocb r) < r_isize api (fl_cache s) \<longrightarrow> ki_pos (rd_iocb r') \<le> r_isize api (fl_cache s))"
proof (cases "r_isize api (fl_cache s) \<le> ki_pos (rd_iocb r)")
  case True
  then show ?thesis using r put_folios_bal by (intro exI [of _ 0]) (auto simp: read_round_def Let_def)
next
  case False
  let ?p = "ki_pos (rd_iocb r)" and ?m = "int (it_count (rd_iter r))"
  let ?stop = "min (r_isize api (fl_cache s)) (?p + ?m)"
  obtain e1 r1 s1 where c: "copy_folios api ?stop fb r s = (e1, r1, s1)" by (metis prod_cases3)
  obtain n where n: "advanced content n r r1" "bal 0 s s1" "e1 \<le> 0" "e1 = 0 \<longrightarrow> fb \<noteq> [] \<longrightarrow> ?p < ?stop \<longrightarrow> 0 < n" "ki_pos (rd_iocb r1) \<le> ?stop"
    using copy_folios_ok [OF ok run _ _ sup order_refl _ c] False by auto
  have e: "err = e1" "r' = r1" "s' = put_folios api fb s1" "go \<longrightarrow> e1 = 0"
    using r False c by (auto simp: read_round_def Let_def)
  have "bal (- int (length fb)) s s'" using bal_trans [OF n(2) put_folios_bal, of fb api] unfolding e(3) by simp
  then show ?thesis using n e False by (intro exI [of _ n]) auto
qed

lemma advanced_flags: "advanced content n (r\<lparr>rd_iocb := read_flags r\<rparr>) r' = advanced content n r r'"
  by (simp add: advanced_def read_flags_def Let_def)

lemma read_flags_pos [simp]: "ki_pos (read_flags r) = ki_pos (rd_iocb r)"
  by (simp add: read_flags_def Let_def)

definition read_done :: "(int \<Rightarrow> u8) \<Rightarrow> rd \<Rightarrow> 'e flt \<Rightarrow> int \<times> rd \<times> 'e flt \<Rightarrow> bool" where
  "read_done content r s = (\<lambda>(err, r', s'). (\<exists>n. advanced content n r r') \<and> bal 0 s s' \<and> err \<le> 0)"

lemma read_done_trans:
  assumes "advanced content n r r1" and "bal 0 s s1" and "read_done content r1 s1 res"
  shows "read_done content r s res"
  using assms(3) advanced_trans [OF assms(1)] bal_trans [OF assms(2)] unfolding read_done_def by fastforce

lemma read_loop_ok:
  assumes ok: "rapi_ok api" and hf: "holds_file api content" and r: "read_loop api r s = Some res"
    and p: "0 \<le> ki_pos (rd_iocb r)" "ki_pos (rd_iocb r) + int (it_count (rd_iter r)) < 2 ^ 63"
  shows "read_done content r s res"
proof -
  have "a = api \<longrightarrow> 0 \<le> ki_pos (rd_iocb r) \<longrightarrow> ki_pos (rd_iocb r) + int (it_count (rd_iter r)) < 2 ^ 63 \<longrightarrow> read_done content r s res"
    if "read_loop a r s = Some res" for a r s res
    using that
  proof (induction a r s res rule: read_loop.raw_induct [rotated, consumes 1, case_names body])
    case (body rec a r0 s res)
    show ?case
    proof (intro impI)
      assume eq: "a = api" and p: "0 \<le> ki_pos (rd_iocb r0)" "ki_pos (rd_iocb r0) + int (it_count (rd_iter r0)) < 2 ^ 63"
      define r where "r = r0\<lparr>rd_iocb := read_flags r0\<rparr>"
      have f: "ki_pos (rd_iocb r) = ki_pos (rd_iocb r0)" "rd_iter r = rd_iter r0" by (simp_all add: r_def)
      have adv: "advanced content n r r' = advanced content n r0 r'" for n r' by (simp add: r_def advanced_flags)
      show "read_done content r0 s res"
      proof (cases "r_isize api (fl_cache s) \<le> ki_pos (rd_iocb r)")
        case True
        then have "res = (0, r, s)" using body(2) eq by (simp add: Let_def r_def)
        then show ?thesis using adv [of 0 r] by (auto simp: read_done_def)
      next
        case False
        then obtain e1 fb s1 where g: "filemap_get_pages api (rd_iocb r) (int (it_count (rd_iter r))) False s = Some (e1, fb, s1)"
          using body(2) eq by (auto simp: Let_def r_def split: option.splits)
        have gp: "got_pages api (ki_pos (rd_iocb r)) (int (it_count (rd_iter r))) s (e1, fb, s1)"
          using get_pages_ok [OF ok _ _ g] p f by simp
        show ?thesis
        proof (cases "e1 < 0")
          case True
          then have "res = (e1, r, s1)" using body(2) eq False g by (simp add: Let_def r_def)
          then show ?thesis using adv [of 0 r] gp True by (auto simp: read_done_def got_pages_def)
        next
          case e: False
          obtain e2 go r1 s2 where rr: "read_round api fb r s1 = (e2, go, r1, s2)" by (metis prod_cases4)
          have fb: "pos_run api (ki_pos (rd_iocb r)) fb" "bal (int (length fb)) s s1"
            "\<forall>x \<in> set fb. supplied api content (ki_pos (rd_iocb r)) (int (it_count (rd_iter r))) x"
            using gp e hf by (auto simp: got_pages_def)
          obtain n where n: "advanced content n r r1" "bal (- int (length fb)) s1 s2" "e2 \<le> 0"
            using read_round_ok [OF ok fb(1,3) rr] by blast
          have b: "bal 0 s s2" using bal_trans [OF fb(2) n(2)] by simp
          show ?thesis
          proof (cases go)
            case True
            then have rec: "rec api r1 s2 = Some res" using body(2) eq False g e rr by (simp add: Let_def r_def)
            have "read_done content r1 s2 res" using body(1) [OF rec] n(1) p f by (auto simp: advanced_def)
            then show ?thesis using read_done_trans [OF _ b] n(1) adv by blast
          next
            case ng: False
            then have "res = (e2, r1, s2)" using body(2) eq False g e rr by (simp add: Let_def r_def)
            then show ?thesis using n b adv by (auto simp: read_done_def)
          qed
        qed
      qed
    qed
  qed
  then show ?thesis using r p by blast
qed

section \<open>Reads of cached pages\<close>

text \<open>Nothing moves: all cached folios are up to date and carry no mark, copies are complete, and no signal is pending.\<close>

definition calm :: "'e rapi \<Rightarrow> 'e cache \<Rightarrow> bool" where
  "calm api c \<longleftrightarrow>
     (\<forall>e \<in> set (mp_entries (r_map api c)). xe_uptodate e \<and> \<not> xe_readahead e \<and> \<not> xe_value e \<and>
        g_uptodate (r_g api (xe_id e)) c \<and> \<not> g_folio_marked (r_g api (xe_id e)) c) \<and>
     (\<forall>i p n. r_copy api i p n c = (n, c)) \<and> (\<forall>i. r_end_dropbehind api i c = c) \<and> \<not> r_signal api c"

definition cached_range :: "'e rapi \<Rightarrow> 'e cache \<Rightarrow> int \<Rightarrow> int \<Rightarrow> bool" where
  "cached_range api c p q \<longleftrightarrow> (\<forall>x. p \<le> x \<and> x < q \<longrightarrow> entry_at (r_map api c) (read_index api x) \<noteq> None)"

lemma word_of_int_mono:
  assumes "0 \<le> x" and "x \<le> y" and "y < 2 ^ 64"
  shows "(word_of_int x :: u64) \<le> word_of_int y"
  using assms by (simp add: word_le_def uint_word_of_int)

lemma index_before_last:
  assumes "0 \<le> p" and "0 < m" and "p + m < 2 ^ 63" and "0 < unat (k_min_nrpages (r_k api))"
    and "int (unat (k_min_nrpages (r_k api))) * 2 ^ k_page_shift (r_k api) < 2 ^ 62"
  shows "read_index api p \<le> read_last_index api p m - 1"
proof -
  let ?ps = "2 ^ k_page_shift (r_k api) :: int"
  define nb where "nb = int (unat (k_min_nrpages (r_k api))) * ?ps"
  have ps: "0 < ?ps" by simp
  have "0 < int (unat (k_min_nrpages (r_k api)))" using assms(4) by (simp only: of_nat_0_less_iff)
  then have nb: "0 < nb" unfolding nb_def using ps by (rule mult_pos_pos)
  define b where "b = (p + m + nb - 1) div nb * nb"
  have "p + m + nb - 1 < ((p + m + nb - 1) div nb + 1) * nb" by (rule div_bounds(2) [OF nb])
  then have b1: "p + m \<le> b" unfolding b_def distrib_right mult_1 by linarith
  have b2: "b \<le> p + m + nb - 1" unfolding b_def by (rule div_bounds(1) [OF nb])
  have dv: "b div ?ps * ?ps = b" unfolding b_def nb_def by simp
  have "p div ?ps * ?ps \<le> p" by (rule div_bounds(1) [OF ps])
  then have "p div ?ps * ?ps < b div ?ps * ?ps" using b1 assms(2) unfolding dv by linarith
  then have lt: "p div ?ps < b div ?ps" by (rule mult_right_less_imp_less) simp
  have p0: "0 \<le> p div ?ps" using assms(1) by (simp add: pos_imp_zdiv_nonneg_iff)
  have "b div ?ps * 1 \<le> b div ?ps * ?ps" using lt p0 by (intro mult_left_mono) auto
  then have "b div ?ps \<le> b" unfolding dv mult_1_right .
  moreover have "nb < 2 ^ 62" using assms(5) by (simp only: nb_def)
  ultimately have top: "b div ?ps < 2 ^ 64" using b2 assms(3) by simp
  have "read_last_index api p m - 1 = word_of_int (b div ?ps - 1)" by (simp add: read_last_index_def b_def nb_def Let_def)
  moreover have "read_index api p \<le> word_of_int (b div ?ps - 1)"
    unfolding read_index_def using lt p0 top by (intro word_of_int_mono) auto
  ultimately show ?thesis by simp
qed

lemma batch_calm:
  assumes "rapi_ok api" and "calm api c" and "entry_at (r_map api c) i = Some e" and "i \<le> mx"
    and fb: "fb = filemap_get_read_batch (r_w api) (r_map api c) i mx"
  shows "fb \<noteq> []" and "x \<in> set fb \<Longrightarrow> g_uptodate (r_g api (xe_id x)) c \<and> \<not> g_folio_marked (r_g api (xe_id x)) c"
proof -
  have m: "map_ok (r_map api c)" and w: "0 < w_batch_size (r_w api)" using assms(1) by (auto simp: rapi_ok_def)
  have run: "reading_run (r_map api c) mx i fb" using read_batch_loop_run [OF m, of "[]" "r_w api" mx i] w by (auto simp: fb filemap_get_read_batch_def)
  show "g_uptodate (r_g api (xe_id x)) c \<and> \<not> g_folio_marked (r_g api (xe_id x)) c" if "x \<in> set fb"
    using run_uptodate(1) [OF run that] assms(2) by (auto simp: calm_def)
  have "e \<in> set (mp_entries (r_map api c))" using entry_at_ok [OF m, of i] assms(3) by (auto simp: entry_ok_at_def)
  then have "\<not> (mx < i \<or> xe_value e)" using assms(2,4) by (auto simp: calm_def)
  moreover have "run_stops (r_w api) (r_map api c) mx i fb"
    using read_batch_loop_run [OF m, of "[]" "r_w api" mx i] w by (auto simp: fb filemap_get_read_batch_def run_stops_def)
  ultimately show "fb \<noteq> []" using assms(3) w by (auto simp: run_stops_def)
qed

lemma get_pages_calm:
  assumes "rapi_ok api" and "calm api (fl_cache s)" and "entry_at (r_map api (fl_cache s)) (read_index api (ki_pos iocb)) \<noteq> None"
    and "read_index api (ki_pos iocb) \<le> read_last_index api (ki_pos iocb) cnt - 1"
  shows "\<exists>fb. fb \<noteq> [] \<and> filemap_get_pages api iocb cnt need s = Some (0, fb, get_refs (int (length fb)) s)"
proof -
  obtain e where e: "entry_at (r_map api (fl_cache s)) (read_index api (ki_pos iocb)) = Some e" using assms(3) by auto
  let ?l = "read_last_index api (ki_pos iocb) cnt"
  define fb where "fb = filemap_get_read_batch (r_w api) (r_map api (fl_cache s)) (read_index api (ki_pos iocb)) (?l - 1)"
  note b = batch_calm [OF assms(1,2) e assms(4) fb_def]
  have u: "g_uptodate (r_g api (xe_id (List.last fb))) (fl_cache s)" "\<not> g_folio_marked (r_g api (xe_id (List.last fb))) (fl_cache s)"
    using b(2) [OF last_in_set [OF b(1)]] by auto
  have g: "get_batch api iocb (read_index api (ki_pos iocb)) ?l s = Some (0, fb, get_refs (int (length fb)) s)"
    using b(1) by (simp add: get_batch_def read_batch_def Let_def fb_def [symmetric])
  have "check_last api iocb cnt need ?l fb (get_refs (int (length fb)) s) = Some (0, fb, get_refs (int (length fb)) s)"
    using u by (simp add: check_last_def check_uptodate_def Let_def)
  moreover have "\<not> r_signal api (fl_cache s)" using assms(2) by (simp add: calm_def)
  ultimately have "filemap_get_pages api iocb cnt need s = Some (0, fb, get_refs (int (length fb)) s)"
    using g b(1) by (subst filemap_get_pages.simps) simp
  then show ?thesis using b(1) by blast
qed

lemma copy_calm:
  assumes "calm api c" and "fl_cache s = c" and "copy_folios api stop fb r s = (err, r', s')"
  shows "err = 0 \<and> fl_cache s' = c"
  using assms(2,3)
proof (induction fb arbitrary: r s)
  case (Cons e es)
  define k where "k = nat (ki_pos (rd_iocb r) mod int (folio_size api e))"
  define b where "b = min (nat (stop - ki_pos (rd_iocb r))) (folio_size api e - k)"
  have "r_copy api (xe_id e) k b (fl_cache s) = (b, c)" using assms(1) Cons.prems(1) by (simp add: calm_def)
  from copy_step [OF k_def b_def this, of es] show ?case
    using Cons.IH [of "s\<lparr>fl_cache := c\<rparr>" "copied_to api e k b r"] Cons.prems by (auto split: if_splits)
qed simp

lemma put_calm: "calm api (fl_cache s) \<Longrightarrow> fl_cache (put_folios api fb s) = fl_cache s"
  by (induction fb arbitrary: s) (simp_all add: calm_def)

text \<open>A file system whose smallest folio is not empty and not larger than the address space.\<close>

definition small_folios :: "'e rapi \<Rightarrow> bool" where
  "small_folios api \<longleftrightarrow> 0 < unat (k_min_nrpages (r_k api)) \<and> int (unat (k_min_nrpages (r_k api))) * 2 ^ k_page_shift (r_k api) < 2 ^ 62"

lemma read_loop_cached:
  assumes ok: "rapi_ok api" "holds_file api content" "small_folios api" and calm: "calm api c"
    and "fl_cache s = c" and "0 \<le> ki_pos (rd_iocb r0)" and "ki_pos (rd_iocb r0) + int (it_count (rd_iter r0)) < 2 ^ 63" and "0 < it_count (rd_iter r0)"
    and "cached_range api c (ki_pos (rd_iocb r0)) (r_isize api c)"
  shows "\<exists>r' s'. read_loop api r0 s = Some (0, r', s') \<and> fl_cache s' = c \<and>
    advanced content (nat (min (r_isize api c) (ki_pos (rd_iocb r0) + int (it_count (rd_iter r0))) - ki_pos (rd_iocb r0))) r0 r'"
  using assms(5-)
proof (induction "it_count (rd_iter r0)" arbitrary: r0 s rule: less_induct)
  case less
  define r where "r = r0\<lparr>rd_iocb := read_flags r0\<rparr>"
  let ?p = "ki_pos (rd_iocb r)" and ?m = "int (it_count (rd_iter r))" and ?L = "r_isize api c"
  have f: "ki_pos (rd_iocb r0) = ?p" "rd_iter r0 = rd_iter r" by (simp_all add: r_def)
  have adv: "advanced content n r r' = advanced content n r0 r'" for n r' by (simp add: r_def advanced_flags)
  show ?case
  proof (cases "?L \<le> ?p")
    case True
    then have "read_loop api r0 s = Some (0, r, s)" using less.prems(1) by (subst read_loop.simps) (simp add: Let_def r_def)
    then show ?thesis using True less.prems(1) adv [of 0 r] f by (intro exI [of _ r] exI [of _ s]) simp
  next
    case False
    have "read_index api ?p \<le> read_last_index api ?p ?m - 1"
      using ok(3) less.prems(2-4) f unfolding small_folios_def by (intro index_before_last) auto
    moreover have "entry_at (r_map api c) (read_index api ?p) \<noteq> None" using less.prems(5) False f by (simp add: cached_range_def)
    ultimately obtain fb where fb: "fb \<noteq> []" "filemap_get_pages api (rd_iocb r) ?m False s = Some (0, fb, get_refs (int (length fb)) s)"
      using get_pages_calm [OF ok(1)] calm less.prems(1) by metis
    let ?s = "get_refs (int (length fb)) s"
    have gp: "got_pages api ?p ?m s (0, fb, ?s)" using get_pages_ok [OF ok(1) _ _ fb(2)] less.prems(2,3) f by simp
    then have run: "pos_run api ?p fb" "\<forall>e \<in> set fb. supplied api content ?p ?m e" using ok(2) by (auto simp: got_pages_def)
    obtain e1 r1 s1 where cp: "copy_folios api (min ?L (?p + ?m)) fb r ?s = (e1, r1, s1)" by (metis prod_cases3)
    have e1: "e1 = 0" "fl_cache s1 = c" using copy_calm [OF calm _ cp] less.prems(1) by simp_all
    let ?go = "0 < it_count (rd_iter r1) \<and> ki_pos (rd_iocb r1) < ?L" and ?s2 = "put_folios api fb s1"
    have rr: "read_round api fb r ?s = (0, ?go, r1, ?s2)" using cp e1 False less.prems(1) by (simp add: read_round_def Let_def)
    have c2: "fl_cache ?s2 = c" using put_calm [of api s1 fb] e1(2) calm by simp
    obtain n where n: "advanced content n r r1" "?go \<longrightarrow> 0 < n" "ki_pos (rd_iocb r1) \<le> ?L"
      using read_round_ok [OF ok(1) run rr] fb(1) less.prems(1,4) False f by auto
    have e: "read_loop api r0 s = (if ?go then read_loop api r1 ?s2 else Some (0, r1, ?s2))"
      using False fb(2) rr less.prems(1) by (subst read_loop.simps) (simp add: Let_def r_def)
    have p1: "ki_pos (rd_iocb r1) = ?p + int n" "int (it_count (rd_iter r1)) = ?m - int n" "int n \<le> ?m" using n(1) by (auto simp: advanced_def)
    show ?thesis
    proof (cases ?go)
      case True
      then have lt: "it_count (rd_iter r1) < it_count (rd_iter r0)" using n(2) p1 f by auto
      have "cached_range api c (ki_pos (rd_iocb r1)) ?L" using less.prems(5) p1(1) f(1) by (auto simp: cached_range_def)
      then obtain r' s' where r': "read_loop api r1 ?s2 = Some (0, r', s')" "fl_cache s' = c"
        "advanced content (nat (min ?L (ki_pos (rd_iocb r1) + int (it_count (rd_iter r1))) - ki_pos (rd_iocb r1))) r1 r'"
        using less.hyps [OF lt c2] less.prems(2,3) True p1 f by auto
      have "n + nat (min ?L (?p + ?m) - (?p + int n)) = nat (min ?L (?p + ?m) - ?p)" using True p1 by auto
      then have "advanced content (nat (min ?L (?p + ?m) - ?p)) r r'" using advanced_trans [OF n(1) r'(3)] p1 by simp
      then show ?thesis using e True r' adv f by auto
    next
      case ng: False
      then have "nat (min ?L (?p + ?m) - ?p) = n" using n(3) p1 by auto
      then have "advanced content (nat (min ?L (?p + ?m) - ?p)) r0 r1" using n(1) adv by simp
      then show ?thesis using e ng c2 f by (intro exI [of _ r1] exI [of _ ?s2]) simp
    qed
  qed
qed

end
