(* ===== verification/SpliceLaws.thy ===== *)
theory SpliceLaws
  imports ReadLaws
begin

text \<open>
  Laws of splicing: the buffers that a splice puts into a pipe are, one after the other, the bytes of the file at the position,
  and each of them holds one reference on its folio.
\<close>

definition buf_bytes :: "'e rapi \<Rightarrow> nat \<times> nat \<times> nat \<times> nat \<Rightarrow> u8 list" where
  "buf_bytes api = (\<lambda>(i, page, offset, len). map (\<lambda>j. r_byte api i (page * 2 ^ k_page_shift (r_k api) + offset + j)) [0..<len])"

definition bufs_bytes :: "'e rapi \<Rightarrow> (nat \<times> nat \<times> nat \<times> nat) list \<Rightarrow> u8 list" where
  "bufs_bytes api bs = concat (map (buf_bytes api) bs)"

lemma bufs_bytes_simps [simp]: "bufs_bytes api [] = []" "bufs_bytes api (b # bs) = buf_bytes api b @ bufs_bytes api bs"
  "bufs_bytes api (as @ bs) = bufs_bytes api as @ bufs_bytes api bs"
  by (simp_all add: bufs_bytes_def)

declare splice_loop.simps [simp del]

lemma shift_upt: "map (\<lambda>i. f (i + m)) [0..<n] = map f [m..<m + n]"
  by (induction n) (simp_all add: add.commute)

text \<open>The buffers made from one folio.\<close>

lemma splice_loop_ok:
  assumes "offset < 2 ^ k_page_shift (r_k api)" and "spliced \<le> sz" and "splice_loop api e page offset sz spliced p s = (n, p', s')"
  shows "\<exists>bs. pi_bufs p' = pi_bufs p @ bs \<and> pi_max p' = pi_max p \<and> spliced \<le> n \<and> n \<le> sz \<and> bal (int (length bs)) s s' \<and> fl_cache s' = fl_cache s \<and>
    bufs_bytes api bs = map (\<lambda>i. r_byte api (xe_id e) (page * 2 ^ k_page_shift (r_k api) + offset + i)) [0..<n - spliced] \<and>
    (n = spliced \<longrightarrow> bs = []) \<and> (\<not> pipe_is_full p' \<longrightarrow> n = sz)"
  using assms
proof (induction "pi_max p - length (pi_bufs p)" arbitrary: page offset spliced p s rule: less_induct)
  case less
  let ?ps = "2 ^ k_page_shift (r_k api) :: nat"
  show ?case
  proof (cases "spliced < sz \<and> \<not> pipe_is_full p")
    case False
    then have "n = spliced" "p' = p" "s' = s" using less.prems(3) by (auto simp: splice_loop.simps [of api e])
    then show ?thesis using less.prems(2) False by (intro exI [of _ "[]"]) auto
  next
    case True
    define part where "part = min (?ps - offset) (sz - spliced)"
    define b where "b = (xe_id e, page, offset, part)"
    let ?p = "p\<lparr>pi_bufs := pi_bufs p @ [b]\<rparr>"
    have r: "splice_loop api e (Suc page) 0 sz (spliced + part) ?p (get_refs 1 s) = (n, p', s')"
      using less.prems(3) True by (simp add: splice_loop.simps [of api e page] Let_def part_def b_def)
    have part: "0 < part" "spliced + part \<le> sz" using True less.prems(1) by (auto simp: part_def)
    have m: "pi_max ?p - length (pi_bufs ?p) < pi_max p - length (pi_bufs p)" using True by (auto simp: pipe_is_full_def)
    obtain bs where bs: "pi_bufs p' = pi_bufs ?p @ bs" "pi_max p' = pi_max p" "spliced + part \<le> n" "n \<le> sz"
      "bal (int (length bs)) (get_refs 1 s) s'" "fl_cache s' = fl_cache s"
      "bufs_bytes api bs = map (\<lambda>i. r_byte api (xe_id e) (Suc page * ?ps + i)) [0..<n - (spliced + part)]" "\<not> pipe_is_full p' \<longrightarrow> n = sz"
      using less.hyps [OF m _ part(2) r] by auto
    have "Suc page * ?ps = page * ?ps + offset + part" if "n \<noteq> spliced + part"
      using that bs(3,4) less.prems(1) by (auto simp: part_def min_def split: if_splits)
    then have tail: "bufs_bytes api bs = map (\<lambda>i. r_byte api (xe_id e) (page * ?ps + offset + (i + part))) [0..<n - (spliced + part)]"
      using bs(7) by (cases "n = spliced + part") (simp_all add: algebra_simps)
    have "[0..<n - spliced] = [0..<part] @ [part..<part + (n - (spliced + part))]"
      using upt_add_eq_append [of 0 part "n - (spliced + part)"] bs(3) by simp
    then have "bufs_bytes api (b # bs) = map (\<lambda>i. r_byte api (xe_id e) (page * ?ps + offset + i)) [0..<n - spliced]"
      using tail shift_upt [of "\<lambda>i. r_byte api (xe_id e) (page * ?ps + offset + i)" part] by (simp add: b_def buf_bytes_def)
    then show ?thesis using bs part by (intro exI [of _ "b # bs"]) (auto simp: bal_def)
  qed
qed

text \<open>What was spliced: the buffers \<open>bs\<close> hold \<open>n\<close> bytes of the file at the position.\<close>

definition spliced_by :: "'e rapi \<Rightarrow> (int \<Rightarrow> u8) \<Rightarrow> nat \<Rightarrow> (nat \<times> nat \<times> nat \<times> nat) list \<Rightarrow> spl \<Rightarrow> spl \<Rightarrow> bool" where
  "spliced_by api content n bs x x' \<longleftrightarrow> n \<le> sp_len x \<and> sp_len x' = sp_len x - n \<and> sp_total x' = sp_total x + n \<and> sp_pos x' = sp_pos x + int n \<and>
     pi_bufs (sp_pipe x') = pi_bufs (sp_pipe x) @ bs \<and> bufs_bytes api bs = map (\<lambda>i. content (sp_pos x + int i)) [0..<n]"

lemma spliced_0 [simp]: "spliced_by api content 0 [] x x"
  by (simp add: spliced_by_def)

lemma spliced_trans:
  assumes "spliced_by api content m as x y" and "spliced_by api content n bs y z"
  shows "spliced_by api content (m + n) (as @ bs) x z"
proof -
  have "map (\<lambda>i. content (sp_pos y + int i)) [0..<n] = map (\<lambda>i. content (sp_pos x + int i)) [m..<m + n]"
    using shift_upt [of "\<lambda>i. content (sp_pos x + int i)" m n] assms(1) by (simp add: spliced_by_def algebra_simps)
  moreover have "[0..<m + n] = [0..<m] @ [m..<m + n]" using upt_add_eq_append [of 0 m n] by simp
  moreover have "m + n \<le> sp_len x" using assms by (auto simp: spliced_by_def)
  ultimately show ?thesis using assms by (simp add: spliced_by_def)
qed

lemma splice_folio_ok:
  assumes "ent_ok e" and "folio_pos api e \<le> fpos" and "fpos < folio_end api e" and "supplied api content fpos (int sz) e"
    and "splice_folio_into_pipe api e fpos sz p s = (n, p', s')"
  shows "\<exists>bs. pi_bufs p' = pi_bufs p @ bs \<and> pi_max p' = pi_max p \<and> n \<le> sz \<and> int n \<le> folio_end api e - fpos \<and> bal (int (length bs)) s s' \<and>
    fl_cache s' = fl_cache s \<and> bufs_bytes api bs = map (\<lambda>i. content (fpos + int i)) [0..<n] \<and> (n = 0 \<longrightarrow> bs = []) \<and>
    (\<not> pipe_is_full p' \<longrightarrow> n = sz \<or> int n = folio_end api e - fpos)"
proof -
  let ?ps = "2 ^ k_page_shift (r_k api) :: nat"
  define k where "k = nat (fpos mod int (folio_size api e))"
  have k: "int k = fpos - folio_pos api e" using folio_offset [OF assms(1-3)] assms(2) by (simp add: k_def)
  have kb: "int (folio_size api e - k) = folio_end api e - fpos" using k assms(3) folio_end_size [of api e] by linarith
  have r: "splice_loop api e (k div ?ps) (k mod ?ps) (min sz (folio_size api e - k)) 0 p s = (n, p', s')"
    using assms(5) by (simp add: splice_folio_into_pipe_def Let_def k_def)
  obtain bs where bs: "pi_bufs p' = pi_bufs p @ bs" "pi_max p' = pi_max p" "n \<le> min sz (folio_size api e - k)"
    "bal (int (length bs)) s s'" "fl_cache s' = fl_cache s" "n = 0 \<longrightarrow> bs = []"
    "bufs_bytes api bs = map (\<lambda>i. r_byte api (xe_id e) (k div ?ps * ?ps + k mod ?ps + i)) [0..<n]"
    "\<not> pipe_is_full p' \<longrightarrow> n = min sz (folio_size api e - k)"
    using splice_loop_ok [OF _ _ r] by auto
  have n: "n \<le> sz" "int n \<le> folio_end api e - fpos" using bs(3) kb by auto
  have "r_byte api (xe_id e) (k + i) = content (fpos + int i)" if "i < n" for i
  proof -
    have at: "folio_pos api e + int (k + i) = fpos + int i" using k by simp
    have "int (k + i) < int (folio_size api e)" using that n(2) k folio_end_size [of api e] by simp
    then have "k + i < folio_size api e" by (simp only: of_nat_less_iff)
    moreover have "fpos \<le> folio_pos api e + int (k + i)" "folio_pos api e + int (k + i) < fpos + int sz" using that n(1) unfolding at by simp_all
    ultimately have "r_byte api (xe_id e) (k + i) = content (folio_pos api e + int (k + i))" using assms(4) unfolding supplied_def by blast
    then show ?thesis unfolding at .
  qed
  then have "bufs_bytes api bs = map (\<lambda>i. content (fpos + int i)) [0..<n]" unfolding bs(7) div_mult_mod_eq by simp
  moreover have "\<not> pipe_is_full p' \<longrightarrow> n = sz \<or> int n = folio_end api e - fpos" using bs(8) kb by (auto simp: min_def)
  ultimately show ?thesis using bs(1,2,4-6) n by blast
qed

lemma splice_nothing: "splice_folio_into_pipe api e fpos 0 p s = (0, p, s)"
  by (simp add: splice_folio_into_pipe_def Let_def splice_loop.simps)

declare splice_folios.simps(2) [simp del]

lemma splice_folios_ok:
  assumes "pos_run api (sp_pos x) fb \<or> sp_len x = 0 \<or> isize \<le> sp_pos x" and "\<forall>e \<in> set fb. supplied api content p m e"
    and "p \<le> sp_pos x" and "sp_pos x + int (sp_len x) \<le> p + m" and "splice_folios api isize stop fb x s = (go, x', s')"
  shows "\<exists>n bs. spliced_by api content n bs x x' \<and> bal (int (length bs)) s s'"
  using assms
proof (induction fb arbitrary: x s)
  case Nil
  then show ?case by (intro exI [of _ 0] exI [of _ "[]"]) simp
next
  case (Cons e es)
  let ?sz = "min (sp_len x) (nat (isize - sp_pos x))"
  obtain n q s1 where q: "splice_folio_into_pipe api e (sp_pos x) ?sz (sp_pipe x) s = (n, q, s1)" by (metis prod_cases3)
  show ?case
  proof (cases "stop \<le> folio_pos api e \<or> ?sz = 0")
    case True
    then have "splice_folios api isize stop (e # es) x s = (False, x, s)"
      using splice_nothing [of api e "sp_pos x" "sp_pipe x" s] by (cases "stop \<le> folio_pos api e") (simp_all add: splice_folios.simps(2))
    then have "spliced_by api content 0 [] x x' \<and> s' = s" using Cons.prems(5) by (simp only: prod.inject spliced_0 simp_thms)
    then show ?thesis by (intro exI [of _ 0] exI [of _ "[]"]) simp
  next
    case False
    then have e: "ent_ok e" "folio_pos api e \<le> sp_pos x" "sp_pos x < folio_end api e" "pos_run api (folio_end api e) es"
      using Cons.prems(1) by auto
    have "supplied api content (sp_pos x) (int ?sz) e" using Cons.prems(2-4) by (auto simp: supplied_def)
    note fo = splice_folio_ok [OF e(1-3) this q]
    obtain bs where bs: "pi_bufs q = pi_bufs (sp_pipe x) @ bs" "n \<le> ?sz" "int n \<le> folio_end api e - sp_pos x"
      "bal (int (length bs)) s s1" "bufs_bytes api bs = map (\<lambda>i. content (sp_pos x + int i)) [0..<n]" "n = 0 \<longrightarrow> bs = []"
      "\<not> pipe_is_full q \<longrightarrow> n = ?sz \<or> int n = folio_end api e - sp_pos x"
      using fo by (elim exE conjE, intro that) assumption+
    define y where "y = \<lparr>sp_pos = sp_pos x + int n, sp_len = sp_len x - n, sp_total = sp_total x + n, sp_pipe = q\<rparr>"
    define s2 where "s2 = s1\<lparr>fl_ra := (fl_ra s1)\<lparr>fra_prev_pos := word_of_int (sp_pos y)\<rparr>\<rparr>"
    have y: "spliced_by api content n bs x y" using bs by (simp add: spliced_by_def y_def)
    have b2: "bal (int (length bs)) s s2" using bs(4) by (simp add: bal_def s2_def)
    have step: "splice_folios api isize stop (e # es) x s =
        (if n = 0 then (False, x\<lparr>sp_pipe := q\<rparr>, s1) else if pipe_is_full q then (False, y, s2) else splice_folios api isize stop es y s2)"
      using False q by (simp add: splice_folios.simps(2) y_def s2_def)
    consider "n = 0" "x' = x\<lparr>sp_pipe := q\<rparr>" "s' = s1" | "x' = y" "s' = s2" | "\<not> pipe_is_full q" "splice_folios api isize stop es y s2 = (go, x', s')"
      using Cons.prems(5) step by (metis prod.inject)
    then show ?thesis
    proof cases
      case 1
      then show ?thesis using bs by (intro exI [of _ 0] exI [of _ "[]"]) (simp add: spliced_by_def)
    next
      case 2
      then show ?thesis using y b2 by blast
    next
      case 3
      then have "sp_len y = 0 \<or> isize \<le> sp_pos y \<or> sp_pos y = folio_end api e" using bs(7) by (auto simp: y_def min_def split: if_splits)
      then have run: "pos_run api (sp_pos y) es \<or> sp_len y = 0 \<or> isize \<le> sp_pos y" using e(4) by auto
      have le: "p \<le> sp_pos y" "sp_pos y + int (sp_len y) \<le> p + m" using Cons.prems(3,4) bs(2) by (auto simp: y_def)
      obtain j cs where "spliced_by api content j cs y x'" "bal (int (length cs)) s2 s'"
        using Cons.IH [OF run _ le 3(2)] Cons.prems(2) by auto
      then show ?thesis using spliced_trans [OF y] bal_trans [OF b2] by (intro exI [of _ "n + j"] exI [of _ "bs @ cs"]) auto
    qed
  qed
qed

definition splice_done :: "'e rapi \<Rightarrow> (int \<Rightarrow> u8) \<Rightarrow> spl \<Rightarrow> 'e flt \<Rightarrow> int \<times> spl \<times> 'e flt \<Rightarrow> bool" where
  "splice_done api content x s = (\<lambda>(err, x', s'). \<exists>n bs. spliced_by api content n bs x x' \<and> bal (int (length bs)) s s' \<and> err \<le> 0)"

lemma splice_done_trans:
  assumes "spliced_by api content n bs x y" and "bal (int (length bs)) s t" and "splice_done api content y t res"
  shows "splice_done api content x s res"
proof -
  obtain err z u where res: "res = (err, z, u)" by (metis prod_cases3)
  then obtain j cs where "spliced_by api content j cs y z" "bal (int (length cs)) t u" "err \<le> 0" using assms(3) by (auto simp: splice_done_def)
  then show ?thesis using spliced_trans [OF assms(1)] bal_trans [OF assms(2)] unfolding res splice_done_def
    by (auto intro!: exI [of _ "n + j"] exI [of _ "bs @ cs"])
qed

lemma splice_rounds_ok:
  assumes ok: "rapi_ok api" and hf: "holds_file api content" and sz: "\<forall>c. r_isize api c \<le> r_maxbytes api"
    and r: "splice_rounds api x s = Some res" and p: "0 \<le> sp_pos x"
  shows "splice_done api content x s res"
proof -
  have "a = api \<longrightarrow> 0 \<le> sp_pos x \<longrightarrow> splice_done api content x s res" if "splice_rounds a x s = Some res" for a x s res
    using that
  proof (induction a x s res rule: splice_rounds.raw_induct [rotated, consumes 1, case_names body])
    case (body rec a x s res)
    show ?case
    proof (intro impI)
      assume eq: "a = api" and p: "0 \<le> sp_pos x"
      have here: "bal 0 s t \<Longrightarrow> err \<le> 0 \<Longrightarrow> splice_done api content x s (err, x, t)" for err t
        unfolding splice_done_def by (auto intro!: exI [of _ 0] exI [of _ "[]"])
      show "splice_done api content x s res"
      proof (cases "r_isize api (fl_cache s) \<le> sp_pos x")
        case True
        then show ?thesis using body(2) eq here [of s 0] by auto
      next
        case False
        let ?iocb = "\<lparr>ki_pos = sp_pos x, ki_flags = {}\<rparr>"
        obtain e1 fb s1 where g: "filemap_get_pages api ?iocb (int (sp_len x)) True s = Some (e1, fb, s1)"
          using body(2) eq False by (auto split: option.splits)
        have "sp_pos x < 2 ^ 63" using False sz ok by (meson less_trans not_le order_less_le_trans rapi_ok_def)
        then have gp: "got_pages api (sp_pos x) (int (sp_len x)) s (e1, fb, s1)" using get_pages_ok [OF ok _ _ g] p by simp
        let ?L = "r_isize api (fl_cache s1)" and ?put = "get_refs (- int (length fb))"
        have "e1 \<le> 0" using gp by (simp add: got_pages_def)
        then consider "e1 < 0" | "e1 = 0" "?L \<le> sp_pos x" | "e1 = 0" "sp_pos x < ?L" by linarith
        then show ?thesis
        proof cases
          case 1
          then show ?thesis using body(2) eq False g gp here by (auto simp: got_pages_def)
        next
          case 2
          then have "res = (0, x, ?put s1)" using body(2) eq False g by simp
          then show ?thesis using gp here by (auto simp: got_pages_def bal_def)
        next
          case 3
          obtain go x1 s2 where sf: "splice_folios api ?L (min ?L (sp_pos x + int (sp_len x))) fb x s1 = (go, x1, s2)" by (metis prod_cases3)
          have fb: "pos_run api (sp_pos x) fb" "\<forall>e \<in> set fb. supplied api content (sp_pos x) (int (sp_len x)) e" "bal (int (length fb)) s s1"
            using gp 3(1) hf by (auto simp: got_pages_def)
          obtain n bs where n: "spliced_by api content n bs x x1" "bal (int (length bs)) s1 s2"
            using splice_folios_ok [OF _ fb(2) order_refl order_refl sf] fb(1) by blast
          have b: "bal (int (length bs)) s (?put s2)" using fb(3) n(2) by (simp add: bal_def)
          have "if go \<and> sp_len x1 \<noteq> 0 then rec api x1 (?put s2) = Some res else res = (0, x1, ?put s2)"
            using body(2) eq False g 3 sf by (auto split: if_splits)
          moreover have "0 \<le> sp_pos x1" using n(1) p by (simp add: spliced_by_def)
          then have "rec api x1 (?put s2) = Some res \<Longrightarrow> splice_done api content x s res" using body(1) splice_done_trans [OF n(1) b] by blast
          moreover have "splice_done api content x s (0, x1, ?put s2)" using n(1) b by (auto simp: splice_done_def)
          ultimately show ?thesis by (auto split: if_splits)
        qed
      qed
    qed
  qed
  then show ?thesis using r p by blast
qed

end
