(* ===== verification/ReadRuns.thy ===== *)
theory ReadRuns
  imports SpliceLaws
begin

text \<open>
  What reading through the page cache promises, over the laws of \<open>ReadLaws\<close> and \<open>SpliceLaws\<close>, with a small file as an example.
\<close>

section \<open>Promises\<close>

text \<open>
  C6: A buffered read copies the file. However other tasks, the file system, read-ahead and the allocator behave, when filemap_read
  returns, it has copied some number of bytes, at most as many as asked for, and these are the bytes of the file from the position on, in
  order; the position has moved by that number, which the result adds to what was read before, or nothing was copied and the
  result is an error or 0. References on folios, folio locks and the invalidate lock are given back.
\<close>

theorem filemap_read_copies_file:
  assumes "rapi_ok api" and "holds_file api content" and "0 \<le> already_read"
    and "filemap_read api iocb it already_read s = Some (ret, iocb', it', s')"
  shows "\<exists>n \<le> it_count it. ki_pos iocb' = ki_pos iocb + int n \<and>
    it_data it' = it_data it @ map (\<lambda>i. content (ki_pos iocb + int i)) [0..<n] \<and>
    (ret = already_read + int n \<or> n = 0 \<and> ret \<le> 0) \<and>
    fl_inval s' = fl_inval s \<and> fl_locks s' = fl_locks s \<and> fl_refs s' = fl_refs s"
proof (cases "ki_pos iocb < 0 \<or> r_maxbytes api \<le> ki_pos iocb \<or> it_count it = 0")
  case True
  then show ?thesis using assms(4) by (intro exI [of _ 0]) (auto simp: filemap_read_def EINVAL_def split: if_splits)
next
  case False
  define r where "r = \<lparr>rd_iocb = iocb, rd_iter = it\<lparr>it_count := min (it_count it) (nat (r_maxbytes api - ki_pos iocb))\<rparr>,
    rd_read = already_read, rd_last = fra_prev_pos (fl_ra s)\<rparr>"
  obtain err r' s1 where l: "read_loop api r s = Some (err, r', s1)"
    and e: "ret = (if rd_read r' \<noteq> 0 then rd_read r' else err)" "iocb' = rd_iocb r'" "it' = rd_iter r'"
      "s' = s1\<lparr>fl_ra := (fl_ra s1)\<lparr>fra_prev_pos := rd_last r'\<rparr>\<rparr>"
    using assms(4) False by (auto simp: filemap_read_def Let_def r_def split: option.splits)
  have p: "0 \<le> ki_pos (rd_iocb r)" "ki_pos (rd_iocb r) + int (it_count (rd_iter r)) < 2 ^ 63"
    using False assms(1) by (auto simp: r_def rapi_ok_def)
  have d: "read_done content r s (err, r', s1)" by (rule read_loop_ok [OF assms(1,2) l p])
  then obtain n where "advanced content n r r'" "bal 0 s s1" "err \<le> 0" by (auto simp: read_done_def)
  then show ?thesis using e assms(3) by (intro exI [of _ n]) (auto simp: advanced_def r_def bal_def)
qed

text \<open>
  C7: A read of cached pages returns and is complete. When the pages from the position to the end of the file are cached and up to
  date, filemap_read returns as many bytes as were asked for or are left in the file, also for a caller that must not wait or start
  I/O, and leaves the cache as it was.
\<close>

theorem filemap_read_cached:
  assumes "rapi_ok api" and "holds_file api content" and "small_folios api" and "calm api (fl_cache s)"
    and "0 \<le> ki_pos iocb" and "ki_pos iocb < r_isize api (fl_cache s)" and "r_isize api (fl_cache s) \<le> r_maxbytes api" and "0 < it_count it"
    and "cached_range api (fl_cache s) (ki_pos iocb) (r_isize api (fl_cache s))"
  shows "\<exists>n iocb' it' s'. int n = min (int (it_count it)) (r_isize api (fl_cache s) - ki_pos iocb) \<and>
    filemap_read api iocb it 0 s = Some (int n, iocb', it', s') \<and>
    it_data it' = it_data it @ map (\<lambda>i. content (ki_pos iocb + int i)) [0..<n] \<and> fl_cache s' = fl_cache s"
proof -
  let ?L = "r_isize api (fl_cache s)" and ?p = "ki_pos iocb"
  define r where "r = \<lparr>rd_iocb = iocb, rd_iter = it\<lparr>it_count := min (it_count it) (nat (r_maxbytes api - ki_pos iocb))\<rparr>,
    rd_read = 0, rd_last = fra_prev_pos (fl_ra s)\<rparr>"
  have p: "0 \<le> ki_pos (rd_iocb r)" "ki_pos (rd_iocb r) + int (it_count (rd_iter r)) < 2 ^ 63" "0 < it_count (rd_iter r)"
    "cached_range api (fl_cache s) (ki_pos (rd_iocb r)) ?L"
    using assms by (auto simp: r_def rapi_ok_def)
  obtain r' s' where l: "read_loop api r s = Some (0, r', s')" "fl_cache s' = fl_cache s"
    "advanced content (nat (min ?L (ki_pos (rd_iocb r) + int (it_count (rd_iter r))) - ki_pos (rd_iocb r))) r r'"
    using read_loop_cached [OF assms(1-4) refl p] by blast
  define n where "n = nat (min (int (it_count it)) (?L - ?p))"
  have n: "nat (min ?L (ki_pos (rd_iocb r) + int (it_count (rd_iter r))) - ki_pos (rd_iocb r)) = n"
    using assms(5-8) by (auto simp: r_def n_def)
  have n0: "int n = min (int (it_count it)) (?L - ?p)" "0 < n" using assms(6,8) by (auto simp: n_def)
  have a: "rd_read r' = int n" "it_data (rd_iter r') = it_data it @ map (\<lambda>i. content (?p + int i)) [0..<n]"
    using l(3) unfolding n by (auto simp: advanced_def r_def)
  have "filemap_read api iocb it 0 s = Some (int n, rd_iocb r', rd_iter r', s'\<lparr>fl_ra := (fl_ra s')\<lparr>fra_prev_pos := rd_last r'\<rparr>\<rparr>)"
    using assms(5-8) l(1) a(1) n0(2) by (simp add: filemap_read_def Let_def r_def)
  then show ?thesis using n0(1) a(2) l(2)
    by (intro exI [of _ n] exI [of _ "rd_iocb r'"] exI [of _ "rd_iter r'"] exI [of _ "s'\<lparr>fl_ra := (fl_ra s')\<lparr>fra_prev_pos := rd_last r'\<rparr>\<rparr>"]) simp
qed

text \<open>
  C8: A splice hands out the file. When filemap_splice_read returns, the buffers that it has added to the pipe hold, one after the
  other, the bytes of the file from the position on; the position has moved by their number, which is the result if it is not 0; each
  buffer holds one reference on its folio, and everything else is given back.
\<close>

theorem splice_read_copies_file:
  assumes "rapi_ok api" and "holds_file api content" and "\<forall>c. r_isize api c \<le> r_maxbytes api" and "0 \<le> ppos"
    and "filemap_splice_read api ppos p len s = Some (ret, ppos', p', s')"
  shows "\<exists>n bs. n \<le> len \<and> ppos' = ppos + int n \<and> pi_bufs p' = pi_bufs p @ bs \<and>
    concat (map (buf_bytes api) bs) = map (\<lambda>i. content (ppos + int i)) [0..<n] \<and> (ret = int n \<or> n = 0 \<and> ret \<le> 0) \<and>
    fl_refs s' = fl_refs s + int (length bs) \<and> fl_inval s' = fl_inval s \<and> fl_locks s' = fl_locks s"
proof (cases "r_maxbytes api \<le> ppos")
  case True
  then show ?thesis using assms(5) by (intro exI [of _ 0] exI [of _ "[]"]) (simp add: filemap_splice_read_def)
next
  case False
  define x where "x = \<lparr>sp_pos = ppos, sp_len = min len ((pi_max p - length (pi_bufs p)) * 2 ^ k_page_shift (r_k api)), sp_total = 0, sp_pipe = p\<rparr>"
  obtain err y s1 where l: "splice_rounds api x s = Some (err, y, s1)"
    and e: "ret = (if sp_total y \<noteq> 0 then int (sp_total y) else err)" "ppos' = sp_pos y" "p' = sp_pipe y" "s' = s1"
    using assms(5) False by (auto simp: filemap_splice_read_def Let_def x_def split: option.splits)
  have "splice_done api content x s (err, y, s1)" using splice_rounds_ok [OF assms(1-3) l] assms(4) by (simp add: x_def)
  then obtain n bs where "spliced_by api content n bs x y" "bal (int (length bs)) s s1" "err \<le> 0" by (auto simp: splice_done_def)
  then show ?thesis using e by (intro exI [of _ n] exI [of _ bs]) (auto simp: spliced_by_def x_def bal_def bufs_bytes_def)
qed

section \<open>A small file\<close>

text \<open>Pages of 4 bytes, and a file of the ten bytes 0 to 9 that is cached in three folios.\<close>

definition ten_folio :: "u64 \<Rightarrow> xent" where
  "ten_folio i = \<lparr>xe_id = unat i, xe_value = False, xe_index = i, xe_order = 0, xe_marks = {}, xe_locked = False, xe_dirty = False,
     xe_writeback = False, xe_uptodate = True, xe_readahead = False, xe_mapped = True\<rparr>"

definition ten_map :: xmapping where
  "ten_map = \<lparr>mp_entries = [ten_folio 0, ten_folio 1, ten_folio 2], mp_nrpages = 3\<rparr>"

definition ten_content :: "int \<Rightarrow> u8" where
  "ten_content i = word_of_int i"

definition ten_api :: "unit rapi" where
  "ten_api = \<lparr>r_k = demo_kapi\<lparr>k_page_shift := 2\<rparr>, r_w = demo_wapi\<lparr>w_batch_size := 2\<rparr>, r_g = (\<lambda>i. demo_gapi), r_map = (\<lambda>c. ten_map),
     r_new = (\<lambda>i c. ten_folio i), r_isize = (\<lambda>c. 10), r_maxbytes = 1000, r_signal = (\<lambda>c. False), r_inval_trylock = (\<lambda>c. True),
     r_put_wait = (\<lambda>i c. c), r_lock_async = (\<lambda>i c. (0, c)), r_partial = None, r_blkbits = 2, r_byte = (\<lambda>i n. ten_content (4 * int i + int n)),
     r_copy = (\<lambda>i p n c. (n, c)), r_set_dropbehind = (\<lambda>i c. c), r_end_dropbehind = (\<lambda>i c. c), r_rac = (\<lambda>b. demo_rac), r_write_wait = (\<lambda>a b c. (0, c)),
     r_direct_IO = (\<lambda>io it c. (0, it, c)), r_dax = False\<rparr>"

definition ten_cache :: "unit cache" where
  "ten_cache = \<lparr>pc_pages = (\<lambda>i. i < 3), pc_marks = (\<lambda>i. False), pc_nrpages = 3, pc_reads = [], pc_env = ()\<rparr>"

definition ten_state :: "unit flt" where
  "ten_state = \<lparr>fl_cache = ten_cache, fl_ra = demo_ra, fl_mmap = True, fl_inval = 0, fl_refs = 0, fl_locks = 0, fl_pins = 0\<rparr>"

definition ten_read :: "(int \<times> int \<times> u8 list) option" where
  "ten_read = map_option (\<lambda>(ret, io, it, s). (ret, ki_pos io, it_data it)) (filemap_read ten_api \<lparr>ki_pos = 1, ki_flags = {}\<rparr> \<lparr>it_count = 20, it_data = []\<rparr> 0 ten_state)"

definition ten_splice :: "(int \<times> int \<times> (nat \<times> nat \<times> nat \<times> nat) list) option" where
  "ten_splice = map_option (\<lambda>(ret, pos, p, s). (ret, pos, pi_bufs p)) (filemap_splice_read ten_api 1 \<lparr>pi_bufs = [], pi_max = 2\<rparr> 20 ten_state)"

lemma ten_read_eval: "ten_read = Some (9, 10, [1, 2, 3, 4, 5, 6, 7, 8, 9])"
  by code_simp

lemma ten_splice_eval: "ten_splice = Some (7, 8, [(0, 0, 1, 3), (1, 0, 0, 4)])"
  by code_simp

lemma ten_ok: "map_ok ten_map" "rapi_ok ten_api" "holds_file ten_api ten_content" "small_folios ten_api" "calm ten_api (fl_cache ten_state)"
proof -
  show m: "map_ok ten_map" by (simp add: map_ok_def ten_map_def ten_folio_def ent_ok_def hi_def before_def)
  show "rapi_ok ten_api" using m by (simp add: rapi_ok_def ten_api_def demo_kapi_def demo_gapi_def demo_wapi_def)
  have f: "folio_pos ten_api e = 4 * int (unat (xe_index e))" for e by (simp add: folio_pos_def ten_api_def demo_kapi_def)
  have a: "xe_id e = unat (xe_index e)" if "a_folio ten_api e" for e
    using that by (auto simp: a_folio_def ten_api_def ten_map_def ten_folio_def new_folio_def)
  have key: "r_byte ten_api (xe_id e) n = ten_content (folio_pos ten_api e + int n)" if "a_folio ten_api e" for e n
    unfolding f a [OF that] by (simp add: ten_api_def)
  have mem: "a_folio ten_api e" if "e \<in> set (mp_entries (r_map ten_api c))" "\<not> xe_value e" for c e using that unfolding a_folio_def by blast
  show "holds_file ten_api ten_content"
    unfolding holds_file_def by (intro conjI allI impI; rule key; (assumption | rule mem))
  show "small_folios ten_api" by (simp add: small_folios_def ten_api_def demo_kapi_def)
  show "calm ten_api (fl_cache ten_state)" by (simp add: calm_def ten_api_def ten_map_def ten_folio_def demo_gapi_def)
qed

theorem filemap_read_copies_file_witness:
  "\<exists>ret iocb it s. filemap_read ten_api \<lparr>ki_pos = 1, ki_flags = {}\<rparr> \<lparr>it_count = 20, it_data = []\<rparr> 0 ten_state = Some (ret, iocb, it, s) \<and>
     ret = 9 \<and> it_data it = map (\<lambda>i. ten_content (1 + int i)) [0..<9] \<and> fl_refs s = 0"
proof -
  obtain ret iocb it s where r: "filemap_read ten_api \<lparr>ki_pos = 1, ki_flags = {}\<rparr> \<lparr>it_count = 20, it_data = []\<rparr> 0 ten_state = Some (ret, iocb, it, s)"
    and d: "ret = 9" "ki_pos iocb = 10"
    using ten_read_eval by (auto simp: ten_read_def)
  from filemap_read_copies_file [OF ten_ok(2,3) order_refl r] have "it_data it = map (\<lambda>i. ten_content (1 + int i)) [0..<9]" "fl_refs s = 0"
    using d by (auto simp: ten_state_def)
  then show ?thesis using r d by blast
qed

theorem splice_read_copies_file_witness:
  "\<exists>ret pos p s. filemap_splice_read ten_api 1 \<lparr>pi_bufs = [], pi_max = 2\<rparr> 20 ten_state = Some (ret, pos, p, s) \<and>
     ret = 7 \<and> concat (map (buf_bytes ten_api) (pi_bufs p)) = map (\<lambda>i. ten_content (1 + int i)) [0..<7] \<and> fl_refs s = 2"
proof -
  obtain ret pos p s where r: "filemap_splice_read ten_api 1 \<lparr>pi_bufs = [], pi_max = 2\<rparr> 20 ten_state = Some (ret, pos, p, s)"
    and d: "ret = 7" "pos = 8" "pi_bufs p = [(0, 0, 1, 3), (1, 0, 0, 4)]"
    using ten_splice_eval by (auto simp: ten_splice_def)
  have "\<forall>c. r_isize ten_api c \<le> r_maxbytes ten_api" "(0::int) \<le> 1" by (simp_all add: ten_api_def)
  from splice_read_copies_file [OF ten_ok(2,3) this r] obtain n bs where
    "8 = 1 + int n" "pi_bufs p = bs" "concat (map (buf_bytes ten_api) bs) = map (\<lambda>i. ten_content (1 + int i)) [0..<n]" "fl_refs s = int (length bs)"
    using d(2) by (auto simp: ten_state_def)
  moreover from this(1,2) have "n = 7" "length bs = 2" using d(3) by auto
  ultimately show ?thesis using r d by (intro exI [of _ ret] exI [of _ pos] exI [of _ p] exI [of _ s]) simp
qed

theorem filemap_read_cached_witness:
  "\<exists>iocb it s. filemap_read ten_api \<lparr>ki_pos = 3, ki_flags = {IOCB_NOWAIT}\<rparr> \<lparr>it_count = 20, it_data = []\<rparr> 0 ten_state = Some (7, iocb, it, s) \<and>
     it_data it = map (\<lambda>i. ten_content (3 + int i)) [0..<7] \<and> fl_cache s = ten_cache"
proof -
  have r: "r_isize ten_api c = 10" "r_maxbytes ten_api = 1000" "k_page_shift (r_k ten_api) = 2" "r_map ten_api c = ten_map" for c
    by (simp_all add: ten_api_def demo_kapi_def)
  have "entry_at ten_map 0 \<noteq> None" "entry_at ten_map 1 \<noteq> None" "entry_at ten_map 2 \<noteq> None"
    by (simp_all add: entry_at_def ten_map_def ten_folio_def xe_covers_def xe_nr_def)
  then have "entry_at ten_map (word_of_int q) \<noteq> None" if "q = 0 \<or> q = 1 \<or> q = 2" for q using that by auto
  moreover have "x div 4 = 0 \<or> x div 4 = 1 \<or> x div 4 = 2" if "3 \<le> x" "x < 10" for x :: int using that by presburger
  ultimately have c: "cached_range ten_api (fl_cache ten_state) 3 10" by (simp add: cached_range_def read_index_def r)
  show ?thesis
    using filemap_read_cached [OF ten_ok(2-5), of "\<lparr>ki_pos = 3, ki_flags = {IOCB_NOWAIT}\<rparr>" "\<lparr>it_count = 20, it_data = []\<rparr>"] c
    by (auto simp: r ten_state_def)
qed

end
